(* ===== verification/Y2Q_Prelude.thy ===== *)
theory Y2Q_Prelude
  imports Main "HOL-Library.Word" "HOL-Library.List_Lexorder" "HOL-Library.Char_ord"
    "HOL-Library.Sublist" "HOL-Library.AList"
begin

text \<open>
  The vocabulary every component of the development shares.

  \<^item> The machine types: bytes and the unsigned integers of the source at their width.
  \<^item> Results: Rust's \<open>Result<T, E>\<close> is the sum \<open>'e + 'a\<close> (\<open>Inl\<close> the error); \<open>rbind\<close> is the
    \<open>?\<close> operator and \<open>ok_or\<close> is \<open>Option::ok_or\<close>.
  \<^item> \<open>to_be_bytes\<close>, \<open>to_le_bytes\<close> and their inverses, with the contract of a fixed-width codec
    stated once as the locale \<open>fixed_codec\<close> and interpreted at every width the source uses.
  \<^item> Stateful fallible code: a computation takes the state and returns it updated together with a
    result; \<open>sbind\<close> runs two in sequence and stops at the first error, keeping the state reached.
  \<^item> \<open>checked_add\<close>, \<open>saturating_add\<close> and \<open>saturating_sub\<close> at 64 bits.
  \<^item> Rust strings: a \<open>string\<close> is the UTF-8 byte sequence of a Rust \<open>String\<close> (one \<open>char\<close> per
    byte, so \<open>length\<close> is \<open>String::len\<close>), and \<open>from_utf8\<close> is the validating conversion.
  \<^item> Finite maps that the program mutates and iterates (\<open>HashMap\<close>, \<open>DashMap\<close>): an association
    list, whose order stands for the unspecified iteration order; the contract of such a store
    is the locale \<open>kv_store\<close>.
\<close>

unbundle bit_operations_syntax

named_theorems codec_simps "length and inverse laws of the byte codecs"
named_theorems store_simps "lookup laws of the key-value stores"

subsection \<open>Machine types\<close>

type_synonym byte = "8 word"
type_synonym bytes = "8 word list"
type_synonym u8 = "8 word"
type_synonym u16 = "16 word"
type_synonym u32 = "32 word"
type_synonym u64 = "64 word"

subsection \<open>Results\<close>

fun rbind :: "'e + 'a \<Rightarrow> ('a \<Rightarrow> 'e + 'b) \<Rightarrow> 'e + 'b" where
  "rbind (Inl e) f = Inl e"
| "rbind (Inr x) f = f x"

fun ok_or :: "'a option \<Rightarrow> 'e \<Rightarrow> 'e + 'a" where
  "ok_or None e = Inl e"
| "ok_or (Some x) e = Inr x"

fun map_err :: "('e \<Rightarrow> 'f) \<Rightarrow> 'e + 'a \<Rightarrow> 'f + 'a" where
  "map_err f (Inl e) = Inl (f e)"
| "map_err f (Inr x) = Inr x"

fun is_ok :: "'e + 'a \<Rightarrow> bool" where
  "is_ok (Inl e) = False"
| "is_ok (Inr x) = True"

lemma rbind_eq_Inr [simp]: "rbind m f = Inr y \<longleftrightarrow> (\<exists>x. m = Inr x \<and> f x = Inr y)"
  by (cases m) auto

lemma ok_or_eq_Inr [simp]: "ok_or x e = Inr y \<longleftrightarrow> x = Some y"
  by (cases x) auto

lemma map_err_eq_Inr [simp]: "map_err f m = Inr y \<longleftrightarrow> m = Inr y"
  by (cases m) auto

lemma rbind_split:
  "P (rbind m f) \<longleftrightarrow> (\<forall>e. m = Inl e \<longrightarrow> P (Inl e)) \<and> (\<forall>x. m = Inr x \<longrightarrow> P (f x))"
  by (cases m) auto

lemma is_ok_iff: "is_ok m \<longleftrightarrow> (\<exists>x. m = Inr x)"
  by (cases m) auto

text \<open>Mapping a fallible function over a list, stopping at the first error (\<open>?\<close> in a loop).\<close>

fun rmap :: "('a \<Rightarrow> 'e + 'b) \<Rightarrow> 'a list \<Rightarrow> 'e + 'b list" where
  "rmap f [] = Inr []"
| "rmap f (x # xs) = rbind (f x) (\<lambda>y. rbind (rmap f xs) (\<lambda>ys. Inr (y # ys)))"

lemma rmap_length: "rmap f xs = Inr ys \<Longrightarrow> length ys = length xs"
  by (induction xs arbitrary: ys) auto

lemma rmap_nth: "rmap f xs = Inr ys \<Longrightarrow> i < length xs \<Longrightarrow> f (xs ! i) = Inr (ys ! i)"
proof (induction xs arbitrary: ys i)
  case (Cons x xs)
  then show ?case by (cases i) auto
qed simp

lemma rmap_Inr_iff: "(\<exists>ys. rmap f xs = Inr ys) \<longleftrightarrow> (\<forall>x\<in>set xs. \<exists>y. f x = Inr y)"
  by (induction xs) auto

subsection \<open>I/O errors\<close>

text \<open>\<open>std::io::Error\<close> by the kinds the program tells apart; \<open>NoSuchFile\<close> is \<open>ErrorKind::NotFound\<close>.\<close>

datatype io_error = InvalidData string | UnexpectedEof | NoSuchFile | Os string

subsection \<open>Byte order\<close>

fun be_of_nat :: "nat \<Rightarrow> nat \<Rightarrow> bytes" where
  "be_of_nat 0 v = []"
| "be_of_nat (Suc n) v = be_of_nat n (v div 256) @ [of_nat (v mod 256)]"

definition nat_of_be :: "bytes \<Rightarrow> nat" where
  "nat_of_be bs = foldl (\<lambda>acc b. acc * 256 + unat b) 0 bs"

lemma length_be_of_nat [simp, codec_simps]: "length (be_of_nat n v) = n"
  by (induction n arbitrary: v) auto

lemma nat_of_be_Nil [simp]: "nat_of_be [] = 0"
  by (simp add: nat_of_be_def)

lemma nat_of_be_snoc [simp]: "nat_of_be (bs @ [b]) = nat_of_be bs * 256 + unat b"
  by (simp add: nat_of_be_def)

lemma unat_byte_less [simp]: "unat (b :: byte) < 256"
  using unsigned_less [of b] by simp

lemma unat_of_nat_byte [simp]: "unat (of_nat v :: byte) = v mod 256"
  by (simp add: unat_of_nat)

lemma nat_of_be_bound: "nat_of_be bs < 256 ^ length bs"
proof (induction bs rule: rev_induct)
  case (snoc b bs)
  have "nat_of_be bs * 256 + unat b < (nat_of_be bs + 1) * 256"
    by simp
  also have "\<dots> \<le> 256 ^ length bs * 256"
    using snoc.IH by (intro mult_le_mono1) simp
  finally show ?case by (simp add: mult.commute)
qed simp

lemma nat_of_be_of_nat: "nat_of_be (be_of_nat n v) = v mod 256 ^ n"
proof (induction n arbitrary: v)
  case (Suc n)
  have "nat_of_be (be_of_nat (Suc n) v) = (v div 256) mod 256 ^ n * 256 + v mod 256"
    by (simp add: Suc.IH)
  also have "\<dots> = v mod (256 * 256 ^ n)"
    by (simp add: mod_mult2_eq)
  finally show ?case by simp
qed simp

lemma be_of_nat_of_be: "length bs = n \<Longrightarrow> be_of_nat n (nat_of_be bs) = bs"
proof (induction bs arbitrary: n rule: rev_induct)
  case (snoc b bs)
  have byte: "(of_nat (unat b) :: byte) = b" by simp
  have "(nat_of_be bs * 256 + unat b) mod 256 = unat b"
    by (simp add: mod_mult_self3)
  moreover have "(nat_of_be bs * 256 + unat b) div 256 = nat_of_be bs"
    by (simp add: div_mult_self3)
  ultimately show ?case using snoc byte by auto
qed simp

text \<open>The \<open>to_be_bytes\<close>/\<open>from_be_bytes\<close> and \<open>to_le_bytes\<close>/\<open>from_le_bytes\<close> pairs.\<close>

definition to_be_u16 :: "u16 \<Rightarrow> bytes" where "to_be_u16 w = be_of_nat 2 (unat w)"
definition to_be_u32 :: "u32 \<Rightarrow> bytes" where "to_be_u32 w = be_of_nat 4 (unat w)"
definition to_be_u64 :: "u64 \<Rightarrow> bytes" where "to_be_u64 w = be_of_nat 8 (unat w)"
definition from_be_u16 :: "bytes \<Rightarrow> u16" where "from_be_u16 bs = of_nat (nat_of_be bs)"
definition from_be_u32 :: "bytes \<Rightarrow> u32" where "from_be_u32 bs = of_nat (nat_of_be bs)"
definition from_be_u64 :: "bytes \<Rightarrow> u64" where "from_be_u64 bs = of_nat (nat_of_be bs)"
definition to_le_u16 :: "u16 \<Rightarrow> bytes" where "to_le_u16 w = rev (to_be_u16 w)"
definition to_le_u32 :: "u32 \<Rightarrow> bytes" where "to_le_u32 w = rev (to_be_u32 w)"
definition to_le_u64 :: "u64 \<Rightarrow> bytes" where "to_le_u64 w = rev (to_be_u64 w)"
definition from_le_u16 :: "bytes \<Rightarrow> u16" where "from_le_u16 bs = from_be_u16 (rev bs)"
definition from_le_u32 :: "bytes \<Rightarrow> u32" where "from_le_u32 bs = from_be_u32 (rev bs)"
definition from_le_u64 :: "bytes \<Rightarrow> u64" where "from_le_u64 bs = from_be_u64 (rev bs)"

text \<open>The contract of a fixed-width codec, and what a client gets from it: encodings are
  injective, prefix-free and can be cut off the front of a buffer.\<close>

locale fixed_codec =
  fixes enc :: "'a \<Rightarrow> bytes" and dec :: "bytes \<Rightarrow> 'a" and width :: nat
  assumes enc_length: "length (enc a) = width"
    and dec_enc: "dec (enc a) = a"
    and enc_dec: "length bs = width \<Longrightarrow> enc (dec bs) = bs"
begin

lemma enc_inj: "enc a = enc b \<longleftrightarrow> a = b"
  by (metis dec_enc)

lemma enc_append_inj: "enc a @ x = enc b @ y \<longleftrightarrow> a = b \<and> x = y"
  using enc_length enc_inj by (auto simp: append_eq_append_conv)

lemma take_enc: "take width (enc a @ x) = enc a"
  by (simp add: enc_length)

lemma drop_enc: "drop width (enc a @ x) = x"
  by (simp add: enc_length)

lemma dec_take_enc: "dec (take width (enc a @ x)) = a"
  by (simp only: take_enc dec_enc)

lemma take_enc_dec: "width \<le> length bs \<Longrightarrow> enc (dec (take width bs)) = take width bs"
  by (simp add: enc_dec)

end

lemma of_nat_be_word:
  assumes "256 ^ n = (2 :: nat) ^ LENGTH('w::len)"
  shows "(of_nat (nat_of_be (be_of_nat n (unat w))) :: 'w word) = w"
    and "length bs = n \<Longrightarrow> be_of_nat n (unat (of_nat (nat_of_be bs) :: 'w word)) = bs"
proof -
  have "unat w < 256 ^ n" using assms by simp
  then show "(of_nat (nat_of_be (be_of_nat n (unat w))) :: 'w word) = w"
    by (simp add: nat_of_be_of_nat)
next
  assume "length bs = n"
  then have "nat_of_be bs < 2 ^ LENGTH('w)"
    using nat_of_be_bound [of bs] assms by simp
  then show "be_of_nat n (unat (of_nat (nat_of_be bs) :: 'w word)) = bs"
    using \<open>length bs = n\<close> by (simp add: unat_of_nat be_of_nat_of_be)
qed

interpretation be16: fixed_codec to_be_u16 from_be_u16 2
  by unfold_locales (simp_all add: to_be_u16_def from_be_u16_def of_nat_be_word)

interpretation be32: fixed_codec to_be_u32 from_be_u32 4
  by unfold_locales (simp_all add: to_be_u32_def from_be_u32_def of_nat_be_word)

interpretation be64: fixed_codec to_be_u64 from_be_u64 8
  by unfold_locales (simp_all add: to_be_u64_def from_be_u64_def of_nat_be_word)

interpretation le16: fixed_codec to_le_u16 from_le_u16 2
  by unfold_locales
    (simp_all add: to_le_u16_def from_le_u16_def be16.enc_length be16.dec_enc be16.enc_dec)

interpretation le32: fixed_codec to_le_u32 from_le_u32 4
  by unfold_locales
    (simp_all add: to_le_u32_def from_le_u32_def be32.enc_length be32.dec_enc be32.enc_dec)

interpretation le64: fixed_codec to_le_u64 from_le_u64 8
  by unfold_locales
    (simp_all add: to_le_u64_def from_le_u64_def be64.enc_length be64.dec_enc be64.enc_dec)

lemmas codec_laws [codec_simps, simp] =
  be16.enc_length be32.enc_length be64.enc_length le16.enc_length le32.enc_length le64.enc_length
  be16.dec_enc be32.dec_enc be64.dec_enc le16.dec_enc le32.dec_enc le64.dec_enc


subsection \<open>Stateful computations\<close>

type_synonym ('s, 'e, 'a) comp = "'s \<Rightarrow> 's \<times> ('e + 'a)"

definition sret :: "'a \<Rightarrow> ('s, 'e, 'a) comp" where "sret x = (\<lambda>s. (s, Inr x))"
definition sfail :: "'e \<Rightarrow> ('s, 'e, 'a) comp" where "sfail e = (\<lambda>s. (s, Inl e))"
definition sget :: "('s \<Rightarrow> 'a) \<Rightarrow> ('s, 'e, 'a) comp" where "sget f = (\<lambda>s. (s, Inr (f s)))"
definition supd :: "('s \<Rightarrow> 's) \<Rightarrow> ('s, 'e, unit) comp" where "supd f = (\<lambda>s. (f s, Inr ()))"
definition slift :: "'e + 'a \<Rightarrow> ('s, 'e, 'a) comp" where "slift r = (\<lambda>s. (s, r))"

definition sbind :: "('s, 'e, 'a) comp \<Rightarrow> ('a \<Rightarrow> ('s, 'e, 'b) comp) \<Rightarrow> ('s, 'e, 'b) comp" where
  "sbind m f = (\<lambda>s. case m s of (s', Inl e) \<Rightarrow> (s', Inl e) | (s', Inr x) \<Rightarrow> f x s')"

text \<open>The computation with its error mapped, Rust's \<open>map_err\<close>.\<close>

definition smap_err :: "('e \<Rightarrow> 'f) \<Rightarrow> ('s, 'e, 'a) comp \<Rightarrow> ('s, 'f, 'a) comp" where
  "smap_err h m = (\<lambda>s. case m s of (s', r) \<Rightarrow> (s', map_err h r))"

text \<open>The computation with its result as a value: a \<open>match\<close> on it, or a result that is ignored.\<close>

definition stry :: "('s, 'e, 'a) comp \<Rightarrow> ('s, 'f, 'e + 'a) comp" where
  "stry m = (\<lambda>s. case m s of (s', r) \<Rightarrow> (s', Inr r))"

named_theorems comp_simps "unfolding rules of the stateful computations"

lemmas comp_defs [comp_simps] = sret_def sfail_def sget_def supd_def slift_def sbind_def smap_err_def stry_def

lemma sbind_Inr_iff:
  "sbind m f s = (s'', Inr y) \<longleftrightarrow> (\<exists>s' x. m s = (s', Inr x) \<and> f x s' = (s'', Inr y))"
  by (auto simp: sbind_def split: prod.splits sum.splits)

lemma sbind_run: "m s = (s', Inr x) \<Longrightarrow> sbind m f s = f x s'"
  by (simp add: sbind_def)

subsection \<open>Decimal display\<close>

fun show_nat :: "nat \<Rightarrow> string" where
  "show_nat n = (if n < 10 then [char_of (48 + n)] else show_nat (n div 10) @ [char_of (48 + n mod 10)])"

declare show_nat.simps [simp del]

subsection \<open>Checked and saturating arithmetic\<close>

definition saturating_add_u64 :: "u64 \<Rightarrow> u64 \<Rightarrow> u64" where
  "saturating_add_u64 a b = (if unat a + unat b < 2 ^ 64 then a + b else - 1)"

definition saturating_sub_u64 :: "u64 \<Rightarrow> u64 \<Rightarrow> u64" where
  "saturating_sub_u64 a b = (if unat b \<le> unat a then a - b else 0)"

definition checked_add_u64 :: "u64 \<Rightarrow> u64 \<Rightarrow> u64 option" where
  "checked_add_u64 a b = (if unat a + unat b < 2 ^ 64 then Some (a + b) else None)"

lemma unat_add_u64: "unat (a :: u64) + unat b < 2 ^ 64 \<Longrightarrow> unat (a + b) = unat a + unat b"
  using unat_add_lem [of a b] by simp

lemma checked_add_u64_Some: "checked_add_u64 a b = Some c \<longleftrightarrow> unat c = unat a + unat b"
proof
  assume "unat c = unat a + unat b"
  moreover have "unat c < 2 ^ 64" using unsigned_less [of c] by simp
  ultimately show "checked_add_u64 a b = Some c"
    by (simp add: checked_add_u64_def word_unat_eq_iff unat_add_u64)
qed (auto simp: checked_add_u64_def unat_add_u64 split: if_splits)

lemma unat_saturating_add_u64: "unat (saturating_add_u64 a b) = min (unat a + unat b) (2 ^ 64 - 1)"
  by (auto simp: saturating_add_u64_def unat_add_u64 min_def) (simp add: unsigned_minus_1_eq_mask mask_eq_exp_minus_1)

lemma unat_saturating_sub_u64: "unat (saturating_sub_u64 a b) = unat a - unat b"
  by (simp add: saturating_sub_u64_def unat_sub word_le_nat_alt)

subsection \<open>Rust strings\<close>

text \<open>\<open>as_bytes\<close> is \<open>str::as_bytes\<close>. \<open>utf8_valid\<close> is the well-formedness table of the Unicode
  standard that \<open>std::str::from_utf8\<close> checks; \<open>rust_str\<close> is the type invariant of a Rust
  \<open>String\<close>.\<close>

definition byte_of_char :: "char \<Rightarrow> byte" where
  "byte_of_char c = of_nat (of_char c)"

definition char_of_byte :: "byte \<Rightarrow> char" where
  "char_of_byte b = char_of (unat b)"

definition as_bytes :: "string \<Rightarrow> bytes" where
  "as_bytes s = map byte_of_char s"

definition is_cont :: "byte \<Rightarrow> bool" where
  "is_cont b \<longleftrightarrow> 128 \<le> unat b \<and> unat b \<le> 191"

fun utf8_valid :: "bytes \<Rightarrow> bool" where
  "utf8_valid [] = True"
| "utf8_valid (b # bs) =
    (let v = unat b in
     if v < 128 then utf8_valid bs
     else if 194 \<le> v \<and> v \<le> 223 then
       (case bs of c # r \<Rightarrow> is_cont c \<and> utf8_valid r | _ \<Rightarrow> False)
     else if 224 \<le> v \<and> v \<le> 239 then
       (case bs of c # d # r \<Rightarrow>
          is_cont c \<and> is_cont d \<and> (v = 224 \<longrightarrow> 160 \<le> unat c) \<and> (v = 237 \<longrightarrow> unat c \<le> 159)
          \<and> utf8_valid r
        | _ \<Rightarrow> False)
     else if 240 \<le> v \<and> v \<le> 244 then
       (case bs of c # d # e # r \<Rightarrow>
          is_cont c \<and> is_cont d \<and> is_cont e \<and> (v = 240 \<longrightarrow> 144 \<le> unat c)
          \<and> (v = 244 \<longrightarrow> unat c \<le> 143) \<and> utf8_valid r
        | _ \<Rightarrow> False)
     else False)"

definition from_utf8 :: "bytes \<Rightarrow> string option" where
  "from_utf8 bs = (if utf8_valid bs then Some (map char_of_byte bs) else None)"

definition rust_str :: "string \<Rightarrow> bool" where
  "rust_str s \<longleftrightarrow> utf8_valid (as_bytes s)"

lemma char_of_byte_of_char [simp]: "char_of_byte (byte_of_char c) = c"
  by (simp add: char_of_byte_def byte_of_char_def)

lemma byte_of_char_of_byte [simp]: "byte_of_char (char_of_byte b) = b"
  by (simp add: char_of_byte_def byte_of_char_def of_char_of)

lemma length_as_bytes [simp]: "length (as_bytes s) = length s"
  by (simp add: as_bytes_def)

lemma as_bytes_Nil [simp]: "as_bytes [] = []"
  by (simp add: as_bytes_def)

lemma as_bytes_append [simp]: "as_bytes (s @ t) = as_bytes s @ as_bytes t"
  by (simp add: as_bytes_def)

lemma inj_byte_of_char: "inj byte_of_char"
  by (metis char_of_byte_of_char injI)

lemma as_bytes_inj [simp]: "as_bytes s = as_bytes t \<longleftrightarrow> s = t"
  by (simp add: as_bytes_def inj_map_eq_map inj_byte_of_char)

lemma from_utf8_as_bytes: "rust_str s \<Longrightarrow> from_utf8 (as_bytes s) = Some s"
  by (simp add: from_utf8_def rust_str_def as_bytes_def comp_def)

lemma from_utf8_Some: "from_utf8 bs = Some s \<Longrightarrow> bs = as_bytes s \<and> rust_str s"
  by (auto simp: from_utf8_def rust_str_def as_bytes_def comp_def split: if_splits)

text \<open>An ASCII string is a Rust string.\<close>

lemma utf8_valid_ascii: "\<forall>b \<in> set bs. unat b < 128 \<Longrightarrow> utf8_valid bs"
  by (induction bs) (auto simp: Let_def)

definition to_ascii_lowercase :: "char \<Rightarrow> char" where
  "to_ascii_lowercase c = (if CHR ''A'' \<le> c \<and> c \<le> CHR ''Z'' then char_of (of_char c + 32 :: nat) else c)"

text \<open>\<open>chars\<close> of a Rust string, as code points; \<open>split\<close> on a character; \<open>contains\<close> of a string.\<close>

fun utf8_chars :: "bytes \<Rightarrow> nat list" where
  "utf8_chars [] = []"
| "utf8_chars (b # bs) =
    (let v = unat b in
     if v < 128 then v # utf8_chars bs
     else if v < 224 then
       (case bs of c # r \<Rightarrow> ((v mod 32) * 64 + unat c mod 64) # utf8_chars r | _ \<Rightarrow> [])
     else if v < 240 then
       (case bs of c # d # r \<Rightarrow> (((v mod 16) * 64 + unat c mod 64) * 64 + unat d mod 64) # utf8_chars r | _ \<Rightarrow> [])
     else
       (case bs of c # d # e # r \<Rightarrow>
          ((((v mod 8) * 64 + unat c mod 64) * 64 + unat d mod 64) * 64 + unat e mod 64) # utf8_chars r
        | _ \<Rightarrow> []))"

definition str_chars :: "string \<Rightarrow> nat list" where
  "str_chars s = utf8_chars (as_bytes s)"

fun split_on :: "char \<Rightarrow> string \<Rightarrow> string list" where
  "split_on c [] = [[]]"
| "split_on c (x # xs) = (if x = c then [] # split_on c xs else
     (case split_on c xs of p # ps \<Rightarrow> (x # p) # ps | [] \<Rightarrow> [[x]]))"

definition str_contains :: "string \<Rightarrow> string \<Rightarrow> bool" where
  "str_contains needle s \<longleftrightarrow> list_ex (\<lambda>i. prefix needle (drop i s)) [0..<Suc (length s)]"

subsection \<open>Key-value stores\<close>

type_synonym ('k, 'v) dmap = "('k \<times> 'v) list"

abbreviation dm_get :: "('k, 'v) dmap \<Rightarrow> 'k \<Rightarrow> 'v option" where
  "dm_get \<equiv> map_of"

abbreviation dm_insert :: "'k \<Rightarrow> 'v \<Rightarrow> ('k, 'v) dmap \<Rightarrow> ('k, 'v) dmap" where
  "dm_insert \<equiv> AList.update"

abbreviation dm_remove :: "'k \<Rightarrow> ('k, 'v) dmap \<Rightarrow> ('k, 'v) dmap" where
  "dm_remove \<equiv> AList.delete"

definition dm_inv :: "('k, 'v) dmap \<Rightarrow> bool" where
  "dm_inv m \<longleftrightarrow> distinct (map fst m)"

text \<open>\<open>dm_keys_where\<close> is the first half of the collect-then-remove idiom of the stores:
  \<open>iter().filter_map(\<dots>).collect()\<close>; the second half removes the collected keys one by one.\<close>

definition dm_keys_where :: "('k \<Rightarrow> 'v \<Rightarrow> bool) \<Rightarrow> ('k, 'v) dmap \<Rightarrow> 'k list" where
  "dm_keys_where P m = map fst (filter (\<lambda>(k, v). P k v) m)"

definition dm_remove_all :: "'k list \<Rightarrow> ('k, 'v) dmap \<Rightarrow> ('k, 'v) dmap" where
  "dm_remove_all ks m = fold dm_remove ks m"

locale kv_store =
  fixes get :: "'m \<Rightarrow> 'k \<Rightarrow> 'v option"
    and ins :: "'k \<Rightarrow> 'v \<Rightarrow> 'm \<Rightarrow> 'm"
    and rem :: "'k \<Rightarrow> 'm \<Rightarrow> 'm"
    and iter :: "'m \<Rightarrow> ('k \<times> 'v) list"
    and inv :: "'m \<Rightarrow> bool"
  assumes get_ins: "inv m \<Longrightarrow> get (ins k v m) = (get m)(k \<mapsto> v)"
    and get_rem: "inv m \<Longrightarrow> get (rem k m) = (get m)(k := None)"
    and inv_ins: "inv m \<Longrightarrow> inv (ins k v m)"
    and inv_rem: "inv m \<Longrightarrow> inv (rem k m)"
    and iter_get: "inv m \<Longrightarrow> map_of (iter m) = get m"
    and iter_distinct: "inv m \<Longrightarrow> distinct (map fst (iter m))"
begin

lemma inv_fold_rem: "inv m \<Longrightarrow> inv (fold rem ks m)"
  by (induction ks arbitrary: m) (auto simp: inv_rem)

lemma get_fold_rem:
  "inv m \<Longrightarrow> get (fold rem ks m) k = (if k \<in> set ks then None else get m k)"
  by (induction ks arbitrary: m) (auto simp: inv_rem get_rem)

lemma iter_mem: "inv m \<Longrightarrow> (k, v) \<in> set (iter m) \<longleftrightarrow> get m k = Some v"
  by (simp add: iter_get [symmetric] iter_distinct)

lemma victims_mem:
  "inv m \<Longrightarrow> k \<in> set (map fst (filter (\<lambda>(k, v). P k v) (iter m)))
    \<longleftrightarrow> (\<exists>v. get m k = Some v \<and> P k v)"
  by (auto simp: iter_mem image_iff)

text \<open>Collect-then-remove leaves exactly the rows the predicate spares.\<close>

lemma get_remove_where:
  "inv m \<Longrightarrow> get (fold rem (map fst (filter (\<lambda>(k, v). P k v) (iter m))) m) k
    = (case get m k of None \<Rightarrow> None | Some v \<Rightarrow> if P k v then None else Some v)"
  by (simp only: get_fold_rem victims_mem) (auto split: option.splits)

text \<open>The number of collected keys is the number of rows that satisfy the predicate.\<close>

lemma victims_count:
  assumes "inv m"
  shows "length (map fst (filter (\<lambda>(k, v). P k v) (iter m)))
    = card {k. \<exists>v. get m k = Some v \<and> P k v}"
proof -
  have "distinct (map fst (filter (\<lambda>(k, v). P k v) (iter m)))"
    using iter_distinct [OF assms] by (rule distinct_map_filter)
  then have "length (map fst (filter (\<lambda>(k, v). P k v) (iter m)))
    = card (set (map fst (filter (\<lambda>(k, v). P k v) (iter m))))"
    by (simp only: distinct_card)
  also have "set (map fst (filter (\<lambda>(k, v). P k v) (iter m)))
    = {k. \<exists>v. get m k = Some v \<and> P k v}"
    using victims_mem [OF assms] by blast
  finally show ?thesis .
qed

end

interpretation dm: kv_store dm_get dm_insert dm_remove "\<lambda>m. m" dm_inv
  by unfold_locales
    (auto simp: dm_inv_def update_conv' delete_conv' distinct_update distinct_delete)

lemma dm_inv_Nil [simp]: "dm_inv []"
  by (simp add: dm_inv_def)

lemma dm_inv_remove_all [simp]: "dm_inv m \<Longrightarrow> dm_inv (dm_remove_all ks m)"
  by (simp add: dm_remove_all_def dm.inv_fold_rem)

lemma dm_get_remove_all [store_simps]:
  "dm_inv m \<Longrightarrow> dm_get (dm_remove_all ks m) k = (if k \<in> set ks then None else dm_get m k)"
  by (simp add: dm_remove_all_def dm.get_fold_rem)

lemma dm_get_remove_where [store_simps]:
  "dm_inv m \<Longrightarrow> dm_get (dm_remove_all (dm_keys_where P m) m) k
    = (case dm_get m k of None \<Rightarrow> None | Some v \<Rightarrow> if P k v then None else Some v)"
  unfolding dm_remove_all_def dm_keys_where_def by (rule dm.get_remove_where)

lemma dm_keys_where_mem:
  "dm_inv m \<Longrightarrow> k \<in> set (dm_keys_where P m) \<longleftrightarrow> (\<exists>v. dm_get m k = Some v \<and> P k v)"
  unfolding dm_keys_where_def by (rule dm.victims_mem)

lemma dm_keys_where_count:
  "dm_inv m \<Longrightarrow> length (dm_keys_where P m) = card {k. \<exists>v. dm_get m k = Some v \<and> P k v}"
  unfolding dm_keys_where_def by (rule dm.victims_count)

lemma dm_keys_where_distinct: "dm_inv m \<Longrightarrow> distinct (dm_keys_where P m)"
  unfolding dm_keys_where_def dm_inv_def by (rule distinct_map_filter)

lemmas dm_laws [store_simps, simp] = update_conv' delete_conv'
lemmas dm_invs [simp, intro] = dm.inv_ins dm.inv_rem

end
