(* ===== verification/Core_Types.thy ===== *)
theory Core_Types
  imports Y2Q_Prelude "HOL-Library.Product_Lexorder"
begin

text \<open>
  The data model of \<open>crates/y2q-core/src/lib.rs\<close>, the role and credential records of
  \<open>crypto/user_store.rs\<close>, the sealed-key records of \<open>crypto/seal.rs\<close> and \<open>crypto/kdf.rs\<close>, the error
  enum of \<open>crypto/mod.rs\<close> and its conversion into the storage error, and the HTTP status of a
  storage error (\<open>crates/y2qd/src/error.rs\<close>).

  Timestamps (\<open>SystemTime\<close>, \<open>Instant\<close>) are natural numbers of nanoseconds. A \<open>BTreeSet\<close> is the
  list of its elements in ascending order; a \<open>BTreeMap\<close> is an association list. Field names carry
  a short prefix because the fields of all records share one name space.
\<close>

subsection \<open>Objects, metadata and options\<close>

type_synonym time = nat

type_synonym label_set = "(string \<times> string) list"

definition label_set_ok :: "label_set \<Rightarrow> bool" where
  "label_set_ok ls \<longleftrightarrow> sorted ls \<and> distinct ls"

record metadata =
  md_created :: u64
  md_modified :: u64
  md_size :: u64
  md_checksum_gxhash :: string
  md_bucket :: string
  md_key :: string
  md_disk_path :: string
  md_url_path :: string
  md_labels :: label_set
  md_cipher_size :: "u64 option"
  md_cipher_checksum :: "string option"
  md_kem_alg :: "string option"
  md_aead_alg :: "string option"
  md_envelope_version :: "u16 option"
  md_version :: "u64 option"
  md_committed_at :: "u64 option"
  md_key_epoch :: "u32 option"

datatype sync_level = Durable | BestEffort

record plaintext_metrics =
  pm_size :: u64
  pm_checksum_gxhash_b64 :: string

record cipher_metadata =
  cm_cipher_size :: u64
  cm_cipher_checksum_b64 :: string
  cm_kem_alg :: string
  cm_aead_alg :: string
  cm_envelope_version :: u16
  cm_key_epoch :: u32

record put_options =
  po_labels :: label_set
  po_sync :: sync_level
  po_plaintext_metrics :: "plaintext_metrics option"
  po_cipher_metadata :: "cipher_metadata option"
  po_version :: "u64 option"

definition DEFAULT_LIST_LIMIT :: nat where "DEFAULT_LIST_LIMIT = 1000"
definition MAX_LIST_LIMIT :: nat where "MAX_LIST_LIMIT = 10000"

record list_options =
  lo_prefix :: "string option"
  lo_after :: "string option"
  lo_limit :: "nat option"

record list_page =
  lp_items :: "metadata list"
  lp_next :: "string option"

subsection \<open>Storage errors\<close>

datatype (plugins only: code) error =
    InvalidBucket string
  | InvalidKey string
  | NotFound string string
  | Locked string string time
  | ReservedLabel string
  | InvalidLabelValue string
  | LabelNameTooLong string
  | LabelValueTooLong string
  | TooManyLabels nat
  | Index string
  | InternalError string string string string
  | RebuildAlreadyRunning
  | InvalidStaleLockThreshold string
  | QuotaExceeded string u64 u64 u64
  | BodyTooLarge string string u64
  | BadRequestBody string string string
  | Forbidden string
  | InvalidAcl string
  | AclConflict string
  | InvalidPersonaRequest string
  | KeystoreNotFound string
  | KeystoreCorrupt string string
  | KdfFailed string
  | EncryptionFailed string string
  | DecryptionFailed string string
  | EnvelopeMalformed string string string
  | UnsupportedEnvelopeVersion u16
  | Query string
  | TooManyBucketKeyEpochs string nat nat
  | RekeyAlreadyRunning string

subsection \<open>Buckets\<close>

datatype bucket_permission = Read | Write | WriteOnly | AdminPerm

record wrapped_sk =
  ws_nonce :: bytes
  ws_ciphertext :: bytes

record sealed_key =
  sk_kem_ct_b64 :: string
  sk_nonce_b64 :: string
  sk_ct_b64 :: string

record bucket_key_version =
  kv_epoch :: u32
  kv_public_key_b64 :: string
  kv_sk_blob :: wrapped_sk
  kv_grants :: "(string, sealed_key list) dmap"

record bucket_config =
  bc_quota_bytes :: "u64 option"
  bc_default_sse :: "string option"
  bc_cors_allow_origin :: "string option"
  bc_owner :: "string option"
  bc_acl :: "(string, bucket_permission) dmap"
  bc_keys :: "bucket_key_version list"
  bc_acl_generation :: u64

definition default_bucket_config :: bucket_config where
  "default_bucket_config =
     \<lparr> bc_quota_bytes = None, bc_default_sse = None, bc_cors_allow_origin = None,
       bc_owner = None, bc_acl = [], bc_keys = [], bc_acl_generation = 0 \<rparr>"

datatype cache_rebuild_status = Idle | Running u8 | Completed | Failed string

subsection \<open>Accounts\<close>

definition CREDENTIAL_SLOTS :: nat where "CREDENTIAL_SLOTS = 4"

datatype role = Admin | User | ReadOnly | WriteOnlyRole | Auditor | Disabled

record argon2_params =
  ap_m_cost_kib :: u32
  ap_t_cost :: u32
  ap_p_cost :: u32
  ap_salt :: bytes

record credential_slot =
  cs_identity_pk_b64 :: string
  cs_wrapped :: wrapped_sk

record user_record =
  ur_username :: string
  ur_created_at :: u64
  ur_last_login :: "u64 option"
  ur_kdf :: argon2_params
  ur_slots :: "credential_slot list"
  ur_primary_slot :: u8
  ur_role :: role

subsection \<open>Crypto errors\<close>

datatype device_kind = Tpm2 | Fido2

datatype (plugins only: code) crypto_error =
    Aead string
  | Kdf string
  | KemDecode string
  | Envelope string
  | UnsupportedVersion u16
  | AuthFailed
  | KeystoreIo string
  | KeystoreMissing string
  | CKeystoreCorrupt string string
  | UserStore string
  | NodeKeyMissing
  | NodeKeyMalformed string
  | NodeKeyFilePermissions string u32
  | NodeKeyMismatch
  | LegacyKeystore string
  | SecMem string
  | DeviceRegistryIo string
  | DeviceRegistryMissing string
  | DeviceRegistryCorrupt string string
  | DeviceRegistryExists string
  | DeviceRegistryVersion string u16 u16
  | DeviceRegistryLastDevice
  | DeviceLastHomeRemovalRefused string
  | DevicePermanentAwayMismatch device_kind
  | DeviceSupportNotCompiled string
  | DeviceStateTampered
  | DeviceStateIntact
  | DeviceRepairNotAccepted
  | DeviceAuthorityInsufficient string string string
  | DeviceUnwrapFailed
  | DeviceGrantExpired string u64 u64
  | DeviceGrantAbsent string
  | DeviceGrantPeriodInvalid u32
  | DeviceSignCountRollback string u32 u32
  | AttestedTimeUnavailable string
  | AttestedTimeInconsistent u64 u64
  | RoughtimeNotConfigured
  | DeviceSecretLength string nat
  | DeviceNotFound string
  | DeviceLabelInUse string
  | DeviceLabelInvalid string
  | DeviceFactorInUse string
  | DeviceFactorInvalid string
  | DeviceUnlockUnavailable string
  | DeviceBackend string
  | TpmUnavailable string
  | Tpm string
  | TpmPcrMismatch
  | EmergencyCodeMalformed string
  | EmergencyCodeRejected
  | EmergencyCodesExhausted

text \<open>\<open>display\<close> stands for the \<open>Display\<close> implementation that the \<open>thiserror\<close> derive generates.
  \<open>SecMem\<close> carries the displayed message of the guarded-memory error it wraps.\<close>

fun into_storage_error ::
    "(crypto_error \<Rightarrow> string) \<Rightarrow> crypto_error \<Rightarrow> string \<Rightarrow> string \<Rightarrow> error" where
  "into_storage_error display AuthFailed b k = DecryptionFailed b k"
| "into_storage_error display (Aead _) b k = DecryptionFailed b k"
| "into_storage_error display (KemDecode _) b k = DecryptionFailed b k"
| "into_storage_error display (Envelope reason) b k = EnvelopeMalformed b k reason"
| "into_storage_error display (UnsupportedVersion v) b k = UnsupportedEnvelopeVersion v"
| "into_storage_error display (Kdf reason) b k = KdfFailed reason"
| "into_storage_error display (KeystoreIo msg) b k = InternalError b k ''keystore-io'' msg"
| "into_storage_error display (KeystoreMissing path) b k = KeystoreNotFound path"
| "into_storage_error display (CKeystoreCorrupt path reason) b k = KeystoreCorrupt path reason"
| "into_storage_error display (UserStore msg) b k = Index msg"
| "into_storage_error display NodeKeyMissing b k =
     InternalError b k ''node-key'' ''node key not supplied''"
| "into_storage_error display (NodeKeyMalformed reason) b k =
     InternalError b k ''node-key'' reason"
| "into_storage_error display (NodeKeyFilePermissions _ _) b k =
     InternalError b k ''node-key'' ''node key file permissions too broad''"
| "into_storage_error display NodeKeyMismatch b k =
     InternalError b k ''node-key'' ''node key does not match this keystore''"
| "into_storage_error display (LegacyKeystore path) b k =
     KeystoreCorrupt path ''legacy pre-hierarchy keystore; re-initialize the deployment''"
| "into_storage_error display (SecMem msg) b k = InternalError b k ''secmem'' msg"
| "into_storage_error display e b k = InternalError b k ''device-unlock'' (display e)"

subsection \<open>HTTP status of a storage error\<close>

datatype http_status =
    NOT_FOUND | BAD_REQUEST | CONFLICT | FORBIDDEN | PAYLOAD_TOO_LARGE
  | INTERNAL_SERVER_ERROR | SERVICE_UNAVAILABLE

fun status_code :: "error \<Rightarrow> http_status" where
  "status_code (NotFound _ _) = NOT_FOUND"
| "status_code (InvalidBucket _) = BAD_REQUEST"
| "status_code (InvalidKey _) = BAD_REQUEST"
| "status_code (ReservedLabel _) = BAD_REQUEST"
| "status_code (InvalidLabelValue _) = BAD_REQUEST"
| "status_code (LabelNameTooLong _) = BAD_REQUEST"
| "status_code (LabelValueTooLong _) = BAD_REQUEST"
| "status_code (TooManyLabels _) = BAD_REQUEST"
| "status_code (Query _) = BAD_REQUEST"
| "status_code (InvalidAcl _) = BAD_REQUEST"
| "status_code (InvalidPersonaRequest _) = BAD_REQUEST"
| "status_code (InvalidStaleLockThreshold _) = BAD_REQUEST"
| "status_code (BadRequestBody _ _ _) = BAD_REQUEST"
| "status_code (Locked _ _ _) = CONFLICT"
| "status_code RebuildAlreadyRunning = CONFLICT"
| "status_code (TooManyBucketKeyEpochs _ _ _) = CONFLICT"
| "status_code (RekeyAlreadyRunning _) = CONFLICT"
| "status_code (AclConflict _) = CONFLICT"
| "status_code (Forbidden _) = FORBIDDEN"
| "status_code (QuotaExceeded _ _ _ _) = PAYLOAD_TOO_LARGE"
| "status_code (BodyTooLarge _ _ _) = PAYLOAD_TOO_LARGE"
| "status_code (Index _) = INTERNAL_SERVER_ERROR"
| "status_code (InternalError _ _ _ _) = INTERNAL_SERVER_ERROR"
| "status_code (KdfFailed _) = INTERNAL_SERVER_ERROR"
| "status_code (EncryptionFailed _ _) = INTERNAL_SERVER_ERROR"
| "status_code (DecryptionFailed _ _) = INTERNAL_SERVER_ERROR"
| "status_code (EnvelopeMalformed _ _ _) = INTERNAL_SERVER_ERROR"
| "status_code (UnsupportedEnvelopeVersion _) = INTERNAL_SERVER_ERROR"
| "status_code (KeystoreCorrupt _ _) = INTERNAL_SERVER_ERROR"
| "status_code (KeystoreNotFound _) = SERVICE_UNAVAILABLE"

text \<open>The body of an error response: the message of an error that could reveal key handling or
  server internals is replaced by a fixed text. \<open>display\<close> is the derived \<open>Display\<close> of the error.\<close>

fun error_body :: "(error \<Rightarrow> string) \<Rightarrow> error \<Rightarrow> string" where
  "error_body display (DecryptionFailed _ _) = ''decryption failed''"
| "error_body display (EnvelopeMalformed _ _ _) = ''object format error''"
| "error_body display (Index _) = ''internal error''"
| "error_body display (InternalError _ _ _ _) = ''internal error''"
| "error_body display (KdfFailed _) = ''internal error''"
| "error_body display (KeystoreCorrupt _ _) = ''internal error''"
| "error_body display e = display e"

text \<open>No crypto failure becomes a client error: every one is answered with a 5xx status.\<close>

lemma crypto_error_is_server_error:
  "status_code (into_storage_error display e b k) \<in> {INTERNAL_SERVER_ERROR, SERVICE_UNAVAILABLE}"
  by (cases e) auto

text \<open>The response body of a crypto failure other than an unsupported version or a missing
  keystore carries no detail of the failure.\<close>

lemma crypto_error_body_opaque:
  assumes "\<And>v. e \<noteq> UnsupportedVersion v" and "\<And>p. e \<noteq> KeystoreMissing p"
  shows "error_body disp (into_storage_error display e b k)
    \<in> {''decryption failed'', ''object format error'', ''internal error''}"
  using assms by (cases e) auto

end
