(* ===== verification/Crypto_Prims.thy ===== *)
theory Crypto_Prims
  imports Core_Types
begin

text \<open>
  The cryptographic primitives the program calls, and the thin wrappers it puts around them.

  AES-256-GCM, HKDF-SHA256, ML-KEM-768, HMAC-SHA256, CRC32, XXH3 and base64 come from crates outside
  the repository. They are one record of functions, \<open>crypto_prims\<close>, that every operation using them
  takes as an argument; random bytes that the source draws from the OS generator are arguments too.
  What the program relies on is stated as the named laws \<open>aead_correct\<close>, \<open>hkdf_total\<close>,
  \<open>kem_correct\<close> and \<open>b64_correct\<close>, which are documented behaviour of those crates; a theorem that
  needs one has it as a hypothesis, and \<open>plain_prims\<close> is an instance on which all of them hold.

  The wrappers are \<open>crates/y2q-core/src/crypto/kem.rs\<close>, \<open>checksum.rs\<close> and
  \<open>storage/streaming_sink.rs\<close>.
\<close>

subsection \<open>The primitives and their laws\<close>

record crypto_prims =
  hkdf_sha256 :: "bytes \<Rightarrow> bytes \<Rightarrow> bytes \<Rightarrow> nat \<Rightarrow> bytes option" \<comment> \<open>salt, input key, info, length\<close>
  gcm_seal :: "bytes \<Rightarrow> bytes \<Rightarrow> bytes \<Rightarrow> bytes \<Rightarrow> bytes option" \<comment> \<open>key, nonce, aad, plaintext\<close>
  gcm_open :: "bytes \<Rightarrow> bytes \<Rightarrow> bytes \<Rightarrow> bytes \<Rightarrow> bytes option" \<comment> \<open>key, nonce, aad, ciphertext\<close>
  kem_gen :: "bytes \<Rightarrow> bytes \<times> bytes" \<comment> \<open>randomness to (public key, secret key)\<close>
  kem_encaps :: "bytes \<Rightarrow> bytes \<Rightarrow> bytes \<times> bytes" \<comment> \<open>public key, randomness to (ciphertext, secret)\<close>
  kem_decaps :: "bytes \<Rightarrow> bytes \<Rightarrow> bytes" \<comment> \<open>secret key, ciphertext\<close>
  ek_valid :: "bytes \<Rightarrow> bool"
  dk_valid :: "bytes \<Rightarrow> bool"
  xxh3 :: "bytes \<Rightarrow> u64"
  hmac_sha256 :: "bytes \<Rightarrow> bytes \<Rightarrow> bytes"
  crc32 :: "bytes \<Rightarrow> u32"
  b64_encode :: "bytes \<Rightarrow> string"
  b64_decode :: "string \<Rightarrow> bytes option"

definition TAG_LEN :: nat where "TAG_LEN = 16"

definition PUBLIC_KEY_BYTES :: nat where "PUBLIC_KEY_BYTES = 1184"
definition SECRET_KEY_BYTES :: nat where "SECRET_KEY_BYTES = 2400"
definition CIPHERTEXT_BYTES :: nat where "CIPHERTEXT_BYTES = 1088"

text \<open>AES-GCM seals every message below its length limit, appends a 16-byte tag, and opens what
  it sealed under the same key, nonce and associated data.\<close>

definition aead_correct :: "crypto_prims \<Rightarrow> bool" where
  "aead_correct P \<longleftrightarrow> (\<forall>k n a p. length p < 2 ^ 32 \<longrightarrow>
     (\<exists>c. gcm_seal P k n a p = Some c \<and> length c = length p + TAG_LEN
          \<and> gcm_open P k n a c = Some p))"

text \<open>HKDF-SHA256 expands to any length up to 255 blocks; the program asks for 32 bytes.\<close>

definition hkdf_total :: "crypto_prims \<Rightarrow> bool" where
  "hkdf_total P \<longleftrightarrow> (\<forall>s i f. \<exists>k. hkdf_sha256 P s i f 32 = Some k \<and> length k = 32)"

text \<open>A generated ML-KEM-768 pair has the sizes of the standard and decapsulates what was
  encapsulated to it.\<close>

definition kem_correct :: "crypto_prims \<Rightarrow> bool" where
  "kem_correct P \<longleftrightarrow> (\<forall>seed r. case kem_gen P seed of (ek, dk) \<Rightarrow>
     length ek = PUBLIC_KEY_BYTES \<and> length dk = SECRET_KEY_BYTES \<and> ek_valid P ek \<and> dk_valid P dk
     \<and> (case kem_encaps P ek r of (ct, ss) \<Rightarrow>
          length ct = CIPHERTEXT_BYTES \<and> kem_decaps P dk ct = ss))"

definition b64_correct :: "crypto_prims \<Rightarrow> bool" where
  "b64_correct P \<longleftrightarrow> (\<forall>bs. b64_decode P (b64_encode P bs) = Some bs)"

lemma aead_correctE:
  assumes "aead_correct P" and "length p < 2 ^ 32"
  obtains c where "gcm_seal P k n a p = Some c" and "length c = length p + TAG_LEN"
    and "gcm_open P k n a c = Some p"
  using assms unfolding aead_correct_def by metis

subsection \<open>\<open>kem.rs\<close>\<close>

text \<open>A parsed key is identified with its bytes.\<close>

definition keypair :: "crypto_prims \<Rightarrow> bytes \<Rightarrow> bytes \<times> bytes" where
  "keypair P seed = kem_gen P seed"

definition encapsulate :: "crypto_prims \<Rightarrow> bytes \<Rightarrow> bytes \<Rightarrow> bytes \<times> bytes" where
  "encapsulate P pk r = (case kem_encaps P pk r of (ct, ss) \<Rightarrow> (ss, ct))"

definition decapsulate :: "crypto_prims \<Rightarrow> bytes \<Rightarrow> bytes \<Rightarrow> bytes" where
  "decapsulate P ct sk = kem_decaps P sk ct"

definition PublicKey_from_bytes :: "crypto_prims \<Rightarrow> bytes \<Rightarrow> crypto_error + bytes" where
  "PublicKey_from_bytes P b =
     (if length b \<noteq> PUBLIC_KEY_BYTES then Inl (KemDecode ''public key'')
      else if ek_valid P b then Inr b
      else Inl (KemDecode ''public key''))"

definition SecretKey_from_bytes :: "crypto_prims \<Rightarrow> bytes \<Rightarrow> crypto_error + bytes" where
  "SecretKey_from_bytes P b =
     (if length b \<noteq> SECRET_KEY_BYTES then Inl (KemDecode ''secret key'')
      else if dk_valid P b then Inr b
      else Inl (KemDecode ''secret key''))"

definition ciphertext_from_bytes :: "bytes \<Rightarrow> crypto_error + bytes" where
  "ciphertext_from_bytes b =
     (if length b \<noteq> CIPHERTEXT_BYTES then Inl (KemDecode ''ciphertext'') else Inr b)"

lemma kem_round_trip:
  assumes "kem_correct P" and "keypair P seed = (pk, sk)" and "encapsulate P pk r = (ss, ct)"
  shows "PublicKey_from_bytes P pk = Inr pk" and "SecretKey_from_bytes P sk = Inr sk"
    and "ciphertext_from_bytes ct = Inr ct" and "decapsulate P ct sk = ss"
    and "length ct = CIPHERTEXT_BYTES"
proof -
  have "case kem_gen P seed of (ek, dk) \<Rightarrow>
     length ek = PUBLIC_KEY_BYTES \<and> length dk = SECRET_KEY_BYTES \<and> ek_valid P ek \<and> dk_valid P dk
     \<and> (case kem_encaps P ek r of (ct, ss) \<Rightarrow>
          length ct = CIPHERTEXT_BYTES \<and> kem_decaps P dk ct = ss)"
    by (rule assms(1) [unfolded kem_correct_def, rule_format])
  then show "PublicKey_from_bytes P pk = Inr pk" and "SecretKey_from_bytes P sk = Inr sk"
    and "ciphertext_from_bytes ct = Inr ct" and "decapsulate P ct sk = ss"
    and "length ct = CIPHERTEXT_BYTES"
    using assms(2,3)
    by (auto simp: keypair_def encapsulate_def decapsulate_def PublicKey_from_bytes_def
        SecretKey_from_bytes_def ciphertext_from_bytes_def split: prod.splits)
qed

subsection \<open>\<open>checksum.rs\<close>: the streaming checksum\<close>

text \<open>The state of the XXH3 hasher is the byte sequence it has absorbed.\<close>

type_synonym stream_checksum = bytes

definition StreamChecksum_new :: stream_checksum where
  "StreamChecksum_new = []"

definition StreamChecksum_update :: "stream_checksum \<Rightarrow> bytes \<Rightarrow> stream_checksum" where
  "StreamChecksum_update c data = c @ data"

definition StreamChecksum_finish :: "crypto_prims \<Rightarrow> stream_checksum \<Rightarrow> u64" where
  "StreamChecksum_finish P c = xxh3 P c"

definition finish_b64 :: "crypto_prims \<Rightarrow> stream_checksum \<Rightarrow> string" where
  "finish_b64 P c = b64_encode P (to_le_u64 (StreamChecksum_finish P c))"

definition checksum_b64 :: "crypto_prims \<Rightarrow> bytes \<Rightarrow> string" where
  "checksum_b64 P data = finish_b64 P (StreamChecksum_update StreamChecksum_new data)"

text \<open>The checksum of a stream depends only on its bytes, not on how they were cut into updates.\<close>

lemma checksum_boundary_independent:
  "finish_b64 P (foldl StreamChecksum_update StreamChecksum_new parts) = checksum_b64 P (concat parts)"
proof -
  have "foldl StreamChecksum_update c parts = c @ concat parts" for c
    by (induction parts arbitrary: c) (auto simp: StreamChecksum_update_def)
  then show ?thesis
    by (simp add: checksum_b64_def StreamChecksum_new_def StreamChecksum_update_def)
qed

subsection \<open>\<open>streaming_sink.rs\<close>: the file being written\<close>

text \<open>A sink is the file contents, the write position and the outcomes of the I/O calls to come:
  a call fails when the head of \<open>sk_faults\<close> is \<open>True\<close>, and an empty list means no further
  failure. A write past the end fills the gap with zeros, as a POSIX file does.\<close>

record sink =
  sk_data :: bytes
  sk_pos :: nat
  sk_faults :: "bool list"

definition write_at :: "nat \<Rightarrow> bytes \<Rightarrow> bytes \<Rightarrow> bytes" where
  "write_at p bs d =
     take p d @ replicate (p - length d) 0 @ bs @ drop (p + length bs) d"

definition sink_io :: "sink \<Rightarrow> sink option" where
  "sink_io s = (case sk_faults s of [] \<Rightarrow> Some s
     | f # fs \<Rightarrow> if f then None else Some (s\<lparr>sk_faults := fs\<rparr>))"

definition sink_write_all :: "sink \<Rightarrow> bytes \<Rightarrow> sink option" where
  "sink_write_all s bs = map_option
     (\<lambda>s. s\<lparr>sk_data := write_at (sk_pos s) bs (sk_data s), sk_pos := sk_pos s + length bs\<rparr>)
     (sink_io s)"

definition sink_write_all_at :: "sink \<Rightarrow> bytes \<Rightarrow> nat \<Rightarrow> sink option" where
  "sink_write_all_at s bs off = map_option
     (\<lambda>s. s\<lparr>sk_data := write_at off bs (sk_data s), sk_pos := off + length bs\<rparr>)
     (sink_io s)"

definition sink_seek :: "sink \<Rightarrow> nat \<Rightarrow> sink option" where
  "sink_seek s off = map_option (\<lambda>s. s\<lparr>sk_pos := off\<rparr>) (sink_io s)"

definition sink_seek_to_end :: "sink \<Rightarrow> sink option" where
  "sink_seek_to_end s = map_option (\<lambda>s. s\<lparr>sk_pos := length (sk_data s)\<rparr>) (sink_io s)"

lemma write_at_end [simp]: "write_at (length d) bs d = d @ bs"
  by (simp add: write_at_def)

lemma write_at_middle:
  "length old = length bs \<Longrightarrow> write_at (length pre) bs (pre @ old @ post) = pre @ bs @ post"
  by (simp add: write_at_def)

lemma sink_io_no_faults [simp]: "sk_faults s = [] \<Longrightarrow> sink_io s = Some s"
  by (simp add: sink_io_def)

lemma sink_append:
  "sk_faults s = [] \<Longrightarrow> sk_pos s = length (sk_data s) \<Longrightarrow>
   sink_write_all s bs = Some (s\<lparr>sk_data := sk_data s @ bs, sk_pos := length (sk_data s @ bs)\<rparr>)"
  by (simp add: sink_write_all_def)

subsection \<open>An instance of the laws\<close>

text \<open>\<open>plain_prims\<close> is no cryptography: it shows that the laws can hold together. Its tag is the
  last byte of the associated data, repeated.\<close>

definition plain_tag :: "bytes \<Rightarrow> bytes" where
  "plain_tag a = replicate 16 (if a = [] then 0 else last a)"

definition plain_prims :: crypto_prims where
  "plain_prims =
     \<lparr> hkdf_sha256 = (\<lambda>s i f n. Some (replicate n 0)),
       gcm_seal = (\<lambda>k n a p. Some (p @ plain_tag a)),
       gcm_open = (\<lambda>k n a c. if 16 \<le> length c \<and> drop (length c - 16) c = plain_tag a
                    then Some (take (length c - 16) c) else None),
       kem_gen = (\<lambda>r. (replicate 1184 0, replicate 2400 0)),
       kem_encaps = (\<lambda>ek r. (replicate 1088 0, replicate 32 0)),
       kem_decaps = (\<lambda>dk ct. replicate 32 0),
       ek_valid = (\<lambda>b. True), dk_valid = (\<lambda>b. True),
       xxh3 = (\<lambda>bs. of_nat (length bs)),
       hmac_sha256 = (\<lambda>k m. take 32 (k @ replicate 32 0)),
       crc32 = (\<lambda>bs. of_nat (length bs)),
       b64_encode = map char_of_byte,
       b64_decode = (\<lambda>s. Some (map byte_of_char s)) \<rparr>"

lemma length_plain_tag [simp]: "length (plain_tag a) = 16"
  by (simp add: plain_tag_def)

lemma plain_aead_correct: "aead_correct plain_prims"
  by (simp add: aead_correct_def plain_prims_def TAG_LEN_def)

lemma plain_hkdf_total: "hkdf_total plain_prims"
  by (simp add: hkdf_total_def plain_prims_def)

lemma plain_kem_correct: "kem_correct plain_prims"
  by (simp add: kem_correct_def plain_prims_def PUBLIC_KEY_BYTES_def SECRET_KEY_BYTES_def
      CIPHERTEXT_BYTES_def)

lemma plain_b64_correct: "b64_correct plain_prims"
  by (simp add: b64_correct_def plain_prims_def comp_def)

lemmas plain_laws = plain_aead_correct plain_hkdf_total plain_kem_correct plain_b64_correct

text \<open>An instance whose AEAD tag depends on the key: the first byte of the key, repeated.\<close>

definition keyed_prims :: crypto_prims where
  "keyed_prims = plain_prims\<lparr>
     gcm_seal := (\<lambda>k n a p. Some (p @ replicate 16 (hd (k @ [0])))),
     gcm_open := (\<lambda>k n a c. if 16 \<le> length c \<and> drop (length c - 16) c = replicate 16 (hd (k @ [0]))
                   then Some (take (length c - 16) c) else None)\<rparr>"

lemma keyed_aead_correct: "aead_correct keyed_prims"
  by (simp add: aead_correct_def keyed_prims_def TAG_LEN_def)

lemma keyed_mismatch: "gcm_seal keyed_prims (replicate 32 1) n a p = Some ct \<Longrightarrow> gcm_open keyed_prims (replicate 32 2) n a ct = None"
  by (auto simp: keyed_prims_def)

end
