(* ===== verification/Envelope.thy ===== *)
theory Envelope
  imports Crypto_Prims "HOL-Library.Log_Nat"
begin

text \<open>
  The encrypted object envelope of \<open>crates/y2q-core/src/crypto/envelope.rs\<close>: Padme padding, the
  chunk nonces and associated data, the streaming writer \<open>EncryptSession\<close>, and the readers for the
  whole object (\<open>decrypt\<close>, \<open>decrypt_owned\<close>) and for a range of chunks (\<open>decrypt_v3_chunks\<close>,
  \<open>decrypt_v4_chunks\<close>).

  Lengths and offsets are natural numbers (the source's \<open>usize\<close>), and a length that is stored in
  a header field is converted to the width of the field. The two loops of the writer that make
  progress only because of its invariant (\<open>feed\<close> and the padding loop of \<open>finish\<close>) are partial
  functions into \<open>option\<close>, where \<open>None\<close> is a loop that does not end; that they end is part of the
  round-trip theorem.
\<close>

subsection \<open>Constants and Padme padding\<close>

definition MAGIC_V3 :: bytes where "MAGIC_V3 = as_bytes ''Y2Q3''"
definition FORMAT_VER_V3 :: u16 where "FORMAT_VER_V3 = 3"
definition FORMAT_VER_V4 :: u16 where "FORMAT_VER_V4 = 4"
definition KEM_ALG_MLKEM768 :: u8 where "KEM_ALG_MLKEM768 = 1"
definition AEAD_ALG_AES256GCM :: u8 where "AEAD_ALG_AES256GCM = 1"
definition HKDF_INFO :: bytes where "HKDF_INFO = as_bytes ''y2q/v1/content-key''"
definition HEADER_FIXED_LEN :: nat where "HEADER_FIXED_LEN = 4 + 2 + 1 + 1 + 4 + 12 + 8 + 4"
definition PLAINTEXT_LEN_OFFSET :: nat where "PLAINTEXT_LEN_OFFSET = 24"
definition KEM_ALG_NAME :: string where "KEM_ALG_NAME = ''ml-kem-768''"
definition AEAD_ALG_NAME :: string where "AEAD_ALG_NAME = ''aes-256-gcm''"

definition leading_zeros :: "'a::len word \<Rightarrow> nat" where
  "leading_zeros w = length (takeWhile Not (rev (map (bit w) [0..<LENGTH('a)])))"

definition padme_len :: "u64 \<Rightarrow> u64" where
  "padme_len l =
     (if l < 2 then l
      else let e = 63 - leading_zeros l;
               s = (31 - leading_zeros (of_nat e :: u32)) + 1 in
        if e \<le> s then l
        else let last_bits = e - s;
                 m = push_bit last_bits (1 :: u64) - 1 in
          saturating_add_u64 l m AND NOT m)"

record envelope_info =
  ei_envelope_version :: u16
  ei_kem_alg :: string
  ei_aead_alg :: string
  ei_cipher_size :: nat
  ei_cipher_checksum_b64 :: string
  ei_key_epoch :: u32

subsection \<open>Nonces, associated data and the content key\<close>

definition byte_range :: "nat \<Rightarrow> nat \<Rightarrow> 'a list \<Rightarrow> 'a list" where
  "byte_range i j xs = take (j - i) (drop i xs)"

definition chunk_nonce :: "bytes \<Rightarrow> u64 \<Rightarrow> bytes" where
  "chunk_nonce base idx = take 4 base @ map2 (XOR) (drop 4 base) (to_be_u64 idx)"

definition build_v3_aad :: "bytes \<Rightarrow> bytes" where
  "build_v3_aad header = take 24 header @ byte_range 32 36 header"

definition build_v4_aad :: "bytes \<Rightarrow> bool \<Rightarrow> bytes" where
  "build_v4_aad aad_base is_final = aad_base @ [if is_final then 1 else 0]"

definition content_key_info :: "string \<Rightarrow> string \<Rightarrow> bytes" where
  "content_key_info bucket key = HKDF_INFO
     @ concat (map (\<lambda>part. to_be_u32 (of_nat (length part)) @ part) [as_bytes bucket, as_bytes key])"

definition derive_content_key ::
    "crypto_prims \<Rightarrow> bytes \<Rightarrow> bytes \<Rightarrow> string \<Rightarrow> string \<Rightarrow> crypto_error + bytes" where
  "derive_content_key P ss kem_ct bucket key =
     ok_or (hkdf_sha256 P kem_ct ss (content_key_info bucket key) 32) (Aead ''hkdf expand'')"

subsection \<open>Reading an envelope\<close>

definition v3_preamble_len :: nat where
  "v3_preamble_len = HEADER_FIXED_LEN + CIPHERTEXT_BYTES"

text \<open>The fields of the fixed header, by their offsets.\<close>

definition hdr_version :: "bytes \<Rightarrow> u16" where "hdr_version h = from_be_u16 (byte_range 4 6 h)"
definition hdr_key_epoch :: "bytes \<Rightarrow> u32" where "hdr_key_epoch h = from_be_u32 (byte_range 8 12 h)"
definition hdr_nonce_base :: "bytes \<Rightarrow> bytes" where "hdr_nonce_base h = byte_range 12 24 h"
definition hdr_plaintext_len :: "bytes \<Rightarrow> u64" where "hdr_plaintext_len h = from_be_u64 (byte_range 24 32 h)"
definition hdr_chunk_size :: "bytes \<Rightarrow> u32" where "hdr_chunk_size h = from_be_u32 (byte_range 32 36 h)"

text \<open>The structural checks that \<open>decrypt_v3\<close>, \<open>decrypt_v4\<close> and their owned variants make in the same
  order, for the version \<open>ver\<close> and with the truncation message of the caller.\<close>

definition check_envelope :: "u16 \<Rightarrow> string \<Rightarrow> bytes \<Rightarrow> crypto_error + unit" where
  "check_envelope ver truncated env =
     (if length env < v3_preamble_len then Inl (Envelope truncated)
      else if hdr_version env \<noteq> ver then Inl (UnsupportedVersion (hdr_version env))
      else if env ! 6 \<noteq> KEM_ALG_MLKEM768 then Inl (Envelope ''unknown kem_alg'')
      else if env ! 7 \<noteq> AEAD_ALG_AES256GCM then Inl (Envelope ''unknown aead_alg'')
      else if hdr_chunk_size env = 0 then Inl (Envelope ''zero chunk_size'')
      else Inr ())"

text \<open>Recover the content key from the KEM ciphertext of the preamble.\<close>

definition open_content_key ::
    "crypto_prims \<Rightarrow> bytes \<Rightarrow> bytes \<Rightarrow> string \<Rightarrow> string \<Rightarrow> crypto_error + bytes" where
  "open_content_key P sk_bytes kem_ct_bytes bucket key =
     rbind (SecretKey_from_bytes P sk_bytes) (\<lambda>sk.
     rbind (ciphertext_from_bytes kem_ct_bytes) (\<lambda>kem_ct.
     derive_content_key P (decapsulate P kem_ct sk) kem_ct_bytes bucket key))"

text \<open>The loop over the ciphertext chunks of \<open>data\<close> from offset \<open>pos\<close>; \<open>aadf\<close> gives the associated
  data of the chunk with index \<open>idx\<close> that ends at \<open>ct_end\<close>.\<close>

function chunk_loop ::
    "(nat \<Rightarrow> nat \<Rightarrow> bytes) \<Rightarrow> (bytes \<Rightarrow> bytes \<Rightarrow> bytes \<Rightarrow> bytes option) \<Rightarrow> bytes \<Rightarrow> nat \<Rightarrow> bytes
     \<Rightarrow> nat \<Rightarrow> nat \<Rightarrow> bytes \<Rightarrow> crypto_error + bytes" where
  "chunk_loop aadf opn nonce_base cs data pos idx acc =
     (if pos < length data then
        (let ct_end = min (pos + cs + TAG_LEN) (length data) in
         if ct_end - pos < TAG_LEN then Inl (Envelope ''truncated chunk ciphertext'')
         else (case opn (chunk_nonce nonce_base (of_nat idx)) (aadf idx ct_end) (byte_range pos ct_end data) of
             None \<Rightarrow> Inl AuthFailed
           | Some pt \<Rightarrow> chunk_loop aadf opn nonce_base cs data ct_end (Suc idx) (acc @ pt)))
      else Inr acc)"
  by pat_completeness auto
termination
  by (relation "measure (\<lambda>(aadf, opn, nonce_base, cs, data, pos, idx, acc). length data - pos)")
    (auto simp: TAG_LEN_def)

declare chunk_loop.simps [simp del]

definition finish_plaintext :: "bytes \<Rightarrow> u64 \<Rightarrow> crypto_error + bytes" where
  "finish_plaintext plaintext expected =
     (if length plaintext < unat expected
      then Inl (Envelope ''plaintext shorter than authenticated size'')
      else Inr (take (unat expected) plaintext))"

definition check_plaintext_len :: "bytes \<Rightarrow> bytes \<Rightarrow> crypto_error + bytes" where
  "check_plaintext_len env plaintext =
     (if length plaintext \<noteq> unat (hdr_plaintext_len env)
      then Inl (Envelope ''plaintext length mismatch'') else Inr plaintext)"

definition decrypt_v3 ::
    "crypto_prims \<Rightarrow> bytes \<Rightarrow> bytes \<Rightarrow> string \<Rightarrow> string \<Rightarrow> u64 \<Rightarrow> crypto_error + bytes" where
  "decrypt_v3 P sk_bytes env bucket key expected =
     rbind (check_envelope FORMAT_VER_V3 ''truncated v3 envelope'' env) (\<lambda>_.
     rbind (open_content_key P sk_bytes (byte_range HEADER_FIXED_LEN v3_preamble_len env) bucket key) (\<lambda>k.
     rbind (chunk_loop (\<lambda>_ _. build_v3_aad (take HEADER_FIXED_LEN env)) (gcm_open P k)
              (hdr_nonce_base env) (unat (hdr_chunk_size env)) env v3_preamble_len 0 []) (\<lambda>plaintext.
     rbind (check_plaintext_len env plaintext) (\<lambda>plaintext.
     finish_plaintext plaintext expected))))"

definition decrypt_v4 ::
    "crypto_prims \<Rightarrow> bytes \<Rightarrow> bytes \<Rightarrow> string \<Rightarrow> string \<Rightarrow> u64 \<Rightarrow> crypto_error + bytes" where
  "decrypt_v4 P sk_bytes env bucket key expected =
     rbind (check_envelope FORMAT_VER_V4 ''truncated v4 envelope'' env) (\<lambda>_.
     rbind (open_content_key P sk_bytes (byte_range HEADER_FIXED_LEN v3_preamble_len env) bucket key) (\<lambda>k.
     rbind (chunk_loop
              (\<lambda>_ ct_end. build_v4_aad (build_v3_aad (take HEADER_FIXED_LEN env)) (ct_end = length env))
              (gcm_open P k)
              (hdr_nonce_base env) (unat (hdr_chunk_size env)) env v3_preamble_len 0 []) (\<lambda>plaintext.
     rbind (check_plaintext_len env plaintext) (\<lambda>plaintext.
     finish_plaintext plaintext expected))))"

definition decrypt ::
    "crypto_prims \<Rightarrow> bytes \<Rightarrow> bytes \<Rightarrow> string \<Rightarrow> string \<Rightarrow> u64 \<Rightarrow> crypto_error + bytes" where
  "decrypt P sk_bytes env bucket key expected =
     (if length env < 4 then Inl (Envelope ''truncated header'')
      else if take 4 env \<noteq> MAGIC_V3 then Inl (Envelope ''bad magic'')
      else if length env < 6 then Inl (Envelope ''truncated header'')
      else let ver = hdr_version env in
        if ver = FORMAT_VER_V3 then decrypt_v3 P sk_bytes env bucket key expected
        else if ver = FORMAT_VER_V4 then decrypt_v4 P sk_bytes env bucket key expected
        else Inl (UnsupportedVersion ver))"

text \<open>The owned variants split the body off the preamble and consume it chunk by chunk.\<close>

function owned_loop ::
    "(nat \<Rightarrow> bytes) \<Rightarrow> (bytes \<Rightarrow> bytes \<Rightarrow> bytes \<Rightarrow> bytes option) \<Rightarrow> bytes \<Rightarrow> nat \<Rightarrow> bytes
     \<Rightarrow> nat \<Rightarrow> nat \<Rightarrow> bytes \<Rightarrow> crypto_error + bytes" where
  "owned_loop aadf opn nonce_base cs body consumed idx acc =
     (if body \<noteq> [] then
        (let tk = min (cs + TAG_LEN) (length body) in
         if tk < TAG_LEN then Inl (Envelope ''truncated chunk ciphertext'')
         else (case opn (chunk_nonce nonce_base (of_nat idx)) (aadf (consumed + tk)) (take tk body) of
             None \<Rightarrow> Inl AuthFailed
           | Some pt \<Rightarrow>
               owned_loop aadf opn nonce_base cs (drop tk body) (consumed + tk) (Suc idx) (acc @ pt)))
      else Inr acc)"
  by pat_completeness auto
termination
  by (relation "measure (\<lambda>(aadf, opn, nonce_base, cs, body, consumed, idx, acc). length body)")
    (auto simp: TAG_LEN_def)

declare owned_loop.simps [simp del]

definition finish_plaintext_owned :: "bytes \<Rightarrow> u64 \<Rightarrow> crypto_error + bytes" where
  "finish_plaintext_owned plaintext expected =
     (if length plaintext < unat expected
      then Inl (Envelope ''plaintext shorter than authenticated size'')
      else Inr (take (unat expected) plaintext))"

definition decrypt_v3_owned ::
    "crypto_prims \<Rightarrow> bytes \<Rightarrow> bytes \<Rightarrow> string \<Rightarrow> string \<Rightarrow> u64 \<Rightarrow> crypto_error + bytes" where
  "decrypt_v3_owned P sk_bytes env bucket key expected =
     rbind (check_envelope FORMAT_VER_V3 ''truncated v3 envelope'' env) (\<lambda>_.
     rbind (open_content_key P sk_bytes (byte_range HEADER_FIXED_LEN v3_preamble_len env) bucket key) (\<lambda>k.
     rbind (owned_loop (\<lambda>_. build_v3_aad (take HEADER_FIXED_LEN env)) (gcm_open P k)
              (hdr_nonce_base env) (unat (hdr_chunk_size env)) (drop v3_preamble_len env)
              v3_preamble_len 0 []) (\<lambda>plaintext.
     rbind (check_plaintext_len env plaintext) (\<lambda>plaintext.
     finish_plaintext_owned plaintext expected))))"

definition decrypt_v4_owned ::
    "crypto_prims \<Rightarrow> bytes \<Rightarrow> bytes \<Rightarrow> string \<Rightarrow> string \<Rightarrow> u64 \<Rightarrow> crypto_error + bytes" where
  "decrypt_v4_owned P sk_bytes env bucket key expected =
     rbind (check_envelope FORMAT_VER_V4 ''truncated v4 envelope'' env) (\<lambda>_.
     rbind (open_content_key P sk_bytes (byte_range HEADER_FIXED_LEN v3_preamble_len env) bucket key) (\<lambda>k.
     rbind (owned_loop
              (\<lambda>consumed. build_v4_aad (build_v3_aad (take HEADER_FIXED_LEN env)) (consumed = length env))
              (gcm_open P k)
              (hdr_nonce_base env) (unat (hdr_chunk_size env)) (drop v3_preamble_len env)
              v3_preamble_len 0 []) (\<lambda>plaintext.
     rbind (check_plaintext_len env plaintext) (\<lambda>plaintext.
     finish_plaintext_owned plaintext expected))))"

definition decrypt_owned ::
    "crypto_prims \<Rightarrow> bytes \<Rightarrow> bytes \<Rightarrow> string \<Rightarrow> string \<Rightarrow> u64 \<Rightarrow> crypto_error + bytes" where
  "decrypt_owned P sk_bytes env bucket key expected =
     (if length env < 4 then Inl (Envelope ''truncated header'')
      else if take 4 env \<noteq> MAGIC_V3 then Inl (Envelope ''bad magic'')
      else if length env < 6 then Inl (Envelope ''truncated header'')
      else let ver = hdr_version env in
        if ver = FORMAT_VER_V3 then decrypt_v3_owned P sk_bytes env bucket key expected
        else if ver = FORMAT_VER_V4 then decrypt_v4_owned P sk_bytes env bucket key expected
        else Inl (UnsupportedVersion ver))"

text \<open>Ranged reads: the geometry of an envelope, and the decryption of a run of its chunks.\<close>

definition parse_geometry :: "u16 \<Rightarrow> string \<Rightarrow> bytes \<Rightarrow> crypto_error + (u32 \<times> u32 \<times> u64)" where
  "parse_geometry want truncated header =
     (if length header < HEADER_FIXED_LEN then Inl (Envelope truncated)
      else if take 4 header \<noteq> MAGIC_V3 then Inl (Envelope ''bad magic'')
      else if hdr_version header \<noteq> want then Inl (UnsupportedVersion (hdr_version header))
      else if header ! 6 \<noteq> KEM_ALG_MLKEM768 then Inl (Envelope ''unknown kem_alg'')
      else if header ! 7 \<noteq> AEAD_ALG_AES256GCM then Inl (Envelope ''unknown aead_alg'')
      else if hdr_chunk_size header = 0 then Inl (Envelope ''zero chunk_size'')
      else Inr (hdr_key_epoch header, hdr_chunk_size header, hdr_plaintext_len header))"

definition parse_v3_geometry :: "bytes \<Rightarrow> crypto_error + (u32 \<times> u32 \<times> u64)" where
  "parse_v3_geometry header = parse_geometry FORMAT_VER_V3 ''truncated v3 header'' header"

definition parse_v4_geometry :: "bytes \<Rightarrow> crypto_error + (u32 \<times> u32 \<times> u64)" where
  "parse_v4_geometry header = parse_geometry FORMAT_VER_V4 ''truncated v4 header'' header"

definition decrypt_v3_chunks ::
    "crypto_prims \<Rightarrow> bytes \<Rightarrow> bytes \<Rightarrow> bytes \<Rightarrow> nat \<Rightarrow> string \<Rightarrow> string \<Rightarrow> crypto_error + bytes" where
  "decrypt_v3_chunks P sk_bytes preamble chunks_ct first_chunk_idx bucket key =
     (if length preamble < v3_preamble_len then Inl (Envelope ''truncated v3 preamble'')
      else rbind (parse_v3_geometry (take HEADER_FIXED_LEN preamble)) (\<lambda>(_, chunk_size, _).
        rbind (open_content_key P sk_bytes (byte_range HEADER_FIXED_LEN v3_preamble_len preamble) bucket key)
          (\<lambda>k. chunk_loop (\<lambda>_ _. build_v3_aad (take HEADER_FIXED_LEN preamble)) (gcm_open P k)
                 (hdr_nonce_base preamble) (unat chunk_size) chunks_ct 0 first_chunk_idx [])))"

definition decrypt_v4_chunks ::
    "crypto_prims \<Rightarrow> bytes \<Rightarrow> bytes \<Rightarrow> bytes \<Rightarrow> nat \<Rightarrow> nat \<Rightarrow> string \<Rightarrow> string \<Rightarrow> crypto_error + bytes"
    where
  "decrypt_v4_chunks P sk_bytes preamble chunks_ct first_chunk_idx total_chunks bucket key =
     (if length preamble < v3_preamble_len then Inl (Envelope ''truncated v4 preamble'')
      else rbind (parse_v4_geometry (take HEADER_FIXED_LEN preamble)) (\<lambda>(_, chunk_size, _).
        rbind (open_content_key P sk_bytes (byte_range HEADER_FIXED_LEN v3_preamble_len preamble) bucket key)
          (\<lambda>k. chunk_loop
                 (\<lambda>idx _. build_v4_aad (build_v3_aad (take HEADER_FIXED_LEN preamble))
                            (idx + 1 = total_chunks))
                 (gcm_open P k)
                 (hdr_nonce_base preamble) (unat chunk_size) chunks_ct 0 first_chunk_idx [])))"


subsection \<open>Writing an envelope: \<open>EncryptSession\<close>\<close>

text \<open>The AES key schedule \<open>cipher\<close> is identified with the content key.\<close>

record encrypt_session =
  es_sink :: sink
  es_cipher :: bytes
  es_nonce_base :: bytes
  es_chunk_idx :: nat
  es_staging :: bytes
  es_pending :: "bytes option"
  es_plaintext_total :: nat
  es_aad_base :: bytes
  es_bytes_written :: nat
  es_write_offset :: nat
  es_chunk_size :: nat
  es_key_epoch :: u32
  es_hasher :: stream_checksum

definition envelope_header :: "u32 \<Rightarrow> bytes \<Rightarrow> u64 \<Rightarrow> nat \<Rightarrow> bytes" where
  "envelope_header key_epoch nonce_base plaintext_len chunk_size =
     MAGIC_V3 @ to_be_u16 FORMAT_VER_V4 @ [KEM_ALG_MLKEM768] @ [AEAD_ALG_AES256GCM]
     @ to_be_u32 key_epoch @ nonce_base @ to_be_u64 plaintext_len
     @ to_be_u32 (of_nat chunk_size)"

text \<open>\<open>kem_rnd\<close> and \<open>nonce_base\<close> are the random bytes the session draws.\<close>

definition EncryptSession_new ::
    "crypto_prims \<Rightarrow> bytes \<Rightarrow> bytes \<Rightarrow> sink \<Rightarrow> bytes \<Rightarrow> u32 \<Rightarrow> string \<Rightarrow> string \<Rightarrow> nat \<Rightarrow> nat
     \<Rightarrow> crypto_error + encrypt_session" where
  "EncryptSession_new P kem_rnd nonce_base sk pk_bytes key_epoch bucket key write_offset chunk_size =
     (if chunk_size = 0 \<or> chunk_size > 2 ^ 32 - 1 then Inl (Envelope ''invalid chunk_size'')
      else rbind (PublicKey_from_bytes P pk_bytes) (\<lambda>pk.
        case encapsulate P pk kem_rnd of (ss, kem_ct) \<Rightarrow>
        let header = envelope_header key_epoch nonce_base 0 chunk_size in
        rbind (ok_or (sink_write_all sk header) (Aead ''write header'')) (\<lambda>sk.
        rbind (ok_or (sink_write_all sk kem_ct) (Aead ''write kem ct'')) (\<lambda>sk.
        rbind (derive_content_key P ss kem_ct bucket key) (\<lambda>k.
        Inr \<lparr> es_sink = sk, es_cipher = k, es_nonce_base = nonce_base, es_chunk_idx = 0,
              es_staging = [], es_pending = None, es_plaintext_total = 0,
              es_aad_base = build_v3_aad header,
              es_bytes_written = length header + length kem_ct,
              es_write_offset = write_offset, es_chunk_size = chunk_size,
              es_key_epoch = key_epoch,
              es_hasher = StreamChecksum_update (StreamChecksum_update StreamChecksum_new header) kem_ct
            \<rparr>)))))"

definition flush_raw ::
    "crypto_prims \<Rightarrow> encrypt_session \<Rightarrow> bytes \<Rightarrow> bool \<Rightarrow> crypto_error + encrypt_session" where
  "flush_raw P s data is_final =
     rbind (ok_or (gcm_seal P (es_cipher s) (chunk_nonce (es_nonce_base s) (of_nat (es_chunk_idx s)))
                    (build_v4_aad (es_aad_base s) is_final) data) (Aead ''encrypt chunk'')) (\<lambda>ct.
     rbind (ok_or (sink_write_all (es_sink s) ct) (Aead ''write chunk'')) (\<lambda>sk.
     Inr (s\<lparr>es_plaintext_total := es_plaintext_total s + length data,
            es_bytes_written := es_bytes_written s + length ct,
            es_hasher := StreamChecksum_update (es_hasher s) ct,
            es_sink := sk,
            es_chunk_idx := es_chunk_idx s + 1\<rparr>)))"

definition promote_staging ::
    "crypto_prims \<Rightarrow> encrypt_session \<Rightarrow> crypto_error + encrypt_session" where
  "promote_staging P s =
     rbind (case es_pending s of None \<Rightarrow> Inr s
            | Some prev \<Rightarrow> flush_raw P (s\<lparr>es_pending := None\<rparr>) prev False) (\<lambda>s.
     Inr (s\<lparr>es_pending := Some (es_staging s), es_staging := []\<rparr>))"

text \<open>\<open>absorb\<close> is the shared body of the loops of \<open>feed\<close> and of the padding in \<open>finish\<close>: move bytes
  into the staging buffer and promote it when it is full.\<close>

definition absorb ::
    "crypto_prims \<Rightarrow> encrypt_session \<Rightarrow> bytes \<Rightarrow> crypto_error + encrypt_session" where
  "absorb P s bs =
     (let s = s\<lparr>es_staging := es_staging s @ bs\<rparr> in
      if length (es_staging s) = es_chunk_size s then promote_staging P s else Inr s)"

partial_function (option) feed ::
    "crypto_prims \<Rightarrow> encrypt_session \<Rightarrow> bytes \<Rightarrow> (crypto_error + encrypt_session) option" where
  "feed P s remaining =
     (if remaining = [] then Some (Inr s)
      else let space = es_chunk_size s - length (es_staging s);
               tk = min (length remaining) space in
        (case absorb P s (take tk remaining) of
           Inl e \<Rightarrow> Some (Inl e)
         | Inr s' \<Rightarrow> feed P s' (drop tk remaining)))"

partial_function (option) pad_loop ::
    "crypto_prims \<Rightarrow> encrypt_session \<Rightarrow> nat \<Rightarrow> (crypto_error + encrypt_session) option" where
  "pad_loop P s pad_remaining =
     (if pad_remaining > 0 then
        let space = es_chunk_size s - length (es_staging s);
            tk = min space pad_remaining in
        (case absorb P s (replicate tk 0) of
           Inl e \<Rightarrow> Some (Inl e)
         | Inr s' \<Rightarrow> pad_loop P s' (pad_remaining - tk))
      else Some (Inr s))"

text \<open>Seal what is left: the staging buffer as the final chunk, or the deferred full chunk.\<close>

definition flush_tail :: "crypto_prims \<Rightarrow> encrypt_session \<Rightarrow> crypto_error + encrypt_session" where
  "flush_tail P s =
     (if es_staging s \<noteq> [] then
        rbind (case es_pending s of None \<Rightarrow> Inr s
               | Some prev \<Rightarrow> flush_raw P (s\<lparr>es_pending := None\<rparr>) prev False) (\<lambda>s.
        flush_raw P (s\<lparr>es_staging := []\<rparr>) (es_staging s) True)
      else (case es_pending s of None \<Rightarrow> Inr s
            | Some prev \<Rightarrow> flush_raw P (s\<lparr>es_pending := None\<rparr>) prev True))"

definition already_absorbed :: "encrypt_session \<Rightarrow> nat" where
  "already_absorbed s = es_plaintext_total s
     + (case es_pending s of None \<Rightarrow> 0 | Some p \<Rightarrow> length p) + length (es_staging s)"

definition finish_session ::
    "crypto_prims \<Rightarrow> encrypt_session \<Rightarrow> (crypto_error + (sink \<times> envelope_info)) option" where
  "finish_session P s =
     (let target = unat (padme_len (of_nat (already_absorbed s))) in
      map_option (\<lambda>padded. rbind padded (\<lambda>s.
        rbind (flush_tail P s) (\<lambda>s.
        rbind (ok_or (sink_write_all_at (es_sink s) (to_be_u64 (of_nat (es_plaintext_total s)))
                        (es_write_offset s + PLAINTEXT_LEN_OFFSET)) (Aead ''write plaintext_len'')) (\<lambda>sk.
        rbind (ok_or (sink_seek_to_end sk) (Aead ''seek end'')) (\<lambda>sk.
        Inr (sk, \<lparr> ei_envelope_version = FORMAT_VER_V4, ei_kem_alg = KEM_ALG_NAME,
                   ei_aead_alg = AEAD_ALG_NAME, ei_cipher_size = es_bytes_written s,
                   ei_cipher_checksum_b64 = finish_b64 P (es_hasher s),
                   ei_key_epoch = es_key_epoch s \<rparr>))))))
      (pad_loop P s (target - already_absorbed s)))"

text \<open>A whole PUT: the body arrives in the slices \<open>parts\<close>.\<close>

fun feed_all ::
    "crypto_prims \<Rightarrow> encrypt_session \<Rightarrow> bytes list \<Rightarrow> (crypto_error + encrypt_session) option" where
  "feed_all P s [] = Some (Inr s)"
| "feed_all P s (d # ds) =
     (case feed P s d of None \<Rightarrow> None | Some (Inl e) \<Rightarrow> Some (Inl e) | Some (Inr s') \<Rightarrow> feed_all P s' ds)"

subsection \<open>The two readers agree\<close>

lemma owned_loop_eq_chunk_loop:
  "consumed \<le> length data \<Longrightarrow>
   owned_loop f opn nb cs (drop consumed data) consumed idx acc
     = chunk_loop (\<lambda>_ e. f e) opn nb cs data consumed idx acc"
proof (induction "length data - consumed" arbitrary: consumed idx acc rule: less_induct)
  case less
  show ?case
  proof (cases "consumed < length data")
    case False
    with less.prems show ?thesis
      by (simp add: owned_loop.simps chunk_loop.simps)
  next
    case True
    define ct_end where "ct_end = min (consumed + cs + TAG_LEN) (length data)"
    have tk: "min (cs + TAG_LEN) (length (drop consumed data)) = ct_end - consumed"
      using True by (auto simp: ct_end_def min_def)
    have le: "consumed \<le> ct_end" "ct_end \<le> length data"
      using True by (auto simp: ct_end_def)
    show ?thesis
    proof (cases "ct_end - consumed < TAG_LEN")
      case short: True
      with True tk show ?thesis
        unfolding owned_loop.simps [of f opn nb cs "drop consumed data"]
          chunk_loop.simps [of _ opn nb cs data consumed] Let_def tk ct_end_def [symmetric]
        by simp
    next
      case False
      then have "length data - ct_end < length data - consumed"
        using True le by (simp add: TAG_LEN_def)
      then have IH: "owned_loop f opn nb cs (drop ct_end data) ct_end (Suc idx) a
          = chunk_loop (\<lambda>_ e. f e) opn nb cs data ct_end (Suc idx) a" for a
        using less.hyps le(2) by blast
      from True have ne: "drop consumed data \<noteq> []" by simp
      from le have eqs: "consumed + (ct_end - consumed) = ct_end"
        "drop (ct_end - consumed) (drop consumed data) = drop ct_end data"
        by simp_all
      show ?thesis
        unfolding owned_loop.simps [of f opn nb cs "drop consumed data"]
          chunk_loop.simps [of _ opn nb cs data consumed] Let_def tk ct_end_def [symmetric] eqs IH
        using True False ne by (simp add: byte_range_def split: option.splits)
    qed
  qed
qed

lemma check_envelope_length:
  "check_envelope ver msg env = Inr () \<Longrightarrow> v3_preamble_len \<le> length env"
  by (auto simp: check_envelope_def split: if_splits)

lemma rbind_cong_Inr: "(\<And>x. m = Inr x \<Longrightarrow> f x = g x) \<Longrightarrow> rbind m f = rbind m g"
  by (cases m) auto

lemma finish_plaintext_owned_eq: "finish_plaintext_owned = finish_plaintext"
  by (intro ext) (simp add: finish_plaintext_owned_def finish_plaintext_def)

lemma decrypt_v3_owned_eq: "decrypt_v3_owned P sk env b k n = decrypt_v3 P sk env b k n"
  unfolding decrypt_v3_owned_def decrypt_v3_def finish_plaintext_owned_eq
  by (rule rbind_cong_Inr)
    (simp add: owned_loop_eq_chunk_loop check_envelope_length)

lemma decrypt_v4_owned_eq: "decrypt_v4_owned P sk env b k n = decrypt_v4 P sk env b k n"
  unfolding decrypt_v4_owned_def decrypt_v4_def finish_plaintext_owned_eq
  by (rule rbind_cong_Inr)
    (simp add: owned_loop_eq_chunk_loop check_envelope_length)

lemma decrypt_owned_eq_decrypt: "decrypt_owned P sk env b k n = decrypt P sk env b k n"
  by (simp add: decrypt_owned_def decrypt_def decrypt_v3_owned_eq decrypt_v4_owned_eq Let_def)

subsection \<open>Opening a run of sealed chunks\<close>

text \<open>A run is a list of (ciphertext, plaintext) pairs: \<open>opens\<close> says each ciphertext opens to its
  plaintext at its place, \<open>cut\<close> that every chunk but the last is full.\<close>

fun opens ::
    "(nat \<Rightarrow> nat \<Rightarrow> bytes) \<Rightarrow> (bytes \<Rightarrow> bytes \<Rightarrow> bytes \<Rightarrow> bytes option) \<Rightarrow> bytes \<Rightarrow> nat \<Rightarrow> nat
     \<Rightarrow> (bytes \<times> bytes) list \<Rightarrow> bool" where
  "opens aadf opn nb idx pos [] = True"
| "opens aadf opn nb idx pos ((ct, pt) # r) =
     (opn (chunk_nonce nb (of_nat idx)) (aadf idx (pos + length ct)) ct = Some pt
      \<and> opens aadf opn nb (Suc idx) (pos + length ct) r)"

fun cut :: "nat \<Rightarrow> (bytes \<times> bytes) list \<Rightarrow> bool" where
  "cut cs [] = True"
| "cut cs [(ct, pt)] = (TAG_LEN \<le> length ct \<and> length ct \<le> cs + TAG_LEN)"
| "cut cs ((ct, pt) # r) = (length ct = cs + TAG_LEN \<and> cut cs r)"

lemma chunk_loop_step:
  assumes "opn (chunk_nonce nb (of_nat idx)) (aadf idx (length pre + length ct)) ct = Some pt"
    and "TAG_LEN \<le> length ct" and "length ct = cs + TAG_LEN \<or> rest = [] \<and> length ct \<le> cs + TAG_LEN"
  shows "chunk_loop aadf opn nb cs (pre @ ct @ rest) (length pre) idx acc
    = chunk_loop aadf opn nb cs ((pre @ ct) @ rest) (length (pre @ ct)) (Suc idx) (acc @ pt)"
proof -
  have e: "min (length pre + cs + TAG_LEN) (length (pre @ ct @ rest)) = length pre + length ct"
    using assms(3) by auto
  have pos: "length pre < length (pre @ ct @ rest)"
    using assms(2) by (auto simp: TAG_LEN_def)
  show ?thesis
    using assms(1,2) pos
    by (subst chunk_loop.simps) (simp add: Let_def e [simplified] byte_range_def)
qed

lemma chunk_loop_opens:
  "opens aadf opn nb idx (length pre) prs \<Longrightarrow> cut cs prs \<Longrightarrow>
   chunk_loop aadf opn nb cs (pre @ concat (map fst prs)) (length pre) idx acc
     = Inr (acc @ concat (map snd prs))"
proof (induction prs arbitrary: pre idx acc)
  case Nil
  then show ?case by (simp add: chunk_loop.simps)
next
  case (Cons p r)
  obtain ct pt where p: "p = (ct, pt)" by (cases p)
  from Cons.prems(2) p have sz: "TAG_LEN \<le> length ct" and
    full: "length ct = cs + TAG_LEN \<or> concat (map fst r) = [] \<and> length ct \<le> cs + TAG_LEN" and
    cut: "cut cs r"
    by (cases r; auto)+
  have "chunk_loop aadf opn nb cs (pre @ concat (map fst (p # r))) (length pre) idx acc
      = chunk_loop aadf opn nb cs ((pre @ ct) @ concat (map fst r)) (length (pre @ ct)) (Suc idx) (acc @ pt)"
    using chunk_loop_step [OF _ sz full] Cons.prems(1) p by simp
  also have "\<dots> = Inr ((acc @ pt) @ concat (map snd r))"
    using Cons.IH [of "Suc idx" "pre @ ct" "acc @ pt"] Cons.prems(1) cut p by simp
  finally show ?case using p by simp
qed

lemma chunk_loop_rejects:
  "opens aadf opn nb idx (length pre) prs \<Longrightarrow> \<forall>(ct, pt) \<in> set prs. length ct = cs + TAG_LEN \<Longrightarrow>
   TAG_LEN \<le> length ct \<Longrightarrow> length ct \<le> cs + TAG_LEN \<Longrightarrow>
   opn (chunk_nonce nb (of_nat (idx + length prs)))
     (aadf (idx + length prs) (length pre + length (concat (map fst prs)) + length ct)) ct = None \<Longrightarrow>
   chunk_loop aadf opn nb cs (pre @ concat (map fst prs) @ ct) (length pre) idx acc = Inl AuthFailed"
proof (induction prs arbitrary: pre idx acc)
  case Nil
  have e: "min (length pre + cs + TAG_LEN) (length (pre @ ct)) = length pre + length ct"
    using Nil by auto
  have "length pre < length (pre @ ct)" using Nil.prems(3) by (auto simp: TAG_LEN_def)
  with Nil e show ?case
    by (subst chunk_loop.simps) (simp add: byte_range_def Let_def)
next
  case (Cons p r)
  obtain c pt where p: "p = (c, pt)" by (cases p)
  have "chunk_loop aadf opn nb cs (pre @ concat (map fst (p # r)) @ ct) (length pre) idx acc
      = chunk_loop aadf opn nb cs ((pre @ c) @ concat (map fst r) @ ct) (length (pre @ c)) (Suc idx) (acc @ pt)"
    using chunk_loop_step [of opn nb idx aadf pre c pt cs "concat (map fst r) @ ct" acc] Cons.prems p
    by simp
  also have "\<dots> = Inl AuthFailed"
    using Cons.IH [of "Suc idx" "pre @ c" "acc @ pt"] Cons.prems p by (simp add: add.assoc)
  finally show ?case .
qed

end
