(* ===== verification/Envelope_Laws.thy ===== *)
theory Envelope_Laws
  imports Envelope
begin

text \<open>
  What the envelope promises, proved of the definitions of \<open>Envelope\<close>: the Padme bounds, the
  invariant of the streaming writer and the bytes it leaves on disk, the round trip through both
  readers, the rejection of truncated objects, ranged reads, and the uniqueness of chunk nonces.
\<close>

subsection \<open>Padme padding\<close>

lemma length_takeWhile_strict: "x \<in> set xs \<Longrightarrow> \<not> Q x \<Longrightarrow> length (takeWhile Q xs) < length xs"
  by (induction xs) auto

lemma leading_zeros_bits:
  fixes w :: "'a::len word"
  assumes "w \<noteq> 0"
  shows "leading_zeros w < LENGTH('a)" and "bit w (LENGTH('a) - 1 - leading_zeros w)"
    and "\<And>i. LENGTH('a) - 1 - leading_zeros w < i \<Longrightarrow> \<not> bit w i"
proof -
  let ?bits = "rev (map (bit w) [0..<LENGTH('a)])"
  have nth: "?bits ! j = bit w (LENGTH('a) - 1 - j)" if "j < LENGTH('a)" for j
    using that by (simp add: rev_nth)
  obtain i where i: "bit w i" using assms bit_eq_iff [of w 0] by auto
  then have "i < LENGTH('a)" by (rule bit_imp_le_length)
  with i have "True \<in> set ?bits" by auto
  then show lt: "leading_zeros w < LENGTH('a)"
    unfolding leading_zeros_def
    using length_takeWhile_strict [of True ?bits Not] by simp
  then have "?bits ! leading_zeros w"
    unfolding leading_zeros_def
    using nth_length_takeWhile [of Not ?bits] by auto
  with nth [OF lt] show "bit w (LENGTH('a) - 1 - leading_zeros w)" by simp
  show "\<not> bit w i" if "LENGTH('a) - 1 - leading_zeros w < i" for i
  proof (cases "i < LENGTH('a)")
    case True
    define j where "j = LENGTH('a) - 1 - i"
    have j: "j < leading_zeros w" "j < LENGTH('a)" using that True lt by (auto simp: j_def)
    from j(1) have "takeWhile Not ?bits ! j = ?bits ! j"
      unfolding leading_zeros_def by (rule takeWhile_nth)
    moreover have "\<not> takeWhile Not ?bits ! j"
      using nth_mem [of j "takeWhile Not ?bits"] j(1)
        set_takeWhileD [of "takeWhile Not ?bits ! j" Not ?bits]
      unfolding leading_zeros_def by blast
    ultimately have "\<not> bit w (LENGTH('a) - 1 - j)" using nth [OF j(2)] by simp
    with True show ?thesis by (simp add: j_def)
  next
    case False
    then show ?thesis using bit_imp_le_length by blast
  qed
qed

lemma leading_zeros_log:
  fixes w :: "'a::len word"
  assumes "w \<noteq> 0"
  shows "2 ^ (LENGTH('a) - 1 - leading_zeros w) \<le> unat w"
    and "unat w < 2 ^ Suc (LENGTH('a) - 1 - leading_zeros w)"
proof -
  let ?e = "LENGTH('a) - 1 - leading_zeros w"
  have "bit (unat w) ?e" using leading_zeros_bits(2) [OF assms] by (simp add: bit_unsigned_iff)
  then have "odd (unat w div 2 ^ ?e)" by (simp add: bit_iff_odd)
  then have "unat w div 2 ^ ?e \<noteq> 0" by (rule oddE) simp
  then show "2 ^ ?e \<le> unat w" by (simp add: div_eq_0_iff)
  have "take_bit (Suc ?e) (unat w) = unat w"
    using leading_zeros_bits(3) [OF assms]
    by (intro bit_eqI) (use not_less_eq in \<open>fastforce simp: bit_take_bit_iff bit_unsigned_iff\<close>)
  then show "unat w < 2 ^ Suc ?e" by (metis take_bit_nat_less_exp)
qed

lemma and_not_mask_word:
  "unat ((x :: u64) AND NOT (mask n)) = unat x div 2 ^ n * 2 ^ n"
proof -
  have "x AND NOT (mask n) = push_bit n (drop_bit n x)"
    by (rule bit_word_eqI) (auto simp: bit_simps)
  moreover have "unat (push_bit n (drop_bit n x)) = push_bit n (drop_bit n (unat x))"
  proof (rule bit_eqI)
    fix i
    show "bit (unat (push_bit n (drop_bit n x))) i = bit (push_bit n (drop_bit n (unat x))) i"
      by (auto simp: bit_simps dest: bit_imp_le_length)
  qed
  ultimately show ?thesis by (simp add: push_bit_eq_mult drop_bit_eq_div)
qed

text \<open>The exponents that \<open>padme_len\<close> computes, on natural numbers.\<close>

definition pad_e :: "u64 \<Rightarrow> nat" where "pad_e l = 63 - leading_zeros l"
definition pad_s :: "u64 \<Rightarrow> nat" where
  "pad_s l = (31 - leading_zeros (of_nat (pad_e l) :: u32)) + 1"

lemma pad_e_bounds: "l \<noteq> 0 \<Longrightarrow> 2 ^ pad_e l \<le> unat l \<and> unat l < 2 ^ Suc (pad_e l)"
  using leading_zeros_log [of l] by (simp add: pad_e_def)

lemma pad_e_le: "pad_e l \<le> 63"
  by (simp add: pad_e_def)

lemma pad_s_bounds:
  assumes "2 \<le> unat l"
  shows "2 ^ (pad_s l - 1) \<le> pad_e l" and "pad_e l < 2 ^ pad_s l" and "1 \<le> pad_s l"
proof -
  have "l \<noteq> 0" using assms by auto
  then have "unat l < 2 ^ Suc (pad_e l)" using pad_e_bounds by blast
  with assms have "pad_e l \<noteq> 0" by (cases "pad_e l") auto
  then have un: "unat (of_nat (pad_e l) :: u32) = pad_e l"
    using pad_e_le [of l] by (simp add: unat_of_nat)
  with \<open>pad_e l \<noteq> 0\<close> have "(of_nat (pad_e l) :: u32) \<noteq> 0" by (metis unsigned_0)
  from leading_zeros_log [OF this] un
  show "2 ^ (pad_s l - 1) \<le> pad_e l" and "pad_e l < 2 ^ pad_s l" and "1 \<le> pad_s l"
    by (simp_all add: pad_s_def)
qed

lemma padme_len_eq:
  assumes "2 \<le> unat l" and "unat l \<le> 2 ^ 63" and "pad_s l < pad_e l"
  shows "unat (padme_len l)
    = (unat l + (2 ^ (pad_e l - pad_s l) - 1)) div 2 ^ (pad_e l - pad_s l) * 2 ^ (pad_e l - pad_s l)"
proof -
  let ?b = "pad_e l - pad_s l"
  have b: "?b \<le> 62" using pad_e_le [of l] pad_s_bounds(3) [OF assms(1)] by linarith
  have m: "push_bit ?b (1 :: u64) - 1 = mask ?b"
    by (simp add: mask_eq_exp_minus_1)
  have b62: "(2 :: nat) ^ ?b \<le> 2 ^ 62" using b by (intro power_increasing) auto
  then have "unat (of_nat (2 ^ ?b) :: u64) = 2 ^ ?b" by (simp only: unat_of_nat) simp
  then have um: "unat (mask ?b :: u64) = 2 ^ ?b - 1"
    using b by (simp add: mask_eq_exp_minus_1 unat_minus_one)
  have small: "unat l + (2 ^ ?b - 1) < 2 ^ 64" using assms(2) b62 by simp
  have "saturating_add_u64 l (mask ?b) = l + mask ?b"
    using small by (simp add: saturating_add_u64_def um)
  moreover have "unat (l + mask ?b) = unat l + (2 ^ ?b - 1)"
    using small um by (simp add: unat_word_ariths)
  moreover have "padme_len l = saturating_add_u64 l (mask ?b) AND NOT (mask ?b)"
  proof -
    have "\<not> l < 2" using assms(1) by (simp add: word_less_nat_alt)
    moreover have "\<not> pad_e l \<le> pad_s l" using assms(3) by simp
    ultimately show ?thesis
      unfolding padme_len_def Let_def pad_e_def [symmetric] pad_s_def [symmetric] m
      by (simp only: if_False)
  qed
  ultimately show ?thesis
    by (simp only: and_not_mask_word)
qed

lemma padme_len_small:
  "unat l < 2 \<or> pad_e l \<le> pad_s l \<Longrightarrow> padme_len l = l"
  by (auto simp: padme_len_def Let_def pad_e_def pad_s_def word_less_nat_alt)

lemma round_up:
  fixes n b :: nat
  assumes "0 < b"
  shows "n \<le> (n + (b - 1)) div b * b" and "(n + (b - 1)) div b * b \<le> n + (b - 1)"
  using assms
proof -
  have "(n + (b - 1)) div b * b + (n + (b - 1)) mod b = n + (b - 1)" by simp
  moreover have "(n + (b - 1)) mod b \<le> b - 1"
    using assms mod_less_divisor [of b "n + (b - 1)"] by linarith
  ultimately show "n \<le> (n + (b - 1)) div b * b" by linarith
qed (rule div_times_less_eq_dividend)

lemma padme_bounds:
  assumes "unat l \<le> 2 ^ 63"
  shows "unat l \<le> unat (padme_len l)"
    and "2 \<le> unat l \<Longrightarrow> unat (padme_len l) \<le> unat l + (2 ^ (pad_e l - pad_s l) - 1)"
proof -
  consider (id) "unat l < 2 \<or> pad_e l \<le> pad_s l" | (pad) "2 \<le> unat l" "pad_s l < pad_e l"
    by linarith
  then have "unat l \<le> unat (padme_len l)
    \<and> (2 \<le> unat l \<longrightarrow> unat (padme_len l) \<le> unat l + (2 ^ (pad_e l - pad_s l) - 1))"
  proof cases
    case id
    then show ?thesis using le_add1 by (simp only: padme_len_small) simp
  next
    case pad
    then show ?thesis
      using round_up [of "2 ^ (pad_e l - pad_s l)" "unat l"] assms by (simp add: padme_len_eq)
  qed
  then show "unat l \<le> unat (padme_len l)"
    and "2 \<le> unat l \<Longrightarrow> unat (padme_len l) \<le> unat l + (2 ^ (pad_e l - pad_s l) - 1)" by auto
qed

lemma pad_s_eq: "2 \<le> unat l \<Longrightarrow> 2 ^ n \<le> pad_e l \<Longrightarrow> pad_e l < 2 ^ Suc n \<Longrightarrow> pad_s l = Suc n"
proof -
  assume l: "2 \<le> unat l" and lo: "2 ^ n \<le> pad_e l" and hi: "pad_e l < 2 ^ Suc n"
  from lo pad_s_bounds(2) [OF l] have "(2 :: nat) ^ n < 2 ^ pad_s l" by (rule le_less_trans)
  then have "n < pad_s l" by simp
  from pad_s_bounds(1) [OF l] hi have "(2 :: nat) ^ (pad_s l - 1) < 2 ^ Suc n" by (rule le_less_trans)
  then have "pad_s l - 1 < Suc n" by (simp only: power_strict_increasing_iff)
  with \<open>n < pad_s l\<close> show ?thesis by linarith
qed

lemma pad_e_zero: "pad_e 0 = 0"
  by code_simp

lemma padme_overhead_large:
  assumes "unat l \<le> 2 ^ 63" and "8 \<le> pad_e l"
  shows "16 * (unat (padme_len l) - unat l) \<le> unat l"
proof -
  have "l \<noteq> 0" using assms(2) pad_e_zero by auto
  then have le: "2 ^ pad_e l \<le> unat l" using pad_e_bounds by blast
  have "(2 :: nat) ^ 8 \<le> 2 ^ pad_e l" using assms(2) by (intro power_increasing) auto
  with le have l2: "2 \<le> unat l" by simp
  have "3 < pad_s l"
  proof (rule ccontr)
    assume "\<not> 3 < pad_s l"
    then have "(2 :: nat) ^ pad_s l \<le> 2 ^ 3" by (intro power_increasing) auto
    with pad_s_bounds(2) [OF l2] assms(2) show False by simp
  qed
  then have "16 * (2 :: nat) ^ (pad_e l - pad_s l) \<le> 2 ^ (4 + (pad_e l - pad_s l))"
    by (simp add: power_add)
  also have "\<dots> \<le> 2 ^ pad_e l"
    using \<open>3 < pad_s l\<close> assms(2) pad_s_bounds(2) [OF l2]
    by (cases "pad_s l \<le> pad_e l") (intro power_increasing; simp)+
  finally have "16 * (2 :: nat) ^ (pad_e l - pad_s l) \<le> unat l" using le by linarith
  then show ?thesis using padme_bounds(2) [OF assms(1) l2] by linarith
qed

lemma padme_overhead_case:
  assumes l: "2 \<le> unat l" "unat l \<le> 2 ^ 63" and s: "pad_s l < pad_e l"
    and num: "100 * (2 ^ (pad_e l - pad_s l) - 1) \<le> 12 * (2 ^ pad_e l + 1 :: nat)"
  shows "100 * (unat (padme_len l) - unat l) \<le> 12 * unat l"
proof (cases "unat l = 2 ^ pad_e l")
  case True
  define b where "b = pad_e l - pad_s l"
  have "(2 :: nat) ^ pad_e l = 2 ^ (pad_e l - b) * 2 ^ b"
    using s by (simp add: b_def flip: power_add)
  moreover have "(q * d + (d - 1)) div d = q" if "0 < d" for q d :: nat
    by (subst div_mult_self3) (use that in auto)
  ultimately have "(2 ^ pad_e l + (2 ^ b - 1)) div 2 ^ b * 2 ^ b = (2 :: nat) ^ pad_e l"
    by (metis zero_less_numeral zero_less_power)
  then show ?thesis using padme_len_eq [OF l s] True by (simp add: b_def)
next
  case False
  have "l \<noteq> 0" using l(1) by auto
  then have "2 ^ pad_e l + 1 \<le> unat l" using pad_e_bounds [of l] False by force
  moreover have "a \<le> c + x \<Longrightarrow> 100 * x \<le> 12 * y \<Longrightarrow> y \<le> c \<Longrightarrow> 100 * (a - c) \<le> 12 * c"
    for a c x y :: nat by linarith
  ultimately show ?thesis using padme_bounds(2) [OF l(2,1)] num by blast
qed

lemma padme_overhead_small:
  assumes "2 \<le> unat l" and "pad_e l \<le> 7"
  shows "100 * (unat (padme_len l) - unat l) \<le> 12 * unat l"
proof -
  have l0: "l \<noteq> 0" using assms(1) by auto
  note e = pad_e_bounds [OF l0]
  have "unat l < 2 ^ 8"
    using e assms(2) power_increasing [of "Suc (pad_e l)" 8 "2 :: nat"] by simp
  then have l63: "unat l \<le> 2 ^ 63" by simp
  have "1 \<le> pad_e l" using assms(1) e by (cases "pad_e l") auto
  with assms(2) consider "pad_e l \<in> {1, 2}" | "pad_e l = 3" | "pad_e l \<in> {4, 5, 6, 7}"
    by fastforce
  then show ?thesis
  proof cases
    case 1
    then show ?thesis
      using pad_s_eq [of l 0] pad_s_eq [of l 1] assms(1) by (auto simp: padme_len_small)
  next
    case 2
    then show ?thesis
      using pad_s_eq [of l 1] padme_overhead_case [OF assms(1) l63] assms(1) by simp
  next
    case 3
    then show ?thesis
      using pad_s_eq [of l 2] padme_overhead_case [OF assms(1) l63] assms(1) by auto
  qed
qed

text \<open>Padding never shrinks an object and costs at most 12 per cent.\<close>

lemma padme_overhead:
  assumes "unat l \<le> 2 ^ 63"
  shows "unat l \<le> unat (padme_len l)"
    and "100 * (unat (padme_len l) - unat l) \<le> 12 * unat l"
proof -
  show "unat l \<le> unat (padme_len l)" by (rule padme_bounds(1) [OF assms])
  consider "unat l < 2" | "2 \<le> unat l" "pad_e l \<le> 7" | "8 \<le> pad_e l" by linarith
  then show "100 * (unat (padme_len l) - unat l) \<le> 12 * unat l"
  proof cases
    case 1
    then show ?thesis by (simp add: padme_len_small)
  next
    case 2
    then show ?thesis by (rule padme_overhead_small)
  next
    case 3
    then show ?thesis using padme_overhead_large [OF assms] by linarith
  qed
qed

subsection \<open>What the writer leaves on disk\<close>

text \<open>\<open>seal_chunk\<close> is the ciphertext of one chunk; \<open>mid_pairs\<close> seals a run of chunks none of which is
  the last of its object, \<open>sealed_pairs\<close> a run that ends with the last one.\<close>

definition seal_chunk ::
    "crypto_prims \<Rightarrow> bytes \<Rightarrow> bytes \<Rightarrow> bytes \<Rightarrow> nat \<Rightarrow> bool \<Rightarrow> bytes \<Rightarrow> bytes" where
  "seal_chunk P k nb base idx fin c =
     (case gcm_seal P k (chunk_nonce nb (of_nat idx)) (build_v4_aad base fin) c of
        None \<Rightarrow> [] | Some ct \<Rightarrow> ct)"

fun mid_pairs ::
    "crypto_prims \<Rightarrow> bytes \<Rightarrow> bytes \<Rightarrow> bytes \<Rightarrow> nat \<Rightarrow> bytes list \<Rightarrow> (bytes \<times> bytes) list" where
  "mid_pairs P k nb base idx [] = []"
| "mid_pairs P k nb base idx (c # cs) =
     (seal_chunk P k nb base idx False c, c) # mid_pairs P k nb base (Suc idx) cs"

fun sealed_pairs ::
    "crypto_prims \<Rightarrow> bytes \<Rightarrow> bytes \<Rightarrow> bytes \<Rightarrow> nat \<Rightarrow> bytes list \<Rightarrow> (bytes \<times> bytes) list" where
  "sealed_pairs P k nb base idx [] = []"
| "sealed_pairs P k nb base idx [c] = [(seal_chunk P k nb base idx True c, c)]"
| "sealed_pairs P k nb base idx (c # cs) =
     (seal_chunk P k nb base idx False c, c) # sealed_pairs P k nb base (Suc idx) cs"

abbreviation body_of :: "(bytes \<times> bytes) list \<Rightarrow> bytes" where
  "body_of prs \<equiv> concat (map fst prs)"

fun chunked :: "nat \<Rightarrow> bytes list \<Rightarrow> bool" where
  "chunked cs [] = True"
| "chunked cs [c] = (0 < length c \<and> length c \<le> cs)"
| "chunked cs (c # d # r) = (length c = cs \<and> chunked cs (d # r))"

lemma sealed_pairs_snoc:
  "sealed_pairs P k nb base idx (cs @ [c])
     = mid_pairs P k nb base idx cs @ [(seal_chunk P k nb base (idx + length cs) True c, c)]"
proof (induction cs arbitrary: idx)
  case (Cons d ds)
  then show ?case by (cases ds) auto
qed simp

lemma mid_pairs_snoc:
  "mid_pairs P k nb base idx (cs @ [c])
     = mid_pairs P k nb base idx cs @ [(seal_chunk P k nb base (idx + length cs) False c, c)]"
  by (induction cs arbitrary: idx) auto

lemma snd_mid_pairs [simp]: "map snd (mid_pairs P k nb base idx cs) = cs"
  by (induction cs arbitrary: idx) auto

lemma snd_sealed_pairs [simp]: "map snd (sealed_pairs P k nb base idx cs) = cs"
  by (induction P k nb base idx cs rule: sealed_pairs.induct) auto

lemma length_mid_pairs [simp]: "length (mid_pairs P k nb base idx cs) = length cs"
  by (induction cs arbitrary: idx) auto

lemma chunked_snoc: "chunked cs (fl @ [c]) \<longleftrightarrow> (\<forall>x \<in> set fl. length x = cs) \<and> 0 < length c \<and> length c \<le> cs"
proof (induction fl)
  case (Cons d ds)
  then show ?case by (cases ds) auto
qed simp

lemma chunked_le: "chunked cs chunks \<Longrightarrow> c \<in> set chunks \<Longrightarrow> length c \<le> cs"
  by (induction cs chunks rule: chunked.induct) auto

lemma seal_chunk_opens:
  assumes "aead_correct P" and "length c < 2 ^ 32"
  shows "gcm_seal P k (chunk_nonce nb (of_nat idx)) (build_v4_aad base fin) c
      = Some (seal_chunk P k nb base idx fin c)"
    and "length (seal_chunk P k nb base idx fin c) = length c + TAG_LEN"
    and "gcm_open P k (chunk_nonce nb (of_nat idx)) (build_v4_aad base fin) (seal_chunk P k nb base idx fin c)
      = Some c"
proof -
  obtain ct where "gcm_seal P k (chunk_nonce nb (of_nat idx)) (build_v4_aad base fin) c = Some ct"
    and "length ct = length c + TAG_LEN"
    and "gcm_open P k (chunk_nonce nb (of_nat idx)) (build_v4_aad base fin) ct = Some c"
    using aead_correctE [OF assms] .
  then show "gcm_seal P k (chunk_nonce nb (of_nat idx)) (build_v4_aad base fin) c
      = Some (seal_chunk P k nb base idx fin c)"
    and "length (seal_chunk P k nb base idx fin c) = length c + TAG_LEN"
    and "gcm_open P k (chunk_nonce nb (of_nat idx)) (build_v4_aad base fin) (seal_chunk P k nb base idx fin c)
      = Some c"
    by (simp_all add: seal_chunk_def)
qed

lemma body_sealed_nonempty:
  "aead_correct P \<Longrightarrow> chunks \<noteq> [] \<Longrightarrow> \<forall>c \<in> set chunks. length c < 2 ^ 32 \<Longrightarrow>
   0 < length (body_of (sealed_pairs P k nb base idx chunks))"
  by (cases "(P, k, nb, base, idx, chunks)" rule: sealed_pairs.cases)
    (auto simp: seal_chunk_opens(2) TAG_LEN_def)

lemma sealed_opens:
  "aead_correct P \<Longrightarrow> \<forall>c \<in> set chunks. length c < 2 ^ 32 \<Longrightarrow>
   tot = pos + length (body_of (sealed_pairs P k nb base idx chunks)) \<Longrightarrow>
   opens (\<lambda>_ e. build_v4_aad base (e = tot)) (gcm_open P k) nb idx pos
     (sealed_pairs P k nb base idx chunks)"
proof (induction P k nb base idx chunks arbitrary: pos rule: sealed_pairs.induct)
  case (3 P k nb base idx c d r)
  have "0 < length (body_of (sealed_pairs P k nb base (Suc idx) (d # r)))"
    using 3 by (intro body_sealed_nonempty) auto
  then have "pos + length (seal_chunk P k nb base idx False c) < tot"
    using 3(4) by (simp only: sealed_pairs.simps list.map concat.simps fst_conv length_append)
  then have ne: "(pos + length (seal_chunk P k nb base idx False c) = tot) = False" by simp
  have "opens (\<lambda>_ e. build_v4_aad base (e = tot)) (gcm_open P k) nb (Suc idx)
      (pos + length (seal_chunk P k nb base idx False c)) (sealed_pairs P k nb base (Suc idx) (d # r))"
    using 3 by (intro 3(1)) auto
  then show ?case
    unfolding sealed_pairs.simps opens.simps ne
    using 3(2,3) seal_chunk_opens(3) [of P c k nb idx base False] by simp
qed (simp_all add: seal_chunk_opens(3))

lemma sealed_opens_ranged:
  "aead_correct P \<Longrightarrow> \<forall>c \<in> set chunks. length c < 2 ^ 32 \<Longrightarrow> idx + length chunks = tot \<Longrightarrow>
   opens (\<lambda>i _. build_v4_aad base (i + 1 = tot)) (gcm_open P k) nb idx pos
     (sealed_pairs P k nb base idx chunks)"
proof (induction P k nb base idx chunks arbitrary: pos rule: sealed_pairs.induct)
  case (3 P k nb base idx c d r)
  then show ?case using seal_chunk_opens(3) [of P c k nb idx base False] by auto
qed (auto simp: seal_chunk_opens(3))

lemma mid_opens:
  assumes "aead_correct P"
  shows "\<forall>c \<in> set chunks. length c < 2 ^ 32 \<Longrightarrow>
    \<forall>i < length chunks. \<forall>e. pos < e \<and> e \<le> pos + length (body_of (mid_pairs P k nb base idx chunks))
      \<longrightarrow> aadf (idx + i) e = build_v4_aad base False \<Longrightarrow>
    opens aadf (gcm_open P k) nb idx pos (mid_pairs P k nb base idx chunks)"
proof (induction chunks arbitrary: pos idx)
  case (Cons c cs)
  let ?ct = "seal_chunk P k nb base idx False c"
  have ct: "length ?ct = length c + TAG_LEN"
    "gcm_open P k (chunk_nonce nb (of_nat idx)) (build_v4_aad base False) ?ct = Some c"
    using Cons.prems(1) seal_chunk_opens [OF assms] by auto
  have "aadf (idx + 0) (pos + length ?ct) = build_v4_aad base False"
    using Cons.prems(2) ct(1) by (auto simp: TAG_LEN_def)
  moreover have "opens aadf (gcm_open P k) nb (Suc idx) (pos + length ?ct)
      (mid_pairs P k nb base (Suc idx) cs)"
  proof (rule Cons.IH)
    show "\<forall>i < length cs. \<forall>e. pos + length ?ct < e
      \<and> e \<le> pos + length ?ct + length (body_of (mid_pairs P k nb base (Suc idx) cs))
      \<longrightarrow> aadf (Suc idx + i) e = build_v4_aad base False"
    proof (intro allI impI)
      fix i e
      assume "i < length cs" and e: "pos + length ?ct < e
        \<and> e \<le> pos + length ?ct + length (body_of (mid_pairs P k nb base (Suc idx) cs))"
      then have "Suc i < length (c # cs)" by simp
      with Cons.prems(2) e have "aadf (idx + Suc i) e = build_v4_aad base False"
        by (auto simp del: length_Cons)
      then show "aadf (Suc idx + i) e = build_v4_aad base False" by simp
    qed
  qed (use Cons.prems(1) in auto)
  ultimately show ?case using ct(2) by simp
qed simp

lemma sealed_cut:
  "aead_correct P \<Longrightarrow> cs < 2 ^ 32 \<Longrightarrow> chunked cs chunks \<Longrightarrow> cut cs (sealed_pairs P k nb base idx chunks)"
proof (induction P k nb base idx chunks rule: sealed_pairs.induct)
  case (3 P k nb base idx c d r)
  then show ?case using seal_chunk_opens(2) [of P c k nb base idx False] by (cases r) auto
qed (auto simp: seal_chunk_opens(2))

subsection \<open>The invariant of the streaming writer\<close>

text \<open>\<open>fl\<close> is the list of chunks already flushed: all full, none of them final. \<open>pre\<close> is what the file
  held before the envelope, \<open>hdr\<close> the header with the length placeholder.\<close>

definition es_params :: "encrypt_session \<Rightarrow> bytes \<times> bytes \<times> bytes \<times> nat \<times> nat \<times> u32" where
  "es_params s = (es_cipher s, es_nonce_base s, es_aad_base s, es_write_offset s, es_chunk_size s,
     es_key_epoch s)"

abbreviation es_mid :: "crypto_prims \<Rightarrow> encrypt_session \<Rightarrow> bytes list \<Rightarrow> bytes" where
  "es_mid P s fl \<equiv> body_of (mid_pairs P (es_cipher s) (es_nonce_base s) (es_aad_base s) 0 fl)"

abbreviation es_sealed :: "crypto_prims \<Rightarrow> encrypt_session \<Rightarrow> bytes list \<Rightarrow> bytes" where
  "es_sealed P s chunks \<equiv>
     body_of (sealed_pairs P (es_cipher s) (es_nonce_base s) (es_aad_base s) 0 chunks)"

definition es_pend :: "encrypt_session \<Rightarrow> bytes" where
  "es_pend s = (case es_pending s of None \<Rightarrow> [] | Some p \<Rightarrow> p)"

text \<open>What is on disk and in the counters, when \<open>body\<close> is the ciphertext of the chunks \<open>done\<close>.\<close>

definition es_disk :: "bytes \<Rightarrow> bytes \<Rightarrow> encrypt_session \<Rightarrow> bytes \<Rightarrow> bytes list \<Rightarrow> bool" where
  "es_disk pre hk s body done_chunks \<longleftrightarrow>
     sk_faults (es_sink s) = []
     \<and> sk_data (es_sink s) = pre @ hk @ body
     \<and> sk_pos (es_sink s) = length (sk_data (es_sink s))
     \<and> es_plaintext_total s = length (concat done_chunks)
     \<and> es_hasher s = hk @ body
     \<and> es_bytes_written s = length (hk @ body)
     \<and> es_chunk_idx s = length done_chunks"

definition es_inv :: "crypto_prims \<Rightarrow> bytes \<Rightarrow> bytes \<Rightarrow> encrypt_session \<Rightarrow> bytes list \<Rightarrow> bool" where
  "es_inv P pre hk s fl \<longleftrightarrow>
     0 < es_chunk_size s \<and> es_chunk_size s < 2 ^ 32
     \<and> es_disk pre hk s (es_mid P s fl) fl
     \<and> (\<forall>c \<in> set fl. length c = es_chunk_size s)
     \<and> length (es_staging s) < es_chunk_size s
     \<and> (case es_pending s of None \<Rightarrow> fl = [] | Some p \<Rightarrow> length p = es_chunk_size s)"

definition es_content :: "encrypt_session \<Rightarrow> bytes list \<Rightarrow> bytes" where
  "es_content s fl = concat fl @ es_pend s @ es_staging s"

lemma flush_raw_ok:
  assumes "aead_correct P" and "length data < 2 ^ 32" and "es_disk pre hk s body fl"
    and "ct = seal_chunk P (es_cipher s) (es_nonce_base s) (es_aad_base s) (length fl) fin data"
  obtains s' where "flush_raw P s data fin = Inr s'" and "es_disk pre hk s' (body @ ct) (fl @ [data])"
    and "es_params s' = es_params s" and "es_staging s' = es_staging s" and "es_pending s' = es_pending s"
proof
  let ?sk = "(es_sink s)\<lparr>sk_data := sk_data (es_sink s) @ ct, sk_pos := length (sk_data (es_sink s) @ ct)\<rparr>"
  let ?s' = "s\<lparr>es_plaintext_total := es_plaintext_total s + length data,
            es_bytes_written := es_bytes_written s + length ct,
            es_hasher := StreamChecksum_update (es_hasher s) ct,
            es_sink := ?sk,
            es_chunk_idx := es_chunk_idx s + 1\<rparr>"
  have seal: "gcm_seal P (es_cipher s) (chunk_nonce (es_nonce_base s) (of_nat (length fl)))
      (build_v4_aad (es_aad_base s) fin) data = Some ct"
    using seal_chunk_opens(1) [OF assms(1,2)] assms(4) by simp
  have "sink_write_all (es_sink s) ct = Some ?sk"
    using assms(3) by (intro sink_append) (simp_all add: es_disk_def)
  then show "flush_raw P s data fin = Inr ?s'"
    using seal assms(3) by (simp add: flush_raw_def es_disk_def)
  show "es_disk pre hk ?s' (body @ ct) (fl @ [data])"
    using assms(3) by (simp add: es_disk_def StreamChecksum_update_def)
qed (simp_all add: es_params_def)

lemma absorb_ok:
  assumes aead: "aead_correct P" and inv: "es_inv P pre hk s fl"
    and le: "length (es_staging s) + length bs \<le> es_chunk_size s"
  obtains s' fl' where "absorb P s bs = Inr s'" and "es_inv P pre hk s' fl'"
    and "es_params s' = es_params s" and "es_content s' fl' = es_content s fl @ bs"
proof (cases "length (es_staging s) + length bs = es_chunk_size s")
  case False
  let ?s' = "s\<lparr>es_staging := es_staging s @ bs\<rparr>"
  show thesis
  proof (rule that [of ?s' fl])
    show "absorb P s bs = Inr ?s'" using False by (simp add: absorb_def)
    show "es_inv P pre hk ?s' fl" using inv False le
      by (simp add: es_inv_def es_disk_def split: option.splits)
    show "es_content ?s' fl = es_content s fl @ bs" by (simp add: es_content_def es_pend_def)
  qed (simp add: es_params_def)
next
  case full: True
  let ?s1 = "s\<lparr>es_staging := es_staging s @ bs\<rparr>"
  have st: "length (es_staging s @ bs) = es_chunk_size s" using full by simp
  show thesis
  proof (cases "es_pending s")
    case None
    let ?s' = "?s1\<lparr>es_pending := Some (es_staging s @ bs), es_staging := []\<rparr>"
    show thesis
    proof (rule that [of ?s' fl])
      show "absorb P s bs = Inr ?s'"
        using full None by (simp add: absorb_def promote_staging_def)
      show "es_inv P pre hk ?s' fl" using inv full None by (simp add: es_inv_def es_disk_def)
      show "es_content ?s' fl = es_content s fl @ bs"
        using None by (simp add: es_content_def es_pend_def)
    qed (simp add: es_params_def)
  next
    case (Some p)
    let ?s2 = "?s1\<lparr>es_pending := None\<rparr>"
    have p: "length p < 2 ^ 32" "length p = es_chunk_size s" using inv Some by (auto simp: es_inv_def)
    have disk: "es_disk pre hk ?s2 (es_mid P s fl) fl" using inv by (simp add: es_inv_def es_disk_def)
    obtain s3 where s3: "flush_raw P ?s2 p False = Inr s3"
      "es_disk pre hk s3 (es_mid P s fl @ seal_chunk P (es_cipher ?s2) (es_nonce_base ?s2)
         (es_aad_base ?s2) (length fl) False p) (fl @ [p])"
      "es_params s3 = es_params ?s2" "es_staging s3 = es_staging s @ bs" "es_pending s3 = None"
      using flush_raw_ok [OF aead p(1) disk refl, of False] by auto
    let ?s' = "s3\<lparr>es_pending := Some (es_staging s3), es_staging := []\<rparr>"
    have mid: "es_mid P s fl @ seal_chunk P (es_cipher s) (es_nonce_base s) (es_aad_base s) (length fl) False p
        = es_mid P s3 (fl @ [p])"
      using s3(3) by (simp add: mid_pairs_snoc es_params_def)
    have params: "es_params ?s' = es_params s" using s3(3) by (simp add: es_params_def)
    have cs: "es_chunk_size s3 = es_chunk_size s" using s3(3) by (simp add: es_params_def)
    have "es_disk pre hk s3 (es_mid P s3 (fl @ [p])) (fl @ [p])" using s3(2) mid by simp
    then have disk': "es_disk pre hk ?s' (es_mid P s3 (fl @ [p])) (fl @ [p])"
      by (simp add: es_disk_def)
    show thesis
    proof (rule that [of ?s' "fl @ [p]"])
      show "absorb P s bs = Inr ?s'"
        using full Some s3(1) by (simp add: absorb_def promote_staging_def)
      show "es_inv P pre hk ?s' (fl @ [p])"
        using inv disk' p st s3(4) cs by (auto simp: es_inv_def)
      show "es_content ?s' (fl @ [p]) = es_content s fl @ bs"
        using Some s3(4) by (simp add: es_content_def es_pend_def)
    qed (rule params)
  qed
qed

lemma es_inv_space: "es_inv P pre hk s fl \<Longrightarrow> 0 < es_chunk_size s - length (es_staging s)"
  by (simp add: es_inv_def)

lemma feed_ok:
  assumes aead: "aead_correct P"
  shows "es_inv P pre hk s fl \<Longrightarrow> \<exists>s' fl'. feed P s data = Some (Inr s') \<and> es_inv P pre hk s' fl'
    \<and> es_params s' = es_params s \<and> es_content s' fl' = es_content s fl @ data"
proof (induction "length data" arbitrary: data s fl rule: less_induct)
  case less
  show ?case
  proof (cases "data = []")
    case True
    with less.prems show ?thesis by (auto simp: feed.simps)
  next
    case False
    define tk where "tk = min (length data) (es_chunk_size s - length (es_staging s))"
    have tk: "0 < tk" "tk \<le> length data"
      using False es_inv_space [OF less.prems] by (auto simp: tk_def)
    have "length (es_staging s) + length (take tk data) \<le> es_chunk_size s"
      using less.prems by (auto simp: tk_def es_inv_def)
    then obtain s1 fl1 where s1: "absorb P s (take tk data) = Inr s1" "es_inv P pre hk s1 fl1"
      "es_params s1 = es_params s" "es_content s1 fl1 = es_content s fl @ take tk data"
      using absorb_ok [OF aead less.prems] by metis
    have "length (drop tk data) < length data" using tk by simp
    from less.hyps [OF this s1(2)] obtain s2 fl2 where "feed P s1 (drop tk data) = Some (Inr s2)"
      "es_inv P pre hk s2 fl2" "es_params s2 = es_params s1"
      "es_content s2 fl2 = es_content s1 fl1 @ drop tk data" by blast
    moreover have "feed P s data = feed P s1 (drop tk data)"
      using False s1(1) by (simp add: feed.simps [of P s data] Let_def tk_def [symmetric])
    ultimately show ?thesis using s1 by auto
  qed
qed

lemma feed_all_ok:
  assumes aead: "aead_correct P"
  shows "es_inv P pre hk s fl \<Longrightarrow> \<exists>s' fl'. feed_all P s parts = Some (Inr s') \<and> es_inv P pre hk s' fl'
    \<and> es_params s' = es_params s \<and> es_content s' fl' = es_content s fl @ concat parts"
proof (induction parts arbitrary: s fl)
  case Nil
  then show ?case by auto
next
  case (Cons d ds)
  from feed_ok [OF aead Cons.prems, of d] obtain s1 fl1 where
    s1: "feed P s d = Some (Inr s1)" "es_inv P pre hk s1 fl1" "es_params s1 = es_params s"
      "es_content s1 fl1 = es_content s fl @ d" by blast
  from Cons.IH [OF s1(2)] s1 show ?case by auto
qed

lemma pad_loop_ok:
  assumes aead: "aead_correct P"
  shows "es_inv P pre hk s fl \<Longrightarrow> \<exists>s' fl'. pad_loop P s n = Some (Inr s') \<and> es_inv P pre hk s' fl'
    \<and> es_params s' = es_params s \<and> es_content s' fl' = es_content s fl @ replicate n 0"
proof (induction n arbitrary: s fl rule: less_induct)
  case (less n)
  show ?case
  proof (cases "n = 0")
    case True
    with less.prems show ?thesis by (auto simp: pad_loop.simps)
  next
    case False
    define tk where "tk = min (es_chunk_size s - length (es_staging s)) n"
    have tk: "0 < tk" "tk \<le> n"
      using False es_inv_space [OF less.prems] by (auto simp: tk_def)
    have "length (es_staging s) + length (replicate tk (0 :: byte)) \<le> es_chunk_size s"
      using less.prems by (auto simp: tk_def es_inv_def)
    then obtain s1 fl1 where s1: "absorb P s (replicate tk 0) = Inr s1" "es_inv P pre hk s1 fl1"
      "es_params s1 = es_params s" "es_content s1 fl1 = es_content s fl @ replicate tk 0"
      using absorb_ok [OF aead less.prems] by metis
    have "n - tk < n" using tk by simp
    from less.IH [OF this s1(2)] obtain s2 fl2 where "pad_loop P s1 (n - tk) = Some (Inr s2)"
      "es_inv P pre hk s2 fl2" "es_params s2 = es_params s1"
      "es_content s2 fl2 = es_content s1 fl1 @ replicate (n - tk) 0" by blast
    moreover have "pad_loop P s n = pad_loop P s1 (n - tk)"
      using False s1(1) by (simp add: pad_loop.simps [of P s n] Let_def tk_def [symmetric])
    moreover have "replicate n (0 :: byte) = replicate tk 0 @ replicate (n - tk) 0"
      using tk(2) by (simp flip: replicate_add)
    ultimately show ?thesis using s1 by auto
  qed
qed

lemma flush_tail_ok:
  assumes aead: "aead_correct P" and inv: "es_inv P pre hk s fl"
  obtains s' chunks where "flush_tail P s = Inr s'" and "chunked (es_chunk_size s) chunks"
    and "concat chunks = es_content s fl" and "es_disk pre hk s' (es_sealed P s chunks) chunks"
    and "es_params s' = es_params s"
proof -
  have disk: "es_disk pre hk s (es_mid P s fl) fl" and full: "\<forall>c \<in> set fl. length c = es_chunk_size s"
    and st: "length (es_staging s) < 2 ^ 32" "length (es_staging s) \<le> es_chunk_size s"
    and cs: "0 < es_chunk_size s" "es_chunk_size s < 2 ^ 32"
    using inv by (auto simp: es_inv_def)
  consider (none) "es_staging s = []" "es_pending s = None"
    | (pending) p where "es_staging s = []" "es_pending s = Some p"
    | (staged) "es_staging s \<noteq> []" "es_pending s = None"
    | (both) p where "es_staging s \<noteq> []" "es_pending s = Some p"
    by (cases "es_pending s") auto
  then show thesis
  proof cases
    case none
    then have "fl = []" using inv by (simp add: es_inv_def)
    then show thesis
      using none disk by (intro that [of s "[]"]) (simp_all add: flush_tail_def es_content_def es_pend_def)
  next
    case pending
    let ?s1 = "s\<lparr>es_pending := None\<rparr>"
    have p: "length p < 2 ^ 32" "length p = es_chunk_size s"
      using inv pending by (auto simp: es_inv_def)
    have d1: "es_disk pre hk ?s1 (es_mid P s fl) fl" using disk by (simp add: es_disk_def)
    obtain s2 where "flush_raw P ?s1 p True = Inr s2" "es_params s2 = es_params ?s1"
      "es_disk pre hk s2 (es_mid P s fl @ seal_chunk P (es_cipher ?s1) (es_nonce_base ?s1)
         (es_aad_base ?s1) (length fl) True p) (fl @ [p])"
      using flush_raw_ok [OF aead p(1) d1 refl, of True] by auto
    then show thesis
      using pending p full cs
      by (intro that [of s2 "fl @ [p]"])
        (auto simp: flush_tail_def chunked_snoc es_content_def es_pend_def sealed_pairs_snoc es_params_def)
  next
    case staged
    then have "fl = []" using inv by (simp add: es_inv_def)
    let ?s1 = "s\<lparr>es_staging := []\<rparr>"
    have d1: "es_disk pre hk ?s1 (es_mid P s fl) fl" using disk by (simp add: es_disk_def)
    obtain s2 where "flush_raw P ?s1 (es_staging s) True = Inr s2" "es_params s2 = es_params ?s1"
      "es_disk pre hk s2 (es_mid P s fl @ seal_chunk P (es_cipher ?s1) (es_nonce_base ?s1)
         (es_aad_base ?s1) (length fl) True (es_staging s)) (fl @ [es_staging s])"
      using flush_raw_ok [OF aead st(1) d1 refl, of True] by auto
    then show thesis
      using staged \<open>fl = []\<close> st
      by (intro that [of s2 "[es_staging s]"])
        (auto simp: flush_tail_def es_content_def es_pend_def es_params_def)
  next
    case both
    let ?s1 = "s\<lparr>es_pending := None\<rparr>"
    have p: "length p < 2 ^ 32" "length p = es_chunk_size s"
      using inv both by (auto simp: es_inv_def)
    have d1: "es_disk pre hk ?s1 (es_mid P s fl) fl" using disk by (simp add: es_disk_def)
    obtain s2 where s2: "flush_raw P ?s1 p False = Inr s2" "es_params s2 = es_params ?s1"
      "es_staging s2 = es_staging s"
      "es_disk pre hk s2 (es_mid P s fl @ seal_chunk P (es_cipher ?s1) (es_nonce_base ?s1)
         (es_aad_base ?s1) (length fl) False p) (fl @ [p])"
      using flush_raw_ok [OF aead p(1) d1 refl, of False] by auto
    let ?s3 = "s2\<lparr>es_staging := []\<rparr>"
    have d3: "es_disk pre hk ?s3 (es_mid P s (fl @ [p])) (fl @ [p])"
      using s2(4) by (simp add: es_disk_def mid_pairs_snoc)
    obtain s4 where s4: "flush_raw P ?s3 (es_staging s) True = Inr s4" "es_params s4 = es_params ?s3"
      "es_disk pre hk s4 (es_mid P s (fl @ [p]) @ seal_chunk P (es_cipher ?s3) (es_nonce_base ?s3)
         (es_aad_base ?s3) (length (fl @ [p])) True (es_staging s)) ((fl @ [p]) @ [es_staging s])"
      using flush_raw_ok [OF aead st(1) d3 refl, of True] by auto
    have par: "es_params s4 = es_params s" using s2(2) s4(2) by (simp add: es_params_def)
    have seal: "es_mid P s (fl @ [p]) @ seal_chunk P (es_cipher ?s3) (es_nonce_base ?s3)
         (es_aad_base ?s3) (length (fl @ [p])) True (es_staging s)
       = es_sealed P s ((fl @ [p]) @ [es_staging s])"
      using s2(2) by (simp only: sealed_pairs_snoc) (simp add: es_params_def)
    show thesis
    proof (rule that [of s4 "(fl @ [p]) @ [es_staging s]"])
      show "flush_tail P s = Inr s4"
        using both s2 s4(1) by (simp add: flush_tail_def)
      show "chunked (es_chunk_size s) ((fl @ [p]) @ [es_staging s])"
        using both p full st by (simp only: chunked_snoc) auto
      show "concat ((fl @ [p]) @ [es_staging s]) = es_content s fl"
        using both by (simp add: es_content_def es_pend_def)
      show "es_disk pre hk s4 (es_sealed P s ((fl @ [p]) @ [es_staging s])) ((fl @ [p]) @ [es_staging s])"
        using s4(3) seal by simp
    qed (rule par)
  qed
qed

subsection \<open>The header\<close>

lemma length_MAGIC [simp]: "length MAGIC_V3 = 4"
  by (simp add: MAGIC_V3_def)

lemma length_envelope_header [simp]:
  "length nb = 12 \<Longrightarrow> length (envelope_header ke nb len cs) = 36"
  by (simp add: envelope_header_def)

text \<open>The header, cut at the length field.\<close>

definition hdr_front :: "u32 \<Rightarrow> bytes \<Rightarrow> bytes" where
  "hdr_front ke nb = MAGIC_V3 @ to_be_u16 FORMAT_VER_V4 @ [KEM_ALG_MLKEM768] @ [AEAD_ALG_AES256GCM]
     @ to_be_u32 ke @ nb"

lemma envelope_header_cut:
  "envelope_header ke nb len cs = hdr_front ke nb @ to_be_u64 len @ to_be_u32 (of_nat cs)"
  by (simp add: envelope_header_def hdr_front_def)

lemma length_hdr_front [simp]: "length nb = 12 \<Longrightarrow> length (hdr_front ke nb) = 24"
  by (simp add: hdr_front_def)

lemma build_v3_aad_header:
  "length nb = 12 \<Longrightarrow>
   build_v3_aad (envelope_header ke nb len cs) = hdr_front ke nb @ to_be_u32 (of_nat cs)"
  by (simp add: build_v3_aad_def envelope_header_cut byte_range_def)

lemma header_fields:
  fixes ke :: u32 and nb :: bytes and len :: u64 and cs :: nat and rest :: bytes
  assumes nb: "length nb = 12"
  defines "h \<equiv> envelope_header ke nb len cs @ rest"
  shows "take 4 h = MAGIC_V3" and "hdr_version h = FORMAT_VER_V4" and "h ! 6 = KEM_ALG_MLKEM768"
    and "h ! 7 = AEAD_ALG_AES256GCM" and "hdr_key_epoch h = ke" and "hdr_nonce_base h = nb"
    and "hdr_plaintext_len h = len" and "hdr_chunk_size h = of_nat cs"
    and "take HEADER_FIXED_LEN h = envelope_header ke nb len cs"
    and "byte_range HEADER_FIXED_LEN v3_preamble_len h = take CIPHERTEXT_BYTES rest"
  using nb
  by (simp_all add: h_def hdr_version_def hdr_key_epoch_def hdr_nonce_base_def hdr_plaintext_len_def
      hdr_chunk_size_def byte_range_def envelope_header_def HEADER_FIXED_LEN_def v3_preamble_len_def
      nth_append)

subsection \<open>The writer's output\<close>

text \<open>An envelope is described by its key, its header fields and the chunks sealed in it.\<close>

definition envelope_of ::
    "crypto_prims \<Rightarrow> bytes \<Rightarrow> u32 \<Rightarrow> bytes \<Rightarrow> nat \<Rightarrow> bytes \<Rightarrow> u64 \<Rightarrow> bytes list \<Rightarrow> bytes" where
  "envelope_of P k ke nb cs kem_ct len chunks =
     envelope_header ke nb len cs @ kem_ct
     @ body_of (sealed_pairs P k nb (hdr_front ke nb @ to_be_u32 (of_nat cs)) 0 chunks)"

lemma EncryptSession_new_ok:
  assumes "kem_correct P" and "hkdf_total P" and "keypair P seed = (pk, sk)"
    and "encapsulate P pk r = (ss, kem_ct)" and "length nb = 12" and "0 < cs" and "cs < 2 ^ 32"
    and "sk_faults f = []" and "sk_pos f = length (sk_data f)" and "off = length (sk_data f)"
  obtains s k where "EncryptSession_new P r nb f pk ke bucket key off cs = Inr s"
    and "derive_content_key P ss kem_ct bucket key = Inr k"
    and "es_inv P (sk_data f) (envelope_header ke nb 0 cs @ kem_ct) s []"
    and "es_params s = (k, nb, hdr_front ke nb @ to_be_u32 (of_nat cs), off, cs, ke)"
    and "es_content s [] = []"
proof -
  obtain k where k: "derive_content_key P ss kem_ct bucket key = Inr k"
    using assms(2) unfolding hkdf_total_def derive_content_key_def by (metis ok_or.simps(2))
  note pk = kem_round_trip(1) [OF assms(1,3,4)]
  show thesis
    by (rule that)
      (use assms pk k in \<open>auto simp: EncryptSession_new_def sink_append Let_def es_inv_def es_disk_def
         es_params_def es_content_def es_pend_def build_v3_aad_header StreamChecksum_update_def
         StreamChecksum_new_def\<close>)
qed

lemma already_absorbed_content: "es_inv P pre hk s fl \<Longrightarrow> already_absorbed s = length (es_content s fl)"
  by (auto simp: already_absorbed_def es_inv_def es_disk_def es_content_def es_pend_def
      split: option.splits)

lemma finish_session_ok:
  assumes aead: "aead_correct P" and inv: "es_inv P pre (envelope_header ke nb 0 cs @ kem_ct) s fl"
    and par: "es_params s = (k, nb, hdr_front ke nb @ to_be_u32 (of_nat cs), length pre, cs, ke)"
    and nb: "length nb = 12" and len: "length (es_content s fl) \<le> 2 ^ 63"
  obtains f info chunks where "finish_session P s = Some (Inr (f, info))" and "chunked cs chunks"
    and "concat chunks = es_content s fl
      @ replicate (unat (padme_len (of_nat (length (es_content s fl)))) - length (es_content s fl)) 0"
    and "sk_data f = pre @ envelope_of P k ke nb cs kem_ct (of_nat (length (concat chunks))) chunks"
    and "ei_cipher_size info = length (envelope_of P k ke nb cs kem_ct (of_nat (length (concat chunks))) chunks)"
    and "ei_cipher_checksum_b64 info = checksum_b64 P (envelope_of P k ke nb cs kem_ct 0 chunks)"
    and "ei_key_epoch info = ke"
proof -
  let ?n = "unat (padme_len (of_nat (length (es_content s fl)))) - length (es_content s fl)"
  let ?hk = "envelope_header ke nb 0 cs @ kem_ct"
  from pad_loop_ok [OF aead inv, of ?n] obtain s1 fl1 where
    s1: "pad_loop P s ?n = Some (Inr s1)" "es_inv P pre ?hk s1 fl1" "es_params s1 = es_params s"
      "es_content s1 fl1 = es_content s fl @ replicate ?n 0" by blast
  obtain s2 chunks where s2: "flush_tail P s1 = Inr s2" "chunked (es_chunk_size s1) chunks"
    "concat chunks = es_content s1 fl1" "es_disk pre ?hk s2 (es_sealed P s1 chunks) chunks"
    "es_params s2 = es_params s1"
    using flush_tail_ok [OF aead s1(2)] .
  have p2: "es_params s2 = (k, nb, hdr_front ke nb @ to_be_u32 (of_nat cs), length pre, cs, ke)"
    and p1: "es_params s1 = (k, nb, hdr_front ke nb @ to_be_u32 (of_nat cs), length pre, cs, ke)"
    using s1(3) s2(5) par by simp_all
  define body where "body = es_sealed P s1 chunks"
  have body: "body = body_of (sealed_pairs P k nb (hdr_front ke nb @ to_be_u32 (of_nat cs)) 0 chunks)"
    using p1 by (simp add: body_def es_params_def)
  define len64 where "len64 = to_be_u64 (of_nat (length (concat chunks)))"
  have data: "sk_data (es_sink s2) = (pre @ hdr_front ke nb) @ to_be_u64 0
      @ (to_be_u32 (of_nat cs) @ kem_ct @ body)"
    using s2(4) by (simp add: es_disk_def envelope_header_cut body_def)
  have off: "es_write_offset s2 + PLAINTEXT_LEN_OFFSET = length (pre @ hdr_front ke nb)"
    using p2 nb by (simp add: es_params_def PLAINTEXT_LEN_OFFSET_def)
  have patched: "write_at (length (pre @ hdr_front ke nb)) len64 (sk_data (es_sink s2))
      = pre @ envelope_of P k ke nb cs kem_ct (of_nat (length (concat chunks))) chunks"
    unfolding data by (subst write_at_middle)
      (simp_all add: len64_def envelope_of_def envelope_header_cut body)
  have tot: "es_plaintext_total s2 = length (concat chunks)" using s2(4) by (simp add: es_disk_def)
  show thesis
  proof (rule that)
    show "finish_session P s = Some (Inr
       (let d = pre @ envelope_of P k ke nb cs kem_ct (of_nat (length (concat chunks))) chunks
        in (es_sink s2)\<lparr>sk_data := d, sk_pos := length d\<rparr>,
        \<lparr>ei_envelope_version = FORMAT_VER_V4, ei_kem_alg = KEM_ALG_NAME, ei_aead_alg = AEAD_ALG_NAME,
         ei_cipher_size = es_bytes_written s2,
         ei_cipher_checksum_b64 = finish_b64 P (es_hasher s2), ei_key_epoch = es_key_epoch s2\<rparr>))"
      using s1(1) s2(1) s2(4) off patched tot already_absorbed_content [OF inv]
      by (simp add: finish_session_def Let_def sink_write_all_at_def sink_seek_to_end_def es_disk_def
          len64_def)
    show "chunked cs chunks" using s2(2) p1 by (simp add: es_params_def)
    show "concat chunks = es_content s fl @ replicate ?n 0" using s2(3) s1(4) by simp
  qed (use s2(4) p2 nb body in \<open>simp_all add: Let_def es_disk_def envelope_of_def es_params_def
         checksum_b64_def StreamChecksum_update_def StreamChecksum_new_def body_def\<close>)
qed

subsection \<open>Reading what the writer wrote\<close>

lemma decrypt_v4_header:
  assumes nb: "length nb = 12" and ct: "length kem_ct = CIPHERTEXT_BYTES" and cs: "0 < cs" "cs < 2 ^ 32"
    and key: "open_content_key P sk kem_ct bucket key = Inr k"
  shows "decrypt P sk (envelope_header ke nb len cs @ kem_ct @ body) bucket key n =
    (let env = envelope_header ke nb len cs @ kem_ct @ body in
     rbind (chunk_loop
       (\<lambda>_ e. build_v4_aad (hdr_front ke nb @ to_be_u32 (of_nat cs)) (e = length env)) (gcm_open P k)
       nb cs env v3_preamble_len 0 [])
     (\<lambda>pt. rbind (if length pt \<noteq> unat len then Inl (Envelope ''plaintext length mismatch'') else Inr pt)
       (\<lambda>pt. finish_plaintext pt n)))"
proof -
  let ?env = "envelope_header ke nb len cs @ kem_ct @ body"
  note f = header_fields [OF nb, of ke len cs "kem_ct @ body"]
  have un: "unat (of_nat cs :: u32) = cs" using cs by (simp add: unat_of_nat)
  then have "(of_nat cs :: u32) \<noteq> 0" using cs by (metis not_less_zero unsigned_0)
  then have chk: "check_envelope FORMAT_VER_V4 ''truncated v4 envelope'' ?env = Inr ()"
    using nb ct f by (simp add: check_envelope_def v3_preamble_len_def HEADER_FIXED_LEN_def)
  have "FORMAT_VER_V4 \<noteq> FORMAT_VER_V3" by (simp add: FORMAT_VER_V3_def FORMAT_VER_V4_def)
  then have "decrypt P sk ?env bucket key n = decrypt_v4 P sk ?env bucket key n"
    using nb f by (simp add: decrypt_def Let_def)
  also have "\<dots> = (let env = ?env in rbind (chunk_loop
       (\<lambda>_ e. build_v4_aad (hdr_front ke nb @ to_be_u32 (of_nat cs)) (e = length env)) (gcm_open P k)
       nb cs env v3_preamble_len 0 [])
     (\<lambda>pt. rbind (if length pt \<noteq> unat len then Inl (Envelope ''plaintext length mismatch'') else Inr pt)
       (\<lambda>pt. finish_plaintext pt n)))"
    unfolding decrypt_v4_def chk rbind.simps Let_def f(6-10) check_plaintext_len_def
      build_v3_aad_header [OF nb] un
    using ct key by simp
  finally show ?thesis .
qed

lemma preamble_length:
  "length nb = 12 \<Longrightarrow> length kem_ct = CIPHERTEXT_BYTES \<Longrightarrow>
   length (envelope_header ke nb len cs @ kem_ct) = v3_preamble_len"
  by (simp add: v3_preamble_len_def HEADER_FIXED_LEN_def)

lemma decrypt_envelope_of:
  assumes aead: "aead_correct P" and nb: "length nb = 12" and ct: "length kem_ct = CIPHERTEXT_BYTES"
    and cs: "0 < cs" "cs < 2 ^ 32" and key: "open_content_key P sk kem_ct bucket key = Inr k"
    and chunks: "chunked cs chunks" and len: "unat len = length (concat chunks)"
    and n: "unat n \<le> length (concat chunks)"
  shows "decrypt P sk (envelope_of P k ke nb cs kem_ct len chunks) bucket key n
    = Inr (take (unat n) (concat chunks))"
proof -
  let ?base = "hdr_front ke nb @ to_be_u32 (of_nat cs)"
  let ?prs = "sealed_pairs P k nb ?base 0 chunks"
  let ?pre = "envelope_header ke nb len cs @ kem_ct"
  have small: "\<forall>c \<in> set chunks. length c < 2 ^ 32" using chunked_le [OF chunks] cs by fastforce
  have "opens (\<lambda>_ e. build_v4_aad ?base (e = length (?pre @ body_of ?prs))) (gcm_open P k) nb 0
      (length ?pre) ?prs"
    by (rule sealed_opens [OF aead small]) simp
  moreover have "cut cs ?prs" by (rule sealed_cut [OF aead cs(2) chunks])
  ultimately have "chunk_loop (\<lambda>_ e. build_v4_aad ?base (e = length (?pre @ body_of ?prs)))
      (gcm_open P k) nb cs (?pre @ body_of ?prs) (length ?pre) 0 [] = Inr ([] @ concat (map snd ?prs))"
    by (rule chunk_loop_opens)
  then show ?thesis
    using decrypt_v4_header [OF nb ct cs key, of ke len "body_of ?prs" n] n len
      preamble_length [OF nb ct, of ke len cs]
    by (simp add: envelope_of_def Let_def finish_plaintext_def)
qed

subsection \<open>Truncation\<close>

text \<open>The security law of the AEAD that the final-chunk flag rests on: a ciphertext sealed with the
  flag clear does not open with the flag set.\<close>

definition final_flag_bound :: "crypto_prims \<Rightarrow> bytes \<Rightarrow> bool" where
  "final_flag_bound P k \<longleftrightarrow> (\<forall>n base c ct.
     gcm_seal P k n (build_v4_aad base False) c = Some ct \<longrightarrow> gcm_open P k n (build_v4_aad base True) ct = None)"

lemma plain_final_flag_bound: "final_flag_bound plain_prims k"
  by (simp add: final_flag_bound_def plain_prims_def build_v4_aad_def plain_tag_def)

lemma sealed_pairs_take:
  "m < length chunks \<Longrightarrow> take m (sealed_pairs P k nb base idx chunks) = mid_pairs P k nb base idx (take m chunks)"
proof (induction P k nb base idx chunks arbitrary: m rule: sealed_pairs.induct)
  case (3 P k nb base idx c d r)
  then show ?case by (cases m) auto
qed auto

lemma chunked_full: "chunked cs chunks \<Longrightarrow> m < length chunks \<Longrightarrow> c \<in> set (take m chunks) \<Longrightarrow> length c = cs"
proof (induction cs chunks arbitrary: m rule: chunked.induct)
  case (3 cs c d r)
  then show ?case by (cases m) auto
qed auto

lemma mid_pairs_full:
  "aead_correct P \<Longrightarrow> cs < 2 ^ 32 \<Longrightarrow> \<forall>c \<in> set chunks. length c = cs \<Longrightarrow>
   \<forall>(ct, pt) \<in> set (mid_pairs P k nb base idx chunks). length ct = cs + TAG_LEN"
  by (induction chunks arbitrary: idx) (auto simp: seal_chunk_opens(2))

lemma truncated_rejected:
  assumes aead: "aead_correct P" and bound: "final_flag_bound P k" and nb: "length nb = 12"
    and ct: "length kem_ct = CIPHERTEXT_BYTES" and cs: "0 < cs" "cs < 2 ^ 32"
    and key: "open_content_key P sk kem_ct bucket key = Inr k"
    and full: "\<forall>c \<in> set (chunks @ [c]). length c = cs"
  shows "decrypt P sk (envelope_header ke nb len cs @ kem_ct
      @ body_of (mid_pairs P k nb (hdr_front ke nb @ to_be_u32 (of_nat cs)) 0 (chunks @ [c]))) bucket key n
    = Inl AuthFailed"
proof -
  let ?base = "hdr_front ke nb @ to_be_u32 (of_nat cs)"
  let ?prs = "mid_pairs P k nb ?base 0 chunks"
  let ?ct = "seal_chunk P k nb ?base (length chunks) False c"
  let ?pre = "envelope_header ke nb len cs @ kem_ct"
  let ?env = "?pre @ body_of ?prs @ ?ct"
  let ?aad = "\<lambda>(_ :: nat) e. build_v4_aad ?base (e = length ?env)"
  have small: "\<forall>c \<in> set chunks. length c < 2 ^ 32" "length c < 2 ^ 32" using full cs by auto
  have lct: "length ?ct = cs + TAG_LEN" using seal_chunk_opens(2) [OF aead small(2)] full by simp
  have "opens ?aad (gcm_open P k) nb 0 (length ?pre) ?prs"
    by (rule mid_opens [OF aead small(1)]) (use lct in \<open>auto simp: TAG_LEN_def\<close>)
  moreover have "\<forall>(ct, pt) \<in> set ?prs. length ct = cs + TAG_LEN"
    using full by (intro mid_pairs_full [OF aead cs(2)]) auto
  moreover have "gcm_open P k (chunk_nonce nb (of_nat (0 + length ?prs)))
      (?aad (0 + length ?prs) (length ?pre + length (body_of ?prs) + length ?ct)) ?ct = None"
    using bound seal_chunk_opens(1) [OF aead small(2), of k nb "length chunks" ?base False]
    by (auto simp: final_flag_bound_def add.assoc)
  ultimately have "chunk_loop ?aad (gcm_open P k) nb cs (?pre @ body_of ?prs @ ?ct) (length ?pre) 0 []
      = Inl AuthFailed"
    using lct by (intro chunk_loop_rejects) auto
  then show ?thesis
    using decrypt_v4_header [OF nb ct cs key, of ke len "body_of ?prs @ ?ct" n]
      preamble_length [OF nb ct, of ke len cs]
    by (simp add: mid_pairs_snoc Let_def)
qed

lemma empty_body_decrypt:
  assumes nb: "length nb = 12" and ct: "length kem_ct = CIPHERTEXT_BYTES" and cs: "0 < cs" "cs < 2 ^ 32"
    and key: "open_content_key P sk kem_ct bucket key = Inr k" and n: "0 < unat n"
  shows "\<exists>why. decrypt P sk (envelope_header ke nb len cs @ kem_ct) bucket key n = Inl (Envelope why)"
  using decrypt_v4_header [OF nb ct cs key, of ke len "[]" n] preamble_length [OF nb ct, of ke len cs] n
  by (auto simp: Let_def chunk_loop.simps finish_plaintext_def)

subsection \<open>Ranged reads\<close>

lemma sealed_drop:
  assumes "aead_correct P" and "cs < 2 ^ 32"
  shows "chunked cs chunks \<Longrightarrow> i < length chunks \<Longrightarrow>
    drop (i * (cs + TAG_LEN)) (body_of (sealed_pairs P k nb base idx chunks))
      = body_of (sealed_pairs P k nb base (idx + i) (drop i chunks))"
proof (induction i arbitrary: idx chunks)
  case (Suc i)
  then obtain c d r where chunks: "chunks = c # d # r"
    by (metis Suc_less_eq2 length_Suc_conv not_less_zero list.size(3) neq_Nil_conv)
  have "length (seal_chunk P k nb base idx False c) = cs + TAG_LEN"
    using seal_chunk_opens(2) [OF assms(1)] Suc.prems(1) chunks assms(2) by simp
  then show ?case using Suc.IH [of "d # r" "Suc idx"] Suc.prems chunks by (simp add: add.assoc)
qed simp

lemma sealed_take:
  assumes "aead_correct P" and "cs < 2 ^ 32"
  shows "chunked cs chunks \<Longrightarrow> j < length chunks \<Longrightarrow>
    take (j * (cs + TAG_LEN)) (body_of (sealed_pairs P k nb base idx chunks))
      = body_of (mid_pairs P k nb base idx (take j chunks))"
proof (induction j arbitrary: idx chunks)
  case (Suc j)
  then obtain c d r where chunks: "chunks = c # d # r"
    by (metis Suc_less_eq2 length_Suc_conv not_less_zero list.size(3) neq_Nil_conv)
  have "length (seal_chunk P k nb base idx False c) = cs + TAG_LEN"
    using seal_chunk_opens(2) [OF assms(1)] Suc.prems(1) chunks assms(2) by simp
  then show ?case using Suc.IH [of "d # r" "Suc idx"] Suc.prems chunks by (simp add: add.assoc)
qed simp

lemma chunked_drop: "chunked cs chunks \<Longrightarrow> chunked cs (drop i chunks)"
proof (induction cs chunks arbitrary: i rule: chunked.induct)
  case (3 cs c d r)
  then show ?case by (cases i) auto
next
  case (2 cs c)
  then show ?case by (cases i) auto
qed simp

lemma concat_drop:
  "chunked cs chunks \<Longrightarrow> i < length chunks \<Longrightarrow> drop (i * cs) (concat chunks) = concat (drop i chunks)"
proof (induction cs chunks arbitrary: i rule: chunked.induct)
  case (3 cs c d r)
  then show ?case by (cases i) auto
qed auto

lemma concat_take:
  "chunked cs chunks \<Longrightarrow> j < length chunks \<Longrightarrow> take (j * cs) (concat chunks) = concat (take j chunks)"
proof (induction cs chunks arbitrary: j rule: chunked.induct)
  case (3 cs c d r)
  then show ?case by (cases j) auto
qed auto

lemma mid_cut:
  "aead_correct P \<Longrightarrow> cs < 2 ^ 32 \<Longrightarrow> \<forall>c \<in> set chunks. length c = cs \<Longrightarrow> cut cs (mid_pairs P k nb base idx chunks)"
proof (induction chunks arbitrary: idx)
  case (Cons c ds)
  then show ?case using Cons.IH [of "Suc idx"]
    by (cases ds) (auto simp: seal_chunk_opens(2))
qed simp

lemma length_sealed_pairs: "length (sealed_pairs P k nb base idx chunks) = length chunks"
  by (induction P k nb base idx chunks rule: sealed_pairs.induct) auto

lemma cut_length: "cut cs prs \<Longrightarrow> length (body_of prs) \<le> length prs * (cs + TAG_LEN)"
  by (induction cs prs rule: cut.induct) auto

lemma concat_le: "\<forall>c \<in> set xs. length c \<le> cs \<Longrightarrow> length (concat xs) \<le> length xs * cs"
  by (induction xs) auto

text \<open>The chunks \<open>i ..< j\<close> of a sealed object, cut out of its body by offset, open as such.\<close>

lemma ranged_loop:
  fixes k nb base :: bytes
  assumes aead: "aead_correct P" and cs: "cs < 2 ^ 32" and chunks: "chunked cs chunks"
    and ij: "i < j" "j \<le> length chunks"
  defines "body \<equiv> body_of (sealed_pairs P k nb base 0 chunks)"
  shows "chunk_loop (\<lambda>idx _. build_v4_aad base (idx + 1 = length chunks)) (gcm_open P k) nb cs
      (byte_range (i * (cs + TAG_LEN)) (j * (cs + TAG_LEN)) body) 0 i []
    = Inr (byte_range (i * cs) (j * cs) (concat chunks))"
proof -
  let ?aad = "\<lambda>idx (_ :: nat). build_v4_aad base (idx + 1 = length chunks)"
  have small: "\<forall>c \<in> set (drop i chunks). length c < 2 ^ 32"
    using chunked_le [OF chunks] cs by (fastforce dest: in_set_dropD)
  have cd: "chunked cs (drop i chunks)" by (rule chunked_drop [OF chunks])
  have dr: "byte_range (i * (cs + TAG_LEN)) (j * (cs + TAG_LEN)) body
      = take ((j - i) * (cs + TAG_LEN)) (body_of (sealed_pairs P k nb base i (drop i chunks)))"
    using sealed_drop [OF aead cs chunks, of i k nb base 0] ij
    by (simp add: byte_range_def body_def diff_mult_distrib)
  have pt: "byte_range (i * cs) (j * cs) (concat chunks) = take ((j - i) * cs) (concat (drop i chunks))"
    using concat_drop [OF chunks, of i] ij by (simp add: byte_range_def diff_mult_distrib)
  consider (last) "j = length chunks" | (inner) "j < length chunks" using ij by linarith
  then show ?thesis
  proof cases
    case last
    let ?prs = "sealed_pairs P k nb base i (drop i chunks)"
    have c: "cut cs ?prs" by (rule sealed_cut [OF aead cs cd])
    have "opens ?aad (gcm_open P k) nb i (length []) ?prs"
      using ij last by (intro sealed_opens_ranged [OF aead small]) auto
    from chunk_loop_opens [OF this c, of "[]"]
    have "chunk_loop ?aad (gcm_open P k) nb cs (body_of ?prs) 0 i [] = Inr (concat (drop i chunks))"
      by simp
    moreover have "length (body_of ?prs) \<le> (j - i) * (cs + TAG_LEN)"
      using cut_length [OF c] last by (simp add: length_sealed_pairs)
    moreover have "length (concat (drop i chunks)) \<le> (j - i) * cs"
      using concat_le [of "drop i chunks" cs] chunked_le [OF cd] last by simp
    ultimately show ?thesis by (simp only: dr pt take_all)
  next
    case inner
    let ?mid = "take (j - i) (drop i chunks)"
    let ?prs = "mid_pairs P k nb base i ?mid"
    have lt: "j - i < length (drop i chunks)" using ij inner by simp
    have full: "\<forall>c \<in> set ?mid. length c = cs" using chunked_full [OF cd lt] by blast
    have c: "cut cs ?prs" by (rule mid_cut [OF aead cs full])
    have "opens ?aad (gcm_open P k) nb i (length []) ?prs"
      using ij inner full cs by (intro mid_opens [OF aead]) (auto intro!: arg_cong [of _ _ "build_v4_aad base"])
    from chunk_loop_opens [OF this c, of "[]"]
    have "chunk_loop ?aad (gcm_open P k) nb cs (body_of ?prs) 0 i [] = Inr (concat ?mid)" by simp
    then show ?thesis
      using sealed_take [OF aead cs cd lt, of k nb base i] concat_take [OF cd lt] by (simp only: dr pt)
  qed
qed

subsection \<open>Nonces and key separation\<close>

lemma map2_xor_inj:
  fixes xs ys zs :: "'a::len word list"
  shows "length ys = length xs \<Longrightarrow> length zs = length xs \<Longrightarrow> map2 (XOR) xs ys = map2 (XOR) xs zs \<longleftrightarrow> ys = zs"
proof (induction xs arbitrary: ys zs)
  case (Cons x xs)
  have "x XOR y = x XOR z \<longleftrightarrow> y = z" for y z
    by (metis xor.left_commute xor_self_eq xor.right_neutral)
  with Cons show ?case by (cases ys; cases zs) auto
qed simp

lemma len_prefixed_inj:
  assumes "length a < 2 ^ 32" and "length b < 2 ^ 32"
  shows "to_be_u32 (of_nat (length a)) @ a @ x = to_be_u32 (of_nat (length b)) @ b @ y \<longleftrightarrow> a = b \<and> x = y"
proof -
  have "unat (of_nat (length a) :: u32) = length a" "unat (of_nat (length b) :: u32) = length b"
    using assms by (simp_all add: unat_of_nat)
  then have "(of_nat (length a) :: u32) = of_nat (length b) \<longleftrightarrow> length a = length b" by metis
  then show ?thesis by (auto simp: be32.enc_append_inj)
qed

lemma finish_checksum:
  assumes "aead_correct P" and "es_inv P pre (envelope_header ke nb 0 cs @ kem_ct) s fl"
    and "es_params s = (k, nb, hdr_front ke nb @ to_be_u32 (of_nat cs), length pre, cs, ke)"
    and "length nb = 12" and "es_content s fl \<noteq> []" and "length (es_content s fl) \<le> 2 ^ 63"
  shows "\<exists>f info. finish_session P s = Some (Inr (f, info))
    \<and> (let disk = drop (length pre) (sk_data f);
           hashed = take 24 disk @ replicate 8 0 @ drop 32 disk
       in ei_cipher_checksum_b64 info = checksum_b64 P hashed \<and> hashed \<noteq> disk)"
proof -
  let ?pad = "unat (padme_len (of_nat (length (es_content s fl)))) - length (es_content s fl)"
  obtain f info chunks where fin: "finish_session P s = Some (Inr (f, info))"
    "concat chunks = es_content s fl @ replicate ?pad 0"
    "sk_data f = pre @ envelope_of P k ke nb cs kem_ct (of_nat (length (concat chunks))) chunks"
    "ei_cipher_checksum_b64 info = checksum_b64 P (envelope_of P k ke nb cs kem_ct 0 chunks)"
    using finish_session_ok [OF assms(1-4,6)] by metis
  have un: "unat (of_nat (length (es_content s fl)) :: u64) = length (es_content s fl)"
    using assms(6) by (simp add: unat_of_nat)
  have "length (es_content s fl) \<le> unat (padme_len (of_nat (length (es_content s fl))))"
    using padme_overhead(1) [of "of_nat (length (es_content s fl))"] un assms(6) by simp
  then have "length (concat chunks) = unat (padme_len (of_nat (length (es_content s fl))))"
    using fin(2) by simp
  then have "unat (of_nat (length (concat chunks)) :: u64) = length (concat chunks)" by simp
  moreover have "length (concat chunks) \<noteq> 0" using fin(2) assms(5) by simp
  ultimately have ne: "(of_nat (length (concat chunks)) :: u64) \<noteq> 0" by (metis unsigned_0)
  have zero: "to_be_u64 0 = replicate 8 0" by code_simp
  show ?thesis
    using fin ne assms(4) be64.enc_inj [of 0 "of_nat (length (concat chunks))"]
    by (auto simp: Let_def envelope_of_def envelope_header_cut zero)
qed

subsection \<open>Properties of the envelope\<close>

text \<open>What a session leaves behind a whole body: an envelope of the padded body, sealed under a content key that the owner of the
  secret key can derive.\<close>

lemma written_envelope:
  assumes laws: "aead_correct P" "kem_correct P" "hkdf_total P"
    and kp: "keypair P seed = (pk, sk)" and nb: "length nb = 12"
    and cs: "0 < cs" "cs < 2 ^ 32" and len: "length (concat parts) \<le> 2 ^ 63"
    and fl: "sk_faults f = []" "sk_pos f = length (sk_data f)"
  obtains s s' f' info kem_ct k chunks where "EncryptSession_new P rnd nb f pk ke bucket key (length (sk_data f)) cs = Inr s"
    and "feed_all P s parts = Some (Inr s')" and "finish_session P s' = Some (Inr (f', info))"
    and "chunked cs chunks" and "take (length (concat parts)) (concat chunks) = concat parts"
    and "length (concat chunks) = unat (padme_len (of_nat (length (concat parts))))" and "length (concat parts) \<le> length (concat chunks)"
    and "sk_data f' = sk_data f @ envelope_of P k ke nb cs kem_ct (of_nat (length (concat chunks))) chunks"
    and "ei_cipher_size info = length (envelope_of P k ke nb cs kem_ct (of_nat (length (concat chunks))) chunks)"
    and "length kem_ct = CIPHERTEXT_BYTES" and "open_content_key P sk kem_ct bucket key = Inr k"
    and "ei_key_epoch info = ke"
proof -
  obtain ss kem_ct where enc: "encapsulate P pk rnd = (ss, kem_ct)" by (cases "encapsulate P pk rnd")
  note kem = kem_round_trip [OF laws(2) kp enc]
  obtain s k where s: "EncryptSession_new P rnd nb f pk ke bucket key (length (sk_data f)) cs = Inr s"
    "derive_content_key P ss kem_ct bucket key = Inr k"
    "es_inv P (sk_data f) (envelope_header ke nb 0 cs @ kem_ct) s []"
    "es_params s = (k, nb, hdr_front ke nb @ to_be_u32 (of_nat cs), length (sk_data f), cs, ke)"
    "es_content s [] = []"
    using EncryptSession_new_ok [OF laws(2,3) kp enc nb cs fl refl] .
  from feed_all_ok [OF laws(1) s(3), of parts] obtain s' fl' where
    s': "feed_all P s parts = Some (Inr s')"
      "es_inv P (sk_data f) (envelope_header ke nb 0 cs @ kem_ct) s' fl'"
      "es_params s' = es_params s" "es_content s' fl' = concat parts"
    using s(5) by auto
  have par: "es_params s' = (k, nb, hdr_front ke nb @ to_be_u32 (of_nat cs), length (sk_data f), cs, ke)"
    using s'(3) s(4) by simp
  have len': "length (es_content s' fl') \<le> 2 ^ 63" using len s'(4) by simp
  let ?pad = "unat (padme_len (of_nat (length (concat parts)))) - length (concat parts)"
  obtain f' info chunks where fin: "finish_session P s' = Some (Inr (f', info))" "chunked cs chunks"
    "concat chunks = concat parts @ replicate ?pad 0"
    "sk_data f' = sk_data f @ envelope_of P k ke nb cs kem_ct (of_nat (length (concat chunks))) chunks"
    "ei_cipher_size info = length (envelope_of P k ke nb cs kem_ct (of_nat (length (concat chunks))) chunks)"
    "ei_key_epoch info = ke"
    using finish_session_ok [OF laws(1) s'(2) par nb len'] s'(4) by metis
  have un: "unat (of_nat (length (concat parts)) :: u64) = length (concat parts)"
    using len by (simp add: unat_of_nat)
  have "length (concat parts) \<le> unat (padme_len (of_nat (length (concat parts))))"
    using padme_overhead(1) [of "of_nat (length (concat parts))"] un len by simp
  then have "length (concat chunks) = unat (padme_len (of_nat (length (concat parts))))"
    using fin(3) by simp
  moreover have "open_content_key P sk kem_ct bucket key = Inr k"
    using kem s(2) by (simp add: open_content_key_def)
  ultimately show ?thesis using that s(1) s'(1) fin kem(5) by simp
qed

text \<open>C1. Whatever the way a body is cut into slices, streaming it through a session appends an
  envelope to the file that \<open>decrypt\<close> opens to exactly that body, given the bucket and key it was
  written for and its length; the loops of the writer end, and the reported size is the size of the
  envelope.\<close>

theorem encrypt_decrypt_round_trip:
  assumes laws: "aead_correct P" "kem_correct P" "hkdf_total P"
    and kp: "keypair P seed = (pk, sk)" and nb: "length nb = 12"
    and cs: "0 < cs" "cs < 2 ^ 32" and len: "length (concat parts) \<le> 2 ^ 63"
    and fl: "sk_faults f = []" "sk_pos f = length (sk_data f)"
  shows "\<exists>s s' f' info.
    EncryptSession_new P rnd nb f pk ke bucket key (length (sk_data f)) cs = Inr s
    \<and> feed_all P s parts = Some (Inr s') \<and> finish_session P s' = Some (Inr (f', info))
    \<and> take (length (sk_data f)) (sk_data f') = sk_data f
    \<and> ei_cipher_size info = length (sk_data f') - length (sk_data f)
    \<and> decrypt P sk (drop (length (sk_data f)) (sk_data f')) bucket key (of_nat (length (concat parts)))
        = Inr (concat parts)"
proof -
  obtain s s' f' info kem_ct k chunks where w: "EncryptSession_new P rnd nb f pk ke bucket key (length (sk_data f)) cs = Inr s"
    "feed_all P s parts = Some (Inr s')" "finish_session P s' = Some (Inr (f', info))"
    "chunked cs chunks" "take (length (concat parts)) (concat chunks) = concat parts"
    "length (concat chunks) = unat (padme_len (of_nat (length (concat parts))))" "length (concat parts) \<le> length (concat chunks)"
    "sk_data f' = sk_data f @ envelope_of P k ke nb cs kem_ct (of_nat (length (concat chunks))) chunks"
    "ei_cipher_size info = length (envelope_of P k ke nb cs kem_ct (of_nat (length (concat chunks))) chunks)"
    "length kem_ct = CIPHERTEXT_BYTES" "open_content_key P sk kem_ct bucket key = Inr k"
    using written_envelope [OF assms] .
  have un: "unat (of_nat (length (concat parts)) :: u64) = length (concat parts)"
    using len by (simp add: unat_of_nat)
  have clen: "unat (of_nat (length (concat chunks)) :: u64) = length (concat chunks)" using w(6) by simp
  have "decrypt P sk (envelope_of P k ke nb cs kem_ct (of_nat (length (concat chunks))) chunks) bucket key
      (of_nat (length (concat parts))) = Inr (take (unat (of_nat (length (concat parts)) :: u64)) (concat chunks))"
    by (rule decrypt_envelope_of [OF laws(1) nb w(10) cs w(11,4) clen]) (simp add: un w(7))
  then show ?thesis using w(1-3,5,8,9) by (auto simp: un)
qed

theorem encrypt_decrypt_round_trip_witness:
  "\<exists>s s' f' info.
    EncryptSession_new plain_prims [] (replicate 12 7) \<lparr>sk_data = [1, 2, 3], sk_pos = 3, sk_faults = []\<rparr>
      (replicate 1184 0) 5 ''b'' ''k'' 3 4 = Inr s
    \<and> feed_all plain_prims s [[1, 2, 3], [4, 5, 6, 7, 8, 9]] = Some (Inr s')
    \<and> finish_session plain_prims s' = Some (Inr (f', info))
    \<and> decrypt plain_prims (replicate 2400 0) (drop 3 (sk_data f')) ''b'' ''k'' 9
        = Inr [1, 2, 3, 4, 5, 6, 7, 8, 9]"
proof -
  have kp: "keypair plain_prims [] = (replicate 1184 0, replicate 2400 0)"
    by (simp add: keypair_def plain_prims_def)
  show ?thesis
    using encrypt_decrypt_round_trip [OF plain_aead_correct plain_kem_correct plain_hkdf_total kp,
        of "replicate 12 7" 4 "[[1, 2, 3], [4, 5, 6, 7, 8, 9]]"
          "\<lparr>sk_data = [1, 2, 3], sk_pos = 3, sk_faults = []\<rparr>" "[]" 5 "''b''" "''k''"]
    by (auto simp: numeral_3_eq_3)
qed

text \<open>C2. Removing whole chunks from the end of an object, and rewriting the unauthenticated length field
  to any value, is always detected: a truncated body that still holds a chunk fails authentication,
  and an emptied body cannot yield a plaintext of the authenticated size.\<close>

theorem truncation_detected:
  assumes aead: "aead_correct P" and bound: "final_flag_bound P k" and nb: "length nb = 12"
    and ct: "length kem_ct = CIPHERTEXT_BYTES" and cs: "0 < cs" "cs < 2 ^ 32"
    and key: "open_content_key P sk kem_ct bucket key = Inr k"
    and chunks: "chunked cs chunks" and m: "m < length chunks"
    and env: "env = envelope_header ke nb forged_len cs @ kem_ct
      @ body_of (take m (sealed_pairs P k nb (hdr_front ke nb @ to_be_u32 (of_nat cs)) 0 chunks))"
  shows "if m = 0 then 0 < unat n \<longrightarrow> (\<exists>why. decrypt P sk env bucket key n = Inl (Envelope why))
    else decrypt P sk env bucket key n = Inl AuthFailed"
proof (cases m)
  case 0
  then show ?thesis using empty_body_decrypt [OF nb ct cs key, of n] env by simp
next
  case (Suc l)
  then have "take m chunks = take l chunks @ [chunks ! l]" using m by (simp add: take_Suc_conv_app_nth)
  moreover have "\<forall>c \<in> set (take m chunks). length c = cs" using chunked_full [OF chunks m] by blast
  ultimately show ?thesis
    using truncated_rejected [OF aead bound nb ct cs key, of "take l chunks" "chunks ! l"] Suc m env
    by (simp add: sealed_pairs_take)
qed

theorem truncation_detected_witness:
  "decrypt plain_prims (replicate 2400 0) (envelope_header 0 (replicate 12 0) 4 4 @ replicate 1088 0
      @ body_of (take 1 (sealed_pairs plain_prims (replicate 32 0) (replicate 12 0)
          (hdr_front 0 (replicate 12 0) @ to_be_u32 4) 0 [[1, 2, 3, 4], [5, 6]]))) ''b'' ''k'' 4
    = Inl AuthFailed"
proof -
  have key: "open_content_key plain_prims (replicate 2400 0) (replicate 1088 0) ''b'' ''k''
      = Inr (replicate 32 0)"
    by (simp add: open_content_key_def SecretKey_from_bytes_def ciphertext_from_bytes_def
        derive_content_key_def SECRET_KEY_BYTES_def CIPHERTEXT_BYTES_def plain_prims_def)
  show ?thesis
    using truncation_detected [OF plain_aead_correct plain_final_flag_bound _ _ _ _ key, of "replicate 12 0" 4
        "[[1, 2, 3, 4], [5, 6]]" 1 _ 0 4 4]
    by (simp add: CIPHERTEXT_BYTES_def)
qed

text \<open>A ranged read of the chunks \<open>i ..< j\<close> needs only the ciphertext between the offsets
  \<open>i (cs + 16)\<close> and \<open>j (cs + 16)\<close> of the body and returns exactly the plaintext between \<open>i cs\<close> and
  \<open>j cs\<close>.\<close>

lemma ranged_read:
  assumes aead: "aead_correct P" and nb: "length nb = 12" and ct: "length kem_ct = CIPHERTEXT_BYTES"
    and cs: "0 < cs" "cs < 2 ^ 32" and key: "open_content_key P sk kem_ct bucket key = Inr k"
    and chunks: "chunked cs chunks" and ij: "i < j" "j \<le> length chunks"
    and body: "body = body_of (sealed_pairs P k nb (hdr_front ke nb @ to_be_u32 (of_nat cs)) 0 chunks)"
  shows "decrypt_v4_chunks P sk (envelope_header ke nb len cs @ kem_ct)
      (byte_range (i * (cs + TAG_LEN)) (j * (cs + TAG_LEN)) body) i (length chunks) bucket key
    = Inr (byte_range (i * cs) (j * cs) (concat chunks))"
proof -
  note f = header_fields [OF nb, of ke len cs kem_ct] and f0 = header_fields [OF nb, of ke len cs "[]"]
  have un: "unat (of_nat cs :: u32) = cs" using cs by (simp add: unat_of_nat)
  then have "(of_nat cs :: u32) \<noteq> 0" using cs by (metis not_less_zero unsigned_0)
  then have geo: "parse_v4_geometry (envelope_header ke nb len cs) = Inr (ke, of_nat cs, len)"
    using f0 nb by (simp add: parse_v4_geometry_def parse_geometry_def HEADER_FIXED_LEN_def)
  have pre: "\<not> length (envelope_header ke nb len cs @ kem_ct) < v3_preamble_len"
    using preamble_length [OF nb ct, of ke len cs] by simp
  show ?thesis
    unfolding decrypt_v4_chunks_def f(6,9,10) geo rbind.simps prod.case build_v3_aad_header [OF nb] un
    using pre key ct ranged_loop [OF aead cs(2) chunks ij, where k = k and nb = nb
      and base = "hdr_front ke nb @ to_be_u32 (of_nat cs)"] body by simp
qed

text \<open>C27. The zero-copy reader \<open>decrypt_owned\<close>, used by the GET path, and the borrowing reader
  \<open>decrypt\<close> return the same plaintext or the same error on every input.\<close>

theorem decrypt_owned_equiv: "decrypt_owned P sk env bucket key n = decrypt P sk env bucket key n"
  by (rule decrypt_owned_eq_decrypt)

text \<open>Padme padding never shrinks a length and adds at most 12 per cent, for every length up to
  \<open>2 ^ 63\<close>.\<close>

lemma padme_len_bounds:
  assumes "unat l \<le> 2 ^ 63"
  shows "unat l \<le> unat (padme_len l) \<and> 100 * (unat (padme_len l) - unat l) \<le> 12 * unat l"
  using padme_overhead [OF assms] by blast

text \<open>No two chunks of an object share a nonce: the nonce is injective in the chunk index.\<close>

lemma chunk_nonce_unique:
  assumes "length base = 12"
  shows "chunk_nonce base i = chunk_nonce base j \<longleftrightarrow> i = j"
  using assms map2_xor_inj [of "to_be_u64 i" "drop 4 base" "to_be_u64 j"]
  by (simp add: chunk_nonce_def be64.enc_inj)

text \<open>The content key is bound to the object's address: the key-derivation input determines the
  bucket and the key, so no two objects share one.\<close>

lemma content_key_info_inj:
  assumes "length b < 2 ^ 32" and "length k < 2 ^ 32" and "length b' < 2 ^ 32" and "length k' < 2 ^ 32"
  shows "content_key_info b k = content_key_info b' k' \<longleftrightarrow> b = b' \<and> k = k'"
  using assms len_prefixed_inj [of "as_bytes k" "as_bytes k'" "[]" "[]"]
    len_prefixed_inj [of "as_bytes b" "as_bytes b'"]
  by (simp add: content_key_info_def)

text \<open>C39. The recorded cipher checksum is the checksum of the envelope with its length field zeroed,
  not of the bytes on disk: for every non-empty body the two byte strings differ.\<close>

theorem cipher_checksum_of_placeholder:
  assumes laws: "aead_correct P" "kem_correct P" "hkdf_total P"
    and kp: "keypair P seed = (pk, sk)" and nb: "length nb = 12"
    and cs: "0 < cs" "cs < 2 ^ 32" and len: "length (concat parts) \<le> 2 ^ 63" "concat parts \<noteq> []"
    and fl: "sk_faults f = []" "sk_pos f = length (sk_data f)"
  shows "\<exists>s s' f' info.
    EncryptSession_new P rnd nb f pk ke bucket key (length (sk_data f)) cs = Inr s
    \<and> feed_all P s parts = Some (Inr s') \<and> finish_session P s' = Some (Inr (f', info))
    \<and> (let disk = drop (length (sk_data f)) (sk_data f');
           hashed = take 24 disk @ replicate 8 0 @ drop 32 disk
       in ei_cipher_checksum_b64 info = checksum_b64 P hashed \<and> hashed \<noteq> disk)"
proof -
  obtain ss kem_ct where enc: "encapsulate P pk rnd = (ss, kem_ct)" by (cases "encapsulate P pk rnd")
  obtain s k where s: "EncryptSession_new P rnd nb f pk ke bucket key (length (sk_data f)) cs = Inr s"
    "es_inv P (sk_data f) (envelope_header ke nb 0 cs @ kem_ct) s []"
    "es_params s = (k, nb, hdr_front ke nb @ to_be_u32 (of_nat cs), length (sk_data f), cs, ke)"
    "es_content s [] = []"
    using EncryptSession_new_ok [OF laws(2,3) kp enc nb cs fl refl] by metis
  from feed_all_ok [OF laws(1) s(2), of parts] obtain s' fl' where
    s': "feed_all P s parts = Some (Inr s')"
      "es_inv P (sk_data f) (envelope_header ke nb 0 cs @ kem_ct) s' fl'"
      "es_params s' = es_params s" "es_content s' fl' = concat parts"
    using s(4) by auto
  then show ?thesis
    using finish_checksum [OF laws(1) s'(2) _ nb] s s' len by auto
qed

theorem cipher_checksum_of_placeholder_witness:
  "\<exists>s s' f' info.
    EncryptSession_new plain_prims [] (replicate 12 7) \<lparr>sk_data = [], sk_pos = 0, sk_faults = []\<rparr>
      (replicate 1184 0) 5 ''b'' ''k'' 0 4 = Inr s
    \<and> feed_all plain_prims s [[1, 2, 3], [4, 5, 6]] = Some (Inr s')
    \<and> finish_session plain_prims s' = Some (Inr (f', info))
    \<and> ei_cipher_checksum_b64 info
        = checksum_b64 plain_prims (take 24 (sk_data f') @ replicate 8 0 @ drop 32 (sk_data f'))
    \<and> take 24 (sk_data f') @ replicate 8 0 @ drop 32 (sk_data f') \<noteq> sk_data f'"
proof -
  have kp: "keypair plain_prims [] = (replicate 1184 0, replicate 2400 0)"
    by (simp add: keypair_def plain_prims_def)
  show ?thesis
    using cipher_checksum_of_placeholder [OF plain_aead_correct plain_kem_correct plain_hkdf_total kp,
        of "replicate 12 7" 4 "[[1, 2, 3], [4, 5, 6]]"
          "\<lparr>sk_data = [], sk_pos = 0, sk_faults = []\<rparr>" "[]" 5 "''b''" "''k''"]
    by (simp add: Let_def)
qed

end
