(* ===== verification/Lock_Registry.thy ===== *)
theory Lock_Registry
  imports Core_Types
begin

text \<open>
  The in-memory write-lock registry of \<open>crates/y2q-core/src/storage/locks.rs\<close>. The shared \<open>DashMap\<close> is
  the registry state; a \<open>LockGuard\<close> is the key it was issued for, and dropping it removes that key.
  \<open>lock_step\<close> interleaves the operations of concurrent requests: its state pairs the registry with the
  multiset of guards that are alive (a list, newest first). The lemmas show mutual exclusion as long
  as no lock is cleared by force, and what clearing a stale lock of a live writer leads to.
\<close>

type_synonym lock_key = "string \<times> string"
type_synonym lock_registry = "(lock_key, time) dmap"

record stale_lock =
  sl_bucket :: string
  sl_key :: string
  sl_locked_since :: time

definition LockRegistry_new :: lock_registry where
  "LockRegistry_new = []"

definition try_acquire :: "lock_registry \<Rightarrow> time \<Rightarrow> string \<Rightarrow> string \<Rightarrow> error + (lock_registry \<times> lock_key)" where
  "try_acquire m now bucket key =
     (let k = (bucket, key) in
      case dm_get m k of
        None \<Rightarrow> Inr (dm_insert k now m, k)
      | Some since \<Rightarrow> Inl (Locked bucket key since))"

definition guard_drop :: "lock_registry \<Rightarrow> lock_key \<Rightarrow> lock_registry" where
  "guard_drop m k = dm_remove k m"

definition check_not_locked :: "lock_registry \<Rightarrow> string \<Rightarrow> string \<Rightarrow> error + unit" where
  "check_not_locked m bucket key =
     (case dm_get m (bucket, key) of Some since \<Rightarrow> Inl (Locked bucket key since) | None \<Rightarrow> Inr ())"

definition list_stale :: "lock_registry \<Rightarrow> time \<Rightarrow> stale_lock list" where
  "list_stale m older_than =
     map (\<lambda>((b, k), t). \<lparr>sl_bucket = b, sl_key = k, sl_locked_since = t\<rparr>) (filter (\<lambda>(k, t). t < older_than) m)"

text \<open>The removal loop counts the keys that are still present when it reaches them.\<close>

fun remove_counting :: "'k list \<Rightarrow> ('k, 'v) dmap \<Rightarrow> nat \<Rightarrow> ('k, 'v) dmap \<times> nat" where
  "remove_counting [] m n = (m, n)"
| "remove_counting (k # ks) m n =
     remove_counting ks (dm_remove k m) (if dm_get m k \<noteq> None then n + 1 else n)"

definition clear_stale :: "lock_registry \<Rightarrow> time \<Rightarrow> lock_registry \<times> nat" where
  "clear_stale m older_than = remove_counting (dm_keys_where (\<lambda>k t. t < older_than) m) m 0"

subsection \<open>Interleavings of requests\<close>

record lock_state =
  ls_registry :: lock_registry
  ls_guards :: "lock_key list"

datatype lock_event =
    Acquire time string string
  | Drop lock_key
  | ClearStale time

inductive lock_step :: "lock_state \<Rightarrow> lock_event \<Rightarrow> lock_state \<Rightarrow> bool" where
  acquire: "try_acquire (ls_registry s) now b k = Inr (m, g) \<Longrightarrow>
    lock_step s (Acquire now b k) \<lparr>ls_registry = m, ls_guards = g # ls_guards s\<rparr>"
| refuse: "try_acquire (ls_registry s) now b k = Inl e \<Longrightarrow> lock_step s (Acquire now b k) s"
| drop: "g \<in> set (ls_guards s) \<Longrightarrow>
    lock_step s (Drop g) \<lparr>ls_registry = guard_drop (ls_registry s) g, ls_guards = remove1 g (ls_guards s)\<rparr>"
| clear: "lock_step s (ClearStale t) (s\<lparr>ls_registry := fst (clear_stale (ls_registry s) t)\<rparr>)"

inductive_cases lock_step_Acquire: "lock_step s (Acquire now b k) s'"
inductive_cases lock_step_Drop: "lock_step s (Drop g) s'"
inductive_cases lock_step_Clear: "lock_step s (ClearStale t) s'"

inductive lock_run :: "lock_event list \<Rightarrow> lock_state \<Rightarrow> bool" where
  start: "lock_run [] \<lparr>ls_registry = LockRegistry_new, ls_guards = []\<rparr>"
| step: "lock_run es s \<Longrightarrow> lock_step s e s' \<Longrightarrow> lock_run (es @ [e]) s'"

fun is_clear :: "lock_event \<Rightarrow> bool" where
  "is_clear (ClearStale t) = True"
| "is_clear e = False"

definition lock_inv :: "lock_state \<Rightarrow> bool" where
  "lock_inv s \<longleftrightarrow> dm_inv (ls_registry s) \<and> distinct (ls_guards s)
     \<and> (\<forall>k. (k \<in> set (ls_guards s)) = (dm_get (ls_registry s) k \<noteq> None))"

lemma try_acquire_Inr:
  "try_acquire m now b k = Inr (m', g) \<longleftrightarrow> dm_get m (b, k) = None \<and> g = (b, k) \<and> m' = dm_insert (b, k) now m"
  by (auto simp: try_acquire_def Let_def split: option.splits)

lemma try_acquire_Inl:
  "try_acquire m now b k = Inl e \<longleftrightarrow> (\<exists>since. dm_get m (b, k) = Some since \<and> e = Locked b k since)"
  by (auto simp: try_acquire_def Let_def split: option.splits)

lemma lock_step_inv: "lock_step s e s' \<Longrightarrow> \<not> is_clear e \<Longrightarrow> lock_inv s \<Longrightarrow> lock_inv s'"
  by (induction rule: lock_step.induct)
    (auto simp: lock_inv_def try_acquire_Inr guard_drop_def distinct_remove1)

lemma lock_run_inv: "lock_run es s \<Longrightarrow> \<forall>e \<in> set es. \<not> is_clear e \<Longrightarrow> lock_inv s"
  by (induction rule: lock_run.induct)
    (auto simp: lock_inv_def LockRegistry_new_def dest: lock_step_inv)

text \<open>The acquisition of a run that was granted the key and whose guard is still alive, by its time.\<close>

definition issued :: "lock_event list \<Rightarrow> string \<Rightarrow> string \<Rightarrow> time \<Rightarrow> bool" where
  "issued es b k since \<longleftrightarrow> (\<exists>xs ys s. es = xs @ Acquire since b k # ys \<and> lock_run xs s \<and> (b, k) \<notin> set (ls_guards s)
     \<and> Drop (b, k) \<notin> set ys)"

lemma issued_later: "issued es b k since \<Longrightarrow> e \<noteq> Drop (b, k) \<Longrightarrow> issued (es @ [e]) b k since"
  unfolding issued_def by fastforce

lemma lock_run_issued:
  "lock_run es s \<Longrightarrow> \<forall>e \<in> set es. \<not> is_clear e \<Longrightarrow> dm_get (ls_registry s) (b, k) = Some since \<Longrightarrow> issued es b k since"
proof (induction rule: lock_run.induct)
  case (step es s e s')
  have inv: "lock_inv s" using step.prems(1) step.hyps(1) by (intro lock_run_inv) auto
  have old: "dm_get (ls_registry s) (b, k) = Some since \<Longrightarrow> issued es b k since" using step.IH step.prems(1) by auto
  show ?case
    using step.hyps(2)
  proof (cases rule: lock_step.cases)
    case (acquire now b' k' m g)
    then have m: "dm_get (ls_registry s) (b', k') = None" "m = dm_insert (b', k') now (ls_registry s)" by (simp_all add: try_acquire_Inr)
    show ?thesis
    proof (cases "(b', k') = (b, k)")
      case True
      then have "now = since" "(b, k) \<notin> set (ls_guards s)" using step.prems(2) acquire m inv by (auto simp: lock_inv_def)
      then show ?thesis using True acquire step.hyps(1) unfolding issued_def by (intro exI [of _ es] exI [of _ "[]"] exI [of _ s]) simp
    qed (use step.prems(2) acquire m inv old in \<open>auto simp: lock_inv_def intro!: issued_later\<close>)
  next
    case (drop g)
    then show ?thesis using step.prems(2) inv old by (cases "g = (b, k)") (auto simp: guard_drop_def lock_inv_def intro!: issued_later)
  qed (use step.prems old in \<open>auto intro!: issued_later\<close>)
qed (simp add: LockRegistry_new_def)

lemma remove_counting_spec:
  "dm_inv m \<Longrightarrow> distinct ks \<Longrightarrow> \<forall>k \<in> set ks. dm_get m k \<noteq> None \<Longrightarrow>
   remove_counting ks m n = (dm_remove_all ks m, n + length ks)"
proof (induction ks arbitrary: m n)
  case (Cons k ks)
  have "\<forall>k' \<in> set ks. dm_get (dm_remove k m) k' \<noteq> None" using Cons.prems by auto
  then show ?case using Cons by (auto simp: dm_remove_all_def)
qed (simp add: dm_remove_all_def)

subsection \<open>Properties of the lock registry\<close>

text \<open>C28. Mutual exclusion: whatever the interleaving of acquisitions and drops, no key has two live
  guards, and a new acquisition succeeds exactly when no guard for the key is alive. Where a guard is alive, the
  acquisition and the check are refused with the time at which the guard was issued: the time of the acquisition of the
  run that found the key free and whose guard has not been dropped since.\<close>

theorem lock_mutual_exclusion:
  assumes "lock_run es s" and "\<forall>e \<in> set es. \<not> is_clear e"
  shows "distinct (ls_guards s)
    \<and> (is_ok (try_acquire (ls_registry s) now b k) \<longleftrightarrow> (b, k) \<notin> set (ls_guards s))
    \<and> (check_not_locked (ls_registry s) b k = Inr () \<longleftrightarrow> (b, k) \<notin> set (ls_guards s))
    \<and> ((b, k) \<in> set (ls_guards s) \<longrightarrow> (\<exists>since. issued es b k since \<and> try_acquire (ls_registry s) now b k = Inl (Locked b k since) \<and> check_not_locked (ls_registry s) b k = Inl (Locked b k since)))"
proof -
  note inv = lock_run_inv [OF assms]
  have "\<exists>since. issued es b k since \<and> dm_get (ls_registry s) (b, k) = Some since" if "(b, k) \<in> set (ls_guards s)"
    using that inv lock_run_issued [OF assms] by (auto simp: lock_inv_def)
  then show ?thesis
    using inv by (auto simp: lock_inv_def is_ok_iff try_acquire_def check_not_locked_def Let_def split: option.splits)
qed

theorem lock_mutual_exclusion_witness:
  "\<exists>s. lock_run [Acquire 1 ''b'' ''k''] s \<and> \<not> is_ok (try_acquire (ls_registry s) 2 ''b'' ''k'')
     \<and> (\<exists>since. issued [Acquire 1 ''b'' ''k''] ''b'' ''k'' since \<and> try_acquire (ls_registry s) 2 ''b'' ''k'' = Inl (Locked ''b'' ''k'' since))"
proof -
  let ?s = "\<lparr>ls_registry = [((''b'', ''k''), 1)], ls_guards = [(''b'', ''k'')]\<rparr>"
  have "lock_step \<lparr>ls_registry = LockRegistry_new, ls_guards = []\<rparr> (Acquire 1 ''b'' ''k'') ?s"
    using lock_step.acquire [of "\<lparr>ls_registry = LockRegistry_new, ls_guards = []\<rparr>" 1 "''b''" "''k''"
        "[((''b'', ''k''), 1)]" "(''b'', ''k'')"]
    by (simp add: try_acquire_Inr LockRegistry_new_def)
  from lock_run.step [OF lock_run.start this] have r: "lock_run [Acquire 1 ''b'' ''k''] ?s" by simp
  show ?thesis using lock_mutual_exclusion [OF r, of 2 "''b''" "''k''"] r by auto
qed

text \<open>Clearing stale locks removes exactly the locks older than the threshold, keeps all others, and
  returns how many it removed, which is the number \<open>list_stale\<close> reports.\<close>

lemma clear_stale_spec:
  assumes "dm_inv m"
  shows "(\<forall>k. dm_get (fst (clear_stale m t)) k =
      (case dm_get m k of None \<Rightarrow> None | Some since \<Rightarrow> if since < t then None else Some since))
    \<and> snd (clear_stale m t) = length (list_stale m t) \<and> dm_inv (fst (clear_stale m t))"
proof -
  have "clear_stale m t = (dm_remove_all (dm_keys_where (\<lambda>k t'. t' < t) m) m,
      length (dm_keys_where (\<lambda>k t'. t' < t) m))"
    unfolding clear_stale_def using assms
    by (subst remove_counting_spec) (auto simp: dm_keys_where_distinct dm_keys_where_mem)
  then show ?thesis
    using assms by (simp add: dm_get_remove_where) (simp add: dm_keys_where_def list_stale_def)
qed

text \<open>C40. A lock cleared by force while its writer is alive is not only lost: when that writer finishes, the
  drop of its guard releases the lock of the writer that took the key over, so a third writer
  enters while the second is still alive.\<close>

theorem cleared_guard_releases_successor:
  assumes "t\<^sub>1 < threshold"
  shows "\<exists>s. lock_run [Acquire t\<^sub>1 b k, ClearStale threshold, Acquire t\<^sub>2 b k, Drop (b, k)] s
    \<and> ls_guards s = [(b, k)] \<and> is_ok (try_acquire (ls_registry s) t\<^sub>3 b k)"
proof -
  let ?s1 = "\<lparr>ls_registry = [((b, k), t\<^sub>1)], ls_guards = [(b, k)]\<rparr>"
  let ?s2 = "\<lparr>ls_registry = [], ls_guards = [(b, k)]\<rparr>"
  let ?s3 = "\<lparr>ls_registry = [((b, k), t\<^sub>2)], ls_guards = [(b, k), (b, k)]\<rparr>"
  let ?s4 = "\<lparr>ls_registry = [], ls_guards = [(b, k)]\<rparr>"
  have "lock_step \<lparr>ls_registry = LockRegistry_new, ls_guards = []\<rparr> (Acquire t\<^sub>1 b k) ?s1"
    by (rule lock_step.intros(1) [of "\<lparr>ls_registry = LockRegistry_new, ls_guards = []\<rparr>", simplified])
      (simp add: try_acquire_Inr LockRegistry_new_def)
  from lock_run.step [OF lock_run.start this] have r1: "lock_run [Acquire t\<^sub>1 b k] ?s1" by simp
  have "lock_step ?s1 (ClearStale threshold) ?s2"
    using lock_step.clear [of ?s1 threshold] assms by (simp add: clear_stale_def dm_keys_where_def)
  from lock_run.step [OF r1 this] have r2: "lock_run [Acquire t\<^sub>1 b k, ClearStale threshold] ?s2" by simp
  have "lock_step ?s2 (Acquire t\<^sub>2 b k) ?s3"
    using lock_step.acquire [of ?s2 t\<^sub>2 b k "[((b, k), t\<^sub>2)]" "(b, k)"] by (simp add: try_acquire_Inr)
  from lock_run.step [OF r2 this]
  have r3: "lock_run [Acquire t\<^sub>1 b k, ClearStale threshold, Acquire t\<^sub>2 b k] ?s3" by simp
  have "lock_step ?s3 (Drop (b, k)) ?s4"
    using lock_step.drop [of "(b, k)" ?s3] by (simp add: guard_drop_def)
  from lock_run.step [OF r3 this] show ?thesis
    by (intro exI [of _ ?s4]) (simp add: try_acquire_def Let_def)
qed

theorem cleared_guard_releases_successor_witness:
  "\<exists>s. lock_run [Acquire 1 ''b'' ''k'', ClearStale 10, Acquire 11 ''b'' ''k'', Drop (''b'', ''k'')] s
    \<and> ls_guards s = [(''b'', ''k'')] \<and> is_ok (try_acquire (ls_registry s) 12 ''b'' ''k'')"
  using cleared_guard_releases_successor [of 1 10] by simp

end
