(* ===== verification/Node_Keys.thy ===== *)
theory Node_Keys
  imports Crypto_Prims
begin

text \<open>
  The keys derived from the node key and the sealing of metadata blobs,
  \<open>crates/y2q-core/src/crypto/node_keys.rs\<close>. The guarded buffer of a slot is the concatenation of the
  five derived keys; reading it back fails only when the slot is empty (the page-protection call that
  can also make it fail is an operating-system effect).
\<close>

subsection \<open>Derived keys\<close>

definition INDEX_FILE_KEY_LABEL :: bytes where "INDEX_FILE_KEY_LABEL = as_bytes ''y2q/v3/index-file-key''"
definition USER_STORE_FILE_KEY_LABEL :: bytes where "USER_STORE_FILE_KEY_LABEL = as_bytes ''y2q/v3/user-store-file-key''"
definition INDEX_KEY_LABEL :: bytes where "INDEX_KEY_LABEL = as_bytes ''y2q/v3/index-key''"
definition PATH_KEY_LABEL :: bytes where "PATH_KEY_LABEL = as_bytes ''y2q/v3/path-key''"
definition OBJECT_METADATA_KEY_LABEL :: bytes where "OBJECT_METADATA_KEY_LABEL = as_bytes ''y2q/v3/object-metadata-key''"
definition BUCKET_CONFIG_KEY_LABEL :: bytes where "BUCKET_CONFIG_KEY_LABEL = as_bytes ''y2q/v3/bucket-config-key''"
definition NODE_KEY_VERIFIER_LABEL :: bytes where "NODE_KEY_VERIFIER_LABEL = as_bytes ''y2q/v3/node-key-verifier''"
definition CONTAINER_HEADER_KEY_LABEL :: bytes where "CONTAINER_HEADER_KEY_LABEL = as_bytes ''y2q/v3/container-header-key''"

definition prf_hmac :: "crypto_prims \<Rightarrow> bytes \<Rightarrow> bytes \<Rightarrow> bytes" where
  "prf_hmac P key data = hmac_sha256 P key data"

definition derive_index_file_key :: "crypto_prims \<Rightarrow> bytes \<Rightarrow> bytes" where
  "derive_index_file_key P nk = prf_hmac P nk INDEX_FILE_KEY_LABEL"

definition derive_user_store_file_key :: "crypto_prims \<Rightarrow> bytes \<Rightarrow> bytes" where
  "derive_user_store_file_key P nk = prf_hmac P nk USER_STORE_FILE_KEY_LABEL"

definition derive_index_key :: "crypto_prims \<Rightarrow> bytes \<Rightarrow> bytes" where
  "derive_index_key P nk = prf_hmac P nk INDEX_KEY_LABEL"

definition derive_path_key :: "crypto_prims \<Rightarrow> bytes \<Rightarrow> bytes" where
  "derive_path_key P nk = prf_hmac P nk PATH_KEY_LABEL"

definition derive_object_metadata_key :: "crypto_prims \<Rightarrow> bytes \<Rightarrow> bytes" where
  "derive_object_metadata_key P nk = prf_hmac P nk OBJECT_METADATA_KEY_LABEL"

definition derive_bucket_config_key :: "crypto_prims \<Rightarrow> bytes \<Rightarrow> bytes" where
  "derive_bucket_config_key P nk = prf_hmac P nk BUCKET_CONFIG_KEY_LABEL"

definition derive_node_key_verifier :: "crypto_prims \<Rightarrow> bytes \<Rightarrow> bytes" where
  "derive_node_key_verifier P nk = prf_hmac P nk NODE_KEY_VERIFIER_LABEL"

definition derive_container_header_key :: "crypto_prims \<Rightarrow> bytes \<Rightarrow> bytes" where
  "derive_container_header_key P nk = prf_hmac P nk CONTAINER_HEADER_KEY_LABEL"

type_synonym node_key_slot = "bytes option"

definition IDX_INDEX_KEY :: nat where "IDX_INDEX_KEY = 0"
definition IDX_PATH_KEY :: nat where "IDX_PATH_KEY = 32"
definition IDX_OBJECT_METADATA_KEY :: nat where "IDX_OBJECT_METADATA_KEY = 64"
definition IDX_BUCKET_CONFIG_KEY :: nat where "IDX_BUCKET_CONFIG_KEY = 96"
definition IDX_CONTAINER_HEADER_KEY :: nat where "IDX_CONTAINER_HEADER_KEY = 128"

definition NodeKeySlot_new :: node_key_slot where "NodeKeySlot_new = None"

text \<open>Each derived key is copied to its place in the zeroed 160-byte buffer.\<close>

definition install :: "crypto_prims \<Rightarrow> bytes \<Rightarrow> node_key_slot" where
  "install P nk =
     (let concat0 = replicate 160 0;
          concat1 = write_at IDX_INDEX_KEY (derive_index_key P nk) concat0;
          concat2 = write_at IDX_PATH_KEY (derive_path_key P nk) concat1;
          concat3 = write_at IDX_OBJECT_METADATA_KEY (derive_object_metadata_key P nk) concat2;
          concat4 = write_at IDX_BUCKET_CONFIG_KEY (derive_bucket_config_key P nk) concat3;
          concat5 = write_at IDX_CONTAINER_HEADER_KEY (derive_container_header_key P nk) concat4
      in Some concat5)"

definition key_at :: "node_key_slot \<Rightarrow> nat \<Rightarrow> bytes option" where
  "key_at slot offset = map_option (\<lambda>buf. take 32 (drop offset buf)) slot"

definition index_key :: "node_key_slot \<Rightarrow> bytes option" where "index_key slot = key_at slot IDX_INDEX_KEY"
definition path_key :: "node_key_slot \<Rightarrow> bytes option" where "path_key slot = key_at slot IDX_PATH_KEY"
definition object_metadata_key :: "node_key_slot \<Rightarrow> bytes option" where
  "object_metadata_key slot = key_at slot IDX_OBJECT_METADATA_KEY"
definition bucket_config_key :: "node_key_slot \<Rightarrow> bytes option" where
  "bucket_config_key slot = key_at slot IDX_BUCKET_CONFIG_KEY"
definition container_header_key :: "node_key_slot \<Rightarrow> bytes option" where
  "container_header_key slot = key_at slot IDX_CONTAINER_HEADER_KEY"
definition is_set :: "node_key_slot \<Rightarrow> bool" where "is_set slot \<longleftrightarrow> slot \<noteq> None"

subsection \<open>Sealed metadata\<close>

definition VERSION_BYTE :: byte where "VERSION_BYTE = 0x01"
definition VERSION_BYTE_PADDED :: byte where "VERSION_BYTE_PADDED = 0x02"
definition NONCE_LEN :: nat where "NONCE_LEN = 12"
definition MIN_ENCRYPTED_LEN :: nat where "MIN_ENCRYPTED_LEN = 1 + NONCE_LEN + 16"
definition MIN_ENCRYPTED_PADDED_LEN :: nat where "MIN_ENCRYPTED_PADDED_LEN = 1 + NONCE_LEN + 4 + 16"
definition META_PAD_BLOCK :: nat where "META_PAD_BLOCK = 4096"
definition BUCKET_CONFIG_PAD_BLOCK :: nat where "BUCKET_CONFIG_PAD_BLOCK = 65536"

text \<open>\<open>usize::next_multiple_of\<close>, for a divisor above zero.\<close>

definition next_multiple_of :: "nat \<Rightarrow> nat \<Rightarrow> nat" where
  "next_multiple_of n d = (if n mod d = 0 then n else n + (d - n mod d))"

text \<open>\<open>nonce\<close> is the random nonce the call draws.\<close>

definition encrypt_meta :: "crypto_prims \<Rightarrow> bytes \<Rightarrow> bytes \<Rightarrow> bytes \<Rightarrow> string \<Rightarrow> nat \<Rightarrow> crypto_error + bytes" where
  "encrypt_meta P nonce omk json object_id pad_block =
     (let len_prefixed = 4 + length json;
          padded_len = (if 1 < pad_block then next_multiple_of len_prefixed pad_block else len_prefixed) in
      if 2 ^ 32 \<le> length json then Inl (Envelope ''metadata too large to seal'') else
      let plain = to_be_u32 (of_nat (length json)) @ json @ replicate (padded_len - len_prefixed) 0 in
      rbind (ok_or (gcm_seal P omk nonce (as_bytes object_id) plain) (Aead ''metadata encrypt'')) (\<lambda>ct.
      Inr ([VERSION_BYTE_PADDED] @ nonce @ ct)))"

definition decrypt_meta :: "crypto_prims \<Rightarrow> bytes \<Rightarrow> bytes \<Rightarrow> string \<Rightarrow> crypto_error + bytes" where
  "decrypt_meta P omk blob object_id =
     rbind (case blob of
              [] \<Rightarrow> Inl (Envelope ''unrecognized metadata format'')
            | v # _ \<Rightarrow> if v = VERSION_BYTE then Inr False
                       else if v = VERSION_BYTE_PADDED then Inr True
                       else Inl (Envelope ''unrecognized metadata format'')) (\<lambda>padded.
     if length blob < (if padded then MIN_ENCRYPTED_PADDED_LEN else MIN_ENCRYPTED_LEN)
     then Inl (Envelope ''metadata blob too short for decryption'') else
     rbind (ok_or (gcm_open P omk (take NONCE_LEN (drop 1 blob)) (as_bytes object_id) (drop (1 + NONCE_LEN) blob)) AuthFailed)
       (\<lambda>plain.
     if \<not> padded then Inr plain else
     if length plain < 4 then Inl (Envelope ''padded metadata too short'') else
     let declared = unat (from_be_u32 (take 4 plain)) in
     if length plain - 4 < declared then Inl (Envelope ''metadata length prefix out of range'') else
     Inr (take declared (drop 4 plain))))"

subsection \<open>Laws\<close>

text \<open>HMAC-SHA256 returns 32 bytes.\<close>

definition hmac_len :: "crypto_prims \<Rightarrow> bool" where
  "hmac_len P \<longleftrightarrow> (\<forall>k m. length (hmac_sha256 P k m) = 32)"

lemma plain_hmac_len: "hmac_len plain_prims"
  by (auto simp: hmac_len_def plain_prims_def)

lemma install_keys:
  assumes "hmac_len P"
  shows "index_key (install P nk) = Some (derive_index_key P nk)"
    and "path_key (install P nk) = Some (derive_path_key P nk)"
    and "object_metadata_key (install P nk) = Some (derive_object_metadata_key P nk)"
    and "bucket_config_key (install P nk) = Some (derive_bucket_config_key P nk)"
    and "container_header_key (install P nk) = Some (derive_container_header_key P nk)"
proof -
  have len: "length (prf_hmac P k l) = 32" for k l using assms by (simp add: hmac_len_def prf_hmac_def)
  note defs = install_def key_at_def write_at_def IDX_INDEX_KEY_def IDX_PATH_KEY_def IDX_OBJECT_METADATA_KEY_def
    IDX_BUCKET_CONFIG_KEY_def IDX_CONTAINER_HEADER_KEY_def derive_index_key_def derive_path_key_def
    derive_object_metadata_key_def derive_bucket_config_key_def derive_container_header_key_def
  show "index_key (install P nk) = Some (derive_index_key P nk)"
    and "path_key (install P nk) = Some (derive_path_key P nk)"
    and "object_metadata_key (install P nk) = Some (derive_object_metadata_key P nk)"
    and "bucket_config_key (install P nk) = Some (derive_bucket_config_key P nk)"
    and "container_header_key (install P nk) = Some (derive_container_header_key P nk)"
    by (simp_all add: index_key_def path_key_def object_metadata_key_def bucket_config_key_def
        container_header_key_def defs len)
qed

lemma next_multiple_of_ge: "n \<le> next_multiple_of n d"
  by (simp add: next_multiple_of_def)

lemma next_multiple_of_dvd: "0 < d \<Longrightarrow> d dvd next_multiple_of n d"
proof (cases "n mod d = 0")
  case False
  assume d: "0 < d"
  have "n + (d - n mod d) = d * (n div d) + d"
    using mult_div_mod_eq [of d n] mod_less_divisor [OF d, of n] by linarith
  then show ?thesis using False by (simp add: next_multiple_of_def)
qed (simp add: next_multiple_of_def dvd_eq_mod_eq_0)

lemma next_multiple_of_less: "0 < d \<Longrightarrow> next_multiple_of n d < n + d"
  by (auto simp: next_multiple_of_def)

text \<open>What was sealed for an object opens for that object, whatever the padding.\<close>

lemma meta_round_trip:
  assumes P: "aead_correct P" and nonce: "length nonce = 12" and len: "length json + pad_block + 4 < 2 ^ 32"
  obtains blob where "encrypt_meta P nonce omk json oid pad_block = Inr blob"
    and "decrypt_meta P omk blob oid = Inr json" and "MIN_ENCRYPTED_PADDED_LEN \<le> length blob"
    and "length blob = 29 + (if 1 < pad_block then next_multiple_of (4 + length json) pad_block else 4 + length json)"
proof -
  define padded where "padded = (if 1 < pad_block then next_multiple_of (4 + length json) pad_block else 4 + length json)"
  have pd: "4 + length json \<le> padded" "padded < 2 ^ 32"
    using next_multiple_of_less [of pad_block "4 + length json"] len
    by (auto simp: padded_def intro: next_multiple_of_ge order.strict_trans2)
  let ?plain = "to_be_u32 (of_nat (length json)) @ json @ replicate (padded - (4 + length json)) 0"
  have pl: "length ?plain = padded" using pd by simp
  obtain c where c: "gcm_seal P omk nonce (as_bytes oid) ?plain = Some c" "length c = length ?plain + TAG_LEN"
    "gcm_open P omk nonce (as_bytes oid) c = Some ?plain"
    using aead_correctE [OF P, of ?plain] pl pd(2) by metis
  have n: "unat (of_nat (length json) :: u32) = length json" using len by (simp add: unat_of_nat)
  show thesis
  proof (rule that [of "[VERSION_BYTE_PADDED] @ nonce @ c"])
    show "encrypt_meta P nonce omk json oid pad_block = Inr ([VERSION_BYTE_PADDED] @ nonce @ c)"
      using c(1) len by (simp add: encrypt_meta_def Let_def padded_def)
    show "length ([VERSION_BYTE_PADDED] @ nonce @ c) = 29 + (if 1 < pad_block then next_multiple_of (4 + length json) pad_block else 4 + length json)"
      using c(2) pl nonce by (simp add: TAG_LEN_def padded_def)
    then show "MIN_ENCRYPTED_PADDED_LEN \<le> length ([VERSION_BYTE_PADDED] @ nonce @ c)"
      using pd(1) unfolding padded_def by (simp add: MIN_ENCRYPTED_PADDED_LEN_def NONCE_LEN_def)
    then show "decrypt_meta P omk ([VERSION_BYTE_PADDED] @ nonce @ c) oid = Inr json"
      using c(3) nonce n pd
      by (simp add: decrypt_meta_def VERSION_BYTE_PADDED_def VERSION_BYTE_def NONCE_LEN_def Let_def)
  qed
qed

end
