(* ===== verification/Encrypted_Backend.thy ===== *)
theory Encrypted_Backend
  imports Node_Keys
begin

text \<open>
  The encrypted file under the metadata index and the account store,
  \<open>crates/y2q-core/src/storage/encrypted_backend.rs\<close>: fixed-size blocks, each sealed under a nonce made
  of an epoch that every open advances and a sequence number, behind a sealed header.

  The file is its bytes. Every system call consults \<open>eb_faults\<close>: a head \<open>Some (msg, k)\<close> makes it fail, a
  write after \<open>k\<close> bytes; an empty list means no further failure. Lengths, offsets, epoch and sequence
  are natural numbers; the fields that are stored in 48 bits are cut to their width where the source
  cuts them. \<open>eb_nonces\<close> is a ghost field, the nonces drawn so far, that no operation reads.
\<close>

subsection \<open>Constants and system calls\<close>

definition BLOCK_SIZE :: nat where "BLOCK_SIZE = 4096"
definition PHYS_BLOCK :: nat where "PHYS_BLOCK = NONCE_LEN + BLOCK_SIZE + TAG_LEN"
definition IDX_MAGIC :: bytes where "IDX_MAGIC = as_bytes ''Y2QIDX01''"
definition FORMAT_VERSION :: byte where "FORMAT_VERSION = 2"
definition LEGACY_VERSION_TAG :: byte where "LEGACY_VERSION_TAG = 0"
definition FLAG_RESEAL_PENDING :: byte where "FLAG_RESEAL_PENDING = 1"
definition HEADER_PLAINTEXT_LEN :: nat where "HEADER_PLAINTEXT_LEN = 16"
definition HEADER_PHYS :: nat where "HEADER_PHYS = 8 + NONCE_LEN + HEADER_PLAINTEXT_LEN + TAG_LEN"
definition MAX_U48 :: nat where "MAX_U48 = 2 ^ 48 - 1"

definition block_phys_offset :: "nat \<Rightarrow> nat" where
  "block_phys_offset idx = HEADER_PHYS + idx * PHYS_BLOCK"

datatype foreign_file = Recreate | Reject

record eb_inner =
  eb_file :: bytes
  eb_logical_len :: nat
  eb_phys_len :: nat
  eb_epoch :: nat
  eb_seq :: nat
  eb_faults :: "(string \<times> nat) option list"
  eb_nonces :: "bytes list"

type_synonym 'a eb_comp = "(eb_inner, io_error, 'a) comp"

definition next_fault :: "eb_inner \<Rightarrow> (string \<times> nat) option \<times> eb_inner" where
  "next_fault s = (case eb_faults s of [] \<Rightarrow> (None, s) | f # fs \<Rightarrow> (f, s\<lparr>eb_faults := fs\<rparr>))"

definition file_len :: "nat eb_comp" where
  "file_len s = (case next_fault s of (Some (msg, _), s) \<Rightarrow> (s, Inl (Os msg)) | (None, s) \<Rightarrow> (s, Inr (length (eb_file s))))"

definition file_sync :: "unit eb_comp" where
  "file_sync s = (case next_fault s of (Some (msg, _), s) \<Rightarrow> (s, Inl (Os msg)) | (None, s) \<Rightarrow> (s, Inr ()))"

definition file_set_len :: "nat \<Rightarrow> unit eb_comp" where
  "file_set_len n s = (case next_fault s of
     (Some (msg, _), s) \<Rightarrow> (s, Inl (Os msg))
   | (None, s) \<Rightarrow> (s\<lparr>eb_file := take n (eb_file s) @ replicate (n - length (eb_file s)) 0\<rparr>, Inr ()))"

definition file_read_exact_at :: "nat \<Rightarrow> nat \<Rightarrow> bytes eb_comp" where
  "file_read_exact_at n off s = (case next_fault s of
     (Some (msg, _), s) \<Rightarrow> (s, Inl (Os msg))
   | (None, s) \<Rightarrow> (s, if off + n \<le> length (eb_file s) then Inr (take n (drop off (eb_file s))) else Inl UnexpectedEof))"

definition file_write_all_at :: "bytes \<Rightarrow> nat \<Rightarrow> unit eb_comp" where
  "file_write_all_at buf off s = (case next_fault s of
     (Some (msg, k), s) \<Rightarrow> (if k = 0 then s else s\<lparr>eb_file := write_at off (take k buf) (eb_file s)\<rparr>, Inl (Os msg))
   | (None, s) \<Rightarrow> (if buf = [] then s else s\<lparr>eb_file := write_at off buf (eb_file s)\<rparr>, Inr ()))"

subsection \<open>Nonces, the header and the blocks\<close>

definition u48_bytes :: "nat \<Rightarrow> bytes" where
  "u48_bytes n = drop 2 (to_be_u64 (of_nat n))"

definition read_u48 :: "bytes \<Rightarrow> nat" where
  "read_u48 bs = unat (from_be_u64 ([0, 0] @ bs))"

definition nonce_of :: "nat \<Rightarrow> nat \<Rightarrow> bytes" where
  "nonce_of epoch seq = u48_bytes epoch @ u48_bytes seq"

definition next_nonce :: "bytes eb_comp" where
  "next_nonce s =
     (let nonce = nonce_of (eb_epoch s) (eb_seq s)
      in (s\<lparr>eb_seq := eb_seq s + 1, eb_nonces := eb_nonces s @ [nonce]\<rparr>, Inr nonce))"

definition write_header :: "crypto_prims \<Rightarrow> bytes \<Rightarrow> bool \<Rightarrow> unit eb_comp" where
  "write_header P cipher reseal_pending =
     sbind (sget eb_logical_len) (\<lambda>logical_len.
     if MAX_U48 < logical_len then sfail (InvalidData ''index logical length exceeds 48-bit field'') else
     sbind (sget eb_epoch) (\<lambda>epoch.
     let plaintext = [FORMAT_VERSION, if reseal_pending then FLAG_RESEAL_PENDING else 0]
           @ u48_bytes logical_len @ u48_bytes epoch @ [0, 0] in
     sbind next_nonce (\<lambda>nonce.
     sbind (slift (ok_or (gcm_seal P cipher nonce IDX_MAGIC plaintext) (InvalidData ''index header encrypt''))) (\<lambda>ct.
     sbind (file_write_all_at (IDX_MAGIC @ nonce @ ct) 0) (\<lambda>_.
     supd (\<lambda>s. if eb_phys_len s < HEADER_PHYS then s\<lparr>eb_phys_len := HEADER_PHYS\<rparr> else s))))))"

definition ensure_nonce_space :: "crypto_prims \<Rightarrow> bytes \<Rightarrow> unit eb_comp" where
  "ensure_nonce_space P cipher =
     sbind (sget (\<lambda>s. (eb_seq s, eb_epoch s))) (\<lambda>(seq, epoch).
     if seq < MAX_U48 then sret () else
     if MAX_U48 < epoch + 1 then sfail (InvalidData ''index nonce epoch exhausted'') else
     sbind (supd (\<lambda>s. s\<lparr>eb_epoch := epoch + 1, eb_seq := 0\<rparr>)) (\<lambda>_.
     sbind (write_header P cipher False) (\<lambda>_.
     file_sync)))"

definition seal_block :: "crypto_prims \<Rightarrow> bytes \<Rightarrow> nat \<Rightarrow> bytes \<Rightarrow> bytes eb_comp" where
  "seal_block P cipher idx plain =
     sbind next_nonce (\<lambda>nonce.
     sbind (slift (ok_or (gcm_seal P cipher nonce (to_be_u64 (of_nat idx)) plain) (InvalidData ''index block encrypt''))) (\<lambda>ct.
     sret (nonce @ ct)))"

definition read_block :: "crypto_prims \<Rightarrow> bytes \<Rightarrow> nat \<Rightarrow> bytes eb_comp" where
  "read_block P cipher idx =
     sbind (sget eb_phys_len) (\<lambda>phys_len.
     let phys = block_phys_offset idx in
     if phys_len < phys + PHYS_BLOCK then sret (replicate BLOCK_SIZE 0) else
     sbind (file_read_exact_at PHYS_BLOCK phys) (\<lambda>buf.
     sbind (slift (ok_or (gcm_open P cipher (take NONCE_LEN buf) (to_be_u64 (of_nat idx)) (drop NONCE_LEN buf))
              (InvalidData ''index block decrypt/auth''))) (\<lambda>plain.
     if length plain \<noteq> BLOCK_SIZE then sfail (InvalidData ''index block wrong plaintext length'') else sret plain)))"

fun seal_gaps :: "crypto_prims \<Rightarrow> bytes \<Rightarrow> nat list \<Rightarrow> bytes \<Rightarrow> bytes eb_comp" where
  "seal_gaps P cipher [] batch = sret batch"
| "seal_gaps P cipher (gap # gaps) batch =
     sbind (seal_block P cipher gap (replicate BLOCK_SIZE 0)) (\<lambda>sealed. seal_gaps P cipher gaps (batch @ sealed))"

definition div_ceil :: "nat \<Rightarrow> nat \<Rightarrow> nat" where
  "div_ceil n d = n div d + (if n mod d = 0 then 0 else 1)"

definition write_block :: "crypto_prims \<Rightarrow> bytes \<Rightarrow> nat \<Rightarrow> bytes \<Rightarrow> unit eb_comp" where
  "write_block P cipher idx plain =
     sbind (ensure_nonce_space P cipher) (\<lambda>_.
     sbind (sget (\<lambda>s. if eb_phys_len s \<le> HEADER_PHYS then 0 else div_ceil (eb_phys_len s - HEADER_PHYS) PHYS_BLOCK)) (\<lambda>next_missing.
     sbind (if next_missing < idx
            then sbind (seal_gaps P cipher [next_missing..<idx] []) (\<lambda>batch.
                 file_write_all_at batch (block_phys_offset next_missing))
            else sret ()) (\<lambda>_.
     sbind (seal_block P cipher idx plain) (\<lambda>block.
     sbind (file_write_all_at block (block_phys_offset idx)) (\<lambda>_.
     let end_phys = block_phys_offset idx + PHYS_BLOCK in
     supd (\<lambda>s. if eb_phys_len s < end_phys then s\<lparr>eb_phys_len := end_phys\<rparr> else s))))))"

fun reseal_blocks :: "crypto_prims \<Rightarrow> bytes \<Rightarrow> nat list \<Rightarrow> unit eb_comp" where
  "reseal_blocks P cipher [] = sret ()"
| "reseal_blocks P cipher (idx # rest) =
     sbind (read_block P cipher idx) (\<lambda>plain.
     sbind (write_block P cipher idx plain) (\<lambda>_. reseal_blocks P cipher rest))"

definition reseal_legacy_blocks :: "crypto_prims \<Rightarrow> bytes \<Rightarrow> unit eb_comp" where
  "reseal_legacy_blocks P cipher =
     sbind (sget eb_phys_len) (\<lambda>phys_len.
     let blocks = (phys_len - HEADER_PHYS) div PHYS_BLOCK in
     sbind (reseal_blocks P cipher [0..<blocks]) (\<lambda>_.
     sbind (write_header P cipher False) (\<lambda>_.
     file_sync)))"

record stored_header =
  sh_logical_len :: nat
  sh_nonce_epoch :: nat
  sh_legacy :: bool
  sh_reseal_pending :: bool

definition default_stored_header :: stored_header where
  "default_stored_header = \<lparr>sh_logical_len = 0, sh_nonce_epoch = 0, sh_legacy = False, sh_reseal_pending = False\<rparr>"

definition read_magic :: "bytes eb_comp" where
  "read_magic = file_read_exact_at 8 0"

definition parse_header :: "bytes \<Rightarrow> io_error + stored_header" where
  "parse_header plain =
     (if length plain \<noteq> HEADER_PLAINTEXT_LEN then Inl (InvalidData ''index header wrong length'') else
      if plain ! 0 = LEGACY_VERSION_TAG then
        (let version = from_be_u32 (take 4 plain) in
         if version \<noteq> 1 then Inl (InvalidData (''unsupported index format '' @ show_nat (unat version))) else
         let block_size = unat (from_be_u32 (take 4 (drop 4 plain))) in
         if block_size \<noteq> BLOCK_SIZE
         then Inl (InvalidData (''index block size mismatch: file '' @ show_nat block_size @ '', expected '' @ show_nat BLOCK_SIZE)) else
         Inr \<lparr>sh_logical_len = unat (from_be_u64 (take 8 (drop 8 plain))), sh_nonce_epoch = 0, sh_legacy = True, sh_reseal_pending = False\<rparr>)
      else if plain ! 0 \<noteq> FORMAT_VERSION then Inl (InvalidData (''unsupported index format '' @ show_nat (unat (plain ! 0)))) else
      Inr \<lparr>sh_logical_len = read_u48 (take 6 (drop 2 plain)), sh_nonce_epoch = read_u48 (take 6 (drop 8 plain)),
           sh_legacy = False, sh_reseal_pending = (plain ! 1 AND FLAG_RESEAL_PENDING \<noteq> 0)\<rparr>)"

definition read_header :: "crypto_prims \<Rightarrow> bytes \<Rightarrow> stored_header eb_comp" where
  "read_header P cipher =
     sbind (file_read_exact_at HEADER_PHYS 0) (\<lambda>buf.
     sbind (slift (ok_or (gcm_open P cipher (take NONCE_LEN (drop 8 buf)) IDX_MAGIC (drop (8 + NONCE_LEN) buf))
              (InvalidData ''index header decrypt/auth (wrong key or tampered)''))) (\<lambda>plain.
     slift (parse_header plain)))"

subsection \<open>The backend\<close>

text \<open>\<open>open_file\<close> starts from the open file alone; the other fields are set as \<open>Inner\<close> is built.\<close>

definition open_file :: "crypto_prims \<Rightarrow> bytes \<Rightarrow> foreign_file \<Rightarrow> unit eb_comp" where
  "open_file P file_key on_foreign =
     sbind file_len (\<lambda>initial_phys.
     sbind (if initial_phys = 0 then sret default_stored_header else
            sbind (if 8 \<le> initial_phys then sbind read_magic (\<lambda>m. sret (m = IDX_MAGIC)) else sret False) (\<lambda>ours.
            if ours then read_header P file_key
            else if on_foreign = Reject then sfail (InvalidData ''encrypted file has no recognizable magic'')
            else sbind (file_set_len 0) (\<lambda>_. sret default_stored_header))) (\<lambda>stored.
     if MAX_U48 < sh_nonce_epoch stored + 1 then sfail (InvalidData ''index nonce epoch exhausted'') else
     sbind file_len (\<lambda>phys_len.
     sbind (supd (\<lambda>s. s\<lparr>eb_logical_len := sh_logical_len stored, eb_phys_len := phys_len,
                       eb_epoch := sh_nonce_epoch stored + 1, eb_seq := 0\<rparr>)) (\<lambda>_.
     let needs_reseal = sh_legacy stored \<or> sh_reseal_pending stored in
     sbind (write_header P file_key needs_reseal) (\<lambda>_.
     sbind file_sync (\<lambda>_.
     if needs_reseal then reseal_legacy_blocks P file_key else sret ()))))))"

definition eb_len :: "nat eb_comp" where "eb_len = sget eb_logical_len"

function eb_read_loop :: "crypto_prims \<Rightarrow> bytes \<Rightarrow> nat \<Rightarrow> nat \<Rightarrow> bytes \<Rightarrow> bytes eb_comp" where
  "eb_read_loop P cipher logical_pos left out =
     (if left = 0 then sret out else
      let idx = logical_pos div BLOCK_SIZE;
          within = logical_pos mod BLOCK_SIZE;
          n = min (BLOCK_SIZE - within) left in
      sbind (read_block P cipher idx) (\<lambda>plain.
      eb_read_loop P cipher (logical_pos + n) (left - n) (out @ take n (drop within plain))))"
  by pat_completeness auto
termination
  by (relation "measure (\<lambda>(P, cipher, pos, left, out). left)") (auto simp: BLOCK_SIZE_def)

declare eb_read_loop.simps [simp del]

definition eb_read :: "crypto_prims \<Rightarrow> bytes \<Rightarrow> nat \<Rightarrow> nat \<Rightarrow> bytes eb_comp" where
  "eb_read P cipher offset n = eb_read_loop P cipher offset n []"

function eb_write_loop :: "crypto_prims \<Rightarrow> bytes \<Rightarrow> nat \<Rightarrow> bytes \<Rightarrow> unit eb_comp" where
  "eb_write_loop P cipher logical_pos data =
     (if data = [] then sret () else
      let idx = logical_pos div BLOCK_SIZE;
          within = logical_pos mod BLOCK_SIZE;
          n = min (BLOCK_SIZE - within) (length data) in
      sbind (if within = 0 \<and> n = BLOCK_SIZE then sret (replicate BLOCK_SIZE 0) else read_block P cipher idx) (\<lambda>plain.
      sbind (write_block P cipher idx (write_at within (take n data) plain)) (\<lambda>_.
      eb_write_loop P cipher (logical_pos + n) (drop n data))))"
  by pat_completeness auto
termination
  by (relation "measure (\<lambda>(P, cipher, pos, data). length data)") (auto simp: BLOCK_SIZE_def)

declare eb_write_loop.simps [simp del]

definition eb_write :: "crypto_prims \<Rightarrow> bytes \<Rightarrow> nat \<Rightarrow> bytes \<Rightarrow> unit eb_comp" where
  "eb_write P cipher offset data =
     sbind (eb_write_loop P cipher offset data) (\<lambda>_.
     let end_pos = offset + length data in
     sbind (sget eb_logical_len) (\<lambda>logical_len.
     if logical_len < end_pos
     then sbind (supd (\<lambda>s. s\<lparr>eb_logical_len := end_pos\<rparr>)) (\<lambda>_. write_header P cipher False)
     else sret ()))"

definition eb_set_len :: "crypto_prims \<Rightarrow> bytes \<Rightarrow> nat \<Rightarrow> unit eb_comp" where
  "eb_set_len P cipher len =
     sbind (supd (\<lambda>s. s\<lparr>eb_logical_len := len\<rparr>)) (\<lambda>_.
     let needed_phys = HEADER_PHYS + div_ceil len BLOCK_SIZE * PHYS_BLOCK in
     sbind (sget eb_phys_len) (\<lambda>phys_len.
     sbind (if needed_phys < phys_len
            then sbind (file_set_len needed_phys) (\<lambda>_. supd (\<lambda>s. s\<lparr>eb_phys_len := needed_phys\<rparr>))
            else sret ()) (\<lambda>_.
     let rem = len mod BLOCK_SIZE; idx = len div BLOCK_SIZE in
     sbind (sget eb_phys_len) (\<lambda>phys_len.
     sbind (if rem \<noteq> 0 \<and> block_phys_offset (idx + 1) \<le> phys_len
            then sbind (read_block P cipher idx) (\<lambda>plain.
                 write_block P cipher idx (take rem plain @ replicate (BLOCK_SIZE - rem) 0))
            else sret ()) (\<lambda>_.
     write_header P cipher False)))))"

definition eb_sync_data :: "unit eb_comp" where "eb_sync_data = file_sync"

end
