(* ===== verification/Encrypted_Backend_Laws.thy ===== *)
theory Encrypted_Backend_Laws
  imports Encrypted_Backend
begin

text \<open>
  The encrypted file refines a plain one. \<open>eb_rep\<close> says which plaintext blocks a file holds, \<open>file_rep\<close>
  which byte string it stands for; reads, writes and truncations act on that string as they would on
  an unencrypted file, closing and reopening keeps it, and no nonce is drawn twice.
\<close>

subsection \<open>Slices of a file\<close>

lemma slice_write_at_same:
  "p \<le> length d \<Longrightarrow> take (length bs) (drop p (write_at p bs d)) = bs"
  by (simp add: write_at_def)

lemma slice_write_at_before:
  "q + m \<le> p \<Longrightarrow> p \<le> length d \<Longrightarrow> take m (drop q (write_at p bs d)) = take m (drop q d)"
  by (simp add: write_at_def drop_take min_absorb1)

lemma slice_write_at_after:
  assumes "p + length bs \<le> q" and "p \<le> length d"
  shows "take m (drop q (write_at p bs d)) = take m (drop q d)"
proof -
  have "drop q (write_at p bs d) = drop q d"
    using assms by (simp add: write_at_def)
  then show ?thesis by simp
qed

lemma length_write_at: "p \<le> length d \<Longrightarrow> length (write_at p bs d) = max (length d) (p + length bs)"
  by (auto simp: write_at_def max_def)

definition slice :: "bytes \<Rightarrow> nat \<Rightarrow> bytes" where
  "slice file i = take PHYS_BLOCK (drop (block_phys_offset i) file)"

lemma eb_sizes [simp]: "NONCE_LEN = 12" "TAG_LEN = 16" "BLOCK_SIZE = 4096" "PHYS_BLOCK = 4124" "HEADER_PHYS = 52"
  "HEADER_PLAINTEXT_LEN = 16"
  by (simp_all add: NONCE_LEN_def TAG_LEN_def BLOCK_SIZE_def PHYS_BLOCK_def HEADER_PHYS_def HEADER_PLAINTEXT_LEN_def)

lemma off_mono: "i < j \<Longrightarrow> block_phys_offset i + 4124 \<le> block_phys_offset j"
  unfolding block_phys_offset_def eb_sizes by (metis Suc_leI add.assoc add_le_cancel_left mult_Suc add.commute mult_le_mono1)

lemma off_len: "block_phys_offset n = 52 + n * 4124" "block_phys_offset (Suc n) = block_phys_offset n + 4124"
  by (simp_all add: block_phys_offset_def)

lemma slice_header: "length hdr = 52 \<Longrightarrow> slice (write_at 0 hdr file) i = slice file i"
  unfolding slice_def by (rule slice_write_at_after) (simp_all add: off_len)

lemma slice_block:
  assumes "length blk = 4124" and "block_phys_offset j \<le> length file"
  shows "slice (write_at (block_phys_offset j) blk file) i = (if i = j then blk else slice file i)"
proof (cases i j rule: linorder_cases)
  case less
  then show ?thesis unfolding slice_def using slice_write_at_before [of "block_phys_offset i" 4124] off_mono [OF less] assms by simp
next
  case equal
  then show ?thesis unfolding slice_def using slice_write_at_same [OF assms(2), of blk] assms(1) by simp
next
  case greater
  then show ?thesis unfolding slice_def using slice_write_at_after [of "block_phys_offset j" blk "block_phys_offset i"] off_mono [OF greater] assms by simp
qed

subsection \<open>What a file represents\<close>

definition opens_block :: "crypto_prims \<Rightarrow> bytes \<Rightarrow> nat \<Rightarrow> bytes \<Rightarrow> bytes \<Rightarrow> bool" where
  "opens_block P key i blk plain \<longleftrightarrow>
     gcm_open P key (take 12 blk) (to_be_u64 (of_nat i)) (drop 12 blk) = Some plain \<and> length plain = 4096"

definition blocks_ok :: "crypto_prims \<Rightarrow> bytes \<Rightarrow> bytes \<Rightarrow> bytes list \<Rightarrow> bool" where
  "blocks_ok P key file bl \<longleftrightarrow> length file = block_phys_offset (length bl)
     \<and> (\<forall>i < length bl. opens_block P key i (slice file i) (bl ! i))"

definition eb_rep :: "crypto_prims \<Rightarrow> bytes \<Rightarrow> eb_inner \<Rightarrow> bytes list \<Rightarrow> bool" where
  "eb_rep P key s bl \<longleftrightarrow> eb_faults s = [] \<and> eb_phys_len s = length (eb_file s) \<and> blocks_ok P key (eb_file s) bl"

definition zero_block :: bytes where "zero_block = replicate 4096 0"

definition put_block :: "nat \<Rightarrow> bytes \<Rightarrow> bytes list \<Rightarrow> bytes list" where
  "put_block i plain bl = (if i < length bl then bl[i := plain]
     else bl @ replicate (i - length bl) zero_block @ [plain])"

lemma length_zero_block [simp]: "length zero_block = 4096"
  by (simp add: zero_block_def)

lemma no_fault [simp]: "eb_faults s = [] \<Longrightarrow> next_fault s = (None, s)"
  by (simp add: next_fault_def)

lemma read_block_ok:
  assumes "eb_rep P key s bl"
  shows "read_block P key i s = (s, Inr (if i < length bl then bl ! i else zero_block))"
proof (cases "i < length bl")
  case True
  have l: "block_phys_offset i + 4124 \<le> length (eb_file s)"
    using assms off_mono [of i "length bl"] True by (auto simp: eb_rep_def blocks_ok_def)
  have o: "opens_block P key i (slice (eb_file s) i) (bl ! i)" using assms True by (auto simp: eb_rep_def blocks_ok_def)
  show ?thesis
    using assms l o True
    by (simp add: read_block_def comp_simps file_read_exact_at_def eb_rep_def opens_block_def slice_def Let_def)
next
  case False
  have "length (eb_file s) < block_phys_offset i + 4124"
    using assms False by (auto simp: eb_rep_def blocks_ok_def off_len)
  then show ?thesis using assms False by (simp add: read_block_def comp_simps eb_rep_def zero_block_def Let_def)
qed

subsection \<open>Sealing\<close>

definition sealed_at :: "crypto_prims \<Rightarrow> bytes \<Rightarrow> nat \<Rightarrow> bytes \<Rightarrow> bytes \<Rightarrow> bool" where
  "sealed_at P key i plain blk \<longleftrightarrow> length blk = 4124 \<and> opens_block P key i blk plain"

text \<open>Drawing a nonce moves the counters and the ghost log, nothing else.\<close>

definition advanced :: "eb_inner \<Rightarrow> nat \<Rightarrow> eb_inner" where
  "advanced s n = s\<lparr>eb_seq := eb_seq s + n, eb_nonces := eb_nonces s @ map (nonce_of (eb_epoch s)) [eb_seq s..<eb_seq s + n]\<rparr>"

lemma length_nonce_of [simp]: "length (nonce_of e q) = 12"
  by (simp add: nonce_of_def u48_bytes_def)

lemma advanced_fields [simp]:
  "eb_file (advanced s n) = eb_file s" "eb_logical_len (advanced s n) = eb_logical_len s"
  "eb_phys_len (advanced s n) = eb_phys_len s" "eb_epoch (advanced s n) = eb_epoch s"
  "eb_seq (advanced s n) = eb_seq s + n" "eb_faults (advanced s n) = eb_faults s"
  by (simp_all add: advanced_def)

lemma advanced_0 [simp]: "advanced s 0 = s"
  by (simp add: advanced_def)

lemma advanced_add: "advanced (advanced s m) n = advanced s (m + n)"
proof -
  have "[a..<a + (m + n)] = [a..<a + m] @ [a + m..<a + m + n]" for a
    using upt_add_eq_append [of a "a + m" n] by (simp add: add.assoc)
  then show ?thesis by (simp add: advanced_def)
qed

lemma next_nonce_ok: "next_nonce s = (advanced s 1, Inr (nonce_of (eb_epoch s) (eb_seq s)))"
  by (simp add: next_nonce_def advanced_def Let_def)

lemma seal_block_ok:
  assumes "aead_correct P" and "length plain = 4096"
  obtains blk where "seal_block P key i plain s = (advanced s 1, Inr blk)" and "sealed_at P key i plain blk"
proof -
  let ?n = "nonce_of (eb_epoch s) (eb_seq s)"
  obtain c where c: "gcm_seal P key ?n (to_be_u64 (of_nat i)) plain = Some c" "length c = length plain + TAG_LEN"
    "gcm_open P key ?n (to_be_u64 (of_nat i)) c = Some plain"
    by (rule aead_correctE [OF assms(1), of plain]) (use assms(2) in simp_all)
  show thesis
    by (rule that [of "?n @ c"])
      (use c assms(2) in \<open>simp_all add: seal_block_def comp_simps next_nonce_ok sealed_at_def opens_block_def\<close>)
qed

lemma seal_gaps_ok:
  assumes "aead_correct P"
  obtains blks where "seal_gaps P key [a..<b] batch s = (advanced s (b - a), Inr (batch @ concat blks))"
    and "length blks = b - a" and "\<forall>i < b - a. sealed_at P key (a + i) zero_block (blks ! i)"
proof (induction "b - a" arbitrary: a batch s thesis)
  case 0
  then show ?case using 0(2) [of "[]"] by (simp add: sret_def)
next
  case (Suc n)
  then have upt: "[a..<b] = a # [Suc a..<b]" and n: "n = b - Suc a" by (simp_all add: upt_conv_Cons)
  obtain blk where blk: "seal_block P key a zero_block s = (advanced s 1, Inr blk)" "sealed_at P key a zero_block blk"
    by (rule seal_block_ok [OF assms length_zero_block])
  obtain blks where blks: "seal_gaps P key [Suc a..<b] (batch @ blk) (advanced s 1)
      = (advanced (advanced s 1) (b - Suc a), Inr ((batch @ blk) @ concat blks))" "length blks = b - Suc a"
    "\<forall>i < b - Suc a. sealed_at P key (Suc a + i) zero_block (blks ! i)"
    using Suc(1) [OF n] by blast
  show ?case
  proof (rule Suc(3) [of "blk # blks"])
    show "seal_gaps P key [a..<b] batch s = (advanced s (b - a), Inr (batch @ concat (blk # blks)))"
      using blk(1) blks(1) Suc(2) unfolding upt
      by (simp add: comp_simps zero_block_def [symmetric] advanced_add Suc_diff_Suc)
    show "length (blk # blks) = b - a" using blks(2) Suc(2) by simp
    show "\<forall>i < b - a. sealed_at P key (a + i) zero_block ((blk # blks) ! i)"
      using blk(2) blks(3) by (auto simp: nth_Cons split: nat.splits)
  qed
qed

subsection \<open>The header\<close>

lemma be_of_nat_top: "v < 256 ^ k \<Longrightarrow> be_of_nat (j + k) v = replicate j 0 @ be_of_nat k v"
proof (induction k arbitrary: v)
  case 0
  have "be_of_nat j 0 = replicate j 0" by (induction j) (simp_all add: replicate_append_same)
  then show ?case using 0 by simp
next
  case (Suc k)
  then have "v div 256 < 256 ^ k" by (simp add: less_mult_imp_div_less mult.commute)
  then show ?case using Suc.IH by simp
qed

lemma u48_round_trip:
  assumes "n \<le> MAX_U48"
  shows "read_u48 (u48_bytes n) = n" and "length (u48_bytes n) = 6"
proof -
  have n: "n < 2 ^ 48" using assms by (simp add: MAX_U48_def)
  then have u: "unat (of_nat n :: u64) = n" by (simp add: unat_of_nat)
  have "n < 256 ^ 6" using n by simp
  from be_of_nat_top [OF this, of 2] have "to_be_u64 (of_nat n) = [0, 0] @ be_of_nat 6 n"
    using u by (simp add: to_be_u64_def numeral_2_eq_2)
  then have "[0, 0] @ u48_bytes n = to_be_u64 (of_nat n)" by (simp add: u48_bytes_def)
  then show "read_u48 (u48_bytes n) = n" using u by (simp add: read_u48_def del: append_Cons append_Nil)
  show "length (u48_bytes n) = 6" by (simp add: u48_bytes_def)
qed

lemma nonce_of_inj:
  assumes "e < 2 ^ 48" "q < 2 ^ 48" "e' < 2 ^ 48" "q' < 2 ^ 48" and "nonce_of e q = nonce_of e' q'"
  shows "e = e' \<and> q = q'"
proof -
  have "length (u48_bytes n) = 6" for n by (simp add: u48_bytes_def)
  then have "u48_bytes e = u48_bytes e'" "u48_bytes q = u48_bytes q'"
    using assms(5) by (simp_all add: nonce_of_def append_eq_append_conv)
  moreover have "read_u48 (u48_bytes n) = n" if "n < 2 ^ 48" for n
    using u48_round_trip(1) [of n] that by (simp add: MAX_U48_def)
  ultimately show ?thesis using assms(1-4) by metis
qed

definition header_says :: "crypto_prims \<Rightarrow> bytes \<Rightarrow> bytes \<Rightarrow> nat \<Rightarrow> nat \<Rightarrow> bool \<Rightarrow> bool" where
  "header_says P key file len epoch pending \<longleftrightarrow> 52 \<le> length file \<and> take 8 file = IDX_MAGIC
     \<and> (\<exists>plain. gcm_open P key (take 12 (drop 8 file)) IDX_MAGIC (drop 20 (take 52 file)) = Some plain
        \<and> parse_header plain = Inr \<lparr>sh_logical_len = len, sh_nonce_epoch = epoch, sh_legacy = False, sh_reseal_pending = pending\<rparr>)"

lemma parse_header_ok:
  assumes "len \<le> MAX_U48" and "epoch \<le> MAX_U48"
  shows "parse_header ([FORMAT_VERSION, if pending then FLAG_RESEAL_PENDING else 0] @ u48_bytes len @ u48_bytes epoch @ [0, 0])
    = Inr \<lparr>sh_logical_len = len, sh_nonce_epoch = epoch, sh_legacy = False, sh_reseal_pending = pending\<rparr>"
  using u48_round_trip [OF assms(1)] u48_round_trip [OF assms(2)]
  by (simp add: parse_header_def FORMAT_VERSION_def LEGACY_VERSION_TAG_def FLAG_RESEAL_PENDING_def)

lemma write_header_ok:
  assumes P: "aead_correct P" and nf: "eb_faults s = []" and ll: "eb_logical_len s \<le> MAX_U48" and ep: "eb_epoch s \<le> MAX_U48"
  obtains hdr where "write_header P key pending s =
      ((advanced s 1)\<lparr>eb_file := write_at 0 hdr (eb_file s), eb_phys_len := max 52 (eb_phys_len s)\<rparr>, Inr ())"
    and "length hdr = 52" and "\<forall>rest. header_says P key (hdr @ rest) (eb_logical_len s) (eb_epoch s) pending"
proof -
  let ?n = "nonce_of (eb_epoch s) (eb_seq s)"
  let ?plain = "[FORMAT_VERSION, if pending then FLAG_RESEAL_PENDING else 0] @ u48_bytes (eb_logical_len s) @ u48_bytes (eb_epoch s) @ [0, 0]"
  have len: "length ?plain = 16" using u48_round_trip(2) [OF ll] u48_round_trip(2) [OF ep] by simp
  obtain c where c: "gcm_seal P key ?n IDX_MAGIC ?plain = Some c" "length c = length ?plain + TAG_LEN"
    "gcm_open P key ?n IDX_MAGIC c = Some ?plain"
    by (rule aead_correctE [OF P, of ?plain]) (use len in simp_all)
  have m: "length IDX_MAGIC = 8" by (simp add: IDX_MAGIC_def)
  show thesis
  proof (rule that [of "IDX_MAGIC @ ?n @ c"])
    show l: "length (IDX_MAGIC @ ?n @ c) = 52" using c(2) len m by simp
    show "\<forall>rest. header_says P key ((IDX_MAGIC @ ?n @ c) @ rest) (eb_logical_len s) (eb_epoch s) pending"
      using c(2,3) len m parse_header_ok [OF ll ep, of pending] by (simp add: header_says_def)
    show "write_header P key pending s = ((advanced s 1)\<lparr>eb_file := write_at 0 (IDX_MAGIC @ ?n @ c) (eb_file s),
        eb_phys_len := max 52 (eb_phys_len s)\<rparr>, Inr ())"
      using c(1) ll nf m
      by (auto simp: write_header_def comp_simps Let_def next_nonce_ok file_write_all_at_def max_def)
  qed
qed

subsection \<open>The nonce log\<close>

text \<open>Every nonce drawn belongs to a pair of epoch and sequence number below the current one, and no
  sequence number reaches the number of draws.\<close>

definition fresh_log :: "bytes list \<Rightarrow> nat \<Rightarrow> nat \<Rightarrow> bool" where
  "fresh_log L e q \<longleftrightarrow> q \<le> length L \<and> (\<exists>ps. L = map (\<lambda>(a, b). nonce_of a b) ps \<and> distinct ps
     \<and> (\<forall>(a, b) \<in> set ps. (a < e \<or> a = e \<and> b < q) \<and> b < length L))"

lemma fresh_log_draw:
  assumes "fresh_log L e q"
  shows "fresh_log (L @ map (nonce_of e) [q..<q + n]) e (q + n)"
proof -
  obtain ps where ps: "L = map (\<lambda>(a, b). nonce_of a b) ps" "distinct ps"
    "\<forall>(a, b) \<in> set ps. (a < e \<or> a = e \<and> b < q) \<and> b < length L" and q: "q \<le> length L"
    using assms by (auto simp: fresh_log_def)
  have "distinct (ps @ map (Pair e) [q..<q + n])"
    using ps(2,3) by (auto simp: distinct_map inj_on_def)
  moreover have "L @ map (nonce_of e) [q..<q + n] = map (\<lambda>(a, b). nonce_of a b) (ps @ map (Pair e) [q..<q + n])"
    using ps(1) by simp
  moreover have "\<forall>(a, b) \<in> set (ps @ map (Pair e) [q..<q + n]). (a < e \<or> a = e \<and> b < q + n)
      \<and> b < length (L @ map (nonce_of e) [q..<q + n])"
    using ps(3) q by fastforce
  moreover have "q + n \<le> length (L @ map (nonce_of e) [q..<q + n])" using q by simp
  ultimately show ?thesis unfolding fresh_log_def by blast
qed

lemma fresh_log_epoch: "fresh_log L e q \<Longrightarrow> e < e' \<Longrightarrow> fresh_log L e' 0"
  unfolding fresh_log_def by fastforce

lemma fresh_log_distinct:
  assumes "fresh_log L e q" and "e < 2 ^ 48" and "length L \<le> 2 ^ 48"
  shows "distinct L"
proof -
  obtain ps where ps: "L = map (\<lambda>(a, b). nonce_of a b) ps" "distinct ps"
    "\<forall>(a, b) \<in> set ps. (a < e \<or> a = e \<and> b < q) \<and> b < length L"
    using assms by (auto simp: fresh_log_def)
  have "inj_on (\<lambda>(a, b). nonce_of a b) (set ps)"
  proof (rule inj_onI, clarify)
    fix a b a' b' assume m: "(a, b) \<in> set ps" "(a', b') \<in> set ps" and eq: "nonce_of a b = nonce_of a' b'"
    have "a < 2 ^ 48 \<and> b < 2 ^ 48" "a' < 2 ^ 48 \<and> b' < 2 ^ 48" using ps(3) m assms(2,3) by fastforce+
    then show "a = a' \<and> b = b'" using nonce_of_inj [OF _ _ _ _ eq] by blast
  qed
  then show ?thesis using ps(1,2) by (simp add: distinct_map)
qed

subsection \<open>Writing a block\<close>

text \<open>\<open>hl\<close> is the logical length the header on disk records.\<close>

definition eb_good :: "crypto_prims \<Rightarrow> bytes \<Rightarrow> eb_inner \<Rightarrow> bytes list \<Rightarrow> nat \<Rightarrow> bool \<Rightarrow> bool" where
  "eb_good P key s bl hl pending \<longleftrightarrow> eb_rep P key s bl \<and> eb_logical_len s \<le> MAX_U48 \<and> eb_epoch s \<le> MAX_U48
     \<and> header_says P key (eb_file s) hl (eb_epoch s) pending
     \<and> fresh_log (eb_nonces s) (eb_epoch s) (eb_seq s)"

lemma fresh_advanced: "fresh_log (eb_nonces s) (eb_epoch s) (eb_seq s) \<Longrightarrow>
    fresh_log (eb_nonces (advanced s n)) (eb_epoch s) (eb_seq s + n)"
  by (simp add: advanced_def fresh_log_draw)

lemma blocks_ok_header:
  "length hdr = 52 \<Longrightarrow> blocks_ok P key file bl \<Longrightarrow> blocks_ok P key (write_at 0 hdr file) bl"
  by (auto simp: blocks_ok_def slice_header length_write_at off_len)

lemma header_says_take:
  "header_says P key file len e pending \<longleftrightarrow> 52 \<le> length file \<and> header_says P key (take 52 file) len e pending"
  by (auto simp: header_says_def drop_take min_def)

lemma header_says_write:
  assumes "header_says P key file len e pending" and "52 \<le> p" and "p \<le> length file"
  shows "header_says P key (write_at p bs file) len e pending"
proof -
  have "take 52 (write_at p bs file) = take 52 file" using assms(2,3) by (simp add: write_at_def min_def)
  moreover have "52 \<le> length (write_at p bs file)" using assms(2,3) by (simp add: length_write_at)
  ultimately show ?thesis
    using assms(1) by (subst header_says_take, subst (asm) header_says_take) simp
qed

text \<open>Rewriting the header of a good state, whatever its counters became, gives a good state.\<close>

lemma write_header_good:
  assumes P: "aead_correct P" and rep: "eb_rep P key s bl" and "eb_logical_len s \<le> MAX_U48" "eb_epoch s \<le> MAX_U48"
    and fr: "fresh_log (eb_nonces s) (eb_epoch s) (eb_seq s)"
  obtains s' where "write_header P key pending s = (s', Inr ())" and "eb_good P key s' bl (eb_logical_len s) pending"
    and "eb_logical_len s' = eb_logical_len s" and "eb_epoch s' = eb_epoch s" and "eb_seq s' = eb_seq s + 1"
    and "length (eb_nonces s') = length (eb_nonces s) + 1"
proof -
  have nf: "eb_faults s = []" and ph: "eb_phys_len s = length (eb_file s)" and b: "blocks_ok P key (eb_file s) bl"
    using rep by (auto simp: eb_rep_def)
  have l: "52 \<le> length (eb_file s)" using b by (simp add: blocks_ok_def off_len)
  obtain hdr where w: "write_header P key pending s =
      ((advanced s 1)\<lparr>eb_file := write_at 0 hdr (eb_file s), eb_phys_len := max 52 (eb_phys_len s)\<rparr>, Inr ())"
    "length hdr = 52" "\<forall>rest. header_says P key (hdr @ rest) (eb_logical_len s) (eb_epoch s) pending"
    by (rule write_header_ok [OF P nf assms(3,4), of key pending])
  have f: "write_at 0 hdr (eb_file s) = hdr @ drop 52 (eb_file s)" using w(2) by (simp add: write_at_def)
  show thesis
    by (rule that [OF w(1)])
      (use nf ph l blocks_ok_header [OF w(2) b] w(2,3) f assms(3,4) fresh_advanced [OF fr, of 1] in
        \<open>auto simp: eb_good_def eb_rep_def max_def length_write_at advanced_def\<close>)
qed

lemma blocks_ok_update:
  assumes "blocks_ok P key file bl" and "i \<le> length bl" and "sealed_at P key i plain blk"
  shows "blocks_ok P key (write_at (block_phys_offset i) blk file) (if i < length bl then bl[i := plain] else bl @ [plain])"
proof -
  have len: "length file = block_phys_offset (length bl)" "length blk = 4124" using assms by (auto simp: blocks_ok_def sealed_at_def)
  have le: "block_phys_offset i \<le> length file" using len(1) assms(2) by (simp add: off_len)
  have "max (length file) (block_phys_offset i + length blk) = block_phys_offset (if i < length bl then length bl else Suc (length bl))"
    using off_mono [of i "length bl"] len assms(2) by (auto simp: max_def off_len)
  then show ?thesis
    using assms len(2) by (auto simp: blocks_ok_def length_write_at [OF le] slice_block [OF len(2) le] sealed_at_def nth_list_update nth_append less_Suc_eq)
qed

lemma blocks_ok_gaps:
  assumes "blocks_ok P key file bl" and "\<forall>i < length blks. sealed_at P key (length bl + i) zero_block (blks ! i)"
  shows "blocks_ok P key (file @ concat blks) (bl @ replicate (length blks) zero_block)"
  using assms
proof (induction blks arbitrary: "file" bl)
  case (Cons blk blks)
  have "write_at (block_phys_offset (length bl)) blk file = file @ blk"
    using Cons.prems(1) by (metis blocks_ok_def write_at_end)
  then have "blocks_ok P key (file @ blk) (bl @ [zero_block])"
    using blocks_ok_update [OF Cons.prems(1), of "length bl" zero_block blk] Cons.prems(2) by fastforce
  moreover have "\<forall>i < length blks. sealed_at P key (length (bl @ [zero_block]) + i) zero_block (blks ! i)"
    using Cons.prems(2) by fastforce
  ultimately show ?case using Cons.IH [of "file @ blk" "bl @ [zero_block]"] by simp
qed simp

lemma concat_sealed_Nil: "\<forall>i < length blks. sealed_at P key (n + i) zero_block (blks ! i) \<Longrightarrow> concat blks = [] \<longleftrightarrow> blks = []"
  by (cases blks) (force simp: sealed_at_def)+

lemma ensure_nonce_space_good:
  assumes P: "aead_correct P" and g: "eb_good P key s bl hl pending" and ep: "eb_epoch s < MAX_U48"
  obtains s' hl' p' where "ensure_nonce_space P key s = (s', Inr ())" and "eb_good P key s' bl hl' p'" and "p' \<longrightarrow> pending"
    and "hl' = hl \<or> hl' = eb_logical_len s"
    and "eb_logical_len s' = eb_logical_len s" and "eb_epoch s' \<le> eb_epoch s + 1"
proof (cases "eb_seq s < MAX_U48")
  case True
  then show thesis using that [of s hl pending] g by (simp add: ensure_nonce_space_def comp_simps)
next
  case False
  let ?s = "s\<lparr>eb_epoch := eb_epoch s + 1, eb_seq := 0\<rparr>"
  have "eb_rep P key ?s bl" "eb_logical_len ?s \<le> MAX_U48" "eb_epoch ?s \<le> MAX_U48"
    "fresh_log (eb_nonces ?s) (eb_epoch ?s) (eb_seq ?s)"
    using g ep by (auto simp: eb_good_def eb_rep_def intro: fresh_log_epoch)
  then obtain s' where s': "write_header P key False ?s = (s', Inr ())" "eb_good P key s' bl (eb_logical_len ?s) False"
    "eb_logical_len s' = eb_logical_len ?s" "eb_epoch s' = eb_epoch ?s"
    by (rule write_header_good [OF P, where pending = False])
  then have "eb_faults s' = []" by (simp add: eb_good_def eb_rep_def)
  then show thesis
    by (intro that [of s' "eb_logical_len s" False]) (use s' False ep in \<open>simp_all add: ensure_nonce_space_def comp_simps file_sync_def\<close>)
qed

lemma next_missing_len:
  assumes "eb_rep P key s bl"
  shows "(if eb_phys_len s \<le> HEADER_PHYS then 0 else div_ceil (eb_phys_len s - HEADER_PHYS) PHYS_BLOCK) = length bl"
  using assms by (simp add: eb_rep_def blocks_ok_def off_len div_ceil_def)

lemma fill_gaps_ok:
  assumes P: "aead_correct P" and b: "blocks_ok P key (eb_file s) bl" and nf: "eb_faults s = []"
    and h: "header_says P key (eb_file s) l e p"
  obtains f2 where "(if length bl < i
      then sbind (seal_gaps P key [length bl..<i] []) (\<lambda>batch. file_write_all_at batch (block_phys_offset (length bl)))
      else sret ()) s = ((advanced s (i - length bl))\<lparr>eb_file := f2\<rparr>, Inr ())"
    and "blocks_ok P key f2 (bl @ replicate (i - length bl) zero_block)" and "header_says P key f2 l e p"
proof (cases "length bl < i")
  case True
  have off: "block_phys_offset (length bl) = length (eb_file s)" using b by (simp add: blocks_ok_def)
  obtain blks where blks: "seal_gaps P key [length bl..<i] [] s = (advanced s (i - length bl), Inr ([] @ concat blks))"
    "length blks = i - length bl" "\<forall>j < i - length bl. sealed_at P key (length bl + j) zero_block (blks ! j)"
    by (rule seal_gaps_ok [OF P])
  have ne: "concat blks \<noteq> []" using concat_sealed_Nil [of blks P key "length bl"] blks(2,3) True by auto
  show thesis
  proof (rule that [of "eb_file s @ concat blks"])
    show "(if length bl < i
        then sbind (seal_gaps P key [length bl..<i] []) (\<lambda>batch. file_write_all_at batch (block_phys_offset (length bl)))
        else sret ()) s = ((advanced s (i - length bl))\<lparr>eb_file := eb_file s @ concat blks\<rparr>, Inr ())"
      using True blks(1) nf ne off by (simp add: sbind_run file_write_all_at_def)
    show "blocks_ok P key (eb_file s @ concat blks) (bl @ replicate (i - length bl) zero_block)"
      using blocks_ok_gaps [OF b, of blks] blks(2,3) by simp
    have "52 \<le> length (eb_file s)" using off by (simp add: off_len)
    then show "header_says P key (eb_file s @ concat blks) l e p"
      using header_says_write [OF h, of "length (eb_file s)" "concat blks"] by simp
  qed
next
  case False
  then show thesis using that [of "eb_file s"] b h by (simp add: sret_def)
qed

lemma write_block_good:
  assumes P: "aead_correct P" and g: "eb_good P key s bl hl pending" and ep: "eb_epoch s < MAX_U48" and plain: "length plain = 4096"
  obtains s' hl' p' where "write_block P key i plain s = (s', Inr ())" and "eb_good P key s' (put_block i plain bl) hl' p'"
    and "p' \<longrightarrow> pending" and "hl' = hl \<or> hl' = eb_logical_len s" and "eb_logical_len s' = eb_logical_len s" and "eb_epoch s' \<le> eb_epoch s + 1"
proof -
  obtain s1 h1 p1 where s1: "ensure_nonce_space P key s = (s1, Inr ())" "eb_good P key s1 bl h1 p1" "p1 \<longrightarrow> pending"
    "h1 = hl \<or> h1 = eb_logical_len s" "eb_logical_len s1 = eb_logical_len s" "eb_epoch s1 \<le> eb_epoch s + 1"
    by (rule ensure_nonce_space_good [OF P g ep])
  note rep = s1(2) [unfolded eb_good_def, THEN conjunct1]
  have b: "blocks_ok P key (eb_file s1) bl" "eb_faults s1 = []" "eb_phys_len s1 = length (eb_file s1)"
    using rep by (auto simp: eb_rep_def)
  have h: "header_says P key (eb_file s1) h1 (eb_epoch s1) p1"
    and fr: "fresh_log (eb_nonces s1) (eb_epoch s1) (eb_seq s1)" using s1(2) by (auto simp: eb_good_def)
  have off: "length (eb_file s1) = block_phys_offset (length bl)" using b(1) by (simp add: blocks_ok_def)
  define bl2 where "bl2 = bl @ replicate (i - length bl) zero_block"
  let ?gap = "if length bl < i
            then sbind (seal_gaps P key [length bl..<i] []) (\<lambda>batch. file_write_all_at batch (block_phys_offset (length bl)))
            else sret ()"
  obtain f2 where f2: "?gap s1 = ((advanced s1 (i - length bl))\<lparr>eb_file := f2\<rparr>, Inr ())"
    and bf2: "blocks_ok P key f2 bl2" and hf2: "header_says P key f2 h1 (eb_epoch s1) p1"
    unfolding bl2_def by (rule fill_gaps_ok [OF P b(1,2) h])
  let ?s2 = "(advanced s1 (i - length bl))\<lparr>eb_file := f2\<rparr>"
  obtain blk where blk: "seal_block P key i plain ?s2 = (advanced ?s2 1, Inr blk)" "sealed_at P key i plain blk"
    by (rule seal_block_ok [OF P plain])
  have i: "i \<le> length bl2" "(if i < length bl2 then bl2[i := plain] else bl2 @ [plain]) = put_block i plain bl"
    by (auto simp: bl2_def put_block_def)
  let ?f3 = "write_at (block_phys_offset i) blk f2"
  have b3: "blocks_ok P key ?f3 (put_block i plain bl)" using blocks_ok_update [OF bf2 i(1) blk(2)] i(2) by simp
  have lf: "length f2 = block_phys_offset (length bl2)" using bf2 by (simp add: blocks_ok_def)
  have h3: "header_says P key ?f3 h1 (eb_epoch s1) p1"
    by (rule header_says_write [OF hf2]) (use i(1) lf in \<open>simp_all add: off_len\<close>)
  let ?s3 = "(advanced ?s2 1)\<lparr>eb_file := ?f3, eb_phys_len := length ?f3\<rparr>"
  have ph: "length ?f3 = (if eb_phys_len s1 < block_phys_offset i + 4124 then block_phys_offset i + 4124 else eb_phys_len s1)"
    using b3 b(3) off off_mono [of i "length bl"] by (auto simp: blocks_ok_def put_block_def off_len)
  have "length blk = 4124" using blk(2) by (simp add: sealed_at_def)
  then have run: "write_block P key i plain s = (?s3, Inr ())"
    unfolding write_block_def sbind_run [of "ensure_nonce_space P key", OF s1(1)]
    using blk(1) b(2) ph
    by (simp only: sbind_run [of "sget _", OF sget_def [THEN fun_cong]] next_missing_len [OF rep] sbind_run [of ?gap, OF f2])
      (auto simp: comp_simps file_write_all_at_def Let_def)
  show thesis
  proof (rule that [OF run _ s1(3,4)])
    have "fresh_log (eb_nonces ?s3) (eb_epoch ?s3) (eb_seq ?s3)"
      using fresh_advanced [OF fr, of "i - length bl + 1"] by (simp add: advanced_def)
    then show "eb_good P key ?s3 (put_block i plain bl) h1 p1"
      using b3 h3 b(2) s1(2) by (simp add: eb_good_def eb_rep_def)
  qed (use s1(5,6) in simp_all)
qed

subsection \<open>Bytes\<close>

definition pad :: "bytes \<Rightarrow> nat \<Rightarrow> byte" where
  "pad xs p = (if p < length xs then xs ! p else 0)"

definition blocks_sized :: "bytes list \<Rightarrow> bool" where
  "blocks_sized bl \<longleftrightarrow> (\<forall>b \<in> set bl. length b = 4096)"

lemma good_sized: "eb_good P key s bl hl p \<Longrightarrow> blocks_sized bl"
  by (auto simp: eb_good_def eb_rep_def blocks_ok_def opens_block_def blocks_sized_def in_set_conv_nth)

lemma length_concat_blocks: "blocks_sized bl \<Longrightarrow> length (concat bl) = length bl * 4096"
  by (induction bl) (auto simp: blocks_sized_def)

lemma pad_blocks:
  "blocks_sized bl \<Longrightarrow> pad (concat bl) p = (if p div 4096 < length bl then bl ! (p div 4096) else zero_block) ! (p mod 4096)"
proof (induction bl arbitrary: p)
  case Nil
  then show ?case by (simp add: pad_def zero_block_def)
next
  case (Cons b bl)
  then have b: "length b = 4096" and bl: "blocks_sized bl" by (auto simp: blocks_sized_def)
  show ?case
  proof (cases "p < 4096")
    case True
    then show ?thesis using b by (simp add: pad_def nth_append)
  next
    case False
    then have "p div 4096 = Suc ((p - 4096) div 4096)" "p mod 4096 = (p - 4096) mod 4096"
      by (simp_all add: le_div_geq le_mod_geq)
    moreover have "pad (concat (b # bl)) p = pad (concat bl) (p - 4096)" using b False by (auto simp: pad_def nth_append)
    ultimately show ?thesis using Cons.IH [OF bl, of "p - 4096"] by simp
  qed
qed

lemma put_block_sized: "blocks_sized bl \<Longrightarrow> length plain = 4096 \<Longrightarrow> blocks_sized (put_block i plain bl)"
  by (auto simp: blocks_sized_def put_block_def dest!: set_update_subset_insert [THEN subsetD] in_set_replicate [THEN iffD1])

lemma pad_put_block:
  assumes "blocks_sized bl" and "length plain = 4096"
  shows "pad (concat (put_block i plain bl)) p = (if p div 4096 = i then plain ! (p mod 4096) else pad (concat bl) p)"
  unfolding pad_blocks [OF put_block_sized [OF assms]] pad_blocks [OF assms(1)]
  by (cases "i < length bl") (auto simp: put_block_def nth_append nth_list_update)

lemma pad_write_at: "pad (write_at off d c) p = (if off \<le> p \<and> p < off + length d then d ! (p - off) else pad c p)"
  by (auto simp: pad_def write_at_def nth_append min_def)

lemma pad_eqI: "length c = length d \<Longrightarrow> pad c = pad d \<Longrightarrow> c = d"
  by (metis nth_equalityI pad_def)

lemma same_block:
  fixes p :: nat
  assumes "p mod d + j < d"
  shows "(p + j) div d = p div d" and "(p + j) mod d = p mod d + j"
proof -
  have "p + j = d * (p div d) + (p mod d + j)" by simp
  then show "(p + j) div d = p div d" and "(p + j) mod d = p mod d + j"
    using assms by (metis add.commute add_cancel_right_right div_less div_mult_self2 less_zeroE not_less0 gr_zeroI, metis mod_less mod_mult_self4 add.commute mod_mult_self2)
qed

lemma block_range: "blocks_sized bl \<Longrightarrow> p mod 4096 + n \<le> 4096 \<Longrightarrow>
    take n (drop (p mod 4096) (if p div 4096 < length bl then bl ! (p div 4096) else zero_block)) = map (pad (concat bl)) [p..<p + n]"
proof (rule nth_equalityI)
  assume bl: "blocks_sized bl" and n: "p mod 4096 + n \<le> 4096"
  let ?b = "if p div 4096 < length bl then bl ! (p div 4096) else zero_block"
  have l: "length ?b = 4096" using bl by (simp add: blocks_sized_def)
  then show "length (take n (drop (p mod 4096) ?b)) = length (map (pad (concat bl)) [p..<p + n])" using n by simp
  fix j assume "j < length (take n (drop (p mod 4096) ?b))"
  then have j: "j < n" by simp
  have "(p + j) div 4096 = p div 4096" "(p + j) mod 4096 = p mod 4096 + j"
    using same_block [of p 4096 j] j n by simp_all
  then show "take n (drop (p mod 4096) ?b) ! j = map (pad (concat bl)) [p..<p + n] ! j"
    using j n l pad_blocks [OF bl, of "p + j"] by simp
qed

lemma in_block_iff:
  assumes "pos mod d + n \<le> d" and "0 < (d :: nat)"
  shows "pos \<le> p \<and> p < pos + n \<longleftrightarrow> p div d = pos div d \<and> pos mod d \<le> p mod d \<and> p mod d < pos mod d + n"
proof
  assume p: "pos \<le> p \<and> p < pos + n"
  then have "pos mod d + (p - pos) < d" using assms(1) by linarith
  from same_block [OF this] p show "p div d = pos div d \<and> pos mod d \<le> p mod d \<and> p mod d < pos mod d + n" by auto
next
  assume a: "p div d = pos div d \<and> pos mod d \<le> p mod d \<and> p mod d < pos mod d + n"
  have "p = d * (pos div d) + p mod d" "pos = d * (pos div d) + pos mod d"
    using mult_div_mod_eq [of d p] mult_div_mod_eq [of d pos] a by simp_all
  then show "pos \<le> p \<and> p < pos + n" using a by linarith
qed

lemma pad_in_block:
  assumes sized: "blocks_sized bl" and n: "pos mod 4096 + n \<le> 4096" and d: "length d = n"
    and old: "old = (if pos mod 4096 = 0 \<and> n = 4096 then zero_block else if pos div 4096 < length bl then bl ! (pos div 4096) else zero_block)"
  shows "pad (concat (put_block (pos div 4096) (write_at (pos mod 4096) d old) bl)) p
    = (if pos \<le> p \<and> p < pos + n then d ! (p - pos) else pad (concat bl) p)"
proof -
  have lo: "length old = 4096" using sized by (simp add: old blocks_sized_def)
  have lp: "length (write_at (pos mod 4096) d old) = 4096" using lo n d by (simp add: length_write_at)
  show ?thesis
  proof (cases "p div 4096 = pos div 4096")
    case True
    have "write_at (pos mod 4096) d old ! (p mod 4096) = pad (write_at (pos mod 4096) d old) (p mod 4096)"
      using lp by (simp add: pad_def)
    also have "\<dots> = (if pos mod 4096 \<le> p mod 4096 \<and> p mod 4096 < pos mod 4096 + n then d ! (p mod 4096 - pos mod 4096)
        else old ! (p mod 4096))" unfolding pad_write_at using lo d by (simp add: pad_def)
    also have "\<dots> = (if pos \<le> p \<and> p < pos + n then d ! (p - pos) else pad (concat bl) p)"
    proof -
      have "p mod 4096 - pos mod 4096 = p - pos"
        using mult_div_mod_eq [of 4096 p] mult_div_mod_eq [of 4096 pos] True by linarith
      moreover have "old = (if pos div 4096 < length bl then bl ! (pos div 4096) else zero_block)"
        if "\<not> (pos mod 4096 \<le> p mod 4096 \<and> p mod 4096 < pos mod 4096 + n)" using that by (auto simp: old)
      ultimately show ?thesis using True in_block_iff [OF n, of p] pad_blocks [OF sized, of p] by auto
    qed
    finally show ?thesis using True pad_put_block [OF sized lp, of "pos div 4096" p] by simp
  next
    case False
    then show ?thesis using pad_put_block [OF sized lp, of "pos div 4096" p] in_block_iff [OF n, of p] by auto
  qed
qed

lemma eb_read_loop_ok:
  assumes "eb_good P key s bl hl pend"
  shows "eb_read_loop P key pos left out s = (s, Inr (out @ map (pad (concat bl)) [pos..<pos + left]))"
proof (induction left arbitrary: pos out rule: less_induct)
  case (less left)
  have rep: "eb_rep P key s bl" using assms by (simp add: eb_good_def)
  show ?case
  proof (cases "left = 0")
    case False
    define n where "n = min (4096 - pos mod 4096) left"
    have n: "0 < n" "n \<le> left" "pos mod 4096 + n \<le> 4096" using False by (auto simp: n_def min_def)
    have "[pos..<pos + left] = [pos..<pos + n] @ [pos + n..<pos + n + (left - n)]"
      using upt_add_eq_append [of pos "pos + n" "left - n"] n(2) by simp
    then show ?thesis
      using less.IH [of "left - n" "pos + n" "out @ map (pad (concat bl)) [pos..<pos + n]"] n False
        block_range [OF good_sized [OF assms] n(3)]
      by (subst eb_read_loop.simps) (simp add: Let_def sbind_def read_block_ok [OF rep] flip: n_def)
  qed (simp add: eb_read_loop.simps sret_def)
qed

lemma eb_write_loop_ok:
  assumes P: "aead_correct P" and "eb_good P key s bl hl False" and "hl = eb_logical_len s" and "eb_epoch s + length data \<le> MAX_U48"
  obtains s' bl' where "eb_write_loop P key pos data s = (s', Inr ())" and "eb_good P key s' bl' (eb_logical_len s) False"
    and "eb_logical_len s' = eb_logical_len s" and "eb_epoch s' \<le> eb_epoch s + length data"
    and "\<forall>p. pad (concat bl') p = (if pos \<le> p \<and> p < pos + length data then data ! (p - pos) else pad (concat bl) p)"
  using assms(2-4)
proof (induction "length data" arbitrary: pos data s bl hl thesis rule: less_induct)
  case less
  show ?case
  proof (cases "data = []")
    case True
    show ?thesis
      by (rule less.prems(1) [of s bl]) (use True less.prems(2,3) in \<open>auto simp: eb_write_loop.simps sret_def\<close>)
  next
    case False
    define n where "n = min (4096 - pos mod 4096) (length data)"
    have n: "0 < n" "n \<le> length data" "pos mod 4096 + n \<le> 4096" using False by (auto simp: n_def min_def)
    have rep: "eb_rep P key s bl" and sized: "blocks_sized bl" using less.prems(2) good_sized by (auto simp: eb_good_def)
    define old where "old = (if pos mod 4096 = 0 \<and> n = 4096 then zero_block else if pos div 4096 < length bl then bl ! (pos div 4096) else zero_block)"
    let ?get = "if pos mod 4096 = 0 \<and> n = 4096 then sret (replicate 4096 0) else read_block P key (pos div 4096)"
    have old: "?get s = (s, Inr old)"
      using read_block_ok [OF rep] by (simp add: old_def sret_def zero_block_def)
    have lo: "length old = 4096" using sized by (simp add: old_def blocks_sized_def)
    define plain where "plain = write_at (pos mod 4096) (take n data) old"
    have lp: "length plain = 4096" using lo n by (simp add: plain_def length_write_at)
    obtain s1 h1 p1 where s1: "write_block P key (pos div 4096) plain s = (s1, Inr ())"
      "eb_good P key s1 (put_block (pos div 4096) plain bl) h1 p1" "p1 \<longrightarrow> False" "h1 = hl \<or> h1 = eb_logical_len s"
      "eb_logical_len s1 = eb_logical_len s" "eb_epoch s1 \<le> eb_epoch s + 1"
      by (rule write_block_good [OF P less.prems(2) _ lp]) (use less.prems(4) False in \<open>auto simp: neq_Nil_conv\<close>)
    have g1: "eb_good P key s1 (put_block (pos div 4096) plain bl) (eb_logical_len s1) False"
      using s1(2-5) less.prems(3) by auto
    have lt: "length (drop n data) < length data" and e: "eb_epoch s1 + length (drop n data) \<le> MAX_U48"
      using n s1(6) less.prems(4) by auto
    obtain s' bl' where s': "eb_write_loop P key (pos + n) (drop n data) s1 = (s', Inr ())"
      "eb_good P key s' bl' (eb_logical_len s1) False" "eb_logical_len s' = eb_logical_len s1"
      "eb_epoch s' \<le> eb_epoch s1 + length (drop n data)"
      "\<forall>p. pad (concat bl') p = (if pos + n \<le> p \<and> p < pos + n + length (drop n data) then drop n data ! (p - (pos + n))
         else pad (concat (put_block (pos div 4096) plain bl)) p)"
      using less.hyps [OF lt _ g1 refl e, of "pos + n"] by blast
    have blk: "pad (concat (put_block (pos div 4096) plain bl)) p
        = (if pos \<le> p \<and> p < pos + n then data ! (p - pos) else pad (concat bl) p)" for p
      using pad_in_block [OF sized n(3), of "take n data" old p] n(2) unfolding plain_def old_def by auto
    show ?thesis
    proof (rule less.prems(1) [of s' bl'])
      show "eb_write_loop P key pos data s = (s', Inr ())"
        unfolding eb_write_loop.simps [of P key pos data] Let_def eb_sizes n_def [symmetric]
        by (simp only: False if_False sbind_run [of ?get, OF old] plain_def [symmetric]
            sbind_run [of "write_block P key (pos div 4096) plain", OF s1(1)] s'(1))
      show "\<forall>p. pad (concat bl') p = (if pos \<le> p \<and> p < pos + length data then data ! (p - pos) else pad (concat bl) p)"
        using n(2) by (auto simp: s'(5) blk)
    qed (use s' s1(5,6) n in auto)
  qed
qed

subsection \<open>The plain file\<close>

definition file_rep :: "crypto_prims \<Rightarrow> bytes \<Rightarrow> eb_inner \<Rightarrow> bytes \<Rightarrow> bool" where
  "file_rep P key s c \<longleftrightarrow> (\<exists>bl. eb_good P key s bl (eb_logical_len s) False \<and> length c = eb_logical_len s
     \<and> pad (concat bl) = pad c)"

lemma good_relabel: "eb_good P key s bl hl p \<Longrightarrow> l \<le> MAX_U48 \<Longrightarrow> eb_good P key (s\<lparr>eb_logical_len := l\<rparr>) bl hl p"
  by (simp add: eb_good_def eb_rep_def)

lemma good_headerE:
  assumes "aead_correct P" and "eb_good P key s bl hl p"
  obtains s' where "write_header P key False s = (s', Inr ())" and "eb_good P key s' bl (eb_logical_len s') False"
    and "eb_logical_len s' = eb_logical_len s" and "eb_epoch s' = eb_epoch s"
proof -
  have a: "eb_rep P key s bl" "eb_logical_len s \<le> MAX_U48" "eb_epoch s \<le> MAX_U48" "fresh_log (eb_nonces s) (eb_epoch s) (eb_seq s)"
    using assms(2) by (auto simp: eb_good_def)
  show thesis by (rule write_header_good [OF assms(1) a, where pending = False]) (use that in auto)
qed

lemma eb_write_rep:
  assumes P: "aead_correct P" and "file_rep P key s c" and ep: "eb_epoch s + length data \<le> MAX_U48" and len: "off + length data \<le> MAX_U48"
  shows "\<exists>s'. eb_write P key off data s = (s', Inr ()) \<and> file_rep P key s' (write_at off data c)
    \<and> eb_epoch s' \<le> eb_epoch s + length data"
proof -
  obtain bl where bl: "eb_good P key s bl (eb_logical_len s) False" "length c = eb_logical_len s" "pad (concat bl) = pad c"
    using assms(2) by (auto simp: file_rep_def)
  obtain s1 bl1 where s1: "eb_write_loop P key off data s = (s1, Inr ())" "eb_good P key s1 bl1 (eb_logical_len s) False"
    "eb_logical_len s1 = eb_logical_len s" "eb_epoch s1 \<le> eb_epoch s + length data"
    "\<forall>p. pad (concat bl1) p = (if off \<le> p \<and> p < off + length data then data ! (p - off) else pad (concat bl) p)"
    by (rule eb_write_loop_ok [OF P bl(1) refl ep])
  have pad: "pad (concat bl1) = pad (write_at off data c)" by (intro ext) (simp add: s1(5) bl(3) pad_write_at)
  have lc: "length (write_at off data c) = max (length c) (off + length data)"
    by (auto simp: write_at_def max_def)
  show ?thesis
  proof (cases "eb_logical_len s < off + length data")
    case True
    obtain s2 where "write_header P key False (s1\<lparr>eb_logical_len := off + length data\<rparr>) = (s2, Inr ())"
      "eb_good P key s2 bl1 (eb_logical_len s2) False" "eb_logical_len s2 = off + length data" "eb_epoch s2 = eb_epoch s1"
      by (rule good_headerE [OF P good_relabel [OF s1(2) len]]) simp
    then show ?thesis
      using s1(1,3,4) True pad lc bl(2) by (auto simp: eb_write_def comp_simps Let_def file_rep_def)
  next
    case False
    then show ?thesis using s1(1-4) pad lc bl(2) by (auto simp: eb_write_def comp_simps Let_def file_rep_def)
  qed
qed

lemma blocks_ok_take:
  assumes "blocks_ok P key file bl" and "k \<le> length bl"
  shows "blocks_ok P key (take (block_phys_offset k) file) (take k bl)"
proof -
  have "slice (take (block_phys_offset k) file) i = slice file i" if "i < k" for i
    using off_mono [OF that] by (simp add: slice_def drop_take min_def)
  then show ?thesis using assms by (auto simp: blocks_ok_def off_len)
qed

lemma header_says_cut: "header_says P key file l e p \<Longrightarrow> 52 \<le> n \<Longrightarrow> n \<le> length file \<Longrightarrow> header_says P key (take n file) l e p"
  by (subst header_says_take, subst (asm) header_says_take) (simp add: min_def)

lemma good_cut:
  assumes "eb_good P key s bl hl p" and "k < length bl"
  shows "eb_good P key (s\<lparr>eb_file := take (block_phys_offset k) (eb_file s), eb_phys_len := block_phys_offset k\<rparr>) (take k bl) hl p"
proof -
  have "length (eb_file s) = block_phys_offset (length bl)" using assms(1) by (simp add: eb_good_def eb_rep_def blocks_ok_def)
  moreover have "block_phys_offset k \<le> block_phys_offset (length bl)" using off_mono [OF assms(2)] by simp
  ultimately show ?thesis
    using assms blocks_ok_take [of P key "eb_file s" bl k] header_says_cut [of P key "eb_file s" hl "eb_epoch s" p "block_phys_offset k"]
    by (simp add: eb_good_def eb_rep_def off_len)
qed

lemma pad_take_blocks: "blocks_sized bl \<Longrightarrow> pad (concat (take k bl)) p = (if p < k * 4096 then pad (concat bl) p else 0)"
proof -
  assume b: "blocks_sized bl"
  then have "blocks_sized (take k bl)" by (auto simp: blocks_sized_def dest: in_set_takeD)
  moreover have "p div 4096 < k \<longleftrightarrow> p < k * 4096" by (simp add: div_less_iff_less_mult)
  ultimately show ?thesis using b by (auto simp: pad_blocks zero_block_def)
qed

lemma set_len_cut:
  assumes "eb_good P key s bl hl False"
  obtains s' where "(if block_phys_offset k < eb_phys_len s
      then sbind (file_set_len (block_phys_offset k)) (\<lambda>_. supd (\<lambda>s. s\<lparr>eb_phys_len := block_phys_offset k\<rparr>)) else sret ()) s = (s', Inr ())"
    and "eb_good P key s' (take k bl) hl False" and "eb_logical_len s' = eb_logical_len s" and "eb_epoch s' = eb_epoch s"
proof (cases "k < length bl")
  case True
  have "eb_faults s = []" "length (eb_file s) = block_phys_offset (length bl)" "eb_phys_len s = length (eb_file s)"
    using assms by (auto simp: eb_good_def eb_rep_def blocks_ok_def)
  then show thesis
    using that [OF _ good_cut [OF assms True]] off_mono [OF True] by (simp add: comp_simps file_set_len_def)
next
  case False
  then have "\<not> block_phys_offset k < eb_phys_len s"
    using assms by (simp add: eb_good_def eb_rep_def blocks_ok_def off_len)
  then show thesis using that [of s] assms False by (simp add: sret_def)
qed

lemma lex_less:
  fixes q :: nat
  assumes "m < d" and "r < d"
  shows "d * q + m < d * i + r \<longleftrightarrow> q < i \<or> q = i \<and> m < r"
proof (cases q i rule: linorder_cases)
  case less
  then have "d * (q + 1) \<le> d * i" by (intro mult_le_mono2) simp
  then have "d * q + m < d * i + r" using assms(1) by (simp add: algebra_simps)
  then show ?thesis using less by blast
next
  case greater
  then have "d * (i + 1) \<le> d * q" by (intro mult_le_mono2) simp
  then have "\<not> d * q + m < d * i + r" using assms(2) by (simp add: algebra_simps)
  then show ?thesis using greater by auto
qed simp

lemma set_len_zero:
  assumes P: "aead_correct P" and g: "eb_good P key s bl hl False" and ep: "eb_epoch s < MAX_U48"
    and k: "length bl \<le> div_ceil len 4096"
  obtains s' bl' hl' where "(if len mod 4096 \<noteq> 0 \<and> block_phys_offset (len div 4096 + 1) \<le> eb_phys_len s
      then sbind (read_block P key (len div 4096)) (\<lambda>plain.
             write_block P key (len div 4096) (take (len mod 4096) plain @ replicate (4096 - len mod 4096) 0))
      else sret ()) s = (s', Inr ())"
    and "eb_good P key s' bl' hl' False" and "eb_logical_len s' = eb_logical_len s" and "eb_epoch s' \<le> eb_epoch s + 1"
    and "\<forall>p. pad (concat bl') p = (if p < len then pad (concat bl) p else 0)"
proof (cases "len mod 4096 \<noteq> 0 \<and> len div 4096 < length bl")
  case True
  define r where "r = len mod 4096"
  define i where "i = len div 4096"
  have ln: "len = 4096 * i + r" "r < 4096" by (simp_all add: r_def i_def)
  have bl: "length bl = i + 1" using True k by (simp add: div_ceil_def i_def)
  have sized: "blocks_sized bl" by (rule good_sized [OF g])
  let ?plain = "take r (bl ! i) @ replicate (4096 - r) 0"
  have lb: "length (bl ! i) = 4096" using sized bl by (simp add: blocks_sized_def)
  have lp: "length ?plain = 4096" using lb ln(2) by simp
  have rep: "eb_rep P key s bl" using g by (simp add: eb_good_def)
  obtain s1 h1 p1 where s1: "write_block P key i ?plain s = (s1, Inr ())" "eb_good P key s1 (put_block i ?plain bl) h1 p1"
    "p1 \<longrightarrow> False" "eb_logical_len s1 = eb_logical_len s" "eb_epoch s1 \<le> eb_epoch s + 1"
    by (rule write_block_good [OF P g ep lp])
  have phys: "block_phys_offset (i + 1) \<le> eb_phys_len s"
    using g bl by (simp add: eb_good_def eb_rep_def blocks_ok_def)
  show thesis
  proof (rule that [of s1 "put_block i ?plain bl" h1])
    show "(if len mod 4096 \<noteq> 0 \<and> block_phys_offset (len div 4096 + 1) \<le> eb_phys_len s
      then sbind (read_block P key (len div 4096)) (\<lambda>plain.
             write_block P key (len div 4096) (take (len mod 4096) plain @ replicate (4096 - len mod 4096) 0))
      else sret ()) s = (s1, Inr ())"
      using True phys bl read_block_ok [OF rep, of i] s1(1) unfolding i_def [symmetric] r_def [symmetric]
      by (simp add: sbind_def)
    show "eb_good P key s1 (put_block i ?plain bl) h1 False" using s1(2,3) by simp
    show "\<forall>p. pad (concat (put_block i ?plain bl)) p = (if p < len then pad (concat bl) p else 0)"
    proof
      fix p :: nat
      have p: "p = 4096 * (p div 4096) + p mod 4096" "p mod 4096 < 4096" by simp_all
      have lt: "p < len \<longleftrightarrow> p div 4096 < i \<or> p div 4096 = i \<and> p mod 4096 < r"
        unfolding ln(1) using ln(2) p(2) by (subst p(1)) (rule lex_less; simp)
      show "pad (concat (put_block i ?plain bl)) p = (if p < len then pad (concat bl) p else 0)"
        unfolding pad_put_block [OF sized lp] lt using p(2) lb ln(2) bl
        by (auto simp: pad_blocks [OF sized] nth_append zero_block_def)
    qed
  qed (use s1 in auto)
next
  case False
  have sized: "blocks_sized bl" by (rule good_sized [OF g])
  have le: "length bl * 4096 \<le> len"
  proof (cases "len mod 4096 = 0")
    case True
    then have "length bl \<le> len div 4096" using k by (simp add: div_ceil_def)
    then show ?thesis by (simp add: less_eq_div_iff_mult_less_eq)
  next
    case no: False
    then have "length bl \<le> len div 4096" using False by simp
    then show ?thesis by (simp add: less_eq_div_iff_mult_less_eq)
  qed
  have "\<not> (len mod 4096 \<noteq> 0 \<and> block_phys_offset (len div 4096 + 1) \<le> eb_phys_len s)"
    using g False by (auto simp: eb_good_def eb_rep_def blocks_ok_def off_len)
  moreover have "\<forall>p. pad (concat bl) p = (if p < len then pad (concat bl) p else 0)"
    using le length_concat_blocks [OF sized] by (auto simp: pad_def)
  ultimately show thesis by (intro that [of s bl hl]) (use g in \<open>auto simp: sret_def\<close>)
qed

lemma eb_set_len_run:
  assumes "(if block_phys_offset (div_ceil len 4096) < eb_phys_len (s\<lparr>eb_logical_len := len\<rparr>)
      then sbind (file_set_len (block_phys_offset (div_ceil len 4096)))
             (\<lambda>_. supd (\<lambda>s. s\<lparr>eb_phys_len := block_phys_offset (div_ceil len 4096)\<rparr>))
      else sret ()) (s\<lparr>eb_logical_len := len\<rparr>) = (s1, Inr ())"
    and "(if len mod 4096 \<noteq> 0 \<and> block_phys_offset (len div 4096 + 1) \<le> eb_phys_len s1
      then sbind (read_block P key (len div 4096)) (\<lambda>plain.
             write_block P key (len div 4096) (take (len mod 4096) plain @ replicate (4096 - len mod 4096) 0))
      else sret ()) s1 = (s2, Inr ())"
    and "write_header P key False s2 = (s3, Inr ())"
  shows "eb_set_len P key len s = (s3, Inr ())"
proof -
  let ?cut = "if block_phys_offset (div_ceil len 4096) < eb_phys_len (s\<lparr>eb_logical_len := len\<rparr>)
      then sbind (file_set_len (block_phys_offset (div_ceil len 4096)))
             (\<lambda>_. supd (\<lambda>s. s\<lparr>eb_phys_len := block_phys_offset (div_ceil len 4096)\<rparr>))
      else sret ()"
  let ?zero = "if len mod 4096 \<noteq> 0 \<and> block_phys_offset (len div 4096 + 1) \<le> eb_phys_len s1
      then sbind (read_block P key (len div 4096)) (\<lambda>plain.
             write_block P key (len div 4096) (take (len mod 4096) plain @ replicate (4096 - len mod 4096) 0))
      else sret ()"
  note step = sbind_run [OF supd_def [THEN fun_cong]] sbind_run [OF sget_def [THEN fun_cong]]
  show ?thesis
    unfolding eb_set_len_def Let_def eb_sizes off_len(1) [of "div_ceil len 4096", symmetric]
    by (simp only: step sbind_run [of ?cut, OF assms(1)] sbind_run [of ?zero, OF assms(2)] assms(3))
qed

lemma eb_set_len_rep:
  assumes P: "aead_correct P" and "file_rep P key s c" and ep: "eb_epoch s < MAX_U48" and len: "len \<le> MAX_U48"
  shows "\<exists>s'. eb_set_len P key len s = (s', Inr ()) \<and> file_rep P key s' (take len c @ replicate (len - length c) 0)
    \<and> eb_epoch s' \<le> eb_epoch s + 1"
proof -
  obtain bl where bl: "eb_good P key s bl (eb_logical_len s) False" "length c = eb_logical_len s" "pad (concat bl) = pad c"
    using assms(2) by (auto simp: file_rep_def)
  define k where "k = div_ceil len 4096"
  let ?s0 = "s\<lparr>eb_logical_len := len\<rparr>"
  obtain s1 where s1: "(if block_phys_offset k < eb_phys_len ?s0
      then sbind (file_set_len (block_phys_offset k)) (\<lambda>_. supd (\<lambda>s. s\<lparr>eb_phys_len := block_phys_offset k\<rparr>)) else sret ()) ?s0 = (s1, Inr ())"
    "eb_good P key s1 (take k bl) (eb_logical_len s) False" "eb_logical_len s1 = eb_logical_len ?s0" "eb_epoch s1 = eb_epoch ?s0"
    by (rule set_len_cut [OF good_relabel [OF bl(1) len], of k])
  have ep1: "eb_epoch s1 < MAX_U48" using s1(4) ep by simp
  obtain s2 bl2 h2 where s2: "(if len mod 4096 \<noteq> 0 \<and> block_phys_offset (len div 4096 + 1) \<le> eb_phys_len s1
      then sbind (read_block P key (len div 4096)) (\<lambda>plain.
             write_block P key (len div 4096) (take (len mod 4096) plain @ replicate (4096 - len mod 4096) 0))
      else sret ()) s1 = (s2, Inr ())"
    "eb_good P key s2 bl2 h2 False" "eb_logical_len s2 = eb_logical_len s1" "eb_epoch s2 \<le> eb_epoch s1 + 1"
    "\<forall>p. pad (concat bl2) p = (if p < len then pad (concat (take k bl)) p else 0)"
    by (rule set_len_zero [OF P s1(2) ep1, of len]) (simp_all add: k_def)
  obtain s3 where s3: "write_header P key False s2 = (s3, Inr ())" "eb_good P key s3 bl2 (eb_logical_len s3) False"
    "eb_logical_len s3 = eb_logical_len s2" "eb_epoch s3 = eb_epoch s2"
    by (rule good_headerE [OF P s2(2)])
  have run: "eb_set_len P key len s = (s3, Inr ())"
    by (rule eb_set_len_run [OF s1(1) [unfolded k_def] s2(1) s3(1)])
  have "len \<le> k * 4096"
    using mult_div_mod_eq [of 4096 len] by (auto simp: k_def div_ceil_def algebra_simps)
  then have "pad (concat bl2) = pad (take len c @ replicate (len - length c) 0)"
    using s2(5) pad_take_blocks [OF good_sized [OF bl(1)], of k] bl(3) by (intro ext) (auto simp: pad_def nth_append)
  moreover have "length (take len c @ replicate (len - length c) 0) = eb_logical_len s3"
    using s1(3) s2(3) s3(3) by simp
  moreover have "eb_epoch s3 \<le> eb_epoch s + 1" using s1(4) s2(4) s3(4) by simp
  ultimately show ?thesis using run s3(2) unfolding file_rep_def by blast
qed

lemma open_empty_rep:
  assumes P: "aead_correct P" and "eb_file s = []" "eb_faults s = []" "eb_nonces s = []"
  shows "\<exists>s'. open_file P key f s = (s', Inr ()) \<and> file_rep P key s' [] \<and> eb_epoch s' = 1 \<and> length (eb_nonces s') = 1"
proof -
  let ?s = "s\<lparr>eb_logical_len := 0, eb_phys_len := 0, eb_epoch := 1, eb_seq := 0\<rparr>"
  obtain hdr where w: "write_header P key False ?s =
      ((advanced ?s 1)\<lparr>eb_file := write_at 0 hdr (eb_file ?s), eb_phys_len := max 52 (eb_phys_len ?s)\<rparr>, Inr ())"
    "length hdr = 52" "\<forall>rest. header_says P key (hdr @ rest) (eb_logical_len ?s) (eb_epoch ?s) False"
    by (rule write_header_ok [OF P, of ?s key False]) (use assms(3) in \<open>simp_all add: MAX_U48_def\<close>)
  let ?t = "(advanced ?s 1)\<lparr>eb_file := hdr, eb_phys_len := 52\<rparr>"
  have "header_says P key hdr 0 1 False" using w(3) [THEN spec, of "[]"] by simp
  moreover have "fresh_log (eb_nonces ?t) 1 1"
    using fresh_advanced [of ?s 1] assms(4) by (simp add: fresh_log_def advanced_def)
  ultimately have "eb_good P key ?t [] 0 False"
    using w(2) assms(3) by (simp add: eb_good_def eb_rep_def blocks_ok_def off_len MAX_U48_def)
  then have "file_rep P key ?t []" unfolding file_rep_def by (intro exI [of _ "[]"]) simp
  moreover have "open_file P key f s = (?t, Inr ())"
    using w(1) assms(2,3)
    by (simp add: open_file_def comp_simps file_len_def file_sync_def default_stored_header_def MAX_U48_def write_at_def Let_def)
  ultimately show ?thesis using assms(4) by (simp add: advanced_def)
qed

lemma reopen_rep:
  assumes P: "aead_correct P" and "file_rep P key s c" and ep: "eb_epoch s < MAX_U48"
  shows "\<exists>s'. open_file P key f s = (s', Inr ()) \<and> file_rep P key s' c \<and> eb_epoch s' = eb_epoch s + 1
    \<and> length (eb_nonces s') = length (eb_nonces s) + 1"
proof -
  obtain bl where bl: "eb_good P key s bl (eb_logical_len s) False" "length c = eb_logical_len s" "pad (concat bl) = pad c"
    using assms(2) by (auto simp: file_rep_def)
  let ?s = "s\<lparr>eb_phys_len := length (eb_file s), eb_epoch := eb_epoch s + 1, eb_seq := 0\<rparr>"
  have a: "eb_rep P key ?s bl" "eb_logical_len ?s \<le> MAX_U48" "eb_epoch ?s \<le> MAX_U48"
    "fresh_log (eb_nonces ?s) (eb_epoch ?s) (eb_seq ?s)" and nf: "eb_faults s = []"
    using bl(1) ep by (auto simp: eb_good_def eb_rep_def intro: fresh_log_epoch)
  obtain t where t: "write_header P key False ?s = (t, Inr ())" "eb_good P key t bl (eb_logical_len ?s) False"
    "eb_logical_len t = eb_logical_len ?s" "eb_epoch t = eb_epoch ?s" "length (eb_nonces t) = length (eb_nonces ?s) + 1"
    by (rule write_header_good [OF P a, where pending = False])
  obtain plain where h: "52 \<le> length (eb_file s)" "take 8 (eb_file s) = IDX_MAGIC"
    "gcm_open P key (take 12 (drop 8 (eb_file s))) IDX_MAGIC (drop 20 (take 52 (eb_file s))) = Some plain"
    "parse_header plain = Inr \<lparr>sh_logical_len = eb_logical_len s, sh_nonce_epoch = eb_epoch s, sh_legacy = False, sh_reseal_pending = False\<rparr>"
    using bl(1) by (auto simp: eb_good_def header_says_def)
  have "take 12 (drop 8 (take 52 (eb_file s))) = take 12 (drop 8 (eb_file s))" using h(1) by (simp add: drop_take min_def)
  then have rh: "read_header P key s = (s, Inr \<lparr>sh_logical_len = eb_logical_len s, sh_nonce_epoch = eb_epoch s, sh_legacy = False, sh_reseal_pending = False\<rparr>)"
    using h nf by (simp add: read_header_def comp_simps file_read_exact_at_def)
  have nt: "eb_faults t = []" using t(2) by (simp add: eb_good_def eb_rep_def)
  have ne: "eb_file s \<noteq> []" using h(1) by auto
  have "open_file P key f s = (t, Inr ())"
    using t(1) nf nt h(1,2) ep ne rh
    by (simp add: open_file_def sbind_def sret_def sfail_def supd_def file_len_def file_sync_def read_magic_def file_read_exact_at_def Let_def)
  moreover have "file_rep P key t c" using t(2,3) bl(2,3) by (auto simp: file_rep_def)
  ultimately show ?thesis using t(4,5) by simp
qed

subsection \<open>The contract of a storage backend\<close>

text \<open>
  The operations the database calls on its file, and what they do to an unencrypted one. Reading past
  the end gives zeros, as the block layer does. \<open>op_cost\<close> bounds by how much an operation can advance the
  epoch, \<open>op_end\<close> is the length it may give the file.
\<close>

datatype store_op = ReadAt nat nat | WriteAt nat bytes | SetLen nat | Reopen

fun plain_do :: "store_op \<Rightarrow> bytes \<Rightarrow> bytes \<times> bytes" where
  "plain_do (ReadAt off n) c = (c, map (pad c) [off..<off + n])"
| "plain_do (WriteAt off data) c = (write_at off data c, [])"
| "plain_do (SetLen len) c = (take len c @ replicate (len - length c) 0, [])"
| "plain_do Reopen c = (c, [])"

fun op_cost :: "store_op \<Rightarrow> nat" where
  "op_cost (ReadAt off n) = 0"
| "op_cost (WriteAt off data) = length data"
| "op_cost (SetLen len) = 1"
| "op_cost Reopen = 1"

fun op_end :: "store_op \<Rightarrow> nat" where
  "op_end (ReadAt off n) = 0"
| "op_end (WriteAt off data) = off + length data"
| "op_end (SetLen len) = len"
| "op_end Reopen = 0"

fun run_plain :: "store_op list \<Rightarrow> bytes \<Rightarrow> bytes \<times> bytes list" where
  "run_plain [] c = (c, [])"
| "run_plain (op # ops) c = (let (c, out) = plain_do op c; (c, outs) = run_plain ops c in (c, out # outs))"

fun run_ops :: "(store_op \<Rightarrow> ('s, 'e, bytes) comp) \<Rightarrow> store_op list \<Rightarrow> ('s, 'e, bytes list) comp" where
  "run_ops f [] = sret []"
| "run_ops f (op # ops) = sbind (f op) (\<lambda>out. sbind (run_ops f ops) (\<lambda>outs. sret (out # outs)))"

locale byte_store =
  fixes do_op :: "store_op \<Rightarrow> ('s, 'e, bytes) comp"
    and rep :: "nat \<Rightarrow> 's \<Rightarrow> bytes \<Rightarrow> bool"
  assumes do_op_rep: "rep b s c \<Longrightarrow> op_cost op \<le> b \<Longrightarrow> op_end op \<le> MAX_U48 \<Longrightarrow>
      \<exists>s'. do_op op s = (s', Inr (snd (plain_do op c))) \<and> rep (b - op_cost op) s' (fst (plain_do op c))"
begin

lemma run_rep:
  assumes "rep b s c" and "sum_list (map op_cost ops) \<le> b" and "\<forall>op \<in> set ops. op_end op \<le> MAX_U48"
  shows "\<exists>s'. run_ops do_op ops s = (s', Inr (snd (run_plain ops c)))
    \<and> rep (b - sum_list (map op_cost ops)) s' (fst (run_plain ops c))"
  using assms
proof (induction ops arbitrary: b s c)
  case (Cons op ops)
  obtain s1 where s1: "do_op op s = (s1, Inr (snd (plain_do op c)))" "rep (b - op_cost op) s1 (fst (plain_do op c))"
    using do_op_rep [of b s c op] Cons.prems by auto
  obtain s2 where "run_ops do_op ops s1 = (s2, Inr (snd (run_plain ops (fst (plain_do op c)))))"
    "rep (b - op_cost op - sum_list (map op_cost ops)) s2 (fst (run_plain ops (fst (plain_do op c))))"
    using Cons.IH [OF s1(2)] Cons.prems(2,3) by fastforce
  then show ?case using s1(1) by (simp add: sbind_def sret_def split_beta)
qed (simp add: sret_def)

end

fun eb_do :: "crypto_prims \<Rightarrow> bytes \<Rightarrow> foreign_file \<Rightarrow> store_op \<Rightarrow> bytes eb_comp" where
  "eb_do P key f (ReadAt off n) = eb_read P key off n"
| "eb_do P key f (WriteAt off data) = sbind (eb_write P key off data) (\<lambda>_. sret [])"
| "eb_do P key f (SetLen len) = sbind (eb_set_len P key len) (\<lambda>_. sret [])"
| "eb_do P key f Reopen = sbind (open_file P key f) (\<lambda>_. sret [])"

definition eb_holds :: "crypto_prims \<Rightarrow> bytes \<Rightarrow> nat \<Rightarrow> eb_inner \<Rightarrow> bytes \<Rightarrow> bool" where
  "eb_holds P key b s c \<longleftrightarrow> aead_correct P \<and> file_rep P key s c \<and> eb_epoch s + b \<le> MAX_U48"

lemma eb_read_rep: "file_rep P key s c \<Longrightarrow> eb_read P key off n s = (s, Inr (map (pad c) [off..<off + n]))"
  by (auto simp: file_rep_def eb_read_def eb_read_loop_ok)

lemma eb_do_rep:
  assumes "eb_holds P key b s c" and "op_cost op \<le> b" and "op_end op \<le> MAX_U48"
  shows "\<exists>s'. eb_do P key f op s = (s', Inr (snd (plain_do op c))) \<and> eb_holds P key (b - op_cost op) s' (fst (plain_do op c))"
proof (cases op)
  case (ReadAt off n)
  then show ?thesis using assms eb_read_rep by (auto simp: eb_holds_def)
next
  case (WriteAt off data)
  then show ?thesis
    using assms eb_write_rep [of P key s c data off] by (fastforce simp: eb_holds_def sbind_def sret_def)
next
  case (SetLen len)
  then show ?thesis
    using assms eb_set_len_rep [of P key s c len] by (fastforce simp: eb_holds_def sbind_def sret_def)
next
  case Reopen
  then show ?thesis
    using assms reopen_rep [of P key s c f] by (fastforce simp: eb_holds_def sbind_def sret_def)
qed

interpretation eb: byte_store "eb_do P key f" "eb_holds P key" for P key f
  by unfold_locales (rule eb_do_rep)

definition new_file :: "crypto_prims \<Rightarrow> bytes \<Rightarrow> eb_inner \<Rightarrow> bool" where
  "new_file P key s \<longleftrightarrow> aead_correct P \<and> eb_file s = [] \<and> eb_faults s = [] \<and> eb_nonces s = []"

lemma run_from_new:
  assumes "new_file P key s" and "sum_list (map op_cost ops) < MAX_U48" and "\<forall>op \<in> set ops. op_end op \<le> MAX_U48"
  obtains s0 s' where "open_file P key f s = (s0, Inr ())" and "run_ops (eb_do P key f) ops s0 = (s', Inr (snd (run_plain ops [])))"
    and "file_rep P key s' (fst (run_plain ops []))"
proof -
  obtain s0 where s0: "open_file P key f s = (s0, Inr ())" "file_rep P key s0 []" "eb_epoch s0 = 1"
    using open_empty_rep [of P s key f] assms(1) by (auto simp: new_file_def)
  then have "eb_holds P key (MAX_U48 - 1) s0 []"
    using assms(1) by (auto simp: eb_holds_def new_file_def MAX_U48_def)
  from eb.run_rep [OF this, of ops f] show thesis
    using that [OF s0(1)] assms(2,3) by (fastforce simp: eb_holds_def)
qed

text \<open>C25. A new encrypted file behaves, over every sequence of reads, writes, truncations and reopenings, like
  an unencrypted file: every operation succeeds and every read returns the bytes the plain file has
  there, whatever block boundaries, gaps or partial blocks the operations hit, as long as the offsets
  fit the 48-bit length field and the operations cannot exhaust the 48-bit epoch.\<close>

theorem encrypted_file_refines_plain:
  assumes "aead_correct P" and "eb_file s = []" and "eb_faults s = []" and "eb_nonces s = []"
    and "sum_list (map op_cost ops) < MAX_U48" and "\<forall>op \<in> set ops. op_end op \<le> MAX_U48"
  shows "\<exists>s0 s'. open_file P key f s = (s0, Inr ()) \<and> run_ops (eb_do P key f) ops s0 = (s', Inr (snd (run_plain ops [])))
    \<and> eb_logical_len s' = length (fst (run_plain ops []))"
  by (rule run_from_new [of P key s ops f]) (use assms in \<open>auto simp: new_file_def file_rep_def\<close>)

theorem encrypted_file_refines_plain_witness:
  "\<exists>s0 s'. open_file plain_prims (replicate 32 7) Reject
       \<lparr>eb_file = [], eb_logical_len = 0, eb_phys_len = 0, eb_epoch = 0, eb_seq = 0, eb_faults = [], eb_nonces = []\<rparr> = (s0, Inr ())
     \<and> run_ops (eb_do plain_prims (replicate 32 7) Reject) [WriteAt 9000 [1, 2, 3], Reopen, SetLen 9002, ReadAt 8999 4] s0
         = (s', Inr [[], [], [], [0, 1, 2, 0]])"
  using encrypted_file_refines_plain [OF plain_aead_correct,
      of "\<lparr>eb_file = [], eb_logical_len = 0, eb_phys_len = 0, eb_epoch = 0, eb_seq = 0, eb_faults = [], eb_nonces = []\<rparr>"
         "[WriteAt 9000 [1, 2, 3], Reopen, SetLen 9002, ReadAt 8999 4]" "replicate 32 7" Reject]
  by (auto simp: MAX_U48_def pad_def write_at_def upt_rec nth_append simp del: run_ops.simps)

text \<open>C26. Over such a run no nonce is drawn twice, so long as fewer than 2^48 were drawn: the epoch that
  every opening advances separates the runs, the sequence number the draws within one.\<close>

theorem index_nonces_distinct:
  assumes "aead_correct P" and "eb_file s = []" and "eb_faults s = []" and "eb_nonces s = []"
    and "sum_list (map op_cost ops) < MAX_U48" and "\<forall>op \<in> set ops. op_end op \<le> MAX_U48"
    and "open_file P key f s = (s0, Inr ())" and "run_ops (eb_do P key f) ops s0 = (s', r)"
    and "length (eb_nonces s') \<le> 2 ^ 48"
  shows "distinct (eb_nonces s')"
proof -
  have "new_file P key s" using assms(1-4) by (simp add: new_file_def)
  then obtain bl where "eb_good P key s' bl (eb_logical_len s') False"
    using run_from_new [of P key s ops f] assms(5-8) by (fastforce simp: file_rep_def)
  then have "fresh_log (eb_nonces s') (eb_epoch s') (eb_seq s')" and "eb_epoch s' < 2 ^ 48"
    by (auto simp: eb_good_def MAX_U48_def)
  then show ?thesis using assms(9) by (rule fresh_log_distinct)
qed

theorem index_nonces_distinct_witness:
  "\<exists>s0 s'. open_file plain_prims [] Reject
       \<lparr>eb_file = [], eb_logical_len = 0, eb_phys_len = 0, eb_epoch = 0, eb_seq = 0, eb_faults = [], eb_nonces = []\<rparr> = (s0, Inr ())
     \<and> run_ops (eb_do plain_prims [] Reject) [Reopen, ReadAt 7 2] s0 = (s', Inr [[], [0, 0]])
     \<and> length (eb_nonces s') = 2 \<and> distinct (eb_nonces s')"
proof -
  let ?s = "\<lparr>eb_file = [], eb_logical_len = 0, eb_phys_len = 0, eb_epoch = 0, eb_seq = 0, eb_faults = [], eb_nonces = []\<rparr>"
  obtain s0 where s0: "open_file plain_prims [] Reject ?s = (s0, Inr ())" "file_rep plain_prims [] s0 []" "eb_epoch s0 = 1"
    "length (eb_nonces s0) = 1"
    using open_empty_rep [OF plain_aead_correct, of ?s "[]" Reject] by auto
  obtain s1 where s1: "open_file plain_prims [] Reject s0 = (s1, Inr ())" "file_rep plain_prims [] s1 []"
    "length (eb_nonces s1) = 2"
    using reopen_rep [OF plain_aead_correct s0(2), of Reject] s0(3,4) by (auto simp: MAX_U48_def)
  have r: "run_ops (eb_do plain_prims [] Reject) [Reopen, ReadAt 7 2] s0 = (s1, Inr [[], [0, 0]])"
    using s1(1) eb_read_rep [OF s1(2), of 7 2] by (simp add: sbind_def sret_def pad_def upt_rec)
  have "distinct (eb_nonces s1)"
    by (rule index_nonces_distinct [OF plain_aead_correct _ _ _ _ _ s0(1) r]) (simp_all add: s1(3) MAX_U48_def)
  then show ?thesis using s0(1) r s1(3) by blast
qed

end
