(* ===== verification/File_Tree.thy ===== *)
theory File_Tree
  imports Crypto_Prims
begin

text \<open>
  The part of \<open>std::fs\<close> and \<open>tokio::fs\<close> the storage code uses. A tree of files is the contents and the
  modification time of every file and the list of directories, by path (the list of its components);
  \<open>ft_now\<close> is the system clock. The order of both lists is the order in which a directory is read.

  Every call consults \<open>ft_faults\<close>: a head \<open>Some (msg, k)\<close> makes it fail with that message, and a call that
  works in steps has done \<open>k\<close> of them by then (bytes written, directories created, entries removed);
  an empty list means no further failure. A call that fails from some point on for ever is a crash.
  A file that was opened keeps its contents when its path goes away, so an open file that is only read
  is its contents, and a write through a path that is gone has no effect.
\<close>

type_synonym path = "string list"

record file_tree =
  ft_files :: "(path, bytes \<times> time) dmap"
  ft_dirs :: "path list"
  ft_faults :: "(string \<times> nat) option list"
  ft_now :: time

type_synonym ('s, 'a) io_comp = "('s file_tree_scheme, io_error, 'a) comp"

definition ft_file :: "'s file_tree_scheme \<Rightarrow> path \<Rightarrow> bytes option" where
  "ft_file s p = map_option fst (dm_get (ft_files s) p)"

definition ft_is_dir :: "'s file_tree_scheme \<Rightarrow> path \<Rightarrow> bool" where
  "ft_is_dir s p \<longleftrightarrow> p \<in> set (ft_dirs s)"

definition put_file :: "path \<Rightarrow> bytes \<Rightarrow> 's file_tree_scheme \<Rightarrow> 's file_tree_scheme" where
  "put_file p bs s = s\<lparr>ft_files := dm_insert p (bs, ft_now s) (ft_files s)\<rparr>"

definition del_file :: "path \<Rightarrow> 's file_tree_scheme \<Rightarrow> 's file_tree_scheme" where
  "del_file p s = s\<lparr>ft_files := dm_remove p (ft_files s)\<rparr>"

text \<open>\<open>step_call\<close> pops the outcome of a call and runs it in full, or \<open>part\<close> for a failure.\<close>

definition step_call :: "(nat \<Rightarrow> 's file_tree_scheme \<Rightarrow> 's file_tree_scheme) \<Rightarrow> ('s, 'a) io_comp \<Rightarrow> ('s, 'a) io_comp" where
  "step_call part m s =
     (case ft_faults s of
        [] \<Rightarrow> m s
      | None # fs \<Rightarrow> m (s\<lparr>ft_faults := fs\<rparr>)
      | Some (msg, k) # fs \<Rightarrow> (part k (s\<lparr>ft_faults := fs\<rparr>), Inl (Os msg)))"

definition io_call :: "('s, 'a) io_comp \<Rightarrow> ('s, 'a) io_comp" where
  "io_call m = step_call (\<lambda>k s. s) m"

subsection \<open>Paths\<close>

definition path_prefixes :: "path \<Rightarrow> path list" where
  "path_prefixes p = map (\<lambda>n. take (Suc n) p) [0..<length p]"

text \<open>\<open>Path::display\<close> of an absolute path.\<close>

definition path_str :: "path \<Rightarrow> string" where
  "path_str p = concat (map (\<lambda>c. CHR ''/'' # c) p)"

text \<open>A file name as stem and extension: the extension follows the last dot, unless the name starts with
  it and has no other or is two dots.\<close>

definition split_file_name :: "string \<Rightarrow> string \<times> string option" where
  "split_file_name n =
     (let ext = rev (takeWhile (\<lambda>c. c \<noteq> CHR ''.'') (rev n));
          stem = rev (tl (dropWhile (\<lambda>c. c \<noteq> CHR ''.'') (rev n))) in
      if n = ''..'' \<or> CHR ''.'' \<notin> set n \<or> stem = [] then (n, None) else (stem, Some ext))"

definition file_stem :: "path \<Rightarrow> string option" where
  "file_stem p = (if p = [] \<or> last p = ''..'' then None else Some (fst (split_file_name (last p))))"

definition path_extension :: "path \<Rightarrow> string option" where
  "path_extension p = (if p = [] then None else snd (split_file_name (last p)))"

definition with_extension :: "path \<Rightarrow> string \<Rightarrow> path" where
  "with_extension p ext = (case file_stem p of None \<Rightarrow> p
     | Some stem \<Rightarrow> butlast p @ [if ext = [] then stem else stem @ ''.'' @ ext])"

definition lookup_err :: "'s file_tree_scheme \<Rightarrow> path \<Rightarrow> io_error" where
  "lookup_err s p = (if list_ex (\<lambda>q. q \<noteq> p \<and> ft_file s q \<noteq> None) (path_prefixes p)
     then Os ''Not a directory (os error 20)'' else NoSuchFile)"

subsection \<open>Reading\<close>

definition io_exists :: "path \<Rightarrow> ('s, bool) io_comp" where
  "io_exists p = io_call (\<lambda>s. (s, Inr (ft_file s p \<noteq> None \<or> ft_is_dir s p)))"

definition io_stat :: "path \<Rightarrow> ('s, unit) io_comp" where
  "io_stat p = io_call (\<lambda>s. (s, if ft_file s p \<noteq> None \<or> ft_is_dir s p then Inr () else Inl (lookup_err s p)))"

definition io_mtime :: "path \<Rightarrow> ('s, time) io_comp" where
  "io_mtime p = io_call (\<lambda>s. (s, case dm_get (ft_files s) p of Some (bs, t) \<Rightarrow> Inr t | None \<Rightarrow> Inl (lookup_err s p)))"

definition io_open :: "path \<Rightarrow> ('s, bytes) io_comp" where
  "io_open p = io_call (\<lambda>s. (s, case ft_file s p of
     Some bs \<Rightarrow> Inr bs
   | None \<Rightarrow> Inl (if ft_is_dir s p then Os ''Is a directory (os error 21)'' else lookup_err s p)))"

definition io_open_dir :: "path \<Rightarrow> ('s, unit) io_comp" where
  "io_open_dir p = io_call (\<lambda>s. (s, if ft_is_dir s p then Inr () else Inl (lookup_err s p)))"

definition io_read_exact :: "bytes \<Rightarrow> nat \<Rightarrow> nat \<Rightarrow> ('s, bytes) io_comp" where
  "io_read_exact contents pos n =
     io_call (slift (if pos + n \<le> length contents then Inr (take n (drop pos contents)) else Inl UnexpectedEof))"

definition io_fstat_len :: "bytes \<Rightarrow> ('s, u64) io_comp" where
  "io_fstat_len contents = io_call (sret (of_nat (length contents)))"

definition io_seek :: "('s, unit) io_comp" where "io_seek = io_call (sret ())"
definition io_sync :: "('s, unit) io_comp" where "io_sync = io_call (sret ())"

text \<open>The entries of a directory, each with whether it is a directory itself.\<close>

definition dir_entries :: "'s file_tree_scheme \<Rightarrow> path \<Rightarrow> (path \<times> bool) list" where
  "dir_entries s d =
     map (\<lambda>p. (p, True)) (filter (\<lambda>p. p \<noteq> [] \<and> butlast p = d) (remdups (ft_dirs s)))
     @ map (\<lambda>p. (p, False)) (filter (\<lambda>p. p \<noteq> [] \<and> butlast p = d) (map fst (ft_files s)))"

definition io_read_dir :: "path \<Rightarrow> ('s, (path \<times> bool) list) io_comp" where
  "io_read_dir d = io_call (\<lambda>s. (s, if ft_is_dir s d then Inr (dir_entries s d) else Inl (lookup_err s d)))"

text \<open>\<open>while let Some(e) = entries.next_entry().await?\<close>, and the loop body guarded by
  \<open>file_type().await?.is_dir()\<close>.\<close>

fun dir_loop :: "(path \<times> bool \<Rightarrow> 'acc \<Rightarrow> ('s, 'acc) io_comp) \<Rightarrow> (path \<times> bool) list \<Rightarrow> 'acc \<Rightarrow> ('s, 'acc) io_comp" where
  "dir_loop f [] acc = sbind (io_call (sret ())) (\<lambda>_. sret acc)"
| "dir_loop f (e # es) acc = sbind (io_call (sret ())) (\<lambda>_. sbind (f e acc) (dir_loop f es))"

definition visit :: "(path \<times> bool \<Rightarrow> 'acc \<Rightarrow> ('s, 'acc) io_comp) \<Rightarrow> path \<Rightarrow> 'acc \<Rightarrow> ('s, 'acc) io_comp" where
  "visit f d acc = sbind (io_read_dir d) (\<lambda>es. dir_loop f es acc)"

definition in_dirs :: "(path \<Rightarrow> 'acc \<Rightarrow> ('s, 'acc) io_comp) \<Rightarrow> path \<times> bool \<Rightarrow> 'acc \<Rightarrow> ('s, 'acc) io_comp" where
  "in_dirs g e acc = sbind (io_call (sret (snd e))) (\<lambda>is_dir. if is_dir then g (fst e) acc else sret acc)"

subsection \<open>Writing\<close>

definition add_dirs :: "path list \<Rightarrow> 's file_tree_scheme \<Rightarrow> 's file_tree_scheme" where
  "add_dirs ps s = s\<lparr>ft_dirs := ft_dirs s @ filter (\<lambda>p. p \<notin> set (ft_dirs s)) ps\<rparr>"

definition io_create_dir_all :: "path \<Rightarrow> ('s, unit) io_comp" where
  "io_create_dir_all p = step_call (\<lambda>k. add_dirs (take k (path_prefixes p)))
     (\<lambda>s. if list_ex (\<lambda>q. ft_file s q \<noteq> None) (path_prefixes p)
          then (s, Inl (Os ''Not a directory (os error 20)''))
          else (add_dirs (path_prefixes p) s, Inr ()))"

text \<open>Opening with \<open>create(true).truncate(true)\<close>.\<close>

definition io_open_trunc :: "path \<Rightarrow> ('s, unit) io_comp" where
  "io_open_trunc p = io_call
     (\<lambda>s. if ft_is_dir s p then (s, Inl (Os ''Is a directory (os error 21)''))
          else if \<not> ft_is_dir s (butlast p) then (s, Inl (lookup_err s p))
          else (put_file p [] s, Inr ()))"

definition write_through :: "path \<Rightarrow> nat \<Rightarrow> bytes \<Rightarrow> 's file_tree_scheme \<Rightarrow> 's file_tree_scheme" where
  "write_through p pos bs s = (case ft_file s p of
     None \<Rightarrow> s | Some old \<Rightarrow> if bs = [] then s else put_file p (write_at pos bs old) s)"

text \<open>A \<open>tokio::fs::File\<close> takes the bytes of a write, hands them to a worker and returns; the next operation on the file waits for the
  worker, and the next write reports the error of the last one. \<open>io_write_all\<close> is a write that another write on the same file
  follows: its error comes back before anything more is written, and the model reports it at once. The same definition
  stands for the write inside \<open>tokio::fs::write\<close>, which the worker does to the end.\<close>

definition io_write_all :: "path \<Rightarrow> nat \<Rightarrow> bytes \<Rightarrow> ('s, unit) io_comp" where
  "io_write_all p pos bs = step_call (\<lambda>k. write_through p pos (take k bs)) (supd (write_through p pos bs))"

text \<open>\<open>io_write_last\<close> is a write after which the file is dropped without \<open>flush\<close>: the caller sees success, and an error of the worker
  is lost, with the bytes written so far in the file. A \<open>sync_data\<close> in between waits for the worker but does not report
  its error. A write that is still on its way when the file is read looks the same to the reader.\<close>

definition io_write_last :: "path \<Rightarrow> nat \<Rightarrow> bytes \<Rightarrow> ('s, unit) io_comp" where
  "io_write_last p pos bs = sbind (stry (io_write_all p pos bs)) (\<lambda>_. sret ())"

definition io_rename :: "path \<Rightarrow> path \<Rightarrow> ('s, unit) io_comp" where
  "io_rename src dst = io_call
     (\<lambda>s. case dm_get (ft_files s) src of
        None \<Rightarrow> (s, Inl (lookup_err s src))
      | Some f \<Rightarrow>
        if ft_is_dir s dst then (s, Inl (Os ''Is a directory (os error 21)''))
        else if \<not> ft_is_dir s (butlast dst) then (s, Inl (lookup_err s dst))
        else (s\<lparr>ft_files := dm_insert dst f (dm_remove src (ft_files s))\<rparr>, Inr ()))"

definition io_remove_file :: "path \<Rightarrow> ('s, unit) io_comp" where
  "io_remove_file p = io_call
     (\<lambda>s. if ft_file s p = None
          then (s, Inl (if ft_is_dir s p then Os ''Is a directory (os error 21)'' else lookup_err s p))
          else (del_file p s, Inr ()))"

definition io_remove_dir_all :: "path \<Rightarrow> ('s, unit) io_comp" where
  "io_remove_dir_all p = step_call
     (\<lambda>k s. s\<lparr>ft_files := dm_remove_all (take k (filter (prefix p) (map fst (ft_files s)))) (ft_files s)\<rparr>)
     (\<lambda>s. if \<not> ft_is_dir s p then (s, Inl (lookup_err s p))
          else (s\<lparr>ft_files := filter (\<lambda>(q, f). \<not> prefix p q) (ft_files s),
                  ft_dirs := filter (\<lambda>q. \<not> prefix p q) (ft_dirs s)\<rparr>, Inr ()))"

end
