(* ===== verification/Object_Format.thy ===== *)
theory Object_Format
  imports Node_Keys
begin

text \<open>
  The single-file object record of \<open>crates/y2q-core/src/storage/format.rs\<close>: a 64-byte header (repeated
  as the trailer) around the payload and the metadata blob. \<open>encode_header\<close> and \<open>decode_header\<close> are
  \<open>Header::encode\<close> and \<open>Header::decode\<close>; the header is authenticated with HMAC-SHA256 under the
  container header key and bound to the object id. The lemmas show what decoding an encoded header
  returns under any key and object id, what a header that decodes must look like, and that the
  unchecked offset arithmetic cannot wrap once \<open>check_total_len\<close> has passed.
\<close>

definition MAGIC :: bytes where "MAGIC = as_bytes ''Y2QO''"
definition VERSION :: u16 where "VERSION = 2"
definition HEADER_SIZE :: nat where "HEADER_SIZE = 64"
definition MIN_DIRECT_DATA_OFFSET :: u32 where "MIN_DIRECT_DATA_OFFSET = 4096"
definition WRITTEN_O_DIRECT :: u16 where "WRITTEN_O_DIRECT = push_bit 0 1"
definition DURABLE :: u16 where "DURABLE = push_bit 1 1"

datatype format_error =
    Magic
  | Version u16
  | Crc
  | Mac
  | TotalLen u64 u64
  | DataOffset u32

record header =
  hd_data_len :: u64
  hd_meta_len :: u32
  hd_data_offset :: u32
  hd_flags :: u16
  hd_version :: u16

definition MIN_DATA_OFFSET :: u32 where "MIN_DATA_OFFSET = of_nat HEADER_SIZE"

definition meta_offset :: "header \<Rightarrow> u64" where
  "meta_offset h = ucast (hd_data_offset h) + hd_data_len h"

definition trailer_offset :: "header \<Rightarrow> u64" where
  "trailer_offset h = meta_offset h + ucast (hd_meta_len h)"

definition checked_total_len :: "header \<Rightarrow> u64 option" where
  "checked_total_len h =
     Option.bind (checked_add_u64 (ucast (hd_data_offset h)) (hd_data_len h)) (\<lambda>a.
     Option.bind (checked_add_u64 a (ucast (hd_meta_len h))) (\<lambda>b.
     checked_add_u64 b (of_nat HEADER_SIZE)))"

definition check_total_len :: "header \<Rightarrow> u64 \<Rightarrow> format_error + unit" where
  "check_total_len h actual =
     (case checked_total_len h of
        Some declared \<Rightarrow> if declared = actual then Inr () else Inl (TotalLen declared actual)
      | None \<Rightarrow> Inl (TotalLen (- 1) actual))"

definition header_mac :: "crypto_prims \<Rightarrow> bytes \<Rightarrow> bytes \<Rightarrow> string \<Rightarrow> bytes" where
  "header_mac P chk buf object_id = hmac_sha256 P chk (take 24 buf @ as_bytes object_id)"

text \<open>Bytes \<open>0 ..< 24\<close>, every field that drives a read.\<close>

definition header_fields_bytes :: "header \<Rightarrow> bytes" where
  "header_fields_bytes h =
     MAGIC @ to_le_u16 (hd_version h) @ to_le_u16 (hd_flags h) @ to_le_u64 (hd_data_len h)
     @ to_le_u32 (hd_meta_len h) @ to_le_u32 (hd_data_offset h)"

definition encode_header :: "crypto_prims \<Rightarrow> header \<Rightarrow> bytes \<Rightarrow> string \<Rightarrow> bytes" where
  "encode_header P h chk object_id =
     (let buf = header_fields_bytes h;
          buf = buf @ header_mac P chk buf object_id @ replicate 4 0
      in buf @ to_le_u32 (crc32 P buf))"

definition field :: "nat \<Rightarrow> nat \<Rightarrow> bytes \<Rightarrow> bytes" where
  "field i j buf = take (j - i) (drop i buf)"

definition decode_header :: "crypto_prims \<Rightarrow> bytes \<Rightarrow> bytes \<Rightarrow> string \<Rightarrow> format_error + header" where
  "decode_header P buf chk object_id =
     (if field 0 4 buf \<noteq> MAGIC then Inl Magic else
      let version = from_le_u16 (field 4 6 buf) in
      if version \<noteq> VERSION then Inl (Version version) else
      if from_le_u32 (field 60 64 buf) \<noteq> crc32 P (field 0 60 buf) then Inl Crc else
      if field 24 56 buf \<noteq> header_mac P chk buf object_id then Inl Mac else
      let raw_data_offset = from_le_u32 (field 20 24 buf);
          data_offset = (if raw_data_offset = 0 then MIN_DATA_OFFSET else raw_data_offset) in
      if data_offset < MIN_DATA_OFFSET then Inl (DataOffset data_offset) else
      Inr \<lparr> hd_data_len = from_le_u64 (field 8 16 buf), hd_meta_len = from_le_u32 (field 16 20 buf),
            hd_data_offset = data_offset, hd_flags = from_le_u16 (field 6 8 buf),
            hd_version = version \<rparr>)"

subsection \<open>Layout lemmas\<close>

lemma length_object_MAGIC [simp]: "length MAGIC = 4"
  by (simp add: MAGIC_def)

lemma length_header_fields_bytes [simp]: "length (header_fields_bytes h) = 24"
  by (simp add: header_fields_bytes_def)

lemma encoded_fields:
  fixes mac crc :: bytes and h :: header
  assumes "length mac = 32"
  defines "buf \<equiv> header_fields_bytes h @ mac @ replicate 4 0 @ crc"
  shows "field 0 4 buf = MAGIC" "field 4 6 buf = to_le_u16 (hd_version h)"
    "field 6 8 buf = to_le_u16 (hd_flags h)" "field 8 16 buf = to_le_u64 (hd_data_len h)"
    "field 16 20 buf = to_le_u32 (hd_meta_len h)" "field 20 24 buf = to_le_u32 (hd_data_offset h)"
    "field 24 56 buf = mac" "field 0 60 buf = header_fields_bytes h @ mac @ replicate 4 0"
    "length crc = 4 \<Longrightarrow> field 60 64 buf = crc" "take 24 buf = header_fields_bytes h"
  using assms by (simp_all add: field_def header_fields_bytes_def)

lemma encode_header_layout:
  "encode_header P h chk oid = header_fields_bytes h @ hmac_sha256 P chk (header_fields_bytes h @ as_bytes oid)
     @ replicate 4 0 @ to_le_u32 (crc32 P (header_fields_bytes h
         @ hmac_sha256 P chk (header_fields_bytes h @ as_bytes oid) @ replicate 4 0))"
  by (simp add: encode_header_def header_mac_def Let_def)

lemma header_fields_bytes_inj: "header_fields_bytes h = header_fields_bytes h' \<longleftrightarrow> h = h'"
  by (auto simp: header_fields_bytes_def le16.enc_append_inj le32.enc_append_inj le64.enc_append_inj
      le32.enc_inj)

lemma field_split:
  assumes "length buf = 64"
  shows "take 24 buf = field 0 4 buf @ field 4 6 buf @ field 6 8 buf @ field 8 16 buf @ field 16 20 buf @ field 20 24 buf"
proof -
  have "take (i + j) xs = take i xs @ take j (drop i xs)" for i j and xs :: bytes by (rule take_add)
  from this [of 20 4 buf] this [of 16 4 buf] this [of 8 8 buf] this [of 6 2 buf] this [of 4 2 buf]
  show ?thesis by (simp add: field_def)
qed

text \<open>What a decoded header says about the buffer it came from.\<close>

lemma decode_header_fields:
  assumes "length buf = 64" and "decode_header P buf chk oid = Inr h"
  shows "hd_version h = VERSION" and "MIN_DATA_OFFSET \<le> hd_data_offset h"
    and "field 24 56 buf = hmac_sha256 P chk (take 24 buf @ as_bytes oid)"
    and "take 24 buf = header_fields_bytes h
      \<or> hd_data_offset h = MIN_DATA_OFFSET \<and> take 24 buf = header_fields_bytes (h\<lparr>hd_data_offset := 0\<rparr>)"
proof -
  have len: "length (field i j buf) = j - i" if "i \<le> j" "j \<le> 64" for i j
    using that assms(1) by (simp add: field_def)
  have v: "from_le_u16 (field 4 6 buf) = x \<longleftrightarrow> field 4 6 buf = to_le_u16 x" for x
    using le16.enc_dec [of "field 4 6 buf"] len by auto
  have o: "from_le_u32 (field 20 24 buf) = x \<longleftrightarrow> field 20 24 buf = to_le_u32 x" for x
    using le32.enc_dec [of "field 20 24 buf"] len by auto
  show "hd_version h = VERSION" and "MIN_DATA_OFFSET \<le> hd_data_offset h"
    and "field 24 56 buf = hmac_sha256 P chk (take 24 buf @ as_bytes oid)"
    and "take 24 buf = header_fields_bytes h
      \<or> hd_data_offset h = MIN_DATA_OFFSET \<and> take 24 buf = header_fields_bytes (h\<lparr>hd_data_offset := 0\<rparr>)"
    using assms(2)
    by (auto simp: decode_header_def Let_def v o header_mac_def field_split [OF assms(1)] header_fields_bytes_def
        le16.enc_dec le32.enc_dec le64.enc_dec len split: if_splits)
qed

lemma unat_ucast_u64: "unat (ucast w :: u64) = unat (w :: u32)"
proof -
  have "unat w < 2 ^ 64" using unsigned_less [of w, where 'a = nat] by simp
  then show ?thesis by (simp add: unsigned_ucast_eq take_bit_nat_eq_self)
qed

lemma checked_total_len_Some:
  "checked_total_len h = Some t \<longleftrightarrow>
     unat t = unat (hd_data_offset h) + unat (hd_data_len h) + unat (hd_meta_len h) + HEADER_SIZE"
proof -
  have t: "unat t < 2 ^ 64" using unsigned_less [of t] by simp
  have u: "unat (of_nat n :: u64) = n" if "n \<le> unat t" for n using that t by (simp add: unat_of_nat)
  have "(\<exists>x y. unat (x :: u64) = a + b \<and> unat (y :: u64) = unat x + c \<and> unat t = unat y + 64)
      \<longleftrightarrow> unat t = a + b + c + 64" for a b c
  proof
    assume "unat t = a + b + c + 64"
    then show "\<exists>x y. unat (x :: u64) = a + b \<and> unat (y :: u64) = unat x + c \<and> unat t = unat y + 64"
      using u [of "a + b"] u [of "a + b + c"]
      by (intro exI [of _ "of_nat (a + b)"] exI [of _ "of_nat (a + b + c)"]) (simp del: of_nat_add)
  qed auto
  then show ?thesis
    by (simp add: checked_total_len_def bind_eq_Some_conv checked_add_u64_Some unat_ucast_u64 HEADER_SIZE_def)
qed

subsection \<open>Properties of the object record\<close>

lemma length_encode_header: "hmac_len P \<Longrightarrow> length (encode_header P h chk oid) = 64"
  by (simp add: encode_header_layout hmac_len_def)

text \<open>Decoding an encoded header, key and object id left open.\<close>

lemma decode_encoded:
  assumes "hmac_len P" and "hd_version h = VERSION"
    and "hd_data_offset h = 0 \<or> MIN_DATA_OFFSET \<le> hd_data_offset h"
  shows "decode_header P (encode_header P h chk oid) chk' oid' =
    (if hmac_sha256 P chk (header_fields_bytes h @ as_bytes oid)
        = hmac_sha256 P chk' (header_fields_bytes h @ as_bytes oid')
     then Inr (if hd_data_offset h = 0 then h\<lparr>hd_data_offset := MIN_DATA_OFFSET\<rparr> else h)
     else Inl Mac)"
proof -
  let ?mac = "hmac_sha256 P chk (header_fields_bytes h @ as_bytes oid)"
  have "length ?mac = 32" using assms(1) by (simp add: hmac_len_def)
  note f = encoded_fields [OF this, where h = h
      and crc = "to_le_u32 (crc32 P (header_fields_bytes h @ ?mac @ replicate 4 0))"]
  show ?thesis
    unfolding encode_header_layout decode_header_def f(1-8) f(9) [OF le32.enc_length] Let_def header_mac_def f(10)
    using assms(2,3) by (auto simp: not_less)
qed

text \<open>Decoding a header this program wrote, under any header key and for any object id, returns the
  fields that were written (an offset of zero reads as 64) when the two MACs agree, and the MAC
  error otherwise: a header moved to another object or read under another key never decodes
  unless HMAC itself collides.\<close>

lemma header_decode_encode:
  assumes "hmac_len P" and "hd_version h = VERSION"
    and "hd_data_offset h = 0 \<or> MIN_DATA_OFFSET \<le> hd_data_offset h"
  shows "decode_header P (encode_header P h chk oid) chk' oid' =
    (if hmac_sha256 P chk (header_fields_bytes h @ as_bytes oid)
        = hmac_sha256 P chk' (header_fields_bytes h @ as_bytes oid')
     then Inr (if hd_data_offset h = 0 then h\<lparr>hd_data_offset := MIN_DATA_OFFSET\<rparr> else h)
     else Inl Mac)"
  using assms by (rule decode_encoded)

text \<open>A header that decodes has the current version, starts its data after the header, and carries the
  authentic MAC of exactly the fields returned (with the offset as stored, zero or explicit); no
  other header decodes from a buffer with the same 24 leading bytes.\<close>

lemma header_decode_sound:
  assumes "length buf = 64" and "decode_header P buf chk oid = Inr h"
  shows "hd_version h = VERSION \<and> MIN_DATA_OFFSET \<le> hd_data_offset h
    \<and> (\<exists>stored. take 24 buf = header_fields_bytes stored
        \<and> field 24 56 buf = hmac_sha256 P chk (header_fields_bytes stored @ as_bytes oid)
        \<and> h = stored\<lparr>hd_data_offset := if hd_data_offset stored = 0 then MIN_DATA_OFFSET else hd_data_offset stored\<rparr>)"
proof -
  note d = decode_header_fields [OF assms]
  have "MIN_DATA_OFFSET \<noteq> 0" by (simp add: MIN_DATA_OFFSET_def HEADER_SIZE_def)
  then show ?thesis
    using d by (cases "take 24 buf = header_fields_bytes h")
      (fastforce, auto intro!: exI [of _ "h\<lparr>hd_data_offset := 0\<rparr>"])
qed

lemma total_len_meta_offset:
  assumes "check_total_len h actual = Inr ()"
  shows "unat (meta_offset h) = unat (hd_data_offset h) + unat (hd_data_len h)"
proof -
  have "checked_total_len h = Some actual"
    using assms by (auto simp: check_total_len_def split: option.splits if_splits)
  moreover have "unat actual < 2 ^ 64" using unsigned_less [of actual] by simp
  ultimately show ?thesis
    unfolding checked_total_len_Some meta_offset_def by (subst unat_add_u64) (simp_all add: unat_ucast_u64)
qed

text \<open>Once \<open>check_total_len\<close> has accepted the size of a file, none of the unchecked offset sums wraps,
  and payload, metadata and trailer lie one after the other and end exactly at the end of the
  file; a size that differs is rejected.\<close>

lemma check_total_len_exact:
  assumes "check_total_len h actual = Inr ()"
  shows "unat (meta_offset h) = unat (hd_data_offset h) + unat (hd_data_len h)
    \<and> unat (trailer_offset h) = unat (meta_offset h) + unat (hd_meta_len h)
    \<and> unat (trailer_offset h) + HEADER_SIZE = unat actual
    \<and> (\<forall>other. check_total_len h other = Inr () \<longleftrightarrow> other = actual)"
proof -
  have c: "checked_total_len h = Some actual"
    using assms by (auto simp: check_total_len_def split: option.splits if_splits)
  have "unat actual < 2 ^ 64" using unsigned_less [of actual] by simp
  note m = total_len_meta_offset [OF assms]
  moreover have "unat (trailer_offset h) = unat (meta_offset h) + unat (hd_meta_len h)"
    using c m \<open>unat actual < 2 ^ 64\<close> unfolding checked_total_len_Some trailer_offset_def
    by (subst unat_add_u64) (simp_all add: unat_ucast_u64)
  moreover have "check_total_len h other = Inr () \<longleftrightarrow> other = actual" for other
    using c by (auto simp: check_total_len_def)
  ultimately show ?thesis
    using c by (simp add: checked_total_len_Some)
qed

end
