(* ===== verification/Label_Query.thy ===== *)
theory Label_Query
  imports Core_Types
begin

text \<open>
  The label query language of \<open>crates/y2q-core/src/query/mod.rs\<close>: the query tree, its evaluation, the
  guards of \<open>LabelQuery::parse\<close> and the construction of the tree from the parse tree. The parser that
  \<open>pest\<close> generates from \<open>grammar.pest\<close>, the operator-precedence fold of \<open>PrattParser\<close> and the
  \<open>regex\<close> engine are outside the repository; they are the arguments \<open>pest_parse\<close>, \<open>pratt\<close>,
  \<open>regex_new\<close> and \<open>is_match\<close>. A compiled regex is represented by its pattern.
\<close>

datatype match_op =
    Eq string
  | Ne string
  | Regex string
  | Prefix string
  | Suffix string

datatype label_query =
    And label_query label_query
  | Or label_query label_query
  | Not label_query
  | Cond string match_op

definition MAX_PAREN_DEPTH :: nat where "MAX_PAREN_DEPTH = 32"
definition MAX_QUERY_OPERATORS :: nat where "MAX_QUERY_OPERATORS = 128"

subsection \<open>Evaluation\<close>

fun op_matches :: "(string \<Rightarrow> string \<Rightarrow> bool) \<Rightarrow> match_op \<Rightarrow> string list \<Rightarrow> bool" where
  "op_matches is_match (Ne v) vals = (\<not> list_ex (\<lambda>x. x = v) vals)"
| "op_matches is_match (Eq v) vals = list_ex (\<lambda>x. x = v) vals"
| "op_matches is_match (Regex re) vals = list_ex (\<lambda>x. is_match re x) vals"
| "op_matches is_match (Prefix v) vals = list_ex (\<lambda>x. prefix v x) vals"
| "op_matches is_match (Suffix v) vals = list_ex (\<lambda>x. suffix v x) vals"

fun matches :: "(string \<Rightarrow> string \<Rightarrow> bool) \<Rightarrow> label_query \<Rightarrow> label_set \<Rightarrow> bool" where
  "matches is_match (And a b) labels = (matches is_match a labels \<and> matches is_match b labels)"
| "matches is_match (Or a b) labels = (matches is_match a labels \<or> matches is_match b labels)"
| "matches is_match (Not inner) labels = (\<not> matches is_match inner labels)"
| "matches is_match (Cond name op) labels =
     op_matches is_match op (map snd (filter (\<lambda>(n, _). n = name) labels))"

subsection \<open>Parsing\<close>

text \<open>The rules of \<open>grammar.pest\<close> as the enum the derive generates; its \<open>Debug\<close> prints the name.\<close>

datatype rule = R_EOI | R_WHITESPACE | R_query | R_expr | R_infix | R_and | R_or | R_prefix | R_not
  | R_primary | R_condition | R_op | R_eq | R_ne | R_re | R_pre | R_suf | R_ident | R_value | R_string
  | R_inner | R_bare

fun rule_debug :: "rule \<Rightarrow> string" where
  "rule_debug R_EOI = ''EOI''" | "rule_debug R_WHITESPACE = ''WHITESPACE''"
| "rule_debug R_query = ''query''" | "rule_debug R_expr = ''expr''" | "rule_debug R_infix = ''infix''"
| "rule_debug R_and = ''and''" | "rule_debug R_or = ''or''" | "rule_debug R_prefix = ''prefix''"
| "rule_debug R_not = ''not''" | "rule_debug R_primary = ''primary''"
| "rule_debug R_condition = ''condition''" | "rule_debug R_op = ''op''" | "rule_debug R_eq = ''eq''"
| "rule_debug R_ne = ''ne''" | "rule_debug R_re = ''re''" | "rule_debug R_pre = ''pre''"
| "rule_debug R_suf = ''suf''" | "rule_debug R_ident = ''ident''" | "rule_debug R_value = ''value''"
| "rule_debug R_string = ''string''" | "rule_debug R_inner = ''inner''" | "rule_debug R_bare = ''bare''"

datatype pair = Pair (as_rule: rule) (as_str: string) (into_inner: "pair list")

definition value_str :: "pair \<Rightarrow> string" where
  "value_str p =
     (if as_rule p = R_string then (case into_inner p of i # _ \<Rightarrow> as_str i | [] \<Rightarrow> '''')
      else as_str p)"

definition build_condition :: "(string \<Rightarrow> string + string) \<Rightarrow> pair \<Rightarrow> error + label_query" where
  "build_condition regex_new pair =
     (case into_inner pair of
        [] \<Rightarrow> Inl (Query ''condition missing label name'')
      | [_] \<Rightarrow> Inl (Query ''condition missing operator'')
      | [_, _] \<Rightarrow> Inl (Query ''condition missing value'')
      | name # op_pair # val # _ \<Rightarrow>
          (let value = value_str val;
               cond = (\<lambda>op. Inr (Cond (as_str name) op)) in
           case as_rule op_pair of
             R_eq \<Rightarrow> cond (Eq value)
           | R_ne \<Rightarrow> cond (Ne value)
           | R_pre \<Rightarrow> cond (Prefix value)
           | R_suf \<Rightarrow> cond (Suffix value)
           | R_re \<Rightarrow> (case regex_new value of
                 Inr re \<Rightarrow> cond (Regex re)
               | Inl e \<Rightarrow> Inl (Query (''invalid regex `'' @ value @ ''`: '' @ e)))
           | other \<Rightarrow> Inl (Query (''unexpected operator: '' @ rule_debug other))))"

definition map_prefix :: "rule \<Rightarrow> error + label_query \<Rightarrow> error + label_query" where
  "map_prefix op rhs =
     (case op of R_not \<Rightarrow> rbind rhs (\<lambda>q. Inr (Not q))
      | other \<Rightarrow> Inl (Query (''unexpected prefix: '' @ rule_debug other)))"

definition map_infix :: "error + label_query \<Rightarrow> rule \<Rightarrow> error + label_query \<Rightarrow> error + label_query" where
  "map_infix lhs op rhs =
     rbind lhs (\<lambda>l. rbind rhs (\<lambda>r.
       case op of R_and \<Rightarrow> Inr (And l r) | R_or \<Rightarrow> Inr (Or l r)
       | other \<Rightarrow> Inl (Query (''unexpected operator: '' @ rule_debug other))))"

text \<open>The operator table of \<open>PRATT\<close>, from the loosest level to the tightest.\<close>

datatype pratt_op = InfixLeft rule | PrefixOp rule

definition PRATT :: "pratt_op list" where
  "PRATT = [InfixLeft R_or, InfixLeft R_and, PrefixOp R_not]"

type_synonym pratt_fold = "pratt_op list
  \<Rightarrow> (rule \<Rightarrow> error + label_query \<Rightarrow> error + label_query)
  \<Rightarrow> (error + label_query \<Rightarrow> rule \<Rightarrow> error + label_query \<Rightarrow> error + label_query)
  \<Rightarrow> (rule \<times> (error + label_query)) list \<Rightarrow> error + label_query"

text \<open>The closures of \<open>build_expr\<close> are pure, so the result of the primary closure on each token is
  computed before the fold chooses which tokens are primaries.\<close>

fun build_primary :: "pratt_fold \<Rightarrow> (string \<Rightarrow> string + string) \<Rightarrow> pair \<Rightarrow> error + label_query" where
  "build_primary pratt regex_new (Pair r s inner) =
     (case r of
        R_condition \<Rightarrow> build_condition regex_new (Pair r s inner)
      | R_expr \<Rightarrow> pratt PRATT map_prefix map_infix (map (\<lambda>p. (as_rule p, build_primary pratt regex_new p)) inner)
      | other \<Rightarrow> Inl (Query (''unexpected token: '' @ rule_debug other)))"

definition build_expr :: "pratt_fold \<Rightarrow> (string \<Rightarrow> string + string) \<Rightarrow> pair list \<Rightarrow> error + label_query" where
  "build_expr pratt regex_new pairs =
     pratt PRATT map_prefix map_infix (map (\<lambda>p. (as_rule p, build_primary pratt regex_new p)) pairs)"

fun flatten :: "pair \<Rightarrow> pair list" where
  "flatten (Pair r s inner) = Pair r s inner # concat (map flatten inner)"

text \<open>The nesting guard scans the raw text; \<open>span\<close> is the pair of positions of the first and the last
  quote. The result is the final depth, or \<open>None\<close> when the limit was exceeded on the way.\<close>

definition find_char :: "char \<Rightarrow> string \<Rightarrow> nat option" where
  "find_char c s = (case filter (\<lambda>i. s ! i = c) [0..<length s] of i # _ \<Rightarrow> Some i | [] \<Rightarrow> None)"

definition rfind_char :: "char \<Rightarrow> string \<Rightarrow> nat option" where
  "rfind_char c s = (case rev (filter (\<lambda>i. s ! i = c) [0..<length s]) of i # _ \<Rightarrow> Some i | [] \<Rightarrow> None)"

definition quote_span :: "string \<Rightarrow> (nat \<times> nat) option" where
  "quote_span s = (case (find_char CHR 0x22 s, rfind_char CHR 0x22 s) of
     (Some a, Some b) \<Rightarrow> Some (a, b) | _ \<Rightarrow> None)"

definition in_span :: "(nat \<times> nat) option \<Rightarrow> nat \<Rightarrow> bool" where
  "in_span sp i = (case sp of None \<Rightarrow> False | Some (a, b) \<Rightarrow> a < i \<and> i < b)"

fun paren_scan :: "(nat \<times> nat) option \<Rightarrow> nat \<Rightarrow> nat \<Rightarrow> string \<Rightarrow> nat option" where
  "paren_scan sp i depth [] = Some depth"
| "paren_scan sp i depth (c # cs) =
     (if c = CHR ''('' then
        if depth + 1 > MAX_PAREN_DEPTH then None else paren_scan sp (i + 1) (depth + 1) cs
      else if c = CHR '')'' \<and> \<not> in_span sp i then paren_scan sp (i + 1) (depth - 1) cs
      else paren_scan sp (i + 1) depth cs)"

definition parse ::
    "pratt_fold \<Rightarrow> (string \<Rightarrow> string + string) \<Rightarrow> (string \<Rightarrow> string + pair list) \<Rightarrow> string \<Rightarrow> error + label_query" where
  "parse pratt regex_new pest_parse input =
     (case paren_scan (quote_span input) 0 0 input of
        None \<Rightarrow> Inl (Query (''query parenthesis nesting exceeds 32 levels ''
          @ ''(parenthesis characters inside quoted text also count toward the limit)''))
      | Some _ \<Rightarrow>
        rbind (map_err Query (pest_parse input)) (\<lambda>pairs.
        rbind (ok_or (case pairs of p # _ \<Rightarrow> Some p | [] \<Rightarrow> None) (Query ''empty query'')) (\<lambda>query.
        rbind (ok_or (find (\<lambda>p. as_rule p = R_expr) (into_inner query)) (Query ''empty query'')) (\<lambda>expr.
        if MAX_QUERY_OPERATORS < length (filter (\<lambda>p. as_rule p \<in> {R_not, R_and, R_or})
             (concat (map flatten (into_inner expr))))
        then Inl (Query ''query contains more than 128 operators (and/or/not)'')
        else build_expr pratt regex_new (into_inner expr)))))"

subsection \<open>What a query means\<close>

text \<open>The documented meaning, on the set of labels: a positive condition asks for some value under the
  name, \<open>!=\<close> for none.\<close>

fun holds_value :: "(string \<Rightarrow> string \<Rightarrow> bool) \<Rightarrow> match_op \<Rightarrow> string \<Rightarrow> bool" where
  "holds_value is_match (Eq v) x = (x = v)"
| "holds_value is_match (Ne v) x = (x = v)"
| "holds_value is_match (Regex re) x = is_match re x"
| "holds_value is_match (Prefix v) x = (\<exists>t. x = v @ t)"
| "holds_value is_match (Suffix v) x = (\<exists>t. x = t @ v)"

fun query_sem :: "(string \<Rightarrow> string \<Rightarrow> bool) \<Rightarrow> label_query \<Rightarrow> (string \<times> string) set \<Rightarrow> bool" where
  "query_sem is_match (And a b) L = (query_sem is_match a L \<and> query_sem is_match b L)"
| "query_sem is_match (Or a b) L = (query_sem is_match a L \<or> query_sem is_match b L)"
| "query_sem is_match (Not a) L = (\<not> query_sem is_match a L)"
| "query_sem is_match (Cond name (Ne v)) L = ((name, v) \<notin> L)"
| "query_sem is_match (Cond name op) L = (\<exists>x. (name, x) \<in> L \<and> holds_value is_match op x)"

lemma op_matches_sem: "op_matches is_match op (map snd (filter (\<lambda>(n, _). n = name) labels))
    = query_sem is_match (Cond name op) (set labels)"
  by (cases op) (auto simp: list_ex_iff prefix_def suffix_def image_iff)

lemma matches_sem: "matches is_match q labels = query_sem is_match q (set labels)"
proof (induction q)
  case (Cond name op)
  then show ?case by (simp only: matches.simps op_matches_sem)
qed auto

text \<open>The depth a reader sees that treats the positions in \<open>quoted\<close> as text, as a list over time.\<close>

fun nesting :: "(nat \<Rightarrow> bool) \<Rightarrow> nat \<Rightarrow> nat \<Rightarrow> string \<Rightarrow> nat list" where
  "nesting quoted i depth [] = [depth]"
| "nesting quoted i depth (c # cs) = depth #
     nesting quoted (i + 1)
       (if quoted i then depth else if c = CHR ''('' then depth + 1 else if c = CHR '')'' then depth - 1 else depth) cs"

lemma nesting_bounded:
  "paren_scan sp i guard cs = Some d \<Longrightarrow> depth \<le> guard \<Longrightarrow> guard \<le> MAX_PAREN_DEPTH \<Longrightarrow>
   \<forall>j. quoted j \<longrightarrow> in_span sp j \<Longrightarrow> n \<in> set (nesting quoted i depth cs) \<Longrightarrow> n \<le> MAX_PAREN_DEPTH"
proof (induction cs arbitrary: i guard depth)
  case (Cons c cs)
  show ?case
  proof (cases "n = depth")
    case False
    then have n: "n \<in> set (nesting quoted (i + 1) (if quoted i then depth else if c = CHR ''('' then depth + 1
        else if c = CHR '')'' then depth - 1 else depth) cs)"
      using Cons.prems(5) by simp
    show ?thesis
      by (rule Cons.IH [OF _ _ _ Cons.prems(4) n, where guard = "if c = CHR ''('' then guard + 1
          else if c = CHR '')'' \<and> \<not> in_span sp i then guard - 1 else guard"])
        (use Cons.prems in \<open>auto split: if_splits\<close>)
  qed (use Cons.prems in simp)
qed simp

subsection \<open>Properties of label queries\<close>

text \<open>Evaluation implements the documented meaning of a query, which depends only on the set of
  labels: a positive condition holds when some value under the name satisfies it, \<open>!=\<close> when no value
  under the name equals the operand, and so also when the label is absent.\<close>

lemma matches_query_sem: "matches is_match q labels = query_sem is_match q (set labels)"
  by (rule matches_sem)

text \<open>The nesting guard never under-counts: when it lets a query through, no reading of the text that
  treats only characters strictly between the first and the last quote as quoted text ever nests
  deeper than 32 levels.\<close>

lemma paren_guard_never_undercounts:
  assumes "paren_scan (quote_span input) 0 0 input = Some d"
    and "\<forall>j. quoted j \<longrightarrow> in_span (quote_span input) j" and "n \<in> set (nesting quoted 0 0 input)"
  shows "n \<le> MAX_PAREN_DEPTH"
  by (rule nesting_bounded [OF assms(1) _ _ assms(2,3)]) simp_all

end
