(* ===== verification/Ordered_Table.thy ===== *)
theory Ordered_Table
  imports Core_Types
begin

text \<open>
  Ordered tables of byte strings, as the \<open>redb\<close> database of the metadata index provides them, and the
  byte-string order they follow. A table is the association list of its rows in ascending key order,
  which is what its iterators yield; lookups satisfy the contract \<open>kv_store\<close>. The module also holds
  the range-scan successor \<open>next_lex_after\<close> of \<open>storage/index.rs\<close> with its specification: it is the
  least byte string above every extension of its argument.
\<close>

subsection \<open>Ordered tables\<close>

type_synonym table = "(bytes, bytes) dmap"

fun tb_insert :: "bytes \<Rightarrow> bytes \<Rightarrow> table \<Rightarrow> table" where
  "tb_insert k v [] = [(k, v)]"
| "tb_insert k v ((k', v') # t) =
     (if k < k' then (k, v) # (k', v') # t else if k = k' then (k, v) # t else (k', v') # tb_insert k v t)"

fun tb_remove :: "bytes \<Rightarrow> table \<Rightarrow> table" where
  "tb_remove k [] = []"
| "tb_remove k ((k', v') # t) = (if k = k' then t else (k', v') # tb_remove k t)"

definition tb_range :: "bytes \<Rightarrow> table \<Rightarrow> table" where
  "tb_range start t = filter (\<lambda>(k, _). start \<le> k) t"

definition tb_inv :: "table \<Rightarrow> bool" where
  "tb_inv t \<longleftrightarrow> sorted_wrt (<) (map fst t)"

text \<open>The loop runs from the last byte to the first: trailing \<open>0xFF\<close> bytes are cut off and the byte
  before them is incremented.\<close>

fun next_lex_rev :: "bytes \<Rightarrow> bytes option" where
  "next_lex_rev [] = None"
| "next_lex_rev (b # bs) = (if b < 0xFF then Some (rev bs @ [b + 1]) else next_lex_rev bs)"

definition next_lex_after :: "bytes \<Rightarrow> bytes option" where
  "next_lex_after v = next_lex_rev (rev v)"

subsection \<open>Byte-string order\<close>

lemma lex_append_less: "xs @ ys < xs @ zs \<longleftrightarrow> ys < (zs :: 'a::linorder list)"
  by (induction xs) auto

lemma lex_append_le: "xs @ ys \<le> xs @ zs \<longleftrightarrow> ys \<le> (zs :: 'a::linorder list)"
  by (induction xs) auto

lemma prefix_le: "prefix p k \<Longrightarrow> p \<le> (k :: 'a::linorder list)"
  by (auto simp: prefix_def) (metis append_Nil2 lex_append_le Nil_le_Cons list.exhaust order_refl)

lemma lex_interval: "p \<le> x \<Longrightarrow> x \<le> y \<Longrightarrow> prefix p y \<Longrightarrow> prefix p (x :: 'a::linorder list)"
proof (induction p arbitrary: x y)
  case (Cons a p)
  then show ?case by (cases x; cases y) (auto simp: Cons_le_Cons)
qed simp

lemma byte_succ: "b < (0xFF :: byte) \<Longrightarrow> c < b + 1 \<longleftrightarrow> c \<le> b"
proof -
  assume "b < 0xFF"
  then have "unat b < 255" by (simp add: word_less_nat_alt)
  then have "unat (b + 1) = unat b + 1" by (simp add: unat_word_ariths)
  then show ?thesis by (simp add: word_less_nat_alt word_le_nat_alt less_Suc_eq_le)
qed

lemma byte_max: "\<not> b < (0xFF :: byte) \<Longrightarrow> b = 0xFF"
proof -
  assume "\<not> b < 0xFF"
  then have "\<not> unat b < 255" by (simp add: word_less_nat_alt)
  moreover have "unat b < 256" by simp
  ultimately have "unat b = 255" by arith
  then show ?thesis by (simp add: word_unat_eq_iff)
qed

lemma succ_prefix:
  "b < 0xFF \<Longrightarrow> xs @ [b] \<le> k \<Longrightarrow> k < xs @ [b + 1] \<longleftrightarrow> prefix (xs @ [b]) (k :: bytes)"
proof (induction xs arbitrary: k)
  case Nil
  then show ?case
  proof (cases k)
    case (Cons c cs)
    then show ?thesis using Nil by (auto simp: Cons_le_Cons byte_succ)
  qed simp
next
  case (Cons x xs)
  then show ?case by (cases k) (auto simp: Cons_le_Cons)
qed

lemma max_prefix: "xs @ [0xFF] \<le> k \<Longrightarrow> prefix xs k \<Longrightarrow> prefix (xs @ [0xFF]) (k :: bytes)"
proof (induction xs arbitrary: k)
  case Nil
  have "c = 0xFF" if "\<not> c < 0xFF" for c :: byte using byte_max that by blast
  then show ?case using Nil by (cases k) (auto simp: Cons_le_Cons not_less)
next
  case (Cons x xs)
  then show ?case by (cases k) (auto simp: Cons_le_Cons)
qed

lemma next_lex_rev_spec:
  "rev q \<le> k \<Longrightarrow> (case next_lex_rev q of Some n \<Rightarrow> k < n \<longleftrightarrow> prefix (rev q) k | None \<Rightarrow> prefix (rev q) k)"
proof (induction q)
  case (Cons b bs)
  show ?case
  proof (cases "b < 0xFF")
    case True
    then show ?thesis using succ_prefix [OF True, of "rev bs" k] Cons.prems by simp
  next
    case False
    then have b: "b = 0xFF" by (rule byte_max)
    have "rev bs \<le> k" using Cons.prems by (metis order_trans prefix_le prefix_def rev.simps(2))
    moreover have "prefix (rev bs @ [b]) k \<longleftrightarrow> prefix (rev bs) k"
      using Cons.prems max_prefix b by (auto dest: append_prefixD)
    ultimately show ?thesis using Cons.IH False by (simp split: option.splits)
  qed
qed simp

lemma next_lex_after_spec:
  "p \<le> k \<Longrightarrow> (case next_lex_after p of Some n \<Rightarrow> k < n \<longleftrightarrow> prefix p k | None \<Rightarrow> prefix p k)"
  using next_lex_rev_spec [of "rev p" k, unfolded rev_rev_ident] by (simp only: next_lex_after_def)

subsection \<open>Lookup laws of the tables\<close>

lemma tb_inv_Cons: "tb_inv ((k, v) # t) \<longleftrightarrow> tb_inv t \<and> (\<forall>k' \<in> fst ` set t. k < k')"
  by (auto simp: tb_inv_def)

lemma set_tb_insert: "fst ` set (tb_insert k v t) = insert k (fst ` set t)"
  by (induction k v t rule: tb_insert.induct) auto

lemma set_tb_remove: "fst ` set (tb_remove k t) \<subseteq> fst ` set t"
  by (induction k t rule: tb_remove.induct) auto

lemma tb_inv_insert: "tb_inv t \<Longrightarrow> tb_inv (tb_insert k v t)"
proof (induction k v t rule: tb_insert.induct)
  case (2 k v k' v' t)
  then show ?case by (cases "k < k'"; cases "k = k'") (fastforce simp: tb_inv_Cons set_tb_insert)+
qed (simp add: tb_inv_def)

lemma tb_inv_remove: "tb_inv t \<Longrightarrow> tb_inv (tb_remove k t)"
proof (induction k t rule: tb_remove.induct)
  case (2 k k' v' t)
  then show ?case using set_tb_remove [of k t] by (auto simp: tb_inv_Cons dest!: subsetD)
qed simp

lemma tb_inv_distinct: "tb_inv t \<Longrightarrow> distinct (map fst t)"
  by (simp add: tb_inv_def strict_sorted_iff)

lemma map_of_tb_insert: "map_of (tb_insert k v t) = (map_of t)(k \<mapsto> v)"
  by (induction k v t rule: tb_insert.induct) (auto simp: fun_eq_iff)

lemma map_of_tb_remove: "tb_inv t \<Longrightarrow> map_of (tb_remove k t) = (map_of t)(k := None)"
proof (induction k t rule: tb_remove.induct)
  case (2 k k' v' t)
  then show ?case by (force simp: fun_eq_iff tb_inv_Cons map_of_eq_None_iff)
qed (simp add: fun_eq_iff)

interpretation tb: kv_store dm_get tb_insert tb_remove "\<lambda>t. t" tb_inv
  by unfold_locales (simp_all add: map_of_tb_insert map_of_tb_remove tb_inv_insert tb_inv_remove tb_inv_distinct)

lemma tb_range_Cons:
  assumes "tb_inv t" and "tb_range start t = (k, v) # r"
  shows "(k, v) \<in> set t" and "start \<le> k" and "\<And>k' v'. (k', v') \<in> set t \<Longrightarrow> start \<le> k' \<Longrightarrow> k \<le> k'"
proof -
  have m: "(k, v) \<in> set (tb_range start t)" using assms(2) by simp
  then show "(k, v) \<in> set t" "start \<le> k" by (simp_all add: tb_range_def)
  have "sorted_wrt (<) (map fst (tb_range start t))"
    using assms(1) by (induction t) (auto simp: tb_inv_def tb_range_def)
  then show "k \<le> k'" if "(k', v') \<in> set t" "start \<le> k'" for k' v'
    using that assms(2) by (force simp: tb_range_def dest: arg_cong [of _ _ set])
qed

text \<open>The rows under a prefix are contiguous in an ordered table.\<close>

lemma takeWhile_range:
  assumes "tb_inv t"
  shows "takeWhile (\<lambda>(k, v). prefix p k) (tb_range p t) = filter (\<lambda>(k, v). prefix p k) t"
  using assms
proof (induction t)
  case (Cons row t)
  obtain k v where row: "row = (k, v)" by (cases row)
  have gt: "k < k'" if "(k', v') \<in> set t" for k' v' using Cons.prems row that by (force simp: tb_inv_Cons)
  have IH: "takeWhile (\<lambda>(k, v). prefix p k) (tb_range p t) = filter (\<lambda>(k, v). prefix p k) t"
    using Cons by (simp add: row tb_inv_Cons)
  consider "prefix p k" | "\<not> prefix p k" "p \<le> k" | "\<not> p \<le> k" by blast
  then show ?case
  proof cases
    case 2
    then have "filter (\<lambda>(k, v). prefix p k) t = []"
      using gt lex_interval [of p k] by (fastforce simp: filter_empty_conv)
    then show ?thesis using 2 row by (simp add: tb_range_def)
  qed (use IH row prefix_le [of p k] in \<open>auto simp: tb_range_def\<close>)
qed (simp add: tb_range_def)

end
