(* ===== verification/Metadata_Index.thy ===== *)
theory Metadata_Index
  imports Label_Query Ordered_Table Node_Keys
begin

text \<open>
  The metadata index of \<open>crates/y2q-core/src/storage/index.rs\<close>: three \<open>redb\<close> tables (objects, labels,
  buckets) keyed by length-prefixed byte strings, the transactions that keep them, and the paged
  scans.

  The tables are those of \<open>Ordered_Table\<close>. Every operation takes \<open>fault\<close>, the message of an error raised by the database or by joining its blocking task;
  an aborted transaction leaves the tables as they were. \<open>serde_json\<close> is the pair of arguments
  \<open>ser\<close>, \<open>de\<close>, and the law the index relies on is \<open>json_round_trip\<close>.
\<close>

subsection \<open>Key encodings\<close>

definition str_ok :: "string \<Rightarrow> bool" where
  "str_ok s \<longleftrightarrow> rust_str s \<and> length s < 2 ^ 32"

definition write_len_prefixed :: "bytes \<Rightarrow> string \<Rightarrow> bytes" where
  "write_len_prefixed buf s = buf @ to_be_u32 (of_nat (length (as_bytes s))) @ as_bytes s"

definition encode_object_key :: "string \<Rightarrow> string \<Rightarrow> bytes" where
  "encode_object_key bucket key = write_len_prefixed (write_len_prefixed [] bucket) key"

definition encode_bucket_prefix :: "string \<Rightarrow> bytes" where
  "encode_bucket_prefix bucket = write_len_prefixed [] bucket"

definition encode_label_key :: "string \<Rightarrow> string \<Rightarrow> string \<Rightarrow> string \<Rightarrow> bytes" where
  "encode_label_key name value bucket key =
     write_len_prefixed (write_len_prefixed (write_len_prefixed (write_len_prefixed [] name) value) bucket) key"

definition encode_label_prefix :: "string \<Rightarrow> string \<Rightarrow> bytes" where
  "encode_label_prefix name value = write_len_prefixed (write_len_prefixed [] name) value"

definition read_len_prefixed :: "bytes \<Rightarrow> (string \<times> bytes) option" where
  "read_len_prefixed buf =
     (if length buf < 4 then None else
      let len = unat (from_be_u32 (take 4 buf)) in
      if length buf < 4 + len then None else
      Option.bind (from_utf8 (take len (drop 4 buf))) (\<lambda>s. Some (s, drop (4 + len) buf)))"

definition decode_label_suffix :: "bytes \<Rightarrow> (string \<times> string) option" where
  "decode_label_suffix buf =
     Option.bind (read_len_prefixed buf) (\<lambda>(bucket, rest).
     Option.bind (read_len_prefixed rest) (\<lambda>(key, _). Some (bucket, key)))"


lemma write_len_prefixed_Nil: "write_len_prefixed buf s = buf @ encode_bucket_prefix s"
  by (simp add: write_len_prefixed_def encode_bucket_prefix_def)

lemma encode_splits:
  "encode_object_key b k = encode_bucket_prefix b @ encode_bucket_prefix k"
  "encode_label_prefix n v = encode_bucket_prefix n @ encode_bucket_prefix v"
  "encode_label_key n v b k = encode_label_prefix n v @ encode_object_key b k"
  by (simp_all add: encode_object_key_def encode_label_prefix_def encode_label_key_def write_len_prefixed_Nil)

lemma read_encoded: "str_ok s \<Longrightarrow> read_len_prefixed (encode_bucket_prefix s @ rest) = Some (s, rest)"
proof -
  assume ok: "str_ok s"
  then have "unat (of_nat (length s) :: u32) = length s" by (simp add: str_ok_def unat_of_nat)
  then show ?thesis
    using ok by (simp add: read_len_prefixed_def encode_bucket_prefix_def write_len_prefixed_def Let_def
        from_utf8_as_bytes str_ok_def)
qed

lemma read_len_prefixed_Some:
  assumes "read_len_prefixed buf = Some (s, rest)"
  shows "buf = encode_bucket_prefix s @ rest" and "str_ok s"
proof -
  let ?len = "unat (from_be_u32 (take 4 buf))"
  have long: "4 + ?len \<le> length buf" and u: "from_utf8 (take ?len (drop 4 buf)) = Some s"
    and r: "rest = drop (4 + ?len) buf"
    using assms by (auto simp: read_len_prefixed_def Let_def bind_eq_Some_conv split: if_splits)
  from from_utf8_Some [OF u] have s: "take ?len (drop 4 buf) = as_bytes s" "rust_str s" by auto
  have l: "length s = ?len" using s(1) long by (metis length_as_bytes length_take length_drop min.absorb2 add_le_imp_le_diff add.commute)
  have "?len < 2 ^ 32" using unsigned_less [of "from_be_u32 (take 4 buf)", where 'a = nat] by simp
  then show "str_ok s" using s(2) l by (simp add: str_ok_def)
  have h: "to_be_u32 (of_nat (length s)) = take 4 buf" using long l by (simp add: be32.enc_dec)
  have "buf = take 4 buf @ take ?len (drop 4 buf) @ drop (4 + ?len) buf"
    by (metis append_take_drop_id drop_drop add.commute)
  then show "buf = encode_bucket_prefix s @ rest"
    using h s(1) r by (simp add: encode_bucket_prefix_def write_len_prefixed_def)
qed

lemma encode_prefix_inj:
  "str_ok s \<Longrightarrow> str_ok t \<Longrightarrow> encode_bucket_prefix s @ x = encode_bucket_prefix t @ y \<longleftrightarrow> s = t \<and> x = y"
  by (metis read_encoded option.inject prod.inject)

lemma encode_object_key_inj:
  "str_ok b \<Longrightarrow> str_ok k \<Longrightarrow> str_ok b' \<Longrightarrow> str_ok k' \<Longrightarrow>
   encode_object_key b k = encode_object_key b' k' \<longleftrightarrow> b = b' \<and> k = k'"
  using encode_prefix_inj [of k k' "[]" "[]"] by (auto simp: encode_splits encode_prefix_inj)

lemma encode_label_key_inj:
  "str_ok n \<Longrightarrow> str_ok v \<Longrightarrow> str_ok b \<Longrightarrow> str_ok k \<Longrightarrow> str_ok n' \<Longrightarrow> str_ok v' \<Longrightarrow> str_ok b' \<Longrightarrow> str_ok k' \<Longrightarrow>
   encode_label_key n v b k = encode_label_key n' v' b' k' \<longleftrightarrow> n = n' \<and> v = v' \<and> b = b' \<and> k = k'"
  using encode_object_key_inj [of b k b' k'] by (auto simp: encode_splits encode_prefix_inj)

lemma bucket_prefix_of_key:
  "str_ok b \<Longrightarrow> str_ok b' \<Longrightarrow> prefix (encode_bucket_prefix b) (encode_object_key b' k) \<longleftrightarrow> b = b'"
  by (auto simp: prefix_def encode_splits) (metis encode_prefix_inj)

lemma decode_label_suffix_enc:
  "str_ok b \<Longrightarrow> str_ok k \<Longrightarrow> decode_label_suffix (encode_object_key b k) = Some (b, k)"
  using read_encoded [of k "[]"] by (simp add: decode_label_suffix_def encode_splits read_encoded)

subsection \<open>The index and its transactions\<close>

record index_db =
  db_objects :: table
  db_labels :: table
  db_buckets :: table

record metadata_index =
  ix_path :: string
  ix_db :: "index_db option"
  ix_slot :: node_key_slot

definition MetadataIndex_new :: "string \<Rightarrow> metadata_index" where
  "MetadataIndex_new path = \<lparr>ix_path = path, ix_db = None, ix_slot = NodeKeySlot_new\<rparr>"

text \<open>\<open>open_backend\<close> opens the encrypted file at a path under a file key and creates the three tables
  when they are missing. A failure is only logged.\<close>

definition open_db :: "crypto_prims \<Rightarrow> (string \<Rightarrow> bytes \<Rightarrow> error + index_db) \<Rightarrow> string \<Rightarrow> bytes \<Rightarrow> error + index_db" where
  "open_db P open_backend path nk = open_backend path (derive_index_file_key P nk)"

definition set_node_key :: "crypto_prims \<Rightarrow> (string \<Rightarrow> bytes \<Rightarrow> error + index_db) \<Rightarrow> metadata_index \<Rightarrow> bytes \<Rightarrow> metadata_index" where
  "set_node_key P open_backend ix nk =
     (let ix = ix\<lparr>ix_slot := install P nk\<rparr> in
      if ix_db ix \<noteq> None then ix
      else case open_db P open_backend (ix_path ix) nk of Inr db \<Rightarrow> ix\<lparr>ix_db := Some db\<rparr> | Inl e \<Rightarrow> ix)"

definition get_db :: "metadata_index \<Rightarrow> error + index_db" where
  "get_db ix = ok_or (ix_db ix) (Index ''metadata index locked; login required'')"

definition db_call :: "string option \<Rightarrow> error + unit" where
  "db_call fault = (case fault of Some msg \<Rightarrow> Inl (Index msg) | None \<Rightarrow> Inr ())"

type_synonym json_ser = "metadata \<Rightarrow> string + bytes"
type_synonym json_de = "bytes \<Rightarrow> string + metadata"

definition json_de_err :: "json_de \<Rightarrow> bytes \<Rightarrow> error + metadata" where
  "json_de_err de v = map_err (\<lambda>e. Index (''deserialize metadata: '' @ e)) (de v)"

definition remove_label_rows :: "string \<Rightarrow> string \<Rightarrow> label_set \<Rightarrow> table \<Rightarrow> table" where
  "remove_label_rows bucket key ls t = fold (\<lambda>(n, v). tb_remove (encode_label_key n v bucket key)) ls t"

definition insert_label_rows :: "string \<Rightarrow> string \<Rightarrow> label_set \<Rightarrow> table \<Rightarrow> table" where
  "insert_label_rows bucket key ls t = fold (\<lambda>(n, v). tb_insert (encode_label_key n v bucket key) []) ls t"

definition drop_prev_labels :: "json_de \<Rightarrow> index_db \<Rightarrow> string \<Rightarrow> string \<Rightarrow> table" where
  "drop_prev_labels de db bucket key =
     (case dm_get (db_objects db) (encode_object_key bucket key) of
        Some prev \<Rightarrow> (case de prev of Inr prev_meta \<Rightarrow> remove_label_rows bucket key (md_labels prev_meta) (db_labels db)
                      | Inl _ \<Rightarrow> db_labels db)
      | None \<Rightarrow> db_labels db)"

text \<open>The durability a transaction asks for does not change what it writes.\<close>

definition upsert :: "json_ser \<Rightarrow> json_de \<Rightarrow> string option \<Rightarrow> metadata_index \<Rightarrow> metadata \<Rightarrow> sync_level
    \<Rightarrow> metadata_index \<times> (error + unit)" where
  "upsert ser de fault ix m sync =
     (case get_db ix of Inl e \<Rightarrow> (ix, Inl e) | Inr db \<Rightarrow>
      case ser m of Inl e \<Rightarrow> (ix, Inl (Index (''serialize metadata: '' @ e))) | Inr payload \<Rightarrow>
      case db_call fault of Inl e \<Rightarrow> (ix, Inl e) | Inr _ \<Rightarrow>
      let object_key = encode_object_key (md_bucket m) (md_key m);
          labels = drop_prev_labels de db (md_bucket m) (md_key m);
          objects = tb_insert object_key payload (db_objects db);
          labels = insert_label_rows (md_bucket m) (md_key m) (md_labels m) labels
      in (ix\<lparr>ix_db := Some (db\<lparr>db_objects := objects, db_labels := labels\<rparr>)\<rparr>, Inr ()))"

definition remove :: "json_de \<Rightarrow> string option \<Rightarrow> metadata_index \<Rightarrow> string \<Rightarrow> string
    \<Rightarrow> metadata_index \<times> (error + unit)" where
  "remove de fault ix bucket key =
     (case get_db ix of Inl e \<Rightarrow> (ix, Inl e) | Inr db \<Rightarrow>
      case db_call fault of Inl e \<Rightarrow> (ix, Inl e) | Inr _ \<Rightarrow>
      let labels = drop_prev_labels de db bucket key;
          objects = tb_remove (encode_object_key bucket key) (db_objects db)
      in (ix\<lparr>ix_db := Some (db\<lparr>db_objects := objects, db_labels := labels\<rparr>)\<rparr>, Inr ()))"

definition lookup_by_key :: "json_de \<Rightarrow> string option \<Rightarrow> metadata_index \<Rightarrow> string \<Rightarrow> string
    \<Rightarrow> error + metadata option" where
  "lookup_by_key de fault ix bucket key =
     rbind (get_db ix) (\<lambda>db. rbind (db_call fault) (\<lambda>_.
     case dm_get (db_objects db) (encode_object_key bucket key) of
       None \<Rightarrow> Inr None
     | Some g \<Rightarrow> rbind (json_de_err de g) (\<lambda>m. Inr (Some m))))"

definition lookup_by_label :: "string option \<Rightarrow> metadata_index \<Rightarrow> string \<Rightarrow> string
    \<Rightarrow> error + (string \<times> string) list" where
  "lookup_by_label fault ix name value =
     rbind (get_db ix) (\<lambda>db. rbind (db_call fault) (\<lambda>_.
     let pre = encode_label_prefix name value in
     Inr (List.map_filter (\<lambda>(k, _). if prefix pre k then decode_label_suffix (drop (length pre) k) else None)
       (db_labels db))))"

definition bucket_exists :: "string option \<Rightarrow> metadata_index \<Rightarrow> string \<Rightarrow> error + bool" where
  "bucket_exists fault ix bucket =
     rbind (get_db ix) (\<lambda>db. rbind (db_call fault) (\<lambda>_.
     if dm_get (db_buckets db) (as_bytes bucket) \<noteq> None then Inr True else
     let pre = encode_bucket_prefix bucket in
     case tb_range pre (db_objects db) of
       (k, _) # _ \<Rightarrow> Inr (prefix pre k)
     | [] \<Rightarrow> Inr False))"

definition register_bucket :: "string option \<Rightarrow> metadata_index \<Rightarrow> string \<Rightarrow> metadata_index \<times> (error + unit)" where
  "register_bucket fault ix bucket =
     (case get_db ix of Inl e \<Rightarrow> (ix, Inl e) | Inr db \<Rightarrow>
      case db_call fault of Inl e \<Rightarrow> (ix, Inl e) | Inr _ \<Rightarrow>
      (ix\<lparr>ix_db := Some (db\<lparr>db_buckets := tb_insert (as_bytes bucket) [] (db_buckets db)\<rparr>)\<rparr>, Inr ()))"

definition unregister_bucket :: "string option \<Rightarrow> metadata_index \<Rightarrow> string \<Rightarrow> metadata_index \<times> (error + unit)" where
  "unregister_bucket fault ix bucket =
     (case get_db ix of Inl e \<Rightarrow> (ix, Inl e) | Inr db \<Rightarrow>
      case db_call fault of Inl e \<Rightarrow> (ix, Inl e) | Inr _ \<Rightarrow>
      (ix\<lparr>ix_db := Some (db\<lparr>db_buckets := tb_remove (as_bytes bucket) (db_buckets db)\<rparr>)\<rparr>, Inr ()))"

definition list_registered_buckets :: "string option \<Rightarrow> metadata_index \<Rightarrow> error + string list" where
  "list_registered_buckets fault ix =
     rbind (get_db ix) (\<lambda>db. rbind (db_call fault) (\<lambda>_.
     Inr (List.map_filter (\<lambda>(k, _). from_utf8 k) (db_buckets db))))"

definition decode_object_row :: "bytes \<times> bytes \<Rightarrow> error + (string \<times> string)" where
  "decode_object_row row =
     rbind (ok_or (read_len_prefixed (fst row)) (Index ''malformed object key in index'')) (\<lambda>(bucket, rest).
     rbind (ok_or (read_len_prefixed rest) (Index ''malformed object key in index'')) (\<lambda>(key, _).
     Inr (bucket, key)))"

definition list_all_keys :: "string option \<Rightarrow> metadata_index \<Rightarrow> error + (string \<times> string) list" where
  "list_all_keys fault ix =
     rbind (get_db ix) (\<lambda>db. rbind (db_call fault) (\<lambda>_. rmap decode_object_row (db_objects db)))"

subsection \<open>Paged scans\<close>

text \<open>The page loop: rows that \<open>skip\<close> rejects are passed over, and one more row than \<open>limit\<close> sets the
  overflow flag and ends the loop.\<close>

fun page_loop :: "(metadata \<Rightarrow> bool) \<Rightarrow> nat \<Rightarrow> metadata list \<Rightarrow> metadata list \<Rightarrow> metadata list \<times> bool" where
  "page_loop skip limit page [] = (page, False)"
| "page_loop skip limit page (m # ms) =
     (if skip m then page_loop skip limit page ms
      else if length page = limit then (page, True)
      else page_loop skip limit (page @ [m]) ms)"

definition last_opt :: "'a list \<Rightarrow> 'a option" where
  "last_opt xs = (if xs = [] then None else Some (last xs))"

definition scan_objects :: "json_de \<Rightarrow> string option \<Rightarrow> metadata_index \<Rightarrow> string \<Rightarrow> string option
    \<Rightarrow> string option \<Rightarrow> nat \<Rightarrow> error + list_page" where
  "scan_objects de fault ix bucket pre after limit =
     rbind (get_db ix) (\<lambda>db. rbind (db_call fault) (\<lambda>_.
     let bucket_prefix = encode_bucket_prefix bucket in
     rbind (rmap (\<lambda>(k, v). json_de_err de v)
         (takeWhile (\<lambda>(k, v). prefix bucket_prefix k) (tb_range bucket_prefix (db_objects db)))) (\<lambda>items.
     case page_loop (\<lambda>m. (case pre of Some p \<Rightarrow> \<not> prefix p (md_key m) | None \<Rightarrow> False)
              \<or> (case after of Some a \<Rightarrow> md_key m \<le> a | None \<Rightarrow> False))
            limit [] (sort_key md_key items) of
       (page, overflowed) \<Rightarrow>
         Inr \<lparr>lp_items = page, lp_next = (if overflowed then map_option md_key (last_opt page) else None)\<rparr>)))"

definition cursor :: "metadata \<Rightarrow> string" where
  "cursor m = md_bucket m @ [CHR 0x00] @ md_key m"

definition search_row :: "(string \<Rightarrow> string \<Rightarrow> bool) \<Rightarrow> label_query \<Rightarrow> string option \<Rightarrow> string option \<Rightarrow> metadata \<Rightarrow> bool" where
  "search_row is_match q bucket pre m \<longleftrightarrow>
     (case bucket of Some b \<Rightarrow> md_bucket m = b | None \<Rightarrow> True)
     \<and> (case pre of Some p \<Rightarrow> prefix p (md_key m) | None \<Rightarrow> True)
     \<and> matches is_match q (md_labels m)"

definition search_labels :: "(string \<Rightarrow> string \<Rightarrow> bool) \<Rightarrow> json_de \<Rightarrow> string option \<Rightarrow> metadata_index \<Rightarrow> label_query
    \<Rightarrow> string option \<Rightarrow> string option \<Rightarrow> string option \<Rightarrow> nat \<Rightarrow> error + list_page" where
  "search_labels is_match de fault ix q bucket pre after limit =
     rbind (get_db ix) (\<lambda>db. rbind (db_call fault) (\<lambda>_.
     rbind (rmap (\<lambda>(k, v). json_de_err de v) (db_objects db)) (\<lambda>rows.
     let matched = sort_key (\<lambda>m. (md_bucket m, md_key m)) (filter (search_row is_match q bucket pre) rows) in
     case page_loop (\<lambda>m. case after of Some a \<Rightarrow> cursor m \<le> a | None \<Rightarrow> False) limit [] matched of
       (page, overflowed) \<Rightarrow>
         Inr \<lparr>lp_items = page, lp_next = (if overflowed then map_option cursor (last_opt page) else None)\<rparr>)))"

subsection \<open>Listing buckets\<close>

text \<open>The scan jumps from the first key of a bucket to the first key after the bucket; it ends because the
  rows from the new start on are fewer.\<close>

lemma bucket_step_shrinks:
  assumes "tb_range start t = (k, v) # r" and "read_len_prefixed k = Some (b, rest)"
    and "next_lex_after (encode_bucket_prefix b) = Some nxt"
  shows "length (tb_range nxt t) < Suc (length r)"
proof -
  have m: "(k, v) \<in> set t" "start \<le> k"
    using arg_cong [OF assms(1), of set] by (auto simp: tb_range_def)
  have p: "prefix (encode_bucket_prefix b) k" using read_len_prefixed_Some(1) [OF assms(2)] by simp
  have lt: "k < nxt" using next_lex_after_spec [OF prefix_le [OF p]] assms(3) p by simp
  have "tb_range nxt t = filter (\<lambda>(x, _). nxt \<le> x) (tb_range start t)"
    using m(2) lt unfolding tb_range_def by (induction t) (auto dest: order_trans)
  moreover have "length (filter (\<lambda>(x, _). nxt \<le> x) (tb_range start t)) < length (tb_range start t)"
    by (rule length_filter_less [of "(k, v)"]) (use assms(1) lt in auto)
  ultimately show ?thesis using assms(1) by simp
qed

function bucket_loop :: "table \<Rightarrow> bytes \<Rightarrow> string list \<Rightarrow> error + string list" where
  "bucket_loop t start acc =
     (case tb_range start t of
        [] \<Rightarrow> Inr acc
      | (k, v) # _ \<Rightarrow>
        (case read_len_prefixed k of
           None \<Rightarrow> Inl (Index ''malformed object key in index'')
         | Some (bucket, rest) \<Rightarrow>
           (case next_lex_after (encode_bucket_prefix bucket) of
              None \<Rightarrow> Inr (acc @ [bucket])
            | Some nxt \<Rightarrow> bucket_loop t nxt (acc @ [bucket]))))"
  by pat_completeness auto
termination
  by (relation "measure (\<lambda>(t, start, acc). length (tb_range start t))") (auto dest: bucket_step_shrinks)

declare bucket_loop.simps [simp del]

definition list_buckets :: "string option \<Rightarrow> metadata_index \<Rightarrow> error + string list" where
  "list_buckets fault ix =
     rbind (get_db ix) (\<lambda>db. rbind (db_call fault) (\<lambda>_.
     rbind (bucket_loop (db_objects db) [] []) (\<lambda>buckets. Inr (sort buckets))))"

end
