(* ===== verification/Filesystem_Storage.thy ===== *)
theory Filesystem_Storage
  imports File_Tree Object_Format Lock_Registry Metadata_Index
begin

text \<open>
  The filesystem storage backend, \<open>crates/y2q-core/src/storage/filesystem.rs\<close>: one file per object under a
  directory per bucket, named by keyed hashes, written to a temporary file and renamed into place; a
  sealed configuration file per bucket; the index as a cache of what is on disk.

  \<open>fs_env\<close> holds what the code calls and does not define: the crypto primitives, the JSON codecs, the
  Unicode table behind \<open>is_alphanumeric\<close>, the regex engine and the \<open>Display\<close> texts of errors. The state of a
  storage is the file tree with the backend's own fields; the key slot is the one it shares with the
  index. \<open>fs_ix_faults\<close> are the outcomes of the index calls to come. An operation runs from its first
  \<open>await\<close> to its last without another request between them, except that a streaming put is two operations
  with its guard in between; \<open>nonce\<close> is the random nonce an operation draws. Metrics and log lines have
  no counterpart.
\<close>

record fs_env =
  fe_prims :: crypto_prims
  fe_ser :: json_ser
  fe_de :: json_de
  fe_cfg_ser :: "bucket_config \<Rightarrow> string + bytes"
  fe_cfg_de :: "bytes \<Rightarrow> string + bucket_config"
  fe_is_alphanumeric :: "nat \<Rightarrow> bool"
  fe_is_match :: "string \<Rightarrow> string \<Rightarrow> bool"
  fe_io_text :: "io_error \<Rightarrow> string"
  fe_crypto_text :: "crypto_error \<Rightarrow> string"
  fe_format_text :: "format_error \<Rightarrow> string"
  fe_error_text :: "error \<Rightarrow> string"

record fs_storage = file_tree +
  fs_base_path :: path
  fs_index :: metadata_index
  fs_ix_faults :: "string option list"
  fs_rebuild_state :: cache_rebuild_status
  fs_dirty_tx :: "(path \<times> path) list option"
  fs_flush_notify :: "nat option"
  fs_flush_limit :: nat
  fs_locks :: lock_registry

type_synonym 'a fs_comp = "(fs_storage, error, 'a) comp"

definition fs_mek :: "fs_storage \<Rightarrow> node_key_slot" where
  "fs_mek s = ix_slot (fs_index s)"

definition io_err :: "fs_env \<Rightarrow> string \<Rightarrow> string \<Rightarrow> string \<Rightarrow> string \<Rightarrow> io_error \<Rightarrow> error" where
  "io_err E bucket key op pre e = InternalError bucket key op (pre @ fe_io_text E e)"

text \<open>A call into the index, with its outcome popped.\<close>

definition ix_call :: "(string option \<Rightarrow> metadata_index \<Rightarrow> metadata_index \<times> (error + 'a)) \<Rightarrow> 'a fs_comp" where
  "ix_call f s =
     (case fs_ix_faults s of
        [] \<Rightarrow> (case f None (fs_index s) of (ix, r) \<Rightarrow> (s\<lparr>fs_index := ix\<rparr>, r))
      | fault # fs \<Rightarrow> (case f fault (fs_index s) of (ix, r) \<Rightarrow> (s\<lparr>fs_index := ix, fs_ix_faults := fs\<rparr>, r)))"

definition ix_read :: "(string option \<Rightarrow> metadata_index \<Rightarrow> error + 'a) \<Rightarrow> 'a fs_comp" where
  "ix_read f = ix_call (\<lambda>fault ix. (ix, f fault ix))"

subsection \<open>Construction\<close>

definition FilesystemStorage_new :: "fs_env \<Rightarrow> (path \<Rightarrow> path) \<Rightarrow> path \<Rightarrow> path \<Rightarrow> file_tree \<Rightarrow> file_tree \<times> (error + fs_storage)" where
  "FilesystemStorage_new E canonicalize base_path index_path =
     sbind (smap_err (io_err E [] [] ''open'' ''create base_path: '') (io_create_dir_all base_path)) (\<lambda>_.
     sbind (smap_err (io_err E [] [] ''open'' ''canonicalize base_path: '') (io_call (sret (canonicalize base_path)))) (\<lambda>base_path.
     sbind (if index_path = [] then sret () else
            smap_err (io_err E [] [] ''open'' ''create index parent: '') (io_create_dir_all (butlast index_path))) (\<lambda>_.
     sget (\<lambda>t. file_tree.extend t
       \<lparr>fs_base_path = base_path, fs_index = MetadataIndex_new (path_str index_path), fs_ix_faults = [],
        fs_rebuild_state = Idle, fs_dirty_tx = None, fs_flush_notify = None, fs_flush_limit = 0,
        fs_locks = LockRegistry_new\<rparr>))))"

definition install_node_key :: "fs_env \<Rightarrow> (string \<Rightarrow> bytes \<Rightarrow> error + index_db) \<Rightarrow> bytes \<Rightarrow> fs_storage \<Rightarrow> fs_storage" where
  "install_node_key E open_backend nk s = s\<lparr>fs_index := set_node_key (fe_prims E) open_backend (fs_index s) nk\<rparr>"

definition with_dirty_channel :: "nat \<Rightarrow> fs_storage \<Rightarrow> fs_storage" where
  "with_dirty_channel flush_limit s =
     s\<lparr>fs_dirty_tx := Some [], fs_flush_notify := Some 0, fs_flush_limit := flush_limit\<rparr>"

subsection \<open>Keys, names and paths\<close>

definition hex_digit :: "nat \<Rightarrow> char" where
  "hex_digit n = char_of (if n < 10 then 48 + n else 87 + n)"

definition to_hex :: "bytes \<Rightarrow> string" where
  "to_hex bs = concat (map (\<lambda>b. [hex_digit (unat b div 16), hex_digit (unat b mod 16)]) bs)"

definition require_key :: "string \<Rightarrow> string \<Rightarrow> bytes option \<Rightarrow> error + bytes" where
  "require_key op message k = ok_or k (InternalError [] [] op message)"

definition require_path_key :: "node_key_slot \<Rightarrow> error + bytes" where
  "require_path_key node_keys =
     require_key ''path'' ''path operation attempted without an installed node key'' (path_key node_keys)"

definition require_object_metadata_key :: "node_key_slot \<Rightarrow> error + bytes" where
  "require_object_metadata_key node_keys =
     require_key ''metadata'' ''metadata operation attempted without an installed node key'' (object_metadata_key node_keys)"

definition require_container_header_key :: "node_key_slot \<Rightarrow> error + bytes" where
  "require_container_header_key node_keys =
     require_key ''container-header'' ''object header operation attempted without an installed node key''
       (container_header_key node_keys)"

definition require_bucket_config_key :: "node_key_slot \<Rightarrow> error + bytes" where
  "require_bucket_config_key node_keys =
     require_key ''bucket-config'' ''bucket config operation attempted without an installed node key''
       (bucket_config_key node_keys)"

definition encode_bucket_dir :: "crypto_prims \<Rightarrow> bytes \<Rightarrow> string \<Rightarrow> string" where
  "encode_bucket_dir P pk bucket =
     to_hex (prf_hmac P pk (as_bytes ''y2q-bucket'' @ [0] @ to_be_u32 (of_nat (length bucket)) @ as_bytes bucket))"

definition encode_object_id :: "crypto_prims \<Rightarrow> bytes \<Rightarrow> string \<Rightarrow> string \<Rightarrow> string" where
  "encode_object_id P pk bucket key =
     to_hex (prf_hmac P pk (as_bytes ''y2q-object'' @ [0]
       @ concat (map (\<lambda>part. to_be_u32 (of_nat (length part)) @ as_bytes part) [bucket, key])))"

definition bucket_dir_path :: "crypto_prims \<Rightarrow> path \<Rightarrow> bytes \<Rightarrow> string \<Rightarrow> path" where
  "bucket_dir_path P base pk bucket = base @ [encode_bucket_dir P pk bucket]"

definition obj_path_for :: "crypto_prims \<Rightarrow> path \<Rightarrow> bytes \<Rightarrow> string \<Rightarrow> string \<Rightarrow> path" where
  "obj_path_for P base pk bucket key =
     (let id = encode_object_id P pk bucket key
      in with_extension (bucket_dir_path P base pk bucket @ [take 2 id, take 2 (drop 2 id), id]) ''obj'')"

definition object_id_from_path :: "path \<Rightarrow> string option" where
  "object_id_from_path p = file_stem p"

definition key_path :: "fs_env \<Rightarrow> string \<Rightarrow> string \<Rightarrow> path fs_comp" where
  "key_path E bucket key =
     sbind (sget fs_mek) (\<lambda>slot. sbind (slift (require_path_key slot)) (\<lambda>pk.
     sget (\<lambda>s. obj_path_for (fe_prims E) (fs_base_path s) pk bucket key)))"

definition RESERVED_BUCKETS :: "string list" where "RESERVED_BUCKETS = [''api'']"

definition validate_bucket :: "fs_env \<Rightarrow> string \<Rightarrow> error + unit" where
  "validate_bucket E bucket =
     (if bucket = [] \<or> CHR ''/'' \<in> set bucket \<or> CHR 0x5C \<in> set bucket \<or> str_contains ''..'' bucket
         \<or> \<not> list_all (\<lambda>c. fe_is_alphanumeric E c \<or> c = 45 \<or> c = 95) (str_chars bucket)
         \<or> map to_ascii_lowercase bucket \<in> set RESERVED_BUCKETS
      then Inl (InvalidBucket bucket) else Inr ())"

definition MAX_KEY_LEN :: nat where "MAX_KEY_LEN = 1024"

definition validate_key :: "string \<Rightarrow> error + unit" where
  "validate_key key =
     (if key = [] \<or> CHR 0x00 \<in> set key \<or> MAX_KEY_LEN < length key then Inl (InvalidKey key)
      else if list_ex (\<lambda>part. part = [] \<or> part = ''.'' \<or> part = ''..'') (split_on CHR ''/'' key) then Inl (InvalidKey key)
      else Inr ())"

definition validated :: "fs_env \<Rightarrow> string \<Rightarrow> string \<Rightarrow> unit fs_comp" where
  "validated E bucket key = sbind (slift (validate_bucket E bucket)) (\<lambda>_. slift (validate_key key))"

subsection \<open>Buckets\<close>

definition create_bucket_impl :: "fs_env \<Rightarrow> bytes \<Rightarrow> string \<Rightarrow> bool fs_comp" where
  "create_bucket_impl E pk bucket =
     sbind (slift (validate_bucket E bucket)) (\<lambda>_.
     sbind (sget (\<lambda>s. bucket_dir_path (fe_prims E) (fs_base_path s) pk bucket)) (\<lambda>dir.
     sbind (stry (io_exists dir)) (\<lambda>present.
     if present = Inr True then sret False else
     sbind (smap_err (io_err E bucket [] ''create_bucket'' []) (io_create_dir_all dir)) (\<lambda>_.
     sbind (ix_call (\<lambda>fault ix. register_bucket fault ix bucket)) (\<lambda>_.
     sret True)))))"

fun remove_keys :: "fs_env \<Rightarrow> string \<Rightarrow> (string \<times> string) list \<Rightarrow> nat \<Rightarrow> nat fs_comp" where
  "remove_keys E bucket [] removed = sret removed"
| "remove_keys E bucket ((b, key) # rest) removed =
     (if b = bucket
      then sbind (ix_call (\<lambda>fault ix. remove (fe_de E) fault ix bucket key)) (\<lambda>_. remove_keys E bucket rest (removed + 1))
      else remove_keys E bucket rest removed)"

definition delete_bucket_impl :: "fs_env \<Rightarrow> bytes \<Rightarrow> string \<Rightarrow> nat fs_comp" where
  "delete_bucket_impl E pk bucket =
     sbind (slift (validate_bucket E bucket)) (\<lambda>_.
     sbind (sget (\<lambda>s. bucket_dir_path (fe_prims E) (fs_base_path s) pk bucket)) (\<lambda>dir.
     sbind (stry (io_exists dir)) (\<lambda>present.
     let dir_exists = (present = Inr True) in
     sbind (ix_read list_all_keys) (\<lambda>keys.
     sbind (remove_keys E bucket keys 0) (\<lambda>removed.
     if \<not> dir_exists \<and> removed = 0 then sfail (NotFound bucket []) else
     sbind (if dir_exists then smap_err (io_err E bucket [] ''delete_bucket'' []) (io_remove_dir_all dir) else sret ()) (\<lambda>_.
     sbind (ix_call (\<lambda>fault ix. unregister_bucket fault ix bucket)) (\<lambda>_.
     sret removed)))))))"

definition list_buckets_union :: "string list fs_comp" where
  "list_buckets_union =
     sbind (ix_read list_buckets) (\<lambda>buckets.
     sbind (ix_read list_registered_buckets) (\<lambda>more.
     sret (remdups_adj (sort (buckets @ more)))))"

definition BUCKET_CONFIG_FILE :: string where "BUCKET_CONFIG_FILE = ''.y2q-bucket.json''"

definition get_bucket_config_impl :: "fs_env \<Rightarrow> bytes \<Rightarrow> bytes \<Rightarrow> string \<Rightarrow> bucket_config fs_comp" where
  "get_bucket_config_impl E pk config_key bucket =
     (let err = InternalError bucket [] ''get_bucket_config'' in
      sbind (slift (validate_bucket E bucket)) (\<lambda>_.
      sbind (sget (\<lambda>s. bucket_dir_path (fe_prims E) (fs_base_path s) pk bucket)) (\<lambda>dir.
      sbind (stry (io_open (dir @ [BUCKET_CONFIG_FILE]))) (\<lambda>r.
      case r of
        Inr bytes \<Rightarrow>
          sbind (slift (map_err (\<lambda>e. err (''decrypt config: '' @ fe_crypto_text E e))
            (decrypt_meta (fe_prims E) config_key bytes (encode_bucket_dir (fe_prims E) pk bucket)))) (\<lambda>plain.
          slift (map_err (\<lambda>e. err (''parse config: '' @ e)) (fe_cfg_de E plain)))
      | Inl NoSuchFile \<Rightarrow> sret default_bucket_config
      | Inl e \<Rightarrow> sfail (err (fe_io_text E e))))))"

definition set_bucket_config_impl :: "fs_env \<Rightarrow> bytes \<Rightarrow> bytes \<Rightarrow> bytes \<Rightarrow> string \<Rightarrow> bucket_config \<Rightarrow> unit fs_comp" where
  "set_bucket_config_impl E nonce pk config_key bucket config =
     (let op = ''set_bucket_config''; err = InternalError bucket [] op in
      sbind (slift (validate_bucket E bucket)) (\<lambda>_.
      sbind (sget (\<lambda>s. bucket_dir_path (fe_prims E) (fs_base_path s) pk bucket)) (\<lambda>dir.
      sbind (smap_err (io_err E bucket [] op ''create bucket dir: '') (io_create_dir_all dir)) (\<lambda>_.
      sbind (slift (map_err (\<lambda>e. err (''encode config: '' @ e)) (fe_cfg_ser E config))) (\<lambda>json.
      sbind (slift (map_err (\<lambda>e. err (''encrypt config: '' @ fe_crypto_text E e))
        (encrypt_meta (fe_prims E) nonce config_key json (encode_bucket_dir (fe_prims E) pk bucket) BUCKET_CONFIG_PAD_BLOCK))) (\<lambda>ciphertext.
      let tmp = dir @ [''.y2q-bucket.json.tmp''] in
      sbind (smap_err (io_err E bucket [] op ''write config: '') (io_open_trunc tmp)) (\<lambda>_.
      sbind (smap_err (io_err E bucket [] op ''write config: '') (io_write_last tmp 0 ciphertext)) (\<lambda>_.
      smap_err (io_err E bucket [] op ''rename config: '') (io_rename tmp (dir @ [BUCKET_CONFIG_FILE]))))))))))"

text \<open>The page loop of \<open>bucket_usage_impl\<close>; the sum wraps at 64 bits, as in a release build. The result is
  \<open>None\<close> when the fuel runs out.\<close>

fun usage_loop :: "fs_env \<Rightarrow> string \<Rightarrow> nat \<Rightarrow> string option \<Rightarrow> u64 \<Rightarrow> u64 option fs_comp" where
  "usage_loop E bucket 0 after tot = sret None"
| "usage_loop E bucket (Suc fuel) after tot =
     sbind (ix_read (\<lambda>fault ix. scan_objects (fe_de E) fault ix bucket None after 1000)) (\<lambda>page.
     let tot = foldl (\<lambda>t m. t + md_size m) tot (lp_items page) in
     case lp_next page of Some c \<Rightarrow> usage_loop E bucket fuel (Some c) tot | None \<Rightarrow> sret (Some tot))"

definition bucket_usage_impl :: "fs_env \<Rightarrow> nat \<Rightarrow> string \<Rightarrow> u64 option fs_comp" where
  "bucket_usage_impl E fuel bucket =
     sbind (slift (validate_bucket E bucket)) (\<lambda>_. usage_loop E bucket fuel None 0)"

subsection \<open>Object records\<close>

definition read_obj_metadata :: "fs_env \<Rightarrow> path \<Rightarrow> bytes \<Rightarrow> bytes \<Rightarrow> (fs_storage, io_error, metadata) comp" where
  "read_obj_metadata E path mek chk =
     sbind (io_open path) (\<lambda>file.
     sbind (io_fstat_len file) (\<lambda>actual_len.
     sbind (io_read_exact file 0 HEADER_SIZE) (\<lambda>header_buf.
     sbind (slift (ok_or (object_id_from_path path) (InvalidData ''cannot derive object id from path''))) (\<lambda>object_id.
     sbind (slift (map_err (\<lambda>e. InvalidData (fe_format_text E e)) (decode_header (fe_prims E) header_buf chk object_id))) (\<lambda>header.
     sbind (slift (map_err (\<lambda>e. InvalidData (fe_format_text E e)) (check_total_len header actual_len))) (\<lambda>_.
     sbind io_seek (\<lambda>_.
     sbind (io_read_exact file (unat (meta_offset header)) (unat (hd_meta_len header))) (\<lambda>meta_buf.
     sbind (slift (map_err (\<lambda>e. InvalidData (fe_crypto_text E e)) (decrypt_meta (fe_prims E) mek meta_buf object_id))) (\<lambda>json.
     slift (map_err InvalidData (fe_de E json)))))))))))"

definition read_obj_created :: "fs_env \<Rightarrow> path \<Rightarrow> bytes \<Rightarrow> bytes \<Rightarrow> u64 option fs_comp" where
  "read_obj_created E path mek chk =
     sbind (stry (read_obj_metadata E path mek chk)) (\<lambda>r.
     sret (case r of Inr m \<Rightarrow> Some (md_created m) | Inl _ \<Rightarrow> None))"

definition now_nanos :: "fs_storage \<Rightarrow> u64" where "now_nanos s = of_nat (ft_now s)"

text \<open>Whether the object exists, and the creation time of the version it replaces.\<close>

definition stat_existing :: "fs_env \<Rightarrow> string \<Rightarrow> string \<Rightarrow> string \<Rightarrow> path \<Rightarrow> bytes \<Rightarrow> bytes \<Rightarrow> (bool \<times> u64 option) fs_comp" where
  "stat_existing E op bucket key obj_path mek chk =
     sbind (stry (io_stat obj_path)) (\<lambda>r.
     case r of
       Inr _ \<Rightarrow> sbind (read_obj_created E obj_path mek chk) (\<lambda>created. sret (True, created))
     | Inl NoSuchFile \<Rightarrow> sret (False, None)
     | Inl e \<Rightarrow> sfail (io_err E bucket key op ''stat existing: '' e))"

text \<open>After the rename: the directory is synced or the file queued for the flusher, and the index updated;
  none of it can fail the write.\<close>

definition note_dirty :: "path \<Rightarrow> fs_storage \<Rightarrow> fs_storage" where
  "note_dirty obj_path s =
     (case fs_dirty_tx s of
        None \<Rightarrow> s
      | Some q \<Rightarrow>
        let q = q @ [(obj_path, butlast obj_path)]; s = s\<lparr>fs_dirty_tx := Some q\<rparr> in
        if fs_flush_limit s \<le> length q then s\<lparr>fs_flush_notify := map_option Suc (fs_flush_notify s)\<rparr> else s)"

definition after_rename :: "fs_env \<Rightarrow> path \<Rightarrow> metadata \<Rightarrow> sync_level \<Rightarrow> unit fs_comp" where
  "after_rename E obj_path m sync =
     sbind (if sync = Durable
            then sbind (stry (io_open_dir (butlast obj_path))) (\<lambda>r.
                 if is_ok r then sbind (stry io_sync) (\<lambda>_. sret ()) else sret ())
            else supd (note_dirty obj_path)) (\<lambda>_.
     sbind (stry (ix_call (\<lambda>fault ix. upsert (fe_ser E) (fe_de E) fault ix m sync))) (\<lambda>_.
     sret ()))"

definition record_header :: "u64 \<Rightarrow> bytes \<Rightarrow> sync_level \<Rightarrow> header" where
  "record_header data_len meta_bytes sync =
     \<lparr>hd_data_len = data_len, hd_meta_len = of_nat (length meta_bytes), hd_data_offset = MIN_DATA_OFFSET,
      hd_flags = (if sync = Durable then 0 OR DURABLE else 0), hd_version = VERSION\<rparr>"

subsection \<open>Put\<close>

definition with_lock :: "string \<Rightarrow> string \<Rightarrow> 'a fs_comp \<Rightarrow> 'a fs_comp" where
  "with_lock bucket key body s =
     (case try_acquire (fs_locks s) (ft_now s) bucket key of
        Inl e \<Rightarrow> (s, Inl e)
      | Inr (m, guard) \<Rightarrow>
        (case body (s\<lparr>fs_locks := m\<rparr>) of (s, r) \<Rightarrow> (s\<lparr>fs_locks := guard_drop (fs_locks s) guard\<rparr>, r)))"

definition put_metadata :: "fs_env \<Rightarrow> u64 \<Rightarrow> u64 option \<Rightarrow> path \<Rightarrow> string \<Rightarrow> string \<Rightarrow> bytes \<Rightarrow> put_options \<Rightarrow> metadata" where
  "put_metadata E now prior_created obj_path bucket key data options =
     (let (size, checksum) = (case po_plaintext_metrics options of
            Some p \<Rightarrow> (pm_size p, pm_checksum_gxhash_b64 p)
          | None \<Rightarrow> (of_nat (length data), checksum_b64 (fe_prims E) data));
          c = po_cipher_metadata options
      in \<lparr>md_created = (case prior_created of Some t \<Rightarrow> t | None \<Rightarrow> now), md_modified = now, md_size = size,
          md_checksum_gxhash = checksum, md_bucket = bucket, md_key = key, md_disk_path = path_str obj_path,
          md_url_path = bucket @ ''/'' @ key, md_labels = po_labels options,
          md_cipher_size = map_option cm_cipher_size c, md_cipher_checksum = map_option cm_cipher_checksum_b64 c,
          md_kem_alg = map_option cm_kem_alg c, md_aead_alg = map_option cm_aead_alg c,
          md_envelope_version = map_option cm_envelope_version c, md_version = None, md_committed_at = None,
          md_key_epoch = map_option cm_key_epoch c\<rparr>)"

definition write_object_file :: "fs_env \<Rightarrow> string \<Rightarrow> string \<Rightarrow> path \<Rightarrow> path \<Rightarrow> bytes \<Rightarrow> bytes \<Rightarrow> bytes \<Rightarrow> sync_level \<Rightarrow> unit fs_comp" where
  "write_object_file E bucket key tmp_path obj_path header_enc data meta_bytes sync =
     (let err = io_err E bucket key ''put'' in
      sbind (smap_err (err []) (io_open_trunc tmp_path)) (\<lambda>_.
      sbind (smap_err (err ''write header: '') (io_write_all tmp_path 0 header_enc)) (\<lambda>_.
      sbind (smap_err (err ''write data: '') (io_write_all tmp_path (length header_enc) data)) (\<lambda>_.
      sbind (smap_err (err ''write meta: '') (io_write_all tmp_path (length header_enc + length data) meta_bytes)) (\<lambda>_.
      sbind (smap_err (err ''write trailer: '')
        (io_write_last tmp_path (length header_enc + length data + length meta_bytes) header_enc)) (\<lambda>_.
      sbind (if sync = Durable then smap_err (err ''fdatasync: '') io_sync else sret ()) (\<lambda>_.
      smap_err (err ''rename: '') (io_rename tmp_path obj_path))))))))"

definition put_locked :: "fs_env \<Rightarrow> bytes \<Rightarrow> path \<Rightarrow> string \<Rightarrow> string \<Rightarrow> bytes \<Rightarrow> put_options \<Rightarrow> bool fs_comp" where
  "put_locked E nonce obj_path bucket key data options =
     (let op = ''put''; tmp_path = with_extension obj_path ''tmp'' in
      sbind (sget fs_mek) (\<lambda>slot.
      sbind (slift (require_object_metadata_key slot)) (\<lambda>mek.
      sbind (slift (require_container_header_key slot)) (\<lambda>chk.
      sbind (stat_existing E op bucket key obj_path mek chk) (\<lambda>(is_overwrite, prior_created).
      sbind (sget now_nanos) (\<lambda>now.
      let metadata = put_metadata E now prior_created obj_path bucket key data options in
      sbind (slift (map_err (InternalError bucket key op) (fe_ser E metadata))) (\<lambda>meta_json.
      sbind (slift (ok_or (object_id_from_path obj_path) (InternalError bucket key op ''cannot derive object id from path''))) (\<lambda>object_id.
      sbind (slift (map_err (\<lambda>e. InternalError bucket key op (fe_crypto_text E e))
        (encrypt_meta (fe_prims E) nonce mek meta_json object_id META_PAD_BLOCK))) (\<lambda>meta_bytes.
      let header_enc = encode_header (fe_prims E) (record_header (of_nat (length data)) meta_bytes (po_sync options)) chk object_id in
      sbind (write_object_file E bucket key tmp_path obj_path header_enc data meta_bytes (po_sync options)) (\<lambda>_.
      sbind (after_rename E obj_path metadata (po_sync options)) (\<lambda>_.
      sret is_overwrite)))))))))))"

definition put :: "fs_env \<Rightarrow> bytes \<Rightarrow> string \<Rightarrow> string \<Rightarrow> bytes \<Rightarrow> put_options \<Rightarrow> bool fs_comp" where
  "put E nonce bucket key payload options =
     sbind (validated E bucket key) (\<lambda>_.
     sbind (key_path E bucket key) (\<lambda>obj_path.
     sbind (smap_err (io_err E bucket key ''put'' []) (io_create_dir_all (butlast obj_path))) (\<lambda>_.
     with_lock bucket key (put_locked E nonce obj_path bucket key payload options))))"

subsection \<open>Streaming put\<close>

record streaming_put_guard =
  sg_tmp_path :: path
  sg_obj_path :: path
  sg_lock :: lock_key
  sg_bucket :: string
  sg_key :: string
  sg_is_overwrite :: bool
  sg_prior_created :: "u64 option"

text \<open>An error after the lock was taken drops it again.\<close>

definition begin_streaming_put :: "fs_env \<Rightarrow> string \<Rightarrow> string \<Rightarrow> streaming_put_guard fs_comp" where
  "begin_streaming_put E bucket key =
     (let op = ''begin_streaming_put''; err = io_err E bucket key op in
      sbind (validated E bucket key) (\<lambda>_.
      sbind (key_path E bucket key) (\<lambda>obj_path.
      let tmp_path = with_extension obj_path ''tmp'' in
      sbind (smap_err (err ''create dirs: '') (io_create_dir_all (butlast obj_path))) (\<lambda>_.
      sbind (sget fs_mek) (\<lambda>slot.
      sbind (slift (require_object_metadata_key slot)) (\<lambda>mek.
      sbind (slift (require_container_header_key slot)) (\<lambda>chk.
      sbind (stat_existing E op bucket key obj_path mek chk) (\<lambda>(is_overwrite, prior_created).
      sbind (\<lambda>s. case try_acquire (fs_locks s) (ft_now s) bucket key of
               Inl e \<Rightarrow> (s, Inl e) | Inr (m, guard) \<Rightarrow> (s\<lparr>fs_locks := m\<rparr>, Inr guard)) (\<lambda>lock.
      sbind (stry (sbind (smap_err (err ''open tmp: '') (io_open_trunc tmp_path)) (\<lambda>_.
                   smap_err (err ''write placeholder header: '') (io_write_all tmp_path 0 (replicate HEADER_SIZE 0))))) (\<lambda>r.
      case r of
        Inl e \<Rightarrow> sbind (supd (\<lambda>s. s\<lparr>fs_locks := guard_drop (fs_locks s) lock\<rparr>)) (\<lambda>_. sfail e)
      | Inr _ \<Rightarrow> sret \<lparr>sg_tmp_path = tmp_path, sg_obj_path = obj_path, sg_lock = lock, sg_bucket = bucket,
                         sg_key = key, sg_is_overwrite = is_overwrite, sg_prior_created = prior_created\<rparr>))))))))))"

text \<open>Dropping the guard: the temporary file is removed if it is still there, then the lock.\<close>

definition guard_dropped :: "streaming_put_guard \<Rightarrow> unit fs_comp" where
  "guard_dropped g =
     sbind (stry (io_remove_file (sg_tmp_path g))) (\<lambda>_.
     supd (\<lambda>s. s\<lparr>fs_locks := guard_drop (fs_locks s) (sg_lock g)\<rparr>))"

definition commit_metadata :: "u64 \<Rightarrow> streaming_put_guard \<Rightarrow> put_options \<Rightarrow> plaintext_metrics \<Rightarrow> cipher_metadata \<Rightarrow> metadata" where
  "commit_metadata now g options pm cm =
     \<lparr>md_created = (case sg_prior_created g of Some t \<Rightarrow> t | None \<Rightarrow> now), md_modified = now, md_size = pm_size pm,
      md_checksum_gxhash = pm_checksum_gxhash_b64 pm, md_bucket = sg_bucket g, md_key = sg_key g,
      md_disk_path = path_str (sg_obj_path g), md_url_path = sg_bucket g @ ''/'' @ sg_key g,
      md_labels = po_labels options, md_cipher_size = Some (cm_cipher_size cm),
      md_cipher_checksum = Some (cm_cipher_checksum_b64 cm), md_kem_alg = Some (cm_kem_alg cm),
      md_aead_alg = Some (cm_aead_alg cm), md_envelope_version = Some (cm_envelope_version cm),
      md_version = po_version options, md_committed_at = map_option (\<lambda>_. now) (po_version options),
      md_key_epoch = Some (cm_key_epoch cm)\<rparr>"

definition finish_object_file :: "fs_env \<Rightarrow> string \<Rightarrow> string \<Rightarrow> path \<Rightarrow> path \<Rightarrow> nat \<Rightarrow> bytes \<Rightarrow> bytes \<Rightarrow> sync_level \<Rightarrow> unit fs_comp" where
  "finish_object_file E bucket key tmp_path obj_path pos header_enc meta_bytes sync =
     (let err = io_err E bucket key ''put'' in
      sbind (smap_err (err ''write meta: '') (io_write_all tmp_path pos meta_bytes)) (\<lambda>_.
      sbind (smap_err (err ''write trailer: '') (io_write_all tmp_path (pos + length meta_bytes) header_enc)) (\<lambda>_.
      sbind (smap_err (err ''seek to header: '') io_seek) (\<lambda>_.
      sbind (smap_err (err ''write header: '') (io_write_last tmp_path 0 header_enc)) (\<lambda>_.
      sbind (if sync = Durable then smap_err (err ''fdatasync: '') io_sync else sret ()) (\<lambda>_.
      smap_err (err ''rename: '') (io_rename tmp_path obj_path)))))))"

text \<open>\<open>pos\<close> is where the caller left the write position of the file; the guard is dropped on every way out.\<close>

definition commit_inner :: "fs_env \<Rightarrow> bytes \<Rightarrow> streaming_put_guard \<Rightarrow> nat \<Rightarrow> put_options \<Rightarrow> plaintext_metrics \<Rightarrow> cipher_metadata
    \<Rightarrow> bool fs_comp" where
  "commit_inner E nonce g pos options pm cm =
     (let bucket = sg_bucket g; key = sg_key g; op = ''put''; tmp_path = sg_tmp_path g; obj_path = sg_obj_path g in
      sbind (sget now_nanos) (\<lambda>now.
      let metadata = commit_metadata now g options pm cm in
      sbind (slift (map_err (\<lambda>e. InternalError bucket key op (''encode meta: '' @ e)) (fe_ser E metadata))) (\<lambda>meta_json.
      sbind (sget fs_mek) (\<lambda>slot.
      sbind (slift (require_object_metadata_key slot)) (\<lambda>mek.
      sbind (slift (require_container_header_key slot)) (\<lambda>chk.
      sbind (slift (ok_or (object_id_from_path obj_path) (InternalError bucket key op ''cannot derive object id from path''))) (\<lambda>object_id.
      sbind (slift (map_err (\<lambda>e. InternalError bucket key op (''encrypt meta: '' @ fe_crypto_text E e))
        (encrypt_meta (fe_prims E) nonce mek meta_json object_id META_PAD_BLOCK))) (\<lambda>meta_bytes.
      let header_enc = encode_header (fe_prims E) (record_header (cm_cipher_size cm) meta_bytes (po_sync options)) chk object_id in
      sbind (finish_object_file E bucket key tmp_path obj_path pos header_enc meta_bytes (po_sync options)) (\<lambda>_.
      sbind (after_rename E obj_path metadata (po_sync options)) (\<lambda>_.
      sret (sg_is_overwrite g)))))))))))"

definition commit :: "fs_env \<Rightarrow> bytes \<Rightarrow> streaming_put_guard \<Rightarrow> nat \<Rightarrow> put_options \<Rightarrow> plaintext_metrics \<Rightarrow> cipher_metadata
    \<Rightarrow> bool fs_comp" where
  "commit E nonce g pos options pm cm =
     sbind (stry (commit_inner E nonce g pos options pm cm)) (\<lambda>r.
     sbind (guard_dropped g) (\<lambda>_. slift r))"

subsection \<open>Get, delete, labels and describe\<close>

text \<open>The common start of reads and deletes: the checks, the open file and its authenticated header.\<close>

definition open_record :: "fs_env \<Rightarrow> string \<Rightarrow> string \<Rightarrow> string \<Rightarrow> (path \<times> bytes \<times> header) fs_comp" where
  "open_record E op bucket key =
     (let err = io_err E bucket key op; internal = InternalError bucket key op in
      sbind (validated E bucket key) (\<lambda>_.
      sbind (key_path E bucket key) (\<lambda>obj_path.
      sbind (\<lambda>s. (s, check_not_locked (fs_locks s) bucket key)) (\<lambda>_.
      sbind (smap_err (\<lambda>e. if e = NoSuchFile then NotFound bucket key else err [] e) (io_open obj_path)) (\<lambda>file.
      sbind (smap_err (err ''read header: '') (io_read_exact file 0 HEADER_SIZE)) (\<lambda>header_buf.
      sbind (sget fs_mek) (\<lambda>slot.
      sbind (slift (require_container_header_key slot)) (\<lambda>chk.
      sbind (slift (ok_or (object_id_from_path obj_path) (internal ''cannot derive object id from path''))) (\<lambda>object_id.
      sbind (slift (map_err (\<lambda>e. internal (''decode header: '' @ fe_format_text E e))
        (decode_header (fe_prims E) header_buf chk object_id))) (\<lambda>header.
      sbind (smap_err (err ''stat: '') (io_fstat_len file)) (\<lambda>file_len.
      sbind (slift (map_err (\<lambda>e. internal (fe_format_text E e)) (check_total_len header file_len))) (\<lambda>_.
      sret (obj_path, file, header)))))))))))))"

definition get :: "fs_env \<Rightarrow> string \<Rightarrow> string \<Rightarrow> bytes fs_comp" where
  "get E bucket key =
     sbind (open_record E ''get'' bucket key) (\<lambda>(obj_path, file, header).
     sbind (smap_err (io_err E bucket key ''get'' ''seek data: '') io_seek) (\<lambda>_.
     smap_err (io_err E bucket key ''get'' ''read data: '')
       (io_read_exact file (unat (hd_data_offset header)) (unat (hd_data_len header)))))"

text \<open>\<open>None\<close> is the panic of an allocation beyond \<open>isize::MAX\<close>, which a range whose last byte lies more than one
  before its first runs into: the length wraps around.\<close>

definition get_range :: "fs_env \<Rightarrow> string \<Rightarrow> string \<Rightarrow> u64 \<Rightarrow> u64 \<Rightarrow> bytes option fs_comp" where
  "get_range E bucket key range_start range_last =
     sbind (open_record E ''get_range'' bucket key) (\<lambda>(obj_path, file, header).
     if hd_data_len header = 0 \<or> hd_data_len header \<le> range_start then sret (Some []) else
     let end_inclusive = min range_last (hd_data_len header - 1); len = end_inclusive - range_start + 1 in
     sbind (smap_err (io_err E bucket key ''get_range'' ''seek: '') io_seek) (\<lambda>_.
     if 2 ^ 63 \<le> unat len then sret None else
     sbind (smap_err (io_err E bucket key ''get_range'' ''read data: '')
       (io_read_exact file (unat (ucast (hd_data_offset header) + range_start)) (unat len))) (\<lambda>data.
     sret (Some data))))"

definition delete :: "fs_env \<Rightarrow> string \<Rightarrow> string \<Rightarrow> unit fs_comp" where
  "delete E bucket key =
     sbind (open_record E ''delete'' bucket key) (\<lambda>(obj_path, file, header).
     sbind (stry (io_remove_file obj_path)) (\<lambda>r.
     case r of
       Inl e \<Rightarrow> if e \<noteq> NoSuchFile then sfail (io_err E bucket key ''delete'' ''unlink: '' e)
                else sbind (stry (ix_call (\<lambda>fault ix. remove (fe_de E) fault ix bucket key))) (\<lambda>_. sret ())
     | Inr _ \<Rightarrow> sbind (stry (ix_call (\<lambda>fault ix. remove (fe_de E) fault ix bucket key))) (\<lambda>_. sret ())))"

text \<open>The record with its metadata replaced: the header, zero padding up to the data, data, metadata, trailer.\<close>

definition relabelled :: "bytes \<Rightarrow> header \<Rightarrow> bytes \<Rightarrow> bytes \<Rightarrow> bytes" where
  "relabelled file header new_meta header_enc =
     (let data_start = unat (hd_data_offset header); meta_start = unat (meta_offset header);
          data = take (meta_start - data_start) (drop data_start file)
      in take data_start header_enc @ replicate (data_start - length header_enc) 0 @ data @ new_meta @ header_enc)"

definition rewrite_labels :: "fs_env \<Rightarrow> bytes \<Rightarrow> bytes \<Rightarrow> bytes \<Rightarrow> path \<Rightarrow> string \<Rightarrow> string \<Rightarrow> label_set \<Rightarrow> unit fs_comp" where
  "rewrite_labels E nonce mek chk obj_path bucket key labels =
     (let P = fe_prims E; op = ''set_labels''; internal = InternalError bucket key op in
      sbind (smap_err (\<lambda>e. if e = NoSuchFile then NotFound bucket key else io_err E bucket key op [] e) (io_open obj_path)) (\<lambda>bytes.
      if length bytes < HEADER_SIZE then sfail (internal ''object file shorter than header'') else
      sbind (slift (ok_or (object_id_from_path obj_path) (internal ''cannot derive object id from path''))) (\<lambda>object_id.
      sbind (slift (map_err (\<lambda>e. internal (''decode header: '' @ fe_format_text E e))
        (decode_header P (take HEADER_SIZE bytes) chk object_id))) (\<lambda>header.
      sbind (slift (map_err (\<lambda>e. internal (fe_format_text E e)) (check_total_len header (of_nat (length bytes))))) (\<lambda>_.
      let meta_bytes = take (unat (hd_meta_len header)) (drop (unat (meta_offset header)) bytes) in
      sbind (slift (map_err (\<lambda>e. internal (''decrypt meta: '' @ fe_crypto_text E e)) (decrypt_meta P mek meta_bytes object_id))) (\<lambda>meta_json.
      sbind (slift (map_err (\<lambda>e. internal (''parse meta: '' @ e)) (fe_de E meta_json))) (\<lambda>metadata.
      sbind (sget now_nanos) (\<lambda>now.
      let metadata = metadata\<lparr>md_labels := labels, md_modified := now\<rparr> in
      sbind (slift (map_err (\<lambda>e. internal (''encode meta: '' @ e)) (fe_ser E metadata))) (\<lambda>new_json.
      sbind (slift (map_err (\<lambda>e. internal (''encrypt meta: '' @ fe_crypto_text E e))
        (encrypt_meta P nonce mek new_json object_id META_PAD_BLOCK))) (\<lambda>new_meta.
      let header_enc = encode_header P (header\<lparr>hd_meta_len := of_nat (length new_meta)\<rparr>) chk object_id;
          tmp_path = with_extension obj_path ''labels.tmp'' in
      sbind (smap_err (io_err E bucket key op ''write tmp: '') (sbind (io_open_trunc tmp_path) (\<lambda>_.
        io_write_all tmp_path 0 (relabelled bytes header new_meta header_enc)))) (\<lambda>_.
      sbind (smap_err (io_err E bucket key op ''rename: '') (io_rename tmp_path obj_path)) (\<lambda>_.
      sbind (stry (ix_call (\<lambda>fault ix. upsert (fe_ser E) (fe_de E) fault ix metadata Durable))) (\<lambda>_.
      sret ())))))))))))))"

definition set_labels_impl :: "fs_env \<Rightarrow> bytes \<Rightarrow> bytes \<Rightarrow> bytes \<Rightarrow> bytes \<Rightarrow> string \<Rightarrow> string \<Rightarrow> label_set \<Rightarrow> unit fs_comp" where
  "set_labels_impl E nonce mek chk pk bucket key labels =
     sbind (validated E bucket key) (\<lambda>_.
     sbind (sget (\<lambda>s. obj_path_for (fe_prims E) (fs_base_path s) pk bucket key)) (\<lambda>obj_path.
     rewrite_labels E nonce mek chk obj_path bucket key labels))"

definition set_labels :: "fs_env \<Rightarrow> bytes \<Rightarrow> string \<Rightarrow> string \<Rightarrow> label_set \<Rightarrow> unit fs_comp" where
  "set_labels E nonce bucket key labels =
     sbind (\<lambda>s. (s, check_not_locked (fs_locks s) bucket key)) (\<lambda>_.
     sbind (sget fs_mek) (\<lambda>slot.
     sbind (slift (require_path_key slot)) (\<lambda>pk.
     sbind (slift (require_object_metadata_key slot)) (\<lambda>mek.
     sbind (slift (require_container_header_key slot)) (\<lambda>chk.
     set_labels_impl E nonce mek chk pk bucket key labels)))))"

definition describe :: "fs_env \<Rightarrow> string \<Rightarrow> string \<Rightarrow> metadata fs_comp" where
  "describe E bucket key =
     sbind (validated E bucket key) (\<lambda>_.
     sbind (key_path E bucket key) (\<lambda>obj_path.
     sbind (\<lambda>s. (s, check_not_locked (fs_locks s) bucket key)) (\<lambda>_.
     sbind (stry (io_exists obj_path)) (\<lambda>present.
     if present \<noteq> Inr True then sfail (NotFound bucket key) else
     sbind (sget fs_mek) (\<lambda>slot.
     sbind (slift (require_object_metadata_key slot)) (\<lambda>mek.
     sbind (slift (require_container_header_key slot)) (\<lambda>chk.
     smap_err (io_err E bucket key ''describe'' []) (read_obj_metadata E obj_path mek chk))))))))"

subsection \<open>Listing\<close>

definition fs_list_buckets :: "string list fs_comp" where "fs_list_buckets = list_buckets_union"

definition fs_bucket_exists :: "string \<Rightarrow> bool fs_comp" where
  "fs_bucket_exists bucket = ix_read (\<lambda>fault ix. bucket_exists fault ix bucket)"

definition create_bucket :: "fs_env \<Rightarrow> string \<Rightarrow> bool fs_comp" where
  "create_bucket E bucket =
     sbind (sget fs_mek) (\<lambda>slot. sbind (slift (require_path_key slot)) (\<lambda>pk. create_bucket_impl E pk bucket))"

definition delete_bucket :: "fs_env \<Rightarrow> string \<Rightarrow> nat fs_comp" where
  "delete_bucket E bucket =
     sbind (sget fs_mek) (\<lambda>slot. sbind (slift (require_path_key slot)) (\<lambda>pk. delete_bucket_impl E pk bucket))"

definition get_bucket_config :: "fs_env \<Rightarrow> string \<Rightarrow> bucket_config fs_comp" where
  "get_bucket_config E bucket =
     sbind (sget fs_mek) (\<lambda>slot. sbind (slift (require_path_key slot)) (\<lambda>pk.
     sbind (slift (require_bucket_config_key slot)) (\<lambda>config_key. get_bucket_config_impl E pk config_key bucket)))"

definition set_bucket_config :: "fs_env \<Rightarrow> bytes \<Rightarrow> string \<Rightarrow> bucket_config \<Rightarrow> unit fs_comp" where
  "set_bucket_config E nonce bucket config =
     sbind (sget fs_mek) (\<lambda>slot. sbind (slift (require_path_key slot)) (\<lambda>pk.
     sbind (slift (require_bucket_config_key slot)) (\<lambda>config_key. set_bucket_config_impl E nonce pk config_key bucket config)))"

definition bucket_usage :: "fs_env \<Rightarrow> nat \<Rightarrow> string \<Rightarrow> u64 option fs_comp" where
  "bucket_usage E fuel bucket = bucket_usage_impl E fuel bucket"

definition page_limit :: "list_options \<Rightarrow> nat" where
  "page_limit options = min (case lo_limit options of Some n \<Rightarrow> if 0 < n then n else DEFAULT_LIST_LIMIT | None \<Rightarrow> DEFAULT_LIST_LIMIT)
     MAX_LIST_LIMIT"

definition list_objects :: "fs_env \<Rightarrow> string \<Rightarrow> list_options \<Rightarrow> list_page fs_comp" where
  "list_objects E bucket options =
     sbind (slift (validate_bucket E bucket)) (\<lambda>_.
     ix_read (\<lambda>fault ix. scan_objects (fe_de E) fault ix bucket (lo_prefix options) (lo_after options) (page_limit options)))"

definition search_objects :: "fs_env \<Rightarrow> label_query \<Rightarrow> string option \<Rightarrow> list_options \<Rightarrow> list_page fs_comp" where
  "search_objects E query bucket options =
     sbind (slift (case bucket of Some b \<Rightarrow> validate_bucket E b | None \<Rightarrow> Inr ())) (\<lambda>_.
     ix_read (\<lambda>fault ix. search_labels (fe_is_match E) (fe_de E) fault ix query bucket (lo_prefix options) (lo_after options)
       (page_limit options)))"

subsection \<open>Rebuild and sweeps\<close>

definition collect_obj_files :: "path \<Rightarrow> (fs_storage, io_error, path list) comp" where
  "collect_obj_files base_path =
     visit (in_dirs (visit (in_dirs (visit (in_dirs (visit (\<lambda>(p, _) out.
       sret (if path_extension p = Some ''obj'' then out @ [p] else out)))))))) base_path []"

text \<open>The percentage that is reported after file \<open>i\<close>; the cast to \<open>u8\<close> happens before the cap.\<close>

definition report_progress :: "nat \<Rightarrow> nat \<Rightarrow> fs_storage \<Rightarrow> fs_storage" where
  "report_progress total_files i s =
     (if i mod max 1 (total_files div 100) = 0 \<and> 0 < total_files
      then s\<lparr>fs_rebuild_state := Running (min (of_nat ((i + 1) * 100 div total_files)) 99)\<rparr> else s)"

fun rebuild_loop :: "fs_env \<Rightarrow> bytes \<Rightarrow> bytes \<Rightarrow> nat \<Rightarrow> nat \<Rightarrow> path list \<Rightarrow> (string \<times> string) list
    \<Rightarrow> (fs_storage, string, (string \<times> string) list) comp" where
  "rebuild_loop E mek chk total_files i [] seen = sret seen"
| "rebuild_loop E mek chk total_files i (path # paths) seen =
     sbind (stry (read_obj_metadata E path mek chk)) (\<lambda>r.
     sbind (case r of
         Inr meta \<Rightarrow> sbind (stry (ix_call (\<lambda>fault ix. upsert (fe_ser E) (fe_de E) fault ix meta Durable))) (\<lambda>_.
                     sret ((md_bucket meta, md_key meta) # seen))
       | Inl e \<Rightarrow> sret seen) (\<lambda>seen.
     sbind (supd (report_progress total_files i)) (\<lambda>_.
     rebuild_loop E mek chk total_files (i + 1) paths seen)))"

fun drop_lost :: "fs_env \<Rightarrow> (string \<times> string) list \<Rightarrow> (string \<times> string) list \<Rightarrow> (fs_storage, string, unit) comp" where
  "drop_lost E seen [] = sret ()"
| "drop_lost E seen ((bucket, key) # rest) =
     (if (bucket, key) \<notin> set seen
      then sbind (stry (ix_call (\<lambda>fault ix. remove (fe_de E) fault ix bucket key))) (\<lambda>_. drop_lost E seen rest)
      else drop_lost E seen rest)"

definition run_rebuild :: "fs_env \<Rightarrow> bytes \<Rightarrow> bytes \<Rightarrow> (fs_storage, string, unit) comp" where
  "run_rebuild E mek chk =
     sbind (sget fs_base_path) (\<lambda>base_path.
     sbind (smap_err (\<lambda>e. ''enumerate obj files: '' @ fe_io_text E e) (collect_obj_files base_path)) (\<lambda>obj_files.
     sbind (rebuild_loop E mek chk (length obj_files) 0 obj_files []) (\<lambda>seen.
     sbind (smap_err (\<lambda>e. ''list index keys: '' @ fe_error_text E e) (ix_read list_all_keys)) (\<lambda>all_keys.
     drop_lost E seen all_keys))))"

text \<open>\<open>rebuild_cache\<close> returns what the spawned task captures; \<open>rebuild_task\<close> is that task.\<close>

definition rebuild_cache :: "(bytes \<times> bytes) fs_comp" where
  "rebuild_cache =
     sbind (sget fs_rebuild_state) (\<lambda>state.
     case state of Running _ \<Rightarrow> sfail RebuildAlreadyRunning | _ \<Rightarrow>
     sbind (supd (\<lambda>s. s\<lparr>fs_rebuild_state := Running 0\<rparr>)) (\<lambda>_.
     sbind (sget fs_mek) (\<lambda>slot.
     sbind (slift (require_object_metadata_key slot)) (\<lambda>mek.
     sbind (slift (require_container_header_key slot)) (\<lambda>chk.
     sret (mek, chk))))))"

definition rebuild_task :: "fs_env \<Rightarrow> bytes \<times> bytes \<Rightarrow> fs_storage \<Rightarrow> fs_storage" where
  "rebuild_task E captured s =
     (case run_rebuild E (fst captured) (snd captured) s of
        (s, Inr ()) \<Rightarrow> s\<lparr>fs_rebuild_state := Completed\<rparr>
      | (s, Inl msg) \<Rightarrow> s\<lparr>fs_rebuild_state := Failed msg\<rparr>)"

definition rebuild_progress :: "cache_rebuild_status fs_comp" where
  "rebuild_progress = sget fs_rebuild_state"

definition list_stale_locks :: "time \<Rightarrow> stale_lock list fs_comp" where
  "list_stale_locks older_than = sget (\<lambda>s. list_stale (fs_locks s) older_than)"

definition clear_orphan_tmp_files :: "path \<Rightarrow> time \<Rightarrow> (fs_storage, io_error, nat) comp" where
  "clear_orphan_tmp_files base_path cutoff =
     visit (in_dirs (visit (in_dirs (visit (in_dirs (visit (\<lambda>(p, _) removed.
       if path_extension p \<noteq> Some ''tmp'' then sret removed else
       sbind (stry (io_mtime p)) (\<lambda>mtime.
       case mtime of
         Inr t \<Rightarrow> if t < cutoff
                  then sbind (stry (io_remove_file p)) (\<lambda>r. sret (if is_ok r then removed + 1 else removed))
                  else sret removed
       | Inl _ \<Rightarrow> sret removed)))))))) base_path 0"

definition clear_stale_locks :: "time \<Rightarrow> nat fs_comp" where
  "clear_stale_locks older_than =
     sbind (\<lambda>s. case clear_stale (fs_locks s) older_than of (m, n) \<Rightarrow> (s\<lparr>fs_locks := m\<rparr>, Inr n)) (\<lambda>locks.
     sbind (sget fs_base_path) (\<lambda>base_path.
     sbind (stry (clear_orphan_tmp_files base_path older_than)) (\<lambda>r.
     sret (locks + (case r of Inr n \<Rightarrow> n | Inl _ \<Rightarrow> 0)))))"

end
