(* ===== verification/Metadata_Index_Laws.thy ===== *)
theory Metadata_Index_Laws
  imports Metadata_Index
begin

text \<open>
  What the metadata index promises. \<open>index_inv\<close> is the consistency of the tables: every object row
  decodes to metadata filed under its own bucket and key, and the label table holds exactly the rows
  of the labels of the stored objects. Under it the database represents the finite map \<open>obj_of\<close> from
  addresses to metadata; every transaction updates that map in one place and keeps the invariant, the
  lookups and listings read it, and following the continuation cursor visits every object once.
\<close>

definition meta_ok :: "metadata \<Rightarrow> bool" where
  "meta_ok m \<longleftrightarrow> str_ok (md_bucket m) \<and> str_ok (md_key m) \<and> (\<forall>(n, v) \<in> set (md_labels m). str_ok n \<and> str_ok v)"

definition obj_of :: "json_de \<Rightarrow> index_db \<Rightarrow> string \<Rightarrow> string \<Rightarrow> metadata option" where
  "obj_of de db b k = (case dm_get (db_objects db) (encode_object_key b k) of
     None \<Rightarrow> None | Some v \<Rightarrow> (case de v of Inr m \<Rightarrow> Some m | Inl _ \<Rightarrow> None))"

definition rows_ok :: "json_de \<Rightarrow> index_db \<Rightarrow> bool" where
  "rows_ok de db \<longleftrightarrow> (\<forall>ok v. dm_get (db_objects db) ok = Some v \<longrightarrow>
     (\<exists>m. de v = Inr m \<and> meta_ok m \<and> ok = encode_object_key (md_bucket m) (md_key m)))"

definition has_label :: "json_de \<Rightarrow> index_db \<Rightarrow> bytes \<Rightarrow> bool" where
  "has_label de db lk \<longleftrightarrow> (\<exists>b k m n x. str_ok b \<and> str_ok k \<and> obj_of de db b k = Some m
     \<and> (n, x) \<in> set (md_labels m) \<and> lk = encode_label_key n x b k)"

definition index_inv :: "json_de \<Rightarrow> index_db \<Rightarrow> bool" where
  "index_inv de db \<longleftrightarrow> tb_inv (db_objects db) \<and> tb_inv (db_labels db) \<and> tb_inv (db_buckets db)
     \<and> rows_ok de db \<and> (\<forall>lk. dm_get (db_labels db) lk \<noteq> None \<longleftrightarrow> has_label de db lk)"

subsection \<open>The map a database represents\<close>

lemma index_invD:
  assumes "index_inv de db"
  shows "tb_inv (db_objects db)" "tb_inv (db_labels db)" "tb_inv (db_buckets db)" "rows_ok de db"
    "\<And>lk. dm_get (db_labels db) lk \<noteq> None \<longleftrightarrow> has_label de db lk"
  using assms by (auto simp: index_inv_def)

lemma obj_of_row:
  assumes "rows_ok de db" and "str_ok b" and "str_ok k"
  shows "obj_of de db b k = Some m \<longleftrightarrow> (\<exists>v. dm_get (db_objects db) (encode_object_key b k) = Some v \<and> de v = Inr m)"
    and "obj_of de db b k = Some m \<Longrightarrow> md_bucket m = b \<and> md_key m = k \<and> meta_ok m"
    and "obj_of de db b k = None \<longleftrightarrow> dm_get (db_objects db) (encode_object_key b k) = None"
proof -
  have row: "\<exists>m. de v = Inr m \<and> meta_ok m \<and> md_bucket m = b \<and> md_key m = k"
    if "dm_get (db_objects db) (encode_object_key b k) = Some v" for v
    using assms that unfolding rows_ok_def by (metis encode_object_key_inj meta_ok_def)
  show "obj_of de db b k = Some m \<longleftrightarrow> (\<exists>v. dm_get (db_objects db) (encode_object_key b k) = Some v \<and> de v = Inr m)"
    and "obj_of de db b k = Some m \<Longrightarrow> md_bucket m = b \<and> md_key m = k \<and> meta_ok m"
    and "obj_of de db b k = None \<longleftrightarrow> dm_get (db_objects db) (encode_object_key b k) = None"
    using row by (fastforce simp: obj_of_def split: option.splits sum.splits)+
qed

lemma drop_prev_labels_obj:
  "rows_ok de db \<Longrightarrow> str_ok b \<Longrightarrow> str_ok k \<Longrightarrow> drop_prev_labels de db b k =
    (case obj_of de db b k of Some pm \<Rightarrow> remove_label_rows b k (md_labels pm) (db_labels db) | None \<Rightarrow> db_labels db)"
  by (auto simp: drop_prev_labels_def obj_of_def split: option.splits sum.splits)

lemma remove_label_rows_fold:
  "remove_label_rows b k ls t = fold tb_remove (map (\<lambda>(n, v). encode_label_key n v b k) ls) t"
  by (simp add: remove_label_rows_def fold_map comp_def case_prod_unfold)

lemma get_remove_label_rows:
  "tb_inv t \<Longrightarrow> dm_get (remove_label_rows b k ls t) lk =
    (if \<exists>(n, v) \<in> set ls. lk = encode_label_key n v b k then None else dm_get t lk)"
  by (auto simp: remove_label_rows_fold tb.get_fold_rem)

lemma inv_remove_label_rows: "tb_inv t \<Longrightarrow> tb_inv (remove_label_rows b k ls t)"
  by (simp add: remove_label_rows_fold tb.inv_fold_rem)

lemma insert_label_rows_spec:
  assumes "tb_inv t"
  shows "dm_get (insert_label_rows b k ls t) lk \<noteq> None \<longleftrightarrow>
      (\<exists>(n, v) \<in> set ls. lk = encode_label_key n v b k) \<or> dm_get t lk \<noteq> None"
    and "tb_inv (insert_label_rows b k ls t)"
  using assms
proof (induction ls arbitrary: t)
  case (Cons l ls)
  { case 1 then show ?case
      using Cons.IH(1) [of "tb_insert (encode_label_key (fst l) (snd l) b k) [] t"]
      by (auto simp: insert_label_rows_def case_prod_unfold tb.inv_ins map_of_tb_insert)
  next
    case 2 then show ?case
      using Cons.IH(2) [of "tb_insert (encode_label_key (fst l) (snd l) b k) [] t"]
      by (simp add: insert_label_rows_def case_prod_unfold tb.inv_ins) }
qed (simp_all add: insert_label_rows_def)

text \<open>The label rows left after the previous labels of an object are dropped are those of the other
  objects.\<close>

lemma drop_prev_labels_spec:
  assumes inv: "index_inv de db" and ok: "str_ok b" "str_ok k"
  shows "tb_inv (drop_prev_labels de db b k)"
    and "dm_get (drop_prev_labels de db b k) lk \<noteq> None \<longleftrightarrow>
      (\<exists>b' k' m n x. (b', k') \<noteq> (b, k) \<and> str_ok b' \<and> str_ok k' \<and> obj_of de db b' k' = Some m
        \<and> (n, x) \<in> set (md_labels m) \<and> lk = encode_label_key n x b' k')"
proof -
  note i = index_invD [OF inv]
  show "tb_inv (drop_prev_labels de db b k)"
    using i(2) by (auto simp: drop_prev_labels_obj [OF i(4) ok] inv_remove_label_rows split: option.splits)
  have inj: "encode_label_key n x b' k' = encode_label_key n' x' b k \<longleftrightarrow> n = n' \<and> x = x' \<and> b' = b \<and> k' = k"
    if "str_ok b'" "str_ok k'" "obj_of de db b' k' = Some m" "(n, x) \<in> set (md_labels m)"
      "obj_of de db b k = Some m'" "(n', x') \<in> set (md_labels m')" for b' k' m n x m' n' x'
    using that obj_of_row(2) [OF i(4)] ok by (intro encode_label_key_inj) (fastforce simp: meta_ok_def)+
  show "dm_get (drop_prev_labels de db b k) lk \<noteq> None \<longleftrightarrow>
      (\<exists>b' k' m n x. (b', k') \<noteq> (b, k) \<and> str_ok b' \<and> str_ok k' \<and> obj_of de db b' k' = Some m
        \<and> (n, x) \<in> set (md_labels m) \<and> lk = encode_label_key n x b' k')"
    (is "_ \<longleftrightarrow> ?R")
  proof -
    let ?own = "\<exists>pm n v. obj_of de db b k = Some pm \<and> (n, v) \<in> set (md_labels pm) \<and> lk = encode_label_key n v b k"
    have "dm_get (drop_prev_labels de db b k) lk \<noteq> None \<longleftrightarrow> \<not> ?own \<and> has_label de db lk"
      using i(5) [of lk]
      by (auto simp: drop_prev_labels_obj [OF i(4) ok] get_remove_label_rows [OF i(2)] split: option.splits)
    also have "\<dots> \<longleftrightarrow> ?R"
    proof
      assume L: "\<not> ?own \<and> has_label de db lk"
      then obtain b' k' m n x where o: "str_ok b'" "str_ok k'" "obj_of de db b' k' = Some m"
        "(n, x) \<in> set (md_labels m)" "lk = encode_label_key n x b' k'"
        unfolding has_label_def by blast
      moreover have "(b', k') \<noteq> (b, k)" using o L by auto
      ultimately show ?R by blast
    next
      assume ?R
      then obtain b' k' m n x where o: "(b', k') \<noteq> (b, k)" "str_ok b'" "str_ok k'" "obj_of de db b' k' = Some m"
        "(n, x) \<in> set (md_labels m)" "lk = encode_label_key n x b' k'"
        by blast
      then have "has_label de db lk" unfolding has_label_def by blast
      moreover have "lk \<noteq> encode_label_key n' v' b k"
        if "obj_of de db b k = Some pm" "(n', v') \<in> set (md_labels pm)" for pm n' v'
        using inj [OF o(2-5) that] o(1,6) by simp
      ultimately show "\<not> ?own \<and> has_label de db lk" by blast
    qed
    finally show ?thesis .
  qed
qed

subsection \<open>Transactions\<close>

lemma upsert_inv:
  assumes inv: "index_inv de db" and m: "meta_ok m" and p: "de payload = Inr m"
  defines "b \<equiv> md_bucket m" and "k \<equiv> md_key m"
  defines "db' \<equiv> db\<lparr>db_objects := tb_insert (encode_object_key b k) payload (db_objects db),
    db_labels := insert_label_rows b k (md_labels m) (drop_prev_labels de db b k)\<rparr>"
  shows "index_inv de db'"
    and "str_ok b' \<Longrightarrow> str_ok k' \<Longrightarrow> obj_of de db' b' k' = (if (b', k') = (b, k) then Some m else obj_of de db b' k')"
proof -
  note i = index_invD [OF inv]
  have ok: "str_ok b" "str_ok k" using m by (simp_all add: meta_ok_def b_def k_def)
  note d = drop_prev_labels_spec [OF inv ok]
  show obj: "obj_of de db' b' k' = (if (b', k') = (b, k) then Some m else obj_of de db b' k')"
    if "str_ok b'" "str_ok k'" for b' k'
    using that ok p by (auto simp: obj_of_def db'_def map_of_tb_insert encode_object_key_inj)
  have "rows_ok de db'"
    using i(4) m p by (auto simp: rows_ok_def db'_def map_of_tb_insert b_def k_def)
  moreover have "dm_get (db_labels db') lk \<noteq> None \<longleftrightarrow> has_label de db' lk" for lk
  proof -
    have "dm_get (db_labels db') lk \<noteq> None \<longleftrightarrow>
        (\<exists>n x. (n, x) \<in> set (md_labels m) \<and> lk = encode_label_key n x b k)
        \<or> dm_get (drop_prev_labels de db b k) lk \<noteq> None"
      using insert_label_rows_spec(1) [OF d(1), of b k "md_labels m" lk] by (auto simp: db'_def)
    also have "\<dots> \<longleftrightarrow> has_label de db' lk" (is "?own \<or> _ \<longleftrightarrow> _")
    proof
      assume "?own \<or> dm_get (drop_prev_labels de db b k) lk \<noteq> None"
      then show "has_label de db' lk"
        unfolding d(2) has_label_def using obj ok by (elim disjE) (metis (full_types))+
    next
      assume "has_label de db' lk"
      then obtain b' k' m' n x where o: "str_ok b'" "str_ok k'" "obj_of de db' b' k' = Some m'"
        "(n, x) \<in> set (md_labels m')" "lk = encode_label_key n x b' k'" unfolding has_label_def by blast
      show "?own \<or> dm_get (drop_prev_labels de db b k) lk \<noteq> None"
      proof (cases "(b', k') = (b, k)")
        case True
        then show ?thesis using o obj [OF ok] by auto
      next
        case False
        then show ?thesis unfolding d(2) using o obj [OF o(1,2)] by metis
      qed
    qed
    finally show ?thesis .
  qed
  ultimately show "index_inv de db'"
    using i d(1) by (simp add: index_inv_def db'_def tb.inv_ins insert_label_rows_spec(2))
qed

lemma remove_inv:
  assumes inv: "index_inv de db" and ok: "str_ok b" "str_ok k"
  defines "db' \<equiv> db\<lparr>db_objects := tb_remove (encode_object_key b k) (db_objects db),
    db_labels := drop_prev_labels de db b k\<rparr>"
  shows "index_inv de db'"
    and "str_ok b' \<Longrightarrow> str_ok k' \<Longrightarrow> obj_of de db' b' k' = (if (b', k') = (b, k) then None else obj_of de db b' k')"
proof -
  note i = index_invD [OF inv] and d = drop_prev_labels_spec [OF inv ok]
  show obj: "obj_of de db' b' k' = (if (b', k') = (b, k) then None else obj_of de db b' k')"
    if "str_ok b'" "str_ok k'" for b' k'
    using that ok by (auto simp: obj_of_def db'_def map_of_tb_remove [OF i(1)] encode_object_key_inj)
  have "rows_ok de db'"
    using i(4) by (auto simp: rows_ok_def db'_def map_of_tb_remove [OF i(1)])
  moreover have "dm_get (db_labels db') lk \<noteq> None \<longleftrightarrow> has_label de db' lk" for lk
  proof -
    have "dm_get (db_labels db') lk \<noteq> None \<longleftrightarrow> dm_get (drop_prev_labels de db b k) lk \<noteq> None" by (simp add: db'_def)
    also have "\<dots> \<longleftrightarrow> has_label de db' lk"
    proof
      assume "dm_get (drop_prev_labels de db b k) lk \<noteq> None"
      then show "has_label de db' lk" unfolding d(2) has_label_def using obj by (metis (full_types))
    next
      assume "has_label de db' lk"
      then obtain b' k' m' n x where o: "str_ok b'" "str_ok k'" "obj_of de db' b' k' = Some m'"
        "(n, x) \<in> set (md_labels m')" "lk = encode_label_key n x b' k'" unfolding has_label_def by blast
      then show "dm_get (drop_prev_labels de db b k) lk \<noteq> None"
        unfolding d(2) using obj [OF o(1,2)] by (metis option.distinct(1))
    qed
    finally show ?thesis .
  qed
  ultimately show "index_inv de db'"
    using i d(1) by (simp add: index_inv_def db'_def tb.inv_rem)
qed

lemma lookup_by_key_obj:
  "ix_db ix = Some db \<Longrightarrow> index_inv de db \<Longrightarrow> str_ok b \<Longrightarrow> str_ok k \<Longrightarrow>
   lookup_by_key de None ix b k = Inr (obj_of de db b k)"
  using obj_of_row(1,3) [OF index_invD(4), of de db b k]
  by (auto simp: lookup_by_key_def get_db_def db_call_def json_de_err_def obj_of_def rows_ok_def
      split: option.splits sum.splits)

subsection \<open>Pages\<close>

definition mk_page :: "(metadata \<Rightarrow> string) \<Rightarrow> metadata list \<times> bool \<Rightarrow> list_page" where
  "mk_page cur r = \<lparr>lp_items = fst r, lp_next = (if snd r then map_option cur (last_opt (fst r)) else None)\<rparr>"

definition past :: "(metadata \<Rightarrow> string) \<Rightarrow> string option \<Rightarrow> metadata \<Rightarrow> bool" where
  "past cur after m = (case after of Some a \<Rightarrow> a < cur m | None \<Rightarrow> True)"

definition cursor_page :: "(metadata \<Rightarrow> string) \<Rightarrow> metadata list \<Rightarrow> nat \<Rightarrow> string option \<Rightarrow> list_page" where
  "cursor_page cur all limit after = mk_page cur (page_loop (\<lambda>m. \<not> past cur after m) limit [] all)"

text \<open>Following the continuation cursor until it is absent; the fuel bounds the number of pages.\<close>

fun follow_pages :: "(string option \<Rightarrow> error + list_page) \<Rightarrow> nat \<Rightarrow> string option
    \<Rightarrow> (error + metadata list) option" where
  "follow_pages fetch 0 after = None"
| "follow_pages fetch (Suc n) after =
     (case fetch after of Inl e \<Rightarrow> Some (Inl e)
      | Inr p \<Rightarrow> (case lp_next p of
          None \<Rightarrow> Some (Inr (lp_items p))
        | Some c \<Rightarrow> map_option (\<lambda>r. rbind r (\<lambda>more. Inr (lp_items p @ more))) (follow_pages fetch n (Some c))))"

text \<open>The contract of a paged listing over a list that is strictly ascending in its cursor.\<close>

locale pager =
  fixes page :: "metadata list \<Rightarrow> nat \<Rightarrow> string option \<Rightarrow> list_page" and cur :: "metadata \<Rightarrow> string"
  assumes page_items: "lp_items (page all limit after) = take limit (filter (past cur after) all)"
    and page_next: "0 < limit \<Longrightarrow> lp_next (page all limit after) =
      (if limit < length (filter (past cur after) all)
       then Some (cur (filter (past cur after) all ! (limit - 1))) else None)"
begin

lemma resume:
  assumes "sorted_wrt (\<lambda>x y. cur x < cur y) all" and "i < length (filter (past cur after) all)"
  shows "filter (past cur (Some (cur (filter (past cur after) all ! i)))) all = drop (Suc i) (filter (past cur after) all)"
proof -
  let ?L = "filter (past cur after) all"
  have s: "sorted_wrt (\<lambda>x y. cur x < cur y) ?L" by (rule sorted_wrt_filter [OF assms(1)])
  have step: "past cur (Some (cur (?L ! i))) m \<Longrightarrow> past cur after m" for m
    using nth_mem [OF assms(2)] by (auto simp: past_def split: option.splits)
  have "filter (past cur (Some (cur (?L ! i)))) all = filter (past cur (Some (cur (?L ! i)))) ?L"
    using step by (auto simp: filter_filter intro: filter_cong)
  also have "\<dots> = filter (past cur (Some (cur (?L ! i)))) (take (Suc i) ?L @ drop (Suc i) ?L)" by simp
  also have "filter (past cur (Some (cur (?L ! i)))) (take (Suc i) ?L) = []"
    using s assms(2) by (auto simp: filter_empty_conv past_def in_set_conv_nth sorted_wrt_iff_nth_less not_less)
      (metis less_antisym order.order_iff_strict order_less_le)
  moreover have "filter (past cur (Some (cur (?L ! i)))) (drop (Suc i) ?L) = drop (Suc i) ?L"
    using s assms(2) by (auto simp: filter_id_conv past_def in_set_conv_nth sorted_wrt_iff_nth_less)
  ultimately show ?thesis by (simp only: filter_append append_Nil)
qed

lemma follow_complete:
  assumes sorted: "sorted_wrt (\<lambda>x y. cur x < cur y) all" and limit: "0 < limit"
    and fetch: "\<And>after. fetch after = Inr (page all limit after)"
  shows "length (filter (past cur after) all) < fuel \<Longrightarrow>
    follow_pages fetch fuel after = Some (Inr (filter (past cur after) all))"
proof (induction fuel arbitrary: after)
  case (Suc n)
  let ?L = "filter (past cur after) all"
  show ?case
  proof (cases "limit < length ?L")
    case True
    let ?c = "Some (cur (?L ! (limit - 1)))"
    have r: "filter (past cur ?c) all = drop limit ?L"
      using resume [OF sorted, of "limit - 1" after] True limit by simp
    then have "follow_pages fetch n ?c = Some (Inr (drop limit ?L))"
      using Suc.IH [of ?c] Suc.prems True limit by simp
    then show ?thesis using True limit by (simp add: fetch [of after] page_items page_next)
  next
    case False
    then show ?thesis using limit by (simp add: fetch [of after] page_items page_next)
  qed
qed simp

end

lemma page_loop_spec:
  "length page \<le> limit \<Longrightarrow> page_loop skip limit page ms =
    (page @ take (limit - length page) (filter (\<lambda>m. \<not> skip m) ms),
     limit < length page + length (filter (\<lambda>m. \<not> skip m) ms))"
proof (induction skip limit page ms rule: page_loop.induct)
  case (2 skip limit page m ms)
  then show ?case
    by (cases "length page = limit") (auto simp: take_Cons')
qed simp

lemma page_loop_filter:
  "page_loop (\<lambda>m. \<not> P m \<or> skip m) limit page ms = page_loop skip limit page (filter P ms)"
  by (induction ms arbitrary: page) auto

lemma cursor_page_laws:
  shows "lp_items (cursor_page cur all limit after) = take limit (filter (past cur after) all)"
    and "0 < limit \<Longrightarrow> lp_next (cursor_page cur all limit after) =
      (if limit < length (filter (past cur after) all)
       then Some (cur (filter (past cur after) all ! (limit - 1))) else None)"
  by (auto simp: cursor_page_def mk_page_def page_loop_spec last_opt_def last_conv_nth min_def)

interpretation key_pager: pager "cursor_page md_key" md_key
  by unfold_locales (simp_all only: cursor_page_laws)

interpretation search_pager: pager "cursor_page cursor" cursor
  by unfold_locales (simp_all only: cursor_page_laws)

subsection \<open>Listings\<close>

definition meta_of_row :: "json_de \<Rightarrow> bytes \<times> bytes \<Rightarrow> metadata" where
  "meta_of_row de row = projr (de (snd row))"

lemma rmap_rows:
  "rows_ok de db \<Longrightarrow> tb_inv (db_objects db) \<Longrightarrow> set rows \<subseteq> set (db_objects db) \<Longrightarrow>
   rmap (\<lambda>(k, v). json_de_err de v) rows = Inr (map (meta_of_row de) rows)"
proof (induction rows)
  case (Cons row rows)
  obtain k v where row: "row = (k, v)" by (cases row)
  then have "dm_get (db_objects db) k = Some v" using Cons.prems by (simp add: tb.iter_mem)
  then obtain m where "de v = Inr m" using Cons.prems(1) unfolding rows_ok_def by blast
  then show ?case using Cons row by (simp add: json_de_err_def meta_of_row_def)
qed simp

lemma row_meta:
  assumes "rows_ok de db" and "tb_inv (db_objects db)" and "row \<in> set (db_objects db)"
  shows "meta_ok (meta_of_row de row)"
    and "fst row = encode_object_key (md_bucket (meta_of_row de row)) (md_key (meta_of_row de row))"
    and "obj_of de db (md_bucket (meta_of_row de row)) (md_key (meta_of_row de row)) = Some (meta_of_row de row)"
proof -
  obtain k v where row: "row = (k, v)" by (cases row)
  have g: "dm_get (db_objects db) k = Some v" using assms(2,3) row by (simp add: tb.iter_mem)
  then obtain m where m: "de v = Inr m" "meta_ok m" "k = encode_object_key (md_bucket m) (md_key m)"
    using assms(1) unfolding rows_ok_def by blast
  then show "meta_ok (meta_of_row de row)"
    and "fst row = encode_object_key (md_bucket (meta_of_row de row)) (md_key (meta_of_row de row))"
    and "obj_of de db (md_bucket (meta_of_row de row)) (md_key (meta_of_row de row)) = Some (meta_of_row de row)"
    using g row by (simp_all add: meta_of_row_def obj_of_def)
qed

text \<open>The stored metadata as a set, and the rows of one bucket.\<close>

lemma metas_iff:
  assumes "rows_ok de db" and "tb_inv (db_objects db)"
  shows "m \<in> meta_of_row de ` set (db_objects db) \<longleftrightarrow> (\<exists>b k. str_ok b \<and> str_ok k \<and> obj_of de db b k = Some m)"
proof
  assume "m \<in> meta_of_row de ` set (db_objects db)"
  then show "\<exists>b k. str_ok b \<and> str_ok k \<and> obj_of de db b k = Some m"
    using row_meta [OF assms] by (metis imageE meta_ok_def)
next
  assume "\<exists>b k. str_ok b \<and> str_ok k \<and> obj_of de db b k = Some m"
  then obtain b k v where "dm_get (db_objects db) (encode_object_key b k) = Some v" "de v = Inr m"
    using obj_of_row(1) [OF assms(1)] by blast
  then show "m \<in> meta_of_row de ` set (db_objects db)"
    by (intro image_eqI [of _ _ "(encode_object_key b k, v)"]) (simp_all add: meta_of_row_def map_of_SomeD)
qed

lemma distinct_addresses:
  assumes "rows_ok de db" and "tb_inv (db_objects db)"
  shows "distinct (map (\<lambda>row. (md_bucket (meta_of_row de row), md_key (meta_of_row de row))) (db_objects db))"
proof -
  have d: "distinct (map fst (db_objects db))" by (rule tb_inv_distinct [OF assms(2)])
  have "inj_on (\<lambda>row. (md_bucket (meta_of_row de row), md_key (meta_of_row de row))) (set (db_objects db))"
  proof (rule inj_onI)
    fix x y
    assume "x \<in> set (db_objects db)" and "y \<in> set (db_objects db)"
      and "(md_bucket (meta_of_row de x), md_key (meta_of_row de x)) = (md_bucket (meta_of_row de y), md_key (meta_of_row de y))"
    moreover from this have "fst x = fst y" using row_meta(2) [OF assms] by (metis prod.inject)
    ultimately show "x = y" using d by (metis distinct_map inj_onD)
  qed
  then show ?thesis using d by (simp add: distinct_map)
qed

definition bucket_rows :: "string \<Rightarrow> table \<Rightarrow> table" where
  "bucket_rows b t = filter (\<lambda>(k, v). prefix (encode_bucket_prefix b) k) t"

definition listing :: "json_de \<Rightarrow> index_db \<Rightarrow> string \<Rightarrow> string option \<Rightarrow> metadata list" where
  "listing de db b pre = filter (\<lambda>m. case pre of Some p \<Rightarrow> prefix p (md_key m) | None \<Rightarrow> True)
     (sort_key md_key (map (meta_of_row de) (bucket_rows b (db_objects db))))"

lemma listing_spec:
  assumes "index_inv de db" and b: "str_ok b"
  shows "sorted_wrt (\<lambda>x y. md_key x < md_key y) (listing de db b pre)"
    and "m \<in> set (listing de db b pre) \<longleftrightarrow> (\<exists>k. str_ok k \<and> obj_of de db b k = Some m)
      \<and> (case pre of Some p \<Rightarrow> prefix p (md_key m) | None \<Rightarrow> True)"
proof -
  note i = index_invD [OF assms(1)]
  have in_bucket: "row \<in> set (bucket_rows b (db_objects db)) \<longleftrightarrow>
      row \<in> set (db_objects db) \<and> md_bucket (meta_of_row de row) = b" for row
  proof (cases "row \<in> set (db_objects db)")
    case True
    have "prefix (encode_bucket_prefix b) (fst row) \<longleftrightarrow> b = md_bucket (meta_of_row de row)"
      using bucket_prefix_of_key [OF b] row_meta(1,2) [OF i(4,1) True] by (metis meta_ok_def)
    then show ?thesis by (auto simp: bucket_rows_def case_prod_unfold)
  qed (simp add: bucket_rows_def)
  let ?rows = "map (meta_of_row de) (bucket_rows b (db_objects db))"
  have "distinct (map md_key ?rows)"
  proof -
    have "distinct (map (\<lambda>row. (md_bucket (meta_of_row de row), md_key (meta_of_row de row)))
        (bucket_rows b (db_objects db)))"
      using distinct_addresses [OF i(4,1)] unfolding bucket_rows_def by (rule distinct_map_filter)
    then show ?thesis
      using in_bucket by (auto simp: distinct_map inj_on_def)
  qed
  then have "sorted_wrt (<) (map md_key (sort_key md_key ?rows))"
    unfolding strict_sorted_iff by (simp add: distinct_map inj_on_def) blast
  then show "sorted_wrt (\<lambda>x y. md_key x < md_key y) (listing de db b pre)"
    unfolding listing_def by (intro sorted_wrt_filter) (simp add: sorted_wrt_map)
  have "m \<in> set ?rows \<longleftrightarrow> (\<exists>k. str_ok k \<and> obj_of de db b k = Some m)"
    using in_bucket metas_iff [OF i(4,1), of m] obj_of_row(2) [OF i(4)] b by (auto simp: image_iff)
  then show "m \<in> set (listing de db b pre) \<longleftrightarrow> (\<exists>k. str_ok k \<and> obj_of de db b k = Some m)
      \<and> (case pre of Some p \<Rightarrow> prefix p (md_key m) | None \<Rightarrow> True)"
    unfolding listing_def by auto
qed

lemma scan_objects_page:
  assumes "ix_db ix = Some db" and "index_inv de db"
  shows "scan_objects de None ix b pre after limit = Inr (cursor_page md_key (listing de db b pre) limit after)"
proof -
  note i = index_invD [OF assms(2)]
  have t: "takeWhile (\<lambda>(k, v). prefix (encode_bucket_prefix b) k) (tb_range (encode_bucket_prefix b) (db_objects db))
      = bucket_rows b (db_objects db)"
    unfolding bucket_rows_def by (rule takeWhile_range [OF i(1)])
  have r: "rmap (\<lambda>(k, v). json_de_err de v) (bucket_rows b (db_objects db))
      = Inr (map (meta_of_row de) (bucket_rows b (db_objects db)))"
    by (rule rmap_rows [OF i(4,1)]) (auto simp: bucket_rows_def)
  have skip: "(\<lambda>m. (case pre of Some p \<Rightarrow> \<not> prefix p (md_key m) | None \<Rightarrow> False)
              \<or> (case after of Some a \<Rightarrow> md_key m \<le> a | None \<Rightarrow> False))
    = (\<lambda>m. \<not> (case pre of Some p \<Rightarrow> prefix p (md_key m) | None \<Rightarrow> True) \<or> \<not> past md_key after m)"
    by (auto simp: past_def fun_eq_iff not_less split: option.splits)
  show ?thesis
    unfolding scan_objects_def get_db_def assms(1) db_call_def ok_or.simps option.case rbind.simps Let_def t r skip
      page_loop_filter
    by (simp add: cursor_page_def mk_page_def listing_def case_prod_unfold)
qed

subsection \<open>Searches\<close>

lemma nul_less: "c \<noteq> CHR 0x00 \<Longrightarrow> CHR 0x00 < (c :: char)"
proof -
  assume "c \<noteq> CHR 0x00"
  moreover have "char_of (0 :: nat) = CHR 0x00" by code_simp
  ultimately have "(of_char c :: nat) \<noteq> 0" by (metis char_of_char)
  then show ?thesis by (simp add: less_char_def)
qed

lemma cursor_less:
  "CHR 0x00 \<notin> set b \<Longrightarrow> CHR 0x00 \<notin> set b' \<Longrightarrow>
   b @ [CHR 0x00] @ k < b' @ [CHR 0x00] @ k' \<longleftrightarrow> (b, k) < (b', k')"
proof (induction b arbitrary: b')
  case Nil
  show ?case
  proof (cases b')
    case (Cons d b'')
    then have "CHR 0x00 < d" using Nil nul_less [of d] by auto
    then show ?thesis using Cons by (simp add: less_prod_simp)
  qed (simp add: less_prod_simp)
next
  case (Cons c b)
  have c: "CHR 0x00 < c" using Cons.prems nul_less [of c] by auto
  show ?case
  proof (cases b')
    case Nil
    then show ?thesis using c by (auto simp: less_prod_simp)
  next
    case (Cons d b'')
    then show ?thesis using Cons.IH [of b''] Cons.prems by (auto simp: less_prod_simp)
  qed
qed

definition search_listing :: "(string \<Rightarrow> string \<Rightarrow> bool) \<Rightarrow> json_de \<Rightarrow> index_db \<Rightarrow> label_query \<Rightarrow> string option
    \<Rightarrow> string option \<Rightarrow> metadata list" where
  "search_listing is_match de db q bucket pre =
     sort_key (\<lambda>m. (md_bucket m, md_key m)) (filter (search_row is_match q bucket pre) (map (meta_of_row de) (db_objects db)))"

lemma search_listing_spec:
  assumes "index_inv de db" and nul: "\<forall>b k m. obj_of de db b k = Some m \<longrightarrow> CHR 0x00 \<notin> set (md_bucket m)"
  shows "sorted_wrt (\<lambda>x y. cursor x < cursor y) (search_listing is_match de db q bucket pre)"
    and "m \<in> set (search_listing is_match de db q bucket pre) \<longleftrightarrow>
      (\<exists>b k. str_ok b \<and> str_ok k \<and> obj_of de db b k = Some m) \<and> search_row is_match q bucket pre m"
proof -
  note i = index_invD [OF assms(1)]
  let ?addr = "\<lambda>m. (md_bucket m, md_key m)"
  let ?rows = "filter (search_row is_match q bucket pre) (map (meta_of_row de) (db_objects db))"
  let ?L = "search_listing is_match de db q bucket pre"
  show mem: "m \<in> set ?L \<longleftrightarrow>
      (\<exists>b k. str_ok b \<and> str_ok k \<and> obj_of de db b k = Some m) \<and> search_row is_match q bucket pre m" for m
    using metas_iff [OF i(4,1), of m] by (auto simp: search_listing_def)
  have "distinct (map ?addr (map (meta_of_row de) (db_objects db)))"
    using distinct_addresses [OF i(4,1)] by (simp add: comp_def)
  then have "distinct (map ?addr ?rows)" by (rule distinct_map_filter)
  then have "distinct (map ?addr ?L)"
    unfolding search_listing_def by (simp add: distinct_map inj_on_def)
  moreover have "sorted (map ?addr ?L)" unfolding search_listing_def by (rule sorted_sort_key)
  ultimately have "sorted_wrt (<) (map ?addr ?L)" by (simp only: strict_sorted_iff)
  then have s: "sorted_wrt (\<lambda>x y. ?addr x < ?addr y) ?L" by (simp add: sorted_wrt_map)
  show "sorted_wrt (\<lambda>x y. cursor x < cursor y) ?L"
  proof (rule sorted_wrt_mono_rel [OF _ s])
    fix x y
    assume "x \<in> set ?L" "y \<in> set ?L" "?addr x < ?addr y"
    then show "cursor x < cursor y"
      unfolding cursor_def mem using nul cursor_less by metis
  qed
qed

lemma search_labels_page:
  assumes "ix_db ix = Some db" and "index_inv de db"
  shows "search_labels is_match de None ix q bucket pre after limit
    = Inr (cursor_page cursor (search_listing is_match de db q bucket pre) limit after)"
proof -
  note i = index_invD [OF assms(2)]
  have skip: "(\<lambda>m. case after of Some a \<Rightarrow> cursor m \<le> a | None \<Rightarrow> False) = (\<lambda>m. \<not> past cursor after m)"
    by (auto simp: past_def fun_eq_iff not_less split: option.splits)
  show ?thesis
    unfolding search_labels_def get_db_def assms(1) db_call_def ok_or.simps option.case rbind.simps Let_def
      rmap_rows [OF i(4,1) subset_refl] skip
    by (simp add: cursor_page_def mk_page_def search_listing_def case_prod_unfold)
qed

lemma set_map_filter: "y \<in> set (List.map_filter f xs) \<longleftrightarrow> (\<exists>x \<in> set xs. f x = Some y)"
  by (induction xs) (auto simp: List.map_filter_simps split: option.splits)

lemma distinct_map_filter_key:
  "distinct (map fst xs) \<Longrightarrow> (\<And>r r' y. r \<in> set xs \<Longrightarrow> r' \<in> set xs \<Longrightarrow> f r = Some y \<Longrightarrow> f r' = Some y \<Longrightarrow> fst r = fst r')
   \<Longrightarrow> distinct (List.map_filter f xs)"
proof (induction xs)
  case (Cons r xs)
  have "distinct (List.map_filter f xs)" using Cons by auto
  moreover have "y \<notin> set (List.map_filter f xs)" if y: "f r = Some y" for y
  proof
    assume "y \<in> set (List.map_filter f xs)"
    then obtain r' where "r' \<in> set xs" "f r' = Some y" unfolding set_map_filter by blast
    then show False using Cons.prems(1) Cons.prems(2) [of r r' y] y by force
  qed
  ultimately show ?case by (auto simp: List.map_filter_simps split: option.splits)
qed (simp add: List.map_filter_simps)

lemma lookup_by_label_set:
  assumes "ix_db ix = Some db" and inv: "index_inv de db" and ok: "str_ok n" "str_ok x"
  obtains addrs where "lookup_by_label None ix n x = Inr addrs" and "distinct addrs"
    and "\<And>b k. (b, k) \<in> set addrs \<longleftrightarrow> str_ok b \<and> str_ok k \<and> (\<exists>m. obj_of de db b k = Some m \<and> (n, x) \<in> set (md_labels m))"
proof -
  note i = index_invD [OF inv]
  define f where "f = (\<lambda>row :: bytes \<times> bytes. if prefix (encode_label_prefix n x) (fst row)
    then decode_label_suffix (drop (length (encode_label_prefix n x)) (fst row)) else None)"
  let ?addrs = "List.map_filter f (db_labels db)"
  have row: "\<exists>b k m n' x'. str_ok b \<and> str_ok k \<and> obj_of de db b k = Some m \<and> (n', x') \<in> set (md_labels m)
      \<and> fst row = encode_label_key n' x' b k" if m: "row \<in> set (db_labels db)" for row
    using m i(5) [of "fst row"] unfolding has_label_def
    by (metis prod.collapse tb.iter_mem [OF i(2)] option.distinct(1))
  have f: "f row = Some (b, k) \<longleftrightarrow> fst row = encode_label_key n x b k \<and> str_ok b \<and> str_ok k"
    if mem: "row \<in> set (db_labels db)" for row b k
  proof -
    obtain b' k' m n' x' where r: "str_ok b'" "str_ok k'" "obj_of de db b' k' = Some m" "(n', x') \<in> set (md_labels m)"
      "fst row = encode_label_key n' x' b' k'" using row [OF mem] by blast
    then have o: "str_ok n'" "str_ok x'" using obj_of_row(2) [OF i(4) r(1,2,3)] by (auto simp: meta_ok_def)
    have "prefix (encode_label_prefix n x) (fst row) \<longleftrightarrow> n' = n \<and> x' = x"
      using o ok r(5) by (auto simp: prefix_def encode_splits) (metis encode_prefix_inj)+
    then show ?thesis
      using r(1,2,5) o ok encode_label_key_inj [OF o r(1,2) ok]
      by (auto simp: f_def encode_splits(3) decode_label_suffix_enc)
  qed
  have l: "lookup_by_label None ix n x = Inr ?addrs"
    using assms(1) by (simp add: lookup_by_label_def get_db_def db_call_def Let_def f_def case_prod_unfold)
  have m: "(b, k) \<in> set ?addrs \<longleftrightarrow> str_ok b \<and> str_ok k \<and> (\<exists>m. obj_of de db b k = Some m \<and> (n, x) \<in> set (md_labels m))" for b k
  proof
    assume "(b, k) \<in> set ?addrs"
    then obtain r where r: "r \<in> set (db_labels db)" "f r = Some (b, k)" unfolding set_map_filter by blast
    then have e: "fst r = encode_label_key n x b k" "str_ok b" "str_ok k" using f by auto
    then obtain b' k' m n' x' where o: "str_ok b'" "str_ok k'" "obj_of de db b' k' = Some m" "(n', x') \<in> set (md_labels m)"
      "encode_label_key n x b k = encode_label_key n' x' b' k'" using row [OF r(1)] by metis
    then have "str_ok n'" "str_ok x'" using obj_of_row(2) [OF i(4) o(1-3)] by (auto simp: meta_ok_def)
    then have "n = n' \<and> x = x' \<and> b = b' \<and> k = k'" using encode_label_key_inj [OF ok e(2,3) _ _ o(1,2)] o(5) by blast
    then show "str_ok b \<and> str_ok k \<and> (\<exists>m. obj_of de db b k = Some m \<and> (n, x) \<in> set (md_labels m))" using o by blast
  next
    assume a: "str_ok b \<and> str_ok k \<and> (\<exists>m. obj_of de db b k = Some m \<and> (n, x) \<in> set (md_labels m))"
    then have "dm_get (db_labels db) (encode_label_key n x b k) \<noteq> None" unfolding i(5) has_label_def by blast
    then obtain v where "(encode_label_key n x b k, v) \<in> set (db_labels db)" by (auto dest: map_of_SomeD)
    then show "(b, k) \<in> set ?addrs" unfolding set_map_filter using f a by (metis fst_conv)
  qed
  have "distinct ?addrs"
    by (rule distinct_map_filter_key [OF tb_inv_distinct [OF i(2)]]) (use f in \<open>metis surj_pair\<close>)
  then show thesis using that l m by blast
qed

subsection \<open>Buckets\<close>

text \<open>The bucket a row belongs to, read from its key.\<close>

definition row_bucket :: "bytes \<Rightarrow> string" where
  "row_bucket k = fst (the (read_len_prefixed k))"

definition rows_readable :: "table \<Rightarrow> bool" where
  "rows_readable t \<longleftrightarrow> (\<forall>(k, v) \<in> set t. read_len_prefixed k \<noteq> None)"

lemma row_bucket_prefix:
  "read_len_prefixed k \<noteq> None \<Longrightarrow> str_ok b \<Longrightarrow> prefix (encode_bucket_prefix b) k \<longleftrightarrow> row_bucket k = b"
  using read_len_prefixed_Some(1) [of k] read_encoded [of b]
  by (auto simp: row_bucket_def prefix_def)

lemma row_bucket_ok: "read_len_prefixed k \<noteq> None \<Longrightarrow> str_ok (row_bucket k)"
  using read_len_prefixed_Some(2) [of k] by (auto simp: row_bucket_def)

lemma bucket_loop_spec:
  assumes "tb_inv t" and "rows_readable t"
  shows "distinct acc \<Longrightarrow> set acc \<subseteq> row_bucket ` fst ` set t \<Longrightarrow>
    (\<And>k v. (k, v) \<in> set t \<Longrightarrow> start \<le> k \<longleftrightarrow> row_bucket k \<notin> set acc) \<Longrightarrow>
    \<exists>bs. bucket_loop t start acc = Inr bs \<and> distinct bs \<and> set bs = row_bucket ` fst ` set t"
  using assms
proof (induction t start acc rule: bucket_loop.induct)
  case (1 t start acc)
  show ?case
  proof (cases "tb_range start t")
    case Nil
    then have "\<not> start \<le> k" if "(k, v) \<in> set t" for k v
      using that by (auto simp: tb_range_def filter_empty_conv)
    then have "set acc = row_bucket ` fst ` set t" using "1.prems"(2,3) by force
    then show ?thesis using Nil "1.prems"(1) by (simp add: bucket_loop.simps)
  next
    case (Cons row r)
    obtain k v where row: "row = (k, v)" by (cases row)
    note c = tb_range_Cons [OF "1.prems"(4) Cons [unfolded row]]
    have rd: "read_len_prefixed k' \<noteq> None" if "(k', v') \<in> set t" for k' v'
      using "1.prems"(5) that by (auto simp: rows_readable_def)
    obtain b rest where b: "read_len_prefixed k = Some (b, rest)" using rd [OF c(1)] by auto
    have rb: "row_bucket k = b" by (simp add: row_bucket_def b)
    have bok: "str_ok b" using row_bucket_ok rd [OF c(1)] rb by blast
    let ?p = "encode_bucket_prefix b"
    have pk: "?p \<le> k" using row_bucket_prefix [OF rd [OF c(1)] bok] rb by (simp add: prefix_le)
    have new: "b \<notin> set acc" using "1.prems"(3) [OF c(1)] c(2) rb by simp
    have own: "b \<in> row_bucket ` fst ` set t" using c(1) rb by force
    have above: "case next_lex_after ?p of Some n \<Rightarrow> k' < n \<longleftrightarrow> row_bucket k' = b | None \<Rightarrow> row_bucket k' = b"
      if "(k', v') \<in> set t" "start \<le> k'" for k' v'
      using next_lex_after_spec [OF order_trans [OF pk c(3) [OF that]]] row_bucket_prefix [OF rd [OF that(1)] bok]
      by (simp split: option.splits)
    have acc': "distinct (acc @ [b])" "set (acc @ [b]) \<subseteq> row_bucket ` fst ` set t"
      using "1.prems"(1,2) new own by auto
    show ?thesis
    proof (cases "next_lex_after ?p")
      case None
      have "row_bucket k' \<in> set (acc @ [b])" if "(k', v') \<in> set t" for k' v'
        using above [OF that] "1.prems"(3) [OF that] None by auto
      then have "set (acc @ [b]) = row_bucket ` fst ` set t" using acc'(2) by force
      then show ?thesis using acc'(1) Cons row b None by (simp add: bucket_loop.simps)
    next
      case (Some nxt)
      have "k < nxt" using above [OF c(1,2)] rb Some by simp
      then have "nxt \<le> k' \<longleftrightarrow> row_bucket k' \<notin> set (acc @ [b])" if "(k', v') \<in> set t" for k' v'
        using above [OF that] "1.prems"(3) [OF that] Some c(2) by (cases "start \<le> k'") auto
      then show ?thesis
        using "1.IH" [OF Cons row [symmetric] b refl Some acc'] "1.prems"(4,5)
        by (subst bucket_loop.simps) (simp add: Cons row b Some)
    qed
  qed
qed

lemma row_bucket_meta:
  assumes "index_inv de db"
  shows "rows_readable (db_objects db)"
    and "row_bucket ` fst ` set (db_objects db) = {b. \<exists>k m. str_ok b \<and> str_ok k \<and> obj_of de db b k = Some m}"
proof -
  note i = index_invD [OF assms]
  have row: "read_len_prefixed (fst row) \<noteq> None" "row_bucket (fst row) = md_bucket (meta_of_row de row)"
    if "row \<in> set (db_objects db)" for row
    using row_meta [OF i(4,1) that] by (simp_all add: row_bucket_def encode_splits read_encoded meta_ok_def)
  then show "rows_readable (db_objects db)" by (auto simp: rows_readable_def)
  have "row_bucket ` fst ` set (db_objects db) = md_bucket ` meta_of_row de ` set (db_objects db)"
    unfolding image_image using row(2) by (intro image_cong) auto
  also have "\<dots> = {b. \<exists>k m. str_ok b \<and> str_ok k \<and> obj_of de db b k = Some m}"
    using metas_iff [OF i(4,1)] obj_of_row(2) [OF i(4)] by (auto simp: image_iff) metis+
  finally show "row_bucket ` fst ` set (db_objects db) = {b. \<exists>k m. str_ok b \<and> str_ok k \<and> obj_of de db b k = Some m}" .
qed

lemma lookup_obj_iff:
  assumes "ix_db ix = Some db" and "index_inv de db"
  shows "str_ok b \<and> str_ok k \<and> lookup_by_key de None ix b k = Inr (Some m) \<longleftrightarrow> str_ok b \<and> str_ok k \<and> obj_of de db b k = Some m"
    and "str_ok b \<Longrightarrow> str_ok k \<and> lookup_by_key de None ix b k = Inr (Some m) \<longleftrightarrow> str_ok k \<and> obj_of de db b k = Some m"
    and "str_ok b \<and> (\<exists>k. str_ok k \<and> lookup_by_key de None ix b k = Inr (Some m))
      \<longleftrightarrow> str_ok b \<and> (\<exists>k. str_ok k \<and> obj_of de db b k = Some m)"
    and "str_ok b \<and> (\<exists>k. str_ok k \<and> (\<exists>m. lookup_by_key de None ix b k = Inr (Some m)))
      \<longleftrightarrow> str_ok b \<and> (\<exists>k. str_ok k \<and> (\<exists>m. obj_of de db b k = Some m))"
  using lookup_by_key_obj [OF assms] by auto

subsection \<open>A small database\<close>

definition sample_meta :: metadata where
  "sample_meta = \<lparr>md_created = 1, md_modified = 1, md_size = 3, md_checksum_gxhash = ''c'', md_bucket = ''b'',
     md_key = ''k'', md_disk_path = ''d'', md_url_path = ''u'', md_labels = [(''n'', ''v'')], md_cipher_size = None,
     md_cipher_checksum = None, md_kem_alg = None, md_aead_alg = None, md_envelope_version = None,
     md_version = None, md_committed_at = None, md_key_epoch = None\<rparr>"

definition sample_de :: json_de where
  "sample_de p = (if p = [1] then Inr sample_meta else Inl ''bad'')"

definition sample_db :: index_db where
  "sample_db = \<lparr>db_objects = [(encode_object_key ''b'' ''k'', [1])],
     db_labels = [(encode_label_key ''n'' ''v'' ''b'' ''k'', [])], db_buckets = []\<rparr>"

lemma str_ok_ascii: "\<forall>c \<in> set s. unat (byte_of_char c) < 128 \<Longrightarrow> length s < 2 ^ 32 \<Longrightarrow> str_ok s"
  by (auto simp: str_ok_def rust_str_def as_bytes_def intro!: utf8_valid_ascii)

lemma sample_strings: "str_ok ''b''" "str_ok ''k''" "str_ok ''n''" "str_ok ''v''"
  by (rule str_ok_ascii; simp add: byte_of_char_def)+

lemma sample_meta_ok: "meta_ok sample_meta"
  by (simp add: meta_ok_def sample_meta_def sample_strings)

lemma index_inv_empty: "index_inv de \<lparr>db_objects = [], db_labels = [], db_buckets = []\<rparr>"
  by (simp add: index_inv_def tb_inv_def rows_ok_def has_label_def obj_of_def)

lemma sample_inv: "index_inv sample_de sample_db"
  using upsert_inv(1) [OF index_inv_empty sample_meta_ok, of sample_de "[1]"]
  by (simp add: sample_de_def sample_db_def drop_prev_labels_def insert_label_rows_def sample_meta_def)

definition sample_ix :: metadata_index where
  "sample_ix = \<lparr>ix_path = ''p'', ix_db = Some sample_db, ix_slot = None\<rparr>"

lemma sample_ix_db: "ix_db sample_ix = Some sample_db"
  by (simp add: sample_ix_def)

lemma sample_obj: "obj_of sample_de sample_db ''b'' ''k'' = Some sample_meta"
  by (simp add: obj_of_def sample_db_def sample_de_def)

lemma sample_lookup: "lookup_by_key sample_de None sample_ix ''b'' ''k'' = Inr (Some sample_meta)"
  using lookup_by_key_obj [OF sample_ix_db sample_inv sample_strings(1,2)] sample_obj by simp

subsection \<open>Properties of the metadata index\<close>

text \<open>An upsert that commits makes the index answer with the new metadata at its address and as before
  at every other one, and keeps the tables consistent, labels included; one whose transaction fails
  changes nothing and reports the database error.\<close>

lemma upsert_refines:
  assumes "ix_db ix = Some db" and "index_inv de db" and "meta_ok m" and "ser m = Inr p" and "de p = Inr m"
  shows "(\<exists>ix' db'. upsert ser de None ix m sync = (ix', Inr ()) \<and> ix_db ix' = Some db' \<and> index_inv de db'
      \<and> (\<forall>b k. str_ok b \<longrightarrow> str_ok k \<longrightarrow> lookup_by_key de None ix' b k =
          (if (b, k) = (md_bucket m, md_key m) then Inr (Some m) else lookup_by_key de None ix b k)))
    \<and> upsert ser de (Some msg) ix m sync = (ix, Inl (Index msg))"
proof -
  note u = upsert_inv [OF assms(2,3,5)]
  let ?db = "db\<lparr>db_objects := tb_insert (encode_object_key (md_bucket m) (md_key m)) p (db_objects db),
    db_labels := insert_label_rows (md_bucket m) (md_key m) (md_labels m)
      (drop_prev_labels de db (md_bucket m) (md_key m))\<rparr>"
  have l: "lookup_by_key de None (ix\<lparr>ix_db := Some ?db\<rparr>) b k = Inr (obj_of de ?db b k)"
    "lookup_by_key de None ix b k = Inr (obj_of de db b k)" if "str_ok b" "str_ok k" for b k
    using lookup_by_key_obj [OF _ u(1) that] lookup_by_key_obj [OF assms(1,2) that] by auto
  have "upsert ser de None ix m sync = (ix\<lparr>ix_db := Some ?db\<rparr>, Inr ())"
    using assms(1,4) by (simp add: upsert_def get_db_def db_call_def Let_def)
  moreover have "upsert ser de (Some msg) ix m sync = (ix, Inl (Index msg))"
    using assms(1,4) by (simp add: upsert_def get_db_def db_call_def)
  ultimately show ?thesis
    using u l by (intro conjI exI [of _ "ix\<lparr>ix_db := Some ?db\<rparr>"] exI [of _ ?db]) auto
qed

text \<open>A removal that commits makes the index forget exactly that address and every label row of it, and
  keeps the tables consistent; one whose transaction fails changes nothing.\<close>

lemma remove_refines:
  assumes "ix_db ix = Some db" and "index_inv de db" and "str_ok bucket" and "str_ok key"
  shows "(\<exists>ix' db'. remove de None ix bucket key = (ix', Inr ()) \<and> ix_db ix' = Some db' \<and> index_inv de db'
      \<and> (\<forall>b k. str_ok b \<longrightarrow> str_ok k \<longrightarrow> lookup_by_key de None ix' b k =
          (if (b, k) = (bucket, key) then Inr None else lookup_by_key de None ix b k)))
    \<and> remove de (Some msg) ix bucket key = (ix, Inl (Index msg))"
proof -
  note u = remove_inv [OF assms(2-4)]
  let ?db = "db\<lparr>db_objects := tb_remove (encode_object_key bucket key) (db_objects db),
    db_labels := drop_prev_labels de db bucket key\<rparr>"
  have l: "lookup_by_key de None (ix\<lparr>ix_db := Some ?db\<rparr>) b k = Inr (obj_of de ?db b k)"
    "lookup_by_key de None ix b k = Inr (obj_of de db b k)" if "str_ok b" "str_ok k" for b k
    using lookup_by_key_obj [OF _ u(1) that] lookup_by_key_obj [OF assms(1,2) that] by auto
  have "remove de None ix bucket key = (ix\<lparr>ix_db := Some ?db\<rparr>, Inr ())"
    "remove de (Some msg) ix bucket key = (ix, Inl (Index msg))"
    using assms(1) by (simp_all add: remove_def get_db_def db_call_def Let_def)
  then show ?thesis
    using u l by (intro conjI exI [of _ "ix\<lparr>ix_db := Some ?db\<rparr>"] exI [of _ ?db]) auto
qed

text \<open>A label lookup returns exactly the addresses of the stored objects that carry the label, each
  once.\<close>

lemma lookup_by_label_exact:
  assumes "ix_db ix = Some db" and "index_inv de db" and "str_ok name" and "str_ok value"
  shows "\<exists>addrs. lookup_by_label None ix name value = Inr addrs \<and> distinct addrs
    \<and> set addrs = {(b, k). str_ok b \<and> str_ok k
        \<and> (\<exists>m. lookup_by_key de None ix b k = Inr (Some m) \<and> (name, value) \<in> set (md_labels m))}"
  by (rule lookup_by_label_set [OF assms])
    (use lookup_by_key_obj [OF assms(1,2)] in fastforce)

text \<open>Listing a bucket page by page, passing back the returned cursor, visits every object of the bucket
  under the prefix exactly once, in ascending key order, for every page size above zero; one page
  more than there are objects is always enough.\<close>

lemma scan_pages_complete:
  assumes "ix_db ix = Some db" and "index_inv de db" and "str_ok bucket" and "0 < limit"
  shows "\<exists>L. sorted_wrt (\<lambda>x y. md_key x < md_key y) L
    \<and> set L = {m. (\<exists>k. str_ok k \<and> lookup_by_key de None ix bucket k = Inr (Some m))
        \<and> (case pre of Some p \<Rightarrow> prefix p (md_key m) | None \<Rightarrow> True)}
    \<and> (\<forall>fuel > length L. follow_pages (\<lambda>after. scan_objects de None ix bucket pre after limit) fuel None = Some (Inr L))"
proof -
  note l = listing_spec [OF assms(2,3), where pre = pre]
  have "follow_pages (\<lambda>after. scan_objects de None ix bucket pre after limit) fuel None = Some (Inr (listing de db bucket pre))"
    if "length (listing de db bucket pre) < fuel" for fuel
    using key_pager.follow_complete [OF l(1) assms(4), where after = None and fuel = fuel
        and fetch = "\<lambda>after. scan_objects de None ix bucket pre after limit"] that
    by (simp add: scan_objects_page [OF assms(1,2)] past_def)
  then show ?thesis
    using l by (intro exI [of _ "listing de db bucket pre"]) (auto simp: lookup_obj_iff [OF assms(1,2)] assms(3))
qed

text \<open>A label search page by page visits exactly the objects that satisfy the query, the bucket and the
  prefix filter, once each and in the order of the cursor, as long as no bucket name contains the
  NUL byte that the cursor uses as its separator.\<close>

lemma search_pages_complete:
  assumes "ix_db ix = Some db" and "index_inv de db" and "0 < limit"
    and "\<forall>b k m. lookup_by_key de None ix b k = Inr (Some m) \<longrightarrow> CHR 0x00 \<notin> set (md_bucket m)"
  shows "\<exists>L. sorted_wrt (\<lambda>x y. cursor x < cursor y) L
    \<and> set L = {m. (\<exists>b k. str_ok b \<and> str_ok k \<and> lookup_by_key de None ix b k = Inr (Some m))
        \<and> (case bucket of Some b \<Rightarrow> md_bucket m = b | None \<Rightarrow> True)
        \<and> (case pre of Some p \<Rightarrow> prefix p (md_key m) | None \<Rightarrow> True) \<and> query_sem is_match q (set (md_labels m))}
    \<and> (\<forall>fuel > length L. follow_pages (\<lambda>after. search_labels is_match de None ix q bucket pre after limit) fuel None
        = Some (Inr L))"
proof -
  have nul: "\<forall>b k m. obj_of de db b k = Some m \<longrightarrow> CHR 0x00 \<notin> set (md_bucket m)"
    using assms(4,1) by (fastforce simp: lookup_by_key_def get_db_def db_call_def obj_of_def json_de_err_def split: option.splits sum.splits)
  note l = search_listing_spec [OF assms(2) nul, where is_match = is_match and q = q and bucket = bucket and pre = pre]
  let ?L = "search_listing is_match de db q bucket pre"
  have "follow_pages (\<lambda>after. search_labels is_match de None ix q bucket pre after limit) fuel None = Some (Inr ?L)"
    if "length ?L < fuel" for fuel
    using search_pager.follow_complete [OF l(1) assms(3), where after = None and fuel = fuel
        and fetch = "\<lambda>after. search_labels is_match de None ix q bucket pre after limit"] that
    by (simp add: search_labels_page [OF assms(1,2)] past_def)
  moreover have "matches is_match q labels = query_sem is_match q (set labels)" for labels
    by (rule matches_sem)
  ultimately show ?thesis
    using l by (intro exI [of _ ?L]) (auto simp: lookup_obj_iff [OF assms(1,2)] search_row_def, blast)
qed

text \<open>C31. The bucket scan, which jumps from bucket to bucket instead of reading every row, ends and returns
  exactly the buckets that hold an object, each once and in ascending order.\<close>

theorem list_buckets_exact:
  assumes "ix_db ix = Some db" and "index_inv de db"
  shows "\<exists>bs. list_buckets None ix = Inr bs \<and> sorted_wrt (<) bs
    \<and> set bs = {b. str_ok b \<and> (\<exists>k m. str_ok k \<and> lookup_by_key de None ix b k = Inr (Some m))}"
proof -
  note r = row_bucket_meta [OF assms(2)]
  have tb: "tb_inv (db_objects db)" by (rule index_invD(1) [OF assms(2)])
  obtain bs where bs: "bucket_loop (db_objects db) [] [] = Inr bs" "distinct bs"
    "set bs = {b. \<exists>k m. str_ok b \<and> str_ok k \<and> obj_of de db b k = Some m}"
    using bucket_loop_spec [OF tb r(1), of "[]" "[]"] r(2) by auto
  have "list_buckets None ix = Inr (sort bs)"
    using assms(1) bs(1) by (simp add: list_buckets_def get_db_def db_call_def)
  moreover have "sorted_wrt (<) (sort bs)" using bs(2) by (simp add: strict_sorted_iff)
  ultimately show ?thesis
    using bs(3) by (intro exI [of _ "sort bs"]) (auto simp: lookup_obj_iff [OF assms])
qed

theorem list_buckets_exact_witness:
  "\<exists>bs. list_buckets None sample_ix = Inr bs \<and> ''b'' \<in> set bs"
  using list_buckets_exact [OF sample_ix_db sample_inv] sample_lookup sample_strings by auto

end
