(* ===== verification/Filesystem_Laws.thy ===== *)
theory Filesystem_Laws
  imports Filesystem_Storage Metadata_Index_Laws
begin

text \<open>
  What the filesystem backend promises. \<open>frames Q m\<close> says that a computation, under whatever failures,
  leaves the clock, the base path, the keys, the locks and every file that \<open>Q\<close> holds of alone; the
  frame rules give it for whole operations. The lemmas on top show that a put is atomic, that what was
  put is read back whole or by range, and that labels and deletions act on the one object they name.
\<close>

subsection \<open>Frames\<close>

named_theorems frame_rules "frame rules of the storage computations"

definition fs_view :: "(path \<Rightarrow> bool) \<Rightarrow> fs_storage \<Rightarrow> time \<times> path \<times> node_key_slot \<times> lock_registry \<times> (path \<Rightarrow> bytes option)" where
  "fs_view Q s = (ft_now s, fs_base_path s, fs_mek s, fs_locks s, \<lambda>p. if Q p then ft_file s p else None)"

definition frames :: "(path \<Rightarrow> bool) \<Rightarrow> (fs_storage, 'e, 'a) comp \<Rightarrow> bool" where
  "frames Q m \<longleftrightarrow> (\<forall>s. fs_view Q (fst (m s)) = fs_view Q s)"

lemma framesD:
  assumes "frames Q m" and "m s = (s', r)"
  shows "ft_now s' = ft_now s" "fs_base_path s' = fs_base_path s" "fs_mek s' = fs_mek s" "fs_locks s' = fs_locks s"
    "Q p \<Longrightarrow> ft_file s' p = ft_file s p"
proof -
  have v: "fs_view Q s' = fs_view Q s" using assms by (metis frames_def fst_conv)
  then show "ft_now s' = ft_now s" "fs_base_path s' = fs_base_path s" "fs_mek s' = fs_mek s" "fs_locks s' = fs_locks s"
    by (simp_all add: fs_view_def)
  show "Q p \<Longrightarrow> ft_file s' p = ft_file s p"
    using v by (auto simp: fs_view_def fun_eq_iff split: if_splits)
qed

lemma frames_weaken: "frames Q m \<Longrightarrow> (\<And>p. Q' p \<Longrightarrow> Q p) \<Longrightarrow> frames Q' m"
  by (auto simp: frames_def fs_view_def fun_eq_iff) (metis (full_types))

lemma frames_basic [frame_rules]:
  "frames Q (sret x)" "frames Q (sfail e)" "frames Q (slift r)" "frames Q (sget f)"
  by (simp_all add: frames_def comp_simps)

lemma frames_wrap [frame_rules]:
  "frames Q m \<Longrightarrow> frames Q (smap_err h m)" "frames Q m \<Longrightarrow> frames Q (stry m)"
  by (simp_all add: frames_def smap_err_def stry_def split_beta)

lemma frames_sbind [frame_rules]: "frames Q m \<Longrightarrow> (\<And>x. frames Q (f x)) \<Longrightarrow> frames Q (sbind m f)"
  by (auto simp: frames_def sbind_def split: prod.splits sum.splits) (metis fst_conv)+

lemma frames_if [frame_rules]: "(b \<Longrightarrow> frames Q m) \<Longrightarrow> (\<not> b \<Longrightarrow> frames Q n) \<Longrightarrow> frames Q (if b then m else n)"
  by simp

lemma frames_case_sum [frame_rules]:
  "(\<And>e. frames Q (f e)) \<Longrightarrow> (\<And>x. frames Q (g x)) \<Longrightarrow> frames Q (case r of Inl e \<Rightarrow> f e | Inr x \<Rightarrow> g x)"
  by (cases r) simp_all

lemma frames_case_io_error [frame_rules]:
  "(\<And>x. frames Q (a x)) \<Longrightarrow> frames Q b \<Longrightarrow> frames Q c \<Longrightarrow> (\<And>x. frames Q (d x)) \<Longrightarrow>
   frames Q (case e of InvalidData x \<Rightarrow> a x | UnexpectedEof \<Rightarrow> b | NoSuchFile \<Rightarrow> c | Os x \<Rightarrow> d x)"
  by (cases e) simp_all

lemma frames_case_prod [frame_rules]: "(\<And>x y. frames Q (f x y)) \<Longrightarrow> frames Q (case r of (x, y) \<Rightarrow> f x y)"
  by (cases r) simp

lemma view_faults [simp]: "fs_view Q (s\<lparr>ft_faults := fs\<rparr>) = fs_view Q s"
  by (simp add: fs_view_def fs_mek_def ft_file_def fun_eq_iff)

lemma frames_step_call:
  "(\<And>k s. fs_view Q (part k s) = fs_view Q s) \<Longrightarrow> frames Q m \<Longrightarrow> frames Q (step_call part m)"
  by (auto simp: frames_def step_call_def split: list.splits option.splits)

lemma frames_io_call: "frames Q m \<Longrightarrow> frames Q (io_call m)"
  unfolding io_call_def by (rule frames_step_call) simp_all

lemma frames_look: "frames Q (\<lambda>s. (s, f s))"
  by (simp add: frames_def)

lemma frames_check [frame_rules]: "frames Q (\<lambda>s. (s, check_not_locked (fs_locks s) b k))"
  by (rule frames_look)

lemma frames_reads [frame_rules]:
  "frames Q (io_exists p)" "frames Q (io_stat p)" "frames Q (io_mtime p)" "frames Q (io_open p)" "frames Q (io_open_dir p)"
  "frames Q (io_read_exact f pos n)" "frames Q (io_fstat_len f)" "frames Q io_seek" "frames Q io_sync" "frames Q (io_read_dir p)"
  unfolding io_exists_def io_stat_def io_mtime_def io_open_def io_open_dir_def io_read_exact_def io_fstat_len_def
    io_seek_def io_sync_def io_read_dir_def
  by (rule frames_io_call, (rule frames_look frames_basic))+

lemma ft_file_put [simp]: "ft_file (put_file p bs s) = (ft_file s)(p \<mapsto> bs)"
  by (auto simp: ft_file_def put_file_def fun_eq_iff)

lemma ft_file_del [simp]: "ft_file (del_file p s) = (ft_file s)(p := None)"
  by (auto simp: ft_file_def del_file_def fun_eq_iff)

lemma fs_fields_put [simp]:
  "ft_now (put_file p bs s) = ft_now s" "fs_base_path (put_file p bs s) = fs_base_path s" "fs_mek (put_file p bs s) = fs_mek s"
  "fs_locks (put_file p bs s) = fs_locks s" "ft_dirs (put_file p bs t) = ft_dirs t" "ft_faults (put_file p bs t) = ft_faults t"
  "fs_index (put_file p bs s) = fs_index s"
  by (simp_all add: put_file_def fs_mek_def)

lemma view_put: "\<not> Q p \<Longrightarrow> fs_view Q (put_file p bs s) = fs_view Q s"
  by (auto simp: fs_view_def fun_eq_iff)

lemma view_del: "\<not> Q p \<Longrightarrow> fs_view Q (del_file p s) = fs_view Q s"
  by (auto simp: fs_view_def fs_mek_def del_file_def ft_file_def fun_eq_iff)

lemma view_dirs [simp]: "fs_view Q (add_dirs ds s) = fs_view Q s"
  by (simp add: fs_view_def fs_mek_def add_dirs_def ft_file_def fun_eq_iff)

lemma view_write: "\<not> Q p \<Longrightarrow> fs_view Q (write_through p pos bs s) = fs_view Q s"
  by (simp add: write_through_def view_put split: option.splits)

lemma frames_create_dir [frame_rules]: "frames Q (io_create_dir_all p)"
  unfolding io_create_dir_all_def by (rule frames_step_call) (simp_all add: frames_def)

lemma frames_open_trunc [frame_rules]: "\<not> Q p \<Longrightarrow> frames Q (io_open_trunc p)"
  unfolding io_open_trunc_def by (rule frames_io_call) (simp add: frames_def view_put)

lemma frames_write_all [frame_rules]: "\<not> Q p \<Longrightarrow> frames Q (io_write_all p pos bs)"
  unfolding io_write_all_def by (rule frames_step_call) (simp_all add: frames_def view_write supd_def)

lemma frames_write_last [frame_rules]: "\<not> Q p \<Longrightarrow> frames Q (io_write_last p pos bs)"
  unfolding io_write_last_def by (intro frame_rules)

lemma frames_remove_file [frame_rules]: "\<not> Q p \<Longrightarrow> frames Q (io_remove_file p)"
  unfolding io_remove_file_def by (rule frames_io_call) (simp add: frames_def view_del)

lemma frames_rename [frame_rules]: "\<not> Q src \<Longrightarrow> \<not> Q dst \<Longrightarrow> frames Q (io_rename src dst)"
  unfolding io_rename_def
  by (rule frames_io_call) (auto simp: frames_def fs_view_def fs_mek_def ft_file_def fun_eq_iff split: option.splits)

lemma frames_ix_call:
  "(\<And>fault ix. ix_slot (fst (f fault ix)) = ix_slot ix) \<Longrightarrow> frames Q (ix_call f)"
  by (auto simp: frames_def ix_call_def fs_view_def fs_mek_def ft_file_def split: list.splits prod.splits) (metis fst_conv)+

lemma index_keeps_slot [simp]:
  "ix_slot (fst (upsert ser de fault ix m sync)) = ix_slot ix"
  "ix_slot (fst (remove de fault ix b k)) = ix_slot ix"
  "ix_slot (fst (register_bucket fault ix b)) = ix_slot ix"
  "ix_slot (fst (unregister_bucket fault ix b)) = ix_slot ix"
  by (simp_all add: upsert_def remove_def register_bucket_def unregister_bucket_def Let_def split: sum.splits)

lemma frames_index [frame_rules]:
  "frames Q (ix_call (\<lambda>fault ix. upsert ser de fault ix m sync))"
  "frames Q (ix_call (\<lambda>fault ix. remove de fault ix b k))"
  "frames Q (ix_call (\<lambda>fault ix. register_bucket fault ix b))"
  "frames Q (ix_call (\<lambda>fault ix. unregister_bucket fault ix b))"
  "frames Q (ix_read g)"
  unfolding ix_read_def by (rule frames_ix_call; simp)+

lemma frames_note_dirty [frame_rules]: "frames Q (supd (note_dirty p))"
  by (auto simp: frames_def supd_def note_dirty_def fs_view_def fs_mek_def ft_file_def Let_def split: option.splits)

lemma frames_helpers [frame_rules]:
  "frames Q (validated E b k)" "frames Q (key_path E b k)" "frames Q (read_obj_metadata E p mek chk)"
  unfolding validated_def key_path_def read_obj_metadata_def by (intro frame_rules)+

lemma frames_read_created [frame_rules]: "frames Q (read_obj_created E p mek chk)"
  unfolding read_obj_created_def by (intro frame_rules)

lemma frames_stat_existing [frame_rules]: "frames Q (stat_existing E op b k p mek chk)"
  unfolding stat_existing_def by (intro frame_rules)

lemma frames_after_rename [frame_rules]: "frames Q (after_rename E p m sync)"
  unfolding after_rename_def by (intro frame_rules)

lemma frames_open_record [frame_rules]: "frames Q (open_record E op b k)"
  unfolding open_record_def Let_def by (intro frame_rules)

lemma frames_gets [frame_rules]: "frames Q (get E b k)" "frames Q (get_range E b k x y)" "frames Q (describe E b k)"
  unfolding get_def get_range_def describe_def Let_def by (intro frame_rules)+

subsection \<open>Failing cleanly\<close>

text \<open>An operation fails cleanly at a path when an error leaves the file there as it was.\<close>

named_theorems clean_rules "rules for operations that fail cleanly"

definition fails_clean :: "path \<Rightarrow> (fs_storage, 'e, 'a) comp \<Rightarrow> bool" where
  "fails_clean p m \<longleftrightarrow> (\<forall>s s' e. m s = (s', Inl e) \<longrightarrow> ft_file s' p = ft_file s p)"

definition never_fails :: "('s, 'e, 'a) comp \<Rightarrow> bool" where
  "never_fails m \<longleftrightarrow> (\<forall>s. is_ok (snd (m s)))"

lemma clean_frames: "frames (\<lambda>q. q = p) m \<Longrightarrow> fails_clean p m"
  unfolding fails_clean_def using framesD(5) [of "\<lambda>q. q = p" m _ _ _ p] by blast

lemma clean_sbind [clean_rules]: "frames (\<lambda>q. q = p) m \<Longrightarrow> (\<And>x. fails_clean p (f x)) \<Longrightarrow> fails_clean p (sbind m f)"
  unfolding fails_clean_def
  by (auto simp: sbind_def split: prod.splits sum.splits dest: framesD(5) [of "\<lambda>q. q = p" m _ _ _ p])

lemma clean_then [clean_rules]: "fails_clean p m \<Longrightarrow> (\<And>x. never_fails (f x)) \<Longrightarrow> fails_clean p (sbind m f)"
  unfolding fails_clean_def never_fails_def
  by (auto simp: sbind_def split: prod.splits sum.splits) (metis is_ok.simps(1) snd_conv)

lemma clean_map_err [clean_rules]: "fails_clean p m \<Longrightarrow> fails_clean p (smap_err h m)"
  by (auto simp: fails_clean_def smap_err_def split: prod.splits) (metis map_err.elims sum.distinct(1))

lemma clean_rename [clean_rules]: "fails_clean p (io_rename src dst)"
  unfolding fails_clean_def io_rename_def io_call_def step_call_def
  by (auto simp: ft_file_def split: list.splits option.splits if_splits)

lemma clean_case_prod [clean_rules]: "(\<And>x y. fails_clean p (f x y)) \<Longrightarrow> fails_clean p (case r of (x, y) \<Rightarrow> f x y)"
  by (cases r) simp

lemma never_fails_rules [clean_rules]:
  "never_fails (sret x)" "never_fails (sget f)" "never_fails (supd g)" "never_fails (stry m)"
  "never_fails m \<Longrightarrow> (\<And>x. never_fails (f x)) \<Longrightarrow> never_fails (sbind m f)"
  "never_fails m1 \<Longrightarrow> never_fails m2 \<Longrightarrow> never_fails (if c then m1 else m2)"
  by (auto simp: never_fails_def comp_simps split: prod.splits sum.splits)
    (metis is_ok.simps(1) snd_conv)

lemma never_after_rename [clean_rules]: "never_fails (after_rename E p m sync)"
  unfolding after_rename_def by (intro clean_rules)

lemma write_object_file_clean: "tmp \<noteq> obj \<Longrightarrow> fails_clean obj (write_object_file E b k tmp obj h d m sync)"
  unfolding write_object_file_def Let_def by (intro clean_rules frame_rules) simp_all

lemma finish_object_file_clean: "tmp \<noteq> obj \<Longrightarrow> fails_clean obj (finish_object_file E b k tmp obj pos h m sync)"
  unfolding finish_object_file_def Let_def by (intro clean_rules frame_rules) simp_all

lemma write_object_file_frames: "\<not> Q tmp \<Longrightarrow> \<not> Q obj \<Longrightarrow> frames Q (write_object_file E b k tmp obj h d m sync)"
  unfolding write_object_file_def Let_def by (intro frame_rules)

lemma finish_object_file_frames: "\<not> Q tmp \<Longrightarrow> \<not> Q obj \<Longrightarrow> frames Q (finish_object_file E b k tmp obj pos h m sync)"
  unfolding finish_object_file_def Let_def by (intro frame_rules)

subsection \<open>Where nothing fails\<close>

lemma step_call_run: "ft_faults s = [] \<Longrightarrow> step_call part m s = m s"
  by (simp add: step_call_def)

lemma io_call_run: "ft_faults s = [] \<Longrightarrow> io_call m s = m s"
  by (simp add: io_call_def step_call_run)

lemmas io_read_defs = io_exists_def io_stat_def io_mtime_def io_open_def io_open_dir_def io_read_exact_def io_fstat_len_def
  io_seek_def io_sync_def io_read_dir_def

definition quiet :: "('s file_tree_scheme, 'e, 'a) comp \<Rightarrow> bool" where
  "quiet m \<longleftrightarrow> (\<forall>s. ft_faults s = [] \<longrightarrow> ft_faults (fst (m s)) = [])"

named_theorems quiet_rules "computations that meet no failure leave none behind"

lemma quiet_basic [quiet_rules]: "quiet (sret x)" "quiet (sfail e)" "quiet (slift r)" "quiet (sget g)"
  by (simp_all add: quiet_def comp_simps)

lemma quiet_wrap [quiet_rules]: "quiet m \<Longrightarrow> quiet (smap_err h m)" "quiet m \<Longrightarrow> quiet (stry m)"
  by (simp_all add: quiet_def smap_err_def stry_def split_beta)

lemma quiet_sbind [quiet_rules]: "quiet m \<Longrightarrow> (\<And>x. quiet (f x)) \<Longrightarrow> quiet (sbind m f)"
  by (auto simp: quiet_def sbind_def split: prod.splits sum.splits)

lemma quiet_if [quiet_rules]: "quiet m \<Longrightarrow> quiet n \<Longrightarrow> quiet (if c then m else n)"
  by simp

lemma quiet_call: "quiet m \<Longrightarrow> quiet (io_call m)"
  by (simp add: quiet_def io_call_run)

lemma quiet_look: "quiet (\<lambda>s. (s, f s))"
  by (simp add: quiet_def)

lemma quiet_reads [quiet_rules]:
  "quiet (io_exists p)" "quiet (io_stat p)" "quiet (io_mtime p)" "quiet (io_open p)" "quiet (io_open_dir p)"
  "quiet (io_read_exact f pos n)" "quiet (io_fstat_len f)" "quiet io_seek" "quiet io_sync" "quiet (io_read_dir p)"
  unfolding io_read_defs by (rule quiet_call, (rule quiet_look quiet_basic))+

lemma quiet_ix [quiet_rules]: "quiet (ix_call f)" "quiet (ix_read g)"
  by (auto simp: quiet_def ix_read_def ix_call_def split: list.splits prod.splits)

lemma quiet_after_rename [quiet_rules]: "quiet (after_rename E p m sync)"
  unfolding after_rename_def
  by (intro quiet_rules) (auto simp: quiet_def supd_def note_dirty_def Let_def split: option.splits)

lemma quiet_step: "(\<And>s. ft_faults s = [] \<Longrightarrow> ft_faults (fst (m s)) = []) \<Longrightarrow> quiet (step_call part m)"
  by (simp add: quiet_def step_call_run)

lemma quiet_writes [quiet_rules]:
  "quiet (io_create_dir_all p)" "quiet (io_open_trunc p)" "quiet (io_write_all p pos bs)" "quiet (io_rename p q)" "quiet (io_remove_file p)"
  unfolding io_create_dir_all_def io_open_trunc_def io_write_all_def io_rename_def io_remove_file_def io_call_def
  by (rule quiet_step, auto simp: add_dirs_def put_file_def supd_def write_through_def del_file_def split: option.splits)+

lemma quiet_case [quiet_rules]:
  "(\<And>e. quiet (f e)) \<Longrightarrow> (\<And>x. quiet (g x)) \<Longrightarrow> quiet (case r of Inl e \<Rightarrow> f e | Inr x \<Rightarrow> g x)"
  "(\<And>x. quiet (a x)) \<Longrightarrow> quiet u \<Longrightarrow> quiet c \<Longrightarrow> (\<And>x. quiet (d x)) \<Longrightarrow>
   quiet (case e of InvalidData x \<Rightarrow> a x | UnexpectedEof \<Rightarrow> u | NoSuchFile \<Rightarrow> c | Os x \<Rightarrow> d x)"
  by (auto split: sum.splits io_error.splits)

lemma quiet_stat_existing [quiet_rules]: "quiet (stat_existing E op b k p mek chk)"
  unfolding stat_existing_def read_obj_created_def read_obj_metadata_def by (intro quiet_rules)

lemma quiet_write_last [quiet_rules]: "quiet (io_write_last p pos bs)"
  unfolding io_write_last_def by (intro quiet_rules)

lemma quietD: "quiet m \<Longrightarrow> ft_faults s = [] \<Longrightarrow> m s = (s', r) \<Longrightarrow> ft_faults s' = []"
  unfolding quiet_def by (metis fst_conv)

lemma quiet_rewrite_labels [quiet_rules]: "quiet (rewrite_labels E nonce mek chk p b k ls)"
  unfolding rewrite_labels_def Let_def by (intro quiet_rules)

lemma quiet_set_labels [quiet_rules]: "quiet (set_labels E nonce b k ls)"
  unfolding set_labels_def set_labels_impl_def validated_def by (intro quiet_rules quiet_look)

subsection \<open>What a successful call has done\<close>

lemma smap_err_Inr [simp]: "smap_err h m s = (s', Inr x) \<longleftrightarrow> m s = (s', Inr x)"
  by (auto simp: smap_err_def split: prod.splits)

lemma step_call_InrE:
  assumes "step_call part m s = (s', Inr x)"
  obtains fs where "m (s\<lparr>ft_faults := fs\<rparr>) = (s', Inr x)"
proof (cases "ft_faults s")
  case Nil
  have same: "s\<lparr>ft_faults := []\<rparr> = s" using Nil by (cases s) simp
  have "m (s\<lparr>ft_faults := []\<rparr>) = (s', Inr x)" unfolding same using assms Nil by (simp add: step_call_def)
  then show thesis by (rule that)
qed (use assms that in \<open>auto simp: step_call_def split: option.splits\<close>)

lemma ft_file_faults [simp]: "ft_file (s\<lparr>ft_faults := fs\<rparr>) = ft_file s"
  by (simp add: ft_file_def fun_eq_iff)

lemma open_trunc_Inr: "io_open_trunc p s = (s', Inr ()) \<Longrightarrow> ft_file s' = (ft_file s)(p \<mapsto> [])"
  unfolding io_open_trunc_def io_call_def by (elim step_call_InrE) (auto split: if_splits)

lemma ft_file_write_through:
  "ft_file s p = Some old \<Longrightarrow> pos \<le> length old \<Longrightarrow> ft_file (write_through p pos bs s) = (ft_file s)(p \<mapsto> write_at pos bs old)"
  by (auto simp: write_through_def write_at_def)

lemma write_all_Inr:
  "io_write_all p pos bs s = (s', Inr ()) \<Longrightarrow> ft_file s p = Some old \<Longrightarrow> pos \<le> length old \<Longrightarrow>
   ft_file s' = (ft_file s)(p \<mapsto> write_at pos bs old)"
  unfolding io_write_all_def by (elim step_call_InrE) (auto simp: supd_def ft_file_write_through)

lemma write_last_Inr:
  assumes "io_write_last p pos bs s = (s', Inr ())" and "ft_file s p = Some old" and "pos \<le> length old"
  obtains n where "ft_file s' = (ft_file s)(p \<mapsto> write_at pos (take n bs) old)" and "n \<le> length bs" and "ft_faults s = [] \<Longrightarrow> n = length bs"
proof -
  obtain s1 r where w: "io_write_all p pos bs s = (s1, r)" "s' = s1"
    using assms(1) by (auto simp: io_write_last_def sbind_def stry_def sret_def split: prod.splits)
  have "\<exists>n fs. ft_file s1 = ft_file (write_through p pos (take n bs) (s\<lparr>ft_faults := fs\<rparr>)) \<and> n \<le> length bs \<and> (ft_faults s = [] \<longrightarrow> n = length bs)"
  proof (cases "ft_faults s")
    case Nil
    have same: "s\<lparr>ft_faults := []\<rparr> = s" using Nil by (cases s) simp
    show ?thesis
      using w(1) Nil by (intro exI [of _ "length bs"] exI [of _ "[]"]) (auto simp: io_write_all_def step_call_def supd_def same [unfolded Nil])
  next
    case (Cons f fs)
    show ?thesis
    proof (cases f)
      case None
      then show ?thesis using w(1) Cons by (intro exI [of _ "length bs"] exI [of _ fs]) (auto simp: io_write_all_def step_call_def supd_def)
    next
      case (Some x)
      then show ?thesis
        using w(1) Cons by (intro exI [of _ "min (snd x) (length bs)"] exI [of _ fs]) (auto simp: io_write_all_def step_call_def min_def split: prod.splits)
    qed
  qed
  then obtain n fs where n: "ft_file s1 = ft_file (write_through p pos (take n bs) (s\<lparr>ft_faults := fs\<rparr>))" "n \<le> length bs" "ft_faults s = [] \<longrightarrow> n = length bs"
    by blast
  show thesis using that [of n] n w(2) assms(2,3) by (simp add: ft_file_write_through)
qed

lemma rename_Inr:
  "io_rename src dst s = (s', Inr ()) \<Longrightarrow> ft_file s' = (ft_file s)(src := None, dst := ft_file s src) \<and> ft_file s src \<noteq> None"
  unfolding io_rename_def io_call_def
  by (elim step_call_InrE) (auto simp: ft_file_def fun_eq_iff split: option.splits if_splits)

lemma sync_if_Inr: "(if c then smap_err h io_sync else sret ()) (s :: fs_storage) = (s', Inr ()) \<Longrightarrow> ft_file s' = ft_file s"
  using framesD(5) [of "\<lambda>_. True" io_sync s s'] frames_reads(9) [of "\<lambda>_. True"]
  by (auto simp: sret_def fun_eq_iff split: if_splits)

text \<open>The last write may be cut short; without failures it is not.\<close>

lemma write_object_file_Inr:
  assumes "write_object_file E b k tmp obj h d m sync s = (s', Inr ())"
  obtains n where "ft_file s' obj = Some (h @ d @ m @ take n h)" and "n \<le> length h" and "ft_faults s = [] \<Longrightarrow> n = length h"
proof -
  obtain s1 s2 s3 s4 s5 s6 where r: "io_open_trunc tmp s = (s1, Inr ())" "io_write_all tmp 0 h s1 = (s2, Inr ())"
    "io_write_all tmp (length h) d s2 = (s3, Inr ())" "io_write_all tmp (length h + length d) m s3 = (s4, Inr ())"
    "io_write_last tmp (length h + length d + length m) h s4 = (s5, Inr ())"
    "(if sync = Durable then smap_err (io_err E b k ''put'' ''fdatasync: '') io_sync else sret ()) s5 = (s6, Inr ())"
    "io_rename tmp obj s6 = (s', Inr ())"
    using assms unfolding write_object_file_def Let_def sbind_Inr_iff by auto
  note f1 = open_trunc_Inr [OF r(1)]
  have f2: "ft_file s2 tmp = Some h" using write_all_Inr [OF r(2), of "[]"] f1 by (simp add: write_at_def)
  have f3: "ft_file s3 tmp = Some (h @ d)" using write_all_Inr [OF r(3) f2] by (simp add: write_at_end)
  have f4: "ft_file s4 tmp = Some (h @ d @ m)"
    using write_all_Inr [OF r(4) f3] write_at_end [of "h @ d" m] by simp
  have q4: "ft_faults s4 = []" if "ft_faults s = []"
    using quietD [OF quiet_writes(2) that r(1)] quietD [OF quiet_writes(3) _ r(2)] quietD [OF quiet_writes(3) _ r(3)]
      quietD [OF quiet_writes(3) _ r(4)] by blast
  have le: "length h + length d + length m \<le> length (h @ d @ m)" by simp
  obtain n where n: "ft_file s5 = (ft_file s4)(tmp \<mapsto> write_at (length h + length d + length m) (take n h) (h @ d @ m))"
    "n \<le> length h" "ft_faults s4 = [] \<Longrightarrow> n = length h"
    using write_last_Inr [OF r(5) f4 le] by blast
  have "ft_file s5 tmp = Some (h @ d @ m @ take n h)" using n(1) write_at_end [of "h @ d @ m" "take n h"] by (simp add: add.assoc)
  then show thesis using that [of n] rename_Inr [OF r(7)] sync_if_Inr [OF r(6)] n(2,3) q4 by simp
qed

lemma finish_object_file_Inr:
  assumes "finish_object_file E b k tmp obj pos h m sync s = (s', Inr ())"
    and "ft_file s tmp = Some (z @ d)" and "length z = length h" and "pos = length z + length d"
  obtains n where "ft_file s' obj = Some (take n h @ drop n z @ d @ m @ h)" and "n \<le> length h" and "ft_faults s = [] \<Longrightarrow> n = length h"
proof -
  obtain s1 s2 s3 s4 s5 where r: "io_write_all tmp pos m s = (s1, Inr ())" "io_write_all tmp (pos + length m) h s1 = (s2, Inr ())"
    "io_seek s2 = (s3, Inr ())" "io_write_last tmp 0 h s3 = (s4, Inr ())"
    "(if sync = Durable then smap_err (io_err E b k ''put'' ''fdatasync: '') io_sync else sret ()) s4 = (s5, Inr ())"
    "io_rename tmp obj s5 = (s', Inr ())"
    using assms(1) unfolding finish_object_file_def Let_def sbind_Inr_iff by auto
  have f1: "ft_file s1 tmp = Some (z @ d @ m)"
    using write_all_Inr [OF r(1) assms(2)] assms(4) write_at_end [of "z @ d" m] by simp
  have f2: "ft_file s2 tmp = Some (z @ d @ m @ h)"
    using write_all_Inr [OF r(2) f1] assms(4) write_at_end [of "z @ d @ m" h] by (simp add: add.assoc)
  have f3: "ft_file s3 tmp = Some (z @ d @ m @ h)"
    using framesD(5) [OF frames_reads(8) r(3), of "\<lambda>_. True" tmp] f2 by simp
  have q3: "ft_faults s3 = []" if "ft_faults s = []"
    using quietD [OF quiet_writes(3) that r(1)] quietD [OF quiet_writes(3) _ r(2)] quietD [OF quiet_reads(8) _ r(3)] by blast
  obtain n where n: "ft_file s4 = (ft_file s3)(tmp \<mapsto> write_at 0 (take n h) (z @ d @ m @ h))" "n \<le> length h" "ft_faults s3 = [] \<Longrightarrow> n = length h"
    using write_last_Inr [OF r(4) f3] by blast
  have "ft_file s4 tmp = Some (take n h @ drop n z @ d @ m @ h)" using n(1,2) assms(3) by (simp add: write_at_def)
  then show thesis using that [of n] rename_Inr [OF r(6)] sync_if_Inr [OF r(5)] n(2,3) q3 by simp
qed

subsection \<open>Paths\<close>

lemma hex_no_dot: "CHR ''.'' \<notin> set (to_hex bs)"
proof -
  have "list_all (\<lambda>n. hex_digit n \<noteq> CHR ''.'') [0..<16]" by code_simp
  then have "n < 16 \<Longrightarrow> hex_digit n \<noteq> CHR ''.''" for n by (simp add: list_all_iff)
  moreover have "unat (b :: byte) div 16 < 16" for b using unat_byte_less [of b] by linarith
  ultimately have "hex_digit (unat b div 16) \<noteq> CHR ''.''" "hex_digit (unat b mod 16) \<noteq> CHR ''.''" for b :: byte by simp_all
  then show ?thesis by (auto simp: to_hex_def dest: sym)
qed

lemma length_to_hex [simp]: "length (to_hex bs) = 2 * length bs"
  by (simp add: to_hex_def length_concat comp_def sum_list_triv)

lemma takeWhile_dot: "CHR ''.'' \<notin> set e \<Longrightarrow> takeWhile (\<lambda>c. c \<noteq> CHR ''.'') (e @ CHR ''.'' # x) = e"
  "CHR ''.'' \<notin> set e \<Longrightarrow> dropWhile (\<lambda>c. c \<noteq> CHR ''.'') (e @ CHR ''.'' # x) = CHR ''.'' # x"
  by (subst takeWhile_append2 dropWhile_append2; auto)+

lemma split_file_name_ext:
  assumes "CHR ''.'' \<notin> set ext" and "stem \<noteq> []"
  shows "split_file_name (stem @ ''.'' @ ext) = (if stem = ''.'' \<and> ext = [] then (''..'', None) else (stem, Some ext))"
proof -
  have "rev (stem @ ''.'' @ ext) = rev ext @ CHR ''.'' # rev stem" by simp
  then show ?thesis
    using assms takeWhile_dot [of "rev ext" "rev stem"]
    by (auto simp: split_file_name_def Let_def append_eq_Cons_conv)
qed

lemma split_file_name_plain: "CHR ''.'' \<notin> set n \<Longrightarrow> split_file_name n = (n, None)"
  by (simp add: split_file_name_def Let_def)

definition obj_dir :: "crypto_prims \<Rightarrow> path \<Rightarrow> bytes \<Rightarrow> string \<Rightarrow> string \<Rightarrow> path" where
  "obj_dir P base pk b k = (let id = encode_object_id P pk b k
     in bucket_dir_path P base pk b @ [take 2 id, take 2 (drop 2 id)])"

lemma object_id_facts:
  assumes "hmac_len P"
  shows "length (encode_object_id P pk b k) = 64" "CHR ''.'' \<notin> set (encode_object_id P pk b k)"
  using assms hex_no_dot by (simp_all add: encode_object_id_def prf_hmac_def hmac_len_def)

lemma named_path:
  assumes "hmac_len P" and "CHR ''.'' \<notin> set ext" and "ext \<noteq> []"
  shows "file_stem (d @ [encode_object_id P pk b k @ ''.'' @ ext]) = Some (encode_object_id P pk b k)"
    and "path_extension (d @ [encode_object_id P pk b k @ ''.'' @ ext]) = Some ext"
proof -
  note f = object_id_facts [OF assms(1), of pk b k]
  have ne: "encode_object_id P pk b k \<noteq> []" "encode_object_id P pk b k \<noteq> ''.''" using f by auto
  have "length (encode_object_id P pk b k @ ''.'' @ ext) \<noteq> length ''..''" using f(1) by simp
  then have "encode_object_id P pk b k @ ''.'' @ ext \<noteq> ''..''" by metis
  then show "file_stem (d @ [encode_object_id P pk b k @ ''.'' @ ext]) = Some (encode_object_id P pk b k)"
    and "path_extension (d @ [encode_object_id P pk b k @ ''.'' @ ext]) = Some ext"
    using split_file_name_ext [OF assms(2) ne(1)] ne(2) by (simp_all add: file_stem_def path_extension_def)
qed

lemma obj_path_eq:
  assumes "hmac_len P"
  shows "obj_path_for P base pk b k = obj_dir P base pk b k @ [encode_object_id P pk b k @ ''.obj'']"
proof -
  note f = object_id_facts [OF assms, of pk b k]
  have "encode_object_id P pk b k \<noteq> ''..''" using f by auto
  then have "file_stem (bucket_dir_path P base pk b @ [x, y, encode_object_id P pk b k]) = Some (encode_object_id P pk b k)" for x y
    using split_file_name_plain [OF f(2)] by (simp add: file_stem_def)
  then show ?thesis
    by (simp add: obj_path_for_def obj_dir_def with_extension_def Let_def butlast_append)
qed

lemma obj_path_facts:
  assumes "hmac_len P"
  shows "object_id_from_path (obj_path_for P base pk b k) = Some (encode_object_id P pk b k)"
    and "ext \<noteq> [] \<Longrightarrow> with_extension (obj_path_for P base pk b k) ext = obj_dir P base pk b k @ [encode_object_id P pk b k @ ''.'' @ ext]"
    and "butlast (obj_path_for P base pk b k) = obj_dir P base pk b k"
    and "path_extension (obj_path_for P base pk b k) = Some ''obj''"
  using named_path [OF assms, of "''obj''" "obj_dir P base pk b k" pk b k]
  by (simp_all add: obj_path_eq [OF assms] object_id_from_path_def with_extension_def)

lemma tmp_not_obj:
  assumes "hmac_len P"
  shows "with_extension (obj_path_for P base pk b k) ''tmp'' \<noteq> obj_path_for P base pk b k"
    "with_extension (obj_path_for P base pk b k) ''labels.tmp'' \<noteq> obj_path_for P base pk b k"
  using obj_path_facts(2) [OF assms, of _ base pk b k] by (simp_all add: obj_path_eq [OF assms])

subsection \<open>A put, step by step\<close>

lemma key_path_run: "path_key (fs_mek s) = Some pk \<Longrightarrow>
    key_path E b k s = (s, Inr (obj_path_for (fe_prims E) (fs_base_path s) pk b k))"
  by (simp add: key_path_def comp_simps require_path_key_def require_key_def)

lemma require_Inr:
  "require_path_key slot = Inr x \<longleftrightarrow> path_key slot = Some x"
  "require_object_metadata_key slot = Inr x \<longleftrightarrow> object_metadata_key slot = Some x"
  "require_container_header_key slot = Inr x \<longleftrightarrow> container_header_key slot = Some x"
  "require_bucket_config_key slot = Inr x \<longleftrightarrow> bucket_config_key slot = Some x"
  by (simp_all add: require_path_key_def require_object_metadata_key_def require_container_header_key_def
      require_bucket_config_key_def require_key_def)

lemma with_lock_cases:
  assumes "with_lock b k body s = (s', r)"
  obtains (refused) since where "dm_get (fs_locks s) (b, k) = Some since" "s' = s" "r = Inl (Locked b k since)"
  | (held) t where "dm_get (fs_locks s) (b, k) = None"
      "body (s\<lparr>fs_locks := dm_insert (b, k) (ft_now s) (fs_locks s)\<rparr>) = (t, r)"
      "s' = t\<lparr>fs_locks := dm_remove (b, k) (fs_locks t)\<rparr>"
  using assms by (auto simp: with_lock_def try_acquire_def guard_drop_def Let_def split: option.splits prod.splits)

lemma release_acquired: "dm_get m k = None \<Longrightarrow> dm_remove k (dm_insert k v m) = m"
  by (induction m) (auto split: if_splits)

lemma view_locks: "ft_file (s\<lparr>fs_locks := m\<rparr>) = ft_file s" "fs_mek (s\<lparr>fs_locks := m\<rparr>) = fs_mek s"
  by (simp_all add: ft_file_def fs_mek_def fun_eq_iff)

lemma with_lock_frame:
  assumes "with_lock b k body s = (s', r)" and "frames Q body"
  shows "fs_locks s' = fs_locks s" "fs_mek s' = fs_mek s" "fs_base_path s' = fs_base_path s" "ft_now s' = ft_now s"
    "Q p \<Longrightarrow> ft_file s' p = ft_file s p"
proof -
  have "fs_locks s' = fs_locks s \<and> fs_mek s' = fs_mek s \<and> fs_base_path s' = fs_base_path s \<and> ft_now s' = ft_now s
    \<and> (Q p \<longrightarrow> ft_file s' p = ft_file s p)"
    using assms(1)
  proof (cases rule: with_lock_cases)
    case (held t)
    note f = framesD [OF assms(2) held(2)]
    show ?thesis using f(1-4) f(5) [of p] held(1,3) by (simp add: release_acquired view_locks)
  qed simp
  then show "fs_locks s' = fs_locks s" "fs_mek s' = fs_mek s" "fs_base_path s' = fs_base_path s" "ft_now s' = ft_now s"
    "Q p \<Longrightarrow> ft_file s' p = ft_file s p" by auto
qed

lemma with_lock_clean:
  assumes "with_lock b k body s = (s', Inl e)" and "fails_clean p body"
  shows "ft_file s' p = ft_file s p"
  using assms(1)
proof (cases rule: with_lock_cases)
  case (held t)
  then show ?thesis using assms(2) unfolding fails_clean_def by (metis view_locks(1))
qed simp

definition obj_record :: "fs_env \<Rightarrow> bytes \<Rightarrow> string \<Rightarrow> sync_level \<Rightarrow> bytes \<Rightarrow> bytes \<Rightarrow> bytes" where
  "obj_record E chk oid sync data meta =
     (let h = encode_header (fe_prims E) (record_header (of_nat (length data)) meta sync) chk oid in h @ data @ meta @ h)"

text \<open>The record without its last \<open>missing\<close> bytes.\<close>

definition cut_record :: "nat \<Rightarrow> bytes \<Rightarrow> bytes" where
  "cut_record missing c = take (length c - missing) c"

lemma cut_record_0 [simp]: "cut_record 0 c = c"
  by (simp add: cut_record_def)

lemma put_locked_frames:
  assumes "\<not> Q obj" and "\<not> Q (with_extension obj ''tmp'')"
  shows "frames Q (put_locked E nonce obj b k data opts)"
  unfolding put_locked_def Let_def by (intro frame_rules write_object_file_frames) (simp_all add: assms)

lemma put_locked_clean:
  assumes "with_extension obj ''tmp'' \<noteq> obj"
  shows "fails_clean obj (put_locked E nonce obj b k data opts)"
  unfolding put_locked_def Let_def
  by (intro clean_sbind clean_case_prod clean_then [OF write_object_file_clean] never_fails_rules never_after_rename frame_rules assms)

lemma put_parts:
  assumes "put E nonce b k data opts s = (s', r)" and "path_key (fs_mek s) = Some pk"
  defines "obj \<equiv> obj_path_for (fe_prims E) (fs_base_path s) pk b k"
  obtains (early) "\<And>p. ft_file s' p = ft_file s p" "fs_locks s' = fs_locks s" "\<not> is_ok r"
  | (locked) t where "validated E b k s = (s, Inr ())" "\<And>p. ft_file t p = ft_file s p" "fs_locks t = fs_locks s"
      "fs_mek t = fs_mek s" "ft_now t = ft_now s" "fs_base_path t = fs_base_path s" "ft_faults s = [] \<Longrightarrow> ft_faults t = []"
      "with_lock b k (put_locked E nonce obj b k data opts) t = (s', r)"
proof (cases "snd (validated E b k s)")
  case (Inl e)
  then have "s' = s" "r = Inl e" using assms(1) by (auto simp: put_def validated_def comp_simps split: sum.splits)
  then show thesis by (intro early) simp_all
next
  case (Inr u)
  then have v: "validated E b k s = (s, Inr ())" by (auto simp: validated_def comp_simps split: sum.splits)
  let ?mk = "smap_err (io_err E b k ''put'' []) (io_create_dir_all (butlast obj)) :: unit fs_comp"
  have fr: "frames (\<lambda>_. True) ?mk" by (intro frame_rules)
  have eq: "put E nonce b k data opts s = sbind ?mk (\<lambda>_. with_lock b k (put_locked E nonce obj b k data opts)) s"
    unfolding put_def obj_def by (simp only: sbind_run [of "validated E b k", OF v] sbind_run [of "key_path E b k", OF key_path_run [OF assms(2)]])
  obtain t q where t: "?mk s = (t, q)" by (cases "?mk s") auto
  note f = framesD [OF fr t, simplified]
  show thesis
  proof (cases q)
    case (Inl e)
    then have "s' = t" "r = Inl e" using assms(1) t unfolding eq by (simp_all add: sbind_def)
    then show thesis using f by (intro early) simp_all
  next
    case (Inr x)
    then have "with_lock b k (put_locked E nonce obj b k data opts) t = (s', r)"
      using assms(1) t unfolding eq by (simp add: sbind_def)
    moreover have "ft_faults s = [] \<Longrightarrow> ft_faults t = []"
      using t by (auto simp: smap_err_def io_create_dir_all_def step_call_def add_dirs_def split: prod.splits if_splits)
    ultimately show thesis using f v by (intro locked [of t]) simp_all
  qed
qed

lemma put_locked_Inr:
  assumes "put_locked E nonce obj b k data opts s = (s', Inr ow)" and oid: "object_id_from_path obj = Some oid" and P: "hmac_len (fe_prims E)"
  obtains mek chk prior json meta missing where "object_metadata_key (fs_mek s) = Some mek" "container_header_key (fs_mek s) = Some chk"
    "fe_ser E (put_metadata E (now_nanos s) prior obj b k data opts) = Inr json"
    "encrypt_meta (fe_prims E) nonce mek json oid META_PAD_BLOCK = Inr meta"
    "ft_file s' obj = Some (cut_record missing (obj_record E chk oid (po_sync opts) data meta))" "missing \<le> HEADER_SIZE"
    "ft_faults s = [] \<Longrightarrow> missing = 0"
    "\<exists>s1. stat_existing E ''put'' b k obj mek chk s = (s1, Inr (ow, prior))"
proof -
  obtain mek chk prior json meta s1 s2 s3 where r: "object_metadata_key (fs_mek s) = Some mek" "container_header_key (fs_mek s) = Some chk"
    "stat_existing E ''put'' b k obj mek chk s = (s1, Inr (ow, prior))"
    "fe_ser E (put_metadata E (now_nanos s1) prior obj b k data opts) = Inr json"
    "encrypt_meta (fe_prims E) nonce mek json oid META_PAD_BLOCK = Inr meta"
    "write_object_file E b k (with_extension obj ''tmp'') obj
       (encode_header (fe_prims E) (record_header (of_nat (length data)) meta (po_sync opts)) chk oid) data meta (po_sync opts) s1 = (s2, Inr ())"
    "after_rename E obj (put_metadata E (now_nanos s1) prior obj b k data opts) (po_sync opts) s2 = (s', Inr ())"
    using assms(1) unfolding put_locked_def Let_def
    by (auto simp: sbind_Inr_iff sget_def slift_def sret_def require_Inr oid split: prod.splits)
  have "now_nanos s1 = now_nanos s"
    using framesD(1) [OF frames_stat_existing r(3)] by (simp add: now_nanos_def)
  moreover
  let ?h = "encode_header (fe_prims E) (record_header (of_nat (length data)) meta (po_sync opts)) chk oid"
  have lh: "length ?h = HEADER_SIZE" using length_encode_header [OF P] by (simp add: HEADER_SIZE_def)
  obtain n where n: "ft_file s2 obj = Some (?h @ data @ meta @ take n ?h)" "n \<le> length ?h" "ft_faults s1 = [] \<Longrightarrow> n = length ?h"
    using write_object_file_Inr [OF r(6)] by metis
  have "?h @ data @ meta @ take n ?h = cut_record (HEADER_SIZE - n) (obj_record E chk oid (po_sync opts) data meta)"
    using n(2) lh by (simp add: cut_record_def obj_record_def Let_def)
  then have "ft_file s' obj = Some (cut_record (HEADER_SIZE - n) (obj_record E chk oid (po_sync opts) data meta))"
    using n(1) framesD(5) [OF frames_after_rename r(7), of "\<lambda>_. True" obj] by simp
  moreover have "ft_faults s = [] \<Longrightarrow> HEADER_SIZE - n = 0"
    using quietD [OF quiet_stat_existing _ r(3)] n(3) lh by simp
  ultimately show thesis using that [of mek chk prior json meta "HEADER_SIZE - n"] r(1-5) by fastforce
qed

subsection \<open>Reading without failures\<close>

text \<open>What a file says as an object record: its header, its data and its metadata.\<close>

definition header_of_file :: "fs_env \<Rightarrow> bytes \<Rightarrow> path \<Rightarrow> bytes \<Rightarrow> header option" where
  "header_of_file E chk p c =
     (case object_id_from_path p of None \<Rightarrow> None | Some oid \<Rightarrow>
      if length c < HEADER_SIZE then None else
      case decode_header (fe_prims E) (take HEADER_SIZE c) chk oid of Inl _ \<Rightarrow> None | Inr h \<Rightarrow>
      if check_total_len h (of_nat (length c)) = Inr () then Some h else None)"

definition data_of_file :: "fs_env \<Rightarrow> bytes \<Rightarrow> path \<Rightarrow> bytes \<Rightarrow> bytes option" where
  "data_of_file E chk p c =
     Option.bind (header_of_file E chk p c) (\<lambda>h.
     if unat (hd_data_offset h) + unat (hd_data_len h) \<le> length c
     then Some (take (unat (hd_data_len h)) (drop (unat (hd_data_offset h)) c)) else None)"

definition meta_of_file :: "fs_env \<Rightarrow> bytes \<Rightarrow> bytes \<Rightarrow> path \<Rightarrow> bytes \<Rightarrow> metadata option" where
  "meta_of_file E mek chk p c =
     Option.bind (header_of_file E chk p c) (\<lambda>h.
     if unat (meta_offset h) + unat (hd_meta_len h) \<le> length c
     then case decrypt_meta (fe_prims E) mek (take (unat (hd_meta_len h)) (drop (unat (meta_offset h)) c))
                 (the (object_id_from_path p)) of
            Inl _ \<Rightarrow> None
          | Inr json \<Rightarrow> (case fe_de E json of Inr m \<Rightarrow> Some m | Inl _ \<Rightarrow> None)
     else None)"

lemma sum_case_Some: "(case r of Inl e \<Rightarrow> None | Inr y \<Rightarrow> g y) = Some m \<longleftrightarrow> (\<exists>y. r = Inr y \<and> g y = Some m)"
  by (cases r) auto

lemma if_Inr: "(if c then Inr x else Inl e) = Inr y \<longleftrightarrow> c \<and> x = y"
  by simp

lemma header_of_file_Some:
  "header_of_file E chk p c = Some h \<longleftrightarrow> (\<exists>oid. object_id_from_path p = Some oid \<and> HEADER_SIZE \<le> length c
     \<and> decode_header (fe_prims E) (take HEADER_SIZE c) chk oid = Inr h \<and> check_total_len h (of_nat (length c)) = Inr ())"
  by (auto simp: header_of_file_def sum_case_Some split: option.splits if_splits)

lemma meta_of_file_Some:
  "meta_of_file E mek chk p c = Some m \<longleftrightarrow> (\<exists>h json. header_of_file E chk p c = Some h
     \<and> unat (meta_offset h) + unat (hd_meta_len h) \<le> length c
     \<and> decrypt_meta (fe_prims E) mek (take (unat (hd_meta_len h)) (drop (unat (meta_offset h)) c)) (the (object_id_from_path p)) = Inr json
     \<and> fe_de E json = Inr m)"
  by (auto simp: meta_of_file_def bind_eq_Some_conv sum_case_Some split: if_splits)

text \<open>A computation that only looks, run in a state, is its result.\<close>

lemma sbind_pure: "m s = (s, r) \<Longrightarrow> (\<And>x. f x s = (s, g x)) \<Longrightarrow> sbind m f s = (s, rbind r g)"
  by (cases r) (simp_all add: sbind_def)

lemma look_pure:
  "slift r s = (s, r)" "sget f s = (s, Inr (f s))" "sret x s = (s, Inr x)"
  "m s = (s, r) \<Longrightarrow> smap_err h m s = (s, map_err h r)"
  by (simp_all add: comp_simps)

lemma io_pure:
  assumes "ft_faults s = []"
  shows "io_open p s = (s, case ft_file s p of Some c \<Rightarrow> Inr c
      | None \<Rightarrow> Inl (if ft_is_dir s p then Os ''Is a directory (os error 21)'' else lookup_err s p))"
    "io_read_exact c pos n s = (s, if pos + n \<le> length c then Inr (take n (drop pos c)) else Inl UnexpectedEof)"
    "io_fstat_len c s = (s, Inr (of_nat (length c)))" "io_seek s = (s, Inr ())"
    "io_exists p s = (s, Inr (ft_file s p \<noteq> None \<or> ft_is_dir s p))"
    "io_stat p s = (s, if ft_file s p \<noteq> None \<or> ft_is_dir s p then Inr () else Inl (lookup_err s p))"
  using assms by (simp_all add: io_read_defs io_call_run comp_simps)

lemma read_obj_metadata_run:
  assumes "ft_faults s = []"
  shows "read_obj_metadata E p mek chk s = (s,
     rbind (snd (io_open p s)) (\<lambda>file.
     rbind (Inr (of_nat (length file))) (\<lambda>actual_len.
     rbind (if 0 + HEADER_SIZE \<le> length file then Inr (take HEADER_SIZE (drop 0 file)) else Inl UnexpectedEof) (\<lambda>header_buf.
     rbind (ok_or (object_id_from_path p) (InvalidData ''cannot derive object id from path'')) (\<lambda>object_id.
     rbind (map_err (\<lambda>e. InvalidData (fe_format_text E e)) (decode_header (fe_prims E) header_buf chk object_id)) (\<lambda>header.
     rbind (map_err (\<lambda>e. InvalidData (fe_format_text E e)) (check_total_len header actual_len)) (\<lambda>_.
     rbind (Inr ()) (\<lambda>_.
     rbind (if unat (meta_offset header) + unat (hd_meta_len header) \<le> length file
            then Inr (take (unat (hd_meta_len header)) (drop (unat (meta_offset header)) file)) else Inl UnexpectedEof) (\<lambda>meta_buf.
     rbind (map_err (\<lambda>e. InvalidData (fe_crypto_text E e)) (decrypt_meta (fe_prims E) mek meta_buf object_id)) (\<lambda>json.
     map_err InvalidData (fe_de E json)))))))))))"
  unfolding read_obj_metadata_def
  by (intro sbind_pure look_pure io_pure(2-4) [OF assms]) (simp add: io_pure(1) [OF assms])

lemma read_obj_metadata_quiet:
  assumes "ft_faults s = []"
  obtains r where "read_obj_metadata E p mek chk s = (s, r)"
    and "\<And>m. r = Inr m \<longleftrightarrow> (\<exists>c. ft_file s p = Some c \<and> meta_of_file E mek chk p c = Some m)"
proof (rule that [OF read_obj_metadata_run [OF assms]], goal_cases)
  case (1 m)
  show ?case
  proof (cases "ft_file s p")
    case (Some c)
    show ?thesis
      unfolding io_pure(1) [OF assms] meta_of_file_Some header_of_file_Some
      by (auto simp: Some if_Inr)
  qed (simp add: io_pure(1) [OF assms])
qed

lemma validated_pure: "validated E b k s = (s, rbind (validate_bucket E b) (\<lambda>_. validate_key k))"
  unfolding validated_def by (intro sbind_pure look_pure)

lemma key_path_pure:
  "key_path E b k s = (s, rbind (Inr (fs_mek s)) (\<lambda>slot. rbind (require_path_key slot) (\<lambda>pk.
       Inr (obj_path_for (fe_prims E) (fs_base_path s) pk b k))))"
  unfolding key_path_def by (intro sbind_pure look_pure)

lemma open_record_run:
  assumes "ft_faults s = []"
  shows "open_record E op b k s = (s,
     rbind (rbind (validate_bucket E b) (\<lambda>_. validate_key k)) (\<lambda>_.
     rbind (rbind (Inr (fs_mek s)) (\<lambda>slot. rbind (require_path_key slot) (\<lambda>pk.
       Inr (obj_path_for (fe_prims E) (fs_base_path s) pk b k)))) (\<lambda>obj.
     rbind (check_not_locked (fs_locks s) b k) (\<lambda>_.
     rbind (map_err (\<lambda>e. if e = NoSuchFile then NotFound b k else io_err E b k op [] e) (snd (io_open obj s))) (\<lambda>file.
     rbind (map_err (io_err E b k op ''read header: '')
        (if 0 + HEADER_SIZE \<le> length file then Inr (take HEADER_SIZE (drop 0 file)) else Inl UnexpectedEof)) (\<lambda>header_buf.
     rbind (Inr (fs_mek s)) (\<lambda>slot.
     rbind (require_container_header_key slot) (\<lambda>chk.
     rbind (ok_or (object_id_from_path obj) (InternalError b k op ''cannot derive object id from path'')) (\<lambda>object_id.
     rbind (map_err (\<lambda>e. InternalError b k op (''decode header: '' @ fe_format_text E e))
        (decode_header (fe_prims E) header_buf chk object_id)) (\<lambda>header.
     rbind (map_err (io_err E b k op ''stat: '') (Inr (of_nat (length file)))) (\<lambda>file_len.
     rbind (map_err (\<lambda>e. InternalError b k op (fe_format_text E e)) (check_total_len header file_len)) (\<lambda>_.
     Inr (obj, file, header)))))))))))))"
  unfolding open_record_def Let_def
  by (intro sbind_pure look_pure io_pure(2-4) [OF assms] validated_pure key_path_pure)
    (simp_all add: io_pure(1) [OF assms])

lemma open_record_Inr:
  assumes "ft_faults s = []"
  shows "open_record E op b k s = (s', Inr (p, c, h)) \<longleftrightarrow> s' = s \<and> validate_bucket E b = Inr () \<and> validate_key k = Inr ()
    \<and> dm_get (fs_locks s) (b, k) = None
    \<and> (\<exists>pk chk. path_key (fs_mek s) = Some pk \<and> container_header_key (fs_mek s) = Some chk
        \<and> p = obj_path_for (fe_prims E) (fs_base_path s) pk b k \<and> ft_file s p = Some c \<and> header_of_file E chk p c = Some h)"
proof -
  have lk: "check_not_locked (fs_locks s) b k = Inr x \<longleftrightarrow> dm_get (fs_locks s) (b, k) = None" for x
    by (auto simp: check_not_locked_def split: option.splits)
  have op: "snd (io_open q s) = Inr f \<longleftrightarrow> ft_file s q = Some f" for q f
    by (auto simp: io_pure(1) [OF assms] split: option.splits)
  show ?thesis
    unfolding open_record_run [OF assms] by (auto simp: lk op header_of_file_Some require_Inr split: if_splits)
qed

lemma get_Inr:
  assumes "ft_faults s = []"
  shows "get E b k s = (s', Inr d) \<longleftrightarrow> s' = s \<and> validate_bucket E b = Inr () \<and> validate_key k = Inr ()
    \<and> dm_get (fs_locks s) (b, k) = None
    \<and> (\<exists>pk chk c. path_key (fs_mek s) = Some pk \<and> container_header_key (fs_mek s) = Some chk
        \<and> ft_file s (obj_path_for (fe_prims E) (fs_base_path s) pk b k) = Some c
        \<and> data_of_file E chk (obj_path_for (fe_prims E) (fs_base_path s) pk b k) c = Some d)"
proof -
  have step: "get E b k s = (s', Inr d) \<longleftrightarrow> (\<exists>t p c h. open_record E ''get'' b k s = (t, Inr (p, c, h)) \<and>
      sbind (smap_err (io_err E b k ''get'' ''seek data: '') io_seek) (\<lambda>_. smap_err (io_err E b k ''get'' ''read data: '')
       (io_read_exact c (unat (hd_data_offset h)) (unat (hd_data_len h)))) t = (s', Inr d))"
    unfolding get_def sbind_Inr_iff [of "open_record E ''get'' b k"] by (auto split: prod.splits)
  have seek: "sbind (smap_err (io_err E b k ''get'' ''seek data: '') io_seek) (\<lambda>_. smap_err (io_err E b k ''get'' ''read data: '')
       (io_read_exact c i n)) s = (s', Inr d) \<longleftrightarrow> s' = s \<and> i + n \<le> length c \<and> d = take n (drop i c)" for c i n
    using assms by (auto simp: sbind_Inr_iff io_pure if_Inr)
  show ?thesis
    unfolding step open_record_Inr [OF assms] data_of_file_def bind_eq_Some_conv by (auto simp: seek split: if_splits)
qed

lemma describe_Inr:
  assumes "ft_faults s = []"
  shows "describe E b k s = (s', Inr m) \<longleftrightarrow> s' = s \<and> validate_bucket E b = Inr () \<and> validate_key k = Inr ()
    \<and> dm_get (fs_locks s) (b, k) = None
    \<and> (\<exists>pk mek chk c. path_key (fs_mek s) = Some pk \<and> object_metadata_key (fs_mek s) = Some mek
        \<and> container_header_key (fs_mek s) = Some chk
        \<and> ft_file s (obj_path_for (fe_prims E) (fs_base_path s) pk b k) = Some c
        \<and> meta_of_file E mek chk (obj_path_for (fe_prims E) (fs_base_path s) pk b k) c = Some m)"
proof -
  have rd: "read_obj_metadata E p mek chk s = (t, Inr m) \<longleftrightarrow> t = s \<and> (\<exists>c. ft_file s p = Some c \<and> meta_of_file E mek chk p c = Some m)" for t p mek chk m
    by (rule read_obj_metadata_quiet [OF assms, of E p mek chk]) auto
  have ex: "stry (io_exists p) s = (t, Inr x) \<longleftrightarrow> t = s \<and> x = Inr (ft_file s p \<noteq> None \<or> ft_is_dir s p)" for t p x
    by (auto simp: stry_def io_pure [OF assms])
  have br: "(if c then sfail e else f) t = (s', Inr m) \<longleftrightarrow> \<not> c \<and> f t = (s', Inr m)" for c e f and t :: fs_storage
    by (simp add: sfail_def)
  show ?thesis
    unfolding describe_def
    by (auto simp: sbind_Inr_iff validated_pure key_path_pure look_pure ex br rd require_Inr check_not_locked_def split: option.splits)
qed

lemma record_header_fields [simp]:
  "hd_data_len (record_header n m sync) = n" "hd_meta_len (record_header n m sync) = of_nat (length m)"
  "hd_data_offset (record_header n m sync) = 64" "hd_version (record_header n m sync) = VERSION"
  by (simp_all add: record_header_def MIN_DATA_OFFSET_def HEADER_SIZE_def)

lemma obj_record_reads:
  fixes chk :: bytes and sync :: sync_level
  assumes P: "hmac_len (fe_prims E)" and oid: "object_id_from_path p = Some oid"
    and len: "length data + length meta + 128 < 2 ^ 64" "length meta < 2 ^ 32"
  defines "c \<equiv> obj_record E chk oid sync data meta"
  shows "header_of_file E chk p c = Some (record_header (of_nat (length data)) meta sync)"
    and "data_of_file E chk p c = Some data"
    and "meta_of_file E mek chk p c = (case decrypt_meta (fe_prims E) mek meta oid of
      Inl _ \<Rightarrow> None | Inr json \<Rightarrow> (case fe_de E json of Inr m \<Rightarrow> Some m | Inl _ \<Rightarrow> None))"
proof -
  let ?h = "record_header (of_nat (length data)) meta sync"
  define enc where "enc = encode_header (fe_prims E) ?h chk oid"
  have le: "length enc = 64" using length_encode_header [OF P] by (simp add: enc_def)
  have c: "c = enc @ data @ meta @ enc" by (simp add: c_def obj_record_def enc_def Let_def)
  have u: "unat (of_nat (length data) :: u64) = length data" "unat (of_nat (length meta) :: u32) = length meta"
    using len by (simp_all add: unat_of_nat)
  have "length c = 128 + (length data + length meta)" by (simp add: c le)
  then have lc: "unat (of_nat (length c) :: u64) = 128 + (length data + length meta)"
    using len(1) by (simp add: unat_of_nat del: of_nat_add)
  have total: "checked_total_len ?h = Some (of_nat (length c))"
    unfolding checked_total_len_Some using lc by (simp add: u HEADER_SIZE_def)
  have dec: "decode_header (fe_prims E) enc chk oid = Inr ?h"
    unfolding enc_def by (subst decode_encoded [OF P]) (simp_all add: MIN_DATA_OFFSET_def HEADER_SIZE_def)
  show hd: "header_of_file E chk p c = Some ?h"
    unfolding header_of_file_Some using oid dec le total by (auto simp: c HEADER_SIZE_def check_total_len_def)
  show "data_of_file E chk p c = Some data"
    unfolding data_of_file_def hd using u le by (simp add: c)
  have "unat (meta_offset ?h) = 64 + length data"
    using len(1) unfolding meta_offset_def by (subst unat_add_u64) (simp_all add: u unat_ucast_u64)
  then show "meta_of_file E mek chk p c = (case decrypt_meta (fe_prims E) mek meta oid of
      Inl _ \<Rightarrow> None | Inr json \<Rightarrow> (case fe_de E json of Inr m \<Rightarrow> Some m | Inl _ \<Rightarrow> None))"
    unfolding meta_of_file_def hd using u le oid by (simp add: c)
qed

text \<open>A record whose end is missing is refused by its length.\<close>

lemma cut_record_unreadable:
  fixes chk :: bytes and sync :: sync_level
  assumes P: "hmac_len (fe_prims E)" and oid: "object_id_from_path p = Some oid"
    and len: "length data + length meta + 128 < 2 ^ 64" "length meta < 2 ^ 32" and m: "0 < missing" "missing \<le> HEADER_SIZE"
  shows "header_of_file E chk p (cut_record missing (obj_record E chk oid sync data meta)) = None"
proof -
  define c where "c = obj_record E chk oid sync data meta"
  define c' where "c' = cut_record missing c"
  let ?h = "record_header (of_nat (length data)) meta sync"
  have hd: "header_of_file E chk p c = Some ?h" unfolding c_def by (rule obj_record_reads [OF P oid len])
  have l: "length c = 128 + length data + length meta" using length_encode_header [OF P] by (simp add: c_def obj_record_def Let_def)
  then have l': "length c' = length c - missing" "HEADER_SIZE \<le> length c'" "take HEADER_SIZE c' = take HEADER_SIZE c"
    using m by (auto simp: c'_def cut_record_def HEADER_SIZE_def min_def)
  have total: "check_total_len ?h (of_nat (length c)) = Inr ()" "decode_header (fe_prims E) (take HEADER_SIZE c) chk oid = Inr ?h"
    using hd oid by (auto simp: header_of_file_Some)
  have "(of_nat (length c') :: u64) \<noteq> of_nat (length c)"
  proof
    assume "(of_nat (length c') :: u64) = of_nat (length c)"
    moreover have "length c < 2 ^ 64" "length c' < 2 ^ 64" using l l'(1) len(1) by simp_all
    moreover have "unat (of_nat n :: u64) = n" if "n < 2 ^ 64" for n using that by (simp add: unat_of_nat)
    ultimately have "length c' = length c" by metis
    then show False using l l'(1) m by (simp add: HEADER_SIZE_def)
  qed
  then have "check_total_len ?h (of_nat (length c')) \<noteq> Inr ()" using total(1) by (auto simp: check_total_len_def split: option.splits if_splits)
  then have "header_of_file E chk p c' \<noteq> Some h" for h
    using total(2) oid l'(3) by (auto simp: header_of_file_Some)
  then show ?thesis unfolding c'_def c_def by (cases "header_of_file E chk p (cut_record missing (obj_record E chk oid sync data meta))") auto
qed

lemma stat_existing_quiet:
  assumes "ft_faults s = []" and "stat_existing E op b k p mek chk s = (s1, Inr (ow, prior))"
  shows "prior = Option.bind (ft_file s p) (\<lambda>c. map_option md_created (meta_of_file E mek chk p c))"
proof (cases "ft_file s p \<noteq> None \<or> ft_is_dir s p")
  case True
  obtain r where r: "read_obj_metadata E p mek chk s = (s, r)"
    "\<And>m. r = Inr m \<longleftrightarrow> (\<exists>c. ft_file s p = Some c \<and> meta_of_file E mek chk p c = Some m)"
    using read_obj_metadata_quiet [OF assms(1), of E p mek chk] by blast
  have st: "io_stat p s = (s, Inr ())" using True by (simp add: io_pure(6) [OF assms(1)] if_P)
  have pr: "prior = (case r of Inr m \<Rightarrow> Some (md_created m) | Inl _ \<Rightarrow> None)"
    using assms(2) by (simp add: stat_existing_def read_obj_created_def sbind_def stry_def sret_def st r(1))
  show ?thesis
  proof (cases r)
    case (Inl e)
    then have "\<not> (\<exists>c. ft_file s p = Some c \<and> meta_of_file E mek chk p c = Some m)" for m using r(2) [of m] by simp
    then show ?thesis using pr Inl by (cases "ft_file s p") auto
  next
    case (Inr m)
    then obtain c where "ft_file s p = Some c" "meta_of_file E mek chk p c = Some m" using r(2) [of m] by auto
    then show ?thesis using pr Inr by simp
  qed
next
  case False
  then show ?thesis
    using assms(2) by (auto simp: stat_existing_def comp_simps io_pure [OF assms(1)] split: io_error.splits)
qed

lemma put_InrE:
  assumes "put E nonce b k data opts s = (s', Inr ow)" and "path_key (fs_mek s) = Some pk" and "hmac_len (fe_prims E)"
  defines "obj \<equiv> obj_path_for (fe_prims E) (fs_base_path s) pk b k"
  obtains mek chk prior json meta missing where "validate_bucket E b = Inr ()" "validate_key k = Inr ()" "dm_get (fs_locks s') (b, k) = None"
    "fs_mek s' = fs_mek s" "fs_base_path s' = fs_base_path s"
    "object_metadata_key (fs_mek s) = Some mek" "container_header_key (fs_mek s) = Some chk"
    "fe_ser E (put_metadata E (now_nanos s) prior obj b k data opts) = Inr json"
    "encrypt_meta (fe_prims E) nonce mek json (encode_object_id (fe_prims E) pk b k) META_PAD_BLOCK = Inr meta"
    "ft_file s' obj = Some (cut_record missing (obj_record E chk (encode_object_id (fe_prims E) pk b k) (po_sync opts) data meta))"
    "missing \<le> HEADER_SIZE" "ft_faults s = [] \<Longrightarrow> missing = 0"
    "ft_faults s = [] \<Longrightarrow> prior = Option.bind (ft_file s obj) (\<lambda>c. map_option md_created (meta_of_file E mek chk obj c))"
  using assms(1,2)
proof (cases rule: put_parts)
  case (locked t)
  note lk = locked(8) [folded obj_def]
  have v: "validate_bucket E b = Inr ()" "validate_key k = Inr ()" using locked(1) by (auto simp: validated_pure)
  have fr: "frames (\<lambda>_. False) (put_locked E nonce obj b k data opts)" by (rule put_locked_frames) simp_all
  note w = with_lock_frame [OF lk fr]
  from lk show thesis
  proof (cases rule: with_lock_cases)
    case (held u)
    let ?t = "t\<lparr>fs_locks := dm_insert (b, k) (ft_now t) (fs_locks t)\<rparr>"
    have nn: "now_nanos ?t = now_nanos s" using locked(5) by (simp add: now_nanos_def)
    have oid: "object_id_from_path obj = Some (encode_object_id (fe_prims E) pk b k)"
      unfolding obj_def by (rule obj_path_facts(1) [OF assms(3)])
    obtain mek chk prior json meta missing s1 where r: "object_metadata_key (fs_mek ?t) = Some mek" "container_header_key (fs_mek ?t) = Some chk"
      "fe_ser E (put_metadata E (now_nanos ?t) prior obj b k data opts) = Inr json"
      "encrypt_meta (fe_prims E) nonce mek json (encode_object_id (fe_prims E) pk b k) META_PAD_BLOCK = Inr meta"
      "ft_file u obj = Some (cut_record missing (obj_record E chk (encode_object_id (fe_prims E) pk b k) (po_sync opts) data meta))"
      "stat_existing E ''put'' b k obj mek chk ?t = (s1, Inr (ow, prior))" "missing \<le> HEADER_SIZE" "ft_faults ?t = [] \<Longrightarrow> missing = 0"
      by (rule put_locked_Inr [OF held(2) oid assms(3)]) blast
    have quiet: "prior = Option.bind (ft_file s obj) (\<lambda>c. map_option md_created (meta_of_file E mek chk obj c))" if "ft_faults s = []"
      using stat_existing_quiet [OF _ r(6)] locked(7) [OF that] locked(2) by (simp add: view_locks)
    show thesis
      by (rule that [of mek chk prior json meta missing])
        (use v held w r nn locked quiet in \<open>auto simp: view_locks release_acquired\<close>)
  qed simp
qed simp

text \<open>What the backend relies on of the JSON codec: what was written parses back, and fits the 32-bit length
  fields.\<close>

definition json_ok :: "fs_env \<Rightarrow> bool" where
  "json_ok E \<longleftrightarrow> (\<forall>m json. fe_ser E m = Inr json \<longrightarrow> fe_de E json = Inr m \<and> length json < 2 ^ 31)"

lemma meta_sealed:
  assumes "aead_correct P" and "length nonce = 12" and "length json < 2 ^ 31" and "encrypt_meta P nonce mek json oid META_PAD_BLOCK = Inr meta"
  shows "decrypt_meta P mek meta oid = Inr json" and "length meta < 2 ^ 31 + 2 ^ 14"
proof -
  have b: "length json + META_PAD_BLOCK + 4 < 2 ^ 32" using assms(3) by (simp add: META_PAD_BLOCK_def)
  have "decrypt_meta P mek meta oid = Inr json \<and> length meta < 2 ^ 31 + 2 ^ 14"
  proof (rule meta_round_trip [OF assms(1,2) b, of mek oid])
    fix blob
    assume a: "encrypt_meta P nonce mek json oid META_PAD_BLOCK = Inr blob" "decrypt_meta P mek blob oid = Inr json"
      "length blob = 29 + (if 1 < META_PAD_BLOCK then next_multiple_of (4 + length json) META_PAD_BLOCK else 4 + length json)"
    have "next_multiple_of (4 + length json) 4096 < 4 + length json + 4096" by (rule next_multiple_of_less) simp
    then show ?thesis using a assms(3,4) by (simp add: META_PAD_BLOCK_def)
  qed
  then show "decrypt_meta P mek meta oid = Inr json" and "length meta < 2 ^ 31 + 2 ^ 14" by auto
qed

subsection \<open>Ranges, deletion and labels\<close>

lemma open_record_of_get:
  assumes "ft_faults s = []" and "get E b k s = (s, Inr d)"
  obtains p c h where "\<forall>op. open_record E op b k s = (s, Inr (p, c, h))" and "unat (hd_data_offset h) + unat (hd_data_len h) \<le> length c"
    and "d = take (unat (hd_data_len h)) (drop (unat (hd_data_offset h)) c)" and "check_total_len h (of_nat (length c)) = Inr ()"
proof -
  obtain pk chk c where g: "validate_bucket E b = Inr ()" "validate_key k = Inr ()" "dm_get (fs_locks s) (b, k) = None"
    "path_key (fs_mek s) = Some pk" "container_header_key (fs_mek s) = Some chk"
    "ft_file s (obj_path_for (fe_prims E) (fs_base_path s) pk b k) = Some c"
    "data_of_file E chk (obj_path_for (fe_prims E) (fs_base_path s) pk b k) c = Some d"
    using assms(2) unfolding get_Inr [OF assms(1)] by auto
  obtain h where h: "header_of_file E chk (obj_path_for (fe_prims E) (fs_base_path s) pk b k) c = Some h"
    "unat (hd_data_offset h) + unat (hd_data_len h) \<le> length c" "d = take (unat (hd_data_len h)) (drop (unat (hd_data_offset h)) c)"
    using g(7) by (auto simp: data_of_file_def bind_eq_Some_conv split: if_splits)
  show thesis
    by (rule that [of "obj_path_for (fe_prims E) (fs_base_path s) pk b k" c h])
      (use g h in \<open>auto simp: open_record_Inr [OF assms(1)] header_of_file_Some\<close>)
qed

lemma open_record_path:
  assumes "open_record E op b k s = (t, Inr (p, c, h))" and "path_key (fs_mek s) = Some pk"
  shows "p = obj_path_for (fe_prims E) (fs_base_path s) pk b k"
  using assms unfolding open_record_def Let_def
  by (auto simp: sbind_Inr_iff validated_pure key_path_pure look_pure require_Inr)

lemma remove_file_cases:
  assumes "io_remove_file p s = (s', r)"
  shows "(case r of Inl e \<Rightarrow> ft_file s' p = ft_file s p \<and> (e = NoSuchFile \<longrightarrow> ft_file s p = None) | Inr u \<Rightarrow> ft_file s' p = None)"
  using assms unfolding io_remove_file_def io_call_def step_call_def
  by (auto split: list.splits option.splits if_splits prod.splits)

subsection \<open>Labels\<close>

lemma rewrite_labels_frames:
  "\<not> Q obj \<Longrightarrow> \<not> Q (with_extension obj ''labels.tmp'') \<Longrightarrow> frames Q (rewrite_labels E nonce mek chk obj b k ls)"
  unfolding rewrite_labels_def Let_def by (intro frame_rules)

lemma rewrite_labels_clean:
  assumes "with_extension obj ''labels.tmp'' \<noteq> obj"
  shows "fails_clean obj (rewrite_labels E nonce mek chk obj b k ls)"
proof -
  let ?Q = "\<lambda>q. q = obj"
  have fin: "fails_clean obj (sbind (smap_err h (io_rename tmp obj)) (\<lambda>_. sbind (stry m) (\<lambda>_. sret ())))"
    for h :: "io_error \<Rightarrow> error" and tmp and m :: "unit fs_comp"
    by (rule clean_then) (intro clean_rules)+
  have fail: "fails_clean obj (sfail e)" for e :: error by (rule clean_frames) (intro frame_rules)
  have br: "fails_clean obj m \<Longrightarrow> fails_clean obj n \<Longrightarrow> fails_clean obj (if c then m else n)" for c and m n :: "unit fs_comp" by simp
  show ?thesis
    unfolding rewrite_labels_def Let_def
    by (intro clean_sbind br fail fin frame_rules) (simp_all add: assms)
qed

lemma relabelled_reads:
  assumes P: "hmac_len (fe_prims E)" and hd: "header_of_file E chk p c = Some h" and dt: "data_of_file E chk p c = Some d"
    and oid: "object_id_from_path p = Some oid" and len: "length c < 2 ^ 63" "length new_meta < 2 ^ 32"
  defines "h' \<equiv> h\<lparr>hd_meta_len := of_nat (length new_meta)\<rparr>"
  defines "c' \<equiv> relabelled c h new_meta (encode_header (fe_prims E) h' chk oid)"
  shows "header_of_file E chk p c' = Some h'" and "data_of_file E chk p c' = Some d"
    and "meta_of_file E mek chk p c' = (case decrypt_meta (fe_prims E) mek new_meta oid of
      Inl _ \<Rightarrow> None | Inr json \<Rightarrow> (case fe_de E json of Inr m \<Rightarrow> Some m | Inl _ \<Rightarrow> None))"
proof -
  define ds where "ds = unat (hd_data_offset h)"
  define enc where "enc = encode_header (fe_prims E) h' chk oid"
  have le: "length enc = 64" using length_encode_header [OF P] by (simp add: enc_def)
  have h: "decode_header (fe_prims E) (take HEADER_SIZE c) chk oid = Inr h" "check_total_len h (of_nat (length c)) = Inr ()" "64 \<le> length c"
    using hd oid by (auto simp: header_of_file_Some HEADER_SIZE_def)
  have l64: "length (take HEADER_SIZE c) = 64" using h(3) by (simp add: HEADER_SIZE_def)
  note fl = decode_header_fields(1,2) [OF l64 h(1)]
  have ds: "64 \<le> ds" using fl(2) by (simp add: ds_def word_le_nat_alt MIN_DATA_OFFSET_def HEADER_SIZE_def)
  have mo: "unat (meta_offset h) = ds + unat (hd_data_len h)" using total_len_meta_offset [OF h(2)] by (simp add: ds_def)
  have d: "ds + unat (hd_data_len h) \<le> length c" "d = take (unat (hd_data_len h)) (drop ds c)"
    using dt hd by (auto simp: data_of_file_def ds_def split: if_splits)
  have ld: "length d = unat (hd_data_len h)" using d by simp
  have c': "c' = enc @ replicate (ds - 64) 0 @ d @ new_meta @ enc"
    using ds le mo d(2) by (simp add: c'_def relabelled_def Let_def flip: enc_def ds_def)
  have um: "unat (of_nat (length new_meta) :: u32) = length new_meta" using len(2) by (simp add: unat_of_nat)
  have lc: "length c' = ds + length d + length new_meta + 64" using ds by (simp add: c' le)
  have "length c' < 2 ^ 64" using lc d(1) ld len by simp
  then have "unat (of_nat (length c') :: u64) = length c'" by (simp add: unat_of_nat)
  then have total: "checked_total_len h' = Some (of_nat (length c'))"
    unfolding checked_total_len_Some using lc ld um by (simp add: h'_def HEADER_SIZE_def flip: ds_def)
  have dec: "decode_header (fe_prims E) enc chk oid = Inr h'"
    using fl by (simp add: enc_def decode_encoded [OF P] h'_def MIN_DATA_OFFSET_def HEADER_SIZE_def split: if_splits)
      (auto simp: word_le_nat_alt)
  show hd': "header_of_file E chk p c' = Some h'"
    unfolding header_of_file_Some using oid dec le total by (auto simp: c' HEADER_SIZE_def check_total_len_def)
  have off: "unat (hd_data_offset h') = ds" "unat (hd_data_len h') = length d" "unat (hd_meta_len h') = length new_meta"
    using ld um by (simp_all add: h'_def ds_def)
  have sl: "drop ds c' = d @ new_meta @ enc" using ds by (simp add: c' le)
  show "data_of_file E chk p c' = Some d"
    unfolding data_of_file_def hd' using off sl lc by simp
  have "unat (meta_offset h') = ds + length d"
    using mo ld by (simp add: h'_def meta_offset_def)
  moreover have "drop (ds + length d) c' = new_meta @ enc" using ds by (simp add: c' le)
  ultimately show "meta_of_file E mek chk p c' = (case decrypt_meta (fe_prims E) mek new_meta oid of
      Inl _ \<Rightarrow> None | Inr json \<Rightarrow> (case fe_de E json of Inr m \<Rightarrow> Some m | Inl _ \<Rightarrow> None))"
    unfolding meta_of_file_def hd' using off lc oid by simp
qed

lemma rewrite_labels_Inr:
  assumes "rewrite_labels E nonce mek chk obj b k ls s = (s', Inr ())" and oid: "object_id_from_path obj = Some oid"
    and c: "ft_file s obj = Some c" and m: "meta_of_file E mek chk obj c = Some old"
  obtains h json new_meta where "header_of_file E chk obj c = Some h"
    "fe_ser E (old\<lparr>md_labels := ls, md_modified := now_nanos s\<rparr>) = Inr json"
    "encrypt_meta (fe_prims E) nonce mek json oid META_PAD_BLOCK = Inr new_meta"
    "ft_file s' obj = Some (relabelled c h new_meta (encode_header (fe_prims E) (h\<lparr>hd_meta_len := of_nat (length new_meta)\<rparr>) chk oid))"
proof -
  let ?tmp = "with_extension obj ''labels.tmp''"
  let ?put = "\<lambda>new. sbind (io_open_trunc ?tmp) (\<lambda>_. io_write_all ?tmp 0 new) :: (fs_storage, io_error, unit) comp"
  have br: "(if q then sfail e else f) t = (u, Inr x) \<longleftrightarrow> \<not> q \<and> f t = (u, Inr x)" for q e and f :: "unit fs_comp" and t u x
    by (simp add: sfail_def)
  have op: "io_open obj s = (t, Inr f) \<Longrightarrow> f = c \<and> now_nanos t = now_nanos s" for t f
    using framesD(1) [OF frames_reads(4), of obj s] c unfolding io_open_def io_call_def
    by (elim step_call_InrE) (auto simp: now_nanos_def split: option.splits)
  obtain h json0 where h: "header_of_file E chk obj c = Some h"
    "decrypt_meta (fe_prims E) mek (take (unat (hd_meta_len h)) (drop (unat (meta_offset h)) c)) oid = Inr json0" "fe_de E json0 = Inr old"
    using m oid by (auto simp: meta_of_file_Some)
  have dec: "decode_header (fe_prims E) (take HEADER_SIZE c) chk oid = Inr h" "check_total_len h (of_nat (length c)) = Inr ()"
    "\<not> length c < HEADER_SIZE"
    using h(1) oid by (auto simp: header_of_file_Some)
  let ?new = "\<lambda>new_meta. relabelled c h new_meta (encode_header (fe_prims E) (h\<lparr>hd_meta_len := of_nat (length new_meta)\<rparr>) chk oid)"
  obtain t json new_meta s1 s2 s3 q where r: "io_open obj s = (t, Inr c)"
    "fe_ser E (old\<lparr>md_labels := ls, md_modified := now_nanos t\<rparr>) = Inr json"
    "encrypt_meta (fe_prims E) nonce mek json oid META_PAD_BLOCK = Inr new_meta"
    "io_open_trunc ?tmp t = (s1, Inr ())" "io_write_all ?tmp 0 (?new new_meta) s1 = (s2, Inr ())"
    "io_rename ?tmp obj s2 = (s3, Inr ())"
    "stry (ix_call (\<lambda>fault ix. upsert (fe_ser E) (fe_de E) fault ix (old\<lparr>md_labels := ls, md_modified := now_nanos t\<rparr>) Durable)) s3
       = (s', Inr q :: error + (error + unit))"
  proof -
    obtain t f where t: "io_open obj s = (t, Inr f)"
      using assms(1) unfolding rewrite_labels_def Let_def sbind_Inr_iff [of "smap_err _ (io_open obj)"] by auto
    have f: "f = c" using op [OF t] by simp
    have s: "smap_err e (io_open obj) s = (t, Inr c)" for e using t f by simp
    from assms(1) show thesis
      unfolding rewrite_labels_def Let_def sbind_run [of "smap_err _ (io_open obj)", OF s]
      by (auto simp: br oid dec h look_pure sbind_Inr_iff sret_def intro!: that [OF t [unfolded f]])
  qed
  have "ft_file s2 ?tmp = Some (?new new_meta)"
    using open_trunc_Inr [OF r(4)] write_all_Inr [OF r(5), of "[]"] by (simp add: write_at_def)
  moreover have "ft_file s' obj = ft_file s3 obj"
    using framesD(5) [OF frames_wrap(2) [OF frames_index(1)] r(7), of "\<lambda>_. True"] by simp
  ultimately show thesis using that [OF h(1)] op [OF r(1)] r(2,3) rename_Inr [OF r(6)] by simp
qed

end
