(* ===== verification/Filesystem_Layout.thy ===== *)
theory Filesystem_Layout
  imports Filesystem_Laws
begin

text \<open>
  The shape of the tree below the base path, kept by every operation, and what follows from it: without
  I/O failures a put succeeds.
\<close>

subsection \<open>Runs without failures\<close>

lemma write_runs:
  assumes "ft_faults s = []"
  shows "\<forall>q \<in> set (path_prefixes p). ft_file s q = None \<Longrightarrow> io_create_dir_all p s = (add_dirs (path_prefixes p) s, Inr ())"
    and "\<not> ft_is_dir s p \<Longrightarrow> ft_is_dir s (butlast p) \<Longrightarrow> io_open_trunc p s = (put_file p [] s, Inr ())"
    and "io_write_all p pos bs s = (write_through p pos bs s, Inr ())"
    and "ft_file s src \<noteq> None \<Longrightarrow> \<not> ft_is_dir s p \<Longrightarrow> ft_is_dir s (butlast p) \<Longrightarrow>
      \<exists>s'. io_rename src p s = (s', Inr ()) \<and> ft_faults s' = [] \<and> ft_dirs s' = ft_dirs s"
  using assms
  by (auto simp: io_create_dir_all_def io_open_trunc_def io_write_all_def io_rename_def step_call_run io_call_run supd_def
      list_ex_iff ft_file_def split: option.splits)

lemma write_through_fields [simp]:
  "ft_faults (write_through p pos bs s) = ft_faults s" "ft_dirs (write_through p pos bs s) = ft_dirs s"
  "ft_file (write_through p pos bs s) q = None \<longleftrightarrow> ft_file s q = None"
  by (auto simp: write_through_def split: option.splits)

lemma write_last_run: "ft_faults s = [] \<Longrightarrow> io_write_last p pos bs s = (write_through p pos bs s, Inr ())"
  by (simp add: io_write_last_def sbind_def stry_def sret_def write_runs(3))

lemma write_object_file_run:
  assumes "ft_faults s = []" and "\<not> ft_is_dir s tmp" "\<not> ft_is_dir s obj" "ft_is_dir s (butlast tmp)" "ft_is_dir s (butlast obj)"
  shows "\<exists>s'. write_object_file E b k tmp obj h d m sync s = (s', Inr ()) \<and> ft_faults s' = []"
proof -
  let ?W = "\<lambda>p bs s. write_through tmp p bs s"
  let ?s = "?W (length h + length d + length m) h (?W (length h + length d) m (?W (length h) d (?W 0 h (put_file tmp [] s))))"
  have q: "ft_faults ?s = []" "ft_dirs ?s = ft_dirs s" "ft_file ?s tmp \<noteq> None" using assms(1) by (simp_all del: not_None_eq)
  have "(if sync = Durable then smap_err (io_err E b k ''put'' ''fdatasync: '') io_sync else sret ()) ?s = (?s, Inr ())"
    by (simp add: io_sync_def io_call_run [OF q(1)] comp_simps)
  moreover obtain s' where "io_rename tmp obj ?s = (s', Inr ())" "ft_faults s' = []"
    using write_runs(4) [OF q(1,3), of obj] q(2) assms(3,5) by (auto simp: ft_is_dir_def)
  ultimately show ?thesis
    using assms unfolding write_object_file_def Let_def
    by (simp add: sbind_run [of "smap_err _ _"] write_runs(2,3) write_last_run sbind_run [of "if _ then _ else _"])
qed

text \<open>The error of the trailer's write is lost: after \<open>n\<close> bytes of it the put goes on and renames the file into place.\<close>

lemma fault_writes:
  "ft_faults s = None # fs \<Longrightarrow> io_write_all p pos bs s = (write_through p pos bs (s\<lparr>ft_faults := fs\<rparr>), Inr ())"
  "ft_faults s = Some (msg, n) # fs \<Longrightarrow> io_write_last p pos bs s = (write_through p pos (take n bs) (s\<lparr>ft_faults := fs\<rparr>), Inr ())"
  by (simp_all add: io_write_last_def io_write_all_def step_call_def supd_def sbind_def stry_def sret_def)

lemma trailer_error_lost:
  assumes "ft_faults s = [None, None, None, None, Some (msg, n)]" and "\<not> ft_is_dir s tmp" "\<not> ft_is_dir s obj"
    "ft_is_dir s (butlast tmp)" "ft_is_dir s (butlast obj)"
  shows "\<exists>s'. write_object_file E b k tmp obj h d m sync s = (s', Inr ()) \<and> ft_file s' obj = Some (h @ d @ m @ take n h)"
proof -
  define s1 where "s1 = put_file tmp [] (s\<lparr>ft_faults := [None, None, None, Some (msg, n)]\<rparr>)"
  define s2 where "s2 = write_through tmp 0 h (s1\<lparr>ft_faults := [None, None, Some (msg, n)]\<rparr>)"
  define s3 where "s3 = write_through tmp (length h) d (s2\<lparr>ft_faults := [None, Some (msg, n)]\<rparr>)"
  define s4 where "s4 = write_through tmp (length h + length d) m (s3\<lparr>ft_faults := [Some (msg, n)]\<rparr>)"
  define s5 where "s5 = write_through tmp (length h + length d + length m) (take n h) (s4\<lparr>ft_faults := []\<rparr>)"
  note defs = s1_def s2_def s3_def s4_def s5_def
  have upd: "ft_file (t\<lparr>ft_faults := fs\<rparr>) = ft_file t" for t :: fs_storage and fs by (simp add: ft_file_def fun_eq_iff)
  have o: "io_open_trunc tmp s = (s1, Inr ())" using assms by (simp add: io_open_trunc_def io_call_def step_call_def s1_def ft_is_dir_def)
  have q: "ft_faults s1 = [None, None, None, Some (msg, n)]" "ft_faults s2 = [None, None, Some (msg, n)]"
    "ft_faults s3 = [None, Some (msg, n)]" "ft_faults s4 = [Some (msg, n)]" "ft_faults s5 = []" "ft_dirs s5 = ft_dirs s"
    by (simp_all add: defs)
  have c1: "ft_file s1 tmp = Some []" by (simp add: s1_def)
  have c2: "ft_file s2 tmp = Some h" using c1 write_at_end [of "[]" h] by (simp add: s2_def ft_file_write_through upd)
  have c3: "ft_file s3 tmp = Some (h @ d)" using c2 write_at_end [of h d] by (simp add: s3_def ft_file_write_through upd)
  have c4: "ft_file s4 tmp = Some (h @ d @ m)" using c3 write_at_end [of "h @ d" m] by (simp add: s4_def ft_file_write_through upd)
  have c5: "ft_file s5 tmp = Some (h @ d @ m @ take n h)"
    using c4 write_at_end [of "h @ d @ m" "take n h"] by (simp add: s5_def ft_file_write_through upd add.assoc)
  have sy: "(if sync = Durable then smap_err (io_err E b k ''put'' ''fdatasync: '') io_sync else sret ()) s5 = (s5, Inr ())"
    by (simp add: io_sync_def io_call_run [OF q(5)] comp_simps)
  obtain s' where s': "io_rename tmp obj s5 = (s', Inr ())"
    using write_runs(4) [OF q(5), of tmp obj] q(6) c5 assms(3,5) by (auto simp: ft_is_dir_def)
  have "write_object_file E b k tmp obj h d m sync s = (s', Inr ())"
    unfolding write_object_file_def Let_def
    by (simp add: sbind_run [of "smap_err _ _"] o fault_writes(1) [OF q(1)] fault_writes(1) [OF q(2)] fault_writes(1) [OF q(3)] fault_writes(2) [OF q(4)]
        s2_def [symmetric] s3_def [symmetric] s4_def [symmetric] s5_def [symmetric] sbind_run [of "if _ then _ else _", OF sy] s')
  then show ?thesis using rename_Inr [OF s'] c5 by (auto split: if_splits)
qed

subsection \<open>The layout\<close>

text \<open>Below the base path, a bucket directory holds its configuration file and two levels of shard directories with
  two-character names, and files lie in the second; nothing on the way to the base path is a file. The one file allowed
  directly under the base path is that of the index, at the name the server gives it unless it is configured otherwise.\<close>

definition INDEX_FILE :: string where "INDEX_FILE = ''_y2q_index.redb''"

definition file_place :: "string list \<Rightarrow> bool" where
  "file_place rest \<longleftrightarrow> length rest = 2 \<and> rest ! 1 \<in> {BUCKET_CONFIG_FILE, ''.y2q-bucket.json.tmp''} \<or> length rest = 4
     \<or> rest = [INDEX_FILE]"

definition dir_place :: "string list \<Rightarrow> bool" where
  "dir_place rest \<longleftrightarrow> length rest \<le> 3 \<and> (2 \<le> length rest \<longrightarrow> length (rest ! 1) = 2) \<and> (rest \<noteq> [] \<longrightarrow> rest ! 0 \<noteq> INDEX_FILE)"

definition layout_at :: "path \<Rightarrow> 's file_tree_scheme \<Rightarrow> bool" where
  "layout_at B s \<longleftrightarrow> (\<forall>p. ft_file s p \<noteq> None \<longrightarrow> \<not> prefix p B \<and> (\<forall>rest. p = B @ rest \<longrightarrow> file_place rest))
     \<and> (\<forall>rest. ft_is_dir s (B @ rest) \<longrightarrow> dir_place rest)"

definition layout_ok :: "fs_storage \<Rightarrow> bool" where
  "layout_ok s \<longleftrightarrow> layout_at (fs_base_path s) s"

lemma places_disjoint: "dir_place rest \<Longrightarrow> \<not> file_place rest"
  by (auto simp: dir_place_def file_place_def BUCKET_CONFIG_FILE_def)

text \<open>What the backend itself creates there, by name: in a bucket directory named by 64 hexadecimal digits, the configuration and its
  temporary file, and below the two shard directories that repeat the first four digits of an object id, the object file of that id and
  the temporary files of a put and of a relabelling.\<close>

definition hex_char :: "char \<Rightarrow> bool" where
  "hex_char x \<longleftrightarrow> x \<in> set ''0123456789abcdef''"

definition hex_name :: "nat \<Rightarrow> string \<Rightarrow> bool" where
  "hex_name n c \<longleftrightarrow> length c = n \<and> list_all hex_char c"

definition config_file :: "string list \<Rightarrow> bool" where
  "config_file rest \<longleftrightarrow> length rest = 2 \<and> hex_name 64 (rest ! 0) \<and> rest ! 1 \<in> {BUCKET_CONFIG_FILE, ''.y2q-bucket.json.tmp''}"

definition object_file :: "string list \<Rightarrow> bool" where
  "object_file rest \<longleftrightarrow> length rest = 4 \<and> hex_name 64 (rest ! 0) \<and> hex_name 64 (take 64 (rest ! 3))
     \<and> rest ! 1 = take 2 (rest ! 3) \<and> rest ! 2 = take 2 (drop 2 (rest ! 3))
     \<and> drop 64 (rest ! 3) \<in> {''.obj'', ''.tmp'', ''.labels.tmp''}"

definition own_file :: "string list \<Rightarrow> bool" where
  "own_file rest \<longleftrightarrow> config_file rest \<or> object_file rest"

definition own_dir :: "string list \<Rightarrow> bool" where
  "own_dir rest \<longleftrightarrow> length rest \<le> 3 \<and> list_all2 hex_name (take (length rest) [64, 2, 2]) rest"

lemma own_file_place: "own_file rest \<Longrightarrow> file_place rest"
  by (auto simp: own_file_def config_file_def object_file_def file_place_def)

lemma own_dir_place: "own_dir rest \<Longrightarrow> dir_place rest"
  by (cases rest; cases "tl rest"; cases "tl (tl rest)")
    (auto simp: own_dir_def dir_place_def hex_name_def INDEX_FILE_def)

lemma own_dir_prefix: "own_dir rest \<Longrightarrow> prefix r rest \<Longrightarrow> own_dir r"
  by (auto simp: own_dir_def prefix_def list_all2_conv_all_nth nth_append)

lemma hex_to_hex: "hex_name (2 * length bs) (to_hex bs)"
proof -
  have "list_all (\<lambda>n. hex_char (hex_digit n)) [0..<16]" by code_simp
  then have "n < 16 \<Longrightarrow> hex_char (hex_digit n)" for n by (simp add: list_all_iff)
  moreover have "unat (b :: byte) div 16 < 16" for b using unat_byte_less [of b] by linarith
  ultimately have "hex_char (hex_digit (unat b div 16))" "hex_char (hex_digit (unat b mod 16))" for b :: byte by simp_all
  then show ?thesis by (simp add: hex_name_def to_hex_def [of bs] list_all_iff length_to_hex [unfolded to_hex_def])
qed

lemma hex_names:
  assumes "hmac_len P"
  shows "hex_name 64 (encode_bucket_dir P pk b)" "hex_name 64 (encode_object_id P pk b k)"
proof -
  have "hex_name 64 (to_hex (prf_hmac P pk m))" for m
    using hex_to_hex [of "prf_hmac P pk m"] assms by (simp add: prf_hmac_def hmac_len_def)
  then show "hex_name 64 (encode_bucket_dir P pk b)" "hex_name 64 (encode_object_id P pk b k)"
    unfolding encode_bucket_dir_def encode_object_id_def by blast+
qed

lemma hex_name_part: "hex_name n c \<Longrightarrow> i + j \<le> n \<Longrightarrow> hex_name j (take j (drop i c))"
  by (auto simp: hex_name_def list_all_iff dest: in_set_takeD in_set_dropD)

lemma own_obj_places:
  assumes "hmac_len P"
  shows "\<exists>rest. obj_path_for P B pk b k = B @ rest \<and> own_file rest"
    and "\<exists>rest. with_extension (obj_path_for P B pk b k) ''tmp'' = B @ rest \<and> own_file rest"
    and "\<exists>rest. with_extension (obj_path_for P B pk b k) ''labels.tmp'' = B @ rest \<and> own_file rest"
    and "\<exists>rest. butlast (obj_path_for P B pk b k) = B @ rest \<and> own_dir rest"
  using object_id_facts(1) [OF assms, of pk b k] obj_path_facts(2) [OF assms, of _ B pk b k] obj_path_facts(3) [OF assms, of B pk b k]
    hex_names [OF assms, of pk b] hex_name_part [OF hex_names(2) [OF assms, of pk b k], of 0 2] hex_name_part [OF hex_names(2) [OF assms, of pk b k], of 2 2]
  by (simp_all add: obj_path_eq [OF assms] obj_dir_def bucket_dir_path_def Let_def own_file_def object_file_def own_dir_def numeral_3_eq_3)

lemma obj_places:
  assumes "hmac_len P"
  shows "\<exists>rest. obj_path_for P B pk b k = B @ rest \<and> file_place rest"
    and "\<exists>rest. with_extension (obj_path_for P B pk b k) ''tmp'' = B @ rest \<and> file_place rest"
    and "\<exists>rest. butlast (obj_path_for P B pk b k) = B @ rest \<and> dir_place rest"
  using own_obj_places [OF assms, of B pk b k] own_file_place own_dir_place by blast+

lemma prefixes_below: "q \<in> set (path_prefixes (B @ rest)) \<Longrightarrow> prefix q B \<or> (\<exists>r. q = B @ r \<and> prefix r rest)"
proof -
  assume "q \<in> set (path_prefixes (B @ rest))"
  then have "prefix q (B @ rest)" by (auto simp: path_prefixes_def take_is_prefix simp del: take_append)
  then show ?thesis by (simp add: prefix_append)
qed

lemma path_prefixes_self: "p \<noteq> [] \<Longrightarrow> p \<in> set (path_prefixes p)"
  by (cases p rule: rev_cases) (auto simp: path_prefixes_def image_iff intro!: bexI [of _ "length p - 1"])

lemma path_prefixes_proper: "q \<in> set (path_prefixes p) \<Longrightarrow> q \<noteq> p \<Longrightarrow> q \<in> set (path_prefixes (butlast p))"
  by (cases p rule: rev_cases) (auto simp: path_prefixes_def image_iff less_Suc_eq)

lemma dir_place_prefix: "dir_place rest \<Longrightarrow> prefix r rest \<Longrightarrow> dir_place r"
  by (auto simp: dir_place_def prefix_def nth_append)

lemma layout_not_file:
  assumes "layout_at B s" and "dir_place rest" and "q \<in> set (path_prefixes (B @ rest))"
  shows "ft_file s q = None"
  using prefixes_below [OF assms(3)] assms(1) places_disjoint dir_place_prefix [OF assms(2)]
  by (auto simp: layout_at_def)

lemma layout_not_dir: "layout_at B s \<Longrightarrow> file_place rest \<Longrightarrow> \<not> ft_is_dir s (B @ rest)"
  using places_disjoint by (auto simp: layout_at_def)

text \<open>A put in a tree with the layout.\<close>

lemma put_run:
  assumes "aead_correct (fe_prims E)" and "hmac_len (fe_prims E)" and "length nonce = 12"
    and "layout_ok s" and "ft_faults s = []" and "validate_bucket E b = Inr ()" and "validate_key k = Inr ()"
    and "dm_get (fs_locks s) (b, k) = None" and "fs_mek s = install (fe_prims E) nk"
    and "\<forall>prior. \<exists>json. fe_ser E (put_metadata E (now_nanos s) prior
      (obj_path_for (fe_prims E) (fs_base_path s) (derive_path_key (fe_prims E) nk) b k) b k data opts) = Inr json \<and> length json < 2 ^ 31"
  shows "\<exists>s'. put E nonce b k data opts s
    = (s', Inr (ft_file s (obj_path_for (fe_prims E) (fs_base_path s) (derive_path_key (fe_prims E) nk) b k) \<noteq> None)) \<and> ft_faults s' = []"
proof -
  let ?P = "fe_prims E"
  define obj where "obj = obj_path_for ?P (fs_base_path s) (derive_path_key ?P nk) b k"
  define tmp where "tmp = with_extension obj ''tmp''"
  note keys = install_keys [OF assms(2), of nk, folded assms(9)]
  note L = assms(4) [unfolded layout_ok_def]
  note pl = obj_places [OF assms(2), of "fs_base_path s" "derive_path_key ?P nk" b k, folded obj_def, folded tmp_def]
  have bl: "butlast tmp = butlast obj"
    using obj_path_facts(2) [OF assms(2), of "''tmp''" "fs_base_path s" "derive_path_key ?P nk" b k]
    by (simp add: tmp_def obj_def obj_path_facts(3) [OF assms(2)])
  define s1 where "s1 = add_dirs (path_prefixes (butlast obj)) s"
  have mk: "io_create_dir_all (butlast obj) s = (s1, Inr ())"
    unfolding s1_def using pl(3) layout_not_file [OF L] by (intro write_runs(1) [OF assms(5)]) auto
  have "butlast obj \<noteq> []" by (simp add: obj_def obj_path_eq [OF assms(2)] obj_dir_def Let_def butlast_append)
  from path_prefixes_self [OF this] have d: "ft_is_dir s1 (butlast obj)" by (auto simp: s1_def add_dirs_def ft_is_dir_def)
  have nd: "\<not> ft_is_dir s1 q" if place: "\<exists>rest. q = fs_base_path s @ rest \<and> file_place rest" for q
  proof -
    obtain rest where rest: "q = fs_base_path s @ rest" "file_place rest" using place by auto
    then have "rest \<noteq> []" by (auto simp: file_place_def)
    then have "q \<notin> set (path_prefixes (butlast obj))"
      using rest pl(3) prefixes_below [of q "fs_base_path s"] places_disjoint dir_place_prefix by (auto simp: prefix_def)
    then show ?thesis using that layout_not_dir [OF L] by (auto simp: s1_def add_dirs_def ft_is_dir_def)
  qed
  define s2 where "s2 = s1\<lparr>fs_locks := dm_insert (b, k) (ft_now s1) (fs_locks s1)\<rparr>"
  have lk: "fs_locks s1 = fs_locks s" "fs_mek s1 = fs_mek s" "ft_file s1 = ft_file s" "ft_faults s1 = []"
    using assms(5) by (simp_all add: s1_def add_dirs_def fs_mek_def ft_file_def fun_eq_iff)
  have q2: "ft_faults s2 = []" "fs_mek s2 = fs_mek s" "ft_file s2 = ft_file s" "ft_is_dir s2 = ft_is_dir s1"
    using lk by (simp_all add: s2_def fs_mek_def ft_file_def ft_is_dir_def fun_eq_iff)
  have nn: "now_nanos s2 = now_nanos s" by (simp add: s2_def s1_def add_dirs_def now_nanos_def)
  have oid: "object_id_from_path obj = Some (encode_object_id ?P (derive_path_key ?P nk) b k)"
    unfolding obj_def by (rule obj_path_facts(1) [OF assms(2)])
  obtain prior where st: "\<And>mek chk. stat_existing E ''put'' b k obj mek chk s2 = (s2, Inr (ft_file s obj \<noteq> None, prior mek chk))"
  proof (cases "ft_file s obj")
    case None
    have "ft_file s2 q = None" if "q \<in> set (path_prefixes obj)" "q \<noteq> obj" for q
      using path_prefixes_proper [OF that] pl(3) layout_not_file [OF L] q2(3) by auto
    then have "lookup_err s2 obj = NoSuchFile" unfolding lookup_err_def list_ex_iff by (metis (mono_tags, lifting))
    then have "io_stat obj s2 = (s2, Inl NoSuchFile)" using None q2(3,4) nd [OF pl(1)] by (simp add: io_pure(6) [OF q2(1)])
    then show thesis using that [of "\<lambda>mek chk. None"] None by (simp add: stat_existing_def comp_simps)
  next
    case (Some c)
    then have io: "io_stat obj s2 = (s2, Inr ())" using q2(3) by (simp add: io_pure(6) [OF q2(1)])
    show thesis
    proof (rule that)
      fix mek chk
      show "stat_existing E ''put'' b k obj mek chk s2
          = (s2, Inr (ft_file s obj \<noteq> None, case snd (read_obj_metadata E obj mek chk s2) of Inr m \<Rightarrow> Some (md_created m) | Inl _ \<Rightarrow> None))"
        using read_obj_metadata_run [OF q2(1), of E obj mek chk] Some io
        by (simp add: stat_existing_def read_obj_created_def sbind_def stry_def sret_def)
    qed
  qed
  have "\<exists>s3. put_locked E nonce obj b k data opts s2 = (s3, Inr (ft_file s obj \<noteq> None)) \<and> ft_faults s3 = []"
  proof -
    let ?mek = "derive_object_metadata_key ?P nk" and ?chk = "derive_container_header_key ?P nk"
    let ?oid = "encode_object_id ?P (derive_path_key ?P nk) b k"
    let ?m = "put_metadata E (now_nanos s2) (prior ?mek ?chk) obj b k data opts"
    obtain json where json: "fe_ser E ?m = Inr json" "length json + META_PAD_BLOCK + 4 < 2 ^ 32"
      using assms(10) [rule_format, of "prior ?mek ?chk"] nn by (auto simp: META_PAD_BLOCK_def obj_def)
    obtain meta where meta: "encrypt_meta ?P nonce ?mek json ?oid META_PAD_BLOCK = Inr meta"
      by (rule meta_round_trip [OF assms(1,3) json(2), of ?mek ?oid]) blast
    let ?h = "encode_header ?P (record_header (of_nat (length data)) meta (po_sync opts)) ?chk ?oid"
    obtain s4 where s4: "write_object_file E b k tmp obj ?h data meta (po_sync opts) s2 = (s4, Inr ())" "ft_faults s4 = []"
      using write_object_file_run [OF q2(1), of tmp obj] nd [OF pl(1)] nd [OF pl(2)] d bl q2(4) by metis
    obtain s5 where s5: "after_rename E obj ?m (po_sync opts) s4 = (s5, Inr ())"
      using never_after_rename [of E obj ?m "po_sync opts"] unfolding never_fails_def is_ok_iff
      by (metis (full_types) old.unit.exhaust prod.collapse)
    have "ft_faults s5 = []" using quiet_after_rename [of E obj ?m "po_sync opts"] s4(2) s5 unfolding quiet_def by (metis fst_conv)
    then show ?thesis
      using st [of ?mek ?chk] keys(3,5) q2(2) json(1) meta s4(1) s5 oid unfolding put_locked_def Let_def
      by (simp add: sbind_def look_pure require_object_metadata_key_def require_container_header_key_def require_key_def tmp_def)
  qed
  then obtain s3 where s3: "put_locked E nonce obj b k data opts s2 = (s3, Inr (ft_file s obj \<noteq> None))" "ft_faults s3 = []" by blast
  have "with_lock b k (put_locked E nonce obj b k data opts) s1
      = (s3\<lparr>fs_locks := dm_remove (b, k) (fs_locks s3)\<rparr>, Inr (ft_file s obj \<noteq> None))"
    using s3(1) lk(1) assms(8) by (simp add: with_lock_def try_acquire_def guard_drop_def Let_def s2_def)
  then show ?thesis
    using s3(2) mk keys(2) assms(6,7) unfolding put_def obj_def
    by (simp add: sbind_def validated_pure key_path_pure require_path_key_def require_key_def smap_err_def)
qed

end
