(* ===== verification/Filesystem_Runs.thy ===== *)
theory Filesystem_Runs
  imports Filesystem_Layout
begin

text \<open>
  Runs of the filesystem backend: any sequence of its operations, with streaming puts left open in
  between, I/O failures, index failures and clock readings coming from outside. Every state of a run has
  the layout.
\<close>

subsection \<open>Operations keep the layout\<close>

text \<open>The base path, the layout, and that whatever was not there before, in the tree \<open>T\<close> of files and directories, is one of the
  backend's own files and directories (or leads to the base path).\<close>

definition file_at :: "path \<Rightarrow> path \<Rightarrow> bool" where "file_at B p \<longleftrightarrow> (\<exists>rest. p = B @ rest \<and> own_file rest)"
definition dir_at :: "path \<Rightarrow> path \<Rightarrow> bool" where "dir_at B p \<longleftrightarrow> (\<exists>rest. p = B @ rest \<and> own_dir rest)"

type_synonym old_tree = "(path \<Rightarrow> bool) \<times> (path \<Rightarrow> bool)"

definition tree_of :: "'s file_tree_scheme \<Rightarrow> old_tree" where
  "tree_of s = (\<lambda>p. ft_file s p \<noteq> None, ft_is_dir s)"

definition fs_inv :: "old_tree \<Rightarrow> path \<Rightarrow> fs_storage \<Rightarrow> bool" where
  "fs_inv T B s \<longleftrightarrow> fs_base_path s = B \<and> layout_at B s
     \<and> (\<forall>p. ft_file s p \<noteq> None \<longrightarrow> fst T p \<or> file_at B p) \<and> (\<forall>p. ft_is_dir s p \<longrightarrow> snd T p \<or> dir_at B p \<or> prefix p B)"

definition keeps :: "old_tree \<Rightarrow> path \<Rightarrow> (fs_storage, 'e, 'a) comp \<Rightarrow> bool" where
  "keeps T B m \<longleftrightarrow> (\<forall>s. fs_inv T B s \<longrightarrow> fs_inv T B (fst (m s)))"

lemma inv_base: "fs_inv T B s \<Longrightarrow> fs_base_path s = B"
  by (simp add: fs_inv_def)

named_theorems keeps_rules "operations that keep the layout"

lemma keeps_basic [keeps_rules]: "keeps T B (sret x)" "keeps T B (sfail e)" "keeps T B (slift r)" "keeps T B (sget g)"
  by (simp_all add: keeps_def comp_simps)

lemma keeps_wrap [keeps_rules]: "keeps T B m \<Longrightarrow> keeps T B (smap_err h m)" "keeps T B m \<Longrightarrow> keeps T B (stry m)"
  by (simp_all add: keeps_def smap_err_def stry_def split_beta)

lemma keeps_sbind [keeps_rules]: "keeps T B m \<Longrightarrow> (\<And>x. keeps T B (f x)) \<Longrightarrow> keeps T B (sbind m f)"
  by (auto simp: keeps_def sbind_def split: prod.splits sum.splits)

lemma keeps_if [keeps_rules]: "keeps T B m \<Longrightarrow> keeps T B n \<Longrightarrow> keeps T B (if c then m else n)"
  by simp

lemma keeps_case [keeps_rules]:
  "(\<And>e. keeps T B (f e)) \<Longrightarrow> (\<And>x. keeps T B (g x)) \<Longrightarrow> keeps T B (case r of Inl e \<Rightarrow> f e | Inr x \<Rightarrow> g x)"
  by (cases r) simp_all

lemma keeps_case_io [keeps_rules]:
  "(\<And>x. keeps T B (a x)) \<Longrightarrow> keeps T B b \<Longrightarrow> keeps T B c \<Longrightarrow> (\<And>x. keeps T B (d x)) \<Longrightarrow>
   keeps T B (case e of InvalidData x \<Rightarrow> a x | UnexpectedEof \<Rightarrow> b | NoSuchFile \<Rightarrow> c | Os x \<Rightarrow> d x)"
  by (cases e) simp_all

lemma keeps_case_prod [keeps_rules]: "(\<And>x y. keeps T B (f x y)) \<Longrightarrow> keeps T B (case r of (x, y) \<Rightarrow> f x y)"
  by (cases r) simp

lemma keeps_case_prod_acc [keeps_rules]: "(\<And>x y. keeps T B (f x y acc)) \<Longrightarrow> keeps T B ((case r of (x, y) \<Rightarrow> f x y) acc)"
  by (cases r) simp

lemma layout_cong: "ft_file (s :: 's file_tree_scheme) = ft_file (t :: 't file_tree_scheme) \<Longrightarrow> ft_is_dir s = ft_is_dir t \<Longrightarrow>
   layout_at B s = layout_at B t"
  by (simp add: layout_at_def)

lemma fs_inv_same:
  "fs_inv T B (s\<lparr>ft_faults := fs\<rparr>) = fs_inv T B s" "fs_inv T B (s\<lparr>fs_index := ix\<rparr>) = fs_inv T B s"
  "fs_inv T B (s\<lparr>fs_ix_faults := ifs\<rparr>) = fs_inv T B s" "fs_inv T B (s\<lparr>fs_locks := l\<rparr>) = fs_inv T B s"
  "fs_inv T B (s\<lparr>ft_now := t\<rparr>) = fs_inv T B s" "fs_inv T B (s\<lparr>fs_rebuild_state := st\<rparr>) = fs_inv T B s"
  "fs_inv T B (s\<lparr>fs_dirty_tx := d\<rparr>) = fs_inv T B s" "fs_inv T B (s\<lparr>fs_flush_notify := n\<rparr>) = fs_inv T B s"
  by (simp_all add: fs_inv_def layout_at_def ft_file_def ft_is_dir_def)

lemma keeps_step: "(\<And>k s. fs_inv T B s \<Longrightarrow> fs_inv T B (part k s)) \<Longrightarrow> keeps T B m \<Longrightarrow> keeps T B (step_call part m)"
  by (auto simp: keeps_def step_call_def fs_inv_same split: list.splits option.splits)

lemma keeps_call: "keeps T B m \<Longrightarrow> keeps T B (io_call m)"
  unfolding io_call_def by (rule keeps_step)

lemma keeps_look: "keeps T B (\<lambda>s. (s, f s))"
  by (simp add: keeps_def)

lemma keeps_reads [keeps_rules]:
  "keeps T B (io_exists p)" "keeps T B (io_stat p)" "keeps T B (io_mtime p)" "keeps T B (io_open p)" "keeps T B (io_open_dir p)"
  "keeps T B (io_read_exact f pos n)" "keeps T B (io_fstat_len f)" "keeps T B io_seek" "keeps T B io_sync" "keeps T B (io_read_dir p)"
  unfolding io_read_defs by (rule keeps_call, (rule keeps_look keeps_basic))+

lemma keeps_check [keeps_rules]: "keeps T B (\<lambda>s. (s, check_not_locked (fs_locks s) b k))"
  by (rule keeps_look)

lemma keeps_ix [keeps_rules]: "keeps T B (ix_call f)" "keeps T B (ix_read g)"
  by (auto simp: keeps_def ix_read_def ix_call_def fs_inv_same split: list.splits prod.splits)

lemma file_at_below: "file_at B p \<Longrightarrow> \<not> prefix p B \<and> (\<forall>rest. p = B @ rest \<longrightarrow> file_place rest)"
  using own_file_place by (fastforce simp: file_at_def file_place_def)

lemma inv_sub:
  "fs_inv T B s \<Longrightarrow> fs_base_path t = fs_base_path s \<Longrightarrow> (\<And>p. ft_file t p \<noteq> None \<Longrightarrow> ft_file s p \<noteq> None \<or> file_at B p) \<Longrightarrow>
   (\<And>p. ft_is_dir t p \<Longrightarrow> ft_is_dir s p \<or> dir_at B p \<or> prefix p B) \<Longrightarrow> fs_inv T B t"
proof -
  assume a: "fs_inv T B s" "fs_base_path t = fs_base_path s" "\<And>p. ft_file t p \<noteq> None \<Longrightarrow> ft_file s p \<noteq> None \<or> file_at B p"
    "\<And>p. ft_is_dir t p \<Longrightarrow> ft_is_dir s p \<or> dir_at B p \<or> prefix p B"
  have "\<not> prefix p B \<and> (\<forall>rest. p = B @ rest \<longrightarrow> file_place rest)" if "ft_file t p \<noteq> None" for p
    using a(3) [OF that] a(1) file_at_below unfolding fs_inv_def layout_at_def by blast
  moreover have "dir_place rest" if "ft_is_dir t (B @ rest)" for rest
    using a(4) [OF that] a(1) own_dir_place by (auto simp: fs_inv_def layout_at_def dir_at_def prefix_def dir_place_def)
  moreover have "fst T p \<or> file_at B p" if "ft_file t p \<noteq> None" for p using a(3) [OF that] a(1) by (auto simp: fs_inv_def)
  moreover have "snd T p \<or> dir_at B p \<or> prefix p B" if "ft_is_dir t p" for p using a(4) [OF that] a(1) by (auto simp: fs_inv_def)
  ultimately show ?thesis using a(1,2) by (simp add: fs_inv_def layout_at_def)
qed

lemma keeps_create_dir [keeps_rules]: "dir_at B p \<Longrightarrow> keeps T B (io_create_dir_all p)"
proof -
  assume "dir_at B p"
  then obtain rest where rest: "p = B @ rest" "own_dir rest" by (auto simp: dir_at_def)
  have q: "dir_at B q \<or> prefix q B" if "q \<in> set (path_prefixes p)" for q
    using prefixes_below [of q B rest] that rest own_dir_prefix by (auto simp: dir_at_def)
  have "fs_inv T B (add_dirs ds s)" if "fs_inv T B s" "set ds \<subseteq> set (path_prefixes p)" for ds s
    by (rule inv_sub [OF that(1)]) (use q that(2) in \<open>auto simp: add_dirs_def ft_is_dir_def ft_file_def\<close>)
  then show ?thesis
    unfolding io_create_dir_all_def by (intro keeps_step) (auto simp: keeps_def dest: in_set_takeD)
qed

lemma inv_put: "fs_inv T B s \<Longrightarrow> file_at B p \<or> ft_file s p \<noteq> None \<Longrightarrow> fs_inv T B (put_file p bs s)"
  by (erule inv_sub) (auto simp: ft_is_dir_def split: if_splits)

lemma keeps_open_trunc [keeps_rules]: "file_at B p \<Longrightarrow> keeps T B (io_open_trunc p)"
  unfolding io_open_trunc_def by (rule keeps_call) (auto simp: keeps_def inv_put)

lemma inv_write: "fs_inv T B s \<Longrightarrow> fs_inv T B (write_through p pos bs s)"
  by (auto simp: write_through_def split: option.splits intro!: inv_put)

lemma keeps_write_all [keeps_rules]: "keeps T B (io_write_all p pos bs)"
  unfolding io_write_all_def by (rule keeps_step) (auto simp: keeps_def supd_def inv_write)

lemma keeps_write_last [keeps_rules]: "keeps T B (io_write_last p pos bs)"
  unfolding io_write_last_def by (intro keeps_rules)

lemma keeps_rename [keeps_rules]: "file_at B dst \<Longrightarrow> keeps T B (io_rename src dst)"
  unfolding io_rename_def
  by (rule keeps_call) (auto simp: keeps_def ft_file_def ft_is_dir_def split: option.splits if_splits elim!: inv_sub)

lemma keeps_remove_file [keeps_rules]: "keeps T B (io_remove_file p)"
  unfolding io_remove_file_def
  by (rule keeps_call) (auto simp: keeps_def del_file_def ft_file_def ft_is_dir_def split: if_splits elim!: inv_sub)

lemma dm_get_remove_all_Some: "dm_get (dm_remove_all ks m) k = Some v \<Longrightarrow> dm_get m k = Some v"
  unfolding dm_remove_all_def
proof (induction ks arbitrary: m)
  case (Cons a ks)
  have "dm_get (dm_remove a m) k = Some v" by (rule Cons.IH) (use Cons.prems in \<open>simp only: fold_simps\<close>)
  then show ?case by (simp split: if_splits)
qed simp

lemma dm_get_filter: "dm_get (filter (\<lambda>(q, f). P q) m) k = Some v \<Longrightarrow> \<exists>w. dm_get m k = Some w"
  by (induction m) (auto split: if_splits)

lemma keeps_remove_dir_all [keeps_rules]: "keeps T B (io_remove_dir_all p)"
  unfolding io_remove_dir_all_def
proof (rule keeps_step)
  show "fs_inv T B (s\<lparr>ft_files := dm_remove_all (take k (filter (prefix p) (map fst (ft_files s)))) (ft_files s)\<rparr>)"
    if "fs_inv T B s" for k s
    by (intro inv_sub [OF that]) (auto simp: ft_file_def ft_is_dir_def dest: dm_get_remove_all_Some)
  show "keeps T B (\<lambda>s. if \<not> ft_is_dir s p then (s, Inl (lookup_err s p))
      else (s\<lparr>ft_files := filter (\<lambda>(q, f). \<not> prefix p q) (ft_files s), ft_dirs := filter (\<lambda>q. \<not> prefix p q) (ft_dirs s)\<rparr>, Inr ()))"
    by (auto simp: keeps_def ft_file_def ft_is_dir_def elim!: inv_sub split: if_splits dest!: dm_get_filter)
qed

subsection \<open>Whole operations\<close>

definition obj_at :: "fs_env \<Rightarrow> path \<Rightarrow> path \<Rightarrow> bool" where
  "obj_at E B p \<longleftrightarrow> (\<exists>pk b k. p = obj_path_for (fe_prims E) B pk b k)"

lemma obj_at_places:
  assumes "hmac_len (fe_prims E)" and "obj_at E B p"
  shows "file_at B p" "file_at B (with_extension p ''tmp'')" "file_at B (with_extension p ''labels.tmp'')" "dir_at B (butlast p)"
  using assms(2) own_obj_places [OF assms(1)] by (auto simp: obj_at_def file_at_def dir_at_def)

lemma keeps_key_path:
  "(\<And>p. obj_at E B p \<Longrightarrow> keeps T B (f p)) \<Longrightarrow> keeps T B (sbind (key_path E b k) f)"
  by (auto simp: keeps_def sbind_def key_path_pure obj_at_def inv_base require_path_key_def require_key_def split: prod.splits sum.splits
      elim!: ok_or.elims)

lemma keeps_obj_path:
  "(\<And>p. obj_at E B p \<Longrightarrow> keeps T B (f p)) \<Longrightarrow> keeps T B (sbind (sget (\<lambda>s. obj_path_for (fe_prims E) (fs_base_path s) pk b k)) f)"
  by (auto simp: keeps_def sbind_def sget_def obj_at_def inv_base)

definition bucket_at :: "fs_env \<Rightarrow> path \<Rightarrow> path \<Rightarrow> bool" where
  "bucket_at E B d \<longleftrightarrow> (\<exists>pk b. d = bucket_dir_path (fe_prims E) B pk b)"

lemma keeps_bucket_dir:
  "(\<And>d. bucket_at E B d \<Longrightarrow> keeps T B (f d)) \<Longrightarrow> keeps T B (sbind (sget (\<lambda>s. bucket_dir_path (fe_prims E) (fs_base_path s) pk b)) f)"
  by (auto simp: keeps_def sbind_def sget_def bucket_at_def inv_base)

lemma bucket_at_places:
  assumes "hmac_len (fe_prims E)" and "bucket_at E B d"
  shows "dir_at B d" "file_at B (d @ [BUCKET_CONFIG_FILE])" "file_at B (d @ [''.y2q-bucket.json.tmp''])"
  using assms(2) hex_names(1) [OF assms(1)]
  by (auto simp: bucket_at_def bucket_dir_path_def dir_at_def file_at_def own_dir_def own_file_def config_file_def)

lemma keeps_validated [keeps_rules]: "keeps T B (validated E b k)"
  unfolding validated_def by (intro keeps_rules)

lemma keeps_meta [keeps_rules]: "keeps T B (read_obj_metadata E p mek chk)"
  unfolding read_obj_metadata_def by (intro keeps_rules)

lemma keeps_stat_existing [keeps_rules]: "keeps T B (stat_existing E op b k p mek chk)"
  unfolding stat_existing_def read_obj_created_def by (intro keeps_rules)

lemma keeps_after_rename [keeps_rules]: "keeps T B (after_rename E p m sync)"
proof -
  have "keeps T B (supd (note_dirty p))"
    by (auto simp: keeps_def supd_def note_dirty_def Let_def fs_inv_same split: option.splits)
  then show ?thesis unfolding after_rename_def by (intro keeps_rules)
qed

lemma keeps_with_lock: "keeps T B m \<Longrightarrow> keeps T B (with_lock b k m)"
  unfolding keeps_def
proof (intro allI impI)
  fix s
  assume m: "\<forall>s. fs_inv T B s \<longrightarrow> fs_inv T B (fst (m s))" and i: "fs_inv T B s"
  show "fs_inv T B (fst (with_lock b k m s))"
  proof (cases "with_lock b k m s")
    case (Pair s' r)
    then show ?thesis
    proof (cases rule: with_lock_cases)
      case (held t)
      then show ?thesis
        using m [rule_format, of "s\<lparr>fs_locks := dm_insert (b, k) (ft_now s) (fs_locks s)\<rparr>"] i Pair by (simp add: fs_inv_same)
    qed (use i Pair in simp)
  qed
qed

lemma keeps_put:
  assumes "hmac_len (fe_prims E)"
  shows "keeps T B (put E nonce b k data opts)"
  unfolding put_def
proof (rule keeps_sbind [OF keeps_validated], rule keeps_key_path)
  fix p assume p: "obj_at E B p"
  note pl = obj_at_places [OF assms p]
  have "keeps T B (put_locked E nonce p b k data opts)"
    unfolding put_locked_def write_object_file_def Let_def by (intro keeps_rules pl)
  then show "keeps T B (sbind (smap_err (io_err E b k ''put'' []) (io_create_dir_all (butlast p))) (\<lambda>_. with_lock b k (put_locked E nonce p b k data opts)))"
    by (intro keeps_rules keeps_with_lock pl)
qed

lemma keeps_begin:
  assumes "hmac_len (fe_prims E)"
  shows "keeps T B (begin_streaming_put E b k)"
proof -
  have acq: "keeps T B (\<lambda>s. case try_acquire (fs_locks s) (ft_now s) b k of
               Inl e \<Rightarrow> (s, Inl e) | Inr (m, guard) \<Rightarrow> (s\<lparr>fs_locks := m\<rparr>, Inr guard))"
    by (auto simp: keeps_def fs_inv_same split: sum.splits prod.splits)
  have rel: "keeps T B (supd (\<lambda>s. s\<lparr>fs_locks := guard_drop (fs_locks s) lock\<rparr>))" for lock
    by (auto simp: keeps_def supd_def fs_inv_same)
  show ?thesis
    unfolding begin_streaming_put_def Let_def
  proof (rule keeps_sbind [OF keeps_validated], rule keeps_key_path, goal_cases)
    case (1 x p)
    show ?case by (intro keeps_rules acq rel obj_at_places [OF assms 1])
  qed
qed

text \<open>Every value a computation can return satisfies \<open>R\<close>.\<close>

definition yields :: "('a \<Rightarrow> bool) \<Rightarrow> ('s, 'e, 'a) comp \<Rightarrow> bool" where
  "yields R m \<longleftrightarrow> (\<forall>s s' x. m s = (s', Inr x) \<longrightarrow> R x)"

lemma yields_rules:
  "R x \<Longrightarrow> yields R (sret x)" "yields R (sfail e)"
  by (simp_all add: yields_def sret_def sfail_def)

lemma yields_sbind: "(\<And>x. yields R (f x)) \<Longrightarrow> yields R (sbind m f)"
  by (auto simp: yields_def sbind_Inr_iff)

lemma yieldsD: "sbind m f s = (s', Inr x) \<Longrightarrow> (\<And>y. yields R (f y)) \<Longrightarrow> R x"
  by (auto simp: yields_def sbind_Inr_iff)

lemma yields_case:
  "(\<And>e. yields R (f e)) \<Longrightarrow> (\<And>x. yields R (g x)) \<Longrightarrow> yields R (case r of Inl e \<Rightarrow> f e | Inr x \<Rightarrow> g x)"
  "(\<And>x y. yields R (h x y)) \<Longrightarrow> yields R (case q of (x, y) \<Rightarrow> h x y)"
  by (cases r, simp_all) (cases q, simp)

lemma begin_guard:
  assumes "begin_streaming_put E b k s = (s', Inr g)" and "fs_inv T B s"
  shows "obj_at E B (sg_obj_path g)" "sg_tmp_path g = with_extension (sg_obj_path g) ''tmp''"
proof -
  obtain pk where pk: "path_key (fs_mek s) = Some pk" and v: "validated E b k s = (s, Inr ())"
    using assms(1) unfolding begin_streaming_put_def Let_def sbind_Inr_iff [of "validated E b k"] sbind_Inr_iff [of "key_path E b k"]
    by (auto simp: key_path_pure validated_pure require_Inr)
  define p where "p = obj_path_for (fe_prims E) (fs_base_path s) pk b k"
  let ?R = "\<lambda>g. sg_obj_path g = p \<and> sg_tmp_path g = with_extension p ''tmp''"
  have "?R g"
    by (rule yieldsD [OF assms(1) [unfolded begin_streaming_put_def Let_def sbind_run [of "validated E b k", OF v]
          sbind_run [of "key_path E b k", OF key_path_run [OF pk]] p_def [symmetric]], of ?R])
      (intro yields_sbind yields_case yields_rules; simp)
  moreover have "obj_at E B p" using assms(2) by (auto simp: obj_at_def p_def fs_inv_def)
  ultimately show "obj_at E B (sg_obj_path g)" "sg_tmp_path g = with_extension (sg_obj_path g) ''tmp''" by auto
qed

lemma keeps_guard_dropped [keeps_rules]: "keeps T B (guard_dropped g)"
proof -
  have rel: "keeps T B (supd (\<lambda>s. s\<lparr>fs_locks := guard_drop (fs_locks s) lock\<rparr>))" for lock
    by (auto simp: keeps_def supd_def fs_inv_same)
  show ?thesis unfolding guard_dropped_def by (intro keeps_rules rel)
qed

lemma keeps_commit:
  assumes "hmac_len (fe_prims E)" and "obj_at E B (sg_obj_path g)"
  shows "keeps T B (commit E nonce g pos opts pm cm)"
  unfolding commit_def commit_inner_def finish_object_file_def Let_def
  by (intro keeps_rules obj_at_places [OF assms])

lemma keeps_open_record [keeps_rules]: "keeps T B (open_record E op b k)"
  unfolding open_record_def Let_def key_path_def by (intro keeps_rules)

lemma keeps_delete: "keeps T B (delete E b k)"
  unfolding delete_def by (intro keeps_rules)

lemma keeps_set_labels:
  assumes "hmac_len (fe_prims E)"
  shows "keeps T B (set_labels E nonce b k ls)"
proof -
  have rw: "keeps T B (rewrite_labels E nonce mek chk p b k ls)" if "obj_at E B p" for mek chk p
    unfolding rewrite_labels_def Let_def by (intro keeps_rules obj_at_places [OF assms that])
  have "keeps T B (set_labels_impl E nonce mek chk pk b k ls)" for mek chk pk
    unfolding set_labels_impl_def by (rule keeps_sbind [OF keeps_validated], rule keeps_obj_path, rule rw)
  then show ?thesis unfolding set_labels_def by (intro keeps_rules)
qed

lemma keeps_create_bucket:
  assumes "hmac_len (fe_prims E)"
  shows "keeps T B (create_bucket E b)"
proof -
  have "keeps T B (create_bucket_impl E pk b)" for pk
    unfolding create_bucket_impl_def
  proof (rule keeps_sbind [OF keeps_basic(3)], rule keeps_bucket_dir, goal_cases)
    case (1 x d)
    show ?case by (intro keeps_rules bucket_at_places(1) [OF assms 1])
  qed
  then show ?thesis unfolding create_bucket_def by (intro keeps_rules)
qed

lemma keeps_remove_keys [keeps_rules]: "keeps T B (remove_keys E b ks n)"
  by (induction ks arbitrary: n) (auto intro!: keeps_rules)

lemma keeps_delete_bucket: "keeps T B (delete_bucket E b)"
  unfolding delete_bucket_def delete_bucket_impl_def Let_def by (intro keeps_rules)

lemma keeps_set_config:
  assumes "hmac_len (fe_prims E)"
  shows "keeps T B (set_bucket_config E nonce b cfg)"
proof -
  have "keeps T B (set_bucket_config_impl E nonce pk ck b cfg)" for pk ck
    unfolding set_bucket_config_impl_def Let_def
  proof (rule keeps_sbind [OF keeps_basic(3)], rule keeps_bucket_dir, goal_cases)
    case (1 x d)
    show ?case by (intro keeps_rules bucket_at_places [OF assms 1])
  qed
  then show ?thesis unfolding set_bucket_config_def by (intro keeps_rules)
qed

lemma keeps_dir_loop: "(\<And>e acc. keeps T B (f e acc)) \<Longrightarrow> keeps T B (dir_loop f es acc)"
  by (induction es arbitrary: acc) (auto intro!: keeps_rules keeps_call)

lemma keeps_visit [keeps_rules]: "(\<And>e acc. keeps T B (f e acc)) \<Longrightarrow> keeps T B (visit f d acc)"
  unfolding visit_def by (intro keeps_rules keeps_dir_loop)

lemma keeps_in_dirs [keeps_rules]: "(\<And>d acc. keeps T B (g d acc)) \<Longrightarrow> keeps T B (in_dirs g e acc)"
  unfolding in_dirs_def by (intro keeps_rules keeps_call)

lemma keeps_clear_stale: "keeps T B (clear_stale_locks t)"
proof -
  have cl: "keeps T B (\<lambda>s. case clear_stale (fs_locks s) t of (m, n) \<Rightarrow> (s\<lparr>fs_locks := m\<rparr>, Inr n))"
    by (auto simp: keeps_def fs_inv_same split: prod.splits)
  show ?thesis unfolding clear_stale_locks_def clear_orphan_tmp_files_def by (intro keeps_rules cl)
qed

lemma keeps_rebuild_loop [keeps_rules]: "keeps T B (rebuild_loop E mek chk n i ps seen)"
proof (induction ps arbitrary: i seen)
  case (Cons p ps)
  have "keeps T B (supd (report_progress n i))" by (auto simp: keeps_def supd_def report_progress_def fs_inv_same)
  then show ?case using Cons by (auto intro!: keeps_rules)
qed (auto intro!: keeps_rules)

lemma keeps_drop_lost [keeps_rules]: "keeps T B (drop_lost E seen ks)"
  by (induction ks) (auto intro!: keeps_rules)

lemma keeps_rebuild: "fs_inv T B s \<Longrightarrow> fs_inv T B (rebuild_task E captured s)"
proof -
  assume i: "fs_inv T B s"
  have "keeps T B (run_rebuild E (fst captured) (snd captured))"
    unfolding run_rebuild_def collect_obj_files_def by (intro keeps_rules)
  then have k: "fs_inv T B (fst (run_rebuild E (fst captured) (snd captured) s))" using i by (simp add: keeps_def)
  obtain t r where r: "run_rebuild E (fst captured) (snd captured) s = (t, r)" by (cases "run_rebuild E (fst captured) (snd captured) s")
  then show ?thesis using k by (cases r) (simp_all add: rebuild_task_def fs_inv_same split: unit.split)
qed

lemma keeps_rebuild_cache: "keeps T B rebuild_cache"
proof -
  have "keeps T B (supd (\<lambda>s. s\<lparr>fs_rebuild_state := Running 0\<rparr>))" by (auto simp: keeps_def supd_def fs_inv_same)
  then have go: "keeps T B (sbind (supd (\<lambda>s. s\<lparr>fs_rebuild_state := Running 0\<rparr>)) f)" if "\<And>x. keeps T B (f x)" for f :: "unit \<Rightarrow> (bytes \<times> bytes) fs_comp"
    using that by (intro keeps_sbind)
  show ?thesis unfolding rebuild_cache_def
    by (rule keeps_sbind [OF keeps_basic(4)]) (auto split: cache_rebuild_status.splits intro!: keeps_rules go)
qed

subsection \<open>Runs\<close>

text \<open>One step of the storage with the guards of its open streaming puts: an operation, a write of a streaming body, a key that is
  installed, or the clock and the failures to come changing from outside.\<close>

inductive fs_step :: "fs_env \<Rightarrow> fs_storage \<times> streaming_put_guard list \<Rightarrow> fs_storage \<times> streaming_put_guard list \<Rightarrow> bool" for E where
  outside: "fs_step E (s, gs) (s\<lparr>ft_faults := fs, fs_ix_faults := ifs, ft_now := now\<rparr>, gs)"
| node_key: "fs_step E (s, gs) (install_node_key E open_backend nk s, gs)"
| put: "fs_step E (s, gs) (fst (put E nonce b k data opts s), gs)"
| begin_put: "begin_streaming_put E b k s = (s', r) \<Longrightarrow> fs_step E (s, gs) (s', case r of Inr g \<Rightarrow> g # gs | Inl e \<Rightarrow> gs)"
| body: "g \<in> set gs \<Longrightarrow> fs_step E (s, gs) (fst (io_write_all (sg_tmp_path g) pos bs s), gs)"
| commit: "g \<in> set gs \<Longrightarrow> fs_step E (s, gs) (fst (commit E nonce g pos opts pm cm s), remove1 g gs)"
| abandon: "g \<in> set gs \<Longrightarrow> fs_step E (s, gs) (fst (guard_dropped g s), remove1 g gs)"
| delete: "fs_step E (s, gs) (fst (delete E b k s), gs)"
| labels: "fs_step E (s, gs) (fst (set_labels E nonce b k ls s), gs)"
| create_bucket: "fs_step E (s, gs) (fst (create_bucket E b s), gs)"
| delete_bucket: "fs_step E (s, gs) (fst (delete_bucket E b s), gs)"
| config: "fs_step E (s, gs) (fst (set_bucket_config E nonce b cfg s), gs)"
| sweep: "fs_step E (s, gs) (fst (clear_stale_locks older s), gs)"
| rebuild: "fs_step E (s, gs) (fst (rebuild_cache s), gs)"
| rebuild_task: "fs_step E (s, gs) (rebuild_task E captured s, gs)"

inductive fs_run :: "fs_env \<Rightarrow> path \<Rightarrow> fs_storage \<Rightarrow> streaming_put_guard list \<Rightarrow> bool" for E B where
  start: "FilesystemStorage_new E (\<lambda>p. p) B ix t = (t', Inr s) \<Longrightarrow> layout_at B t' \<Longrightarrow> fs_run E B s []"
| step: "fs_run E B s gs \<Longrightarrow> fs_step E (s, gs) (s', gs') \<Longrightarrow> fs_run E B s' gs'"

fun run_ok :: "fs_env \<Rightarrow> old_tree \<Rightarrow> path \<Rightarrow> fs_storage \<times> streaming_put_guard list \<Rightarrow> bool" where
  "run_ok E T B (s, gs) \<longleftrightarrow> fs_inv T B s
     \<and> (\<forall>g \<in> set gs. obj_at E B (sg_obj_path g) \<and> sg_tmp_path g = with_extension (sg_obj_path g) ''tmp'')"

lemma step_keeps: "keeps T B m \<Longrightarrow> run_ok E T B (s, gs) \<Longrightarrow> set gs' \<subseteq> set gs \<Longrightarrow> run_ok E T B (fst (m s), gs')"
  by (auto simp: keeps_def)

lemma step_inv:
  assumes "hmac_len (fe_prims E)" and "fs_step E x y" and "run_ok E T B x"
  shows "run_ok E T B y"
  using assms(2,3)
proof (induction rule: fs_step.induct)
  case (begin_put b k s s' r gs)
  then have "fs_inv T B s'" using keeps_begin [OF assms(1), of T B b k] unfolding keeps_def by (metis fst_conv run_ok.simps)
  moreover have "obj_at E B (sg_obj_path g) \<and> sg_tmp_path g = with_extension (sg_obj_path g) ''tmp''" if "r = Inr g" for g
    using begin_guard [of E b k s s' g T B] begin_put that by auto
  ultimately show ?case using begin_put by (cases r) auto
next
  case (outside s gs fs ifs now)
  then show ?case by (simp add: fs_inv_same)
next
  case (node_key s gs open_backend nk)
  then show ?case by (simp add: install_node_key_def fs_inv_same)
next
  case (rebuild_task s gs captured)
  then show ?case by (simp add: keeps_rebuild)
next
  case (commit g gs s nonce pos opts pm cm)
  then have "obj_at E B (sg_obj_path g)" by simp
  from step_keeps [OF keeps_commit [OF assms(1) this] commit(2) set_remove1_subset] show ?case .
next
  case (abandon g gs s)
  from step_keeps [OF keeps_guard_dropped abandon(2) set_remove1_subset] show ?case .
qed (auto intro: step_keeps keeps_put [OF assms(1)] keeps_write_all keeps_delete keeps_set_labels [OF assms(1)]
      keeps_create_bucket [OF assms(1)] keeps_delete_bucket keeps_set_config [OF assms(1)] keeps_clear_stale keeps_rebuild_cache
      simp del: run_ok.simps)

lemma new_inv:
  assumes "FilesystemStorage_new E (\<lambda>p. p) B ix t = (t', Inr s)" and "layout_at B t'"
  shows "fs_inv (tree_of t') B s"
proof -
  have "ft_file s = ft_file t' \<and> ft_is_dir s = ft_is_dir t' \<and> fs_base_path s = B"
    using assms(1) unfolding FilesystemStorage_new_def
    by (auto simp: sbind_Inr_iff io_call_def sget_def ft_file_def ft_is_dir_def file_tree.defs sret_def fun_eq_iff elim!: step_call_InrE)
  then show ?thesis using assms(2) layout_cong [of s t' B] by (simp add: fs_inv_def tree_of_def)
qed

lemma inv_tree: "fs_inv T B s \<Longrightarrow> fs_inv (tree_of s) B s"
  by (simp add: fs_inv_def tree_of_def)

lemma run_inv:
  assumes "hmac_len (fe_prims E)" and "fs_run E B s gs"
  shows "run_ok E (tree_of s) B (s, gs)"
  using assms(2)
proof (induction rule: fs_run.induct)
  case (start ix t t' s)
  from inv_tree [OF new_inv [OF start]] show ?case by simp
next
  case (step s gs s' gs')
  from step_inv [OF assms(1) step(2,3)] have "run_ok E (tree_of s) B (s', gs')" .
  then show ?case using inv_tree [of "tree_of s" B s'] by simp
qed

lemma steps_inv:
  assumes "hmac_len (fe_prims E)" and "(fs_step E)\<^sup>*\<^sup>* x y" and "run_ok E T B x"
  shows "run_ok E T B y"
  using assms(2,3) by (induction rule: rtranclp_induct) (use step_inv [OF assms(1)] in auto)

end
