(* ===== verification/Filesystem_Properties.thy ===== *)
theory Filesystem_Properties
  imports Filesystem_Runs
begin

text \<open>
  The properties of the filesystem backend (\<open>crates/y2q-core/src/storage/filesystem.rs\<close>): atomicity of
  writes under arbitrary I/O failures, read-back, ranges, relabelling, deletion, liveness.
\<close>

subsection \<open>A sample storage\<close>

definition sample_nk :: bytes where "sample_nk = replicate 32 1"

definition sample_opts :: put_options where
  "sample_opts = \<lparr>po_labels = [], po_sync = Durable, po_plaintext_metrics = None, po_cipher_metadata = None, po_version = None\<rparr>"

definition sample_fe0 :: fs_env where
  "sample_fe0 = \<lparr>fe_prims = plain_prims, fe_ser = \<lambda>m. Inl [], fe_de = \<lambda>bs. Inl [], fe_cfg_ser = \<lambda>c. Inl [], fe_cfg_de = \<lambda>bs. Inl [],
     fe_is_alphanumeric = \<lambda>c. 97 \<le> c \<and> c \<le> 122, fe_is_match = \<lambda>r s. False, fe_io_text = \<lambda>e. [], fe_crypto_text = \<lambda>e. [],
     fe_format_text = \<lambda>e. [], fe_error_text = \<lambda>e. []\<rparr>"

definition sample_path :: path where
  "sample_path = obj_path_for plain_prims [''d''] (derive_path_key plain_prims sample_nk) ''b'' ''k''"

definition sample_md :: metadata where
  "sample_md = put_metadata sample_fe0 0 None sample_path ''b'' ''k'' [1, 2, 3] sample_opts"

text \<open>A codec for the metadata of one object, which differs between its versions in the creation time only.\<close>

definition sample_fe :: fs_env where
  "sample_fe = sample_fe0\<lparr>
     fe_ser := \<lambda>m. if m = sample_md\<lparr>md_created := md_created m\<rparr> then Inr (to_be_u64 (md_created m)) else Inl [],
     fe_de := \<lambda>bs. if length bs = 8 then Inr (sample_md\<lparr>md_created := from_be_u64 bs\<rparr>) else Inl []\<rparr>"

definition sample_fs :: fs_storage where
  "sample_fs = \<lparr>ft_files = [], ft_dirs = [[''d'']], ft_faults = [], ft_now = 0, fs_base_path = [''d''],
     fs_index = \<lparr>ix_path = [], ix_db = None, ix_slot = install plain_prims sample_nk\<rparr>, fs_ix_faults = [],
     fs_rebuild_state = Idle, fs_dirty_tx = None, fs_flush_notify = None, fs_flush_limit = 0, fs_locks = []\<rparr>"

lemma sample_facts:
  "fe_prims sample_fe = plain_prims" "layout_ok sample_fs" "ft_faults sample_fs = []" "fs_mek sample_fs = install (fe_prims sample_fe) sample_nk"
  "dm_get (fs_locks sample_fs) x = None" "fs_base_path sample_fs = [''d'']" "now_nanos sample_fs = 0"
  "path_key (fs_mek sample_fs) = Some (derive_path_key plain_prims sample_nk)"
  using install_keys(2) [OF plain_hmac_len, of sample_nk]
  by (simp_all add: sample_fe_def sample_fe0_def sample_fs_def layout_ok_def layout_at_def fs_mek_def ft_file_def ft_is_dir_def now_nanos_def dir_place_def)

lemma sample_valid: "validate_bucket sample_fe ''b'' = Inr ()" "validate_key ''k'' = Inr ()"
  by code_simp+

lemma sample_json: "json_ok sample_fe"
  by (auto simp: json_ok_def sample_fe_def split: if_splits)

lemma sample_put_md: "put_metadata sample_fe 0 prior sample_path ''b'' ''k'' [1, 2, 3] sample_opts
    = sample_md\<lparr>md_created := (case prior of Some t \<Rightarrow> t | None \<Rightarrow> 0)\<rparr>"
  by (simp add: put_metadata_def sample_md_def sample_opts_def sample_fe_def split_beta)

lemma sample_put:
  obtains s' ow where "put sample_fe (replicate 12 0) ''b'' ''k'' [1, 2, 3] sample_opts sample_fs = (s', Inr ow)" and "ft_faults s' = []"
proof -
  have "\<forall>prior. \<exists>json. fe_ser sample_fe (put_metadata sample_fe 0 prior sample_path ''b'' ''k'' [1, 2, 3] sample_opts) = Inr json
      \<and> length json < 2 ^ 31"
    unfolding sample_put_md by (simp add: sample_fe_def)
  then show thesis
    using that put_run [of sample_fe "replicate 12 0" sample_fs "''b''" "''k''" sample_nk "[1, 2, 3]" sample_opts]
      plain_aead_correct plain_hmac_len sample_facts sample_valid
    by (auto simp: sample_path_def)
qed

lemma unreadable_record:
  assumes "ft_faults s = []" and "path_key (fs_mek s) = Some pk" and "container_header_key (fs_mek s) = Some chk"
    and "ft_file s (obj_path_for (fe_prims E) (fs_base_path s) pk b k) = Some c"
    and "header_of_file E chk (obj_path_for (fe_prims E) (fs_base_path s) pk b k) c = None"
  shows "(\<exists>e. snd (get E b k s) = Inl e) \<and> (\<exists>e. snd (describe E b k s) = Inl e)"
proof -
  have "get E b k s \<noteq> (t, Inr d)" "describe E b k s \<noteq> (t, Inr m)" for t d m
    using assms unfolding get_Inr [OF assms(1)] describe_Inr [OF assms(1)] by (auto simp: data_of_file_def meta_of_file_def)
  then show ?thesis by (metis old.sum.exhaust prod.collapse)
qed

lemma put_get_run:
  assumes "aead_correct (fe_prims E)" and "hmac_len (fe_prims E)" and "json_ok E" and "length nonce = 12" and "length data < 2 ^ 63"
    and "path_key (fs_mek s) = Some pk" and "put E nonce b k data opts s = (s', Inr ow)" and "ft_faults s' = []"
  shows "\<exists>prior cut. (if cut
        then (\<exists>e. snd (get E b k s') = Inl e) \<and> (\<exists>e. snd (describe E b k s') = Inl e)
        else get E b k s' = (s', Inr data)
          \<and> describe E b k s' = (s', Inr (put_metadata E (now_nanos s) prior (obj_path_for (fe_prims E) (fs_base_path s) pk b k) b k data opts)))
    \<and> (ft_faults s = [] \<longrightarrow> \<not> cut \<and> (\<forall>old. describe E b k s = (s, Inr old) \<longrightarrow> prior = Some (md_created old)))"
proof -
  define obj where "obj = obj_path_for (fe_prims E) (fs_base_path s) pk b k"
  define oid where "oid = encode_object_id (fe_prims E) pk b k"
  obtain mek chk prior json meta missing where r: "validate_bucket E b = Inr ()" "validate_key k = Inr ()" "dm_get (fs_locks s') (b, k) = None"
    "fs_mek s' = fs_mek s" "fs_base_path s' = fs_base_path s"
    "object_metadata_key (fs_mek s) = Some mek" "container_header_key (fs_mek s) = Some chk"
    "fe_ser E (put_metadata E (now_nanos s) prior obj b k data opts) = Inr json"
    "encrypt_meta (fe_prims E) nonce mek json oid META_PAD_BLOCK = Inr meta"
    "ft_file s' obj = Some (cut_record missing (obj_record E chk oid (po_sync opts) data meta))"
    "missing \<le> HEADER_SIZE" "ft_faults s = [] \<Longrightarrow> missing = 0"
    "ft_faults s = [] \<Longrightarrow> prior = Option.bind (ft_file s obj) (\<lambda>c. map_option md_created (meta_of_file E mek chk obj c))"
    by (rule put_InrE [OF assms(7,6,2)]) (simp add: obj_def oid_def)
  have j: "fe_de E json = Inr (put_metadata E (now_nanos s) prior obj b k data opts)" "length json < 2 ^ 31"
    using assms(3) r(8) by (auto simp: json_ok_def)
  note m = meta_sealed [OF assms(1,4) j(2) r(9)]
  have id: "object_id_from_path obj = Some oid" unfolding obj_def oid_def by (rule obj_path_facts(1) [OF assms(2)])
  have len: "length data + length meta + 128 < 2 ^ 64" "length meta < 2 ^ 32" using assms(5) m(2) by simp_all
  note rec = obj_record_reads [OF assms(2) id len, where chk = chk and sync = "po_sync opts"]
  have keys: "path_key (fs_mek s') = Some pk" "object_metadata_key (fs_mek s') = Some mek" "container_header_key (fs_mek s') = Some chk"
    "obj_path_for (fe_prims E) (fs_base_path s') pk b k = obj"
    using assms(6) r(4-7) by (simp_all add: obj_def)
  have "get E b k s' = (s', Inr data) \<and> describe E b k s' = (s', Inr (put_metadata E (now_nanos s) prior obj b k data opts))"
    if "missing = 0"
    unfolding get_Inr [OF assms(8)] describe_Inr [OF assms(8)]
    using that r(1-3,10) keys rec(2) rec(3) [of mek] m(1) j(1) by auto
  moreover have "(\<exists>e. snd (get E b k s') = Inl e) \<and> (\<exists>e. snd (describe E b k s') = Inl e)" if "missing \<noteq> 0"
    using unreadable_record [OF assms(8) keys(1,3)] r(10) keys(4)
      cut_record_unreadable [OF assms(2) id len, of missing] that r(11) by simp
  moreover have "prior = Some (md_created old)" if "ft_faults s = []" "describe E b k s = (s, Inr old)" for old
    using r(13) [OF that(1)] that(2) [unfolded describe_Inr [OF that(1)]] assms(6) r(6,7) by (auto simp: obj_def)
  ultimately show ?thesis using r(12) unfolding obj_def by (intro exI [of _ prior] exI [of _ "missing \<noteq> 0"]) simp
qed

lemma sample_stored:
  obtains s' c m where "ft_faults s' = []" and "get sample_fe ''b'' ''k'' s' = (s', Inr [1, 2, 3])" and "describe sample_fe ''b'' ''k'' s' = (s', Inr m)"
    and "path_key (fs_mek s') = Some (derive_path_key plain_prims sample_nk)"
    and "ft_file s' (obj_path_for plain_prims (fs_base_path s') (derive_path_key plain_prims sample_nk) ''b'' ''k'') = Some c" and "length c < 2 ^ 63"
proof -
  obtain s' ow where s': "put sample_fe (replicate 12 0) ''b'' ''k'' [1, 2, 3] sample_opts sample_fs = (s', Inr ow)" "ft_faults s' = []"
    by (rule sample_put)
  have P: "aead_correct (fe_prims sample_fe)" "hmac_len (fe_prims sample_fe)"
    using plain_aead_correct plain_hmac_len by (simp_all add: sample_facts)
  obtain mek chk prior json meta where r: "fs_mek s' = fs_mek sample_fs" "fs_base_path s' = fs_base_path sample_fs"
    "fe_ser sample_fe (put_metadata sample_fe (now_nanos sample_fs) prior sample_path ''b'' ''k'' [1, 2, 3] sample_opts) = Inr json"
    "encrypt_meta (fe_prims sample_fe) (replicate 12 0) mek json (encode_object_id (fe_prims sample_fe) (derive_path_key plain_prims sample_nk) ''b'' ''k'') META_PAD_BLOCK = Inr meta"
    "ft_file s' sample_path = Some (obj_record sample_fe chk (encode_object_id (fe_prims sample_fe) (derive_path_key plain_prims sample_nk) ''b'' ''k'') Durable [1, 2, 3] meta)"
    "prior = None"
    by (rule put_InrE [OF s'(1) sample_facts(8) P(2)])
      (auto simp: sample_path_def sample_facts sample_opts_def ft_file_def sample_fs_def)
  have j: "length json < 2 ^ 31" using sample_json r(3) by (auto simp: json_ok_def)
  have "length meta < 2 ^ 31 + 2 ^ 14" by (rule meta_sealed(2) [OF P(1) _ j r(4)]) simp
  then have len: "length (obj_record sample_fe chk (encode_object_id (fe_prims sample_fe) (derive_path_key plain_prims sample_nk) ''b'' ''k'') Durable [1, 2, 3] meta) < 2 ^ 63"
    using length_encode_header [OF P(2)] by (simp add: obj_record_def Let_def)
  have "get sample_fe ''b'' ''k'' s' = (s', Inr [1, 2, 3]) \<and> (\<exists>prior. describe sample_fe ''b'' ''k'' s'
      = (s', Inr (put_metadata sample_fe 0 prior sample_path ''b'' ''k'' [1, 2, 3] sample_opts)))"
    using put_get_run [OF P sample_json _ _ sample_facts(8) s'] by (auto simp: sample_facts sample_path_def)
  then show thesis
    using that [of s'] s'(2) r len sample_facts(8) by (auto simp: sample_path_def sample_facts)
qed

subsection \<open>Properties\<close>

text \<open>C3. A put is atomic under every pattern of I/O failures: an error of any kind leaves the object file as
  it was. Success means the file is the record of this put, with the payload, the sealed metadata of this put and the header
  of both, except that the last write is never flushed: when it fails, up to the whole trailer (64 bytes) is missing at the end.
  Nothing is missing, and the creation time is that of the replaced version, when no call fails. No other file than the object's own and
  its temporary one is touched, and the lock is held only during the call.\<close>

theorem put_atomic:
  assumes "put E nonce b k data opts s = (s', r)" and "path_key (fs_mek s) = Some pk" and "hmac_len (fe_prims E)"
  shows "fs_locks s' = fs_locks s
    \<and> (\<forall>p. p \<notin> {obj_path_for (fe_prims E) (fs_base_path s) pk b k,
                with_extension (obj_path_for (fe_prims E) (fs_base_path s) pk b k) ''tmp''} \<longrightarrow> ft_file s' p = ft_file s p)
    \<and> (case r of
         Inl e \<Rightarrow> ft_file s' (obj_path_for (fe_prims E) (fs_base_path s) pk b k) = ft_file s (obj_path_for (fe_prims E) (fs_base_path s) pk b k)
       | Inr overwrote \<Rightarrow> \<exists>mek chk prior json meta missing.
           object_metadata_key (fs_mek s) = Some mek \<and> container_header_key (fs_mek s) = Some chk
           \<and> fe_ser E (put_metadata E (now_nanos s) prior (obj_path_for (fe_prims E) (fs_base_path s) pk b k) b k data opts) = Inr json
           \<and> encrypt_meta (fe_prims E) nonce mek json (encode_object_id (fe_prims E) pk b k) META_PAD_BLOCK = Inr meta
           \<and> ft_file s' (obj_path_for (fe_prims E) (fs_base_path s) pk b k)
             = Some (cut_record missing (obj_record E chk (encode_object_id (fe_prims E) pk b k) (po_sync opts) data meta))
           \<and> missing \<le> HEADER_SIZE
           \<and> (ft_faults s = [] \<longrightarrow> missing = 0
               \<and> prior = Option.bind (ft_file s (obj_path_for (fe_prims E) (fs_base_path s) pk b k))
                   (\<lambda>c. map_option md_created (meta_of_file E mek chk (obj_path_for (fe_prims E) (fs_base_path s) pk b k) c))))"
proof -
  let ?obj = "obj_path_for (fe_prims E) (fs_base_path s) pk b k"
  let ?Q = "\<lambda>p. p \<notin> {?obj, with_extension ?obj ''tmp''}"
  have same: "fs_locks s' = fs_locks s \<and> (\<forall>p. ?Q p \<longrightarrow> ft_file s' p = ft_file s p)
      \<and> (\<forall>e. r = Inl e \<longrightarrow> ft_file s' ?obj = ft_file s ?obj)"
    using assms(1,2)
  proof (cases rule: put_parts)
    case (locked t)
    have fr: "frames ?Q (put_locked E nonce ?obj b k data opts)" by (rule put_locked_frames) simp_all
    note w = with_lock_frame [OF locked(8) fr]
    have "ft_file s' ?obj = ft_file s ?obj" if "r = Inl e" for e
      using with_lock_clean [OF locked(8) [unfolded that] put_locked_clean [OF tmp_not_obj(1) [OF assms(3)]]] locked(2) by simp
    then show ?thesis using w(1,5) locked(2,3) by simp
  qed simp
  show ?thesis
  proof (cases r)
    case (Inr ow)
    show ?thesis
      by (rule put_InrE [OF assms(1) [unfolded Inr] assms(2,3)]) (use same in \<open>simp add: Inr; blast\<close>)
  qed (use same in simp)
qed

theorem put_atomic_witness:
  "\<exists>s' r. put sample_fe (replicate 12 0) ''b'' ''k'' [1, 2, 3] sample_opts
       (sample_fs\<lparr>ft_faults := [None, Some (''disk full'', 3)]\<rparr>) = (s', r) \<and> fs_locks s' = []
     \<and> ft_file s' [''elsewhere''] = None"
proof -
  let ?s = "sample_fs\<lparr>ft_faults := [None, Some (''disk full'', 3)]\<rparr>"
  obtain s' r where p: "put sample_fe (replicate 12 0) ''b'' ''k'' [1, 2, 3] sample_opts ?s = (s', r)"
    by (cases "put sample_fe (replicate 12 0) ''b'' ''k'' [1, 2, 3] sample_opts ?s") auto
  have k: "path_key (fs_mek ?s) = Some (derive_path_key plain_prims sample_nk)" using sample_facts(8) by (simp add: fs_mek_def)
  have P: "hmac_len (fe_prims sample_fe)" using plain_hmac_len by (simp add: sample_facts)
  let ?obj = "obj_path_for (fe_prims sample_fe) (fs_base_path ?s) (derive_path_key plain_prims sample_nk) ''b'' ''k''"
  have "[''elsewhere''] \<notin> {?obj, with_extension ?obj ''tmp''}"
    using obj_path_facts(2) [OF P, of "''tmp''" "fs_base_path ?s" "derive_path_key plain_prims sample_nk" "''b''" "''k''"]
    by (simp add: obj_path_eq [OF P] obj_dir_def Let_def)
  then have "ft_file s' [''elsewhere''] = ft_file ?s [''elsewhere'']" "fs_locks s' = fs_locks ?s"
    using put_atomic [OF p k P] by blast+
  then show ?thesis using p by (simp add: sample_fs_def ft_file_def)
qed

text \<open>C14. What a put stored is what is read back: after a successful put, whatever failures it survived, either get returns
  the payload and describe the metadata of this put, or, when the last, unflushed write was cut off, both report an error; nothing else is
  ever read. When no call of the put failed it is the former, with the creation time of the version it replaced when there was one.\<close>

theorem put_get_round_trip:
  assumes "aead_correct (fe_prims E)" and "hmac_len (fe_prims E)" and "json_ok E" and "length nonce = 12" and "length data < 2 ^ 63"
    and "path_key (fs_mek s) = Some pk" and "put E nonce b k data opts s = (s', Inr ow)" and "ft_faults s' = []"
  shows "\<exists>prior cut. (if cut
        then (\<exists>e. snd (get E b k s') = Inl e) \<and> (\<exists>e. snd (describe E b k s') = Inl e)
        else get E b k s' = (s', Inr data)
          \<and> describe E b k s' = (s', Inr (put_metadata E (now_nanos s) prior (obj_path_for (fe_prims E) (fs_base_path s) pk b k) b k data opts)))
    \<and> (ft_faults s = [] \<longrightarrow> \<not> cut \<and> (\<forall>old. describe E b k s = (s, Inr old) \<longrightarrow> prior = Some (md_created old)))"
  using assms by (rule put_get_run)

theorem put_get_round_trip_witness:
  "\<exists>s' ow. put sample_fe (replicate 12 0) ''b'' ''k'' [1, 2, 3] sample_opts sample_fs = (s', Inr ow)
     \<and> get sample_fe ''b'' ''k'' s' = (s', Inr [1, 2, 3])"
proof -
  obtain s' ow where s': "put sample_fe (replicate 12 0) ''b'' ''k'' [1, 2, 3] sample_opts sample_fs = (s', Inr ow)" "ft_faults s' = []"
    by (rule sample_put)
  have P: "aead_correct (fe_prims sample_fe)" "hmac_len (fe_prims sample_fe)"
    using plain_aead_correct plain_hmac_len by (simp_all add: sample_facts)
  show ?thesis using put_get_round_trip [OF P sample_json _ _ sample_facts(8) s'] s'(1) by (auto simp: sample_facts(3))
qed

text \<open>A ranged read returns exactly the bytes of the payload from the first to the last one asked for, cut off at
  its end; a range that starts behind the end is empty.\<close>

lemma get_range_slice:
  assumes "ft_faults s = []" and "get E b k s = (s, Inr data)" and "length data < 2 ^ 63" and "first \<le> final"
  shows "get_range E b k first final s = (s, Inr (Some (take (unat final - unat first + 1) (drop (unat first) data))))"
proof -
  obtain p c h where r: "\<forall>op. open_record E op b k s = (s, Inr (p, c, h))"
    "unat (hd_data_offset h) + unat (hd_data_len h) \<le> length c"
    "data = take (unat (hd_data_len h)) (drop (unat (hd_data_offset h)) c)" "check_total_len h (of_nat (length c)) = Inr ()"
    by (rule open_record_of_get [OF assms(1,2)])
  have ld: "length data = unat (hd_data_len h)" using r(2,3) by simp
  show ?thesis
  proof (cases "hd_data_len h \<le> first")
    case True
    then have "length data \<le> unat first" using ld by (simp add: word_le_nat_alt)
    then show ?thesis using True r(1) by (simp add: get_range_def sbind_def sret_def)
  next
    case False
    define last' where "last' = min final (hd_data_len h - 1)"
    define n where "n = unat (last' - first + 1)"
    have nz: "hd_data_len h \<noteq> 0" using False by auto
    have lt: "unat first < length data" using False ld by (simp add: word_le_nat_alt)
    have u1: "unat (hd_data_len h - 1) = length data - 1" using nz ld by (simp add: unat_minus_one)
    have ul: "unat last' = min (unat final) (length data - 1)"
      using u1 by (auto simp: last'_def min_def word_le_nat_alt)
    have le: "unat first \<le> unat last'" using ul lt assms(4) by (simp add: word_le_nat_alt)
    have "unat (last' - first) = unat last' - unat first" using le by (simp add: unat_sub word_le_nat_alt)
    then have un: "n = unat last' - unat first + 1"
      unfolding n_def using ul lt assms(3) by (subst unat_plus_if') (auto simp: min_def split: if_splits)
    have small: "n \<le> length data - unat first" "n < 2 ^ 63" using un ul lt assms(3) by auto
    have meta: "unat (meta_offset h) = unat (hd_data_offset h) + unat (hd_data_len h)"
      using r(4) by (rule total_len_meta_offset)
    then have off: "unat (ucast (hd_data_offset h) + first :: u64) = unat (hd_data_offset h) + unat first"
      using lt ld unsigned_less [of "meta_offset h", where 'a = nat]
      by (subst unat_add_u64) (simp_all add: unat_ucast_u64)
    have slice: "take n (drop (unat (hd_data_offset h) + unat first) c) = take n (drop (unat first) data)"
      using small(1) lt ld r(3) by (simp add: drop_take min_def add.commute)
    have fits: "unat (hd_data_offset h) + unat first + n \<le> length c" using small(1) lt ld r(2) by simp
    have cut: "take n (drop (unat first) data) = take (unat final - unat first + 1) (drop (unat first) data)"
      using un ul lt by (auto simp: min_def)
    show ?thesis
      using False nz small(2) fits
      unfolding get_range_def sbind_run [of "open_record E ''get_range'' b k", OF r(1) [rule_format]]
      by (simp add: Let_def flip: last'_def n_def)
        (simp add: sbind_def smap_err_def io_pure [OF assms(1)] off sret_def slice cut)
  qed
qed

text \<open>A delete removes the object's file or, on any error, leaves it as it was, and touches no other file.\<close>

lemma delete_atomic:
  assumes "delete E b k s = (s', r)" and "path_key (fs_mek s) = Some pk"
  shows "fs_locks s' = fs_locks s
    \<and> (\<forall>p. p \<noteq> obj_path_for (fe_prims E) (fs_base_path s) pk b k \<longrightarrow> ft_file s' p = ft_file s p)
    \<and> ft_file s' (obj_path_for (fe_prims E) (fs_base_path s) pk b k)
      = (case r of Inl e \<Rightarrow> ft_file s (obj_path_for (fe_prims E) (fs_base_path s) pk b k) | Inr u \<Rightarrow> None)"
proof -
  let ?obj = "obj_path_for (fe_prims E) (fs_base_path s) pk b k"
  let ?ix = "sbind (stry (ix_call (\<lambda>fault ix. remove (fe_de E) fault ix b k))) (\<lambda>_. sret ()) :: unit fs_comp"
  obtain t q where t: "open_record E ''delete'' b k s = (t, q)" by (cases "open_record E ''delete'' b k s") auto
  note f = framesD [OF frames_open_record [of "\<lambda>_. True"] t, simplified]
  show ?thesis
  proof (cases q)
    case (Inl e)
    then have "s' = t" "r = Inl e" using assms(1) t by (simp_all add: delete_def sbind_def)
    then show ?thesis using f by simp
  next
    case (Inr x)
    obtain c h where x: "x = (?obj, c, h)"
      using open_record_path [of E "''delete''" b k s t _ _ _ pk] t Inr assms(2) by (cases x) auto
    obtain u q2 where u: "io_remove_file ?obj t = (u, q2)" by (cases "io_remove_file ?obj t") auto
    have fu: "frames (\<lambda>p. p \<noteq> ?obj) (io_remove_file ?obj)" by (rule frames_remove_file) simp
    note g = framesD [OF fu u]
    have d: "(s', r) = (case q2 of Inl e \<Rightarrow> if e \<noteq> NoSuchFile then sfail (io_err E b k ''delete'' ''unlink: '' e) else ?ix
        | Inr _ \<Rightarrow> ?ix) u"
      using assms(1) t Inr x u by (simp add: delete_def sbind_def stry_def)
    have ok: "r = Inr ()" "\<forall>p. ft_file s' p = ft_file u p" "fs_locks s' = fs_locks u" if "?ix u = (s', r)"
    proof -
      have "frames (\<lambda>_. True) ?ix" by (intro frame_rules)
      from framesD [OF this that] show "\<forall>p. ft_file s' p = ft_file u p" "fs_locks s' = fs_locks u" by simp_all
      show "r = Inr ()" using that by (auto simp: sbind_def stry_def sret_def split: prod.splits)
    qed
    note rc = remove_file_cases [OF u]
    show ?thesis
    proof (cases "?ix u = (s', r)")
      case True
      have "ft_file u ?obj = None" using rc d True f(5) ok(1) [OF True] by (cases q2) (auto split: if_splits simp: sfail_def)
      then show ?thesis using ok [OF True] f g by auto
    next
      case False
      then have "\<exists>e. q2 = Inl e \<and> s' = u \<and> r = Inl (io_err E b k ''delete'' ''unlink: '' e)"
        using d by (cases q2) (auto simp: sfail_def split: if_splits)
      then show ?thesis using rc f g by auto
    qed
  qed
qed

text \<open>Relabelling an object changes its labels and its modification time and nothing else: the payload and the rest of
  its metadata read back as before. If it fails, for whatever reason, the object file is untouched.\<close>

lemma set_labels_spec:
  assumes "aead_correct (fe_prims E)" and "hmac_len (fe_prims E)" and "json_ok E" and "length nonce = 12"
    and "path_key (fs_mek s) = Some pk" and "get E b k (s\<lparr>ft_faults := []\<rparr>) = (t, Inr data)"
    and "describe E b k (s\<lparr>ft_faults := []\<rparr>) = (t, Inr old)"
    and "\<forall>c. ft_file s (obj_path_for (fe_prims E) (fs_base_path s) pk b k) = Some c \<longrightarrow> length c < 2 ^ 63"
    and "set_labels E nonce b k labels s = (s', r)" and "ft_faults s' = []"
  shows "case r of
      Inl e \<Rightarrow> ft_file s' (obj_path_for (fe_prims E) (fs_base_path s) pk b k) = ft_file s (obj_path_for (fe_prims E) (fs_base_path s) pk b k)
    | Inr u \<Rightarrow> get E b k s' = (s', Inr data)
        \<and> describe E b k s' = (s', Inr (old\<lparr>md_labels := labels, md_modified := now_nanos s\<rparr>))"
proof -
  define obj where "obj = obj_path_for (fe_prims E) (fs_base_path s) pk b k"
  define oid where "oid = encode_object_id (fe_prims E) pk b k"
  have id: "object_id_from_path obj = Some oid" unfolding obj_def oid_def by (rule obj_path_facts(1) [OF assms(2)])
  let ?s = "s\<lparr>ft_faults := []\<rparr>"
  have mk: "fs_mek ?s = fs_mek s" by (simp add: fs_mek_def)
  have q: "ft_faults ?s = []" by simp
  obtain chk c where g: "validate_bucket E b = Inr ()" "validate_key k = Inr ()" "dm_get (fs_locks s) (b, k) = None"
    "container_header_key (fs_mek s) = Some chk" "ft_file s obj = Some c" "data_of_file E chk obj c = Some data"
    using assms(5,6) unfolding get_Inr [OF q] by (auto simp: mk obj_def)
  obtain mek where m: "object_metadata_key (fs_mek s) = Some mek" "meta_of_file E mek chk obj c = Some old"
    using assms(5,7) g(4,5) unfolding describe_Inr [OF q] by (auto simp: mk obj_def)
  have eq: "set_labels E nonce b k labels s = rewrite_labels E nonce mek chk obj b k labels s"
    using assms(5) g(1-4) m(1)
    by (simp add: set_labels_def set_labels_impl_def sbind_def look_pure check_not_locked_def require_path_key_def
        require_object_metadata_key_def require_container_header_key_def require_key_def validated_pure obj_def)
  show ?thesis
  proof (cases r)
    case (Inl e)
    have "fails_clean obj (rewrite_labels E nonce mek chk obj b k labels)"
      by (rule rewrite_labels_clean) (simp add: obj_def tmp_not_obj [OF assms(2)])
    then have "ft_file s' obj = ft_file s obj" using assms(9) eq Inl unfolding fails_clean_def by metis
    then show ?thesis by (simp add: Inl obj_def)
  next
    case (Inr u)
    obtain h json new_meta where r: "header_of_file E chk obj c = Some h"
      "fe_ser E (old\<lparr>md_labels := labels, md_modified := now_nanos s\<rparr>) = Inr json"
      "encrypt_meta (fe_prims E) nonce mek json oid META_PAD_BLOCK = Inr new_meta"
      "ft_file s' obj = Some (relabelled c h new_meta (encode_header (fe_prims E) (h\<lparr>hd_meta_len := of_nat (length new_meta)\<rparr>) chk oid))"
      by (rule rewrite_labels_Inr [OF _ id g(5) m(2)]) (use assms(9) eq Inr in auto)
    have j: "fe_de E json = Inr (old\<lparr>md_labels := labels, md_modified := now_nanos s\<rparr>)" "length json < 2 ^ 31"
      using assms(3) r(2) by (auto simp: json_ok_def)
    note ms = meta_sealed [OF assms(1,4) j(2) r(3)]
    have len: "length c < 2 ^ 63" "length new_meta < 2 ^ 32" using assms(8) g(5) ms(2) by (auto simp: obj_def)
    note rd = relabelled_reads [OF assms(2) r(1) g(6) id len]
    have fr: "frames (\<lambda>_. False) (rewrite_labels E nonce mek chk obj b k labels)" by (rule rewrite_labels_frames) simp_all
    note f = framesD [OF fr, of s s' r]
    have st: "fs_mek s' = fs_mek s" "fs_base_path s' = fs_base_path s" "fs_locks s' = fs_locks s" using f assms(9) eq by auto
    have "get E b k s' = (s', Inr data)"
      unfolding get_Inr [OF assms(10)] using g r(4) rd(2) st assms(5) by (auto simp: obj_def)
    moreover have "describe E b k s' = (s', Inr (old\<lparr>md_labels := labels, md_modified := now_nanos s\<rparr>))"
      unfolding describe_Inr [OF assms(10)] using g m r(4) rd(3) [of mek] ms(1) j(1) st assms(5) by (auto simp: obj_def)
    ultimately show ?thesis by (simp add: Inr)
  qed
qed

lemma sample_run: "fs_run sample_fe [''d''] sample_fs []"
proof -
  define s0 :: fs_storage where "s0 = sample_fs\<lparr>fs_index := MetadataIndex_new []\<rparr>"
  have tree: "layout_at [''d''] \<lparr>ft_files = [], ft_dirs = [[''d'']], ft_faults = [], ft_now = 0\<rparr>"
    by (simp add: layout_at_def ft_file_def ft_is_dir_def dir_place_def)
  have "FilesystemStorage_new sample_fe (\<lambda>p. p) [''d''] [] \<lparr>ft_files = [], ft_dirs = [], ft_faults = [], ft_now = 0\<rparr>
      = (\<lparr>ft_files = [], ft_dirs = [[''d'']], ft_faults = [], ft_now = 0\<rparr>, Inr s0)"
    by (simp add: FilesystemStorage_new_def s0_def sample_fs_def comp_simps io_create_dir_all_def step_call_def io_call_def
        add_dirs_def path_prefixes_def ft_file_def file_tree.defs path_str_def LockRegistry_new_def smap_err_def)
  then have "fs_run sample_fe [''d''] s0 []" using tree by (rule fs_run.start)
  then have "fs_run sample_fe [''d''] (install_node_key sample_fe (\<lambda>p nk. Inl (Index [])) sample_nk s0) []" 
    by (rule fs_run.step [OF _ fs_step.node_key])
  moreover have "install_node_key sample_fe (\<lambda>p nk. Inl (Index [])) sample_nk s0 = sample_fs"
    by (simp add: install_node_key_def set_node_key_def s0_def sample_fs_def MetadataIndex_new_def open_db_def sample_facts(1))
  ultimately show ?thesis by simp
qed

text \<open>C13. From every state the storage can reach, through any interleaving of its operations and of open streaming puts, with
  I/O failures at any call, the directory layout under the base path it was opened on is kept, and the only files that ever
  appear are object files, named by the object id in the shard directories of its first four digits, the temporary files of a put and
  of a relabelling next to them, and the configuration of a bucket and its temporary file; the only directories are those
  of buckets and shards and the way to the base path. (The index file belongs to the index.)\<close>

theorem layout_invariant:
  assumes "hmac_len (fe_prims E)" and "fs_run E B s gs" and "(fs_step E)\<^sup>*\<^sup>* (s, gs) (s', gs')"
  shows "layout_ok s' \<and> fs_base_path s' = B
    \<and> (\<forall>p. ft_file s' p \<noteq> None \<longrightarrow> ft_file s p \<noteq> None \<or> (\<exists>rest. p = B @ rest \<and> (object_file rest \<or> config_file rest)))
    \<and> (\<forall>p. ft_is_dir s' p \<longrightarrow> ft_is_dir s p \<or> (\<exists>rest. p = B @ rest \<and> own_dir rest) \<or> prefix p B)"
proof -
  have "fs_inv (tree_of s) B s'" using steps_inv [OF assms(1,3) run_inv [OF assms(1,2)]] by simp
  then show ?thesis by (auto simp: fs_inv_def layout_ok_def tree_of_def file_at_def dir_at_def own_file_def)
qed

theorem layout_invariant_witness:
  "\<exists>s. fst (put sample_fe (replicate 12 0) ''b'' ''k'' [1, 2, 3] sample_opts sample_fs) = s \<and> layout_ok s \<and> fs_base_path s = [''d'']
     \<and> ft_file s [''d'', ''stray''] = None"
proof -
  let ?s = "fst (put sample_fe (replicate 12 0) ''b'' ''k'' [1, 2, 3] sample_opts sample_fs)"
  have "(fs_step sample_fe)\<^sup>*\<^sup>* (sample_fs, []) (?s, [])" using fs_step.put by (rule r_into_rtranclp)
  note inv = layout_invariant [OF _ sample_run this, unfolded sample_facts(1), OF plain_hmac_len]
  have "ft_file sample_fs [''d'', ''stray''] = None" by (simp add: sample_fs_def ft_file_def)
  moreover have "\<not> object_file rest" "\<not> config_file rest" if "[''d'', ''stray''] = [''d''] @ rest" for rest
    using that by (auto simp: object_file_def config_file_def)
  ultimately have "ft_file ?s [''d'', ''stray''] = None" using inv by blast
  then show ?thesis using inv by simp
qed

text \<open>C16. In every reachable state of the storage in which no I/O call fails, the keys are installed, the name is valid and not
  locked, and the codec accepts the metadata, a put succeeds, and it reports whether it replaced an object.\<close>

theorem put_succeeds:
  assumes "aead_correct (fe_prims E)" and "hmac_len (fe_prims E)" and "length nonce = 12"
    and "fs_run E B s gs" and "ft_faults s = []" and "validate_bucket E b = Inr ()" and "validate_key k = Inr ()"
    and "dm_get (fs_locks s) (b, k) = None" and "fs_mek s = install (fe_prims E) nk"
    and "\<forall>prior. \<exists>json. fe_ser E (put_metadata E (now_nanos s) prior
      (obj_path_for (fe_prims E) B (derive_path_key (fe_prims E) nk) b k) b k data opts) = Inr json \<and> length json < 2 ^ 31"
  shows "\<exists>s'. put E nonce b k data opts s
    = (s', Inr (ft_file s (obj_path_for (fe_prims E) B (derive_path_key (fe_prims E) nk) b k) \<noteq> None)) \<and> ft_faults s' = []"
proof -
  have "layout_ok s" and B: "B = fs_base_path s" using run_inv [OF assms(2,4)] by (auto simp: layout_ok_def fs_inv_def)
  then show ?thesis using put_run [OF assms(1-3) \<open>layout_ok s\<close> assms(5-9)] assms(10) unfolding B by blast
qed

theorem put_succeeds_witness:
  "\<exists>s'. put sample_fe (replicate 12 0) ''b'' ''k'' [1, 2, 3] sample_opts sample_fs = (s', Inr False)"
proof -
  have "\<forall>prior. \<exists>json. fe_ser sample_fe (put_metadata sample_fe 0 prior sample_path ''b'' ''k'' [1, 2, 3] sample_opts) = Inr json
      \<and> length json < 2 ^ 31"
    unfolding sample_put_md by (simp add: sample_fe_def)
  then show ?thesis
    using put_succeeds [OF _ _ _ sample_run, of "replicate 12 0" "''b''" "''k''" sample_nk "[1, 2, 3]" sample_opts]
      plain_aead_correct plain_hmac_len sample_facts sample_valid
    by (auto simp: sample_path_def ft_file_def sample_fs_def)
qed

end
