(* ===== verification/Filesystem_Rebuild.thy ===== *)
theory Filesystem_Rebuild
  imports Filesystem_Properties
begin

text \<open>
  The rebuild of the metadata index from the object files (\<open>run_rebuild\<close> in
  \<open>crates/y2q-core/src/storage/filesystem.rs\<close>): the walk over the tree, the upserts, and the removal of the
  rows whose objects are gone. Afterwards the index answers every lookup with what is on disk.
\<close>

subsection \<open>Walking the tree\<close>

fun walk :: "nat \<Rightarrow> 's file_tree_scheme \<Rightarrow> path \<Rightarrow> path list" where
  "walk 0 s d = concat (map (\<lambda>e. if path_extension (fst e) = Some ''obj'' then [fst e] else []) (dir_entries s d))"
| "walk (Suc n) s d = concat (map (\<lambda>e. if snd e then walk n s (fst e) else []) (dir_entries s d))"

lemma dir_entries_dir: "(p, True) \<in> set (dir_entries s d) \<longleftrightarrow> ft_is_dir s p \<and> p \<noteq> [] \<and> butlast p = d"
  by (auto simp: dir_entries_def ft_is_dir_def)

lemma dir_entries_file: "ft_file s p \<noteq> None \<Longrightarrow> p \<noteq> [] \<Longrightarrow> (p, False) \<in> set (dir_entries s (butlast p))"
  by (force simp: dir_entries_def ft_file_def dest: map_of_SomeD)

lemma dir_loop_run:
  assumes "ft_faults s = []" and "\<And>e acc. e \<in> set es \<Longrightarrow> f e acc s = (s, Inr (acc @ g e))"
  shows "dir_loop f es acc s = (s, Inr (acc @ concat (map g es)))"
  using assms(2) by (induction es arbitrary: acc) (simp_all add: comp_simps io_call_run [OF assms(1)])

lemma visit_run:
  assumes "ft_faults s = []" and "ft_is_dir s d" and "\<And>e acc. e \<in> set (dir_entries s d) \<Longrightarrow> f e acc s = (s, Inr (acc @ g e))"
  shows "visit f d acc s = (s, Inr (acc @ concat (map g (dir_entries s d))))"
  using assms(2) dir_loop_run [where f = f and g = g and es = "dir_entries s d", OF assms(1,3)]
  by (simp add: visit_def sbind_def io_read_dir_def io_call_run [OF assms(1)])

lemma visit_dirs_run:
  assumes "ft_faults s = []" and "ft_is_dir s d" and "\<And>d acc. ft_is_dir s d \<Longrightarrow> h d acc s = (s, Inr (acc @ g d))"
  shows "visit (in_dirs h) d acc s = (s, Inr (acc @ concat (map (\<lambda>e. if snd e then g (fst e) else []) (dir_entries s d))))"
  by (rule visit_run [OF assms(1,2)])
    (auto simp: in_dirs_def comp_simps io_call_run [OF assms(1)] assms(3) dir_entries_dir)

lemma collect_run:
  assumes "ft_faults s = []" and "ft_is_dir s base"
  shows "collect_obj_files base s = (s, Inr (walk 3 s base))"
proof -
  define leaf :: "path \<times> bool \<Rightarrow> path list \<Rightarrow> (fs_storage, io_error, path list) comp"
    where "leaf = (\<lambda>(p, _) out. sret (if path_extension p = Some ''obj'' then out @ [p] else out))"
  have 0: "visit leaf d acc s = (s, Inr (acc @ walk 0 s d))" if "ft_is_dir s d" for d acc
    unfolding walk.simps by (rule visit_run [OF assms(1) that]) (auto simp: leaf_def comp_simps)
  have 1: "visit (in_dirs (visit leaf)) d acc s = (s, Inr (acc @ walk (Suc 0) s d))" if "ft_is_dir s d" for d acc
    unfolding walk.simps(2) [of 0] by (rule visit_dirs_run [OF assms(1) that]) (rule 0)
  have 2: "visit (in_dirs (visit (in_dirs (visit leaf)))) d acc s = (s, Inr (acc @ walk (Suc (Suc 0)) s d))" if "ft_is_dir s d" for d acc
    unfolding walk.simps(2) [of "Suc 0"] by (rule visit_dirs_run [OF assms(1) that]) (rule 1)
  have "visit (in_dirs (visit (in_dirs (visit (in_dirs (visit leaf)))))) base [] s = (s, Inr ([] @ walk (Suc (Suc (Suc 0))) s base))"
    unfolding walk.simps(2) [of "Suc (Suc 0)"] by (rule visit_dirs_run [OF assms]) (rule 2)
  then show ?thesis by (simp add: collect_obj_files_def leaf_def numeral_3_eq_3)
qed

lemma walk_ext: "p \<in> set (walk n s d) \<Longrightarrow> path_extension p = Some ''obj''"
  by (induction n arbitrary: d) (auto split: if_splits)

lemma walk_file:
  assumes "ft_file s (d @ rest) \<noteq> None" and "path_extension (d @ rest) = Some ''obj''" and "length rest = Suc n"
    and "\<And>q. strict_prefix q (d @ rest) \<Longrightarrow> prefix d q \<Longrightarrow> ft_is_dir s q"
  shows "d @ rest \<in> set (walk n s d)"
  using assms
proof (induction n arbitrary: d rest)
  case 0
  then obtain x where "rest = [x]" by (auto simp: length_Suc_conv)
  then show ?case using 0 dir_entries_file [of s "d @ rest"] by force
next
  case (Suc n)
  then obtain x r where r: "rest = x # r" "length r = Suc n" by (auto simp: length_Suc_conv)
  have "(d @ [x]) @ r \<in> set (walk n s (d @ [x]))"
  proof (rule Suc.IH)
    show "ft_is_dir s q" if "strict_prefix q ((d @ [x]) @ r)" "prefix (d @ [x]) q" for q
      using Suc.prems(4) [of q] that r by (auto simp: prefix_def)
  qed (use Suc.prems r in simp_all)
  moreover have "ft_is_dir s (d @ [x])"
    using r by (intro Suc.prems(4)) (auto simp: strict_prefix_def)
  then have "(d @ [x], True) \<in> set (dir_entries s d)" by (simp add: dir_entries_dir)
  ultimately show ?case using r by force
qed

subsection \<open>The loops of the rebuild\<close>

definition on_disk :: "fs_env \<Rightarrow> bytes \<Rightarrow> bytes \<Rightarrow> fs_storage \<Rightarrow> path \<Rightarrow> metadata option" where
  "on_disk E mek chk s p = Option.bind (ft_file s p) (meta_of_file E mek chk p)"

definition address :: "metadata \<Rightarrow> string \<times> string" where
  "address m = (md_bucket m, md_key m)"

definition codec_ok :: "fs_env \<Rightarrow> metadata \<Rightarrow> bool" where
  "codec_ok E m \<longleftrightarrow> meta_ok m \<and> (\<exists>json. fe_ser E m = Inr json \<and> fe_de E json = Inr m)"

text \<open>A state of a rebuild that started in \<open>s0\<close>, with the index holding \<open>db\<close>.\<close>

definition rebuilding :: "fs_env \<Rightarrow> fs_storage \<Rightarrow> index_db \<Rightarrow> fs_storage \<Rightarrow> bool" where
  "rebuilding E s0 db s \<longleftrightarrow> ft_files s = ft_files s0 \<and> ft_dirs s = ft_dirs s0 \<and> fs_base_path s = fs_base_path s0
     \<and> ft_faults s = [] \<and> fs_ix_faults s = [] \<and> ix_db (fs_index s) = Some db \<and> index_inv (fe_de E) db"

lemma rebuilding_upsert:
  assumes "rebuilding E s0 db s" and "codec_ok E m"
  obtains s' db' where "ix_call (\<lambda>fault ix. upsert (fe_ser E) (fe_de E) fault ix m sync) s = (s', Inr ())"
    and "rebuilding E s0 db' s'"
    and "\<And>b k. str_ok b \<Longrightarrow> str_ok k \<Longrightarrow>
      obj_of (fe_de E) db' b k = (if (b, k) = address m then Some m else obj_of (fe_de E) db b k)"
proof -
  obtain json where j: "fe_ser E m = Inr json" "fe_de E json = Inr m" "meta_ok m" using assms(2) by (auto simp: codec_ok_def)
  have r: "fs_ix_faults s = []" "ix_db (fs_index s) = Some db" "index_inv (fe_de E) db" using assms(1) by (simp_all add: rebuilding_def)
  note u = upsert_inv [OF r(3) j(3,2)]
  let ?db = "db\<lparr>db_objects := tb_insert (encode_object_key (md_bucket m) (md_key m)) json (db_objects db),
    db_labels := insert_label_rows (md_bucket m) (md_key m) (md_labels m) (drop_prev_labels (fe_de E) db (md_bucket m) (md_key m))\<rparr>"
  let ?s = "s\<lparr>fs_index := fs_index s\<lparr>ix_db := Some ?db\<rparr>\<rparr>"
  have "ix_call (\<lambda>fault ix. upsert (fe_ser E) (fe_de E) fault ix m sync) s = (?s, Inr ())"
    using j r by (simp add: ix_call_def upsert_def get_db_def db_call_def Let_def)
  moreover have "rebuilding E s0 ?db ?s" using assms(1) u(1) by (simp add: rebuilding_def)
  ultimately show thesis using that u(2) by (simp add: address_def)
qed

lemma rebuilding_remove:
  assumes "rebuilding E s0 db s" and "str_ok b" and "str_ok k"
  obtains s' db' where "ix_call (\<lambda>fault ix. remove (fe_de E) fault ix b k) s = (s', Inr ())"
    and "rebuilding E s0 db' s'"
    and "\<And>b' k'. str_ok b' \<Longrightarrow> str_ok k' \<Longrightarrow>
      obj_of (fe_de E) db' b' k' = (if (b', k') = (b, k) then None else obj_of (fe_de E) db b' k')"
proof -
  have r: "fs_ix_faults s = []" "ix_db (fs_index s) = Some db" "index_inv (fe_de E) db" using assms(1) by (simp_all add: rebuilding_def)
  note u = remove_inv [OF r(3) assms(2,3)]
  let ?db = "db\<lparr>db_objects := tb_remove (encode_object_key b k) (db_objects db), db_labels := drop_prev_labels (fe_de E) db b k\<rparr>"
  let ?s = "s\<lparr>fs_index := fs_index s\<lparr>ix_db := Some ?db\<rparr>\<rparr>"
  have "ix_call (\<lambda>fault ix. remove (fe_de E) fault ix b k) s = (?s, Inr ())"
    using r by (simp add: ix_call_def remove_def get_db_def db_call_def Let_def)
  moreover have "rebuilding E s0 ?db ?s" using assms(1) u(1) by (simp add: rebuilding_def)
  ultimately show thesis using that u(2) by simp
qed

lemma rebuilding_progress: "rebuilding E s0 db s \<Longrightarrow> rebuilding E s0 db (report_progress n i s)"
  by (simp add: rebuilding_def report_progress_def)

lemma read_on_disk:
  assumes "rebuilding E s0 db s"
  obtains r where "read_obj_metadata E p mek chk s = (s, r)" and "\<And>m. r = Inr m \<longleftrightarrow> on_disk E mek chk s0 p = Some m"
proof -
  have s: "ft_faults s = []" "ft_file s p = ft_file s0 p" using assms by (simp_all add: rebuilding_def ft_file_def)
  obtain r where r: "read_obj_metadata E p mek chk s = (s, r)"
    "\<And>m. r = Inr m \<longleftrightarrow> (\<exists>c. ft_file s p = Some c \<and> meta_of_file E mek chk p c = Some m)"
    by (rule read_obj_metadata_quiet [OF s(1)]) blast
  show thesis by (rule that [OF r(1)]) (simp add: r(2) s(2) on_disk_def bind_eq_Some_conv)
qed

lemma rebuild_loop_run:
  assumes "\<forall>p \<in> set ps. \<forall>m. on_disk E mek chk s0 p = Some m \<longrightarrow> codec_ok E m" and "rebuilding E s0 db s"
  shows "\<exists>s' db' seen'. rebuild_loop E mek chk n i ps seen s = (s', Inr seen') \<and> rebuilding E s0 db' s'
    \<and> set seen' = set seen \<union> address ` set (List.map_filter (on_disk E mek chk s0) ps)
    \<and> (\<forall>b k. str_ok b \<longrightarrow> str_ok k \<longrightarrow> obj_of (fe_de E) db' b k =
        (case map_of (rev (map (\<lambda>m. (address m, m)) (List.map_filter (on_disk E mek chk s0) ps))) (b, k) of
           Some m \<Rightarrow> Some m | None \<Rightarrow> obj_of (fe_de E) db b k))"
  using assms
proof (induction ps arbitrary: i seen db s)
  case Nil
  then show ?case by (auto simp: sret_def List.map_filter_def)
next
  case (Cons p ps)
  obtain r where r: "read_obj_metadata E p mek chk s = (s, r)" "\<And>m. r = Inr m \<longleftrightarrow> on_disk E mek chk s0 p = Some m"
    by (rule read_on_disk [OF Cons.prems(2)]) blast
  have ps: "\<forall>p \<in> set ps. \<forall>m. on_disk E mek chk s0 p = Some m \<longrightarrow> codec_ok E m" using Cons.prems(1) by simp
  show ?case
  proof (cases "on_disk E mek chk s0 p")
    case None
    then obtain e where "r = Inl e" using r(2) by (cases r) auto
    then have "rebuild_loop E mek chk n i (p # ps) seen s = rebuild_loop E mek chk n (i + 1) ps seen (report_progress n i s)"
      using r(1) by (simp add: comp_simps)
    then show ?thesis
      using Cons.IH [OF ps rebuilding_progress [OF Cons.prems(2)]] None by (simp add: List.map_filter_def)
  next
    case (Some m)
    then have m: "r = Inr m" "codec_ok E m" using r(2) Cons.prems(1) by auto
    obtain s1 db1 where u: "ix_call (\<lambda>fault ix. upsert (fe_ser E) (fe_de E) fault ix m Durable) s = (s1, Inr ())"
      "rebuilding E s0 db1 s1"
      "\<And>b k. str_ok b \<Longrightarrow> str_ok k \<Longrightarrow>
        obj_of (fe_de E) db1 b k = (if (b, k) = address m then Some m else obj_of (fe_de E) db b k)"
      by (rule rebuilding_upsert [OF Cons.prems(2) m(2)]) blast
    have "rebuild_loop E mek chk n i (p # ps) seen s = rebuild_loop E mek chk n (i + 1) ps (address m # seen) (report_progress n i s1)"
      using r(1) m(1) u(1) by (simp add: comp_simps address_def)
    moreover obtain s' db' seen' where "rebuild_loop E mek chk n (i + 1) ps (address m # seen) (report_progress n i s1) = (s', Inr seen')"
      "rebuilding E s0 db' s'" "set seen' = set (address m # seen) \<union> address ` set (List.map_filter (on_disk E mek chk s0) ps)"
      "\<And>b k. str_ok b \<Longrightarrow> str_ok k \<Longrightarrow> obj_of (fe_de E) db' b k =
        (case map_of (rev (map (\<lambda>m. (address m, m)) (List.map_filter (on_disk E mek chk s0) ps))) (b, k) of
           Some m \<Rightarrow> Some m | None \<Rightarrow> obj_of (fe_de E) db1 b k)"
      using Cons.IH [OF ps rebuilding_progress [OF u(2)]] by blast
    ultimately show ?thesis
      using Some u(3) by (intro exI [of _ s'] exI [of _ db'] exI [of _ seen']) (simp add: List.map_filter_def map_add_def split: option.split)
  qed
qed

lemma drop_lost_run:
  assumes "rebuilding E s0 db s" and "\<forall>(b, k) \<in> set ks. str_ok b \<and> str_ok k"
  shows "\<exists>s' db'. drop_lost E seen ks s = (s', Inr ()) \<and> rebuilding E s0 db' s'
    \<and> (\<forall>b k. str_ok b \<longrightarrow> str_ok k \<longrightarrow> obj_of (fe_de E) db' b k =
        (if (b, k) \<in> set ks - set seen then None else obj_of (fe_de E) db b k))"
  using assms
proof (induction ks arbitrary: db s)
  case Nil
  then show ?case by (auto simp: sret_def)
next
  case (Cons a ks)
  obtain b k where a: "a = (b, k)" by (cases a)
  show ?case
  proof (cases "(b, k) \<in> set seen")
    case True
    then show ?thesis using Cons.IH [OF Cons.prems(1)] Cons.prems(2) a by auto
  next
    case False
    obtain s1 db1 where u: "ix_call (\<lambda>fault ix. remove (fe_de E) fault ix b k) s = (s1, Inr ())" "rebuilding E s0 db1 s1"
      "\<And>b' k'. str_ok b' \<Longrightarrow> str_ok k' \<Longrightarrow> obj_of (fe_de E) db1 b' k' = (if (b', k') = (b, k) then None else obj_of (fe_de E) db b' k')"
      by (rule rebuilding_remove [OF Cons.prems(1), of b k]) (use Cons.prems(2) a in auto)
    have "drop_lost E seen (a # ks) s = drop_lost E seen ks s1" using a False u(1) by (simp add: comp_simps)
    moreover obtain s' db' where "drop_lost E seen ks s1 = (s', Inr ())" "rebuilding E s0 db' s'"
      "\<And>b k. str_ok b \<Longrightarrow> str_ok k \<Longrightarrow> obj_of (fe_de E) db' b k = (if (b, k) \<in> set ks - set seen then None else obj_of (fe_de E) db1 b k)"
      using Cons.IH [OF u(2)] Cons.prems(2) by auto
    ultimately show ?thesis using a u(3) False by (intro exI [of _ s'] exI [of _ db']) auto
  qed
qed

lemma list_all_keys_run:
  assumes "ix_db ix = Some db" and "index_inv de db"
  obtains ks where "list_all_keys None ix = Inr ks" and "\<forall>(b, k) \<in> set ks. str_ok b \<and> str_ok k"
    and "\<And>b k. str_ok b \<Longrightarrow> str_ok k \<Longrightarrow> obj_of de db b k \<noteq> None \<Longrightarrow> (b, k) \<in> set ks"
proof -
  note i = index_invD [OF assms(2)]
  have row: "decode_object_row row = Inr (address (meta_of_row de row)) \<and> meta_ok (meta_of_row de row)" if "row \<in> set (db_objects db)" for row
    using row_meta [OF i(4,1) that] read_encoded [of _ "[]"]
    by (auto simp: decode_object_row_def encode_splits read_encoded meta_ok_def address_def)
  then have "rmap decode_object_row rows = Inr (map (\<lambda>row. address (meta_of_row de row)) rows)" if "set rows \<subseteq> set (db_objects db)" for rows
    using that by (induction rows) auto
  then have l: "list_all_keys None ix = Inr (map (\<lambda>row. address (meta_of_row de row)) (db_objects db))"
    using assms(1) by (simp add: list_all_keys_def get_db_def db_call_def)
  show thesis
  proof (rule that [OF l])
    show "\<forall>(b, k) \<in> set (map (\<lambda>row. address (meta_of_row de row)) (db_objects db)). str_ok b \<and> str_ok k"
      using row by (auto simp: address_def meta_ok_def)
    show "(b, k) \<in> set (map (\<lambda>row. address (meta_of_row de row)) (db_objects db))" if bk: "str_ok b" "str_ok k" "obj_of de db b k \<noteq> None" for b k
    proof -
      obtain m where m: "obj_of de db b k = Some m" using bk(3) by auto
      then have "m \<in> meta_of_row de ` set (db_objects db)" using metas_iff [OF i(4,1)] bk(1,2) by blast
      then show ?thesis using obj_of_row(2) [OF i(4) bk(1,2) m] by (auto simp: address_def)
    qed
  qed
qed

text \<open>The object files at their own places: every readable \<open>.obj\<close> file is at the path of the address its
  metadata names, its metadata goes through the codec, and every file lies in directories.\<close>

definition objects_placed :: "fs_env \<Rightarrow> bytes \<Rightarrow> fs_storage \<Rightarrow> bool" where
  "objects_placed E nk s \<longleftrightarrow> ft_is_dir s (fs_base_path s)
     \<and> (\<forall>p q. ft_file s p \<noteq> None \<and> strict_prefix q p \<and> prefix (fs_base_path s) q \<longrightarrow> ft_is_dir s q)
     \<and> (\<forall>p m. path_extension p = Some ''obj''
          \<and> on_disk E (derive_object_metadata_key (fe_prims E) nk) (derive_container_header_key (fe_prims E) nk) s p = Some m \<longrightarrow>
          p = obj_path_for (fe_prims E) (fs_base_path s) (derive_path_key (fe_prims E) nk) (md_bucket m) (md_key m) \<and> codec_ok E m)"

definition stored_as :: "fs_env \<Rightarrow> bytes \<Rightarrow> fs_storage \<Rightarrow> string \<Rightarrow> string \<Rightarrow> metadata option" where
  "stored_as E nk s b k =
     (case on_disk E (derive_object_metadata_key (fe_prims E) nk) (derive_container_header_key (fe_prims E) nk) s
             (obj_path_for (fe_prims E) (fs_base_path s) (derive_path_key (fe_prims E) nk) b k) of
        Some m \<Rightarrow> if address m = (b, k) then Some m else None | None \<Rightarrow> None)"

lemma walk_finds:
  assumes "hmac_len (fe_prims E)" and "objects_placed E nk s"
  defines "D \<equiv> on_disk E (derive_object_metadata_key (fe_prims E) nk) (derive_container_header_key (fe_prims E) nk) s"
  shows "stored_as E nk s b k = Some m \<longleftrightarrow> m \<in> set (List.map_filter D (walk 3 s (fs_base_path s))) \<and> address m = (b, k)"
proof -
  let ?path = "obj_path_for (fe_prims E) (fs_base_path s) (derive_path_key (fe_prims E) nk)"
  have placed: "p = ?path (md_bucket m) (md_key m)" if "path_extension p = Some ''obj''" "D p = Some m" for p m
    using assms(2) that unfolding objects_placed_def D_def by blast
  have mem: "?path b k \<in> set (walk 3 s (fs_base_path s))" if d: "D (?path b k) = Some m" for m
  proof -
    obtain rest where rest: "?path b k = fs_base_path s @ rest" "length rest = 4"
      by (rule that [of "encode_bucket_dir (fe_prims E) (derive_path_key (fe_prims E) nk) b # drop (Suc (length (fs_base_path s))) (?path b k)"])
        (simp_all add: obj_path_eq [OF assms(1)] obj_dir_def bucket_dir_path_def Let_def)
    have f: "ft_file s (fs_base_path s @ rest) \<noteq> None" using d rest(1) by (auto simp: D_def on_disk_def bind_eq_Some_conv)
    have dirs: "ft_is_dir s q" if "strict_prefix q (fs_base_path s @ rest)" "prefix (fs_base_path s) q" for q
      using assms(2) f that unfolding objects_placed_def by blast
    show ?thesis
      using walk_file [OF f _ _ dirs, of 3] obj_path_facts(4) [OF assms(1), of "fs_base_path s" "derive_path_key (fe_prims E) nk" b k] rest by simp
  qed
  have "stored_as E nk s b k = Some m \<longleftrightarrow> D (?path b k) = Some m \<and> address m = (b, k)"
    by (auto simp: stored_as_def D_def split: option.splits)
  also have "\<dots> \<longleftrightarrow> (\<exists>p \<in> set (walk 3 s (fs_base_path s)). D p = Some m) \<and> address m = (b, k)"
    using mem placed walk_ext by (metis address_def prod.inject)
  also have "\<dots> \<longleftrightarrow> m \<in> set (List.map_filter D (walk 3 s (fs_base_path s))) \<and> address m = (b, k)"
    by (force simp: List.map_filter_def)
  finally show ?thesis .
qed

lemma map_of_unique:
  assumes "\<And>m m'. m \<in> set ms \<Longrightarrow> m' \<in> set ms \<Longrightarrow> address m = a \<Longrightarrow> address m' = a \<Longrightarrow> m = m'"
  shows "map_of (rev (map (\<lambda>m. (address m, m)) ms)) a = Some m \<longleftrightarrow> m \<in> set ms \<and> address m = a"
proof
  assume "m \<in> set ms \<and> address m = a"
  then obtain m' where m': "map_of (rev (map (\<lambda>m. (address m, m)) ms)) a = Some m'"
    by (cases "map_of (rev (map (\<lambda>m. (address m, m)) ms)) a") (force simp: map_of_eq_None_iff)+
  then show "map_of (rev (map (\<lambda>m. (address m, m)) ms)) a = Some m"
    using assms \<open>m \<in> set ms \<and> address m = a\<close> map_of_SomeD [OF m'] by auto
qed (auto dest: map_of_SomeD)

lemma option_eqI: "(\<And>x. a = Some x \<longleftrightarrow> b = Some x) \<Longrightarrow> a = b"
  by (metis not_None_eq)

lemma rebuild_run:
  assumes "hmac_len (fe_prims E)" and "fs_mek s = install (fe_prims E) nk" and "ft_faults s = []" and "fs_ix_faults s = []"
    and "ix_db (fs_index s) = Some db" and "index_inv (fe_de E) db" and "objects_placed E nk s"
  shows "\<exists>s' db'. run_rebuild E (derive_object_metadata_key (fe_prims E) nk) (derive_container_header_key (fe_prims E) nk) s = (s', Inr ())
    \<and> rebuilding E s db' s' \<and> (\<forall>b k. str_ok b \<longrightarrow> str_ok k \<longrightarrow> obj_of (fe_de E) db' b k = stored_as E nk s b k)"
proof -
  let ?mek = "derive_object_metadata_key (fe_prims E) nk" and ?chk = "derive_container_header_key (fe_prims E) nk"
  let ?D = "on_disk E ?mek ?chk s" and ?ps = "walk 3 s (fs_base_path s)"
  have c: "collect_obj_files (fs_base_path s) s = (s, Inr ?ps)"
    using collect_run [OF assms(3)] assms(7) by (simp add: objects_placed_def)
  have ok: "\<forall>p \<in> set ?ps. \<forall>m. ?D p = Some m \<longrightarrow> codec_ok E m"
    using assms(7) walk_ext unfolding objects_placed_def by blast
  have r0: "rebuilding E s db s" using assms by (simp add: rebuilding_def)
  obtain s1 db1 seen where l: "rebuild_loop E ?mek ?chk (length ?ps) 0 ?ps [] s = (s1, Inr seen)" "rebuilding E s db1 s1"
    "set seen = address ` set (List.map_filter ?D ?ps)"
    "\<And>b k. str_ok b \<Longrightarrow> str_ok k \<Longrightarrow> obj_of (fe_de E) db1 b k =
        (case map_of (rev (map (\<lambda>m. (address m, m)) (List.map_filter ?D ?ps))) (b, k) of
           Some m \<Rightarrow> Some m | None \<Rightarrow> obj_of (fe_de E) db b k)"
    using rebuild_loop_run [OF ok r0, of "length ?ps" 0 "[]"] by auto
  have ix: "ix_db (fs_index s1) = Some db1" "index_inv (fe_de E) db1" "fs_ix_faults s1 = []" using l(2) by (simp_all add: rebuilding_def)
  obtain ks where ks: "list_all_keys None (fs_index s1) = Inr ks" "\<forall>(b, k) \<in> set ks. str_ok b \<and> str_ok k"
    "\<And>b k. str_ok b \<Longrightarrow> str_ok k \<Longrightarrow> obj_of (fe_de E) db1 b k \<noteq> None \<Longrightarrow> (b, k) \<in> set ks"
    by (rule list_all_keys_run [OF ix(1,2)]) blast
  have read: "ix_read list_all_keys s1 = (s1, Inr ks)"
    using ks(1) ix(3) by (simp add: ix_read_def ix_call_def)
  obtain s2 db2 where d: "drop_lost E seen ks s1 = (s2, Inr ())" "rebuilding E s db2 s2"
    "\<And>b k. str_ok b \<Longrightarrow> str_ok k \<Longrightarrow> obj_of (fe_de E) db2 b k = (if (b, k) \<in> set ks - set seen then None else obj_of (fe_de E) db1 b k)"
    using drop_lost_run [OF l(2) ks(2), of seen] by blast
  have "run_rebuild E ?mek ?chk s = (s2, Inr ())"
    using c l(1) read d(1) by (simp add: run_rebuild_def comp_simps)
  moreover have "obj_of (fe_de E) db2 b k = stored_as E nk s b k" if bk: "str_ok b" "str_ok k" for b k
  proof -
    note found = walk_finds [OF assms(1,7), of b k]
    have u: "map_of (rev (map (\<lambda>m. (address m, m)) (List.map_filter ?D ?ps))) (b, k) = stored_as E nk s b k"
    proof (rule option_eqI, goal_cases)
      case (1 m)
      have "m' = m''" if "m' \<in> set (List.map_filter ?D ?ps)" "m'' \<in> set (List.map_filter ?D ?ps)" "address m' = (b, k)" "address m'' = (b, k)" for m' m''
        using that found [of m'] found [of m''] by simp
      then show ?case unfolding found by (rule map_of_unique)
    qed
    have "(b, k) \<in> set seen \<longleftrightarrow> stored_as E nk s b k \<noteq> None" 
    proof -
      have "stored_as E nk s b k \<noteq> None \<longleftrightarrow> (\<exists>m. m \<in> set (List.map_filter ?D ?ps) \<and> address m = (b, k))"
        using found by blast
      then show ?thesis unfolding l(3) by (auto simp: image_iff eq_commute)
    qed
    then show ?thesis
      using d(3) [OF bk] l(4) [OF bk] contrapos_nn [OF _ ks(3) [OF bk]] u
      by (cases "stored_as E nk s b k"; cases "obj_of (fe_de E) db1 b k") (auto split: if_splits)
  qed
  ultimately show ?thesis using d(2) by blast
qed

subsection \<open>The property\<close>

text \<open>The sample object as a file tree, beside an index that knows an object that is gone.\<close>

lemma sample_md_fields: "md_bucket sample_md = ''b''" "md_key sample_md = ''k''" "md_labels sample_md = []"
  by (simp_all add: sample_md_def put_metadata_def sample_opts_def split_beta)

lemma sample_de_json: "fe_de sample_fe (to_be_u64 (md_created sample_md)) = Inr sample_md"
  by (simp add: sample_fe_def)

lemma sample_record:
  obtains c where "on_disk sample_fe (derive_object_metadata_key plain_prims sample_nk) (derive_container_header_key plain_prims sample_nk)
      (s\<lparr>ft_files := [(sample_path, (c, t))]\<rparr>) sample_path = Some sample_md"
proof -
  let ?mek = "derive_object_metadata_key plain_prims sample_nk" and ?chk = "derive_container_header_key plain_prims sample_nk"
  let ?oid = "encode_object_id plain_prims (derive_path_key plain_prims sample_nk) ''b'' ''k''"
  obtain meta where m: "encrypt_meta plain_prims (replicate 12 0) ?mek (to_be_u64 (md_created sample_md)) ?oid META_PAD_BLOCK = Inr meta"
    "decrypt_meta plain_prims ?mek meta ?oid = Inr (to_be_u64 (md_created sample_md))" "length meta < 2 ^ 31 + 2 ^ 14"
    by (rule meta_round_trip [OF plain_aead_correct, of "replicate 12 0" "to_be_u64 (md_created sample_md)" META_PAD_BLOCK ?mek ?oid])
      (use meta_sealed [OF plain_aead_correct, of "replicate 12 0" "to_be_u64 (md_created sample_md)" ?mek ?oid] in
        \<open>auto simp: META_PAD_BLOCK_def\<close>)
  have oid: "object_id_from_path sample_path = Some ?oid"
    unfolding sample_path_def by (rule obj_path_facts(1) [OF plain_hmac_len])
  have "meta_of_file sample_fe ?mek ?chk sample_path (obj_record sample_fe ?chk ?oid Durable [1, 2, 3] meta) = Some sample_md"
    using obj_record_reads(3) [where E = sample_fe and chk = ?chk and sync = Durable and data = "[1, 2, 3]" and meta = meta and mek = ?mek, OF _ oid]
      m plain_hmac_len by (simp add: sample_facts(1) sample_de_json)
  then show thesis by (intro that) (simp add: on_disk_def ft_file_def)
qed

lemma sample_codec: "codec_ok sample_fe sample_md"
  by (simp add: codec_ok_def meta_ok_def sample_strings sample_md_fields) (simp add: sample_fe_def)

text \<open>C17. A rebuild that meets no failure completes and leaves the index answering every lookup with the metadata of the object
  file at that address, and with nothing where there is no readable file: rows that were missing or
  outdated are restored, and rows of lost objects are dropped. The files are not touched.\<close>

theorem rebuild_restores_index:
  assumes "hmac_len (fe_prims E)" and "fs_mek s = install (fe_prims E) nk" and "ft_faults s = []" and "fs_ix_faults s = []"
    and "ix_db (fs_index s) = Some db" and "index_inv (fe_de E) db" and "objects_placed E nk s"
    and "rebuild_cache s = (s1, Inr captured)"
  shows "fs_rebuild_state (rebuild_task E captured s1) = Completed \<and> ft_files (rebuild_task E captured s1) = ft_files s
    \<and> (\<forall>b k. str_ok b \<longrightarrow> str_ok k \<longrightarrow>
        lookup_by_key (fe_de E) None (fs_index (rebuild_task E captured s1)) b k = Inr (stored_as E nk s b k))"
proof -
  have c: "captured = (derive_object_metadata_key (fe_prims E) nk, derive_container_header_key (fe_prims E) nk)"
    and s1: "s1 = s\<lparr>fs_rebuild_state := Running 0\<rparr>"
    using assms(8) install_keys(3,5) [OF assms(1), of nk] assms(2)
    by (auto simp: rebuild_cache_def comp_simps fs_mek_def require_object_metadata_key_def require_container_header_key_def require_key_def
        split: cache_rebuild_status.splits)
  have f: "ft_file s1 = ft_file s" "ft_is_dir s1 = ft_is_dir s" "fs_base_path s1 = fs_base_path s"
    by (simp_all add: s1 ft_file_def ft_is_dir_def fun_eq_iff)
  have same: "stored_as E nk s1 b k = stored_as E nk s b k" "objects_placed E nk s1" for b k
    using assms(7) unfolding stored_as_def on_disk_def objects_placed_def f by blast+
  obtain s' db' where r: "run_rebuild E (fst captured) (snd captured) s1 = (s', Inr ())" "rebuilding E s1 db' s'"
    "\<And>b k. str_ok b \<Longrightarrow> str_ok k \<Longrightarrow> obj_of (fe_de E) db' b k = stored_as E nk s b k"
    using rebuild_run [OF assms(1), of s1 nk db] assms(2-6) same by (auto simp: c s1 fs_mek_def)
  have t: "rebuild_task E captured s1 = s'\<lparr>fs_rebuild_state := Completed\<rparr>" using r(1) by (simp add: rebuild_task_def split: unit.split)
  have db: "ix_db (fs_index s') = Some db'" "index_inv (fe_de E) db'" "ft_files s' = ft_files s" using r(2) by (simp_all add: rebuilding_def s1)
  show ?thesis using lookup_by_key_obj [OF db(1,2)] r(3) db(3) by (simp add: t)
qed

theorem rebuild_restores_index_witness:
  "\<exists>s captured. fs_rebuild_state (rebuild_task sample_fe captured s) = Completed
     \<and> lookup_by_key (fe_de sample_fe) None (fs_index (rebuild_task sample_fe captured s)) ''b'' ''k'' = Inr (Some sample_md)"
proof -
  obtain c where c: "on_disk sample_fe (derive_object_metadata_key plain_prims sample_nk) (derive_container_header_key plain_prims sample_nk)
      (sample_fs\<lparr>ft_files := [(sample_path, (c, 0))]\<rparr>) sample_path = Some sample_md"
    by (rule sample_record)
  define s where "s = sample_fs\<lparr>ft_files := [(sample_path, (c, 0))], ft_dirs := path_prefixes sample_path,
    fs_index := fs_index sample_fs\<lparr>ix_db := Some \<lparr>db_objects = [], db_labels = [], db_buckets = []\<rparr>\<rparr>\<rparr>"
  have s: "fs_mek s = install plain_prims sample_nk" "ft_faults s = []" "fs_ix_faults s = []"
    "ix_db (fs_index s) = Some \<lparr>db_objects = [], db_labels = [], db_buckets = []\<rparr>" "fs_base_path s = [''d'']" "fs_rebuild_state s = Idle"
    by (simp_all add: s_def sample_fs_def fs_mek_def)
  have disk: "on_disk sample_fe (derive_object_metadata_key plain_prims sample_nk) (derive_container_header_key plain_prims sample_nk) s p
      = (if p = sample_path then Some sample_md else None)" for p
    using c by (auto simp: on_disk_def ft_file_def s_def)
  note md = sample_md_fields(1,2)
  have dirs: "ft_is_dir s q" if q: "prefix q sample_path" "q \<noteq> []" for q
  proof -
    obtain zs where zs: "sample_path = q @ zs" using q(1) by (rule prefixE)
    have "q = take (Suc (length q - 1)) sample_path \<and> length q - 1 < length sample_path"
      unfolding zs using q(2) by (cases q) simp_all
    then show ?thesis by (auto simp: ft_is_dir_def s_def path_prefixes_def image_iff)
  qed
  have base: "prefix [''d''] sample_path"
    unfolding sample_path_def by (simp add: obj_path_eq [OF plain_hmac_len] obj_dir_def bucket_dir_path_def Let_def)
  have only: "p = sample_path" if "ft_file s p \<noteq> None" for p using that by (auto simp: ft_file_def s_def split: if_splits)
  have "ft_is_dir s q" if "ft_file s p \<noteq> None" "strict_prefix q p" "prefix [''d''] q" for p q
    using dirs [of q] only [OF that(1)] that(2,3) by (cases q) (auto simp: strict_prefix_def)
  then have "objects_placed sample_fe sample_nk s"
    using dirs [OF base] disk sample_codec md s(5)
    by (auto simp: objects_placed_def sample_facts(1) sample_path_def [symmetric] split: if_splits)
  moreover obtain s1 captured where r: "rebuild_cache s = (s1, Inr captured)"
    using s(1,6) install_keys(3,5) [OF plain_hmac_len, of sample_nk]
    by (auto simp: rebuild_cache_def comp_simps fs_mek_def require_object_metadata_key_def require_container_header_key_def require_key_def)
  ultimately have "fs_rebuild_state (rebuild_task sample_fe captured s1) = Completed
     \<and> lookup_by_key (fe_de sample_fe) None (fs_index (rebuild_task sample_fe captured s1)) ''b'' ''k'' = Inr (stored_as sample_fe sample_nk s ''b'' ''k'')"
    using rebuild_restores_index [of sample_fe s sample_nk _ s1 captured, OF _ _ _ _ s(4) index_inv_empty] s plain_hmac_len sample_strings
    by (simp add: sample_facts(1))
  moreover have "stored_as sample_fe sample_nk s ''b'' ''k'' = Some sample_md"
    using disk md s(5) by (simp add: stored_as_def sample_facts(1) sample_path_def [symmetric] address_def)
  ultimately show ?thesis by (intro exI [of _ s1] exI [of _ captured]) simp
qed

end
