(* ===== verification/Key_Rotation.thy ===== *)
theory Key_Rotation
  imports Filesystem_Storage
begin

text \<open>
  The offline rotation of the node key over the storage tree, \<open>crates/y2q-core/src/storage/rotation.rs\<close>: every
  object and bucket configuration is sealed anew under the new keys and moved to its new name, the bucket directory last;
  and the upgrade of version-1 object headers.

  The tree is that of \<open>File_Tree\<close>, in which every system call can fail. \<open>nonce p\<close> is the random nonce drawn for
  the file at \<open>p\<close>. Counters are \<open>usize\<close> and \<open>u64\<close> values that cannot reach their limit and are natural numbers.
  \<open>debug_assert_eq!\<close> on the length of the metadata is not part of a release build and has no counterpart.
\<close>

type_synonym ('s, 'a) rot_comp = "('s file_tree_scheme, error, 'a) comp"

record rotation_stats =
  rs_buckets_migrated :: nat
  rs_objects_migrated :: nat
  rs_objects_already_done :: nat

record rotation_keys =
  rk_old_path_key :: bytes
  rk_new_path_key :: bytes
  rk_old_omk :: bytes
  rk_new_omk :: bytes
  rk_old_bck :: bytes
  rk_new_bck :: bytes
  rk_old_chk :: bytes
  rk_new_chk :: bytes

definition rot_internal :: "string \<Rightarrow> string \<Rightarrow> string \<Rightarrow> error" where
  "rot_internal bucket operation message = InternalError bucket [] operation message"

definition rot_io_err :: "fs_env \<Rightarrow> string \<Rightarrow> string \<Rightarrow> io_error \<Rightarrow> error" where
  "rot_io_err E bucket operation e = rot_internal bucket operation (fe_io_text E e)"

definition ROTATE :: string where "ROTATE = ''rotate-node-key''"
definition UPGRADE :: string where "UPGRADE = ''upgrade-container-headers''"

text \<open>\<open>try_exists(\<dots>).await.unwrap_or(false)\<close>.\<close>

definition io_exists_or_false :: "path \<Rightarrow> ('s, bool) rot_comp" where
  "io_exists_or_false p = sbind (stry (io_exists p)) (\<lambda>r. sret (case r of Inr b \<Rightarrow> b | Inl _ \<Rightarrow> False))"

text \<open>\<open>tokio::fs::write\<close>: open with truncation, then write.\<close>

definition io_write_file :: "path \<Rightarrow> bytes \<Rightarrow> ('s, unit) io_comp" where
  "io_write_file p bs = sbind (io_open_trunc p) (\<lambda>_. io_write_all p 0 bs)"

text \<open>\<open>rename\<close> of a directory: the target may be an empty directory, and every path below moves.\<close>

definition moved_path :: "path \<Rightarrow> path \<Rightarrow> path \<Rightarrow> path" where
  "moved_path src dst p = (if prefix src p then dst @ drop (length src) p else p)"

definition io_rename_dir :: "path \<Rightarrow> path \<Rightarrow> ('s, unit) io_comp" where
  "io_rename_dir src dst = io_call
     (\<lambda>s. if \<not> ft_is_dir s src then (s, Inl (lookup_err s src))
          else if src = dst then (s, Inr ())
          else if prefix src dst then (s, Inl (Os ''Invalid argument (os error 22)''))
          else if ft_file s dst \<noteq> None then (s, Inl (Os ''Not a directory (os error 20)''))
          else if dir_entries s dst \<noteq> [] then (s, Inl (Os ''Directory not empty (os error 39)''))
          else if \<not> ft_is_dir s (butlast dst) then (s, Inl (lookup_err s dst))
          else (s\<lparr>ft_files := map (\<lambda>(p, f). (moved_path src dst p, f)) (ft_files s),
                  ft_dirs := map (moved_path src dst) (filter (\<lambda>p. p \<noteq> dst) (ft_dirs s))\<rparr>, Inr ()))"

subsection \<open>The files of a bucket\<close>

definition collect_bucket_obj_files :: "path \<Rightarrow> ('s, path list) io_comp" where
  "collect_bucket_obj_files bucket_dir =
     visit (in_dirs (visit (in_dirs (visit (\<lambda>f out.
       sret (if path_extension (fst f) = Some ''obj'' then out @ [fst f] else out)))))) bucket_dir []"

subsection \<open>One object\<close>

text \<open>\<open>path.ancestors().nth(3)\<close>.\<close>

definition third_ancestor :: "path \<Rightarrow> path option" where
  "third_ancestor p = (if length p < 3 then None else Some (take (length p - 3) p))"

definition object_file_name :: "path \<Rightarrow> string \<Rightarrow> path" where
  "object_file_name bucket_dir new_id = bucket_dir @ [take 2 new_id, take 2 (drop 2 new_id), new_id @ ''.obj'']"

text \<open>\<open>Vec::resize(n, 0)\<close>.\<close>

definition resize_bytes :: "nat \<Rightarrow> bytes \<Rightarrow> bytes" where
  "resize_bytes n bs = take n bs @ replicate (n - length bs) 0"

definition migrated_file :: "crypto_prims \<Rightarrow> header \<Rightarrow> bytes \<Rightarrow> string \<Rightarrow> bytes \<Rightarrow> bytes \<Rightarrow> bytes" where
  "migrated_file P h new_chk new_id data new_meta =
     (let new_header_buf = encode_header P h new_chk new_id
      in resize_bytes (unat (hd_data_offset h)) new_header_buf @ data @ new_meta @ new_header_buf)"

definition write_migrated :: "fs_env \<Rightarrow> string \<Rightarrow> path \<Rightarrow> path \<Rightarrow> bytes \<Rightarrow> ('s, unit) rot_comp" where
  "write_migrated E bucket path new_path out =
     (let tmp_path = with_extension new_path ''tmp'' in
      sbind (smap_err (rot_io_err E bucket ROTATE) (io_create_dir_all (butlast new_path))) (\<lambda>_.
      sbind (smap_err (rot_io_err E bucket ROTATE) (io_write_file tmp_path out)) (\<lambda>_.
      sbind (smap_err (rot_io_err E bucket ROTATE) (io_rename tmp_path new_path)) (\<lambda>_.
      if new_path \<noteq> path then smap_err (rot_io_err E bucket ROTATE) (io_remove_file path) else sret ()))))"

text \<open>The result is whether the file was sealed anew.\<close>

definition migrate_object_file :: "fs_env \<Rightarrow> bytes \<Rightarrow> rotation_keys \<Rightarrow> path \<Rightarrow> string \<Rightarrow> ('s, bool) rot_comp" where
  "migrate_object_file E nonce K path bucket =
     (let P = fe_prims E; err = rot_internal bucket ROTATE in
      sbind (slift (ok_or (object_id_from_path path) (err ''cannot derive object id from path''))) (\<lambda>current_id.
      sbind (smap_err (rot_io_err E bucket ROTATE) (io_open path)) (\<lambda>bytes.
      if length bytes < HEADER_SIZE then sfail (err ''object file shorter than header'') else
      sbind (slift (map_err (\<lambda>e. err (''decode header: '' @ fe_format_text E e))
        (decode_header P (take HEADER_SIZE bytes) (rk_old_chk K) current_id))) (\<lambda>header.
      sbind (slift (map_err (\<lambda>e. err (fe_format_text E e)) (check_total_len header (of_nat (length bytes))))) (\<lambda>_.
      let data_start = unat (hd_data_offset header);
          meta_start = unat (meta_offset header);
          meta_end = meta_start + unat (hd_meta_len header);
          data = field data_start meta_start bytes;
          meta_bytes = field meta_start meta_end bytes in
      if is_ok (decrypt_meta P (rk_new_omk K) meta_bytes current_id) then sret False else
      sbind (slift (map_err (\<lambda>_. err (''object at '' @ path_str path
          @ '': metadata decrypts under neither the old nor the new node key ''
          @ [CHR 0xE2, CHR 0x80, CHR 0x94] @ '' possible corruption''))
        (decrypt_meta P (rk_old_omk K) meta_bytes current_id))) (\<lambda>plain_json.
      sbind (slift (map_err (\<lambda>e. err (''parse metadata: '' @ e)) (fe_de E plain_json))) (\<lambda>metadata.
      let new_id = encode_object_id P (rk_new_path_key K) (md_bucket metadata) (md_key metadata) in
      sbind (slift (ok_or (third_ancestor path) (err ''object path too shallow''))) (\<lambda>bucket_dir.
      let new_path = object_file_name bucket_dir new_id in
      sbind (io_exists_or_false new_path) (\<lambda>present.
      if present then
        sbind (if new_path \<noteq> path then stry (io_remove_file path) else sret (Inr ())) (\<lambda>_. sret False)
      else
      sbind (slift (map_err (\<lambda>e. err (''re-encrypt metadata: '' @ fe_crypto_text E e))
        (encrypt_meta P nonce (rk_new_omk K) plain_json new_id META_PAD_BLOCK))) (\<lambda>new_meta.
      sbind (write_migrated E bucket path new_path (migrated_file P header (rk_new_chk K) new_id data new_meta)) (\<lambda>_.
      sret True)))))))))))"

subsection \<open>A bucket\<close>

definition migrate_bucket_config :: "fs_env \<Rightarrow> bytes \<Rightarrow> rotation_keys \<Rightarrow> path \<Rightarrow> string \<Rightarrow> ('s, unit) rot_comp" where
  "migrate_bucket_config E nonce K old_dir bucket =
     (let P = fe_prims E; path = old_dir @ [BUCKET_CONFIG_FILE] in
      sbind (stry (io_open path)) (\<lambda>r.
      case r of
        Inl e \<Rightarrow> if e = NoSuchFile then sret () else sfail (rot_io_err E bucket ROTATE e)
      | Inr bytes \<Rightarrow>
        let new_aad = encode_bucket_dir P (rk_new_path_key K) bucket in
        if is_ok (decrypt_meta P (rk_new_bck K) bytes new_aad) then sret () else
        sbind (slift (map_err (\<lambda>_. rot_internal bucket ROTATE ''bucket config decrypts under neither the old nor the new node key'')
          (decrypt_meta P (rk_old_bck K) bytes (encode_bucket_dir P (rk_old_path_key K) bucket)))) (\<lambda>plain.
        sbind (slift (map_err (\<lambda>e. rot_internal bucket ROTATE (''re-encrypt bucket config: '' @ fe_crypto_text E e))
          (encrypt_meta P nonce (rk_new_bck K) plain new_aad BUCKET_CONFIG_PAD_BLOCK))) (\<lambda>new_bytes.
        let tmp = with_extension path ''json.rotate-tmp'' in
        sbind (smap_err (rot_io_err E bucket ROTATE) (io_write_file tmp new_bytes)) (\<lambda>_.
        smap_err (rot_io_err E bucket ROTATE) (io_rename tmp path))))))"

fun migrate_objects :: "fs_env \<Rightarrow> (path \<Rightarrow> bytes) \<Rightarrow> rotation_keys \<Rightarrow> string \<Rightarrow> path list \<Rightarrow> rotation_stats \<Rightarrow> ('s, rotation_stats) rot_comp" where
  "migrate_objects E nonce K bucket [] stats = sret stats"
| "migrate_objects E nonce K bucket (path # paths) stats =
     sbind (migrate_object_file E (nonce path) K path bucket) (\<lambda>migrated.
     migrate_objects E nonce K bucket paths
       (if migrated then stats\<lparr>rs_objects_migrated := rs_objects_migrated stats + 1\<rparr>
        else stats\<lparr>rs_objects_already_done := rs_objects_already_done stats + 1\<rparr>))"

definition rotate_bucket :: "fs_env \<Rightarrow> (path \<Rightarrow> bytes) \<Rightarrow> rotation_keys \<Rightarrow> path \<Rightarrow> string \<Rightarrow> rotation_stats \<Rightarrow> ('s, rotation_stats) rot_comp" where
  "rotate_bucket E nonce K base_path bucket stats =
     (let old_dir = bucket_dir_path (fe_prims E) base_path (rk_old_path_key K) bucket;
          new_dir = bucket_dir_path (fe_prims E) base_path (rk_new_path_key K) bucket in
      sbind (io_exists_or_false new_dir) (\<lambda>done.
      if done then sret stats else
      sbind (io_exists_or_false old_dir) (\<lambda>present.
      if \<not> present then sret stats else
      sbind (smap_err (rot_io_err E bucket ROTATE) (collect_bucket_obj_files old_dir)) (\<lambda>obj_files.
      sbind (migrate_objects E nonce K bucket obj_files stats) (\<lambda>stats.
      sbind (migrate_bucket_config E (nonce (old_dir @ [BUCKET_CONFIG_FILE])) K old_dir bucket) (\<lambda>_.
      sbind (smap_err (rot_io_err E bucket ROTATE) (io_rename_dir old_dir new_dir)) (\<lambda>_.
      sret (stats\<lparr>rs_buckets_migrated := rs_buckets_migrated stats + 1\<rparr>))))))))"

fun rotate_loop :: "fs_env \<Rightarrow> (path \<Rightarrow> bytes) \<Rightarrow> rotation_keys \<Rightarrow> path \<Rightarrow> string list \<Rightarrow> rotation_stats \<Rightarrow> ('s, rotation_stats) rot_comp" where
  "rotate_loop E nonce K base_path [] stats = sret stats"
| "rotate_loop E nonce K base_path (bucket # buckets) stats =
     sbind (rotate_bucket E nonce K base_path bucket stats) (rotate_loop E nonce K base_path buckets)"

definition rotate_storage_tree :: "fs_env \<Rightarrow> (path \<Rightarrow> bytes) \<Rightarrow> path \<Rightarrow> string list \<Rightarrow> rotation_keys \<Rightarrow> ('s, rotation_stats) rot_comp" where
  "rotate_storage_tree E nonce base_path buckets K =
     rotate_loop E nonce K base_path buckets \<lparr>rs_buckets_migrated = 0, rs_objects_migrated = 0, rs_objects_already_done = 0\<rparr>"

subsection \<open>The upgrade of headers\<close>

definition decode_v1_header :: "crypto_prims \<Rightarrow> bytes \<Rightarrow> header option" where
  "decode_v1_header P buf =
     (if field 0 4 buf \<noteq> MAGIC then None else
      if from_le_u16 (field 4 6 buf) \<noteq> 1 then None else
      if from_le_u32 (field 60 64 buf) \<noteq> crc32 P (field 0 60 buf) then None else
      let raw_data_offset = from_le_u32 (field 20 24 buf);
          data_offset = (if raw_data_offset = 0 then MIN_DATA_OFFSET else raw_data_offset) in
      if data_offset < MIN_DATA_OFFSET then None else
      Some \<lparr>hd_data_len = from_le_u64 (field 8 16 buf), hd_meta_len = from_le_u32 (field 16 20 buf),
            hd_data_offset = data_offset, hd_flags = from_le_u16 (field 6 8 buf), hd_version = VERSION\<rparr>)"

definition upgrade_one_container_header :: "fs_env \<Rightarrow> path \<Rightarrow> bytes \<Rightarrow> string \<Rightarrow> ('s, bool) rot_comp" where
  "upgrade_one_container_header E path chk bucket =
     (let P = fe_prims E; err = rot_internal bucket UPGRADE; io = (\<lambda>e. rot_io_err E bucket UPGRADE e) in
      sbind (slift (ok_or (object_id_from_path path) (err ''cannot derive object id from path''))) (\<lambda>object_id.
      sbind (smap_err io (io_open path)) (\<lambda>file.
      sbind (smap_err io (io_fstat_len file)) (\<lambda>actual_len.
      sbind (smap_err io (io_read_exact file 0 HEADER_SIZE)) (\<lambda>buf.
      if is_ok (decode_header P buf chk object_id) then sret False else
      sbind (slift (ok_or (decode_v1_header P buf) (err (path_str path @ '': unrecognized header'')))) (\<lambda>header.
      sbind (slift (map_err (\<lambda>e. err (fe_format_text E e)) (check_total_len header actual_len))) (\<lambda>_.
      let encoded = encode_header P header chk object_id in
      sbind (smap_err io io_seek) (\<lambda>_.
      sbind (smap_err io (io_write_all path 0 encoded)) (\<lambda>_.
      sbind (smap_err io io_seek) (\<lambda>_.
      sbind (smap_err io (io_write_last path (unat (trailer_offset header)) encoded)) (\<lambda>_.
      sbind (smap_err io io_sync) (\<lambda>_.
      sret True))))))))))))"

fun upgrade_files :: "fs_env \<Rightarrow> bytes \<Rightarrow> string \<Rightarrow> path list \<Rightarrow> nat \<Rightarrow> ('s, nat) rot_comp" where
  "upgrade_files E chk bucket [] upgraded = sret upgraded"
| "upgrade_files E chk bucket (path # paths) upgraded =
     sbind (upgrade_one_container_header E path chk bucket) (\<lambda>b.
     upgrade_files E chk bucket paths (if b then upgraded + 1 else upgraded))"

fun upgrade_loop :: "fs_env \<Rightarrow> path \<Rightarrow> bytes \<Rightarrow> bytes \<Rightarrow> string list \<Rightarrow> nat \<Rightarrow> ('s, nat) rot_comp" where
  "upgrade_loop E base_path pk chk [] upgraded = sret upgraded"
| "upgrade_loop E base_path pk chk (bucket # buckets) upgraded =
     (let dir = bucket_dir_path (fe_prims E) base_path pk bucket in
      sbind (io_exists_or_false dir) (\<lambda>present.
      if \<not> present then upgrade_loop E base_path pk chk buckets upgraded else
      sbind (smap_err (rot_io_err E bucket UPGRADE) (collect_bucket_obj_files dir)) (\<lambda>obj_files.
      sbind (upgrade_files E chk bucket obj_files upgraded) (upgrade_loop E base_path pk chk buckets))))"

definition upgrade_container_headers :: "fs_env \<Rightarrow> path \<Rightarrow> string list \<Rightarrow> bytes \<Rightarrow> bytes \<Rightarrow> ('s, nat) rot_comp" where
  "upgrade_container_headers E base_path buckets pk chk = upgrade_loop E base_path pk chk buckets 0"

end
