(* ===== verification/Rotation_Laws.thy ===== *)
theory Rotation_Laws
  imports Key_Rotation Filesystem_Properties
begin

text \<open>
  What the node-key rotation does to an object: without failures the object is afterwards read under the new keys
  with the same data and metadata; under any failures no object is lost; and two cases in which the rotation does not do
  what it says: a resumed run, and metadata sealed in the old unpadded format.
\<close>

subsection \<open>The record under the new keys\<close>

lemma length_resize [simp]: "length (resize_bytes n bs) = n"
  by (simp add: resize_bytes_def)

lemma take_resize: "length bs \<le> n \<Longrightarrow> take (length bs) (resize_bytes n bs) = bs"
  by (simp add: resize_bytes_def)

lemma object_file_name_facts:
  assumes "hmac_len P"
  shows "object_id_from_path (object_file_name d (encode_object_id P pk b k)) = Some (encode_object_id P pk b k)"
    and "with_extension (object_file_name d (encode_object_id P pk b k)) ''tmp'' \<noteq> object_file_name d (encode_object_id P pk b k)"
    and "path_extension (with_extension (object_file_name d (encode_object_id P pk b k)) ''tmp'') = Some ''tmp''"
    and "butlast (with_extension (object_file_name d (encode_object_id P pk b k)) ''tmp'') = butlast (object_file_name d (encode_object_id P pk b k))"
    and "butlast (object_file_name d (encode_object_id P pk b k)) \<noteq> []"
proof -
  let ?id = "encode_object_id P pk b k"
  let ?d = "d @ [take 2 ?id, take 2 (drop 2 ?id)]"
  have n: "object_file_name d ?id = ?d @ [?id @ ''.'' @ ''obj'']" by (simp add: object_file_name_def)
  have stem: "file_stem (object_file_name d ?id) = Some ?id" unfolding n by (rule named_path [OF assms]) simp_all
  then have t: "with_extension (object_file_name d ?id) ''tmp'' = ?d @ [?id @ ''.'' @ ''tmp'']"
    by (simp add: with_extension_def n butlast_append)
  show "object_id_from_path (object_file_name d ?id) = Some ?id" using stem by (simp add: object_id_from_path_def)
  show "with_extension (object_file_name d ?id) ''tmp'' \<noteq> object_file_name d ?id" by (subst t) (simp add: n)
  show "path_extension (with_extension (object_file_name d ?id) ''tmp'') = Some ''tmp''"
    unfolding t by (rule named_path(2) [OF assms]) simp_all
  show "butlast (with_extension (object_file_name d ?id) ''tmp'') = butlast (object_file_name d ?id)" by (subst t) (simp add: n butlast_append)
  show "butlast (object_file_name d ?id) \<noteq> []" by (simp add: n butlast_append)
qed

text \<open>The parts of a file whose header decodes.\<close>

definition file_data :: "header \<Rightarrow> bytes \<Rightarrow> bytes" where
  "file_data h c = field (unat (hd_data_offset h)) (unat (meta_offset h)) c"

definition file_meta :: "header \<Rightarrow> bytes \<Rightarrow> bytes" where
  "file_meta h c = field (unat (meta_offset h)) (unat (meta_offset h) + unat (hd_meta_len h)) c"

lemma file_parts:
  assumes "header_of_file E chk p c = Some h" and "length c < 2 ^ 64"
  shows "length c = unat (hd_data_offset h) + unat (hd_data_len h) + unat (hd_meta_len h) + 64"
    and "unat (meta_offset h) = unat (hd_data_offset h) + unat (hd_data_len h)"
    and "length (file_data h c) = unat (hd_data_len h)" and "length (file_meta h c) = unat (hd_meta_len h)"
    and "data_of_file E chk p c = Some (file_data h c)"
    and "meta_of_file E mek chk p c = (case decrypt_meta (fe_prims E) mek (file_meta h c) (the (object_id_from_path p)) of
      Inl _ \<Rightarrow> None | Inr json \<Rightarrow> (case fe_de E json of Inr m \<Rightarrow> Some m | Inl _ \<Rightarrow> None))"
    and "hd_version h = VERSION" and "64 \<le> unat (hd_data_offset h)"
proof -
  obtain oid where o: "object_id_from_path p = Some oid" "HEADER_SIZE \<le> length c"
    "decode_header (fe_prims E) (take HEADER_SIZE c) chk oid = Inr h" "check_total_len h (of_nat (length c)) = Inr ()"
    using assms(1) unfolding header_of_file_Some by blast
  have "length (take HEADER_SIZE c) = 64" using o(2) by (simp add: HEADER_SIZE_def)
  note d = decode_header_fields [OF this o(3)]
  note x = check_total_len_exact [OF o(4)]
  have u: "unat (of_nat (length c) :: u64) = length c" using assms(2) by (simp add: unat_of_nat)
  show m: "unat (meta_offset h) = unat (hd_data_offset h) + unat (hd_data_len h)" using x by blast
  show len: "length c = unat (hd_data_offset h) + unat (hd_data_len h) + unat (hd_meta_len h) + 64"
    using x u by (simp add: HEADER_SIZE_def)
  show "length (file_data h c) = unat (hd_data_len h)" "length (file_meta h c) = unat (hd_meta_len h)"
    using len m by (simp_all add: file_data_def file_meta_def field_def)
  show "data_of_file E chk p c = Some (file_data h c)"
    using assms(1) len m by (simp add: data_of_file_def file_data_def field_def)
  show "meta_of_file E mek chk p c = (case decrypt_meta (fe_prims E) mek (file_meta h c) (the (object_id_from_path p)) of
      Inl _ \<Rightarrow> None | Inr json \<Rightarrow> (case fe_de E json of Inr m \<Rightarrow> Some m | Inl _ \<Rightarrow> None))"
    using assms(1) len m by (simp add: meta_of_file_def file_meta_def field_def)
  show "hd_version h = VERSION" by (rule d)
  show "64 \<le> unat (hd_data_offset h)" using d(2) by (simp add: MIN_DATA_OFFSET_def HEADER_SIZE_def word_le_nat_alt)
qed

lemma migrated_file_layout:
  assumes "hmac_len P" and "64 \<le> unat (hd_data_offset h)"
  shows "take 64 (migrated_file P h chk oid data meta) = encode_header P h chk oid"
    and "length (migrated_file P h chk oid data meta) = unat (hd_data_offset h) + length data + length meta + 64"
    and "field (unat (hd_data_offset h)) (unat (hd_data_offset h) + length data) (migrated_file P h chk oid data meta) = data"
    and "field (unat (hd_data_offset h) + length data) (unat (hd_data_offset h) + length data + length meta)
           (migrated_file P h chk oid data meta) = meta"
  using assms length_encode_header [OF assms(1), of h chk oid] take_resize [of "encode_header P h chk oid" "unat (hd_data_offset h)"]
  by (simp_all add: migrated_file_def Let_def field_def)

text \<open>A migrated file reads under the new keys when the new metadata blob is as long as the old one.\<close>

lemma migrated_reads:
  fixes chk :: bytes
  assumes P: "hmac_len (fe_prims E)" and h: "header_of_file E chk0 p0 c0 = Some h" "length c0 < 2 ^ 64"
    and len: "length data = unat (hd_data_len h)" "length meta = unat (hd_meta_len h)"
    and oid: "object_id_from_path p = Some oid"
  defines "c \<equiv> migrated_file (fe_prims E) h chk oid data meta"
  shows "header_of_file E chk p c = Some h" and "file_data h c = data" and "file_meta h c = meta" and "length c = length c0"
proof -
  note f = file_parts [OF h]
  note l = migrated_file_layout [OF P f(8), where chk = chk and oid = oid and data = data and meta = meta]
  show lc: "length c = length c0" using l(2) f(1) len by (simp add: c_def)
  show "file_data h c = data" "file_meta h c = meta"
    using l(3,4) len f(2) by (simp_all add: file_data_def file_meta_def c_def)
  have mn: "MIN_DATA_OFFSET \<le> hd_data_offset h" "hd_data_offset h \<noteq> 0"
    using f(8) by (auto simp: MIN_DATA_OFFSET_def HEADER_SIZE_def word_le_nat_alt)
  have "decode_header (fe_prims E) (take HEADER_SIZE c) chk oid = Inr h"
    unfolding HEADER_SIZE_def c_def l(1) using decode_encoded [OF P f(7), of chk oid chk oid] mn by simp
  moreover have "check_total_len h (of_nat (length c)) = Inr ()"
    using h(1) unfolding header_of_file_Some lc by blast
  ultimately show "header_of_file E chk p c = Some h"
    unfolding header_of_file_Some using oid l(2) by (simp add: c_def HEADER_SIZE_def)
qed

subsection \<open>A migration without failures\<close>

definition free_way :: "'s file_tree_scheme \<Rightarrow> path \<Rightarrow> bool" where
  "free_way s p \<longleftrightarrow> (\<forall>q \<in> set (path_prefixes (butlast p)). ft_file s q = None) \<and> \<not> ft_is_dir s p
     \<and> \<not> ft_is_dir s (with_extension p ''tmp'')
     \<and> p \<notin> set (path_prefixes (butlast p)) \<and> with_extension p ''tmp'' \<notin> set (path_prefixes (butlast p))"

lemma prefixes_shorter: "q \<in> set (path_prefixes p) \<Longrightarrow> length q \<le> length p"
  by (auto simp: path_prefixes_def)

lemma prefixes_self: "p \<noteq> [] \<Longrightarrow> p \<in> set (path_prefixes p)"
  by (cases p rule: rev_cases) (auto simp: path_prefixes_def)

lemma write_file_run:
  assumes "ft_faults s = []" and "\<not> ft_is_dir s p" and "ft_is_dir s (butlast p)"
  obtains s' where "io_write_file p bs s = (s', Inr ())" and "ft_file s' = (ft_file s)(p \<mapsto> bs)" and "ft_faults s' = []"
    and "ft_dirs s' = ft_dirs s"
proof -
  let ?s1 = "put_file p [] s" and ?s2 = "write_through p 0 bs (put_file p [] s)"
  have f: "ft_faults ?s1 = []" "ft_faults ?s2 = []" "ft_dirs ?s2 = ft_dirs s"
    using assms(1) by (simp_all add: put_file_def write_through_def split: option.splits)
  have "io_write_file p bs s = (?s2, Inr ())"
    using assms f(1) by (simp add: io_write_file_def io_open_trunc_def io_write_all_def io_call_run step_call_run comp_defs)
  moreover have "ft_file ?s2 = (ft_file s)(p \<mapsto> bs)" by (subst ft_file_write_through) (auto simp: write_at_def)
  ultimately show ?thesis using that f by blast
qed

lemma ft_file_add_dirs [simp]: "ft_file (add_dirs ds s) = ft_file s" "ft_faults (add_dirs ds s) = ft_faults s"
  by (simp_all add: add_dirs_def ft_file_def fun_eq_iff)

lemma ft_is_dir_add_dirs [simp]: "ft_is_dir (add_dirs ds s) p \<longleftrightarrow> p \<in> set ds \<or> ft_is_dir s p"
  by (auto simp: add_dirs_def ft_is_dir_def)

lemma write_migrated_run:
  assumes f: "ft_faults s = []" and way: "free_way s new_path" and c: "ft_file s path = Some c" and "new_path \<noteq> path"
    and t: "with_extension new_path ''tmp'' \<noteq> new_path" "with_extension new_path ''tmp'' \<noteq> path"
      "butlast (with_extension new_path ''tmp'') = butlast new_path" "butlast new_path \<noteq> []"
  obtains s' where "write_migrated E bucket path new_path out s = (s', Inr ())" and "ft_faults s' = []"
    and "ft_file s' = (ft_file s)(with_extension new_path ''tmp'' := None, new_path \<mapsto> out, path := None)"
proof -
  let ?tmp = "with_extension new_path ''tmp''" and ?s1 = "add_dirs (path_prefixes (butlast new_path)) s"
  have mk: "io_create_dir_all (butlast new_path) s = (?s1, Inr ())"
    using f way by (auto simp: io_create_dir_all_def step_call_run free_way_def list_ex_iff)
  have s1: "ft_faults ?s1 = []" "ft_file ?s1 = ft_file s" "\<not> ft_is_dir ?s1 ?tmp" "\<not> ft_is_dir ?s1 new_path" "ft_is_dir ?s1 (butlast new_path)"
    using f way prefixes_self [OF t(4)] by (auto simp: free_way_def)
  obtain s2 where s2: "io_write_file ?tmp out ?s1 = (s2, Inr ())" "ft_file s2 = (ft_file s)(?tmp \<mapsto> out)" "ft_faults s2 = []"
    "ft_dirs s2 = ft_dirs ?s1"
    using write_file_run [OF s1(1,3)] s1(2,5) t(3) by metis
  have dirs: "ft_is_dir s2 q = ft_is_dir ?s1 q" for q using s2(4) by (simp add: ft_is_dir_def)
  have "ft_file s2 ?tmp = Some out" using s2(2) by simp
  then obtain x where x: "dm_get (ft_files s2) ?tmp = Some x" "fst x = out" unfolding ft_file_def by blast
  let ?s3 = "s2\<lparr>ft_files := dm_insert new_path x (dm_remove ?tmp (ft_files s2))\<rparr>"
  have mv: "io_rename ?tmp new_path s2 = (?s3, Inr ())"
    using s2(3) x(1) s1(4,5) dirs by (simp add: io_rename_def io_call_run)
  have s3: "ft_file ?s3 = (ft_file s)(?tmp := None, new_path \<mapsto> out)"
    using rename_Inr [OF mv] s2(2) by auto
  have rm: "io_remove_file path ?s3 = (del_file path ?s3, Inr ())"
    using s2(3) s3 c assms(4) t(2) by (simp add: io_remove_file_def io_call_run)
  have "write_migrated E bucket path new_path out s = (del_file path ?s3, Inr ())"
    using mk s2(1) mv rm assms(4) by (simp add: write_migrated_def Let_def comp_defs)
  moreover have "ft_faults (del_file path ?s3) = []" using s2(3) by (simp add: del_file_def)
  ultimately show ?thesis using that s3 by simp
qed

text \<open>\<open>seals_object E K s path c h json m\<close>: the file at \<open>path\<close> is an object record under the old keys, and not yet one under
  the new metadata key.\<close>

definition seals_object :: "fs_env \<Rightarrow> rotation_keys \<Rightarrow> 's file_tree_scheme \<Rightarrow> path \<Rightarrow> bytes \<Rightarrow> header \<Rightarrow> bytes \<Rightarrow> metadata \<Rightarrow> bool" where
  "seals_object E K s path c h json m \<longleftrightarrow> ft_file s path = Some c \<and> length c < 2 ^ 64 \<and> header_of_file E (rk_old_chk K) path c = Some h
     \<and> decrypt_meta (fe_prims E) (rk_old_omk K) (file_meta h c) (the (object_id_from_path path)) = Inr json \<and> fe_de E json = Inr m
     \<and> \<not> is_ok (decrypt_meta (fe_prims E) (rk_new_omk K) (file_meta h c) (the (object_id_from_path path)))"

definition new_name :: "fs_env \<Rightarrow> rotation_keys \<Rightarrow> path \<Rightarrow> metadata \<Rightarrow> path" where
  "new_name E K path m = object_file_name (take (length path - 3) path)
     (encode_object_id (fe_prims E) (rk_new_path_key K) (md_bucket m) (md_key m))"

abbreviation new_object_id :: "fs_env \<Rightarrow> rotation_keys \<Rightarrow> metadata \<Rightarrow> string" where
  "new_object_id E K m \<equiv> encode_object_id (fe_prims E) (rk_new_path_key K) (md_bucket m) (md_key m)"

lemma migrate_writes:
  assumes f: "ft_faults s = []" and o: "seals_object E K s path c h json m" and "3 \<le> length path"
    and free: "ft_file s (new_name E K path m) = None" "\<not> ft_is_dir s (new_name E K path m)"
    and enc: "encrypt_meta (fe_prims E) nonce (rk_new_omk K) json (new_object_id E K m) META_PAD_BLOCK = Inr new_meta"
  shows "migrate_object_file E nonce K path bucket s =
    sbind (write_migrated E bucket path (new_name E K path m)
      (migrated_file (fe_prims E) h (rk_new_chk K) (new_object_id E K m) (file_data h c) new_meta)) (\<lambda>_. sret True) s"
proof -
  obtain oid where oid: "object_id_from_path path = Some oid" "HEADER_SIZE \<le> length c"
    "decode_header (fe_prims E) (take HEADER_SIZE c) (rk_old_chk K) oid = Inr h" "check_total_len h (of_nat (length c)) = Inr ()"
    using o unfolding seals_object_def header_of_file_Some by blast
  have d: "decrypt_meta (fe_prims E) (rk_old_omk K) (file_meta h c) oid = Inr json" "fe_de E json = Inr m"
    "\<not> is_ok (decrypt_meta (fe_prims E) (rk_new_omk K) (file_meta h c) oid)" "ft_file s path = Some c"
    using o oid(1) by (simp_all add: seals_object_def)
  have ex: "io_exists_or_false (new_name E K path m) s = (s, Inr False)"
    using free by (simp add: io_exists_or_false_def comp_defs io_pure(5) [OF f])
  show ?thesis
    using oid d enc assms(3) ex
    by (simp add: migrate_object_file_def Let_def comp_defs io_pure(1) [OF f] file_meta_def [symmetric] file_data_def [symmetric]
        third_ancestor_def new_name_def not_less)
qed

definition sealed_len :: "nat \<Rightarrow> nat" where
  "sealed_len n = 29 + next_multiple_of (4 + n) META_PAD_BLOCK"

lemma encrypt_meta_len:
  assumes "aead_correct P" and "length nonce = 12" and "length json < 2 ^ 31"
  obtains blob where "encrypt_meta P nonce omk json oid META_PAD_BLOCK = Inr blob" and "decrypt_meta P omk blob oid = Inr json"
    and "length blob = sealed_len (length json)"
proof -
  have "length json + META_PAD_BLOCK + 4 < 2 ^ 32" using assms(3) by (simp add: META_PAD_BLOCK_def)
  from meta_round_trip [OF assms(1,2) this, of omk oid] that show ?thesis by (auto simp: sealed_len_def META_PAD_BLOCK_def)
qed

definition rotation_step :: "fs_env \<Rightarrow> rotation_keys \<Rightarrow> 's file_tree_scheme \<Rightarrow> path \<Rightarrow> bytes \<Rightarrow> header \<Rightarrow> bytes \<Rightarrow> metadata \<Rightarrow> bool" where
  "rotation_step E K s path c h json m \<longleftrightarrow> aead_correct (fe_prims E) \<and> hmac_len (fe_prims E)
     \<and> seals_object E K s path c h json m \<and> length json < 2 ^ 31 \<and> 3 \<le> length path \<and> path_extension path = Some ''obj''
     \<and> new_name E K path m \<noteq> path \<and> ft_file s (new_name E K path m) = None \<and> free_way s (new_name E K path m)"

lemma migrate_run:
  assumes r: "rotation_step E K s path c h json m" and nonce: "length nonce = 12" and f: "ft_faults s = []"
  obtains s' new_meta where "migrate_object_file E nonce K path bucket s = (s', Inr True)"
    and "decrypt_meta (fe_prims E) (rk_new_omk K) new_meta (new_object_id E K m) = Inr json"
    and "length new_meta = sealed_len (length json)" and "ft_faults s' = []"
    and "ft_file s' = (ft_file s)(with_extension (new_name E K path m) ''tmp'' := None,
        new_name E K path m \<mapsto> migrated_file (fe_prims E) h (rk_new_chk K) (new_object_id E K m) (file_data h c) new_meta, path := None)"
proof -
  let ?n = "new_name E K path m"
  note R = r [unfolded rotation_step_def]
  have P: "aead_correct (fe_prims E)" "hmac_len (fe_prims E)" and o: "seals_object E K s path c h json m"
    and l: "3 \<le> length path" and way: "free_way s ?n" and free: "ft_file s ?n = None" and ne: "?n \<noteq> path" using R by auto
  obtain new_meta where nm: "encrypt_meta (fe_prims E) nonce (rk_new_omk K) json (new_object_id E K m) META_PAD_BLOCK = Inr new_meta"
    "decrypt_meta (fe_prims E) (rk_new_omk K) new_meta (new_object_id E K m) = Inr json" "length new_meta = sealed_len (length json)"
    using encrypt_meta_len [OF P(1) nonce] R by metis
  note t = object_file_name_facts [OF P(2), of "take (length path - 3) path" "rk_new_path_key K" "md_bucket m" "md_key m", folded new_name_def]
  have tp: "with_extension ?n ''tmp'' \<noteq> path" using t(3) R by auto
  have c: "ft_file s path = Some c" using o by (simp add: seals_object_def)
  obtain s' where s': "write_migrated E bucket path ?n (migrated_file (fe_prims E) h (rk_new_chk K) (new_object_id E K m) (file_data h c) new_meta) s
      = (s', Inr ())" "ft_faults s' = []"
    "ft_file s' = (ft_file s)(with_extension ?n ''tmp'' := None, ?n \<mapsto> migrated_file (fe_prims E) h (rk_new_chk K) (new_object_id E K m) (file_data h c) new_meta, path := None)"
    using write_migrated_run [OF f way c ne t(2) tp t(4,5)] by metis
  have "migrate_object_file E nonce K path bucket s = (s', Inr True)"
    using migrate_writes [OF f o l free _ nm(1)] way s'(1) by (simp add: free_way_def comp_defs)
  then show ?thesis using that nm s' by blast
qed

text \<open>The migrated file holds, under the new keys, what the old one holds under the old keys.\<close>

lemma migrated_equals:
  assumes r: "rotation_step E K s path c h json m" and padded: "length (file_meta h c) = sealed_len (length json)"
    and meta: "decrypt_meta (fe_prims E) (rk_new_omk K) new_meta (new_object_id E K m) = Inr json" "length new_meta = sealed_len (length json)"
  defines "c' \<equiv> migrated_file (fe_prims E) h (rk_new_chk K) (new_object_id E K m) (file_data h c) new_meta"
  shows "data_of_file E (rk_new_chk K) (new_name E K path m) c' = data_of_file E (rk_old_chk K) path c"
    and "meta_of_file E (rk_new_omk K) (rk_new_chk K) (new_name E K path m) c' = Some m"
proof -
  let ?n = "new_name E K path m"
  have P: "hmac_len (fe_prims E)" and h: "header_of_file E (rk_old_chk K) path c = Some h" "length c < 2 ^ 64" and m: "fe_de E json = Inr m"
    using r by (simp_all add: rotation_step_def seals_object_def)
  note f = file_parts [OF h]
  have oid: "object_id_from_path ?n = Some (new_object_id E K m)" unfolding new_name_def by (rule object_file_name_facts [OF P])
  have lm: "length new_meta = unat (hd_meta_len h)" using padded meta(2) f(4) by simp
  note r = migrated_reads [OF P h f(3) lm oid, of "rk_new_chk K", folded c'_def]
  have lc: "length c' < 2 ^ 64" using r(4) h(2) by simp
  show "data_of_file E (rk_new_chk K) ?n c' = data_of_file E (rk_old_chk K) path c"
    using file_parts(5) [OF r(1) lc] r(2) f(5) by simp
  show "meta_of_file E (rk_new_omk K) (rk_new_chk K) ?n c' = Some m"
    unfolding file_parts(6) [OF r(1) lc] r(3) using meta(1) m oid by simp
qed

text \<open>C19. The rotation of an object, over a tree in which no call fails, moves it to its new name and seals it anew: read under the
  new keys the file there has the same data and the same metadata, and no other file changes. Its metadata has to
  be in the padded format.\<close>

theorem rotation_keeps_object:
  assumes "rotation_step E K s path c h json m" and "length nonce = 12" and "ft_faults s = []"
    and "length (file_meta h c) = sealed_len (length json)"
  shows "\<exists>s' c'. migrate_object_file E nonce K path bucket s = (s', Inr True)
    \<and> ft_file s' = (ft_file s)(with_extension (new_name E K path m) ''tmp'' := None, new_name E K path m \<mapsto> c', path := None)
    \<and> data_of_file E (rk_new_chk K) (new_name E K path m) c' = data_of_file E (rk_old_chk K) path c
    \<and> meta_of_file E (rk_new_omk K) (rk_new_chk K) (new_name E K path m) c' = Some m"
proof -
  let ?n = "new_name E K path m"
  obtain s' new_meta where s': "migrate_object_file E nonce K path bucket s = (s', Inr True)"
    "decrypt_meta (fe_prims E) (rk_new_omk K) new_meta (new_object_id E K m) = Inr json" "length new_meta = sealed_len (length json)"
    "ft_file s' = (ft_file s)(with_extension ?n ''tmp'' := None,
        ?n \<mapsto> migrated_file (fe_prims E) h (rk_new_chk K) (new_object_id E K m) (file_data h c) new_meta, path := None)"
    using migrate_run [OF assms(1-3)] by metis
  from migrated_equals [OF assms(1,4) s'(2,3)] s'(1,4) show ?thesis by blast
qed

subsection \<open>A migration with failures\<close>

lemma write_file_Inr: "io_write_file p bs s = (s', Inr ()) \<Longrightarrow> ft_file s' p = Some bs"
  by (auto simp: io_write_file_def sbind_def write_at_def split: prod.splits sum.splits dest!: open_trunc_Inr dest: write_all_Inr)

lemma rename_Inl: "io_rename src dst s = (s', Inl e) \<Longrightarrow> ft_file s' = ft_file s"
  by (auto simp: io_rename_def io_call_def step_call_def split: list.splits option.splits if_splits)

lemma write_migrated_safe:
  fixes s :: fs_storage
  assumes run: "write_migrated E bucket path new_path out s = (s', r)" and c: "ft_file s path = Some c" and n: "ft_file s new_path = None"
    and ne: "new_path \<noteq> path" "with_extension new_path ''tmp'' \<noteq> new_path" "with_extension new_path ''tmp'' \<noteq> path"
  shows "ft_file s' new_path = Some out \<or> ft_file s' new_path = None \<and> ft_file s' path = Some c"
    and "q \<notin> {path, new_path, with_extension new_path ''tmp''} \<Longrightarrow> ft_file s' q = ft_file s q"
proof -
  let ?tmp = "with_extension new_path ''tmp''"
  have fr: "frames (\<lambda>q. q \<noteq> ?tmp) (io_write_file ?tmp out)" "frames (\<lambda>q. q \<notin> {?tmp, new_path}) (io_rename ?tmp new_path)"
    "frames (\<lambda>q. q \<noteq> path) (io_remove_file path)" "frames (\<lambda>_. True) (io_create_dir_all (butlast new_path))"
    unfolding io_write_file_def by (intro frame_rules; simp)+
  have "frames (\<lambda>q. q \<notin> {path, new_path, ?tmp}) (write_migrated E bucket path new_path out)"
    unfolding write_migrated_def io_write_file_def Let_def by (intro frame_rules; simp)
  from framesD(5) [OF this run, of q] show "q \<notin> {path, new_path, ?tmp} \<Longrightarrow> ft_file s' q = ft_file s q" .
  show "ft_file s' new_path = Some out \<or> ft_file s' new_path = None \<and> ft_file s' path = Some c"
  proof -
    obtain s1 r1 s2 r2 s3 r3 s4 r4 where st: "io_create_dir_all (butlast new_path) s = (s1, r1)" "io_write_file ?tmp out s1 = (s2, r2)"
      "io_rename ?tmp new_path s2 = (s3, r3)" "io_remove_file path s3 = (s4, r4)" by (metis surj_pair)
    have stop: "s' = s1 \<or> s' = s2 \<or> (\<exists>u. r2 = Inr u) \<and> (s' = s3 \<or> (\<exists>u. r3 = Inr u) \<and> s' = s4)"
      using run st ne(1) by (auto simp: write_migrated_def Let_def comp_defs split: sum.splits)
    have f: "ft_file s1 q = ft_file s q" "q \<noteq> ?tmp \<Longrightarrow> ft_file s2 q = ft_file s1 q" "q \<noteq> path \<Longrightarrow> ft_file s4 q = ft_file s3 q"
      "q \<notin> {?tmp, new_path} \<Longrightarrow> ft_file s3 q = ft_file s2 q" for q
      using framesD(5) [OF fr(4) st(1)] framesD(5) [OF fr(1) st(2)] framesD(5) [OF fr(3) st(4)] framesD(5) [OF fr(2) st(3)] by simp_all
    have w: "ft_file s2 ?tmp = Some out" if "r2 = Inr u" for u using st(2) that by (rule_tac write_file_Inr) simp
    have mv: "ft_file s3 new_path = ft_file s2 ?tmp" if "r3 = Inr u" for u
      using rename_Inr [of ?tmp new_path s2 s3] st(3) that by auto
    have stay: "ft_file s3 = ft_file s2" if "r3 = Inl e" for e using rename_Inl st(3) that by metis
    have old: "ft_file s2 path = Some c" "ft_file s2 new_path = None" "ft_file s1 path = Some c" "ft_file s1 new_path = None"
      using f(1,2) c n ne by auto
    have "s' = s3 \<or> s' = s4 \<Longrightarrow> r3 = Inr u \<Longrightarrow> (\<exists>u. r2 = Inr u) \<Longrightarrow> ft_file s' new_path = Some out" for u
      using mv w f(3) [of new_path] ne by auto
    with stop old stay show ?thesis by (cases r3) auto
  qed
qed

lemma look_call: "(\<exists>fs e. io_call (\<lambda>s. (s, f s)) s = (s\<lparr>ft_faults := fs\<rparr>, Inl e))
    \<or> (\<exists>fs. io_call (\<lambda>s. (s, f s)) s = (s\<lparr>ft_faults := fs\<rparr>, f (s\<lparr>ft_faults := fs\<rparr>)))"
proof (cases "ft_faults s")
  case Nil
  then have same: "s\<lparr>ft_faults := []\<rparr> = s" by (cases s) simp
  have "io_call (\<lambda>s. (s, f s)) s = (s\<lparr>ft_faults := []\<rparr>, f (s\<lparr>ft_faults := []\<rparr>))"
    unfolding same using Nil by (simp add: io_call_def step_call_def)
  then show ?thesis by blast
qed (auto simp: io_call_def step_call_def split: option.splits)

lemma migrate_cases:
  assumes o: "seals_object E K s path c h json m" and "3 \<le> length path"
    and free: "ft_file s (new_name E K path m) = None" "\<not> ft_is_dir s (new_name E K path m)"
    and enc: "encrypt_meta (fe_prims E) nonce (rk_new_omk K) json (new_object_id E K m) META_PAD_BLOCK = Inr new_meta"
  shows "(\<exists>fs e. migrate_object_file E nonce K path bucket s = (s\<lparr>ft_faults := fs\<rparr>, Inl e))
    \<or> (\<exists>fs. migrate_object_file E nonce K path bucket s = sbind (write_migrated E bucket path (new_name E K path m)
      (migrated_file (fe_prims E) h (rk_new_chk K) (new_object_id E K m) (file_data h c) new_meta)) (\<lambda>_. sret True) (s\<lparr>ft_faults := fs\<rparr>))"
proof -
  obtain oid where oid: "object_id_from_path path = Some oid" "HEADER_SIZE \<le> length c"
    "decode_header (fe_prims E) (take HEADER_SIZE c) (rk_old_chk K) oid = Inr h" "check_total_len h (of_nat (length c)) = Inr ()"
    using o unfolding seals_object_def header_of_file_Some by blast
  have d: "decrypt_meta (fe_prims E) (rk_old_omk K) (file_meta h c) oid = Inr json" "fe_de E json = Inr m"
    "\<not> is_ok (decrypt_meta (fe_prims E) (rk_new_omk K) (file_meta h c) oid)" "ft_file s path = Some c"
    using o oid(1) by (simp_all add: seals_object_def)
  have op: "(\<exists>fs e. io_open path s = (s\<lparr>ft_faults := fs\<rparr>, Inl e)) \<or> (\<exists>fs. io_open path s = (s\<lparr>ft_faults := fs\<rparr>, Inr c))"
    using look_call [of "\<lambda>s. case ft_file s path of Some bs \<Rightarrow> Inr bs
      | None \<Rightarrow> Inl (if ft_is_dir s path then Os ''Is a directory (os error 21)'' else lookup_err s path)" s] d(4)
    by (auto simp: io_open_def)
  have ex: "\<exists>fs'. io_exists_or_false (new_name E K path m) (s\<lparr>ft_faults := fs\<rparr>) = (s\<lparr>ft_faults := fs'\<rparr>, Inr False)" for fs
    using look_call [of "\<lambda>s. Inr (ft_file s (new_name E K path m) \<noteq> None \<or> ft_is_dir s (new_name E K path m))" "s\<lparr>ft_faults := fs\<rparr>"] free
    by (auto simp: io_exists_or_false_def io_exists_def comp_defs ft_is_dir_def)
  from op show ?thesis
  proof (elim disjE exE)
    fix fs e assume "io_open path s = (s\<lparr>ft_faults := fs\<rparr>, Inl e)"
    then show ?thesis using oid by (simp add: migrate_object_file_def Let_def comp_defs) blast
  next
    fix fs assume "io_open path s = (s\<lparr>ft_faults := fs\<rparr>, Inr c)"
    moreover obtain fs' where "io_exists_or_false (new_name E K path m) (s\<lparr>ft_faults := fs\<rparr>) = (s\<lparr>ft_faults := fs'\<rparr>, Inr False)" using ex by blast
    ultimately have "migrate_object_file E nonce K path bucket s = sbind (write_migrated E bucket path (new_name E K path m)
      (migrated_file (fe_prims E) h (rk_new_chk K) (new_object_id E K m) (file_data h c) new_meta)) (\<lambda>_. sret True) (s\<lparr>ft_faults := fs'\<rparr>)"
      using oid d enc assms(2)
      by (simp add: migrate_object_file_def Let_def comp_defs file_meta_def [symmetric] file_data_def [symmetric]
          third_ancestor_def new_name_def not_less)
    then show ?thesis by blast
  qed
qed

text \<open>C18. For an object in the current format, whose metadata block is sealed padded, and whose name under the new keys is
  not taken yet: whatever calls fail, and wherever the rotation of the object stops, the object is not lost: its file under the old
  name is untouched, or the file under the new name is complete and reads under the new keys as the same object. A file
  under the new name is never partial, and no file other than these two and the staging file changes.\<close>

theorem rotation_never_loses_object:
  fixes s :: fs_storage
  assumes "rotation_step E K s path c h json m" and "length nonce = 12" and "length (file_meta h c) = sealed_len (length json)"
    and "migrate_object_file E nonce K path bucket s = (s', r)"
  shows "(case ft_file s' (new_name E K path m) of None \<Rightarrow> ft_file s' path = Some c
     | Some c' \<Rightarrow> data_of_file E (rk_new_chk K) (new_name E K path m) c' = data_of_file E (rk_old_chk K) path c
         \<and> meta_of_file E (rk_new_omk K) (rk_new_chk K) (new_name E K path m) c' = Some m)
    \<and> (\<forall>q. q \<notin> {path, new_name E K path m, with_extension (new_name E K path m) ''tmp''} \<longrightarrow> ft_file s' q = ft_file s q)"
proof -
  let ?n = "new_name E K path m"
  note R = assms(1) [unfolded rotation_step_def]
  have P: "aead_correct (fe_prims E)" "hmac_len (fe_prims E)" and o: "seals_object E K s path c h json m" and l: "3 \<le> length path"
    and dir: "\<not> ft_is_dir s ?n" and free: "ft_file s ?n = None" and ne: "?n \<noteq> path" using R by (auto simp: free_way_def)
  obtain new_meta where nm: "encrypt_meta (fe_prims E) nonce (rk_new_omk K) json (new_object_id E K m) META_PAD_BLOCK = Inr new_meta"
    "decrypt_meta (fe_prims E) (rk_new_omk K) new_meta (new_object_id E K m) = Inr json" "length new_meta = sealed_len (length json)"
    using encrypt_meta_len [OF P(1) assms(2)] R by metis
  note t = object_file_name_facts [OF P(2), of "take (length path - 3) path" "rk_new_path_key K" "md_bucket m" "md_key m", folded new_name_def]
  have tp: "with_extension ?n ''tmp'' \<noteq> path" using t(3) R by auto
  have c: "ft_file s path = Some c" using o by (simp add: seals_object_def)
  let ?c = "migrated_file (fe_prims E) h (rk_new_chk K) (new_object_id E K m) (file_data h c) new_meta"
  have "(ft_file s' ?n = Some ?c \<or> ft_file s' ?n = None \<and> ft_file s' path = Some c)
    \<and> (\<forall>q. q \<notin> {path, ?n, with_extension ?n ''tmp''} \<longrightarrow> ft_file s' q = ft_file s q)"
    using migrate_cases [OF o l free dir nm(1), of bucket]
  proof (elim disjE exE)
    fix fs e assume "migrate_object_file E nonce K path bucket s = (s\<lparr>ft_faults := fs\<rparr>, Inl e)"
    then show ?thesis using assms(4) c free by auto
  next
    fix fs assume "migrate_object_file E nonce K path bucket s = sbind (write_migrated E bucket path ?n ?c) (\<lambda>_. sret True) (s\<lparr>ft_faults := fs\<rparr>)"
    then obtain r' where "write_migrated E bucket path ?n ?c (s\<lparr>ft_faults := fs\<rparr>) = (s', r')"
      using assms(4) by (auto simp: comp_defs split: prod.splits sum.splits)
    moreover have "ft_file (s\<lparr>ft_faults := fs\<rparr>) path = Some c" "ft_file (s\<lparr>ft_faults := fs\<rparr>) ?n = None" using c free by simp_all
    ultimately show ?thesis
      using write_migrated_safe [where s = "s\<lparr>ft_faults := fs\<rparr>", OF _ _ _ ne t(2) tp] unfolding ft_file_faults by blast
  qed
  then show ?thesis using migrated_equals [OF assms(1,3) nm(2,3)] by auto
qed

subsection \<open>Two cases the rotation gets wrong\<close>

text \<open>C37. An interrupted rotation cannot be resumed: run again on an object that the first run has migrated, it does not
  recognise the object as done but fails, because the header is authenticated under the old key before the
  new metadata key is tried.\<close>

theorem resumed_rotation_fails:
  assumes "rotation_step E K s path c h json m" and "length nonce = 12" and "ft_faults s = []"
    and "hmac_sha256 (fe_prims E) (rk_new_chk K) (header_fields_bytes h @ as_bytes (new_object_id E K m))
       \<noteq> hmac_sha256 (fe_prims E) (rk_old_chk K) (header_fields_bytes h @ as_bytes (new_object_id E K m))"
  shows "\<exists>s'. migrate_object_file E nonce K path bucket s = (s', Inr True)
    \<and> migrate_object_file E nonce' K (new_name E K path m) bucket s'
      = (s', Inl (InternalError bucket [] ''rotate-node-key'' (''decode header: '' @ fe_format_text E Mac)))"
proof -
  let ?n = "new_name E K path m"
  obtain s' new_meta where s': "migrate_object_file E nonce K path bucket s = (s', Inr True)" "ft_faults s' = []"
    "ft_file s' = (ft_file s)(with_extension ?n ''tmp'' := None,
        ?n \<mapsto> migrated_file (fe_prims E) h (rk_new_chk K) (new_object_id E K m) (file_data h c) new_meta, path := None)"
    using migrate_run [OF assms(1-3)] by metis
  let ?c = "migrated_file (fe_prims E) h (rk_new_chk K) (new_object_id E K m) (file_data h c) new_meta"
  have P: "hmac_len (fe_prims E)" and h: "header_of_file E (rk_old_chk K) path c = Some h" "length c < 2 ^ 64" and ne: "?n \<noteq> path"
    using assms(1) by (simp_all add: rotation_step_def seals_object_def)
  note f = file_parts [OF h]
  note l = migrated_file_layout [OF P f(8)]
  have oid: "object_id_from_path ?n = Some (new_object_id E K m)" unfolding new_name_def by (rule object_file_name_facts [OF P])
  have at: "ft_file s' ?n = Some ?c" using s'(3) ne by simp
  have "MIN_DATA_OFFSET \<le> hd_data_offset h" using f(8) by (simp add: MIN_DATA_OFFSET_def HEADER_SIZE_def word_le_nat_alt)
  then have "decode_header (fe_prims E) (take HEADER_SIZE ?c) (rk_old_chk K) (new_object_id E K m) = Inl Mac"
    using decode_encoded [OF P f(7), of "rk_new_chk K" "new_object_id E K m" "rk_old_chk K" "new_object_id E K m"] assms(4)
    by (simp add: HEADER_SIZE_def l(1))
  moreover have "\<not> length ?c < HEADER_SIZE" using l(2) by (simp add: HEADER_SIZE_def)
  ultimately have "migrate_object_file E nonce' K ?n bucket s'
      = (s', Inl (InternalError bucket [] ''rotate-node-key'' (''decode header: '' @ fe_format_text E Mac)))"
    using oid at by (simp add: migrate_object_file_def Let_def comp_defs io_pure(1) [OF s'(2)] rot_internal_def ROTATE_def)
  then show ?thesis using s'(1) by blast
qed

text \<open>C38. An object whose metadata is sealed in the unpadded format, which the readers accept, does not survive the rotation:
  the new blob is longer than the one the copied header declares, so the new file is refused by every reader,
  and the old file is removed.\<close>

theorem unpadded_object_is_lost:
  assumes "rotation_step E K s path c h json m" and "length nonce = 12" and "ft_faults s = []" and "length c < 2 ^ 63"
    and "file_meta h c = [VERSION_BYTE] @ n @ ct" and "length n = 12"
    and "gcm_seal (fe_prims E) (rk_old_omk K) n (as_bytes (the (object_id_from_path path))) json = Some ct"
  shows "\<exists>s' c'. migrate_object_file E nonce K path bucket s = (s', Inr True) \<and> ft_file s' path = None
    \<and> ft_file s' (new_name E K path m) = Some c' \<and> header_of_file E (rk_new_chk K) (new_name E K path m) c' = None"
proof -
  let ?n = "new_name E K path m"
  obtain s' new_meta where s': "migrate_object_file E nonce K path bucket s = (s', Inr True)" "length new_meta = sealed_len (length json)"
    "ft_file s' = (ft_file s)(with_extension ?n ''tmp'' := None,
        ?n \<mapsto> migrated_file (fe_prims E) h (rk_new_chk K) (new_object_id E K m) (file_data h c) new_meta, path := None)"
    using migrate_run [OF assms(1-3)] by metis
  let ?c = "migrated_file (fe_prims E) h (rk_new_chk K) (new_object_id E K m) (file_data h c) new_meta"
  have P: "hmac_len (fe_prims E)" and h: "header_of_file E (rk_old_chk K) path c = Some h" "length c < 2 ^ 64" and ne: "?n \<noteq> path"
    and j: "length json < 2 ^ 31" and A: "aead_correct (fe_prims E)"
    using assms(1) by (simp_all add: rotation_step_def seals_object_def)
  note f = file_parts [OF h]
  note l = migrated_file_layout [OF P f(8)]
  have "length json < 2 ^ 32" using j by (rule order.strict_trans) simp
  then have "length ct = length json + 16"
    by (rule aead_correctE [OF A, of json "rk_old_omk K" n "as_bytes (the (object_id_from_path path))"]) (use assms(7) in \<open>simp add: TAG_LEN_def\<close>)
  then have lm: "length (file_meta h c) = 29 + length json" using assms(5,6) by simp
  have "sealed_len (length json) \<ge> 33 + length json" "sealed_len (length json) < 29 + (4 + length json) + META_PAD_BLOCK"
    using next_multiple_of_ge [of "4 + length json" META_PAD_BLOCK] next_multiple_of_less [of META_PAD_BLOCK "4 + length json"]
    by (simp_all add: sealed_len_def META_PAD_BLOCK_def)
  then have len: "length ?c \<noteq> length c" "length ?c < 2 ^ 64"
    using l(2) f(1,3,4) lm s'(2) assms(4) j by (simp_all add: META_PAD_BLOCK_def)
  have total: "checked_total_len h = Some (of_nat (length c))"
    using h(1) unfolding header_of_file_Some by (auto simp: check_total_len_def split: option.splits if_splits)
  have "(of_nat (length c) :: u64) \<noteq> of_nat (length ?c)"
    using len h(2) by (auto dest: arg_cong [of _ _ unat] simp: unat_of_nat)
  then have no: "check_total_len h (of_nat (length ?c)) \<noteq> Inr ()" using total by (simp add: check_total_len_def)
  have dec: "decode_header (fe_prims E) (take HEADER_SIZE ?c) (rk_new_chk K) oid = Inr h' \<Longrightarrow> h' = h" for oid h'
    using decode_encoded [OF P f(7), of "rk_new_chk K" "new_object_id E K m" "rk_new_chk K" oid] f(8)
    by (auto simp: HEADER_SIZE_def l(1) MIN_DATA_OFFSET_def word_le_nat_alt split: if_splits)
  have "header_of_file E (rk_new_chk K) ?n ?c = None"
    using dec no header_of_file_Some [of E "rk_new_chk K" ?n ?c] by (metis not_None_eq)
  then show ?thesis using s'(1,3) ne by auto
qed

subsection \<open>A sample rotation\<close>

definition rot_keys :: rotation_keys where
  "rot_keys = \<lparr>rk_old_path_key = replicate 32 1, rk_new_path_key = replicate 32 2, rk_old_omk = replicate 32 1, rk_new_omk = replicate 32 2,
     rk_old_bck = replicate 32 1, rk_new_bck = replicate 32 2, rk_old_chk = replicate 32 1, rk_new_chk = replicate 32 2\<rparr>"

definition rot_env :: fs_env where
  "rot_env = sample_fe0\<lparr>fe_prims := keyed_prims, fe_de := \<lambda>bs. if bs = [7] then Inr sample_md else Inl []\<rparr>"

definition rot_id :: string where "rot_id = encode_object_id keyed_prims (replicate 32 1) ''b'' ''k''"
definition rot_new_id :: string where "rot_new_id = encode_object_id keyed_prims (replicate 32 2) ''b'' ''k''"
definition rot_path :: path where "rot_path = object_file_name [''d'', ''x''] rot_id"

text \<open>The sample object with the metadata blob \<open>blob\<close>, and the tree that holds it.\<close>

definition rot_file :: "bytes \<Rightarrow> bytes" where
  "rot_file blob = obj_record rot_env (replicate 32 1) rot_id Durable [1, 2, 3] blob"

definition rot_tree :: "bytes \<Rightarrow> fs_storage" where
  "rot_tree blob = sample_fs\<lparr>ft_files := [(rot_path, rot_file blob, 0)]\<rparr>"

lemma keyed_hmac_len: "hmac_len keyed_prims"
  using plain_hmac_len by (simp add: hmac_len_def keyed_prims_def)

lemma rot_keys_simps [simp]:
  "rk_old_omk rot_keys = replicate 32 1" "rk_new_omk rot_keys = replicate 32 2" "rk_old_chk rot_keys = replicate 32 1"
  "rk_new_chk rot_keys = replicate 32 2" "rk_new_path_key rot_keys = replicate 32 2"
  by (simp_all add: rot_keys_def)

lemma rot_sample_facts:
  "fe_prims rot_env = keyed_prims" "fe_de rot_env [7] = Inr sample_md" "md_bucket sample_md = ''b''" "md_key sample_md = ''k''"
  "new_name rot_env rot_keys rot_path sample_md = object_file_name [''d'', ''x''] rot_new_id"
  "object_id_from_path rot_path = Some rot_id" "path_extension rot_path = Some ''obj''" "length rot_path = 5"
proof -
  show b: "fe_prims rot_env = keyed_prims" "fe_de rot_env [7] = Inr sample_md" "md_bucket sample_md = ''b''" "md_key sample_md = ''k''"
    by (simp_all add: rot_env_def sample_md_def put_metadata_def split_beta Let_def)
  show "length rot_path = 5" by (simp add: rot_path_def object_file_name_def)
  show "new_name rot_env rot_keys rot_path sample_md = object_file_name [''d'', ''x''] rot_new_id"
    using b by (simp add: new_name_def rot_path_def rot_new_id_def) (simp add: object_file_name_def)
  show "object_id_from_path rot_path = Some rot_id"
    unfolding rot_path_def rot_id_def by (rule object_file_name_facts [OF keyed_hmac_len])
  have "path_extension ([''d'', ''x'', take 2 rot_id, take 2 (drop 2 rot_id)] @ [rot_id @ ''.'' @ ''obj'']) = Some ''obj''"
    unfolding rot_id_def by (rule named_path(2) [OF keyed_hmac_len]) simp_all
  then show "path_extension rot_path = Some ''obj''" by (simp add: rot_path_def object_file_name_def)
qed

lemma rot_ids_differ: "rot_id \<noteq> rot_new_id"
  by code_simp

lemma rot_file_reads:
  assumes "length blob < 2 ^ 16"
  shows "header_of_file rot_env (replicate 32 1) rot_path (rot_file blob) = Some (record_header 3 blob Durable)"
    and "file_meta (record_header 3 blob Durable) (rot_file blob) = blob" and "length (rot_file blob) = 131 + length blob"
proof -
  let ?h = "record_header 3 blob Durable"
  note e = length_encode_header [OF keyed_hmac_len]
  show "header_of_file rot_env (replicate 32 1) rot_path (rot_file blob) = Some ?h"
    using obj_record_reads(1) [of rot_env rot_path rot_id "[1, 2, 3]" blob "replicate 32 1" Durable] assms keyed_hmac_len rot_sample_facts
    by (simp add: rot_file_def)
  have "unat (meta_offset ?h) = 67" "unat (hd_meta_len ?h) = length blob" using assms by (simp_all add: meta_offset_def unat_of_nat)
  then show "file_meta ?h (rot_file blob) = blob" "length (rot_file blob) = 131 + length blob"
    using e by (simp_all add: file_meta_def field_def rot_file_def obj_record_def Let_def rot_sample_facts)
qed

lemma rot_sample_step:
  assumes "length blob < 2 ^ 16" and "decrypt_meta keyed_prims (replicate 32 1) blob rot_id = Inr [7]"
    and "\<not> is_ok (decrypt_meta keyed_prims (replicate 32 2) blob rot_id)"
  shows "rotation_step rot_env rot_keys (rot_tree blob) rot_path (rot_file blob) (record_header 3 blob Durable) [7] sample_md"
proof -
  let ?n = "object_file_name [''d'', ''x''] rot_new_id"
  note f = rot_file_reads [OF assms(1)]
  have ne: "?n \<noteq> rot_path" using rot_ids_differ by (simp add: rot_path_def object_file_name_def)
  have ff: "ft_file (rot_tree blob) = [rot_path \<mapsto> rot_file blob]" "ft_is_dir (rot_tree blob) q \<longleftrightarrow> q = [''d'']" for q
    by (auto simp: ft_file_def rot_tree_def sample_fs_def ft_is_dir_def)
  have t: "with_extension ?n ''tmp'' = [''d'', ''x'', take 2 rot_new_id, take 2 (drop 2 rot_new_id), rot_new_id @ ''.tmp'']"
    using named_path(1) [OF keyed_hmac_len, of "''obj''" "[''d'', ''x'', take 2 rot_new_id, take 2 (drop 2 rot_new_id)]" "replicate 32 2" "''b''" "''k''", folded rot_new_id_def]
    by (simp add: with_extension_def object_file_name_def)
  have short: "length q = 5 \<Longrightarrow> q \<notin> set (path_prefixes (butlast ?n))" for q
    using prefixes_shorter [of q "butlast ?n"] by (auto simp: object_file_name_def)
  have len: "length ?n = 5" "length (with_extension ?n ''tmp'') = 5" unfolding t by (simp_all add: object_file_name_def)
  have "\<not> ft_is_dir (rot_tree blob) ?n" "\<not> ft_is_dir (rot_tree blob) (with_extension ?n ''tmp'')"
    unfolding ff t by (simp_all add: object_file_name_def)
  then have "free_way (rot_tree blob) ?n"
    using short [OF rot_sample_facts(8)] short [OF len(1)] short [OF len(2)] unfolding free_way_def ff(1) by auto
  then show ?thesis
    using assms f ne ff keyed_aead_correct keyed_hmac_len
    by (simp add: rotation_step_def seals_object_def rot_sample_facts)
qed


text \<open>A padded and an unpadded metadata blob.\<close>

definition rot_padded :: bytes where
  "rot_padded = [VERSION_BYTE_PADDED] @ replicate 12 0 @ (to_be_u32 1 @ [7] @ replicate 4091 0) @ replicate 16 1"

definition rot_unpadded :: bytes where
  "rot_unpadded = [VERSION_BYTE] @ replicate 12 0 @ [7] @ replicate 16 1"

lemma rot_blob_facts:
  "length rot_padded = sealed_len 1" "length rot_padded < 2 ^ 16" "length rot_unpadded < 2 ^ 16"
  "decrypt_meta keyed_prims (replicate 32 1) rot_padded rot_id = Inr [7]" "\<not> is_ok (decrypt_meta keyed_prims (replicate 32 2) rot_padded rot_id)"
  "decrypt_meta keyed_prims (replicate 32 1) rot_unpadded rot_id = Inr [7]" "\<not> is_ok (decrypt_meta keyed_prims (replicate 32 2) rot_unpadded rot_id)"
  by (simp_all add: rot_padded_def rot_unpadded_def sealed_len_def next_multiple_of_def META_PAD_BLOCK_def decrypt_meta_def keyed_prims_def
      VERSION_BYTE_def VERSION_BYTE_PADDED_def MIN_ENCRYPTED_LEN_def MIN_ENCRYPTED_PADDED_LEN_def NONCE_LEN_def)

lemmas rot_steps = rot_sample_step [OF rot_blob_facts(2,4,5)] rot_sample_step [OF rot_blob_facts(3,6,7)]

theorem rotation_keeps_object_witness:
  "\<exists>s'. migrate_object_file rot_env (replicate 12 0) rot_keys rot_path ''b'' (rot_tree rot_padded) = (s', Inr True) \<and> ft_file s' rot_path = None"
  using rotation_keeps_object [OF rot_steps(1), of "replicate 12 0" "''b''"] rot_file_reads(2) [OF rot_blob_facts(2)] rot_blob_facts(1)
  by (auto simp: rot_tree_def sample_fs_def)

lemma rotation_step_faults: "rotation_step E K (s\<lparr>ft_faults := fs\<rparr>) path c h json m \<longleftrightarrow> rotation_step E K s path c h json m"
  by (simp add: rotation_step_def seals_object_def free_way_def ft_is_dir_def)

theorem rotation_never_loses_object_witness:
  "\<exists>s' r. migrate_object_file rot_env (replicate 12 0) rot_keys rot_path ''b'' (rot_tree rot_padded\<lparr>ft_faults := [None, None, None, Some (''crash'', 0)]\<rparr>) = (s', r)
     \<and> (ft_file s' (new_name rot_env rot_keys rot_path sample_md) = None \<longrightarrow> ft_file s' rot_path = Some (rot_file rot_padded))"
proof -
  let ?s = "rot_tree rot_padded\<lparr>ft_faults := [None, None, None, Some (''crash'', 0)]\<rparr>"
  obtain s' r where run: "migrate_object_file rot_env (replicate 12 0) rot_keys rot_path ''b'' ?s = (s', r)" by fastforce
  have "rotation_step rot_env rot_keys ?s rot_path (rot_file rot_padded) (record_header 3 rot_padded Durable) [7] sample_md"
    unfolding rotation_step_faults by (rule rot_steps)
  from rotation_never_loses_object [OF this _ _ run] show ?thesis
    using run rot_file_reads(2) [OF rot_blob_facts(2)] rot_blob_facts(1) by auto
qed

theorem resumed_rotation_fails_witness:
  "\<exists>s'. migrate_object_file rot_env (replicate 12 0) rot_keys rot_path ''b'' (rot_tree rot_padded) = (s', Inr True)
     \<and> migrate_object_file rot_env (replicate 12 1) rot_keys (new_name rot_env rot_keys rot_path sample_md) ''b'' s'
       = (s', Inl (InternalError ''b'' [] ''rotate-node-key'' (''decode header: '' @ fe_format_text rot_env Mac)))"
  by (rule resumed_rotation_fails [OF rot_steps(1)]) (simp_all add: rot_tree_def sample_fs_def rot_sample_facts keyed_prims_def plain_prims_def)

theorem unpadded_object_is_lost_witness:
  "\<exists>s' c'. migrate_object_file rot_env (replicate 12 0) rot_keys rot_path ''b'' (rot_tree rot_unpadded) = (s', Inr True)
     \<and> ft_file s' rot_path = None \<and> ft_file s' (new_name rot_env rot_keys rot_path sample_md) = Some c'
     \<and> header_of_file rot_env (rk_new_chk rot_keys) (new_name rot_env rot_keys rot_path sample_md) c' = None"
  by (rule unpadded_object_is_lost [OF rot_steps(2), where n = "replicate 12 0" and ct = "[7] @ replicate 16 1"])
     (use rot_file_reads(2,3) [OF rot_blob_facts(3)] rot_blob_facts(3) in
       \<open>simp_all add: rot_tree_def sample_fs_def rot_sample_facts rot_unpadded_def keyed_prims_def\<close>)

end
