(* ===== verification/Header_Upgrade_Laws.thy ===== *)
theory Header_Upgrade_Laws
  imports Rotation_Laws
begin

text \<open>
  The upgrade of version-1 object headers (\<open>upgrade_container_headers\<close> of \<open>crates/y2q-core/src/storage/rotation.rs\<close>): it
  makes the object readable under the container-header key, leaves its data and metadata, and is idempotent.
\<close>

lemma decode_v1_facts:
  assumes "decode_v1_header P buf = Some h"
  shows "hd_version h = VERSION" and "MIN_DATA_OFFSET \<le> hd_data_offset h"
  using assms by (auto simp: decode_v1_header_def Let_def split: if_splits)

lemma field_sub: "field a b c = field a b d \<Longrightarrow> a \<le> i \<Longrightarrow> i \<le> j \<Longrightarrow> j \<le> b \<Longrightarrow> field i j c = field i j d"
proof -
  have "field i j c = take (j - i) (drop (i - a) (field a b c))" if "a \<le> i" "i \<le> j" "j \<le> b" for c
    using that by (simp add: field_def drop_take min_def)
  then show "field a b c = field a b d \<Longrightarrow> a \<le> i \<Longrightarrow> i \<le> j \<Longrightarrow> j \<le> b \<Longrightarrow> field i j c = field i j d" by metis
qed

lemma write_all_run:
  assumes "ft_faults s = []" and "ft_file s p = Some old" and "pos \<le> length old"
  obtains s' where "io_write_all p pos bs s = (s', Inr ())" and "ft_file s' = (ft_file s)(p \<mapsto> write_at pos bs old)" and "ft_faults s' = []"
proof -
  have "io_write_all p pos bs s = (write_through p pos bs s, Inr ())" using assms(1) by (simp add: io_write_all_def step_call_run supd_def)
  moreover have "ft_faults (write_through p pos bs s) = []" using assms(1) by (simp add: write_through_def put_file_def split: option.splits)
  ultimately show ?thesis using that ft_file_write_through [OF assms(2,3)] by metis
qed

text \<open>The upgraded file: header and trailer are replaced.\<close>

definition upgraded_file :: "crypto_prims \<Rightarrow> header \<Rightarrow> bytes \<Rightarrow> string \<Rightarrow> bytes \<Rightarrow> bytes" where
  "upgraded_file P h chk oid c = (let e = encode_header P h chk oid in e @ field 64 (unat (trailer_offset h)) c @ e)"

lemma upgraded_file_writes:
  assumes "length e = 64" and "128 + n \<le> length c"
  shows "write_at (length c - 64) e (write_at 0 e c) = e @ field 64 (length c - 64) c @ e"
  using assms by (simp add: write_at_def field_def min_def)

text \<open>\<open>old_container E s chk path c h\<close>: the file is a version-1 container for \<open>path\<close>, of the declared length.\<close>

definition old_container :: "fs_env \<Rightarrow> 's file_tree_scheme \<Rightarrow> bytes \<Rightarrow> path \<Rightarrow> bytes \<Rightarrow> header \<Rightarrow> bool" where
  "old_container E s chk path c h \<longleftrightarrow> ft_file s path = Some c \<and> length c < 2 ^ 64 \<and> object_id_from_path path \<noteq> None \<and> HEADER_SIZE \<le> length c
     \<and> decode_v1_header (fe_prims E) (take HEADER_SIZE c) = Some h \<and> check_total_len h (of_nat (length c)) = Inr ()
     \<and> \<not> is_ok (decode_header (fe_prims E) (take HEADER_SIZE c) chk (the (object_id_from_path path)))"

lemma old_container_layout:
  assumes "old_container E s chk path c h"
  shows "unat (trailer_offset h) = length c - 64" and "128 \<le> length c" and "64 \<le> unat (hd_data_offset h)"
    and "unat (meta_offset h) = unat (hd_data_offset h) + unat (hd_data_len h)"
    and "unat (meta_offset h) + unat (hd_meta_len h) = length c - 64"
proof -
  have t: "check_total_len h (of_nat (length c)) = Inr ()" and l: "length c < 2 ^ 64"
    and d: "decode_v1_header (fe_prims E) (take HEADER_SIZE c) = Some h" using assms by (auto simp: old_container_def)
  have u: "unat (of_nat (length c) :: u64) = length c" using l by (simp add: unat_of_nat)
  show o: "64 \<le> unat (hd_data_offset h)" using decode_v1_facts(2) [OF d] by (simp add: MIN_DATA_OFFSET_def HEADER_SIZE_def word_le_nat_alt)
  show "unat (trailer_offset h) = length c - 64" "128 \<le> length c" "unat (meta_offset h) = unat (hd_data_offset h) + unat (hd_data_len h)"
    "unat (meta_offset h) + unat (hd_meta_len h) = length c - 64"
    using check_total_len_exact [OF t] u o by (auto simp: HEADER_SIZE_def)
qed

lemma upgrade_run:
  assumes f: "ft_faults s = []" and o: "old_container E s chk path c h" and P: "hmac_len (fe_prims E)"
    and oid: "object_id_from_path path = Some oid"
  obtains s' where "upgrade_one_container_header E path chk bucket s = (s', Inr True)"
    and "ft_file s' = (ft_file s)(path \<mapsto> upgraded_file (fe_prims E) h chk oid c)" and "ft_faults s' = []"
proof -
  let ?e = "encode_header (fe_prims E) h chk oid"
  note l = old_container_layout [OF o] and e = length_encode_header [OF P, of h chk oid]
  have c: "ft_file s path = Some c" using o by (simp add: old_container_def)
  obtain s1 where s1: "io_write_all path 0 ?e s = (s1, Inr ())" "ft_file s1 = (ft_file s)(path \<mapsto> write_at 0 ?e c)" "ft_faults s1 = []"
    using write_all_run [OF f c, of 0 ?e] by auto
  have "length (write_at 0 ?e c) = length c" using l e by (simp add: write_at_def)
  then obtain s2 where s2: "io_write_all path (unat (trailer_offset h)) ?e s1 = (s2, Inr ())" "ft_faults s2 = []"
    "ft_file s2 = (ft_file s1)(path \<mapsto> write_at (unat (trailer_offset h)) ?e (write_at 0 ?e c))"
    using write_all_run [OF s1(3), of path "write_at 0 ?e c" "unat (trailer_offset h)" ?e] s1(2) l(1) by auto
  have "io_sync s2 = (s2, Inr ())" using s2(2) by (simp add: io_sync_def io_call_run comp_defs)
  then have "upgrade_one_container_header E path chk bucket s = (s2, Inr True)"
    using o oid s1(1) s2(1) io_pure [OF f] io_pure(4) [OF s1(3)]
    by (simp add: upgrade_one_container_header_def old_container_def Let_def comp_defs io_write_last_def stry_def)
  moreover have "ft_file s2 = (ft_file s)(path \<mapsto> upgraded_file (fe_prims E) h chk oid c)"
    using s2(3) s1(2) upgraded_file_writes [OF e, of 0 c] l by (simp add: upgraded_file_def Let_def)
  ultimately show ?thesis using that s2(2) by blast
qed

lemma upgraded_reads:
  assumes o: "old_container E s chk path c h" and P: "hmac_len (fe_prims E)" and oid: "object_id_from_path path = Some oid"
  defines "c' \<equiv> upgraded_file (fe_prims E) h chk oid c"
  shows "header_of_file E chk path c' = Some h" and "field 64 (length c - 64) c' = field 64 (length c - 64) c" and "length c' = length c"
proof -
  let ?e = "encode_header (fe_prims E) h chk oid"
  note l = old_container_layout [OF o] and e = length_encode_header [OF P, of h chk oid]
  show len: "length c' = length c" and "field 64 (length c - 64) c' = field 64 (length c - 64) c"
    using l e by (simp_all add: c'_def upgraded_file_def Let_def field_def)
  have d: "decode_v1_header (fe_prims E) (take HEADER_SIZE c) = Some h" "check_total_len h (of_nat (length c)) = Inr ()"
    using o by (simp_all add: old_container_def)
  have "take HEADER_SIZE c' = ?e" using e by (simp add: c'_def upgraded_file_def Let_def HEADER_SIZE_def)
  moreover have "decode_header (fe_prims E) ?e chk oid = Inr h"
    using decode_encoded [OF P decode_v1_facts(1) [OF d(1)], of chk oid chk oid] decode_v1_facts(2) [OF d(1)] l(3) by auto
  ultimately show "header_of_file E chk path c' = Some h"
    unfolding header_of_file_Some using oid len l d by (simp add: HEADER_SIZE_def)
qed

text \<open>C20. The upgrade of a version-1 container, when no call fails, makes its header read under the container-header key, with every field
  as it was; the data and metadata sections keep their bytes; and a second run finds the container upgraded and changes
  nothing.\<close>

theorem upgrade_makes_readable:
  assumes "ft_faults s = []" and "old_container E s chk path c h" and "hmac_len (fe_prims E)"
  shows "\<exists>s' c'. upgrade_one_container_header E path chk bucket s = (s', Inr True) \<and> ft_file s' = (ft_file s)(path \<mapsto> c')
    \<and> header_of_file E chk path c' = Some h \<and> file_data h c' = file_data h c \<and> file_meta h c' = file_meta h c
    \<and> upgrade_one_container_header E path chk bucket s' = (s', Inr False)"
proof -
  obtain oid where oid: "object_id_from_path path = Some oid" using assms(2) by (auto simp: old_container_def)
  let ?c = "upgraded_file (fe_prims E) h chk oid c"
  obtain s' where s': "upgrade_one_container_header E path chk bucket s = (s', Inr True)" "ft_file s' = (ft_file s)(path \<mapsto> ?c)" "ft_faults s' = []"
    using upgrade_run [OF assms(1-3) oid] by metis
  note r = upgraded_reads [OF assms(2,3) oid] and l = old_container_layout [OF assms(2)]
  have sub: "field i j ?c = field i j c" if "64 \<le> i" "i \<le> j" "j \<le> length c - 64" for i j
    using r(2) that by (rule field_sub)
  have "file_data h ?c = file_data h c" "file_meta h ?c = file_meta h c" using sub l by (simp_all add: file_data_def file_meta_def)
  moreover have "upgrade_one_container_header E path chk bucket s' = (s', Inr False)"
    using r(1) s'(2) oid io_pure [OF s'(3)] unfolding header_of_file_Some
    by (auto simp: upgrade_one_container_header_def Let_def comp_defs)
  ultimately show ?thesis using s'(1,2) r(1) by blast
qed

text \<open>A version-1 container with three bytes of data and one of metadata.\<close>

definition v1_fields :: header where
  "v1_fields = \<lparr>hd_data_len = 3, hd_meta_len = 1, hd_data_offset = 64, hd_flags = 0, hd_version = 1\<rparr>"

definition v1_header :: bytes where
  "v1_header = header_fields_bytes v1_fields @ replicate 32 0 @ replicate 4 0 @ to_le_u32 60"

definition v1_container :: bytes where
  "v1_container = v1_header @ [1, 2, 3] @ [9] @ v1_header"

lemma v1_sample_facts:
  "length v1_container = 132" "take HEADER_SIZE v1_container = v1_header"
  "decode_v1_header keyed_prims v1_header = Some (v1_fields\<lparr>hd_version := VERSION\<rparr>)"
  "check_total_len (v1_fields\<lparr>hd_version := VERSION\<rparr>) 132 = Inr ()"
  "\<not> is_ok (decode_header keyed_prims v1_header (replicate 32 1) rot_id)"
proof -
  note e = encoded_fields [where mac = "replicate 32 0" and h = v1_fields and crc = "to_le_u32 60", folded v1_header_def, simplified]
  show "length v1_container = 132" "take HEADER_SIZE v1_container = v1_header"
    by (simp_all add: v1_container_def v1_header_def HEADER_SIZE_def)
  show "decode_v1_header keyed_prims v1_header = Some (v1_fields\<lparr>hd_version := VERSION\<rparr>)"
    unfolding decode_v1_header_def e by (simp add: v1_fields_def keyed_prims_def plain_prims_def MIN_DATA_OFFSET_def HEADER_SIZE_def)
  show "\<not> is_ok (decode_header keyed_prims v1_header (replicate 32 1) rot_id)"
    unfolding decode_header_def e by (simp add: v1_fields_def VERSION_def)
  have "checked_total_len (v1_fields\<lparr>hd_version := VERSION\<rparr>) = Some 132"
    unfolding checked_total_len_Some by (simp add: v1_fields_def HEADER_SIZE_def)
  then show "check_total_len (v1_fields\<lparr>hd_version := VERSION\<rparr>) 132 = Inr ()" by (simp add: check_total_len_def)
qed

theorem upgrade_makes_readable_witness:
  "\<exists>s' c'. upgrade_one_container_header rot_env rot_path (replicate 32 1) ''b'' (sample_fs\<lparr>ft_files := [(rot_path, v1_container, 0)]\<rparr>) = (s', Inr True)
     \<and> ft_file s' rot_path = Some c' \<and> header_of_file rot_env (replicate 32 1) rot_path c' = Some (v1_fields\<lparr>hd_version := VERSION\<rparr>)"
proof -
  let ?s = "sample_fs\<lparr>ft_files := [(rot_path, v1_container, 0)]\<rparr>"
  have "old_container rot_env ?s (replicate 32 1) rot_path v1_container (v1_fields\<lparr>hd_version := VERSION\<rparr>)"
    using v1_sample_facts rot_sample_facts by (simp add: old_container_def ft_file_def HEADER_SIZE_def)
  from upgrade_makes_readable [OF _ this, of "''b''"] show ?thesis
    using keyed_hmac_len rot_sample_facts(1) by (auto simp: sample_fs_def)
qed

end
