(* ===== verification/Rust_Text.thy ===== *)
theory Rust_Text
  imports Y2Q_Prelude
begin

text \<open>
  The part of \<open>std::str\<close>, \<open>u8\<close>/\<open>u64\<close> parsing and \<open>format!\<close> that the HTTP-facing code uses, on strings that
  are UTF-8 byte sequences: splitting into characters, trimming and splitting at Unicode white space,
  joining, prefixes, lossy decoding, and the integer parsers with their optional plus sign and overflow
  check.
\<close>

subsection \<open>Characters and white space\<close>

definition utf8_width :: "char \<Rightarrow> nat" where
  "utf8_width c = (let v = unat (byte_of_char c) in if v < 192 then 1 else if v < 224 then 2 else if v < 240 then 3 else 4)"

lemma utf8_width_pos [simp]: "0 < utf8_width c"
  by (simp add: utf8_width_def Let_def)

function (sequential) utf8_split :: "string \<Rightarrow> string list" where
  "utf8_split [] = []"
| "utf8_split (c # s) = take (utf8_width c) (c # s) # utf8_split (drop (utf8_width c) (c # s))"
  by pat_completeness auto
termination
  by (relation "measure length") auto

lemma concat_utf8_split [simp]: "concat (utf8_split s) = s"
  by (induction s rule: utf8_split.induct) (simp_all only: utf8_split.simps concat.simps append_take_drop_id)

text \<open>\<open>char::is_whitespace\<close> on the bytes of one character.\<close>

definition char_ws :: "string \<Rightarrow> bool" where
  "char_ws c \<longleftrightarrow> map (\<lambda>x. unat (byte_of_char x)) c \<in>
     {[9], [10], [11], [12], [13], [32], [194, 133], [194, 160], [225, 154, 128], [226, 128, 168], [226, 128, 169],
      [226, 128, 175], [226, 129, 159], [227, 128, 128]}
     \<union> (\<lambda>x. [226, 128, x]) ` {128..138}"

definition str_trim :: "string \<Rightarrow> string" where
  "str_trim s = concat (rev (dropWhile char_ws (rev (dropWhile char_ws (utf8_split s)))))"

fun split_ws_loop :: "string \<Rightarrow> string list \<Rightarrow> string list" where
  "split_ws_loop w [] = (if w = [] then [] else [w])"
| "split_ws_loop w (c # cs) =
     (if char_ws c then (if w = [] then split_ws_loop [] cs else w # split_ws_loop [] cs) else split_ws_loop (w @ c) cs)"

definition split_whitespace :: "string \<Rightarrow> string list" where
  "split_whitespace s = split_ws_loop [] (utf8_split s)"

fun join :: "string \<Rightarrow> string list \<Rightarrow> string" where
  "join sep [] = []"
| "join sep [x] = x"
| "join sep (x # y # zs) = x @ sep @ join sep (y # zs)"

fun strip_prefix :: "string \<Rightarrow> string \<Rightarrow> string option" where
  "strip_prefix [] s = Some s"
| "strip_prefix (p # ps) [] = None"
| "strip_prefix (p # ps) (c # cs) = (if p = c then strip_prefix ps cs else None)"

lemma strip_prefix_Some: "strip_prefix p s = Some r \<longleftrightarrow> s = p @ r"
  by (induction p s rule: strip_prefix.induct) auto

abbreviation lowercase :: "string \<Rightarrow> string" where
  "lowercase \<equiv> map to_ascii_lowercase"

text \<open>\<open>split_once\<close> at a character.\<close>

definition split_once :: "char \<Rightarrow> string \<Rightarrow> (string \<times> string) option" where
  "split_once c s = (case dropWhile (\<lambda>d. d \<noteq> c) s of [] \<Rightarrow> None | _ # r \<Rightarrow> Some (takeWhile (\<lambda>d. d \<noteq> c) s, r))"

lemma split_once_Some: "split_once c s = Some (a, b) \<longleftrightarrow> s = a @ c # b \<and> c \<notin> set a"
proof
  assume *: "split_once c s = Some (a, b)"
  then obtain x where x: "dropWhile (\<lambda>d. d \<noteq> c) s = x # b" "takeWhile (\<lambda>d. d \<noteq> c) s = a"
    by (cases "dropWhile (\<lambda>d. d \<noteq> c) s") (simp_all add: split_once_def)
  then have "x = c" using hd_dropWhile [of "\<lambda>d. d \<noteq> c" s] by (metis list.distinct(1) list.sel(1))
  moreover have "c \<notin> set a" using x(2) by (auto dest: set_takeWhileD)
  ultimately show "s = a @ c # b \<and> c \<notin> set a"
    using takeWhile_dropWhile_id [of "\<lambda>d. d \<noteq> c" s] x by simp
next
  assume s: "s = a @ c # b \<and> c \<notin> set a"
  then have "dropWhile (\<lambda>d. d \<noteq> c) s = c # b" "takeWhile (\<lambda>d. d \<noteq> c) s = a"
    by (auto simp: dropWhile_append takeWhile_append split: if_splits)
  then show "split_once c s = Some (a, b)" by (simp add: split_once_def)
qed

lemma split_once_None: "split_once c s = None \<longleftrightarrow> c \<notin> set s"
proof -
  have "split_once c s = None \<longleftrightarrow> dropWhile (\<lambda>d. d \<noteq> c) s = []"
    by (cases "dropWhile (\<lambda>d. d \<noteq> c) s") (simp_all add: split_once_def del: dropWhile_eq_Nil_conv)
  then show ?thesis unfolding dropWhile_eq_Nil_conv by auto
qed

definition is_ascii_alphanumeric :: "char \<Rightarrow> bool" where
  "is_ascii_alphanumeric c \<longleftrightarrow> CHR ''0'' \<le> c \<and> c \<le> CHR ''9'' \<or> CHR ''A'' \<le> c \<and> c \<le> CHR ''Z''
     \<or> CHR ''a'' \<le> c \<and> c \<le> CHR ''z''"

definition is_ascii_digit :: "char \<Rightarrow> bool" where
  "is_ascii_digit c \<longleftrightarrow> CHR ''0'' \<le> c \<and> c \<le> CHR ''9''"

subsection \<open>Numbers\<close>

definition digit_val :: "char \<Rightarrow> nat option" where
  "digit_val c = (let v = of_char c :: nat in
     if 48 \<le> v \<and> v \<le> 57 then Some (v - 48) else if 97 \<le> v \<and> v \<le> 122 then Some (v - 87)
     else if 65 \<le> v \<and> v \<le> 90 then Some (v - 55) else None)"

text \<open>\<open>from_str_radix\<close> of an unsigned type with the given number of values.\<close>

fun radix_loop :: "nat \<Rightarrow> nat \<Rightarrow> nat \<Rightarrow> string \<Rightarrow> nat option" where
  "radix_loop radix limit acc [] = Some acc"
| "radix_loop radix limit acc (c # cs) =
     (case digit_val c of None \<Rightarrow> None | Some d \<Rightarrow>
      if radix \<le> d \<or> limit \<le> acc * radix + d then None else radix_loop radix limit (acc * radix + d) cs)"

definition from_str_radix :: "nat \<Rightarrow> nat \<Rightarrow> string \<Rightarrow> nat option" where
  "from_str_radix limit radix s =
     (case s of [] \<Rightarrow> None
      | c # cs \<Rightarrow> if c = CHR ''+'' then (if cs = [] then None else radix_loop radix limit 0 cs) else radix_loop radix limit 0 s)"

text \<open>\<open>{:02x}\<close> and \<open>{:02X}\<close> of a byte, \<open>{:x}\<close> of a number.\<close>

definition hex_lower :: "nat \<Rightarrow> char" where "hex_lower n = char_of (if n < 10 then 48 + n else 87 + n)"
definition hex_upper :: "nat \<Rightarrow> char" where "hex_upper n = char_of (if n < 10 then 48 + n else 55 + n)"

definition hex2 :: "(nat \<Rightarrow> char) \<Rightarrow> byte \<Rightarrow> string" where
  "hex2 digit b = [digit (unat b div 16), digit (unat b mod 16)]"

fun show_hex :: "nat \<Rightarrow> string" where
  "show_hex n = (if n < 16 then [hex_lower n] else show_hex (n div 16) @ [hex_lower (n mod 16)])"

declare show_hex.simps [simp del]

lemma digit_val_hex: "n < 16 \<Longrightarrow> digit_val (hex_lower n) = Some n" "n < 16 \<Longrightarrow> digit_val (hex_upper n) = Some n"
  by (auto simp: digit_val_def hex_lower_def hex_upper_def Let_def)

lemma radix_loop_append:
  "radix_loop r l acc (s @ t) = Option.bind (radix_loop r l acc s) (\<lambda>a. radix_loop r l a t)"
  by (induction s arbitrary: acc) (auto split: option.splits)

lemma radix_loop_show_hex: "n < limit \<Longrightarrow> radix_loop 16 limit 0 (show_hex n) = Some n"
proof (induction n rule: show_hex.induct)
  case (1 n)
  show ?case
  proof (cases "n < 16")
    case True
    then show ?thesis using 1(2) by (simp add: show_hex.simps [of n] digit_val_hex)
  next
    case False
    have "n div 16 < limit" using 1(2) by (meson div_le_dividend le_less_trans)
    then have "radix_loop 16 limit 0 (show_hex (n div 16)) = Some (n div 16)" using 1(1) False by blast
    moreover have "n div 16 * 16 + n mod 16 = n" by simp
    ultimately show ?thesis using 1(2) False by (simp add: show_hex.simps [of n] radix_loop_append digit_val_hex)
  qed
qed

lemma show_hex_digits: "show_hex n \<noteq> [] \<and> (\<forall>c \<in> set (show_hex n). \<exists>d < 16. c = hex_lower d)"
proof (induction n rule: show_hex.induct)
  case (1 n)
  then show ?case by (cases "n < 16") (auto simp: show_hex.simps [of n] intro: exI [of _ "n mod 16"])
qed

lemma hex_lower_plain: "d < 16 \<Longrightarrow> hex_lower d \<notin> {CHR ''+'', CHR '';'', CHR '':'', CHR 0x0D, CHR 0x0A, CHR '' ''}"
proof
  assume d: "d < 16" and "hex_lower d \<in> {CHR ''+'', CHR '';'', CHR '':'', CHR 0x0D, CHR 0x0A, CHR '' ''}"
  then have "(of_char (hex_lower d) :: nat) \<in> {43, 59, 58, 13, 10, 32}" by auto
  moreover have "(of_char (hex_lower d) :: nat) = (if d < 10 then 48 + d else 87 + d)" using d by (simp add: hex_lower_def)
  ultimately show False using d by (auto split: if_splits)
qed

lemma from_str_radix_show_hex: "n < limit \<Longrightarrow> from_str_radix limit 16 (show_hex n) = Some n"
proof -
  assume n: "n < limit"
  obtain c cs where c: "show_hex n = c # cs" using show_hex_digits [of n] by (cases "show_hex n") auto
  then obtain d where "d < 16" "c = hex_lower d" using show_hex_digits [of n] by auto
  then have "c \<noteq> CHR ''+''" using hex_lower_plain [of d] by auto
  then show ?thesis using radix_loop_show_hex [OF n] c by (simp only: from_str_radix_def list.case if_False)
qed

subsection \<open>Lossy decoding\<close>

text \<open>\<open>String::from_utf8_lossy\<close>: the length of the first sequence of a non-empty buffer and whether it is well
  formed; an ill-formed one is replaced by U+FFFD.\<close>

definition utf8_head :: "bytes \<Rightarrow> nat \<times> bool" where
  "utf8_head bs =
     (let at = (\<lambda>i. if i < length bs then unat (bs ! i) else 0); v = at 0; cont = (\<lambda>i. 128 \<le> at i \<and> at i \<le> 191) in
      if v < 128 then (1, True)
      else if 194 \<le> v \<and> v \<le> 223 then (if cont 1 then (2, True) else (1, False))
      else if 224 \<le> v \<and> v \<le> 239 then
        (if \<not> (cont 1 \<and> (v = 224 \<longrightarrow> 160 \<le> at 1) \<and> (v = 237 \<longrightarrow> at 1 \<le> 159)) then (1, False)
         else if \<not> cont 2 then (2, False) else (3, True))
      else if 240 \<le> v \<and> v \<le> 244 then
        (if \<not> (cont 1 \<and> (v = 240 \<longrightarrow> 144 \<le> at 1) \<and> (v = 244 \<longrightarrow> at 1 \<le> 143)) then (1, False)
         else if \<not> cont 2 then (2, False) else if \<not> cont 3 then (3, False) else (4, True))
      else (1, False))"

lemma utf8_head_pos: "0 < fst (utf8_head bs)"
  by (simp add: utf8_head_def Let_def)

function (sequential) lossy_bytes :: "bytes \<Rightarrow> bytes" where
  "lossy_bytes [] = []"
| "lossy_bytes (b # bs) =
     (case utf8_head (b # bs) of (n, ok) \<Rightarrow>
        (if ok then take n (b # bs) else [239, 191, 189]) @ lossy_bytes (drop n (b # bs)))"
  by pat_completeness auto
termination
proof (relation "measure length", goal_cases)
  case (2 b bs n ok)
  then have "n = fst (utf8_head (b # bs))" by (metis fst_conv)
  then show ?case using utf8_head_pos [of "b # bs"] by simp
qed simp

definition from_utf8_lossy :: "bytes \<Rightarrow> string" where
  "from_utf8_lossy bs = map char_of_byte (lossy_bytes bs)"

lemma utf8_valid_head:
  assumes "utf8_valid (b # bs)"
  obtains n where "utf8_head (b # bs) = (n, True)" and "utf8_valid (drop n (b # bs))"
proof -
  let ?v = "unat b"
  consider "?v < 128" | "194 \<le> ?v" "?v \<le> 223" | "224 \<le> ?v" "?v \<le> 239" | "240 \<le> ?v" "?v \<le> 244"
    using assms by (auto simp: Let_def split: if_splits)
  then show thesis
  proof cases
    case 1
    then show ?thesis using that [of 1] assms by (simp add: utf8_head_def Let_def)
  next
    case 2
    then obtain c r where "bs = c # r" "is_cont c" "utf8_valid r" using assms by (auto simp: Let_def split: list.splits)
    then show ?thesis using 2 that [of 2] by (simp add: utf8_head_def Let_def is_cont_def)
  next
    case 3
    then obtain c d r where "bs = c # d # r" "is_cont c" "is_cont d" "?v = 224 \<longrightarrow> 160 \<le> unat c" "?v = 237 \<longrightarrow> unat c \<le> 159" "utf8_valid r"
      using assms by (auto simp: Let_def split: list.splits)
    then show ?thesis using 3 that [of 3] by (simp add: utf8_head_def Let_def is_cont_def)
  next
    case 4
    then obtain c d e r where "bs = c # d # e # r" "is_cont c" "is_cont d" "is_cont e" "?v = 240 \<longrightarrow> 144 \<le> unat c"
      "?v = 244 \<longrightarrow> unat c \<le> 143" "utf8_valid r"
      using assms by (auto simp: Let_def split: list.splits)
    then show ?thesis using 4 that [of 4] by (simp add: utf8_head_def Let_def is_cont_def)
  qed
qed

lemma lossy_valid: "utf8_valid bs \<Longrightarrow> lossy_bytes bs = bs"
proof (induction bs rule: lossy_bytes.induct)
  case (2 b bs)
  obtain n where n: "utf8_head (b # bs) = (n, True)" "utf8_valid (drop n (b # bs))" by (rule utf8_valid_head [OF 2(2)])
  then have "lossy_bytes (drop n (b # bs)) = drop n (b # bs)" using 2(1) by metis
  then show ?case unfolding lossy_bytes.simps n(1) by (simp only: prod.case if_True append_take_drop_id)
qed simp

lemma from_utf8_lossy_str: "rust_str s \<Longrightarrow> from_utf8_lossy (as_bytes s) = s"
  by (simp add: from_utf8_lossy_def lossy_valid rust_str_def as_bytes_def comp_def)

end
