(* ===== verification/Session_Store.thy ===== *)
theory Session_Store
  imports Crypto_Prims Rust_Text
begin

text \<open>
  Sessions of the daemon: \<open>crates/y2qd/src/auth/session.rs\<close> (the session table, its bucket-key cache and
  token lifetimes), \<open>auth/keyring.rs\<close> and the \<open>MemoryKey\<close> of \<open>crates/y2q-core/src/secmem.rs\<close> (how
  secrets are sealed in memory), \<open>auth/state.rs\<close> (the login lockout), \<open>auth/mod.rs\<close> (the request
  extractors), \<open>auth/users.rs\<close> and \<open>auth/error.rs\<close>.

  What an operation draws from its environment is the record \<open>sec_env\<close>: the primitives, SHA-256, the
  random token and nonce, the clock, the outcome of guarded allocations (\<open>en_mem\<close>, an error message
  when one fails) and the \<open>Display\<close> of crypto errors. A session row that the source shares as an
  \<open>Arc\<close> is a value; its mutable bucket-key cache is part of it.
\<close>

subsection \<open>\<open>auth/error.rs\<close>\<close>

datatype (plugins only: code) auth_error =
    InvalidCredentials
  | TokenMissing
  | TokenInvalid
  | TokenExpired
  | AuthForbidden
  | AccountDisabled
  | TtlOutOfRange u64
  | LockedOut time
  | UserExists string
  | UserNotFound string
  | CannotDeleteLastUser
  | CannotDeleteLastAdmin
  | CannotDeleteSoleGrantee "string list"
  | CannotDemoteLastAdmin
  | InvalidRole string
  | InvalidUsername string
  | InvalidBody string
  | InvalidPersonaSlot string
  | RoleExceedsAccount
  | PasswordReused
  | Backend string
  | InternalState
  | S3CredentialUnknown
  | RefreshLimitExceeded

fun auth_status_code :: "auth_error \<Rightarrow> nat" where
  "auth_status_code InvalidCredentials = 401"
| "auth_status_code TokenMissing = 401"
| "auth_status_code TokenInvalid = 401"
| "auth_status_code TokenExpired = 401"
| "auth_status_code AuthForbidden = 403"
| "auth_status_code AccountDisabled = 403"
| "auth_status_code S3CredentialUnknown = 403"
| "auth_status_code RefreshLimitExceeded = 403"
| "auth_status_code (LockedOut _) = 429"
| "auth_status_code (TtlOutOfRange _) = 400"
| "auth_status_code (InvalidUsername _) = 400"
| "auth_status_code (InvalidRole _) = 400"
| "auth_status_code (InvalidPersonaSlot _) = 400"
| "auth_status_code RoleExceedsAccount = 400"
| "auth_status_code (InvalidBody _) = 400"
| "auth_status_code (UserExists _) = 409"
| "auth_status_code CannotDeleteLastUser = 409"
| "auth_status_code CannotDeleteLastAdmin = 409"
| "auth_status_code CannotDemoteLastAdmin = 409"
| "auth_status_code (CannotDeleteSoleGrantee _) = 409"
| "auth_status_code PasswordReused = 409"
| "auth_status_code (UserNotFound _) = 404"
| "auth_status_code (Backend _) = 500"
| "auth_status_code InternalState = 500"

subsection \<open>Secrets sealed in memory\<close>

record sec_env =
  en_prims :: crypto_prims
  en_sha256 :: "bytes \<Rightarrow> bytes"
  en_display :: "crypto_error \<Rightarrow> string"
  en_mem :: "string option"
  en_nonce :: bytes
  en_token :: string
  en_now :: time

record sealed_secret =
  ss_nonce :: bytes
  ss_ct :: bytes

definition MemoryKey_seal :: "sec_env \<Rightarrow> bytes \<Rightarrow> bytes \<Rightarrow> bytes \<Rightarrow> crypto_error + sealed_secret" where
  "MemoryKey_seal E key plaintext aad =
     (case en_mem E of Some e \<Rightarrow> Inl (SecMem e) | None \<Rightarrow>
      (case gcm_seal (en_prims E) key (en_nonce E) aad plaintext of
         None \<Rightarrow> Inl (Aead ''memory key seal'')
       | Some ct \<Rightarrow> Inr \<lparr>ss_nonce = en_nonce E, ss_ct = ct\<rparr>))"

definition MemoryKey_open :: "sec_env \<Rightarrow> bytes \<Rightarrow> sealed_secret \<Rightarrow> bytes \<Rightarrow> crypto_error + bytes" where
  "MemoryKey_open E key sealed aad =
     (case en_mem E of Some e \<Rightarrow> Inl (SecMem e) | None \<Rightarrow>
      ok_or (gcm_open (en_prims E) key (ss_nonce sealed) aad (ss_ct sealed)) AuthFailed)"

definition identity_aad :: "bytes \<Rightarrow> string \<Rightarrow> u8 \<Rightarrow> bytes" where
  "identity_aad token_hash username persona =
     as_bytes ''y2q/v1/session-sk'' @ token_hash @ [persona]
     @ to_be_u32 (of_nat (length username)) @ as_bytes username"

definition bucket_key_aad :: "bytes \<Rightarrow> string \<Rightarrow> u32 \<Rightarrow> bytes" where
  "bucket_key_aad token_hash bucket epoch =
     as_bytes ''y2q/v1/session-bk'' @ token_hash @ to_be_u32 epoch
     @ to_be_u32 (of_nat (length bucket)) @ as_bytes bucket"

definition s3_secret_aad :: "bytes \<Rightarrow> string \<Rightarrow> bytes" where
  "s3_secret_aad token_hash access_key_id =
     as_bytes ''y2q/v1/s3-secret'' @ token_hash
     @ to_be_u32 (of_nat (length access_key_id)) @ as_bytes access_key_id"

definition backend :: "sec_env \<Rightarrow> crypto_error + 'a \<Rightarrow> auth_error + 'a" where
  "backend E r = map_err (\<lambda>e. Backend (en_display E e)) r"

definition seal_identity :: "sec_env \<Rightarrow> bytes \<Rightarrow> bytes \<Rightarrow> string \<Rightarrow> u8 \<Rightarrow> bytes \<Rightarrow> auth_error + sealed_secret" where
  "seal_identity E kr token_hash username persona sk =
     backend E (MemoryKey_seal E kr sk (identity_aad token_hash username persona))"

definition open_identity :: "sec_env \<Rightarrow> bytes \<Rightarrow> bytes \<Rightarrow> string \<Rightarrow> u8 \<Rightarrow> sealed_secret \<Rightarrow> auth_error + bytes" where
  "open_identity E kr token_hash username persona sealed =
     backend E (MemoryKey_open E kr sealed (identity_aad token_hash username persona))"

definition seal_bucket_key :: "sec_env \<Rightarrow> bytes \<Rightarrow> bytes \<Rightarrow> string \<Rightarrow> u32 \<Rightarrow> bytes \<Rightarrow> auth_error + sealed_secret" where
  "seal_bucket_key E kr token_hash bucket epoch sk =
     backend E (MemoryKey_seal E kr sk (bucket_key_aad token_hash bucket epoch))"

definition open_bucket_key :: "sec_env \<Rightarrow> bytes \<Rightarrow> bytes \<Rightarrow> string \<Rightarrow> u32 \<Rightarrow> sealed_secret \<Rightarrow> auth_error + bytes" where
  "open_bucket_key E kr token_hash bucket epoch sealed =
     backend E (MemoryKey_open E kr sealed (bucket_key_aad token_hash bucket epoch))"

definition seal_s3_secret :: "sec_env \<Rightarrow> bytes \<Rightarrow> bytes \<Rightarrow> string \<Rightarrow> bytes \<Rightarrow> auth_error + sealed_secret" where
  "seal_s3_secret E kr token_hash access_key_id secret =
     backend E (MemoryKey_seal E kr secret (s3_secret_aad token_hash access_key_id))"

definition open_s3_secret :: "sec_env \<Rightarrow> bytes \<Rightarrow> bytes \<Rightarrow> string \<Rightarrow> sealed_secret \<Rightarrow> auth_error + bytes" where
  "open_s3_secret E kr token_hash access_key_id sealed =
     backend E (MemoryKey_open E kr sealed (s3_secret_aad token_hash access_key_id))"

subsection \<open>Session rows\<close>

record bucket_key_cache =
  bk_entries :: "((string \<times> u32), sealed_secret) dmap"
  bk_order :: "(string \<times> u32) list"

definition empty_cache :: bucket_key_cache where
  "empty_cache = \<lparr>bk_entries = [], bk_order = []\<rparr>"

definition MAX_SESSION_BUCKET_KEYS :: nat where "MAX_SESSION_BUCKET_KEYS = 32"

definition cache_get :: "bucket_key_cache \<Rightarrow> string \<Rightarrow> u32 \<Rightarrow> sealed_secret option" where
  "cache_get c bucket epoch = dm_get (bk_entries c) (bucket, epoch)"

definition cache_insert :: "bucket_key_cache \<Rightarrow> string \<Rightarrow> u32 \<Rightarrow> sealed_secret \<Rightarrow> bucket_key_cache" where
  "cache_insert c bucket epoch key =
     (let ident = (bucket, epoch);
          c = (if dm_get (bk_entries c) ident \<noteq> None then c
               else let order = bk_order c @ [ident] in
                 if MAX_SESSION_BUCKET_KEYS < length order
                 then (case order of
                     oldest # rest \<Rightarrow> c\<lparr>bk_order := rest, bk_entries := dm_remove oldest (bk_entries c)\<rparr>
                   | [] \<Rightarrow> c\<lparr>bk_order := order\<rparr>)
                 else c\<lparr>bk_order := order\<rparr>)
      in c\<lparr>bk_entries := dm_insert ident key (bk_entries c)\<rparr>)"

record new_session =
  ns_username :: string
  ns_role :: role
  ns_created_at :: time
  ns_expires_at :: time
  ns_persona :: u8
  ns_revoke_other_sessions :: bool
  ns_identity_sk :: bytes

record session_info =
  si_username :: string
  si_role :: role
  si_created_at :: time
  si_expires_at :: time
  si_persona :: u8
  si_revoke_other_sessions :: bool
  si_identity_sk :: sealed_secret
  si_refresh_count :: u32
  si_token_hash :: bytes
  si_keyring :: bytes
  si_bucket_keys :: bucket_key_cache

definition is_expired :: "session_info \<Rightarrow> time \<Rightarrow> bool" where
  "is_expired s now \<longleftrightarrow> si_expires_at s \<le> now"

definition open_identity_sk :: "sec_env \<Rightarrow> session_info \<Rightarrow> auth_error + bytes" where
  "open_identity_sk E s = open_identity E (si_keyring s) (si_token_hash s) (si_username s) (si_persona s) (si_identity_sk s)"

definition cached_bucket_key :: "sec_env \<Rightarrow> session_info \<Rightarrow> string \<Rightarrow> u32 \<Rightarrow> (auth_error + bytes) option" where
  "cached_bucket_key E s bucket epoch =
     map_option (open_bucket_key E (si_keyring s) (si_token_hash s) bucket epoch) (cache_get (si_bucket_keys s) bucket epoch)"

definition cache_bucket_key :: "sec_env \<Rightarrow> session_info \<Rightarrow> string \<Rightarrow> u32 \<Rightarrow> bytes \<Rightarrow> auth_error + session_info" where
  "cache_bucket_key E s bucket epoch sk =
     rbind (seal_bucket_key E (si_keyring s) (si_token_hash s) bucket epoch sk) (\<lambda>sealed.
     Inr (s\<lparr>si_bucket_keys := cache_insert (si_bucket_keys s) bucket epoch sealed\<rparr>))"

subsection \<open>The session table\<close>

record session_store =
  st_inner :: "(bytes, session_info) dmap"
  st_keyring :: bytes

definition hash_token :: "sec_env \<Rightarrow> string \<Rightarrow> bytes" where
  "hash_token E token = en_sha256 E (as_bytes token)"

definition insert_session :: "sec_env \<Rightarrow> session_store \<Rightarrow> new_session \<Rightarrow> session_store \<times> (auth_error + string)" where
  "insert_session E st s =
     (let token = en_token E;
          token_hash = hash_token E token in
      case seal_identity E (st_keyring st) token_hash (ns_username s) (ns_persona s) (ns_identity_sk s) of
        Inl e \<Rightarrow> (st, Inl e)
      | Inr identity_sk \<Rightarrow>
        (st\<lparr>st_inner := dm_insert token_hash
            \<lparr>si_username = ns_username s, si_role = ns_role s, si_created_at = ns_created_at s,
             si_expires_at = ns_expires_at s, si_persona = ns_persona s,
             si_revoke_other_sessions = ns_revoke_other_sessions s, si_identity_sk = identity_sk,
             si_refresh_count = 0, si_token_hash = token_hash, si_keyring = st_keyring st,
             si_bucket_keys = empty_cache\<rparr> (st_inner st)\<rparr>, Inr token))"

definition reissue :: "sec_env \<Rightarrow> session_store \<Rightarrow> bytes \<Rightarrow> time \<Rightarrow> u32 \<Rightarrow> session_store \<times> (auth_error + string)" where
  "reissue E st old_hash expires_at max_refreshes =
     (case dm_get (st_inner st) old_hash of None \<Rightarrow> (st, Inl TokenInvalid) | Some old \<Rightarrow>
      if max_refreshes \<le> si_refresh_count old then (st, Inl RefreshLimitExceeded) else
      case open_identity_sk E old of Inl e \<Rightarrow> (st, Inl e) | Inr sk \<Rightarrow>
      let token = en_token E;
          new_hash = hash_token E token in
      case seal_identity E (st_keyring st) new_hash (si_username old) (si_persona old) sk of
        Inl e \<Rightarrow> (st, Inl e)
      | Inr identity_sk \<Rightarrow>
        let info = \<lparr>si_username = si_username old, si_role = si_role old, si_created_at = si_created_at old,
             si_expires_at = expires_at, si_persona = si_persona old,
             si_revoke_other_sessions = si_revoke_other_sessions old, si_identity_sk = identity_sk,
             si_refresh_count = si_refresh_count old + 1, si_token_hash = new_hash,
             si_keyring = st_keyring st, si_bucket_keys = empty_cache\<rparr>
        in (st\<lparr>st_inner := dm_remove old_hash (dm_insert new_hash info (st_inner st))\<rparr>, Inr token))"

definition get_active :: "time \<Rightarrow> session_store \<Rightarrow> bytes \<Rightarrow> session_store \<times> (auth_error + session_info)" where
  "get_active now st token_hash =
     (case dm_get (st_inner st) token_hash of
        None \<Rightarrow> (st, Inl TokenInvalid)
      | Some info \<Rightarrow>
        if is_expired info now then (st\<lparr>st_inner := dm_remove token_hash (st_inner st)\<rparr>, Inl TokenExpired)
        else (st, Inr info))"

definition revoke :: "session_store \<Rightarrow> bytes \<Rightarrow> session_store \<times> bool" where
  "revoke st token_hash =
     (st\<lparr>st_inner := dm_remove token_hash (st_inner st)\<rparr>, dm_get (st_inner st) token_hash \<noteq> None)"

text \<open>Collect the rows a predicate selects, then remove them one by one; the result is the number
  collected.\<close>

definition remove_rows :: "(bytes \<Rightarrow> session_info \<Rightarrow> bool) \<Rightarrow> session_store \<Rightarrow> session_store \<times> nat" where
  "remove_rows P st =
     (let victims = dm_keys_where P (st_inner st)
      in (st\<lparr>st_inner := dm_remove_all victims (st_inner st)\<rparr>, length victims))"

definition revoke_user :: "session_store \<Rightarrow> string \<Rightarrow> session_store \<times> nat" where
  "revoke_user st username = remove_rows (\<lambda>k s. si_username s = username) st"

definition revoke_user_persona :: "session_store \<Rightarrow> string \<Rightarrow> u8 \<Rightarrow> session_store \<times> nat" where
  "revoke_user_persona st username persona =
     remove_rows (\<lambda>k s. si_username s = username \<and> si_persona s = persona) st"

definition revoke_user_persona_except :: "session_store \<Rightarrow> string \<Rightarrow> u8 \<Rightarrow> bytes \<Rightarrow> session_store \<times> nat" where
  "revoke_user_persona_except st username persona keep =
     remove_rows (\<lambda>k s. si_username s = username \<and> si_persona s = persona \<and> k \<noteq> keep) st"

definition sweep_sessions :: "time \<Rightarrow> session_store \<Rightarrow> session_store \<times> nat" where
  "sweep_sessions now st = remove_rows (\<lambda>k s. is_expired s now) st"

text \<open>Each victim is resealed under its own row; \<open>E k\<close> is the environment of the seal for row \<open>k\<close>. A row
  whose seal fails is left as it is.\<close>

definition switch_row :: "(bytes \<Rightarrow> sec_env) \<Rightarrow> bytes \<Rightarrow> string \<Rightarrow> u8 \<Rightarrow> role \<Rightarrow> bool \<Rightarrow> bytes \<Rightarrow> bytes
    \<Rightarrow> (bytes, session_info) dmap \<Rightarrow> (bytes, session_info) dmap" where
  "switch_row E kr username new_persona new_role new_revoke identity_sk k inner =
     (case dm_get inner k of None \<Rightarrow> inner | Some old \<Rightarrow>
      case seal_identity (E k) kr k username new_persona identity_sk of
        Inl e \<Rightarrow> inner
      | Inr sealed \<Rightarrow> dm_insert k
          \<lparr>si_username = si_username old, si_role = new_role, si_created_at = si_created_at old,
           si_expires_at = si_expires_at old, si_persona = new_persona,
           si_revoke_other_sessions = new_revoke, si_identity_sk = sealed,
           si_refresh_count = si_refresh_count old, si_token_hash = k, si_keyring = kr,
           si_bucket_keys = empty_cache\<rparr> inner)"

definition switch_user_to_persona :: "(bytes \<Rightarrow> sec_env) \<Rightarrow> session_store \<Rightarrow> string \<Rightarrow> u8 \<Rightarrow> role \<Rightarrow> bool \<Rightarrow> bytes
    \<Rightarrow> session_store \<times> nat" where
  "switch_user_to_persona E st username new_persona new_role new_revoke identity_sk =
     (let victims = dm_keys_where (\<lambda>k s. si_username s = username \<and> si_persona s \<noteq> new_persona) (st_inner st)
      in (st\<lparr>st_inner := fold (switch_row E (st_keyring st) username new_persona new_role new_revoke identity_sk)
            victims (st_inner st)\<rparr>, length victims))"

definition NANOS :: nat where "NANOS = 1000000000"

definition compute_expiry :: "time \<Rightarrow> u64 option \<Rightarrow> u64 \<Rightarrow> u64 \<Rightarrow> auth_error + time" where
  "compute_expiry now requested_seconds default_ttl max_ttl =
     (let ttl = (case requested_seconds of Some t \<Rightarrow> t | None \<Rightarrow> default_ttl) in
      if ttl = 0 \<or> max_ttl < ttl then Inl (TtlOutOfRange max_ttl) else Inr (now + unat ttl * NANOS))"

subsection \<open>Login lockout\<close>

record attempt_state =
  at_failed_count :: u32
  at_locked_until :: "time option"

type_synonym login_attempts = "(string, attempt_state) dmap"

definition check_lockout :: "time \<Rightarrow> login_attempts \<Rightarrow> string \<Rightarrow> login_attempts \<times> (time + unit)" where
  "check_lockout now la username =
     (case dm_get la username of
        Some s \<Rightarrow> (case at_locked_until s of
            Some until \<Rightarrow> if now < until then (la, Inl until)
              else (dm_insert username \<lparr>at_failed_count = 0, at_locked_until = None\<rparr> la, Inr ())
          | None \<Rightarrow> (la, Inr ()))
      | None \<Rightarrow> (la, Inr ()))"

definition saturating_add_u32 :: "u32 \<Rightarrow> u32 \<Rightarrow> u32" where
  "saturating_add_u32 a b = (if unat a + unat b < 2 ^ 32 then a + b else - 1)"

definition record_failure :: "time \<Rightarrow> login_attempts \<Rightarrow> string \<Rightarrow> u32 \<Rightarrow> time \<Rightarrow> login_attempts" where
  "record_failure now la username max_failed lockout_duration =
     (if max_failed = 0 then la else
      let s = (case dm_get la username of Some s \<Rightarrow> s | None \<Rightarrow> \<lparr>at_failed_count = 0, at_locked_until = None\<rparr>);
          s = s\<lparr>at_failed_count := saturating_add_u32 (at_failed_count s) 1\<rparr>;
          s = (if max_failed \<le> at_failed_count s then s\<lparr>at_locked_until := Some (now + lockout_duration)\<rparr> else s)
      in dm_insert username s la)"

definition record_success :: "login_attempts \<Rightarrow> string \<Rightarrow> login_attempts" where
  "record_success la username =
     (case dm_get la username of
        Some s \<Rightarrow> dm_insert username \<lparr>at_failed_count = 0, at_locked_until = None\<rparr> la
      | None \<Rightarrow> la)"

subsection \<open>Request extractors\<close>

record authenticated =
  au_username :: string
  au_role :: role
  au_token_hash :: bytes
  au_session :: session_info
  au_authz_enforced :: bool

definition is_admin :: "authenticated \<Rightarrow> bool" where
  "is_admin a \<longleftrightarrow> \<not> au_authz_enforced a \<or> au_role a = Admin"

definition is_admin_or_auditor :: "authenticated \<Rightarrow> bool" where
  "is_admin_or_auditor a \<longleftrightarrow> \<not> au_authz_enforced a \<or> au_role a \<in> {Admin, Auditor}"

definition authenticate_token_hash :: "time \<Rightarrow> bool \<Rightarrow> session_store \<Rightarrow> bytes
    \<Rightarrow> session_store \<times> (auth_error + authenticated)" where
  "authenticate_token_hash now enforce st token_hash =
     (case get_active now st token_hash of (st, r) \<Rightarrow> (st,
        rbind r (\<lambda>session.
        if enforce \<and> si_role session = Disabled then Inl AccountDisabled
        else Inr \<lparr>au_username = si_username session, au_role = si_role session, au_token_hash = token_hash,
                 au_session = session, au_authz_enforced = enforce\<rparr>)))"

text \<open>A header value that \<open>to_str\<close> accepts is visible ASCII, so \<open>trim\<close> only meets ASCII white space.\<close>

definition is_ws :: "char \<Rightarrow> bool" where
  "is_ws c \<longleftrightarrow> c \<in> {CHR '' '', CHR 0x09, CHR 0x0A, CHR 0x0B, CHR 0x0C, CHR 0x0D}"

definition trim :: "string \<Rightarrow> string" where
  "trim s = rev (dropWhile is_ws (rev (dropWhile is_ws s)))"

definition eq_ignore_ascii_case :: "string \<Rightarrow> string \<Rightarrow> bool" where
  "eq_ignore_ascii_case s t \<longleftrightarrow> map to_ascii_lowercase s = map to_ascii_lowercase t"

definition parse_bearer :: "(bytes \<Rightarrow> string option) \<Rightarrow> string option \<Rightarrow> bytes option \<Rightarrow> auth_error + string" where
  "parse_bearer to_str mem_fault header =
     rbind (ok_or header TokenMissing) (\<lambda>h.
     rbind (ok_or (to_str h) TokenInvalid) (\<lambda>raw.
     rbind (ok_or (split_once CHR '' '' (trim raw)) TokenInvalid) (\<lambda>(scheme, token).
     if \<not> eq_ignore_ascii_case scheme ''Bearer'' then Inl TokenInvalid else
     let token = trim token in
     if token = [] then Inl TokenMissing else
     case mem_fault of Some e \<Rightarrow> Inl (Backend e) | None \<Rightarrow> Inr token)))"

definition extract_authenticated :: "(bytes \<Rightarrow> string option) \<Rightarrow> sec_env \<Rightarrow> bool \<Rightarrow> session_store option \<Rightarrow> bytes option
    \<Rightarrow> session_store option \<times> (auth_error + authenticated)" where
  "extract_authenticated to_str E enforce app_state header =
     (case app_state of None \<Rightarrow> (None, Inl InternalState) | Some st \<Rightarrow>
      case parse_bearer to_str (en_mem E) header of
        Inl e \<Rightarrow> (Some st, Inl e)
      | Inr token \<Rightarrow> (case authenticate_token_hash (en_now E) enforce st (hash_token E token) of
          (st, r) \<Rightarrow> (Some st, r)))"

definition require_admin :: "auth_error + authenticated \<Rightarrow> auth_error + authenticated" where
  "require_admin r = rbind r (\<lambda>a. if is_admin a then Inr a else Inl AuthForbidden)"

definition require_admin_read :: "auth_error + authenticated \<Rightarrow> auth_error + authenticated" where
  "require_admin_read r = rbind r (\<lambda>a. if is_admin_or_auditor a then Inr a else Inl AuthForbidden)"

subsection \<open>\<open>auth/users.rs\<close>\<close>

definition MAX_USERNAME_BYTES :: nat where "MAX_USERNAME_BYTES = 64"

definition validate_username :: "string \<Rightarrow> auth_error + unit" where
  "validate_username username =
     (if username = [] then Inl (InvalidUsername ''empty'')
      else if MAX_USERNAME_BYTES < length username then Inl (InvalidUsername ''too long'')
      else if \<not> list_all (\<lambda>c. is_ascii_alphanumeric c \<or> c = CHR ''_'' \<or> c = CHR ''-'' \<or> c = CHR ''.'') username
      then Inl (InvalidUsername ''only [A-Za-z0-9_.-] allowed'')
      else Inr ())"

end
