(* ===== verification/S3_Sigv4.thy ===== *)
theory S3_Sigv4
  imports Rust_Text "HOL-Library.Signed_Division" "HOL-Library.Product_Lexorder" Session_Store
begin

text \<open>
  AWS SigV4 request signing, \<open>crates/y2qd/src/s3/sigv4.rs\<close>, the calendar arithmetic of
  \<open>s3/httpdate.rs\<close> and the wire errors of \<open>s3/error.rs\<close>.

  SHA-256, HMAC-SHA256 and \<open>HeaderValue::to_str\<close> come from other crates and are the record \<open>sig_env\<close>. A
  header map is the list of its entries in order, names in lower case.
\<close>

subsection \<open>\<open>s3/error.rs\<close>\<close>

record s3_error =
  se_code :: string
  se_status :: nat
  se_message :: string
  se_resource :: string
  se_request_id :: string

definition S3Error_new :: "string \<Rightarrow> nat \<Rightarrow> string \<Rightarrow> s3_error" where
  "S3Error_new code status message =
     \<lparr>se_code = code, se_status = status, se_message = message, se_resource = [], se_request_id = []\<rparr>"

definition with_request_id :: "s3_error \<Rightarrow> string \<Rightarrow> s3_error" where
  "with_request_id e request_id = e\<lparr>se_request_id := request_id\<rparr>"

definition with_resource :: "s3_error \<Rightarrow> string \<Rightarrow> s3_error" where
  "with_resource e resource = e\<lparr>se_resource := resource\<rparr>"

definition no_such_bucket :: s3_error where
  "no_such_bucket = S3Error_new ''NoSuchBucket'' 404 ''The specified bucket does not exist.''"

definition no_such_key :: s3_error where
  "no_such_key = S3Error_new ''NoSuchKey'' 404 ''The specified key does not exist.''"

definition no_such_upload :: s3_error where
  "no_such_upload = S3Error_new ''NoSuchUpload'' 404 ''The specified multipart upload does not exist.''"

definition access_denied :: "string \<Rightarrow> s3_error" where
  "access_denied message = S3Error_new ''AccessDenied'' 403 message"

definition invalid_access_key_id :: s3_error where
  "invalid_access_key_id = S3Error_new ''InvalidAccessKeyId'' 403 ''The access key id you provided does not exist.''"

definition expired_token :: "string \<Rightarrow> s3_error" where
  "expired_token message = S3Error_new ''ExpiredToken'' 400 message"

definition signature_does_not_match :: s3_error where
  "signature_does_not_match = S3Error_new ''SignatureDoesNotMatch'' 403
     ''The request signature we calculated does not match the signature you provided.''"

definition authorization_header_malformed :: "string \<Rightarrow> s3_error" where
  "authorization_header_malformed message = S3Error_new ''AuthorizationHeaderMalformed'' 400 message"

definition request_time_too_skewed :: s3_error where
  "request_time_too_skewed = S3Error_new ''RequestTimeTooSkewed'' 403
     ''The difference between the request time and the current time is too large.''"

definition x_amz_content_sha256_mismatch :: s3_error where
  "x_amz_content_sha256_mismatch = S3Error_new ''XAmzContentSHA256Mismatch'' 400
     (''The provided '' @ CHR 0x27 # ''x-amz-content-sha256'' @ CHR 0x27 # '' header does not match what was computed.'')"

definition invalid_argument :: "string \<Rightarrow> s3_error" where
  "invalid_argument message = S3Error_new ''InvalidArgument'' 400 message"

definition invalid_request :: "string \<Rightarrow> s3_error" where
  "invalid_request message = S3Error_new ''InvalidRequest'' 400 message"

definition malformed_xml :: "string \<Rightarrow> s3_error" where
  "malformed_xml message = S3Error_new ''MalformedXML'' 400 message"

definition not_implemented :: "string \<Rightarrow> s3_error" where
  "not_implemented message = S3Error_new ''NotImplemented'' 501 message"

definition entity_too_large :: "string \<Rightarrow> s3_error" where
  "entity_too_large message = S3Error_new ''EntityTooLarge'' 413 message"

definition slow_down :: "string \<Rightarrow> s3_error" where
  "slow_down message = S3Error_new ''SlowDown'' 503 message"

definition internal_error :: s3_error where
  "internal_error = S3Error_new ''InternalError'' 500 ''We encountered an internal error. Please try again.''"

text \<open>\<open>From<AppError>\<close>; \<open>display\<close> is the derived \<open>Display\<close> of the storage error.\<close>

fun from_app_error :: "(error \<Rightarrow> string) \<Rightarrow> error \<Rightarrow> s3_error" where
  "from_app_error display (NotFound bucket key) = (if key = [] then no_such_bucket else no_such_key)"
| "from_app_error display (Forbidden _) = S3Error_new ''AccessDenied'' 403 ''Access Denied''"
| "from_app_error display (InvalidBucket bucket) =
     S3Error_new ''InvalidBucketName'' 400 (''The specified bucket is not valid: '' @ bucket)"
| "from_app_error display (InvalidKey _) = invalid_argument ''The specified key is not valid.''"
| "from_app_error display (Locked _ _ _) =
     S3Error_new ''OperationAborted'' 409 ''A conflicting write is already in progress for this object.''"
| "from_app_error display (QuotaExceeded _ _ _ _) =
     S3Error_new ''QuotaExceeded'' 413 ''The bucket quota would be exceeded by this request.''"
| "from_app_error display (BodyTooLarge _ _ limit) = S3Error_new ''EntityTooLarge'' 413
     (''Your proposed upload exceeds the maximum allowed size ('' @ show_nat (unat limit) @ '' bytes).'')"
| "from_app_error display (BadRequestBody _ _ message) = S3Error_new ''IncompleteBody'' 400 message"
| "from_app_error display (InvalidAcl reason) = invalid_request reason"
| "from_app_error display (InvalidPersonaRequest reason) = invalid_request reason"
| "from_app_error display (Query reason) = invalid_request reason"
| "from_app_error display (InvalidStaleLockThreshold reason) = invalid_request reason"
| "from_app_error display (TooManyBucketKeyEpochs _ _ _) =
     S3Error_new ''OperationAborted'' 409 ''A conflicting operation is already in progress for this bucket.''"
| "from_app_error display (RekeyAlreadyRunning _) =
     S3Error_new ''OperationAborted'' 409 ''A conflicting operation is already in progress for this bucket.''"
| "from_app_error display (AclConflict _) =
     S3Error_new ''OperationAborted'' 409 ''A conflicting operation is already in progress for this bucket.''"
| "from_app_error display RebuildAlreadyRunning =
     S3Error_new ''OperationAborted'' 409 ''A conflicting administrative operation is already in progress.''"
| "from_app_error display (KeystoreNotFound _) =
     S3Error_new ''ServiceUnavailable'' 503 ''The service is temporarily unable to handle this request.''"
| "from_app_error display (ReservedLabel l) = S3Error_new ''InvalidTag'' 400 (display (ReservedLabel l))"
| "from_app_error display (InvalidLabelValue l) = S3Error_new ''InvalidTag'' 400 (display (InvalidLabelValue l))"
| "from_app_error display (LabelNameTooLong l) = S3Error_new ''InvalidTag'' 400 (display (LabelNameTooLong l))"
| "from_app_error display (LabelValueTooLong l) = S3Error_new ''InvalidTag'' 400 (display (LabelValueTooLong l))"
| "from_app_error display (TooManyLabels n) = S3Error_new ''InvalidTag'' 400 (display (TooManyLabels n))"
| "from_app_error display (Index _) = internal_error"
| "from_app_error display (InternalError _ _ _ _) = internal_error"
| "from_app_error display (KdfFailed _) = internal_error"
| "from_app_error display (EncryptionFailed _ _) = internal_error"
| "from_app_error display (DecryptionFailed _ _) = internal_error"
| "from_app_error display (EnvelopeMalformed _ _ _) = internal_error"
| "from_app_error display (UnsupportedEnvelopeVersion _) = internal_error"
| "from_app_error display (KeystoreCorrupt _ _) = internal_error"

fun from_auth_error :: "auth_error \<Rightarrow> s3_error" where
  "from_auth_error TokenExpired = expired_token ''The provided token has expired.''"
| "from_auth_error TokenInvalid = expired_token ''The provided token has expired.''"
| "from_auth_error TokenMissing = access_denied ''Access Denied''"
| "from_auth_error AuthForbidden = access_denied ''Access Denied''"
| "from_auth_error AccountDisabled = access_denied ''Access Denied''"
| "from_auth_error S3CredentialUnknown = invalid_access_key_id"
| "from_auth_error other = internal_error"

datatype sigv4_error = NoCredentials | MalformedHeader | UnsupportedAlgorithm | MalformedScope | MissingHostHeader
  | MalformedDate | MalformedExpires

fun show_sigv4_error :: "sigv4_error \<Rightarrow> string" where
  "show_sigv4_error NoCredentials = ''no Authorization header or X-Amz-* query credentials present''"
| "show_sigv4_error MalformedHeader = ''malformed Authorization header''"
| "show_sigv4_error UnsupportedAlgorithm = ''unsupported signing algorithm''"
| "show_sigv4_error MalformedScope = ''malformed credential scope''"
| "show_sigv4_error MissingHostHeader = ''SignedHeaders must include host''"
| "show_sigv4_error MalformedDate = ''malformed or missing X-Amz-Date''"
| "show_sigv4_error MalformedExpires = ''malformed or missing X-Amz-Expires''"

definition from_sigv4_error :: "sigv4_error \<Rightarrow> s3_error" where
  "from_sigv4_error err =
     (case err of NoCredentials \<Rightarrow> access_denied ''Access Denied''
      | UnsupportedAlgorithm \<Rightarrow> authorization_header_malformed ''Unsupported signing algorithm.''
      | _ \<Rightarrow> authorization_header_malformed (show_sigv4_error err))"

subsection \<open>\<open>s3/httpdate.rs\<close>\<close>

text \<open>\<open>i64\<close> arithmetic wraps in a release build.\<close>

definition i64 :: "int \<Rightarrow> int" where "i64 x = (x + 2 ^ 63) mod 2 ^ 64 - 2 ^ 63"

definition days_from_civil :: "int \<Rightarrow> nat \<Rightarrow> nat \<Rightarrow> int" where
  "days_from_civil y m d =
     (let y = (if m \<le> 2 then i64 (y - 1) else y);
          era = (if 0 \<le> y then y else i64 (y - 399)) sdiv 400;
          yoe = i64 (y - i64 (era * 400));
          mp = (int m + 9) mod 12;
          doy = (153 * mp + 2) div 5 + int d - 1;
          doe = yoe * 365 + yoe div 4 - yoe div 100 + doy
      in i64 (i64 (era * 146097) + doe - 719468))"

definition civil_from_days :: "int \<Rightarrow> int \<times> nat \<times> nat" where
  "civil_from_days z =
     (let z = i64 (z + 719468);
          era = (if 0 \<le> z then z else i64 (z - 146096)) sdiv 146097;
          doe = z - era * 146097;
          yoe = (doe - doe div 1460 + doe div 36524 - doe div 146096) div 365;
          y = yoe + era * 400;
          doy = doe - (365 * yoe + yoe div 4 - yoe div 100);
          mp = (5 * doy + 2) div 153;
          d = nat (doy - (153 * mp + 2) div 5 + 1);
          m = nat (if mp < 10 then mp + 3 else mp - 9)
      in ((if m \<le> 2 then y + 1 else y), m, d))"

definition WEEKDAYS :: "string list" where
  "WEEKDAYS = [''Sun'', ''Mon'', ''Tue'', ''Wed'', ''Thu'', ''Fri'', ''Sat'']"

definition MONTHS :: "string list" where
  "MONTHS = ['''', ''Jan'', ''Feb'', ''Mar'', ''Apr'', ''May'', ''Jun'', ''Jul'', ''Aug'', ''Sep'', ''Oct'', ''Nov'', ''Dec'']"

definition pad_left :: "nat \<Rightarrow> string \<Rightarrow> string" where
  "pad_left w s = replicate (w - length s) (CHR ''0'') @ s"

definition show_int :: "int \<Rightarrow> string" where
  "show_int i = (if i < 0 then CHR ''-'' # show_nat (nat (- i)) else show_nat (nat i))"

definition http_date :: "u64 \<Rightarrow> string" where
  "http_date unix_secs =
     (let secs = unat unix_secs; days = int (secs div 86400); secs_of_day = secs mod 86400;
          hour = secs_of_day div 3600; minute = secs_of_day mod 3600 div 60; second = secs_of_day mod 60;
          (y, m, d) = civil_from_days days;
          weekday = nat ((days mod 7 + 7 + 4) mod 7)
      in WEEKDAYS ! weekday @ '', '' @ pad_left 2 (show_nat d) @ '' '' @ MONTHS ! m @ '' '' @ show_int y @ '' ''
         @ pad_left 2 (show_nat hour) @ '':'' @ pad_left 2 (show_nat minute) @ '':'' @ pad_left 2 (show_nat second) @ '' GMT'')"

definition iso8601 :: "u64 \<Rightarrow> string" where
  "iso8601 unix_secs =
     (let secs = unat unix_secs; days = int (secs div 86400); secs_of_day = secs mod 86400;
          hour = secs_of_day div 3600; minute = secs_of_day mod 3600 div 60; second = secs_of_day mod 60;
          (y, m, d) = civil_from_days days
      in pad_left 4 (show_int y) @ ''-'' @ pad_left 2 (show_nat m) @ ''-'' @ pad_left 2 (show_nat d) @ ''T''
         @ pad_left 2 (show_nat hour) @ '':'' @ pad_left 2 (show_nat minute) @ '':'' @ pad_left 2 (show_nat second) @ ''.000Z'')"

subsection \<open>Requests\<close>

record sig_env =
  sv_sha256 :: "bytes \<Rightarrow> bytes"
  sv_hmac :: "bytes \<Rightarrow> bytes \<Rightarrow> bytes"
  sv_to_str :: "bytes \<Rightarrow> string option"

type_synonym header_map = "(string \<times> bytes) list"

definition header_str :: "sig_env \<Rightarrow> header_map \<Rightarrow> string \<Rightarrow> string option" where
  "header_str G headers name = Option.bind (map_of headers name) (sv_to_str G)"

definition ALGORITHM :: string where "ALGORITHM = ''AWS4-HMAC-SHA256''"
definition UNSIGNED_PAYLOAD :: string where "UNSIGNED_PAYLOAD = ''UNSIGNED-PAYLOAD''"
definition STREAMING_SIGNED :: string where "STREAMING_SIGNED = ''STREAMING-AWS4-HMAC-SHA256-PAYLOAD''"
definition STREAMING_SIGNED_TRAILER :: string where
  "STREAMING_SIGNED_TRAILER = ''STREAMING-AWS4-HMAC-SHA256-PAYLOAD-TRAILER''"
definition STREAMING_UNSIGNED_TRAILER :: string where
  "STREAMING_UNSIGNED_TRAILER = ''STREAMING-UNSIGNED-PAYLOAD-TRAILER''"

record credential_scope =
  cs_access_key_id :: string
  cs_date :: string
  cs_region :: string
  cs_service :: string

definition scope_string :: "credential_scope \<Rightarrow> string" where
  "scope_string s = cs_date s @ ''/'' @ cs_region s @ ''/'' @ cs_service s @ ''/aws4_request''"

datatype payload_hash = Exact string | Unsigned | StreamingSigned bool | StreamingUnsigned

fun payload_hash_token :: "payload_hash \<Rightarrow> string" where
  "payload_hash_token (Exact hex) = hex"
| "payload_hash_token Unsigned = UNSIGNED_PAYLOAD"
| "payload_hash_token (StreamingSigned trailer) = (if trailer then STREAMING_SIGNED_TRAILER else STREAMING_SIGNED)"
| "payload_hash_token StreamingUnsigned = STREAMING_UNSIGNED_TRAILER"

definition has_trailer :: "payload_hash \<Rightarrow> bool" where
  "has_trailer p \<longleftrightarrow> p = StreamingSigned True \<or> p = StreamingUnsigned"

record signed_request =
  sr_scope :: credential_scope
  sr_signed_headers :: "string list"
  sr_signature :: string
  sr_amz_date :: string
  sr_payload :: payload_hash
  sr_presigned_expires :: "u64 option"

definition parse_signed_headers :: "string \<Rightarrow> sigv4_error + string list" where
  "parse_signed_headers s =
     (let headers = map lowercase (split_on CHR '';'' s) in
      if ''host'' \<notin> set headers then Inl MissingHostHeader else Inr headers)"

definition parse_credential_scope :: "string \<Rightarrow> sigv4_error + credential_scope" where
  "parse_credential_scope credential =
     (let parts = split_on CHR ''/'' credential in
      if length parts \<noteq> 5 then Inl MalformedScope
      else if parts ! 4 \<noteq> ''aws4_request'' then Inl MalformedScope
      else Inr \<lparr>cs_access_key_id = parts ! 0, cs_date = parts ! 1, cs_region = parts ! 2, cs_service = parts ! 3\<rparr>)"

definition classify_payload_hash :: "string \<Rightarrow> payload_hash" where
  "classify_payload_hash v =
     (if v = UNSIGNED_PAYLOAD then Unsigned else if v = STREAMING_SIGNED then StreamingSigned False
      else if v = STREAMING_SIGNED_TRAILER then StreamingSigned True
      else if v = STREAMING_UNSIGNED_TRAILER then StreamingUnsigned else Exact (lowercase v))"

text \<open>The comma-separated parts of the header: the last occurrence of each name counts.\<close>

type_synonym auth_fields = "string option \<times> string option \<times> string option"

definition auth_field :: "string \<Rightarrow> string \<Rightarrow> auth_fields \<Rightarrow> auth_fields" where
  "auth_field k v = (\<lambda>(credential, signed_headers, signature).
     if k = ''Credential'' then (Some v, signed_headers, signature)
     else if k = ''SignedHeaders'' then (credential, Some v, signature)
     else if k = ''Signature'' then (credential, signed_headers, Some v)
     else (credential, signed_headers, signature))"

fun auth_parts :: "string list \<Rightarrow> auth_fields \<Rightarrow> sigv4_error + auth_fields" where
  "auth_parts [] acc = Inr acc"
| "auth_parts (part # parts) acc =
     (case split_once CHR ''='' (str_trim part) of
        None \<Rightarrow> Inl MalformedHeader
      | Some (k, v) \<Rightarrow> auth_parts parts (auth_field k v acc))"

definition parse_header_auth :: "sig_env \<Rightarrow> string \<Rightarrow> header_map \<Rightarrow> sigv4_error + signed_request" where
  "parse_header_auth G auth headers =
     rbind (ok_or (split_once CHR '' '' auth) MalformedHeader) (\<lambda>(algorithm, rest).
     if algorithm \<noteq> ALGORITHM then Inl UnsupportedAlgorithm else
     rbind (auth_parts (split_on CHR '','' rest) (None, None, None)) (\<lambda>(credential, signed_headers_str, signature).
     rbind (ok_or credential MalformedHeader) (\<lambda>credential.
     rbind (parse_credential_scope credential) (\<lambda>scope.
     rbind (ok_or signed_headers_str MalformedHeader) (\<lambda>shs.
     rbind (parse_signed_headers shs) (\<lambda>signed_headers.
     rbind (ok_or signature MalformedHeader) (\<lambda>signature.
     rbind (ok_or (header_str G headers ''x-amz-date'') MalformedDate) (\<lambda>amz_date.
     Inr \<lparr>sr_scope = scope, sr_signed_headers = signed_headers, sr_signature = lowercase signature, sr_amz_date = amz_date,
          sr_payload = (if ''x-amz-content-sha256'' \<in> set signed_headers
                        then (case header_str G headers ''x-amz-content-sha256'' of
                                Some v \<Rightarrow> classify_payload_hash v | None \<Rightarrow> Unsigned)
                        else Unsigned),
          sr_presigned_expires = None\<rparr>))))))))"

subsection \<open>Percent encoding\<close>

definition percent_pair :: "byte \<Rightarrow> byte \<Rightarrow> nat option" where
  "percent_pair c d = Option.bind (from_utf8 [c, d]) (from_str_radix 256 16)"

fun percent_loop :: "bytes \<Rightarrow> bytes" where
  "percent_loop (b # c # d # bs) =
     (if b = 37 then
        (case percent_pair c d of
           Some v \<Rightarrow> of_nat v # percent_loop bs
         | None \<Rightarrow> b # percent_loop (c # d # bs))
      else b # percent_loop (c # d # bs))"
| "percent_loop bs = bs"

definition percent_decode :: "string \<Rightarrow> string" where
  "percent_decode s = from_utf8_lossy (percent_loop (as_bytes s))"

definition parse_query_params :: "string \<Rightarrow> (string, string) dmap" where
  "parse_query_params query =
     fold (\<lambda>pair m. if pair = [] then m else
       (case split_once CHR ''='' pair of Some (k, v) \<Rightarrow> dm_insert (percent_decode k) (percent_decode v) m
        | None \<Rightarrow> dm_insert (percent_decode pair) (percent_decode []) m)) (split_on CHR ''&'' query) []"

definition is_unreserved :: "char \<Rightarrow> bool" where
  "is_unreserved b \<longleftrightarrow> is_ascii_alphanumeric b \<or> b \<in> {CHR ''-'', CHR ''.'', CHR ''_'', CHR ''~''}"

definition percent_encode :: "string \<Rightarrow> string" where
  "percent_encode s = concat (map (\<lambda>b. if is_unreserved b then [b] else CHR 0x25 # hex2 hex_upper (byte_of_char b)) s)"

definition percent_encode_path :: "string \<Rightarrow> string" where
  "percent_encode_path s =
     concat (map (\<lambda>b. if is_unreserved b \<or> b = CHR ''/'' then [b] else CHR 0x25 # hex2 hex_upper (byte_of_char b)) s)"

definition parse_presigned :: "sig_env \<Rightarrow> string \<Rightarrow> header_map \<Rightarrow> sigv4_error + signed_request" where
  "parse_presigned G query headers =
     (let params = dm_get (parse_query_params query) in
      rbind (ok_or (params ''X-Amz-Algorithm'') NoCredentials) (\<lambda>algorithm.
      if algorithm \<noteq> ALGORITHM then Inl UnsupportedAlgorithm else
      rbind (ok_or (params ''X-Amz-Credential'') MalformedHeader) (\<lambda>credential.
      rbind (parse_credential_scope credential) (\<lambda>scope.
      rbind (ok_or (params ''X-Amz-SignedHeaders'') MalformedHeader) (\<lambda>shs.
      rbind (parse_signed_headers shs) (\<lambda>signed_headers.
      rbind (ok_or (params ''X-Amz-Signature'') MalformedHeader) (\<lambda>signature.
      rbind (ok_or (params ''X-Amz-Date'') MalformedDate) (\<lambda>amz_date.
      rbind (ok_or (params ''X-Amz-Expires'') MalformedExpires) (\<lambda>expires.
      rbind (ok_or (from_str_radix (2 ^ 64) 10 expires) MalformedExpires) (\<lambda>expires.
      Inr \<lparr>sr_scope = scope, sr_signed_headers = signed_headers, sr_signature = lowercase signature, sr_amz_date = amz_date,
           sr_payload = (case header_str G headers ''x-amz-content-sha256'' of
                           Some v \<Rightarrow> classify_payload_hash v | None \<Rightarrow> Unsigned),
           sr_presigned_expires = Some (of_nat expires)\<rparr>))))))))))"

definition parse_signed :: "sig_env \<Rightarrow> string \<Rightarrow> header_map \<Rightarrow> sigv4_error + signed_request" where
  "parse_signed G query headers =
     (case header_str G headers ''authorization'' of
        Some auth \<Rightarrow> parse_header_auth G auth headers
      | None \<Rightarrow> parse_presigned G query headers)"

subsection \<open>The canonical request\<close>

definition canonical_uri :: "string \<Rightarrow> string" where
  "canonical_uri path =
     (if path = [] \<or> path = ''/'' then ''/''
      else join ''/'' (map (\<lambda>segment. percent_encode (percent_decode segment)) (split_on CHR ''/'' path)))"

definition query_pair :: "string \<Rightarrow> string \<times> string" where
  "query_pair pair =
     (let (k, v) = (case split_once CHR ''='' pair of Some kv \<Rightarrow> kv | None \<Rightarrow> (pair, []))
      in (percent_encode (percent_decode k), percent_encode (percent_decode v)))"

definition canonical_query_string :: "string \<Rightarrow> string" where
  "canonical_query_string query =
     join ''&'' (map (\<lambda>(k, v). k @ ''='' @ v)
       (sort (filter (\<lambda>(k, _). k \<noteq> ''X-Amz-Signature'') (map query_pair (filter (\<lambda>p. p \<noteq> []) (split_on CHR ''&'' query))))))"

definition fold_header_value :: "string \<Rightarrow> string" where
  "fold_header_value v = join '' '' (split_whitespace v)"

definition header_line_value :: "sig_env \<Rightarrow> header_map \<Rightarrow> string \<Rightarrow> string \<Rightarrow> string" where
  "header_line_value G headers host name =
     (if name = ''host'' then host
      else let values = map fold_header_value (List.map_filter (\<lambda>(n, v). if n = name then sv_to_str G v else None) headers)
           in join '','' (if values = [] then [[]] else values))"

definition canonical_headers :: "sig_env \<Rightarrow> header_map \<Rightarrow> string \<Rightarrow> string list \<Rightarrow> string \<times> string" where
  "canonical_headers G headers host signed_headers =
     (concat (map (\<lambda>name. name @ '':'' @ header_line_value G headers host name @ [CHR 0x0A]) signed_headers),
      join '';'' signed_headers)"

definition canonical_request :: "string \<Rightarrow> string \<Rightarrow> string \<Rightarrow> string \<Rightarrow> string \<Rightarrow> string \<Rightarrow> string" where
  "canonical_request http_method uri query headers signed_headers payload_hash =
     http_method @ CHR 0x0A # uri @ CHR 0x0A # query @ CHR 0x0A # headers @ CHR 0x0A # signed_headers @ CHR 0x0A # payload_hash"

subsection \<open>Signatures\<close>

definition hex_encode :: "bytes \<Rightarrow> string" where
  "hex_encode bs = concat (map (hex2 hex_lower) bs)"

definition sha256_hex :: "sig_env \<Rightarrow> bytes \<Rightarrow> string" where
  "sha256_hex G data = hex_encode (sv_sha256 G data)"

definition EMPTY_PAYLOAD_SHA256 :: string where
  "EMPTY_PAYLOAD_SHA256 = ''e3b0c44298fc1c149afbf4c8996fb92427ae41e4649b934ca495991b7852b855''"

definition hex_hmac_sha256 :: "sig_env \<Rightarrow> bytes \<Rightarrow> bytes \<Rightarrow> string" where
  "hex_hmac_sha256 G key msg = hex_encode (sv_hmac G key msg)"

definition string_to_sign :: "sig_env \<Rightarrow> string \<Rightarrow> string \<Rightarrow> string \<Rightarrow> string" where
  "string_to_sign G amz_date scope request =
     ALGORITHM @ CHR 0x0A # amz_date @ CHR 0x0A # scope @ CHR 0x0A # sha256_hex G (as_bytes request)"

definition signing_key :: "sig_env \<Rightarrow> bytes \<Rightarrow> string \<Rightarrow> string \<Rightarrow> string \<Rightarrow> bytes" where
  "signing_key G secret date region service =
     (let k_date = sv_hmac G (as_bytes ''AWS4'' @ secret) (as_bytes date);
          k_region = sv_hmac G k_date (as_bytes region);
          k_service = sv_hmac G k_region (as_bytes service)
      in sv_hmac G k_service (as_bytes ''aws4_request''))"

definition signatures_match :: "string \<Rightarrow> string \<Rightarrow> bool" where
  "signatures_match expected provided \<longleftrightarrow> length expected = length provided \<and> as_bytes expected = as_bytes provided"

definition digit_run :: "string \<Rightarrow> nat \<Rightarrow> nat \<Rightarrow> sigv4_error + nat" where
  "digit_run s a n =
     (let chunk = take n (drop a s) in
      if list_all is_ascii_digit chunk then ok_or (from_str_radix (2 ^ 63) 10 chunk) MalformedDate else Inl MalformedDate)"

definition parse_amz_date :: "string \<Rightarrow> sigv4_error + time" where
  "parse_amz_date s =
     (if length s \<noteq> 16 \<or> s ! 8 \<noteq> CHR ''T'' \<or> s ! 15 \<noteq> CHR ''Z'' then Inl MalformedDate else
      rbind (digit_run s 0 4) (\<lambda>year. rbind (digit_run s 4 2) (\<lambda>month. rbind (digit_run s 6 2) (\<lambda>day.
      rbind (digit_run s 9 2) (\<lambda>hour. rbind (digit_run s 11 2) (\<lambda>minute. rbind (digit_run s 13 2) (\<lambda>second.
      if \<not> (1 \<le> month \<and> month \<le> 12) \<or> \<not> (1 \<le> day \<and> day \<le> 31) \<or> \<not> hour < 24 \<or> \<not> minute < 60 \<or> \<not> second < 60
      then Inl MalformedDate else
      let days = days_from_civil (int year) month day;
          secs = days * 86400 + int (hour * 3600 + minute * 60 + second) in
      if days * 86400 \<notin> {- (2 ^ 63)..<2 ^ 63} \<or> secs \<notin> {- (2 ^ 63)..<2 ^ 63} then Inl MalformedDate
      else if secs < 0 then Inl MalformedDate else Inr (nat secs * NANOS))))))))"

definition chunk_string_to_sign :: "string \<Rightarrow> string \<Rightarrow> string \<Rightarrow> string \<Rightarrow> string" where
  "chunk_string_to_sign amz_date scope prev_signature chunk_sha256_hex =
     ''AWS4-HMAC-SHA256-PAYLOAD'' @ CHR 0x0A # amz_date @ CHR 0x0A # scope @ CHR 0x0A # prev_signature @ CHR 0x0A #
     EMPTY_PAYLOAD_SHA256 @ CHR 0x0A # chunk_sha256_hex"

definition trailer_string_to_sign :: "string \<Rightarrow> string \<Rightarrow> string \<Rightarrow> string \<Rightarrow> string" where
  "trailer_string_to_sign amz_date scope prev_signature trailer_sha256_hex =
     ''AWS4-HMAC-SHA256-TRAILER'' @ CHR 0x0A # amz_date @ CHR 0x0A # scope @ CHR 0x0A # prev_signature @ CHR 0x0A # trailer_sha256_hex"

end
