(* ===== verification/Session_Laws.thy ===== *)
theory Session_Laws
  imports Session_Store
begin

text \<open>
  What the session table promises. \<open>session_inv\<close> says that every row is filed under its own token hash,
  its sealed identity opens under the row's own associated data, its bucket-key cache respects the
  FIFO bound and its refresh count the configured limit; \<open>session_step\<close> lists the operations of the
  store and the invariant holds in every reachable state. The properties describe login, refresh,
  revocation, the duress switch, the lockout and the extractors.
\<close>

subsection \<open>Sealing and opening\<close>

lemma seal_open:
  assumes "aead_correct (en_prims E)" and "length sk < 2 ^ 32" and "MemoryKey_seal E kr sk aad = Inr sealed"
  shows "gcm_open (en_prims E) kr (ss_nonce sealed) aad (ss_ct sealed) = Some sk"
proof -
  obtain c where "gcm_seal (en_prims E) kr (en_nonce E) aad sk = Some c"
    "gcm_open (en_prims E) kr (en_nonce E) aad c = Some sk"
    using aead_correctE [OF assms(1,2)] by metis
  then show ?thesis using assms(3) by (auto simp: MemoryKey_seal_def split: option.splits)
qed

lemma seal_total:
  assumes "aead_correct (en_prims E)" and "length sk < 2 ^ 32" and "en_mem E = None"
  obtains sealed where "MemoryKey_seal E kr sk aad = Inr sealed"
proof -
  obtain c where "gcm_seal (en_prims E) kr (en_nonce E) aad sk = Some c"
    using aead_correctE [OF assms(1,2)] by metis
  then have "MemoryKey_seal E kr sk aad = Inr \<lparr>ss_nonce = en_nonce E, ss_ct = c\<rparr>"
    using assms(3) by (simp add: MemoryKey_seal_def)
  then show thesis by (rule that)
qed

lemma backend_Inr [simp]: "backend E r = Inr x \<longleftrightarrow> r = Inr x"
  by (simp add: backend_def)

definition identity_of :: "crypto_prims \<Rightarrow> session_info \<Rightarrow> bytes option" where
  "identity_of P s = gcm_open P (si_keyring s) (ss_nonce (si_identity_sk s))
     (identity_aad (si_token_hash s) (si_username s) (si_persona s)) (ss_ct (si_identity_sk s))"

lemma open_identity_sk_of:
  "open_identity_sk E s = (case en_mem E of Some e \<Rightarrow> Inl (Backend (en_display E (SecMem e)))
     | None \<Rightarrow> ok_or (identity_of (en_prims E) s) (Backend (en_display E AuthFailed)))"
  by (cases "identity_of (en_prims E) s")
    (auto simp: open_identity_sk_def open_identity_def MemoryKey_open_def identity_of_def backend_def split: option.splits)

lemma seal_identity_of:
  assumes "aead_correct (en_prims E)" and "length sk < 2 ^ 32"
    and "seal_identity E kr h user persona sk = Inr sealed"
    and "si_keyring s = kr" "si_token_hash s = h" "si_username s = user" "si_persona s = persona" "si_identity_sk s = sealed"
  shows "identity_of (en_prims E) s = Some sk"
  using seal_open [OF assms(1,2)] assms(3-8) by (simp add: seal_identity_def identity_of_def)

subsection \<open>The bucket-key cache\<close>

definition cache_inv :: "bucket_key_cache \<Rightarrow> bool" where
  "cache_inv c \<longleftrightarrow> dm_inv (bk_entries c) \<and> distinct (bk_order c) \<and> length (bk_order c) \<le> MAX_SESSION_BUCKET_KEYS
     \<and> (\<forall>i. i \<in> set (bk_order c) \<longleftrightarrow> dm_get (bk_entries c) i \<noteq> None)"

lemma cache_inv_empty [simp]: "cache_inv empty_cache"
  by (simp add: cache_inv_def empty_cache_def)

lemma cache_inv_entries:
  assumes "cache_inv c"
  shows "length (bk_entries c) \<le> 32" and "distinct (map fst (bk_entries c))" and "distinct (bk_order c)"
    and "set (bk_order c) = set (map fst (bk_entries c))"
proof -
  show d: "distinct (map fst (bk_entries c))" "distinct (bk_order c)" using assms by (simp_all add: cache_inv_def dm_inv_def)
  show s: "set (bk_order c) = set (map fst (bk_entries c))" using assms by (auto simp: cache_inv_def map_of_eq_None_iff)
  have "length (bk_entries c) = length (bk_order c)" using distinct_card [OF d(1)] distinct_card [OF d(2)] s by simp
  then show "length (bk_entries c) \<le> 32" using assms by (simp add: cache_inv_def MAX_SESSION_BUCKET_KEYS_def)
qed

lemma cache_insert_present:
  assumes "cache_inv c" and "dm_get (bk_entries c) (b, e) \<noteq> None"
  shows "cache_insert c b e k = c\<lparr>bk_entries := dm_insert (b, e) k (bk_entries c)\<rparr>"
  using assms by (simp add: cache_insert_def Let_def)

lemma cache_insert_fresh:
  assumes "cache_inv c" and "dm_get (bk_entries c) (b, e) = None"
  shows "cache_insert c b e k =
    (if length (bk_order c) < MAX_SESSION_BUCKET_KEYS
     then c\<lparr>bk_order := bk_order c @ [(b, e)], bk_entries := dm_insert (b, e) k (bk_entries c)\<rparr>
     else c\<lparr>bk_order := tl (bk_order c) @ [(b, e)],
            bk_entries := dm_insert (b, e) k (dm_remove (hd (bk_order c)) (bk_entries c))\<rparr>)"
  using assms by (cases "bk_order c") (auto simp: cache_insert_def Let_def MAX_SESSION_BUCKET_KEYS_def)

lemma cache_insert_inv: "cache_inv c \<Longrightarrow> cache_inv (cache_insert c b e k)"
proof (cases "dm_get (bk_entries c) (b, e) = None")
  case True
  assume inv: "cache_inv c"
  have new: "(b, e) \<notin> set (bk_order c)" using inv True by (simp add: cache_inv_def)
  show ?thesis
  proof (cases "length (bk_order c) < MAX_SESSION_BUCKET_KEYS")
    case True
    then show ?thesis
      using inv new cache_insert_fresh [OF inv \<open>dm_get (bk_entries c) (b, e) = None\<close>] by (auto simp: cache_inv_def)
  next
    case False
    then obtain o1 os where order: "bk_order c = o1 # os"
      by (cases "bk_order c") (auto simp: MAX_SESSION_BUCKET_KEYS_def)
    then have new': "(b, e) \<notin> set os" "(b, e) \<noteq> o1" using new by auto
    show ?thesis
      using inv False cache_insert_fresh [OF inv True, of k] order by (auto simp: cache_inv_def new')
  qed
next
  case False
  assume inv: "cache_inv c"
  then show ?thesis using False cache_insert_present [OF inv False] by (auto simp: cache_inv_def)
qed

lemma cache_get_insert: "cache_inv c \<Longrightarrow> cache_get (cache_insert c b e k) b e = Some k"
  by (cases "dm_get (bk_entries c) (b, e) = None")
    (auto simp: cache_get_def cache_insert_present cache_insert_fresh)

lemma cache_get_other:
  assumes "cache_inv c" and "(b', e') \<noteq> (b, e)"
  shows "cache_get (cache_insert c b e k) b' e' \<in> {None, cache_get c b' e'}"
  using assms by (cases "dm_get (bk_entries c) (b, e) = None")
    (auto simp: cache_get_def cache_insert_present cache_insert_fresh cache_inv_def)

subsection \<open>Rows selected by a predicate\<close>

lemma remove_rows_get:
  assumes "dm_inv (st_inner st)"
  shows "dm_get (st_inner (fst (remove_rows P st))) k
      = (case dm_get (st_inner st) k of None \<Rightarrow> None | Some s \<Rightarrow> if P k s then None else Some s)"
    and "snd (remove_rows P st) = card {k. \<exists>s. dm_get (st_inner st) k = Some s \<and> P k s}"
    and "dm_inv (st_inner (fst (remove_rows P st)))" and "st_keyring (fst (remove_rows P st)) = st_keyring st"
  using assms by (simp_all add: remove_rows_def Let_def dm_get_remove_where dm_keys_where_count)

subsection \<open>The duress switch\<close>

definition switched :: "session_info \<Rightarrow> bytes \<Rightarrow> bytes \<Rightarrow> u8 \<Rightarrow> role \<Rightarrow> bool \<Rightarrow> sealed_secret \<Rightarrow> session_info" where
  "switched old k kr persona rl rv sealed =
     \<lparr>si_username = si_username old, si_role = rl, si_created_at = si_created_at old,
      si_expires_at = si_expires_at old, si_persona = persona,
      si_revoke_other_sessions = rv, si_identity_sk = sealed,
      si_refresh_count = si_refresh_count old, si_token_hash = k, si_keyring = kr, si_bucket_keys = empty_cache\<rparr>"

lemma switch_row_get:
  assumes "dm_inv inner"
  shows "dm_inv (switch_row E kr user p r rv sk k inner)"
    and "dm_get (switch_row E kr user p r rv sk k inner) k' =
      (if k' = k then (case dm_get inner k of None \<Rightarrow> None | Some old \<Rightarrow>
          (case seal_identity (E k) kr k user p sk of Inl e \<Rightarrow> Some old | Inr sealed \<Rightarrow> Some (switched old k kr p r rv sealed)))
       else dm_get inner k')"
  using assms by (auto simp: switch_row_def switched_def split: option.splits sum.splits)

lemma switch_fold_get:
  assumes "dm_inv inner" and "distinct ks"
  shows "dm_inv (fold (switch_row E kr user p r rv sk) ks inner)"
    and "dm_get (fold (switch_row E kr user p r rv sk) ks inner) k =
      (if k \<in> set ks then (case dm_get inner k of None \<Rightarrow> None | Some old \<Rightarrow>
          (case seal_identity (E k) kr k user p sk of Inl e \<Rightarrow> Some old | Inr sealed \<Rightarrow> Some (switched old k kr p r rv sealed)))
       else dm_get inner k)"
  using assms
proof (induction ks arbitrary: inner)
  case (Cons j ks)
  { case 1 show ?case using Cons.IH(1) switch_row_get(1) 1 by simp
  next
    case 2 show ?case using Cons.IH(2) [OF switch_row_get(1) [OF 2(1)]] 2 by (auto simp: switch_row_get(2)) }
qed simp_all

subsection \<open>Reachable stores\<close>

definition row_inv :: "crypto_prims \<Rightarrow> u32 \<Rightarrow> bytes \<Rightarrow> bytes \<Rightarrow> session_info \<Rightarrow> bool" where
  "row_inv P limit kr h s \<longleftrightarrow> si_token_hash s = h \<and> si_keyring s = kr
     \<and> (\<exists>sk. identity_of P s = Some sk \<and> length sk < 2 ^ 32)
     \<and> si_refresh_count s \<le> limit \<and> cache_inv (si_bucket_keys s)"

definition session_inv :: "crypto_prims \<Rightarrow> u32 \<Rightarrow> session_store \<Rightarrow> bool" where
  "session_inv P limit st \<longleftrightarrow> dm_inv (st_inner st)
     \<and> (\<forall>h s. dm_get (st_inner st) h = Some s \<longrightarrow> row_inv P limit (st_keyring st) h s)"

text \<open>One operation of the store, by whichever request runs it; the environments use the primitives \<open>P\<close>
  and \<open>limit\<close> is the configured \<open>max_refreshes\<close>.\<close>

inductive session_step :: "crypto_prims \<Rightarrow> u32 \<Rightarrow> session_store \<Rightarrow> session_store \<Rightarrow> bool" for P limit where
  insert: "en_prims E = P \<Longrightarrow> length (ns_identity_sk s) < 2 ^ 32 \<Longrightarrow>
    session_step P limit st (fst (insert_session E st s))"
| reissue: "en_prims E = P \<Longrightarrow> session_step P limit st (fst (reissue E st h t limit))"
| get_active: "session_step P limit st (fst (get_active now st h))"
| revoke: "session_step P limit st (fst (revoke st h))"
| revoke_user: "session_step P limit st (fst (revoke_user st u))"
| revoke_persona: "session_step P limit st (fst (revoke_user_persona st u p))"
| revoke_except: "session_step P limit st (fst (revoke_user_persona_except st u p keep))"
| sweep: "session_step P limit st (fst (sweep_sessions now st))"
| switch: "(\<And>k. en_prims (E k) = P) \<Longrightarrow> length sk < 2 ^ 32 \<Longrightarrow>
    session_step P limit st (fst (switch_user_to_persona E st u p r rv sk))"
| cache: "en_prims E = P \<Longrightarrow> dm_get (st_inner st) h = Some s \<Longrightarrow> cache_bucket_key E s b e k = Inr s' \<Longrightarrow>
    session_step P limit st (st\<lparr>st_inner := dm_insert h s' (st_inner st)\<rparr>)"

inductive session_reach :: "crypto_prims \<Rightarrow> u32 \<Rightarrow> session_store \<Rightarrow> bool" for P limit where
  start: "session_reach P limit \<lparr>st_inner = [], st_keyring = kr\<rparr>"
| step: "session_reach P limit st \<Longrightarrow> session_step P limit st st' \<Longrightarrow> session_reach P limit st'"

lemma inv_remove_rows: "session_inv P limit st \<Longrightarrow> session_inv P limit (fst (remove_rows Q st))"
  using remove_rows_get [of st Q] by (auto simp: session_inv_def split: option.splits if_splits)

lemma inv_remove_row:
  "session_inv P limit st \<Longrightarrow> session_inv P limit (st\<lparr>st_inner := dm_remove h (st_inner st)\<rparr>)"
  by (auto simp: session_inv_def)

lemma inv_insert_row:
  "session_inv P limit st \<Longrightarrow> row_inv P limit (st_keyring st) h s \<Longrightarrow>
   session_inv P limit (st\<lparr>st_inner := dm_insert h s (st_inner st)\<rparr>)"
  by (auto simp: session_inv_def)

lemma inv_get_active: "session_inv P limit st \<Longrightarrow> session_inv P limit (fst (get_active now st h))"
  by (auto simp: get_active_def inv_remove_row split: option.splits)

lemma inv_insert_session:
  assumes "aead_correct P" and "en_prims E = P" and "length (ns_identity_sk s) < 2 ^ 32" and "session_inv P limit st"
  shows "session_inv P limit (fst (insert_session E st s))"
proof (cases "seal_identity E (st_keyring st) (hash_token E (en_token E)) (ns_username s) (ns_persona s) (ns_identity_sk s)")
  case (Inr sealed)
  then show ?thesis
    using assms seal_identity_of [of E "ns_identity_sk s", OF _ _ Inr]
    by (auto simp: insert_session_def Let_def row_inv_def intro!: inv_insert_row)
qed (use assms in \<open>simp add: insert_session_def Let_def\<close>)

text \<open>A successful refresh, unfolded.\<close>

definition reissued :: "session_info \<Rightarrow> time \<Rightarrow> bytes \<Rightarrow> bytes \<Rightarrow> sealed_secret \<Rightarrow> session_info" where
  "reissued old t h kr sealed =
     \<lparr>si_username = si_username old, si_role = si_role old, si_created_at = si_created_at old,
      si_expires_at = t, si_persona = si_persona old,
      si_revoke_other_sessions = si_revoke_other_sessions old, si_identity_sk = sealed,
      si_refresh_count = si_refresh_count old + 1, si_token_hash = h, si_keyring = kr,
      si_bucket_keys = empty_cache\<rparr>"

lemma reissue_Inr:
  assumes "reissue E st h t limit = (st', Inr token)"
  obtains old sk sealed where "dm_get (st_inner st) h = Some old" and "\<not> limit \<le> si_refresh_count old"
    and "open_identity_sk E old = Inr sk" and "token = en_token E"
    and "seal_identity E (st_keyring st) (hash_token E token) (si_username old) (si_persona old) sk = Inr sealed"
    and "st' = st\<lparr>st_inner := dm_remove h (dm_insert (hash_token E token)
        (reissued old t (hash_token E token) (st_keyring st) sealed) (st_inner st))\<rparr>"
  using assms by (auto simp: reissue_def reissued_def Let_def split: option.splits if_splits sum.splits)

lemma reissue_Inl: "reissue E st h t limit = (st', Inl e) \<Longrightarrow> st' = st"
  by (auto simp: reissue_def Let_def split: option.splits if_splits sum.splits)

lemma inc_le: "\<not> limit \<le> (c :: u32) \<Longrightarrow> c + 1 \<le> limit"
  by (simp add: not_le inc_le)

lemma inv_reissue:
  assumes "aead_correct P" and "en_prims E = P" and inv: "session_inv P limit st"
  shows "session_inv P limit (fst (reissue E st h t limit))"
proof (cases "reissue E st h t limit")
  case (Pair st' r)
  show ?thesis
  proof (cases r)
    case (Inr token)
    with Pair have "reissue E st h t limit = (st', Inr token)" by simp
    then obtain old sk sealed where o: "dm_get (st_inner st) h = Some old" "\<not> limit \<le> si_refresh_count old"
      "open_identity_sk E old = Inr sk"
      "seal_identity E (st_keyring st) (hash_token E token) (si_username old) (si_persona old) sk = Inr sealed"
      and st': "st' = st\<lparr>st_inner := dm_remove h (dm_insert (hash_token E token)
        (reissued old t (hash_token E token) (st_keyring st) sealed) (st_inner st))\<rparr>"
      by (rule reissue_Inr)
    have "row_inv P limit (st_keyring st) h old" using inv o(1) by (simp add: session_inv_def)
    then have l: "length sk < 2 ^ 32"
      using o(3) assms(2) by (auto simp: row_inv_def open_identity_sk_of split: option.splits)
    have "row_inv P limit (st_keyring st) (hash_token E token) (reissued old t (hash_token E token) (st_keyring st) sealed)"
      using seal_identity_of [OF _ l o(4), of "reissued old t (hash_token E token) (st_keyring st) sealed"]
        assms(1,2) inc_le [OF o(2)] l by (auto simp: row_inv_def reissued_def)
    from inv_remove_row [OF inv_insert_row [OF inv this], of h] show ?thesis
      unfolding Pair fst_conv st' by simp
  qed (use Pair reissue_Inl [of E st h t limit st'] inv in auto)
qed

lemma inv_switch:
  assumes aead: "aead_correct P" and E: "\<And>k. en_prims (E k) = P" and sk: "length sk < 2 ^ 32"
    and inv: "session_inv P limit st"
  shows "session_inv P limit (fst (switch_user_to_persona E st u p r rv sk))"
proof -
  let ?ks = "dm_keys_where (\<lambda>k s. si_username s = u \<and> si_persona s \<noteq> p) (st_inner st)"
  have dm: "dm_inv (st_inner st)" using inv by (simp add: session_inv_def)
  note g = switch_fold_get [OF dm dm_keys_where_distinct [OF dm], of E "st_keyring st" u p r rv sk]
  have row: "row_inv P limit (st_keyring st) k (switched old k (st_keyring st) p r rv sealed)"
    if "dm_get (st_inner st) k = Some old" "si_username old = u"
      "seal_identity (E k) (st_keyring st) k u p sk = Inr sealed" for k old sealed
    using seal_identity_of [of "E k", OF _ sk that(3), of "switched old k (st_keyring st) p r rv sealed"] aead E inv that(1,2) sk
    by (auto simp: row_inv_def switched_def session_inv_def)
  have "row_inv P limit (st_keyring st) k s"
    if "dm_get (fold (switch_row E (st_keyring st) u p r rv sk) ?ks (st_inner st)) k = Some s" for k s
    using that inv row dm_keys_where_mem [OF dm]
    by (fastforce simp: g(2) session_inv_def split: if_splits option.splits sum.splits)
  then show ?thesis
    using g(1) by (simp add: switch_user_to_persona_def Let_def session_inv_def)
qed

lemma inv_cache:
  assumes "session_inv P limit st" and "dm_get (st_inner st) h = Some s" and "cache_bucket_key E s b e k = Inr s'"
  shows "session_inv P limit (st\<lparr>st_inner := dm_insert h s' (st_inner st)\<rparr>)"
proof (rule inv_insert_row [OF assms(1)])
  have "row_inv P limit (st_keyring st) h s" using assms(1,2) by (simp add: session_inv_def)
  moreover obtain sealed where s': "s' = s\<lparr>si_bucket_keys := cache_insert (si_bucket_keys s) b e sealed\<rparr>"
    using assms(3) by (auto simp: cache_bucket_key_def)
  moreover have "identity_of P s' = identity_of P s" by (simp add: identity_of_def s')
  ultimately show "row_inv P limit (st_keyring st) h s'"
    by (simp add: row_inv_def cache_insert_inv)
qed

lemma session_step_inv: "session_step P limit st st' \<Longrightarrow> aead_correct P \<Longrightarrow> session_inv P limit st \<Longrightarrow> session_inv P limit st'"
proof (induction rule: session_step.induct)
  case (revoke st h)
  then show ?case by (simp add: revoke_def inv_remove_row)
qed (auto simp: inv_insert_session inv_reissue inv_get_active inv_switch inv_cache revoke_user_def
    revoke_user_persona_def revoke_user_persona_except_def sweep_sessions_def inv_remove_rows)

lemma session_reach_inv: "session_reach P limit st \<Longrightarrow> aead_correct P \<Longrightarrow> session_inv P limit st"
proof (induction rule: session_reach.induct)
  case (start kr)
  then show ?case by (simp add: session_inv_def)
qed (blast intro: session_step_inv)

lemma session_inv_row: "session_inv P limit st \<Longrightarrow> dm_get (st_inner st) h = Some s \<Longrightarrow> row_inv P limit (st_keyring st) h s"
  by (simp add: session_inv_def)

lemma inc_unat: "\<not> limit \<le> (c :: u32) \<Longrightarrow> unat (c + 1) = Suc (unat c)"
proof -
  assume "\<not> limit \<le> c"
  then have "unat c < unat limit" by (simp add: not_le word_less_nat_alt)
  moreover have "unat limit < 2 ^ 32" using unsigned_less [of limit, where 'a = nat] by simp
  ultimately show ?thesis by (simp add: unat_word_ariths)
qed

subsection \<open>Failed logins\<close>

definition fail_all :: "login_attempts \<Rightarrow> string \<Rightarrow> u32 \<Rightarrow> time \<Rightarrow> time list \<Rightarrow> login_attempts" where
  "fail_all la u mx d ts = foldl (\<lambda>la t. record_failure t la u mx d) la ts"

lemma fail_all_state:
  assumes "dm_get la u = None" and "0 < unat mx"
  shows "ts \<noteq> [] \<Longrightarrow> length ts \<le> unat mx \<Longrightarrow> dm_get (fail_all la u mx d ts) u =
    Some \<lparr>at_failed_count = of_nat (length ts),
          at_locked_until = (if length ts = unat mx then Some (last ts + d) else None)\<rparr>"
proof (induction ts rule: rev_induct)
  case (snoc t ts)
  have m: "mx \<noteq> 0" using assms(2) by (metis less_irrefl unsigned_0)
  have lim: "unat mx < 2 ^ 32" using unsigned_less [of mx, where 'a = nat] by simp
  have u: "unat (of_nat n :: u32) = n" if "n \<le> unat mx" for n using that lim by (simp add: unat_of_nat)
  have n: "length ts < unat mx" using snoc.prems by simp
  have inc: "saturating_add_u32 (of_nat (length ts)) 1 = of_nat (Suc (length ts))"
    using u [of "length ts"] n lim by (simp add: saturating_add_u32_def add.commute)
  have ge: "mx \<le> of_nat (Suc (length ts)) \<longleftrightarrow> Suc (length ts) = unat mx"
    using u [of "Suc (length ts)"] n by (simp only: word_le_nat_alt) auto
  have prev: "(case dm_get (fail_all la u mx d ts) u of Some s \<Rightarrow> s | None \<Rightarrow> \<lparr>at_failed_count = 0, at_locked_until = None\<rparr>)
      = \<lparr>at_failed_count = of_nat (length ts), at_locked_until = None\<rparr>"
  proof (cases "ts = []")
    case True
    then show ?thesis using assms(1) by (simp add: fail_all_def)
  qed (use snoc.IH n in simp)
  have "dm_get (fail_all la u mx d (ts @ [t])) u = dm_get (record_failure t (fail_all la u mx d ts) u mx d) u"
    by (simp add: fail_all_def)
  also have "\<dots> = Some \<lparr>at_failed_count = of_nat (Suc (length ts)),
      at_locked_until = (if Suc (length ts) = unat mx then Some (t + d) else None)\<rparr>"
    unfolding record_failure_def Let_def prev using m by (simp add: inc ge del: of_nat_Suc)
  finally show ?case by (simp del: of_nat_Suc)
qed simp

subsection \<open>Properties of sessions\<close>

text \<open>C29. In every store reachable by the operations of the session table, each row is filed under its own
  token hash, its sealed identity opens, its refresh count is within the configured limit and its
  bucket-key cache holds at most 32 entries, one per bucket and epoch; the queue that decides which one is evicted
  lists exactly the entries, each once.\<close>

theorem session_rows_sound:
  assumes "aead_correct P" and "session_reach P limit st" and "dm_get (st_inner st) h = Some s"
    and "en_prims E = P" and "en_mem E = None"
  shows "si_token_hash s = h \<and> si_refresh_count s \<le> limit \<and> (\<exists>sk. open_identity_sk E s = Inr sk)
    \<and> length (bk_entries (si_bucket_keys s)) \<le> 32 \<and> distinct (map fst (bk_entries (si_bucket_keys s)))
    \<and> distinct (bk_order (si_bucket_keys s)) \<and> set (bk_order (si_bucket_keys s)) = set (map fst (bk_entries (si_bucket_keys s)))"
  using session_inv_row [OF session_reach_inv [OF assms(2,1)] assms(3)] assms(4,5) cache_inv_entries
  by (auto simp: row_inv_def open_identity_sk_of)

definition sample_env :: sec_env where
  "sample_env = \<lparr>en_prims = plain_prims, en_sha256 = (\<lambda>bs. take 32 (bs @ replicate 32 0)), en_display = (\<lambda>e. ''error''),
     en_mem = None, en_nonce = replicate 12 0, en_token = ''tok'', en_now = 5\<rparr>"

definition sample_new :: new_session where
  "sample_new = \<lparr>ns_username = ''alice'', ns_role = User, ns_created_at = 1, ns_expires_at = 10, ns_persona = 0,
     ns_revoke_other_sessions = False, ns_identity_sk = [1, 2, 3]\<rparr>"

lemma sample_simps [simp]:
  "en_prims sample_env = plain_prims" "en_mem sample_env = None" "en_token sample_env = ''tok''"
  "ns_identity_sk sample_new = [1, 2, 3]" "ns_expires_at sample_new = 10"
  by (simp_all add: sample_env_def sample_new_def)

definition sample_store :: session_store where
  "sample_store = fst (insert_session sample_env \<lparr>st_inner = [], st_keyring = [9]\<rparr> sample_new)"

lemma sample_reach: "session_reach plain_prims 3 sample_store"
  unfolding sample_store_def
  by (rule session_reach.step [OF session_reach.start session_step.insert])
    (simp_all add: sample_env_def sample_new_def)

lemma sample_row: "\<exists>s. dm_get (st_inner sample_store) (hash_token sample_env ''tok'') = Some s
    \<and> si_username s = ''alice'' \<and> si_persona s = 0 \<and> si_refresh_count s = 0"
  by (simp add: sample_store_def insert_session_def sample_env_def sample_new_def Let_def seal_identity_def
      backend_def MemoryKey_seal_def plain_prims_def hash_token_def)

theorem session_rows_sound_witness:
  "\<exists>s sk. dm_get (st_inner sample_store) (hash_token sample_env ''tok'') = Some s \<and> open_identity_sk sample_env s = Inr sk"
proof -
  obtain s where s: "dm_get (st_inner sample_store) (hash_token sample_env ''tok'') = Some s" using sample_row by blast
  have "en_prims sample_env = plain_prims" "en_mem sample_env = None" by (simp_all add: sample_env_def)
  then show ?thesis using session_rows_sound [OF plain_aead_correct sample_reach s] s by blast
qed

text \<open>A session inserted at login is found under the hash of the token handed out, with the identity key
  it was given, until it expires; from its expiry on the token is refused and the row removed.\<close>

lemma login_round_trip:
  assumes "aead_correct (en_prims E)" and "en_mem E = None" and "length (ns_identity_sk s) < 2 ^ 32"
    and "insert_session E st s = (st', r)" and "dm_inv (st_inner st)"
  shows "r = Inr (en_token E)
    \<and> (if now < ns_expires_at s
       then \<exists>info. get_active now st' (hash_token E (en_token E)) = (st', Inr info) \<and> si_username info = ns_username s
         \<and> si_role info = ns_role s \<and> si_persona info = ns_persona s \<and> si_refresh_count info = 0
         \<and> open_identity_sk E info = Inr (ns_identity_sk s)
       else snd (get_active now st' (hash_token E (en_token E))) = Inl TokenExpired
         \<and> dm_get (st_inner (fst (get_active now st' (hash_token E (en_token E))))) (hash_token E (en_token E)) = None)"
proof -
  let ?h = "hash_token E (en_token E)"
  obtain sealed where sealed: "seal_identity E (st_keyring st) ?h (ns_username s) (ns_persona s) (ns_identity_sk s) = Inr sealed"
    using seal_total [OF assms(1,3,2)] by (metis backend_Inr seal_identity_def)
  let ?info = "\<lparr>si_username = ns_username s, si_role = ns_role s, si_created_at = ns_created_at s,
             si_expires_at = ns_expires_at s, si_persona = ns_persona s,
             si_revoke_other_sessions = ns_revoke_other_sessions s, si_identity_sk = sealed,
             si_refresh_count = 0, si_token_hash = ?h, si_keyring = st_keyring st,
             si_bucket_keys = empty_cache\<rparr>"
  have st': "st' = st\<lparr>st_inner := dm_insert ?h ?info (st_inner st)\<rparr>" "r = Inr (en_token E)"
    using assms(4) sealed by (auto simp: insert_session_def Let_def)
  have "open_identity_sk E ?info = Inr (ns_identity_sk s)"
    using seal_identity_of [OF assms(1,3) sealed, of ?info] assms(2) by (simp add: open_identity_sk_of)
  then show ?thesis using st' assms(5) by (auto simp: get_active_def is_expired_def)
qed

text \<open>A refresh either fails and leaves the store as it was, or moves the session to the new token: the old
  token no longer opens anything, the new row has the same user, role, persona and identity key, one
  more refresh counted without overflow, an empty bucket-key cache, and no other row changes.\<close>

lemma reissue_moves_session:
  assumes "aead_correct P" and "en_prims E = P" and "session_inv P limit st"
    and "reissue E st h t limit = (st', r)" and "hash_token E (en_token E) \<noteq> h"
  shows "case r of Inl e \<Rightarrow> st' = st | Inr token \<Rightarrow>
    (\<exists>old new. dm_get (st_inner st) h = Some old \<and> dm_get (st_inner st') h = None
      \<and> dm_get (st_inner st') (hash_token E token) = Some new
      \<and> si_username new = si_username old \<and> si_role new = si_role old \<and> si_persona new = si_persona old
      \<and> si_expires_at new = t \<and> unat (si_refresh_count new) = Suc (unat (si_refresh_count old))
      \<and> identity_of P new = identity_of P old \<and> si_bucket_keys new = empty_cache
      \<and> (\<forall>h'. h' \<noteq> h \<longrightarrow> h' \<noteq> hash_token E token \<longrightarrow> dm_get (st_inner st') h' = dm_get (st_inner st) h'))"
proof (cases r)
  case (Inr token)
  with assms(4) obtain old sk sealed where o: "dm_get (st_inner st) h = Some old" "\<not> limit \<le> si_refresh_count old"
    "open_identity_sk E old = Inr sk" "token = en_token E"
    "seal_identity E (st_keyring st) (hash_token E token) (si_username old) (si_persona old) sk = Inr sealed"
    and st': "st' = st\<lparr>st_inner := dm_remove h (dm_insert (hash_token E token)
        (reissued old t (hash_token E token) (st_keyring st) sealed) (st_inner st))\<rparr>"
    by (blast elim: reissue_Inr)
  let ?new = "reissued old t (hash_token E token) (st_keyring st) sealed"
  have sk: "identity_of P old = Some sk" using o(3) assms(2) by (auto simp: open_identity_sk_of split: option.splits)
  then have "length sk < 2 ^ 32" using session_inv_row [OF assms(3) o(1)] by (auto simp: row_inv_def)
  then have "identity_of P ?new = Some sk"
    using seal_identity_of [OF _ _ o(5), of ?new] assms(1,2) by (simp add: reissued_def)
  moreover have "unat (si_refresh_count old + 1) = Suc (unat (si_refresh_count old))"
    by (rule inc_unat [OF o(2)])
  ultimately show ?thesis
    using Inr o(1,4) st' sk assms(5) by (auto simp: reissued_def)
qed (use assms(4) reissue_Inl in auto)

text \<open>Revoking a user removes every session of that user and no other, and returns how many there were;
  revoking one persona spares the sessions of other personas and the session to keep; a sweep removes
  exactly the expired sessions.\<close>

lemma revocations_exact:
  assumes "dm_inv (st_inner st)"
  shows "dm_get (st_inner (fst (revoke_user st u))) k =
      (case dm_get (st_inner st) k of None \<Rightarrow> None | Some s \<Rightarrow> if si_username s = u then None else Some s)
    \<and> snd (revoke_user st u) = card {k. \<exists>s. dm_get (st_inner st) k = Some s \<and> si_username s = u}
    \<and> dm_get (st_inner (fst (revoke_user_persona_except st u p keep))) k =
      (case dm_get (st_inner st) k of None \<Rightarrow> None
       | Some s \<Rightarrow> if si_username s = u \<and> si_persona s = p \<and> k \<noteq> keep then None else Some s)
    \<and> dm_get (st_inner (fst (sweep_sessions now st))) k =
      (case dm_get (st_inner st) k of None \<Rightarrow> None | Some s \<Rightarrow> if si_expires_at s \<le> now then None else Some s)"
  unfolding revoke_user_def revoke_user_persona_except_def sweep_sessions_def is_expired_def
  by (simp only: remove_rows_get [OF assms] simp_thms)

text \<open>The duress switch converts every other-persona session of the user in place: same token, expiry,
  creation time and refresh count, the new persona, role and identity key, and none of the bucket keys the
  session had opened; sessions of other users and of the new persona itself are untouched.\<close>

lemma duress_switch_exact:
  assumes "aead_correct P" and "\<forall>k. en_prims (E k) = P \<and> en_mem (E k) = None" and "length sk < 2 ^ 32"
    and "session_inv P limit st" and "dm_get (st_inner st) k = Some s"
    and "switch_user_to_persona E st u p r rv sk = (st', n)"
  shows "if si_username s = u \<and> si_persona s \<noteq> p
    then \<exists>s'. dm_get (st_inner st') k = Some s' \<and> si_username s' = u \<and> si_persona s' = p \<and> si_role s' = r
      \<and> si_expires_at s' = si_expires_at s \<and> si_created_at s' = si_created_at s
      \<and> si_refresh_count s' = si_refresh_count s \<and> si_bucket_keys s' = empty_cache
      \<and> identity_of P s' = Some sk
    else dm_get (st_inner st') k = Some s"
proof -
  let ?ks = "dm_keys_where (\<lambda>k s. si_username s = u \<and> si_persona s \<noteq> p) (st_inner st)"
  have dm: "dm_inv (st_inner st)" using assms(4) by (simp add: session_inv_def)
  have st': "st_inner st' = fold (switch_row E (st_keyring st) u p r rv sk) ?ks (st_inner st)"
    using assms(6) by (auto simp: switch_user_to_persona_def Let_def)
  have mem: "k \<in> set ?ks \<longleftrightarrow> si_username s = u \<and> si_persona s \<noteq> p"
    using dm_keys_where_mem [OF dm] assms(5) by auto
  obtain sealed where sealed: "seal_identity (E k) (st_keyring st) k u p sk = Inr sealed"
    using seal_total [of "E k", OF _ assms(3)] assms(1,2) by (metis backend_Inr seal_identity_def)
  have "identity_of P (switched s k (st_keyring st) p r rv sealed) = Some sk" if "si_username s = u"
    using seal_identity_of [OF _ assms(3) sealed, of "switched s k (st_keyring st) p r rv sealed"] assms(1,2) that
    by (simp add: switched_def)
  then show ?thesis
    unfolding st' switch_fold_get(2) [OF dm dm_keys_where_distinct [OF dm]] mem
    using assms(5) sealed by (auto simp: switched_def)
qed

text \<open>When resealing fails, the duress switch leaves the session on its old persona but still counts it as
  switched.\<close>

lemma duress_switch_counts_failures:
  assumes "dm_inv (st_inner st)" and "\<forall>k. en_mem (E k) = Some why"
    and "switch_user_to_persona E st u p r rv sk = (st', n)"
  shows "(\<forall>k. dm_get (st_inner st') k = dm_get (st_inner st) k)
    \<and> n = card {k. \<exists>s. dm_get (st_inner st) k = Some s \<and> si_username s = u \<and> si_persona s \<noteq> p}"
proof -
  let ?ks = "dm_keys_where (\<lambda>k s. si_username s = u \<and> si_persona s \<noteq> p) (st_inner st)"
  have st': "st_inner st' = fold (switch_row E (st_keyring st) u p r rv sk) ?ks (st_inner st)" "n = length ?ks"
    using assms(3) by (auto simp: switch_user_to_persona_def Let_def)
  have "seal_identity (E k) (st_keyring st) k u p sk = Inl (Backend (en_display (E k) (SecMem why)))" for k
    using assms(2) by (simp add: seal_identity_def MemoryKey_seal_def backend_def)
  then show ?thesis
    unfolding st' switch_fold_get(2) [OF assms(1) dm_keys_where_distinct [OF assms(1)]] dm_keys_where_count [OF assms(1)]
    by (auto split: option.splits)
qed

text \<open>An account with no failed login behind it is locked by the configured number of failures in a row,
  not by fewer, until the lockout period after the last of them has passed; the check after that
  clears the counter.\<close>

lemma lockout_after_failures:
  assumes "dm_get la u = None" and "0 < unat mx" and "ts \<noteq> []" and "length ts \<le> unat mx"
  shows "check_lockout now (fail_all la u mx d ts) u =
    (if length ts < unat mx then (fail_all la u mx d ts, Inr ())
     else if now < last ts + d then (fail_all la u mx d ts, Inl (last ts + d))
     else (dm_insert u \<lparr>at_failed_count = 0, at_locked_until = None\<rparr> (fail_all la u mx d ts), Inr ()))"
  using fail_all_state [OF assms, of d] assms(4) by (simp add: check_lockout_def)

text \<open>A request passes the administrator extractor exactly when its bearer token names a live session
  whose role is admin, or authorization is not enforced; a disabled account is refused whenever it is
  enforced.\<close>

lemma admin_gate:
  assumes "authenticate_token_hash now enforce st h = (st', r)"
  shows "require_admin r = Inr a \<longleftrightarrow>
    (\<exists>s. dm_get (st_inner st) h = Some s \<and> now < si_expires_at s \<and> (enforce \<longrightarrow> si_role s = Admin)
      \<and> a = \<lparr>au_username = si_username s, au_role = si_role s, au_token_hash = h, au_session = s,
             au_authz_enforced = enforce\<rparr>)"
proof (cases "dm_get (st_inner st) h")
  case None
  then have "r = Inl TokenInvalid" using assms by (simp add: authenticate_token_hash_def get_active_def)
  then show ?thesis using None by (simp add: require_admin_def)
next
  case (Some s)
  then have "r = (if si_expires_at s \<le> now then Inl TokenExpired else if enforce \<and> si_role s = Disabled then Inl AccountDisabled
      else Inr \<lparr>au_username = si_username s, au_role = si_role s, au_token_hash = h, au_session = s, au_authz_enforced = enforce\<rparr>)"
    using assms by (auto simp: authenticate_token_hash_def get_active_def is_expired_def)
  then show ?thesis using Some by (cases enforce) (auto simp: require_admin_def is_admin_def)
qed

text \<open>A sealed secret cannot be moved: the associated data of identity keys, cached bucket keys and S3
  secrets differ in kind, in session and in what they are about.\<close>

lemma sealed_contexts_distinct:
  assumes "length h = 32" and "length h' = 32" and "length n < 2 ^ 32" and "length n' < 2 ^ 32"
  shows "(identity_aad h n p = identity_aad h' n' p' \<longleftrightarrow> h = h' \<and> n = n' \<and> p = p')
    \<and> (bucket_key_aad h n e = bucket_key_aad h' n' e' \<longleftrightarrow> h = h' \<and> n = n' \<and> e = e')
    \<and> (s3_secret_aad h n = s3_secret_aad h' n' \<longleftrightarrow> h = h' \<and> n = n')
    \<and> identity_aad h n p \<noteq> bucket_key_aad h' n' e \<and> identity_aad h n p \<noteq> s3_secret_aad h' n'
    \<and> bucket_key_aad h n e \<noteq> s3_secret_aad h' n'"
  using assms
  by (auto simp: identity_aad_def bucket_key_aad_def s3_secret_aad_def as_bytes_def byte_of_char_def
      be32.enc_append_inj append_eq_append_conv inj_map_eq_map [OF inj_byte_of_char])

end
