(* ===== verification/S3_State.thy ===== *)
theory S3_State
  imports Session_Laws
begin

text \<open>
  The in-memory state of the S3 gateway, \<open>crates/y2qd/src/s3/state.rs\<close>: temporary credentials and
  in-flight multipart uploads, both bound to a session by its token hash. The parts map of an upload
  is shared by reference between the registry and running requests, so an upload holds an address
  into the registry's heap of parts maps and re-keying keeps the address. Random bytes are arguments;
  \<open>E akid\<close> is the environment of the seal and open calls for one credential.
\<close>

definition AKID_ALPHABET :: string where "AKID_ALPHABET = ''ABCDEFGHIJKLMNOPQRSTUVWXYZ234567''"
definition AKID_SUFFIX_LEN :: nat where "AKID_SUFFIX_LEN = 17"
definition SECRET_RAW_LEN :: nat where "SECRET_RAW_LEN = 30"
definition UPLOAD_ID_RAW_LEN :: nat where "UPLOAD_ID_RAW_LEN = 16"

record s3_credential =
  sc_access_key_id :: string
  sc_token_hash :: bytes
  sc_username :: string
  sc_secret :: sealed_secret
  sc_created_at :: time
  sc_expires_at :: time

definition cred_expired :: "s3_credential \<Rightarrow> time \<Rightarrow> bool" where
  "cred_expired c now \<longleftrightarrow> sc_expires_at c \<le> now"

definition with_secret :: "sec_env \<Rightarrow> bytes \<Rightarrow> s3_credential \<Rightarrow> auth_error + bytes" where
  "with_secret E kr c = open_s3_secret E kr (sc_token_hash c) (sc_access_key_id c) (sc_secret c)"

record credential_store =
  cr_inner :: "(string, s3_credential) dmap"
  cr_keyring :: bytes
  cr_max_per_session :: nat

definition generate_access_key_id :: "bytes \<Rightarrow> string" where
  "generate_access_key_id raw = ''Y2Q'' @ map (\<lambda>b. AKID_ALPHABET ! unat (b mod 32)) raw"

definition generate_secret_bytes :: "sec_env \<Rightarrow> bytes \<Rightarrow> auth_error + bytes" where
  "generate_secret_bytes E raw = (case en_mem E of Some e \<Rightarrow> Inl (Backend e) | None \<Rightarrow> Inr raw)"

definition creds_for_session :: "credential_store \<Rightarrow> bytes \<Rightarrow> s3_credential list" where
  "creds_for_session cs token_hash = map snd (filter (\<lambda>(_, c). sc_token_hash c = token_hash) (cr_inner cs))"

fun evict_loop :: "nat \<Rightarrow> s3_credential list \<Rightarrow> (string, s3_credential) dmap \<Rightarrow> (string, s3_credential) dmap" where
  "evict_loop mx [] inner = inner"
| "evict_loop mx (oldest # remaining) inner =
     (if mx < length (oldest # remaining) then evict_loop mx remaining (dm_remove (sc_access_key_id oldest) inner)
      else inner)"

definition mint :: "sec_env \<Rightarrow> bytes \<Rightarrow> bytes \<Rightarrow> credential_store \<Rightarrow> bytes \<Rightarrow> string \<Rightarrow> time \<Rightarrow> time
    \<Rightarrow> credential_store \<times> (auth_error + (string \<times> string))" where
  "mint E akid_raw secret_raw cs token_hash username requested_expires_at session_expires_at =
     (let expires_at = min requested_expires_at session_expires_at;
          access_key_id = generate_access_key_id akid_raw in
      case generate_secret_bytes E secret_raw of Inl e \<Rightarrow> (cs, Inl e) | Inr secret_bytes \<Rightarrow>
      let secret = b64_encode (en_prims E) secret_bytes in
      case seal_s3_secret E (cr_keyring cs) token_hash access_key_id (as_bytes secret) of Inl e \<Rightarrow> (cs, Inl e) | Inr sealed \<Rightarrow>
      case en_mem E of Some e \<Rightarrow> (cs, Inl (Backend e)) | None \<Rightarrow>
      let cred = \<lparr>sc_access_key_id = access_key_id, sc_token_hash = token_hash, sc_username = username,
                  sc_secret = sealed, sc_created_at = en_now E, sc_expires_at = expires_at\<rparr>;
          cs = cs\<lparr>cr_inner := dm_insert access_key_id cred (cr_inner cs)\<rparr>;
          remaining = sort_key sc_created_at (creds_for_session cs token_hash)
      in (cs\<lparr>cr_inner := evict_loop (cr_max_per_session cs) remaining (cr_inner cs)\<rparr>, Inr (access_key_id, secret)))"

definition cred_get :: "credential_store \<Rightarrow> string \<Rightarrow> s3_credential option" where
  "cred_get cs access_key_id = dm_get (cr_inner cs) access_key_id"

definition cred_remove :: "credential_store \<Rightarrow> string \<Rightarrow> credential_store \<times> bool" where
  "cred_remove cs access_key_id =
     (cs\<lparr>cr_inner := dm_remove access_key_id (cr_inner cs)\<rparr>, dm_get (cr_inner cs) access_key_id \<noteq> None)"

definition reseal :: "sec_env \<Rightarrow> bytes \<Rightarrow> bytes \<Rightarrow> bytes \<Rightarrow> s3_credential \<Rightarrow> auth_error + sealed_secret" where
  "reseal E kr old new cred =
     rbind (open_s3_secret E kr old (sc_access_key_id cred) (sc_secret cred)) (\<lambda>opened.
     seal_s3_secret E kr new (sc_access_key_id cred) opened)"

definition rekey_cred :: "(string \<Rightarrow> sec_env) \<Rightarrow> bytes \<Rightarrow> bytes \<Rightarrow> s3_credential
    \<Rightarrow> credential_store \<times> nat \<Rightarrow> credential_store \<times> nat" where
  "rekey_cred E old new cred = (\<lambda>(cs, rekeyed).
     case reseal (E (sc_access_key_id cred)) (cr_keyring cs) old new cred of
       Inr sealed \<Rightarrow> (cs\<lparr>cr_inner := dm_insert (sc_access_key_id cred)
           \<lparr>sc_access_key_id = sc_access_key_id cred, sc_token_hash = new, sc_username = sc_username cred,
            sc_secret = sealed, sc_created_at = sc_created_at cred, sc_expires_at = sc_expires_at cred\<rparr>
           (cr_inner cs)\<rparr>, rekeyed + 1)
     | Inl e \<Rightarrow> (cs\<lparr>cr_inner := dm_remove (sc_access_key_id cred) (cr_inner cs)\<rparr>, rekeyed))"

definition rekey_credentials :: "(string \<Rightarrow> sec_env) \<Rightarrow> credential_store \<Rightarrow> bytes \<Rightarrow> bytes \<Rightarrow> credential_store \<times> nat" where
  "rekey_credentials E cs old new = fold (rekey_cred E old new) (creds_for_session cs old) (cs, 0)"

text \<open>The sweep consults the session table, and a lookup of an expired session removes that session.\<close>

fun sweep_scan :: "time \<Rightarrow> (string \<times> s3_credential) list \<Rightarrow> session_store \<Rightarrow> session_store \<times> string list" where
  "sweep_scan now [] st = (st, [])"
| "sweep_scan now ((akid, cred) # rows) st =
     (if cred_expired cred now then (case sweep_scan now rows st of (st, stale) \<Rightarrow> (st, akid # stale))
      else (case get_active now st (sc_token_hash cred) of (st, r) \<Rightarrow>
            case sweep_scan now rows st of (st, stale) \<Rightarrow> (st, if is_ok r then stale else akid # stale)))"

definition sweep_credentials :: "time \<Rightarrow> credential_store \<Rightarrow> session_store \<Rightarrow> credential_store \<times> session_store \<times> nat" where
  "sweep_credentials now cs st =
     (case sweep_scan now (cr_inner cs) st of (st, stale) \<Rightarrow>
      (cs\<lparr>cr_inner := dm_remove_all stale (cr_inner cs)\<rparr>, st, length stale))"

subsection \<open>Multipart uploads\<close>

type_synonym parts_map = "(u16, u64 \<times> string) dmap"

record multipart_upload =
  mu_upload_id :: string
  mu_bucket :: string
  mu_key :: string
  mu_token_hash :: bytes
  mu_username :: string
  mu_created_at :: time
  mu_labels :: label_set
  mu_parts :: nat

record multipart_registry =
  mr_inner :: "(string, multipart_upload) dmap"
  mr_max_per_session :: nat
  mr_heap :: "parts_map list"

record new_upload =
  nu_bucket :: string
  nu_key :: string
  nu_token_hash :: bytes
  nu_username :: string
  nu_labels :: label_set

definition uploads_for_session :: "multipart_registry \<Rightarrow> bytes \<Rightarrow> multipart_upload list" where
  "uploads_for_session mr token_hash = map snd (filter (\<lambda>(_, u). mu_token_hash u = token_hash) (mr_inner mr))"

definition uploads_for_bucket :: "multipart_registry \<Rightarrow> string \<Rightarrow> multipart_upload list" where
  "uploads_for_bucket mr bucket = map snd (filter (\<lambda>(_, u). mu_bucket u = bucket) (mr_inner mr))"

text \<open>\<open>upload_id\<close> is the URL-safe base64 text of the 16 random bytes; the error is \<open>S3Error::slow_down\<close>
  with its message.\<close>

definition create_upload :: "time \<Rightarrow> string \<Rightarrow> multipart_registry \<Rightarrow> new_upload
    \<Rightarrow> multipart_registry \<times> (string + multipart_upload)" where
  "create_upload now upload_id mr new =
     (if mr_max_per_session mr \<le> length (uploads_for_session mr (nu_token_hash new))
      then (mr, Inl ''too many in-flight multipart uploads for this session; complete or abort an existing upload'')
      else let u = \<lparr>mu_upload_id = upload_id, mu_bucket = nu_bucket new, mu_key = nu_key new,
                    mu_token_hash = nu_token_hash new, mu_username = nu_username new, mu_created_at = now,
                    mu_labels = nu_labels new, mu_parts = length (mr_heap mr)\<rparr>
           in (mr\<lparr>mr_inner := dm_insert upload_id u (mr_inner mr), mr_heap := mr_heap mr @ [[]]\<rparr>, Inr u))"

definition upload_get :: "multipart_registry \<Rightarrow> string \<Rightarrow> multipart_upload option" where
  "upload_get mr upload_id = dm_get (mr_inner mr) upload_id"

definition upload_remove :: "multipart_registry \<Rightarrow> string \<Rightarrow> multipart_registry \<times> multipart_upload option" where
  "upload_remove mr upload_id =
     (mr\<lparr>mr_inner := dm_remove upload_id (mr_inner mr)\<rparr>, dm_get (mr_inner mr) upload_id)"

definition MultipartRegistry_new :: "nat \<Rightarrow> multipart_registry" where
  "MultipartRegistry_new max_per_session = \<lparr>mr_inner = [], mr_max_per_session = max_per_session, mr_heap = []\<rparr>"

definition all_uploads :: "multipart_registry \<Rightarrow> multipart_upload list" where
  "all_uploads mr = map snd (mr_inner mr)"

text \<open>Like the credential sweep, the search for orphans drops the expired sessions it looks up.\<close>

fun orphans_scan :: "time \<Rightarrow> (string \<times> multipart_upload) list \<Rightarrow> session_store \<Rightarrow> session_store \<times> multipart_upload list" where
  "orphans_scan now [] st = (st, [])"
| "orphans_scan now ((_, u) # rows) st =
     (case get_active now st (mu_token_hash u) of (st, r) \<Rightarrow>
      case orphans_scan now rows st of (st, us) \<Rightarrow> (st, if is_ok r then us else u # us))"

definition orphans :: "time \<Rightarrow> multipart_registry \<Rightarrow> session_store \<Rightarrow> session_store \<times> multipart_upload list" where
  "orphans now mr st = orphans_scan now (mr_inner mr) st"

definition rekey_uploads :: "multipart_registry \<Rightarrow> bytes \<Rightarrow> bytes \<Rightarrow> multipart_registry \<times> nat" where
  "rekey_uploads mr old new =
     (let matching = uploads_for_session mr old
      in (mr\<lparr>mr_inner := fold (\<lambda>u. dm_insert (mu_upload_id u) (u\<lparr>mu_token_hash := new\<rparr>)) matching (mr_inner mr)\<rparr>,
          length matching))"

record s3_state =
  s3_credentials :: credential_store
  s3_uploads :: multipart_registry

definition rekey_s3_session :: "(string \<Rightarrow> sec_env) \<Rightarrow> s3_state \<Rightarrow> bytes \<Rightarrow> bytes \<Rightarrow> s3_state" where
  "rekey_s3_session E s old new =
     s\<lparr>s3_credentials := fst (rekey_credentials E (s3_credentials s) old new),
       s3_uploads := fst (rekey_uploads (s3_uploads s) old new)\<rparr>"

subsection \<open>Re-keying\<close>

definition creds_inv :: "credential_store \<Rightarrow> bool" where
  "creds_inv cs \<longleftrightarrow> dm_inv (cr_inner cs) \<and> (\<forall>a c. dm_get (cr_inner cs) a = Some c \<longrightarrow> sc_access_key_id c = a)"

definition uploads_inv :: "multipart_registry \<Rightarrow> bool" where
  "uploads_inv mr \<longleftrightarrow> dm_inv (mr_inner mr) \<and> (\<forall>i u. dm_get (mr_inner mr) i = Some u \<longrightarrow> mu_upload_id u = i)"

definition rebound :: "s3_credential \<Rightarrow> bytes \<Rightarrow> sealed_secret \<Rightarrow> s3_credential" where
  "rebound c new sealed = c\<lparr>sc_token_hash := new, sc_secret := sealed\<rparr>"

lemma rekey_cred_row:
  "rekey_cred E old new cred (cs, n) =
    (case reseal (E (sc_access_key_id cred)) (cr_keyring cs) old new cred of
       Inr sealed \<Rightarrow> (cs\<lparr>cr_inner := dm_insert (sc_access_key_id cred) (rebound cred new sealed) (cr_inner cs)\<rparr>, n + 1)
     | Inl e \<Rightarrow> (cs\<lparr>cr_inner := dm_remove (sc_access_key_id cred) (cr_inner cs)\<rparr>, n))"
  by (cases cred) (simp add: rekey_cred_def rebound_def split: sum.splits)

lemma rekey_fold_get:
  assumes "dm_inv (cr_inner cs)" and "distinct (map sc_access_key_id creds)"
  shows "dm_inv (cr_inner (fst (fold (rekey_cred E old new) creds (cs, n))))
    \<and> cr_keyring (fst (fold (rekey_cred E old new) creds (cs, n))) = cr_keyring cs
    \<and> dm_get (cr_inner (fst (fold (rekey_cred E old new) creds (cs, n)))) a =
      (case find (\<lambda>c. sc_access_key_id c = a) creds of
         None \<Rightarrow> dm_get (cr_inner cs) a
       | Some c \<Rightarrow> (case reseal (E a) (cr_keyring cs) old new c of Inr sealed \<Rightarrow> Some (rebound c new sealed) | Inl e \<Rightarrow> None))"
  using assms
proof (induction creds arbitrary: cs n)
  case (Cons c creds)
  have nf: "find (\<lambda>c'. sc_access_key_id c' = sc_access_key_id c) creds = None"
    using Cons.prems(2) unfolding find_None_iff by (auto simp: image_iff)
  show ?case
  proof (cases "reseal (E (sc_access_key_id c)) (cr_keyring cs) old new c")
    case (Inl e)
    then show ?thesis
      using Cons.IH [of "cs\<lparr>cr_inner := dm_remove (sc_access_key_id c) (cr_inner cs)\<rparr>" n] Cons.prems nf
      by (cases "a = sc_access_key_id c") (auto simp: rekey_cred_row split: option.splits)
  next
    case (Inr sealed)
    then show ?thesis
      using Cons.IH [of "cs\<lparr>cr_inner := dm_insert (sc_access_key_id c) (rebound c new sealed) (cr_inner cs)\<rparr>" "n + 1"] Cons.prems nf
      by (cases "a = sc_access_key_id c") (auto simp: rekey_cred_row split: option.splits)
  qed
qed simp

lemma session_creds:
  assumes "creds_inv cs"
  shows "distinct (map sc_access_key_id (creds_for_session cs h))"
    and "find (\<lambda>c. sc_access_key_id c = a) (creds_for_session cs h) =
      (case dm_get (cr_inner cs) a of Some c \<Rightarrow> if sc_token_hash c = h then Some c else None | None \<Rightarrow> None)"
proof -
  have dm: "dm_inv (cr_inner cs)" and akid: "\<And>a c. dm_get (cr_inner cs) a = Some c \<Longrightarrow> sc_access_key_id c = a"
    using assms by (auto simp: creds_inv_def)
  let ?rows = "filter (\<lambda>(_, c). sc_token_hash c = h) (cr_inner cs)"
  have key: "sc_access_key_id (snd r) = fst r" if "r \<in> set (cr_inner cs)" for r
    using akid dm.iter_mem [OF dm, of "fst r" "snd r"] that by simp
  then have keys: "map sc_access_key_id (creds_for_session cs h) = map fst ?rows"
    by (auto simp: creds_for_session_def)
  show d: "distinct (map sc_access_key_id (creds_for_session cs h))"
    unfolding keys using dm by (simp add: dm_inv_def distinct_map_filter)
  have mem: "c \<in> set (creds_for_session cs h) \<longleftrightarrow> dm_get (cr_inner cs) (sc_access_key_id c) = Some c \<and> sc_token_hash c = h" for c
  proof -
    have "c \<in> set (creds_for_session cs h) \<longleftrightarrow> (\<exists>k. (k, c) \<in> set (cr_inner cs) \<and> sc_token_hash c = h)"
      by (auto simp: creds_for_session_def image_iff)
    then show ?thesis unfolding dm.iter_mem [OF dm] using akid by blast
  qed
  have "find (\<lambda>c. sc_access_key_id c = a) xs = Some c" if "c \<in> set xs" "sc_access_key_id c = a" "distinct (map sc_access_key_id xs)" for xs c
    using that by (induction xs) (auto simp: image_iff)
  then have hit: "find (\<lambda>c. sc_access_key_id c = a) (creds_for_session cs h) = Some c"
    if "dm_get (cr_inner cs) a = Some c" "sc_token_hash c = h" for c
    using d mem [of c] akid [OF that(1)] that by simp
  have miss: "find (\<lambda>c. sc_access_key_id c = a) (creds_for_session cs h) = None"
    if "\<And>c. dm_get (cr_inner cs) a = Some c \<Longrightarrow> sc_token_hash c \<noteq> h"
    using that mem unfolding find_None_iff by blast
  show "find (\<lambda>c. sc_access_key_id c = a) (creds_for_session cs h) =
      (case dm_get (cr_inner cs) a of Some c \<Rightarrow> if sc_token_hash c = h then Some c else None | None \<Rightarrow> None)"
    by (cases "dm_get (cr_inner cs) a") (auto simp: hit intro!: miss)
qed

lemma reseal_ok:
  assumes "aead_correct (en_prims E)" and "en_mem E = None" and "length secret < 2 ^ 32"
    and "with_secret E kr c = Inr secret" and "sc_token_hash c = old"
  obtains sealed where "reseal E kr old new c = Inr sealed" and "with_secret E kr (rebound c new sealed) = Inr secret"
proof -
  obtain sealed where s: "MemoryKey_seal E kr secret (s3_secret_aad new (sc_access_key_id c)) = Inr sealed"
    by (rule seal_total [OF assms(1,3,2)])
  show thesis
    by (rule that [of sealed])
      (use s seal_open [OF assms(1,3) s] assms(2,4,5) in
        \<open>auto simp: reseal_def with_secret_def seal_s3_secret_def open_s3_secret_def rebound_def MemoryKey_open_def backend_def\<close>)
qed

lemma rekey_uploads_get:
  assumes "uploads_inv mr"
  shows "dm_get (mr_inner (fst (rekey_uploads mr old new))) i = map_option
      (\<lambda>u. if mu_token_hash u = old then u\<lparr>mu_token_hash := new\<rparr> else u) (dm_get (mr_inner mr) i)"
proof -
  have dm: "dm_inv (mr_inner mr)" and ids: "\<And>i u. dm_get (mr_inner mr) i = Some u \<Longrightarrow> mu_upload_id u = i"
    using assms by (auto simp: uploads_inv_def)
  have fold: "dm_get (fold (\<lambda>u. dm_insert (mu_upload_id u) (u\<lparr>mu_token_hash := new\<rparr>)) us m) i =
      (if \<exists>u \<in> set us. mu_upload_id u = i then Some (u\<lparr>mu_token_hash := new\<rparr>) else dm_get m i)"
    if "\<forall>v \<in> set us. mu_upload_id v = i \<longrightarrow> v = u" for us m u
    using that by (induction us arbitrary: m) auto
  have mem: "v \<in> set (uploads_for_session mr old) \<longleftrightarrow> dm_get (mr_inner mr) (mu_upload_id v) = Some v \<and> mu_token_hash v = old" for v
  proof -
    have "v \<in> set (uploads_for_session mr old) \<longleftrightarrow> (\<exists>k. (k, v) \<in> set (mr_inner mr) \<and> mu_token_hash v = old)"
      by (auto simp: uploads_for_session_def image_iff)
    then show ?thesis unfolding dm.iter_mem [OF dm] using ids by blast
  qed
  show ?thesis
  proof (cases "dm_get (mr_inner mr) i")
    case None
    then have "\<forall>v \<in> set (uploads_for_session mr old). mu_upload_id v \<noteq> i" using mem by auto
    then show ?thesis using fold [of "uploads_for_session mr old" undefined "mr_inner mr"] None by (simp add: rekey_uploads_def Let_def)
  next
    case (Some u)
    have "\<forall>v \<in> set (uploads_for_session mr old). mu_upload_id v = i \<longrightarrow> v = u"
    proof (intro ballI impI)
      fix v assume "v \<in> set (uploads_for_session mr old)" and "mu_upload_id v = i"
      then show "v = u" using mem [of v] Some by simp
    qed
    from fold [OF this, of "mr_inner mr"] have "dm_get (mr_inner (fst (rekey_uploads mr old new))) i =
        (if \<exists>u \<in> set (uploads_for_session mr old). mu_upload_id u = i then Some (u\<lparr>mu_token_hash := new\<rparr>) else dm_get (mr_inner mr) i)"
      by (simp add: rekey_uploads_def Let_def)
    moreover have "(\<exists>u \<in> set (uploads_for_session mr old). mu_upload_id u = i) \<longleftrightarrow> mu_token_hash u = old"
    proof
      assume "\<exists>u \<in> set (uploads_for_session mr old). mu_upload_id u = i"
      then obtain v where "v \<in> set (uploads_for_session mr old)" and "mu_upload_id v = i" by blast
      then show "mu_token_hash u = old" using mem [of v] Some by simp
    next
      assume "mu_token_hash u = old"
      then show "\<exists>u \<in> set (uploads_for_session mr old). mu_upload_id u = i" using mem [of u] Some ids [OF Some] by blast
    qed
    ultimately show ?thesis using Some by simp
  qed
qed

subsection \<open>Properties of the S3 state\<close>

text \<open>After a token refresh the S3 state follows the session: every credential of the old token whose
  secret opens is bound to the new token with the same secret, user and expiry, none is left under
  the old token, in-flight uploads move with their parts map shared, and the state of other sessions
  is untouched.\<close>

lemma s3_state_follows_refresh:
  assumes P: "\<forall>a. aead_correct (en_prims (E a)) \<and> en_mem (E a) = None" and ne: "old \<noteq> new"
    and inv: "creds_inv (s3_credentials s)" "uploads_inv (s3_uploads s)"
    and s': "s' = rekey_s3_session E s old new"
  shows "(\<forall>a c. dm_get (cr_inner (s3_credentials s)) a = Some c \<longrightarrow>
        (if sc_token_hash c \<noteq> old then dm_get (cr_inner (s3_credentials s')) a = Some c
         else \<forall>secret. with_secret (E a) (cr_keyring (s3_credentials s)) c = Inr secret \<longrightarrow> length secret < 2 ^ 32 \<longrightarrow>
           (\<exists>c'. dm_get (cr_inner (s3_credentials s')) a = Some c' \<and> sc_token_hash c' = new
              \<and> sc_username c' = sc_username c \<and> sc_expires_at c' = sc_expires_at c
              \<and> with_secret (E a) (cr_keyring (s3_credentials s')) c' = Inr secret)))
    \<and> creds_for_session (s3_credentials s') old = []
    \<and> (\<forall>i. dm_get (mr_inner (s3_uploads s')) i = map_option
        (\<lambda>u. if mu_token_hash u = old then u\<lparr>mu_token_hash := new\<rparr> else u) (dm_get (mr_inner (s3_uploads s)) i))
    \<and> mr_heap (s3_uploads s') = mr_heap (s3_uploads s)"
proof -
  let ?cs = "s3_credentials s"
  have dm: "dm_inv (cr_inner ?cs)" using inv(1) by (simp add: creds_inv_def)
  note sc = session_creds [OF inv(1), where h = old]
  have g: "dm_inv (cr_inner (s3_credentials s'))" "cr_keyring (s3_credentials s') = cr_keyring ?cs"
    "\<And>a. dm_get (cr_inner (s3_credentials s')) a = (case dm_get (cr_inner ?cs) a of None \<Rightarrow> None
       | Some c \<Rightarrow> if sc_token_hash c \<noteq> old then Some c
           else (case reseal (E a) (cr_keyring ?cs) old new c of Inr sealed \<Rightarrow> Some (rebound c new sealed) | Inl e \<Rightarrow> None))"
    using rekey_fold_get [OF dm sc(1), of E old new 0] by (auto simp: s' rekey_s3_session_def rekey_credentials_def sc(2) split: option.splits)
  have "\<exists>c'. dm_get (cr_inner (s3_credentials s')) a = Some c' \<and> sc_token_hash c' = new \<and> sc_username c' = sc_username c
      \<and> sc_expires_at c' = sc_expires_at c \<and> with_secret (E a) (cr_keyring ?cs) c' = Inr secret"
    if row: "dm_get (cr_inner ?cs) a = Some c" "sc_token_hash c = old" "with_secret (E a) (cr_keyring ?cs) c = Inr secret"
      "length secret < 2 ^ 32" for a c secret
  proof -
    obtain sealed where "reseal (E a) (cr_keyring ?cs) old new c = Inr sealed"
      and "with_secret (E a) (cr_keyring ?cs) (rebound c new sealed) = Inr secret"
      using P by (blast intro: reseal_ok [of "E a", OF _ _ row(4,3,2)])
    then show ?thesis
      by (intro exI [of _ "rebound c new sealed"]) (simp add: g(3) row(1,2) rebound_def)
  qed
  moreover have "creds_for_session (s3_credentials s') old = []"
  proof -
    have "sc_token_hash c \<noteq> old" if "(a, c) \<in> set (cr_inner (s3_credentials s'))" for a c
      using that ne unfolding dm.iter_mem [OF g(1)] g(3) by (auto simp: rebound_def split: option.splits if_splits sum.splits)
    then show ?thesis by (auto simp: creds_for_session_def filter_empty_conv)
  qed
  moreover have "\<forall>i. dm_get (mr_inner (s3_uploads s')) i = map_option
        (\<lambda>u. if mu_token_hash u = old then u\<lparr>mu_token_hash := new\<rparr> else u) (dm_get (mr_inner (s3_uploads s)) i)"
    "mr_heap (s3_uploads s') = mr_heap (s3_uploads s)"
    using rekey_uploads_get [OF inv(2)] by (simp_all add: s' rekey_s3_session_def rekey_uploads_def Let_def)
  moreover have "dm_get (cr_inner (s3_credentials s')) a = Some c"
    if "dm_get (cr_inner ?cs) a = Some c" "sc_token_hash c \<noteq> old" for a c using that by (simp add: g(3))
  ultimately show ?thesis unfolding g(2) by (simp only:) auto
qed

definition sample_s3 :: s3_state where
  "sample_s3 = \<lparr>s3_credentials = fst (mint sample_env (replicate 17 0) [4, 5, 6]
       \<lparr>cr_inner = [], cr_keyring = [9], cr_max_per_session = 2\<rparr> [1] ''alice'' 9 8),
     s3_uploads = \<lparr>mr_inner = [], mr_max_per_session = 4, mr_heap = []\<rparr>\<rparr>"

lemma sample_s3_creds:
  "\<exists>c. cr_inner (s3_credentials sample_s3) = [(''Y2QAAAAAAAAAAAAAAAAA'', c)] \<and> sc_access_key_id c = ''Y2QAAAAAAAAAAAAAAAAA''
     \<and> sc_token_hash c = [1] \<and> cr_keyring (s3_credentials sample_s3) = [9]
     \<and> with_secret sample_env [9] c = Inr (as_bytes (b64_encode plain_prims [4, 5, 6]))"
  by (simp add: sample_s3_def mint_def Let_def generate_access_key_id_def AKID_ALPHABET_def generate_secret_bytes_def
      seal_s3_secret_def MemoryKey_seal_def sample_env_def backend_def plain_prims_def numeral_eq_Suc with_secret_def
      open_s3_secret_def MemoryKey_open_def creds_for_session_def)

end
