(* ===== verification/S3_Auth.thy ===== *)
theory S3_Auth
  imports S3_Sigv4 S3_State
begin

text \<open>
  The S3 request extractor and the session leash, \<open>crates/y2qd/src/s3/auth.rs\<close>, and the leashed streams of
  \<open>s3/body/download.rs\<close> and \<open>s3/body/upload.rs\<close>.

  The state of a request is the gateway's: the S3 credentials and the session table. Clock readings are
  arguments. \<open>same\<close> stands for \<open>Arc::ptr_eq\<close> of two session rows; one row that is still the same object has
  its immutable fields unchanged (\<open>same_row\<close>).
\<close>

subsection \<open>Requests\<close>

record s3_config =
  sg_region :: string
  sg_max_clock_skew_secs :: u64
  sg_session_recheck_bytes :: u64
  sg_session_recheck_interval_secs :: u64

record chunk_signing =
  cg_signing_key :: bytes
  cg_scope :: string
  cg_amz_date :: string
  cg_seed_signature :: string

record session_leash =
  sl_token_hash :: bytes
  sl_session :: session_info
  sl_bytes_since_check :: u64
  sl_last_check :: time
  sl_recheck_bytes :: u64
  sl_recheck_interval :: time

record s3_authenticated =
  sa_auth :: authenticated
  sa_leash :: session_leash
  sa_chunk_signing :: "chunk_signing option"
  sa_payload :: payload_hash

record http_request =
  rq_method :: string
  rq_path :: string
  rq_query :: string
  rq_headers :: header_map
  rq_original_uri :: "string option"
  rq_request_id :: string

record gateway =
  gw_s3 :: s3_state
  gw_sessions :: session_store

text \<open>The readings of the clocks in one request: the wall clock at the skew and expiry checks and inside the session
  lookup, and the monotonic clock.\<close>

record clock =
  ck_now :: time
  ck_lookup :: time
  ck_instant :: time

text \<open>\<open>str::get(0..n)\<close>: \<open>None\<close> when the string is shorter or the cut is inside a character.\<close>

definition str_prefix :: "nat \<Rightarrow> string \<Rightarrow> string option" where
  "str_prefix n s =
     (if n = length s \<or> n < length s \<and> \<not> is_cont (byte_of_char (s ! n)) then Some (take n s) else None)"

definition skew_secs :: "time \<Rightarrow> time \<Rightarrow> nat" where
  "skew_secs now t = (if t \<le> now then (now - t) div NANOS else (t - now) div NANOS)"

definition drop_credential :: "string \<Rightarrow> gateway \<Rightarrow> gateway" where
  "drop_credential akid g = g\<lparr>gw_s3 := gw_s3 g\<lparr>s3_credentials := fst (cred_remove (s3_credentials (gw_s3 g)) akid)\<rparr>\<rparr>"

definition check_scope :: "s3_config \<Rightarrow> signed_request \<Rightarrow> s3_error + unit" where
  "check_scope cfg parsed =
     (let scope = sr_scope parsed in
      if cs_service scope \<noteq> ''s3''
      then Inl (authorization_header_malformed (''credential scope service must be '' @ CHR 0x22 # ''s3'' @ [CHR 0x22]))
      else if cs_region scope \<noteq> sg_region cfg
      then Inl (authorization_header_malformed (''credential scope region '' @ CHR 0x22 # cs_region scope @ CHR 0x22 #
             '' does not match this endpoint'' @ CHR 0x27 # ''s region '' @ CHR 0x22 # sg_region cfg @ [CHR 0x22]))
      else if cs_date scope \<noteq> (case str_prefix 8 (sr_amz_date parsed) of Some d \<Rightarrow> d | None \<Rightarrow> [])
      then Inl (authorization_header_malformed ''credential scope date does not match X-Amz-Date'')
      else Inr ())"

definition check_skew :: "s3_config \<Rightarrow> clock \<Rightarrow> signed_request \<Rightarrow> s3_error + time" where
  "check_skew cfg C parsed =
     rbind (map_err (\<lambda>_. authorization_header_malformed ''malformed X-Amz-Date'') (parse_amz_date (sr_amz_date parsed))) (\<lambda>request_time.
     if sr_presigned_expires parsed = None \<and> unat (sg_max_clock_skew_secs cfg) < skew_secs (ck_now C) request_time
     then Inl request_time_too_skewed else Inr request_time)"

text \<open>Steps 4 to 7: the live credential and the live session behind it. A credential that is expired or whose
  session is gone is dropped.\<close>

definition live_session :: "clock \<Rightarrow> bool \<Rightarrow> string \<Rightarrow> (gateway, s3_error, s3_credential \<times> authenticated) comp" where
  "live_session C enforce akid g =
     (case cred_get (s3_credentials (gw_s3 g)) akid of
        None \<Rightarrow> (g, Inl invalid_access_key_id)
      | Some cred \<Rightarrow>
        if cred_expired cred (ck_now C) then (drop_credential akid g, Inl (expired_token ''credential has expired''))
        else case authenticate_token_hash (ck_lookup C) enforce (gw_sessions g) (sc_token_hash cred) of
          (sessions, Inr auth) \<Rightarrow> (g\<lparr>gw_sessions := sessions\<rparr>, Inr (cred, auth))
        | (sessions, Inl e) \<Rightarrow>
          ((if e \<noteq> AccountDisabled then drop_credential akid (g\<lparr>gw_sessions := sessions\<rparr>) else g\<lparr>gw_sessions := sessions\<rparr>),
           Inl (from_auth_error e)))"

definition check_presigned :: "clock \<Rightarrow> signed_request \<Rightarrow> time \<Rightarrow> s3_credential \<Rightarrow> session_info \<Rightarrow> s3_error + unit" where
  "check_presigned C parsed request_time cred session =
     (case sr_presigned_expires parsed of
        None \<Rightarrow> Inr ()
      | Some expires_secs \<Rightarrow>
        if \<not> (1 \<le> unat expires_secs \<and> unat expires_secs \<le> 604800)
        then Inl (authorization_header_malformed ''X-Amz-Expires must be between 1 and 604800 seconds'')
        else let url_expiry = request_time + unat expires_secs * NANOS;
                 effective = min (min url_expiry (sc_expires_at cred)) (si_expires_at session) in
             if effective \<le> ck_now C then Inl (access_denied ''Request has expired'') else Inr ())"

definition request_string_to_sign :: "sig_env \<Rightarrow> http_request \<Rightarrow> signed_request \<Rightarrow> string" where
  "request_string_to_sign G req parsed =
     (let host = (case header_str G (rq_headers req) ''host'' of Some h \<Rightarrow> h | None \<Rightarrow> []);
          path = (case rq_original_uri req of Some p \<Rightarrow> p | None \<Rightarrow> rq_path req);
          (headers_block, signed_headers_joined) = canonical_headers G (rq_headers req) host (sr_signed_headers parsed);
          request = canonical_request (rq_method req) (canonical_uri path) (canonical_query_string (rq_query req))
            headers_block signed_headers_joined (payload_hash_token (sr_payload parsed))
      in string_to_sign G (sr_amz_date parsed) (scope_string (sr_scope parsed)) request)"

definition build_authenticated :: "s3_config \<Rightarrow> clock \<Rightarrow> signed_request \<Rightarrow> s3_credential \<Rightarrow> authenticated \<Rightarrow> bytes \<Rightarrow> s3_authenticated" where
  "build_authenticated cfg C parsed cred auth key =
     \<lparr>sa_auth = auth,
      sa_leash = \<lparr>sl_token_hash = sc_token_hash cred, sl_session = au_session auth, sl_bytes_since_check = 0,
                  sl_last_check = ck_instant C, sl_recheck_bytes = sg_session_recheck_bytes cfg,
                  sl_recheck_interval = unat (sg_session_recheck_interval_secs cfg) * NANOS\<rparr>,
      sa_chunk_signing = (case sr_payload parsed of
          StreamingSigned _ \<Rightarrow> Some \<lparr>cg_signing_key = key, cg_scope = scope_string (sr_scope parsed),
                                    cg_amz_date = sr_amz_date parsed, cg_seed_signature = sr_signature parsed\<rparr>
        | _ \<Rightarrow> None),
      sa_payload = sr_payload parsed\<rparr>"

definition verify :: "sig_env \<Rightarrow> sec_env \<Rightarrow> s3_config \<Rightarrow> bool \<Rightarrow> clock \<Rightarrow> http_request \<Rightarrow> (gateway, s3_error, s3_authenticated) comp" where
  "verify G E cfg enforce C req =
     sbind (slift (map_err from_sigv4_error (parse_signed G (rq_query req) (rq_headers req)))) (\<lambda>parsed.
     sbind (slift (check_scope cfg parsed)) (\<lambda>_.
     sbind (slift (check_skew cfg C parsed)) (\<lambda>request_time.
     sbind (live_session C enforce (cs_access_key_id (sr_scope parsed))) (\<lambda>(cred, auth).
     sbind (slift (check_presigned C parsed request_time cred (au_session auth))) (\<lambda>_.
     sbind (sget (\<lambda>g. cr_keyring (s3_credentials (gw_s3 g)))) (\<lambda>keyring.
     sbind (slift (map_err from_auth_error (with_secret E keyring cred))) (\<lambda>secret.
     let scope = sr_scope parsed; key = signing_key G secret (cs_date scope) (cs_region scope) (cs_service scope) in
     if \<not> signatures_match (hex_hmac_sha256 G key (as_bytes (request_string_to_sign G req parsed))) (sr_signature parsed)
     then sfail signature_does_not_match
     else sret (build_authenticated cfg C parsed cred auth key))))))))"

text \<open>\<open>FromRequest\<close>: the shared state may not be registered with the application.\<close>

definition from_request :: "sig_env \<Rightarrow> sec_env \<Rightarrow> s3_config \<Rightarrow> bool \<Rightarrow> clock \<Rightarrow> http_request \<Rightarrow> gateway option
    \<Rightarrow> gateway option \<times> (s3_error + s3_authenticated)" where
  "from_request G E cfg enforce C req app =
     (case app of
        None \<Rightarrow> (None, Inl (with_request_id internal_error (rq_request_id req)))
      | Some g \<Rightarrow> (case verify G E cfg enforce C req g of
          (g, r) \<Rightarrow> (Some g, map_err (\<lambda>e. with_request_id e (rq_request_id req)) r)))"

definition verify_buffered_payload :: "sig_env \<Rightarrow> payload_hash \<Rightarrow> bytes \<Rightarrow> s3_error + unit" where
  "verify_buffered_payload G payload body =
     (case payload of
        Exact expected \<Rightarrow> if sha256_hex G body \<noteq> expected then Inl x_amz_content_sha256_mismatch else Inr ()
      | Unsigned \<Rightarrow> Inr ()
      | _ \<Rightarrow> Inl (invalid_request ''aws-chunked payload encoding is not supported for this operation''))"

subsection \<open>The leash\<close>

record tick =
  tk_elapsed :: time \<comment> \<open>the monotonic clock when the interval is checked\<close>
  tk_now :: time \<comment> \<open>the wall clock in the lookup\<close>
  tk_reset :: time \<comment> \<open>the monotonic clock when the check is recorded\<close>

definition leash_force :: "(session_info \<Rightarrow> session_info \<Rightarrow> bool) \<Rightarrow> tick \<Rightarrow> session_leash \<times> session_store
    \<Rightarrow> (session_leash \<times> session_store) \<times> (s3_error + unit)" where
  "leash_force same t = (\<lambda>(l, st).
     case get_active (tk_now t) st (sl_token_hash l) of
       (st, Inl _) \<Rightarrow> ((l, st), Inl (expired_token ''session expired during transfer''))
     | (st, Inr current) \<Rightarrow>
       if \<not> same current (sl_session l) then ((l, st), Inl (expired_token ''session changed during transfer''))
       else ((l\<lparr>sl_last_check := tk_reset t\<rparr>, st), Inr ()))"

definition leash_note :: "(session_info \<Rightarrow> session_info \<Rightarrow> bool) \<Rightarrow> tick \<Rightarrow> u64 \<Rightarrow> session_leash \<times> session_store
    \<Rightarrow> (session_leash \<times> session_store) \<times> (s3_error + unit)" where
  "leash_note same t n = (\<lambda>(l, st).
     let l = l\<lparr>sl_bytes_since_check := sl_bytes_since_check l + n\<rparr> in
     if sl_recheck_bytes l \<le> sl_bytes_since_check l \<or> sl_recheck_interval l \<le> tk_elapsed t - sl_last_check l
     then (case leash_force same t (l, st) of
             (ls, Inl e) \<Rightarrow> (ls, Inl e)
           | ((l, st), Inr _) \<Rightarrow> ((l\<lparr>sl_bytes_since_check := 0\<rparr>, st), Inr ()))
     else ((l, st), Inr ()))"

definition checkpoint :: "(session_info \<Rightarrow> session_info \<Rightarrow> bool) \<Rightarrow> tick \<Rightarrow> session_leash \<times> session_store
    \<Rightarrow> (session_leash \<times> session_store) \<times> (s3_error + unit)" where
  "checkpoint same t = leash_force same t"

text \<open>
  A fallible stream that is read to its end: the chunks it yields and the error that stops it, if any. The
  leashed streams see a session table that other requests change between the chunks; \<open>obs\<close> lists what
  each chunk finds. \<open>leashed\<close> returns the chunks that get through, the leash, and the refusal.
\<close>

type_synonym byte_stream = "bytes list \<times> error option"

fun leashed :: "(session_info \<Rightarrow> session_info \<Rightarrow> bool) \<Rightarrow> session_leash \<Rightarrow> (tick \<times> session_store) list \<Rightarrow> bytes list
    \<Rightarrow> bytes list \<times> session_leash \<times> s3_error option" where
  "leashed same l ((t, st) # obs) (chunk # chunks) =
     (case leash_note same t (of_nat (length chunk)) (l, st) of
        ((l, _), Inl e) \<Rightarrow> ([], l, Some e)
      | ((l, _), Inr _) \<Rightarrow> (case leashed same l obs chunks of (out, l, r) \<Rightarrow> (chunk # out, l, r)))"
| "leashed same l obs chunks = ([], l, None)"

text \<open>A download stops with the leash's own error; an upload stops with a placeholder, and the error is left in the
  sideband.\<close>

definition leashed_download :: "(error \<Rightarrow> string) \<Rightarrow> (session_info \<Rightarrow> session_info \<Rightarrow> bool) \<Rightarrow> session_leash
    \<Rightarrow> (tick \<times> session_store) list \<Rightarrow> byte_stream \<Rightarrow> bytes list \<times> s3_error option" where
  "leashed_download display same l obs s =
     (case leashed same l obs (fst s) of
        (out, _, Some e) \<Rightarrow> (out, Some e)
      | (out, _, None) \<Rightarrow> (out, map_option (from_app_error display) (snd s)))"

definition sideband_abort :: "string \<Rightarrow> error" where
  "sideband_abort bucket = Forbidden bucket"

definition leashed_upload :: "(session_info \<Rightarrow> session_info \<Rightarrow> bool) \<Rightarrow> session_leash \<Rightarrow> (tick \<times> session_store) list
    \<Rightarrow> string \<Rightarrow> byte_stream \<times> s3_error option \<Rightarrow> byte_stream \<times> s3_error option" where
  "leashed_upload same l obs bucket = (\<lambda>((chunks, err), sideband).
     case leashed same l obs chunks of
       (out, _, Some e) \<Rightarrow> ((out, Some (sideband_abort bucket)), Some e)
     | (out, _, None) \<Rightarrow> ((out, err), sideband))"

end
