(* ===== verification/Aws_Chunked.thy ===== *)
theory Aws_Chunked
  imports S3_Auth
begin

text \<open>
  The upload body of the S3 gateway, \<open>crates/y2qd/src/s3/body/upload.rs\<close>: decoding of \<open>aws-chunked\<close> framing
  with its chain of chunk signatures and its trailer, and verification of whole-body digests.

  A byte stream is consumed until its first error, so the incoming body is the list of its items, and what
  comes out is the list of the decoded chunks and the error that ends them, if any. A running digest is the
  bytes absorbed so far. The precise reason of an abort is left in the sideband.
\<close>

subsection \<open>Digests of the whole body\<close>

datatype checksum_algo = Crc32 | Sha256

datatype checksum_decl = Supported checksum_algo | Unsupported | NotAChecksum

definition classify :: "string \<Rightarrow> checksum_decl" where
  "classify name =
     (let n = lowercase name in
      if n = ''crc32'' then Supported Crc32 else if n = ''sha256'' then Supported Sha256
      else if n \<in> {''crc32c'', ''crc64nvme'', ''sha1''} then Unsupported else NotAChecksum)"

record checksum_hasher =
  ch_algo :: checksum_algo
  ch_data :: bytes

definition ChecksumHasher_new :: "checksum_algo \<Rightarrow> checksum_hasher" where
  "ChecksumHasher_new algo = \<lparr>ch_algo = algo, ch_data = []\<rparr>"

definition hasher_update :: "checksum_hasher \<Rightarrow> bytes \<Rightarrow> checksum_hasher" where
  "hasher_update h data = h\<lparr>ch_data := ch_data h @ data\<rparr>"

definition hasher_finish_b64 :: "sig_env \<Rightarrow> crypto_prims \<Rightarrow> checksum_hasher \<Rightarrow> string" where
  "hasher_finish_b64 G P h = b64_encode P
     (case ch_algo h of Crc32 \<Rightarrow> to_be_u32 (crc32 P (ch_data h)) | Sha256 \<Rightarrow> sv_sha256 G (ch_data h))"

datatype eof_verifier = PayloadSha256 string | ChecksumHeader checksum_algo string

fun verifier_finish :: "sig_env \<Rightarrow> crypto_prims \<Rightarrow> eof_verifier \<Rightarrow> bytes \<Rightarrow> s3_error + unit" where
  "verifier_finish G P (PayloadSha256 expected_hex) body =
     (if sha256_hex G body \<noteq> expected_hex then Inl x_amz_content_sha256_mismatch else Inr ())"
| "verifier_finish G P (ChecksumHeader algo expected_b64) body =
     (let actual = hasher_finish_b64 G P \<lparr>ch_algo = algo, ch_data = body\<rparr> in
      if actual \<noteq> expected_b64
      then Inl (invalid_request (''checksum mismatch: computed '' @ actual @ '', declared '' @ expected_b64)) else Inr ())"

text \<open>Every chunk is forwarded; the verdict comes at the end of the stream.\<close>

definition verify_at_eof :: "sig_env \<Rightarrow> crypto_prims \<Rightarrow> eof_verifier \<Rightarrow> string \<Rightarrow> byte_stream \<times> s3_error option
    \<Rightarrow> byte_stream \<times> s3_error option" where
  "verify_at_eof G P v bucket = (\<lambda>((chunks, err), sideband).
     case err of
       Some e \<Rightarrow> ((chunks, Some e), sideband)
     | None \<Rightarrow> (case verifier_finish G P v (concat chunks) of
         Inl e \<Rightarrow> ((chunks, Some (sideband_abort bucket)), Some e)
       | Inr _ \<Rightarrow> ((chunks, None), sideband)))"

subsection \<open>Framing\<close>

definition MAX_CHUNK_HEADER_LINE_BYTES :: nat where "MAX_CHUNK_HEADER_LINE_BYTES = 1024"

record chunk_signing_state =
  kg_signing_key :: bytes
  kg_scope :: string
  kg_amz_date :: string
  kg_prev_signature :: string

record chunked_options =
  ko_chunk_signing :: "chunk_signing option"
  ko_trailer_checksum :: "checksum_algo option"
  ko_max_frame_bytes :: u64
  ko_expect_trailer :: bool
  ko_bucket :: string

record chunked_state =
  kd_inner :: "(error + bytes) list"
  kd_buf :: bytes
  kd_inner_done :: bool
  kd_signing :: "chunk_signing_state option"
  kd_expect_trailer :: bool
  kd_max_frame_bytes :: u64
  kd_trailer_checksum :: "checksum_algo option"
  kd_checksum_hasher :: "checksum_hasher option"
  kd_sideband :: "s3_error option"
  kd_bucket :: string
  kd_finished :: bool

type_synonym 'a chunk_comp = "(chunked_state, error, 'a) comp"

fun find_crlf :: "bytes \<Rightarrow> nat option" where
  "find_crlf (a # b # bs) = (if a = 13 \<and> b = 10 then Some 0 else map_option Suc (find_crlf (b # bs)))"
| "find_crlf bs = None"

definition framing_abort :: "s3_error \<Rightarrow> 'a chunk_comp" where
  "framing_abort e s = (s\<lparr>kd_sideband := Some e\<rparr>, Inl (sideband_abort (kd_bucket s)))"

text \<open>One more item of the body into the buffer.\<close>

definition pull :: "unit chunk_comp" where
  "pull s =
     (case kd_inner s of
        Inr chunk # items \<Rightarrow> (s\<lparr>kd_inner := items, kd_buf := kd_buf s @ chunk\<rparr>, Inr ())
      | Inl e # items \<Rightarrow> (s\<lparr>kd_inner := items\<rparr>, Inl e)
      | [] \<Rightarrow> (s\<lparr>kd_inner_done := True\<rparr>, Inr ()))"

definition pulls_left :: "chunked_state \<Rightarrow> nat" where
  "pulls_left s = 2 * length (kd_inner s) + (if kd_inner_done s then 0 else 1)"

lemma pull_decreases: "pull s = (s', r) \<Longrightarrow> \<not> kd_inner_done s \<Longrightarrow> pulls_left s' < pulls_left s"
  by (auto simp: pull_def pulls_left_def split: list.splits sum.splits)

function read_line :: "string chunk_comp" where
  "read_line s =
     (case find_crlf (kd_buf s) of
        Some pos \<Rightarrow>
          (let line = take pos (kd_buf s); s = s\<lparr>kd_buf := drop (pos + 2) (kd_buf s)\<rparr> in
           case from_utf8 line of
             Some l \<Rightarrow> (s, Inr l)
           | None \<Rightarrow> framing_abort (invalid_argument ''malformed aws-chunked framing'') s)
      | None \<Rightarrow>
          if MAX_CHUNK_HEADER_LINE_BYTES < length (kd_buf s)
          then framing_abort (invalid_argument ''aws-chunked frame header too long'') s
          else if kd_inner_done s then framing_abort (invalid_argument ''truncated aws-chunked body'') s
          else (case pull s of (s', Inl e) \<Rightarrow> (s', Inl e) | (s', Inr _) \<Rightarrow> read_line s'))"
  by pat_completeness auto
termination
proof (relation "measure pulls_left", goal_cases)
  case (2 s s' r u)
  then show ?case using pull_decreases [of s s' r] by simp
qed simp

declare read_line.simps [simp del]

function read_exact :: "nat \<Rightarrow> bytes chunk_comp" where
  "read_exact n s =
     (if length (kd_buf s) < n then
        (if kd_inner_done s then framing_abort (invalid_argument ''truncated aws-chunked body'') s
         else (case pull s of (s', Inl e) \<Rightarrow> (s', Inl e) | (s', Inr _) \<Rightarrow> read_exact n s'))
      else (s\<lparr>kd_buf := drop n (kd_buf s)\<rparr>, Inr (take n (kd_buf s))))"
  by pat_completeness auto
termination
proof (relation "measure (\<lambda>(n, s). pulls_left s)", goal_cases)
  case (2 n s s' r u)
  then show ?case using pull_decreases [of s s' r] by simp
qed simp

declare read_exact.simps [simp del]

subsection \<open>Signatures\<close>

definition verify_chunk_signature :: "sig_env \<Rightarrow> string option \<Rightarrow> string \<Rightarrow> unit chunk_comp" where
  "verify_chunk_signature G declared_sig payload_sha256_hex s =
     (case kd_signing s of
        None \<Rightarrow> (s, Inr ())
      | Some signing \<Rightarrow>
        (case declared_sig of
           None \<Rightarrow> framing_abort signature_does_not_match s
         | Some declared \<Rightarrow>
           let sts = chunk_string_to_sign (kg_amz_date signing) (kg_scope signing) (kg_prev_signature signing) payload_sha256_hex;
               computed = hex_hmac_sha256 G (kg_signing_key signing) (as_bytes sts) in
           if \<not> signatures_match computed declared then framing_abort signature_does_not_match s
           else (s\<lparr>kd_signing := Some (signing\<lparr>kg_prev_signature := declared\<rparr>)\<rparr>, Inr ())))"

text \<open>The trailer lines up to the blank one: their text, the trailer signature, and the values by name. The bytes
  of the body bound the number of lines.\<close>

definition bytes_left :: "chunked_state \<Rightarrow> nat" where
  "bytes_left s = length (kd_buf s) + sum_list (map (\<lambda>i. case i of Inr c \<Rightarrow> length c | Inl _ \<Rightarrow> 0) (kd_inner s))"

lemma pull_bytes: "pull s = (s', r) \<Longrightarrow> bytes_left s' \<le> bytes_left s"
  by (auto simp: pull_def bytes_left_def split: list.splits sum.splits)

lemma find_crlf_length: "find_crlf bs = Some pos \<Longrightarrow> pos + 2 \<le> length bs"
  by (induction bs arbitrary: pos rule: find_crlf.induct) (auto split: if_splits)

lemma framing_abort_bytes: "framing_abort e s = (s', r) \<Longrightarrow> bytes_left s' = bytes_left s"
  by (auto simp: framing_abort_def bytes_left_def)

lemma read_line_bytes: "read_line s = (s', r) \<Longrightarrow> bytes_left s' \<le> bytes_left s \<and> (is_ok r \<longrightarrow> bytes_left s' + 2 \<le> bytes_left s)"
proof (induction s rule: read_line.induct)
  case (1 s)
  show ?case
  proof (cases "find_crlf (kd_buf s)")
    case (Some pos)
    then show ?thesis
      using 1(2) find_crlf_length [OF Some]
      by (auto simp: read_line.simps [of s] Let_def bytes_left_def framing_abort_def split: option.splits)
  next
    case None
    show ?thesis
    proof (cases "MAX_CHUNK_HEADER_LINE_BYTES < length (kd_buf s) \<or> kd_inner_done s")
      case True
      then show ?thesis using 1(2) None by (auto simp: read_line.simps [of s] bytes_left_def framing_abort_def split: if_splits)
    next
      case False
      obtain t q where p: "pull s = (t, q)" by (cases "pull s")
      show ?thesis
      proof (cases q)
        case (Inl e)
        then show ?thesis using 1(2) None False p pull_bytes [OF p] by (auto simp: read_line.simps [of s])
      next
        case (Inr u)
        then have "read_line t = (s', r)" using 1(2) None False p by (simp add: read_line.simps [of s])
        then show ?thesis using 1(1) [OF None _ _ p [symmetric] Inr] False pull_bytes [OF p] by fastforce
      qed
    qed
  qed
qed

record trailer_acc =
  tr_content :: string
  tr_sig :: "string option"
  tr_values :: "(string, string) dmap"

definition trailer_line :: "string \<Rightarrow> trailer_acc \<Rightarrow> trailer_acc" where
  "trailer_line line acc =
     (case strip_prefix ''x-amz-trailer-signature:'' (lowercase line) of
        Some sig \<Rightarrow> acc\<lparr>tr_sig := Some (str_trim sig)\<rparr>
      | None \<Rightarrow>
        acc\<lparr>tr_content := tr_content acc @ line @ [CHR 0x0A],
            tr_values := (case split_once CHR '':'' line of
                Some (name, v) \<Rightarrow> dm_insert (lowercase (str_trim name)) (str_trim v) (tr_values acc)
              | None \<Rightarrow> tr_values acc)\<rparr>)"

function trailer_lines :: "trailer_acc \<Rightarrow> trailer_acc chunk_comp" where
  "trailer_lines acc s =
     (case read_line s of
        (s', Inl e) \<Rightarrow> (s', Inl e)
      | (s', Inr line) \<Rightarrow> if line = [] then (s', Inr acc) else trailer_lines (trailer_line line acc) s')"
  by pat_completeness auto
termination
proof (relation "measure (\<lambda>(acc, s). bytes_left s)", goal_cases)
  case (2 acc s s' r line)
  then show ?case using read_line_bytes [of s s' r] by auto
qed simp

declare trailer_lines.simps [simp del]

definition read_trailer :: "sig_env \<Rightarrow> (string, string) dmap chunk_comp" where
  "read_trailer G =
     sbind (trailer_lines \<lparr>tr_content = [], tr_sig = None, tr_values = []\<rparr>) (\<lambda>acc s.
     case kd_signing s of
       None \<Rightarrow> (s, Inr (tr_values acc))
     | Some signing \<Rightarrow>
       (case tr_sig acc of
          None \<Rightarrow> framing_abort signature_does_not_match s
        | Some sig \<Rightarrow>
          let sts = trailer_string_to_sign (kg_amz_date signing) (kg_scope signing) (kg_prev_signature signing)
                (sha256_hex G (as_bytes (tr_content acc)));
              computed = hex_hmac_sha256 G (kg_signing_key signing) (as_bytes sts) in
          if \<not> signatures_match computed sig then framing_abort signature_does_not_match s
          else (s\<lparr>kd_signing := Some (signing\<lparr>kg_prev_signature := sig\<rparr>)\<rparr>, Inr (tr_values acc))))"

subsection \<open>Frames\<close>

definition parse_frame_header :: "string \<Rightarrow> string \<times> string option" where
  "parse_frame_header line =
     (case split_once CHR '';'' line of
        Some (s, rest) \<Rightarrow> (s, strip_prefix ''chunk-signature='' (str_trim rest))
      | None \<Rightarrow> (line, None))"

definition checksum_trailer_name :: "checksum_algo \<Rightarrow> string" where
  "checksum_trailer_name algo = (case algo of Crc32 \<Rightarrow> ''x-amz-checksum-crc32'' | Sha256 \<Rightarrow> ''x-amz-checksum-sha256'')"

definition check_trailer_sum :: "sig_env \<Rightarrow> crypto_prims \<Rightarrow> (string, string) dmap \<Rightarrow> unit chunk_comp" where
  "check_trailer_sum G P trailer_values s =
     (case kd_trailer_checksum s of
        None \<Rightarrow> (s, Inr ())
      | Some algo \<Rightarrow>
        let declared = dm_get trailer_values (checksum_trailer_name algo);
            actual = map_option (hasher_finish_b64 G P) (kd_checksum_hasher s);
            s = s\<lparr>kd_checksum_hasher := None\<rparr> in
        if declared \<noteq> None \<and> declared = actual then (s, Inr ())
        else framing_abort (invalid_request ''trailer checksum mismatch or missing'') s)"

definition terminal_frame :: "sig_env \<Rightarrow> crypto_prims \<Rightarrow> string option \<Rightarrow> unit chunk_comp" where
  "terminal_frame G P declared_sig =
     sbind (verify_chunk_signature G declared_sig EMPTY_PAYLOAD_SHA256) (\<lambda>_.
     sbind (sget kd_expect_trailer) (\<lambda>expect_trailer.
     sbind (if expect_trailer then read_trailer G
            else sbind read_line (\<lambda>blank.
                 if blank \<noteq> [] then framing_abort (invalid_argument ''expected blank line after terminal chunk'')
                 else sret [])) (\<lambda>trailer_values.
     sbind (check_trailer_sum G P trailer_values) (\<lambda>_.
     supd (\<lambda>s. s\<lparr>kd_finished := True\<rparr>)))))"

definition data_frame :: "sig_env \<Rightarrow> nat \<Rightarrow> string option \<Rightarrow> bytes chunk_comp" where
  "data_frame G frame_size declared_sig =
     sbind (read_exact frame_size) (\<lambda>data.
     sbind (read_exact 2) (\<lambda>trailing.
     if trailing \<noteq> [13, 10] then framing_abort (invalid_argument ''malformed aws-chunked frame terminator'') else
     sbind (verify_chunk_signature G declared_sig (sha256_hex G data)) (\<lambda>_.
     sbind (supd (\<lambda>s. s\<lparr>kd_checksum_hasher := map_option (\<lambda>h. hasher_update h data) (kd_checksum_hasher s)\<rparr>)) (\<lambda>_.
     sret data))))"

definition next_chunked_frame :: "sig_env \<Rightarrow> crypto_prims \<Rightarrow> bytes option chunk_comp" where
  "next_chunked_frame G P =
     sbind (sget kd_finished) (\<lambda>finished.
     if finished then sret None else
     sbind read_line (\<lambda>header_line.
     case parse_frame_header header_line of (size_hex, declared_sig) \<Rightarrow>
     case from_str_radix (2 ^ 64) 16 (str_trim size_hex) of
       None \<Rightarrow> framing_abort (invalid_argument ''malformed aws-chunked frame size'')
     | Some frame_size \<Rightarrow>
       sbind (sget kd_max_frame_bytes) (\<lambda>max_frame_bytes.
       if unat max_frame_bytes < frame_size
       then framing_abort (invalid_request ''chunk exceeds the configured max_part_bytes'')
       else if frame_size = 0 then sbind (terminal_frame G P declared_sig) (\<lambda>_. sret None)
       else sbind (data_frame G frame_size declared_sig) (\<lambda>data. sret (Some data)))))"

lemma verify_chunk_signature_bytes: "verify_chunk_signature G d h s = (s', r) \<Longrightarrow> bytes_left s' = bytes_left s"
  by (auto simp: verify_chunk_signature_def framing_abort_def bytes_left_def Let_def split: option.splits if_splits)

lemma read_exact_bytes: "read_exact n s = (s', r) \<Longrightarrow> bytes_left s' \<le> bytes_left s"
proof (induction n s rule: read_exact.induct)
  case (1 n s)
  show ?case
  proof (cases "length (kd_buf s) < n \<and> \<not> kd_inner_done s")
    case False
    then show ?thesis
      using 1(2) by (auto simp: read_exact.simps [of n s] bytes_left_def framing_abort_def split: if_splits)
  next
    case True
    obtain t q where p: "pull s = (t, q)" by (cases "pull s")
    show ?thesis
    proof (cases q)
      case (Inl e)
      then show ?thesis using 1(2) True p pull_bytes [OF p] by (auto simp: read_exact.simps [of n s])
    next
      case (Inr u)
      then have "read_exact n t = (s', r)" using 1(2) True p by (simp add: read_exact.simps [of n s])
      then show ?thesis using 1(1) [OF _ _ p [symmetric] Inr] True pull_bytes [OF p] by fastforce
    qed
  qed
qed

lemma data_frame_bytes: "data_frame G n d s = (s', Inr x) \<Longrightarrow> bytes_left s' \<le> bytes_left s"
  unfolding data_frame_def sbind_Inr_iff
  by (auto simp: sbind_Inr_iff supd_def sret_def framing_abort_def bytes_left_def
      dest!: read_exact_bytes verify_chunk_signature_bytes split: if_splits)

text \<open>What a successful step did.\<close>

lemma next_chunked_frame_steps:
  assumes "next_chunked_frame G P s = (s', Inr r)" and "\<not> kd_finished s"
  obtains t line size_hex dsig n where "read_line s = (t, Inr line)" and "parse_frame_header line = (size_hex, dsig)"
    and "from_str_radix (2 ^ 64) 16 (str_trim size_hex) = Some n" and "n \<le> unat (kd_max_frame_bytes t)"
    and "(if n = 0 then r = None \<and> terminal_frame G P dsig t = (s', Inr ())
          else \<exists>d. r = Some d \<and> data_frame G n dsig t = (s', Inr d))"
proof -
  obtain t line where l: "read_line s = (t, Inr line)"
    and k: "(case parse_frame_header line of (size_hex, declared_sig) \<Rightarrow>
      case from_str_radix (2 ^ 64) 16 (str_trim size_hex) of
        None \<Rightarrow> framing_abort (invalid_argument ''malformed aws-chunked frame size'')
      | Some frame_size \<Rightarrow> sbind (sget kd_max_frame_bytes) (\<lambda>max_frame_bytes.
        if unat max_frame_bytes < frame_size
        then framing_abort (invalid_request ''chunk exceeds the configured max_part_bytes'')
        else if frame_size = 0 then sbind (terminal_frame G P declared_sig) (\<lambda>_. sret None)
        else sbind (data_frame G frame_size declared_sig) (\<lambda>data. sret (Some data)))) t = (s', Inr r)"
    using assms unfolding next_chunked_frame_def sbind_Inr_iff sget_def by (simp only: prod.inject sum.inject simp_thms if_False) (auto simp: sbind_Inr_iff)
  obtain size_hex dsig where p: "parse_frame_header line = (size_hex, dsig)" by (cases "parse_frame_header line")
  then obtain n where n: "from_str_radix (2 ^ 64) 16 (str_trim size_hex) = Some n"
    using k by (cases "from_str_radix (2 ^ 64) 16 (str_trim size_hex)") (simp_all add: framing_abort_def)
  have "n \<le> unat (kd_max_frame_bytes t)"
    using k p n by (cases "unat (kd_max_frame_bytes t) < n") (simp_all add: framing_abort_def sbind_def sget_def)
  then show ?thesis
    using that [OF l p n] k p n
    by (simp add: sbind_Inr_iff sget_def) (auto simp: sbind_Inr_iff sret_def split: if_splits)
qed

lemma next_chunked_frame_bytes: "next_chunked_frame G P s = (s', Inr (Some d)) \<Longrightarrow> bytes_left s' < bytes_left s"
proof -
  assume step: "next_chunked_frame G P s = (s', Inr (Some d))"
  then have "\<not> kd_finished s" by (auto simp: next_chunked_frame_def sbind_def sget_def sret_def)
  then show ?thesis
    using step by (elim next_chunked_frame_steps) (auto dest!: read_line_bytes data_frame_bytes split: if_splits)
qed

text \<open>\<open>try_unfold\<close>: frames until the first error or the terminal frame.\<close>

function decode_frames :: "sig_env \<Rightarrow> crypto_prims \<Rightarrow> chunked_state \<Rightarrow> byte_stream \<times> chunked_state" where
  "decode_frames G P s =
     (case next_chunked_frame G P s of
        (s', Inl e) \<Rightarrow> (([], Some e), s')
      | (s', Inr None) \<Rightarrow> (([], None), s')
      | (s', Inr (Some data)) \<Rightarrow> (case decode_frames G P s' of ((out, err), s'') \<Rightarrow> ((data # out, err), s'')))"
  by pat_completeness auto
termination
proof (relation "measure (\<lambda>(G, P, s). bytes_left s)", goal_cases)
  case (2 G P s s' r o' data)
  then show ?case using next_chunked_frame_bytes [of G P s s' data] by simp
qed simp

declare decode_frames.simps [simp del]

definition chunked_start :: "(error + bytes) list \<Rightarrow> s3_error option \<Rightarrow> chunked_options \<Rightarrow> chunked_state" where
  "chunked_start inner sideband options =
     \<lparr>kd_inner = inner, kd_buf = [], kd_inner_done = False,
      kd_signing = map_option (\<lambda>c. \<lparr>kg_signing_key = cg_signing_key c, kg_scope = cg_scope c, kg_amz_date = cg_amz_date c,
        kg_prev_signature = cg_seed_signature c\<rparr>) (ko_chunk_signing options),
      kd_expect_trailer = ko_expect_trailer options, kd_max_frame_bytes = ko_max_frame_bytes options,
      kd_trailer_checksum = ko_trailer_checksum options,
      kd_checksum_hasher = map_option ChecksumHasher_new (ko_trailer_checksum options),
      kd_sideband = sideband, kd_bucket = ko_bucket options, kd_finished = False\<rparr>"

definition decode_aws_chunked :: "sig_env \<Rightarrow> crypto_prims \<Rightarrow> (error + bytes) list \<Rightarrow> s3_error option \<Rightarrow> chunked_options
    \<Rightarrow> byte_stream \<times> s3_error option" where
  "decode_aws_chunked G P inner sideband options =
     (case decode_frames G P (chunked_start inner sideband options) of (out, s) \<Rightarrow> (out, kd_sideband s))"

subsection \<open>The body of an upload\<close>

text \<open>The errors of the HTTP library's request body, each with its text.\<close>

datatype payload_error = Incomplete string | EncodingCorrupted string | UnknownLength string | OtherPayloadError string

fun map_payload_read_error :: "string \<Rightarrow> string \<Rightarrow> payload_error \<Rightarrow> error" where
  "map_payload_read_error bucket key (OtherPayloadError message) = InternalError bucket key ''read body'' message"
| "map_payload_read_error bucket key (Incomplete message) = BadRequestBody bucket key message"
| "map_payload_read_error bucket key (EncodingCorrupted message) = BadRequestBody bucket key message"
| "map_payload_read_error bucket key (UnknownLength message) = BadRequestBody bucket key message"

fun stream_items :: "(error + bytes) list \<Rightarrow> byte_stream" where
  "stream_items [] = ([], None)"
| "stream_items (Inl e # items) = ([], Some e)"
| "stream_items (Inr c # items) = (case stream_items items of (out, err) \<Rightarrow> (c # out, err))"

fun header_checksums :: "sig_env \<Rightarrow> header_map \<Rightarrow> (string \<times> string) list \<Rightarrow> (checksum_algo \<times> string) option
    \<Rightarrow> s3_error + (checksum_algo \<times> string) option" where
  "header_checksums G headers [] acc = Inr acc"
| "header_checksums G headers ((header_name, algo_name) # names) acc =
     (case header_str G headers header_name of
        None \<Rightarrow> header_checksums G headers names acc
      | Some v \<Rightarrow> (case classify algo_name of
          Supported algo \<Rightarrow> header_checksums G headers names (Some (algo, v))
        | _ \<Rightarrow> Inl (invalid_request (''unsupported checksum algorithm '' @ algo_name @ ''; y2q supports CRC32 and SHA256''))))"

definition CHECKSUM_HEADERS :: "(string \<times> string) list" where
  "CHECKSUM_HEADERS =
     [(''x-amz-checksum-crc32'', ''crc32''), (''x-amz-checksum-sha256'', ''sha256''), (''x-amz-checksum-crc32c'', ''crc32c''),
      (''x-amz-checksum-crc64nvme'', ''crc64nvme''), (''x-amz-checksum-sha1'', ''sha1'')]"

fun trailer_names :: "string list \<Rightarrow> s3_error + checksum_algo option" where
  "trailer_names [] = Inr None"
| "trailer_names (name # names) =
     (case strip_prefix ''x-amz-checksum-'' (lowercase (str_trim name)) of
        None \<Rightarrow> trailer_names names
      | Some algo_name \<Rightarrow> (case classify algo_name of
          Supported algo \<Rightarrow> Inr (Some algo)
        | Unsupported \<Rightarrow> Inl (invalid_request (''unsupported checksum algorithm: '' @ algo_name))
        | NotAChecksum \<Rightarrow> trailer_names names))"

definition upload_stream :: "sig_env \<Rightarrow> crypto_prims \<Rightarrow> (session_info \<Rightarrow> session_info \<Rightarrow> bool) \<Rightarrow> (tick \<times> session_store) list
    \<Rightarrow> (payload_error + bytes) list \<Rightarrow> s3_authenticated \<Rightarrow> header_map \<Rightarrow> u64 \<Rightarrow> s3_error option \<Rightarrow> string \<Rightarrow> string
    \<Rightarrow> s3_error + byte_stream \<times> s3_error option" where
  "upload_stream G P same obs payload auth headers max_frame_bytes sideband bucket key =
     (let base = map (map_sum (map_payload_read_error bucket key) (\<lambda>c. c)) payload in
      rbind (header_checksums G headers CHECKSUM_HEADERS None) (\<lambda>header_checksum.
      rbind (case header_str G headers ''x-amz-trailer'' of
               None \<Rightarrow> Inr None | Some v \<Rightarrow> trailer_names (split_on CHR '','' v)) (\<lambda>trailer_checksum.
      let decoded = (case sa_payload auth of
            Exact hex \<Rightarrow> verify_at_eof G P (PayloadSha256 hex) bucket (stream_items base, sideband)
          | Unsigned \<Rightarrow> (stream_items base, sideband)
          | _ \<Rightarrow> decode_aws_chunked G P base sideband
              \<lparr>ko_chunk_signing = sa_chunk_signing auth, ko_trailer_checksum = trailer_checksum,
               ko_max_frame_bytes = max_frame_bytes, ko_expect_trailer = has_trailer (sa_payload auth), ko_bucket = bucket\<rparr>);
          checksummed = (case header_checksum of
            Some (algo, expected) \<Rightarrow> verify_at_eof G P (ChecksumHeader algo expected) bucket decoded
          | None \<Rightarrow> decoded)
      in Inr (leashed_upload same (sa_leash auth) obs bucket checksummed))))"

end
