(* ===== verification/Bucket_Keys.thy ===== *)
theory Bucket_Keys
  imports Session_Store
begin

text \<open>
  Bucket key material: sealed boxes to an identity key (\<open>crates/y2q-core/src/crypto/seal.rs\<close>), key wrapping
  (\<open>crypto/kdf.rs\<close>), and the per-bucket key versions with their grants (\<open>crates/y2qd/src/bucket_keys.rs\<close>).

  A grant holds one sealed box per credential slot: the authorized slots contain the bucket wrap key,
  the others 32 random bytes, so that only the holder of an identity key learns which it is. The
  random bytes an operation draws are the fields of \<open>bk_env\<close>; \<open>be_rand u i\<close> is what sealing slot
  \<open>i\<close> of user \<open>u\<close> draws (encapsulation randomness, nonce, decoy).
\<close>

subsection \<open>Sealed boxes and wrapped keys\<close>

definition SEAL_HKDF_INFO :: bytes where "SEAL_HKDF_INFO = as_bytes ''y2q/v3/seal''"

definition bucket_grant_aad :: "string \<Rightarrow> u32 \<Rightarrow> string \<Rightarrow> nat \<Rightarrow> bytes" where
  "bucket_grant_aad bucket epoch user slot =
     as_bytes ''y2q/v3/bucket-grant'' @ to_be_u32 (of_nat (length bucket)) @ as_bytes bucket @ to_be_u32 epoch
     @ to_be_u32 (of_nat (length user)) @ as_bytes user @ to_be_u32 (of_nat slot)"

definition bucket_sk_wrap_aad :: "string \<Rightarrow> u32 \<Rightarrow> bytes" where
  "bucket_sk_wrap_aad bucket epoch =
     as_bytes ''y2q/v3/bucket-sk'' @ to_be_u32 (of_nat (length bucket)) @ as_bytes bucket @ to_be_u32 epoch"

definition derive_seal_key :: "crypto_prims \<Rightarrow> bytes \<Rightarrow> bytes \<Rightarrow> crypto_error + bytes" where
  "derive_seal_key P ss kem_ct = ok_or (hkdf_sha256 P kem_ct ss SEAL_HKDF_INFO 32) (Aead ''hkdf expand'')"

definition seal_to :: "crypto_prims \<Rightarrow> bytes \<Rightarrow> bytes \<Rightarrow> bytes \<Rightarrow> bytes \<Rightarrow> bytes \<Rightarrow> crypto_error + sealed_key" where
  "seal_to P rnd nonce recipient_pk plaintext aad =
     rbind (PublicKey_from_bytes P recipient_pk) (\<lambda>pk.
     case encapsulate P pk rnd of (ss, kem_ct) \<Rightarrow>
     rbind (derive_seal_key P ss kem_ct) (\<lambda>key.
     rbind (ok_or (gcm_seal P key nonce aad plaintext) (Aead ''seal encrypt'')) (\<lambda>ct.
     Inr \<lparr>sk_kem_ct_b64 = b64_encode P kem_ct, sk_nonce_b64 = b64_encode P nonce, sk_ct_b64 = b64_encode P ct\<rparr>)))"

definition open_sealed :: "crypto_prims \<Rightarrow> bytes \<Rightarrow> sealed_key \<Rightarrow> bytes \<Rightarrow> crypto_error + bytes" where
  "open_sealed P recipient_sk sealed aad =
     rbind (ok_or (b64_decode P (sk_kem_ct_b64 sealed)) (KemDecode ''kem ciphertext'')) (\<lambda>kem_ct_bytes.
     rbind (ok_or (b64_decode P (sk_nonce_b64 sealed)) (KemDecode ''nonce'')) (\<lambda>nonce.
     rbind (ok_or (b64_decode P (sk_ct_b64 sealed)) (KemDecode ''ciphertext'')) (\<lambda>ct.
     if length nonce \<noteq> 12 then Inl (KemDecode ''nonce'') else
     rbind (SecretKey_from_bytes P recipient_sk) (\<lambda>sk.
     rbind (ciphertext_from_bytes kem_ct_bytes) (\<lambda>kem_ct.
     rbind (derive_seal_key P (decapsulate P kem_ct sk) kem_ct_bytes) (\<lambda>key.
     ok_or (gcm_open P key nonce aad ct) AuthFailed))))))"

fun seal_to_slots_from :: "crypto_prims \<Rightarrow> (nat \<Rightarrow> bytes \<times> bytes \<times> bytes) \<Rightarrow> bytes \<Rightarrow> nat \<Rightarrow> bytes \<Rightarrow> nat \<Rightarrow> string list
    \<Rightarrow> crypto_error + sealed_key list" where
  "seal_to_slots_from P rand secret real_idx aad i [] = Inr []"
| "seal_to_slots_from P rand secret real_idx aad i (pk_b64 # pks) =
     (case rand i of (rnd, nonce, padding) \<Rightarrow>
      rbind (ok_or (b64_decode P pk_b64) (KemDecode ''slot identity public key'')) (\<lambda>pk.
      rbind (seal_to P rnd nonce pk (if i = real_idx then secret else take (length secret) padding) aad) (\<lambda>sealed.
      rbind (seal_to_slots_from P rand secret real_idx aad (i + 1) pks) (\<lambda>out. Inr (sealed # out)))))"

definition seal_to_slots :: "crypto_prims \<Rightarrow> (nat \<Rightarrow> bytes \<times> bytes \<times> bytes) \<Rightarrow> bytes \<Rightarrow> string list \<Rightarrow> nat \<Rightarrow> bytes
    \<Rightarrow> crypto_error + sealed_key list" where
  "seal_to_slots P rand secret slot_identity_pks_b64 real_idx aad =
     seal_to_slots_from P rand secret real_idx aad 0 slot_identity_pks_b64"

definition wrap_with_key :: "crypto_prims \<Rightarrow> bytes \<Rightarrow> bytes \<Rightarrow> bytes \<Rightarrow> bytes \<Rightarrow> crypto_error + wrapped_sk" where
  "wrap_with_key P nonce payload key aad =
     rbind (ok_or (gcm_seal P key nonce aad payload) (Aead ''wrap encrypt'')) (\<lambda>ct.
     Inr \<lparr>ws_nonce = nonce, ws_ciphertext = ct\<rparr>)"

definition unwrap_with_key :: "crypto_prims \<Rightarrow> wrapped_sk \<Rightarrow> bytes \<Rightarrow> bytes \<Rightarrow> crypto_error + bytes" where
  "unwrap_with_key P wrapped key aad =
     ok_or (gcm_open P key (ws_nonce wrapped) aad (ws_ciphertext wrapped)) AuthFailed"

subsection \<open>Key versions and grants\<close>

definition MAX_RETAINED_EPOCHS :: nat where "MAX_RETAINED_EPOCHS = 8"

record grantee_slots =
  gs_identity_pks_b64 :: "string list"
  gs_authorized :: "bool list"

record bk_env =
  be_sec :: sec_env
  be_auth_display :: "auth_error \<Rightarrow> string"
  be_seed :: bytes
  be_bwk :: bytes
  be_wrap_nonce :: bytes
  be_rand :: "string \<Rightarrow> nat \<Rightarrow> bytes \<times> bytes \<times> bytes"

abbreviation be_prims :: "bk_env \<Rightarrow> crypto_prims" where
  "be_prims B \<equiv> en_prims (be_sec B)"

definition forbidden :: "string \<Rightarrow> error" where
  "forbidden bucket = Forbidden bucket"

definition crypto_err :: "bk_env \<Rightarrow> string \<Rightarrow> string \<Rightarrow> crypto_error \<Rightarrow> error" where
  "crypto_err B bucket operation e = InternalError bucket [] operation (en_display (be_sec B) e)"

definition crypto_decode_err :: "string \<Rightarrow> string \<Rightarrow> error" where
  "crypto_decode_err bucket what = InternalError bucket [] ''bucket-key-grant'' (''malformed '' @ what)"

definition auth_err :: "bk_env \<Rightarrow> string \<Rightarrow> string \<Rightarrow> auth_error \<Rightarrow> error" where
  "auth_err B bucket operation e = InternalError bucket [] operation (be_auth_display B e)"

fun seal_slots_from :: "bk_env \<Rightarrow> string \<Rightarrow> u32 \<Rightarrow> string \<Rightarrow> bytes \<Rightarrow> nat \<Rightarrow> (string \<times> bool) list
    \<Rightarrow> error + sealed_key list" where
  "seal_slots_from B bucket epoch username bwk slot [] = Inr []"
| "seal_slots_from B bucket epoch username bwk slot ((pk_b64, authorized) # rest) =
     (case be_rand B username slot of (rnd, nonce, decoy) \<Rightarrow>
      rbind (ok_or (b64_decode (be_prims B) pk_b64) (crypto_decode_err bucket ''identity public key'')) (\<lambda>identity_pk.
      rbind (map_err (crypto_err B bucket ''seal-grant'')
          (seal_to (be_prims B) rnd nonce identity_pk (if authorized then bwk else decoy)
             (bucket_grant_aad bucket epoch username slot))) (\<lambda>sealed.
      rbind (seal_slots_from B bucket epoch username bwk (slot + 1) rest) (\<lambda>out. Inr (sealed # out)))))"

definition seal_grant_slots :: "bk_env \<Rightarrow> string \<Rightarrow> u32 \<Rightarrow> string \<Rightarrow> grantee_slots \<Rightarrow> bytes
    \<Rightarrow> error + sealed_key list" where
  "seal_grant_slots B bucket epoch username slots bwk =
     (if length (gs_identity_pks_b64 slots) \<noteq> CREDENTIAL_SLOTS \<or> length (gs_authorized slots) \<noteq> CREDENTIAL_SLOTS
      then Inl (InternalError bucket [] ''bucket-key-grant'' (''expected '' @ show_nat CREDENTIAL_SLOTS
        @ '' credential slots for '' @ username @ '', found a mismatched count''))
      else seal_slots_from B bucket epoch username bwk 0 (zip (gs_identity_pks_b64 slots) (gs_authorized slots)))"

fun seal_grants :: "bk_env \<Rightarrow> string \<Rightarrow> u32 \<Rightarrow> bytes \<Rightarrow> (string \<times> grantee_slots) list
    \<Rightarrow> (string, sealed_key list) dmap \<Rightarrow> error + (string, sealed_key list) dmap" where
  "seal_grants B bucket epoch bwk [] grants = Inr grants"
| "seal_grants B bucket epoch bwk ((username, slots) # rest) grants =
     rbind (seal_grant_slots B bucket epoch username slots bwk) (\<lambda>sealed.
     seal_grants B bucket epoch bwk rest (dm_insert username sealed grants))"

definition new_bucket_key_version :: "bk_env \<Rightarrow> u32 \<Rightarrow> string \<Rightarrow> (string \<times> grantee_slots) list
    \<Rightarrow> error + (bucket_key_version \<times> bytes)" where
  "new_bucket_key_version B epoch bucket grantees =
     (case keypair (be_prims B) (be_seed B) of (pk, sk) \<Rightarrow>
      let bwk = be_bwk B in
      rbind (map_err (crypto_err B bucket ''new_bucket_key'')
        (wrap_with_key (be_prims B) (be_wrap_nonce B) sk bwk (bucket_sk_wrap_aad bucket epoch))) (\<lambda>sk_blob.
      rbind (seal_grants B bucket epoch bwk grantees []) (\<lambda>grants.
      Inr (\<lparr>kv_epoch = epoch, kv_public_key_b64 = b64_encode (be_prims B) pk, kv_sk_blob = sk_blob,
            kv_grants = grants\<rparr>, bwk))))"

text \<open>\<open>handlers/acl.rs\<close>: the users whose level implies read access, as an ordered set.\<close>

definition read_implying_grantees :: "(string, bucket_permission) dmap \<Rightarrow> string list" where
  "read_implying_grantees acl = sort (remdups (map fst (filter (\<lambda>(_, perm). perm \<noteq> WriteOnly) acl)))"

text \<open>An indexed assignment; out of range it panics.\<close>

definition index_set :: "nat \<Rightarrow> 'a \<Rightarrow> 'a list \<Rightarrow> 'a list option" where
  "index_set i v xs = (if i < length xs then Some (xs[i := v]) else None)"

type_synonym user_lookup = "string \<Rightarrow> crypto_error + user_record option"

text \<open>The loop over the ordered user names; \<open>None\<close> is the panic of an out-of-range slot index.\<close>

fun grantees_loop :: "bk_env \<Rightarrow> user_lookup \<Rightarrow> string \<Rightarrow> string \<Rightarrow> u8 \<Rightarrow> string list
    \<Rightarrow> (error + (string \<times> grantee_slots) list) option" where
  "grantees_loop B get_user bucket caller persona [] = Some (Inr [])"
| "grantees_loop B get_user bucket caller persona (u # us) =
     (case get_user u of
        Inl e \<Rightarrow> Some (Inl (crypto_err B bucket ''rotate_key'' e))
      | Inr None \<Rightarrow> grantees_loop B get_user bucket caller persona us
      | Inr (Some rec) \<Rightarrow>
        Option.bind (index_set (unat (if u = caller then persona else ur_primary_slot rec)) True
            (replicate CREDENTIAL_SLOTS False)) (\<lambda>authorized.
        map_option (\<lambda>r. rbind r (\<lambda>gs. Inr ((u, \<lparr>gs_identity_pks_b64 = map cs_identity_pk_b64 (ur_slots rec),
             gs_authorized = authorized\<rparr>) # gs)))
          (grantees_loop B get_user bucket caller persona us)))"

definition current_grantees :: "bk_env \<Rightarrow> user_lookup \<Rightarrow> bucket_config \<Rightarrow> string \<Rightarrow> string \<Rightarrow> u8
    \<Rightarrow> (error + (string \<times> grantee_slots) list) option" where
  "current_grantees B get_user config bucket caller_username caller_persona =
     grantees_loop B get_user bucket caller_username caller_persona
       (sort (remdups (caller_username # (case bc_owner config of Some o' \<Rightarrow> [o'] | None \<Rightarrow> [])
          @ read_implying_grantees (bc_acl config))))"

definition put_grant_slot :: "bk_env \<Rightarrow> bucket_key_version \<Rightarrow> string \<Rightarrow> string \<Rightarrow> grantee_slots \<Rightarrow> bytes
    \<Rightarrow> error + bucket_key_version" where
  "put_grant_slot B kv bucket username slots bwk =
     rbind (seal_grant_slots B bucket (kv_epoch kv) username slots bwk) (\<lambda>sealed.
     Inr (kv\<lparr>kv_grants := dm_insert username sealed (kv_grants kv)\<rparr>))"

definition find_epoch :: "bucket_config \<Rightarrow> string \<Rightarrow> u32 \<Rightarrow> error + bucket_key_version" where
  "find_epoch config bucket epoch = ok_or (find (\<lambda>k. kv_epoch k = epoch) (bc_keys config)) (forbidden bucket)"

definition open_bwk :: "bk_env \<Rightarrow> bucket_config \<Rightarrow> string \<Rightarrow> u32 \<Rightarrow> string \<Rightarrow> nat \<Rightarrow> bytes \<Rightarrow> error + bytes" where
  "open_bwk B config bucket epoch username slot identity_sk =
     rbind (find_epoch config bucket epoch) (\<lambda>kv.
     rbind (ok_or (dm_get (kv_grants kv) username) (forbidden bucket)) (\<lambda>sealed_slots.
     if length sealed_slots \<noteq> CREDENTIAL_SLOTS
     then Inl (InternalError bucket [] ''bucket-key-grant'' (''expected '' @ show_nat CREDENTIAL_SLOTS
       @ '' credential slots for '' @ username @ '', found '' @ show_nat (length sealed_slots)))
     else if length sealed_slots \<le> slot then Inl (forbidden bucket) else
     rbind (map_err (\<lambda>_. forbidden bucket) (open_sealed (be_prims B) identity_sk (sealed_slots ! slot)
       (bucket_grant_aad bucket epoch username slot))) (\<lambda>bwk.
     if length bwk = 32 then Inr bwk else Inl (forbidden bucket))))"

definition open_verified_bwk :: "bk_env \<Rightarrow> bucket_config \<Rightarrow> string \<Rightarrow> u32 \<Rightarrow> string \<Rightarrow> nat \<Rightarrow> bytes \<Rightarrow> error + bytes" where
  "open_verified_bwk B config bucket epoch username slot identity_sk =
     rbind (find_epoch config bucket epoch) (\<lambda>kv.
     rbind (open_bwk B config bucket epoch username slot identity_sk) (\<lambda>bwk.
     rbind (map_err (\<lambda>_. forbidden bucket)
       (unwrap_with_key (be_prims B) (kv_sk_blob kv) bwk (bucket_sk_wrap_aad bucket epoch))) (\<lambda>_. Inr bwk)))"

definition read_key :: "bk_env \<Rightarrow> bucket_config \<Rightarrow> string \<Rightarrow> u32 \<Rightarrow> string \<Rightarrow> nat \<Rightarrow> bytes \<Rightarrow> error + bytes" where
  "read_key B config bucket epoch username slot identity_sk =
     rbind (find_epoch config bucket epoch) (\<lambda>kv.
     rbind (open_bwk B config bucket epoch username slot identity_sk) (\<lambda>bwk.
     rbind (map_err (\<lambda>_. forbidden bucket)
       (unwrap_with_key (be_prims B) (kv_sk_blob kv) bwk (bucket_sk_wrap_aad bucket epoch))) (\<lambda>sk_bytes.
     case en_mem (be_sec B) of Some e \<Rightarrow> Inl (crypto_err B bucket ''bucket-key-guard'' (SecMem e))
     | None \<Rightarrow> Inr sk_bytes)))"

definition current_key :: "bucket_config \<Rightarrow> bucket_key_version option" where
  "current_key config = (if bc_keys config = [] then None else Some (last (bc_keys config)))"

definition resolve_read_key :: "bk_env \<Rightarrow> session_info \<Rightarrow> bucket_config \<Rightarrow> string \<Rightarrow> u32
    \<Rightarrow> session_info \<times> (error + bytes)" where
  "resolve_read_key B session config bucket epoch =
     (case cached_bucket_key (be_sec B) session bucket epoch of
        Some cached \<Rightarrow> (session, map_err (auth_err B bucket ''bucket-key-cache'') cached)
      | None \<Rightarrow>
        (case open_identity_sk (be_sec B) session of
           Inl e \<Rightarrow> (session, Inl (auth_err B bucket ''resolve-read-key'' e))
         | Inr identity \<Rightarrow>
           (case read_key B config bucket epoch (si_username session) (unat (si_persona session)) identity of
              Inl e \<Rightarrow> (session, Inl e)
            | Inr sk \<Rightarrow>
              (case cache_bucket_key (be_sec B) session bucket epoch sk of
                 Inl e \<Rightarrow> (session, Inl (auth_err B bucket ''bucket-key-cache'' e))
               | Inr session' \<Rightarrow> (session', Inr sk)))))"

definition is_visible :: "bk_env \<Rightarrow> session_info \<Rightarrow> bucket_config \<Rightarrow> string \<Rightarrow> session_info \<times> bool" where
  "is_visible B session config bucket =
     (case current_key config of
        Some kv \<Rightarrow> (case resolve_read_key B session config bucket (kv_epoch kv) of (s, r) \<Rightarrow> (s, is_ok r))
      | None \<Rightarrow> (session, False))"

definition new_owner_key :: "bk_env \<Rightarrow> user_lookup \<Rightarrow> string \<Rightarrow> session_info \<Rightarrow> error + bucket_key_version" where
  "new_owner_key B get_user bucket session =
     rbind (map_err (crypto_err B bucket ''claim_ownership'') (get_user (si_username session))) (\<lambda>found.
     rbind (ok_or found (InternalError bucket [] ''claim_ownership'' ''claiming user's record vanished'')) (\<lambda>rec.
     rbind (new_bucket_key_version B 0 bucket
       [(si_username session, \<lparr>gs_identity_pks_b64 = map cs_identity_pk_b64 (ur_slots rec),
          gs_authorized = map (\<lambda>i. i = unat (si_persona session)) [0..<CREDENTIAL_SLOTS]\<rparr>)]) (\<lambda>(kv, _).
     Inr kv)))"

definition resolve_write_key :: "bk_env \<Rightarrow> bucket_config \<Rightarrow> string \<Rightarrow> error + (u32 \<times> bytes)" where
  "resolve_write_key B config bucket =
     rbind (ok_or (current_key config)
       (InternalError bucket [] ''resolve_write_key'' ''bucket has no key material'')) (\<lambda>kv.
     rbind (ok_or (b64_decode (be_prims B) (kv_public_key_b64 kv)) (crypto_decode_err bucket ''bucket public key'')) (\<lambda>pk.
     Inr (kv_epoch kv, pk)))"

end
