(* ===== verification/Bucket_Keys_Laws.thy ===== *)
theory Bucket_Keys_Laws
  imports Bucket_Keys Session_Laws
begin

text \<open>
  What the bucket keys promise: a sealed box opens to what was sealed; a grant gives the bucket wrap key
  to the authorized slots and the slot's decoy to every other one; the key version a first writer
  creates opens for the claiming persona and yields the secret key of the public key writers use,
  while the other personas are refused.
\<close>

subsection \<open>Sealed boxes\<close>

definition prims_ok :: "crypto_prims \<Rightarrow> bool" where
  "prims_ok P \<longleftrightarrow> aead_correct P \<and> kem_correct P \<and> hkdf_total P \<and> b64_correct P"

lemma prims_okD:
  assumes "prims_ok P"
  shows "aead_correct P" "kem_correct P" "hkdf_total P" "b64_correct P"
  using assms by (simp_all add: prims_ok_def)

lemma plain_prims_ok: "prims_ok plain_prims"
  by (simp add: prims_ok_def plain_laws)

lemma b64_inverse [simp]: "prims_ok P \<Longrightarrow> b64_decode P (b64_encode P bs) = Some bs"
  by (simp add: prims_ok_def b64_correct_def)

lemma seal_open_box:
  assumes P: "prims_ok P" and kp: "keypair P seed = (pk, sk)" and n: "length nonce = 12" and l: "length pt < 2 ^ 32"
  obtains sealed where "seal_to P rnd nonce pk pt aad = Inr sealed" and "open_sealed P sk sealed aad = Inr pt"
proof -
  note laws = prims_okD [OF P]
  obtain ss kem_ct where enc: "encapsulate P pk rnd = (ss, kem_ct)" by (cases "encapsulate P pk rnd")
  note kem = kem_round_trip [OF laws(2) kp enc]
  obtain key where key: "derive_seal_key P ss kem_ct = Inr key"
    using laws(3) by (auto simp: hkdf_total_def derive_seal_key_def) (metis ok_or.simps(2))
  obtain c where c: "gcm_seal P key nonce aad pt = Some c" "gcm_open P key nonce aad c = Some pt"
    using aead_correctE [OF laws(1) l] by metis
  show thesis
    by (rule that [of "\<lparr>sk_kem_ct_b64 = b64_encode P kem_ct, sk_nonce_b64 = b64_encode P nonce, sk_ct_b64 = b64_encode P c\<rparr>"])
      (use kem key c n P in \<open>simp_all add: seal_to_def enc open_sealed_def\<close>)
qed

lemma secret_key_short: "prims_ok P \<Longrightarrow> length (snd (keypair P seed)) < 2 ^ 32"
proof -
  assume "prims_ok P"
  moreover obtain pk sk where kp: "keypair P seed = (pk, sk)" by (cases "keypair P seed")
  moreover obtain ss ct where "encapsulate P pk [] = (ss, ct)" by (cases "encapsulate P pk []")
  ultimately have "SecretKey_from_bytes P sk = Inr sk" using kem_round_trip(2) [OF prims_okD(2)] by blast
  then show ?thesis using kp by (auto simp: SecretKey_from_bytes_def SECRET_KEY_BYTES_def split: if_splits)
qed

text \<open>A wrapped key opens under the key and associated data it was wrapped with.\<close>

lemma wrap_unwrap:
  assumes "aead_correct P" and "length sk < 2 ^ 32"
  obtains blob where "wrap_with_key P nonce sk key aad = Inr blob" and "unwrap_with_key P blob key aad = Inr sk"
    and "\<And>key'. gcm_open P key' nonce aad (ws_ciphertext blob) = None \<Longrightarrow> unwrap_with_key P blob key' aad = Inl AuthFailed"
    and "gcm_seal P key nonce aad sk = Some (ws_ciphertext blob)"
proof -
  obtain c where c: "gcm_seal P key nonce aad sk = Some c" "gcm_open P key nonce aad c = Some sk"
    using aead_correctE [OF assms] by metis
  show thesis
    by (rule that [of "\<lparr>ws_nonce = nonce, ws_ciphertext = c\<rparr>"])
      (use c in \<open>simp_all add: wrap_with_key_def unwrap_with_key_def\<close>)
qed

subsection \<open>Grants\<close>

text \<open>\<open>ids i\<close> is the seed of the identity pair of slot \<open>i\<close>.\<close>

definition slot_pks :: "crypto_prims \<Rightarrow> (nat \<Rightarrow> bytes) \<Rightarrow> nat \<Rightarrow> nat \<Rightarrow> string list" where
  "slot_pks P ids i n = map (\<lambda>i. b64_encode P (fst (keypair P (ids i)))) [i..<i + n]"

definition slot_plain :: "bk_env \<Rightarrow> string \<Rightarrow> bytes \<Rightarrow> nat \<Rightarrow> bool \<Rightarrow> bytes" where
  "slot_plain B user bwk i authorized = (if authorized then bwk else snd (snd (be_rand B user i)))"

definition rand_ok :: "bk_env \<Rightarrow> bool" where
  "rand_ok B \<longleftrightarrow> length (be_bwk B) = 32 \<and>
     (\<forall>u i. length (fst (snd (be_rand B u i))) = 12 \<and> length (snd (snd (be_rand B u i))) = 32)"

lemma rand_okD:
  "rand_ok B \<Longrightarrow> length (fst (snd (be_rand B u i))) = 12 \<and> length (snd (snd (be_rand B u i))) = 32"
  by (simp add: rand_ok_def)

lemma seal_slots_open:
  assumes P: "prims_ok (be_prims B)" and R: "rand_ok B" and bwk: "length bwk = 32"
  shows "\<exists>out. seal_slots_from B bucket epoch user bwk i (zip (slot_pks (be_prims B) ids i (length auths)) auths) = Inr out
    \<and> length out = length auths
    \<and> (\<forall>j < length auths. open_sealed (be_prims B) (snd (keypair (be_prims B) (ids (i + j)))) (out ! j)
        (bucket_grant_aad bucket epoch user (i + j)) = Inr (slot_plain B user bwk (i + j) (auths ! j)))"
proof (induction auths arbitrary: i)
  case (Cons a auths)
  let ?P = "be_prims B"
  obtain rnd nonce decoy where r: "be_rand B user i = (rnd, nonce, decoy)" by (cases "be_rand B user i")
  have len: "length nonce = 12" "length decoy = 32"
    using rand_okD [OF R, of user i] by (simp_all add: r)
  obtain pk sk where kp: "keypair ?P (ids i) = (pk, sk)" by (cases "keypair ?P (ids i)")
  have "length (if a then bwk else decoy) < 2 ^ 32" using bwk len by simp
  then obtain sealed where s: "seal_to ?P rnd nonce pk (if a then bwk else decoy) (bucket_grant_aad bucket epoch user i) = Inr sealed"
    "open_sealed ?P sk sealed (bucket_grant_aad bucket epoch user i) = Inr (if a then bwk else decoy)"
    by (rule seal_open_box [OF P kp len(1), of _ rnd "bucket_grant_aad bucket epoch user i"])
  obtain out where out: "seal_slots_from B bucket epoch user bwk (Suc i) (zip (slot_pks ?P ids (Suc i) (length auths)) auths) = Inr out"
    "length out = length auths"
    "\<forall>j < length auths. open_sealed ?P (snd (keypair ?P (ids (Suc i + j)))) (out ! j)
        (bucket_grant_aad bucket epoch user (Suc i + j)) = Inr (slot_plain B user bwk (Suc i + j) (auths ! j))"
    using Cons.IH [of "Suc i"] by blast
  have pks: "slot_pks ?P ids i (length (a # auths)) = b64_encode ?P pk # slot_pks ?P ids (Suc i) (length auths)"
  proof -
    have "[i..<i + length (a # auths)] = i # [Suc i..<Suc i + length auths]"
      by (simp add: upt_conv_Cons del: upt_Suc)
    then show ?thesis by (simp only: slot_pks_def list.map kp fst_conv)
  qed
  have "open_sealed ?P (snd (keypair ?P (ids (i + j)))) ((sealed # out) ! j)
      (bucket_grant_aad bucket epoch user (i + j)) = Inr (slot_plain B user bwk (i + j) ((a # auths) ! j))"
    if "j < length (a # auths)" for j
    using that out(3) s(2) by (cases j) (auto simp: kp slot_plain_def r)
  then show ?case
    unfolding pks using out s(1) P by (intro exI [of _ "sealed # out"]) (simp add: r)
qed simp

lemma find_last:
  assumes "\<forall>k \<in> set ks. kv_epoch k \<noteq> kv_epoch kv"
  shows "find (\<lambda>k. kv_epoch k = kv_epoch kv) (ks @ [kv]) = Some kv"
  using assms by (induction ks) auto

text \<open>Opening a slot of a key version whose grants were sealed by this program.\<close>

lemma open_bwk_slot:
  assumes P: "prims_ok (be_prims B)" and R: "rand_ok B" and bwk: "length bwk = 32"
    and slots: "gs_identity_pks_b64 slots = slot_pks (be_prims B) ids 0 CREDENTIAL_SLOTS"
      "length (gs_authorized slots) = CREDENTIAL_SLOTS"
    and kv: "dm_get (kv_grants kv) user = Some sealed" "seal_grant_slots B bucket (kv_epoch kv) user slots bwk = Inr sealed"
    and find: "find_epoch config bucket (kv_epoch kv) = Inr kv" and i: "i < CREDENTIAL_SLOTS"
    and E: "be_prims B' = be_prims B"
  shows "open_bwk B' config bucket (kv_epoch kv) user i (snd (keypair (be_prims B) (ids i)))
    = Inr (slot_plain B user bwk i (gs_authorized slots ! i))"
proof -
  have R': "length (slot_plain B user bwk i b) = 32" for b
    using R bwk by (simp add: slot_plain_def rand_ok_def)
  have "seal_slots_from B bucket (kv_epoch kv) user bwk 0
      (zip (slot_pks (be_prims B) ids 0 (length (gs_authorized slots))) (gs_authorized slots)) = Inr sealed"
    using kv(2) slots by (simp add: seal_grant_slots_def slot_pks_def)
  then have "length sealed = CREDENTIAL_SLOTS" "open_sealed (be_prims B) (snd (keypair (be_prims B) (ids i))) (sealed ! i)
      (bucket_grant_aad bucket (kv_epoch kv) user i) = Inr (slot_plain B user bwk i (gs_authorized slots ! i))"
    using seal_slots_open [OF P R bwk, of bucket "kv_epoch kv" user 0 ids "gs_authorized slots"] slots(2) i by auto
  then show ?thesis using find kv(1) i R' E by (simp add: open_bwk_def)
qed

lemma seal_grant_total:
  assumes "prims_ok (be_prims B)" and "rand_ok B" and "length bwk = 32"
    and "gs_identity_pks_b64 slots = slot_pks (be_prims B) ids 0 CREDENTIAL_SLOTS"
    and "length (gs_authorized slots) = CREDENTIAL_SLOTS"
  obtains sealed where "seal_grant_slots B bucket epoch user slots bwk = Inr sealed"
  using seal_slots_open [OF assms(1-3), of bucket epoch user 0 ids "gs_authorized slots"] assms(4,5) that
  by (auto simp: seal_grant_slots_def slot_pks_def)

subsection \<open>Reading through a session\<close>

lemma read_key_Inr:
  "read_key B config bucket epoch user slot identity = Inr sk \<longleftrightarrow>
   (\<exists>kv bwk. find_epoch config bucket epoch = Inr kv \<and> open_bwk B config bucket epoch user slot identity = Inr bwk
      \<and> unwrap_with_key (be_prims B) (kv_sk_blob kv) bwk (bucket_sk_wrap_aad bucket epoch) = Inr sk \<and> en_mem (be_sec B) = None)"
  by (auto simp: read_key_def split: option.splits)

text \<open>The key version a first writer creates: its secret key is wrapped under the bucket wrap key, and the
  claiming user's grant row is sealed for the given slots.\<close>

lemma new_version_single:
  assumes P: "prims_ok (be_prims B)" and R: "rand_ok B"
    and slots: "gs_identity_pks_b64 slots = slot_pks (be_prims B) ids 0 CREDENTIAL_SLOTS"
      "length (gs_authorized slots) = CREDENTIAL_SLOTS"
  obtains kv sealed where "new_bucket_key_version B epoch bucket [(user, slots)] = Inr (kv, be_bwk B)"
    and "kv_epoch kv = epoch" and "kv_public_key_b64 kv = b64_encode (be_prims B) (fst (keypair (be_prims B) (be_seed B)))"
    and "unwrap_with_key (be_prims B) (kv_sk_blob kv) (be_bwk B) (bucket_sk_wrap_aad bucket epoch)
      = Inr (snd (keypair (be_prims B) (be_seed B)))"
    and "\<And>key'. gcm_open (be_prims B) key' (be_wrap_nonce B) (bucket_sk_wrap_aad bucket epoch) (ws_ciphertext (kv_sk_blob kv)) = None
      \<Longrightarrow> unwrap_with_key (be_prims B) (kv_sk_blob kv) key' (bucket_sk_wrap_aad bucket epoch) = Inl AuthFailed"
    and "gcm_seal (be_prims B) (be_bwk B) (be_wrap_nonce B) (bucket_sk_wrap_aad bucket epoch) (snd (keypair (be_prims B) (be_seed B)))
      = Some (ws_ciphertext (kv_sk_blob kv))"
    and "dm_get (kv_grants kv) user = Some sealed" and "seal_grant_slots B bucket epoch user slots (be_bwk B) = Inr sealed"
proof -
  obtain pk sk where kp: "keypair (be_prims B) (be_seed B) = (pk, sk)" by (cases "keypair (be_prims B) (be_seed B)")
  have len: "length sk < 2 ^ 32" using secret_key_short [OF P, of "be_seed B"] kp by simp
  obtain blob where w: "wrap_with_key (be_prims B) (be_wrap_nonce B) sk (be_bwk B) (bucket_sk_wrap_aad bucket epoch) = Inr blob"
    "unwrap_with_key (be_prims B) blob (be_bwk B) (bucket_sk_wrap_aad bucket epoch) = Inr sk"
    "\<And>key'. gcm_open (be_prims B) key' (be_wrap_nonce B) (bucket_sk_wrap_aad bucket epoch) (ws_ciphertext blob) = None
      \<Longrightarrow> unwrap_with_key (be_prims B) blob key' (bucket_sk_wrap_aad bucket epoch) = Inl AuthFailed"
    "gcm_seal (be_prims B) (be_bwk B) (be_wrap_nonce B) (bucket_sk_wrap_aad bucket epoch) sk = Some (ws_ciphertext blob)"
    by (rule wrap_unwrap [OF prims_okD(1) [OF P] len]) blast
  have bwk: "length (be_bwk B) = 32" using R by (simp add: rand_ok_def)
  obtain sealed where s: "seal_grant_slots B bucket epoch user slots (be_bwk B) = Inr sealed"
    by (rule seal_grant_total [OF P R bwk slots])
  show thesis
    by (rule that [of "\<lparr>kv_epoch = epoch, kv_public_key_b64 = b64_encode (be_prims B) pk, kv_sk_blob = blob,
        kv_grants = [(user, sealed)]\<rparr>" sealed])
      (use w s kp in \<open>simp_all add: new_bucket_key_version_def\<close>)
qed

lemma owner_key_obtain:
  assumes P: "prims_ok (be_prims B)" and R: "rand_ok B"
    and user: "get_user (si_username s) = Inr (Some rec)"
    and pks: "map cs_identity_pk_b64 (ur_slots rec) = slot_pks (be_prims B) ids 0 CREDENTIAL_SLOTS"
    and persona: "unat (si_persona s) < CREDENTIAL_SLOTS" and mem: "en_mem (be_sec B) = None"
  obtains kv where "new_owner_key B get_user bucket s = Inr kv" and "kv_epoch kv = 0"
    and "\<And>config. bc_keys config = [kv] \<Longrightarrow> resolve_write_key B config bucket = Inr (0, fst (keypair (be_prims B) (be_seed B)))"
    and "\<And>config. bc_keys config = [kv] \<Longrightarrow> read_key B config bucket 0 (si_username s) (unat (si_persona s))
        (snd (keypair (be_prims B) (ids (unat (si_persona s))))) = Inr (snd (keypair (be_prims B) (be_seed B)))"
    and "\<And>config j. bc_keys config = [kv] \<Longrightarrow> j < CREDENTIAL_SLOTS \<Longrightarrow> j \<noteq> unat (si_persona s) \<Longrightarrow>
        (\<forall>ct. gcm_seal (be_prims B) (be_bwk B) (be_wrap_nonce B) (bucket_sk_wrap_aad bucket 0)
                (snd (keypair (be_prims B) (be_seed B))) = Some ct \<longrightarrow>
             gcm_open (be_prims B) (snd (snd (be_rand B (si_username s) j))) (be_wrap_nonce B) (bucket_sk_wrap_aad bucket 0) ct = None) \<Longrightarrow>
        read_key B config bucket 0 (si_username s) j (snd (keypair (be_prims B) (ids j))) = Inl (Forbidden bucket)"
proof -
  let ?slots = "\<lparr>gs_identity_pks_b64 = map cs_identity_pk_b64 (ur_slots rec),
          gs_authorized = map (\<lambda>i. i = unat (si_persona s)) [0..<CREDENTIAL_SLOTS]\<rparr>"
  have sl: "gs_identity_pks_b64 ?slots = slot_pks (be_prims B) ids 0 CREDENTIAL_SLOTS"
    "length (gs_authorized ?slots) = CREDENTIAL_SLOTS" by (simp_all add: pks)
  have bwk: "length (be_bwk B) = 32" using R by (simp add: rand_ok_def)
  obtain kv sealed where kv: "new_bucket_key_version B 0 bucket [(si_username s, ?slots)] = Inr (kv, be_bwk B)"
    "kv_epoch kv = 0" "kv_public_key_b64 kv = b64_encode (be_prims B) (fst (keypair (be_prims B) (be_seed B)))"
    "unwrap_with_key (be_prims B) (kv_sk_blob kv) (be_bwk B) (bucket_sk_wrap_aad bucket 0)
      = Inr (snd (keypair (be_prims B) (be_seed B)))"
    "\<And>key'. gcm_open (be_prims B) key' (be_wrap_nonce B) (bucket_sk_wrap_aad bucket 0) (ws_ciphertext (kv_sk_blob kv)) = None
      \<Longrightarrow> unwrap_with_key (be_prims B) (kv_sk_blob kv) key' (bucket_sk_wrap_aad bucket 0) = Inl AuthFailed"
    "gcm_seal (be_prims B) (be_bwk B) (be_wrap_nonce B) (bucket_sk_wrap_aad bucket 0) (snd (keypair (be_prims B) (be_seed B)))
      = Some (ws_ciphertext (kv_sk_blob kv))"
    "dm_get (kv_grants kv) (si_username s) = Some sealed"
    "seal_grant_slots B bucket 0 (si_username s) ?slots (be_bwk B) = Inr sealed"
    by (rule new_version_single [OF P R sl]) blast
  have find: "find_epoch config bucket 0 = Inr kv" if "bc_keys config = [kv]" for config
    using that kv(2) by (simp add: find_epoch_def)
  have open_slot: "open_bwk B config bucket 0 (si_username s) i (snd (keypair (be_prims B) (ids i)))
      = Inr (slot_plain B (si_username s) (be_bwk B) i (i = unat (si_persona s)))"
    if "bc_keys config = [kv]" "i < CREDENTIAL_SLOTS" for config i
    using open_bwk_slot [OF P R bwk sl kv(7), where config = config and B' = B and i = i and bucket = bucket]
      kv(2,8) find that by simp
  show thesis
  proof (rule that [of kv])
    show "new_owner_key B get_user bucket s = Inr kv" using user kv(1) by (simp add: new_owner_key_def)
  qed (use open_slot persona find kv(2-6) mem P in \<open>auto simp: read_key_def slot_plain_def forbidden_def
      resolve_write_key_def current_key_def\<close>)
qed

subsection \<open>Properties of bucket keys\<close>

text \<open>A sealed box opens, under the recipient's secret key and the same associated data, to exactly what
  was sealed to the recipient's public key; sealing to a generated key never fails.\<close>

lemma sealed_box_round_trip:
  assumes "prims_ok P" and "keypair P seed = (pk, sk)" and "length nonce = 12" and "length pt < 2 ^ 32"
  shows "\<exists>sealed. seal_to P rnd nonce pk pt aad = Inr sealed \<and> open_sealed P sk sealed aad = Inr pt"
  by (rule seal_open_box [OF assms]) blast

text \<open>A first writer's claim always yields a key version that works: writers encrypt to a public key
  whose secret key the claiming persona reads back through its grant, and every other persona of
  the same user is refused, as long as its random decoy does not open the wrapped key.\<close>

lemma owner_key_opens_for_claimant:
  assumes P: "prims_ok (be_prims B)" and R: "rand_ok B"
    and user: "get_user (si_username s) = Inr (Some rec)"
    and pks: "map cs_identity_pk_b64 (ur_slots rec) = slot_pks (be_prims B) ids 0 CREDENTIAL_SLOTS"
    and persona: "unat (si_persona s) < CREDENTIAL_SLOTS" and mem: "en_mem (be_sec B) = None"
  shows "\<exists>kv. new_owner_key B get_user bucket s = Inr kv \<and> (\<forall>config. bc_keys config = [kv] \<longrightarrow>
      resolve_write_key B config bucket = Inr (0, fst (keypair (be_prims B) (be_seed B)))
      \<and> read_key B config bucket 0 (si_username s) (unat (si_persona s)) (snd (keypair (be_prims B) (ids (unat (si_persona s)))))
          = Inr (snd (keypair (be_prims B) (be_seed B)))
      \<and> (\<forall>j < CREDENTIAL_SLOTS. j \<noteq> unat (si_persona s) \<longrightarrow>
          (\<forall>ct. gcm_seal (be_prims B) (be_bwk B) (be_wrap_nonce B) (bucket_sk_wrap_aad bucket 0)
                (snd (keypair (be_prims B) (be_seed B))) = Some ct \<longrightarrow>
             gcm_open (be_prims B) (snd (snd (be_rand B (si_username s) j))) (be_wrap_nonce B) (bucket_sk_wrap_aad bucket 0) ct = None) \<longrightarrow>
          read_key B config bucket 0 (si_username s) j (snd (keypair (be_prims B) (ids j))) = Inl (Forbidden bucket)))"
  by (rule owner_key_obtain [where get_user = get_user and s = s and bucket = bucket, OF P R user pks persona mem]) blast

lemma keyed_prims_ok: "prims_ok keyed_prims"
  using plain_laws(2-4)
  by (auto simp: prims_ok_def keyed_prims_def aead_correct_def TAG_LEN_def hkdf_total_def kem_correct_def b64_correct_def
      split: prod.splits)

definition sample_bk_env :: bk_env where
  "sample_bk_env = \<lparr>be_sec = sample_env\<lparr>en_prims := keyed_prims\<rparr>, be_auth_display = (\<lambda>e. ''auth''), be_seed = [],
     be_bwk = replicate 32 1, be_wrap_nonce = replicate 12 0, be_rand = (\<lambda>u i. ([], replicate 12 0, replicate 32 2))\<rparr>"

definition sample_user :: user_record where
  "sample_user = \<lparr>ur_username = ''alice'', ur_created_at = 0, ur_last_login = None,
     ur_kdf = \<lparr>ap_m_cost_kib = 8, ap_t_cost = 1, ap_p_cost = 1, ap_salt = []\<rparr>,
     ur_slots = map (\<lambda>pk. \<lparr>cs_identity_pk_b64 = pk, cs_wrapped = \<lparr>ws_nonce = [], ws_ciphertext = []\<rparr>\<rparr>)
       (slot_pks keyed_prims (\<lambda>i. []) 0 CREDENTIAL_SLOTS),
     ur_primary_slot = 0, ur_role = User\<rparr>"

definition sample_session :: session_info where
  "sample_session = \<lparr>si_username = ''alice'', si_role = User, si_created_at = 1, si_expires_at = 10, si_persona = 0,
     si_revoke_other_sessions = False, si_identity_sk = \<lparr>ss_nonce = [], ss_ct = []\<rparr>, si_refresh_count = 0,
     si_token_hash = [], si_keyring = [], si_bucket_keys = empty_cache\<rparr>"

lemma sample_bk_simps [simp]:
  "be_prims sample_bk_env = keyed_prims" "be_bwk sample_bk_env = replicate 32 1" "en_mem (be_sec sample_bk_env) = None"
  "be_rand sample_bk_env u i = ([], replicate 12 0, replicate 32 2)" "si_username sample_session = ''alice''"
  "si_persona sample_session = 0" "map cs_identity_pk_b64 (ur_slots sample_user) = slot_pks keyed_prims (\<lambda>i. []) 0 CREDENTIAL_SLOTS"
  by (simp_all add: sample_bk_env_def sample_session_def sample_user_def comp_def)

end
