(* ===== verification/Aws_Chunked_Laws.thy ===== *)
theory Aws_Chunked_Laws
  imports Aws_Chunked Bucket_Keys_Laws
begin

text \<open>
  Correctness of the \<open>aws-chunked\<close> decoder against a grammar of signed bodies: what it accepts is a well-formed
  body whose chain of signatures is right, and every body a client encodes is accepted and gives back its frames,
  however the transport cuts it into pieces.
\<close>

subsection \<open>Reading the wire\<close>

fun ok_bytes :: "(error + bytes) list \<Rightarrow> bytes" where
  "ok_bytes [] = []"
| "ok_bytes (Inr c # items) = c @ ok_bytes items"
| "ok_bytes (Inl e # items) = []"

definition wire :: "chunked_state \<Rightarrow> bytes" where
  "wire s = kd_buf s @ ok_bytes (kd_inner s)"

definition same_but_input :: "chunked_state \<Rightarrow> chunked_state \<Rightarrow> bool" where
  "same_but_input s s' \<longleftrightarrow>
     s' = s\<lparr>kd_inner := kd_inner s', kd_buf := kd_buf s', kd_inner_done := kd_inner_done s'\<rparr>"

definition crlf :: bytes where "crlf = [13, 10]"

lemma same_but_input_refl [simp]: "same_but_input s s"
  by (simp add: same_but_input_def)

lemma same_but_input_trans: "same_but_input s t \<Longrightarrow> same_but_input t u \<Longrightarrow> same_but_input s u"
  by (cases s; cases t; cases u) (simp add: same_but_input_def)

lemma same_but_input_fields:
  "same_but_input s t \<Longrightarrow> kd_signing t = kd_signing s \<and> kd_expect_trailer t = kd_expect_trailer s
     \<and> kd_max_frame_bytes t = kd_max_frame_bytes s \<and> kd_trailer_checksum t = kd_trailer_checksum s
     \<and> kd_checksum_hasher t = kd_checksum_hasher s \<and> kd_sideband t = kd_sideband s \<and> kd_finished t = kd_finished s
     \<and> kd_bucket t = kd_bucket s"
  by (cases s; cases t) (simp add: same_but_input_def)

lemma pull_input:
  assumes "pull s = (t, Inr u)"
  shows "same_but_input s t" and "wire t = wire s"
  using assms by (auto simp: pull_def same_but_input_def wire_def split: list.splits sum.splits)

lemma find_crlf_Some: "find_crlf bs = Some pos \<Longrightarrow> bs = take pos bs @ crlf @ drop (pos + 2) bs"
  by (induction bs arbitrary: pos rule: find_crlf.induct) (auto simp: crlf_def split: if_splits)

lemma read_line_sound:
  "read_line s = (s', Inr line) \<Longrightarrow> same_but_input s s' \<and> wire s = as_bytes line @ crlf @ wire s'"
proof (induction s rule: read_line.induct)
  case (1 s)
  show ?case
  proof (cases "find_crlf (kd_buf s)")
    case (Some pos)
    then obtain l where l: "from_utf8 (take pos (kd_buf s)) = Some l"
      using 1(2) by (auto simp: read_line.simps [of s] Let_def framing_abort_def split: option.splits)
    have "kd_buf s = as_bytes l @ crlf @ drop (pos + 2) (kd_buf s)"
      using find_crlf_Some [OF Some] from_utf8_Some [OF l] by simp
    then show ?thesis
      using 1(2) Some l by (auto simp: read_line.simps [of s] Let_def same_but_input_def wire_def)
  next
    case None
    have go: "\<not> MAX_CHUNK_HEADER_LINE_BYTES < length (kd_buf s)" "\<not> kd_inner_done s"
      using 1(2) None by (auto simp: read_line.simps [of s] framing_abort_def split: if_splits)
    obtain t u where p: "pull s = (t, Inr u)"
      using 1(2) None go by (auto simp: read_line.simps [of s] split: prod.splits sum.splits)
    then have "read_line t = (s', Inr line)" using 1(2) None go by (simp add: read_line.simps [of s])
    then show ?thesis
      using 1(1) [OF None go p [symmetric] refl] pull_input [OF p] same_but_input_trans by metis
  qed
qed

lemma read_exact_sound:
  "read_exact n s = (s', Inr d) \<Longrightarrow> same_but_input s s' \<and> wire s = d @ wire s' \<and> length d = n"
proof (induction n s rule: read_exact.induct)
  case (1 n s)
  show ?case
  proof (cases "length (kd_buf s) < n")
    case False
    then show ?thesis
      using 1(2) by (auto simp: read_exact.simps [of n s] same_but_input_def wire_def simp flip: append_assoc)
  next
    case True
    have go: "\<not> kd_inner_done s"
      using 1(2) True by (auto simp: read_exact.simps [of n s] framing_abort_def)
    obtain t u where p: "pull s = (t, Inr u)"
      using 1(2) True go by (auto simp: read_exact.simps [of n s] split: prod.splits sum.splits)
    then have "read_exact n t = (s', Inr d)" using 1(2) True go by (simp add: read_exact.simps [of n s])
    then show ?thesis
      using 1(1) [OF True go p [symmetric] refl] pull_input [OF p] same_but_input_trans by metis
  qed
qed

text \<open>A transport that delivers a text without failing.\<close>

definition delivers :: "chunked_state \<Rightarrow> bytes \<Rightarrow> bool" where
  "delivers s w \<longleftrightarrow> (\<forall>i \<in> set (kd_inner s). is_ok i) \<and> wire s = w \<and> (kd_inner_done s \<longrightarrow> kd_inner s = [])"

lemma pull_delivers:
  assumes "delivers s w" and "\<not> kd_inner_done s"
  obtains t where "pull s = (t, Inr ())" and "same_but_input s t" and "delivers t w"
proof (cases "kd_inner s")
  case Nil
  then show ?thesis
    using assms that [of "s\<lparr>kd_inner_done := True\<rparr>"] by (simp add: pull_def delivers_def wire_def same_but_input_def)
next
  case (Cons i items)
  then obtain c where "i = Inr c" using assms by (auto simp: delivers_def is_ok_iff)
  then show ?thesis
    using assms Cons that [of "s\<lparr>kd_inner := items, kd_buf := kd_buf s @ c\<rparr>"]
    by (simp add: pull_def delivers_def wire_def same_but_input_def)
qed

lemma find_crlf_append: "13 \<notin> set l \<Longrightarrow> find_crlf (l @ 13 # 10 # r) = Some (length l)"
proof (induction l)
  case (Cons a l)
  then show ?case by (cases l) auto
qed simp

lemma find_crlf_short:
  assumes "13 \<notin> set l" and "l @ crlf @ rest = b @ post" and "length b < length l + 2"
  shows "find_crlf b = None"
proof (rule ccontr)
  assume "find_crlf b \<noteq> None"
  then obtain pos where pos: "find_crlf b = Some pos" by auto
  have len: "pos + 2 \<le> length b" using find_crlf_length [OF pos] .
  have "b ! pos = 13"
    using arg_cong [OF find_crlf_Some [OF pos], of "\<lambda>x. x ! pos"] len by (simp add: nth_append crlf_def)
  moreover have "b ! pos = (l @ crlf @ rest) ! pos" using assms(2) len by (simp add: nth_append)
  ultimately have "l ! pos = 13" using len assms(3) by (simp add: nth_append)
  then show False using assms(1,3) len by (metis add_lessD1 less_diff_conv le_less_trans nth_mem add_le_imp_le_right nat_less_le not_less_eq_eq add_2_eq_Suc' Suc_le_lessD)
qed

lemma read_line_run:
  assumes "delivers s (as_bytes l @ crlf @ rest)" and "rust_str l" and "13 \<notin> set (as_bytes l)"
    and "length l < MAX_CHUNK_HEADER_LINE_BYTES"
  shows "\<exists>s'. read_line s = (s', Inr l) \<and> same_but_input s s' \<and> delivers s' rest"
  using assms(1)
proof (induction s rule: read_line.induct)
  case (1 s)
  have w: "as_bytes l @ crlf @ rest = kd_buf s @ ok_bytes (kd_inner s)" using 1(2) by (simp add: delivers_def wire_def)
  show ?case
  proof (cases "length (kd_buf s) < length l + 2")
    case True
    have none: "find_crlf (kd_buf s) = None" using find_crlf_short [OF assms(3) w] True by simp
    have len: "\<not> MAX_CHUNK_HEADER_LINE_BYTES < length (kd_buf s)" using True assms(4) by simp
    have "\<not> kd_inner_done s"
      using 1(2) True w by (auto simp: delivers_def crlf_def dest: arg_cong [of _ _ length])
    with 1(2) obtain t where t: "pull s = (t, Inr ())" "same_but_input s t" "delivers t (as_bytes l @ crlf @ rest)"
      by (rule pull_delivers)
    then show ?thesis
      using 1(1) [OF none len \<open>\<not> kd_inner_done s\<close> t(1) [symmetric] refl] none len \<open>\<not> kd_inner_done s\<close>
      by (auto simp: read_line.simps [of s] intro: same_but_input_trans)
  next
    case False
    define r where "r = drop (length l + 2) (kd_buf s)"
    have "take (length l + 2) (as_bytes l @ crlf @ rest) = as_bytes l @ crlf" by (simp add: crlf_def)
    then have buf: "kd_buf s = as_bytes l @ crlf @ r"
      using w False by (metis append_assoc append_take_drop_id r_def take_append diff_is_0_eq' not_less take0 append_Nil2)
    then have "find_crlf (kd_buf s) = Some (length l)"
      using find_crlf_append [OF assms(3), of r] by (simp add: crlf_def)
    moreover have "rest = r @ ok_bytes (kd_inner s)" using w buf by simp
    ultimately show ?thesis
      using 1(2) buf from_utf8_as_bytes [OF assms(2)]
      by (simp add: read_line.simps [of s] same_but_input_def delivers_def wire_def crlf_def)
  qed
qed

lemma read_exact_run:
  assumes "delivers s (d @ rest)"
  shows "\<exists>s'. read_exact (length d) s = (s', Inr d) \<and> same_but_input s s' \<and> delivers s' rest"
  using assms
proof (induction "length d" s rule: read_exact.induct)
  case (1 s)
  have w: "d @ rest = kd_buf s @ ok_bytes (kd_inner s)" using 1(2) by (simp add: delivers_def wire_def)
  show ?case
  proof (cases "length (kd_buf s) < length d")
    case True
    have "\<not> kd_inner_done s"
      using 1(2) True w by (auto simp: delivers_def dest: arg_cong [of _ _ length])
    with 1(2) obtain t where t: "pull s = (t, Inr ())" "same_but_input s t" "delivers t (d @ rest)"
      by (rule pull_delivers)
    then show ?thesis
      using 1(1) [OF True \<open>\<not> kd_inner_done s\<close> t(1) [symmetric] refl] True \<open>\<not> kd_inner_done s\<close>
      by (auto simp: read_exact.simps [of "length d" s] intro: same_but_input_trans)
  next
    case False
    define r where "r = drop (length d) (kd_buf s)"
    have buf: "kd_buf s = d @ r"
      using w False by (metis append_eq_append_conv_if append_take_drop_id not_less r_def append_eq_conv_conj)
    then show ?thesis
      using 1(2) w by (simp add: read_exact.simps [of "length d" s] same_but_input_def delivers_def wire_def)
  qed
qed

subsection \<open>The grammar of a body\<close>

text \<open>The signature a frame has to carry after the last one, and the one of the trailer.\<close>

definition chain_sig :: "sig_env \<Rightarrow> chunk_signing_state \<Rightarrow> string \<Rightarrow> string" where
  "chain_sig G k h = hex_hmac_sha256 G (kg_signing_key k)
     (as_bytes (chunk_string_to_sign (kg_amz_date k) (kg_scope k) (kg_prev_signature k) h))"

definition trailer_sig :: "sig_env \<Rightarrow> chunk_signing_state \<Rightarrow> string \<Rightarrow> string" where
  "trailer_sig G k content = hex_hmac_sha256 G (kg_signing_key k)
     (as_bytes (trailer_string_to_sign (kg_amz_date k) (kg_scope k) (kg_prev_signature k) (sha256_hex G (as_bytes content))))"

definition signed_step :: "sig_env \<Rightarrow> chunk_signing_state option \<Rightarrow> string option \<Rightarrow> string \<Rightarrow> chunk_signing_state option \<Rightarrow> bool" where
  "signed_step G sg dsig h sg' \<longleftrightarrow>
     (case sg of None \<Rightarrow> sg' = None
      | Some k \<Rightarrow> dsig = Some (chain_sig G k h) \<and> sg' = Some (k\<lparr>kg_prev_signature := chain_sig G k h\<rparr>))"

definition frame_header :: "string \<Rightarrow> nat \<Rightarrow> string option \<Rightarrow> bool" where
  "frame_header line n dsig \<longleftrightarrow>
     (\<exists>size_hex. parse_frame_header line = (size_hex, dsig) \<and> from_str_radix (2 ^ 64) 16 (str_trim size_hex) = Some n)"

definition text_lines :: "string list \<Rightarrow> bytes" where
  "text_lines lines = concat (map (\<lambda>l. as_bytes l @ crlf) lines)"

definition empty_trailer :: trailer_acc where
  "empty_trailer = \<lparr>tr_content = [], tr_sig = None, tr_values = []\<rparr>"

definition trailer_ok :: "sig_env \<Rightarrow> crypto_prims \<Rightarrow> chunked_options \<Rightarrow> chunk_signing_state option \<Rightarrow> bytes \<Rightarrow> string list \<Rightarrow> bool" where
  "trailer_ok G P opts sg body lines \<longleftrightarrow>
     (let acc = fold trailer_line lines empty_trailer in
      [] \<notin> set lines \<and> (\<not> ko_expect_trailer opts \<longrightarrow> lines = [])
      \<and> (case sg of Some k \<Rightarrow> ko_expect_trailer opts \<longrightarrow> tr_sig acc = Some (trailer_sig G k (tr_content acc)) | None \<Rightarrow> True)
      \<and> (case ko_trailer_checksum opts of
           None \<Rightarrow> True
         | Some a \<Rightarrow> dm_get (tr_values acc) (checksum_trailer_name a) = Some (hasher_finish_b64 G P \<lparr>ch_algo = a, ch_data = body\<rparr>)))"

text \<open>\<open>chunked_body G P opts L sg acc w ds\<close>: after the bytes \<open>acc\<close> and with the chain at \<open>sg\<close>, the
  text \<open>w\<close> is the frames \<open>ds\<close>, the terminal frame and the trailer, and the header and trailer lines are all
  in \<open>L\<close>.\<close>

inductive chunked_body :: "sig_env \<Rightarrow> crypto_prims \<Rightarrow> chunked_options \<Rightarrow> (string \<Rightarrow> bool) \<Rightarrow> chunk_signing_state option \<Rightarrow> bytes \<Rightarrow> bytes \<Rightarrow> bytes list \<Rightarrow> bool"
  for G P opts L where
  data: "\<lbrakk>L line; frame_header line (length d) dsig; d \<noteq> []; length d \<le> unat (ko_max_frame_bytes opts);
      signed_step G sg dsig (sha256_hex G d) sg'; chunked_body G P opts L sg' (acc @ d) w ds\<rbrakk>
    \<Longrightarrow> chunked_body G P opts L sg acc (as_bytes line @ crlf @ d @ crlf @ w) (d # ds)"
| terminal: "\<lbrakk>L line; \<forall>l \<in> set lines. L l; frame_header line 0 dsig; signed_step G sg dsig EMPTY_PAYLOAD_SHA256 sg'; trailer_ok G P opts sg' acc lines\<rbrakk>
    \<Longrightarrow> chunked_body G P opts L sg acc (as_bytes line @ crlf @ text_lines lines @ crlf @ w) []"

subsection \<open>What is accepted is well-formed\<close>

lemma verify_chunk_signature_iff:
  "verify_chunk_signature G dsig h s = (s', Inr ()) \<longleftrightarrow>
     (\<exists>sg'. signed_step G (kd_signing s) dsig h sg' \<and> s' = s\<lparr>kd_signing := sg'\<rparr>)"
  by (auto simp: verify_chunk_signature_def signed_step_def chain_sig_def Let_def signatures_match_def framing_abort_def
      split: option.splits if_splits)

lemma trailer_lines_sound:
  "trailer_lines acc s = (s', Inr acc') \<Longrightarrow> same_but_input s s' \<and>
     (\<exists>lines. wire s = text_lines lines @ crlf @ wire s' \<and> [] \<notin> set lines \<and> acc' = fold trailer_line lines acc)"
proof (induction acc s rule: trailer_lines.induct)
  case (1 acc s)
  obtain t line where l: "read_line s = (t, Inr line)"
    using 1(2) by (auto simp: trailer_lines.simps [of acc s] split: prod.splits sum.splits)
  have r: "same_but_input s t" "wire s = as_bytes line @ crlf @ wire t" using read_line_sound [OF l] by auto
  show ?case
  proof (cases "line = []")
    case True
    then show ?thesis
      using 1(2) l r by (auto simp: trailer_lines.simps [of acc s] text_lines_def intro: exI [of _ "[]"])
  next
    case False
    have "trailer_lines (trailer_line line acc) t = (s', Inr acc')"
      using 1(2) l False by (simp add: trailer_lines.simps [of acc s])
    then obtain lines where "same_but_input t s'" "wire t = text_lines lines @ crlf @ wire s'" "[] \<notin> set lines"
        "acc' = fold trailer_line lines (trailer_line line acc)"
      using 1(1) [OF l [symmetric] refl False] by auto
    then show ?thesis
      using r False same_but_input_trans [OF r(1)]
      by (auto simp: text_lines_def intro!: exI [of _ "line # lines"])
  qed
qed

text \<open>The fields a decoder keeps in step with its options.\<close>

definition in_step :: "chunked_options \<Rightarrow> bytes \<Rightarrow> chunked_state \<Rightarrow> bool" where
  "in_step opts acc s \<longleftrightarrow> kd_expect_trailer s = ko_expect_trailer opts \<and> kd_max_frame_bytes s = ko_max_frame_bytes opts
     \<and> kd_trailer_checksum s = ko_trailer_checksum opts \<and> \<not> kd_finished s
     \<and> kd_checksum_hasher s = map_option (\<lambda>a. \<lparr>ch_algo = a, ch_data = acc\<rparr>) (ko_trailer_checksum opts)"

lemma in_step_input: "same_but_input s t \<Longrightarrow> in_step opts acc s \<Longrightarrow> in_step opts acc t"
  by (auto simp: in_step_def dest: same_but_input_fields)

lemma wire_signing [simp]: "wire (s\<lparr>kd_signing := sg\<rparr>) = wire s"
  by (simp add: wire_def)

lemma check_trailer_sum_iff:
  assumes "in_step opts acc s"
  shows "(\<exists>s'. check_trailer_sum G P vals s = (s', Inr ())) \<longleftrightarrow>
    (case ko_trailer_checksum opts of None \<Rightarrow> True
     | Some a \<Rightarrow> dm_get vals (checksum_trailer_name a) = Some (hasher_finish_b64 G P \<lparr>ch_algo = a, ch_data = acc\<rparr>))"
  using assms by (auto simp: check_trailer_sum_def in_step_def Let_def framing_abort_def split: option.splits)

lemma read_trailer_sound:
  assumes "read_trailer G s = (s', Inr vals)"
  obtains lines w where "wire s = text_lines lines @ crlf @ w" and "[] \<notin> set lines"
    and "vals = tr_values (fold trailer_line lines empty_trailer)"
    and "case kd_signing s of
        Some k \<Rightarrow> tr_sig (fold trailer_line lines empty_trailer)
          = Some (trailer_sig G k (tr_content (fold trailer_line lines empty_trailer)))
      | None \<Rightarrow> True"
    and "same_but_input s (s'\<lparr>kd_signing := kd_signing s\<rparr>)"
proof -
  obtain t acc where t: "trailer_lines empty_trailer s = (t, Inr acc)"
    using assms by (auto simp: read_trailer_def empty_trailer_def sbind_Inr_iff)
  then obtain lines where l: "same_but_input s t" "wire s = text_lines lines @ crlf @ wire t" "[] \<notin> set lines"
      "acc = fold trailer_line lines empty_trailer"
    using trailer_lines_sound by blast
  have k: "kd_signing t = kd_signing s" using same_but_input_fields [OF l(1)] by simp
  have r: "vals = tr_values acc"
      "case kd_signing s of Some k \<Rightarrow> tr_sig acc = Some (trailer_sig G k (tr_content acc)) | None \<Rightarrow> True"
      "\<exists>sg. s' = t\<lparr>kd_signing := sg\<rparr>"
    using assms t k
    by (auto simp: read_trailer_def empty_trailer_def sbind_def Let_def framing_abort_def trailer_sig_def signatures_match_def
        intro: exI [of _ "kd_signing t"] split: option.splits if_splits)
  then have "s'\<lparr>kd_signing := kd_signing s\<rparr> = t" using k by auto
  then show ?thesis using that [of lines "wire t"] l r unfolding l(4) by blast
qed

lemma terminal_frame_sound:
  assumes "terminal_frame G P dsig s = (s', Inr ())" and "in_step opts acc s"
  shows "\<exists>sg' lines w. signed_step G (kd_signing s) dsig EMPTY_PAYLOAD_SHA256 sg' \<and> trailer_ok G P opts sg' acc lines
     \<and> wire s = text_lines lines @ crlf @ w"
proof -
  obtain t where t: "verify_chunk_signature G dsig EMPTY_PAYLOAD_SHA256 s = (t, Inr ())"
    using assms(1) unfolding terminal_frame_def sbind_Inr_iff by auto
  then obtain sg' where sg: "signed_step G (kd_signing s) dsig EMPTY_PAYLOAD_SHA256 sg'" and "t = s\<lparr>kd_signing := sg'\<rparr>"
    unfolding verify_chunk_signature_iff by blast
  with t have v: "verify_chunk_signature G dsig EMPTY_PAYLOAD_SHA256 s = (s\<lparr>kd_signing := sg'\<rparr>, Inr ())" by simp
  let ?t = "s\<lparr>kd_signing := sg'\<rparr>"
  have step: "in_step opts acc ?t" using assms(2) by (simp add: in_step_def)
  show ?thesis
  proof (cases "ko_expect_trailer opts")
    case True
    obtain u vals u' where r: "read_trailer G ?t = (u, Inr vals)" and c: "check_trailer_sum G P vals u = (u', Inr ())"
      using assms True v by (auto simp: terminal_frame_def sbind_Inr_iff sget_def in_step_def)
    from r obtain lines w where l: "wire ?t = text_lines lines @ crlf @ w" "[] \<notin> set lines"
        "vals = tr_values (fold trailer_line lines empty_trailer)"
        "case sg' of Some k \<Rightarrow> tr_sig (fold trailer_line lines empty_trailer)
            = Some (trailer_sig G k (tr_content (fold trailer_line lines empty_trailer)))
          | None \<Rightarrow> True"
        "same_but_input ?t (u\<lparr>kd_signing := sg'\<rparr>)"
      by (rule read_trailer_sound) simp
    have "in_step opts acc u" using in_step_input [OF l(5) step] by (simp add: in_step_def)
    then have "trailer_ok G P opts sg' acc lines"
      using check_trailer_sum_iff [of opts acc u G P vals] c l True by (auto simp: trailer_ok_def Let_def split: option.splits)
    then show ?thesis using sg l(1) by auto
  next
    case False
    then obtain u u' where r: "read_line ?t = (u, Inr [])" and c: "check_trailer_sum G P [] u = (u', Inr ())"
      using assms v
      by (auto simp: terminal_frame_def sbind_Inr_iff sget_def in_step_def framing_abort_def sret_def split: if_splits)
    have "same_but_input ?t u" "wire ?t = crlf @ wire u" using read_line_sound [OF r] by auto
    moreover from this have "trailer_ok G P opts sg' acc []"
      using check_trailer_sum_iff [OF in_step_input [OF _ step], of u G P "[]"] c False
      by (auto simp: trailer_ok_def Let_def empty_trailer_def split: option.splits)
    ultimately show ?thesis
      using sg by (intro exI [of _ sg'] exI [of _ "[]"] exI [of _ "wire u"]) (simp add: text_lines_def)
  qed
qed

lemma data_frame_sound:
  assumes "data_frame G n dsig s = (s', Inr d)" and "in_step opts acc s"
  shows "\<exists>sg'. signed_step G (kd_signing s) dsig (sha256_hex G d) sg' \<and> kd_signing s' = sg' \<and> in_step opts (acc @ d) s'
     \<and> wire s = d @ crlf @ wire s' \<and> length d = n"
proof -
  obtain t u where r: "read_exact n s = (t, Inr d)" "read_exact 2 t = (u, Inr crlf)"
    and v: "\<exists>w. verify_chunk_signature G dsig (sha256_hex G d) u = (w, Inr ())
      \<and> s' = w\<lparr>kd_checksum_hasher := map_option (\<lambda>h. hasher_update h d) (kd_checksum_hasher w)\<rparr>"
    using assms(1)
    by (auto simp: data_frame_def sbind_Inr_iff framing_abort_def supd_def sret_def crlf_def split: if_splits)
  from v obtain sg' where sg: "signed_step G (kd_signing u) dsig (sha256_hex G d) sg'"
    and s': "s' = u\<lparr>kd_signing := sg', kd_checksum_hasher := map_option (\<lambda>h. hasher_update h d) (kd_checksum_hasher u)\<rparr>"
    by (auto simp: verify_chunk_signature_iff)
  have same: "same_but_input s u" and w: "wire s = d @ crlf @ wire u" and n: "length d = n"
    using read_exact_sound [OF r(1)] read_exact_sound [OF r(2)] same_but_input_trans by auto
  have "in_step opts acc u" using in_step_input [OF same assms(2)] .
  then have "in_step opts (acc @ d) s'"
    unfolding s' in_step_def by (cases "ko_trailer_checksum opts") (simp_all add: hasher_update_def)
  then show ?thesis using sg s' w n same_but_input_fields [OF same] by (simp add: wire_def)
qed

lemma decode_frames_sound:
  "decode_frames G P s = ((ds, None), s') \<Longrightarrow> in_step opts acc s \<Longrightarrow> chunked_body G P opts (\<lambda>_. True) (kd_signing s) acc (wire s) ds"
proof (induction G P s arbitrary: ds acc s' rule: decode_frames.induct)
  case (1 G P s)
  have live: "\<not> kd_finished s" using 1(3) by (simp add: in_step_def)
  obtain r t where step: "next_chunked_frame G P s = (t, Inr r)"
    using 1(2) by (auto simp: decode_frames.simps [of G P s] split: prod.splits sum.splits)
  then obtain u line size_hex dsig n where
    l: "read_line s = (u, Inr line)" and h: "parse_frame_header line = (size_hex, dsig)"
      "from_str_radix (2 ^ 64) 16 (str_trim size_hex) = Some n" and mn: "n \<le> unat (kd_max_frame_bytes u)"
    and d: "if n = 0 then r = None \<and> terminal_frame G P dsig u = (t, Inr ())
          else \<exists>d. r = Some d \<and> data_frame G n dsig u = (t, Inr d)"
    using live by (rule next_chunked_frame_steps)
  have same: "same_but_input s u" and w: "wire s = as_bytes line @ crlf @ wire u" using read_line_sound [OF l] by auto
  have u: "in_step opts acc u" and k: "kd_signing u = kd_signing s" and mx: "kd_max_frame_bytes u = ko_max_frame_bytes opts"
    using in_step_input [OF same 1(3)] same_but_input_fields [OF same] by (auto simp: in_step_def)
  have fh: "frame_header line n dsig" using h by (auto simp: frame_header_def)
  show ?case
  proof (cases "n = 0")
    case True
    then have "ds = []" using 1(2) step d by (simp add: decode_frames.simps [of G P s])
    then show ?thesis
      using terminal_frame_sound [OF _ u, of G P dsig t] d True w fh k chunked_body.terminal [of "\<lambda>_. True" line _ dsig G "kd_signing s" _ P opts acc]
      by auto
  next
    case False
    then obtain x where x: "r = Some x" "data_frame G n dsig u = (t, Inr x)" using d by auto
    obtain out where out: "decode_frames G P t = ((out, None), s')" "ds = x # out"
      using 1(2) step x by (auto simp: decode_frames.simps [of G P s] split: prod.splits)
    obtain sg' where s: "signed_step G (kd_signing u) dsig (sha256_hex G x) sg'" "kd_signing t = sg'" "in_step opts (acc @ x) t"
        "wire u = x @ crlf @ wire t" "length x = n"
      using data_frame_sound [OF x(2) u] by auto
    have "chunked_body G P opts (\<lambda>_. True) sg' (acc @ x) (wire t) out" using 1(1) [OF step [symmetric] refl x(1) out(1) s(3)] s(2) by simp
    then show ?thesis
      using chunked_body.data [of "\<lambda>_. True" line x dsig opts G "kd_signing s" sg' P acc "wire t" out] fh s mn mx False w out k by auto
  qed
qed

lemma chunked_start_in_step: "in_step opts [] (chunked_start items sb opts)"
  by (cases "ko_trailer_checksum opts") (simp_all add: in_step_def chunked_start_def ChecksumHasher_new_def)

definition start_signing :: "chunked_options \<Rightarrow> chunk_signing_state option" where
  "start_signing opts = map_option (\<lambda>c. \<lparr>kg_signing_key = cg_signing_key c, kg_scope = cg_scope c,
     kg_amz_date = cg_amz_date c, kg_prev_signature = cg_seed_signature c\<rparr>) (ko_chunk_signing opts)"

subsection \<open>What is well-formed is accepted\<close>

text \<open>A line the decoder can read however it arrives.\<close>

definition fits :: "string \<Rightarrow> bool" where
  "fits l \<longleftrightarrow> rust_str l \<and> 13 \<notin> set (as_bytes l) \<and> length l < MAX_CHUNK_HEADER_LINE_BYTES"

lemma delivers_signing [simp]: "delivers (s\<lparr>kd_signing := sg\<rparr>) w = delivers s w"
  by (simp add: delivers_def wire_def)

lemma fits_run:
  assumes "delivers s (as_bytes l @ crlf @ rest)" and "fits l"
  obtains s' where "read_line s = (s', Inr l)" and "same_but_input s s'" and "delivers s' rest"
  using read_line_run [OF assms(1)] assms(2) by (auto simp: fits_def)

lemma trailer_lines_run:
  assumes "delivers s (text_lines lines @ crlf @ w)" and "\<forall>l \<in> set lines. fits l" and "[] \<notin> set lines"
  shows "\<exists>s'. trailer_lines acc s = (s', Inr (fold trailer_line lines acc)) \<and> same_but_input s s' \<and> delivers s' w"
  using assms
proof (induction lines arbitrary: acc s)
  case Nil
  have "delivers s (as_bytes [] @ crlf @ w)" "fits []"
    using Nil by (simp_all add: text_lines_def fits_def rust_str_def MAX_CHUNK_HEADER_LINE_BYTES_def)
  then obtain s' where "read_line s = (s', Inr [])" "same_but_input s s'" "delivers s' w" by (rule fits_run)
  then show ?case by (simp add: trailer_lines.simps [of acc s])
next
  case (Cons l lines)
  have "delivers s (as_bytes l @ crlf @ text_lines lines @ crlf @ w)" "fits l"
    using Cons(2,3) by (simp_all add: text_lines_def)
  then obtain t where t: "read_line s = (t, Inr l)" "same_but_input s t" "delivers t (text_lines lines @ crlf @ w)"
    by (rule fits_run)
  have "l \<noteq> []" using Cons(4) by auto
  then show ?case
    using t Cons(1) [OF t(3), of "trailer_line l acc"] Cons(3,4) same_but_input_trans [OF t(2)]
    by (auto simp: trailer_lines.simps [of acc s])
qed

lemma read_trailer_run:
  assumes "delivers s (text_lines lines @ crlf @ w)" and "\<forall>l \<in> set lines. fits l" and "[] \<notin> set lines"
    and "case kd_signing s of
        Some k \<Rightarrow> tr_sig (fold trailer_line lines empty_trailer)
          = Some (trailer_sig G k (tr_content (fold trailer_line lines empty_trailer)))
      | None \<Rightarrow> True"
  shows "\<exists>s' sg. read_trailer G s = (s'\<lparr>kd_signing := sg\<rparr>, Inr (tr_values (fold trailer_line lines empty_trailer)))
    \<and> same_but_input s s'"
proof -
  let ?acc = "fold trailer_line lines empty_trailer"
  obtain t where t: "trailer_lines empty_trailer s = (t, Inr ?acc)" "same_but_input s t" "delivers t w"
    using trailer_lines_run [OF assms(1-3)] by blast
  have k: "kd_signing t = kd_signing s" using same_but_input_fields [OF t(2)] by simp
  have "\<exists>sg. read_trailer G s = (t\<lparr>kd_signing := sg\<rparr>, Inr (tr_values ?acc))"
  proof (cases "kd_signing s")
    case None
    have "t = t\<lparr>kd_signing := kd_signing t\<rparr>" by simp
    then show ?thesis using t(1) k None unfolding read_trailer_def empty_trailer_def sbind_def by (auto intro!: exI [of _ None])
  next
    case (Some x)
    then show ?thesis
      using t(1) k assms(4)
      unfolding read_trailer_def sbind_def empty_trailer_def by (auto simp: Let_def trailer_sig_def signatures_match_def)
  qed
  then show ?thesis using t by blast
qed

lemma terminal_frame_run:
  assumes "in_step opts acc s" and "delivers s (text_lines lines @ crlf @ w)" and "\<forall>l \<in> set lines. fits l"
    and "signed_step G (kd_signing s) dsig EMPTY_PAYLOAD_SHA256 sg'" and "trailer_ok G P opts sg' acc lines"
  shows "\<exists>s'. terminal_frame G P dsig s = (s', Inr ()) \<and> kd_sideband s' = kd_sideband s"
proof -
  let ?t = "s\<lparr>kd_signing := sg'\<rparr>"
  have v: "verify_chunk_signature G dsig EMPTY_PAYLOAD_SHA256 s = (?t, Inr ())"
    using assms(4) unfolding verify_chunk_signature_iff by blast
  have x: "kd_expect_trailer s = ko_expect_trailer opts" using assms(1) by (simp add: in_step_def)
  have step: "in_step opts acc ?t" using assms(1) by (simp add: in_step_def)
  have body: "\<exists>u. (if kd_expect_trailer s then read_trailer G
        else sbind read_line (\<lambda>blank. if blank \<noteq> [] then framing_abort (invalid_argument ''expected blank line after terminal chunk'')
          else sret [])) ?t = (u, Inr (tr_values (fold trailer_line lines empty_trailer)))
      \<and> in_step opts acc u \<and> kd_sideband u = kd_sideband s"
  proof (cases "ko_expect_trailer opts")
    case True
    have "case kd_signing ?t of Some k \<Rightarrow> tr_sig (fold trailer_line lines empty_trailer)
          = Some (trailer_sig G k (tr_content (fold trailer_line lines empty_trailer))) | None \<Rightarrow> True" "[] \<notin> set lines"
      using assms(5) True by (auto simp: trailer_ok_def Let_def split: option.splits)
    then obtain u sg where u: "read_trailer G ?t = (u\<lparr>kd_signing := sg\<rparr>, Inr (tr_values (fold trailer_line lines empty_trailer)))"
        "same_but_input ?t u"
      using read_trailer_run [of ?t lines w G] assms(2,3) by (metis delivers_signing)
    have "in_step opts acc (u\<lparr>kd_signing := sg\<rparr>)" using in_step_input [OF u(2) step] by (simp add: in_step_def)
    then show ?thesis using u True x same_but_input_fields [OF u(2)] by simp
  next
    case False
    then have "lines = []" using assms(5) by (simp add: trailer_ok_def Let_def)
    then obtain u where u: "read_line ?t = (u, Inr [])" "same_but_input ?t u"
      using fits_run [of ?t "[]" w] assms(2) by (auto simp: text_lines_def fits_def rust_str_def MAX_CHUNK_HEADER_LINE_BYTES_def)
    then show ?thesis
      using \<open>lines = []\<close> False x in_step_input [OF u(2) step] same_but_input_fields [OF u(2)]
      by (simp add: sbind_def sret_def empty_trailer_def)
  qed
  then obtain u where u: "in_step opts acc u" "kd_sideband u = kd_sideband s"
    and r: "terminal_frame G P dsig s = sbind (check_trailer_sum G P (tr_values (fold trailer_line lines empty_trailer)))
      (\<lambda>_. supd (\<lambda>s. s\<lparr>kd_finished := True\<rparr>)) u"
    using v by (auto simp: terminal_frame_def sbind_def sget_def)
  obtain u' where "check_trailer_sum G P (tr_values (fold trailer_line lines empty_trailer)) u = (u', Inr ())"
    using iffD2 [OF check_trailer_sum_iff [OF u(1)], of "tr_values (fold trailer_line lines empty_trailer)" G P] assms(5)
    unfolding trailer_ok_def Let_def by blast
  moreover from this have "kd_sideband u' = kd_sideband u"
    by (auto simp: check_trailer_sum_def Let_def framing_abort_def split: option.splits if_splits)
  ultimately show ?thesis using r u(2) by (simp add: sbind_def supd_def)
qed

lemma data_frame_run:
  assumes "in_step opts acc s" and "delivers s (d @ crlf @ w)" and "signed_step G (kd_signing s) dsig (sha256_hex G d) sg'"
  shows "\<exists>s'. data_frame G (length d) dsig s = (s', Inr d) \<and> in_step opts (acc @ d) s' \<and> kd_signing s' = sg'
     \<and> delivers s' w \<and> kd_sideband s' = kd_sideband s"
proof -
  obtain t where t: "read_exact (length d) s = (t, Inr d)" "same_but_input s t" "delivers t (crlf @ w)"
    using read_exact_run [OF assms(2)] by blast
  obtain u where u: "read_exact 2 t = (u, Inr crlf)" "same_but_input t u" "delivers u w"
    using read_exact_run [OF t(3)] by (auto simp: crlf_def numeral_2_eq_2)
  have su: "same_but_input s u" using t(2) u(2) by (rule same_but_input_trans)
  let ?s' = "u\<lparr>kd_signing := sg', kd_checksum_hasher := map_option (\<lambda>h. hasher_update h d) (kd_checksum_hasher u)\<rparr>"
  have "verify_chunk_signature G dsig (sha256_hex G d) u = (u\<lparr>kd_signing := sg'\<rparr>, Inr ())"
    using assms(3) same_but_input_fields [OF su] unfolding verify_chunk_signature_iff by auto
  then have "data_frame G (length d) dsig s = (?s', Inr d)"
    using t(1) u(1) by (simp add: data_frame_def sbind_def supd_def sret_def crlf_def)
  moreover have "in_step opts (acc @ d) ?s'"
    using in_step_input [OF su assms(1)] by (cases "ko_trailer_checksum opts") (simp_all add: in_step_def hasher_update_def)
  moreover have "delivers ?s' w" using u(3) by (simp add: delivers_def wire_def)
  ultimately show ?thesis using same_but_input_fields [OF su] by auto
qed

lemma header_run:
  assumes "in_step opts acc s" and "delivers s (as_bytes line @ crlf @ w)" and "fits line" and "frame_header line n dsig"
    and "n \<le> unat (ko_max_frame_bytes opts)"
  obtains t where "same_but_input s t" and "delivers t w"
    and "next_chunked_frame G P s =
      (if n = 0 then sbind (terminal_frame G P dsig) (\<lambda>_. sret None) else sbind (data_frame G n dsig) (\<lambda>data. sret (Some data))) t"
proof -
  from assms(2,3) obtain t where t: "read_line s = (t, Inr line)" "same_but_input s t" "delivers t w" by (rule fits_run)
  have "\<not> kd_finished s" "kd_max_frame_bytes t = ko_max_frame_bytes opts"
    using assms(1) same_but_input_fields [OF t(2)] by (simp_all add: in_step_def)
  then have "next_chunked_frame G P s =
      (if n = 0 then sbind (terminal_frame G P dsig) (\<lambda>_. sret None) else sbind (data_frame G n dsig) (\<lambda>data. sret (Some data))) t"
    using t(1) assms(4,5) by (auto simp: next_chunked_frame_def frame_header_def sbind_def sget_def)
  then show ?thesis using that t by blast
qed

lemma decode_frames_run:
  "chunked_body G P opts fits sg acc w ds \<Longrightarrow> in_step opts acc s \<Longrightarrow> kd_signing s = sg \<Longrightarrow> delivers s w
     \<Longrightarrow> \<exists>s'. decode_frames G P s = ((ds, None), s') \<and> kd_sideband s' = kd_sideband s"
proof (induction arbitrary: s rule: chunked_body.induct)
  case (data line d dsig sg sg' acc w ds)
  from data(8,10) data(1,2,4) obtain t where t: "same_but_input s t" "delivers t (d @ crlf @ w)"
    "next_chunked_frame G P s =
      (if length d = 0 then sbind (terminal_frame G P dsig) (\<lambda>_. sret None)
       else sbind (data_frame G (length d) dsig) (\<lambda>data. sret (Some data))) t"
    by (rule header_run)
  have "signed_step G (kd_signing t) dsig (sha256_hex G d) sg'" using data(5,9) same_but_input_fields [OF t(1)] by simp
  then obtain u where u: "data_frame G (length d) dsig t = (u, Inr d)" "in_step opts (acc @ d) u" "kd_signing u = sg'"
      "delivers u w" "kd_sideband u = kd_sideband t"
    using data_frame_run [OF in_step_input [OF t(1) data(8)] t(2)] by blast
  have "next_chunked_frame G P s = (u, Inr (Some d))" using t(3) u(1) data(3) by (simp add: sbind_def sret_def)
  then show ?case
    using data(7) [OF u(2,3,4)] u(5) same_but_input_fields [OF t(1)] by (auto simp: decode_frames.simps [of G P s])
next
  case (terminal line lines dsig sg sg' acc w)
  from terminal(6,8) terminal(1,3) obtain t where t: "same_but_input s t" "delivers t (text_lines lines @ crlf @ w)"
    "next_chunked_frame G P s =
      (if 0 = (0 :: nat) then sbind (terminal_frame G P dsig) (\<lambda>_. sret None)
       else sbind (data_frame G 0 dsig) (\<lambda>data. sret (Some data))) t"
    by (rule header_run) simp_all
  have "signed_step G (kd_signing t) dsig EMPTY_PAYLOAD_SHA256 sg'" using terminal(4,7) same_but_input_fields [OF t(1)] by simp
  then obtain u where u: "terminal_frame G P dsig t = (u, Inr ())" "kd_sideband u = kd_sideband t"
    using terminal_frame_run [OF in_step_input [OF t(1) terminal(6)] t(2) terminal(2) _ terminal(5)] by blast
  then have "next_chunked_frame G P s = (u, Inr None)" using t(3) by (simp add: sbind_def sret_def)
  then show ?case using u(2) same_but_input_fields [OF t(1)] by (auto simp: decode_frames.simps [of G P s])
qed

lemma ok_bytes_map [simp]: "ok_bytes (map Inr pieces) = concat pieces"
  by (induction pieces) auto

lemma decode_run:
  assumes "chunked_body G P opts fits (start_signing opts) [] (concat pieces) ds"
  shows "decode_aws_chunked G P (map Inr pieces) sb opts = ((ds, None), sb)"
proof -
  let ?s = "chunked_start (map Inr pieces) sb opts"
  have "delivers ?s (concat pieces)" "kd_signing ?s = start_signing opts" "kd_sideband ?s = sb"
    by (auto simp: delivers_def wire_def chunked_start_def start_signing_def)
  then show ?thesis
    using decode_frames_run [OF assms chunked_start_in_step, of "map Inr pieces" sb] by (auto simp: decode_aws_chunked_def)
qed

subsection \<open>What a client sends\<close>

text \<open>Printable text without blanks: it is a Rust string, and trimming leaves it alone.\<close>

definition clean :: "string \<Rightarrow> bool" where
  "clean s \<longleftrightarrow> (\<forall>c \<in> set s. 33 \<le> (of_char c :: nat) \<and> (of_char c :: nat) \<le> 126)"

lemma clean_append [simp]: "clean (s @ t) \<longleftrightarrow> clean s \<and> clean t"
  by (auto simp: clean_def)

lemma clean_Cons [simp]: "clean (c # s) \<longleftrightarrow> 33 \<le> (of_char c :: nat) \<and> (of_char c :: nat) \<le> 126 \<and> clean s"
  by (auto simp: clean_def)

lemma clean_Nil [simp]: "clean []"
  by (simp add: clean_def)

lemma clean_byte: "33 \<le> (of_char c :: nat) \<Longrightarrow> (of_char c :: nat) \<le> 126 \<Longrightarrow> unat (byte_of_char c) = of_char c"
  by (simp add: byte_of_char_def unat_of_nat)

lemma clean_fits: "clean s \<Longrightarrow> length s < MAX_CHUNK_HEADER_LINE_BYTES \<Longrightarrow> fits s"
proof -
  assume s: "clean s" "length s < MAX_CHUNK_HEADER_LINE_BYTES"
  have b: "unat b < 128 \<and> b \<noteq> 13" if b: "b \<in> set (as_bytes s)" for b
  proof -
    obtain c where "b = byte_of_char c" "c \<in> set s" using b by (auto simp: as_bytes_def)
    then have "33 \<le> unat b" "unat b \<le> 126" using s(1) clean_byte [of c] by (auto simp: clean_def)
    then show ?thesis by auto
  qed
  then have "rust_str s" unfolding rust_str_def by (intro utf8_valid_ascii) auto
  then show ?thesis using s b by (auto simp: fits_def)
qed

lemma clean_split: "clean s \<Longrightarrow> utf8_split s = map (\<lambda>c. [c]) s \<and> (\<forall>w \<in> set (utf8_split s). \<not> char_ws w)"
proof (induction s)
  case (Cons c s)
  then have c: "33 \<le> (of_char c :: nat)" "(of_char c :: nat) \<le> 126" and s: "clean s" by (auto simp: clean_def)
  then have "utf8_width c = 1" "\<not> char_ws [c]" using clean_byte [OF c] by (auto simp: utf8_width_def char_ws_def)
  then show ?case using Cons(1) [OF s] by simp
qed simp

lemma clean_trim: "clean s \<Longrightarrow> str_trim s = s"
proof -
  assume "clean s"
  then have "\<forall>w \<in> set (utf8_split s). \<not> char_ws w" using clean_split by blast
  then have "dropWhile char_ws (utf8_split s) = utf8_split s" "dropWhile char_ws (rev (utf8_split s)) = rev (utf8_split s)"
    by (metis dropWhile_eq_self_iff hd_in_set, metis dropWhile_eq_self_iff hd_in_set set_rev)
  then show ?thesis by (simp add: str_trim_def)
qed

lemma hex_lower_clean: "d < 16 \<Longrightarrow> clean [hex_lower d] \<and> to_ascii_lowercase (hex_lower d) = hex_lower d"
proof -
  assume d: "d < 16"
  have v: "(of_char (hex_lower d) :: nat) = (if d < 10 then 48 + d else 87 + d)" using d by (simp add: hex_lower_def)
  then show ?thesis using d by (auto simp: clean_def to_ascii_lowercase_def less_eq_char_def)
qed

lemma hex_encode_clean: "clean (hex_encode bs) \<and> lowercase (hex_encode bs) = hex_encode bs \<and> length (hex_encode bs) = 2 * length bs"
proof (induction bs)
  case (Cons b bs)
  have "unat b < 16 * 16" using unsigned_less [of b] by simp
  then have "unat b div 16 < 16" by (rule less_mult_imp_div_less)
  then show ?case
    using Cons hex_lower_clean [of "unat b div 16"] hex_lower_clean [of "unat b mod 16"]
    by (simp add: hex_encode_def hex2_def clean_def)
qed (simp add: hex_encode_def clean_def)

lemma show_hex_clean: "clean (show_hex n) \<and> CHR '';'' \<notin> set (show_hex n)"
proof -
  have "\<forall>c \<in> set (show_hex n). \<exists>d < 16. c = hex_lower d" using show_hex_digits by blast
  then show ?thesis using hex_lower_clean hex_lower_plain by (fastforce simp: clean_def)
qed

lemma show_hex_length: "0 < k \<Longrightarrow> n < 16 ^ k \<Longrightarrow> length (show_hex n) \<le> k"
proof (induction k arbitrary: n)
  case (Suc k)
  show ?case
  proof (cases "n < 16")
    case True
    then show ?thesis by (simp add: show_hex.simps [of n])
  next
    case False
    have "n div 16 < 16 ^ k" using Suc(3) by (simp add: less_mult_imp_div_less)
    moreover have "k \<noteq> 0" using Suc(3) False by (cases k) auto
    ultimately show ?thesis using Suc(1) [of "n div 16"] False by (simp add: show_hex.simps [of n])
  qed
qed simp

text \<open>The header line of a frame, and the frames of a body chained from a signing state. \<open>advance\<close> is the state
  after a frame.\<close>

definition frame_line :: "string option \<Rightarrow> nat \<Rightarrow> string" where
  "frame_line sig n = show_hex n @ (case sig of None \<Rightarrow> [] | Some s \<Rightarrow> '';chunk-signature='' @ s)"

definition advance :: "sig_env \<Rightarrow> chunk_signing_state option \<Rightarrow> string \<Rightarrow> chunk_signing_state option" where
  "advance G sg h = map_option (\<lambda>k. k\<lparr>kg_prev_signature := chain_sig G k h\<rparr>) sg"

definition frame_sig :: "sig_env \<Rightarrow> chunk_signing_state option \<Rightarrow> string \<Rightarrow> string option" where
  "frame_sig G sg h = map_option (\<lambda>k. chain_sig G k h) sg"

definition trailer_text :: "sig_env \<Rightarrow> crypto_prims \<Rightarrow> chunked_options \<Rightarrow> chunk_signing_state option \<Rightarrow> bytes \<Rightarrow> string list" where
  "trailer_text G P opts sg body =
     (let sums = (case ko_trailer_checksum opts of
            None \<Rightarrow> []
          | Some a \<Rightarrow> [checksum_trailer_name a @ '':'' @ hasher_finish_b64 G P \<lparr>ch_algo = a, ch_data = body\<rparr>]);
          content = concat (map (\<lambda>l. l @ [CHR 0x0A]) sums) in
      if \<not> ko_expect_trailer opts then []
      else sums @ (case sg of None \<Rightarrow> [] | Some k \<Rightarrow> [''x-amz-trailer-signature:'' @ trailer_sig G k content]))"

fun encode_frames :: "sig_env \<Rightarrow> crypto_prims \<Rightarrow> chunked_options \<Rightarrow> chunk_signing_state option \<Rightarrow> bytes \<Rightarrow> bytes list \<Rightarrow> bytes" where
  "encode_frames G P opts sg acc [] =
     as_bytes (frame_line (frame_sig G sg EMPTY_PAYLOAD_SHA256) 0) @ crlf
     @ text_lines (trailer_text G P opts (advance G sg EMPTY_PAYLOAD_SHA256) acc) @ crlf"
| "encode_frames G P opts sg acc (d # ds) =
     as_bytes (frame_line (frame_sig G sg (sha256_hex G d)) (length d)) @ crlf @ d @ crlf
     @ encode_frames G P opts (advance G sg (sha256_hex G d)) (acc @ d) ds"

definition digest_sizes :: "sig_env \<Rightarrow> bool" where
  "digest_sizes G \<longleftrightarrow> (\<forall>bs. length (sv_sha256 G bs) = 32) \<and> (\<forall>k bs. length (sv_hmac G k bs) = 32)"

definition b64_text :: "crypto_prims \<Rightarrow> bool" where
  "b64_text P \<longleftrightarrow> (\<forall>bs. clean (b64_encode P bs) \<and> length (b64_encode P bs) = 4 * ((length bs + 2) div 3))"

lemma signature_text:
  assumes "digest_sizes G"
  shows "clean (hex_hmac_sha256 G key m)" "length (hex_hmac_sha256 G key m) = 64"
    "lowercase (hex_hmac_sha256 G key m) = hex_hmac_sha256 G key m"
  using assms hex_encode_clean by (simp_all add: hex_hmac_sha256_def digest_sizes_def)

lemma checksum_text:
  assumes "digest_sizes G" and "b64_text P"
  shows "clean (hasher_finish_b64 G P h)" "length (hasher_finish_b64 G P h) \<le> 44"
  using assms by (cases "ch_algo h"; simp add: hasher_finish_b64_def b64_text_def digest_sizes_def to_be_u32_def)+

lemma frame_line_ok:
  assumes "n < 2 ^ 64" and "digest_sizes G"
  shows "fits (frame_line (frame_sig G sg h) n)" and "frame_header (frame_line (frame_sig G sg h) n) n (frame_sig G sg h)"
proof -
  have sig: "clean s \<and> length s = 64" if "frame_sig G sg h = Some s" for s
    using that signature_text [OF assms(2)] by (auto simp: frame_sig_def chain_sig_def)
  have len: "length (show_hex n) \<le> 16" using show_hex_length [of 16 n] assms(1) by simp
  have "clean (frame_line (frame_sig G sg h) n)" "length (frame_line (frame_sig G sg h) n) < MAX_CHUNK_HEADER_LINE_BYTES"
    using sig show_hex_clean len
    by (auto simp: frame_line_def MAX_CHUNK_HEADER_LINE_BYTES_def split: option.splits)
  then show "fits (frame_line (frame_sig G sg h) n)" by (rule clean_fits)
  have num: "from_str_radix (2 ^ 64) 16 (str_trim (show_hex n)) = Some n"
    using from_str_radix_show_hex [OF assms(1)] clean_trim show_hex_clean by simp
  show "frame_header (frame_line (frame_sig G sg h) n) n (frame_sig G sg h)"
  proof (cases "frame_sig G sg h")
    case None
    have "split_once CHR '';'' (show_hex n) = None" using show_hex_clean [of n] by (simp add: split_once_None)
    then show ?thesis using num None by (simp add: frame_header_def frame_line_def parse_frame_header_def)
  next
    case (Some s)
    have "split_once CHR '';'' (frame_line (frame_sig G sg h) n) = Some (show_hex n, ''chunk-signature='' @ s)"
      using show_hex_clean [of n] Some by (simp add: split_once_Some frame_line_def)
    moreover have "str_trim (''chunk-signature='' @ s) = ''chunk-signature='' @ s"
      using sig [OF Some] by (intro clean_trim) simp
    moreover have "strip_prefix ''chunk-signature='' (''chunk-signature='' @ s) = Some s" by (simp only: strip_prefix_Some)
    ultimately show ?thesis using num Some by (simp add: frame_header_def parse_frame_header_def)
  qed
qed

lemma to_ascii_lowercase_plain:
  assumes "(of_char c :: nat) < 65 \<or> 90 < (of_char c :: nat)"
  shows "to_ascii_lowercase c = c"
  using assms by (auto simp: to_ascii_lowercase_def less_eq_char_def)

lemma checksum_line:
  assumes "clean v"
  shows "trailer_line (checksum_trailer_name a @ '':'' @ v) empty_trailer =
    \<lparr>tr_content = checksum_trailer_name a @ '':'' @ v @ [CHR 0x0A], tr_sig = None, tr_values = [(checksum_trailer_name a, v)]\<rparr>"
proof -
  have n: "CHR '':'' \<notin> set (checksum_trailer_name a)" "clean (checksum_trailer_name a)"
      "lowercase (checksum_trailer_name a) = checksum_trailer_name a"
    by (cases a; simp add: checksum_trailer_name_def to_ascii_lowercase_plain)+
  have "strip_prefix ''x-amz-trailer-signature:'' (lowercase (checksum_trailer_name a @ '':'' @ v)) = None"
    by (cases a) (simp_all add: checksum_trailer_name_def to_ascii_lowercase_plain)
  moreover have "split_once CHR '':'' (checksum_trailer_name a @ '':'' @ v) = Some (checksum_trailer_name a, v)"
    using n(1) by (simp add: split_once_Some)
  ultimately show ?thesis
    using n clean_trim [OF assms] clean_trim [OF n(2)] by (simp add: trailer_line_def empty_trailer_def)
qed

lemma signature_line:
  assumes "clean v" and "lowercase v = v"
  shows "trailer_line (''x-amz-trailer-signature:'' @ v) acc = acc\<lparr>tr_sig := Some v\<rparr>"
proof -
  have "lowercase (''x-amz-trailer-signature:'' @ v) = ''x-amz-trailer-signature:'' @ v"
    using assms(2) by (simp add: to_ascii_lowercase_plain)
  moreover have "strip_prefix ''x-amz-trailer-signature:'' (''x-amz-trailer-signature:'' @ v) = Some v"
    by (simp only: strip_prefix_Some)
  ultimately show ?thesis using clean_trim [OF assms(1)] by (simp add: trailer_line_def)
qed

lemma trailer_text_ok:
  assumes "digest_sizes G" and "b64_text P" and "ko_trailer_checksum opts \<noteq> None \<longrightarrow> ko_expect_trailer opts"
  shows "trailer_ok G P opts sg acc (trailer_text G P opts sg acc)"
    and "\<forall>l \<in> set (trailer_text G P opts sg acc). fits l"
proof -
  have sig: "clean (trailer_sig G k c)" "length (trailer_sig G k c) = 64" "lowercase (trailer_sig G k c) = trailer_sig G k c" for k c
    using signature_text [OF assms(1)] by (simp_all add: trailer_sig_def)
  note sum = checksum_text [OF assms(1,2)]
  show "trailer_ok G P opts sg acc (trailer_text G P opts sg acc)"
    using assms(3) sig checksum_line [OF sum(1)] signature_line [OF sig(1,3)]
    by (cases "ko_trailer_checksum opts"; cases sg)
      (auto simp: trailer_ok_def trailer_text_def Let_def empty_trailer_def)
  have name: "clean (checksum_trailer_name a)" "length (checksum_trailer_name a) \<le> 21" for a
    by (cases a; simp add: checksum_trailer_name_def)+
  have "fits (checksum_trailer_name a @ '':'' @ hasher_finish_b64 G P h)" for a h
    using sum [of h] name [of a] by (intro clean_fits) (auto simp: MAX_CHUNK_HEADER_LINE_BYTES_def)
  moreover have "fits (''x-amz-trailer-signature:'' @ trailer_sig G k c)" for k c
    using sig by (intro clean_fits) (simp_all add: MAX_CHUNK_HEADER_LINE_BYTES_def)
  ultimately show "\<forall>l \<in> set (trailer_text G P opts sg acc). fits l"
    by (auto simp: trailer_text_def Let_def split: option.splits if_splits)
qed

lemma signed_step_advance: "signed_step G sg (frame_sig G sg h) h (advance G sg h)"
  by (cases sg) (simp_all add: signed_step_def frame_sig_def advance_def)

lemma encode_frames_body:
  assumes "digest_sizes G" and "b64_text P" and "ko_trailer_checksum opts \<noteq> None \<longrightarrow> ko_expect_trailer opts"
    and "\<forall>d \<in> set ds. d \<noteq> [] \<and> length d \<le> unat (ko_max_frame_bytes opts)"
  shows "chunked_body G P opts fits sg acc (encode_frames G P opts sg acc ds) ds"
  using assms(4)
proof (induction ds arbitrary: sg acc)
  case Nil
  show ?case
    using chunked_body.terminal [OF frame_line_ok(1) [OF _ assms(1), of 0 sg EMPTY_PAYLOAD_SHA256] trailer_text_ok(2) [OF assms(1-3)]
        frame_line_ok(2) [OF _ assms(1)] signed_step_advance trailer_text_ok(1) [OF assms(1-3)], where w = "[]"]
    by simp
next
  case (Cons d ds)
  have d: "d \<noteq> []" "length d \<le> unat (ko_max_frame_bytes opts)" using Cons(2) by simp_all
  moreover have "unat (ko_max_frame_bytes opts) < 2 ^ 64" using unsigned_less [of "ko_max_frame_bytes opts"] by simp
  ultimately have "length d < 2 ^ 64" by simp
  from frame_line_ok [OF this assms(1)] show ?case
    unfolding encode_frames.simps using d Cons by (intro chunked_body.data) (auto, rule signed_step_advance)
qed

text \<open>A concrete setting: constant digests, base64 of the right length, a signed request with a checksum trailer.\<close>

definition sample_sig_env :: sig_env where
  "sample_sig_env = \<lparr>sv_sha256 = \<lambda>_. replicate 32 7, sv_hmac = \<lambda>_ _. replicate 32 9, sv_to_str = from_utf8\<rparr>"

definition sample_b64 :: "crypto_prims \<Rightarrow> crypto_prims" where
  "sample_b64 P = P\<lparr>b64_encode := \<lambda>bs. replicate (4 * ((length bs + 2) div 3)) CHR ''A''\<rparr>"

definition sample_options :: chunked_options where
  "sample_options = \<lparr>ko_chunk_signing = Some \<lparr>cg_signing_key = [1], cg_scope = ''20130524/us-east-1/s3/aws4_request'',
     cg_amz_date = ''20130524T000000Z'', cg_seed_signature = ''4f''\<rparr>,
     ko_trailer_checksum = Some Crc32, ko_max_frame_bytes = 1024, ko_expect_trailer = True, ko_bucket = ''b''\<rparr>"

lemma sample_sizes: "digest_sizes sample_sig_env" "b64_text (sample_b64 P)"
    "ko_trailer_checksum sample_options \<noteq> None \<longrightarrow> ko_expect_trailer sample_options"
    "\<forall>d \<in> set [[65, 66], [67]]. d \<noteq> [] \<and> length d \<le> unat (ko_max_frame_bytes sample_options)"
  by (simp_all add: digest_sizes_def sample_sig_env_def b64_text_def sample_b64_def sample_options_def clean_def)

lemma decode_sound:
  assumes "decode_aws_chunked G P items sb opts = ((ds, None), sb')"
  shows "chunked_body G P opts (\<lambda>_. True) (start_signing opts) [] (ok_bytes items) ds"
proof -
  obtain s' where "decode_frames G P (chunked_start items sb opts) = ((ds, None), s')"
    using assms by (auto simp: decode_aws_chunked_def split: prod.splits)
  from decode_frames_sound [OF this chunked_start_in_step] show ?thesis
    by (simp add: chunked_start_def start_signing_def wire_def)
qed

text \<open>C5. Whatever the transport delivers, if the \<open>aws-chunked\<close> decoder ends without an error then the bytes that
  arrived begin with the frames it gave out, in that order and with nothing between them: each within the frame limit and
  with its length in its header, each signed, when the request is, by the next signature of the chain that starts at the
  request's own, then a signed terminal frame, and a trailer, where one is expected, with the right signature and the
  right checksum of the frames. Bytes after that are not looked at: the decoder drops them, signed or not, and they never
  reach the object.\<close>

theorem decode_accepts_only_signed:
  assumes "decode_aws_chunked G P items sb opts = ((ds, None), sb')"
  shows "chunked_body G P opts (\<lambda>_. True) (start_signing opts) [] (ok_bytes items) ds"
  using assms by (rule decode_sound)

theorem decode_accepts_only_signed_witness:
  "\<exists>pieces. decode_aws_chunked sample_sig_env (sample_b64 keyed_prims) (map Inr pieces) None sample_options
       = (([[65, 66], [67]], None), None)
     \<and> chunked_body sample_sig_env (sample_b64 keyed_prims) sample_options (\<lambda>_. True) (start_signing sample_options) []
         (ok_bytes (map Inr pieces)) [[65, 66], [67]]"
proof -
  let ?w = "encode_frames sample_sig_env (sample_b64 keyed_prims) sample_options (start_signing sample_options) [] [[65, 66], [67]]"
  have "decode_aws_chunked sample_sig_env (sample_b64 keyed_prims) (map Inr [?w]) None sample_options = (([[65, 66], [67]], None), None)"
    by (rule decode_run) (simp only: concat.simps append_Nil2 encode_frames_body [OF sample_sizes])
  then show ?thesis using decode_accepts_only_signed by blast
qed

text \<open>C23. An upload that a client encodes as \<open>aws-chunked\<close>, signed or not and with or without a checksum in the
  trailer, decodes to exactly its frames, without an error, however the transport cuts the text into pieces; the
  frames are not empty and within the configured limit.\<close>

theorem chunked_upload_round_trip:
  assumes "digest_sizes G" and "b64_text P" and "ko_trailer_checksum opts \<noteq> None \<longrightarrow> ko_expect_trailer opts"
    and "\<forall>d \<in> set ds. d \<noteq> [] \<and> length d \<le> unat (ko_max_frame_bytes opts)"
    and "concat pieces = encode_frames G P opts (start_signing opts) [] ds"
  shows "decode_aws_chunked G P (map Inr pieces) sb opts = ((ds, None), sb)"
  using decode_run [of G P opts pieces ds sb] encode_frames_body [OF assms(1-4), of "start_signing opts" "[]"] assms(5) by simp

theorem chunked_upload_round_trip_witness:
  "\<exists>w. w \<noteq> [] \<and> decode_aws_chunked sample_sig_env (sample_b64 keyed_prims) (map Inr [take 20 w, [], drop 20 w]) None sample_options
     = (([[65, 66], [67]], None), None)"
proof -
  let ?w = "encode_frames sample_sig_env (sample_b64 keyed_prims) sample_options (start_signing sample_options) [] [[65, 66], [67]]"
  have "concat [take 20 ?w, [], drop 20 ?w] = ?w" by (simp del: encode_frames.simps)
  moreover have "?w \<noteq> []" by (simp add: crlf_def)
  ultimately show ?thesis using chunked_upload_round_trip [OF sample_sizes] by blast
qed

subsection \<open>A whole upload\<close>

lemma leashed_all: "leashed same l obs chunks = (out, l', None) \<Longrightarrow> length out < length obs \<Longrightarrow> out = chunks"
  by (induction same l obs chunks arbitrary: out rule: leashed.induct) (auto split: prod.splits sum.splits)

lemma stream_items_bytes: "stream_items items = (cs, None) \<Longrightarrow> concat cs = ok_bytes items"
  by (induction items arbitrary: cs rule: stream_items.induct) (auto split: prod.splits)

lemma leashed_upload_through:
  "leashed_upload same l obs bucket ((chunks, err), sb) = ((out, None), sb') \<Longrightarrow> length out < length obs
     \<Longrightarrow> out = chunks \<and> err = None \<and> sb' = sb"
  by (auto simp: leashed_upload_def split: prod.splits option.splits dest: leashed_all)

lemma verify_at_eof_through:
  "verify_at_eof G P v bucket r = ((chunks, None), sb') \<Longrightarrow>
     r = ((chunks, None), sb') \<and> verifier_finish G P v (concat chunks) = Inr ()"
  by (auto simp: verify_at_eof_def split: prod.splits option.splits sum.splits)

text \<open>The options of the decoder, and what the signed payload declaration says of the bytes that arrive.\<close>

definition upload_options :: "s3_authenticated \<Rightarrow> checksum_algo option \<Rightarrow> u64 \<Rightarrow> string \<Rightarrow> chunked_options" where
  "upload_options auth trailer_checksum max_frame_bytes bucket =
     \<lparr>ko_chunk_signing = sa_chunk_signing auth, ko_trailer_checksum = trailer_checksum, ko_max_frame_bytes = max_frame_bytes,
      ko_expect_trailer = has_trailer (sa_payload auth), ko_bucket = bucket\<rparr>"

definition body_as_declared :: "sig_env \<Rightarrow> crypto_prims \<Rightarrow> chunked_options \<Rightarrow> payload_hash \<Rightarrow> bytes \<Rightarrow> bytes list \<Rightarrow> bool" where
  "body_as_declared G P opts h arrived chunks \<longleftrightarrow>
     (case h of
        Exact hex \<Rightarrow> concat chunks = arrived \<and> sha256_hex G arrived = hex
      | Unsigned \<Rightarrow> concat chunks = arrived
      | _ \<Rightarrow> chunked_body G P opts (\<lambda>_. True) (start_signing opts) [] arrived chunks)"

text \<open>When the body of an upload reaches its end without an error, nothing of what the request declared about it
  is left unchecked: with a literal payload hash the bytes that arrived have it, with a streaming payload they are a
  well-formed, correctly signed body of the chunks passed on, and a checksum declared in a header is the checksum of
  the chunks. (\<open>obs\<close> holds an observation of the session table for every chunk.)\<close>

lemma upload_stream_verified:
  assumes "upload_stream G P same obs payload auth headers max_frame_bytes sb bucket key = Inr ((chunks, None), sb')"
    and "length chunks < length obs"
  shows "\<exists>declared trailer_checksum.
      header_checksums G headers CHECKSUM_HEADERS None = Inr declared
      \<and> (case header_str G headers ''x-amz-trailer'' of
           None \<Rightarrow> Inr None | Some v \<Rightarrow> trailer_names (split_on CHR '','' v)) = Inr trailer_checksum
      \<and> body_as_declared G P (upload_options auth trailer_checksum max_frame_bytes bucket) (sa_payload auth)
          (ok_bytes (map (map_sum (map_payload_read_error bucket key) (\<lambda>c. c)) payload)) chunks
      \<and> (case declared of
           None \<Rightarrow> True
         | Some (algo, v) \<Rightarrow> hasher_finish_b64 G P \<lparr>ch_algo = algo, ch_data = concat chunks\<rparr> = v)"
proof -
  let ?base = "map (map_sum (map_payload_read_error bucket key) (\<lambda>c. c)) payload"
  obtain declared t where d: "header_checksums G headers CHECKSUM_HEADERS None = Inr declared"
    and t: "(case header_str G headers ''x-amz-trailer'' of None \<Rightarrow> Inr None | Some v \<Rightarrow> trailer_names (split_on CHR '','' v)) = Inr t"
    using assms(1) unfolding upload_stream_def Let_def by auto
  define decoded where "decoded = (case sa_payload auth of
      Exact hex \<Rightarrow> verify_at_eof G P (PayloadSha256 hex) bucket (stream_items ?base, sb)
    | Unsigned \<Rightarrow> (stream_items ?base, sb)
    | _ \<Rightarrow> decode_aws_chunked G P ?base sb (upload_options auth t max_frame_bytes bucket))"
  define checksummed where "checksummed = (case declared of
      Some (algo, expected) \<Rightarrow> verify_at_eof G P (ChecksumHeader algo expected) bucket decoded | None \<Rightarrow> decoded)"
  have "leashed_upload same (sa_leash auth) obs bucket checksummed = ((chunks, None), sb')"
    using assms(1) d t unfolding upload_stream_def Let_def checksummed_def decoded_def upload_options_def by simp
  then have c: "checksummed = ((chunks, None), sb')"
    using leashed_upload_through [OF _ assms(2)] by (metis prod.collapse)
  then have dec: "decoded = ((chunks, None), sb')"
    and sum: "case declared of None \<Rightarrow> True | Some (algo, v) \<Rightarrow> verifier_finish G P (ChecksumHeader algo v) (concat chunks) = Inr ()"
    unfolding checksummed_def by (auto split: option.splits dest: verify_at_eof_through simp del: verifier_finish.simps)
  have "body_as_declared G P (upload_options auth t max_frame_bytes bucket) (sa_payload auth) (ok_bytes ?base) chunks"
  proof (cases "sa_payload auth")
    case (Exact hex)
    then have "stream_items ?base = (chunks, None)" "verifier_finish G P (PayloadSha256 hex) (concat chunks) = Inr ()"
      using dec verify_at_eof_through [of G P "PayloadSha256 hex"] unfolding decoded_def by fastforce+
    then show ?thesis using Exact stream_items_bytes by (auto simp: body_as_declared_def split: if_splits)
  next
    case Unsigned
    then show ?thesis using dec stream_items_bytes by (simp add: body_as_declared_def decoded_def)
  qed (use dec in \<open>auto simp: body_as_declared_def decoded_def intro: decode_sound\<close>)
  moreover have "case declared of None \<Rightarrow> True
      | Some (algo, v) \<Rightarrow> hasher_finish_b64 G P \<lparr>ch_algo = algo, ch_data = concat chunks\<rparr> = v"
    using sum by (auto simp: Let_def split: option.splits if_splits)
  ultimately show ?thesis using d t by blast
qed

end
