(* ===== verification/S3_Auth_Laws.thy ===== *)
theory S3_Auth_Laws
  imports S3_Auth "HOL-Library.Multiset"
begin

text \<open>
  What the S3 gateway promises of an authenticated request: the percent codec and the canonical forms that
  are signed, what a verified request proves, and how far a transfer can run on after its session ended.
\<close>

subsection \<open>Percent encoding\<close>

lemma nibble: "unat (b :: byte) div 16 < 16"
  using unat_byte_less [of b] by (simp add: div_less_iff_less_mult)

lemma hex_pair:
  fixes b :: byte
  shows "percent_pair (byte_of_char (hex_upper (unat b div 16))) (byte_of_char (hex_upper (unat b mod 16))) = Some (unat b)"
proof -
  let ?a = "unat b div 16" and ?c = "unat b mod 16"
  have lt: "?a < 16" "?c < 16" by (simp_all add: nibble)
  have asc: "unat (byte_of_char (hex_upper n)) < 128" if "n < 16" for n
    using that by (auto simp: byte_of_char_def hex_upper_def)
  have "utf8_valid [byte_of_char (hex_upper ?a), byte_of_char (hex_upper ?c)]"
    by (rule utf8_valid_ascii) (use asc lt in auto)
  then have u: "from_utf8 [byte_of_char (hex_upper ?a), byte_of_char (hex_upper ?c)] = Some [hex_upper ?a, hex_upper ?c]"
    by (simp add: from_utf8_def)
  have "(of_char (hex_upper ?a) :: nat) \<noteq> 43" using lt(1) by (auto simp: hex_upper_def)
  then have "hex_upper ?a \<noteq> CHR ''+''" by auto
  moreover have "?a * 16 + ?c = unat b" by simp
  moreover have "?a < 256" using lt(1) by simp
  ultimately show ?thesis
    using lt unat_byte_less [of b] by (simp add: percent_pair_def u from_str_radix_def digit_val_hex not_le)
qed

lemma percent_loop_plain: "b \<noteq> 37 \<Longrightarrow> percent_loop (b # bs) = b # percent_loop bs"
  by (cases bs; cases "tl bs") simp_all

lemma percent_loop_encode: "percent_loop (as_bytes (percent_encode s) @ r) = as_bytes s @ percent_loop r"
proof (induction s)
  case Nil
  then show ?case by (simp add: percent_encode_def)
next
  case (Cons c s)
  show ?case
  proof (cases "is_unreserved c")
    case True
    have "c \<noteq> CHR 0x25" using True by (auto simp: is_unreserved_def is_ascii_alphanumeric_def less_eq_char_def)
    then have "byte_of_char c \<noteq> byte_of_char CHR 0x25" using inj_byte_of_char by (auto dest: injD)
    then have "byte_of_char c \<noteq> 37" by (simp add: byte_of_char_def)
    then show ?thesis using Cons True by (simp add: percent_encode_def as_bytes_def percent_loop_plain)
  next
    case False
    have "byte_of_char CHR 0x25 = 37" by (simp add: byte_of_char_def)
    then show ?thesis
      using Cons False hex_pair [of "byte_of_char c"] by (simp add: percent_encode_def as_bytes_def hex2_def)
  qed
qed

lemma percent_round_trip: "rust_str s \<Longrightarrow> percent_decode (percent_encode s) = s"
  using percent_loop_encode [of s "[]"] by (simp add: percent_decode_def from_utf8_lossy_str)

text \<open>What a lossy decoding returns is a Rust string.\<close>

lemma utf8_valid_append: "utf8_valid xs \<Longrightarrow> utf8_valid (xs @ ys) \<longleftrightarrow> utf8_valid ys"
proof (induction xs rule: length_induct)
  case (1 xs)
  show ?case
  proof (cases xs)
    case (Cons b bs)
    obtain n where n: "utf8_head (b # bs) = (n, True)" "utf8_valid (drop n (b # bs))"
      using 1(2) unfolding Cons by (rule utf8_valid_head)
    have IH: "utf8_valid (zs @ ys) \<longleftrightarrow> utf8_valid ys" if "length zs < length xs" "utf8_valid zs" for zs
      using 1(1) that by blast
    show ?thesis
      using 1(2) IH unfolding Cons by (auto simp: Let_def split: if_splits list.splits)
  qed simp
qed

lemma utf8_head_True: "utf8_head (b # bs) = (n, True) \<Longrightarrow> utf8_valid (take n (b # bs))"
proof -
  assume h: "utf8_head (b # bs) = (n, True)"
  let ?v = "unat b"
  consider "?v < 128" | "194 \<le> ?v" "?v \<le> 223" | "224 \<le> ?v" "?v \<le> 239" | "240 \<le> ?v" "?v \<le> 244"
    using h by (auto simp: utf8_head_def Let_def split: if_splits)
  then show ?thesis
  proof cases
    case 1
    then show ?thesis using h by (auto simp: utf8_head_def Let_def)
  next
    case 2
    then show ?thesis using h by (cases bs) (auto simp: utf8_head_def Let_def is_cont_def split: if_splits)
  next
    case 3
    obtain c r where c: "bs = c # r" using h 3 by (cases bs) (auto simp: utf8_head_def Let_def split: if_splits)
    then obtain d r' where "r = d # r'" using h 3 by (cases r) (auto simp: utf8_head_def Let_def split: if_splits)
    then show ?thesis using h 3 c by (auto simp: utf8_head_def Let_def is_cont_def split: if_splits)
  next
    case 4
    obtain c r where c: "bs = c # r" using h 4 by (cases bs) (auto simp: utf8_head_def Let_def split: if_splits)
    then obtain d r' where d: "r = d # r'" using h 4 by (cases r) (auto simp: utf8_head_def Let_def split: if_splits)
    then obtain e r'' where "r' = e # r''" using h 4 c by (cases r') (auto simp: utf8_head_def Let_def split: if_splits)
    then show ?thesis using h 4 c d by (auto simp: utf8_head_def Let_def is_cont_def split: if_splits)
  qed
qed

lemma lossy_is_valid: "utf8_valid (lossy_bytes bs)"
proof (induction bs rule: lossy_bytes.induct)
  case (2 b bs)
  obtain n ok where n: "utf8_head (b # bs) = (n, ok)" by (cases "utf8_head (b # bs)")
  have "utf8_valid (lossy_bytes (drop n (b # bs)))" using 2 n by metis
  moreover have "utf8_valid (if ok then take n (b # bs) else [239, 191, 189])"
    using utf8_head_True [of b bs n] n by (simp add: is_cont_def)
  ultimately show ?case unfolding lossy_bytes.simps n prod.case by (simp only: utf8_valid_append)
qed simp

lemma rust_str_decode: "rust_str (percent_decode s)"
  by (simp add: percent_decode_def from_utf8_lossy_def rust_str_def as_bytes_def comp_def lossy_is_valid)

abbreviation recode :: "string \<Rightarrow> string" where
  "recode s \<equiv> percent_encode (percent_decode s)"

lemma recode_idem: "recode (recode s) = recode s"
  by (simp add: percent_round_trip [OF rust_str_decode])

lemma hex_upper_ascii: "n < 16 \<Longrightarrow> hex_upper n \<notin> {CHR ''/'', CHR ''&'', CHR ''=''}"
proof
  assume n: "n < 16" and "hex_upper n \<in> {CHR ''/'', CHR ''&'', CHR ''=''}"
  then have "(of_char (hex_upper n) :: nat) \<in> {47, 38, 61}" by auto
  then show False using n by (auto simp: hex_upper_def split: if_splits)
qed

lemma encode_plain: "c \<in> {CHR ''/'', CHR ''&'', CHR ''=''} \<Longrightarrow> c \<notin> set (percent_encode s)"
proof -
  assume c: "c \<in> {CHR ''/'', CHR ''&'', CHR ''=''}"
  have "\<not> is_unreserved c" using c by (auto simp: is_unreserved_def is_ascii_alphanumeric_def less_eq_char_def)
  moreover have "c \<notin> set (CHR 0x25 # hex2 hex_upper b)" for b
    using c hex_upper_ascii [OF nibble, of b] hex_upper_ascii [of "unat b mod 16"]
    by (auto simp: hex2_def)
  ultimately show ?thesis by (auto simp: percent_encode_def split: if_splits)
qed

lemma percent_encode_Nil: "percent_encode s = [] \<longleftrightarrow> s = []"
  by (cases s) (auto simp: percent_encode_def)

lemma lossy_Nil: "lossy_bytes bs = [] \<longleftrightarrow> bs = []"
proof (cases bs)
  case (Cons b bs')
  obtain n ok where n: "utf8_head (b # bs') = (n, ok)" by (cases "utf8_head (b # bs')")
  then have "0 < n" using utf8_head_pos [of "b # bs'"] by simp
  then show ?thesis unfolding Cons by (simp add: n)
qed simp

lemma percent_loop_Nil: "percent_loop bs = [] \<longleftrightarrow> bs = []"
  by (cases bs rule: percent_loop.cases) (auto split: option.splits)

lemma recode_Nil: "recode s = [] \<longleftrightarrow> s = []"
  by (simp add: percent_encode_Nil percent_decode_def from_utf8_lossy_def lossy_Nil percent_loop_Nil) (simp add: as_bytes_def)

lemma split_on_nonempty: "split_on c s \<noteq> []"
  by (induction s) (auto split: list.splits)

lemma split_on_plain: "c \<notin> set s \<Longrightarrow> split_on c s = [s]"
  by (induction s) auto

lemma split_on_cons: "c \<notin> set p \<Longrightarrow> split_on c (p @ c # s) = p # split_on c s"
  by (induction p) auto

lemma split_on_join: "ss \<noteq> [] \<Longrightarrow> \<forall>s \<in> set ss. c \<notin> set s \<Longrightarrow> split_on c (join [c] ss) = ss"
  by (induction "[c]" ss rule: join.induct) (auto simp: split_on_plain split_on_cons)

lemma join_split_on: "join [c] (split_on c s) = s"
proof (induction s)
  case (Cons x s)
  obtain p ps where p: "split_on c s = p # ps" using split_on_nonempty [of c s] by (cases "split_on c s") auto
  then show ?case using Cons by (cases ps) auto
qed simp

lemma canonical_uri_again: "canonical_uri (canonical_uri path) = canonical_uri path"
proof (cases "path = [] \<or> path = ''/''")
  case False
  let ?segs = "map recode (split_on CHR ''/'' path)"
  have c: "canonical_uri path = join ''/'' ?segs" using False by (simp add: canonical_uri_def)
  have split: "split_on CHR ''/'' (join ''/'' ?segs) = ?segs"
    using encode_plain split_on_nonempty by (intro split_on_join) auto
  have "join ''/'' ?segs \<noteq> [] \<and> join ''/'' ?segs \<noteq> ''/''"
  proof (intro conjI notI)
    assume "join ''/'' ?segs = []"
    then have "?segs = [[]]" using split by simp
    then have "split_on CHR ''/'' path = [[]]" by (auto simp: recode_Nil)
    then show False using False join_split_on [of "CHR ''/''" path] by simp
  next
    assume "join ''/'' ?segs = ''/''"
    then have "?segs = [[], []]" using split by simp
    then have "split_on CHR ''/'' path = [[], []]" by (auto simp: recode_Nil)
    then show False using False join_split_on [of "CHR ''/''" path] by simp
  qed
  then show ?thesis unfolding c by (simp add: canonical_uri_def split comp_def recode_idem)
qed (auto simp: canonical_uri_def)

lemma sort_perm: "mset xs = mset ys \<Longrightarrow> sort xs = sort ys"
  by (metis properties_for_sort mset_sort sorted_sort)

lemma canonical_query_perm:
  assumes "mset (split_on CHR ''&'' q) = mset (split_on CHR ''&'' q')"
  shows "canonical_query_string q = canonical_query_string q'"
proof -
  have "sort (filter (\<lambda>(k, _). k \<noteq> ''X-Amz-Signature'') (map query_pair (filter (\<lambda>p. p \<noteq> []) (split_on CHR ''&'' q))))
      = sort (filter (\<lambda>(k, _). k \<noteq> ''X-Amz-Signature'') (map query_pair (filter (\<lambda>p. p \<noteq> []) (split_on CHR ''&'' q'))))"
    by (rule sort_perm) (use assms in \<open>simp add: mset_filter\<close>)
  then show ?thesis by (simp add: canonical_query_string_def)
qed

text \<open>Canonicalising a canonical query changes nothing.\<close>

lemma query_pair_line:
  assumes "k = recode k0" and "v = recode v0"
  shows "query_pair (k @ ''='' @ v) = (k, v)" and "CHR ''&'' \<notin> set (k @ ''='' @ v)" and "k @ ''='' @ v \<noteq> []"
proof -
  have "CHR ''='' \<notin> set k" using encode_plain assms(1) by auto
  then have "split_once CHR ''='' (k @ ''='' @ v) = Some (k, v)" by (simp add: split_once_Some)
  then show "query_pair (k @ ''='' @ v) = (k, v)" using assms by (simp add: query_pair_def recode_idem)
  show "CHR ''&'' \<notin> set (k @ ''='' @ v)" "k @ ''='' @ v \<noteq> []" using encode_plain assms by auto
qed

lemma canonical_query_again: "canonical_query_string (canonical_query_string q) = canonical_query_string q"
proof -
  let ?f = "\<lambda>(k, v). k @ ''='' @ v"
  define ps where "ps = sort (filter (\<lambda>(k, _). k \<noteq> ''X-Amz-Signature'') (map query_pair (filter (\<lambda>p. p \<noteq> []) (split_on CHR ''&'' q))))"
  have c: "canonical_query_string q = join ''&'' (map ?f ps)" by (simp add: canonical_query_string_def ps_def)
  have mem: "\<exists>k0 v0. fst p = recode k0 \<and> snd p = recode v0" "fst p \<noteq> ''X-Amz-Signature''" if "p \<in> set ps" for p
    using that by (auto simp: ps_def query_pair_def split_beta)
  have line: "query_pair (?f p) = p" "CHR ''&'' \<notin> set (?f p)" "?f p \<noteq> []" if p: "p \<in> set ps" for p
  proof -
    obtain k0 v0 where "fst p = recode k0" "snd p = recode v0" using mem(1) [OF p] by blast
    then show "query_pair (?f p) = p" "CHR ''&'' \<notin> set (?f p)" "?f p \<noteq> []"
      using query_pair_line [of "fst p" k0 "snd p" v0] by (cases p, simp)+
  qed
  show ?thesis
  proof (cases "ps = []")
    case True
    then show ?thesis by (simp add: c) (simp add: canonical_query_string_def)
  next
    case False
    have "split_on CHR ''&'' (join ''&'' (map ?f ps)) = map ?f ps"
      using False line(2) by (intro split_on_join) auto
    moreover have "filter (\<lambda>p. p \<noteq> []) (map ?f ps) = map ?f ps" using line(3) by (simp add: filter_id_conv)
    moreover have "map query_pair (map ?f ps) = ps" using line(1) by (simp add: comp_def map_idI)
    moreover have "filter (\<lambda>(k, _). k \<noteq> ''X-Amz-Signature'') ps = ps"
      using mem(2) by (intro filter_True) fastforce
    moreover have "sort ps = ps" by (simp add: ps_def sorted_sort_id)
    ultimately have "canonical_query_string (join ''&'' (map ?f ps)) = join ''&'' (map ?f ps)"
      unfolding canonical_query_string_def by (simp only:)
    then show ?thesis by (simp only: c)
  qed
qed

subsection \<open>What a verified request proves\<close>

lemma check_scope_Inr: "check_scope cfg p = Inr () \<longleftrightarrow> cs_service (sr_scope p) = ''s3'' \<and> cs_region (sr_scope p) = sg_region cfg
    \<and> cs_date (sr_scope p) = (case str_prefix 8 (sr_amz_date p) of Some d \<Rightarrow> d | None \<Rightarrow> [])"
  by (simp add: check_scope_def Let_def)

lemma check_skew_Inr: "check_skew cfg C p = Inr t \<longleftrightarrow> parse_amz_date (sr_amz_date p) = Inr t
    \<and> (sr_presigned_expires p = None \<longrightarrow> skew_secs (ck_now C) t \<le> unat (sg_max_clock_skew_secs cfg))"
  by (auto simp: check_skew_def not_less)

lemma check_presigned_Inr: "check_presigned C p t cred session = Inr () \<longleftrightarrow>
    (\<forall>e. sr_presigned_expires p = Some e \<longrightarrow> 1 \<le> unat e \<and> unat e \<le> 604800 \<and> ck_now C < t + unat e * NANOS
       \<and> ck_now C < sc_expires_at cred \<and> ck_now C < si_expires_at session)"
  by (auto simp: check_presigned_def Let_def not_le split: option.split)

lemma live_session_Inr:
  "live_session C enforce akid g = (g', Inr (cred, auth)) \<longleftrightarrow>
    g' = g \<and> dm_get (cr_inner (s3_credentials (gw_s3 g))) akid = Some cred \<and> ck_now C < sc_expires_at cred
    \<and> (\<exists>session. dm_get (st_inner (gw_sessions g)) (sc_token_hash cred) = Some session \<and> ck_lookup C < si_expires_at session
         \<and> (enforce \<longrightarrow> si_role session \<noteq> Disabled)
         \<and> auth = \<lparr>au_username = si_username session, au_role = si_role session, au_token_hash = sc_token_hash cred,
                   au_session = session, au_authz_enforced = enforce\<rparr>)"
  by (auto simp: live_session_def cred_get_def cred_expired_def authenticate_token_hash_def get_active_def is_expired_def not_le
      split: option.splits sum.splits prod.splits if_splits)

text \<open>What a request has to bring, and what it then gets.\<close>

definition admissible :: "sig_env \<Rightarrow> sec_env \<Rightarrow> s3_config \<Rightarrow> bool \<Rightarrow> clock \<Rightarrow> http_request \<Rightarrow> gateway \<Rightarrow> signed_request \<Rightarrow> s3_credential
    \<Rightarrow> session_info \<Rightarrow> bytes \<Rightarrow> time \<Rightarrow> bool" where
  "admissible G E cfg enforce C req g p cred session secret t \<longleftrightarrow>
     parse_signed G (rq_query req) (rq_headers req) = Inr p
     \<and> cs_service (sr_scope p) = ''s3'' \<and> cs_region (sr_scope p) = sg_region cfg
     \<and> cs_date (sr_scope p) = (case str_prefix 8 (sr_amz_date p) of Some d \<Rightarrow> d | None \<Rightarrow> [])
     \<and> parse_amz_date (sr_amz_date p) = Inr t
     \<and> (sr_presigned_expires p = None \<longrightarrow> skew_secs (ck_now C) t \<le> unat (sg_max_clock_skew_secs cfg))
     \<and> (\<forall>e. sr_presigned_expires p = Some e \<longrightarrow> 1 \<le> unat e \<and> unat e \<le> 604800 \<and> ck_now C < t + unat e * NANOS
          \<and> ck_now C < si_expires_at session)
     \<and> dm_get (cr_inner (s3_credentials (gw_s3 g))) (cs_access_key_id (sr_scope p)) = Some cred \<and> ck_now C < sc_expires_at cred
     \<and> dm_get (st_inner (gw_sessions g)) (sc_token_hash cred) = Some session \<and> ck_lookup C < si_expires_at session
     \<and> (enforce \<longrightarrow> si_role session \<noteq> Disabled)
     \<and> with_secret E (cr_keyring (s3_credentials (gw_s3 g))) cred = Inr secret
     \<and> sr_signature p = hex_hmac_sha256 G (signing_key G secret (cs_date (sr_scope p)) (cs_region (sr_scope p)) ''s3'')
         (as_bytes (request_string_to_sign G req p))"

text \<open>C4. A request is accepted exactly when its credential is live, the session behind the credential is live and, when
  authentication is enforced, not disabled, the credential scope names this endpoint and the day of the request, the time stamp is within
  the permitted skew (or, for a presigned URL, the URL, the credential and the session are all still
  valid), and the signature is the HMAC of the canonical request under the key derived from the sealed
  secret. Acceptance changes nothing, and the result is bound to that session.\<close>

theorem verify_exact:
  "verify G E cfg enforce C req g = (g', Inr a) \<longleftrightarrow>
    g' = g \<and> (\<exists>p cred session secret t. admissible G E cfg enforce C req g p cred session secret t
      \<and> a = build_authenticated cfg C p cred
          \<lparr>au_username = si_username session, au_role = si_role session, au_token_hash = sc_token_hash cred,
           au_session = session, au_authz_enforced = enforce\<rparr>
          (signing_key G secret (cs_date (sr_scope p)) (cs_region (sr_scope p)) ''s3''))"
proof -
  have sig: "signatures_match x y \<longleftrightarrow> y = x" for x y by (auto simp: signatures_match_def)
  show ?thesis
    unfolding verify_def admissible_def
    by (auto simp: sbind_Inr_iff slift_def sget_def sret_def sfail_def Let_def sig check_scope_Inr check_skew_Inr check_presigned_Inr
        live_session_Inr split: if_splits)
qed

subsection \<open>The leash\<close>

text \<open>An observation in which the leash's session is gone: no live row under its token, or another row.\<close>

definition session_dead :: "(session_info \<Rightarrow> session_info \<Rightarrow> bool) \<Rightarrow> session_leash \<Rightarrow> tick \<times> session_store \<Rightarrow> bool" where
  "session_dead same l = (\<lambda>(t, st).
     case dm_get (st_inner st) (sl_token_hash l) of
       None \<Rightarrow> True | Some cur \<Rightarrow> is_expired cur (tk_now t) \<or> \<not> same cur (sl_session l))"

definition same_leash :: "session_leash \<Rightarrow> session_leash \<Rightarrow> bool" where
  "same_leash l l' \<longleftrightarrow> sl_token_hash l' = sl_token_hash l \<and> sl_session l' = sl_session l \<and> sl_recheck_bytes l' = sl_recheck_bytes l
     \<and> sl_recheck_interval l' = sl_recheck_interval l"

lemma force_dead: "session_dead same l (t, st) \<longleftrightarrow> (\<forall>ls. leash_force same t (l, st) \<noteq> (ls, Inr ()))"
  by (auto simp: session_dead_def leash_force_def get_active_def split: option.splits)

lemma note_Inr:
  assumes "leash_note same t n (l, st) = ((l', st'), Inr u)"
  shows "same_leash l l'"
    and "if sl_recheck_bytes l \<le> sl_bytes_since_check l + n \<or> sl_recheck_interval l \<le> tk_elapsed t - sl_last_check l
      then \<not> session_dead same l (t, st) \<and> sl_bytes_since_check l' = 0
      else sl_bytes_since_check l' = sl_bytes_since_check l + n"
  using assms
  by (auto simp: leash_note_def leash_force_def session_dead_def get_active_def Let_def same_leash_def
      split: option.splits prod.splits sum.splits if_splits)

lemma same_leash_dead: "same_leash l l' \<Longrightarrow> session_dead same l' o' = session_dead same l o'"
  by (cases o') (auto simp: same_leash_def session_dead_def split: option.split)

text \<open>Once the session is dead, only what is left of the byte allowance gets through.\<close>

lemma leashed_after_death:
  assumes "leashed same l obs chunks = (out, l', r)" and "length chunks \<le> length obs"
    and "\<forall>ob \<in> set obs. session_dead same l ob" and "unat (sl_recheck_bytes l) < 2 ^ 63" and "\<forall>c \<in> set chunks. length c < 2 ^ 63"
    and "unat (sl_bytes_since_check l) < unat (sl_recheck_bytes l)"
  shows "unat (sl_bytes_since_check l) + sum_list (map length out) < unat (sl_recheck_bytes l)"
  using assms
proof (induction same l obs chunks arbitrary: out rule: leashed.induct)
  case (1 same l t st obs chunk chunks)
  let ?n = "of_nat (length chunk) :: u64"
  obtain ls r0 where n: "leash_note same t ?n (l, st) = (ls, r0)" by (cases "leash_note same t ?n (l, st)")
  obtain l1 st1 where ls: "ls = (l1, st1)" by (cases ls)
  show ?case
  proof (cases r0)
    case (Inl e)
    then show ?thesis using 1(2,7) n ls by auto
  next
    case (Inr u)
    note k = note_Inr [OF n [unfolded Inr ls]]
    obtain out1 where out: "leashed same l1 obs chunks = (out1, l', r)" "out = chunk # out1"
      using 1(2) n ls Inr by (auto split: prod.splits)
    have dead: "session_dead same l (t, st)" using 1(4) by simp
    then have b: "sl_bytes_since_check l1 = sl_bytes_since_check l + ?n" "\<not> sl_recheck_bytes l \<le> sl_bytes_since_check l + ?n"
      using k(2) by (auto split: if_splits)
    have un: "unat ?n = length chunk" using 1(6) by (simp add: unat_of_nat)
    have add: "unat (sl_bytes_since_check l + ?n) = unat (sl_bytes_since_check l) + length chunk"
      using unat_add_u64 [of "sl_bytes_since_check l" ?n] un 1(5-7) by simp
    have IH: "unat (sl_bytes_since_check l1) + sum_list (map length out1) < unat (sl_recheck_bytes l1)"
    proof (rule 1(1) [OF n [unfolded ls, symmetric] refl Inr out(1)])
      show "\<forall>ob \<in> set obs. session_dead same l1 ob" using 1(4) same_leash_dead [OF k(1)] by simp
    qed (use 1(3,5,6) k(1) b add in \<open>auto simp: same_leash_def word_le_nat_alt\<close>)
    then show ?thesis using out(2) b(1) add k(1) by (simp add: same_leash_def)
  qed
qed auto

lemma leashed_append:
  assumes "leashed same l (obs1 @ obs2) (cs1 @ cs2) = (out, l', r)" and "length obs1 = length cs1"
  shows "(\<exists>out1 l1 e. leashed same l obs1 cs1 = (out1, l1, Some e) \<and> out = out1 \<and> r = Some e)
    \<or> (\<exists>l1 out2. leashed same l obs1 cs1 = (cs1, l1, None) \<and> leashed same l1 obs2 cs2 = (out2, l', r) \<and> out = cs1 @ out2)"
  using assms
proof (induction same l obs1 cs1 arbitrary: out rule: leashed.induct)
  case (1 same l t st obs chunk chunks)
  obtain l1 st1 r0 where n: "leash_note same t (of_nat (length chunk)) (l, st) = ((l1, st1), r0)"
    by (metis surj_pair)
  show ?case
  proof (cases r0)
    case (Inl e)
    then show ?thesis using 1(2) n by auto
  next
    case (Inr u)
    obtain o1 where o1: "leashed same l1 (obs @ obs2) (chunks @ cs2) = (o1, l', r)" "out = chunk # o1"
      using 1(2) n Inr by (auto split: prod.splits)
    have "(\<exists>out1 l2 e. leashed same l1 obs chunks = (out1, l2, Some e) \<and> o1 = out1 \<and> r = Some e)
      \<or> (\<exists>l2 out2. leashed same l1 obs chunks = (chunks, l2, None) \<and> leashed same l2 obs2 cs2 = (out2, l', r) \<and> o1 = chunks @ out2)"
      by (rule 1(1) [OF n [symmetric] refl Inr o1(1)]) (use 1(3) in simp)
    then show ?thesis using n Inr o1(2) by auto
  qed
qed auto

lemma leashed_keeps:
  assumes "leashed same l obs chunks = (out, l', None)" and "unat (sl_recheck_bytes l) < 2 ^ 63" and "\<forall>c \<in> set chunks. length c < 2 ^ 63"
    and "sl_bytes_since_check l < sl_recheck_bytes l"
  shows "same_leash l l' \<and> sl_bytes_since_check l' < sl_recheck_bytes l'"
  using assms
proof (induction same l obs chunks arbitrary: out rule: leashed.induct)
  case (1 same l t st obs chunk chunks)
  obtain l1 st1 r0 where n: "leash_note same t (of_nat (length chunk)) (l, st) = ((l1, st1), r0)"
    by (metis surj_pair)
  show ?case
  proof (cases r0)
    case (Inl e)
    then show ?thesis using 1(2) n by auto
  next
    case (Inr u)
    note k = note_Inr [OF n [unfolded Inr]]
    obtain o1 where o1: "leashed same l1 obs chunks = (o1, l', None)" using 1(2) n Inr by (auto split: prod.splits)
    have "same_leash l1 l' \<and> sl_bytes_since_check l' < sl_recheck_bytes l'"
    proof (rule 1(1) [OF n [symmetric] refl Inr o1])
      show "sl_bytes_since_check l1 < sl_recheck_bytes l1"
        using k 1(5) by (auto simp: same_leash_def not_le word_less_nat_alt split: if_splits)
    qed (use 1(3,4) k(1) in \<open>auto simp: same_leash_def\<close>)
    then show ?thesis using k(1) by (auto simp: same_leash_def)
  qed
qed (auto simp: same_leash_def)

lemma leashed_bound:
  assumes "length obs1 = length cs1" and "length obs2 = length cs2" and "\<forall>ob \<in> set obs2. session_dead same l ob"
    and "sl_bytes_since_check l = 0" and "0 < sl_recheck_bytes l" and "unat (sl_recheck_bytes l) < 2 ^ 63"
    and "\<forall>c \<in> set (cs1 @ cs2). length c < 2 ^ 63"
  shows "sum_list (map length (drop (length cs1) (fst (leashed same l (obs1 @ obs2) (cs1 @ cs2))))) < unat (sl_recheck_bytes l)"
proof -
  obtain out l' r where o: "leashed same l (obs1 @ obs2) (cs1 @ cs2) = (out, l', r)" by (metis surj_pair)
  have R: "0 < unat (sl_recheck_bytes l)" using assms(5) by (simp add: word_less_nat_alt)
  have len: "length out1 \<le> length cs" if "leashed same l obs cs = (out1, l1, e)" for l obs cs out1 l1 e
    using that by (induction same l obs cs arbitrary: out1 rule: leashed.induct) (auto split: prod.splits sum.splits)
  from leashed_append [OF o assms(1)] show ?thesis
  proof
    assume "\<exists>out1 l1 e. leashed same l obs1 cs1 = (out1, l1, Some e) \<and> out = out1 \<and> r = Some e"
    then have "length out \<le> length cs1" using len by blast
    then show ?thesis using o R by simp
  next
    assume "\<exists>l1 out2. leashed same l obs1 cs1 = (cs1, l1, None) \<and> leashed same l1 obs2 cs2 = (out2, l', r) \<and> out = cs1 @ out2"
    then obtain l1 out2 where s: "leashed same l obs1 cs1 = (cs1, l1, None)" "leashed same l1 obs2 cs2 = (out2, l', r)" "out = cs1 @ out2"
      by blast
    have k: "same_leash l l1" "sl_bytes_since_check l1 < sl_recheck_bytes l1"
      using leashed_keeps [OF s(1) assms(6)] assms(4,5,7) by simp_all
    have "unat (sl_bytes_since_check l1) + sum_list (map length out2) < unat (sl_recheck_bytes l1)"
      by (rule leashed_after_death [OF s(2)])
        (use assms(2,3,6,7) k same_leash_dead [OF k(1)] in \<open>auto simp: same_leash_def word_less_nat_alt\<close>)
    then show ?thesis using o s(3) k(1) by (simp add: same_leash_def)
  qed
qed

text \<open>Revocation and a switch to another persona are such deaths.\<close>

lemma revoked_dead: "session_dead same l (t, fst (revoke st (sl_token_hash l)))"
  by (simp add: session_dead_def revoke_def)

lemma switched_dead:
  assumes "\<And>a b. same a b \<Longrightarrow> si_persona a = si_persona b"
    and "dm_get (st_inner st) (sl_token_hash l) = Some row" and "si_persona row \<noteq> si_persona (sl_session l)"
  shows "session_dead same l (t, st)"
  using assms by (auto simp: session_dead_def)

text \<open>C24. A transfer does not outlive its session by more than the recheck allowance: from the chunk on at which the session
  is revoked, expired or replaced, fewer than \<open>session_recheck_bytes\<close> bytes still get through, in downloads
  and in uploads.\<close>

theorem leash_bounds_transfer:
  assumes "length obs1 = length cs1" and "length obs2 = length cs2" and "\<forall>ob \<in> set obs2. session_dead same l ob"
    and "sl_bytes_since_check l = 0" and "0 < sl_recheck_bytes l" and "unat (sl_recheck_bytes l) < 2 ^ 63"
    and "\<forall>c \<in> set (cs1 @ cs2). length c < 2 ^ 63"
  shows "sum_list (map length (drop (length cs1) (fst (leashed_download display same l (obs1 @ obs2) (cs1 @ cs2, err)))))
      < unat (sl_recheck_bytes l)
    \<and> sum_list (map length (drop (length cs1) (fst (fst (leashed_upload same l (obs1 @ obs2) bucket ((cs1 @ cs2, err), sideband))))))
      < unat (sl_recheck_bytes l)"
  using leashed_bound [OF assms] by (auto simp: leashed_download_def leashed_upload_def split: prod.splits option.splits)

theorem leash_bounds_transfer_witness:
  "\<exists>l obs. sl_recheck_bytes l = 4 \<and> fst (leashed_download (\<lambda>e. []) (=) l obs ([[1, 2], [3, 4], [5]], None)) = [[1, 2]]
     \<and> sum_list (map length (drop 1 (fst (leashed_download (\<lambda>e. []) (=) l obs ([[1, 2], [3, 4], [5]], None))))) < 4"
proof -
  obtain s where s: "dm_get (st_inner sample_store) (hash_token sample_env ''tok'') = Some s" using sample_row by blast
  define l where "l = \<lparr>sl_token_hash = hash_token sample_env ''tok'', sl_session = s, sl_bytes_since_check = 0, sl_last_check = 0,
     sl_recheck_bytes = 4, sl_recheck_interval = 1000\<rparr>"
  define t where "t = \<lparr>tk_elapsed = 0, tk_now = 5, tk_reset = 0\<rparr>"
  define gone where "gone = fst (revoke sample_store (sl_token_hash l))"
  have dead: "session_dead (=) l (t, gone)" unfolding gone_def by (rule revoked_dead)
  then have "fst (leashed_download (\<lambda>e. []) (=) l ([(t, sample_store)] @ [(t, gone), (t, gone)]) ([[1, 2]] @ [[3, 4], [5]], None)) = [[1, 2]]"
    by (simp add: leashed_download_def leash_note_def l_def t_def leash_force_def gone_def revoke_def get_active_def)
  moreover have "sum_list (map length (drop (length [[1, 2 :: byte]]) (fst (leashed_download (\<lambda>e. []) (=) l
      ([(t, sample_store)] @ [(t, gone), (t, gone)]) ([[1, 2]] @ [[3, 4], [5]], None))))) < unat (sl_recheck_bytes l)"
    by (rule conjunct1 [OF leash_bounds_transfer]) (use dead in \<open>simp_all add: l_def\<close>)
  ultimately show ?thesis
    by (intro exI [of _ l] exI [of _ "[(t, sample_store), (t, gone), (t, gone)]"]) (simp add: l_def)
qed

text \<open>Percent encoding is undone by decoding on every Rust string, and the forms that are signed are canonical: they do
  not depend on the order of the query parameters, and canonicalising them again, as for a URL that is
  already encoded, changes nothing.\<close>

lemma canonical_request_stable:
  assumes "rust_str s" and "mset (split_on CHR ''&'' q) = mset (split_on CHR ''&'' q')"
  shows "percent_decode (percent_encode s) = s \<and> canonical_uri (canonical_uri path) = canonical_uri path
    \<and> canonical_query_string q = canonical_query_string q' \<and> canonical_query_string (canonical_query_string q) = canonical_query_string q"
  using assms percent_round_trip canonical_uri_again canonical_query_perm canonical_query_again by blast

end
