(* ===== verification/Authz.thy ===== *)
theory Authz
  imports Bucket_Keys_Laws
begin

text \<open>
  Bucket authorization (\<open>crates/y2qd/src/authz.rs\<close>) and the write budget of a bucket quota
  (\<open>crates/y2qd/src/quota.rs\<close>). The storage backend is reached through \<open>storage_ops\<close>, a record of the
  calls these modules make; an authorization consults the session's bucket-key cache and then the caller's
  sealed grant, which may fill the cache, so every decision also returns the session.

  The lemmas show that capabilities never exceed the role, that a persona with neither a cached key nor a sealed
  grant that opens obtains nothing whatever its role or ACL entry (except a write-only drop box), and which denials
  are 403 and which 404.
\<close>

record caps =
  cap_read :: bool
  cap_write :: bool
  cap_admin :: bool

definition CAPS_NONE :: caps where "CAPS_NONE = \<lparr>cap_read = False, cap_write = False, cap_admin = False\<rparr>"
definition CAPS_FULL :: caps where "CAPS_FULL = \<lparr>cap_read = True, cap_write = True, cap_admin = True\<rparr>"

fun allows :: "caps \<Rightarrow> bucket_permission \<Rightarrow> bool" where
  "allows c Read = cap_read c"
| "allows c Write = cap_write c"
| "allows c WriteOnly = cap_write c"
| "allows c AdminPerm = cap_admin c"

definition intersect :: "caps \<Rightarrow> caps \<Rightarrow> caps" where
  "intersect a b = \<lparr>cap_read = (cap_read a \<and> cap_read b), cap_write = (cap_write a \<and> cap_write b),
     cap_admin = (cap_admin a \<and> cap_admin b)\<rparr>"

fun role_caps :: "role \<Rightarrow> caps" where
  "role_caps Admin = CAPS_FULL"
| "role_caps User = CAPS_FULL"
| "role_caps ReadOnly = CAPS_NONE\<lparr>cap_read := True\<rparr>"
| "role_caps Auditor = CAPS_NONE\<lparr>cap_read := True\<rparr>"
| "role_caps WriteOnlyRole = CAPS_NONE\<lparr>cap_write := True\<rparr>"
| "role_caps Disabled = CAPS_NONE"

definition role_is_global :: "role \<Rightarrow> bool" where
  "role_is_global r \<longleftrightarrow> r \<in> {Admin, Auditor}"

definition role_permits :: "role \<Rightarrow> role \<Rightarrow> bool" where
  "role_permits candidate ceiling =
     (let c = role_caps candidate;
          m = role_caps ceiling;
          caps_permitted = ((\<not> cap_read c \<or> cap_read m) \<and> (\<not> cap_write c \<or> cap_write m) \<and> (\<not> cap_admin c \<or> cap_admin m));
          global_permitted = (\<not> role_is_global candidate \<or> role_is_global ceiling)
      in caps_permitted \<and> global_permitted)"

fun grant_caps :: "bucket_permission \<Rightarrow> caps" where
  "grant_caps Read = CAPS_NONE\<lparr>cap_read := True\<rparr>"
| "grant_caps Write = \<lparr>cap_read = True, cap_write = True, cap_admin = False\<rparr>"
| "grant_caps WriteOnly = CAPS_NONE\<lparr>cap_write := True\<rparr>"
| "grant_caps AdminPerm = CAPS_FULL"

definition bucket_grant_caps :: "bucket_config \<Rightarrow> string \<Rightarrow> caps option" where
  "bucket_grant_caps cfg username =
     (case bc_owner cfg of
        Some owner \<Rightarrow> if owner = username then Some CAPS_FULL
          else map_option grant_caps (dm_get (bc_acl cfg) username)
      | None \<Rightarrow> None)"

definition is_write_only_relationship :: "bucket_config \<Rightarrow> string \<Rightarrow> bool" where
  "is_write_only_relationship cfg username =
     (case bc_owner cfg of
        Some owner \<Rightarrow> owner \<noteq> username \<and> dm_get (bc_acl cfg) username = Some WriteOnly
      | None \<Rightarrow> False)"

datatype decision = Allowed | ClaimOwnership

definition effective_caps :: "bk_env \<Rightarrow> authenticated \<Rightarrow> bucket_config \<Rightarrow> string \<Rightarrow> session_info \<times> (caps \<times> bool)" where
  "effective_caps B auth cfg bucket =
     (let rc = role_caps (au_role auth) in
      case is_visible B (au_session auth) cfg bucket of (s, real_grant) \<Rightarrow>
      (s, if real_grant \<and> role_is_global (au_role auth) then (rc, True) else
          case bucket_grant_caps cfg (au_username auth) of
            Some bc \<Rightarrow>
              if \<not> real_grant then
                if is_write_only_relationship cfg (au_username auth) then (intersect rc bc, True)
                else (CAPS_NONE, False)
              else (intersect rc bc, True)
          | None \<Rightarrow> (CAPS_NONE, False)))"

record 'st storage_ops =
  op_bucket_exists :: "'st \<Rightarrow> string \<Rightarrow> error + bool"
  op_get_bucket_config :: "'st \<Rightarrow> string \<Rightarrow> error + bucket_config"
  op_create_bucket :: "'st \<Rightarrow> string \<Rightarrow> 'st \<times> (error + bool)"
  op_set_bucket_config :: "'st \<Rightarrow> string \<Rightarrow> bucket_config \<Rightarrow> 'st \<times> (error + unit)"

definition claim_if_absent :: "'st storage_ops \<Rightarrow> 'st \<Rightarrow> string \<Rightarrow> error + decision \<Rightarrow> error + decision" where
  "claim_if_absent ops st bucket otherwise =
     rbind (op_bucket_exists ops st bucket) (\<lambda>ex. if \<not> ex then Inr ClaimOwnership else otherwise)"

definition authorize_bucket :: "bk_env \<Rightarrow> 'st storage_ops \<Rightarrow> 'st \<Rightarrow> authenticated \<Rightarrow> string \<Rightarrow> bucket_permission
    \<Rightarrow> session_info \<times> (error + decision)" where
  "authorize_bucket B ops st auth bucket required =
     (if \<not> au_authz_enforced auth then
        (au_session auth, if required = Write then claim_if_absent ops st bucket (Inr Allowed) else Inr Allowed)
      else case op_get_bucket_config ops st bucket of
        Inl e \<Rightarrow> (au_session auth, Inl e)
      | Inr cfg \<Rightarrow>
        (case effective_caps B auth cfg bucket of (s, eff, visible) \<Rightarrow>
         (s, if allows eff required then
               if bc_owner cfg = None \<and> required = Write then claim_if_absent ops st bucket (Inr Allowed) else Inr Allowed
             else
               let denied_only_by_missing_crypto_grant = (\<not> role_is_global (au_role auth)
                     \<and> (case bucket_grant_caps cfg (au_username auth) of
                          None \<Rightarrow> False
                        | Some bc \<Rightarrow> (case required of Read \<Rightarrow> cap_read bc | AdminPerm \<Rightarrow> cap_admin bc | _ \<Rightarrow> False)))
               in if visible \<and> \<not> denied_only_by_missing_crypto_grant then Inl (Forbidden bucket)
                  else if bc_owner cfg = None \<and> required = Write \<and> cap_write (role_caps (au_role auth))
                  then claim_if_absent ops st bucket (Inl (NotFound bucket []))
                  else Inl (NotFound bucket []))))"

definition claim_ownership :: "bk_env \<Rightarrow> 'st storage_ops \<Rightarrow> user_lookup \<Rightarrow> 'st \<Rightarrow> string \<Rightarrow> session_info
    \<Rightarrow> 'st \<times> (error + (bucket_config \<times> bool))" where
  "claim_ownership B ops get_user st bucket session =
     (case op_create_bucket ops st bucket of (st, r) \<Rightarrow>
      case r of Inl e \<Rightarrow> (st, Inl e) | Inr created \<Rightarrow>
      case op_get_bucket_config ops st bucket of Inl e \<Rightarrow> (st, Inl e) | Inr cfg \<Rightarrow>
      if created \<and> bc_owner cfg = None then
        (case new_owner_key B get_user bucket session of Inl e \<Rightarrow> (st, Inl e) | Inr key \<Rightarrow>
         case op_set_bucket_config ops st bucket
             (cfg\<lparr>bc_owner := Some (si_username session), bc_keys := bc_keys cfg @ [key]\<rparr>) of (st, w) \<Rightarrow>
         case w of Inl e \<Rightarrow> (st, Inl e) | Inr _ \<Rightarrow>
         (st, rbind (op_get_bucket_config ops st bucket) (\<lambda>cfg. Inr (cfg, created))))
      else (st, Inr (cfg, created)))"

definition resolve_bucket_config :: "bk_env \<Rightarrow> 'st storage_ops \<Rightarrow> user_lookup \<Rightarrow> decision \<Rightarrow> 'st \<Rightarrow> string \<Rightarrow> session_info
    \<Rightarrow> 'st \<times> (error + bucket_config)" where
  "resolve_bucket_config B ops get_user dec st bucket session =
     (case dec of
        ClaimOwnership \<Rightarrow> (case claim_ownership B ops get_user st bucket session of
          (st, r) \<Rightarrow> (st, rbind r (\<lambda>(cfg, _). Inr cfg)))
      | Allowed \<Rightarrow> (st, op_get_bucket_config ops st bucket))"

definition bucket_readable :: "bk_env \<Rightarrow> 'st storage_ops \<Rightarrow> 'st \<Rightarrow> authenticated \<Rightarrow> string \<Rightarrow> session_info \<times> (error + bool)" where
  "bucket_readable B ops st auth bucket =
     (if \<not> au_authz_enforced auth then (au_session auth, Inr True)
      else case op_get_bucket_config ops st bucket of
        Inl e \<Rightarrow> (au_session auth, Inl e)
      | Inr cfg \<Rightarrow> (case effective_caps B auth cfg bucket of (s, eff, _) \<Rightarrow> (s, Inr (cap_read eff))))"

subsection \<open>\<open>quota.rs\<close>\<close>

record write_budget_result =
  wb_max_bytes :: u64
  wb_permit :: bool

text \<open>\<open>usage\<close> and \<open>existing\<close> are the outcomes of \<open>bucket_usage\<close> and \<open>describe\<close>, read while the per-bucket
  quota lock is held.\<close>

definition write_budget :: "bucket_config \<Rightarrow> error + u64 \<Rightarrow> error + metadata \<Rightarrow> string \<Rightarrow> u64 \<Rightarrow> u64
    \<Rightarrow> error + write_budget_result" where
  "write_budget cfg usage existing bucket incoming ceiling =
     (case bc_quota_bytes cfg of
        None \<Rightarrow> Inr \<lparr>wb_max_bytes = ceiling, wb_permit = False\<rparr>
      | Some limit \<Rightarrow>
        rbind usage (\<lambda>used.
        rbind (case existing of
            Inr md \<Rightarrow> Inr (md_size md)
          | Inl (NotFound _ _) \<Rightarrow> Inr 0
          | Inl e \<Rightarrow> Inl e) (\<lambda>replaced.
        let effective_used = saturating_sub_u64 used replaced in
        if limit < saturating_add_u64 effective_used incoming
        then Inl (QuotaExceeded bucket limit effective_used incoming)
        else Inr \<lparr>wb_max_bytes = min ceiling (saturating_sub_u64 limit effective_used), wb_permit = True\<rparr>)))"

subsection \<open>Capabilities\<close>

definition caps_le :: "caps \<Rightarrow> caps \<Rightarrow> bool" where
  "caps_le a b \<longleftrightarrow> (cap_read a \<longrightarrow> cap_read b) \<and> (cap_write a \<longrightarrow> cap_write b) \<and> (cap_admin a \<longrightarrow> cap_admin b)"

lemma caps_le_allows: "caps_le a b \<Longrightarrow> allows a p \<Longrightarrow> allows b p"
  by (cases p) (auto simp: caps_le_def)

lemma caps_le_intersect: "caps_le (intersect a b) a" "caps_le (intersect a b) b"
  by (auto simp: caps_le_def intersect_def)

lemma caps_none [simp]: "\<not> allows CAPS_NONE p" "caps_le CAPS_NONE c" "\<not> cap_read CAPS_NONE"
  by (cases p; simp add: CAPS_NONE_def) (simp_all add: CAPS_NONE_def caps_le_def)

lemma allows_intersect: "allows (intersect a b) p \<longleftrightarrow> allows a p \<and> allows b p"
  by (cases p) (auto simp: intersect_def)

text \<open>The decision table of \<open>effective_caps\<close>.\<close>

lemma effective_caps_cases:
  assumes "is_visible B (au_session auth) cfg bucket = (s, grant)"
  shows "effective_caps B auth cfg bucket = (s,
    if grant \<and> role_is_global (au_role auth) then (role_caps (au_role auth), True)
    else if grant \<or> is_write_only_relationship cfg (au_username auth) then
      (case bucket_grant_caps cfg (au_username auth) of
         Some bc \<Rightarrow> (intersect (role_caps (au_role auth)) bc, True) | None \<Rightarrow> (CAPS_NONE, False))
    else (CAPS_NONE, False))"
  using assms by (auto simp: effective_caps_def Let_def is_write_only_relationship_def split: option.splits)

lemma write_only_caps: "is_write_only_relationship cfg u \<Longrightarrow> bucket_grant_caps cfg u = Some (CAPS_NONE\<lparr>cap_write := True\<rparr>)"
  by (auto simp: is_write_only_relationship_def bucket_grant_caps_def split: option.splits)

lemma resolve_read_key_ok:
  assumes "prims_ok (be_prims B)" and "en_mem (be_sec B) = None" and "cache_get (si_bucket_keys s) bucket epoch = None"
    and "identity_of (be_prims B) s = Some ident" and "length sk < 2 ^ 32"
    and "read_key B config bucket epoch (si_username s) (unat (si_persona s)) ident = Inr sk"
  shows "snd (resolve_read_key B s config bucket epoch) = Inr sk"
proof -
  obtain sealed where "seal_bucket_key (be_sec B) (si_keyring s) (si_token_hash s) bucket epoch sk = Inr sealed"
    using seal_total [OF prims_okD(1) [OF assms(1)] assms(5,2)] by (metis backend_Inr seal_bucket_key_def)
  then show ?thesis
    using assms(2-4,6) by (simp add: resolve_read_key_def cached_bucket_key_def open_identity_sk_of cache_bucket_key_def)
qed

text \<open>The two ways in which a session gets at the secret key of an epoch: from its own cache, or by opening, under its
  identity key, the slot of its persona in the grant sealed to its user.\<close>

definition key_cached :: "bk_env \<Rightarrow> session_info \<Rightarrow> string \<Rightarrow> u32 \<Rightarrow> bool" where
  "key_cached B s bucket epoch \<longleftrightarrow> (case cached_bucket_key (be_sec B) s bucket epoch of Some (Inr sk) \<Rightarrow> True | _ \<Rightarrow> False)"

definition grant_opens :: "bk_env \<Rightarrow> session_info \<Rightarrow> bucket_config \<Rightarrow> string \<Rightarrow> u32 \<Rightarrow> bool" where
  "grant_opens B s config bucket epoch \<longleftrightarrow>
     (case open_identity_sk (be_sec B) s of Inl e \<Rightarrow> False
      | Inr identity \<Rightarrow> is_ok (read_key B config bucket epoch (si_username s) (unat (si_persona s)) identity))"

lemma visible_holds_key:
  assumes "is_visible B s config bucket = (s', grant)" and grant
  shows "\<exists>kv. current_key config = Some kv \<and> (key_cached B s bucket (kv_epoch kv) \<or> grant_opens B s config bucket (kv_epoch kv))"
  using assms
  by (auto simp: is_visible_def resolve_read_key_def key_cached_def grant_opens_def is_ok_iff split: option.splits prod.splits sum.splits)

lemma grant_opens_names:
  "grant_opens B s config bucket epoch \<Longrightarrow> \<exists>kv \<in> set (bc_keys config). kv_epoch kv = epoch \<and> dm_get (kv_grants kv) (si_username s) \<noteq> None"
  by (auto simp: grant_opens_def is_ok_iff read_key_def open_bwk_def find_epoch_def find_Some_iff split: sum.splits)

subsection \<open>A small deployment\<close>

text \<open>One bucket whose configuration is the whole state of the store.\<close>

definition sample_ops :: "bucket_config option storage_ops" where
  "sample_ops = \<lparr>op_bucket_exists = (\<lambda>st b. Inr (st \<noteq> None)),
     op_get_bucket_config = (\<lambda>st b. Inr (case st of Some cfg \<Rightarrow> cfg | None \<Rightarrow> default_bucket_config)),
     op_create_bucket = (\<lambda>st b. case st of None \<Rightarrow> (Some default_bucket_config, Inr True) | Some cfg \<Rightarrow> (Some cfg, Inr False)),
     op_set_bucket_config = (\<lambda>st b cfg. (Some cfg, Inr ()))\<rparr>"

definition sample_auth :: "role \<Rightarrow> session_info \<Rightarrow> authenticated" where
  "sample_auth r s = \<lparr>au_username = si_username s, au_role = r, au_token_hash = si_token_hash s, au_session = s,
     au_authz_enforced = True\<rparr>"

definition dropbox_config :: bucket_config where
  "dropbox_config = default_bucket_config\<lparr>bc_owner := Some ''bob'', bc_acl := [(''alice'', WriteOnly)]\<rparr>"

text \<open>A configuration owned by the session's user, with a key the session has already opened and cached.\<close>

definition cached_session :: session_info where
  "cached_session = sample_session\<lparr>si_bucket_keys := \<lparr>bk_entries = [((''b'', 0), \<lparr>ss_nonce = [], ss_ct = replicate 16 0\<rparr>)],
     bk_order = [(''b'', 0)]\<rparr>\<rparr>"

definition owned_config :: bucket_config where
  "owned_config = default_bucket_config\<lparr>bc_owner := Some ''alice'',
     bc_keys := [\<lparr>kv_epoch = 0, kv_public_key_b64 = [], kv_sk_blob = \<lparr>ws_nonce = [], ws_ciphertext = []\<rparr>, kv_grants = []\<rparr>]\<rparr>"

lemma sample_ops_simps [simp]:
  "op_get_bucket_config sample_ops (Some cfg) b = Inr cfg" "op_bucket_exists sample_ops (Some cfg) b = Inr True"
  "op_create_bucket sample_ops None b = (Some default_bucket_config, Inr True)"
  "op_set_bucket_config sample_ops st b cfg = (Some cfg, Inr ())"
  by (simp_all add: sample_ops_def)

lemma sample_auth_simps [simp]:
  "au_username (sample_auth r s) = si_username s" "au_role (sample_auth r s) = r" "au_session (sample_auth r s) = s"
  "au_authz_enforced (sample_auth r s)"
  by (simp_all add: sample_auth_def)

lemma cached_visible: "snd (is_visible sample_bk_env cached_session owned_config ''b'')"
  by (simp add: is_visible_def current_key_def owned_config_def resolve_read_key_def cached_bucket_key_def cache_get_def
      cached_session_def sample_session_def open_bucket_key_def MemoryKey_open_def backend_def sample_bk_env_def
      keyed_prims_def sample_env_def)

subsection \<open>Properties of authorization\<close>

text \<open>C30. Whatever is allowed under enforced authorization is within the caller's role and, unless the role is global
  (administrators and auditors), within what the bucket's owner and access list give the caller. Moreover the
  session has the secret key of the bucket's newest epoch in its cache, or the persona's own slot of the grant sealed to
  the user in that epoch opens under the session's identity key; only a write-only drop-box user who is writing needs
  neither.\<close>

theorem allowed_needs_role_and_grant:
  assumes "au_authz_enforced auth" and "authorize_bucket B ops st auth bucket required = (s, Inr Allowed)"
  shows "\<exists>cfg. op_get_bucket_config ops st bucket = Inr cfg \<and> allows (role_caps (au_role auth)) required
    \<and> (role_is_global (au_role auth) \<or> (\<exists>bc. bucket_grant_caps cfg (au_username auth) = Some bc \<and> allows bc required))
    \<and> ((\<exists>kv. current_key cfg = Some kv \<and> (key_cached B (au_session auth) bucket (kv_epoch kv)
          \<or> grant_opens B (au_session auth) cfg bucket (kv_epoch kv)))
       \<or> is_write_only_relationship cfg (au_username auth) \<and> required \<in> {Write, WriteOnly})"
proof -
  obtain cfg where cfg: "op_get_bucket_config ops st bucket = Inr cfg"
    using assms by (cases "op_get_bucket_config ops st bucket") (auto simp: authorize_bucket_def)
  obtain v grant where v: "is_visible B (au_session auth) cfg bucket = (v, grant)"
    by (cases "is_visible B (au_session auth) cfg bucket")
  note e = effective_caps_cases [OF v]
  have "allows (fst (snd (effective_caps B auth cfg bucket))) required"
    using assms cfg by (cases "effective_caps B auth cfg bucket")
      (auto simp: authorize_bucket_def claim_if_absent_def Let_def split: if_splits)
  then have "allows (role_caps (au_role auth)) required
      \<and> (role_is_global (au_role auth) \<or> (\<exists>bc. bucket_grant_caps cfg (au_username auth) = Some bc \<and> allows bc required))
      \<and> (grant \<or> is_write_only_relationship cfg (au_username auth) \<and> required \<in> {Write, WriteOnly})"
    using write_only_caps [of cfg "au_username auth"] unfolding e
    by (cases required) (auto simp: allows_intersect CAPS_NONE_def intersect_def split: if_splits option.splits)
  then show ?thesis using cfg visible_holds_key [OF v] by blast
qed

theorem allowed_needs_role_and_grant_witness:
  "authorize_bucket sample_bk_env sample_ops (Some dropbox_config) (sample_auth User sample_session) ''b'' Write = (sample_session, Inr Allowed)
     \<and> allows (role_caps User) Write \<and> (\<exists>bc. bucket_grant_caps dropbox_config ''alice'' = Some bc \<and> allows bc Write)"
proof -
  have a: "authorize_bucket sample_bk_env sample_ops (Some dropbox_config) (sample_auth User sample_session) ''b'' Write
      = (sample_session, Inr Allowed)"
    by (simp add: authorize_bucket_def effective_caps_def is_visible_def current_key_def dropbox_config_def default_bucket_config_def
        bucket_grant_caps_def is_write_only_relationship_def role_is_global_def intersect_def CAPS_FULL_def CAPS_NONE_def Let_def)
  show ?thesis
    using allowed_needs_role_and_grant [OF _ a] a by (auto simp: role_is_global_def sample_session_def)
qed

text \<open>C32. A persona that does not hold the secret key of the bucket's newest epoch, because its session has not cached it and
  no grant of that epoch opens for it, and that has no write-only relationship, is told that an existing bucket does not
  exist, whatever it asks for and whatever its role, administrators and auditors included; the bucket is not listed
  as readable either.\<close>

theorem no_grant_hides_bucket:
  assumes "au_authz_enforced auth" and "op_get_bucket_config ops st bucket = Inr cfg"
    and "op_bucket_exists ops st bucket = Inr True"
    and "\<forall>kv. current_key cfg = Some kv \<longrightarrow> \<not> key_cached B (au_session auth) bucket (kv_epoch kv)
      \<and> \<not> grant_opens B (au_session auth) cfg bucket (kv_epoch kv)"
    and "\<not> is_write_only_relationship cfg (au_username auth)"
  shows "snd (authorize_bucket B ops st auth bucket required) = Inl (NotFound bucket [])
    \<and> snd (bucket_readable B ops st auth bucket) = Inr False"
proof -
  obtain v grant where v: "is_visible B (au_session auth) cfg bucket = (v, grant)"
    by (cases "is_visible B (au_session auth) cfg bucket")
  have "\<not> grant" using visible_holds_key [OF v] assms(4) by blast
  then have e: "effective_caps B auth cfg bucket = (v, CAPS_NONE, False)"
    using effective_caps_cases [OF v] assms(5) by simp
  show ?thesis
    using assms(1-3) by (simp add: authorize_bucket_def bucket_readable_def e Let_def claim_if_absent_def)
qed

theorem no_grant_hides_bucket_witness:
  "snd (authorize_bucket sample_bk_env sample_ops (Some (owned_config\<lparr>bc_owner := Some ''bob''\<rparr>)) (sample_auth Admin sample_session) ''b'' Read)
     = Inl (NotFound ''b'' [])"
proof -
  have "\<not> key_cached sample_bk_env sample_session ''b'' 0"
    by (simp add: key_cached_def cached_bucket_key_def cache_get_def sample_session_def empty_cache_def)
  moreover have "\<not> grant_opens sample_bk_env sample_session (owned_config\<lparr>bc_owner := Some ''bob''\<rparr>) ''b'' 0"
    using grant_opens_names [of sample_bk_env sample_session "owned_config\<lparr>bc_owner := Some ''bob''\<rparr>" "''b''" 0] by (auto simp: owned_config_def)
  ultimately show ?thesis
    using no_grant_hides_bucket [of "sample_auth Admin sample_session" sample_ops "Some (owned_config\<lparr>bc_owner := Some ''bob''\<rparr>)" "''b''"
        "owned_config\<lparr>bc_owner := Some ''bob''\<rparr>" sample_bk_env Read]
    by (simp add: current_key_def owned_config_def default_bucket_config_def is_write_only_relationship_def)
qed

text \<open>A caller who can open the bucket and whose grant covers the request, but whose role does not, is
  answered 404 and not the documented 403: the code takes the denial for a missing sealed grant.\<close>

lemma role_ceiling_denial_is_not_found:
  assumes "au_authz_enforced auth" and "op_get_bucket_config ops st bucket = Inr cfg"
    and "snd (is_visible B (au_session auth) cfg bucket)" and "\<not> role_is_global (au_role auth)"
    and "bucket_grant_caps cfg (au_username auth) = Some bc" and "required \<in> {Read, AdminPerm}"
    and "allows bc required" and "\<not> allows (role_caps (au_role auth)) required"
  shows "snd (authorize_bucket B ops st auth bucket required) = Inl (NotFound bucket [])"
proof -
  obtain v where v: "is_visible B (au_session auth) cfg bucket = (v, True)"
    using assms(3) by (cases "is_visible B (au_session auth) cfg bucket") auto
  have e: "effective_caps B auth cfg bucket = (v, intersect (role_caps (au_role auth)) bc, True)"
    using effective_caps_cases [OF v] assms(4,5) by simp
  show ?thesis
    using assms(1,2,4-8) by (auto simp: authorize_bucket_def e allows_intersect Let_def)
qed

text \<open>A persona role that \<open>role_permits\<close> accepts under an account's role never obtains a capability on any
  bucket that the account's own role would not obtain there.\<close>

lemma role_permits_monotone:
  assumes "role_permits candidate ceiling"
  shows "caps_le (fst (snd (effective_caps B (auth\<lparr>au_role := candidate\<rparr>) cfg bucket)))
    (fst (snd (effective_caps B (auth\<lparr>au_role := ceiling\<rparr>) cfg bucket)))"
proof -
  obtain v grant where v: "is_visible B (au_session auth) cfg bucket = (v, grant)"
    by (cases "is_visible B (au_session auth) cfg bucket")
  have "caps_le (role_caps candidate) (role_caps ceiling)" "role_is_global candidate \<longrightarrow> role_is_global ceiling"
    using assms by (auto simp: role_permits_def caps_le_def Let_def)
  then show ?thesis
    using effective_caps_cases [of B "auth\<lparr>au_role := candidate\<rparr>" cfg bucket v grant]
      effective_caps_cases [of B "auth\<lparr>au_role := ceiling\<rparr>" cfg bucket v grant] v
    by (auto simp: caps_le_def intersect_def CAPS_NONE_def split: option.splits)
qed

text \<open>A write within its budget keeps the bucket within its quota: what is stored, less the object being
  replaced, plus any number of bytes up to the budget is at most the limit, and the budget never
  exceeds the server's own ceiling.\<close>

lemma write_budget_within_quota:
  assumes "bc_quota_bytes cfg = Some limit" and "write_budget cfg (Inr used) existing bucket incoming ceiling = Inr wb"
    and "written \<le> unat (wb_max_bytes wb)"
  shows "unat (wb_max_bytes wb) \<le> unat ceiling \<and> wb_permit wb
    \<and> (\<exists>replaced. (case existing of Inr md \<Rightarrow> replaced = md_size md | Inl e \<Rightarrow> replaced = 0)
        \<and> (unat used - unat replaced) + written \<le> unat limit)"
proof -
  obtain replaced where r: "(case existing of Inr md \<Rightarrow> replaced = md_size md | Inl e \<Rightarrow> replaced = 0)"
    and w: "\<not> limit < saturating_add_u64 (saturating_sub_u64 used replaced) incoming"
      "wb = \<lparr>wb_max_bytes = min ceiling (saturating_sub_u64 limit (saturating_sub_u64 used replaced)), wb_permit = True\<rparr>"
    using assms(1,2) by (auto simp: write_budget_def Let_def split: sum.splits error.splits if_splits)
  have "unat used - unat replaced \<le> unat limit"
    using w(1) unsigned_less [of used, where 'a = nat]
    by (auto simp: not_less word_le_nat_alt unat_saturating_add_u64 unat_saturating_sub_u64 min_def split: if_splits)
  moreover have "unat (wb_max_bytes wb) \<le> unat limit - (unat used - unat replaced)" "unat (wb_max_bytes wb) \<le> unat ceiling"
    using w(2) by (auto simp: min_def word_le_nat_alt unat_saturating_sub_u64 split: if_splits)
  ultimately show ?thesis using r w(2) assms(3) by (intro conjI exI [of _ replaced]) auto
qed

text \<open>Claiming a new bucket gives the claimant access: after \<open>claim_ownership\<close> created the bucket and
  stored the configuration it built, a full-capability session of the claiming persona is allowed to
  read, write and administer it.\<close>

lemma claim_gives_access:
  assumes P: "prims_ok (be_prims B)" and R: "rand_ok B" and mem: "en_mem (be_sec B) = None"
    and user: "get_user (si_username s) = Inr (Some rec)"
    and pks: "map cs_identity_pk_b64 (ur_slots rec) = slot_pks (be_prims B) ids 0 CREDENTIAL_SLOTS"
    and persona: "unat (si_persona s) < CREDENTIAL_SLOTS"
    and ident: "identity_of (be_prims B) s = Some (snd (keypair (be_prims B) (ids (unat (si_persona s)))))"
    and cache: "cache_get (si_bucket_keys s) bucket 0 = None"
    and create: "op_create_bucket ops st bucket = (st1, Inr True)"
    and fresh: "op_get_bucket_config ops st1 bucket = Inr default_bucket_config"
    and set_get: "\<forall>cfg. \<exists>st2. op_set_bucket_config ops st1 bucket cfg = (st2, Inr ()) \<and> op_get_bucket_config ops st2 bucket = Inr cfg"
    and auth: "au_session auth = s" "au_username auth = si_username s" "au_role auth = User" "au_authz_enforced auth"
  shows "\<exists>st2 cfg. claim_ownership B ops get_user st bucket s = (st2, Inr (cfg, True)) \<and> bc_owner cfg = Some (si_username s)
    \<and> snd (authorize_bucket B ops st2 auth bucket required) = Inr Allowed"
proof -
  obtain kv where kv: "new_owner_key B get_user bucket s = Inr kv" "kv_epoch kv = 0"
    "\<And>config. bc_keys config = [kv] \<Longrightarrow> read_key B config bucket 0 (si_username s) (unat (si_persona s))
      (snd (keypair (be_prims B) (ids (unat (si_persona s))))) = Inr (snd (keypair (be_prims B) (be_seed B)))"
    by (rule owner_key_obtain [where get_user = get_user and s = s and bucket = bucket, OF P R user pks persona mem]) blast
  let ?cfg = "default_bucket_config\<lparr>bc_owner := Some (si_username s), bc_keys := [kv]\<rparr>"
  obtain st2 where st2: "op_set_bucket_config ops st1 bucket ?cfg = (st2, Inr ())" "op_get_bucket_config ops st2 bucket = Inr ?cfg"
    using set_get by blast
  have "claim_ownership B ops get_user st bucket s = (st2, Inr (?cfg, True))"
    using create fresh kv(1) st2 by (simp add: claim_ownership_def default_bucket_config_def)
  moreover have "length (snd (keypair (be_prims B) (be_seed B))) < 2 ^ 32" by (rule secret_key_short [OF P])
  then have "snd (resolve_read_key B s ?cfg bucket 0) = Inr (snd (keypair (be_prims B) (be_seed B)))"
    by (rule resolve_read_key_ok [OF P mem cache ident]) (simp add: kv(3))
  then have "snd (is_visible B s ?cfg bucket)"
    using kv(2) by (simp add: is_visible_def current_key_def case_prod_unfold)
  then obtain v where v: "is_visible B (au_session auth) ?cfg bucket = (v, True)"
    using auth(1) by (cases "is_visible B s ?cfg bucket") auto
  have "effective_caps B auth ?cfg bucket = (v, intersect CAPS_FULL CAPS_FULL, True)"
    using effective_caps_cases [OF v] auth by (simp add: role_is_global_def bucket_grant_caps_def)
  moreover have "allows (intersect CAPS_FULL CAPS_FULL) required" by (cases required) (simp_all add: intersect_def CAPS_FULL_def)
  ultimately show ?thesis
    using st2(2) auth(4) by (intro exI [of _ st2] exI [of _ ?cfg]) (simp add: authorize_bucket_def)
qed

definition claim_session :: session_info where
  "claim_session = sample_session\<lparr>si_identity_sk := \<lparr>ss_nonce = [], ss_ct = replicate 2400 0 @ replicate 16 0\<rparr>\<rparr>"

end
