(* ===== verification/Accounts.thy ===== *)
theory Accounts
  imports Authz
begin

text \<open>
  Accounts: the credential slots of \<open>crates/y2q-core/src/crypto/kdf.rs\<close> and the table of user records of
  \<open>crypto/user_store.rs\<close>.

  Argon2id is a parameter: \<open>kf_param_error\<close> rejects cost parameters, \<open>kf_hash\<close> derives a key or fails. The
  randomness of a slot (the seed of its key pair, the nonce of its wrap, the password of a decoy) is a value of
  \<open>slot_rand\<close>.

  The database keeps a serialised record per user name; its rows come back in key order. The serialisation is the
  pair \<open>uc_to_vec\<close>, \<open>uc_from_slice\<close>. A transaction may fail and then changes nothing; \<open>ud_faults\<close> lists
  the failures of the transactions to come (\<open>None\<close>, or the end of the list, for success).
\<close>

subsection \<open>Slot payloads\<close>

record slot_payload =
  sp_identity_sk :: bytes
  sp_role :: role
  sp_revoke_other_sessions :: bool

fun role_to_byte :: "role \<Rightarrow> u8" where
  "role_to_byte Admin = 0"
| "role_to_byte User = 1"
| "role_to_byte ReadOnly = 2"
| "role_to_byte WriteOnlyRole = 3"
| "role_to_byte Auditor = 4"
| "role_to_byte Disabled = 5"

definition role_from_byte :: "u8 \<Rightarrow> role option" where
  "role_from_byte b =
     (if b = 0 then Some Admin else if b = 1 then Some User else if b = 2 then Some ReadOnly
      else if b = 3 then Some WriteOnlyRole else if b = 4 then Some Auditor else if b = 5 then Some Disabled else None)"

definition SlotPayload_to_bytes :: "slot_payload \<Rightarrow> crypto_error + bytes" where
  "SlotPayload_to_bytes p =
     (if length (sp_identity_sk p) \<noteq> SECRET_KEY_BYTES
      then Inl (Kdf (''identity secret key wrong size: '' @ show_nat (length (sp_identity_sk p)) @ '' (expected ''
             @ show_nat SECRET_KEY_BYTES @ '')''))
      else Inr (sp_identity_sk p @ [role_to_byte (sp_role p), if sp_revoke_other_sessions p then 1 else 0]))"

text \<open>\<open>SecretVec::from_slice\<close> fails when guarded memory cannot be had.\<close>

definition secret_vec :: "sec_env \<Rightarrow> bytes \<Rightarrow> crypto_error + bytes" where
  "secret_vec E bs = (case en_mem E of Some e \<Rightarrow> Inl (SecMem e) | None \<Rightarrow> Inr bs)"

definition SlotPayload_from_bytes :: "sec_env \<Rightarrow> bytes \<Rightarrow> crypto_error + slot_payload" where
  "SlotPayload_from_bytes E bs =
     (let expected = SECRET_KEY_BYTES + 2 in
      if length bs \<noteq> expected
      then Inl (Kdf (''slot payload wrong size: '' @ show_nat (length bs) @ '' (expected '' @ show_nat expected @ '')''))
      else
        let sk = take SECRET_KEY_BYTES bs; tail = drop SECRET_KEY_BYTES bs in
        rbind (ok_or (role_from_byte (tail ! 0)) (Kdf (''invalid role byte: '' @ show_nat (unat (tail ! 0))))) (\<lambda>r.
        rbind (secret_vec E sk) (\<lambda>identity_sk.
        Inr \<lparr>sp_identity_sk = identity_sk, sp_role = r, sp_revoke_other_sessions = (tail ! 1 \<noteq> 0)\<rparr>)))"

subsection \<open>Credential slots\<close>

record kdf_env =
  kf_sec :: sec_env
  kf_param_error :: "u32 \<Rightarrow> u32 \<Rightarrow> u32 \<Rightarrow> string option"
  kf_hash :: "argon2_params \<Rightarrow> bytes \<Rightarrow> string + bytes"

abbreviation kf_prims :: "kdf_env \<Rightarrow> crypto_prims" where
  "kf_prims K \<equiv> en_prims (kf_sec K)"

record slot_rand =
  sd_seed :: bytes
  sd_nonce :: bytes
  sd_discarded :: bytes

definition with_random_salt :: "bytes \<Rightarrow> u32 \<Rightarrow> u32 \<Rightarrow> u32 \<Rightarrow> argon2_params" where
  "with_random_salt salt m t p = \<lparr>ap_m_cost_kib = m, ap_t_cost = t, ap_p_cost = p, ap_salt = salt\<rparr>"

definition derive_kek :: "kdf_env \<Rightarrow> argon2_params \<Rightarrow> bytes \<Rightarrow> crypto_error + bytes" where
  "derive_kek K params password =
     (case kf_param_error K (ap_m_cost_kib params) (ap_t_cost params) (ap_p_cost params) of
        Some e \<Rightarrow> Inl (Kdf (''invalid params: '' @ e))
      | None \<Rightarrow> map_err (\<lambda>e. Kdf (''hash: '' @ e)) (kf_hash K params password))"

definition slot_wrap_aad :: "string \<Rightarrow> nat \<Rightarrow> bytes" where
  "slot_wrap_aad username slot =
     as_bytes ''y2q/v3/slot-wrap'' @ to_be_u32 (of_nat slot) @ to_be_u32 (of_nat (length username)) @ as_bytes username"

definition wrap_slot :: "kdf_env \<Rightarrow> bytes \<Rightarrow> bytes \<Rightarrow> bytes \<Rightarrow> argon2_params \<Rightarrow> bytes \<Rightarrow> crypto_error + wrapped_sk" where
  "wrap_slot K nonce payload password params aad =
     rbind (derive_kek K params password) (\<lambda>kek. wrap_with_key (kf_prims K) nonce payload kek aad)"

definition unwrap_slot :: "kdf_env \<Rightarrow> wrapped_sk \<Rightarrow> bytes \<Rightarrow> bytes \<Rightarrow> crypto_error + bytes" where
  "unwrap_slot K wrapped kek aad = unwrap_with_key (kf_prims K) wrapped kek aad"

definition new_slot :: "kdf_env \<Rightarrow> slot_rand \<Rightarrow> string \<Rightarrow> nat \<Rightarrow> bytes \<Rightarrow> argon2_params \<Rightarrow> role \<Rightarrow> bool
    \<Rightarrow> crypto_error + credential_slot" where
  "new_slot K R username slot password params r revoke_other_sessions =
     (case keypair (kf_prims K) (sd_seed R) of (pk, sk) \<Rightarrow>
      rbind (secret_vec (kf_sec K) sk) (\<lambda>identity_sk.
      rbind (SlotPayload_to_bytes \<lparr>sp_identity_sk = identity_sk, sp_role = r,
               sp_revoke_other_sessions = revoke_other_sessions\<rparr>) (\<lambda>payload_bytes.
      rbind (wrap_slot K (sd_nonce R) payload_bytes password params (slot_wrap_aad username slot)) (\<lambda>wrapped.
      Inr \<lparr>cs_identity_pk_b64 = b64_encode (kf_prims K) pk, cs_wrapped = wrapped\<rparr>))))"

definition decoy_slot :: "kdf_env \<Rightarrow> slot_rand \<Rightarrow> string \<Rightarrow> nat \<Rightarrow> argon2_params \<Rightarrow> crypto_error + credential_slot" where
  "decoy_slot K R username slot params =
     (case keypair (kf_prims K) (sd_seed R) of (pk, sk) \<Rightarrow>
      rbind (secret_vec (kf_sec K) sk) (\<lambda>identity_sk.
      rbind (SlotPayload_to_bytes \<lparr>sp_identity_sk = identity_sk, sp_role = User, sp_revoke_other_sessions = False\<rparr>)
        (\<lambda>payload_bytes.
      rbind (wrap_slot K (sd_nonce R) payload_bytes (sd_discarded R) params (slot_wrap_aad username slot)) (\<lambda>wrapped.
      Inr \<lparr>cs_identity_pk_b64 = b64_encode (kf_prims K) pk, cs_wrapped = wrapped\<rparr>))))"

definition decoy_slots_from :: "kdf_env \<Rightarrow> (nat \<Rightarrow> slot_rand) \<Rightarrow> string \<Rightarrow> nat \<Rightarrow> argon2_params
    \<Rightarrow> crypto_error + credential_slot list" where
  "decoy_slots_from K R username start params = rmap (\<lambda>i. decoy_slot K (R i) username i params) [start..<CREDENTIAL_SLOTS]"

text \<open>\<open>real_slot\<close> is the random position of the slot the password opens.\<close>

definition new_slots_random :: "kdf_env \<Rightarrow> (nat \<Rightarrow> slot_rand) \<Rightarrow> nat \<Rightarrow> string \<Rightarrow> bytes \<Rightarrow> argon2_params \<Rightarrow> role \<Rightarrow> bool
    \<Rightarrow> crypto_error + credential_slot list \<times> nat" where
  "new_slots_random K R real_slot username password params r revoke_other_sessions =
     rbind (rmap (\<lambda>i. if i = real_slot then new_slot K (R i) username i password params r revoke_other_sessions
                      else decoy_slot K (R i) username i params) [0..<CREDENTIAL_SLOTS]) (\<lambda>slots.
     Inr (slots, real_slot))"

subsection \<open>The table of user records\<close>

record user_codec =
  uc_to_vec :: "user_record \<Rightarrow> string + bytes"
  uc_from_slice :: "bytes \<Rightarrow> string + user_record"

record user_db =
  ud_rows :: "(string, bytes) dmap"
  ud_faults :: "string option list"

type_synonym 'a user_comp = "(user_db, crypto_error, 'a) comp"

definition db_txn :: "unit user_comp" where
  "db_txn db =
     (case ud_faults db of
        [] \<Rightarrow> (db, Inr ())
      | None # fs \<Rightarrow> (db\<lparr>ud_faults := fs\<rparr>, Inr ())
      | Some e # fs \<Rightarrow> (db\<lparr>ud_faults := fs\<rparr>, Inl (UserStore e)))"

definition to_payload :: "user_codec \<Rightarrow> user_record \<Rightarrow> crypto_error + bytes" where
  "to_payload C rec = map_err (\<lambda>e. UserStore (''serialize record: '' @ e)) (uc_to_vec C rec)"

definition of_payload :: "user_codec \<Rightarrow> bytes \<Rightarrow> crypto_error + user_record" where
  "of_payload C bs = map_err (\<lambda>e. UserStore (''deserialize record: '' @ e)) (uc_from_slice C bs)"

definition us_upsert :: "user_codec \<Rightarrow> user_record \<Rightarrow> unit user_comp" where
  "us_upsert C rec =
     sbind (slift (to_payload C rec)) (\<lambda>payload.
     sbind db_txn (\<lambda>_.
     supd (\<lambda>db. db\<lparr>ud_rows := dm_insert (ur_username rec) payload (ud_rows db)\<rparr>)))"

definition us_update_last_login :: "user_codec \<Rightarrow> string \<Rightarrow> u64 \<Rightarrow> user_record option user_comp" where
  "us_update_last_login C username ts =
     sbind db_txn (\<lambda>_.
     sbind (sget (\<lambda>db. dm_get (ud_rows db) username)) (\<lambda>row.
     case row of
       None \<Rightarrow> sret None
     | Some bs \<Rightarrow>
       sbind (slift (of_payload C bs)) (\<lambda>rec.
       let rec = rec\<lparr>ur_last_login := Some ts\<rparr> in
       sbind (slift (to_payload C rec)) (\<lambda>payload.
       sbind (supd (\<lambda>db. db\<lparr>ud_rows := dm_insert username payload (ud_rows db)\<rparr>)) (\<lambda>_.
       sret (Some rec))))))"

definition us_get :: "user_codec \<Rightarrow> string \<Rightarrow> user_record option user_comp" where
  "us_get C username =
     sbind db_txn (\<lambda>_.
     sbind (sget (\<lambda>db. dm_get (ud_rows db) username)) (\<lambda>row.
     case row of
       None \<Rightarrow> sret None
     | Some bs \<Rightarrow> sbind (slift (of_payload C bs)) (\<lambda>rec. sret (Some rec))))"

definition us_delete :: "string \<Rightarrow> bool user_comp" where
  "us_delete username =
     sbind db_txn (\<lambda>_.
     sbind (sget (\<lambda>db. dm_get (ud_rows db) username \<noteq> None)) (\<lambda>removed.
     sbind (supd (\<lambda>db. db\<lparr>ud_rows := dm_remove username (ud_rows db)\<rparr>)) (\<lambda>_.
     sret removed)))"

record user_summary =
  um_username :: string
  um_created_at :: u64
  um_last_login :: "u64 option"
  um_role :: role

definition UserSummary_from :: "user_record \<Rightarrow> user_summary" where
  "UserSummary_from r = \<lparr>um_username = ur_username r, um_created_at = ur_created_at r,
     um_last_login = ur_last_login r, um_role = ur_role r\<rparr>"

definition us_list :: "user_codec \<Rightarrow> user_summary list user_comp" where
  "us_list C =
     sbind db_txn (\<lambda>_.
     sbind (sget (\<lambda>db. sort_key fst (ud_rows db))) (\<lambda>rows.
     sbind (slift (rmap (\<lambda>(_, bs). rbind (of_payload C bs) (\<lambda>r. Inr (UserSummary_from r))) rows)) (\<lambda>out.
     sret (sort_key um_username out))))"

definition us_count :: "nat user_comp" where
  "us_count = sbind db_txn (\<lambda>_. sget (\<lambda>db. length (ud_rows db)))"

definition us_export_raw :: "(string \<times> bytes) list user_comp" where
  "us_export_raw = sbind db_txn (\<lambda>_. sget (\<lambda>db. sort_key fst (ud_rows db)))"

definition us_import_raw :: "(string \<times> bytes) list \<Rightarrow> unit user_comp" where
  "us_import_raw records =
     sbind db_txn (\<lambda>_.
     supd (\<lambda>db. db\<lparr>ud_rows := fold (\<lambda>(username, payload). dm_insert username payload) records (ud_rows db)\<rparr>))"

end
