(* ===== verification/Auth_Handlers.thy ===== *)
theory Auth_Handlers
  imports Accounts S3_State
begin

text \<open>
  The handlers of \<open>crates/y2qd/src/auth/handlers.rs\<close>: login and logout, token refresh, password change, the
  administration of accounts and the personas of an account.

  A handler is a computation over the shared state \<open>auth_state\<close>. Key derivation runs on another thread, and while it
  runs other requests change the shared state: \<open>W i\<close> is what they do at the \<open>i\<close>-th such point of the
  handler. A response is the body it carries; \<open>apply_floor\<close> only delays the response and is left out. A slot index
  outside a record is a panic of the handler, reported here as \<open>InternalState\<close>.
\<close>

subsection \<open>The shared state\<close>

record auth_config =
  ac_default_ttl_seconds :: u64
  ac_max_ttl_seconds :: u64
  ac_session_sweep_interval_seconds :: u64
  ac_min_login_response_ms :: u64
  ac_max_failed_logins :: u32
  ac_lockout_seconds :: u64
  ac_enforce_authorization :: bool
  ac_max_refreshes :: u32

record argon2_config =
  ag_m_cost_kib :: u32
  ag_t_cost :: u32
  ag_p_cost :: u32

record auth_state =
  as_user_store :: user_db
  as_sessions :: session_store
  as_login_attempts :: login_attempts
  as_config :: auth_config
  as_argon2_config :: argon2_config
  as_dummy_record :: user_record

record handler_env =
  hv_kdf :: kdf_env
  hv_codec :: user_codec
  hv_session :: sec_env
  hv_switch :: "bytes \<Rightarrow> sec_env"
  hv_rand :: "nat \<Rightarrow> slot_rand"
  hv_real_slot :: nat
  hv_salt :: bytes
  hv_instant :: time
  hv_now :: time
  hv_core_display :: "error \<Rightarrow> string"

type_synonym 'a auth_comp = "(auth_state, auth_error, 'a) comp"

definition build_dummy_record :: "kdf_env \<Rightarrow> (nat \<Rightarrow> slot_rand) \<Rightarrow> bytes \<Rightarrow> argon2_config \<Rightarrow> crypto_error + user_record" where
  "build_dummy_record K R salt cfg =
     (let params = with_random_salt salt (ag_m_cost_kib cfg) (ag_t_cost cfg) (ag_p_cost cfg) in
      rbind (decoy_slots_from K R [] 0 params) (\<lambda>slots.
      Inr \<lparr>ur_username = [], ur_created_at = 0, ur_last_login = None, ur_kdf = params, ur_slots = slots,
           ur_primary_slot = 0, ur_role = User\<rparr>))"

definition new_argon2_params :: "bytes \<Rightarrow> auth_state \<Rightarrow> argon2_params" where
  "new_argon2_params salt st =
     with_random_salt salt (ag_m_cost_kib (as_argon2_config st)) (ag_t_cost (as_argon2_config st)) (ag_p_cost (as_argon2_config st))"

definition on_users :: "handler_env \<Rightarrow> 'a user_comp \<Rightarrow> 'a auth_comp" where
  "on_users H m st =
     (case m (as_user_store st) of (db, r) \<Rightarrow> (st\<lparr>as_user_store := db\<rparr>, backend (kf_sec (hv_kdf H)) r))"

definition kdf_result :: "handler_env \<Rightarrow> crypto_error + 'a \<Rightarrow> 'a auth_comp" where
  "kdf_result H r = slift (backend (kf_sec (hv_kdf H)) r)"

definition meanwhile :: "(nat \<Rightarrow> auth_state \<Rightarrow> auth_state) \<Rightarrow> nat \<Rightarrow> unit auth_comp" where
  "meanwhile W i = supd (W i)"

definition now_ns :: "handler_env \<Rightarrow> u64" where
  "now_ns H = of_nat (hv_now H)"

definition lockout_gate :: "handler_env \<Rightarrow> string \<Rightarrow> unit auth_comp" where
  "lockout_gate H username st =
     (case check_lockout (hv_instant H) (as_login_attempts st) username of
        (la, Inl until) \<Rightarrow> (st\<lparr>as_login_attempts := la\<rparr>, Inl (LockedOut (hv_now H + (until - hv_instant H))))
      | (la, Inr _) \<Rightarrow> (st\<lparr>as_login_attempts := la\<rparr>, Inr ()))"

definition note_failure :: "handler_env \<Rightarrow> string \<Rightarrow> unit auth_comp" where
  "note_failure H username = supd (\<lambda>st. st\<lparr>as_login_attempts :=
     record_failure (hv_instant H) (as_login_attempts st) username (ac_max_failed_logins (as_config st))
       (unat (ac_lockout_seconds (as_config st)) * NANOS)\<rparr>)"

definition note_success :: "string \<Rightarrow> unit auth_comp" where
  "note_success username = supd (\<lambda>st. st\<lparr>as_login_attempts := record_success (as_login_attempts st) username\<rparr>)"

subsection \<open>Opening slots\<close>

fun unwrap_loop :: "kdf_env \<Rightarrow> bytes \<Rightarrow> string \<Rightarrow> nat \<Rightarrow> credential_slot list \<Rightarrow> (nat \<times> slot_payload) option
    \<Rightarrow> (nat \<times> slot_payload) option" where
  "unwrap_loop K kek username i [] opened = opened"
| "unwrap_loop K kek username i (slot # slots) opened =
     unwrap_loop K kek username (Suc i) slots
       (case unwrap_slot K (cs_wrapped slot) kek (slot_wrap_aad username i) of
          Inr payload_bytes \<Rightarrow>
            if opened = None
            then (case SlotPayload_from_bytes (kf_sec K) payload_bytes of Inr payload \<Rightarrow> Some (i, payload) | Inl _ \<Rightarrow> opened)
            else opened
        | Inl _ \<Rightarrow> opened)"

definition attempt_unwrap :: "kdf_env \<Rightarrow> user_record \<Rightarrow> bytes \<Rightarrow> auth_error + user_record \<times> nat \<times> slot_payload" where
  "attempt_unwrap K rec password =
     (case derive_kek K (ur_kdf rec) password of
        Inl _ \<Rightarrow> Inl InvalidCredentials
      | Inr kek \<Rightarrow> (case unwrap_loop K kek (ur_username rec) 0 (ur_slots rec) None of
          Some (slot, payload) \<Rightarrow> Inr (rec, slot, payload)
        | None \<Rightarrow> Inl InvalidCredentials))"

definition attempt_unwrap_slot :: "kdf_env \<Rightarrow> user_record \<Rightarrow> bytes \<Rightarrow> nat \<Rightarrow> auth_error + user_record \<times> nat \<times> slot_payload" where
  "attempt_unwrap_slot K rec password slot_idx =
     (if \<not> slot_idx < CREDENTIAL_SLOTS then Inl InvalidCredentials
      else if \<not> slot_idx < length (ur_slots rec) then Inl InternalState
      else case rbind (derive_kek K (ur_kdf rec) password) (\<lambda>kek.
             rbind (unwrap_slot K (cs_wrapped (ur_slots rec ! slot_idx)) kek (slot_wrap_aad (ur_username rec) slot_idx)) (\<lambda>payload_bytes.
             SlotPayload_from_bytes (kf_sec K) payload_bytes)) of
          Inr payload \<Rightarrow> Inr (rec, slot_idx, payload)
        | Inl _ \<Rightarrow> Inl InvalidCredentials)"

subsection \<open>Sessions\<close>

record token_response =
  tk_token :: string
  tk_expires_at :: nat
  tk_username :: string

definition finalize_login_after_unwrap :: "(nat \<Rightarrow> auth_state \<Rightarrow> auth_state) \<Rightarrow> handler_env \<Rightarrow> string \<Rightarrow> user_record \<Rightarrow> nat
    \<Rightarrow> slot_payload \<Rightarrow> time \<Rightarrow> token_response auth_comp" where
  "finalize_login_after_unwrap W H username snapshot slot_idx payload expires_at =
     sbind (on_users H (us_get (hv_codec H) username)) (\<lambda>fresh.
     case fresh of None \<Rightarrow> sfail InvalidCredentials | Some fresh \<Rightarrow>
     if ur_kdf fresh \<noteq> ur_kdf snapshot \<or> ur_slots fresh \<noteq> ur_slots snapshot then sfail InvalidCredentials else
     if sp_role payload = Disabled \<or> ur_role fresh = Disabled \<or> \<not> role_permits (sp_role payload) (ur_role fresh)
     then sfail AccountDisabled else
     sbind (on_users H (us_update_last_login (hv_codec H) username (now_ns H))) (\<lambda>touched.
     case touched of None \<Rightarrow> sfail InvalidCredentials | Some _ \<Rightarrow>
     sbind (if sp_revoke_other_sessions payload
            then kdf_result H (map_sum id Some (secret_vec (kf_sec (hv_kdf H)) (sp_identity_sk payload))) else sret None) (\<lambda>duress_sk.
     sbind (meanwhile W 1) (\<lambda>_.
     sbind (\<lambda>st. case insert_session (hv_session H) (as_sessions st)
              \<lparr>ns_username = username, ns_role = sp_role payload, ns_created_at = hv_now H, ns_expires_at = expires_at,
               ns_persona = of_nat slot_idx, ns_revoke_other_sessions = sp_revoke_other_sessions payload,
               ns_identity_sk = sp_identity_sk payload\<rparr> of
            (sessions, r) \<Rightarrow> (st\<lparr>as_sessions := sessions\<rparr>, r)) (\<lambda>token.
     sbind (meanwhile W 2) (\<lambda>_.
     sbind (on_users H (us_get (hv_codec H) username)) (\<lambda>still.
     if still = None then
       sbind (supd (\<lambda>st. st\<lparr>as_sessions := fst (revoke_user (as_sessions st) username)\<rparr>)) (\<lambda>_. sfail InvalidCredentials)
     else
     sbind (case duress_sk of None \<Rightarrow> sret ()
            | Some sk \<Rightarrow> supd (\<lambda>st. st\<lparr>as_sessions := fst (switch_user_to_persona (hv_switch H) (as_sessions st) username
                (of_nat slot_idx) (sp_role payload) (sp_revoke_other_sessions payload) sk)\<rparr>)) (\<lambda>_.
     sbind (note_success username) (\<lambda>_.
     sret \<lparr>tk_token = token, tk_expires_at = expires_at div NANOS, tk_username = username\<rparr>)))))))))"

text \<open>An unknown user name costs the derivation of a throwaway record; its outcome is not used.\<close>

definition login :: "(nat \<Rightarrow> auth_state \<Rightarrow> auth_state) \<Rightarrow> handler_env \<Rightarrow> string \<Rightarrow> bytes \<Rightarrow> u64 option \<Rightarrow> token_response auth_comp" where
  "login W H username password ttl_seconds =
     sbind (slift (validate_username username)) (\<lambda>_.
     sbind (lockout_gate H username) (\<lambda>_.
     sbind (sget as_config) (\<lambda>config.
     sbind (slift (compute_expiry (hv_now H) ttl_seconds (ac_default_ttl_seconds config) (ac_max_ttl_seconds config))) (\<lambda>expires_at.
     sbind (on_users H (us_get (hv_codec H) username)) (\<lambda>record.
     sbind (meanwhile W 0) (\<lambda>_.
     case (case record of Some rec \<Rightarrow> attempt_unwrap (hv_kdf H) rec password | None \<Rightarrow> Inl InvalidCredentials) of
       Inr (rec, slot_idx, payload) \<Rightarrow> finalize_login_after_unwrap W H username rec slot_idx payload expires_at
     | Inl e \<Rightarrow> sbind (note_failure H username) (\<lambda>_. sfail e)))))))"

definition refresh :: "handler_env \<Rightarrow> (string \<Rightarrow> sec_env) \<Rightarrow> authenticated \<Rightarrow> (auth_state \<times> s3_state, auth_error, token_response) comp" where
  "refresh H E auth = (\<lambda>(st, s3).
     case compute_expiry (hv_now H) None (ac_default_ttl_seconds (as_config st)) (ac_max_ttl_seconds (as_config st)) of
       Inl e \<Rightarrow> ((st, s3), Inl e)
     | Inr expires_at \<Rightarrow>
       (case reissue (hv_session H) (as_sessions st) (au_token_hash auth) expires_at (ac_max_refreshes (as_config st)) of
          (sessions, Inl e) \<Rightarrow> ((st\<lparr>as_sessions := sessions\<rparr>, s3), Inl e)
        | (sessions, Inr token) \<Rightarrow>
          ((st\<lparr>as_sessions := sessions\<rparr>, rekey_s3_session E s3 (au_token_hash auth) (hash_token (hv_session H) token)),
           Inr \<lparr>tk_token = token, tk_expires_at = expires_at div NANOS, tk_username = au_username auth\<rparr>)))"

definition logout :: "authenticated \<Rightarrow> unit auth_comp" where
  "logout auth = supd (\<lambda>st. st\<lparr>as_sessions := fst (revoke (as_sessions st) (au_token_hash auth))\<rparr>)"

subsection \<open>Passwords and personas\<close>

definition set_slot :: "nat \<Rightarrow> credential_slot \<Rightarrow> user_record \<Rightarrow> auth_error + user_record" where
  "set_slot i slot rec =
     (if i < length (ur_slots rec) then Inr (rec\<lparr>ur_slots := (ur_slots rec)[i := slot]\<rparr>) else Inl InternalState)"

definition save_slot :: "handler_env \<Rightarrow> nat \<Rightarrow> credential_slot \<Rightarrow> user_record \<Rightarrow> unit auth_comp" where
  "save_slot H i slot rec = sbind (slift (set_slot i slot rec)) (\<lambda>updated. on_users H (us_upsert (hv_codec H) updated))"

definition change_password :: "(nat \<Rightarrow> auth_state \<Rightarrow> auth_state) \<Rightarrow> handler_env \<Rightarrow> authenticated \<Rightarrow> bytes \<Rightarrow> bytes \<Rightarrow> unit auth_comp" where
  "change_password W H auth current new =
     (let username = au_username auth; slot_idx = unat (si_persona (au_session auth)) in
      if new = [] then sfail (InvalidBody ''new password must not be empty'') else
      sbind (lockout_gate H username) (\<lambda>_.
      sbind (on_users H (us_get (hv_codec H) username)) (\<lambda>row.
      case row of
        None \<Rightarrow> sbind (note_failure H username) (\<lambda>_. sfail InvalidCredentials)
      | Some rec \<Rightarrow>
        sbind (meanwhile W 0) (\<lambda>_.
        case attempt_unwrap_slot (hv_kdf H) rec current slot_idx of
          Inl e \<Rightarrow> sbind (note_failure H username) (\<lambda>_. sfail e)
        | Inr (rec, slot_idx, payload) \<Rightarrow>
          sbind (kdf_result H (rbind (SlotPayload_to_bytes payload) (\<lambda>payload_bytes.
              wrap_slot (hv_kdf H) (sd_nonce (hv_rand H slot_idx)) payload_bytes new (ur_kdf rec)
                (slot_wrap_aad (ur_username rec) slot_idx)))) (\<lambda>wrapped.
          sbind (meanwhile W 1) (\<lambda>_.
          sbind (save_slot H slot_idx \<lparr>cs_identity_pk_b64 = cs_identity_pk_b64 (ur_slots rec ! slot_idx), cs_wrapped = wrapped\<rparr> rec) (\<lambda>_.
          sbind (note_success username) (\<lambda>_.
          supd (\<lambda>st. st\<lparr>as_sessions := fst (revoke_user_persona_except (as_sessions st) username
            (si_persona (au_session auth)) (au_token_hash auth))\<rparr>)))))))))"

definition persona_slot :: "authenticated \<Rightarrow> u8 \<Rightarrow> auth_error + nat" where
  "persona_slot auth slot =
     (if \<not> unat slot < CREDENTIAL_SLOTS then Inl (InvalidPersonaSlot ''slot must be in range 0..CREDENTIAL_SLOTS'')
      else if unat slot = unat (si_persona (au_session auth))
      then Inl (InvalidPersonaSlot ''cannot overwrite the slot this session is currently authenticated through'')
      else Inr (unat slot))"

text \<open>Every current slot is tried with the new password; \<open>None\<close> when one of them opens.\<close>

definition fresh_slot :: "handler_env \<Rightarrow> user_record \<Rightarrow> nat \<Rightarrow> bytes \<Rightarrow> role \<Rightarrow> bool \<Rightarrow> crypto_error + credential_slot option" where
  "fresh_slot H rec slot password r revoke_other_sessions =
     rbind (derive_kek (hv_kdf H) (ur_kdf rec) password) (\<lambda>kek.
     let collides = list_ex (\<lambda>(i, s). is_ok (unwrap_slot (hv_kdf H) (cs_wrapped s) kek (slot_wrap_aad (ur_username rec) i)))
           (enumerate 0 (ur_slots rec)) in
     if collides then Inr None else
     rbind (new_slot (hv_kdf H) (hv_rand H slot) (ur_username rec) slot password (ur_kdf rec) r revoke_other_sessions) (\<lambda>fresh.
     Inr (Some fresh)))"

definition create_persona :: "(nat \<Rightarrow> auth_state \<Rightarrow> auth_state) \<Rightarrow> handler_env \<Rightarrow> authenticated \<Rightarrow> u8 \<Rightarrow> bytes \<Rightarrow> role \<Rightarrow> bool
    \<Rightarrow> string auth_comp" where
  "create_persona W H auth slot password r revoke_other_sessions =
     sbind (slift (persona_slot auth slot)) (\<lambda>slot.
     if password = [] then sfail (InvalidBody ''password must not be empty'') else
     sbind (on_users H (us_get (hv_codec H) (au_username auth))) (\<lambda>row.
     sbind (slift (ok_or row InvalidCredentials)) (\<lambda>rec.
     if \<not> role_permits r (ur_role rec) \<or> \<not> role_permits r (au_role auth) then sfail RoleExceedsAccount else
     sbind (meanwhile W 0) (\<lambda>_.
     sbind (kdf_result H (fresh_slot H rec slot password r revoke_other_sessions)) (\<lambda>fresh.
     sbind (slift (ok_or fresh PasswordReused)) (\<lambda>new_slot.
     sbind (save_slot H slot new_slot rec) (\<lambda>_.
     sret (''slot '' @ show_nat slot @ '' overwritten; any grants sealed to it are gone''))))))))"

definition delete_persona :: "(nat \<Rightarrow> auth_state \<Rightarrow> auth_state) \<Rightarrow> handler_env \<Rightarrow> authenticated \<Rightarrow> u8 \<Rightarrow> unit auth_comp" where
  "delete_persona W H auth slot =
     sbind (slift (persona_slot auth slot)) (\<lambda>slot_idx.
     sbind (on_users H (us_get (hv_codec H) (au_username auth))) (\<lambda>row.
     sbind (slift (ok_or row InvalidCredentials)) (\<lambda>rec.
     sbind (meanwhile W 0) (\<lambda>_.
     sbind (kdf_result H (decoy_slot (hv_kdf H) (hv_rand H slot_idx) (ur_username rec) slot_idx (ur_kdf rec))) (\<lambda>decoy.
     sbind (save_slot H slot_idx decoy rec) (\<lambda>_.
     supd (\<lambda>st. st\<lparr>as_sessions := fst (revoke_user_persona (as_sessions st) (au_username auth) (of_nat slot_idx))\<rparr>)))))))"

definition whoami_persona :: "authenticated \<Rightarrow> u8 \<times> role" where
  "whoami_persona auth = (si_persona (au_session auth), si_role (au_session auth))"

subsection \<open>Administration of accounts\<close>

definition parse_role :: "string \<Rightarrow> auth_error + role" where
  "parse_role s =
     (let n = lowercase s in
      if n = ''admin'' then Inr Admin else if n = ''user'' then Inr User else if n = ''readonly'' then Inr ReadOnly
      else if n = ''writeonly'' then Inr WriteOnlyRole else if n = ''auditor'' then Inr Auditor
      else if n = ''disabled'' then Inr Disabled else Inl (InvalidRole s))"

definition add_user :: "(nat \<Rightarrow> auth_state \<Rightarrow> auth_state) \<Rightarrow> handler_env \<Rightarrow> string \<Rightarrow> bytes \<Rightarrow> role \<Rightarrow> unit auth_comp" where
  "add_user W H username password r =
     sbind (slift (validate_username username)) (\<lambda>_.
     if password = [] then sfail (InvalidBody ''password must not be empty'') else
     sbind (on_users H (us_get (hv_codec H) username)) (\<lambda>row.
     if row \<noteq> None then sfail (UserExists username) else
     sbind (sget (new_argon2_params (hv_salt H))) (\<lambda>params.
     sbind (meanwhile W 0) (\<lambda>_.
     sbind (kdf_result H (new_slots_random (hv_kdf H) (hv_rand H) (hv_real_slot H) username password params r False)) (\<lambda>(slots, primary_slot).
     on_users H (us_upsert (hv_codec H)
       \<lparr>ur_username = username, ur_created_at = now_ns H, ur_last_login = None, ur_kdf = params, ur_slots = slots,
        ur_primary_slot = of_nat primary_slot, ur_role = r\<rparr>))))))"

definition list_users :: "handler_env \<Rightarrow> user_summary list auth_comp" where
  "list_users H = on_users H (us_list (hv_codec H))"

definition set_role :: "handler_env \<Rightarrow> string \<Rightarrow> string \<Rightarrow> unit auth_comp" where
  "set_role H username role_name =
     sbind (slift (parse_role role_name)) (\<lambda>new_role.
     sbind (on_users H (us_get (hv_codec H) username)) (\<lambda>row.
     sbind (on_users H (us_list (hv_codec H))) (\<lambda>users.
     let admin_count = length (filter (\<lambda>u. um_role u = Admin) users) in
     sbind (slift (ok_or (map_option ur_role row) (UserNotFound username))) (\<lambda>current_role.
     if current_role = Admin \<and> new_role \<noteq> Admin \<and> admin_count \<le> 1 then sfail CannotDemoteLastAdmin else
     sbind (on_users H (us_get (hv_codec H) username)) (\<lambda>row.
     sbind (slift (ok_or row (UserNotFound username))) (\<lambda>rec.
     sbind (on_users H (us_upsert (hv_codec H) (rec\<lparr>ur_role := new_role\<rparr>))) (\<lambda>_.
     supd (\<lambda>st. st\<lparr>as_sessions := fst (revoke_user (as_sessions st) username)\<rparr>))))))))"

text \<open>Deleting or resetting an account also rewrites bucket configurations; the storage is the record of operations
  of the authorization gate and the list of buckets.\<close>

record 'st account_ops = "'st storage_ops" +
  op_list_buckets :: "'st \<Rightarrow> error + string list"

definition store_result :: "handler_env \<Rightarrow> error + 'a \<Rightarrow> ('st, auth_error, 'a) comp" where
  "store_result H r = slift (map_err (\<lambda>e. Backend (hv_core_display H e)) r)"

definition op_list_buckets_c :: "'st account_ops \<Rightarrow> handler_env \<Rightarrow> ('st, auth_error, string list) comp" where
  "op_list_buckets_c Q H s = store_result H (op_list_buckets Q s) s"

definition op_config_c :: "'st account_ops \<Rightarrow> handler_env \<Rightarrow> string \<Rightarrow> ('st, auth_error, bucket_config) comp" where
  "op_config_c Q H bucket s = store_result H (op_get_bucket_config Q s bucket) s"

definition op_set_config_c :: "'st account_ops \<Rightarrow> handler_env \<Rightarrow> string \<Rightarrow> bucket_config \<Rightarrow> ('st, auth_error, unit) comp" where
  "op_set_config_c Q H bucket cfg s =
     (case op_set_bucket_config Q s bucket cfg of (s, r) \<Rightarrow> store_result H r s)"

definition is_sole_grantee :: "string \<Rightarrow> bucket_config \<Rightarrow> bool" where
  "is_sole_grantee username cfg \<longleftrightarrow>
     (case current_key cfg of
        Some kv \<Rightarrow> length (kv_grants kv) = 1 \<and> dm_get (kv_grants kv) username \<noteq> None
      | None \<Rightarrow> False)"

fun sole_loop :: "'st account_ops \<Rightarrow> handler_env \<Rightarrow> string \<Rightarrow> string list \<Rightarrow> ('st, auth_error, string list) comp" where
  "sole_loop Q H username [] = sret []"
| "sole_loop Q H username (bucket # buckets) =
     sbind (op_config_c Q H bucket) (\<lambda>cfg.
     sbind (sole_loop Q H username buckets) (\<lambda>sole.
     sret (if is_sole_grantee username cfg then bucket # sole else sole)))"

definition sole_grantee_buckets :: "'st account_ops \<Rightarrow> handler_env \<Rightarrow> string \<Rightarrow> ('st, auth_error, string list) comp" where
  "sole_grantee_buckets Q H username = sbind (op_list_buckets_c Q H) (sole_loop Q H username)"

definition drop_grants :: "string \<Rightarrow> bucket_config \<Rightarrow> bucket_config" where
  "drop_grants username cfg = cfg\<lparr>bc_keys := map (\<lambda>kv. kv\<lparr>kv_grants := dm_remove username (kv_grants kv)\<rparr>) (bc_keys cfg)\<rparr>"

fun scrub_grants_loop :: "'st account_ops \<Rightarrow> handler_env \<Rightarrow> string \<Rightarrow> string list \<Rightarrow> ('st, auth_error, string list) comp" where
  "scrub_grants_loop Q H username [] = sret []"
| "scrub_grants_loop Q H username (bucket # buckets) =
     sbind (op_config_c Q H bucket) (\<lambda>cfg.
     let changed = list_ex (\<lambda>kv. dm_get (kv_grants kv) username \<noteq> None) (bc_keys cfg);
         cfg = drop_grants username cfg in
     if \<not> changed then scrub_grants_loop Q H username buckets else
     let orphan = (bc_keys cfg \<noteq> [] \<and> kv_grants (last (bc_keys cfg)) = []) in
     sbind (op_set_config_c Q H bucket cfg) (\<lambda>_.
     sbind (scrub_grants_loop Q H username buckets) (\<lambda>orphaned.
     sret (if orphan then bucket # orphaned else orphaned))))"

definition scrub_user_grants :: "'st account_ops \<Rightarrow> handler_env \<Rightarrow> string \<Rightarrow> ('st, auth_error, string list) comp" where
  "scrub_user_grants Q H username = sbind (op_list_buckets_c Q H) (scrub_grants_loop Q H username)"

fun scrub_acl_loop :: "'st account_ops \<Rightarrow> handler_env \<Rightarrow> string \<Rightarrow> string list \<Rightarrow> ('st, auth_error, unit) comp" where
  "scrub_acl_loop Q H username [] = sret ()"
| "scrub_acl_loop Q H username (bucket # buckets) =
     sbind (op_config_c Q H bucket) (\<lambda>cfg.
     if dm_get (bc_acl cfg) username = None then scrub_acl_loop Q H username buckets else
     sbind (op_set_config_c Q H bucket (cfg\<lparr>bc_acl := dm_remove username (bc_acl cfg)\<rparr>)) (\<lambda>_.
     scrub_acl_loop Q H username buckets))"

definition scrub_deleted_user_acl_entries :: "'st account_ops \<Rightarrow> handler_env \<Rightarrow> string \<Rightarrow> ('st, auth_error, unit) comp" where
  "scrub_deleted_user_acl_entries Q H username = sbind (op_list_buckets_c Q H) (scrub_acl_loop Q H username)"

definition on_auth :: "('a, 'e, 'r) comp \<Rightarrow> ('a \<times> 'b, 'e, 'r) comp" where
  "on_auth m = (\<lambda>(a, b). case m a of (a, r) \<Rightarrow> ((a, b), r))"

definition on_store :: "('b, 'e, 'r) comp \<Rightarrow> ('a \<times> 'b, 'e, 'r) comp" where
  "on_store m = (\<lambda>(a, b). case m b of (b, r) \<Rightarrow> ((a, b), r))"

definition remove_account :: "handler_env \<Rightarrow> string \<Rightarrow> unit auth_comp" where
  "remove_account H username =
     sbind (on_users H (us_list (hv_codec H))) (\<lambda>users.
     if length users \<le> 1 then sfail CannotDeleteLastUser else
     if list_ex (\<lambda>u. um_username u = username \<and> um_role u = Admin) users
        \<and> length (filter (\<lambda>u. um_role u = Admin) users) \<le> 1 then sfail CannotDeleteLastAdmin else
     sbind (on_users H (us_delete username)) (\<lambda>removed.
     if \<not> removed then sfail (UserNotFound username) else sret ()))"

definition delete_user :: "'st account_ops \<Rightarrow> handler_env \<Rightarrow> string \<Rightarrow> bool \<Rightarrow> (auth_state \<times> 'st, auth_error, unit) comp" where
  "delete_user Q H username force =
     sbind (if force then sret [] else on_store (sole_grantee_buckets Q H username)) (\<lambda>sole.
     if sole \<noteq> [] then sfail (CannotDeleteSoleGrantee sole) else
     sbind (on_auth (remove_account H username)) (\<lambda>_.
     sbind (on_store (scrub_user_grants Q H username)) (\<lambda>_.
     sbind (on_store (scrub_deleted_user_acl_entries Q H username)) (\<lambda>_.
     on_auth (supd (\<lambda>st. st\<lparr>as_sessions := fst (revoke_user (as_sessions st) username)\<rparr>))))))"

definition reset_identity :: "'st account_ops \<Rightarrow> (nat \<Rightarrow> auth_state \<Rightarrow> auth_state) \<Rightarrow> handler_env \<Rightarrow> string \<Rightarrow> bytes
    \<Rightarrow> (auth_state \<times> 'st, auth_error, string list) comp" where
  "reset_identity Q W H username password =
     (if password = [] then sfail (InvalidBody ''password must not be empty'') else
      sbind (on_auth (
        sbind (on_users H (us_get (hv_codec H) username)) (\<lambda>row.
        sbind (slift (ok_or row (UserNotFound username))) (\<lambda>rec.
        sbind (meanwhile W 0) (\<lambda>_.
        sbind (kdf_result H (new_slots_random (hv_kdf H) (hv_rand H) (hv_real_slot H) username password (ur_kdf rec) (ur_role rec) False)) (\<lambda>(slots, primary_slot).
        sbind (on_users H (us_upsert (hv_codec H) (rec\<lparr>ur_slots := slots, ur_primary_slot := of_nat primary_slot\<rparr>))) (\<lambda>_.
        supd (\<lambda>st. st\<lparr>as_sessions := fst (revoke_user (as_sessions st) username)\<rparr>)))))))) (\<lambda>_.
      on_store (scrub_user_grants Q H username)))"

end
