(* ===== verification/Account_Samples.thy ===== *)
theory Account_Samples
  imports Auth_Handlers Session_Laws Bucket_Keys_Laws
begin

text \<open>
  A concrete serialisation of user records, and a concrete environment of the account handlers: the instances at which
  the properties of the handlers are witnessed.
\<close>

subsection \<open>A serialisation of user records\<close>

text \<open>A record is flattened to a list of numbers, a list of which is preceded by its length; a number is
  written in unary.\<close>

locale flat_format =
  fixes put :: "'a \<Rightarrow> nat list" and pull :: "nat list \<Rightarrow> 'a \<times> nat list"
  assumes pull_put: "pull (put x @ rest) = (x, rest)"
begin

definition put_list :: "'a list \<Rightarrow> nat list" where
  "put_list xs = length xs # concat (map put xs)"

primrec pull_n :: "nat \<Rightarrow> nat list \<Rightarrow> 'a list \<times> nat list" where
  "pull_n 0 ns = ([], ns)"
| "pull_n (Suc n) ns = (case pull ns of (x, ns) \<Rightarrow> case pull_n n ns of (xs, ns) \<Rightarrow> (x # xs, ns))"

definition pull_list :: "nat list \<Rightarrow> 'a list \<times> nat list" where
  "pull_list ns = pull_n (hd ns) (tl ns)"

lemma pull_n_put: "pull_n (length xs) (concat (map put xs) @ rest) = (xs, rest)"
  by (induction xs) (simp_all add: pull_put)

lemma pull_list_put: "pull_list (put_list xs @ rest) = (xs, rest)"
  by (simp add: pull_list_def put_list_def pull_n_put)

end

definition put_byte :: "u8 \<Rightarrow> nat list" where "put_byte b = [unat b]"
definition pull_byte :: "nat list \<Rightarrow> u8 \<times> nat list" where "pull_byte ns = (of_nat (hd ns), tl ns)"
definition put_char :: "char \<Rightarrow> nat list" where "put_char c = [of_char c]"
definition pull_char :: "nat list \<Rightarrow> char \<times> nat list" where "pull_char ns = (char_of (hd ns), tl ns)"

interpretation flat_byte: flat_format put_byte pull_byte
  by unfold_locales (simp add: put_byte_def pull_byte_def)

interpretation flat_char: flat_format put_char pull_char
  by unfold_locales (simp add: put_char_def pull_char_def)

definition put_slot :: "credential_slot \<Rightarrow> nat list" where
  "put_slot s = flat_char.put_list (cs_identity_pk_b64 s) @ flat_byte.put_list (ws_nonce (cs_wrapped s))
     @ flat_byte.put_list (ws_ciphertext (cs_wrapped s))"

definition pull_slot :: "nat list \<Rightarrow> credential_slot \<times> nat list" where
  "pull_slot ns = (case flat_char.pull_list ns of (pk, ns) \<Rightarrow> case flat_byte.pull_list ns of (n, ns) \<Rightarrow>
     case flat_byte.pull_list ns of (ct, ns) \<Rightarrow>
     (\<lparr>cs_identity_pk_b64 = pk, cs_wrapped = \<lparr>ws_nonce = n, ws_ciphertext = ct\<rparr>\<rparr>, ns))"

interpretation flat_slot: flat_format put_slot pull_slot
  by unfold_locales (simp add: put_slot_def pull_slot_def flat_char.pull_list_put flat_byte.pull_list_put)

definition put_user :: "user_record \<Rightarrow> nat list" where
  "put_user r = [unat (ur_created_at r), (case ur_last_login r of None \<Rightarrow> 0 | Some t \<Rightarrow> Suc (unat t)),
     unat (ap_m_cost_kib (ur_kdf r)), unat (ap_t_cost (ur_kdf r)), unat (ap_p_cost (ur_kdf r)),
     unat (ur_primary_slot r), unat (role_to_byte (ur_role r))]
     @ flat_char.put_list (ur_username r) @ flat_byte.put_list (ap_salt (ur_kdf r)) @ flat_slot.put_list (ur_slots r)"

definition pull_user :: "nat list \<Rightarrow> user_record" where
  "pull_user ns = (case flat_char.pull_list (drop 7 ns) of (name, rest) \<Rightarrow> case flat_byte.pull_list rest of (salt, rest) \<Rightarrow>
     case flat_slot.pull_list rest of (slots, _) \<Rightarrow>
     \<lparr>ur_username = name, ur_created_at = of_nat (ns ! 0), ur_last_login = (case ns ! 1 of 0 \<Rightarrow> None | Suc t \<Rightarrow> Some (of_nat t)),
      ur_kdf = \<lparr>ap_m_cost_kib = of_nat (ns ! 2), ap_t_cost = of_nat (ns ! 3), ap_p_cost = of_nat (ns ! 4), ap_salt = salt\<rparr>,
      ur_slots = slots, ur_primary_slot = of_nat (ns ! 5),
      ur_role = (case role_from_byte (of_nat (ns ! 6)) of Some r \<Rightarrow> r | None \<Rightarrow> Disabled)\<rparr>)"

lemma role_round_trip: "role_from_byte (role_to_byte r) = Some r"
  by (cases r) (simp_all add: role_from_byte_def)

lemma pull_put_user: "pull_user (put_user r) = r"
proof -
  have l: "flat_slot.pull_list (flat_slot.put_list xs) = (xs, [])" for xs
    using flat_slot.pull_list_put [of xs "[]"] by simp
  show ?thesis
    by (cases "ur_last_login r") (simp_all add: pull_user_def put_user_def flat_char.pull_list_put flat_byte.pull_list_put l
        role_round_trip nth_append numeral_eq_Suc)
qed

definition unary :: "nat list \<Rightarrow> bytes" where
  "unary ns = concat (map (\<lambda>n. replicate n 1 @ [0]) ns)"

fun of_unary :: "nat \<Rightarrow> bytes \<Rightarrow> nat list" where
  "of_unary n [] = []"
| "of_unary n (b # bs) = (if b = 0 then n # of_unary 0 bs else of_unary (Suc n) bs)"

lemma of_unary_run: "of_unary m (replicate n 1 @ 0 # bs) = (m + n) # of_unary 0 bs"
  by (induction n arbitrary: m) simp_all

lemma of_unary_unary: "of_unary 0 (unary ns) = ns"
  by (induction ns) (simp_all add: unary_def of_unary_run)

definition flat_codec :: user_codec where
  "flat_codec = \<lparr>uc_to_vec = (\<lambda>r. Inr (unary (put_user r))), uc_from_slice = (\<lambda>bs. Inr (pull_user (of_unary 0 bs)))\<rparr>"

lemma flat_codec_law: "uc_to_vec flat_codec r = Inr (unary (put_user r)) \<and> uc_from_slice flat_codec (unary (put_user r)) = Inr r"
  by (simp add: flat_codec_def of_unary_unary pull_put_user)

subsection \<open>A concrete environment\<close>

text \<open>A password derives a key of its first bytes.\<close>

definition sample_kdf :: kdf_env where
  "sample_kdf = \<lparr>kf_sec = sample_env\<lparr>en_prims := keyed_prims\<rparr>, kf_param_error = (\<lambda>m t p. None),
     kf_hash = (\<lambda>params pw. Inr (take 32 (pw @ replicate 32 0)))\<rparr>"

definition sample_handler :: handler_env where
  "sample_handler = \<lparr>hv_kdf = sample_kdf, hv_codec = flat_codec, hv_session = sample_env\<lparr>en_prims := keyed_prims\<rparr>,
     hv_switch = (\<lambda>_. sample_env\<lparr>en_prims := keyed_prims\<rparr>),
     hv_rand = (\<lambda>i. \<lparr>sd_seed = [], sd_nonce = replicate 12 (of_nat i), sd_discarded = [9, of_nat i]\<rparr>), hv_real_slot = 2,
     hv_salt = replicate 16 7, hv_instant = 0, hv_now = 1000 * NANOS, hv_core_display = (\<lambda>e. ''error'')\<rparr>"

definition sample_config :: auth_config where
  "sample_config = \<lparr>ac_default_ttl_seconds = 3600, ac_max_ttl_seconds = 86400, ac_session_sweep_interval_seconds = 60,
     ac_min_login_response_ms = 250, ac_max_failed_logins = 5, ac_lockout_seconds = 60, ac_enforce_authorization = True,
     ac_max_refreshes = 3\<rparr>"

text \<open>An installation with the given accounts and no session.\<close>

definition sample_auth_state :: "user_record list \<Rightarrow> auth_state" where
  "sample_auth_state rs = \<lparr>as_user_store = \<lparr>ud_rows = map (\<lambda>r. (ur_username r, unary (put_user r))) rs, ud_faults = []\<rparr>,
     as_sessions = \<lparr>st_inner = [], st_keyring = [9]\<rparr>, as_login_attempts = [], as_config = sample_config,
     as_argon2_config = \<lparr>ag_m_cost_kib = 8, ag_t_cost = 1, ag_p_cost = 1\<rparr>, as_dummy_record = sample_user\<rparr>"

definition sample_admin :: user_record where
  "sample_admin = sample_user\<lparr>ur_username := ''root'', ur_role := Admin\<rparr>"

lemma sample_handler_simps [simp]:
  "hv_codec sample_handler = flat_codec" "hv_real_slot sample_handler = 2" "hv_kdf sample_handler = sample_kdf"
  by (simp_all add: sample_handler_def)

end
