(* ===== verification/Auth_Laws.thy ===== *)
theory Auth_Laws
  imports Account_Samples
begin

text \<open>
  Invariants of the account handlers: the table of users stays well-formed whatever runs while a key is derived, and an
  administrator remains. \<open>keeps\<close> and \<open>triple\<close> are the two judgements on computations the proofs use.
\<close>

subsection \<open>Computations that keep an invariant\<close>

definition keeps :: "('s \<Rightarrow> bool) \<Rightarrow> ('s, 'e, 'a) comp \<Rightarrow> ('a \<Rightarrow> bool) \<Rightarrow> bool" where
  "keeps I m Q \<longleftrightarrow> (\<forall>s. I s \<longrightarrow> (case m s of (s', r) \<Rightarrow> I s' \<and> (\<forall>x. r = Inr x \<longrightarrow> Q x)))"

lemma keepsI: "(\<And>s s' r. I s \<Longrightarrow> m s = (s', r) \<Longrightarrow> I s' \<and> (\<forall>x. r = Inr x \<longrightarrow> Q x)) \<Longrightarrow> keeps I m Q"
  by (auto simp: keeps_def)

lemma keepsD: "keeps I m Q \<Longrightarrow> I s \<Longrightarrow> I (fst (m s))"
  by (cases "m s") (auto simp: keeps_def)

lemma keepsE: "keeps I m Q \<Longrightarrow> I s \<Longrightarrow> m s = (s', r) \<Longrightarrow> I s' \<and> (\<forall>x. r = Inr x \<longrightarrow> Q x)"
  by (auto simp: keeps_def)

lemma keeps_weaken: "keeps I m Q \<Longrightarrow> (\<And>x. Q x \<Longrightarrow> R x) \<Longrightarrow> keeps I m R"
  by (rule keepsI) (blast dest: keepsE)

lemma keeps_bind: "keeps I m Q \<Longrightarrow> (\<And>x. Q x \<Longrightarrow> keeps I (f x) R) \<Longrightarrow> keeps I (sbind m f) R"
proof (rule keepsI)
  fix s s' r
  assume m: "keeps I m Q" and f: "\<And>x. Q x \<Longrightarrow> keeps I (f x) R" and s: "I s" "sbind m f s = (s', r)"
  obtain t q where t: "m s = (t, q)" by (cases "m s")
  show "I s' \<and> (\<forall>x. r = Inr x \<longrightarrow> R x)"
    using keepsE [OF m s(1) t] s(2) t keepsE [OF f] by (cases q) (auto simp: sbind_def)
qed

lemma keeps_sret: "Q x \<Longrightarrow> keeps I (sret x) Q"
  and keeps_sfail: "keeps I (sfail e) Q"
  by (auto simp: keeps_def comp_defs)

lemma keeps_slift: "(\<And>x. r = Inr x \<Longrightarrow> Q x) \<Longrightarrow> keeps I (slift r) Q"
  by (auto simp: keeps_def comp_defs)

lemma keeps_sget: "(\<And>s. I s \<Longrightarrow> Q (f s)) \<Longrightarrow> keeps I (sget f) Q"
  by (auto simp: keeps_def comp_defs)

lemma keeps_supd: "(\<And>s. I s \<Longrightarrow> I (f s)) \<Longrightarrow> Q () \<Longrightarrow> keeps I (supd f) Q"
  by (auto simp: keeps_def comp_defs)

lemma keeps_then: "keeps I m (\<lambda>_. True) \<Longrightarrow> (\<And>x. keeps I (f x) R) \<Longrightarrow> keeps I (sbind m f) R"
  by (rule keeps_bind) auto

lemmas keeps_leaf = keeps_sret keeps_sfail keeps_slift keeps_sget keeps_supd

subsection \<open>The table of users\<close>

definition user_codec_ok :: "user_codec \<Rightarrow> bool" where
  "user_codec_ok C \<longleftrightarrow> (\<forall>r. \<exists>bs. uc_to_vec C r = Inr bs \<and> uc_from_slice C bs = Inr r)"

definition record_ok :: "string \<Rightarrow> user_record \<Rightarrow> bool" where
  "record_ok u r \<longleftrightarrow> ur_username r = u \<and> length (ur_slots r) = CREDENTIAL_SLOTS \<and> unat (ur_primary_slot r) < CREDENTIAL_SLOTS"

definition users_ok :: "user_codec \<Rightarrow> user_db \<Rightarrow> bool" where
  "users_ok C db \<longleftrightarrow> dm_inv (ud_rows db)
     \<and> (\<forall>u bs. dm_get (ud_rows db) u = Some bs \<longrightarrow> (\<exists>r. uc_from_slice C bs = Inr r \<and> record_ok u r))"

definition accounts :: "user_codec \<Rightarrow> user_db \<Rightarrow> string \<Rightarrow> user_record option" where
  "accounts C db u = Option.bind (dm_get (ud_rows db) u) (\<lambda>bs. case uc_from_slice C bs of Inr r \<Rightarrow> Some r | Inl _ \<Rightarrow> None)"

lemma user_codec_okE:
  assumes "user_codec_ok C"
  obtains bs where "uc_to_vec C r = Inr bs" and "uc_from_slice C bs = Inr r"
  using assms by (auto simp: user_codec_ok_def)

lemma accounts_ok: "users_ok C db \<Longrightarrow> accounts C db u = Some r \<Longrightarrow> record_ok u r"
  by (fastforce simp: users_ok_def accounts_def split: bind_splits sum.splits)

lemma accounts_None: "users_ok C db \<Longrightarrow> accounts C db u = None \<longleftrightarrow> dm_get (ud_rows db) u = None"
  by (fastforce simp: users_ok_def accounts_def split: bind_splits sum.splits)

lemma accounts_faults [simp]: "accounts C (db\<lparr>ud_faults := fs\<rparr>) = accounts C db"
  by (simp add: accounts_def fun_eq_iff)

lemma users_ok_faults [simp]: "users_ok C (db\<lparr>ud_faults := fs\<rparr>) = users_ok C db"
  by (simp add: users_ok_def)

lemma db_txn_cases: "db_txn db = (db', r) \<Longrightarrow> \<exists>fs. db' = db\<lparr>ud_faults := fs\<rparr>"
  by (cases db) (auto simp: db_txn_def split: list.splits option.splits)

lemma db_txn_ok [simp]: "ud_faults db = [] \<Longrightarrow> db_txn db = (db, Inr ())"
  by (simp add: db_txn_def)

lemma us_get_spec:
  assumes "us_get C u db = (db', Inr x)" and "users_ok C db"
  shows "x = accounts C db u \<and> (\<exists>fs. db' = db\<lparr>ud_faults := fs\<rparr>)"
  using assms
  by (auto simp: us_get_def sbind_Inr_iff sget_def slift_def sret_def of_payload_def accounts_def
      split: option.splits sum.splits dest!: db_txn_cases)


text \<open>What the user table's operations keep, and what a row read from it satisfies.\<close>

definition row_ok :: "user_codec \<Rightarrow> string \<Rightarrow> bytes option \<Rightarrow> bool" where
  "row_ok C u row \<longleftrightarrow> (\<forall>bs. row = Some bs \<longrightarrow> (\<exists>r. uc_from_slice C bs = Inr r \<and> record_ok u r))"

lemma users_ok_insert:
  assumes "user_codec_ok C" and "users_ok C db" and "to_payload C r = Inr bs" and "record_ok u r"
  shows "users_ok C (db\<lparr>ud_rows := dm_insert u bs (ud_rows db)\<rparr>)"
proof -
  have "uc_from_slice C bs = Inr r"
    using assms(1,3) by (auto simp: to_payload_def elim: user_codec_okE [of C r])
  then show ?thesis using assms by (auto simp: users_ok_def dm.get_ins dm.inv_ins)
qed

lemma users_ok_remove: "users_ok C db \<Longrightarrow> users_ok C (db\<lparr>ud_rows := dm_remove u (ud_rows db)\<rparr>)"
  by (auto simp: users_ok_def dm.get_rem dm.inv_rem split: if_splits)

lemma keeps_txn: "keeps (users_ok C) db_txn (\<lambda>_. True)"
  by (rule keepsI) (auto dest!: db_txn_cases)

lemma keeps_row: "keeps (users_ok C) (sget (\<lambda>db. dm_get (ud_rows db) u)) (row_ok C u)"
  by (rule keeps_sget) (auto simp: users_ok_def row_ok_def)

lemma keeps_get: "keeps (users_ok C) (us_get C u) (\<lambda>x. \<forall>r. x = Some r \<longrightarrow> record_ok u r)"
  unfolding us_get_def
proof (intro keeps_bind [OF keeps_txn] keeps_bind [OF keeps_row])
  fix row
  assume "row_ok C u row"
  then show "keeps (users_ok C) (case row of None \<Rightarrow> sret None
      | Some bs \<Rightarrow> sbind (slift (of_payload C bs)) (\<lambda>rec. sret (Some rec))) (\<lambda>x. \<forall>r. x = Some r \<longrightarrow> record_ok u r)"
    by (cases row) (auto simp: row_ok_def of_payload_def keeps_def comp_defs)
qed

lemma keeps_upsert: "user_codec_ok C \<Longrightarrow> record_ok (ur_username rec) rec \<Longrightarrow> keeps (users_ok C) (us_upsert C rec) (\<lambda>_. True)"
  unfolding us_upsert_def
  by (rule keeps_bind [where Q = "\<lambda>bs. to_payload C rec = Inr bs"])
    (auto intro!: keeps_slift keeps_then [OF keeps_txn] keeps_supd intro: users_ok_insert)

lemma keeps_update: "user_codec_ok C \<Longrightarrow> keeps (users_ok C) (us_update_last_login C u ts) (\<lambda>_. True)"
  unfolding us_update_last_login_def
proof (intro keeps_bind [OF keeps_txn] keeps_bind [OF keeps_row])
  fix row
  assume c: "user_codec_ok C" and "row_ok C u row"
  show "keeps (users_ok C) (case row of None \<Rightarrow> sret None
     | Some bs \<Rightarrow> sbind (slift (of_payload C bs)) (\<lambda>rec. let rec = rec\<lparr>ur_last_login := Some ts\<rparr> in
       sbind (slift (to_payload C rec)) (\<lambda>payload.
       sbind (supd (\<lambda>db. db\<lparr>ud_rows := dm_insert u payload (ud_rows db)\<rparr>)) (\<lambda>_. sret (Some rec))))) (\<lambda>_. True)"
  proof (cases row)
    case (Some bs)
    then obtain r where r: "uc_from_slice C bs = Inr r" "record_ok u r" using \<open>row_ok C u row\<close> by (auto simp: row_ok_def)
    then have "record_ok u (r\<lparr>ur_last_login := Some ts\<rparr>)" by (simp add: record_ok_def)
    then show ?thesis
      using Some r c by (auto simp: keeps_def comp_defs of_payload_def Let_def intro: users_ok_insert split: sum.splits)
  qed (simp add: keeps_sret)
qed

lemma keeps_us_delete: "keeps (users_ok C) (us_delete u) (\<lambda>_. True)"
  unfolding us_delete_def by (auto intro!: keeps_then [OF keeps_txn] keeps_then keeps_leaf users_ok_remove)

lemma keeps_list: "keeps (users_ok C) (us_list C) (\<lambda>_. True)"
  unfolding us_list_def by (auto intro!: keeps_then [OF keeps_txn] keeps_then keeps_leaf)

subsection \<open>The handlers keep the table well-formed\<close>

definition auth_ok :: "user_codec \<Rightarrow> auth_state \<Rightarrow> bool" where
  "auth_ok C st \<longleftrightarrow> users_ok C (as_user_store st)"

lemma auth_ok_upd [simp]:
  "auth_ok C (st\<lparr>as_sessions := s\<rparr>) = auth_ok C st" "auth_ok C (st\<lparr>as_login_attempts := la\<rparr>) = auth_ok C st"
  "auth_ok C (st\<lparr>as_user_store := db\<rparr>) = users_ok C db"
  by (simp_all add: auth_ok_def)

lemma keeps_on_users: "keeps (users_ok C) m Q \<Longrightarrow> keeps (auth_ok C) (on_users H m) Q"
  unfolding on_users_def backend_def
  by (rule keepsI) (auto simp: auth_ok_def split: prod.splits dest: keepsE)

lemmas keeps_user_ops =
  keeps_on_users [OF keeps_upsert] keeps_on_users [OF keeps_update] keeps_on_users [OF keeps_us_delete] keeps_on_users [OF keeps_list]

lemma keeps_kdf_result: "(\<And>x. r = Inr x \<Longrightarrow> Q x) \<Longrightarrow> keeps I (kdf_result H r) Q"
  unfolding kdf_result_def backend_def by (rule keeps_slift) simp

lemma keeps_gate: "keeps (auth_ok C) (lockout_gate H u) (\<lambda>_. True)"
  by (rule keepsI) (auto simp: lockout_gate_def split: prod.splits sum.splits)

lemma keeps_notes:
  "keeps (auth_ok C) (note_failure H u) (\<lambda>_. True)" "keeps (auth_ok C) (note_success u) (\<lambda>_. True)"
  by (auto simp: note_failure_def note_success_def intro!: keeps_supd)

lemma keeps_meanwhile: "(\<And>i st. auth_ok C st \<Longrightarrow> auth_ok C (W i st)) \<Longrightarrow> keeps (auth_ok C) (meanwhile W i) (\<lambda>_. True)"
  unfolding meanwhile_def by (auto intro!: keeps_supd)

lemma set_slot_ok: "set_slot i s rec = Inr upd \<Longrightarrow> record_ok u rec \<Longrightarrow> record_ok u upd \<and> ur_username upd = u"
  by (auto simp: set_slot_def record_ok_def split: if_splits)

lemma attempt_unwrap_rec: "attempt_unwrap K rec p = Inr (rec', i, pl) \<Longrightarrow> rec' = rec"
  by (auto simp: attempt_unwrap_def split: sum.splits option.splits)

lemma attempt_unwrap_slot_rec:
  "attempt_unwrap_slot K rec p i = Inr (rec', j, pl) \<Longrightarrow> rec' = rec \<and> j = i \<and> i < CREDENTIAL_SLOTS \<and> i < length (ur_slots rec)"
  by (auto simp: attempt_unwrap_slot_def split: sum.splits option.splits if_splits)

lemma new_slots_random_ok:
  "new_slots_random K R real u p params r b = Inr (slots, i) \<Longrightarrow> length slots = CREDENTIAL_SLOTS \<and> i = real"
  by (auto simp: new_slots_random_def dest: rmap_length)

lemma unat_slot: "i < CREDENTIAL_SLOTS \<Longrightarrow> unat (of_nat i :: u8) = i"
  by (simp add: CREDENTIAL_SLOTS_def unat_of_nat)

lemma keeps_session_insert:
  "keeps (auth_ok C) (\<lambda>st. case insert_session E (as_sessions st) s of (sessions, r) \<Rightarrow> (st\<lparr>as_sessions := sessions\<rparr>, r)) (\<lambda>_. True)"
  by (rule keepsI) (auto split: prod.splits)

lemma keeps_finalize:
  assumes "user_codec_ok (hv_codec H)" and W: "\<And>i st. auth_ok (hv_codec H) st \<Longrightarrow> auth_ok (hv_codec H) (W i st)"
  shows "keeps (auth_ok (hv_codec H)) (finalize_login_after_unwrap W H u snap i pl t) (\<lambda>_. True)"
  unfolding finalize_login_after_unwrap_def
  by (intro keeps_then [OF keeps_weaken [OF keeps_on_users [OF keeps_get]]] TrueI)
    (auto split: option.splits intro!: keeps_then keeps_leaf keeps_user_ops assms keeps_kdf_result keeps_meanwhile
      keeps_session_insert keeps_notes keeps_weaken [OF keeps_on_users [OF keeps_get]])

lemma keeps_login:
  assumes "user_codec_ok (hv_codec H)" and W: "\<And>i st. auth_ok (hv_codec H) st \<Longrightarrow> auth_ok (hv_codec H) (W i st)"
  shows "keeps (auth_ok (hv_codec H)) (login W H u p ttl) (\<lambda>_. True)"
  unfolding login_def
  by (auto split: sum.splits option.splits intro!: keeps_then keeps_leaf keeps_gate keeps_meanwhile keeps_notes assms keeps_finalize
      keeps_weaken [OF keeps_on_users [OF keeps_get]])


abbreviation stored_ok :: "string \<Rightarrow> user_record option \<Rightarrow> bool" where
  "stored_ok u x \<equiv> \<forall>r. x = Some r \<longrightarrow> record_ok u r"

lemma keeps_save_slot:
  assumes "user_codec_ok (hv_codec H)" and "record_ok u rec"
  shows "keeps (auth_ok (hv_codec H)) (save_slot H i s rec) (\<lambda>_. True)"
  unfolding save_slot_def
  by (rule keeps_bind [where Q = "\<lambda>upd. record_ok (ur_username upd) upd"])
    (use assms in \<open>auto intro!: keeps_slift keeps_user_ops dest: set_slot_ok\<close>)

lemma keeps_change_password:
  assumes "user_codec_ok (hv_codec H)" and W: "\<And>i st. auth_ok (hv_codec H) st \<Longrightarrow> auth_ok (hv_codec H) (W i st)"
  shows "keeps (auth_ok (hv_codec H)) (change_password W H auth cur new) (\<lambda>_. True)"
  unfolding change_password_def Let_def
  by (auto split: sum.splits option.splits intro!: keeps_then [OF keeps_gate] keeps_bind [OF keeps_on_users [OF keeps_get]]
      keeps_then keeps_leaf keeps_meanwhile keeps_notes assms keeps_kdf_result keeps_save_slot
      dest!: attempt_unwrap_slot_rec)

lemma keeps_lookup:
  assumes "\<And>rec. record_ok u rec \<Longrightarrow> keeps (auth_ok C) (k rec) R"
  shows "keeps (auth_ok C) (sbind (on_users H (us_get C u)) (\<lambda>row. sbind (slift (ok_or row e)) k)) R"
  by (rule keeps_bind [OF keeps_on_users [OF keeps_get]], rule keeps_bind [where Q = "record_ok u"])
    (auto intro!: keeps_slift assms)

lemma keeps_create_persona:
  assumes "user_codec_ok (hv_codec H)" and W: "\<And>i st. auth_ok (hv_codec H) st \<Longrightarrow> auth_ok (hv_codec H) (W i st)"
  shows "keeps (auth_ok (hv_codec H)) (create_persona W H auth slot p r rv) (\<lambda>_. True)"
  unfolding create_persona_def
  by (auto intro!: keeps_then [OF keeps_slift] keeps_lookup keeps_then [OF keeps_meanwhile] keeps_then [OF keeps_kdf_result]
      keeps_then [OF keeps_save_slot] keeps_leaf assms)

lemma keeps_delete_persona:
  assumes "user_codec_ok (hv_codec H)" and W: "\<And>i st. auth_ok (hv_codec H) st \<Longrightarrow> auth_ok (hv_codec H) (W i st)"
  shows "keeps (auth_ok (hv_codec H)) (delete_persona W H auth slot) (\<lambda>_. True)"
  unfolding delete_persona_def
  by (auto intro!: keeps_then [OF keeps_slift] keeps_lookup keeps_then [OF keeps_meanwhile] keeps_then [OF keeps_kdf_result]
      keeps_then [OF keeps_save_slot] keeps_leaf assms)

lemma keeps_new_slots:
  "keeps I (kdf_result H (new_slots_random K R real u p params r b)) (\<lambda>(slots, i). length slots = CREDENTIAL_SLOTS \<and> i = real)"
  by (rule keeps_kdf_result) (auto dest: new_slots_random_ok)

lemma keeps_add_user:
  assumes "user_codec_ok (hv_codec H)" and W: "\<And>i st. auth_ok (hv_codec H) st \<Longrightarrow> auth_ok (hv_codec H) (W i st)"
    and "hv_real_slot H < CREDENTIAL_SLOTS"
  shows "keeps (auth_ok (hv_codec H)) (add_user W H u p r) (\<lambda>_. True)"
  unfolding add_user_def
  using assms(3) by (auto intro!: keeps_then [OF keeps_slift] keeps_then [OF keeps_weaken [OF keeps_on_users [OF keeps_get]]]
      keeps_then [OF keeps_sget] keeps_then [OF keeps_meanwhile] keeps_bind [OF keeps_new_slots] keeps_user_ops keeps_leaf assms
      simp: record_ok_def CREDENTIAL_SLOTS_def)

lemma keeps_set_role:
  assumes "user_codec_ok (hv_codec H)"
  shows "keeps (auth_ok (hv_codec H)) (set_role H u name) (\<lambda>_. True)"
  unfolding set_role_def Let_def
  by (auto intro!: keeps_then [OF keeps_slift] keeps_then [OF keeps_weaken [OF keeps_on_users [OF keeps_get]]]
      keeps_then [OF keeps_user_ops(4)] keeps_lookup keeps_then [OF keeps_user_ops(1)] keeps_leaf assms
      simp: record_ok_def)

lemma keeps_remove_account: "keeps (auth_ok (hv_codec H)) (remove_account H u) (\<lambda>_. True)"
  unfolding remove_account_def
  by (auto intro!: keeps_then [OF keeps_user_ops(4)] keeps_then [OF keeps_user_ops(3)] keeps_leaf)


lemma keeps_on_auth: "keeps I m Q \<Longrightarrow> keeps (\<lambda>s. I (fst s)) (on_auth m) Q"
  by (rule keepsI) (auto simp: on_auth_def split: prod.splits dest: keepsE)

lemma keeps_on_store: "keeps (\<lambda>s. I (fst s)) (on_store m) (\<lambda>_. True)"
  by (rule keepsI) (auto simp: on_store_def split: prod.splits)

lemma keeps_delete_user: "keeps (\<lambda>s. auth_ok (hv_codec H) (fst s)) (delete_user Q H u force) (\<lambda>_. True)"
  unfolding delete_user_def
  by (auto intro!: keeps_then keeps_leaf keeps_on_store keeps_on_auth keeps_remove_account)

lemma keeps_reset_identity:
  assumes "user_codec_ok (hv_codec H)" and W: "\<And>i st. auth_ok (hv_codec H) st \<Longrightarrow> auth_ok (hv_codec H) (W i st)"
    and "hv_real_slot H < CREDENTIAL_SLOTS"
  shows "keeps (\<lambda>s. auth_ok (hv_codec H) (fst s)) (reset_identity Q W H u p) (\<lambda>_. True)"
  unfolding reset_identity_def
  using assms(3)
  by (auto intro!: keeps_then [OF keeps_on_auth] keeps_lookup keeps_then [OF keeps_meanwhile] keeps_bind [OF keeps_new_slots]
      keeps_then [OF keeps_user_ops(1)] keeps_leaf keeps_on_store assms simp: record_ok_def CREDENTIAL_SLOTS_def)

text \<open>A request to the account handlers.\<close>

datatype account_call =
    CallLogin string bytes "u64 option"
  | CallLogout authenticated
  | CallChangePassword authenticated bytes bytes
  | CallCreatePersona authenticated u8 bytes role bool
  | CallDeletePersona authenticated u8
  | CallAddUser string bytes role
  | CallSetRole string string
  | CallDeleteUser string bool
  | CallResetIdentity string bytes

fun handle :: "'st account_ops \<Rightarrow> (nat \<Rightarrow> auth_state \<Rightarrow> auth_state) \<Rightarrow> handler_env \<Rightarrow> account_call \<Rightarrow> auth_state \<times> 'st \<Rightarrow> auth_state \<times> 'st" where
  "handle Q W H (CallLogin u p ttl) s = fst (on_auth (login W H u p ttl) s)"
| "handle Q W H (CallLogout auth) s = fst (on_auth (logout auth) s)"
| "handle Q W H (CallChangePassword auth cur new) s = fst (on_auth (change_password W H auth cur new) s)"
| "handle Q W H (CallCreatePersona auth slot p r rv) s = fst (on_auth (create_persona W H auth slot p r rv) s)"
| "handle Q W H (CallDeletePersona auth slot) s = fst (on_auth (delete_persona W H auth slot) s)"
| "handle Q W H (CallAddUser u p r) s = fst (on_auth (add_user W H u p r) s)"
| "handle Q W H (CallSetRole u name) s = fst (on_auth (set_role H u name) s)"
| "handle Q W H (CallDeleteUser u force) s = fst (delete_user Q H u force s)"
| "handle Q W H (CallResetIdentity u p) s = fst (reset_identity Q W H u p s)"

lemma handle_ok:
  assumes "user_codec_ok (hv_codec H)" and "hv_real_slot H < CREDENTIAL_SLOTS"
    and "\<And>i st. auth_ok (hv_codec H) st \<Longrightarrow> auth_ok (hv_codec H) (W i st)"
    and "auth_ok (hv_codec H) (fst s)"
  shows "auth_ok (hv_codec H) (fst (handle Q W H call s))"
proof -
  have a: "auth_ok (hv_codec H) (fst (fst (on_auth m s)))" if "keeps (auth_ok (hv_codec H)) m (\<lambda>_. True)" for m :: "'b auth_comp"
    using keepsD [OF keeps_on_auth [OF that]] assms(4) by blast
  show ?thesis
  proof (cases call)
    case (CallLogout auth)
    then show ?thesis using assms(4) by (cases s) (simp add: logout_def on_auth_def supd_def)
  next
    case (CallDeleteUser u force)
    then show ?thesis using keepsD [OF keeps_delete_user] assms(4) by fastforce
  next
    case (CallResetIdentity u p)
    then show ?thesis using keepsD [OF keeps_reset_identity [OF assms(1,3,2)] assms(4)] by simp
  qed (auto intro!: a keeps_login keeps_change_password keeps_create_persona keeps_delete_persona keeps_add_user keeps_set_role assms)
qed

text \<open>A history of requests, each with its own randomness and clocks, and with whatever else runs while it derives a key.\<close>

type_synonym request = "(nat \<Rightarrow> auth_state \<Rightarrow> auth_state) \<times> handler_env \<times> account_call"

definition handle_all :: "'st account_ops \<Rightarrow> request list \<Rightarrow> auth_state \<times> 'st \<Rightarrow> auth_state \<times> 'st" where
  "handle_all Q reqs s = fold (\<lambda>(W, H, call). handle Q W H call) reqs s"

lemma flat_codec_ok: "user_codec_ok flat_codec"
  using flat_codec_law by (auto simp: user_codec_ok_def)

lemma sample_records_ok: "record_ok ''root'' sample_admin" "record_ok ''alice'' sample_user"
  by (simp_all add: record_ok_def sample_admin_def sample_user_def slot_pks_def CREDENTIAL_SLOTS_def)

lemma sample_users_ok: "users_ok flat_codec (as_user_store (sample_auth_state [sample_admin, sample_user]))"
proof -
  have "ur_username sample_admin = ''root''" "ur_username sample_user = ''alice''" by (simp_all add: sample_admin_def sample_user_def)
  then show ?thesis
    using sample_records_ok flat_codec_law by (auto simp: users_ok_def sample_auth_state_def dm_inv_def)
qed

text \<open>C22. Whatever sequence of requests the account handlers serve, whatever fails, and whatever other requests do to the
  table while a password is being derived (as long as they keep it well-formed), every stored row decodes to a record
  that carries its own key as user name and has exactly four credential slots and a primary slot among them.\<close>

theorem accounts_stay_well_formed:
  assumes "user_codec_ok C" and "users_ok C (as_user_store (fst s))"
    and "\<forall>(W, H, call) \<in> set reqs. hv_codec H = C \<and> hv_real_slot H < CREDENTIAL_SLOTS
      \<and> (\<forall>i st. users_ok C (as_user_store st) \<longrightarrow> users_ok C (as_user_store (W i st)))"
  shows "users_ok C (as_user_store (fst (handle_all Q reqs s)))"
  using assms(2,3)
proof (induction reqs arbitrary: s)
  case (Cons req reqs)
  obtain W H call where req: "req = (W, H, call)" by (cases req)
  have "auth_ok (hv_codec H) (fst (handle Q W H call s))"
    using Cons(2,3) assms(1) req by (intro handle_ok) (auto simp: auth_ok_def)
  then show ?case using Cons req by (auto simp: handle_all_def auth_ok_def)
qed (simp add: handle_all_def)


theorem accounts_stay_well_formed_witness:
  "users_ok flat_codec (as_user_store (fst (handle_all (storage_ops.extend sample_ops (account_ops.fields (\<lambda>_. Inr [''b''])))
     [(\<lambda>_ st. st\<lparr>as_sessions := sample_store\<rparr>, sample_handler, CallAddUser ''bob'' [1, 2, 3] User),
      (\<lambda>_ st. st, sample_handler, CallDeleteUser ''alice'' False)]
     (sample_auth_state [sample_admin, sample_user], Some default_bucket_config))))"
  by (rule accounts_stay_well_formed [OF flat_codec_ok]) (auto simp: sample_users_ok CREDENTIAL_SLOTS_def)


subsection \<open>An administrator remains\<close>

text \<open>\<open>triple P m Q E\<close>: from a state in \<open>P\<close>, \<open>m\<close> ends in \<open>Q\<close> of its result, or with an error in \<open>E\<close>.\<close>

definition triple :: "('s \<Rightarrow> bool) \<Rightarrow> ('s, 'e, 'a) comp \<Rightarrow> ('a \<Rightarrow> 's \<Rightarrow> bool) \<Rightarrow> ('s \<Rightarrow> bool) \<Rightarrow> bool" where
  "triple P m Q E \<longleftrightarrow> (\<forall>s s' r. P s \<longrightarrow> m s = (s', r) \<longrightarrow> (case r of Inr x \<Rightarrow> Q x s' | Inl _ \<Rightarrow> E s'))"

lemma tripleI: "(\<And>s s' r. P s \<Longrightarrow> m s = (s', r) \<Longrightarrow> case r of Inr x \<Rightarrow> Q x s' | Inl _ \<Rightarrow> E s') \<Longrightarrow> triple P m Q E"
  by (auto simp: triple_def)

lemma triple_sbind: "triple P m M E \<Longrightarrow> (\<And>x. triple (M x) (f x) Q E) \<Longrightarrow> triple P (sbind m f) Q E"
proof (rule tripleI)
  fix s s' r
  assume m: "triple P m M E" and f: "\<And>x. triple (M x) (f x) Q E" and s: "P s" "sbind m f s = (s', r)"
  obtain t q where t: "m s = (t, q)" by (cases "m s")
  show "case r of Inr x \<Rightarrow> Q x s' | Inl _ \<Rightarrow> E s'"
  proof (cases q)
    case (Inl e)
    then show ?thesis using m s t by (fastforce simp: triple_def sbind_def)
  next
    case (Inr x)
    then have "M x t" using m s(1) t by (fastforce simp: triple_def)
    moreover have "f x t = (s', r)" using s(2) t Inr by (simp add: sbind_def)
    ultimately show ?thesis using f unfolding triple_def by blast
  qed
qed

lemma triple_weaken: "triple P m Q E \<Longrightarrow> (\<And>s. P' s \<Longrightarrow> P s) \<Longrightarrow> (\<And>x s. Q x s \<Longrightarrow> Q' x s) \<Longrightarrow> (\<And>s. E s \<Longrightarrow> E' s) \<Longrightarrow> triple P' m Q' E'"
  by (fastforce simp: triple_def split: sum.splits)

lemma triple_err: "triple P m Q E \<Longrightarrow> (\<And>s. E s \<Longrightarrow> E' s) \<Longrightarrow> triple P m Q E'"
  by (rule triple_weaken)

lemma triple_if: "(b \<Longrightarrow> triple P m Q E) \<Longrightarrow> (\<not> b \<Longrightarrow> triple P m' Q E) \<Longrightarrow> triple P (if b then m else m') Q E"
  by simp

lemma triple_sret: "(\<And>s. P s \<Longrightarrow> Q x s) \<Longrightarrow> triple P (sret x) Q E"
  and triple_sfail: "(\<And>s. P s \<Longrightarrow> E s) \<Longrightarrow> triple P (sfail e) Q' E"
  by (auto simp: triple_def comp_defs)

lemma triple_slift: "(\<And>s x. P s \<Longrightarrow> r = Inr x \<Longrightarrow> Q x s) \<Longrightarrow> (\<And>s. P s \<Longrightarrow> E s) \<Longrightarrow> triple P (slift r) Q E"
  by (auto simp: triple_def comp_defs split: sum.splits)

lemma triple_sget: "(\<And>s. P s \<Longrightarrow> Q (f s) s) \<Longrightarrow> triple P (sget f) Q E"
  by (auto simp: triple_def comp_defs)

lemma triple_supd: "(\<And>s. P s \<Longrightarrow> Q () (f s)) \<Longrightarrow> triple P (supd f) Q E"
  by (auto simp: triple_def comp_defs)

lemma accounts_insert:
  assumes "user_codec_ok C" and "users_ok C db" and "to_payload C r = Inr bs"
  shows "accounts C (db\<lparr>ud_rows := dm_insert u bs (ud_rows db)\<rparr>) = (accounts C db)(u \<mapsto> r)"
proof -
  have "uc_from_slice C bs = Inr r"
    using assms(1,3) by (auto simp: to_payload_def elim: user_codec_okE [of C r])
  then show ?thesis using assms(2) by (auto simp: accounts_def users_ok_def dm.get_ins fun_eq_iff)
qed

lemma accounts_remove: "users_ok C db \<Longrightarrow> accounts C (db\<lparr>ud_rows := dm_remove u (ud_rows db)\<rparr>) = (accounts C db)(u := None)"
  by (auto simp: accounts_def users_ok_def dm.get_rem fun_eq_iff)

text \<open>The table stands for a map from user names to records.\<close>

definition holds :: "user_codec \<Rightarrow> (string \<Rightarrow> user_record option) \<Rightarrow> user_db \<Rightarrow> bool" where
  "holds C \<alpha> db \<longleftrightarrow> users_ok C db \<and> accounts C db = \<alpha>"

lemma holds_record: "holds C \<alpha> db \<Longrightarrow> \<alpha> u = Some r \<Longrightarrow> record_ok u r"
  by (auto simp: holds_def dest: accounts_ok)

lemma triple_txn: "triple (holds C \<alpha>) db_txn (\<lambda>_. holds C \<alpha>) (holds C \<alpha>)"
  by (rule tripleI) (auto simp: holds_def split: sum.splits dest!: db_txn_cases)

lemma triple_row:
  "triple (holds C \<alpha>) (sget (\<lambda>db. dm_get (ud_rows db) u)) (\<lambda>row db. holds C \<alpha> db
     \<and> (case row of None \<Rightarrow> \<alpha> u = None | Some bs \<Rightarrow> \<exists>r. of_payload C bs = Inr r \<and> \<alpha> u = Some r \<and> record_ok u r)) (holds C \<alpha>)"
  by (rule triple_sget) (fastforce simp: holds_def users_ok_def accounts_def of_payload_def split: option.splits)

lemma triple_db_get: "triple (holds C \<alpha>) (us_get C u) (\<lambda>x db. holds C \<alpha> db \<and> x = \<alpha> u) (holds C \<alpha>)"
  unfolding us_get_def
  by (rule triple_sbind [OF triple_txn], rule triple_sbind [OF triple_row], rule tripleI)
    (auto simp: comp_defs split: option.splits sum.splits)

lemma triple_db_upsert:
  assumes "user_codec_ok C" and "record_ok (ur_username rec) rec"
  shows "triple (holds C \<alpha>) (us_upsert C rec) (\<lambda>_. holds C (\<alpha>(ur_username rec \<mapsto> rec))) (holds C \<alpha>)"
  unfolding us_upsert_def
proof (rule triple_sbind)
  show "triple (holds C \<alpha>) (slift (to_payload C rec)) (\<lambda>bs db. holds C \<alpha> db \<and> to_payload C rec = Inr bs) (holds C \<alpha>)"
    by (rule triple_slift) auto
  fix bs
  show "triple (\<lambda>db. holds C \<alpha> db \<and> to_payload C rec = Inr bs)
      (sbind db_txn (\<lambda>_. supd (\<lambda>db. db\<lparr>ud_rows := dm_insert (ur_username rec) bs (ud_rows db)\<rparr>)))
      (\<lambda>_. holds C (\<alpha>(ur_username rec \<mapsto> rec))) (holds C \<alpha>)"
  proof (cases "to_payload C rec = Inr bs")
    case True
    show ?thesis
      by (rule triple_sbind [where M = "\<lambda>_. holds C \<alpha>"], rule triple_weaken [OF triple_txn])
        (use True assms users_ok_insert accounts_insert in \<open>auto intro!: triple_supd simp: holds_def\<close>)
  qed (simp add: triple_def)
qed

lemma triple_db_update:
  assumes "user_codec_ok C"
  shows "triple (holds C \<alpha>) (us_update_last_login C u ts)
    (\<lambda>x db. x = map_option (\<lambda>r. r\<lparr>ur_last_login := Some ts\<rparr>) (\<alpha> u)
       \<and> holds C (case \<alpha> u of None \<Rightarrow> \<alpha> | Some r \<Rightarrow> \<alpha>(u \<mapsto> r\<lparr>ur_last_login := Some ts\<rparr>)) db) (holds C \<alpha>)"
  unfolding us_update_last_login_def
proof (rule triple_sbind [OF triple_txn], rule triple_sbind [OF triple_row], rule tripleI, goal_cases)
  case (1 _ row s s' q)
  show ?case
  proof (cases row)
    case None
    then show ?thesis using 1 by (auto simp: comp_defs)
  next
    case (Some bs)
    then obtain r where r: "of_payload C bs = Inr r" "\<alpha> u = Some r" "record_ok u r" and h: "holds C \<alpha> s" using 1(1) by auto
    have "record_ok u (r\<lparr>ur_last_login := Some ts\<rparr>)" using r(3) by (simp add: record_ok_def)
    then show ?thesis
      using 1(2) Some r h users_ok_insert [OF assms] accounts_insert [OF assms]
      by (auto simp: comp_defs Let_def holds_def split: sum.splits)
  qed
qed

lemma triple_db_delete:
  "triple (holds C \<alpha>) (us_delete u) (\<lambda>x db. x = (\<alpha> u \<noteq> None) \<and> holds C (\<alpha>(u := None)) db) (holds C \<alpha>)"
  unfolding us_delete_def
  by (rule triple_sbind [OF triple_txn], rule tripleI)
    (auto simp: comp_defs holds_def users_ok_remove accounts_remove accounts_None [symmetric] simp flip: not_None_eq)

text \<open>What the listing says of the accounts.\<close>

definition listing :: "(string \<Rightarrow> user_record option) \<Rightarrow> user_summary list \<Rightarrow> bool" where
  "listing \<alpha> xs \<longleftrightarrow> distinct (map um_username xs)
     \<and> (\<forall>u r. (\<exists>x \<in> set xs. um_username x = u \<and> um_role x = r) \<longleftrightarrow> map_option ur_role (\<alpha> u) = Some r)"

lemma rmap_decode:
  assumes "\<forall>(u, bs) \<in> set rows. of_payload C bs = Inr (f u)"
  shows "rmap (\<lambda>(_, bs). rbind (of_payload C bs) (\<lambda>r. Inr (g r))) rows = Inr (map (\<lambda>(u, _). g (f u)) rows)"
  using assms by (induction rows) auto

lemma triple_db_list: "triple (holds C \<alpha>) (us_list C) (\<lambda>xs db. holds C \<alpha> db \<and> listing \<alpha> xs) (holds C \<alpha>)"
  unfolding us_list_def
proof (rule triple_sbind [OF triple_txn], rule triple_sbind [where M = "\<lambda>rows db. holds C \<alpha> db \<and> rows = sort_key fst (ud_rows db)"])
  show "triple (holds C \<alpha>) (sget (\<lambda>db. sort_key fst (ud_rows db))) (\<lambda>rows db. holds C \<alpha> db \<and> rows = sort_key fst (ud_rows db)) (holds C \<alpha>)"
    by (rule triple_sget) simp
  fix rows
  show "triple (\<lambda>db. holds C \<alpha> db \<and> rows = sort_key fst (ud_rows db))
      (sbind (slift (rmap (\<lambda>(_, bs). rbind (of_payload C bs) (\<lambda>r. Inr (UserSummary_from r))) rows))
        (\<lambda>out. sret (sort_key um_username out))) (\<lambda>xs db. holds C \<alpha> db \<and> listing \<alpha> xs) (holds C \<alpha>)"
  proof (rule tripleI)
    fix s s' r
    assume s: "holds C \<alpha> s \<and> rows = sort_key fst (ud_rows s)"
      and run: "sbind (slift (rmap (\<lambda>(_, bs). rbind (of_payload C bs) (\<lambda>r. Inr (UserSummary_from r))) rows))
        (\<lambda>out. sret (sort_key um_username out)) s = (s', r)"
    have inv: "dm_inv (ud_rows s)" and al: "accounts C s = \<alpha>" using s by (auto simp: holds_def users_ok_def)
    have set: "set rows = set (ud_rows s)" using s by simp
    have row: "\<exists>r. of_payload C bs = Inr r \<and> \<alpha> u = Some r \<and> ur_username r = u" if "(u, bs) \<in> set (ud_rows s)" for u bs
      using that s dm.iter_mem [OF inv, of u bs]
      by (fastforce simp: holds_def users_ok_def accounts_def of_payload_def record_ok_def)
    have dec: "\<forall>(u, bs) \<in> set rows. of_payload C bs = Inr (the (\<alpha> u))" using row set by fastforce
    have out: "r = Inr (sort_key um_username (map (\<lambda>(u, _). UserSummary_from (the (\<alpha> u))) rows))" "s' = s"
      using run rmap_decode [OF dec, of UserSummary_from] by (simp_all add: comp_defs)
    have names: "map um_username (map (\<lambda>(u, _). UserSummary_from (the (\<alpha> u))) rows) = map fst rows"
      using row set by (fastforce simp: UserSummary_from_def)
    have "distinct (map fst rows)" using inv s by (simp add: dm_inv_def distinct_map)
    then have "distinct (map um_username (sort_key um_username (map (\<lambda>(u, _). UserSummary_from (the (\<alpha> u))) rows)))"
      unfolding distinct_map [of um_username] set_sort distinct_sort unfolding distinct_map [of um_username, symmetric] names .
    moreover have "(\<exists>x \<in> set (map (\<lambda>(u, _). UserSummary_from (the (\<alpha> u))) rows). um_username x = u \<and> um_role x = ro)
        \<longleftrightarrow> map_option ur_role (\<alpha> u) = Some ro" for u ro
    proof
      assume "\<exists>x \<in> set (map (\<lambda>(u, _). UserSummary_from (the (\<alpha> u))) rows). um_username x = u \<and> um_role x = ro"
      then obtain v bs where v: "(v, bs) \<in> set rows" "um_username (UserSummary_from (the (\<alpha> v))) = u"
          "um_role (UserSummary_from (the (\<alpha> v))) = ro"
        by auto
      then show "map_option ur_role (\<alpha> u) = Some ro" using row [of v bs] set by (auto simp: UserSummary_from_def)
    next
      assume "map_option ur_role (\<alpha> u) = Some ro"
      then obtain r where r: "\<alpha> u = Some r" "ur_role r = ro" by auto
      then obtain bs where bs: "(u, bs) \<in> set rows"
        using set dm.iter_mem [OF inv] accounts_None [of C s u] s al by (auto simp: holds_def)
      then have "um_username (UserSummary_from r) = u" using row [of u bs] set r by (auto simp: UserSummary_from_def)
      moreover have "UserSummary_from r \<in> set (map (\<lambda>(u, _). UserSummary_from (the (\<alpha> u))) rows)"
        using bs r by (force simp: image_iff)
      ultimately show "\<exists>x \<in> set (map (\<lambda>(u, _). UserSummary_from (the (\<alpha> u))) rows). um_username x = u \<and> um_role x = ro"
        using r(2) by (intro bexI [of _ "UserSummary_from r"]) (simp_all add: UserSummary_from_def)
    qed
    ultimately show "case r of Inr xs \<Rightarrow> holds C \<alpha> s' \<and> listing \<alpha> xs | Inl _ \<Rightarrow> holds C \<alpha> s'"
      using out s unfolding listing_def by (simp only: sum.case set_sort simp_thms)
  qed
qed


subsection \<open>Handlers and the account map\<close>

definition has :: "user_codec \<Rightarrow> (string \<Rightarrow> user_record option) \<Rightarrow> auth_state \<Rightarrow> bool" where
  "has C \<alpha> st \<longleftrightarrow> holds C \<alpha> (as_user_store st)"

lemma has_upd [simp]: "has C \<alpha> (st\<lparr>as_sessions := s\<rparr>) = has C \<alpha> st" "has C \<alpha> (st\<lparr>as_login_attempts := la\<rparr>) = has C \<alpha> st"
  by (simp_all add: has_def)

lemma triple_on_users:
  "triple (holds C \<alpha>) m Q (holds C \<alpha>) \<Longrightarrow> triple (has C \<alpha>) (on_users H m) (\<lambda>x st. Q x (as_user_store st)) (has C \<alpha>)"
proof (rule tripleI)
  fix s s' r
  assume m: "triple (holds C \<alpha>) m Q (holds C \<alpha>)" and s: "has C \<alpha> s" "on_users H m s = (s', r)"
  obtain db q where q: "m (as_user_store s) = (db, q)" by (cases "m (as_user_store s)")
  then have "case q of Inr x \<Rightarrow> Q x db | Inl _ \<Rightarrow> holds C \<alpha> db" using m s(1) by (auto simp: triple_def has_def)
  then show "case r of Inr x \<Rightarrow> Q x (as_user_store s') | Inl _ \<Rightarrow> has C \<alpha> s'"
    using s(2) q by (cases q) (auto simp: on_users_def backend_def has_def)
qed

lemmas triple_users =
  triple_on_users [OF triple_db_get, folded has_def] triple_on_users [OF triple_db_upsert, folded has_def]
  triple_on_users [OF triple_db_update, folded has_def] triple_on_users [OF triple_db_delete, folded has_def]
  triple_on_users [OF triple_db_list, folded has_def]

lemma triple_keeps: "(\<And>s s' r. I s \<Longrightarrow> m s = (s', r) \<Longrightarrow> I s') \<Longrightarrow> triple I m (\<lambda>_. I) I"
  by (fastforce simp: triple_def split: sum.splits)

lemma triple_small:
  "triple (has C \<alpha>) (lockout_gate H u) (\<lambda>_. has C \<alpha>) (has C \<alpha>)"
  "triple (has C \<alpha>) (note_failure H u) (\<lambda>_. has C \<alpha>) (has C \<alpha>)"
  "triple (has C \<alpha>) (note_success u) (\<lambda>_. has C \<alpha>) (has C \<alpha>)"
  "triple (has C \<alpha>) (meanwhile (\<lambda>_ st. st) i) (\<lambda>_. has C \<alpha>) (has C \<alpha>)"
  "triple (has C \<alpha>) (\<lambda>st. case insert_session E (as_sessions st) ns of (sessions, r) \<Rightarrow> (st\<lparr>as_sessions := sessions\<rparr>, r))
     (\<lambda>_. has C \<alpha>) (has C \<alpha>)"
  by (auto intro!: triple_keeps simp: lockout_gate_def note_failure_def note_success_def meanwhile_def comp_defs
      split: prod.splits sum.splits)

lemma triple_kdf: "triple P (kdf_result H r) (\<lambda>x s. P s \<and> r = Inr x) P"
  unfolding kdf_result_def backend_def by (rule triple_slift) auto


text \<open>The same with only the roles of the accounts in view.\<close>

definition with_roles :: "user_codec \<Rightarrow> (string \<Rightarrow> role option) \<Rightarrow> auth_state \<Rightarrow> bool" where
  "with_roles C \<rho> st \<longleftrightarrow> (\<exists>\<alpha>. has C \<alpha> st \<and> \<rho> = (\<lambda>u. map_option ur_role (\<alpha> u)))"

lemma with_rolesI: "has C \<alpha> st \<Longrightarrow> \<rho> = (\<lambda>u. map_option ur_role (\<alpha> u)) \<Longrightarrow> with_roles C \<rho> st"
  by (auto simp: with_roles_def)

lemma triple_with_roles:
  assumes "\<And>\<alpha>. \<rho> = (\<lambda>u. map_option ur_role (\<alpha> u)) \<Longrightarrow> triple (has C \<alpha>) m (Q \<alpha>) (has C \<alpha>)"
    and "\<And>\<alpha> x st. \<rho> = (\<lambda>u. map_option ur_role (\<alpha> u)) \<Longrightarrow> Q \<alpha> x st \<Longrightarrow> R x st"
  shows "triple (with_roles C \<rho>) m R (with_roles C \<rho>)"
proof (rule tripleI)
  fix s s' r
  assume "with_roles C \<rho> s" and run: "m s = (s', r)"
  then obtain \<alpha> where al: "has C \<alpha> s" "\<rho> = (\<lambda>u. map_option ur_role (\<alpha> u))" by (auto simp: with_roles_def)
  have "case r of Inr x \<Rightarrow> Q \<alpha> x s' | Inl _ \<Rightarrow> has C \<alpha> s'" using assms(1) [OF al(2)] al(1) run by (auto simp: triple_def)
  then show "case r of Inr x \<Rightarrow> R x s' | Inl _ \<Rightarrow> with_roles C \<rho> s'"
    using assms(2) [OF al(2)] al(2) by (auto split: sum.splits intro: with_rolesI)
qed

lemma roles_get:
  "triple (with_roles C \<rho>) (on_users H (us_get C u))
     (\<lambda>x st. with_roles C \<rho> st \<and> stored_ok u x \<and> map_option ur_role x = \<rho> u) (with_roles C \<rho>)"
  by (rule triple_with_roles [OF triple_users(1)]) (auto intro: with_rolesI simp: has_def holds_record)

lemma roles_upsert:
  "user_codec_ok C \<Longrightarrow> record_ok (ur_username rec) rec \<Longrightarrow>
     triple (with_roles C \<rho>) (on_users H (us_upsert C rec)) (\<lambda>_. with_roles C (\<rho>(ur_username rec \<mapsto> ur_role rec))) (with_roles C \<rho>)"
  by (rule triple_with_roles [OF triple_users(2)]) (auto intro!: with_rolesI)

lemma roles_update:
  "user_codec_ok C \<Longrightarrow> triple (with_roles C \<rho>) (on_users H (us_update_last_login C u ts)) (\<lambda>_. with_roles C \<rho>) (with_roles C \<rho>)"
  by (rule triple_with_roles [OF triple_users(3)]) (auto intro!: with_rolesI split: option.splits)

lemma roles_delete:
  "triple (with_roles C \<rho>) (on_users H (us_delete u)) (\<lambda>_. with_roles C (\<rho>(u := None))) (with_roles C \<rho>)"
  by (rule triple_with_roles [OF triple_users(4)]) (auto intro!: with_rolesI)

definition role_listing :: "(string \<Rightarrow> role option) \<Rightarrow> user_summary list \<Rightarrow> bool" where
  "role_listing \<rho> xs \<longleftrightarrow> distinct (map um_username xs) \<and> (\<forall>u r. (\<exists>x \<in> set xs. um_username x = u \<and> um_role x = r) \<longleftrightarrow> \<rho> u = Some r)"

lemma roles_list:
  "triple (with_roles C \<rho>) (on_users H (us_list C)) (\<lambda>xs st. with_roles C \<rho> st \<and> role_listing \<rho> xs) (with_roles C \<rho>)"
  by (rule triple_with_roles [OF triple_users(5)]) (auto intro: with_rolesI simp: listing_def role_listing_def)


lemma triple_imp_keeps: "triple I m (\<lambda>x s. I s \<and> Q x) I \<Longrightarrow> keeps I m Q"
proof (rule keepsI)
  fix s s' r
  assume "triple I m (\<lambda>x s. I s \<and> Q x) I" "I s" "m s = (s', r)"
  then have "case r of Inr x \<Rightarrow> I s' \<and> Q x | Inl _ \<Rightarrow> I s'" unfolding triple_def by blast
  then show "I s' \<and> (\<forall>x. r = Inr x \<longrightarrow> Q x)" by (cases r) auto
qed

lemma roles_upd [simp]: "with_roles C \<rho> (st\<lparr>as_sessions := s\<rparr>) = with_roles C \<rho> st"
    "with_roles C \<rho> (st\<lparr>as_login_attempts := la\<rparr>) = with_roles C \<rho> st"
  by (simp_all add: with_roles_def)

text \<open>Where the roles do not change, they are an invariant.\<close>

lemma keeps_roles_get: "keeps (with_roles C \<rho>) (on_users H (us_get C u)) (\<lambda>x. stored_ok u x \<and> map_option ur_role x = \<rho> u)"
  by (rule triple_imp_keeps [OF roles_get])

lemma keeps_roles_upsert:
  "user_codec_ok C \<Longrightarrow> record_ok (ur_username rec) rec \<Longrightarrow> \<rho> (ur_username rec) = Some (ur_role rec)
     \<Longrightarrow> keeps (with_roles C \<rho>) (on_users H (us_upsert C rec)) (\<lambda>_. True)"
  by (rule triple_imp_keeps, rule triple_weaken [OF roles_upsert]) (auto simp: fun_upd_idem)

lemma keeps_roles_small:
  "keeps (with_roles C \<rho>) (lockout_gate H u) (\<lambda>_. True)" "keeps (with_roles C \<rho>) (note_failure H u) (\<lambda>_. True)"
  "keeps (with_roles C \<rho>) (note_success u) (\<lambda>_. True)" "keeps (with_roles C \<rho>) (meanwhile (\<lambda>_ st. st) i) (\<lambda>_. True)"
  "user_codec_ok C \<Longrightarrow> keeps (with_roles C \<rho>) (on_users H (us_update_last_login C u ts)) (\<lambda>_. True)"
  "keeps (with_roles C \<rho>) (\<lambda>st. case insert_session E (as_sessions st) ns of (sessions, r) \<Rightarrow> (st\<lparr>as_sessions := sessions\<rparr>, r)) (\<lambda>_. True)"
  subgoal by (rule keepsI) (auto simp: lockout_gate_def split: prod.splits sum.splits)
  subgoal by (auto simp: note_failure_def intro!: keeps_supd)
  subgoal by (auto simp: note_success_def intro!: keeps_supd)
  subgoal by (auto simp: meanwhile_def intro!: keeps_supd)
  subgoal by (rule triple_imp_keeps, rule triple_weaken [OF roles_update]) auto
  subgoal by (rule keepsI) (auto split: prod.splits)
  done

lemma keeps_roles_login:
  assumes "user_codec_ok (hv_codec H)"
  shows "keeps (with_roles (hv_codec H) \<rho>) (login (\<lambda>_ st. st) H u p ttl) (\<lambda>_. True)"
proof -
  have fin: "keeps (with_roles (hv_codec H) \<rho>) (finalize_login_after_unwrap (\<lambda>_ st. st) H u snap i pl t) (\<lambda>_. True)" for snap i pl t
    unfolding finalize_login_after_unwrap_def
    by (intro keeps_then [OF keeps_weaken [OF keeps_roles_get]] TrueI)
      (auto split: option.splits intro!: keeps_then keeps_leaf assms keeps_kdf_result keeps_roles_small
        keeps_weaken [OF keeps_roles_get])
  show ?thesis
    unfolding login_def
    by (auto split: sum.splits option.splits intro!: keeps_then keeps_leaf keeps_roles_small assms fin keeps_weaken [OF keeps_roles_get])
qed

lemma keeps_roles_save_slot:
  assumes "user_codec_ok (hv_codec H)" and "record_ok u rec" and "\<rho> u = Some (ur_role rec)"
  shows "keeps (with_roles (hv_codec H) \<rho>) (save_slot H i s rec) (\<lambda>_. True)"
  unfolding save_slot_def
  by (rule keeps_bind [where Q = "\<lambda>upd. record_ok u upd \<and> ur_username upd = u \<and> ur_role upd = ur_role rec"])
    (use assms in \<open>auto intro!: keeps_slift keeps_roles_upsert simp: set_slot_def record_ok_def split: if_splits\<close>)

lemma keeps_roles_lookup:
  assumes "\<And>rec. record_ok u rec \<Longrightarrow> \<rho> u = Some (ur_role rec) \<Longrightarrow> keeps (with_roles C \<rho>) (k rec) R"
  shows "keeps (with_roles C \<rho>) (sbind (on_users H (us_get C u)) (\<lambda>row. sbind (slift (ok_or row e)) k)) R"
  by (rule keeps_bind [OF keeps_roles_get], rule keeps_bind [where Q = "\<lambda>rec. record_ok u rec \<and> \<rho> u = Some (ur_role rec)"])
    (auto intro!: keeps_slift assms)

lemma keeps_roles_change_password:
  assumes "user_codec_ok (hv_codec H)"
  shows "keeps (with_roles (hv_codec H) \<rho>) (change_password (\<lambda>_ st. st) H auth cur new) (\<lambda>_. True)"
  unfolding change_password_def Let_def
  by (auto split: sum.splits option.splits intro!: keeps_then [OF keeps_roles_small(1)] keeps_bind [OF keeps_roles_get]
      keeps_then [OF keeps_roles_small(2)] keeps_then [OF keeps_roles_small(3)] keeps_then [OF keeps_roles_small(4)]
      keeps_then [OF keeps_kdf_result] keeps_then [OF keeps_roles_save_slot] keeps_leaf assms
      dest!: attempt_unwrap_slot_rec)

lemma keeps_roles_personas:
  assumes "user_codec_ok (hv_codec H)"
  shows "keeps (with_roles (hv_codec H) \<rho>) (create_persona (\<lambda>_ st. st) H auth slot p r rv) (\<lambda>_. True)"
    and "keeps (with_roles (hv_codec H) \<rho>) (delete_persona (\<lambda>_ st. st) H auth slot) (\<lambda>_. True)"
  unfolding create_persona_def delete_persona_def
  by (auto intro!: keeps_then [OF keeps_slift] keeps_roles_lookup keeps_then [OF keeps_roles_small(4)] keeps_then [OF keeps_kdf_result]
      keeps_then [OF keeps_roles_save_slot] keeps_leaf assms)

lemma keeps_roles_reset:
  assumes "user_codec_ok (hv_codec H)" and "hv_real_slot H < CREDENTIAL_SLOTS"
  shows "keeps (\<lambda>s. with_roles (hv_codec H) \<rho> (fst s)) (reset_identity Q (\<lambda>_ st. st) H u p) (\<lambda>_. True)"
  unfolding reset_identity_def
  using assms(2)
  by (auto intro!: keeps_then [OF keeps_on_auth] keeps_roles_lookup keeps_then [OF keeps_roles_small(4)] keeps_bind [OF keeps_new_slots]
      keeps_then [OF keeps_roles_upsert] keeps_leaf keeps_on_store assms simp: record_ok_def CREDENTIAL_SLOTS_def)


text \<open>Some account is an administrator.\<close>

definition has_admin :: "user_codec \<Rightarrow> auth_state \<Rightarrow> bool" where
  "has_admin C st \<longleftrightarrow> (\<exists>\<rho> u. with_roles C \<rho> st \<and> \<rho> u = Some Admin)"

lemma has_adminI: "with_roles C \<rho> st \<Longrightarrow> \<rho> u = Some Admin \<Longrightarrow> has_admin C st"
  by (auto simp: has_admin_def)

lemma has_admin_upd [simp]: "has_admin C (st\<lparr>as_sessions := s\<rparr>) = has_admin C st"
  by (simp add: has_admin_def)

lemma has_admin_triple:
  assumes "\<And>\<rho> u. \<rho> u = Some Admin \<Longrightarrow> triple (with_roles C \<rho>) m (\<lambda>_. has_admin C) (has_admin C)"
  shows "keeps (has_admin C) m (\<lambda>_. True)"
proof (rule keepsI)
  fix s s' r
  assume "has_admin C s" "m s = (s', r)"
  then obtain \<rho> u where "with_roles C \<rho> s" "\<rho> u = Some Admin" by (auto simp: has_admin_def)
  then have "case r of Inr x \<Rightarrow> has_admin C s' | Inl _ \<Rightarrow> has_admin C s'"
    using assms \<open>m s = (s', r)\<close> unfolding triple_def by blast
  then show "has_admin C s' \<and> (\<forall>x. r = Inr x \<longrightarrow> True)" by (cases r) auto
qed

lemma has_admin_keeps:
  assumes "\<And>\<rho>. keeps (with_roles C \<rho>) m (\<lambda>_. True)"
  shows "keeps (has_admin C) m (\<lambda>_. True)"
  by (rule keepsI) (use keepsE [OF assms] in \<open>auto simp: has_admin_def, blast\<close>)

text \<open>Two administrators in the listing: one of them is not the account at hand.\<close>

lemma other_admin:
  assumes "role_listing \<rho> xs" and "\<not> length (filter (\<lambda>x. um_role x = Admin) xs) \<le> 1"
  obtains v where "v \<noteq> u" and "\<rho> v = Some Admin"
proof -
  let ?as = "filter (\<lambda>x. um_role x = Admin) xs"
  have "distinct (map um_username ?as)" using assms(1) by (simp add: role_listing_def distinct_map_filter)
  then have "card (set (map um_username ?as)) = length ?as" by (simp only: distinct_card length_map)
  then have "\<not> card (set (map um_username ?as)) \<le> 1" using assms(2) by simp
  then have "\<not> set (map um_username ?as) \<subseteq> {u}"
    using card_mono [of "{u}" "set (map um_username ?as)"] by auto
  then obtain x where "x \<in> set xs" "um_role x = Admin" "um_username x \<noteq> u" by auto
  then show ?thesis using assms(1) that by (auto simp: role_listing_def)
qed

lemma roles_get_then:
  assumes "\<And>x. stored_ok u x \<Longrightarrow> map_option ur_role x = \<rho> u \<Longrightarrow> triple (with_roles C \<rho>) (f x) Q E"
    and "\<And>st. with_roles C \<rho> st \<Longrightarrow> E st"
  shows "triple (with_roles C \<rho>) (sbind (on_users H (us_get C u)) f) Q E"
proof (rule triple_sbind [OF triple_err [OF roles_get assms(2)]])
  fix x
  show "triple (\<lambda>st. with_roles C \<rho> st \<and> stored_ok u x \<and> map_option ur_role x = \<rho> u) (f x) Q E"
    using assms(1) [of x] unfolding triple_def by blast
qed

lemma roles_list_then:
  assumes "\<And>xs. role_listing \<rho> xs \<Longrightarrow> triple (with_roles C \<rho>) (f xs) Q E" and "\<And>st. with_roles C \<rho> st \<Longrightarrow> E st"
  shows "triple (with_roles C \<rho>) (sbind (on_users H (us_list C)) f) Q E"
proof (rule triple_sbind [OF triple_err [OF roles_list assms(2)]])
  fix xs
  show "triple (\<lambda>st. with_roles C \<rho> st \<and> role_listing \<rho> xs) (f xs) Q E"
    using assms(1) [of xs] unfolding triple_def by blast
qed

lemma triple_slift_then:
  assumes "\<And>x. r = Inr x \<Longrightarrow> triple P (f x) Q E" and "\<And>s. P s \<Longrightarrow> E s"
  shows "triple P (sbind (slift r) f) Q E"
  using assms by (cases r) (auto simp: triple_def sbind_def slift_def)

lemma admin_set_role:
  assumes "user_codec_ok (hv_codec H)"
  shows "keeps (has_admin (hv_codec H)) (set_role H u name) (\<lambda>_. True)"
proof (rule has_admin_triple)
  fix \<rho> :: "string \<Rightarrow> role option" and v
  assume v: "\<rho> v = Some Admin"
  let ?C = "hv_codec H"
  have E: "with_roles ?C \<rho> st \<Longrightarrow> has_admin ?C st" for st using v by (rule has_adminI [rotated])
  have last: "triple (with_roles ?C \<rho>) (sbind (on_users H (us_upsert ?C (rec\<lparr>ur_role := new_role\<rparr>))) (\<lambda>_.
      supd (\<lambda>st. st\<lparr>as_sessions := fst (revoke_user (as_sessions st) u)\<rparr>))) (\<lambda>_. has_admin ?C) (has_admin ?C)"
    if rec: "record_ok u rec" and other: "new_role = Admin \<or> (\<exists>w. w \<noteq> u \<and> \<rho> w = Some Admin)" for rec new_role
  proof (rule triple_sbind [OF triple_err [OF roles_upsert [OF assms] E]])
    show "record_ok (ur_username (rec\<lparr>ur_role := new_role\<rparr>)) (rec\<lparr>ur_role := new_role\<rparr>)" using rec by (simp add: record_ok_def)
    show "triple (with_roles ?C (\<rho>(ur_username (rec\<lparr>ur_role := new_role\<rparr>) \<mapsto> ur_role (rec\<lparr>ur_role := new_role\<rparr>))))
        (supd (\<lambda>st. st\<lparr>as_sessions := fst (revoke_user (as_sessions st) u)\<rparr>)) (\<lambda>_. has_admin ?C) (has_admin ?C)" for x :: unit
      by (rule triple_supd) (use rec other in \<open>auto simp: record_ok_def intro: has_adminI\<close>)
  qed
  show "triple (with_roles ?C \<rho>) (set_role H u name) (\<lambda>_. has_admin ?C) (has_admin ?C)"
    unfolding set_role_def Let_def
  proof (intro triple_slift_then roles_get_then roles_list_then E, goal_cases)
    case (1 new_role x xs current)
    show ?case
    proof (cases "current = Admin \<and> new_role \<noteq> Admin \<and> length (filter (\<lambda>u. um_role u = Admin) xs) \<le> 1")
      case True
      then show ?thesis using E by (auto intro: triple_sfail)
    next
      case False
      have other: "new_role = Admin \<or> (\<exists>w. w \<noteq> u \<and> \<rho> w = Some Admin)"
      proof (cases "current = Admin \<and> new_role \<noteq> Admin")
        case True
        then show ?thesis using other_admin [OF 1(4)] False by blast
      next
        case no: False
        then show ?thesis using v 1(3,5) by (cases "v = u") auto
      qed
      show ?thesis
        unfolding if_not_P [OF False] by (intro roles_get_then triple_slift_then last [OF _ other] E) auto
    qed
  qed
qed

lemma admin_remove_account: "keeps (has_admin (hv_codec H)) (remove_account H u) (\<lambda>_. True)"
proof (rule has_admin_triple)
  fix \<rho> :: "string \<Rightarrow> role option" and v
  assume v: "\<rho> v = Some Admin"
  let ?C = "hv_codec H"
  have E: "with_roles ?C \<rho> st \<Longrightarrow> has_admin ?C st" for st using v by (rule has_adminI [rotated])
  show "triple (with_roles ?C \<rho>) (remove_account H u) (\<lambda>_. has_admin ?C) (has_admin ?C)"
    unfolding remove_account_def
  proof (intro roles_list_then E, goal_cases)
    case (1 xs)
    have other: "\<exists>w. w \<noteq> u \<and> \<rho> w = Some Admin"
      if "\<not> (list_ex (\<lambda>x. um_username x = u \<and> um_role x = Admin) xs \<and> length (filter (\<lambda>x. um_role x = Admin) xs) \<le> 1)"
    proof (cases "\<rho> u = Some Admin")
      case True
      then have "list_ex (\<lambda>x. um_username x = u \<and> um_role x = Admin) xs" using 1 by (auto simp: role_listing_def list_ex_iff)
      then show ?thesis using that other_admin [OF 1] by blast
    next
      case False
      then show ?thesis using v by auto
    qed
    have D: "with_roles ?C (\<rho>(u := None)) st \<Longrightarrow> w \<noteq> u \<Longrightarrow> \<rho> w = Some Admin \<Longrightarrow> has_admin ?C st" for st w
      by (rule has_adminI [of _ "\<rho>(u := None)" _ w]) auto
    show ?case
      using E other
      by (auto intro!: triple_sfail triple_sbind [OF triple_err [OF roles_delete E]] triple_sret intro: D)
  qed
qed

lemma admin_add_user:
  assumes "user_codec_ok (hv_codec H)" and "hv_real_slot H < CREDENTIAL_SLOTS"
  shows "keeps (has_admin (hv_codec H)) (add_user (\<lambda>_ st. st) H u p r) (\<lambda>_. True)"
proof (rule has_admin_triple)
  fix \<rho> :: "string \<Rightarrow> role option" and v
  assume v: "\<rho> v = Some Admin"
  let ?C = "hv_codec H"
  have E: "with_roles ?C \<rho> st \<Longrightarrow> has_admin ?C st" for st using v by (rule has_adminI [rotated])
  have main: "triple (with_roles ?C \<rho>) (sbind (sget (new_argon2_params (hv_salt H))) (\<lambda>params.
     sbind (meanwhile (\<lambda>_ st. st) 0) (\<lambda>_.
     sbind (kdf_result H (new_slots_random (hv_kdf H) (hv_rand H) (hv_real_slot H) u p params r False)) (\<lambda>(slots, primary_slot).
     on_users H (us_upsert ?C
       \<lparr>ur_username = u, ur_created_at = now_ns H, ur_last_login = None, ur_kdf = params, ur_slots = slots,
        ur_primary_slot = of_nat primary_slot, ur_role = r\<rparr>))))) (\<lambda>_. has_admin ?C) (has_admin ?C)" if "\<rho> u = None"
  proof -
    have ins: "with_roles ?C (\<rho>(u \<mapsto> r)) st \<Longrightarrow> has_admin ?C st" for st
      using v that by (intro has_adminI [of _ "\<rho>(u \<mapsto> r)" _ v]) auto
    have up: "triple (with_roles ?C \<rho>) (on_users H (us_upsert ?C rec)) (\<lambda>_. has_admin ?C) (has_admin ?C)"
      if "record_ok u rec" "ur_role rec = r" for rec
      by (rule triple_weaken [OF roles_upsert [OF assms(1)]]) (use that in \<open>auto simp: record_ok_def intro: E ins\<close>)
    show ?thesis
      unfolding kdf_result_def backend_def meanwhile_def
      by (intro triple_sbind [OF triple_sget [of "with_roles ?C \<rho>" "\<lambda>_. with_roles ?C \<rho>"]]
          triple_sbind [OF triple_supd [of "with_roles ?C \<rho>" "\<lambda>_. with_roles ?C \<rho>"]] triple_slift_then E)
        (use assms(2) in \<open>auto intro!: up simp: record_ok_def CREDENTIAL_SLOTS_def dest!: new_slots_random_ok\<close>)
  qed
  show "triple (with_roles ?C \<rho>) (add_user (\<lambda>_ st. st) H u p r) (\<lambda>_. has_admin ?C) (has_admin ?C)"
    unfolding add_user_def by (auto intro!: triple_slift_then triple_sfail roles_get_then E main)
qed

lemmas admin_same = has_admin_keeps [OF keeps_roles_login] has_admin_keeps [OF keeps_roles_change_password]
  has_admin_keeps [OF keeps_roles_personas(1)] has_admin_keeps [OF keeps_roles_personas(2)]

lemma handle_admin:
  assumes "user_codec_ok (hv_codec H)" and "hv_real_slot H < CREDENTIAL_SLOTS" and "has_admin (hv_codec H) (fst s)"
  shows "has_admin (hv_codec H) (fst (handle Q (\<lambda>_ st. st) H call s))"
proof -
  have a: "has_admin (hv_codec H) (fst (fst (on_auth m s)))" if "keeps (has_admin (hv_codec H)) m (\<lambda>_. True)" for m :: "'b auth_comp"
    using keepsD [OF keeps_on_auth [OF that]] assms(3) by blast
  show ?thesis
  proof (cases call)
    case (CallLogout auth)
    then show ?thesis using assms(3) by (cases s) (simp add: logout_def on_auth_def supd_def has_admin_def)
  next
    case (CallDeleteUser u force)
    have "keeps (\<lambda>s. has_admin (hv_codec H) (fst s)) (delete_user Q H u force) (\<lambda>_. True)"
      unfolding delete_user_def
      by (auto intro!: keeps_then keeps_leaf keeps_on_store keeps_on_auth admin_remove_account)
    then show ?thesis using keepsD assms(3) CallDeleteUser by fastforce
  next
    case (CallResetIdentity u p)
    obtain \<rho> v where r: "with_roles (hv_codec H) \<rho> (fst s)" "\<rho> v = Some Admin" using assms(3) by (auto simp: has_admin_def)
    show ?thesis
      using keepsD [OF keeps_roles_reset [OF assms(1,2)] r(1)] r(2) CallResetIdentity by (auto simp: has_admin_def)
  qed (auto intro!: a admin_same admin_add_user admin_set_role assms)
qed

text \<open>C6. An installation that has an administrator keeps one: after any sequence of requests, served one after another, to
  log in, change passwords, create and delete personas, add, delete and reset users and change roles, whatever the
  requests and whichever database operations fail, some account still has the administrator role.\<close>

theorem admin_remains:
  assumes "user_codec_ok C" and "has_admin C (fst s)"
    and "\<forall>(H, call) \<in> set reqs. hv_codec H = C \<and> hv_real_slot H < CREDENTIAL_SLOTS"
  shows "has_admin C (fst (handle_all Q (map (\<lambda>(H, call). (\<lambda>_ st. st, H, call)) reqs) s))"
  using assms(2,3)
proof (induction reqs arbitrary: s)
  case (Cons req reqs)
  obtain H call where req: "req = (H, call)" by (cases req)
  have "has_admin (hv_codec H) (fst (handle Q (\<lambda>_ st. st) H call s))"
    using Cons(2,3) assms(1) req by (intro handle_admin) auto
  then show ?case using Cons req by (auto simp: handle_all_def)
qed (simp add: handle_all_def)

theorem admin_remains_witness:
  "has_admin flat_codec (fst (handle_all (storage_ops.extend sample_ops (account_ops.fields (\<lambda>_. Inr [''b''])))
     [(\<lambda>_ st. st, sample_handler, CallSetRole ''root'' ''user''), (\<lambda>_ st. st, sample_handler, CallDeleteUser ''root'' True)]
     (sample_auth_state [sample_admin, sample_user], Some default_bucket_config)))"
proof -
  have "accounts flat_codec (as_user_store (sample_auth_state [sample_admin, sample_user])) ''root'' = Some sample_admin"
    using flat_codec_law [of sample_admin] by (simp add: accounts_def sample_auth_state_def sample_admin_def)
  then have "has_admin flat_codec (sample_auth_state [sample_admin, sample_user])"
    using sample_users_ok by (force simp: has_admin_def with_roles_def has_def holds_def sample_admin_def)
  then show ?thesis
    using admin_remains [OF flat_codec_ok, of "(sample_auth_state [sample_admin, sample_user], Some default_bucket_config)"
        "[(sample_handler, CallSetRole ''root'' ''user''), (sample_handler, CallDeleteUser ''root'' True)]"]
    by (simp add: CREDENTIAL_SLOTS_def)
qed

end
