(* ===== verification/Login_Laws.thy ===== *)
theory Login_Laws
  imports Auth_Laws
begin

text \<open>
  What the account handlers decide and do: when a login is admitted and which session it opens, what a password change
  leaves in the account and in the session table, and what a new account's password opens.
\<close>

subsection \<open>Runs over a working database\<close>

definition ready :: "user_codec \<Rightarrow> auth_state \<Rightarrow> bool" where
  "ready C st \<longleftrightarrow> users_ok C (as_user_store st) \<and> ud_faults (as_user_store st) = []"

abbreviation account :: "user_codec \<Rightarrow> auth_state \<Rightarrow> string \<Rightarrow> user_record option" where
  "account C st \<equiv> accounts C (as_user_store st)"

lemma ready_upd [simp]:
  "ready C (st\<lparr>as_sessions := s\<rparr>) = ready C st" "ready C (st\<lparr>as_login_attempts := la\<rparr>) = ready C st"
  by (simp_all add: ready_def)

lemma get_run:
  assumes "ready C st"
  shows "on_users H (us_get C u) st = (st, Inr (account C st u))"
proof (cases "dm_get (ud_rows (as_user_store st)) u")
  case None
  then show ?thesis using assms by (simp add: ready_def on_users_def us_get_def comp_defs accounts_def backend_def)
next
  case (Some bs)
  then obtain r where "uc_from_slice C bs = Inr r" using assms by (auto simp: ready_def users_ok_def)
  then show ?thesis using assms Some
    by (simp add: ready_def on_users_def us_get_def comp_defs accounts_def backend_def of_payload_def)
qed

lemma accounts_after_insert:
  assumes "uc_from_slice C bs = Inr r" and "dm_inv (ud_rows db)"
  shows "accounts C (db\<lparr>ud_rows := dm_insert u bs (ud_rows db)\<rparr>) = (accounts C db)(u \<mapsto> r)"
  using assms by (auto simp: accounts_def fun_eq_iff)

lemma upsert_run:
  assumes "user_codec_ok C" and "ready C st" and "record_ok (ur_username r) r"
  obtains st' where "on_users H (us_upsert C r) st = (st', Inr ())" and "ready C st'"
    and "account C st' = (account C st)(ur_username r \<mapsto> r)" and "as_sessions st' = as_sessions st"
    and "as_login_attempts st' = as_login_attempts st" and "as_config st' = as_config st"
proof -
  obtain bs where bs: "uc_to_vec C r = Inr bs" "uc_from_slice C bs = Inr r" using assms(1) by (rule user_codec_okE)
  have pay: "to_payload C r = Inr bs" using bs by (simp add: to_payload_def)
  let ?db = "as_user_store st"
  let ?st' = "st\<lparr>as_user_store := ?db\<lparr>ud_rows := dm_insert (ur_username r) bs (ud_rows ?db)\<rparr>\<rparr>"
  have "on_users H (us_upsert C r) st = (?st', Inr ())"
    using assms(2) pay by (simp add: on_users_def us_upsert_def comp_defs ready_def backend_def)
  moreover have "ready C ?st'"
    using users_ok_insert [OF assms(1) _ pay assms(3)] assms(2) by (simp add: ready_def)
  moreover have "account C ?st' = (account C st)(ur_username r \<mapsto> r)"
    using accounts_after_insert [OF bs(2)] assms(2) by (simp add: ready_def users_ok_def)
  ultimately show ?thesis using that by simp
qed

lemma touch_run:
  assumes "user_codec_ok C" and "ready C st" and "account C st u = Some r"
  obtains st' where "on_users H (us_update_last_login C u ts) st = (st', Inr (Some (r\<lparr>ur_last_login := Some ts\<rparr>)))" and "ready C st'"
    and "account C st' = (account C st)(u \<mapsto> r\<lparr>ur_last_login := Some ts\<rparr>)" and "as_sessions st' = as_sessions st"
    and "as_login_attempts st' = as_login_attempts st" and "as_config st' = as_config st"
proof -
  let ?r = "r\<lparr>ur_last_login := Some ts\<rparr>" and ?db = "as_user_store st"
  obtain old where old: "dm_get (ud_rows ?db) u = Some old" "uc_from_slice C old = Inr r"
    using assms(3) by (auto simp: accounts_def split: bind_splits sum.splits)
  obtain bs where bs: "uc_to_vec C ?r = Inr bs" "uc_from_slice C bs = Inr ?r" using assms(1) by (rule user_codec_okE)
  let ?st' = "st\<lparr>as_user_store := ?db\<lparr>ud_rows := dm_insert u bs (ud_rows ?db)\<rparr>\<rparr>"
  have pay: "to_payload C ?r = Inr bs" using bs by (simp add: to_payload_def)
  have rok: "record_ok u ?r" using accounts_ok [OF _ assms(3)] assms(2) by (simp add: ready_def record_ok_def)
  have "on_users H (us_update_last_login C u ts) st = (?st', Inr (Some ?r))"
    using assms(2) old pay by (simp add: on_users_def us_update_last_login_def comp_defs ready_def backend_def of_payload_def Let_def)
  moreover have "ready C ?st'" using users_ok_insert [OF assms(1) _ pay rok] assms(2) by (simp add: ready_def)
  moreover have "account C ?st' = (account C st)(u \<mapsto> ?r)"
    using accounts_after_insert [OF bs(2)] assms(2) by (simp add: ready_def users_ok_def)
  ultimately show ?thesis using that by simp
qed

lemma gate_run:
  "lockout_gate H u st = (case check_lockout (hv_instant H) (as_login_attempts st) u of
     (la, r) \<Rightarrow> (st\<lparr>as_login_attempts := la\<rparr>, map_sum (\<lambda>until. LockedOut (hv_now H + (until - hv_instant H))) id r))"
  by (auto simp: lockout_gate_def split: prod.splits sum.splits)

subsection \<open>Which slot a password opens\<close>

definition slot_opens :: "kdf_env \<Rightarrow> bytes \<Rightarrow> string \<Rightarrow> nat \<Rightarrow> credential_slot \<Rightarrow> slot_payload \<Rightarrow> bool" where
  "slot_opens K kek u i slot pl \<longleftrightarrow> (\<exists>bs. unwrap_slot K (cs_wrapped slot) kek (slot_wrap_aad u i) = Inr bs
     \<and> SlotPayload_from_bytes (kf_sec K) bs = Inr pl)"

lemma unwrap_loop_Some: "unwrap_loop K kek u i slots (Some x) = Some x"
  by (induction slots arbitrary: i) (auto split: sum.splits)

lemma slot_opens_unique: "slot_opens K kek u i slot p \<Longrightarrow> slot_opens K kek u i slot q \<longleftrightarrow> q = p"
  by (auto simp: slot_opens_def)

lemma unwrap_loop_step:
  "slot_opens K kek u i slot pl \<Longrightarrow> unwrap_loop K kek u i (slot # slots) None = Some (i, pl)"
  "(\<And>pl. \<not> slot_opens K kek u i slot pl) \<Longrightarrow> unwrap_loop K kek u i (slot # slots) None = unwrap_loop K kek u (Suc i) slots None"
  by (auto simp: slot_opens_def unwrap_loop_Some split: sum.splits)

lemma unwrap_loop_iff:
  "unwrap_loop K kek u i slots None = Some (k, pl) \<longleftrightarrow>
     (\<exists>j < length slots. k = i + j \<and> slot_opens K kek u k (slots ! j) pl \<and> (\<forall>j' < j. \<forall>pl'. \<not> slot_opens K kek u (i + j') (slots ! j') pl'))"
proof (induction slots arbitrary: i)
  case (Cons slot slots)
  show ?case
  proof (cases "\<exists>pl. slot_opens K kek u i slot pl")
    case True
    then obtain p where p: "slot_opens K kek u i slot p" by blast
    then show ?thesis
      by (auto simp: less_Suc_eq_0_disj unwrap_loop_step(1) [OF p] dest: slot_opens_unique [OF p, THEN iffD1] simp del: unwrap_loop.simps)
  next
    case False
    then show ?thesis
      by (auto simp: unwrap_loop_step(2) Cons less_Suc_eq_0_disj simp del: unwrap_loop.simps) force
  qed
qed simp

text \<open>\<open>opens_first K rec password i pl\<close>: slot \<open>i\<close> of the account is the first one the password opens, and holds \<open>pl\<close>.\<close>

definition opens_first :: "kdf_env \<Rightarrow> user_record \<Rightarrow> bytes \<Rightarrow> nat \<Rightarrow> slot_payload \<Rightarrow> bool" where
  "opens_first K rec password i pl \<longleftrightarrow> (\<exists>kek. derive_kek K (ur_kdf rec) password = Inr kek \<and> i < length (ur_slots rec)
     \<and> slot_opens K kek (ur_username rec) i (ur_slots rec ! i) pl
     \<and> (\<forall>j < i. \<forall>pl'. \<not> slot_opens K kek (ur_username rec) j (ur_slots rec ! j) pl'))"

lemma attempt_unwrap_iff: "attempt_unwrap K rec password = Inr (rec', i, pl) \<longleftrightarrow> rec' = rec \<and> opens_first K rec password i pl"
proof (cases "derive_kek K (ur_kdf rec) password")
  case (Inr kek)
  have "attempt_unwrap K rec password = Inr (rec', i, pl)
      \<longleftrightarrow> rec' = rec \<and> unwrap_loop K kek (ur_username rec) 0 (ur_slots rec) None = Some (i, pl)"
    using Inr by (auto simp: attempt_unwrap_def split: option.splits)
  then show ?thesis using Inr by (auto simp: opens_first_def unwrap_loop_iff)
qed (simp add: attempt_unwrap_def opens_first_def)

subsection \<open>What a login decides\<close>

definition env_ok :: "handler_env \<Rightarrow> bool" where
  "env_ok H \<longleftrightarrow> user_codec_ok (hv_codec H) \<and> aead_correct (en_prims (hv_session H)) \<and> en_mem (hv_session H) = None
     \<and> aead_correct (kf_prims (hv_kdf H)) \<and> en_mem (kf_sec (hv_kdf H)) = None"

definition role_admitted :: "slot_payload \<Rightarrow> user_record \<Rightarrow> bool" where
  "role_admitted pl rec \<longleftrightarrow> sp_role pl \<noteq> Disabled \<and> ur_role rec \<noteq> Disabled \<and> role_permits (sp_role pl) (ur_role rec)"

definition session_for :: "handler_env \<Rightarrow> string \<Rightarrow> nat \<Rightarrow> slot_payload \<Rightarrow> time \<Rightarrow> auth_state \<Rightarrow> bool" where
  "session_for H u i pl expires st \<longleftrightarrow>
     (\<exists>s. dm_get (st_inner (as_sessions st)) (hash_token (hv_session H) (en_token (hv_session H))) = Some s
       \<and> si_username s = u \<and> si_role s = sp_role pl \<and> si_persona s = of_nat i \<and> si_expires_at s = expires
       \<and> si_refresh_count s = 0 \<and> open_identity_sk (hv_session H) s = Inr (sp_identity_sk pl))"

lemma slot_opens_length: "slot_opens K kek u i slot pl \<Longrightarrow> length (sp_identity_sk pl) = SECRET_KEY_BYTES"
  by (auto simp: slot_opens_def SlotPayload_from_bytes_def secret_vec_def Let_def split: if_splits option.splits)

lemma opens_first_length: "opens_first K rec p i pl \<Longrightarrow> length (sp_identity_sk pl) < 2 ^ 32"
  by (auto simp: opens_first_def SECRET_KEY_BYTES_def dest!: slot_opens_length)

lemma insert_run:
  assumes "aead_correct (en_prims E)" and "en_mem E = None" and "length (ns_identity_sk n) < 2 ^ 32" and "dm_inv (st_inner ss)"
  obtains ss' s where "insert_session E ss n = (ss', Inr (en_token E))" and "dm_inv (st_inner ss')"
    and "dm_get (st_inner ss') (hash_token E (en_token E)) = Some s" and "si_username s = ns_username n" and "si_role s = ns_role n"
    and "si_persona s = ns_persona n" and "si_expires_at s = ns_expires_at n" and "si_refresh_count s = 0"
    and "open_identity_sk E s = Inr (ns_identity_sk n)"
proof -
  let ?h = "hash_token E (en_token E)"
  obtain sealed where sealed: "seal_identity E (st_keyring ss) ?h (ns_username n) (ns_persona n) (ns_identity_sk n) = Inr sealed"
    using seal_total [OF assms(1,3,2)] by (metis backend_Inr seal_identity_def)
  define s where "s = \<lparr>si_username = ns_username n, si_role = ns_role n, si_created_at = ns_created_at n,
             si_expires_at = ns_expires_at n, si_persona = ns_persona n,
             si_revoke_other_sessions = ns_revoke_other_sessions n, si_identity_sk = sealed,
             si_refresh_count = 0, si_token_hash = ?h, si_keyring = st_keyring ss, si_bucket_keys = empty_cache\<rparr>"
  have "open_identity_sk E s = Inr (ns_identity_sk n)"
    using seal_identity_of [OF assms(1,3) sealed, of s] assms(2) by (simp add: open_identity_sk_of s_def)
  then show ?thesis
    by (intro that [of "ss\<lparr>st_inner := dm_insert ?h s (st_inner ss)\<rparr>" s])
      (use assms(4) sealed in \<open>simp_all add: insert_session_def Let_def s_def\<close>)
qed

text \<open>The duress switch leaves the sessions of the persona it switches to.\<close>

lemma switch_keeps:
  assumes "dm_inv (st_inner ss)" and "dm_get (st_inner ss) k = Some s" and "si_persona s = p"
  shows "dm_get (st_inner (fst (switch_user_to_persona E ss u p r rv sk))) k = Some s"
  using assms by (auto simp: switch_user_to_persona_def Let_def switch_fold_get(2) [OF assms(1) dm_keys_where_distinct [OF assms(1)]]
      dm_keys_where_mem)

lemma finalize_refused:
  assumes "ready (hv_codec H) st" and "account (hv_codec H) st u = Some rec" and "\<not> role_admitted pl rec"
  shows "finalize_login_after_unwrap W H u rec i pl t st = (st, Inl AccountDisabled)"
  using assms(2,3) by (simp add: finalize_login_after_unwrap_def get_run [OF assms(1)] role_admitted_def comp_defs)

lemma finalize_admitted:
  assumes H: "env_ok H" and st: "ready (hv_codec H) st" "account (hv_codec H) st u = Some rec" "dm_inv (st_inner (as_sessions st))"
    and "role_admitted pl rec" and "length (sp_identity_sk pl) < 2 ^ 32"
  obtains st' where "finalize_login_after_unwrap (\<lambda>_ st. st) H u rec i pl t st
      = (st', Inr \<lparr>tk_token = en_token (hv_session H), tk_expires_at = t div NANOS, tk_username = u\<rparr>)"
    and "session_for H u i pl t st'" and "ready (hv_codec H) st'"
    and "account (hv_codec H) st' = (account (hv_codec H) st)(u \<mapsto> rec\<lparr>ur_last_login := Some (now_ns H)\<rparr>)"
proof -
  let ?C = "hv_codec H" and ?E = "hv_session H"
  obtain st1 where st1: "on_users H (us_update_last_login ?C u (now_ns H)) st = (st1, Inr (Some (rec\<lparr>ur_last_login := Some (now_ns H)\<rparr>)))"
    "ready ?C st1" "account ?C st1 = (account ?C st)(u \<mapsto> rec\<lparr>ur_last_login := Some (now_ns H)\<rparr>)" "as_sessions st1 = as_sessions st"
    using touch_run [OF _ st(1,2)] H unfolding env_ok_def by metis
  let ?n = "\<lparr>ns_username = u, ns_role = sp_role pl, ns_created_at = hv_now H, ns_expires_at = t, ns_persona = of_nat i,
      ns_revoke_other_sessions = sp_revoke_other_sessions pl, ns_identity_sk = sp_identity_sk pl\<rparr>"
  obtain ss s where ss: "insert_session ?E (as_sessions st1) ?n = (ss, Inr (en_token ?E))" "dm_inv (st_inner ss)"
    "dm_get (st_inner ss) (hash_token ?E (en_token ?E)) = Some s" "si_username s = u" "si_role s = sp_role pl" "si_persona s = of_nat i"
    "si_expires_at s = t" "si_refresh_count s = 0" "open_identity_sk ?E s = Inr (sp_identity_sk pl)"
    using insert_run [of ?E ?n "as_sessions st1"] assms st1(4) by (auto simp: env_ok_def)
  let ?st2 = "st1\<lparr>as_sessions := ss\<rparr>"
  let ?st3 = "if sp_revoke_other_sessions pl then ?st2\<lparr>as_sessions := fst (switch_user_to_persona (hv_switch H) ss u (of_nat i)
      (sp_role pl) True (sp_identity_sk pl))\<rparr> else ?st2"
  let ?st' = "?st3\<lparr>as_login_attempts := record_success (as_login_attempts ?st3) u\<rparr>"
  have r2: "ready ?C ?st2" using st1(2) by simp
  have acc: "account ?C ?st2 u \<noteq> None" using st1(3) by simp
  have duress: "secret_vec (kf_sec (hv_kdf H)) (sp_identity_sk pl) = Inr (sp_identity_sk pl)" using H by (simp add: env_ok_def secret_vec_def)
  have "finalize_login_after_unwrap (\<lambda>_ st. st) H u rec i pl t st
      = (?st', Inr \<lparr>tk_token = en_token ?E, tk_expires_at = t div NANOS, tk_username = u\<rparr>)"
    by (cases "sp_revoke_other_sessions pl")
      (use st(2) assms(5) acc ss(1) in \<open>simp_all add: finalize_login_after_unwrap_def get_run [OF st(1)] role_admitted_def st1(1) get_run [OF r2]
        meanwhile_def note_success_def kdf_result_def backend_def duress comp_defs\<close>)
  moreover have "session_for H u i pl t ?st'"
    unfolding session_for_def using ss switch_keeps [OF ss(2,3,6)] by auto
  moreover have "ready ?C ?st'" "account ?C ?st' = account ?C st1" using st1(2) by simp_all
  ultimately show ?thesis using that st1(3) by metis
qed

text \<open>The login handler after its gates: the account is read, then one of its slots must open and its role admit.\<close>

definition may_log_in :: "handler_env \<Rightarrow> string \<Rightarrow> u64 option \<Rightarrow> auth_state \<Rightarrow> login_attempts \<Rightarrow> time \<Rightarrow> bool" where
  "may_log_in H u ttl st la t \<longleftrightarrow> validate_username u = Inr ()
     \<and> check_lockout (hv_instant H) (as_login_attempts st) u = (la, Inr ())
     \<and> compute_expiry (hv_now H) ttl (ac_default_ttl_seconds (as_config st)) (ac_max_ttl_seconds (as_config st)) = Inr t"

lemma login_gates:
  assumes "\<nexists>la t. may_log_in H u ttl st la t"
  shows "\<not> is_ok (snd (login W H u p ttl st))"
  using assms by (cases "validate_username u"; cases "check_lockout (hv_instant H) (as_login_attempts st) u"; cases "snd (check_lockout (hv_instant H) (as_login_attempts st) u)")
    (auto simp: may_log_in_def login_def comp_defs gate_run is_ok_iff split: sum.splits)

lemma login_run:
  assumes "may_log_in H u ttl st la t" and "ready (hv_codec H) st"
  shows "login (\<lambda>_ st. st) H u p ttl st =
     (case account (hv_codec H) st u of None \<Rightarrow> sbind (note_failure H u) (\<lambda>_. sfail InvalidCredentials) (st\<lparr>as_login_attempts := la\<rparr>)
      | Some rec \<Rightarrow> (case attempt_unwrap (hv_kdf H) rec p of
          Inl e \<Rightarrow> sbind (note_failure H u) (\<lambda>_. sfail e) (st\<lparr>as_login_attempts := la\<rparr>)
        | Inr (rec, i, pl) \<Rightarrow> finalize_login_after_unwrap (\<lambda>_ st. st) H u rec i pl t (st\<lparr>as_login_attempts := la\<rparr>)))"
proof -
  have "ready (hv_codec H) (st\<lparr>as_login_attempts := la\<rparr>)" using assms(2) by simp
  from get_run [OF this] show ?thesis
    using assms(1) by (simp add: login_def may_log_in_def comp_defs gate_run meanwhile_def split: option.split sum.split)
qed

text \<open>C7. A login over a working database succeeds exactly when the user name is well-formed, the account is not locked out, the
  requested lifetime is in range, the account exists, the password opens one of its slots, and neither the role in
  the first slot it opens nor the account's role is disabled and the slot's role does not exceed the account's.\<close>

theorem login_exact:
  assumes "env_ok H" and "ready (hv_codec H) st" and "dm_inv (st_inner (as_sessions st))"
  shows "is_ok (snd (login (\<lambda>_ st. st) H u p ttl st)) \<longleftrightarrow>
     (\<exists>la t. may_log_in H u ttl st la t)
     \<and> (\<exists>rec i pl. account (hv_codec H) st u = Some rec \<and> opens_first (hv_kdf H) rec p i pl \<and> role_admitted pl rec)"
proof (cases "\<exists>la t. may_log_in H u ttl st la t")
  case False
  then show ?thesis using login_gates by blast
next
  case True
  then obtain la t where m: "may_log_in H u ttl st la t" by blast
  let ?st = "st\<lparr>as_login_attempts := la\<rparr>"
  have fail: "\<not> is_ok (snd (sbind (note_failure H u) (\<lambda>_. sfail e) ?st))" for e by (simp add: comp_defs note_failure_def is_ok_iff)
  show ?thesis
  proof (cases "account (hv_codec H) st u")
    case None
    then show ?thesis using m fail by (simp add: login_run [OF m assms(2)])
  next
    case (Some rec)
    show ?thesis
    proof (cases "attempt_unwrap (hv_kdf H) rec p")
      case (Inl e)
      then have "\<not> opens_first (hv_kdf H) rec p i pl" for i pl using attempt_unwrap_iff [of "hv_kdf H" rec p rec i pl] by simp
      then show ?thesis using m fail Some Inl by (simp add: login_run [OF m assms(2)])
    next
      case (Inr x)
      obtain i pl where x: "x = (rec, i, pl)" and o: "opens_first (hv_kdf H) rec p i pl"
        using Inr attempt_unwrap_iff by (metis prod_cases3)
      have uniq: "opens_first (hv_kdf H) rec p j q \<Longrightarrow> j = i \<and> q = pl" for j q
        using Inr x attempt_unwrap_iff [of "hv_kdf H" rec p rec j q] by simp
      have acc: "account (hv_codec H) ?st u = Some rec" and r: "ready (hv_codec H) ?st" using Some assms(2) by simp_all
      have "is_ok (snd (finalize_login_after_unwrap (\<lambda>_ st. st) H u rec i pl t ?st)) \<longleftrightarrow> role_admitted pl rec"
      proof (cases "role_admitted pl rec")
        case True
        then show ?thesis using finalize_admitted [OF assms(1) r acc _ True opens_first_length [OF o], of i t] assms(3) by fastforce
      qed (simp add: finalize_refused [OF r acc] is_ok_iff)
      moreover have "login (\<lambda>_ st. st) H u p ttl st = finalize_login_after_unwrap (\<lambda>_ st. st) H u rec i pl t ?st"
        using Some Inr x by (simp add: login_run [OF m assms(2)])
      moreover have "(\<exists>rec' j q. account (hv_codec H) st u = Some rec' \<and> opens_first (hv_kdf H) rec' p j q \<and> role_admitted q rec')
          \<longleftrightarrow> role_admitted pl rec"
        unfolding Some using o uniq by blast
      ultimately show ?thesis using m by metis
    qed
  qed
qed

subsection \<open>A new account's password\<close>

text \<open>The key derivation accepts the given parameters, for the passwords it is used on: the one of the account and
  the discarded ones of its decoy slots. Argon2 refuses some parameters, so this is a condition on the configuration.\<close>

definition kdf_total :: "kdf_env \<Rightarrow> argon2_params \<Rightarrow> bytes set \<Rightarrow> bool" where
  "kdf_total K params PW \<longleftrightarrow> prims_ok (kf_prims K) \<and> en_mem (kf_sec K) = None \<and> (\<forall>pw \<in> PW. \<exists>kek. derive_kek K params pw = Inr kek)"

lemma payload_round_trip:
  assumes "length (sp_identity_sk pl) = SECRET_KEY_BYTES" and "en_mem E = None"
  obtains bs where "SlotPayload_to_bytes pl = Inr bs" and "SlotPayload_from_bytes E bs = Inr pl" and "length bs < 2 ^ 32"
proof
  let ?bs = "sp_identity_sk pl @ [role_to_byte (sp_role pl), if sp_revoke_other_sessions pl then 1 else 0]"
  show "SlotPayload_to_bytes pl = Inr ?bs" using assms(1) by (simp add: SlotPayload_to_bytes_def)
  show "SlotPayload_from_bytes E ?bs = Inr pl"
    using assms by (simp add: SlotPayload_from_bytes_def Let_def role_round_trip secret_vec_def nth_append)
  show "length ?bs < 2 ^ 32" using assms(1) by (simp add: SECRET_KEY_BYTES_def)
qed

lemma wrap_slot_opens:
  assumes "aead_correct (kf_prims K)" and "en_mem (kf_sec K) = None" and "length (sp_identity_sk pl) = SECRET_KEY_BYTES"
    and "derive_kek K params pw = Inr kek"
  obtains bs w where "SlotPayload_to_bytes pl = Inr bs" and "wrap_slot K n bs pw params (slot_wrap_aad u i) = Inr w"
    and "\<And>pk. slot_opens K kek u i \<lparr>cs_identity_pk_b64 = pk, cs_wrapped = w\<rparr> pl"
proof -
  obtain bs where bs: "SlotPayload_to_bytes pl = Inr bs" "SlotPayload_from_bytes (kf_sec K) bs = Inr pl" "length bs < 2 ^ 32"
    using payload_round_trip [OF assms(3,2)] by blast
  obtain w where "wrap_with_key (kf_prims K) n bs kek (slot_wrap_aad u i) = Inr w" "unwrap_with_key (kf_prims K) w kek (slot_wrap_aad u i) = Inr bs"
    using wrap_unwrap [OF assms(1) bs(3)] by metis
  then show ?thesis using that [of bs w] bs assms(4) by (simp add: wrap_slot_def slot_opens_def unwrap_slot_def)
qed

definition fresh_payload :: "kdf_env \<Rightarrow> slot_rand \<Rightarrow> role \<Rightarrow> bool \<Rightarrow> slot_payload" where
  "fresh_payload K R r b = \<lparr>sp_identity_sk = snd (keypair (kf_prims K) (sd_seed R)), sp_role = r, sp_revoke_other_sessions = b\<rparr>"

lemma fresh_payload_length: "kdf_total K params PW \<Longrightarrow> length (sp_identity_sk (fresh_payload K R r b)) = SECRET_KEY_BYTES"
  by (cases "kem_gen (kf_prims K) (sd_seed R)")
    (auto simp: kdf_total_def fresh_payload_def keypair_def prims_ok_def kem_correct_def split: prod.splits)

lemma new_slot_run:
  assumes "kdf_total K params PW" and "derive_kek K params pw = Inr kek"
  obtains slot where "new_slot K R u i pw params r b = Inr slot" and "slot_opens K kek u i slot (fresh_payload K R r b)"
    and "cs_identity_pk_b64 slot = b64_encode (kf_prims K) (fst (keypair (kf_prims K) (sd_seed R)))"
proof -
  have K: "aead_correct (kf_prims K)" "en_mem (kf_sec K) = None" using assms(1) prims_okD(1) by (auto simp: kdf_total_def)
  obtain bs w where "SlotPayload_to_bytes (fresh_payload K R r b) = Inr bs" "wrap_slot K (sd_nonce R) bs pw params (slot_wrap_aad u i) = Inr w"
    "\<And>pk. slot_opens K kek u i \<lparr>cs_identity_pk_b64 = pk, cs_wrapped = w\<rparr> (fresh_payload K R r b)"
    using wrap_slot_opens [OF K fresh_payload_length [OF assms(1)] assms(2)] by metis
  then show ?thesis
    using that [of "\<lparr>cs_identity_pk_b64 = b64_encode (kf_prims K) (fst (keypair (kf_prims K) (sd_seed R))), cs_wrapped = w\<rparr>"] K(2)
    by (simp add: new_slot_def fresh_payload_def secret_vec_def case_prod_beta)
qed

lemma decoy_slot_run:
  assumes "kdf_total K params PW" and "sd_discarded R \<in> PW"
  obtains slot where "decoy_slot K R u i params = Inr slot"
proof -
  obtain kek where "derive_kek K params (sd_discarded R) = Inr kek" using assms by (auto simp: kdf_total_def)
  then obtain slot where "new_slot K R u i (sd_discarded R) params User False = Inr slot" using new_slot_run [OF assms(1)] by metis
  then show ?thesis using that by (simp add: decoy_slot_def new_slot_def)
qed

text \<open>The slots of a new account: the password opens the real one.\<close>

lemma new_slots_run:
  assumes "kdf_total K params (range (\<lambda>i. sd_discarded (R i)))" and "real < CREDENTIAL_SLOTS" and "derive_kek K params pw = Inr kek"
  obtains slots where "new_slots_random K R real u pw params r b = Inr (slots, real)" and "length slots = CREDENTIAL_SLOTS"
    and "slot_opens K kek u real (slots ! real) (fresh_payload K (R real) r b)"
    and "\<And>j. j < CREDENTIAL_SLOTS \<Longrightarrow> j \<noteq> real \<Longrightarrow> decoy_slot K (R j) u j params = Inr (slots ! j)"
proof -
  let ?f = "\<lambda>i. if i = real then new_slot K (R i) u i pw params r b else decoy_slot K (R i) u i params"
  obtain s where s: "new_slot K (R real) u real pw params r b = Inr s" "slot_opens K kek u real s (fresh_payload K (R real) r b)"
    using new_slot_run [OF assms(1,3)] by metis
  have "\<exists>y. ?f i = Inr y" for i using s(1) decoy_slot_run [OF assms(1) rangeI] by metis
  then obtain slots where slots: "rmap ?f [0..<CREDENTIAL_SLOTS] = Inr slots" using rmap_Inr_iff [of ?f] by blast
  have at: "?f i = Inr (slots ! i)" if "i < CREDENTIAL_SLOTS" for i using rmap_nth [OF slots] that by fastforce
  show ?thesis
    by (rule that [of slots])
      (use slots at [OF assms(2)] at s rmap_length [OF slots] in \<open>auto simp: new_slots_random_def, metis\<close>)
qed

lemma role_permits_refl [simp]: "role_permits r r"
  by (simp add: role_permits_def Let_def)

lemma new_account_session:
  assumes H: "env_ok H" "kdf_total (hv_kdf H) (new_argon2_params (hv_salt H) st) (range (\<lambda>i. sd_discarded (hv_rand H i)))" "hv_real_slot H < CREDENTIAL_SLOTS"
    and H': "env_ok H'" "hv_kdf H' = hv_kdf H" "hv_codec H' = hv_codec H"
    and st: "ready (hv_codec H) st" "dm_inv (st_inner (as_sessions st))" "account (hv_codec H) st u = None"
    and "validate_username u = Inr ()" and "p \<noteq> []" and "r \<noteq> Disabled" and "may_log_in H' u ttl st la t"
    and kek: "derive_kek (hv_kdf H) (new_argon2_params (hv_salt H) st) p = Inr kek0"
    and decoys: "\<forall>j < hv_real_slot H. \<forall>kek slot pl. derive_kek (hv_kdf H) (new_argon2_params (hv_salt H) st) p = Inr kek
      \<longrightarrow> decoy_slot (hv_kdf H) (hv_rand H j) u j (new_argon2_params (hv_salt H) st) = Inr slot
      \<longrightarrow> \<not> slot_opens (hv_kdf H) kek u j slot pl"
  shows "\<exists>st1 rec st2. add_user (\<lambda>_ st. st) H u p r st = (st1, Inr ()) \<and> account (hv_codec H) st1 = (account (hv_codec H) st)(u \<mapsto> rec)
      \<and> ur_role rec = r \<and> login (\<lambda>_ st. st) H' u p ttl st1 =
        (st2, Inr \<lparr>tk_token = en_token (hv_session H'), tk_expires_at = t div NANOS, tk_username = u\<rparr>)
      \<and> session_for H' u (hv_real_slot H) (fresh_payload (hv_kdf H) (hv_rand H (hv_real_slot H)) r False) t st2"
proof -
  let ?K = "hv_kdf H" and ?C = "hv_codec H" and ?params = "new_argon2_params (hv_salt H) st" and ?i = "hv_real_slot H"
  let ?pl = "fresh_payload ?K (hv_rand H ?i) r False"
  let ?kek = kek0
  obtain slots where slots: "new_slots_random ?K (hv_rand H) ?i u p ?params r False = Inr (slots, ?i)" "length slots = CREDENTIAL_SLOTS"
    "slot_opens ?K ?kek u ?i (slots ! ?i) ?pl" "\<And>j. j < CREDENTIAL_SLOTS \<Longrightarrow> j \<noteq> ?i \<Longrightarrow> decoy_slot ?K (hv_rand H j) u j ?params = Inr (slots ! j)"
    using new_slots_run [OF H(2,3) kek] by metis
  define rec where "rec = \<lparr>ur_username = u, ur_created_at = now_ns H, ur_last_login = None, ur_kdf = ?params, ur_slots = slots,
        ur_primary_slot = of_nat ?i, ur_role = r\<rparr>"
  have rok: "record_ok (ur_username rec) rec" using slots(2) H(3) by (simp add: rec_def record_ok_def unat_slot)
  obtain st1 where st1: "on_users H (us_upsert ?C rec) st = (st1, Inr ())" "ready ?C st1" "account ?C st1 = (account ?C st)(u \<mapsto> rec)"
    "as_sessions st1 = as_sessions st" "as_login_attempts st1 = as_login_attempts st" "as_config st1 = as_config st"
    using upsert_run [OF _ st(1) rok] H(1) by (auto simp: env_ok_def rec_def)
  have add: "add_user (\<lambda>_ st. st) H u p r st = (st1, Inr ())"
    using assms(10,11) st(3) slots(1) st1(1)
    by (simp add: add_user_def comp_defs get_run [OF st(1)] meanwhile_def kdf_result_def backend_def rec_def)
  have opens: "opens_first ?K rec p ?i ?pl"
    unfolding opens_first_def
    using kek slots(2,3) H(3) decoys slots(4) by (auto simp: rec_def)
  have may: "may_log_in H' u ttl st1 la t" using assms(13) st1(5,6) by (simp add: may_log_in_def)
  have r1: "ready (hv_codec H') (st1\<lparr>as_login_attempts := la\<rparr>)" and a1: "account (hv_codec H') (st1\<lparr>as_login_attempts := la\<rparr>) u = Some rec"
    and inv1: "dm_inv (st_inner (as_sessions (st1\<lparr>as_login_attempts := la\<rparr>)))"
    using st1(2-4) st(2) H'(3) by simp_all
  have adm: "role_admitted ?pl rec" using assms(12) by (simp add: role_admitted_def rec_def fresh_payload_def)
  obtain st2 where st2: "finalize_login_after_unwrap (\<lambda>_ st. st) H' u rec ?i ?pl t (st1\<lparr>as_login_attempts := la\<rparr>)
      = (st2, Inr \<lparr>tk_token = en_token (hv_session H'), tk_expires_at = t div NANOS, tk_username = u\<rparr>)" "session_for H' u ?i ?pl t st2"
    using finalize_admitted [OF H'(1) r1 a1 inv1 adm opens_first_length [OF opens], of ?i t] by metis
  have "login (\<lambda>_ st. st) H' u p ttl st1 = (st2, Inr \<lparr>tk_token = en_token (hv_session H'), tk_expires_at = t div NANOS, tk_username = u\<rparr>)"
    using login_run [OF may, of p] st1(2) H'(2,3) st2(1) a1 attempt_unwrap_iff [of ?K rec p rec ?i ?pl] opens by simp
  then show ?thesis using add st1(3) st2(2) by (fastforce simp: rec_def)
qed

text \<open>An administrator adds an account for a well-formed, unused name and a non-empty password: the handler succeeds and
  changes no other account. A later login with that password, unless a decoy slot happens to open under it,
  opens a session of exactly the role asked for, on the slot that holds the account's identity, whose secret key
  the session holds.\<close>

lemma new_account_logs_in:
  assumes H: "env_ok H" "kdf_total (hv_kdf H) (new_argon2_params (hv_salt H) st) (range (\<lambda>i. sd_discarded (hv_rand H i)))" "hv_real_slot H < CREDENTIAL_SLOTS"
    and H': "env_ok H'" "hv_kdf H' = hv_kdf H" "hv_codec H' = hv_codec H"
    and st: "ready (hv_codec H) st" "dm_inv (st_inner (as_sessions st))" "account (hv_codec H) st u = None"
    and "validate_username u = Inr ()" and "p \<noteq> []" and "r \<noteq> Disabled" and "may_log_in H' u ttl st la t"
    and kek: "derive_kek (hv_kdf H) (new_argon2_params (hv_salt H) st) p = Inr kek0"
    and decoys: "\<forall>j < hv_real_slot H. \<forall>kek slot pl. derive_kek (hv_kdf H) (new_argon2_params (hv_salt H) st) p = Inr kek
      \<longrightarrow> decoy_slot (hv_kdf H) (hv_rand H j) u j (new_argon2_params (hv_salt H) st) = Inr slot
      \<longrightarrow> \<not> slot_opens (hv_kdf H) kek u j slot pl"
  shows "\<exists>st1 rec st2. add_user (\<lambda>_ st. st) H u p r st = (st1, Inr ()) \<and> account (hv_codec H) st1 = (account (hv_codec H) st)(u \<mapsto> rec)
      \<and> ur_role rec = r \<and> login (\<lambda>_ st. st) H' u p ttl st1 =
        (st2, Inr \<lparr>tk_token = en_token (hv_session H'), tk_expires_at = t div NANOS, tk_username = u\<rparr>)
      \<and> session_for H' u (hv_real_slot H) (fresh_payload (hv_kdf H) (hv_rand H (hv_real_slot H)) r False) t st2"
  by (rule new_account_session [OF assms])

subsection \<open>At a concrete installation\<close>

lemma sample_kdf_simps [simp]: "kf_sec sample_kdf = sample_env\<lparr>en_prims := keyed_prims\<rparr>"
  "derive_kek sample_kdf params pw = Inr (take 32 (pw @ replicate 32 0))"
  by (simp_all add: sample_kdf_def derive_kek_def)

lemma sample_kdf_total: "kdf_total sample_kdf params PW"
  by (simp add: kdf_total_def keyed_prims_ok)

lemma sample_env_ok: "env_ok sample_handler"
  using keyed_prims_ok prims_okD(1) by (simp add: env_ok_def flat_codec_ok sample_handler_def)

lemma sample_ready: "ready flat_codec (sample_auth_state [sample_admin, sample_user])"
  "dm_inv (st_inner (as_sessions (sample_auth_state rs)))"
  using sample_users_ok by (simp_all add: ready_def sample_auth_state_def)

lemma sample_accounts: "u \<notin> {''root'', ''alice''} \<Longrightarrow> account C (sample_auth_state [sample_admin, sample_user]) u = None"
  by (auto simp: accounts_def sample_auth_state_def sample_admin_def sample_user_def)

lemma keyed_decoy:
  assumes "decoy_slot sample_kdf R u j params = Inr slot" and "hd (sd_discarded R @ [0]) \<noteq> hd (pw @ [0])"
  shows "\<not> slot_opens sample_kdf (take 32 (pw @ replicate 32 0)) u j slot pl"
proof -
  have h: "hd (take 32 xs @ replicate (32 - length xs) 0 @ [0]) = hd (xs @ [0 :: u8])" for xs by (cases xs) (simp_all add: numeral_eq_Suc)
  obtain bs ct where "gcm_seal keyed_prims (take 32 (sd_discarded R @ replicate 32 0)) (sd_nonce R) (slot_wrap_aad u j) bs = Some ct"
    "ws_ciphertext (cs_wrapped slot) = ct"
    using assms(1) by (auto simp: decoy_slot_def wrap_slot_def wrap_with_key_def case_prod_beta)
  then have "drop (length (ws_ciphertext (cs_wrapped slot)) - 16) (ws_ciphertext (cs_wrapped slot)) = replicate 16 (hd (sd_discarded R @ [0]))"
    by (auto simp: keyed_prims_def h)
  then show ?thesis
    using assms(2) by (auto simp: slot_opens_def unwrap_slot_def unwrap_with_key_def keyed_prims_def h split: if_splits)
qed

lemma sample_may: "may_log_in sample_handler ''bob'' None (sample_auth_state rs) [] (4600 * NANOS)"
  by (simp add: may_log_in_def validate_username_def MAX_USERNAME_BYTES_def check_lockout_def sample_auth_state_def
      compute_expiry_def sample_handler_def sample_config_def is_ascii_alphanumeric_def NANOS_def)

lemma sample_decoy:
  assumes "derive_kek sample_kdf params [1, 2, 3] = Inr kek" and "decoy_slot sample_kdf (hv_rand sample_handler j) u j params = Inr slot"
  shows "\<not> slot_opens sample_kdf kek u j slot pl"
  using keyed_decoy [OF assms(2), of "[1, 2, 3]"] assms(1) by (simp add: sample_handler_def)

lemma sample_login:
  "\<exists>st1 st2 tok. add_user (\<lambda>_ st. st) sample_handler ''bob'' [1, 2, 3] User (sample_auth_state [sample_admin, sample_user]) = (st1, Inr ())
     \<and> login (\<lambda>_ st. st) sample_handler ''bob'' [1, 2, 3] None st1 = (st2, Inr tok)"
proof -
  have v: "validate_username ''bob'' = Inr ()" using sample_may [of "[]"] by (simp add: may_log_in_def)
  show ?thesis
    using new_account_session [OF sample_env_ok _ _ sample_env_ok, of "sample_auth_state [sample_admin, sample_user]" "''bob''"
        "[1, 2, 3]" User None "[]" "4600 * NANOS"] sample_ready sample_accounts v sample_decoy sample_may sample_kdf_total sample_kdf_simps(2)
    by (fastforce simp: CREDENTIAL_SLOTS_def)
qed

theorem login_exact_witness:
  "\<not> is_ok (snd (login (\<lambda>_ st. st) sample_handler ''bob'' [1, 2, 3] None (sample_auth_state [sample_admin, sample_user])))"
  using login_exact [OF sample_env_ok, of "sample_auth_state [sample_admin, sample_user]"] sample_ready sample_accounts by simp

subsection \<open>Logins overtaken by other requests\<close>

lemma on_users_get:
  assumes "on_users H (us_get C u) st = (st1, Inr x)"
  shows "x = account C st u \<and> account C st1 = account C st"
  using assms
  by (auto simp: on_users_def backend_def us_get_def sbind_Inr_iff sget_def slift_def sret_def of_payload_def accounts_def
      split: prod.splits option.splits sum.splits dest!: db_txn_cases)

lemma gate_account: "lockout_gate H u st = (st1, r) \<Longrightarrow> account C st1 = account C st"
  by (auto simp: gate_run split: prod.splits)

abbreviation if_ok :: "('s \<Rightarrow> bool) \<Rightarrow> ('s, 'e, 'a) comp \<Rightarrow> ('a \<Rightarrow> 's \<Rightarrow> bool) \<Rightarrow> bool" where
  "if_ok P m Q \<equiv> triple P m Q (\<lambda>_. True)"

lemma if_ok_skip: "(\<And>x. if_ok (\<lambda>_. True) (f x) Q) \<Longrightarrow> if_ok P (sbind m f) Q"
  by (rule triple_sbind [where M = "\<lambda>_ _. True"]) (auto simp: triple_def split: sum.splits)

lemma if_ok_pure: "(B \<Longrightarrow> if_ok P m Q) \<Longrightarrow> if_ok (\<lambda>s. B \<and> P s) m Q"
  by (auto simp: triple_def)

lemma if_ok_fail: "if_ok P (sfail e) Q"
  by (simp add: triple_def sfail_def)

lemma if_ok_get: "if_ok (\<lambda>st. account C st = \<alpha>) (on_users H (us_get C u)) (\<lambda>x st. x = \<alpha> u \<and> account C st = \<alpha>)"
  by (auto simp: triple_def split: sum.splits dest!: on_users_get)

lemma if_ok_exists: "if_ok (\<lambda>_. True) (on_users H (us_get C u)) (\<lambda>x st. account C st u = x)"
  using on_users_get by (fastforce simp: triple_def split: sum.splits)

lemma finalize_checks:
  "if_ok (\<lambda>st. account (hv_codec H) st = \<alpha>) (finalize_login_after_unwrap W H u rec i pl t)
     (\<lambda>_ st'. (\<exists>fresh. \<alpha> u = Some fresh \<and> ur_kdf fresh = ur_kdf rec \<and> ur_slots fresh = ur_slots rec \<and> role_admitted pl fresh)
        \<and> account (hv_codec H) st' u \<noteq> None)"
proof -
  let ?C = "hv_codec H"
  let ?here = "\<lambda>st. account ?C st u \<noteq> None"
  have last: "if_ok ?here (sbind (case duress_sk of None \<Rightarrow> sret () | Some sk \<Rightarrow> supd (\<lambda>st. st\<lparr>as_sessions := fst (switch_user_to_persona
      (hv_switch H) (as_sessions st) u (of_nat i) (sp_role pl) (sp_revoke_other_sessions pl) sk)\<rparr>)) (\<lambda>_. sbind (note_success u) (\<lambda>_. sret tok)))
      (\<lambda>_. ?here)" for duress_sk and tok :: token_response
    by (cases duress_sk) (auto simp: triple_def comp_defs note_success_def)
  have tail: "if_ok (\<lambda>_. True) (sbind (on_users H (us_get ?C u)) (\<lambda>still.
     if still = None then sbind (supd (\<lambda>st. st\<lparr>as_sessions := fst (revoke_user (as_sessions st) u)\<rparr>)) (\<lambda>_. sfail InvalidCredentials)
     else sbind (case duress_sk of None \<Rightarrow> sret () | Some sk \<Rightarrow> supd (\<lambda>st. st\<lparr>as_sessions := fst (switch_user_to_persona
      (hv_switch H) (as_sessions st) u (of_nat i) (sp_role pl) (sp_revoke_other_sessions pl) sk)\<rparr>)) (\<lambda>_. sbind (note_success u) (\<lambda>_. sret tok))))
      (\<lambda>_. ?here)" for duress_sk and tok :: token_response
    by (rule triple_sbind [OF if_ok_exists], rule triple_if)
      (auto intro: if_ok_skip if_ok_fail intro!: triple_weaken [OF last])
  show ?thesis
    unfolding finalize_login_after_unwrap_def
  proof (rule triple_sbind [OF if_ok_get], rule if_ok_pure, goal_cases)
    case (1 x)
    show ?case
    proof (cases x)
      case None
      then show ?thesis by (simp add: if_ok_fail)
    next
      case (Some fresh)
      let ?ok = "ur_kdf fresh = ur_kdf rec \<and> ur_slots fresh = ur_slots rec \<and> role_admitted pl fresh"
      have "if_ok P (if ur_kdf fresh \<noteq> ur_kdf rec \<or> ur_slots fresh \<noteq> ur_slots rec then sfail InvalidCredentials
          else if sp_role pl = Disabled \<or> ur_role fresh = Disabled \<or> \<not> role_permits (sp_role pl) (ur_role fresh) then sfail AccountDisabled
          else sbind m (case_option (sfail InvalidCredentials) (\<lambda>_. sbind d (\<lambda>dk. sbind w (\<lambda>_. sbind n (\<lambda>tk. sbind w' (\<lambda>_. k dk tk)))))))
          (\<lambda>_ st'. ?ok \<and> ?here st')"
        if "\<And>dk tk. if_ok (\<lambda>_. True) (k dk tk) (\<lambda>_. ?here)" for P m d w n w' and k :: "bytes option \<Rightarrow> string \<Rightarrow> token_response auth_comp"
        by (cases ?ok) (auto simp: role_admitted_def intro!: if_ok_fail if_ok_skip that simp del: not_None_eq split: option.splits)
      from this [OF tail] show ?thesis using Some 1 by (auto intro: triple_weaken)
    qed
  qed
qed

text \<open>A login during which other requests run succeeds only when the password opens a slot of the account it read, when
  the derivation has finished the account still exists with the same key-derivation parameters and the same slots, its
  role at that moment is not disabled and admits the slot's, and the account exists at the end. So a login
  overtaken by a deletion, a password change or a demotion is refused.\<close>

lemma login_checks_current_account:
  assumes "login W H u p ttl st = (st', Inr tok)"
  shows "\<exists>rec i pl before fresh. account (hv_codec H) st u = Some rec \<and> opens_first (hv_kdf H) rec p i pl
    \<and> account (hv_codec H) before = account (hv_codec H) st \<and> account (hv_codec H) (W 0 before) u = Some fresh
    \<and> ur_kdf fresh = ur_kdf rec \<and> ur_slots fresh = ur_slots rec \<and> role_admitted pl fresh
    \<and> account (hv_codec H) st' u \<noteq> None"
proof -
  let ?C = "hv_codec H"
  obtain st1 t st2 row where g: "lockout_gate H u st = (st1, Inr ())" and r: "on_users H (us_get ?C u) st1 = (st2, Inr row)"
    and rest: "(case (case row of Some rec \<Rightarrow> attempt_unwrap (hv_kdf H) rec p | None \<Rightarrow> Inl InvalidCredentials) of
       Inr (rec, i, pl) \<Rightarrow> finalize_login_after_unwrap W H u rec i pl t
     | Inl e \<Rightarrow> sbind (note_failure H u) (\<lambda>_. sfail e)) (W 0 st2) = (st', Inr tok)"
    using assms by (auto simp: login_def sbind_Inr_iff slift_def sget_def meanwhile_def supd_def)
  have row: "row = account ?C st u" and same: "account ?C st2 = account ?C st"
    using on_users_get [OF r] gate_account [OF g] by metis+
  have bad: "sbind (note_failure H u) (\<lambda>_. sfail e) s \<noteq> (s', Inr tok)" for e s s' by (simp add: comp_defs note_failure_def)
  obtain rec x where rec: "account ?C st u = Some rec" "attempt_unwrap (hv_kdf H) rec p = Inr x"
    using rest row bad by (auto split: option.splits sum.splits)
  obtain i pl where x: "x = (rec, i, pl)" "opens_first (hv_kdf H) rec p i pl"
    using rec(2) attempt_unwrap_iff by (metis prod_cases3)
  have "finalize_login_after_unwrap W H u rec i pl t (W 0 st2) = (st', Inr tok)" using rest row rec x by simp
  then show ?thesis
    using finalize_checks [of H "account ?C (W 0 st2)" W u rec i pl t] rec(1) x(2) same unfolding triple_def by fastforce
qed

subsection \<open>Changing a password\<close>

lemma attempt_unwrap_slot_opens:
  "attempt_unwrap_slot K rec p i = Inr (rec, i, pl) \<longleftrightarrow>
     i < CREDENTIAL_SLOTS \<and> i < length (ur_slots rec)
     \<and> (\<exists>kek. derive_kek K (ur_kdf rec) p = Inr kek \<and> slot_opens K kek (ur_username rec) i (ur_slots rec ! i) pl)"
  by (auto simp: attempt_unwrap_slot_def slot_opens_def split: sum.splits)

lemma revoke_except_get:
  assumes "dm_inv (st_inner ss)" and "dm_get (st_inner (fst (revoke_user_persona_except ss u p keep))) h = Some s"
  shows "dm_get (st_inner ss) h = Some s \<and> (si_username s = u \<and> si_persona s = p \<longrightarrow> h = keep)"
  using assms(2) unfolding revoke_user_persona_except_def remove_rows_get(1) [OF assms(1)] by (auto split: option.splits if_splits)

definition harmless :: "user_codec \<Rightarrow> (nat \<Rightarrow> auth_state \<Rightarrow> auth_state) \<Rightarrow> bool" where
  "harmless C W \<longleftrightarrow> (\<forall>i st. ready C st \<and> dm_inv (st_inner (as_sessions st)) \<longrightarrow> ready C (W i st) \<and> dm_inv (st_inner (as_sessions (W i st))))"

lemma harmlessD:
  assumes "harmless C W" and "ready C st" and "dm_inv (st_inner (as_sessions st))"
  shows "ready C (W i st)" "dm_inv (st_inner (as_sessions (W i st)))"
  using assms by (simp_all add: harmless_def)


text \<open>The account ''bob'', whose slot 2 opens under the password 1, 2, 3, and a session on that slot.\<close>

lemma sample_bob:
  obtains rec pl where "ready flat_codec (sample_auth_state [rec])" and "account flat_codec (sample_auth_state [rec]) ''bob'' = Some rec"
    and "attempt_unwrap_slot sample_kdf rec [1, 2, 3] 2 = Inr (rec, 2, pl)"
proof -
  let ?params = "new_argon2_params (hv_salt sample_handler) (sample_auth_state [])"
  obtain slots where s: "length slots = CREDENTIAL_SLOTS"
    "slot_opens sample_kdf (take 32 ([1, 2, 3] @ replicate 32 0)) ''bob'' 2 (slots ! 2) (fresh_payload sample_kdf (hv_rand sample_handler 2) User False)"
    using new_slots_run [where real = 2 and R = "hv_rand sample_handler" and u = "''bob''" and params = ?params and pw = "[1, 2, 3]"
        and r = User and b = False, OF sample_kdf_total _ sample_kdf_simps(2)]
    by (auto simp: CREDENTIAL_SLOTS_def)
  let ?rec = "\<lparr>ur_username = ''bob'', ur_created_at = 0, ur_last_login = None, ur_kdf = ?params, ur_slots = slots,
        ur_primary_slot = 2, ur_role = User\<rparr>"
  have "record_ok ''bob'' ?rec" using s(1) by (simp add: record_ok_def CREDENTIAL_SLOTS_def)
  then have "ready flat_codec (sample_auth_state [?rec])" "account flat_codec (sample_auth_state [?rec]) ''bob'' = Some ?rec"
    using flat_codec_law [of ?rec] by (auto simp: ready_def users_ok_def accounts_def sample_auth_state_def dm_inv_def)
  moreover have "attempt_unwrap_slot sample_kdf ?rec [1, 2, 3] 2 = Inr (?rec, 2, fresh_payload sample_kdf (hv_rand sample_handler 2) User False)"
    unfolding attempt_unwrap_slot_opens using s by (simp add: CREDENTIAL_SLOTS_def)
  ultimately show ?thesis by (rule that)
qed

definition bob_auth :: authenticated where
  "bob_auth = sample_auth User (sample_session\<lparr>si_username := ''bob'', si_persona := 2\<rparr>)"

definition drop_bob :: "nat \<Rightarrow> auth_state \<Rightarrow> auth_state" where
  "drop_bob i st = (let db = as_user_store st in st\<lparr>as_user_store := db\<lparr>ud_rows := dm_remove ''bob'' (ud_rows db)\<rparr>\<rparr>)"

lemma drop_bob_harmless: "harmless C drop_bob"
  using users_ok_remove by (auto simp: harmless_def drop_bob_def ready_def Let_def)


end
