(* ===== verification/Deletion_Laws.thy ===== *)
theory Deletion_Laws
  imports Login_Laws
begin

text \<open>
  What deleting an account leaves behind: no account, no session, no grant and no access-list entry, and (unless forced)
  no bucket without a grantee; and what a failure in the middle leaves.
\<close>

subsection \<open>Bucket configurations under the scrubs\<close>

definition config_laws :: "'st account_ops \<Rightarrow> bool" where
  "config_laws Q \<longleftrightarrow> (\<forall>s b cfg s'. op_set_bucket_config Q s b cfg = (s', Inr ()) \<longrightarrow>
     op_get_bucket_config Q s' b = Inr cfg \<and> (\<forall>b'. b' \<noteq> b \<longrightarrow> op_get_bucket_config Q s' b' = op_get_bucket_config Q s b')
     \<and> op_list_buckets Q s' = op_list_buckets Q s)"

definition holds_at :: "'st account_ops \<Rightarrow> (bucket_config \<Rightarrow> bool) \<Rightarrow> 'st \<Rightarrow> string \<Rightarrow> bool" where
  "holds_at Q P s b \<longleftrightarrow> (\<exists>cfg. op_get_bucket_config Q s b = Inr cfg \<and> P cfg)"

definition grant_free :: "string \<Rightarrow> bucket_config \<Rightarrow> bool" where
  "grant_free u cfg \<longleftrightarrow> (\<forall>kv \<in> set (bc_keys cfg). dm_get (kv_grants kv) u = None)"

definition acl_free :: "string \<Rightarrow> bucket_config \<Rightarrow> bool" where
  "acl_free u cfg \<longleftrightarrow> dm_get (bc_acl cfg) u = None"

lemma holds_at_set:
  assumes "config_laws Q" and "op_set_bucket_config Q s b cfg = (s', Inr ())"
  shows "holds_at Q P s' b' = (if b' = b then P cfg else holds_at Q P s b')" and "op_list_buckets Q s' = op_list_buckets Q s"
  using assms by (auto simp: config_laws_def holds_at_def)

lemma op_config_iff: "op_config_c Q H b s = (s', Inr cfg) \<longleftrightarrow> s' = s \<and> op_get_bucket_config Q s b = Inr cfg"
  by (cases "op_get_bucket_config Q s b") (auto simp: op_config_c_def store_result_def slift_def)

lemma op_set_config_iff: "op_set_config_c Q H b cfg s = (s', Inr ()) \<longleftrightarrow> op_set_bucket_config Q s b cfg = (s', Inr ())"
  by (cases "snd (op_set_bucket_config Q s b cfg)") (auto simp: op_set_config_c_def store_result_def slift_def split: prod.splits)

lemma op_list_iff: "op_list_buckets_c Q H s = (s', Inr bs) \<longleftrightarrow> s' = s \<and> op_list_buckets Q s = Inr bs"
  by (cases "op_list_buckets Q s") (auto simp: op_list_buckets_c_def store_result_def slift_def)

lemma drop_grants_free: "grant_free u (drop_grants u cfg)"
  by (simp add: grant_free_def drop_grants_def)

lemma drop_grants_other:
  "acl_free v (drop_grants u cfg) = acl_free v cfg" "grant_free u (cfg\<lparr>bc_acl := acl\<rparr>) = grant_free u cfg"
  by (simp_all add: acl_free_def drop_grants_def grant_free_def)

lemma holds_at_step:
  assumes "config_laws Q" and "op_get_bucket_config Q s b = Inr cfg" and "op_set_bucket_config Q s b (f cfg) = (s2, Inr ())"
    and "\<And>cfg. P cfg \<Longrightarrow> P (f cfg)" and "holds_at Q P s b'"
  shows "holds_at Q P s2 b'"
  unfolding holds_at_set(1) [OF assms(1,3)] using assms(2,4,5) by (auto simp: holds_at_def)

text \<open>One bucket of a scrub: skipped when nothing of the user is there, else rewritten.\<close>

lemma scrub_grants_Cons:
  assumes "scrub_grants_loop Q H u (b # bs) s = (s', Inr orphaned)"
  obtains cfg s2 orphaned' where "op_get_bucket_config Q s b = Inr cfg" and "scrub_grants_loop Q H u bs s2 = (s', Inr orphaned')"
    and "s2 = s \<and> grant_free u cfg \<or> op_set_bucket_config Q s b (drop_grants u cfg) = (s2, Inr ())"
proof -
  obtain cfg where cfg: "op_get_bucket_config Q s b = Inr cfg" using assms by (auto simp: sbind_Inr_iff op_config_iff)
  show thesis
  proof (cases "list_ex (\<lambda>kv. dm_get (kv_grants kv) u \<noteq> None) (bc_keys cfg)")
    case False
    then have "grant_free u cfg" by (auto simp: grant_free_def list_ex_iff)
    then show thesis using that [of cfg s orphaned] assms cfg False by (auto simp: sbind_Inr_iff op_config_iff Let_def)
  next
    case True
    then show thesis using that assms cfg by (auto simp: sbind_Inr_iff op_config_iff op_set_config_iff Let_def sret_def)
  qed
qed

lemma scrub_acl_Cons:
  assumes "scrub_acl_loop Q H u (b # bs) s = (s', Inr ())"
  obtains cfg s2 where "op_get_bucket_config Q s b = Inr cfg" and "scrub_acl_loop Q H u bs s2 = (s', Inr ())"
    and "s2 = s \<and> acl_free u cfg \<or> op_set_bucket_config Q s b (cfg\<lparr>bc_acl := dm_remove u (bc_acl cfg)\<rparr>) = (s2, Inr ())"
proof -
  obtain cfg where cfg: "op_get_bucket_config Q s b = Inr cfg" using assms by (auto simp: sbind_Inr_iff op_config_iff)
  then show thesis
    using that [of cfg] assms by (cases "dm_get (bc_acl cfg) u") (auto simp: sbind_Inr_iff op_config_iff op_set_config_iff acl_free_def)
qed

text \<open>A property of configurations that the rewriting keeps is kept by a scrub in every bucket, and what the scrub
  is for holds afterwards in every bucket it visits.\<close>

lemma scrub_grants_keeps:
  assumes "config_laws Q" and "\<And>cfg. P cfg \<Longrightarrow> P (drop_grants u cfg)"
  shows "scrub_grants_loop Q H u bs s = (s', Inr orphaned) \<Longrightarrow> holds_at Q P s b \<Longrightarrow> holds_at Q P s' b"
proof (induction bs arbitrary: s orphaned)
  case (Cons b' bs)
  from Cons.prems(1) show ?case
    by (rule scrub_grants_Cons) (use Cons.IH Cons.prems(2) holds_at_step [where f = "drop_grants u" and P = P, OF assms(1) _ _ assms(2)] in blast)
qed (simp add: sret_def)

lemma scrub_grants_list:
  assumes "config_laws Q"
  shows "scrub_grants_loop Q H u bs s = (s', Inr orphaned) \<Longrightarrow> op_list_buckets Q s' = op_list_buckets Q s"
proof (induction bs arbitrary: s orphaned)
  case (Cons b' bs)
  from Cons.prems show ?case
    by (rule scrub_grants_Cons) (use Cons.IH holds_at_set(2) [OF assms] in metis)
qed (simp add: sret_def)

lemma scrub_grants_cleans:
  assumes "config_laws Q"
  shows "scrub_grants_loop Q H u bs s = (s', Inr orphaned) \<Longrightarrow> b \<in> set bs \<Longrightarrow> holds_at Q (grant_free u) s' b"
proof (induction bs arbitrary: s orphaned)
  case (Cons b' bs)
  from Cons.prems(1) obtain cfg s2 orphaned' where s2: "op_get_bucket_config Q s b' = Inr cfg" "scrub_grants_loop Q H u bs s2 = (s', Inr orphaned')"
    "s2 = s \<and> grant_free u cfg \<or> op_set_bucket_config Q s b' (drop_grants u cfg) = (s2, Inr ())"
    by (rule scrub_grants_Cons)
  then have "holds_at Q (grant_free u) s2 b'" using holds_at_set(1) [OF assms] drop_grants_free by (auto simp: holds_at_def)
  then show ?case using Cons s2(2) scrub_grants_keeps [where P = "grant_free u", OF assms drop_grants_free s2(2)] by auto
qed simp

lemma scrub_acl_keeps:
  assumes "config_laws Q" and "\<And>cfg. P cfg \<Longrightarrow> P (cfg\<lparr>bc_acl := dm_remove u (bc_acl cfg)\<rparr>)"
  shows "scrub_acl_loop Q H u bs s = (s', Inr ()) \<Longrightarrow> holds_at Q P s b \<Longrightarrow> holds_at Q P s' b"
proof (induction bs arbitrary: s)
  case (Cons b' bs)
  from Cons.prems(1) show ?case
    by (rule scrub_acl_Cons)
      (use Cons.IH Cons.prems(2) holds_at_step [where f = "\<lambda>cfg. cfg\<lparr>bc_acl := dm_remove u (bc_acl cfg)\<rparr>" and P = P, OF assms(1) _ _ assms(2)] in blast)
qed (simp add: sret_def)

lemma scrub_acl_cleans:
  assumes "config_laws Q"
  shows "scrub_acl_loop Q H u bs s = (s', Inr ()) \<Longrightarrow> b \<in> set bs \<Longrightarrow> holds_at Q (acl_free u) s' b"
proof (induction bs arbitrary: s)
  case (Cons b' bs)
  from Cons.prems(1) obtain cfg s2 where s2: "op_get_bucket_config Q s b' = Inr cfg" "scrub_acl_loop Q H u bs s2 = (s', Inr ())"
    "s2 = s \<and> acl_free u cfg \<or> op_set_bucket_config Q s b' (cfg\<lparr>bc_acl := dm_remove u (bc_acl cfg)\<rparr>) = (s2, Inr ())"
    by (rule scrub_acl_Cons)
  then have "holds_at Q (acl_free u) s2 b'" using holds_at_set(1) [OF assms] by (auto simp: holds_at_def acl_free_def)
  moreover have "acl_free u (cfg\<lparr>bc_acl := dm_remove u (bc_acl cfg)\<rparr>)" for cfg by (simp add: acl_free_def)
  ultimately show ?case using Cons s2(2) scrub_acl_keeps [where P = "acl_free u", OF assms _ s2(2)] by auto
qed simp

subsection \<open>Deleting an account\<close>

lemma on_users_list: "on_users H (us_list C) st = (st1, Inr xs) \<Longrightarrow> account C st1 = account C st \<and> as_sessions st1 = as_sessions st"
  by (auto simp: on_users_def backend_def us_list_def sbind_Inr_iff sget_def slift_def sret_def split: prod.splits dest!: db_txn_cases)

lemma on_users_delete:
  "on_users H (us_delete u) st = (st1, Inr b) \<Longrightarrow> account C st1 = (account C st)(u := None) \<and> as_sessions st1 = as_sessions st"
  by (auto simp: on_users_def backend_def us_delete_def sbind_Inr_iff sget_def supd_def sret_def accounts_def fun_eq_iff
      split: prod.splits dest!: db_txn_cases)

lemma remove_account_spec:
  assumes "remove_account H u st = (st1, Inr ())"
  shows "account (hv_codec H) st1 = (account (hv_codec H) st)(u := None) \<and> as_sessions st1 = as_sessions st"
  using assms on_users_list [of H "hv_codec H"] on_users_delete [of H u _ _ _ "hv_codec H"]
  by (fastforce simp: remove_account_def sbind_Inr_iff sfail_def sret_def split: if_splits)

text \<open>\<open>other_grantee u cfg\<close>: somebody else holds a grant on the current key.\<close>

definition other_grantee :: "string \<Rightarrow> bucket_config \<Rightarrow> bool" where
  "other_grantee u cfg \<longleftrightarrow> (\<exists>kv v. current_key cfg = Some kv \<and> v \<noteq> u \<and> dm_get (kv_grants kv) v \<noteq> None)"

lemma other_grantee_keeps:
  "other_grantee u cfg \<Longrightarrow> other_grantee u (drop_grants u cfg)" "other_grantee u (cfg\<lparr>bc_acl := acl\<rparr>) = other_grantee u cfg"
  by (auto simp: other_grantee_def current_key_def drop_grants_def last_map split: if_splits)

lemma not_sole_other:
  assumes "\<not> is_sole_grantee u cfg" and "current_key cfg = Some kv" and "kv_grants kv \<noteq> []" and "dm_inv (kv_grants kv)"
  shows "other_grantee u cfg"
proof (rule ccontr)
  assume "\<not> other_grantee u cfg"
  then have only: "set (map fst (kv_grants kv)) \<subseteq> {u}"
    using assms(2) weak_map_of_SomeI [of _ _ "kv_grants kv"] by (fastforce simp: other_grantee_def)
  have "length (kv_grants kv) = card (set (map fst (kv_grants kv)))"
    using assms(4) distinct_card [of "map fst (kv_grants kv)"] by (simp add: dm_inv_def)
  also have "\<dots> = 1" using only assms(3) by (auto simp: subset_singleton_iff)
  finally have "length (kv_grants kv) = 1" .
  moreover from this have "dm_get (kv_grants kv) u \<noteq> None" using only by (cases "kv_grants kv") auto
  ultimately show False using assms(1,2) by (simp add: is_sole_grantee_def)
qed

lemma sole_loop_spec:
  "sole_loop Q H u bs s = (s', Inr sole) \<Longrightarrow> s' = s \<and> (\<forall>b \<in> set bs. holds_at Q (\<lambda>cfg. is_sole_grantee u cfg \<longrightarrow> b \<in> set sole) s b)"
proof (induction bs arbitrary: s' sole)
  case (Cons b bs)
  then show ?case by (auto simp: sbind_Inr_iff op_config_iff sret_def holds_at_def split: if_splits) blast+
qed (simp add: sret_def)

lemma holds_at_mono: "holds_at Q P s b \<Longrightarrow> (\<And>cfg. P cfg \<Longrightarrow> R cfg) \<Longrightarrow> holds_at Q R s b"
  by (auto simp: holds_at_def)

lemma holds_at_conj: "holds_at Q P s b \<Longrightarrow> holds_at Q R s b \<Longrightarrow> holds_at Q (\<lambda>cfg. P cfg \<and> R cfg) s b"
  by (auto simp: holds_at_def)

lemma on_auth_iff: "on_auth m s = (s', Inr x) \<longleftrightarrow> m (fst s) = (fst s', Inr x) \<and> snd s' = snd s"
  by (auto simp: on_auth_def split: prod.splits)

lemma on_store_iff: "on_store m s = (s', Inr x) \<longleftrightarrow> m (snd s) = (snd s', Inr x) \<and> fst s' = fst s"
  by (auto simp: on_store_def split: prod.splits)

text \<open>A completed deletion, step by step.\<close>

lemma delete_user_steps:
  assumes "delete_user Q H u force (st, s) = ((st', s'), Inr ())"
  obtains bs bs' st1 s1 orphaned where "op_list_buckets Q s = Inr bs" and "scrub_grants_loop Q H u bs s = (s1, Inr orphaned)"
    and "op_list_buckets Q s1 = Inr bs'" and "scrub_acl_loop Q H u bs' s1 = (s', Inr ())" and "remove_account H u st = (st1, Inr ())"
    and "st' = st1\<lparr>as_sessions := fst (revoke_user (as_sessions st1) u)\<rparr>"
    and "force \<or> (\<forall>b \<in> set bs. holds_at Q (\<lambda>cfg. \<not> is_sole_grantee u cfg) s b)"
proof -
  obtain x sole where x: "(if force then sret [] else on_store (sole_grantee_buckets Q H u)) (st, s) = (x, Inr sole)" "sole = []"
    and rest: "sbind (on_auth (remove_account H u)) (\<lambda>_. sbind (on_store (scrub_user_grants Q H u)) (\<lambda>_.
       sbind (on_store (scrub_deleted_user_acl_entries Q H u)) (\<lambda>_.
       on_auth (supd (\<lambda>st. st\<lparr>as_sessions := fst (revoke_user (as_sessions st) u)\<rparr>))))) x = ((st', s'), Inr ())"
    using assms by (auto simp: delete_user_def sbind_Inr_iff [where s = "(st, s)"] sfail_def split: if_splits)
  have sole: "x = (st, s) \<and> (force \<or> (\<forall>bs. op_list_buckets Q s = Inr bs \<longrightarrow> (\<forall>b \<in> set bs. holds_at Q (\<lambda>cfg. \<not> is_sole_grantee u cfg) s b)))"
  proof (cases force)
    case False
    then obtain bs where bs: "op_list_buckets Q s = Inr bs" "sole_loop Q H u bs s = (snd x, Inr [])" "fst x = st"
      using x by (auto simp: on_store_iff sole_grantee_buckets_def sbind_Inr_iff op_list_iff)
    then show ?thesis using sole_loop_spec [OF bs(2)] by (cases x) auto
  qed (use x in \<open>simp add: sret_def\<close>)
  show thesis
    using rest sole that
    by (auto simp: sbind_Inr_iff on_auth_iff on_store_iff scrub_user_grants_def scrub_deleted_user_acl_entries_def op_list_iff supd_def)
qed

text \<open>C8. When a deletion completes, the account is gone and every other account is as it was; no session of the user is
  left; no bucket has an access-list entry or a sealed key of the user. Without force, every bucket whose
  current key had a grantee still has one.\<close>

theorem deleted_user_leaves_nothing:
  assumes "config_laws Q" and "dm_inv (st_inner (as_sessions st))"
    and "delete_user Q H u force (st, s) = ((st', s'), Inr ())"
  shows "account (hv_codec H) st' = (account (hv_codec H) st)(u := None)
    \<and> (\<forall>h info. dm_get (st_inner (as_sessions st')) h = Some info \<longrightarrow> si_username info \<noteq> u)
    \<and> (\<exists>bs. op_list_buckets Q s = Inr bs \<and> (\<forall>b \<in> set bs. holds_at Q (\<lambda>cfg. grant_free u cfg \<and> acl_free u cfg) s' b
        \<and> (\<forall>cfg kv. \<not> force \<and> op_get_bucket_config Q s b = Inr cfg \<and> current_key cfg = Some kv \<and> kv_grants kv \<noteq> []
             \<and> dm_inv (kv_grants kv) \<longrightarrow> holds_at Q (other_grantee u) s' b)))"
proof -
  obtain bs bs' st1 s1 orphaned where d: "op_list_buckets Q s = Inr bs" "scrub_grants_loop Q H u bs s = (s1, Inr orphaned)"
    "op_list_buckets Q s1 = Inr bs'" "scrub_acl_loop Q H u bs' s1 = (s', Inr ())" "remove_account H u st = (st1, Inr ())"
    "st' = st1\<lparr>as_sessions := fst (revoke_user (as_sessions st1) u)\<rparr>"
    "force \<or> (\<forall>b \<in> set bs. holds_at Q (\<lambda>cfg. \<not> is_sole_grantee u cfg) s b)"
    using assms(3) by (rule delete_user_steps)
  have bs': "bs' = bs" using scrub_grants_list [OF assms(1) d(2)] d(1,3) by simp
  have acl: "grant_free u cfg \<Longrightarrow> grant_free u (cfg\<lparr>bc_acl := a\<rparr>)" "other_grantee u cfg \<Longrightarrow> other_grantee u (cfg\<lparr>bc_acl := a\<rparr>)" for cfg a
    by (simp_all add: drop_grants_other other_grantee_keeps)
  have clean: "holds_at Q (\<lambda>cfg. grant_free u cfg \<and> acl_free u cfg) s' b" if "b \<in> set bs" for b
    by (rule holds_at_conj [OF scrub_acl_keeps [where P = "grant_free u", OF assms(1) acl(1) d(4) scrub_grants_cleans [OF assms(1) d(2) that]]
        scrub_acl_cleans [OF assms(1) d(4)]]) (simp_all add: bs' that)
  have other: "holds_at Q (other_grantee u) s' b"
    if "b \<in> set bs" "\<not> force" "op_get_bucket_config Q s b = Inr cfg" "current_key cfg = Some kv" "kv_grants kv \<noteq> []" "dm_inv (kv_grants kv)"
    for b cfg kv
  proof -
    have "holds_at Q (other_grantee u) s b" using not_sole_other [OF _ that(4-6)] d(7) that(1-3) by (auto simp: holds_at_def)
    then have "holds_at Q (other_grantee u) s1 b" using scrub_grants_keeps [where P = "other_grantee u", OF assms(1) other_grantee_keeps(1) d(2)] by blast
    then show ?thesis using scrub_acl_keeps [where P = "other_grantee u", OF assms(1) acl(2) d(4)] by blast
  qed
  have gone: "si_username info \<noteq> u" if "dm_get (st_inner (as_sessions st')) h = Some info" for h info
    using that d(6) remove_account_spec [OF d(5)] assms(2)
    by (auto simp: revoke_user_def remove_rows_get split: option.splits if_splits)
  show ?thesis
    using remove_account_spec [OF d(5)] d(1,6) clean other gone by auto
qed

text \<open>The sessions are the last thing a deletion touches.\<close>

lemma on_users_frame: "on_users H m st = (st1, r) \<Longrightarrow> \<exists>db. st1 = st\<lparr>as_user_store := db\<rparr> \<and> fst (m (as_user_store st)) = db"
  by (auto simp: on_users_def split: prod.splits)

lemma us_list_frame: "us_list C db = (db', r) \<Longrightarrow> \<exists>fs. db' = db\<lparr>ud_faults := fs\<rparr>"
  by (auto simp: us_list_def sbind_def sget_def slift_def sret_def split: prod.splits sum.splits dest!: db_txn_cases)

lemma us_delete_frame:
  "us_delete u db = (db', r) \<Longrightarrow> (\<exists>fs. db' = db\<lparr>ud_faults := fs\<rparr>) \<or> (\<exists>fs. db' = db\<lparr>ud_faults := fs, ud_rows := dm_remove u (ud_rows db)\<rparr>)"
  by (auto simp: us_delete_def sbind_def sget_def supd_def sret_def split: prod.splits sum.splits dest!: db_txn_cases)

definition rows :: "auth_state \<Rightarrow> string \<rightharpoonup> bytes" where
  "rows st = dm_get (ud_rows (as_user_store st))"

lemma remove_account_frame:
  assumes "remove_account H u st = (st1, r)"
  shows "as_sessions st1 = as_sessions st \<and> (rows st1 = rows st \<or> rows st1 = (rows st)(u := None))"
proof -
  obtain sa ra where a: "on_users H (us_list (hv_codec H)) st = (sa, ra)" by (cases "on_users H (us_list (hv_codec H)) st")
  have fa: "as_sessions sa = as_sessions st" "rows sa = rows st"
    using on_users_frame [OF a] us_list_frame [of "hv_codec H" "as_user_store st"] by (auto simp: rows_def prod_eq_iff)
  obtain sb rb where b: "on_users H (us_delete u) sa = (sb, rb)" by (cases "on_users H (us_delete u) sa")
  have fb: "as_sessions sb = as_sessions sa" "rows sb = rows sa \<or> rows sb = (rows sa)(u := None)"
    using on_users_frame [OF b] us_delete_frame [of u "as_user_store sa"] by (auto simp: rows_def prod_eq_iff delete_conv')
  have "st1 = sa \<or> st1 = sb"
    using assms a b by (auto simp: remove_account_def sbind_def sfail_def sret_def split: sum.splits if_splits)
  then show ?thesis using fa fb by auto
qed

lemma remove_account_gone: "remove_account H u st = (st1, Inr ()) \<Longrightarrow> rows st1 u = None"
  by (fastforce simp: remove_account_def rows_def sbind_Inr_iff sfail_def sret_def on_users_def us_delete_def sget_def supd_def backend_def
      delete_conv' split: prod.splits if_splits)

lemma remove_account_absent:
  assumes "rows st u = None"
  shows "\<nexists>st1. remove_account H u st = (st1, Inr ())"
proof
  assume "\<exists>st1. remove_account H u st = (st1, Inr ())"
  then obtain st1 st2 xs where "on_users H (us_list (hv_codec H)) st = (st1, Inr xs)" "on_users H (us_delete u) st1 = (st2, Inr True)"
    by (auto simp: remove_account_def sbind_Inr_iff sfail_def sret_def split: if_splits)
  then show False
    using assms us_list_frame by (fastforce simp: rows_def on_users_def us_delete_def backend_def sbind_Inr_iff sget_def supd_def sret_def
        split: prod.splits dest!: db_txn_cases)
qed

lemma delete_user_Inl:
  assumes "delete_user Q H u force (st, s) = ((st', s'), Inl e)"
  shows "st' = st \<or> (\<exists>r. remove_account H u st = (st', r))"
  using assms
  by (auto simp: delete_user_def sbind_def on_auth_def on_store_def sret_def sfail_def supd_def split: prod.splits sum.splits if_splits)

text \<open>C33. The deletion of an account is not atomic. Wherever a deletion fails, forced or not, on whichever bucket and whether a read
  or a write fails, it has revoked no session: the session table is as before. The user's row is as before or gone, and
  once it is gone no repetition of the request, forced or not, over whatever state of the storage, completes, so none
  revokes the sessions either.\<close>

theorem failed_scrub_keeps_sessions:
  fixes s :: 'st
  assumes "delete_user Q H u force (st, s) = ((st', s'), Inl e)"
  shows "as_sessions st' = as_sessions st \<and> (rows st' = rows st \<or> rows st' = (rows st)(u := None))
    \<and> (rows st' u = None \<longrightarrow> (\<forall>Q2 H2 force2 s2 :: 'st. \<nexists>x. delete_user Q2 H2 u force2 (st', s2) = (x, Inr ())))"
proof -
  have "as_sessions st' = as_sessions st \<and> (rows st' = rows st \<or> rows st' = (rows st)(u := None))"
    using delete_user_Inl [OF assms] remove_account_frame by blast
  moreover have "delete_user Q2 H2 u force2 (st', s2) \<noteq> (x, Inr ())" if "rows st' u = None" for Q2 H2 force2 x and s2 :: 'st
  proof
    assume "delete_user Q2 H2 u force2 (st', s2) = (x, Inr ())"
    then obtain st1 where "remove_account H2 u st' = (st1, Inr ())" using delete_user_steps [of Q2 H2 u force2 st' s2 "fst x" "snd x"] by auto
    then show False using remove_account_absent [OF that] by blast
  qed
  ultimately show ?thesis by blast
qed

subsection \<open>A concrete deletion\<close>

definition fun_ops :: "(string \<Rightarrow> bucket_config) account_ops" where
  "fun_ops = \<lparr>op_bucket_exists = (\<lambda>st b. Inr True), op_get_bucket_config = (\<lambda>st b. Inr (st b)), op_create_bucket = (\<lambda>st b. (st, Inr False)),
     op_set_bucket_config = (\<lambda>st b cfg. (st(b := cfg), Inr ())), op_list_buckets = (\<lambda>_. Inr [''b''])\<rparr>"

lemma fun_ops_laws: "config_laws fun_ops"
  by (simp add: config_laws_def fun_ops_def)

lemma sample_remove: "\<exists>st1. remove_account sample_handler ''alice'' (sample_auth_state [sample_admin, sample_user]) = (st1, Inr ())"
proof -
  have n: "ur_username sample_admin = ''root''" "ur_username sample_user = ''alice''" "ur_role sample_user = User" "ur_role sample_admin = Admin"
    by (simp_all add: sample_admin_def sample_user_def)
  let ?db = "as_user_store (sample_auth_state [sample_admin, sample_user])"
  have l: "us_list flat_codec ?db = (?db, Inr [UserSummary_from sample_user, UserSummary_from sample_admin])"
    using flat_codec_law n
    by (simp add: us_list_def comp_defs sample_auth_state_def of_payload_def UserSummary_from_def less_char_def)
  then show ?thesis
    using n by (simp add: remove_account_def comp_defs on_users_def us_delete_def UserSummary_from_def backend_def)
      (simp add: sample_auth_state_def sret_def)
qed

lemma sample_delete:
  "\<exists>st' s'. delete_user fun_ops sample_handler ''alice'' False (sample_auth_state [sample_admin, sample_user], \<lambda>_. default_bucket_config)
     = ((st', s'), Inr ())"
proof -
  obtain st1 where "remove_account sample_handler ''alice'' (sample_auth_state [sample_admin, sample_user]) = (st1, Inr ())"
    using sample_remove by blast
  then show ?thesis
    by (simp add: delete_user_def comp_defs on_auth_def on_store_def sole_grantee_buckets_def scrub_user_grants_def Let_def
        scrub_deleted_user_acl_entries_def op_list_buckets_c_def op_config_c_def store_result_def fun_ops_def
        default_bucket_config_def is_sole_grantee_def current_key_def)
qed

theorem deleted_user_leaves_nothing_witness:
  "\<exists>st' s'. delete_user fun_ops sample_handler ''alice'' False (sample_auth_state [sample_admin, sample_user], \<lambda>_. default_bucket_config)
       = ((st', s'), Inr ())
     \<and> account flat_codec st' = (account flat_codec (sample_auth_state [sample_admin, sample_user]))(''alice'' := None)"
proof -
  obtain st' s' where d: "delete_user fun_ops sample_handler ''alice'' False (sample_auth_state [sample_admin, sample_user], \<lambda>_. default_bucket_config)
      = ((st', s'), Inr ())" using sample_delete by blast
  from deleted_user_leaves_nothing [OF fun_ops_laws sample_ready(2) d] d show ?thesis by auto
qed

theorem failed_scrub_keeps_sessions_witness:
  "\<exists>st1. delete_user (fun_ops\<lparr>op_get_bucket_config := \<lambda>s b. Inl (InvalidBucket ''disk'')\<rparr>) sample_handler ''alice'' True
       (sample_auth_state [sample_admin, sample_user], \<lambda>_. default_bucket_config)
     = ((st1, \<lambda>_. default_bucket_config), Inl (Backend ''error'')) \<and> rows st1 ''alice'' = None
     \<and> as_sessions st1 = as_sessions (sample_auth_state [sample_admin, sample_user])
     \<and> (\<nexists>x. delete_user fun_ops sample_handler ''alice'' True (st1, \<lambda>_. default_bucket_config) = (x, Inr ()))"
proof -
  obtain st1 where r: "remove_account sample_handler ''alice'' (sample_auth_state [sample_admin, sample_user]) = (st1, Inr ())"
    using sample_remove by blast
  have d: "hv_core_display sample_handler e = ''error''" for e by (simp add: sample_handler_def)
  have del: "delete_user (fun_ops\<lparr>op_get_bucket_config := \<lambda>s b. Inl (InvalidBucket ''disk'')\<rparr>) sample_handler ''alice'' True
       (sample_auth_state [sample_admin, sample_user], \<lambda>_. default_bucket_config) = ((st1, \<lambda>_. default_bucket_config), Inl (Backend ''error''))"
    using r d by (simp add: delete_user_def comp_defs on_auth_def on_store_def scrub_user_grants_def op_list_buckets_c_def store_result_def op_config_c_def fun_ops_def)
  moreover have "rows st1 ''alice'' = None" using remove_account_gone [OF r] .
  ultimately show ?thesis using failed_scrub_keeps_sessions [OF del] by blast
qed

end
