(* ===== verification/Cipher.thy ===== *)
theory Cipher
  imports Envelope
begin

text \<open>
  The encryption adapter of the daemon, \<open>crates/y2qd/src/cipher.rs\<close>: request bodies are sealed into envelopes on their way to
  the storage, whole objects are opened after a read, and a range of an object is streamed chunk by chunk.

  \<open>rd first final\<close> is the ranged read of the storage for the object at hand (both ends inclusive); its result
  \<open>None\<close>, and \<open>None\<close> here, is a panic. A body is the list of the slices it arrives in, each of which may be an
  error of the transport. The random bytes a session draws are arguments.
\<close>

definition cipher_error :: "string \<Rightarrow> string \<Rightarrow> crypto_error \<Rightarrow> error" where
  "cipher_error bucket key e =
     (case e of
        UnsupportedVersion v \<Rightarrow> UnsupportedEnvelopeVersion v
      | Envelope reason \<Rightarrow> EnvelopeMalformed bucket key reason
      | _ \<Rightarrow> DecryptionFailed bucket key)"

definition decrypt_after_get :: "crypto_prims \<Rightarrow> bytes \<Rightarrow> string \<Rightarrow> string \<Rightarrow> bytes \<Rightarrow> u64 \<Rightarrow> error + bytes" where
  "decrypt_after_get P deployment_sk bucket key bs expected_size =
     map_err (cipher_error bucket key) (decrypt_owned P deployment_sk bs bucket key expected_size)"

definition cipher_v3_chunks :: "crypto_prims \<Rightarrow> bytes \<Rightarrow> string \<Rightarrow> string \<Rightarrow> bytes \<Rightarrow> bytes \<Rightarrow> u64 \<Rightarrow> error + bytes" where
  "cipher_v3_chunks P bucket_sk bucket key preamble chunks_ct first_chunk_idx =
     map_err (cipher_error bucket key) (decrypt_v3_chunks P bucket_sk preamble chunks_ct (unat first_chunk_idx) bucket key)"

definition cipher_v4_chunks :: "crypto_prims \<Rightarrow> bytes \<Rightarrow> string \<Rightarrow> string \<Rightarrow> bytes \<Rightarrow> bytes \<Rightarrow> u64 \<Rightarrow> u64 \<Rightarrow> error + bytes" where
  "cipher_v4_chunks P bucket_sk bucket key preamble chunks_ct first_chunk_idx total_chunks =
     map_err (cipher_error bucket key)
       (decrypt_v4_chunks P bucket_sk preamble chunks_ct (unat first_chunk_idx) (unat total_chunks) bucket key)"

subsection \<open>Sealing a body\<close>

fun seal_body :: "crypto_prims \<Rightarrow> string \<Rightarrow> string \<Rightarrow> u64 option \<Rightarrow> encrypt_session \<Rightarrow> stream_checksum \<Rightarrow> u64 \<Rightarrow> (error + bytes) list
    \<Rightarrow> (error + encrypt_session \<times> stream_checksum \<times> u64) option" where
  "seal_body P bucket key max_bytes session hasher plaintext_size [] = Some (Inr (session, hasher, plaintext_size))"
| "seal_body P bucket key max_bytes session hasher plaintext_size (Inl e # stream) = Some (Inl e)"
| "seal_body P bucket key max_bytes session hasher plaintext_size (Inr chunk # stream) =
     (let hasher = StreamChecksum_update hasher chunk;
          plaintext_size = plaintext_size + of_nat (length chunk) in
      case Option.bind max_bytes (\<lambda>limit. if limit < plaintext_size then Some limit else None) of
        Some limit \<Rightarrow> Some (Inl (BodyTooLarge bucket key limit))
      | None \<Rightarrow>
          (case feed P session chunk of
             None \<Rightarrow> None
           | Some (Inl _) \<Rightarrow> Some (Inl (EncryptionFailed bucket key))
           | Some (Inr session) \<Rightarrow> seal_body P bucket key max_bytes session hasher plaintext_size stream))"

definition to_cipher_metadata :: "envelope_info \<Rightarrow> cipher_metadata" where
  "to_cipher_metadata info =
     \<lparr>cm_cipher_size = of_nat (ei_cipher_size info), cm_cipher_checksum_b64 = ei_cipher_checksum_b64 info,
      cm_kem_alg = ei_kem_alg info, cm_aead_alg = ei_aead_alg info, cm_envelope_version = ei_envelope_version info,
      cm_key_epoch = ei_key_epoch info\<rparr>"

text \<open>The end of both writers: \<open>finish\<close>, and the metrics of the plaintext and the envelope.\<close>

definition finish_put :: "crypto_prims \<Rightarrow> string \<Rightarrow> string \<Rightarrow> encrypt_session \<Rightarrow> stream_checksum \<Rightarrow> u64
    \<Rightarrow> (error + sink \<times> plaintext_metrics \<times> cipher_metadata) option" where
  "finish_put P bucket key session hasher plaintext_size =
     map_option (\<lambda>r. rbind (map_err (\<lambda>_. EncryptionFailed bucket key) r) (\<lambda>(sk, info).
       Inr (sk, \<lparr>pm_size = plaintext_size, pm_checksum_gxhash_b64 = finish_b64 P hasher\<rparr>, to_cipher_metadata info)))
       (finish_session P session)"

definition stream_encrypt_for_put :: "crypto_prims \<Rightarrow> bytes \<Rightarrow> bytes \<Rightarrow> bytes \<Rightarrow> u32 \<Rightarrow> (error + bytes) list \<Rightarrow> sink \<Rightarrow> string \<Rightarrow> string
    \<Rightarrow> nat \<Rightarrow> nat \<Rightarrow> u64 option \<Rightarrow> (error + sink \<times> plaintext_metrics \<times> cipher_metadata) option" where
  "stream_encrypt_for_put P rnd nb bucket_pk key_epoch stream sk bucket key write_offset chunk_size max_bytes =
     (case EncryptSession_new P rnd nb sk bucket_pk key_epoch bucket key write_offset chunk_size of
        Inl _ \<Rightarrow> Some (Inl (EncryptionFailed bucket key))
      | Inr session \<Rightarrow>
        Option.bind (seal_body P bucket key max_bytes session StreamChecksum_new 0 stream) (\<lambda>r.
        case r of Inl e \<Rightarrow> Some (Inl e)
        | Inr (session, hasher, plaintext_size) \<Rightarrow> finish_put P bucket key session hasher plaintext_size))"

definition encrypt_bytes_for_put :: "crypto_prims \<Rightarrow> bytes \<Rightarrow> bytes \<Rightarrow> bytes \<Rightarrow> u32 \<Rightarrow> bytes \<Rightarrow> sink \<Rightarrow> string \<Rightarrow> string
    \<Rightarrow> nat \<Rightarrow> nat \<Rightarrow> (error + sink \<times> plaintext_metrics \<times> cipher_metadata) option" where
  "encrypt_bytes_for_put P rnd nb bucket_pk key_epoch plaintext sk bucket key write_offset chunk_size =
     (case EncryptSession_new P rnd nb sk bucket_pk key_epoch bucket key write_offset chunk_size of
        Inl _ \<Rightarrow> Some (Inl (EncryptionFailed bucket key))
      | Inr session \<Rightarrow>
        Option.bind (feed P session plaintext) (\<lambda>r.
        case r of Inl _ \<Rightarrow> Some (Inl (EncryptionFailed bucket key))
        | Inr session \<Rightarrow> finish_put P bucket key session (StreamChecksum_update StreamChecksum_new plaintext)
            (of_nat (length plaintext))))"

subsection \<open>Streaming a range\<close>

definition CHUNK_TAG_LEN :: u64 where "CHUNK_TAG_LEN = 16"

record stream_geometry =
  sg_preamble :: bytes
  sg_chunk_size :: u64
  sg_v4_total_chunks :: "u64 option"

text \<open>\<open>u64::div_ceil\<close>.\<close>

definition div_ceil_u64 :: "u64 \<Rightarrow> u64 \<Rightarrow> u64" where
  "div_ceil_u64 a b = (if 0 < a mod b then a div b + 1 else a div b)"

text \<open>\<open>Bytes::slice(i..=j)\<close>, which panics out of range.\<close>

definition slice_inclusive :: "nat \<Rightarrow> nat \<Rightarrow> bytes \<Rightarrow> bytes option" where
  "slice_inclusive i j bs = (if i \<le> j + 1 \<and> j < length bs then Some (byte_range i (j + 1) bs) else None)"

definition stream_geometry_of :: "metadata \<Rightarrow> string \<Rightarrow> string \<Rightarrow> bytes \<Rightarrow> error + stream_geometry" where
  "stream_geometry_of md bucket key preamble =
     (case md_envelope_version md of
        Some v \<Rightarrow>
          if v = 3 then
            rbind (map_err (\<lambda>_. EnvelopeMalformed bucket key ''bad v3 header'') (parse_v3_geometry preamble)) (\<lambda>(_, chunk_size, _).
            Inr \<lparr>sg_preamble = preamble, sg_chunk_size = ucast chunk_size, sg_v4_total_chunks = None\<rparr>)
          else if v = 4 then
            rbind (map_err (\<lambda>_. EnvelopeMalformed bucket key ''bad v4 header'') (parse_v4_geometry preamble)) (\<lambda>(_, chunk_size, _).
            Inr \<lparr>sg_preamble = preamble, sg_chunk_size = ucast chunk_size,
                 sg_v4_total_chunks = Some (div_ceil_u64 (padme_len (md_size md)) (ucast chunk_size))\<rparr>)
          else Inl (UnsupportedEnvelopeVersion v)
      | None \<Rightarrow> Inl (UnsupportedEnvelopeVersion 0))"

definition stream_open :: "(u64 \<Rightarrow> u64 \<Rightarrow> ('s, error, bytes option) comp) \<Rightarrow> metadata \<Rightarrow> string \<Rightarrow> string
    \<Rightarrow> ('s, error, stream_geometry option) comp" where
  "stream_open rd md bucket key =
     sbind (rd 0 (of_nat v3_preamble_len - 1)) (\<lambda>r.
     case r of None \<Rightarrow> sret None
     | Some preamble \<Rightarrow> sbind (slift (stream_geometry_of md bucket key preamble)) (\<lambda>geometry. sret (Some geometry)))"

text \<open>One poll: the plaintext of the chunk \<open>cur\<close>, trimmed to the range.\<close>

definition stream_chunk :: "crypto_prims \<Rightarrow> (u64 \<Rightarrow> u64 \<Rightarrow> ('s, error, bytes option) comp) \<Rightarrow> metadata \<Rightarrow> bytes \<Rightarrow> string \<Rightarrow> string
    \<Rightarrow> u64 \<Rightarrow> u64 \<Rightarrow> stream_geometry \<Rightarrow> u64 \<Rightarrow> ('s, error, bytes option) comp" where
  "stream_chunk P rd md bucket_sk bucket key range_start range_end geometry cur =
     (let chunk_size = sg_chunk_size geometry;
          final = range_end div chunk_size;
          preamble_len = of_nat (length (sg_preamble geometry));
          stride = chunk_size + CHUNK_TAG_LEN;
          cipher_start = preamble_len + cur * stride;
          cipher_end_calc = preamble_len + (cur + 1) * stride - 1;
          cipher_end = (case md_cipher_size md of Some cs \<Rightarrow> min cipher_end_calc (cs - 1) | None \<Rightarrow> cipher_end_calc) in
      sbind (rd cipher_start cipher_end) (\<lambda>r.
      case r of None \<Rightarrow> sret None
      | Some window \<Rightarrow>
        if (of_nat (length window) :: u64) \<noteq> cipher_end - cipher_start + 1
        then sfail (EnvelopeMalformed bucket key ''on-disk object shorter than recorded metadata'') else
        sbind (slift (case sg_v4_total_chunks geometry of
            Some total_chunks \<Rightarrow> cipher_v4_chunks P bucket_sk bucket key (sg_preamble geometry) window cur total_chunks
          | None \<Rightarrow> cipher_v3_chunks P bucket_sk bucket key (sg_preamble geometry) window cur)) (\<lambda>chunk_pt.
        let chunk_pt_start_abs = cur * chunk_size;
            trim_front = unat (range_start - min range_start chunk_pt_start_abs);
            last_valid_idx = length chunk_pt - 1;
            trim_back_idx = (if cur = final then min (unat (range_end - chunk_pt_start_abs)) last_valid_idx else last_valid_idx) in
        sret (slice_inclusive trim_front trim_back_idx chunk_pt))))"

text \<open>The index of the chunk does not run past the largest \<open>u64\<close> without a panic.\<close>

lemma unat_next: "cur \<noteq> - 1 \<Longrightarrow> unat (cur + 1 :: u64) = unat cur + 1"
proof -
  assume "cur \<noteq> - 1"
  then have "1 + cur \<noteq> 0" by (metis add_eq_0_iff)
  then show ?thesis using unatSuc [of cur] by (simp add: add.commute)
qed

lemma next_smaller: "cur \<noteq> - 1 \<Longrightarrow> 2 ^ 64 - unat (cur + 1 :: u64) < 2 ^ 64 - unat cur"
  using unat_next [of cur] unsigned_less [of "cur + 1", where 'a = nat] unsigned_less [of cur, where 'a = nat] by simp

text \<open>How a stream ends: at its end, with an error, or with a panic.\<close>

datatype stream_end = Finished | Broken error | Panicked

function stream_chunks :: "crypto_prims \<Rightarrow> (u64 \<Rightarrow> u64 \<Rightarrow> ('s, error, bytes option) comp) \<Rightarrow> metadata \<Rightarrow> bytes \<Rightarrow> string \<Rightarrow> string
    \<Rightarrow> u64 \<Rightarrow> u64 \<Rightarrow> stream_geometry \<Rightarrow> u64 \<Rightarrow> 's \<Rightarrow> 's \<times> bytes list \<times> stream_end" where
  "stream_chunks P rd md bucket_sk bucket key range_start range_end geometry cur s =
     (if range_end div sg_chunk_size geometry < cur then (s, [], Finished) else
      case stream_chunk P rd md bucket_sk bucket key range_start range_end geometry cur s of
        (s, Inl e) \<Rightarrow> (s, [], Broken e)
      | (s, Inr None) \<Rightarrow> (s, [], Panicked)
      | (s, Inr (Some out)) \<Rightarrow>
        if cur = - 1 then (s, [out], Panicked) else
        (case stream_chunks P rd md bucket_sk bucket key range_start range_end geometry (cur + 1) s of
           (s, outs, e) \<Rightarrow> (s, out # outs, e)))"
  by pat_completeness auto
termination
  by (relation "measure (\<lambda>(P, rd, md, sk, b, k, i, j, g, cur, s). 2 ^ 64 - unat cur)")
    (use next_smaller in auto)

declare stream_chunks.simps [simp del]

definition plaintext_stream :: "crypto_prims \<Rightarrow> (u64 \<Rightarrow> u64 \<Rightarrow> ('s, error, bytes option) comp) \<Rightarrow> string \<Rightarrow> string \<Rightarrow> metadata \<Rightarrow> bytes
    \<Rightarrow> u64 \<Rightarrow> u64 \<Rightarrow> 's \<Rightarrow> 's \<times> bytes list \<times> stream_end" where
  "plaintext_stream P rd bucket key md bucket_sk range_start range_end s =
     (case stream_open rd md bucket key s of
        (s, Inl e) \<Rightarrow> (s, [], Broken e)
      | (s, Inr None) \<Rightarrow> (s, [], Panicked)
      | (s, Inr (Some geometry)) \<Rightarrow>
        stream_chunks P rd md bucket_sk bucket key range_start range_end geometry (range_start div sg_chunk_size geometry) s)"

end
