(* ===== verification/Cipher_Laws.thy ===== *)
theory Cipher_Laws
  imports Cipher Envelope_Laws Filesystem_Properties
begin

text \<open>
  The encryption adapter end to end: what a client uploads, in whatever slices, is what a ranged download streams back, and a
  body over the cap is refused.
\<close>

subsection \<open>Sealing a body\<close>

lemma checksum_update_append [simp]:
  "StreamChecksum_update (StreamChecksum_update h a) b = StreamChecksum_update h (a @ b)"
  by (simp add: StreamChecksum_update_def)

lemma checksum_update_Nil [simp]: "StreamChecksum_update h [] = h"
  by (simp add: StreamChecksum_update_def)

lemma unat_of_nat_u64: "n < 2 ^ 64 \<Longrightarrow> unat (of_nat n :: u64) = n"
  by (simp add: unat_of_nat)

lemma seal_body_within:
  "n + length (concat parts) < 2 ^ 64 \<Longrightarrow> (\<And>limit. max_bytes = Some limit \<Longrightarrow> n + length (concat parts) \<le> unat limit) \<Longrightarrow>
   feed_all P s parts = Some (Inr s') \<Longrightarrow>
   seal_body P bucket key max_bytes s h (of_nat n) (map Inr parts)
     = Some (Inr (s', StreamChecksum_update h (concat parts), of_nat (n + length (concat parts))))"
proof (induction parts arbitrary: s h n)
  case (Cons c cs)
  then obtain s1 where s1: "feed P s c = Some (Inr s1)" "feed_all P s1 cs = Some (Inr s')"
    by (auto split: option.splits sum.splits)
  have lim: "\<not> limit < of_nat (n + length c)" if "max_bytes = Some limit" for limit
    using Cons.prems(1) Cons.prems(2) [OF that] by (simp add: word_less_nat_alt unat_of_nat_u64 del: of_nat_add)
  have "seal_body P bucket key max_bytes s1 (StreamChecksum_update h c) (of_nat (n + length c)) (map Inr cs)
      = Some (Inr (s', StreamChecksum_update (StreamChecksum_update h c) (concat cs), of_nat (n + length c + length (concat cs))))"
    using Cons.prems s1 by (intro Cons.IH) auto
  with lim s1(1) show ?case by (cases max_bytes) (simp_all add: Let_def add.assoc)
qed simp

lemma seal_body_over:
  "n + length (concat parts) < 2 ^ 64 \<Longrightarrow> unat limit < n + length (concat parts) \<Longrightarrow> n \<le> unat limit \<Longrightarrow>
   feed_all P s parts = Some (Inr s') \<Longrightarrow>
   seal_body P bucket key (Some limit) s h (of_nat n) (map Inr parts) = Some (Inl (BodyTooLarge bucket key limit))"
proof (induction parts arbitrary: s h n)
  case (Cons c cs)
  then obtain s1 where s1: "feed P s c = Some (Inr s1)" "feed_all P s1 cs = Some (Inr s')"
    by (auto split: option.splits sum.splits)
  have un: "unat (of_nat (n + length c) :: u64) = n + length c" using Cons.prems(1) by (intro unat_of_nat_u64) simp
  show ?case
  proof (cases "unat limit < n + length c")
    case True
    then have "limit < of_nat (n + length c)" using un by (simp add: word_less_nat_alt del: of_nat_add)
    then show ?thesis by simp
  next
    case False
    then have "\<not> limit < of_nat (n + length c)" using un by (simp add: word_less_nat_alt del: of_nat_add)
    moreover have "seal_body P bucket key (Some limit) s1 (StreamChecksum_update h c) (of_nat (n + length c)) (map Inr cs)
        = Some (Inl (BodyTooLarge bucket key limit))"
      using Cons.prems s1 False by (intro Cons.IH) auto
    ultimately show ?thesis using s1(1) by simp
  qed
qed simp

lemma finish_version: "finish_session P s = Some (Inr (f, info)) \<Longrightarrow> ei_envelope_version info = FORMAT_VER_V4"
  by (auto simp: finish_session_def Let_def)

text \<open>An upload of a whole body, with its cap.\<close>

lemma upload_run:
  assumes laws: "aead_correct P" "kem_correct P" "hkdf_total P"
    and kp: "keypair P seed = (pk, sk)" and nb: "length nb = 12"
    and cs: "0 < cs" "cs < 2 ^ 32" and len: "length (concat parts) \<le> 2 ^ 63"
    and fl: "sk_faults f = []" "sk_pos f = length (sk_data f)"
  obtains f' pm cm kem_ct k chunks where
    "stream_encrypt_for_put P rnd nb pk ke (map Inr parts) f bucket key (length (sk_data f)) cs max_bytes
       = Some (case max_bytes of Some limit \<Rightarrow> if unat limit < length (concat parts) then Inl (BodyTooLarge bucket key limit) else Inr (f', pm, cm)
               | None \<Rightarrow> Inr (f', pm, cm))"
    and "sk_data f' = sk_data f @ envelope_of P k ke nb cs kem_ct (of_nat (length (concat chunks))) chunks"
    and "pm_size pm = of_nat (length (concat parts))" and "pm_checksum_gxhash_b64 pm = checksum_b64 P (concat parts)"
    and "cm_cipher_size cm = of_nat (length (sk_data f') - length (sk_data f))" and "cm_envelope_version cm = 4"
    and "chunked cs chunks" and "take (length (concat parts)) (concat chunks) = concat parts"
    and "length (concat chunks) = unat (padme_len (of_nat (length (concat parts))))" and "length (concat parts) \<le> length (concat chunks)"
    and "length kem_ct = CIPHERTEXT_BYTES" and "open_content_key P sk kem_ct bucket key = Inr k"
    and "cm_key_epoch cm = ke"
proof -
  obtain s s' f' info kem_ct k chunks where w: "EncryptSession_new P rnd nb f pk ke bucket key (length (sk_data f)) cs = Inr s"
    "feed_all P s parts = Some (Inr s')" "finish_session P s' = Some (Inr (f', info))"
    "chunked cs chunks" "take (length (concat parts)) (concat chunks) = concat parts"
    "length (concat chunks) = unat (padme_len (of_nat (length (concat parts))))" "length (concat parts) \<le> length (concat chunks)"
    "sk_data f' = sk_data f @ envelope_of P k ke nb cs kem_ct (of_nat (length (concat chunks))) chunks"
    "ei_cipher_size info = length (envelope_of P k ke nb cs kem_ct (of_nat (length (concat chunks))) chunks)"
    "length kem_ct = CIPHERTEXT_BYTES" "open_content_key P sk kem_ct bucket key = Inr k" "ei_key_epoch info = ke"
    using written_envelope [OF assms] .
  let ?pm = "\<lparr>pm_size = of_nat (length (concat parts)), pm_checksum_gxhash_b64 = finish_b64 P (StreamChecksum_update StreamChecksum_new (concat parts))\<rparr>"
  have small: "0 + length (concat parts) < 2 ^ 64" using len by simp
  have within: "stream_encrypt_for_put P rnd nb pk ke (map Inr parts) f bucket key (length (sk_data f)) cs max_bytes
      = Some (Inr (f', ?pm, to_cipher_metadata info))" if "\<And>limit. max_bytes = Some limit \<Longrightarrow> 0 + length (concat parts) \<le> unat limit"
    using seal_body_within [OF small that w(2), where bucket = bucket and key = key and h = StreamChecksum_new] w(1,3)
    by (simp add: stream_encrypt_for_put_def finish_put_def)
  have over: "stream_encrypt_for_put P rnd nb pk ke (map Inr parts) f bucket key (length (sk_data f)) cs (Some limit)
      = Some (Inl (BodyTooLarge bucket key limit))" if "unat limit < 0 + length (concat parts)" for limit
    using seal_body_over [OF small that _ w(2), where bucket = bucket and key = key and h = StreamChecksum_new] w(1)
    by (simp add: stream_encrypt_for_put_def)
  have "stream_encrypt_for_put P rnd nb pk ke (map Inr parts) f bucket key (length (sk_data f)) cs max_bytes
       = Some (case max_bytes of Some limit \<Rightarrow> if unat limit < length (concat parts) then Inl (BodyTooLarge bucket key limit) else Inr (f', ?pm, to_cipher_metadata info)
               | None \<Rightarrow> Inr (f', ?pm, to_cipher_metadata info))"
    using within over by (cases max_bytes) auto
  then show ?thesis
    by (rule that) (rule w | use w(8,9,12) finish_version [OF w(3)] in
      \<open>simp add: to_cipher_metadata_def FORMAT_VER_V4_def StreamChecksum_update_def StreamChecksum_new_def finish_b64_def checksum_b64_def\<close>)+
qed

text \<open>The cap on a body is exact and does not depend on a declared length: a body of at most the limit is sealed, and one that
  exceeds it, in whatever slices it arrives, is refused as too large.\<close>

lemma body_cap_exact:
  assumes "aead_correct P" "kem_correct P" "hkdf_total P" and "keypair P seed = (pk, sk)" and "length nb = 12"
    and "0 < cs" "cs < 2 ^ 32" and "length (concat parts) \<le> 2 ^ 63" and "sk_faults f = []" "sk_pos f = length (sk_data f)"
  shows "if unat limit < length (concat parts)
    then stream_encrypt_for_put P rnd nb pk ke (map Inr parts) f bucket key (length (sk_data f)) cs (Some limit)
      = Some (Inl (BodyTooLarge bucket key limit))
    else \<exists>f' pm cm. stream_encrypt_for_put P rnd nb pk ke (map Inr parts) f bucket key (length (sk_data f)) cs (Some limit)
        = Some (Inr (f', pm, cm)) \<and> pm_size pm = of_nat (length (concat parts))"
  by (rule upload_run [OF assms, where max_bytes = "Some limit" and rnd = rnd and ke = ke and bucket = bucket and key = key]) auto

subsection \<open>Chunks and windows\<close>

lemma byte_range_length: "length (byte_range i j xs) = min j (length xs) - i"
  by (auto simp: byte_range_def)

lemma byte_range_append: "length xs \<le> i \<Longrightarrow> byte_range i j (xs @ ys) = byte_range (i - length xs) (j - length xs) ys"
  by (simp add: byte_range_def)

lemma byte_range_cut: "length xs \<le> j \<Longrightarrow> byte_range i (min j (length xs)) xs = byte_range i j xs"
  by (simp add: byte_range_def min_def)

lemma byte_range_join: "a \<le> b \<Longrightarrow> b \<le> c \<Longrightarrow> byte_range a b xs @ byte_range b c xs = byte_range a c xs"
proof -
  assume "a \<le> b" "b \<le> c"
  then have e: "c - a = (b - a) + (c - b)" "drop (b - a) (drop a xs) = drop b xs" by simp_all
  show ?thesis unfolding byte_range_def e(1) take_add e(2) ..
qed

lemma byte_range_sub: "byte_range a b (byte_range i j xs) = byte_range (i + a) (min (i + b) j) xs"
proof -
  have "min (b - a) (j - i - a) = min (i + b) j - (i + a)" by (auto simp: min_def)
  then show ?thesis by (simp add: byte_range_def drop_take add.commute)
qed

lemma chunked_length: "chunked cs chunks \<Longrightarrow> 0 < cs \<Longrightarrow> length chunks = (length (concat chunks) + (cs - 1)) div cs"
proof (induction cs chunks rule: chunked.induct)
  case (2 cs c)
  then have "length c + (cs - 1) = cs + (length c - 1)" "length c - 1 < cs" by (cases c; auto)+
  then show ?case using 2 by (simp only: concat.simps append_Nil2 div_add_self1) simp
next
  case (3 cs c d r)
  then have "length (c # d # r) = Suc ((length (concat (d # r)) + (cs - 1)) div cs)" by simp
  also have "\<dots> = (cs + (length (concat (d # r)) + (cs - 1))) div cs" using 3(3) by (simp only: div_add_self1)
  finally show ?case using 3(2) by (simp add: add.assoc)
qed simp

lemma chunk_index:
  assumes "chunked cs chunks" and "i < length chunks" and "0 < cs"
  shows "byte_range (i * cs) (Suc i * cs) (concat chunks) = chunks ! i"
    and "Suc i < length chunks \<Longrightarrow> length (chunks ! i) = cs" and "length (chunks ! i) \<le> cs" and "chunks ! i \<noteq> []"
    and "i * cs + length (chunks ! i) \<le> length (concat chunks)"
proof -
  have d: "drop (i * cs) (concat chunks) = concat (drop i chunks)" using concat_drop [OF assms(1,2)] .
  have cd: "chunked cs (drop i chunks)" by (rule chunked_drop [OF assms(1)])
  obtain r where r: "drop i chunks = chunks ! i # r" using assms(2) by (metis Cons_nth_drop_Suc)
  show le: "length (chunks ! i) \<le> cs" using chunked_le [OF assms(1)] assms(2) by simp
  show full: "Suc i < length chunks \<Longrightarrow> length (chunks ! i) = cs" using cd r assms(2)
    by (cases r) (auto dest!: arg_cong [of "drop i chunks" _ length])
  show ne: "chunks ! i \<noteq> []" using cd r assms(3) by (cases r) auto
  have "r = [] \<or> length (chunks ! i) = cs" using cd r by (cases r) auto
  then show "byte_range (i * cs) (Suc i * cs) (concat chunks) = chunks ! i"
    using d r le by (auto simp: byte_range_def)
  have "length (concat (drop i chunks)) \<ge> length (chunks ! i)" using r by simp
  then show "i * cs + length (chunks ! i) \<le> length (concat chunks)"
    using arg_cong [OF d, of length] ne by (cases "chunks ! i") (simp_all del: length_concat)
qed

subsection \<open>A stream over an object the storage can read\<close>

text \<open>What the adapter relies on: a ranged read within the object returns exactly those bytes and changes nothing.\<close>

locale ranged_object =
  fixes rd :: "u64 \<Rightarrow> u64 \<Rightarrow> ('s, error, bytes option) comp" and quiet :: "'s \<Rightarrow> bool" and env :: bytes
  assumes rd_exact: "quiet s \<Longrightarrow> i \<le> j \<Longrightarrow> unat j < length env \<Longrightarrow> rd i j s = (s, Inr (Some (byte_range (unat i) (unat j + 1) env)))"
    and env_small: "quiet s \<Longrightarrow> length env < 2 ^ 63"

text \<open>\<open>sealed_as P sk bucket key md cs env chunks\<close>: the object is an envelope of the chunks, which \<open>sk\<close> opens, and its metadata says
  so.\<close>

definition sealed_as :: "crypto_prims \<Rightarrow> bytes \<Rightarrow> string \<Rightarrow> string \<Rightarrow> metadata \<Rightarrow> nat \<Rightarrow> bytes \<Rightarrow> bytes list \<Rightarrow> bool" where
  "sealed_as P sk bucket key md cs env chunks \<longleftrightarrow> 0 < cs \<and> cs < 2 ^ 32 \<and> aead_correct P \<and> chunked cs chunks
     \<and> md_envelope_version md = Some 4 \<and> md_cipher_size md = Some (of_nat (length env))
     \<and> length (concat chunks) = unat (padme_len (md_size md)) \<and> unat (md_size md) \<le> length (concat chunks)
     \<and> (\<exists>k ke nb kem_ct len. length nb = 12 \<and> length kem_ct = CIPHERTEXT_BYTES \<and> open_content_key P sk kem_ct bucket key = Inr k
         \<and> env = envelope_of P k ke nb cs kem_ct len chunks)"

text \<open>The ciphertext window of a chunk.\<close>

lemma chunk_window:
  fixes k nb base :: bytes
  assumes aead: "aead_correct P" and cs: "0 < cs" "cs < 2 ^ 32" and chunks: "chunked cs chunks" "i < length chunks"
    and pre: "length pre = pl"
  defines "body \<equiv> body_of (sealed_pairs P k nb base 0 chunks)"
  defines "ce \<equiv> min (pl + Suc i * (cs + TAG_LEN) - 1) (length (pre @ body) - 1)"
  shows "pl + i * (cs + TAG_LEN) \<le> ce" and "ce < length (pre @ body)"
    and "byte_range (pl + i * (cs + TAG_LEN)) (ce + 1) (pre @ body) = byte_range (i * (cs + TAG_LEN)) (Suc i * (cs + TAG_LEN)) body"
    and "length (byte_range (i * (cs + TAG_LEN)) (Suc i * (cs + TAG_LEN)) body) = ce - (pl + i * (cs + TAG_LEN)) + 1"
proof -
  let ?st = "cs + TAG_LEN"
  have "drop (i * ?st) body = body_of (sealed_pairs P k nb base (0 + i) (drop i chunks))"
    unfolding body_def by (rule sealed_drop [OF aead cs(2) chunks])
  moreover have "0 < length (body_of (sealed_pairs P k nb base (0 + i) (drop i chunks)))"
    using chunks(2) order.strict_trans1 [OF chunked_le [OF chunks(1)] cs(2)]
    by (intro body_sealed_nonempty [OF aead] ballI) (auto dest: in_set_dropD)
  ultimately have "0 < length (drop (i * ?st) body)" by simp
  then have lt: "i * ?st < length body" by simp
  show "pl + i * ?st \<le> ce" "ce < length (pre @ body)"
    using lt cs(1) pre by (auto simp: ce_def)
  have ce1: "ce + 1 = min (pl + Suc i * ?st) (pl + length body)" using lt cs(1) pre by (auto simp: ce_def min_def)
  have "byte_range (pl + i * ?st) (ce + 1) (pre @ body) = byte_range (i * ?st) (min (Suc i * ?st) (length body)) body"
    unfolding ce1 using pre by (subst byte_range_append) (auto simp: min_def)
  also have "\<dots> = byte_range (i * ?st) (Suc i * ?st) body" by (auto simp: byte_range_def min_def)
  finally show "byte_range (pl + i * ?st) (ce + 1) (pre @ body) = byte_range (i * ?st) (Suc i * ?st) body" .
  show "length (byte_range (i * ?st) (Suc i * ?st) body) = ce - (pl + i * ?st) + 1"
    using ce1 lt cs(1) by (simp add: byte_range_length)
qed

context ranged_object
begin

lemma rd_nat:
  assumes "quiet s" and "i \<le> j" and "j < length env"
  shows "rd (of_nat i) (of_nat j) s = (s, Inr (Some (byte_range i (j + 1) env)))"
proof -
  have u: "unat (of_nat i :: u64) = i" "unat (of_nat j :: u64) = j" using assms(2,3) env_small [OF assms(1)] by (simp_all add: unat_of_nat)
  then have "(of_nat i :: u64) \<le> of_nat j" using assms(2) by (simp add: word_le_nat_alt)
  from rd_exact [OF assms(1) this] show ?thesis using assms(3) u by simp
qed

end

lemma min_of_nat_u64: "a < 2 ^ 64 \<Longrightarrow> b < 2 ^ 64 \<Longrightarrow> min (of_nat a :: u64) (of_nat b) = of_nat (min a b)"
  by (auto simp: min_def word_le_nat_alt unat_of_nat)

lemma diff_of_nat_u64: "b \<le> a \<Longrightarrow> (of_nat a :: u64) - of_nat b = of_nat (a - b)"
  by (simp add: of_nat_diff)

lemma div_of_nat_u64: "a < 2 ^ 64 \<Longrightarrow> b < 2 ^ 64 \<Longrightarrow> (of_nat a :: u64) div of_nat b = of_nat (a div b)"
  by (simp add: word_arith_nat_div unat_of_nat)

lemma div_ceil_of_nat:
  assumes "0 < cs" and "cs < 2 ^ 32" and "n < 2 ^ 64"
  shows "div_ceil_u64 (of_nat n) (of_nat cs) = of_nat ((n + (cs - 1)) div cs)"
proof -
  have d: "(of_nat n :: u64) div of_nat cs = of_nat (n div cs)" using assms by (intro div_of_nat_u64) auto
  have m: "unat ((of_nat n :: u64) mod of_nat cs) = n mod cs" using assms by (simp add: unat_mod unat_of_nat)
  have "(0 < (of_nat n :: u64) mod of_nat cs) \<longleftrightarrow> 0 < n mod cs" by (simp add: m [symmetric] word_less_nat_alt)
  moreover have "(n + (cs - 1)) div cs = (if 0 < n mod cs then n div cs + 1 else n div cs)"
  proof (cases "n mod cs")
    case 0
    then have "n + (cs - 1) = n div cs * cs + (cs - 1)" using mult_div_mod_eq [of cs n] by (simp add: mult.commute)
    then have "(n + (cs - 1)) div cs = n div cs" using assms(1) by (simp only: div_mult_self3) simp
    then show ?thesis using 0 by simp
  next
    case (Suc m)
    have "n + (cs - 1) = (n div cs + 1) * cs + m" using Suc assms(1) mult_div_mod_eq [of cs n] by (simp add: algebra_simps)
    moreover have "m < cs" using Suc mod_less_divisor [OF assms(1), of n] by simp
    ultimately have "(n + (cs - 1)) div cs = n div cs + 1 + m div cs" using assms(1) by (simp only: div_mult_self3)
    then show ?thesis using Suc \<open>m < cs\<close> by simp
  qed
  ultimately show ?thesis using d by (simp add: div_ceil_u64_def)
qed

text \<open>Trimming a chunk to the range.\<close>

lemma trim_chunk:
  assumes cs: "0 < cs" and chunks: "chunked cs chunks" "i < length chunks"
    and r: "st \<le> en" "en < length (concat chunks)" "st < Suc i * cs" "i \<le> en div cs"
  defines "c \<equiv> chunks ! i"
  shows "slice_inclusive (st - min st (i * cs)) (if i = en div cs then min (en - i * cs) (length c - 1) else length c - 1) c
    = Some (byte_range (max st (i * cs)) (min (en + 1) (Suc i * cs)) (concat chunks))"
proof -
  note x = chunk_index [OF chunks cs, folded c_def]
  let ?tf = "st - min st (i * cs)" and ?tb = "if i = en div cs then min (en - i * cs) (length c - 1) else length c - 1"
  have len: "length c = min (Suc i * cs) (length (concat chunks)) - i * cs"
    using arg_cong [OF x(1), of length] by (simp only: byte_range_length)
  have ien: "i * cs \<le> en" using r(4) cs by (metis div_times_less_eq_dividend mult_le_mono1 order.trans)
  have en: "en < Suc i * cs" if "i = en div cs" using that cs by (metis dividend_less_div_times mult_Suc)
  have en': "Suc i * cs \<le> en" if "i \<noteq> en div cs"
    using that r(4) cs by (metis Suc_leI div_times_less_eq_dividend le_neq_implies_less mult_le_mono1 order.trans)
  have tb: "i * cs + (?tb + 1) = min (en + 1) (Suc i * cs)"
  proof (cases "i = en div cs")
    case True
    then have "en - i * cs \<le> length c - 1" using len ien en [OF True] r(2) by linarith
    then show ?thesis using True ien en [OF True] by (simp add: min_def)
  next
    case False
    then have "length c = cs" using len en' [OF False] r(2) by simp
    then show ?thesis using False en' [OF False] cs by (simp add: min_def)
  qed
  have lt: "?tb < length c" using x(4) by (cases c) auto
  have tf: "i * cs + ?tf = max st (i * cs)" by (auto simp: max_def min_def)
  have "?tf \<le> ?tb + 1" using tf tb ien r(1,3) by linarith
  then have "slice_inclusive ?tf ?tb c = Some (byte_range ?tf (?tb + 1) c)" using lt by (simp add: slice_inclusive_def)
  also have "byte_range ?tf (?tb + 1) c = byte_range (i * cs + ?tf) (min (i * cs + (?tb + 1)) (Suc i * cs)) (concat chunks)"
    unfolding x(1) [symmetric] by (rule byte_range_sub)
  finally show ?thesis unfolding tf tb by (simp add: min_def)
qed

context ranged_object
begin

lemma stream_open_run:
  assumes "sealed_as P sk bucket key md cs env chunks" and "quiet s"
  shows "stream_open rd md bucket key s = (s, Inr (Some \<lparr>sg_preamble = take v3_preamble_len env, sg_chunk_size = of_nat cs,
    sg_v4_total_chunks = Some (of_nat (length chunks))\<rparr>))"
proof -
  obtain k ke nb kem_ct len where e: "length nb = 12" "length kem_ct = CIPHERTEXT_BYTES" "env = envelope_of P k ke nb cs kem_ct len chunks"
    and S: "0 < cs" "cs < 2 ^ 32" "chunked cs chunks" "md_envelope_version md = Some 4" "length (concat chunks) = unat (padme_len (md_size md))"
    using assms(1) by (auto simp: sealed_as_def)
  have pl: "length (envelope_header ke nb len cs @ kem_ct) = v3_preamble_len" using preamble_length [OF e(1,2)] .
  then have tk: "take v3_preamble_len env = envelope_header ke nb len cs @ kem_ct" and le: "v3_preamble_len \<le> length env"
    by (simp_all add: e(3) envelope_of_def)
  have p0: "0 < v3_preamble_len" by (simp add: v3_preamble_len_def HEADER_FIXED_LEN_def)
  have "rd 0 (of_nat v3_preamble_len - 1) s = (s, Inr (Some (take v3_preamble_len env)))"
    using rd_nat [OF assms(2), of 0 "v3_preamble_len - 1"] le p0 by (simp add: byte_range_def of_nat_diff)
  moreover have un: "unat (of_nat cs :: u32) = cs" using S by (simp add: unat_of_nat)
  then have nz: "(of_nat cs :: u32) \<noteq> 0" using S(1) by (metis not_less_zero unsigned_0)
  then have "parse_v4_geometry (take v3_preamble_len env) = Inr (ke, of_nat cs, len)"
    unfolding tk parse_v4_geometry_def parse_geometry_def header_fields [OF e(1), of ke len cs kem_ct]
    using pl by (simp add: HEADER_FIXED_LEN_def v3_preamble_len_def)
  moreover have "(ucast (of_nat cs :: u32) :: u64) = of_nat cs" using S(2) by (simp add: word_unat_eq_iff unat_ucast_u64 un unat_of_nat)
  moreover have "div_ceil_u64 (padme_len (md_size md)) (of_nat cs) = of_nat (length chunks)"
  proof -
    have "length (concat chunks) < 2 ^ 64" using S(5) unsigned_less [of "padme_len (md_size md)", where 'a = nat] by simp
    from div_ceil_of_nat [OF S(1,2) this] have "div_ceil_u64 (of_nat (length (concat chunks))) (of_nat cs) = of_nat (length chunks)"
      by (simp only: chunked_length [OF S(3,1), symmetric])
    then show ?thesis by (simp add: S(5))
  qed
  ultimately show ?thesis
    using S(4) by (simp add: stream_open_def stream_geometry_of_def comp_defs)
qed

lemma stream_chunk_run:
  assumes S: "sealed_as P sk bucket key md cs env chunks" and q: "quiet s" and i: "i < length chunks"
    and r: "st \<le> en" "en < unat (md_size md)" "st < Suc i * cs" "i \<le> en div cs"
  shows "stream_chunk P rd md sk bucket key (of_nat st) (of_nat en) \<lparr>sg_preamble = take v3_preamble_len env, sg_chunk_size = of_nat cs,
      sg_v4_total_chunks = Some (of_nat (length chunks))\<rparr> (of_nat i) s
    = (s, Inr (Some (byte_range (max st (i * cs)) (min (en + 1) (Suc i * cs)) (concat chunks))))"
proof -
  obtain k ke nb kem_ct len where e: "length nb = 12" "length kem_ct = CIPHERTEXT_BYTES" "open_content_key P sk kem_ct bucket key = Inr k"
      "env = envelope_of P k ke nb cs kem_ct len chunks"
    and S': "0 < cs" "cs < 2 ^ 32" "aead_correct P" "chunked cs chunks" "md_cipher_size md = Some (of_nat (length env))"
      "unat (md_size md) \<le> length (concat chunks)"
    using S by (auto simp: sealed_as_def)
  let ?t = "cs + TAG_LEN" and ?pre = "envelope_header ke nb len cs @ kem_ct"
  define body where "body = body_of (sealed_pairs P k nb (hdr_front ke nb @ to_be_u32 (of_nat cs)) 0 chunks)"
  define pl where "pl = length ?pre"
  have env: "env = ?pre @ body" by (simp add: e(4) envelope_of_def body_def)
  have pre: "take v3_preamble_len env = ?pre" using preamble_length [OF e(1,2), of ke len cs] by (simp add: env)
  define ce where "ce = min (pl + Suc i * ?t - 1) (length env - 1)"
  note w = chunk_window [OF S'(3) S'(1,2) S'(4) i, of ?pre pl k nb "hdr_front ke nb @ to_be_u32 (of_nat cs)", folded body_def env ce_def, OF pl_def [symmetric]]
  have N: "length (concat chunks) < 2 ^ 64"
    using S unsigned_less [of "padme_len (md_size md)", where 'a = nat] by (simp add: sealed_as_def)
  have en: "en < length (concat chunks)" using r(2) S'(6) by simp
  have ics: "i * cs \<le> en" using r(4) by (metis div_times_less_eq_dividend mult_le_mono1 order.trans)
  have lc: "length chunks \<le> length (concat chunks)"
  proof -
    let ?l = "length chunks - 1"
    have "0 < length (chunks ! ?l)" "?l * cs + length (chunks ! ?l) \<le> length (concat chunks)" "?l * 1 \<le> ?l * cs"
      using chunk_index(4,5) [OF S'(4) _ S'(1), of ?l] i S'(1) by (auto intro!: mult_le_mono2)
    then show ?thesis using i by linarith
  qed
  have u: "unat (of_nat i :: u64) = i" "unat (of_nat (length chunks) :: u64) = length chunks" using lc i N by (simp_all add: unat_of_nat)
  have start: "of_nat pl + of_nat i * (of_nat cs + CHUNK_TAG_LEN) = (of_nat (pl + i * ?t) :: u64)"
    by (simp add: CHUNK_TAG_LEN_def TAG_LEN_def)
  have calc: "of_nat pl + (of_nat i + 1) * (of_nat cs + CHUNK_TAG_LEN) - 1 = (of_nat (pl + Suc i * ?t - 1) :: u64)"
    by (simp add: CHUNK_TAG_LEN_def TAG_LEN_def of_nat_diff algebra_simps)
  have cend: "min (of_nat (pl + Suc i * ?t - 1)) (of_nat (length env) - 1) = (of_nat ce :: u64)"
  proof -
    have "0 < length env" using w(2) by (rule order.strict_trans1 [OF le0])
    then have "(of_nat (length env) - 1 :: u64) = of_nat (length env - 1)" using diff_of_nat_u64 [of 1 "length env"] by (simp add: Suc_le_eq)
    moreover have "pl + Suc i * ?t - 1 < 2 ^ 64" using w(1,2) env_small [OF q] S'(2) by (simp add: TAG_LEN_def)
    moreover have "length env - 1 < 2 ^ 64" using env_small [OF q] by simp
    ultimately show ?thesis by (simp only: ce_def min_of_nat_u64)
  qed
  let ?win = "byte_range (i * ?t) (Suc i * ?t) body"
  have read: "rd (of_nat (pl + i * ?t)) (of_nat ce) s = (s, Inr (Some ?win))" using rd_nat [OF q w(1,2)] w(3) by simp
  have wl: "(of_nat (length ?win) :: u64) = of_nat ce - of_nat (pl + i * ?t) + 1"
    unfolding w(4) diff_of_nat_u64 [OF w(1)] by simp
  have dec: "cipher_v4_chunks P sk bucket key ?pre ?win (of_nat i) (of_nat (length chunks)) = Inr (chunks ! i)"
    using ranged_read [OF S'(3) e(1,2) S'(1,2) e(3) S'(4) lessI, of i body ke len] i chunk_index(1) [OF S'(4) i S'(1)]
    by (simp add: cipher_v4_chunks_def u body_def)
  have en64: "en < 2 ^ 64" "st < 2 ^ 64" "i * cs < 2 ^ 64" "cs < 2 ^ 64" using en N r(1) ics S'(2) by simp_all
  have fin: "(of_nat i = (of_nat en :: u64) div of_nat cs) \<longleftrightarrow> i = en div cs"
    using div_of_nat_u64 [OF en64(1,4)] u(1) unat_of_nat_u64 [of "en div cs"] en64(1) by (metis div_le_dividend order.strict_trans1)
  have front: "unat ((of_nat st :: u64) - min (of_nat st) (of_nat i * of_nat cs)) = st - min st (i * cs)"
    unfolding of_nat_mult [symmetric] min_of_nat_u64 [OF en64(2,3)] diff_of_nat_u64 [OF min.cobounded1]
    by (rule unat_of_nat_u64) (use en64(2) in simp)
  have rear: "unat ((of_nat en :: u64) - of_nat i * of_nat cs) = en - i * cs"
    unfolding of_nat_mult [symmetric] diff_of_nat_u64 [OF ics] by (rule unat_of_nat_u64) (use en64(1) in simp)
  show ?thesis
    unfolding stream_chunk_def stream_geometry.simps Let_def pre pl_def [symmetric] start calc S'(5) option.case cend front rear fin
    using read wl dec trim_chunk [OF S'(1,4) i r(1) en r(3,4)]
    by (simp add: comp_defs split del: if_split)
qed

text \<open>The loop over the chunks of the range.\<close>

lemma stream_chunks_run:
  assumes S: "sealed_as P sk bucket key md cs env chunks" and q: "quiet s" and r: "st \<le> en" "en < unat (md_size md)"
  shows "st < Suc i * cs \<Longrightarrow> i \<le> en div cs + 1 \<Longrightarrow> \<exists>outs. stream_chunks P rd md sk bucket key (of_nat st) (of_nat en)
      \<lparr>sg_preamble = take v3_preamble_len env, sg_chunk_size = of_nat cs, sg_v4_total_chunks = Some (of_nat (length chunks))\<rparr> (of_nat i) s
    = (s, outs, Finished) \<and> concat outs = byte_range (max st (i * cs)) (en + 1) (concat chunks)
      \<and> (\<forall>out \<in> set outs. length out \<le> cs)"
proof (induction "en div cs + 1 - i" arbitrary: i)
  let ?G = "\<lparr>sg_preamble = take v3_preamble_len env, sg_chunk_size = of_nat cs, sg_v4_total_chunks = Some (of_nat (length chunks))\<rparr>"
  have S': "0 < cs" "cs < 2 ^ 32" "chunked cs chunks" "unat (md_size md) \<le> length (concat chunks)" using S by (auto simp: sealed_as_def)
  have en: "en < 2 ^ 64 - 1" "en < length (concat chunks)"
    using r(2) S'(4) unsigned_less [of "md_size md", where 'a = nat] by simp_all
  have d: "(of_nat en :: u64) div of_nat cs = of_nat (en div cs)" using en S'(2) by (intro div_of_nat_u64) auto
  have less: "(of_nat en :: u64) div of_nat cs < of_nat j \<longleftrightarrow> en div cs < j" if "j \<le> en div cs + 1" for j
  proof -
    have "en div cs + 1 < 2 ^ 64" using en(1) div_le_dividend [of en cs] by linarith
    then show ?thesis using that by (simp add: d word_less_nat_alt unat_of_nat_u64)
  qed
  {
    case 0
    then have i: "i = en div cs + 1" by simp
    have "en < i * cs" unfolding i using S'(1) by (metis Suc_eq_plus1 dividend_less_div_times mult_Suc)
    moreover have "stream_chunks P rd md sk bucket key (of_nat st) (of_nat en) ?G (of_nat i) s = (s, [], Finished)"
      using less [of i] i by (subst stream_chunks.simps) simp
    ultimately show ?case by (auto simp: byte_range_def)
  next
    case (Suc n)
    then have i: "i \<le> en div cs" by simp
    have ics: "i * cs \<le> en" using i by (metis div_times_less_eq_dividend mult_le_mono1 order.trans)
    have iN: "i < length chunks"
    proof -
      have "Suc i * cs \<le> length (concat chunks) + (cs - 1)" using ics en(2) S'(1) by simp
      then have "Suc i \<le> (length (concat chunks) + (cs - 1)) div cs" using S'(1) by (simp only: less_eq_div_iff_mult_less_eq)
      then show ?thesis unfolding chunked_length [OF S'(3,1)] by simp
    qed
    have cur: "(of_nat i :: u64) \<noteq> - 1"
    proof
      assume "(of_nat i :: u64) = - 1"
      then have "unat (of_nat i :: u64) = 2 ^ 64 - 1" by (simp add: unsigned_minus_1_eq_mask mask_eq_exp_minus_1)
      moreover have "i < 2 ^ 64 - 1" using i en(1) div_le_dividend [of en cs] by linarith
      ultimately show False by (simp add: unat_of_nat)
    qed
    obtain outs where outs: "stream_chunks P rd md sk bucket key (of_nat st) (of_nat en) ?G (of_nat (Suc i)) s = (s, outs, Finished)"
      "concat outs = byte_range (max st (Suc i * cs)) (en + 1) (concat chunks)" "\<forall>out \<in> set outs. length out \<le> cs"
      using Suc.hyps(1) [of "Suc i"] Suc.hyps(2) Suc.prems(1) i by force
    let ?out = "byte_range (max st (i * cs)) (min (en + 1) (Suc i * cs)) (concat chunks)"
    have "stream_chunks P rd md sk bucket key (of_nat st) (of_nat en) ?G (of_nat i) s = (s, ?out # outs, Finished)"
      using less [of i] i stream_chunk_run [OF S q iN r Suc.prems(1) i] outs(1) cur by (subst stream_chunks.simps) (simp add: add.commute)
    moreover have "?out @ byte_range (max st (Suc i * cs)) (en + 1) (concat chunks) = byte_range (max st (i * cs)) (en + 1) (concat chunks)"
    proof (cases "Suc i * cs \<le> en + 1")
      case True
      then have m: "min (en + 1) (Suc i * cs) = Suc i * cs" "max st (Suc i * cs) = Suc i * cs" "max st (i * cs) \<le> Suc i * cs"
        using Suc.prems(1) by simp_all
      show ?thesis unfolding m(1,2) by (rule byte_range_join [OF m(3) True])
    next
      case False
      then show ?thesis using Suc.prems(1) by (simp add: byte_range_def min_def max_def)
    qed
    moreover have "length ?out \<le> cs" by (simp add: byte_range_length)
    ultimately show ?case using outs(2,3) by auto
  }
qed

lemma plaintext_stream_run:
  assumes S: "sealed_as P sk bucket key md cs env chunks" and q: "quiet s" and r: "range_start \<le> range_end" "range_end < md_size md"
  shows "\<exists>outs. plaintext_stream P rd bucket key md sk range_start range_end s = (s, outs, Finished)
    \<and> concat outs = byte_range (unat range_start) (unat range_end + 1) (concat chunks) \<and> (\<forall>out \<in> set outs. length out \<le> cs)"
proof -
  define st en where "st = unat range_start" and "en = unat range_end"
  have w: "of_nat st = range_start" "of_nat en = range_end" by (simp_all add: st_def en_def)
  have r': "st \<le> en" "en < unat (md_size md)" using r by (simp_all add: st_def en_def word_le_nat_alt word_less_nat_alt)
  have cs: "0 < cs" "cs < 2 ^ 32" using S by (auto simp: sealed_as_def)
  have st64: "st < 2 ^ 64" using unsigned_less [of range_start, where 'a = nat] by (simp add: st_def)
  have first: "range_start div of_nat cs = of_nat (st div cs)" unfolding w(1) [symmetric] using st64 cs(2) by (intro div_of_nat_u64) auto
  have "st < Suc (st div cs) * cs" using cs(1) by (metis dividend_less_div_times mult_Suc)
  moreover have "st div cs \<le> en div cs + 1" using div_le_mono [OF r'(1), of cs] by simp
  moreover have "max st (st div cs * cs) = st" by (simp add: max_absorb1)
  ultimately show ?thesis
    using stream_chunks_run [OF S q r', of "st div cs"] stream_open_run [OF S q]
    by (simp add: plaintext_stream_def first w st_def en_def)
qed

end

text \<open>The filesystem backend is such a storage: without failures its ranged reads are exact.\<close>

interpretation fs_object: ranged_object "get_range E b k" "\<lambda>s. ft_faults s = [] \<and> get E b k s = (s, Inr env) \<and> length env < 2 ^ 63" env
  for E b k env
  by unfold_locales (auto simp: get_range_slice byte_range_def word_le_nat_alt Suc_diff_le)

subsection \<open>From upload to download\<close>

lemma sealed_body_length:
  "aead_correct P \<Longrightarrow> cs < 2 ^ 32 \<Longrightarrow> chunked cs chunks
     \<Longrightarrow> length (body_of (sealed_pairs P k nb base idx chunks)) = length (concat chunks) + length chunks * TAG_LEN"
proof (induction P k nb base idx chunks rule: sealed_pairs.induct)
  case (3 P k nb base idx c d r)
  then show ?case using seal_chunk_opens(2) [of P c k nb base idx False] by (cases r) auto
qed (auto simp: seal_chunk_opens(2))

lemma envelope_length:
  assumes "aead_correct P" and "length nb = 12" and "length kem_ct = CIPHERTEXT_BYTES" and "cs < 2 ^ 32" and "chunked cs chunks"
  shows "length (envelope_of P k ke nb cs kem_ct len chunks) = v3_preamble_len + length (concat chunks) + length chunks * TAG_LEN"
  using sealed_body_length [OF assms(1,4,5)] preamble_length [OF assms(2,3), of ke len cs] by (simp add: envelope_of_def)

text \<open>C15. What a client uploads is what it can stream back. A body uploaded in any slices is sealed into an envelope; for a storage that
  holds the envelope, and metadata with the figures the upload reported, the stream of any range of the object ends without an
  error, is exactly that range of the body, and never holds more than one chunk at a time. The envelope is exactly as long as the
  preamble, the padded body and one tag for each chunk, of which there are as many as the padded body fills, the last one
  perhaps in part.\<close>

theorem upload_streams_back:
  assumes laws: "aead_correct P" "kem_correct P" "hkdf_total P"
    and kp: "keypair P seed = (pk, sk)" and nb: "length nb = 12"
    and cs: "0 < cs" "cs < 2 ^ 32" and len: "length (concat parts) \<le> 2 ^ 63"
    and fl: "sk_faults f = []" "sk_pos f = length (sk_data f)"
  shows "\<exists>f' pm cm env. stream_encrypt_for_put P rnd nb pk ke (map Inr parts) f b k (length (sk_data f)) cs None = Some (Inr (f', pm, cm))
    \<and> sk_data f' = sk_data f @ env \<and> pm_size pm = of_nat (length (concat parts))
    \<and> length env = v3_preamble_len + unat (padme_len (of_nat (length (concat parts))))
        + (unat (padme_len (of_nat (length (concat parts)))) + (cs - 1)) div cs * TAG_LEN
    \<and> (\<forall>E s md range_start range_end. ft_faults s = [] \<and> get E b k s = (s, Inr env) \<and> length env < 2 ^ 63 \<and> md_size md = pm_size pm
        \<and> md_cipher_size md = Some (cm_cipher_size cm) \<and> md_envelope_version md = Some (cm_envelope_version cm)
        \<and> range_start \<le> range_end \<and> range_end < md_size md \<longrightarrow>
        (\<exists>outs. plaintext_stream P (get_range E b k) b k md sk range_start range_end s = (s, outs, Finished)
          \<and> concat outs = byte_range (unat range_start) (unat range_end + 1) (concat parts) \<and> (\<forall>out \<in> set outs. length out \<le> cs)))"
proof -
  obtain f' pm cm kem_ct ck chunks where u:
    "stream_encrypt_for_put P rnd nb pk ke (map Inr parts) f b k (length (sk_data f)) cs None = Some (Inr (f', pm, cm))"
    "sk_data f' = sk_data f @ envelope_of P ck ke nb cs kem_ct (of_nat (length (concat chunks))) chunks"
    "pm_size pm = of_nat (length (concat parts))" "cm_cipher_size cm = of_nat (length (sk_data f') - length (sk_data f))" "cm_envelope_version cm = 4"
    "chunked cs chunks" "take (length (concat parts)) (concat chunks) = concat parts"
    "length (concat chunks) = unat (padme_len (of_nat (length (concat parts))))" "length (concat parts) \<le> length (concat chunks)"
    "length kem_ct = CIPHERTEXT_BYTES" "open_content_key P sk kem_ct b k = Inr ck"
    by (rule upload_run [OF assms, where max_bytes = None and rnd = rnd and ke = ke and bucket = b and key = k]) auto
  let ?env = "envelope_of P ck ke nb cs kem_ct (of_nat (length (concat chunks))) chunks"
  have un: "unat (of_nat (length (concat parts)) :: u64) = length (concat parts)" using len by (intro unat_of_nat_u64) simp
  have "\<exists>outs. plaintext_stream P (get_range E b k) b k md sk i j s = (s, outs, Finished)
      \<and> concat outs = byte_range (unat i) (unat j + 1) (concat parts) \<and> (\<forall>out \<in> set outs. length out \<le> cs)"
    if h: "ft_faults s = [] \<and> get E b k s = (s, Inr ?env) \<and> length ?env < 2 ^ 63" and md: "md_size md = pm_size pm"
      "md_cipher_size md = Some (cm_cipher_size cm)" "md_envelope_version md = Some (cm_envelope_version cm)"
      and r: "i \<le> j" "j < md_size md" for E s md i j
  proof -
    have "sealed_as P sk b k md cs ?env chunks"
      unfolding sealed_as_def
    proof (intro conjI exI)
      show "md_cipher_size md = Some (of_nat (length ?env))" using u(2,4) md(2) by simp
      show "length (concat chunks) = unat (padme_len (md_size md))" "unat (md_size md) \<le> length (concat chunks)"
        using u(3,8,9) md(1) un by simp_all
    qed (use u md(3) nb cs laws(1) in simp_all)
    from fs_object.plaintext_stream_run [OF this h r] obtain outs where
      o: "plaintext_stream P (get_range E b k) b k md sk i j s = (s, outs, Finished)"
        "concat outs = byte_range (unat i) (unat j + 1) (concat chunks)" "\<forall>out \<in> set outs. length out \<le> cs" by blast
    have "unat j < length (concat parts)" using r(2) md(1) u(3) un by (simp add: word_less_nat_alt)
    then have "byte_range (unat i) (unat j + 1) (concat chunks) = byte_range (unat i) (unat j + 1) (take (length (concat parts)) (concat chunks))"
      by (simp add: byte_range_def drop_take min_def)
    with o u(7) show ?thesis by auto
  qed
  moreover have "length ?env = v3_preamble_len + unat (padme_len (of_nat (length (concat parts))))
      + (unat (padme_len (of_nat (length (concat parts)))) + (cs - 1)) div cs * TAG_LEN"
    using envelope_length [OF laws(1) nb u(10) cs(2) u(6)] unfolding u(8) [symmetric] chunked_length [OF u(6) cs(1)] .
  ultimately show ?thesis using u(1-3) by blast
qed

text \<open>A storage that holds given bytes as an object.\<close>

definition holding :: "bytes \<Rightarrow> fs_storage" where
  "holding data = sample_fs\<lparr>ft_files := [(sample_path, obj_record sample_fe (the (container_header_key (fs_mek sample_fs)))
     (encode_object_id plain_prims (derive_path_key plain_prims sample_nk) ''b'' ''k'') Durable data [], 0)]\<rparr>"

lemma holding_reads:
  assumes "length data < 2 ^ 63"
  shows "ft_faults (holding data) = []" and "get sample_fe ''b'' ''k'' (holding data) = (holding data, Inr data)"
proof -
  show f: "ft_faults (holding data) = []" by (simp add: holding_def sample_facts)
  let ?oid = "encode_object_id plain_prims (derive_path_key plain_prims sample_nk) ''b'' ''k''"
  have m: "fs_mek (holding data) = fs_mek sample_fs" "fs_base_path (holding data) = [''d'']" "fs_locks (holding data) = []"
    by (simp_all add: holding_def fs_mek_def sample_fs_def)
  obtain chk where chk: "container_header_key (fs_mek sample_fs) = Some chk"
    using install_keys [OF plain_hmac_len, of sample_nk] by (auto simp: sample_facts)
  have oid: "object_id_from_path sample_path = Some ?oid"
    unfolding sample_path_def by (rule obj_path_facts [OF plain_hmac_len])
  have "data_of_file sample_fe chk sample_path (obj_record sample_fe chk ?oid Durable data []) = Some data"
    using obj_record_reads(2) [of sample_fe sample_path ?oid data "[]" chk Durable] assms oid plain_hmac_len by (simp add: sample_facts)
  then show "get sample_fe ''b'' ''k'' (holding data) = (holding data, Inr data)"
    unfolding get_Inr [OF f] m using chk sample_valid sample_facts
    by (auto simp: holding_def ft_file_def sample_path_def)
qed

lemma plain_keypair: "keypair plain_prims [] = (replicate 1184 0, replicate 2400 0)"
  by (simp add: keypair_def plain_prims_def)

theorem upload_streams_back_witness:
  "\<exists>s md outs. md_size md = 9 \<and> plaintext_stream plain_prims (get_range sample_fe ''b'' ''k'') ''b'' ''k'' md (replicate 2400 0) 2 6 s = (s, outs, Finished)
     \<and> concat outs = [3, 4, 5, 6, 7]"
proof -
  obtain f' pm cm env where u: "stream_encrypt_for_put plain_prims [] (replicate 12 7) (replicate 1184 0) 0 (map Inr [[1, 2, 3], [4, 5, 6, 7, 8, 9]])
      \<lparr>sk_data = [], sk_pos = 0, sk_faults = []\<rparr> ''b'' ''k'' 0 4 None = Some (Inr (f', pm, cm))" "pm_size pm = 9"
    "length env = v3_preamble_len + unat (padme_len 9) + (unat (padme_len 9) + 3) div 4 * TAG_LEN"
    "\<forall>E s md i j. ft_faults s = [] \<and> get E ''b'' ''k'' s = (s, Inr env) \<and> length env < 2 ^ 63 \<and> md_size md = pm_size pm
        \<and> md_cipher_size md = Some (cm_cipher_size cm) \<and> md_envelope_version md = Some (cm_envelope_version cm) \<and> i \<le> j \<and> j < md_size md \<longrightarrow>
        (\<exists>outs. plaintext_stream plain_prims (get_range E ''b'' ''k'') ''b'' ''k'' md (replicate 2400 0) i j s = (s, outs, Finished)
          \<and> concat outs = byte_range (unat i) (unat j + 1) [1, 2, 3, 4, 5, 6, 7, 8, 9] \<and> (\<forall>out \<in> set outs. length out \<le> 4))"
    using upload_streams_back [OF plain_laws(1,3,2) plain_keypair, where nb = "replicate 12 7" and cs = 4 and parts = "[[1, 2, 3], [4, 5, 6, 7, 8, 9]]"
        and rnd = "[]" and f = "\<lparr>sk_data = [], sk_pos = 0, sk_faults = []\<rparr>" and ke = 0 and b = "''b''" and k = "''k''"] by auto
  have "unat (padme_len (9 :: u64)) \<le> 10" using padme_overhead [of 9] by simp
  then have "(unat (padme_len (9 :: u64)) + 3) div 4 \<le> 3" by linarith
  then have len: "length env < 2 ^ 63"
    using u(3) by (auto simp: TAG_LEN_def v3_preamble_len_def HEADER_FIXED_LEN_def CIPHERTEXT_BYTES_def)
  let ?md = "sample_md\<lparr>md_size := 9, md_cipher_size := Some (cm_cipher_size cm), md_envelope_version := Some (cm_envelope_version cm)\<rparr>"
  have "\<exists>outs. plaintext_stream plain_prims (get_range sample_fe ''b'' ''k'') ''b'' ''k'' ?md (replicate 2400 0) 2 6 (holding env) = (holding env, outs, Finished)
      \<and> concat outs = byte_range (unat (2 :: u64)) (unat (6 :: u64) + 1) [1, 2, 3, 4, 5, 6, 7, 8, 9] \<and> (\<forall>out \<in> set outs. length out \<le> 4)"
    using holding_reads [OF len] len u(2) by (intro u(4) [rule_format]) simp
  then show ?thesis by (intro exI [of _ "holding env"] exI [of _ ?md]) (auto simp: byte_range_def)
qed

end
