(* ===== verification/Bucket_Sharing.thy ===== *)
theory Bucket_Sharing
  imports Authz Cipher Rust_Text
begin

text \<open>
  Sharing a bucket: its owner and access list (\<open>crates/y2qd/src/handlers/acl.rs\<close>), the epochs of its key
  (\<open>handlers/keys.rs\<close>) and the grants between the personas of one account (\<open>handlers/personas.rs\<close>).

  A handler is a computation over the caller's session, the session table, the registry of rekey jobs and the storage, which is known by the operations
  it offers. An error \<open>None\<close> is a panic. The rows of the user table are read through \<open>get_user\<close>. A rekey job runs
  beside other requests: \<open>W i\<close> is what they do to the storage before its \<open>i\<close>-th object, and \<open>W n\<close>, for \<open>n\<close> objects, what they do before the
  old epochs are pruned.
\<close>

datatype rekey_state = RekeyRunning u8 | RekeyCompleted | RekeyFailed string

record 'st share_state =
  sh_session :: session_info
  sh_sessions :: session_store
  sh_rekey :: "(string, rekey_state) dmap"
  sh_store :: 'st

type_synonym ('st, 'a) share_comp = "('st share_state, error option, 'a) comp"

definition app :: "error + 'a \<Rightarrow> ('st, 'a) share_comp" where
  "app r = slift (map_err Some r)"

definition sh_bucket_exists :: "'st storage_ops \<Rightarrow> string \<Rightarrow> ('st, bool) share_comp" where
  "sh_bucket_exists ops bucket s = (s, map_err Some (op_bucket_exists ops (sh_store s) bucket))"

definition authoritative_config :: "'st storage_ops \<Rightarrow> string \<Rightarrow> ('st, bucket_config) share_comp" where
  "authoritative_config ops bucket s = (s, map_err Some (op_get_bucket_config ops (sh_store s) bucket))"

definition persist_config :: "'st storage_ops \<Rightarrow> string \<Rightarrow> bucket_config \<Rightarrow> ('st, unit) share_comp" where
  "persist_config ops bucket cfg s =
     (case op_set_bucket_config ops (sh_store s) bucket cfg of (st, r) \<Rightarrow> (s\<lparr>sh_store := st\<rparr>, map_err Some r))"

definition sh_authorize :: "bk_env \<Rightarrow> 'st storage_ops \<Rightarrow> authenticated \<Rightarrow> string \<Rightarrow> bucket_permission \<Rightarrow> ('st, decision) share_comp" where
  "sh_authorize B ops auth bucket required s =
     (case authorize_bucket B ops (sh_store s) (auth\<lparr>au_session := sh_session s\<rparr>) bucket required of
        (session, r) \<Rightarrow> (s\<lparr>sh_session := session\<rparr>, map_err Some r))"

text \<open>\<open>From<AuthError> for AppError\<close>.\<close>

definition from_auth :: "auth_error \<Rightarrow> error" where
  "from_auth e = InternalError [] [] ''auth'' ''auth error''"

definition with_identity_sk :: "bk_env \<Rightarrow> (session_info \<Rightarrow> bytes \<Rightarrow> error + 'a) \<Rightarrow> ('st, 'a) share_comp" where
  "with_identity_sk B f s =
     (s, map_err Some (rbind (map_err from_auth (open_identity_sk (be_sec B) (sh_session s))) (f (sh_session s))))"

definition open_own_bwk :: "bk_env \<Rightarrow> authenticated \<Rightarrow> bucket_config \<Rightarrow> string \<Rightarrow> u32 \<Rightarrow> ('st, bytes) share_comp" where
  "open_own_bwk B auth cfg bucket epoch =
     with_identity_sk B (\<lambda>session. open_verified_bwk B cfg bucket epoch (au_username auth) (unat (si_persona session)))"

definition sh_not_found :: "string \<Rightarrow> error" where
  "sh_not_found bucket = NotFound bucket []"

definition require_bucket :: "'st storage_ops \<Rightarrow> string \<Rightarrow> ('st, unit) share_comp" where
  "require_bucket ops bucket =
     sbind (sh_bucket_exists ops bucket) (\<lambda>ex. if ex then sret () else sfail (Some (sh_not_found bucket)))"

definition lookup_user :: "bk_env \<Rightarrow> user_lookup \<Rightarrow> string \<Rightarrow> error + user_record option" where
  "lookup_user B get_user user = map_err (\<lambda>e. Index (en_display (be_sec B) e)) (get_user user)"

subsection \<open>\<open>acl.rs\<close>\<close>

record acl_body =
  ab_owner :: "string option"
  ab_grants :: "(string, bucket_permission) dmap"
  ab_key_epochs :: "u32 list"
  ab_generation :: u64

definition acl_view :: "bucket_config \<Rightarrow> acl_body" where
  "acl_view cfg = \<lparr>ab_owner = bc_owner cfg, ab_grants = bc_acl cfg, ab_key_epochs = map kv_epoch (bc_keys cfg),
     ab_generation = bc_acl_generation cfg\<rparr>"

definition get_acl :: "bk_env \<Rightarrow> 'st storage_ops \<Rightarrow> authenticated \<Rightarrow> string \<Rightarrow> ('st, acl_body) share_comp" where
  "get_acl B ops auth bucket =
     sbind (sh_authorize B ops auth bucket (if is_admin_or_auditor auth then Read else AdminPerm)) (\<lambda>_.
     sbind (require_bucket ops bucket) (\<lambda>_.
     sbind (authoritative_config ops bucket) (\<lambda>cfg. sret (acl_view cfg))))"

definition invalid_acl :: "string \<Rightarrow> error" where
  "invalid_acl reason = InvalidAcl reason"

definition ensure_user_exists :: "bk_env \<Rightarrow> user_lookup \<Rightarrow> string \<Rightarrow> error + unit" where
  "ensure_user_exists B get_user username =
     rbind (lookup_user B get_user username) (\<lambda>rec.
     if rec \<noteq> None then Inr () else Inl (invalid_acl (''unknown user `'' @ username @ ''`'')))"

definition reseal_grantee :: "bk_env \<Rightarrow> user_lookup \<Rightarrow> string \<Rightarrow> bucket_key_version \<Rightarrow> string \<Rightarrow> bytes \<Rightarrow> bool
    \<Rightarrow> error option + bucket_key_version" where
  "reseal_grantee B get_user bucket kv user bwk authorized =
     rbind (map_err Some (lookup_user B get_user user)) (\<lambda>found.
     case found of None \<Rightarrow> Inr kv
     | Some rec \<Rightarrow>
       rbind (if authorized then ok_or (index_set (unat (ur_primary_slot rec)) True (replicate CREDENTIAL_SLOTS False)) None
              else Inr (replicate CREDENTIAL_SLOTS False)) (\<lambda>slots_authorized.
       map_err Some (put_grant_slot B kv bucket user
         \<lparr>gs_identity_pks_b64 = map cs_identity_pk_b64 (ur_slots rec), gs_authorized = slots_authorized\<rparr> bwk)))"

fun grant_all :: "bk_env \<Rightarrow> user_lookup \<Rightarrow> string \<Rightarrow> bytes \<Rightarrow> string list \<Rightarrow> bucket_key_version \<Rightarrow> error option + bucket_key_version" where
  "grant_all B get_user bucket bwk [] kv = Inr kv"
| "grant_all B get_user bucket bwk (user # users) kv =
     rbind (reseal_grantee B get_user bucket kv user bwk True) (grant_all B get_user bucket bwk users)"

definition revoke_one :: "bk_env \<Rightarrow> user_lookup \<Rightarrow> string \<Rightarrow> bytes \<Rightarrow> string \<Rightarrow> bucket_key_version \<Rightarrow> ('st, bucket_key_version) share_comp" where
  "revoke_one B get_user bucket bwk user kv =
     sbind (slift (reseal_grantee B get_user bucket kv user bwk False)) (\<lambda>kv.
     sbind (supd (\<lambda>s. s\<lparr>sh_sessions := fst (revoke_user (sh_sessions s) user)\<rparr>)) (\<lambda>_. sret kv))"

fun revoke_all :: "bk_env \<Rightarrow> user_lookup \<Rightarrow> string \<Rightarrow> bytes \<Rightarrow> string list \<Rightarrow> bucket_key_version \<Rightarrow> ('st, bucket_key_version) share_comp" where
  "revoke_all B get_user bucket bwk [] kv = sret kv"
| "revoke_all B get_user bucket bwk (user # users) kv =
     sbind (revoke_one B get_user bucket bwk user kv) (revoke_all B get_user bucket bwk users)"

text \<open>The grants are a \<open>BTreeMap\<close>: their names are visited in order.\<close>

fun check_grants :: "string option \<Rightarrow> string list \<Rightarrow> error + unit" where
  "check_grants owner [] = Inr ()"
| "check_grants owner (user # users) =
     (if str_trim user = [] then Inl (invalid_acl ''grant username must not be empty'') else
      if owner = Some user then Inl (invalid_acl (''user `'' @ user @ ''` is the bucket owner and already has full access'')) else
      check_grants owner users)"

definition choose_owner :: "bk_env \<Rightarrow> user_lookup \<Rightarrow> authenticated \<Rightarrow> string \<Rightarrow> string option \<Rightarrow> string option \<Rightarrow> error + string option" where
  "choose_owner B get_user auth bucket previous_owner requested =
     (case requested of None \<Rightarrow> Inr previous_owner
      | Some new_owner \<Rightarrow>
        if \<not> is_admin auth \<and> previous_owner \<noteq> Some (au_username auth) then Inl (Forbidden bucket) else
        rbind (ensure_user_exists B get_user new_owner) (\<lambda>_. Inr (Some new_owner)))"

fun replace_epoch :: "bucket_key_version \<Rightarrow> bucket_key_version list \<Rightarrow> bucket_key_version list" where
  "replace_epoch new_kv [] = []"
| "replace_epoch new_kv (k # ks) = (if kv_epoch k = kv_epoch new_kv then new_kv # ks else k # replace_epoch new_kv ks)"

definition reseal_grants :: "bk_env \<Rightarrow> user_lookup \<Rightarrow> string \<Rightarrow> bytes \<Rightarrow> string list \<Rightarrow> string list \<Rightarrow> string option \<Rightarrow> string option
    \<Rightarrow> bucket_key_version \<Rightarrow> ('st, bucket_key_version) share_comp" where
  "reseal_grants B get_user bucket bwk old_readers new_readers previous_owner owner kv =
     sbind (slift (grant_all B get_user bucket bwk (filter (\<lambda>u. u \<notin> set old_readers) new_readers) kv)) (\<lambda>kv.
     sbind (revoke_all B get_user bucket bwk (filter (\<lambda>u. u \<notin> set new_readers) old_readers) kv) (\<lambda>kv.
     if owner = previous_owner then sret kv else
     (case owner of None \<Rightarrow> sret kv
      | Some new_owner \<Rightarrow>
        sbind (slift (reseal_grantee B get_user bucket kv new_owner bwk True)) (\<lambda>kv.
        case previous_owner of None \<Rightarrow> sret kv
        | Some prev \<Rightarrow>
          if prev \<noteq> new_owner \<and> prev \<notin> set new_readers then revoke_one B get_user bucket bwk prev kv else sret kv))))"

text \<open>The keys after a change of readers or owner, which \<open>cfg\<close> already holds. Without key material nothing is sealed.\<close>

definition seal_acl_change :: "bk_env \<Rightarrow> user_lookup \<Rightarrow> authenticated \<Rightarrow> string \<Rightarrow> string list \<Rightarrow> string list \<Rightarrow> string option \<Rightarrow> bucket_config
    \<Rightarrow> ('st, bucket_config) share_comp" where
  "seal_acl_change B get_user auth bucket old_readers new_readers previous_owner cfg =
     (case current_key cfg of
        None \<Rightarrow> sret cfg
      | Some kv \<Rightarrow>
        if old_readers \<noteq> new_readers \<or> bc_owner cfg \<noteq> previous_owner then
          sbind (open_own_bwk B auth cfg bucket (kv_epoch kv)) (\<lambda>bwk.
          sbind (reseal_grants B get_user bucket bwk old_readers new_readers previous_owner (bc_owner cfg) kv) (\<lambda>new_kv.
          sret (cfg\<lparr>bc_keys := replace_epoch new_kv (bc_keys cfg)\<rparr>)))
        else sret cfg)"

definition set_acl :: "bk_env \<Rightarrow> 'st storage_ops \<Rightarrow> user_lookup \<Rightarrow> authenticated \<Rightarrow> string \<Rightarrow> acl_body \<Rightarrow> ('st, acl_body) share_comp" where
  "set_acl B ops get_user auth bucket body =
     sbind (sh_authorize B ops auth bucket AdminPerm) (\<lambda>_.
     sbind (require_bucket ops bucket) (\<lambda>_.
     sbind (authoritative_config ops bucket) (\<lambda>cfg.
     if ab_generation body \<noteq> bc_acl_generation cfg
     then sfail (Some (AclConflict (''generation mismatch: client sent '' @ show_nat (unat (ab_generation body)) @ '', server has ''
       @ show_nat (unat (bc_acl_generation cfg)) @ ''; re-fetch the ACL and retry''))) else
     sbind (app (choose_owner B get_user auth bucket (bc_owner cfg) (ab_owner body))) (\<lambda>owner.
     sbind (app (check_grants owner (sort (map fst (ab_grants body))))) (\<lambda>_.
     sbind (seal_acl_change B get_user auth bucket (read_implying_grantees (bc_acl cfg)) (read_implying_grantees (ab_grants body))
       (bc_owner cfg) (cfg\<lparr>bc_owner := owner, bc_acl := ab_grants body\<rparr>)) (\<lambda>cfg.
     let cfg = cfg\<lparr>bc_acl_generation := bc_acl_generation cfg + 1\<rparr> in
     sbind (persist_config ops bucket cfg) (\<lambda>_. sret (acl_view cfg))))))))"

subsection \<open>\<open>keys.rs\<close>: epochs\<close>

definition PERSONA_SHARE_WARNING :: string where
  "PERSONA_SHARE_WARNING = ''grants made via POST /api/v1/personas/{slot}/grant to a persona other than the one performing this rotation are not preserved; see docs/operations.md#key-rotation''"

record rotate_key_response =
  rr_epoch :: u32
  rr_key_epochs :: "u32 list"
  rr_persona_share_warning :: string

definition rotate_key :: "bk_env \<Rightarrow> 'st storage_ops \<Rightarrow> user_lookup \<Rightarrow> authenticated \<Rightarrow> string \<Rightarrow> ('st, rotate_key_response) share_comp" where
  "rotate_key B ops get_user auth bucket =
     sbind (sh_authorize B ops auth bucket AdminPerm) (\<lambda>_.
     sbind (require_bucket ops bucket) (\<lambda>_.
     sbind (authoritative_config ops bucket) (\<lambda>cfg.
     case current_key cfg of
       None \<Rightarrow> sfail (Some (InternalError bucket [] ''rotate_key'' ''bucket has no key material yet''))
     | Some newest \<Rightarrow>
       if MAX_RETAINED_EPOCHS \<le> length (bc_keys cfg)
       then sfail (Some (TooManyBucketKeyEpochs bucket (length (bc_keys cfg)) MAX_RETAINED_EPOCHS)) else
       sbind (open_own_bwk B auth cfg bucket (kv_epoch newest)) (\<lambda>_.
       sbind (sget (\<lambda>s. si_persona (sh_session s))) (\<lambda>persona.
       sbind (slift (case current_grantees B get_user cfg bucket (au_username auth) persona of
           None \<Rightarrow> Inl None | Some r \<Rightarrow> map_err Some r)) (\<lambda>grantees.
       let new_epoch = kv_epoch newest + 1 in
       sbind (app (new_bucket_key_version B new_epoch bucket grantees)) (\<lambda>(kv, _).
       let cfg = cfg\<lparr>bc_keys := bc_keys cfg @ [kv]\<rparr> in
       sbind (persist_config ops bucket cfg) (\<lambda>_.
       sret \<lparr>rr_epoch = new_epoch, rr_key_epochs = map kv_epoch (bc_keys cfg),
         rr_persona_share_warning = PERSONA_SHARE_WARNING\<rparr>))))))))"

subsection \<open>\<open>keys.rs\<close>: rekey\<close>

definition try_start :: "(string, rekey_state) dmap \<Rightarrow> string \<Rightarrow> error + (string, rekey_state) dmap" where
  "try_start reg bucket =
     (case dm_get reg bucket of
        Some (RekeyRunning _) \<Rightarrow> Inl (RekeyAlreadyRunning bucket)
      | _ \<Rightarrow> Inr (dm_insert bucket (RekeyRunning 0) reg))"

fun epoch_secrets :: "bk_env \<Rightarrow> authenticated \<Rightarrow> bucket_config \<Rightarrow> string \<Rightarrow> u32 \<Rightarrow> bucket_key_version list \<Rightarrow> (u32, bytes) dmap
    \<Rightarrow> ('st, (u32, bytes) dmap) share_comp" where
  "epoch_secrets B auth cfg bucket newest [] sks = sret sks"
| "epoch_secrets B auth cfg bucket newest (kv # kvs) sks =
     (if kv_epoch kv < newest then
        sbind (with_identity_sk B (\<lambda>session. read_key B cfg bucket (kv_epoch kv) (au_username auth) (unat (si_persona session)))) (\<lambda>sk.
        epoch_secrets B auth cfg bucket newest kvs (dm_insert (kv_epoch kv) sk sks))
      else epoch_secrets B auth cfg bucket newest kvs sks)"

text \<open>The result is what the spawned job is given. Its guarded copy of a key fails only where \<open>read_key\<close> has failed
  before.\<close>

definition start_rekey :: "bk_env \<Rightarrow> 'st storage_ops \<Rightarrow> authenticated \<Rightarrow> string \<Rightarrow> ('st, (u32, bytes) dmap) share_comp" where
  "start_rekey B ops auth bucket =
     sbind (sh_authorize B ops auth bucket AdminPerm) (\<lambda>_.
     sbind (require_bucket ops bucket) (\<lambda>_.
     sbind (authoritative_config ops bucket) (\<lambda>cfg.
     case current_key cfg of
       None \<Rightarrow> sfail (Some (InternalError bucket [] ''rekey'' ''bucket has no key material yet''))
     | Some newest \<Rightarrow>
       sbind (open_own_bwk B auth cfg bucket (kv_epoch newest)) (\<lambda>_.
       sbind (sget sh_rekey) (\<lambda>reg.
       sbind (app (try_start reg bucket)) (\<lambda>reg.
       sbind (supd (\<lambda>s. s\<lparr>sh_rekey := reg\<rparr>)) (\<lambda>_.
       epoch_secrets B auth cfg bucket (kv_epoch newest) (bc_keys cfg) [])))))))"

record 'st object_ops =
  ob_list_objects :: "string \<Rightarrow> list_options \<Rightarrow> ('st, error, list_page) comp"
  ob_get :: "string \<Rightarrow> string \<Rightarrow> ('st, error, bytes) comp"
  ob_describe :: "string \<Rightarrow> string \<Rightarrow> ('st, error, metadata) comp"
  ob_begin_streaming_put :: "string \<Rightarrow> string \<Rightarrow> ('st, error, sink \<times> nat) comp"
  ob_commit :: "string \<Rightarrow> string \<Rightarrow> sink \<Rightarrow> put_options \<Rightarrow> plaintext_metrics \<Rightarrow> cipher_metadata \<Rightarrow> ('st, error, bool) comp"
  ob_drop_guard :: "string \<Rightarrow> string \<Rightarrow> 'st \<Rightarrow> 'st"

text \<open>The pages are followed until one has no cursor; \<open>None\<close> is a listing that never ends.\<close>

partial_function (option) collect_stale_keys :: "'st object_ops \<Rightarrow> string \<Rightarrow> u32 \<Rightarrow> string option \<Rightarrow> (string \<times> u32) list \<Rightarrow> 'st
    \<Rightarrow> ('st \<times> (error + (string \<times> u32) list)) option" where
  "collect_stale_keys Ob bucket current_epoch after out st =
     (case ob_list_objects Ob bucket \<lparr>lo_prefix = None, lo_after = after, lo_limit = Some MAX_LIST_LIMIT\<rparr> st of
        (st, Inl e) \<Rightarrow> Some (st, Inl e)
      | (st, Inr page) \<Rightarrow>
        (let epoch = (\<lambda>item. case md_key_epoch item of Some e \<Rightarrow> e | None \<Rightarrow> 0);
             out = out @ map (\<lambda>item. (md_key item, epoch item)) (filter (\<lambda>item. epoch item < current_epoch) (lp_items page)) in
         case lp_next page of
           None \<Rightarrow> Some (st, Inr out)
         | Some cursor \<Rightarrow> collect_stale_keys Ob bucket current_epoch (Some cursor) out st))"

record rekey_env =
  re_bk :: bk_env
  re_display :: "error \<Rightarrow> string"
  re_rand :: "string \<Rightarrow> bytes \<times> bytes"
  re_chunk_size :: nat

text \<open>One object: \<open>None\<close> is an encryption that never ends. Unlocking the old key may fail (\<open>en_mem\<close>). An upload that is not committed drops its guard.\<close>

definition rekey_object :: "rekey_env \<Rightarrow> 'st object_ops \<Rightarrow> string \<Rightarrow> (u32, bytes) dmap \<Rightarrow> bytes \<Rightarrow> u32 \<Rightarrow> string \<Rightarrow> u32 \<Rightarrow> 'st
    \<Rightarrow> ('st \<times> (string + unit)) option" where
  "rekey_object R Ob bucket epoch_sks new_pk new_epoch key old_epoch st =
     (let P = be_prims (re_bk R); text = re_display R in
      case dm_get epoch_sks old_epoch of
        None \<Rightarrow> Some (st, Inl (''no cached key for epoch '' @ show_nat (unat old_epoch) @ '' (object '' @ key @ '')''))
      | Some old_sk \<Rightarrow>
        case en_mem (be_sec (re_bk R)) of Some e \<Rightarrow> Some (st, Inl e) | None \<Rightarrow>
        case ob_get Ob bucket key st of (st, Inl e) \<Rightarrow> Some (st, Inl (text e)) | (st, Inr obj) \<Rightarrow>
        case ob_describe Ob bucket key st of (st, Inl e) \<Rightarrow> Some (st, Inl (text e)) | (st, Inr existing) \<Rightarrow>
        case decrypt_after_get P old_sk bucket key obj (md_size existing) of Inl e \<Rightarrow> Some (st, Inl (text e)) | Inr plaintext \<Rightarrow>
        case ob_begin_streaming_put Ob bucket key st of (st, Inl e) \<Rightarrow> Some (st, Inl (text e)) | (st, Inr (sk, write_offset)) \<Rightarrow>
        case re_rand R key of (rnd, nb) \<Rightarrow>
        case encrypt_bytes_for_put P rnd nb new_pk new_epoch plaintext sk bucket key write_offset (re_chunk_size R) of
          None \<Rightarrow> None
        | Some (Inl e) \<Rightarrow> Some (ob_drop_guard Ob bucket key st, Inl (text e))
        | Some (Inr (sk, plaintext_metrics, cipher_metadata)) \<Rightarrow>
          (case ob_commit Ob bucket key sk
              \<lparr>po_labels = md_labels existing, po_sync = Durable, po_plaintext_metrics = None, po_cipher_metadata = None, po_version = None\<rparr>
              plaintext_metrics cipher_metadata st of
             (st, Inl e) \<Rightarrow> Some (st, Inl (text e)) | (st, Inr _) \<Rightarrow> Some (st, Inr ())))"

fun rekey_objects :: "rekey_env \<Rightarrow> 'st object_ops \<Rightarrow> (nat \<Rightarrow> 'st \<Rightarrow> 'st) \<Rightarrow> string \<Rightarrow> (u32, bytes) dmap \<Rightarrow> bytes \<Rightarrow> u32 \<Rightarrow> nat \<Rightarrow> nat
    \<Rightarrow> (string \<times> u32) list \<Rightarrow> 'st share_state \<Rightarrow> ('st share_state \<times> (string + unit)) option" where
  "rekey_objects R Ob W bucket epoch_sks new_pk new_epoch stale_count i [] s = Some (s, Inr ())"
| "rekey_objects R Ob W bucket epoch_sks new_pk new_epoch stale_count i ((key, old_epoch) # stale) s =
     Option.bind (rekey_object R Ob bucket epoch_sks new_pk new_epoch key old_epoch (W i (sh_store s))) (\<lambda>(st, r).
     case r of Inl e \<Rightarrow> Some (s\<lparr>sh_store := st\<rparr>, Inl e)
     | Inr _ \<Rightarrow>
       rekey_objects R Ob W bucket epoch_sks new_pk new_epoch stale_count (i + 1) stale
         (s\<lparr>sh_store := st, sh_rekey := dm_insert bucket (RekeyRunning (of_nat (((i + 1) * 100) div max stale_count 1))) (sh_rekey s)\<rparr>))"

text \<open>The epochs are pruned in the configuration as it is when the objects are done.\<close>

definition prune_epochs :: "rekey_env \<Rightarrow> 'st storage_ops \<Rightarrow> string \<Rightarrow> u32 \<Rightarrow> 'st share_state \<Rightarrow> 'st share_state \<times> (string + unit)" where
  "prune_epochs R ops bucket newest_epoch s =
     (case op_get_bucket_config ops (sh_store s) bucket of Inl e \<Rightarrow> (s, Inl (re_display R e)) | Inr cfg \<Rightarrow>
      case op_set_bucket_config ops (sh_store s) bucket (cfg\<lparr>bc_keys := filter (\<lambda>k. kv_epoch k = newest_epoch) (bc_keys cfg)\<rparr>) of
        (st, r) \<Rightarrow> (s\<lparr>sh_store := st\<rparr>, map_err (re_display R) r))"

definition run_rekey :: "rekey_env \<Rightarrow> 'st storage_ops \<Rightarrow> 'st object_ops \<Rightarrow> (nat \<Rightarrow> 'st \<Rightarrow> 'st) \<Rightarrow> string \<Rightarrow> (u32, bytes) dmap \<Rightarrow> 'st share_state
    \<Rightarrow> ('st share_state \<times> (string + unit)) option" where
  "run_rekey R ops Ob W bucket epoch_sks s =
     (case op_get_bucket_config ops (sh_store s) bucket of Inl e \<Rightarrow> Some (s, Inl (re_display R e)) | Inr cfg \<Rightarrow>
      case current_key cfg of None \<Rightarrow> Some (s, Inl ''bucket has no key material'') | Some newest \<Rightarrow>
      case b64_decode (be_prims (re_bk R)) (kv_public_key_b64 newest) of None \<Rightarrow> Some (s, Inl ''malformed bucket public key'') | Some new_pk \<Rightarrow>
      Option.bind (collect_stale_keys Ob bucket (kv_epoch newest) None [] (sh_store s)) (\<lambda>(st, r).
      case r of Inl e \<Rightarrow> Some (s\<lparr>sh_store := st\<rparr>, Inl (re_display R e)) | Inr stale \<Rightarrow>
      Option.bind (rekey_objects R Ob W bucket epoch_sks new_pk (kv_epoch newest) (length stale) 0 stale (s\<lparr>sh_store := st\<rparr>)) (\<lambda>(s, r).
      case r of Inl e \<Rightarrow> Some (s, Inl e) | Inr _ \<Rightarrow>
      Some (prune_epochs R ops bucket (kv_epoch newest) (s\<lparr>sh_store := W (length stale) (sh_store s)\<rparr>)))))"

text \<open>The spawned task.\<close>

definition rekey_job :: "rekey_env \<Rightarrow> 'st storage_ops \<Rightarrow> 'st object_ops \<Rightarrow> (nat \<Rightarrow> 'st \<Rightarrow> 'st) \<Rightarrow> string \<Rightarrow> (u32, bytes) dmap \<Rightarrow> 'st share_state
    \<Rightarrow> 'st share_state option" where
  "rekey_job R ops Ob W bucket epoch_sks s =
     map_option (\<lambda>(s, r). s\<lparr>sh_rekey := dm_insert bucket (case r of Inr _ \<Rightarrow> RekeyCompleted | Inl msg \<Rightarrow> RekeyFailed msg) (sh_rekey s)\<rparr>)
       (run_rekey R ops Ob W bucket epoch_sks s)"

record rekey_status_response =
  rt_state :: string
  rt_percent :: "u8 option"
  rt_reason :: "string option"

definition rekey_status :: "bk_env \<Rightarrow> 'st storage_ops \<Rightarrow> authenticated \<Rightarrow> string \<Rightarrow> ('st, rekey_status_response) share_comp" where
  "rekey_status B ops auth bucket =
     sbind (sh_authorize B ops auth bucket AdminPerm) (\<lambda>_.
     sget (\<lambda>s. case dm_get (sh_rekey s) bucket of
         None \<Rightarrow> \<lparr>rt_state = ''idle'', rt_percent = None, rt_reason = None\<rparr>
       | Some (RekeyRunning p) \<Rightarrow> \<lparr>rt_state = ''running'', rt_percent = Some p, rt_reason = None\<rparr>
       | Some RekeyCompleted \<Rightarrow> \<lparr>rt_state = ''completed'', rt_percent = None, rt_reason = None\<rparr>
       | Some (RekeyFailed r) \<Rightarrow> \<lparr>rt_state = ''failed'', rt_percent = None, rt_reason = Some r\<rparr>))"

subsection \<open>\<open>personas.rs\<close>\<close>

definition validate_slot :: "nat \<Rightarrow> error + unit" where
  "validate_slot slot =
     (if slot < CREDENTIAL_SLOTS then Inr ()
      else Inl (InvalidPersonaRequest (''invalid persona slot '' @ show_nat slot @ '': must be 0..'' @ show_nat CREDENTIAL_SLOTS)))"

text \<open>The loop over the epochs: a flag says whether one was changed. An index out of range panics.\<close>

definition share_epoch :: "bk_env \<Rightarrow> 'st storage_ops \<Rightarrow> authenticated \<Rightarrow> string \<Rightarrow> string list \<Rightarrow> nat \<Rightarrow> bool \<Rightarrow> nat \<Rightarrow> bucket_config \<times> bool
    \<Rightarrow> ('st, bucket_config \<times> bool) share_comp" where
  "share_epoch B ops auth bucket identity_pks target_slot authorize_target i = (\<lambda>(cfg, changed).
     sbind (stry (sh_authorize B ops auth bucket Read)) (\<lambda>permitted.
     if \<not> is_ok permitted then sret (cfg, changed) else
     sbind (stry (open_own_bwk B auth cfg bucket (kv_epoch (bc_keys cfg ! i)))) (\<lambda>opened.
     case opened of Inl _ \<Rightarrow> sret (cfg, changed)
     | Inr bwk \<Rightarrow>
       sbind (sget (\<lambda>s. si_persona (sh_session s))) (\<lambda>persona.
       sbind (slift (ok_or (Option.bind (index_set (unat persona) True (replicate CREDENTIAL_SLOTS False))
           (index_set target_slot authorize_target)) None)) (\<lambda>authorized.
       sbind (app (put_grant_slot B (bc_keys cfg ! i) bucket (au_username auth)
           \<lparr>gs_identity_pks_b64 = identity_pks, gs_authorized = authorized\<rparr> bwk)) (\<lambda>kv.
       sret (cfg\<lparr>bc_keys := (bc_keys cfg)[i := kv]\<rparr>, True)))))))"

fun share_epochs :: "bk_env \<Rightarrow> 'st storage_ops \<Rightarrow> authenticated \<Rightarrow> string \<Rightarrow> string list \<Rightarrow> nat \<Rightarrow> bool \<Rightarrow> nat list \<Rightarrow> bucket_config \<times> bool
    \<Rightarrow> ('st, bucket_config \<times> bool) share_comp" where
  "share_epochs B ops auth bucket identity_pks target_slot authorize_target [] acc = sret acc"
| "share_epochs B ops auth bucket identity_pks target_slot authorize_target (i # is) acc =
     sbind (share_epoch B ops auth bucket identity_pks target_slot authorize_target i acc)
       (share_epochs B ops auth bucket identity_pks target_slot authorize_target is)"

fun share_buckets :: "bk_env \<Rightarrow> 'st storage_ops \<Rightarrow> authenticated \<Rightarrow> string list \<Rightarrow> nat \<Rightarrow> bool \<Rightarrow> string list \<Rightarrow> ('st, unit) share_comp" where
  "share_buckets B ops auth identity_pks target_slot authorize_target [] = sret ()"
| "share_buckets B ops auth identity_pks target_slot authorize_target (bucket # buckets) =
     sbind (sh_bucket_exists ops bucket) (\<lambda>ex.
     if \<not> ex then share_buckets B ops auth identity_pks target_slot authorize_target buckets else
     sbind (authoritative_config ops bucket) (\<lambda>cfg.
     if bc_keys cfg = [] then share_buckets B ops auth identity_pks target_slot authorize_target buckets else
     sbind (share_epochs B ops auth bucket identity_pks target_slot authorize_target [0..<length (bc_keys cfg)] (cfg, False)) (\<lambda>(cfg, changed).
     sbind (if changed then persist_config ops bucket cfg else sret ()) (\<lambda>_.
     share_buckets B ops auth identity_pks target_slot authorize_target buckets))))"

definition share_or_revoke :: "bk_env \<Rightarrow> 'st storage_ops \<Rightarrow> user_lookup \<Rightarrow> authenticated \<Rightarrow> u8 \<Rightarrow> string list \<Rightarrow> bool \<Rightarrow> ('st, unit) share_comp" where
  "share_or_revoke B ops get_user auth slot buckets authorize_target =
     sbind (app (validate_slot (unat slot))) (\<lambda>_.
     sbind (sget (\<lambda>s. si_persona (sh_session s))) (\<lambda>persona.
     if slot = persona
     then sfail (Some (InvalidPersonaRequest ''cannot target the caller's own currently-authenticated slot'')) else
     sbind (app (rbind (lookup_user B get_user (au_username auth)) (\<lambda>found.
       ok_or found (InvalidPersonaRequest ''caller's own record is missing'')))) (\<lambda>rec.
     sbind (share_buckets B ops auth (map cs_identity_pk_b64 (ur_slots rec)) (unat slot) authorize_target buckets) (\<lambda>_.
     if authorize_target then sret () else
     supd (\<lambda>s. s\<lparr>sh_sessions := fst (revoke_user_persona (sh_sessions s) (au_username auth) slot)\<rparr>)))))"

definition grant_persona :: "bk_env \<Rightarrow> 'st storage_ops \<Rightarrow> user_lookup \<Rightarrow> authenticated \<Rightarrow> u8 \<Rightarrow> string list \<Rightarrow> ('st, unit) share_comp" where
  "grant_persona B ops get_user auth slot buckets = share_or_revoke B ops get_user auth slot buckets True"

definition revoke_persona_grant :: "bk_env \<Rightarrow> 'st storage_ops \<Rightarrow> user_lookup \<Rightarrow> authenticated \<Rightarrow> u8 \<Rightarrow> string list \<Rightarrow> ('st, unit) share_comp" where
  "revoke_persona_grant B ops get_user auth slot buckets = share_or_revoke B ops get_user auth slot buckets False"

end
