(* ===== verification/Bucket_Sharing_Laws.thy ===== *)
theory Bucket_Sharing_Laws
  imports Bucket_Sharing Bucket_Keys_Laws
begin

text \<open>
  Running the sharing handlers, and where the epochs of a bucket key go wrong: a rekey that cannot be started blocks every later
  one, and a rekey that ends prunes a key that was rotated in meanwhile. The sample buckets at the end are shared by the
  theories on access lists, rekeying and personas.
\<close>

subsection \<open>Running the handlers\<close>

lemma app_run [simp]: "app r s = (s, map_err Some r)"
  by (simp add: app_def slift_def)

lemma map_err_Inr [simp]: "map_err f r = Inr x \<longleftrightarrow> r = Inr x"
  by (cases r) auto

lemma app_Inr: "app r s = (s', Inr x) \<longleftrightarrow> s' = s \<and> r = Inr x"
  by auto

lemma slift_Inr: "slift r s = (s', Inr x) \<longleftrightarrow> s' = s \<and> r = Inr x"
  by (auto simp: slift_def)

lemma sret_Inr: "sret y s = (s', Inr x) \<longleftrightarrow> s' = s \<and> x = y"
  by (auto simp: sret_def)

lemma sfail_Inr: "\<not> sfail e s = (s', Inr x)"
  by (simp add: sfail_def)

lemma supd_Inr: "supd f s = (s', Inr x) \<longleftrightarrow> s' = f s"
  by (auto simp: supd_def)

lemma authoritative_config_Inr:
  "authoritative_config ops bucket s = (s', Inr cfg) \<longleftrightarrow> s' = s \<and> op_get_bucket_config ops (sh_store s) bucket = Inr cfg"
  by (auto simp: authoritative_config_def)

lemma require_bucket_Inr: "require_bucket ops bucket s = (s', Inr u) \<Longrightarrow> s' = s \<and> op_bucket_exists ops (sh_store s) bucket = Inr True"
  by (auto simp: require_bucket_def sh_bucket_exists_def sbind_Inr_iff sret_Inr sfail_Inr split: if_splits)

text \<open>An authorization may change the caller's session, and nothing else.\<close>

lemma sh_authorize_frame:
  "sh_authorize B ops auth bucket required s = (s', r) \<Longrightarrow>
   sh_sessions s' = sh_sessions s \<and> sh_rekey s' = sh_rekey s \<and> sh_store s' = sh_store s"
  by (auto simp: sh_authorize_def split: prod.splits)

lemma open_own_bwk_frame: "open_own_bwk B auth cfg bucket epoch s = (s', r) \<Longrightarrow> s' = s"
  by (auto simp: open_own_bwk_def with_identity_sk_def)

lemma persist_config_Inr:
  "persist_config ops bucket cfg s = (s', Inr u) \<longleftrightarrow>
   (\<exists>st. op_set_bucket_config ops (sh_store s) bucket cfg = (st, Inr ()) \<and> s' = s\<lparr>sh_store := st\<rparr>)"
  by (auto simp: persist_config_def split: prod.splits)

lemmas share_run = sbind_Inr_iff app_Inr slift_Inr sret_Inr sfail_Inr supd_Inr authoritative_config_Inr persist_config_Inr

text \<open>What the handlers rely on: a configuration that was stored is read back.\<close>

definition config_kept :: "'st storage_ops \<Rightarrow> string \<Rightarrow> bool" where
  "config_kept ops bucket \<longleftrightarrow>
     (\<forall>st cfg st'. op_set_bucket_config ops st bucket cfg = (st', Inr ()) \<longrightarrow> op_get_bucket_config ops st' bucket = Inr cfg)"

lemma config_keptD:
  "config_kept ops bucket \<Longrightarrow> op_set_bucket_config ops st bucket cfg = (st', Inr ()) \<Longrightarrow> op_get_bucket_config ops st' bucket = Inr cfg"
  by (simp add: config_kept_def)

lemma sample_config_kept: "config_kept sample_ops bucket"
  by (auto simp: config_kept_def sample_ops_def)

subsection \<open>Rekeying\<close>

lemma read_key_absent:
  assumes "\<forall>k \<in> set (bc_keys cfg). kv_epoch k \<noteq> epoch"
  shows "read_key B cfg bucket epoch user slot sk = Inl (Forbidden bucket)"
proof -
  have "find (\<lambda>k. kv_epoch k = epoch) (bc_keys cfg) = None" using assms by (simp add: find_None_iff)
  then show ?thesis by (simp add: read_key_def find_epoch_def forbidden_def)
qed

lemma prune_epochs_Inr:
  assumes "prune_epochs R ops bucket epoch s = (s', Inr ())" and "config_kept ops bucket"
  obtains cfg where "op_get_bucket_config ops (sh_store s) bucket = Inr cfg"
    and "op_get_bucket_config ops (sh_store s') bucket = Inr (cfg\<lparr>bc_keys := filter (\<lambda>k. kv_epoch k = epoch) (bc_keys cfg)\<rparr>)"
  using assms(1)
  by (auto simp: prune_epochs_def split: sum.splits prod.splits intro!: that dest: config_keptD [OF assms(2)])

lemma run_rekey_Inr:
  assumes "run_rekey R ops Ob W bucket sks s = Some (s', Inr ())"
    and "op_get_bucket_config ops (sh_store s) bucket = Inr cfg" and "current_key cfg = Some newest"
  obtains pk st stale s1 where "b64_decode (be_prims (re_bk R)) (kv_public_key_b64 newest) = Some pk"
    and "collect_stale_keys Ob bucket (kv_epoch newest) None [] (sh_store s) = Some (st, Inr stale)"
    and "rekey_objects R Ob W bucket sks pk (kv_epoch newest) (length stale) 0 stale (s\<lparr>sh_store := st\<rparr>) = Some (s1, Inr ())"
    and "prune_epochs R ops bucket (kv_epoch newest) (s1\<lparr>sh_store := W (length stale) (sh_store s1)\<rparr>) = (s', Inr ())"
proof -
  obtain pk where pk: "b64_decode (be_prims (re_bk R)) (kv_public_key_b64 newest) = Some pk"
    using assms by (auto simp: run_rekey_def split: option.splits)
  obtain st r where c: "collect_stale_keys Ob bucket (kv_epoch newest) None [] (sh_store s) = Some (st, r)"
    using assms pk by (auto simp: run_rekey_def bind_eq_Some_conv)
  obtain stale where r: "r = Inr stale" using assms pk c by (cases r) (auto simp: run_rekey_def)
  obtain s1 r' where o: "rekey_objects R Ob W bucket sks pk (kv_epoch newest) (length stale) 0 stale (s\<lparr>sh_store := st\<rparr>) = Some (s1, r')"
    using assms pk c r by (auto simp: run_rekey_def bind_eq_Some_conv)
  have "r' = Inr ()" using assms pk c r o by (cases r') (auto simp: run_rekey_def)
  then show ?thesis using assms pk c r o by (intro that) (auto simp: run_rekey_def)
qed

lemma find_epoch_filter: "find_epoch (cfg\<lparr>bc_keys := filter (\<lambda>k. kv_epoch k = e) (bc_keys cfg)\<rparr>) bucket e = find_epoch cfg bucket e"
proof -
  have "find (\<lambda>k. kv_epoch k = e) (filter (\<lambda>k. kv_epoch k = e) ks) = find (\<lambda>k. kv_epoch k = e) ks" for ks :: "bucket_key_version list" by (induction ks) auto
  then show ?thesis by (simp add: find_epoch_def)
qed


text \<open>The registry entry of a bucket stays as it is while the keys of the old epochs are resolved.\<close>

lemma epoch_secrets_frame: "epoch_secrets B auth cfg bucket newest kvs sks s = (s', r) \<Longrightarrow> s' = s"
  by (induction kvs arbitrary: sks s s')
    (auto simp: sret_def sbind_def with_identity_sk_def split: if_splits prod.splits sum.splits)

lemma epoch_secrets_fail:
  assumes "kv \<in> set kvs" and "kv_epoch kv < newest"
    and "\<nexists>sk. snd (with_identity_sk B (\<lambda>session. read_key B cfg bucket (kv_epoch kv) (au_username auth) (unat (si_persona session))) s) = Inr sk"
  shows "\<exists>e. epoch_secrets B auth cfg bucket newest kvs sks s = (s, Inl e)"
  using assms
proof (induction kvs arbitrary: sks)
  case (Cons k kvs)
  have f: "\<exists>r. with_identity_sk B g s = (s, r)" for g by (simp add: with_identity_sk_def)
  obtain r where "with_identity_sk B (\<lambda>session. read_key B cfg bucket (kv_epoch k) (au_username auth) (unat (si_persona session))) s = (s, r)"
    using f by blast
  with Cons show ?case by (cases r) (auto simp: sbind_def)
qed simp

text \<open>A start that is answered with the keys found the bucket not running.\<close>

lemma start_rekey_Inr:
  assumes "start_rekey B ops auth bucket s = (s', Inr sks)"
  shows "\<forall>p. dm_get (sh_rekey s) bucket \<noteq> Some (RekeyRunning p)"
  using assms
  by (auto simp: start_rekey_def share_run sget_def try_start_def
      dest!: require_bucket_Inr sh_authorize_frame open_own_bwk_frame split: option.splits)

lemma start_rekey_claims:
  assumes "sh_authorize B ops auth bucket AdminPerm s = (s1, Inr d)"
    and "op_bucket_exists ops (sh_store s) bucket = Inr True" and "op_get_bucket_config ops (sh_store s) bucket = Inr cfg"
    and "current_key cfg = Some newest" and "open_own_bwk B auth cfg bucket (kv_epoch newest) s1 = (s1, Inr bwk)"
    and "\<forall>p. dm_get (sh_rekey s) bucket \<noteq> Some (RekeyRunning p)"
  shows "start_rekey B ops auth bucket s
    = epoch_secrets B auth cfg bucket (kv_epoch newest) (bc_keys cfg) [] (s1\<lparr>sh_rekey := dm_insert bucket (RekeyRunning 0) (sh_rekey s)\<rparr>)"
proof -
  note f = sh_authorize_frame [OF assms(1)]
  have "require_bucket ops bucket s1 = (s1, Inr ())" "authoritative_config ops bucket s1 = (s1, Inr cfg)"
    using f assms(2,3) by (simp_all add: require_bucket_def sh_bucket_exists_def authoritative_config_def sbind_def sret_def)
  moreover have "try_start (sh_rekey s1) bucket = Inr (dm_insert bucket (RekeyRunning 0) (sh_rekey s))"
    using f assms(6) by (auto simp: try_start_def split: option.splits rekey_state.splits)
  ultimately show ?thesis
    using f assms(4) by (simp add: start_rekey_def sbind_def assms(1,5) sget_def supd_def)
qed

subsection \<open>Sample buckets\<close>

definition sample_slots :: grantee_slots where
  "sample_slots = \<lparr>gs_identity_pks_b64 = slot_pks keyed_prims (\<lambda>i. []) 0 CREDENTIAL_SLOTS, gs_authorized = [True, False, False, False]\<rparr>"

definition sample_kv :: "u32 \<Rightarrow> bucket_key_version" where
  "sample_kv epoch = (case new_bucket_key_version sample_bk_env epoch ''b'' [(''alice'', sample_slots)] of Inr (kv, _) \<Rightarrow> kv)"

definition sample_share :: "bucket_config \<Rightarrow> bucket_config option share_state" where
  "sample_share cfg = \<lparr>sh_session = claim_session, sh_sessions = \<lparr>st_inner = [], st_keyring = []\<rparr>, sh_rekey = [], sh_store = Some cfg\<rparr>"

lemma sample_share_simps [simp]:
  "sh_session (sample_share cfg) = claim_session" "sh_sessions (sample_share cfg) = \<lparr>st_inner = [], st_keyring = []\<rparr>"
  "sh_rekey (sample_share cfg) = []" "sh_store (sample_share cfg) = Some cfg"
  by (simp_all add: sample_share_def)

definition open_auth :: authenticated where
  "open_auth = (sample_auth User claim_session)\<lparr>au_authz_enforced := False\<rparr>"


lemma sample_slots_ok:
  "gs_identity_pks_b64 sample_slots = slot_pks (be_prims sample_bk_env) (\<lambda>i. []) 0 CREDENTIAL_SLOTS"
  "length (gs_authorized sample_slots) = CREDENTIAL_SLOTS" "gs_authorized sample_slots ! 0" "rand_ok sample_bk_env"
  by (simp_all add: sample_slots_def CREDENTIAL_SLOTS_def rand_ok_def)

lemma sample_kv_facts:
  "kv_epoch (sample_kv epoch) = epoch"
  "b64_decode keyed_prims (kv_public_key_b64 (sample_kv epoch)) = Some (fst (keypair keyed_prims []))"
  "find_epoch cfg ''b'' epoch = Inr (sample_kv epoch) \<Longrightarrow>
     open_verified_bwk sample_bk_env cfg ''b'' epoch ''alice'' 0 (snd (keypair keyed_prims [])) = Inr (replicate 32 1)"
proof -
  have seed: "be_seed sample_bk_env = []" by (simp add: sample_bk_env_def)
  have P: "prims_ok (be_prims sample_bk_env)" using keyed_prims_ok by simp
  obtain kv sealed where kv: "new_bucket_key_version sample_bk_env epoch ''b'' [(''alice'', sample_slots)] = Inr (kv, be_bwk sample_bk_env)"
    "kv_epoch kv = epoch" "kv_public_key_b64 kv = b64_encode (be_prims sample_bk_env) (fst (keypair (be_prims sample_bk_env) (be_seed sample_bk_env)))"
    "unwrap_with_key (be_prims sample_bk_env) (kv_sk_blob kv) (be_bwk sample_bk_env) (bucket_sk_wrap_aad ''b'' epoch)
      = Inr (snd (keypair (be_prims sample_bk_env) (be_seed sample_bk_env)))"
    "dm_get (kv_grants kv) ''alice'' = Some sealed" "seal_grant_slots sample_bk_env ''b'' epoch ''alice'' sample_slots (be_bwk sample_bk_env) = Inr sealed"
    using new_version_single [OF P sample_slots_ok(4,1,2), where epoch = epoch and bucket = "''b''" and user = "''alice''"] .
  have k: "sample_kv epoch = kv" by (simp add: sample_kv_def kv(1))
  show "kv_epoch (sample_kv epoch) = epoch" "b64_decode keyed_prims (kv_public_key_b64 (sample_kv epoch)) = Some (fst (keypair keyed_prims []))"
    unfolding k using kv(2,3) keyed_prims_ok seed by simp_all
  assume f: "find_epoch cfg ''b'' epoch = Inr (sample_kv epoch)"
  have "open_bwk sample_bk_env cfg ''b'' epoch ''alice'' 0 (snd (keypair keyed_prims [])) = Inr (replicate 32 1)"
    using open_bwk_slot [OF P sample_slots_ok(4) _ sample_slots_ok(1,2) kv(5), where bucket = "''b''" and B' = sample_bk_env and config = cfg and i = 0
        and bwk = "be_bwk sample_bk_env"] kv(2,6) f sample_slots_ok(3)
    by (simp add: k slot_plain_def CREDENTIAL_SLOTS_def)
  then show "open_verified_bwk sample_bk_env cfg ''b'' epoch ''alice'' 0 (snd (keypair keyed_prims [])) = Inr (replicate 32 1)"
    using f kv(4) seed by (simp add: k open_verified_bwk_def)
qed

lemma sample_kv_blob: "gcm_open keyed_prims (replicate 32 2) (ws_nonce (kv_sk_blob (sample_kv epoch))) aad (ws_ciphertext (kv_sk_blob (sample_kv epoch))) = None"
proof -
  have P: "prims_ok (be_prims sample_bk_env)" using keyed_prims_ok by simp
  obtain kv where kv: "new_bucket_key_version sample_bk_env epoch ''b'' [(''alice'', sample_slots)] = Inr (kv, be_bwk sample_bk_env)"
    "gcm_seal (be_prims sample_bk_env) (be_bwk sample_bk_env) (be_wrap_nonce sample_bk_env) (bucket_sk_wrap_aad ''b'' epoch)
      (snd (keypair (be_prims sample_bk_env) (be_seed sample_bk_env))) = Some (ws_ciphertext (kv_sk_blob kv))"
    using new_version_single [OF P sample_slots_ok(4,1,2), where epoch = epoch and bucket = "''b''" and user = "''alice''"] .
  have "sample_kv epoch = kv" by (simp add: sample_kv_def kv(1))
  moreover have "gcm_open keyed_prims (replicate 32 2) n a ct = None" if "gcm_seal keyed_prims (replicate 32 1) n' a' p = Some ct" for n a n' a' p ct
    using that by (auto simp: keyed_prims_def)
  ultimately show ?thesis using kv(2) by simp
qed

lemma sample_open_own:
  assumes "find_epoch cfg ''b'' epoch = Inr (sample_kv epoch)"
  shows "open_own_bwk sample_bk_env open_auth cfg ''b'' epoch (sample_share cfg') = (sample_share cfg', Inr (replicate 32 1))"
proof -
  have "snd (keypair keyed_prims []) = replicate 2400 0" by (simp add: keypair_def keyed_prims_def plain_prims_def)
  moreover have "open_identity_sk (be_sec sample_bk_env) claim_session = Inr (replicate 2400 0)"
    by (simp add: open_identity_sk_def open_identity_def claim_session_def sample_session_def MemoryKey_open_def backend_def sample_bk_env_def
        keyed_prims_def sample_env_def)
  ultimately show ?thesis using sample_kv_facts(3) [OF assms]
    by (simp add: open_own_bwk_def with_identity_sk_def sample_share_def open_auth_def claim_session_def)
qed

lemma sample_authorize: "required \<noteq> Write \<Longrightarrow>
  sh_authorize sample_bk_env sample_ops open_auth ''b'' required (sample_share cfg) = (sample_share cfg, Inr Allowed)"
  by (simp add: sh_authorize_def authorize_bucket_def open_auth_def sample_share_def)

text \<open>A bucket with two epochs, the older of which grants nobody anything.\<close>

definition two_epochs :: bucket_config where
  "two_epochs = default_bucket_config\<lparr>bc_owner := Some ''alice'', bc_keys := [(sample_kv 0)\<lparr>kv_grants := []\<rparr>, sample_kv 1]\<rparr>"

text \<open>A bucket without objects, whose key is rotated while the rekey job runs.\<close>

definition no_objects :: "bucket_config option object_ops" where
  "no_objects = \<lparr>ob_list_objects = (\<lambda>b opts st. (st, Inr \<lparr>lp_items = [], lp_next = None\<rparr>)), ob_get = (\<lambda>b k st. (st, Inl (NotFound b k))),
     ob_describe = (\<lambda>b k st. (st, Inl (NotFound b k))), ob_begin_streaming_put = (\<lambda>b k st. (st, Inl (NotFound b k))),
     ob_commit = (\<lambda>b k f opts pm cm st. (st, Inl (NotFound b k))), ob_drop_guard = (\<lambda>b k st. st)\<rparr>"

definition one_epoch :: bucket_config where
  "one_epoch = default_bucket_config\<lparr>bc_owner := Some ''alice'', bc_keys := [sample_kv 0]\<rparr>"

definition rotated_meanwhile :: "nat \<Rightarrow> bucket_config option \<Rightarrow> bucket_config option" where
  "rotated_meanwhile i st = map_option (\<lambda>cfg. cfg\<lparr>bc_keys := bc_keys cfg @ [sample_kv 1]\<rparr>) st"

definition sample_rekey :: rekey_env where
  "sample_rekey = \<lparr>re_bk = sample_bk_env, re_display = (\<lambda>e. []), re_rand = (\<lambda>k. ([], replicate 12 0)), re_chunk_size = 4\<rparr>"


end
