(* ===== verification/Rekey_Laws.thy ===== *)
theory Rekey_Laws
  imports Bucket_Sharing_Laws Cipher_Laws
begin

text \<open>
  What a rekey does to one object: it is stored again under the newest epoch of its bucket with the same content, size and
  labels. The writer it uses is the streaming one with the body in one piece; where it succeeds, it met no failure.
\<close>

lemma encrypt_bytes_is_stream:
  "encrypt_bytes_for_put P rnd nb pk ke plaintext f bucket key off cs = stream_encrypt_for_put P rnd nb pk ke [Inr plaintext] f bucket key off cs None"
  by (simp add: encrypt_bytes_for_put_def stream_encrypt_for_put_def Let_def split: sum.splits option.splits bind_splits)

lemma decrypted_length: "decrypt P sk env bucket key n = Inr plaintext \<Longrightarrow> length plaintext = unat n"
  by (auto simp: decrypt_def decrypt_v3_def decrypt_v4_def finish_plaintext_def Let_def split: if_splits)

lemma decrypt_after_get_Inr: "decrypt_after_get P sk bucket key env n = Inr plaintext \<longleftrightarrow> decrypt P sk env bucket key n = Inr plaintext"
  by (simp add: decrypt_after_get_def decrypt_owned_eq_decrypt)

text \<open>A buffer that is sealed is read back by whoever holds the secret key.\<close>

lemma sealed_bytes_read_back:
  assumes laws: "aead_correct P" "kem_correct P" "hkdf_total P"
    and kp: "keypair P seed = (pk, sk)" and nb: "length nb = 12"
    and cs: "0 < cs" "cs < 2 ^ 32" and len: "length plaintext \<le> 2 ^ 63"
    and fl: "sk_faults f = []" "sk_pos f = length (sk_data f)"
  obtains f' pm cm where "encrypt_bytes_for_put P rnd nb pk ke plaintext f bucket key (length (sk_data f)) cs = Some (Inr (f', pm, cm))"
    and "pm_size pm = of_nat (length plaintext)" and "pm_checksum_gxhash_b64 pm = checksum_b64 P plaintext" and "cm_key_epoch cm = ke"
    and "take (length (sk_data f)) (sk_data f') = sk_data f"
    and "decrypt_after_get P sk bucket key (drop (length (sk_data f)) (sk_data f')) (of_nat (length plaintext)) = Inr plaintext"
proof -
  have len': "length (concat [plaintext]) \<le> 2 ^ 63" using len by simp
  obtain f' pm cm kem_ct k chunks where u: "stream_encrypt_for_put P rnd nb pk ke [Inr plaintext] f bucket key (length (sk_data f)) cs None
      = Some (Inr (f', pm, cm))"
    "sk_data f' = sk_data f @ envelope_of P k ke nb cs kem_ct (of_nat (length (concat chunks))) chunks"
    "pm_size pm = of_nat (length plaintext)" "pm_checksum_gxhash_b64 pm = checksum_b64 P plaintext"
    "chunked cs chunks" "take (length plaintext) (concat chunks) = plaintext"
    "length (concat chunks) = unat (padme_len (of_nat (length plaintext)))" "length plaintext \<le> length (concat chunks)"
    "length kem_ct = CIPHERTEXT_BYTES" "open_content_key P sk kem_ct bucket key = Inr k" "cm_key_epoch cm = ke"
    by (rule upload_run [OF laws kp nb cs len' fl, where max_bytes = None and rnd = rnd and ke = ke and bucket = bucket and key = key]) auto
  have un: "unat (of_nat (length plaintext) :: u64) = length plaintext" using len by (intro unat_of_nat_u64) simp
  have clen: "unat (of_nat (length (concat chunks)) :: u64) = length (concat chunks)" using u(7) by simp
  have "decrypt P sk (envelope_of P k ke nb cs kem_ct (of_nat (length (concat chunks))) chunks) bucket key (of_nat (length plaintext))
      = Inr (take (unat (of_nat (length plaintext) :: u64)) (concat chunks))"
    by (rule decrypt_envelope_of [OF laws(1) nb u(9) cs u(10,5) clen]) (simp add: un u(8))
  then show ?thesis using u by (intro that [of f' pm cm]) (simp_all add: encrypt_bytes_is_stream decrypt_after_get_Inr un)
qed

subsection \<open>An encryption that succeeds met no failure\<close>

text \<open>\<open>calm\<close>: the same file with no failures to come. A writer that got through wrote what it would have written there.\<close>

definition calm :: "sink \<Rightarrow> sink" where
  "calm f = f\<lparr>sk_faults := []\<rparr>"

definition calm_es :: "encrypt_session \<Rightarrow> encrypt_session" where
  "calm_es s = s\<lparr>es_sink := calm (es_sink s)\<rparr>"

lemma calm_simps [simp]:
  "sk_data (calm f) = sk_data f" "sk_pos (calm f) = sk_pos f" "sk_faults (calm f) = []"
  "es_sink (calm_es s) = calm (es_sink s)" "es_cipher (calm_es s) = es_cipher s" "es_nonce_base (calm_es s) = es_nonce_base s"
  "es_chunk_idx (calm_es s) = es_chunk_idx s" "es_staging (calm_es s) = es_staging s" "es_pending (calm_es s) = es_pending s"
  "es_plaintext_total (calm_es s) = es_plaintext_total s" "es_aad_base (calm_es s) = es_aad_base s"
  "es_bytes_written (calm_es s) = es_bytes_written s" "es_write_offset (calm_es s) = es_write_offset s"
  "es_chunk_size (calm_es s) = es_chunk_size s" "es_key_epoch (calm_es s) = es_key_epoch s" "es_hasher (calm_es s) = es_hasher s"
  "already_absorbed (calm_es s) = already_absorbed s"
  by (simp_all add: calm_def calm_es_def already_absorbed_def)

lemma calm_es_update [simp]:
  "(calm_es s)\<lparr>es_pending := p\<rparr> = calm_es (s\<lparr>es_pending := p\<rparr>)" "(calm_es s)\<lparr>es_staging := t\<rparr> = calm_es (s\<lparr>es_staging := t\<rparr>)"
  by (simp_all add: calm_es_def)

lemma calm_io: "sink_io f = Some f' \<Longrightarrow> \<exists>fs. f' = f\<lparr>sk_faults := fs\<rparr>"
  by (auto simp: sink_io_def split: list.splits if_splits intro: exI [of _ "sk_faults f"])

lemma calm_ops:
  "sink_write_all f bs = Some f' \<Longrightarrow> sink_write_all (calm f) bs = Some (calm f')"
  "sink_write_all_at f bs off = Some f' \<Longrightarrow> sink_write_all_at (calm f) bs off = Some (calm f')"
  "sink_seek_to_end f = Some f' \<Longrightarrow> sink_seek_to_end (calm f) = Some (calm f')"
  unfolding sink_write_all_def sink_write_all_at_def sink_seek_to_end_def by (auto simp: calm_def dest!: calm_io)

lemma calm_new:
  "EncryptSession_new P rnd nb f pk ke bucket key off cs = Inr s \<Longrightarrow> EncryptSession_new P rnd nb (calm f) pk ke bucket key off cs = Inr (calm_es s)"
  by (cases "encapsulate P (case PublicKey_from_bytes P pk of Inr x \<Rightarrow> x) rnd")
    (auto simp: EncryptSession_new_def Let_def calm_es_def calm_ops split: if_splits)

lemma calm_flush: "flush_raw P s data fin = Inr s' \<Longrightarrow> flush_raw P (calm_es s) data fin = Inr (calm_es s')"
  by (auto simp: flush_raw_def calm_es_def calm_ops(1))

lemma calm_promote: "promote_staging P s = Inr s' \<Longrightarrow> promote_staging P (calm_es s) = Inr (calm_es s')"
  by (auto simp: promote_staging_def calm_flush split: option.splits)

lemma calm_absorb: "absorb P s bs = Inr s' \<Longrightarrow> absorb P (calm_es s) bs = Inr (calm_es s')"
  by (auto simp: absorb_def Let_def calm_promote split: if_splits)

lemma calm_feed: "feed P s bs = Some (Inr s') \<Longrightarrow> feed P (calm_es s) bs = Some (Inr (calm_es s'))"
proof -
  have "feed P s bs = Some r \<Longrightarrow> \<forall>s'. r = Inr s' \<longrightarrow> feed P (calm_es s) bs = Some (Inr (calm_es s'))" for r
  proof (rule feed.raw_induct [of "\<lambda>((P, s), bs) r. \<forall>s'. r = Inr s' \<longrightarrow> feed P (calm_es s) bs = Some (Inr (calm_es s'))", unfolded prod.case], goal_cases)
    case (1 feed' P s bs r)
    then show ?case
      by (subst feed.simps) (auto simp: Let_def calm_absorb split: if_splits sum.split_asm)
  qed
  then show "feed P s bs = Some (Inr s') \<Longrightarrow> feed P (calm_es s) bs = Some (Inr (calm_es s'))" by blast
qed

lemma calm_pad: "pad_loop P s n = Some (Inr s') \<Longrightarrow> pad_loop P (calm_es s) n = Some (Inr (calm_es s'))"
proof -
  have "pad_loop P s n = Some r \<Longrightarrow> \<forall>s'. r = Inr s' \<longrightarrow> pad_loop P (calm_es s) n = Some (Inr (calm_es s'))" for r
  proof (rule pad_loop.raw_induct [of "\<lambda>((P, s), n) r. \<forall>s'. r = Inr s' \<longrightarrow> pad_loop P (calm_es s) n = Some (Inr (calm_es s'))", unfolded prod.case], goal_cases)
    case (1 pad_loop' P s n r)
    then show ?case
      by (subst pad_loop.simps) (auto simp: Let_def calm_absorb split: if_splits sum.split_asm)
  qed
  then show "pad_loop P s n = Some (Inr s') \<Longrightarrow> pad_loop P (calm_es s) n = Some (Inr (calm_es s'))" by blast
qed

lemma calm_tail: "flush_tail P s = Inr s' \<Longrightarrow> flush_tail P (calm_es s) = Inr (calm_es s')"
  by (auto simp: flush_tail_def calm_flush split: option.splits if_splits)

lemma calm_finish: "finish_session P s = Some (Inr (f, info)) \<Longrightarrow> finish_session P (calm_es s) = Some (Inr (calm f, info))"
  by (auto simp: finish_session_def Let_def calm_pad calm_tail calm_ops)

lemma calm_encrypt:
  assumes "encrypt_bytes_for_put P rnd nb pk ke plaintext f bucket key off cs = Some (Inr (f', pm, cm))"
  shows "encrypt_bytes_for_put P rnd nb pk ke plaintext (calm f) bucket key off cs = Some (Inr (calm f', pm, cm))"
proof -
  obtain s where s: "EncryptSession_new P rnd nb f pk ke bucket key off cs = Inr s"
    using assms by (cases "EncryptSession_new P rnd nb f pk ke bucket key off cs") (simp_all add: encrypt_bytes_for_put_def)
  obtain r where r: "feed P s plaintext = Some r" using assms s by (auto simp: encrypt_bytes_for_put_def bind_eq_Some_conv)
  obtain s2 where s2: "r = Inr s2" using assms s r by (cases r) (simp_all add: encrypt_bytes_for_put_def)
  obtain info where "finish_session P s2 = Some (Inr (f', info))" "cm = to_cipher_metadata info"
    using assms s r s2 by (auto simp: encrypt_bytes_for_put_def finish_put_def)
  then show ?thesis
    using assms s r s2 calm_new [OF s] calm_feed [of P s plaintext s2] calm_finish [of P s2 f' info]
    by (simp add: encrypt_bytes_for_put_def finish_put_def)
qed

subsection \<open>One object of a rekey\<close>

lemma rekey_object_Inr:
  assumes "rekey_object R Ob bucket sks new_pk new_epoch key old_epoch st = Some (st', Inr ())" and "re_rand R key = (rnd, nb)"
  obtains old_sk st1 obj st2 md plaintext st3 f off f' pm cm b where "dm_get sks old_epoch = Some old_sk"
    and "ob_get Ob bucket key st = (st1, Inr obj)" and "ob_describe Ob bucket key st1 = (st2, Inr md)"
    and "decrypt_after_get (be_prims (re_bk R)) old_sk bucket key obj (md_size md) = Inr plaintext"
    and "ob_begin_streaming_put Ob bucket key st2 = (st3, Inr (f, off))"
    and "encrypt_bytes_for_put (be_prims (re_bk R)) rnd nb new_pk new_epoch plaintext f bucket key off (re_chunk_size R) = Some (Inr (f', pm, cm))"
    and "ob_commit Ob bucket key f' \<lparr>po_labels = md_labels md, po_sync = Durable, po_plaintext_metrics = None,
             po_cipher_metadata = None, po_version = None\<rparr> pm cm st3 = (st', Inr b)"
  using assms by (auto simp: rekey_object_def Let_def split: option.splits prod.splits sum.splits intro: that)

text \<open>C12. A rekey of an object that reports success has read the object and its description, opened the object with the cached key of
  its old epoch, and committed it again under the new epoch. What it committed, after the part of the file that the storage had reserved and
  that is untouched, is an envelope that the new secret key opens to the same plaintext, recorded with the same size, its checksum
  and the same labels. This holds whatever failures the writes of the envelope might have met; the size of the object is at most \<open>2 ^ 63\<close>, and
  the storage hands out the staging file positioned at its end.\<close>

theorem rekey_keeps_object:
  assumes P: "P = be_prims (re_bk R)" and laws: "aead_correct P" "kem_correct P" "hkdf_total P"
    and kp: "keypair P seed = (new_pk, new_sk)" and nb: "length (snd (re_rand R key)) = 12"
    and cs: "0 < re_chunk_size R" "re_chunk_size R < 2 ^ 32"
    and size: "\<And>st st' md. ob_describe Ob bucket key st = (st', Inr md) \<Longrightarrow> unat (md_size md) \<le> 2 ^ 63"
    and staged: "\<And>st st' f off. ob_begin_streaming_put Ob bucket key st = (st', Inr (f, off)) \<Longrightarrow> sk_pos f = length (sk_data f) \<and> off = length (sk_data f)"
    and run: "rekey_object R Ob bucket sks new_pk new_epoch key old_epoch st = Some (st', Inr ())"
  shows "\<exists>old_sk st1 obj st2 md plaintext st3 f off f' pm cm b. dm_get sks old_epoch = Some old_sk
    \<and> ob_get Ob bucket key st = (st1, Inr obj) \<and> ob_describe Ob bucket key st1 = (st2, Inr md)
    \<and> decrypt_after_get P old_sk bucket key obj (md_size md) = Inr plaintext
    \<and> ob_begin_streaming_put Ob bucket key st2 = (st3, Inr (f, off))
    \<and> ob_commit Ob bucket key f' \<lparr>po_labels = md_labels md, po_sync = Durable, po_plaintext_metrics = None,
         po_cipher_metadata = None, po_version = None\<rparr> pm cm st3 = (st', Inr b)
    \<and> take off (sk_data f') = sk_data f \<and> decrypt_after_get P new_sk bucket key (drop off (sk_data f')) (pm_size pm) = Inr plaintext
    \<and> pm_size pm = md_size md \<and> pm_checksum_gxhash_b64 pm = checksum_b64 P plaintext \<and> cm_key_epoch cm = new_epoch"
proof -
  obtain rnd nb where rnd: "re_rand R key = (rnd, nb)" by (cases "re_rand R key")
  obtain old_sk st1 obj st2 md plaintext st3 f off f' pm cm b where o: "dm_get sks old_epoch = Some old_sk"
    "ob_get Ob bucket key st = (st1, Inr obj)" "ob_describe Ob bucket key st1 = (st2, Inr md)"
    "decrypt_after_get P old_sk bucket key obj (md_size md) = Inr plaintext"
    "ob_begin_streaming_put Ob bucket key st2 = (st3, Inr (f, off))"
    "encrypt_bytes_for_put P rnd nb new_pk new_epoch plaintext f bucket key off (re_chunk_size R) = Some (Inr (f', pm, cm))"
    "ob_commit Ob bucket key f' \<lparr>po_labels = md_labels md, po_sync = Durable, po_plaintext_metrics = None,
         po_cipher_metadata = None, po_version = None\<rparr> pm cm st3 = (st', Inr b)"
    using rekey_object_Inr [OF run rnd] unfolding P .
  have n: "length plaintext = unat (md_size md)" using o(4) decrypted_length by (auto simp: decrypt_after_get_Inr)
  then have len: "length plaintext \<le> 2 ^ 63" and md: "of_nat (length plaintext) = md_size md" using size [OF o(3)] by simp_all
  have off: "sk_pos (calm f) = length (sk_data (calm f))" "off = length (sk_data f)" using staged [OF o(5)] by simp_all
  have nb12: "length nb = 12" using nb rnd by simp
  obtain f2 pm2 cm2 where e: "encrypt_bytes_for_put P rnd nb new_pk new_epoch plaintext (calm f) bucket key (length (sk_data (calm f))) (re_chunk_size R)
      = Some (Inr (f2, pm2, cm2))" "pm_size pm2 = of_nat (length plaintext)" "pm_checksum_gxhash_b64 pm2 = checksum_b64 P plaintext"
    "cm_key_epoch cm2 = new_epoch" "take (length (sk_data (calm f))) (sk_data f2) = sk_data (calm f)"
    "decrypt_after_get P new_sk bucket key (drop (length (sk_data (calm f))) (sk_data f2)) (of_nat (length plaintext)) = Inr plaintext"
    using sealed_bytes_read_back [OF laws kp nb12 cs len calm_simps(3) off(1)] by metis
  have "f2 = calm f' \<and> pm2 = pm \<and> cm2 = cm" using calm_encrypt [OF o(6)] e(1) off(2) by simp
  then show ?thesis using o e md off(2) by fastforce
qed

text \<open>An object that is read, opened and stored again.\<close>

definition one_object :: "bytes \<Rightarrow> bytes object_ops" where
  "one_object obj = \<lparr>ob_list_objects = (\<lambda>b opts st. (st, Inr \<lparr>lp_items = [], lp_next = None\<rparr>)), ob_get = (\<lambda>b k st. (st, Inr obj)),
     ob_describe = (\<lambda>b k st. (st, Inr (sample_md\<lparr>md_size := 3\<rparr>))),
     ob_begin_streaming_put = (\<lambda>b k st. (st, Inr (\<lparr>sk_data = [], sk_pos = 0, sk_faults = []\<rparr>, 0))),
     ob_commit = (\<lambda>b k f opts pm cm st. (sk_data f, Inr False)), ob_drop_guard = (\<lambda>b k st. st)\<rparr>"

theorem rekey_keeps_object_witness:
  "\<exists>obj env. rekey_object sample_rekey (one_object obj) ''b'' [(0, snd (keypair keyed_prims []))] (fst (keypair keyed_prims [])) 1 ''k'' 0 [] = Some (env, Inr ())
     \<and> decrypt_after_get keyed_prims (snd (keypair keyed_prims [])) ''b'' ''k'' obj 3 = Inr [1, 2, 3]
     \<and> decrypt_after_get keyed_prims (snd (keypair keyed_prims [])) ''b'' ''k'' env 3 = Inr [1, 2, 3]"
proof -
  have laws: "aead_correct keyed_prims" "kem_correct keyed_prims" "hkdf_total keyed_prims" using keyed_prims_ok by (simp_all add: prims_ok_def)
  obtain pk sk where kp: "keypair keyed_prims [] = (pk, sk)" by (cases "keypair keyed_prims []")
  let ?f = "\<lparr>sk_data = [], sk_pos = 0, sk_faults = []\<rparr> :: sink"
  have l: "length (replicate 12 0 :: bytes) = 12" "0 < (4 :: nat)" "(4 :: nat) < 2 ^ 32" "length ([1, 2, 3] :: bytes) \<le> 2 ^ 63"
    "sk_faults ?f = []" "sk_pos ?f = length (sk_data ?f)" by simp_all
  obtain f0 :: sink where "decrypt_after_get keyed_prims sk ''b'' ''k'' (drop (length (sk_data ?f)) (sk_data f0)) (of_nat (length ([1, 2, 3] :: bytes))) = Inr [1, 2, 3]"
    using sealed_bytes_read_back [OF laws kp l, where rnd = "[]" and ke = 0 and bucket = "''b''" and key = "''k''"] .
  then have f0: "decrypt_after_get keyed_prims sk ''b'' ''k'' (sk_data f0) 3 = Inr [1, 2, 3]" by simp
  let ?obj = "sk_data f0"
  obtain f1 pm1 cm1 where "encrypt_bytes_for_put keyed_prims [] (replicate 12 0) pk 1 [1, 2, 3] ?f ''b'' ''k'' (length (sk_data ?f)) 4 = Some (Inr (f1, pm1, cm1))"
    using sealed_bytes_read_back [OF laws kp l, where rnd = "[]" and ke = 1 and bucket = "''b''" and key = "''k''"] .
  then have run: "rekey_object sample_rekey (one_object ?obj) ''b'' [(0, sk)] pk 1 ''k'' 0 [] = Some (sk_data f1, Inr ())"
    using f0 by (simp add: rekey_object_def sample_rekey_def one_object_def)
  have "decrypt_after_get keyed_prims sk ''b'' ''k'' (sk_data f1) 3 = Inr [1, 2, 3]"
    using rekey_keeps_object [OF _ laws kp _ _ _ _ _ run] f0 by (auto simp: sample_rekey_def one_object_def)
  then show ?thesis using f0 kp run by auto
qed

end
