(* ===== verification/Rekey_Registry.thy ===== *)
theory Rekey_Registry
  imports Bucket_Sharing_Laws
begin

text \<open>
  The registry of rekey jobs (\<open>handlers/keys.rs\<close>) over the life of the daemon: which handlers leave it alone, a step relation on the
  shared state and the jobs that are running, and two facts about the reachable states. At most one job runs per bucket, and it is entered
  as running; and a bucket that is entered as running without a job stays so.
\<close>

subsection \<open>The registry of rekey jobs over time\<close>

text \<open>Handlers that leave the registry as it is.\<close>

definition keeps_rekey :: "('st, 'a) share_comp \<Rightarrow> bool" where
  "keeps_rekey m \<longleftrightarrow> (\<forall>s. sh_rekey (fst (m s)) = sh_rekey s)"

lemma keeps_rekeyD: "keeps_rekey m \<Longrightarrow> m s = (s', r) \<Longrightarrow> sh_rekey s' = sh_rekey s"
  unfolding keeps_rekey_def by (metis fst_conv)

lemma keeps_rekey_basic [simp, intro]:
  "keeps_rekey (sret x)" "keeps_rekey (sfail e)" "keeps_rekey (slift r)" "keeps_rekey (app r')" "keeps_rekey (sget f)"
  "keeps_rekey (sh_bucket_exists ops bucket)" "keeps_rekey (authoritative_config ops bucket)" "keeps_rekey (persist_config ops bucket cfg)"
  "keeps_rekey (sh_authorize B ops auth bucket required)" "keeps_rekey (with_identity_sk B g)"
  by (auto simp: keeps_rekey_def sret_def sfail_def slift_def app_def sget_def sh_bucket_exists_def authoritative_config_def persist_config_def
      sh_authorize_def with_identity_sk_def split: prod.splits)

lemma require_keeps [simp, intro]: "keeps_rekey (require_bucket ops bucket)"
  by (auto simp: keeps_rekey_def require_bucket_def sbind_def sh_bucket_exists_def sret_def sfail_def split: sum.splits)

lemma keeps_rekey_supd [intro]: "(\<And>s. sh_rekey (f s) = sh_rekey s) \<Longrightarrow> keeps_rekey (supd f)"
  by (simp add: keeps_rekey_def supd_def)

lemma keeps_rekey_sbind [intro]: "keeps_rekey m \<Longrightarrow> (\<And>x. keeps_rekey (f x)) \<Longrightarrow> keeps_rekey (sbind m f)"
  by (auto simp: keeps_rekey_def sbind_def split: prod.splits sum.splits) (metis fst_conv)+

lemma keeps_rekey_stry [intro]: "keeps_rekey m \<Longrightarrow> keeps_rekey (stry m)"
  by (auto simp: keeps_rekey_def stry_def split: prod.splits) (metis fst_conv)

lemma keeps_rekey_cases [intro]:
  "(b \<Longrightarrow> keeps_rekey m) \<Longrightarrow> (\<not> b \<Longrightarrow> keeps_rekey m') \<Longrightarrow> keeps_rekey (if b then m else m')"
  "keeps_rekey m \<Longrightarrow> (\<And>x. keeps_rekey (f x)) \<Longrightarrow> keeps_rekey (case x of None \<Rightarrow> m | Some x \<Rightarrow> f x)"
  "(\<And>y. keeps_rekey (h y)) \<Longrightarrow> (\<And>y. keeps_rekey (g y)) \<Longrightarrow> keeps_rekey (case r of Inl y \<Rightarrow> h y | Inr y \<Rightarrow> g y)"
  "(\<And>a c. keeps_rekey (k a c)) \<Longrightarrow> keeps_rekey (case p of (a, c) \<Rightarrow> k a c)"
  by (auto split: option.splits sum.splits prod.splits)

lemma revoke_keeps_rekey [intro]:
  "keeps_rekey (revoke_one B get_user bucket bwk user kv)" "keeps_rekey (revoke_all B get_user bucket bwk users kv)"
proof -
  show one: "keeps_rekey (revoke_one B get_user bucket bwk user kv)" for user kv
    unfolding revoke_one_def by (intro keeps_rekey_sbind keeps_rekey_supd) auto
  show "keeps_rekey (revoke_all B get_user bucket bwk users kv)" by (induction users arbitrary: kv) (auto intro: one)
qed

lemma acl_keeps_rekey:
  "keeps_rekey (get_acl B ops auth bucket)" "keeps_rekey (set_acl B ops get_user auth bucket body)"
  "keeps_rekey (rotate_key B ops get_user auth bucket)" "keeps_rekey (rekey_status B ops auth bucket)"
  unfolding get_acl_def set_acl_def rotate_key_def rekey_status_def seal_acl_change_def reseal_grants_def open_own_bwk_def Let_def
  by (intro keeps_rekey_sbind keeps_rekey_cases keeps_rekey_basic require_keeps revoke_keeps_rekey)+

lemma share_keeps_rekey: "keeps_rekey (share_or_revoke B ops get_user auth slot buckets authorize_target)"
proof -
  have epoch: "keeps_rekey (share_epoch B ops auth bucket pks target a i acc)" for bucket pks target a i acc
    unfolding share_epoch_def open_own_bwk_def by (intro keeps_rekey_sbind keeps_rekey_cases keeps_rekey_basic keeps_rekey_stry)
  have epochs: "keeps_rekey (share_epochs B ops auth bucket pks target a is acc)" for bucket pks target a "is" acc
    by (induction "is" arbitrary: acc) (auto intro: epoch)
  have "keeps_rekey (share_buckets B ops auth pks target a bs)" for pks target a bs
  proof (induction bs)
    case (Cons b bs)
    then show ?case unfolding share_buckets.simps by (intro keeps_rekey_sbind keeps_rekey_cases keeps_rekey_basic epochs)
  qed simp
  then show ?thesis
    unfolding share_or_revoke_def by (intro keeps_rekey_sbind keeps_rekey_cases keeps_rekey_basic keeps_rekey_supd) auto
qed

text \<open>The daemon as the registry sees it: the shared state and the buckets whose rekey jobs are running. A request is made by some session;
  one that is answered with the keys has its job spawned. A running job records its progress and, unless it panics, how it ended, while
  requests that do not concern the registry change the sessions and the storage at any time.\<close>

type_synonym 'st rekey_world = "'st share_state \<times> string list"

inductive rekey_step :: "'st storage_ops \<Rightarrow> 'st rekey_world \<Rightarrow> 'st rekey_world \<Rightarrow> bool" for ops where
  spawn: "start_rekey B ops auth bucket (s\<lparr>sh_session := session\<rparr>) = (s', Inr sks) \<Longrightarrow> rekey_step ops (s, J) (s', bucket # J)"
| refuse: "start_rekey B ops auth bucket (s\<lparr>sh_session := session\<rparr>) = (s', Inl e) \<Longrightarrow> rekey_step ops (s, J) (s', J)"
| progress: "bucket \<in> set J \<Longrightarrow>
    rekey_step ops (s, J) (s\<lparr>sh_store := st, sh_rekey := dm_insert bucket (RekeyRunning percent) (sh_rekey s)\<rparr>, J)"
| finish: "bucket \<in> set J \<Longrightarrow>
    rekey_step ops (s, J) (s\<lparr>sh_rekey := dm_insert bucket (case (r :: string + unit) of Inr _ \<Rightarrow> RekeyCompleted | Inl msg \<Rightarrow> RekeyFailed msg) (sh_rekey s)\<rparr>,
      remove1 bucket J)"
| panic: "bucket \<in> set J \<Longrightarrow> rekey_step ops (s, J) (s, remove1 bucket J)"
| acl: "set_acl B ops get_user auth bucket body (s\<lparr>sh_session := session\<rparr>) = (s', r) \<Longrightarrow> rekey_step ops (s, J) (s', J)"
| rotate: "rotate_key B ops get_user auth bucket (s\<lparr>sh_session := session\<rparr>) = (s', r) \<Longrightarrow> rekey_step ops (s, J) (s', J)"
| persona: "share_or_revoke B ops get_user auth slot buckets a (s\<lparr>sh_session := session\<rparr>) = (s', r) \<Longrightarrow> rekey_step ops (s, J) (s', J)"
| other: "rekey_step ops (s, J) (s\<lparr>sh_session := session, sh_sessions := sessions, sh_store := st\<rparr>, J)"

inductive rekey_reach :: "'st storage_ops \<Rightarrow> 'st rekey_world \<Rightarrow> bool" for ops where
  startup: "sh_rekey s = [] \<Longrightarrow> rekey_reach ops (s, [])"
| later: "rekey_reach ops w \<Longrightarrow> rekey_step ops w w' \<Longrightarrow> rekey_reach ops w'"

text \<open>A whole run of a job is a sequence of such steps.\<close>

lemma store_step: "rekey_step ops (s, J) (s\<lparr>sh_store := st\<rparr>, J)"
  using rekey_step.other [where s = s and session = "sh_session s" and sessions = "sh_sessions s"] by simp

lemma store_steps: "(rekey_step ops)\<^sup>*\<^sup>* (s, J) (s\<lparr>sh_store := st\<rparr>, J)"
  by (rule r_into_rtranclp) (rule store_step)

lemma rekey_objects_steps:
  "rekey_objects R Ob W bucket sks pk e n i stale s = Some (s', r) \<Longrightarrow> bucket \<in> set J \<Longrightarrow> (rekey_step ops)\<^sup>*\<^sup>* (s, J) (s', J)"
proof (induction stale arbitrary: i s)
  case (Cons x stale)
  obtain key old where x: "x = (key, old)" by (cases x)
  obtain st r0 where o: "rekey_object R Ob bucket sks pk e key old (W i (sh_store s)) = Some (st, r0)"
    using Cons.prems(1) by (auto simp: x bind_eq_Some_conv)
  show ?case
  proof (cases r0)
    case (Inl e')
    then show ?thesis using Cons.prems(1) by (auto simp: x o intro: store_steps)
  next
    case (Inr u)
    let ?s = "s\<lparr>sh_store := st, sh_rekey := dm_insert bucket (RekeyRunning (of_nat (((i + 1) * 100) div max n 1))) (sh_rekey s)\<rparr>"
    have "(rekey_step ops)\<^sup>*\<^sup>* (?s, J) (s', J)" using Cons.IH [of "i + 1" ?s] Cons.prems by (simp add: x o Inr)
    then show ?thesis using rekey_step.progress [OF Cons.prems(2)] by (rule converse_rtranclp_into_rtranclp [rotated])
  qed
qed simp

lemma prune_epochs_steps: "prune_epochs R ops' bucket e s = (s', r) \<Longrightarrow> (rekey_step ops)\<^sup>*\<^sup>* (s, J) (s', J)"
  by (auto simp: prune_epochs_def intro: store_steps split: sum.splits prod.splits)

lemma run_rekey_steps:
  assumes "run_rekey R ops' Ob W bucket sks s = Some (s', r)" and "bucket \<in> set J"
  shows "(rekey_step ops)\<^sup>*\<^sup>* (s, J) (s', J)"
proof (cases "s' = s \<or> (\<exists>st. s' = s\<lparr>sh_store := st\<rparr>)")
  case False
  then obtain cfg kv pk where c: "op_get_bucket_config ops' (sh_store s) bucket = Inr cfg" "current_key cfg = Some kv"
    "b64_decode (be_prims (re_bk R)) (kv_public_key_b64 kv) = Some pk"
    using assms(1) by (auto simp: run_rekey_def split: sum.splits option.splits)
  obtain st rk where k': "collect_stale_keys Ob bucket (kv_epoch kv) None [] (sh_store s) = Some (st, rk)"
    using assms(1) by (auto simp: run_rekey_def c bind_eq_Some_conv)
  obtain stale where k: "collect_stale_keys Ob bucket (kv_epoch kv) None [] (sh_store s) = Some (st, Inr stale)"
    using assms(1) False k' by (cases rk) (auto simp: run_rekey_def c)
  obtain s1 r1 where o: "rekey_objects R Ob W bucket sks pk (kv_epoch kv) (length stale) 0 stale (s\<lparr>sh_store := st\<rparr>) = Some (s1, r1)"
    using assms(1) by (auto simp: run_rekey_def c k bind_eq_Some_conv)
  have p: "s' = s1 \<or> (\<exists>r2. prune_epochs R ops' bucket (kv_epoch kv) (s1\<lparr>sh_store := W (length stale) (sh_store s1)\<rparr>) = (s', r2))"
    using assms(1) by (cases r1) (auto simp: run_rekey_def c k o)
  have "(rekey_step ops)\<^sup>*\<^sup>* (s, J) (s1, J)"
    by (rule rtranclp_trans [OF store_steps rekey_objects_steps [OF o assms(2)]])
  moreover have "(rekey_step ops)\<^sup>*\<^sup>* (s1, J) (s', J)"
    using p by (auto intro: rtranclp_trans [OF store_steps prune_epochs_steps])
  ultimately show ?thesis by (rule rtranclp_trans)
qed (auto intro: store_steps)

lemma rekey_job_steps:
  assumes "rekey_job R ops' Ob W bucket sks s = Some s'"
  shows "(rekey_step ops)\<^sup>*\<^sup>* (s, bucket # J) (s', J)"
proof -
  obtain s1 r where r: "run_rekey R ops' Ob W bucket sks s = Some (s1, r)"
    and s': "s' = s1\<lparr>sh_rekey := dm_insert bucket (case (r :: string + unit) of Inr _ \<Rightarrow> RekeyCompleted | Inl msg \<Rightarrow> RekeyFailed msg) (sh_rekey s1)\<rparr>"
    using assms unfolding rekey_job_def map_option_eq_Some by auto
  have "rekey_step ops (s1, bucket # J) (s', J)" using rekey_step.finish [of bucket "bucket # J" ops s1 r] s' by simp
  with run_rekey_steps [OF r, of "bucket # J" ops] show ?thesis by (auto intro: rtranclp.rtrancl_into_rtrancl)
qed

subsection \<open>What the registry says\<close>

lemma start_rekey_cases:
  assumes "start_rekey B ops auth bucket s = (s', r)"
  shows "sh_rekey s' = sh_rekey s \<and> \<not> is_ok r
    \<or> (\<forall>p. dm_get (sh_rekey s) bucket \<noteq> Some (RekeyRunning p)) \<and> sh_rekey s' = dm_insert bucket (RekeyRunning 0) (sh_rekey s)"
proof -
  let ?err = "sh_rekey s' = sh_rekey s \<and> \<not> is_ok r"
  obtain sa ra where a: "sh_authorize B ops auth bucket AdminPerm s = (sa, ra)" by (cases "sh_authorize B ops auth bucket AdminPerm s")
  have fa: "sh_rekey sa = sh_rekey s" using keeps_rekeyD [OF keeps_rekey_basic(9) a] .
  obtain sb rb where b: "require_bucket ops bucket sa = (sb, rb)" by (cases "require_bucket ops bucket sa")
  have fb: "sh_rekey sb = sh_rekey s" using keeps_rekeyD [OF require_keeps b] fa by simp
  show ?thesis
  proof (cases "(\<exists>e. ra = Inl e) \<or> (\<exists>e. rb = Inl e)")
    case True
    then have ?err using assms fa fb by (auto simp: start_rekey_def sbind_def a b is_ok_iff split: sum.splits)
    then show ?thesis ..
  next
    case False
    then obtain x where "ra = Inr x" "rb = Inr ()" by (cases ra; cases rb) auto
    with a b have run: "start_rekey B ops auth bucket s = sbind (authoritative_config ops bucket) (\<lambda>cfg.
       case current_key cfg of
         None \<Rightarrow> sfail (Some (InternalError bucket [] ''rekey'' ''bucket has no key material yet''))
       | Some newest \<Rightarrow>
         sbind (open_own_bwk B auth cfg bucket (kv_epoch newest)) (\<lambda>_.
         sbind (sget sh_rekey) (\<lambda>reg.
         sbind (app (try_start reg bucket)) (\<lambda>reg.
         sbind (supd (\<lambda>s. s\<lparr>sh_rekey := reg\<rparr>)) (\<lambda>_.
         epoch_secrets B auth cfg bucket (kv_epoch newest) (bc_keys cfg) []))))) sb"
      by (simp add: start_rekey_def sbind_def)
    show ?thesis
    proof (cases "op_get_bucket_config ops (sh_store sb) bucket")
      case (Inl e)
      then show ?thesis using assms fb by (auto simp: run authoritative_config_def sbind_def is_ok_iff)
    next
      case (Inr cfg)
      show ?thesis
      proof (cases "current_key cfg")
        case None
        then show ?thesis using assms fb by (auto simp: run authoritative_config_def sbind_def sfail_def Inr is_ok_iff)
      next
        case (Some kv)
        obtain rc where c: "open_own_bwk B auth cfg bucket (kv_epoch kv) sb = (sb, rc)"
          using open_own_bwk_frame by (metis surj_pair)
        show ?thesis
        proof (cases rc)
          case (Inl e)
          then show ?thesis using assms fb by (auto simp: run authoritative_config_def sbind_def \<open>op_get_bucket_config ops (sh_store sb) bucket = Inr cfg\<close> Some c is_ok_iff)
        next
          case (Inr bwk)
          then show ?thesis
            using assms fb
            by (cases "try_start (sh_rekey s) bucket")
              (auto simp: run authoritative_config_def sbind_def \<open>op_get_bucket_config ops (sh_store sb) bucket = Inr cfg\<close> Some c sget_def supd_def is_ok_iff
                try_start_def dest!: epoch_secrets_frame split: option.splits rekey_state.splits if_splits)
        qed
      qed
    qed
  qed
qed

definition running :: "'st share_state \<Rightarrow> string \<Rightarrow> bool" where
  "running s bucket \<longleftrightarrow> (\<exists>p. dm_get (sh_rekey s) bucket = Some (RekeyRunning p))"

lemma running_cong: "sh_rekey s' = sh_rekey s \<Longrightarrow> running s' = running s"
  by (simp add: running_def fun_eq_iff)

lemma start_rekey_running:
  assumes "start_rekey B ops auth bucket (s\<lparr>sh_session := session\<rparr>) = (s', r)"
  shows "running s' b \<longleftrightarrow> running s b \<or> b = bucket \<and> sh_rekey s' \<noteq> sh_rekey s" and "is_ok r \<Longrightarrow> \<not> running s bucket \<and> running s' bucket"
    and "running s bucket \<Longrightarrow> sh_rekey s' = sh_rekey s"
  using start_rekey_cases [OF assms] by (auto simp: running_def)

text \<open>At most one job per bucket, and its bucket is entered as running.\<close>

lemma one_job_per_bucket: "rekey_reach ops w \<Longrightarrow> distinct (snd w) \<and> (\<forall>b \<in> set (snd w). running (fst w) b)"
proof (induction rule: rekey_reach.induct)
  case (later w w')
  from later.hyps(2) later.IH show ?case
  proof (induction rule: rekey_step.induct)
    case (spawn B auth bucket s session s' sks J)
    then show ?case using start_rekey_running [OF spawn(1)] by (auto simp: is_ok_iff)
  next
    case (refuse B auth bucket s session s' e J)
    then show ?case using start_rekey_running [OF refuse(1)] by auto
  next
    case (acl B get_user auth bucket body s session s' r J)
    then show ?case using keeps_rekeyD [OF acl_keeps_rekey(2) acl(1)] by (simp add: running_cong [of s'])
  next
    case (rotate B get_user auth bucket s session s' r J)
    then show ?case using keeps_rekeyD [OF acl_keeps_rekey(3) rotate(1)] by (simp add: running_cong [of s'])
  next
    case (persona B get_user auth slot buckets a s session s' r J)
    then show ?case using keeps_rekeyD [OF share_keeps_rekey persona(1)] by (simp add: running_cong [of s'])
  qed (auto simp: running_def)
qed simp

text \<open>A bucket entered as running without a job: no step changes its entry.\<close>

definition stuck :: "string \<Rightarrow> rekey_state \<Rightarrow> 'st rekey_world \<Rightarrow> bool" where
  "stuck bucket e w \<longleftrightarrow> bucket \<notin> set (snd w) \<and> dm_get (sh_rekey (fst w)) bucket = Some e"

lemma stuck_step:
  assumes "rekey_step ops w w'" and "stuck bucket (RekeyRunning p) w"
  shows "stuck bucket (RekeyRunning p) w'"
  using assms
proof (induction rule: rekey_step.induct)
  case (spawn B auth b s session s' sks J)
  then show ?case using start_rekey_cases [OF spawn(1)] by (auto simp: stuck_def is_ok_iff)
next
  case (refuse B auth b s session s' e J)
  then show ?case using start_rekey_cases [OF refuse(1)] by (auto simp: stuck_def is_ok_iff)
next
  case (acl B get_user auth b body s session s' r J)
  then show ?case using keeps_rekeyD [OF acl_keeps_rekey(2) acl(1)] by (simp add: stuck_def)
next
  case (rotate B get_user auth b s session s' r J)
  then show ?case using keeps_rekeyD [OF acl_keeps_rekey(3) rotate(1)] by (simp add: stuck_def)
next
  case (persona B get_user auth slot buckets a s session s' r J)
  then show ?case using keeps_rekeyD [OF share_keeps_rekey persona(1)] by (simp add: stuck_def)
qed (auto simp: stuck_def notin_set_remove1)

lemma stuck_steps: "(rekey_step ops)\<^sup>*\<^sup>* w w' \<Longrightarrow> stuck bucket (RekeyRunning p) w \<Longrightarrow> stuck bucket (RekeyRunning p) w'"
  by (induction rule: rtranclp_induct) (auto intro: stuck_step)

text \<open>C34. A rekey whose caller cannot open some older epoch is answered with an error, but it has already entered itself as
  running, and no job is spawned. From then on, until the daemon restarts, whatever requests are served and whatever jobs
  run for other buckets, the entry stays as it is and every request to rekey the bucket, by anyone, is refused.\<close>

theorem failed_start_blocks_rekey:
  assumes "rekey_reach ops (s, J)" and "sh_authorize B ops auth bucket AdminPerm s = (s1, Inr d)"
    and "op_bucket_exists ops (sh_store s) bucket = Inr True" and "op_get_bucket_config ops (sh_store s) bucket = Inr cfg"
    and "current_key cfg = Some newest" and "open_own_bwk B auth cfg bucket (kv_epoch newest) s1 = (s1, Inr bwk)"
    and "\<forall>p. dm_get (sh_rekey s) bucket \<noteq> Some (RekeyRunning p)"
    and "kv \<in> set (bc_keys cfg)" and "kv_epoch kv < kv_epoch newest"
    and "\<forall>sk. \<exists>e. read_key B cfg bucket (kv_epoch kv) (au_username auth) (unat (si_persona (sh_session s1))) sk = Inl e"
  shows "\<exists>s' e. start_rekey B ops auth bucket s = (s', Inl e) \<and> rekey_step ops (s, J) (s', J)
    \<and> (\<forall>s2 J2. (rekey_step ops)\<^sup>*\<^sup>* (s', J) (s2, J2) \<longrightarrow> bucket \<notin> set J2 \<and> dm_get (sh_rekey s2) bucket = Some (RekeyRunning 0)
        \<and> (\<forall>B2 auth2 session. \<nexists>s3 sks. start_rekey B2 ops auth2 bucket (s2\<lparr>sh_session := session\<rparr>) = (s3, Inr sks)))"
proof -
  let ?s = "s1\<lparr>sh_rekey := dm_insert bucket (RekeyRunning 0) (sh_rekey s)\<rparr>"
  have "\<nexists>sk. snd (with_identity_sk B (\<lambda>session. read_key B cfg bucket (kv_epoch kv) (au_username auth) (unat (si_persona session))) ?s) = Inr sk"
    using assms(10) by (cases "open_identity_sk (be_sec B) (sh_session s1)") (auto simp: with_identity_sk_def, metis Inl_Inr_False)
  from epoch_secrets_fail [OF assms(8,9) this] obtain e where
    e: "start_rekey B ops auth bucket s = (?s, Inl e)" unfolding start_rekey_claims [OF assms(2-7)] by blast
  have "stuck bucket (RekeyRunning 0) (?s, J)"
    using one_job_per_bucket [OF assms(1)] assms(7) by (auto simp: stuck_def running_def)
  then have "stuck bucket (RekeyRunning 0) (s2, J2)" if "(rekey_step ops)\<^sup>*\<^sup>* (?s, J) (s2, J2)" for s2 J2 using stuck_steps that by blast
  moreover have "rekey_step ops (s, J) (?s, J)" using rekey_step.refuse [where s = s and session = "sh_session s"] e by simp
  ultimately show ?thesis
    using e start_rekey_Inr by (intro exI [of _ ?s] exI [of _ e]) (fastforce simp: stuck_def)
qed

theorem failed_start_blocks_rekey_witness:
  "\<exists>s' e. start_rekey sample_bk_env sample_ops open_auth ''b'' (sample_share two_epochs) = (s', Inl e)
     \<and> (\<forall>s2 J2. (rekey_step sample_ops)\<^sup>*\<^sup>* (s', []) (s2, J2) \<longrightarrow> (\<forall>B2 auth2 session.
          \<nexists>s3 sks. start_rekey B2 sample_ops auth2 ''b'' (s2\<lparr>sh_session := session\<rparr>) = (s3, Inr sks)))"
proof -
  have keys: "bc_keys two_epochs = [(sample_kv 0)\<lparr>kv_grants := []\<rparr>, sample_kv 1]" by (simp add: two_epochs_def)
  have find: "find_epoch two_epochs ''b'' 1 = Inr (sample_kv 1)" "find_epoch two_epochs ''b'' 0 = Inr ((sample_kv 0)\<lparr>kv_grants := []\<rparr>)"
    by (simp_all add: find_epoch_def keys sample_kv_facts(1))
  then have r: "\<forall>sk. \<exists>e. read_key sample_bk_env two_epochs ''b'' 0 u slot sk = Inl e" for u slot
    by (simp add: read_key_def open_bwk_def forbidden_def)
  have "rekey_reach sample_ops (sample_share two_epochs, [])" by (rule rekey_reach.startup) simp
  from failed_start_blocks_rekey [OF this, of sample_bk_env open_auth "''b''" "sample_share two_epochs" Allowed two_epochs "sample_kv 1"
      "replicate 32 1" "(sample_kv 0)\<lparr>kv_grants := []\<rparr>"] show ?thesis
    using sample_open_own [OF find(1)] r by (auto simp: sample_authorize keys current_key_def sample_kv_facts(1))
qed

end
