(* ===== verification/Access_List_Laws.thy ===== *)
theory Access_List_Laws
  imports Bucket_Sharing_Laws
begin

text \<open>
  What an update of the access list does (\<open>set_acl\<close>).
\<close>

subsection \<open>Grant rows\<close>

definition primary_slots :: "user_record \<Rightarrow> bool \<Rightarrow> grantee_slots" where
  "primary_slots rec authorized = \<lparr>gs_identity_pks_b64 = map cs_identity_pk_b64 (ur_slots rec),
     gs_authorized = (replicate CREDENTIAL_SLOTS False)[unat (ur_primary_slot rec) := authorized]\<rparr>"

text \<open>The row of a user who has an account is sealed for its primary slot, or for none.\<close>

definition row_for :: "bk_env \<Rightarrow> user_lookup \<Rightarrow> string \<Rightarrow> bytes \<Rightarrow> bucket_key_version \<Rightarrow> string \<Rightarrow> bool \<Rightarrow> bool" where
  "row_for B get_user bucket bwk kv user authorized \<longleftrightarrow>
     (\<forall>rec. get_user user = Inr (Some rec) \<longrightarrow> (authorized \<longrightarrow> unat (ur_primary_slot rec) < CREDENTIAL_SLOTS) \<and>
        (\<exists>sealed. dm_get (kv_grants kv) user = Some sealed \<and>
           seal_grant_slots B bucket (kv_epoch kv) user (primary_slots rec authorized) bwk = Inr sealed))"

text \<open>Two versions of a key that differ at most in the rows of given users.\<close>

definition same_key :: "string set \<Rightarrow> bucket_key_version \<Rightarrow> bucket_key_version \<Rightarrow> bool" where
  "same_key U kv kv' \<longleftrightarrow> kv_epoch kv' = kv_epoch kv \<and> kv_public_key_b64 kv' = kv_public_key_b64 kv \<and> kv_sk_blob kv' = kv_sk_blob kv
     \<and> (\<forall>u. u \<notin> U \<longrightarrow> dm_get (kv_grants kv') u = dm_get (kv_grants kv) u)"

lemma same_key_refl [simp]: "same_key U kv kv"
  by (simp add: same_key_def)

lemma same_key_trans: "same_key U kv kv' \<Longrightarrow> same_key V kv' kv'' \<Longrightarrow> U \<subseteq> T \<Longrightarrow> V \<subseteq> T \<Longrightarrow> same_key T kv kv''"
  unfolding same_key_def by (simp, metis subsetD)

lemma row_for_same: "same_key U kv kv' \<Longrightarrow> u \<notin> U \<Longrightarrow> row_for B get_user bucket bwk kv u a \<Longrightarrow> row_for B get_user bucket bwk kv' u a"
  by (simp add: same_key_def row_for_def)

lemma same_key_mono: "same_key U kv kv' \<Longrightarrow> U \<subseteq> T \<Longrightarrow> same_key T kv kv'"
  unfolding same_key_def by blast

lemma replicate_update_same: "(replicate n x)[i := x] = replicate n x"
  by (cases "i < n") (simp_all add: list_update_same_conv list_update_beyond)

lemma reseal_grantee_row:
  assumes "reseal_grantee B get_user bucket kv user bwk authorized = Inr kv'"
  shows "same_key {user} kv kv'" and "row_for B get_user bucket bwk kv' user authorized"
proof -
  have "same_key {user} kv kv' \<and> row_for B get_user bucket bwk kv' user authorized"
  proof (cases "get_user user")
    case (Inr found)
    show ?thesis
    proof (cases found)
      case None
      then show ?thesis using Inr assms by (simp add: reseal_grantee_def lookup_user_def row_for_def)
    next
      case (Some rec)
      obtain sealed where s: "seal_grant_slots B bucket (kv_epoch kv) user (primary_slots rec authorized) bwk = Inr sealed"
        "kv' = kv\<lparr>kv_grants := dm_insert user sealed (kv_grants kv)\<rparr>" "authorized \<Longrightarrow> unat (ur_primary_slot rec) < CREDENTIAL_SLOTS"
        using Inr Some assms
        by (auto simp: reseal_grantee_def lookup_user_def put_grant_slot_def primary_slots_def index_set_def replicate_update_same split: if_splits option.splits)
      then show ?thesis using Inr Some by (auto simp: row_for_def same_key_def)
    qed
  qed (use assms in \<open>simp add: reseal_grantee_def lookup_user_def\<close>)
  then show "same_key {user} kv kv'" "row_for B get_user bucket bwk kv' user authorized" by simp_all
qed

lemma grant_all_rows:
  assumes "grant_all B get_user bucket bwk users kv = Inr kv'"
  shows "same_key (set users) kv kv'" and "\<forall>u \<in> set users. row_for B get_user bucket bwk kv' u True"
proof -
  have "same_key (set users) kv kv' \<and> (\<forall>u \<in> set users. row_for B get_user bucket bwk kv' u True)"
    using assms
  proof (induction users arbitrary: kv)
    case (Cons u us)
    then obtain kv1 where r: "reseal_grantee B get_user bucket kv u bwk True = Inr kv1" "grant_all B get_user bucket bwk us kv1 = Inr kv'"
      by auto
    note f = reseal_grantee_row [OF r(1)] and IH = Cons.IH [OF r(2)]
    have "row_for B get_user bucket bwk kv' u True"
      using row_for_same [of "set us" kv1 kv' u] f(2) IH by (cases "u \<in> set us") auto
    then show ?case using f(1) IH by (auto intro: same_key_trans)
  qed simp
  then show "same_key (set users) kv kv'" "\<forall>u \<in> set users. row_for B get_user bucket bwk kv' u True" by simp_all
qed

subsection \<open>Revoked sessions\<close>

definition no_session :: "string \<Rightarrow> session_store \<Rightarrow> bool" where
  "no_session u st \<longleftrightarrow> (\<forall>k si. dm_get (st_inner st) k = Some si \<longrightarrow> si_username si \<noteq> u)"

lemma revoke_user_none:
  assumes "dm_inv (st_inner st)"
  shows "no_session u (fst (revoke_user st u))" and "no_session v st \<Longrightarrow> no_session v (fst (revoke_user st u))"
    and "dm_inv (st_inner (fst (revoke_user st u)))"
  unfolding no_session_def revoke_user_def
  using remove_rows_get [OF assms, of "\<lambda>k s. si_username s = u"] by (auto split: option.splits if_splits)

text \<open>What a revocation leaves of the state: the storage and the rekey jobs, and a session table with fewer rows.\<close>

definition fewer_sessions :: "string set \<Rightarrow> 'st share_state \<Rightarrow> 'st share_state \<Rightarrow> bool" where
  "fewer_sessions U s s' \<longleftrightarrow> sh_store s' = sh_store s \<and> sh_rekey s' = sh_rekey s \<and> sh_session s' = sh_session s
     \<and> (dm_inv (st_inner (sh_sessions s)) \<longrightarrow> dm_inv (st_inner (sh_sessions s'))
        \<and> (\<forall>u. u \<in> U \<or> no_session u (sh_sessions s) \<longrightarrow> no_session u (sh_sessions s')))"

lemma fewer_sessions_refl [simp]: "fewer_sessions {} s s"
  by (simp add: fewer_sessions_def)

lemma fewer_sessions_trans: "fewer_sessions U s s' \<Longrightarrow> fewer_sessions V s' s'' \<Longrightarrow> T \<subseteq> U \<union> V \<Longrightarrow> fewer_sessions T s s''"
  unfolding fewer_sessions_def by (elim conjE, intro conjI impI allI) (simp, simp, simp, simp, blast)

lemma fewer_sessions_mono: "fewer_sessions U s s' \<Longrightarrow> T \<subseteq> U \<Longrightarrow> fewer_sessions T s s'"
  unfolding fewer_sessions_def by blast

lemma revoke_one_row:
  assumes "revoke_one B get_user bucket bwk user kv s = (s', Inr kv')"
  shows "same_key {user} kv kv'" and "row_for B get_user bucket bwk kv' user False" and "fewer_sessions {user} s s'"
  using assms reseal_grantee_row [of B get_user bucket kv user bwk False kv'] revoke_user_none
  by (auto simp: revoke_one_def share_run fewer_sessions_def)

lemma revoke_all_rows:
  assumes "revoke_all B get_user bucket bwk users kv s = (s', Inr kv')"
  shows "same_key (set users) kv kv'" and "\<forall>u \<in> set users. row_for B get_user bucket bwk kv' u False"
    and "fewer_sessions (set users) s s'"
proof -
  have "same_key (set users) kv kv' \<and> (\<forall>u \<in> set users. row_for B get_user bucket bwk kv' u False) \<and> fewer_sessions (set users) s s'"
    using assms
  proof (induction users arbitrary: kv s)
    case (Cons u us)
    then obtain kv1 s1 where r: "revoke_one B get_user bucket bwk u kv s = (s1, Inr kv1)" "revoke_all B get_user bucket bwk us kv1 s1 = (s', Inr kv')"
      by (auto simp: share_run)
    note f = revoke_one_row [OF r(1)] and IH = Cons.IH [OF r(2)]
    have "row_for B get_user bucket bwk kv' u False"
      using row_for_same [of "set us" kv1 kv' u] f(2) IH by (cases "u \<in> set us") auto
    then show ?case using f(1,3) IH by (auto intro: same_key_trans fewer_sessions_trans [of "{u}" s s1 "set us"])
  qed (simp add: share_run)
  then show "same_key (set users) kv kv'" "\<forall>u \<in> set users. row_for B get_user bucket bwk kv' u False" "fewer_sessions (set users) s s'"
    by simp_all
qed

subsection \<open>An update\<close>

definition loses :: "string list \<Rightarrow> string list \<Rightarrow> string option \<Rightarrow> string option \<Rightarrow> string \<Rightarrow> bool" where
  "loses old new previous owner u \<longleftrightarrow> u \<notin> set new \<and> (owner \<noteq> previous \<longrightarrow> owner \<noteq> Some u)
     \<and> (u \<in> set old \<or> owner \<noteq> previous \<and> previous = Some u)"

definition gains :: "string list \<Rightarrow> string list \<Rightarrow> string option \<Rightarrow> string option \<Rightarrow> string \<Rightarrow> bool" where
  "gains old new previous owner u \<longleftrightarrow> u \<in> set new \<and> u \<notin> set old \<or> owner \<noteq> previous \<and> owner = Some u"

lemma reseal_grants_rows:
  assumes run: "reseal_grants B get_user bucket bwk old new previous owner kv s = (s', Inr kv')"
    and own: "owner \<noteq> previous \<Longrightarrow> owner \<noteq> None"
  shows "same_key {u. gains old new previous owner u \<or> loses old new previous owner u \<or> u \<in> set old - set new} kv kv'
    \<and> (\<forall>u. gains old new previous owner u \<longrightarrow> row_for B get_user bucket bwk kv' u True)
    \<and> (\<forall>u. loses old new previous owner u \<longrightarrow> row_for B get_user bucket bwk kv' u False)
    \<and> fewer_sessions {u. loses old new previous owner u} s s'"
    (is "same_key ?U kv kv' \<and> _ \<and> _ \<and> _")
proof -
  obtain kv1 kv2 s2 where r: "grant_all B get_user bucket bwk (filter (\<lambda>u. u \<notin> set old) new) kv = Inr kv1"
    "revoke_all B get_user bucket bwk (filter (\<lambda>u. u \<notin> set new) old) kv1 s = (s2, Inr kv2)"
    "(if owner = previous then sret kv2 else (case owner of None \<Rightarrow> sret kv2
      | Some new_owner \<Rightarrow> sbind (slift (reseal_grantee B get_user bucket kv2 new_owner bwk True)) (\<lambda>kv.
        case previous of None \<Rightarrow> sret kv
        | Some prev \<Rightarrow> if prev \<noteq> new_owner \<and> prev \<notin> set new then revoke_one B get_user bucket bwk prev kv else sret kv))) s2 = (s', Inr kv')"
    using run by (auto simp: reseal_grants_def share_run)
  note g = grant_all_rows [OF r(1)] and v = revoke_all_rows [OF r(2)]
  have k2: "same_key {u. u \<in> set new - set old \<or> u \<in> set old - set new} kv kv2" using g(1) v(1) by (rule same_key_trans) auto
  have n2: "\<forall>u \<in> set new - set old. row_for B get_user bucket bwk kv2 u True" using g(2) row_for_same [OF v(1)] by auto
  show ?thesis
  proof (cases "owner = previous")
    case True
    then have "kv' = kv2" "s' = s2" using r(3) by (simp_all add: share_run)
    then show ?thesis
      using True n2 v(2) by (auto simp: gains_def loses_def intro!: same_key_mono [OF k2] fewer_sessions_mono [OF v(3)])
  next
    case False
    with own obtain o1 where o1: "owner = Some o1" by auto
    obtain kv3 where kv3: "reseal_grantee B get_user bucket kv2 o1 bwk True = Inr kv3"
      and rest: "(case previous of None \<Rightarrow> sret kv3
        | Some prev \<Rightarrow> if prev \<noteq> o1 \<and> prev \<notin> set new then revoke_one B get_user bucket bwk prev kv3 else sret kv3) s2 = (s', Inr kv')"
      using r(3) False o1 by (auto simp: share_run)
    note k3 = reseal_grantee_row [OF kv3]
    define lost where "lost = {u. previous = Some u \<and> u \<noteq> o1 \<and> u \<notin> set new}"
    have "(\<exists>prev. lost = {prev} \<and> revoke_one B get_user bucket bwk prev kv3 s2 = (s', Inr kv')) \<or> lost = {} \<and> s' = s2 \<and> kv' = kv3"
    proof (cases "\<exists>prev. previous = Some prev \<and> prev \<noteq> o1 \<and> prev \<notin> set new")
      case True
      then obtain prev where "previous = Some prev" "prev \<noteq> o1" "prev \<notin> set new" by blast
      then show ?thesis using rest by (intro disjI1 exI [of _ prev]) (auto simp: lost_def)
    qed (use rest in \<open>auto simp: share_run lost_def split: option.splits\<close>)
    then have l: "same_key lost kv3 kv'" "\<forall>u \<in> lost. row_for B get_user bucket bwk kv' u False" "fewer_sessions lost s2 s'"
      using revoke_one_row by auto
    have "same_key {u. u = o1 \<or> u \<in> lost} kv2 kv'" using k3(1) l(1) by (rule same_key_trans) auto
    with k2 have "same_key ?U kv kv'" by (rule same_key_trans) (use False in \<open>auto simp: gains_def loses_def lost_def o1\<close>)
    moreover have "row_for B get_user bucket bwk kv' u True" if "gains old new previous owner u" for u
      using that n2 k3 l(1) row_for_same [OF k3(1), of u] row_for_same [OF l(1), of u] by (cases "u = o1") (auto simp: gains_def lost_def o1)
    moreover have "row_for B get_user bucket bwk kv' u False" if "loses old new previous owner u" for u
      using that v(2) l(2) row_for_same [OF k3(1), of u] row_for_same [OF l(1), of u] False by (cases "previous = Some u") (auto simp: loses_def lost_def o1)
    moreover have "fewer_sessions {u. loses old new previous owner u} s s'"
      using v(3) l(3) by (rule fewer_sessions_trans) (use False in \<open>auto simp: loses_def lost_def o1\<close>)
    ultimately show ?thesis by blast
  qed
qed

lemma check_grants_Inr: "check_grants owner users = Inr () \<longleftrightarrow> (\<forall>u \<in> set users. str_trim u \<noteq> [] \<and> owner \<noteq> Some u)"
  by (induction users) auto

lemma choose_owner_Inr:
  "choose_owner B get_user auth bucket previous requested = Inr owner \<Longrightarrow>
   owner = (case requested of None \<Rightarrow> previous | Some o' \<Rightarrow> Some o')
   \<and> (requested \<noteq> None \<longrightarrow> is_admin auth \<or> previous = Some (au_username auth))
   \<and> (\<forall>u. requested = Some u \<longrightarrow> (\<exists>rec. get_user u = Inr (Some rec)))"
  by (auto simp: choose_owner_def ensure_user_exists_def lookup_user_def split: option.splits if_splits)

text \<open>Only the keys of a configuration matter to those who open them.\<close>

lemma open_verified_bwk_keys: "bc_keys cfg' = bc_keys cfg \<Longrightarrow> open_verified_bwk B cfg' bucket epoch u slot sk = open_verified_bwk B cfg bucket epoch u slot sk"
  by (simp add: open_verified_bwk_def open_bwk_def find_epoch_def)

lemma replace_epoch_epochs: "map kv_epoch (replace_epoch kv ks) = map kv_epoch ks"
  by (induction ks) auto

lemma find_replaced: "kv \<in> set ks \<Longrightarrow> kv_epoch kv' = kv_epoch kv \<Longrightarrow> find (\<lambda>k. kv_epoch k = kv_epoch kv) (replace_epoch kv' ks) = Some kv'"
  by (induction ks) auto

text \<open>A successful update, taken apart.\<close>

definition resealed :: "bk_env \<Rightarrow> user_lookup \<Rightarrow> authenticated \<Rightarrow> string \<Rightarrow> bucket_config \<Rightarrow> string list \<Rightarrow> string option \<Rightarrow> 'st share_state \<Rightarrow> 'st share_state
    \<Rightarrow> bucket_key_version list \<Rightarrow> bool" where
  "resealed B get_user auth bucket cfg new owner s s' keys \<longleftrightarrow>
     (\<exists>kv bwk kv' slot isk (s1 :: 'st share_state) s2. current_key cfg = Some kv \<and> open_verified_bwk B cfg bucket (kv_epoch kv) (au_username auth) slot isk = Inr bwk
        \<and> reseal_grants B get_user bucket bwk (read_implying_grantees (bc_acl cfg)) new (bc_owner cfg) owner kv s1 = (s2, Inr kv')
        \<and> keys = replace_epoch kv' (bc_keys cfg) \<and> sh_sessions s1 = sh_sessions s \<and> sh_sessions s' = sh_sessions s2)"

lemma set_acl_Inr:
  assumes run: "set_acl B ops get_user auth bucket body s = (s', Inr view)" and kept: "config_kept ops bucket"
    and cfg: "op_get_bucket_config ops (sh_store s) bucket = Inr cfg"
  obtains owner cfg' where "ab_generation body = bc_acl_generation cfg"
    and "choose_owner B get_user auth bucket (bc_owner cfg) (ab_owner body) = Inr owner"
    and "check_grants owner (sort (map fst (ab_grants body))) = Inr ()"
    and "op_get_bucket_config ops (sh_store s') bucket = Inr cfg'" and "view = acl_view cfg'"
    and "bc_owner cfg' = owner" and "bc_acl cfg' = ab_grants body" and "bc_acl_generation cfg' = bc_acl_generation cfg + 1"
    and "current_key cfg \<noteq> None \<and> (read_implying_grantees (bc_acl cfg) \<noteq> read_implying_grantees (ab_grants body) \<or> owner \<noteq> bc_owner cfg) \<and>
           resealed B get_user auth bucket cfg (read_implying_grantees (ab_grants body)) owner s s' (bc_keys cfg')
         \<or> (current_key cfg = None \<or> read_implying_grantees (bc_acl cfg) = read_implying_grantees (ab_grants body) \<and> owner = bc_owner cfg)
           \<and> bc_keys cfg' = bc_keys cfg \<and> sh_sessions s' = sh_sessions s"
proof -
  let ?new = "read_implying_grantees (ab_grants body)" and ?old = "read_implying_grantees (bc_acl cfg)"
  obtain d s1 where a: "sh_authorize B ops auth bucket AdminPerm s = (s1, Inr d)" using run by (auto simp: set_acl_def share_run)
  note f = sh_authorize_frame [OF a]
  have gen: "ab_generation body = bc_acl_generation cfg"
    using run a f cfg by (auto simp: set_acl_def share_run dest!: require_bucket_Inr split: if_splits)
  obtain owner cfg1 s2 st where r: "choose_owner B get_user auth bucket (bc_owner cfg) (ab_owner body) = Inr owner"
    "check_grants owner (sort (map fst (ab_grants body))) = Inr ()"
    "seal_acl_change B get_user auth bucket ?old ?new (bc_owner cfg) (cfg\<lparr>bc_owner := owner, bc_acl := ab_grants body\<rparr>) s1 = (s2, Inr cfg1)"
    "op_set_bucket_config ops (sh_store s2) bucket (cfg1\<lparr>bc_acl_generation := bc_acl_generation cfg1 + 1\<rparr>) = (st, Inr ())"
    "s' = s2\<lparr>sh_store := st\<rparr>" "view = acl_view (cfg1\<lparr>bc_acl_generation := bc_acl_generation cfg1 + 1\<rparr>)"
    using run a f cfg gen by (auto simp: set_acl_def share_run Let_def dest!: require_bucket_Inr)
  have c: "op_get_bucket_config ops (sh_store s') bucket = Inr (cfg1\<lparr>bc_acl_generation := bc_acl_generation cfg1 + 1\<rparr>)"
    using config_keptD [OF kept r(4)] r(5) by simp
  have cur: "current_key (cfg\<lparr>bc_owner := owner, bc_acl := ab_grants body\<rparr>) = current_key cfg" by (simp add: current_key_def)
  have keys: "bc_owner cfg1 = owner \<and> bc_acl cfg1 = ab_grants body \<and> bc_acl_generation cfg1 = bc_acl_generation cfg \<and>
      (current_key cfg \<noteq> None \<and> (?old \<noteq> ?new \<or> owner \<noteq> bc_owner cfg) \<and> resealed B get_user auth bucket cfg ?new owner s s' (bc_keys cfg1)
       \<or> (current_key cfg = None \<or> ?old = ?new \<and> owner = bc_owner cfg) \<and> bc_keys cfg1 = bc_keys cfg \<and> sh_sessions s' = sh_sessions s)"
  proof (cases "current_key cfg = None \<or> ?old = ?new \<and> owner = bc_owner cfg")
    case True
    then have "cfg1 = cfg\<lparr>bc_owner := owner, bc_acl := ab_grants body\<rparr>" "s2 = s1" using r(3) by (auto simp: seal_acl_change_def cur share_run split: option.splits)
    then show ?thesis using True f r(5) by simp
  next
    case False
    then obtain kv where kv: "current_key cfg = Some kv" by auto
    obtain bwk kv' s3 where b: "open_own_bwk B auth (cfg\<lparr>bc_owner := owner, bc_acl := ab_grants body\<rparr>) bucket (kv_epoch kv) s1 = (s3, Inr bwk)"
      "reseal_grants B get_user bucket bwk ?old ?new (bc_owner cfg) owner kv s3 = (s2, Inr kv')"
      "cfg1 = cfg\<lparr>bc_owner := owner, bc_acl := ab_grants body, bc_keys := replace_epoch kv' (bc_keys cfg)\<rparr>"
      using r(3) False kv by (auto simp: seal_acl_change_def cur share_run)
    have "s3 = s1" using open_own_bwk_frame [OF b(1)] .
    moreover obtain slot isk where "open_verified_bwk B cfg bucket (kv_epoch kv) (au_username auth) slot isk = Inr bwk"
      using b(1) open_verified_bwk_keys [of "cfg\<lparr>bc_owner := owner, bc_acl := ab_grants body\<rparr>" cfg]
      by (auto simp: open_own_bwk_def with_identity_sk_def)
    ultimately show ?thesis using False kv b(2,3) f r(5) by (auto simp: resealed_def)
  qed
  show ?thesis by (rule that [OF gen r(1,2) c r(6)]) (use keys in simp_all)
qed


lemma resealedE:
  fixes s s' :: "'st share_state"
  assumes re: "resealed B get_user auth bucket cfg new owner s s' keys" and own: "owner \<noteq> bc_owner cfg \<Longrightarrow> owner \<noteq> None"
    and kv: "current_key cfg = Some kv" and keys: "bc_keys cfg' = keys"
  obtains bwk kv' slot isk where "open_verified_bwk B cfg bucket (kv_epoch kv) (au_username auth) slot isk = Inr bwk"
    and "find_epoch cfg' bucket (kv_epoch kv) = Inr kv'" and "kv_epoch kv' = kv_epoch kv" and "kv_sk_blob kv' = kv_sk_blob kv"
    and "\<And>u. gains (read_implying_grantees (bc_acl cfg)) new (bc_owner cfg) owner u \<Longrightarrow> row_for B get_user bucket bwk kv' u True"
    and "\<And>u. loses (read_implying_grantees (bc_acl cfg)) new (bc_owner cfg) owner u \<Longrightarrow> row_for B get_user bucket bwk kv' u False"
    and "\<And>u. loses (read_implying_grantees (bc_acl cfg)) new (bc_owner cfg) owner u \<Longrightarrow> dm_inv (st_inner (sh_sessions s)) \<Longrightarrow> no_session u (sh_sessions s')"
proof -
  from re [unfolded resealed_def] obtain kv0 bwk kv' slot isk and s1 s2 :: "'st share_state" where "current_key cfg = Some kv0"
    "open_verified_bwk B cfg bucket (kv_epoch kv0) (au_username auth) slot isk = Inr bwk"
    "reseal_grants B get_user bucket bwk (read_implying_grantees (bc_acl cfg)) new (bc_owner cfg) owner kv0 s1 = (s2, Inr kv')"
    "keys = replace_epoch kv' (bc_keys cfg)" "sh_sessions s1 = sh_sessions s" "sh_sessions s' = sh_sessions s2" by blast
  then have r: "open_verified_bwk B cfg bucket (kv_epoch kv) (au_username auth) slot isk = Inr bwk"
    "reseal_grants B get_user bucket bwk (read_implying_grantees (bc_acl cfg)) new (bc_owner cfg) owner kv s1 = (s2, Inr kv')"
    "keys = replace_epoch kv' (bc_keys cfg)" "sh_sessions s1 = sh_sessions s" "sh_sessions s' = sh_sessions s2" using kv by simp_all
  note rows = reseal_grants_rows [OF r(2) own]
  have e: "kv_epoch kv' = kv_epoch kv" "kv_sk_blob kv' = kv_sk_blob kv" using rows by (auto simp: same_key_def)
  have "kv \<in> set (bc_keys cfg)" using kv by (auto simp: current_key_def split: if_splits)
  then have "find_epoch cfg' bucket (kv_epoch kv) = Inr kv'" using find_replaced e(1) r(3) keys by (simp add: find_epoch_def)
  then show ?thesis
    using r(1,4,5) e rows by (intro that [of slot isk bwk kv']) (auto simp: fewer_sessions_def)
qed

lemma open_verified_facts:
  assumes "open_verified_bwk B cfg bucket epoch user slot isk = Inr bwk"
  obtains kv sk where "find_epoch cfg bucket epoch = Inr kv" and "length bwk = 32"
    and "unwrap_with_key (be_prims B) (kv_sk_blob kv) bwk (bucket_sk_wrap_aad bucket epoch) = Inr sk"
    and "en_mem (be_sec B) = None \<Longrightarrow> read_key B cfg bucket epoch user slot isk = Inr sk"
  using assms by (auto simp: open_verified_bwk_def read_key_def open_bwk_def split: if_splits intro: that)

lemma find_current:
  assumes "current_key cfg = Some kv" and "distinct (map kv_epoch (bc_keys cfg))"
  shows "find_epoch cfg bucket (kv_epoch kv) = Inr kv"
proof -
  obtain ks where ks: "bc_keys cfg = ks @ [kv]"
    using assms(1) by (auto simp: current_key_def split: if_splits) (metis append_butlast_last_id)
  then have "\<forall>k \<in> set ks. kv_epoch k \<noteq> kv_epoch kv" using assms(2) by auto (metis imageI)
  from find_last [OF this] show ?thesis by (simp add: find_epoch_def ks)
qed

text \<open>What a row gives to the slots of its user.\<close>

lemma row_opens:
  assumes P: "prims_ok (be_prims B)" and R: "rand_ok B" and bwk: "length bwk = 32" and user: "get_user u = Inr (Some rec)"
    and pks: "map cs_identity_pk_b64 (ur_slots rec) = slot_pks (be_prims B) ids 0 CREDENTIAL_SLOTS"
    and row: "row_for B get_user bucket bwk kv u authorized" and find: "find_epoch cfg bucket (kv_epoch kv) = Inr kv" and i: "i < CREDENTIAL_SLOTS"
  shows "open_bwk B cfg bucket (kv_epoch kv) u i (snd (keypair (be_prims B) (ids i)))
    = Inr (slot_plain B u bwk i (authorized \<and> i = unat (ur_primary_slot rec)))"
proof -
  from row user obtain sealed where s: "dm_get (kv_grants kv) u = Some sealed"
    "seal_grant_slots B bucket (kv_epoch kv) u (primary_slots rec authorized) bwk = Inr sealed" by (auto simp: row_for_def)
  have "gs_authorized (primary_slots rec authorized) ! i = (authorized \<and> i = unat (ur_primary_slot rec))"
    using i by (cases "unat (ur_primary_slot rec) < CREDENTIAL_SLOTS") (auto simp: primary_slots_def nth_list_update list_update_beyond)
  then show ?thesis
    using open_bwk_slot [OF P R bwk _ _ s(1,2) find i refl, where ids = ids] pks by (simp add: primary_slots_def)
qed

text \<open>C11. An accepted update of an access list was made against the list as it is stored, moves its generation on by one, stores exactly
  the grants that were sent and answers with what is stored; no epoch appears or disappears. The owner changes only to a user who
  exists, by an administrator or the current owner, and is never listed among the grants.\<close>

theorem acl_update_effect:
  assumes "set_acl B ops get_user auth bucket body s = (s', Inr view)" and "config_kept ops bucket"
    and "op_get_bucket_config ops (sh_store s) bucket = Inr cfg"
  shows "ab_generation body = bc_acl_generation cfg \<and> (\<exists>cfg'. op_get_bucket_config ops (sh_store s') bucket = Inr cfg' \<and> view = acl_view cfg'
    \<and> bc_acl_generation cfg' = bc_acl_generation cfg + 1 \<and> bc_acl cfg' = ab_grants body \<and> map kv_epoch (bc_keys cfg') = map kv_epoch (bc_keys cfg)
    \<and> bc_owner cfg' = (case ab_owner body of None \<Rightarrow> bc_owner cfg | Some new_owner \<Rightarrow> Some new_owner)
    \<and> (bc_owner cfg' \<noteq> bc_owner cfg \<longrightarrow> (is_admin auth \<or> bc_owner cfg = Some (au_username auth))
         \<and> (\<exists>new_owner rec. bc_owner cfg' = Some new_owner \<and> get_user new_owner = Inr (Some rec)))
    \<and> (\<forall>u \<in> fst ` set (ab_grants body). bc_owner cfg' \<noteq> Some u))"
proof -
  obtain owner cfg' where r: "ab_generation body = bc_acl_generation cfg"
    "choose_owner B get_user auth bucket (bc_owner cfg) (ab_owner body) = Inr owner"
    "check_grants owner (sort (map fst (ab_grants body))) = Inr ()"
    "op_get_bucket_config ops (sh_store s') bucket = Inr cfg'" "view = acl_view cfg'"
    "bc_owner cfg' = owner" "bc_acl cfg' = ab_grants body" "bc_acl_generation cfg' = bc_acl_generation cfg + 1"
    "map kv_epoch (bc_keys cfg') = map kv_epoch (bc_keys cfg)"
    by (rule set_acl_Inr [OF assms]) (auto simp: resealed_def replace_epoch_epochs)
  note o = choose_owner_Inr [OF r(2)]
  have "\<forall>u \<in> fst ` set (ab_grants body). bc_owner cfg' \<noteq> Some u" using r(3,6) by (simp add: check_grants_Inr)
  moreover have "bc_owner cfg' \<noteq> bc_owner cfg \<longrightarrow> (is_admin auth \<or> bc_owner cfg = Some (au_username auth))
         \<and> (\<exists>new_owner rec. bc_owner cfg' = Some new_owner \<and> get_user new_owner = Inr (Some rec))"
    using o r(6) by (auto split: option.splits)
  ultimately show ?thesis using r o by blast
qed

text \<open>C10. A user who is given read access to a bucket with keys can from then on open the newest epoch with its primary slot: it reads the
  same secret key as the caller who granted it.\<close>

theorem granted_reader_reads:
  assumes run: "set_acl B ops get_user auth bucket body s = (s', Inr view)" and kept: "config_kept ops bucket"
    and cfg: "op_get_bucket_config ops (sh_store s) bucket = Inr cfg" and kv: "current_key cfg = Some kv" "distinct (map kv_epoch (bc_keys cfg))"
    and P: "prims_ok (be_prims B)" and R: "rand_ok B" and mem: "en_mem (be_sec B) = None"
    and user: "get_user u = Inr (Some rec)" and pks: "map cs_identity_pk_b64 (ur_slots rec) = slot_pks (be_prims B) ids 0 CREDENTIAL_SLOTS"
    and new: "u \<in> set (read_implying_grantees (ab_grants body))" "u \<notin> set (read_implying_grantees (bc_acl cfg))"
  shows "\<exists>cfg' slot isk sk. op_get_bucket_config ops (sh_store s') bucket = Inr cfg'
    \<and> read_key B cfg bucket (kv_epoch kv) (au_username auth) slot isk = Inr sk
    \<and> read_key B cfg' bucket (kv_epoch kv) u (unat (ur_primary_slot rec)) (snd (keypair (be_prims B) (ids (unat (ur_primary_slot rec))))) = Inr sk"
proof -
  let ?new = "read_implying_grantees (ab_grants body)" and ?old = "read_implying_grantees (bc_acl cfg)"
  obtain owner cfg' where r: "choose_owner B get_user auth bucket (bc_owner cfg) (ab_owner body) = Inr owner"
    "op_get_bucket_config ops (sh_store s') bucket = Inr cfg'" "resealed B get_user auth bucket cfg ?new owner s s' (bc_keys cfg')"
    by (rule set_acl_Inr [OF run kept cfg]) (use new kv in auto)
  have own: "owner \<noteq> bc_owner cfg \<Longrightarrow> owner \<noteq> None" using choose_owner_Inr [OF r(1)] by (auto split: option.splits)
  obtain bwk kv' slot isk where k: "open_verified_bwk B cfg bucket (kv_epoch kv) (au_username auth) slot isk = Inr bwk"
    "find_epoch cfg' bucket (kv_epoch kv) = Inr kv'" "kv_epoch kv' = kv_epoch kv" "kv_sk_blob kv' = kv_sk_blob kv"
    "gains ?old ?new (bc_owner cfg) owner u \<Longrightarrow> row_for B get_user bucket bwk kv' u True"
    using resealedE [OF r(3) own kv(1) refl] by metis
  from open_verified_facts [OF k(1)] obtain kv0 sk where sk: "find_epoch cfg bucket (kv_epoch kv) = Inr kv0" "length bwk = 32"
    "unwrap_with_key (be_prims B) (kv_sk_blob kv0) bwk (bucket_sk_wrap_aad bucket (kv_epoch kv)) = Inr sk"
    "read_key B cfg bucket (kv_epoch kv) (au_username auth) slot isk = Inr sk" using mem by metis
  have row: "row_for B get_user bucket bwk kv' u True" using new by (intro k(5)) (auto simp: gains_def)
  then have i: "unat (ur_primary_slot rec) < CREDENTIAL_SLOTS" using user by (auto simp: row_for_def)
  have "kv0 = kv" using sk(1) find_current [OF kv] by simp
  then have "read_key B cfg' bucket (kv_epoch kv) u (unat (ur_primary_slot rec)) (snd (keypair (be_prims B) (ids (unat (ur_primary_slot rec))))) = Inr sk"
    using row_opens [where cfg = cfg', OF P R sk(2) user pks row _ i] k(2-4) sk(3) mem by (simp add: read_key_def slot_plain_def)
  then show ?thesis using r(2) sk(4) by blast
qed

text \<open>C9. A user whose read access is withdrawn is locked out: none of its slots opens the newest epoch any more (as long as the random
  decoys it is given are not the key), and none of its sessions is left.\<close>

theorem revoked_reader_locked_out:
  assumes run: "set_acl B ops get_user auth bucket body s = (s', Inr view)" and kept: "config_kept ops bucket"
    and cfg: "op_get_bucket_config ops (sh_store s) bucket = Inr cfg" and kv: "current_key cfg = Some kv"
    and P: "prims_ok (be_prims B)" and R: "rand_ok B" and inv: "dm_inv (st_inner (sh_sessions s))"
    and user: "get_user u = Inr (Some rec)" and pks: "map cs_identity_pk_b64 (ur_slots rec) = slot_pks (be_prims B) ids 0 CREDENTIAL_SLOTS"
    and gone: "u \<in> set (read_implying_grantees (bc_acl cfg))" "u \<notin> set (read_implying_grantees (ab_grants body))" "ab_owner body \<noteq> Some u"
    and decoys: "\<forall>i < CREDENTIAL_SLOTS. gcm_open (be_prims B) (snd (snd (be_rand B u i))) (ws_nonce (kv_sk_blob kv))
      (bucket_sk_wrap_aad bucket (kv_epoch kv)) (ws_ciphertext (kv_sk_blob kv)) = None"
  shows "\<exists>cfg'. op_get_bucket_config ops (sh_store s') bucket = Inr cfg'
    \<and> (\<forall>i < CREDENTIAL_SLOTS. read_key B cfg' bucket (kv_epoch kv) u i (snd (keypair (be_prims B) (ids i))) = Inl (Forbidden bucket))
    \<and> (\<forall>k si. dm_get (st_inner (sh_sessions s')) k = Some si \<longrightarrow> si_username si \<noteq> u)"
proof -
  let ?new = "read_implying_grantees (ab_grants body)" and ?old = "read_implying_grantees (bc_acl cfg)"
  obtain owner cfg' where r: "choose_owner B get_user auth bucket (bc_owner cfg) (ab_owner body) = Inr owner"
    "op_get_bucket_config ops (sh_store s') bucket = Inr cfg'" "resealed B get_user auth bucket cfg ?new owner s s' (bc_keys cfg')"
    by (rule set_acl_Inr [OF run kept cfg]) (use gone kv in auto)
  have own: "owner \<noteq> bc_owner cfg \<Longrightarrow> owner \<noteq> None" "owner \<noteq> bc_owner cfg \<Longrightarrow> owner \<noteq> Some u"
    using choose_owner_Inr [OF r(1)] gone(3) by (auto split: option.splits)
  then have l: "loses ?old ?new (bc_owner cfg) owner u" using gone by (auto simp: loses_def)
  obtain bwk kv' slot isk where k: "open_verified_bwk B cfg bucket (kv_epoch kv) (au_username auth) slot isk = Inr bwk"
    "find_epoch cfg' bucket (kv_epoch kv) = Inr kv'" "kv_epoch kv' = kv_epoch kv" "kv_sk_blob kv' = kv_sk_blob kv"
    "row_for B get_user bucket bwk kv' u False" "no_session u (sh_sessions s')"
    using resealedE [OF r(3) own(1) kv refl] l inv by metis
  from open_verified_facts [OF k(1)] have bwk: "length bwk = 32" by metis
  have "read_key B cfg' bucket (kv_epoch kv) u i (snd (keypair (be_prims B) (ids i))) = Inl (Forbidden bucket)" if i: "i < CREDENTIAL_SLOTS" for i
    using row_opens [where cfg = cfg', OF P R bwk user pks k(5) _ i] k(2-4) decoys i
    by (simp add: read_key_def slot_plain_def unwrap_with_key_def forbidden_def)
  then show ?thesis using r(2) k(6) by (auto simp: no_session_def)
qed


subsection \<open>A sample update\<close>

definition anyone :: user_lookup where
  "anyone u = Inr (Some sample_user)"

definition bob_reads :: "(string, bucket_permission) dmap" where
  "bob_reads = [(''bob'', Read)]"

definition sample_body :: "(string, bucket_permission) dmap \<Rightarrow> acl_body" where
  "sample_body grants = \<lparr>ab_owner = None, ab_grants = grants, ab_key_epochs = [], ab_generation = 0\<rparr>"

lemma sample_primary: "primary_slots sample_user a = \<lparr>gs_identity_pks_b64 = slot_pks keyed_prims (\<lambda>i. []) 0 CREDENTIAL_SLOTS,
    gs_authorized = (replicate CREDENTIAL_SLOTS False)[0 := a]\<rparr>" "ur_primary_slot sample_user = 0"
  by (simp_all add: primary_slots_def sample_user_def comp_def)

lemma sample_reseal:
  assumes "length bwk = 32"
  obtains kv' where "reseal_grantee sample_bk_env anyone bucket kv user bwk a = Inr kv'"
proof -
  have "prims_ok (be_prims sample_bk_env)" using keyed_prims_ok by simp
  from seal_grant_total [OF this sample_slots_ok(4) assms, of "primary_slots sample_user a" "\<lambda>i. []" bucket "kv_epoch kv" user]
  obtain sealed where "seal_grant_slots sample_bk_env bucket (kv_epoch kv) user (primary_slots sample_user a) bwk = Inr sealed"
    by (auto simp: sample_primary)
  then show ?thesis
    by (cases a; intro that) (simp_all add: reseal_grantee_def lookup_user_def anyone_def put_grant_slot_def index_set_def sample_primary
        CREDENTIAL_SLOTS_def replicate_update_same)
qed

lemma sample_readers [simp]: "read_implying_grantees [] = []" "read_implying_grantees bob_reads = [''bob'']"
  by (simp_all add: read_implying_grantees_def bob_reads_def)

lemma sample_change:
  assumes "current_key cfg = Some (sample_kv 0)" and "find_epoch cfg ''b'' 0 = Inr (sample_kv 0)" and "bc_owner cfg = Some ''alice''"
    and "old = [] \<and> new = [''bob''] \<or> old = [''bob''] \<and> new = []"
  obtains s1 cfg1 where "seal_acl_change sample_bk_env anyone open_auth ''b'' old new (Some ''alice'') cfg (sample_share cfg0) = (s1, Inr cfg1)"
proof -
  obtain kv1 kv2 where k: "reseal_grantee sample_bk_env anyone ''b'' (sample_kv 0) ''bob'' (replicate 32 1) True = Inr kv1"
    "reseal_grantee sample_bk_env anyone ''b'' (sample_kv 0) ''bob'' (replicate 32 1) False = Inr kv2"
    using sample_reseal [of "replicate 32 1"] by (metis length_replicate)
  show ?thesis
    using assms(1,3,4) sample_open_own [OF assms(2)]
    by (elim disjE conjE; intro that)
      (simp_all add: seal_acl_change_def sample_kv_facts(1) sbind_def slift_def sret_def supd_def reseal_grants_def k revoke_one_def)
qed

lemma trim_bob: "str_trim ''bob'' = ''bob''"
  by code_simp

text \<open>Alice, who owns the bucket, gives Bob read access, or takes it from him.\<close>

lemma sample_update:
  assumes "acl0 = [] \<and> acl1 = bob_reads \<or> acl0 = bob_reads \<and> acl1 = []"
  obtains s' view where "set_acl sample_bk_env sample_ops anyone open_auth ''b'' (sample_body acl1) (sample_share (one_epoch\<lparr>bc_acl := acl0\<rparr>)) = (s', Inr view)"
proof -
  let ?old = "one_epoch\<lparr>bc_acl := acl0\<rparr>"
  let ?cfg = "?old\<lparr>bc_owner := Some ''alice'', bc_acl := acl1\<rparr>"
  have "current_key ?cfg = Some (sample_kv 0)" "find_epoch ?cfg ''b'' 0 = Inr (sample_kv 0)"
    by (simp_all add: current_key_def find_epoch_def one_epoch_def sample_kv_facts(1))
  then obtain s1 cfg1 where c: "seal_acl_change sample_bk_env anyone open_auth ''b'' (read_implying_grantees acl0) (read_implying_grantees acl1)
      (Some ''alice'') ?cfg (sample_share ?old) = (s1, Inr cfg1)"
    by (rule sample_change [where old = "read_implying_grantees acl0" and new = "read_implying_grantees acl1" and ?cfg0.0 = ?old])
      (use assms in auto)
  have o: "bc_owner ?old = Some ''alice''" "bc_acl_generation ?old = 0" "bc_acl ?old = acl0"
    by (simp_all add: one_epoch_def default_bucket_config_def)
  have "check_grants (Some ''alice'') (sort (map fst acl1)) = Inr ()"
    using assms by (auto simp: bob_reads_def trim_bob)
  then show ?thesis
    using c o by (intro that) (simp add: set_acl_def sbind_def sample_authorize require_bucket_def sh_bucket_exists_def sret_def
        authoritative_config_def sample_body_def choose_owner_def persist_config_def Let_def)
qed

lemma sample_one_epoch: "current_key (one_epoch\<lparr>bc_acl := acl0\<rparr>) = Some (sample_kv 0)" "kv_epoch (sample_kv 0) = 0"
  "distinct (map kv_epoch (bc_keys (one_epoch\<lparr>bc_acl := acl0\<rparr>)))" "bc_acl (one_epoch\<lparr>bc_acl := acl0\<rparr>) = acl0"
  "prims_ok (be_prims sample_bk_env)" "anyone ''bob'' = Inr (Some sample_user)"
  by (simp_all add: current_key_def one_epoch_def sample_kv_facts(1) keyed_prims_ok anyone_def)

lemma sample_body_simps [simp]: "ab_grants (sample_body acl1) = acl1" "ab_owner (sample_body acl1) = None" "ab_generation (sample_body acl1) = 0"
  by (simp_all add: sample_body_def)

theorem acl_update_effect_witness:
  "\<exists>s' view cfg'. set_acl sample_bk_env sample_ops anyone open_auth ''b'' (sample_body bob_reads) (sample_share (one_epoch\<lparr>bc_acl := []\<rparr>)) = (s', Inr view)
     \<and> op_get_bucket_config sample_ops (sh_store s') ''b'' = Inr cfg' \<and> bc_acl cfg' = bob_reads \<and> bc_acl_generation cfg' = 1"
proof -
  obtain s' view where run: "set_acl sample_bk_env sample_ops anyone open_auth ''b'' (sample_body bob_reads) (sample_share (one_epoch\<lparr>bc_acl := []\<rparr>)) = (s', Inr view)"
    by (rule sample_update [of "[]" bob_reads]) auto
  have "bc_acl_generation (one_epoch\<lparr>bc_acl := []\<rparr>) = 0" by (simp add: one_epoch_def default_bucket_config_def)
  then show ?thesis
    using acl_update_effect [OF run sample_config_kept, of "one_epoch\<lparr>bc_acl := []\<rparr>"] run by auto
qed

theorem granted_reader_reads_witness:
  "\<exists>s' view cfg' sk. set_acl sample_bk_env sample_ops anyone open_auth ''b'' (sample_body bob_reads) (sample_share (one_epoch\<lparr>bc_acl := []\<rparr>)) = (s', Inr view)
     \<and> op_get_bucket_config sample_ops (sh_store s') ''b'' = Inr cfg'
     \<and> read_key sample_bk_env cfg' ''b'' 0 ''bob'' 0 (snd (keypair keyed_prims [])) = Inr sk"
proof -
  obtain s' view where run: "set_acl sample_bk_env sample_ops anyone open_auth ''b'' (sample_body bob_reads) (sample_share (one_epoch\<lparr>bc_acl := []\<rparr>)) = (s', Inr view)"
    by (rule sample_update [of "[]" bob_reads]) auto
  show ?thesis
    using granted_reader_reads [OF run sample_config_kept _ sample_one_epoch(1,3) [of "[]"] sample_one_epoch(5) sample_slots_ok(4) _ sample_one_epoch(6), where ids = "\<lambda>i. []"] run
    by (auto simp: sample_one_epoch sample_primary)
qed

theorem revoked_reader_locked_out_witness:
  "\<exists>s' view cfg'. set_acl sample_bk_env sample_ops anyone open_auth ''b'' (sample_body []) (sample_share (one_epoch\<lparr>bc_acl := bob_reads\<rparr>)) = (s', Inr view)
     \<and> op_get_bucket_config sample_ops (sh_store s') ''b'' = Inr cfg'
     \<and> (\<forall>i < CREDENTIAL_SLOTS. read_key sample_bk_env cfg' ''b'' 0 ''bob'' i (snd (keypair keyed_prims [])) = Inl (Forbidden ''b''))"
proof -
  obtain s' view where run: "set_acl sample_bk_env sample_ops anyone open_auth ''b'' (sample_body []) (sample_share (one_epoch\<lparr>bc_acl := bob_reads\<rparr>)) = (s', Inr view)"
    by (rule sample_update [of bob_reads "[]"]) auto
  show ?thesis
    using revoked_reader_locked_out [OF run sample_config_kept _ sample_one_epoch(1) [of bob_reads] sample_one_epoch(5) sample_slots_ok(4) _ sample_one_epoch(6), where ids = "\<lambda>i. []"] run
      sample_kv_blob
    by (auto simp: sample_one_epoch dm_inv_def)
qed

end
