(* ===== verification/Persona_Laws.thy ===== *)
theory Persona_Laws
  imports Access_List_Laws
begin

text \<open>
  Sharing a bucket between the personas of one account: the row of the account is sealed anew, for the caller's persona and the
  target alone.
\<close>

lemma share_epoch_changed:
  assumes run: "share_epoch B ops auth bucket pks target authorize i (cfg, False) s = (s', Inr (cfg', True))"
  obtains bwk isk auths sealed where
    "open_verified_bwk B cfg bucket (kv_epoch (bc_keys cfg ! i)) (au_username auth) (unat (si_persona (sh_session s'))) isk = Inr bwk"
    and "unat (si_persona (sh_session s')) < CREDENTIAL_SLOTS" and "target < CREDENTIAL_SLOTS"
    and "auths = (replicate CREDENTIAL_SLOTS False)[unat (si_persona (sh_session s')) := True, target := authorize]"
    and "seal_grant_slots B bucket (kv_epoch (bc_keys cfg ! i)) (au_username auth)
      \<lparr>gs_identity_pks_b64 = pks, gs_authorized = auths\<rparr> bwk = Inr sealed"
    and "cfg' = cfg\<lparr>bc_keys := (bc_keys cfg)[i := (bc_keys cfg ! i)\<lparr>kv_grants := dm_insert (au_username auth) sealed (kv_grants (bc_keys cfg ! i))\<rparr>]\<rparr>"
proof -
  obtain s1 d where a: "sh_authorize B ops auth bucket Read s = (s1, Inr d)"
    using run by (cases "sh_authorize B ops auth bucket Read s"; cases "snd (sh_authorize B ops auth bucket Read s)")
      (auto simp: share_epoch_def sbind_def stry_def sret_def)
  obtain bwk where o: "open_own_bwk B auth cfg bucket (kv_epoch (bc_keys cfg ! i)) s1 = (s1, Inr bwk)"
    using run a open_own_bwk_frame [of B auth cfg bucket "kv_epoch (bc_keys cfg ! i)" s1]
    by (cases "open_own_bwk B auth cfg bucket (kv_epoch (bc_keys cfg ! i)) s1"; cases "snd (open_own_bwk B auth cfg bucket (kv_epoch (bc_keys cfg ! i)) s1)")
      (auto simp: share_epoch_def sbind_def stry_def sret_def)
  have s': "s' = s1" and rest: "\<exists>auths kv. Option.bind (index_set (unat (si_persona (sh_session s1))) True (replicate CREDENTIAL_SLOTS False)) (index_set target authorize) = Some auths
      \<and> put_grant_slot B (bc_keys cfg ! i) bucket (au_username auth) \<lparr>gs_identity_pks_b64 = pks, gs_authorized = auths\<rparr> bwk = Inr kv
      \<and> cfg' = cfg\<lparr>bc_keys := (bc_keys cfg)[i := kv]\<rparr>"
    using run a o by (auto simp: share_epoch_def sbind_def stry_def sret_def sget_def slift_def split: sum.splits prod.splits option.splits)
  obtain isk where "open_verified_bwk B cfg bucket (kv_epoch (bc_keys cfg ! i)) (au_username auth) (unat (si_persona (sh_session s1))) isk = Inr bwk"
    using o by (auto simp: open_own_bwk_def with_identity_sk_def)
  with rest that show ?thesis unfolding s' by (auto simp: index_set_def put_grant_slot_def split: if_splits)
qed

lemma find_updated:
  "i < length ks \<Longrightarrow> distinct (map kv_epoch ks) \<Longrightarrow> kv_epoch kv = kv_epoch (ks ! i) \<Longrightarrow> find (\<lambda>k. kv_epoch k = kv_epoch (ks ! i)) (ks[i := kv]) = Some kv"
proof (induction ks arbitrary: i)
  case (Cons k ks)
  show ?case
  proof (cases i)
    case (Suc j)
    then have "ks ! j \<in> set ks" using Cons.prems(1) by simp
    then have "kv_epoch k \<noteq> kv_epoch (ks ! j)" using Cons.prems(2) by auto
    then show ?thesis using Cons Suc by simp
  qed (use Cons.prems in simp)
qed simp

text \<open>C36. When a persona shares an epoch of a bucket's key with another persona of its account, exactly those two can read it afterwards:
  every other persona of the account is locked out, also one that the bucket had been shared with before, and also the primary one.
  When it withdraws a share, it alone can read it.\<close>

theorem persona_share_exact:
  assumes run: "share_epoch B ops auth bucket (slot_pks (be_prims B) ids 0 CREDENTIAL_SLOTS) target authorize i (cfg, False) s = (s', Inr (cfg', True))"
    and i: "i < length (bc_keys cfg)" "distinct (map kv_epoch (bc_keys cfg))" and kv: "kv = bc_keys cfg ! i"
    and P: "prims_ok (be_prims B)" and R: "rand_ok B" and mem: "en_mem (be_sec B) = None" and other: "target \<noteq> unat (si_persona (sh_session s'))"
    and decoys: "\<forall>j < CREDENTIAL_SLOTS. gcm_open (be_prims B) (snd (snd (be_rand B (au_username auth) j))) (ws_nonce (kv_sk_blob kv))
      (bucket_sk_wrap_aad bucket (kv_epoch kv)) (ws_ciphertext (kv_sk_blob kv)) = None"
  shows "\<exists>sk. \<forall>j < CREDENTIAL_SLOTS. read_key B cfg' bucket (kv_epoch kv) (au_username auth) j (snd (keypair (be_prims B) (ids j))) =
    (if j = unat (si_persona (sh_session s')) \<or> j = target \<and> authorize then Inr sk else Inl (Forbidden bucket))"
proof -
  let ?p = "unat (si_persona (sh_session s'))"
  obtain bwk isk auths sealed where r: "open_verified_bwk B cfg bucket (kv_epoch kv) (au_username auth) ?p isk = Inr bwk"
    "?p < CREDENTIAL_SLOTS" "target < CREDENTIAL_SLOTS" "auths = (replicate CREDENTIAL_SLOTS False)[?p := True, target := authorize]"
    "seal_grant_slots B bucket (kv_epoch kv) (au_username auth)
      \<lparr>gs_identity_pks_b64 = slot_pks (be_prims B) ids 0 CREDENTIAL_SLOTS, gs_authorized = auths\<rparr> bwk = Inr sealed"
    "cfg' = cfg\<lparr>bc_keys := (bc_keys cfg)[i := kv\<lparr>kv_grants := dm_insert (au_username auth) sealed (kv_grants kv)\<rparr>]\<rparr>"
    using share_epoch_changed [OF run, folded kv] .
  let ?kv = "kv\<lparr>kv_grants := dm_insert (au_username auth) sealed (kv_grants kv)\<rparr>"
  have "find_epoch cfg bucket (kv_epoch kv) = Inr kv" using find_updated [OF i, of kv] kv by (simp add: find_epoch_def)
  with open_verified_facts [OF r(1)] obtain sk where sk: "length bwk = 32"
    "unwrap_with_key (be_prims B) (kv_sk_blob kv) bwk (bucket_sk_wrap_aad bucket (kv_epoch kv)) = Inr sk" by (metis Inr_inject)
  have find: "find_epoch cfg' bucket (kv_epoch kv) = Inr ?kv" using find_updated [OF i, of ?kv] kv r(6) by (simp add: find_epoch_def)
  have "read_key B cfg' bucket (kv_epoch kv) (au_username auth) j (snd (keypair (be_prims B) (ids j))) =
      (if j = ?p \<or> j = target \<and> authorize then Inr sk else Inl (Forbidden bucket))" if j: "j < CREDENTIAL_SLOTS" for j
  proof -
    have "open_bwk B cfg' bucket (kv_epoch kv) (au_username auth) j (snd (keypair (be_prims B) (ids j))) = Inr (slot_plain B (au_username auth) bwk j (auths ! j))"
      using open_bwk_slot [OF P R sk(1), where kv = ?kv and config = cfg' and B' = B and i = j and ids = ids and sealed = sealed and user = "au_username auth"
          and bucket = bucket and slots = "\<lparr>gs_identity_pks_b64 = slot_pks (be_prims B) ids 0 CREDENTIAL_SLOTS, gs_authorized = auths\<rparr>"] r(4,5) find j by simp
    moreover have "auths ! j = (j = ?p \<or> j = target \<and> authorize)" using r(2-4) j other by (auto simp: nth_list_update)
    ultimately show ?thesis using find sk(2) mem decoys j by (auto simp: read_key_def slot_plain_def unwrap_with_key_def forbidden_def)
  qed
  then show ?thesis by blast
qed

lemma share_epoch_run:
  assumes "sh_authorize B ops auth bucket Read s = (s1, Inr d)"
    and "open_own_bwk B auth cfg bucket (kv_epoch (bc_keys cfg ! i)) s1 = (s1, Inr bwk)"
    and "Option.bind (index_set (unat (si_persona (sh_session s1))) True (replicate CREDENTIAL_SLOTS False)) (index_set target authorize) = Some auths"
    and "put_grant_slot B (bc_keys cfg ! i) bucket (au_username auth) \<lparr>gs_identity_pks_b64 = pks, gs_authorized = auths\<rparr> bwk = Inr kv"
  shows "share_epoch B ops auth bucket pks target authorize i (cfg, c) s = (s1, Inr (cfg\<lparr>bc_keys := (bc_keys cfg)[i := kv]\<rparr>, True))"
  using assms by (simp add: share_epoch_def sbind_def stry_def sget_def slift_def sret_def)

theorem persona_share_exact_witness:
  "\<exists>s' cfg' sk. share_epoch sample_bk_env sample_ops open_auth ''b'' (slot_pks keyed_prims (\<lambda>i. []) 0 CREDENTIAL_SLOTS) 1 True 0 (one_epoch, False) (sample_share one_epoch)
       = (s', Inr (cfg', True))
     \<and> read_key sample_bk_env cfg' ''b'' 0 ''alice'' 1 (snd (keypair keyed_prims [])) = Inr sk
     \<and> read_key sample_bk_env cfg' ''b'' 0 ''alice'' 2 (snd (keypair keyed_prims [])) = Inl (Forbidden ''b'')"
proof -
  let ?pks = "slot_pks keyed_prims (\<lambda>i. []) 0 CREDENTIAL_SLOTS"
  let ?slots = "\<lparr>gs_identity_pks_b64 = ?pks, gs_authorized = (replicate CREDENTIAL_SLOTS False)[0 := True, 1 := True]\<rparr>"
  have keys: "bc_keys one_epoch = [sample_kv 0]" by (simp add: one_epoch_def)
  obtain sealed where sealed: "seal_grant_slots sample_bk_env ''b'' 0 ''alice'' ?slots (replicate 32 1) = Inr sealed"
    using seal_grant_total [OF sample_one_epoch(5) sample_slots_ok(4), of "replicate 32 1" ?slots "\<lambda>i. []" "''b''" 0 "''alice''"] by auto
  have own: "open_own_bwk sample_bk_env open_auth one_epoch ''b'' 0 (sample_share one_epoch) = (sample_share one_epoch, Inr (replicate 32 1))"
    by (rule sample_open_own) (simp add: find_epoch_def keys sample_kv_facts(1))
  have persona: "si_persona claim_session = 0" "au_username open_auth = ''alice''" by (simp_all add: claim_session_def open_auth_def)
  let ?cfg = "one_epoch\<lparr>bc_keys := [(sample_kv 0)\<lparr>kv_grants := dm_insert ''alice'' sealed (kv_grants (sample_kv 0))\<rparr>]\<rparr>"
  have auths: "Option.bind (index_set (unat (0 :: u8)) True (replicate CREDENTIAL_SLOTS False)) (index_set 1 True)
      = Some ((replicate CREDENTIAL_SLOTS False)[0 := True, 1 := True])" by (simp add: index_set_def CREDENTIAL_SLOTS_def)
  have run: "share_epoch sample_bk_env sample_ops open_auth ''b'' ?pks 1 True 0 (one_epoch, False) (sample_share one_epoch)
      = (sample_share one_epoch, Inr (?cfg, True))"
    by (subst share_epoch_run [OF sample_authorize, where bwk = "replicate 32 1" and kv = "(sample_kv 0)\<lparr>kv_grants := dm_insert ''alice'' sealed (kv_grants (sample_kv 0))\<rparr>"
        and auths = "(replicate CREDENTIAL_SLOTS False)[0 := True, 1 := True]"])
      (use own auths sealed in \<open>simp_all add: keys sample_kv_facts(1) persona put_grant_slot_def\<close>)
  have run': "share_epoch sample_bk_env sample_ops open_auth ''b'' (slot_pks (be_prims sample_bk_env) (\<lambda>i. []) 0 CREDENTIAL_SLOTS) 1 True 0
      (one_epoch, False) (sample_share one_epoch) = (sample_share one_epoch, Inr (?cfg, True))" using run by simp
  have "\<exists>sk. \<forall>j < CREDENTIAL_SLOTS. read_key sample_bk_env ?cfg ''b'' (kv_epoch (sample_kv 0)) (au_username open_auth) j (snd (keypair (be_prims sample_bk_env) [])) =
      (if j = unat (si_persona (sh_session (sample_share one_epoch))) \<or> j = 1 \<and> True then Inr sk else Inl (Forbidden ''b''))"
    by (rule persona_share_exact [OF run']) (simp_all only: keys list.size nth_Cons_0 sample_one_epoch(5) sample_slots_ok(4) sample_bk_simps
        sample_share_simps persona sample_kv_blob keyed_prims_ok prod.sel, simp_all)
  then obtain sk where sk: "\<And>j. j < CREDENTIAL_SLOTS \<Longrightarrow> read_key sample_bk_env ?cfg ''b'' 0 ''alice'' j (snd (keypair keyed_prims []))
      = (if j = 0 \<or> j = 1 then Inr sk else Inl (Forbidden ''b''))" unfolding sample_kv_facts(1) persona sample_share_simps sample_bk_simps by auto
  have "read_key sample_bk_env ?cfg ''b'' 0 ''alice'' 1 (snd (keypair keyed_prims [])) = Inr sk"
    "read_key sample_bk_env ?cfg ''b'' 0 ''alice'' 2 (snd (keypair keyed_prims [])) = Inl (Forbidden ''b'')"
    using sk [of 1] sk [of 2] unfolding CREDENTIAL_SLOTS_def by simp_all
  with run show ?thesis by blast
qed

end
