(* ===== verification/Spec2Isabelle.thy ===== *)
theory Spec2Isabelle
  imports Envelope_Laws Lock_Registry Encrypted_Backend_Laws Filesystem_Rebuild Header_Upgrade_Laws Aws_Chunked_Laws S3_Auth_Laws Deletion_Laws
    Cipher_Laws Rekey_Laws Rekey_Registry Persona_Laws
begin

text \<open>
  A verification library for y2q, an object store that encrypts everything it keeps. The daemon (\<open>crates/y2qd\<close>) serves an HTTP and an S3
  interface; the storage core (\<open>crates/y2q-core\<close>) keeps objects as sealed files with an encrypted index beside them.

  \<^bold>\<open>The program and its model.\<close> An upload passes the authentication of its request (sessions, or S3 signatures), the authorization of its
  bucket, the encryption adapter, which seals the body into an envelope under the public key of the newest epoch of the bucket, and the
  storage backend, which writes the envelope as an object file and enters it in the index. A download goes the other way, through the grant
  that gives the caller's persona the secret key of the bucket. One theory holds the definitions of a component, in the order of the
  source, and its \<open>_Laws\<close> theory the lemmas and properties:

  \<^item> \<open>Y2Q_Prelude\<close>, \<open>Rust_Text\<close>: machine words, big- and little-endian codecs, results (\<open>'e + 'a\<close>), stateful computations with errors (\<open>sbind\<close>),
    maps, the parts of \<open>std::str\<close> in use. \<open>Core_Types\<close>: the data model and the error enums (\<open>y2q-core/src/lib.rs\<close>, \<open>y2qd/src/error.rs\<close>).
  \<^item> \<open>Crypto_Prims\<close>: the primitives (\<open>crypto_prims\<close>, a parameter) with the laws that are assumed of them, and the wrappers \<open>kem.rs\<close>,
    \<open>checksum.rs\<close>, \<open>streaming_sink.rs\<close>. \<open>Envelope\<close>, \<open>Envelope_Laws\<close>: \<open>crypto/envelope.rs\<close>. The writer and the readers are inverse, a truncated
    body is detected, the two whole-object readers agree.
  \<^item> \<open>Node_Keys\<close>, \<open>Object_Format\<close>, \<open>Lock_Registry\<close>: \<open>crypto/node_keys.rs\<close>, \<open>storage/format.rs\<close>, \<open>storage/locks.rs\<close>. At most one guard holds a key
    as long as no lock is cleared under a running writer.
  \<^item> \<open>Encrypted_Backend\<close>, \<open>Encrypted_Backend_Laws\<close>: \<open>storage/encrypted_backend.rs\<close>. The encrypted file refines a plain one, and no nonce is used twice.
  \<^item> \<open>Ordered_Table\<close>, \<open>Label_Query\<close>, \<open>Metadata_Index\<close>, \<open>Metadata_Index_Laws\<close>: \<open>storage/index.rs\<close>, \<open>query/mod.rs\<close>. Consistency of the tables, exact and
    complete pages.
  \<^item> \<open>File_Tree\<close>, \<open>Filesystem_Storage\<close>, \<open>Filesystem_Laws\<close>, \<open>Filesystem_Layout\<close>, \<open>Filesystem_Properties\<close>, \<open>Filesystem_Runs\<close>,
    \<open>Filesystem_Rebuild\<close>: \<open>storage/filesystem.rs\<close> over a tree in which every system call can fail. A put leaves the old object or its own record,
    of which the last, never flushed write may be cut off; what is read back is what was put or an error; the layout is kept and no other files
    appear in any run of operations; the index can be rebuilt from the files.
  \<^item> \<open>Key_Rotation\<close>, \<open>Rotation_Laws\<close>, \<open>Header_Upgrade_Laws\<close>: \<open>storage/rotation.rs\<close>. A rotation keeps every object and loses none under failures;
    two cases in which it does not do what it says.
  \<^item> \<open>Session_Store\<close>, \<open>Session_Laws\<close>, \<open>Accounts\<close>, \<open>Auth_Handlers\<close>, \<open>Account_Samples\<close>, \<open>Auth_Laws\<close>, \<open>Login_Laws\<close>, \<open>Deletion_Laws\<close>: \<open>auth/\<close>,
    \<open>crypto/kdf.rs\<close>, \<open>crypto/user_store.rs\<close>. The session table is sound, accounts stay well-formed and an administrator remains whatever other
    requests do during a key derivation, a login is admitted exactly when it should be, a deleted account leaves nothing.
  \<^item> \<open>Bucket_Keys\<close>, \<open>Bucket_Keys_Laws\<close>, \<open>Authz\<close>: \<open>bucket_keys.rs\<close>, \<open>crypto/seal.rs\<close>, \<open>authz.rs\<close>, \<open>quota.rs\<close>. A capability needs
    the role and the key of the bucket: one cached in the session, or a sealed grant that opens.
  \<^item> \<open>Bucket_Sharing\<close>, \<open>Bucket_Sharing_Laws\<close>, \<open>Access_List_Laws\<close>, \<open>Rekey_Laws\<close>, \<open>Rekey_Registry\<close>, \<open>Persona_Laws\<close>: \<open>handlers/acl.rs\<close>, \<open>handlers/keys.rs\<close>,
    \<open>handlers/personas.rs\<close>. A new reader gets the key and a removed one loses it with its sessions, a rekey keeps the content of an object, and
    three defects.
  \<^item> \<open>Cipher\<close>, \<open>Cipher_Laws\<close>: \<open>cipher.rs\<close>. What is uploaded, in whatever slices, is streamed back for every range, through the envelope
    and the filesystem backend.
  \<^item> \<open>S3_State\<close>, \<open>S3_Sigv4\<close>, \<open>S3_Auth\<close>, \<open>S3_Auth_Laws\<close>, \<open>Aws_Chunked\<close>, \<open>Aws_Chunked_Laws\<close>: \<open>s3/\<close>. A request is accepted exactly when its signature,
    dates and session are good, a chunked body only when every chunk is signed, and a transfer outlives its session by a bounded amount.

  \<^bold>\<open>State and errors.\<close> The state of a component is a record with the fields of its struct; an operation takes and returns it. A \<open>Result\<close> is a sum, a
  panic is \<open>None\<close> (or the error \<open>None\<close>) where one can happen. System calls, transactions and guarded memory fail as lists of outcomes in the
  state say. A \<open>tokio::fs::File\<close> accepts a write before it is done and reports its error with the next one: a write that another follows is
  \<open>io_write_all\<close>, the last one before the file is dropped is \<open>io_write_last\<close>, whose error is lost.

  \<^bold>\<open>Interleaving.\<close> Where a handler derives keys, and while a rekey job runs, other requests are arbitrary functions of the state (\<open>W\<close>); locks,
  streaming puts, sessions and the rekey registry have step relations over any order of their operations. Everything else runs in one
  step from its first \<open>await\<close> to its last. In particular \<open>set_acl\<close>, \<open>delete_user\<close> and the task of an index rebuild do:
  their properties speak of a request that no other one interrupts. The code holds no lock on a bucket there, so two access list updates
  with the same generation can both be accepted when they overlap, and a rebuild runs beside puts.

  \<^bold>\<open>Interfaces.\<close> The laws one component relies on are locales, interpreted on the definitions that provide them: \<open>fixed_codec\<close> (the six integer
  codecs), \<open>kv_store\<close> (the maps and the ordered tables), \<open>byte_store\<close> (the encrypted file), \<open>pager\<close> (listing and search), \<open>flat_format\<close>
  (serialised records), \<open>ranged_object\<close> (ranged reads of the filesystem backend, on which the download stream rests).

  \<^bold>\<open>Parameters.\<close> AES-GCM, HKDF, ML-KEM, HMAC, SHA-256, Argon2id, CRC32, XXH3 and base64; the JSON and redb encodings, for which the round trip is
  assumed; the pest parser and the regular expressions of label queries; clocks and random bytes; the displayed texts of errors. Each law assumed
  of a parameter is satisfied by the concrete functions of the witnesses (\<open>plain_prims\<close>, \<open>keyed_prims\<close> and the sample environments).

  \<^bold>\<open>Termination and bounds.\<close> Loops are structural or have a measure. Loops that follow pages of a storage are bounded by fuel (\<open>usage_loop\<close>,
  \<open>follow_pages\<close>: the number of rows is enough) or are partial functions (\<open>collect_stale_keys\<close>), and the decoder of chunked bodies is bounded by
  the bytes that arrive. Integers have their width; where the source wraps or saturates, the model does.

  \<^bold>\<open>Not modelled.\<close> The io_uring backend (kernel rings and unsafe I/O with the contract of the filesystem backend) and the dispatch between the two;
  the key file of the node, the registry of TPM and FIDO2 devices and the guarded pages of memory (file handling, hardware and operating
  system); routing, request parsing and response bodies of the remaining HTTP and S3 handlers; assembly, configuration and setup of the daemon;
  the FUSE client, the command line and terminal interface, the HTTP client and the load generator, which are clients of the interface.
\<close>

end
